(* ===== verification/Prelude.thy ===== *)
theory Prelude
  imports Main "HOL-Library.Sublist"
begin

text \<open>
  Vocabulary shared by every component: results that may fail, the
  state-and-exception monad in which the agent loop is written, Python's
  \<^verbatim>\<open>str.split\<close> / \<^verbatim>\<open>str.join\<close>, and generic facts about lists and
  association lists (a Python \<^verbatim>\<open>dict\<close> keeps insertion order, so it is an
  association list with distinct keys).

  Two readings of a Python \<^verbatim>\<open>str\<close> are used.  Where the code only compares,
  stores or transports text (identifiers, names, JSON text) a string is the
  \<open>string\<close> of its UTF-8 bytes.  Where the code counts or cuts characters it is
  a list of code points (\<open>text\<close>).
\<close>

section \<open>Fact collections\<close>

named_theorems result_simps \<open>unfolding of the result and exception combinators\<close>
named_theorems wf_intros \<open>introduction rules of well-formedness invariants\<close>

section \<open>Results\<close>

type_synonym ('e, 'a) result = "'e + 'a"

definition bindE :: "'e + 'a \<Rightarrow> ('a \<Rightarrow> 'e + 'b) \<Rightarrow> 'e + 'b" where
  "bindE r f = (case r of Inl e \<Rightarrow> Inl e | Inr x \<Rightarrow> f x)"

lemma bindE_simps [simp]:
  "bindE (Inl e) f = Inl e"
  "bindE (Inr x) f = f x"
  by (simp_all add: bindE_def)

lemma bindE_eq_Inr:
  "bindE r f = Inr y \<longleftrightarrow> (\<exists>x. r = Inr x \<and> f x = Inr y)"
  by (cases r) simp_all

lemma bindE_eq_Inl:
  "bindE r f = Inl e \<longleftrightarrow> r = Inl e \<or> (\<exists>x. r = Inr x \<and> f x = Inl e)"
  by (cases r) simp_all

lemma bindE_cong [fundef_cong]:
  "r = r' \<Longrightarrow> (\<And>x. r' = Inr x \<Longrightarrow> f x = g x) \<Longrightarrow> bindE r f = bindE r' g"
  by (cases r') simp_all

definition isInr :: "'e + 'a \<Rightarrow> bool" where
  "isInr r = (case r of Inl _ \<Rightarrow> False | Inr _ \<Rightarrow> True)"

lemma isInr_simps [simp]: "isInr (Inl e) = False" "isInr (Inr x) = True"
  by (simp_all add: isInr_def)

lemma isInr_iff: "isInr r \<longleftrightarrow> (\<exists>x. r = Inr x)"
  by (cases r) simp_all

text \<open>A computation that may also fail to return: \<open>None\<close> is a loop that does not end.\<close>

definition bindD :: "('e + 'a) option \<Rightarrow> ('a \<Rightarrow> ('e + 'b) option) \<Rightarrow> ('e + 'b) option" where
  "bindD r f = (case r of None \<Rightarrow> None | Some (Inl e) \<Rightarrow> Some (Inl e) | Some (Inr x) \<Rightarrow> f x)"

lemma bindD_simps [simp]:
  "bindD None f = None"
  "bindD (Some (Inl e)) f = Some (Inl e)"
  "bindD (Some (Inr x)) f = f x"
  by (simp_all add: bindD_def)

section \<open>Splitting and joining\<close>

text \<open>\<^verbatim>\<open>s.split(sep)\<close> for a one-character separator, and \<^verbatim>\<open>sep.join(parts)\<close>.\<close>

fun split_on :: "'a \<Rightarrow> 'a list \<Rightarrow> 'a list list" where
  "split_on d [] = [[]]"
| "split_on d (c # cs) =
     (if c = d then [] # split_on d cs
      else (case split_on d cs of [] \<Rightarrow> [[c]] | l # ls \<Rightarrow> (c # l) # ls))"

fun join_with :: "'a \<Rightarrow> 'a list list \<Rightarrow> 'a list" where
  "join_with d [] = []"
| "join_with d [l] = l"
| "join_with d (l # ls) = l @ d # join_with d ls"

lemma split_on_not_Nil [simp]: "split_on d s \<noteq> []"
  by (induction s) (auto split: list.splits)

lemma join_with_Cons: "ls \<noteq> [] \<Longrightarrow> join_with d (l # ls) = l @ d # join_with d ls"
  by (cases ls) simp_all

lemma join_split_on [simp]: "join_with d (split_on d s) = s"
proof (induction s)
  case Nil
  then show ?case by simp
next
  case (Cons c s)
  obtain l ls where "split_on d s = l # ls"
    by (metis neq_Nil_conv split_on_not_Nil)
  with Cons show ?case by (cases ls) auto
qed

lemma split_on_no_sep: "l \<in> set (split_on d s) \<Longrightarrow> d \<notin> set l"
  by (induction s arbitrary: l) (auto split: if_splits list.splits)

lemma split_on_line: "d \<notin> set l \<Longrightarrow> split_on d l = [l]"
  by (induction l) auto

lemma split_on_append_sep: "d \<notin> set l \<Longrightarrow> split_on d (l @ d # s) = l # split_on d s"
  by (induction l) auto

lemma split_join:
  "ls \<noteq> [] \<Longrightarrow> (\<forall>l \<in> set ls. d \<notin> set l) \<Longrightarrow> split_on d (join_with d ls) = ls"
  by (induction ls rule: list_nonempty_induct)
     (auto simp: split_on_line join_with_Cons split_on_append_sep)

lemma join_with_append:
  "xs \<noteq> [] \<Longrightarrow> ys \<noteq> [] \<Longrightarrow>
    join_with d (xs @ ys) = join_with d xs @ d # join_with d ys"
  by (induction xs rule: list_nonempty_induct) (auto simp: join_with_Cons)

lemma join_with_snoc:
  "xs \<noteq> [] \<Longrightarrow> join_with d (xs @ [y]) = join_with d xs @ d # y"
  by (simp add: join_with_append)

lemma join_with_take_prefix: "prefix (join_with d (take n ls)) (join_with d ls)"
proof (cases "take n ls = [] \<or> drop n ls = []")
  case True
  then show ?thesis
  proof
    assume "take n ls = []" then show ?thesis by (simp only: join_with.simps) simp
  next
    assume "drop n ls = []" then show ?thesis by (simp add: take_all)
  qed
next
  case False
  then have "join_with d (take n ls @ drop n ls)
      = join_with d (take n ls) @ d # join_with d (drop n ls)"
    by (intro join_with_append) auto
  then show ?thesis by (simp add: prefix_def)
qed

lemma join_with_drop_suffix: "suffix (join_with d (drop n ls)) (join_with d ls)"
proof (cases "take n ls = [] \<or> drop n ls = []")
  case True
  then show ?thesis by (metis append_Nil append_take_drop_id join_with.simps(1)
      suffix_bot.bot_least suffix_order.order_refl)
next
  case False
  then have "join_with d (take n ls @ drop n ls)
      = join_with d (take n ls) @ d # join_with d (drop n ls)"
    by (intro join_with_append) auto
  then show ?thesis unfolding suffix_def
    by (metis append_Cons append_Nil append_assoc append_take_drop_id)
qed

section \<open>Code points\<close>

type_synonym codepoint = nat
type_synonym "text" = "codepoint list"

definition cps :: "string \<Rightarrow> text" where
  "cps s = map of_char s"

abbreviation (input) newline :: codepoint where
  "newline \<equiv> 10"

section \<open>Decimal text\<close>

text \<open>Decimal rendering of a Python \<^verbatim>\<open>int\<close>, as \<^verbatim>\<open>str\<close> and f-strings print it.\<close>

fun nat_digits :: "nat \<Rightarrow> string" where
  "nat_digits n =
     (if n < 10 then [char_of (48 + n)]
      else nat_digits (n div 10) @ [char_of (48 + n mod 10)])"

declare nat_digits.simps [simp del]

definition py_str_int :: "int \<Rightarrow> string" where
  "py_str_int i = (if i < 0 then ''-'' @ nat_digits (nat (- i)) else nat_digits (nat i))"

section \<open>Ordered dictionaries\<close>

text \<open>\<^verbatim>\<open>d[k] = v\<close> keeps the position of an existing key and appends a new one;
  \<^verbatim>\<open>d.pop(k, None)\<close> deletes the key.\<close>

type_synonym ('k, 'v) odict = "('k \<times> 'v) list"

fun dict_set :: "'k \<Rightarrow> 'v \<Rightarrow> ('k, 'v) odict \<Rightarrow> ('k, 'v) odict" where
  "dict_set k v [] = [(k, v)]"
| "dict_set k v ((k', v') # d) = (if k' = k then (k, v) # d else (k', v') # dict_set k v d)"

definition dict_pop :: "'k \<Rightarrow> ('k, 'v) odict \<Rightarrow> ('k, 'v) odict" where
  "dict_pop k d = filter (\<lambda>p. fst p \<noteq> k) d"

definition dict_keys :: "('k, 'v) odict \<Rightarrow> 'k list" where
  "dict_keys d = map fst d"

lemma map_of_dict_set [simp]: "map_of (dict_set k v d) = (map_of d)(k \<mapsto> v)"
  by (induction d) auto

lemma map_of_dict_pop [simp]: "map_of (dict_pop k d) = (map_of d)(k := None)"
  by (induction d) (auto simp: dict_pop_def)

lemma keys_dict_set [simp]: "fst ` set (dict_set k v d) = insert k (fst ` set d)"
proof (induction d)
  case (Cons p d)
  then show ?case by (cases p) auto
qed simp

lemma distinct_dict_set:
  "distinct (map fst d) \<Longrightarrow> distinct (map fst (dict_set k v d))"
  by (induction d) auto

lemma dict_set_fresh: "k \<notin> fst ` set d \<Longrightarrow> dict_set k v d = d @ [(k, v)]"
  by (induction d) auto

lemma distinct_dict_pop: "distinct (map fst d) \<Longrightarrow> distinct (map fst (dict_pop k d))"
  by (simp add: dict_pop_def distinct_map_filter)

end
