(* ===== verification/Truncate.thy ===== *)
theory Truncate
  imports Prelude
begin

text \<open>
  The output truncation used by every coding tool
  (\<^verbatim>\<open>src/pi_agent/harness/truncate.py\<close>).  A \<^verbatim>\<open>str\<close> is a list of code points;
  \<open>utf8_length\<close> is the length of its UTF-8 encoding with
  \<^verbatim>\<open>errors="replace"\<close>, where a lone surrogate becomes the one-byte \<^verbatim>\<open>?\<close>.
  Both loops stop early, so they are recursions that return the accumulated
  lines, the running byte count and the reason.
\<close>

section \<open>Definitions\<close>

record truncation_result =
  tr_content :: "text"
  tr_truncated :: bool
  tr_truncated_by :: "string option"
  tr_total_lines :: int
  tr_total_bytes :: int
  tr_output_lines :: int
  tr_output_bytes :: int
  tr_last_line_partial :: bool
  tr_first_line_exceeds_limit :: bool
  tr_max_lines :: int
  tr_max_bytes :: int

record truncated_text =
  tt_text :: "text"
  tt_truncated :: bool
  original_chars :: int
  original_lines :: int

definition DEFAULT_MAX_LINES :: int where "DEFAULT_MAX_LINES = 2000"
definition DEFAULT_MAX_BYTES :: int where "DEFAULT_MAX_BYTES = 50 * 1024"
definition GREP_MAX_LINE_LENGTH :: int where "GREP_MAX_LINE_LENGTH = 500"

fun utf8_size :: "codepoint \<Rightarrow> int" where
  "utf8_size c =
     (if c < 128 then 1
      else if c < 2048 then 2
      else if 55296 \<le> c \<and> c \<le> 57343 then 1
      else if c < 65536 then 3 else 4)"

definition utf8_length :: "text \<Rightarrow> int" where
  "utf8_length s = sum_list (map utf8_size s)"

definition validate_limits :: "int \<Rightarrow> int \<Rightarrow> (string, unit) result" where
  "validate_limits ml mb =
     (if ml < 0 then Inl ''max_lines must not be negative''
      else if mb < 0 then Inl ''max_bytes must not be negative''
      else Inr ())"

definition split_lines_for_counting :: "text \<Rightarrow> text list" where
  "split_lines_for_counting s =
     (if s = [] then []
      else if last s = newline then butlast (split_on newline s)
      else split_on newline s)"

definition unchanged_result :: "text \<Rightarrow> int \<Rightarrow> int \<Rightarrow> int \<Rightarrow> int \<Rightarrow> truncation_result" where
  "unchanged_result s nl nb ml mb =
     \<lparr>tr_content = s, tr_truncated = False, tr_truncated_by = None,
      tr_total_lines = nl, tr_total_bytes = nb, tr_output_lines = nl, tr_output_bytes = nb,
      tr_last_line_partial = False, tr_first_line_exceeds_limit = False,
      tr_max_lines = ml, tr_max_bytes = mb\<rparr>"

text \<open>The forward loop.  \<open>first\<close> is \<^verbatim>\<open>index == 0\<close>: only later lines pay for the
  newline that joins them.\<close>

fun head_loop :: "int \<Rightarrow> bool \<Rightarrow> text list \<Rightarrow> int \<Rightarrow> text list \<times> int \<times> string" where
  "head_loop mb first [] used = ([], used, ''lines'')"
| "head_loop mb first (l # ls) used =
     (let lb = utf8_length l + (if first then 0 else 1)
      in if used + lb > mb then ([], used, ''bytes'')
         else (case head_loop mb False ls (used + lb) of
                 (out, b, why) \<Rightarrow> (l # out, b, why)))"

definition truncate_head :: "text \<Rightarrow> int \<Rightarrow> int \<Rightarrow> (string, truncation_result) result" where
  "truncate_head s ml mb = bindE (validate_limits ml mb) (\<lambda>_.
     let nb = utf8_length s;
         ls = split_lines_for_counting s;
         nl = int (length ls)
     in if nl \<le> ml \<and> nb \<le> mb then Inr (unchanged_result s nl nb ml mb)
        else if utf8_length (case ls of [] \<Rightarrow> [] | l # _ \<Rightarrow> l) > mb then
          Inr \<lparr>tr_content = [], tr_truncated = True, tr_truncated_by = Some ''bytes'',
               tr_total_lines = nl, tr_total_bytes = nb, tr_output_lines = 0, tr_output_bytes = 0,
               tr_last_line_partial = False, tr_first_line_exceeds_limit = True,
               tr_max_lines = ml, tr_max_bytes = mb\<rparr>
        else
          (case head_loop mb True (take (nat ml) ls) 0 of (out, used, why) \<Rightarrow>
             let by' = (if int (length out) \<ge> ml \<and> used \<le> mb then ''lines'' else why);
                 rendered = join_with newline out
             in Inr \<lparr>tr_content = rendered, tr_truncated = True, tr_truncated_by = Some by',
                     tr_total_lines = nl, tr_total_bytes = nb,
                     tr_output_lines = int (length out), tr_output_bytes = utf8_length rendered,
                     tr_last_line_partial = False, tr_first_line_exceeds_limit = False,
                     tr_max_lines = ml, tr_max_bytes = mb\<rparr>))"

text \<open>\<^verbatim>\<open>_truncate_utf8_suffix\<close>: walk the characters from the right while they fit.\<close>

fun suffix_loop :: "int \<Rightarrow> text \<Rightarrow> int \<Rightarrow> text" where
  "suffix_loop mb [] used = []"
| "suffix_loop mb (c # cs) used =
     (if used + utf8_size c > mb then [] else c # suffix_loop mb cs (used + utf8_size c))"

definition truncate_utf8_suffix :: "text \<Rightarrow> int \<Rightarrow> text" where
  "truncate_utf8_suffix s mb =
     (if mb \<le> 0 then [] else rev (suffix_loop mb (rev s) 0))"

text \<open>The backward loop over \<^verbatim>\<open>reversed(lines)\<close>; \<open>out\<close> is the list the code grows at
  the front.  The result adds the flag \<^verbatim>\<open>last_line_partial\<close>.\<close>

fun tail_loop :: "int \<Rightarrow> int \<Rightarrow> text list \<Rightarrow> text list \<Rightarrow> int \<Rightarrow> text list \<times> int \<times> string \<times> bool" where
  "tail_loop ml mb [] out used = (out, used, ''lines'', False)"
| "tail_loop ml mb (l # ls) out used =
     (if int (length out) \<ge> ml then (out, used, ''lines'', False)
      else let lb = utf8_length l + (if out = [] then 0 else 1)
           in if used + lb > mb then
                (if out = [] then
                   let sfx = truncate_utf8_suffix l mb
                   in ([sfx], utf8_length sfx, ''bytes'', True)
                 else (out, used, ''bytes'', False))
              else tail_loop ml mb ls (l # out) (used + lb))"

definition truncate_tail :: "text \<Rightarrow> int \<Rightarrow> int \<Rightarrow> (string, truncation_result) result" where
  "truncate_tail s ml mb = bindE (validate_limits ml mb) (\<lambda>_.
     let nb = utf8_length s;
         ls = split_lines_for_counting s;
         nl = int (length ls)
     in if nl \<le> ml \<and> nb \<le> mb then Inr (unchanged_result s nl nb ml mb)
        else
          (case tail_loop ml mb (rev ls) [] 0 of (out, used, why, partial) \<Rightarrow>
             let by' = (if int (length out) \<ge> ml \<and> used \<le> mb then ''lines'' else why);
                 rendered = join_with newline out
             in Inr \<lparr>tr_content = rendered, tr_truncated = True, tr_truncated_by = Some by',
                     tr_total_lines = nl, tr_total_bytes = nb,
                     tr_output_lines = int (length out), tr_output_bytes = utf8_length rendered,
                     tr_last_line_partial = partial, tr_first_line_exceeds_limit = False,
                     tr_max_lines = ml, tr_max_bytes = mb\<rparr>))"

definition truncate_line :: "text \<Rightarrow> int \<Rightarrow> (string, text \<times> bool) result" where
  "truncate_line l mc =
     (if mc < 0 then Inl ''max_chars must not be negative''
      else if int (length l) \<le> mc then Inr (l, False)
      else Inr (take (nat mc) l @ cps ''... [truncated]'', True))"

definition truncation_marker :: "truncation_result \<Rightarrow> text" where
  "truncation_marker r =
     newline # cps (''... output truncated from '' @ py_str_int (tr_total_bytes r)
       @ '' bytes or '' @ py_str_int (tr_total_lines r) @ '' lines ...'') @ [newline]"

definition truncate_text :: "text \<Rightarrow> int \<Rightarrow> int \<Rightarrow> bool \<Rightarrow> (string, truncated_text) result" where
  "truncate_text s max_chars ml preserve_tail = bindE
     (if preserve_tail then truncate_tail s ml max_chars else truncate_head s ml max_chars)
     (\<lambda>r. Inr \<lparr>tt_text =
                 (if tr_truncated r then
                    (if preserve_tail then truncation_marker r @ tr_content r
                     else tr_content r @ truncation_marker r)
                  else tr_content r),
               tt_truncated = tr_truncated r,
               original_chars = int (length s),
               original_lines = tr_total_lines r\<rparr>)"

section \<open>Byte counts\<close>

lemma utf8_size_pos: "0 < utf8_size c"
  by simp

lemma utf8_length_simps [simp]:
  "utf8_length [] = 0"
  "utf8_length (c # s) = utf8_size c + utf8_length s"
  "utf8_length (s @ t) = utf8_length s + utf8_length t"
  "utf8_length (rev s) = utf8_length s"
  by (simp_all add: utf8_length_def del: utf8_size.simps)
     (simp add: rev_map [symmetric] sum_list_rev)

lemma utf8_length_nonneg [simp]: "0 \<le> utf8_length s"
  by (induction s) (auto simp del: utf8_size.simps intro: add_nonneg_nonneg order_less_imp_le[OF utf8_size_pos])

declare utf8_size.simps [simp del]

lemma utf8_size_newline [simp]: "utf8_size newline = 1"
  by (simp add: utf8_size.simps)

lemma utf8_length_join_Cons:
  "utf8_length (join_with newline (l # ls)) =
     utf8_length l + (if ls = [] then 0 else 1 + utf8_length (join_with newline ls))"
  by (cases ls) simp_all

lemma utf8_length_join_snoc:
  "utf8_length (join_with newline (ls @ [l])) =
     utf8_length (join_with newline ls) + (if ls = [] then 0 else 1) + utf8_length l"
  by (cases "ls = []") (simp_all add: join_with_snoc)

section \<open>Lines\<close>

lemma split_on_snoc_sep: "split_on d (s @ [d]) = split_on d s @ [[]]"
  by (induction s) (auto split: list.splits)

lemma split_lines_Nil [simp]: "split_lines_for_counting [] = []"
  by (simp add: split_lines_for_counting_def)

lemma join_split_lines:
  "join_with newline (split_lines_for_counting s) =
     (if s \<noteq> [] \<and> last s = newline then butlast s else s)"
proof (cases "s \<noteq> [] \<and> last s = newline")
  case True
  then have s: "s = butlast s @ [newline]" by (metis append_butlast_last_id)
  have "split_on newline s = split_on newline (butlast s) @ [[]]"
    by (subst s) (rule split_on_snoc_sep)
  with True show ?thesis by (simp add: split_lines_for_counting_def)
next
  case False
  then show ?thesis by (auto simp: split_lines_for_counting_def)
qed

lemma join_split_lines_prefix: "prefix (join_with newline (split_lines_for_counting s)) s"
proof -
  have "prefix (butlast s) s" by (cases "s = []") (auto simp: prefixeq_butlast)
  then show ?thesis by (simp add: join_split_lines)
qed

lemma join_take_lines_prefix:
  "prefix (join_with newline (take k (split_lines_for_counting s))) s"
  by (rule prefix_order.trans [OF join_with_take_prefix join_split_lines_prefix])

section \<open>The forward loop\<close>

lemma head_loop_spec:
  "head_loop mb first ls used = (out, b, why) \<Longrightarrow>
     out = take (length out) ls \<and> length out \<le> length ls \<and>
     b = used + utf8_length (join_with newline out) + (if first \<or> out = [] then 0 else 1) \<and>
     (used \<le> mb \<longrightarrow> b \<le> mb) \<and>
     (if out = ls then why = ''lines''
      else why = ''bytes'' \<and>
           mb < used + utf8_length (join_with newline (take (Suc (length out)) ls))
                 + (if first then 0 else 1))"
proof (induction ls arbitrary: first used out b why)
  case Nil
  then show ?case by simp
next
  case (Cons l ls)
  define lb where "lb = utf8_length l + (if first then 0 else 1)"
  show ?case
  proof (cases "used + lb > mb")
    case True
    with Cons.prems show ?thesis by (auto simp: lb_def Let_def)
  next
    case False
    obtain out' b' why' where rec: "head_loop mb False ls (used + lb) = (out', b', why')"
      by (metis prod_cases3)
    with Cons.prems False have eq: "out = l # out'" "b = b'" "why = why'"
      by (auto simp: lb_def Let_def)
    note IH = Cons.IH [OF rec]
    show ?thesis
    proof (cases "out' = ls")
      case True
      with IH False eq show ?thesis by (auto simp: lb_def utf8_length_join_Cons)
    next
      case neq: False
      with IH have "length out' < length ls" by (metis le_neq_implies_less take_all_iff order_refl)
      then have "take (Suc (length out')) ls \<noteq> []" by (cases ls) auto
      with IH False eq neq show ?thesis by (auto simp: lb_def utf8_length_join_Cons)
    qed
  qed
qed

text \<open>What the loop hands to the result, for the call the code makes.\<close>

lemma head_loop_call:
  assumes "head_loop mb True (take (nat ml) ls) 0 = (out, b, why)" and "0 \<le> mb" and "0 \<le> ml"
  shows "out = take (length out) ls" and "int (length out) \<le> ml"
    and "b = utf8_length (join_with newline out)" and "b \<le> mb"
    and "int (length out) = ml \<or> length out = length ls \<or>
         mb < utf8_length (join_with newline (take (Suc (length out)) ls))"
proof -
  note spec = head_loop_spec [OF assms(1)]
  from spec show "b = utf8_length (join_with newline out)" and "b \<le> mb"
    using assms(2) by auto
  from spec have len: "length out \<le> nat ml" "length out \<le> length ls" by auto
  with spec show out: "out = take (length out) ls" by (metis min.absorb1 take_take)
  show "int (length out) \<le> ml" using len assms(3) by linarith
  show "int (length out) = ml \<or> length out = length ls \<or>
         mb < utf8_length (join_with newline (take (Suc (length out)) ls))"
  proof (cases "out = take (nat ml) ls")
    case True
    then have "length out = min (length ls) (nat ml)" by simp
    then show ?thesis using assms(3) by (auto simp: min_def)
  next
    case False
    with spec have mb: "mb < utf8_length (join_with newline (take (Suc (length out)) (take (nat ml) ls)))"
      by auto
    show ?thesis
    proof (cases "length out = nat ml")
      case True
      then show ?thesis using assms(3) by simp
    next
      case False
      with len have "Suc (length out) \<le> nat ml" by simp
      with mb show ?thesis by (simp add: min.absorb1)
    qed
  qed
qed

section \<open>The backward loops\<close>

lemma suffix_loop_spec:
  "\<exists>k. suffix_loop mb cs used = take k cs \<and> k \<le> length cs \<and>
     (used \<le> mb \<longrightarrow> used + utf8_length (take k cs) \<le> mb) \<and>
     (k < length cs \<longrightarrow> mb < used + utf8_length (take k cs) + utf8_size (cs ! k))"
proof (induction cs arbitrary: used)
  case Nil
  then show ?case by simp
next
  case (Cons c cs)
  show ?case
  proof (cases "used + utf8_size c > mb")
    case True
    then show ?thesis by (intro exI [of _ 0]) auto
  next
    case False
    from Cons.IH [of "used + utf8_size c"] obtain k where
      "suffix_loop mb cs (used + utf8_size c) = take k cs" "k \<le> length cs"
      "used + utf8_size c + utf8_length (take k cs) \<le> mb"
      "k < length cs \<longrightarrow> mb < used + utf8_size c + utf8_length (take k cs) + utf8_size (cs ! k)"
      using False by auto
    with False show ?thesis by (intro exI [of _ "Suc k"]) auto
  qed
qed

lemma truncate_utf8_suffix_spec:
  assumes "0 \<le> mb"
  shows "suffix (truncate_utf8_suffix s mb) s"
    and "utf8_length (truncate_utf8_suffix s mb) \<le> mb"
    and "s = p @ c # truncate_utf8_suffix s mb \<Longrightarrow>
           mb < utf8_size c + utf8_length (truncate_utf8_suffix s mb)"
proof -
  obtain k where k: "suffix_loop mb (rev s) 0 = take k (rev s)" "k \<le> length s"
    "utf8_length (take k (rev s)) \<le> mb"
    "k < length s \<longrightarrow> mb < utf8_length (take k (rev s)) + utf8_size (rev s ! k)"
    using suffix_loop_spec [of mb "rev s" 0] assms by auto
  have sfx: "truncate_utf8_suffix s mb = (if mb \<le> 0 then [] else drop (length s - k) s)"
    using k(1,2) by (simp add: truncate_utf8_suffix_def take_rev)
  show "suffix (truncate_utf8_suffix s mb) s" by (simp add: sfx suffix_drop)
  have len: "utf8_length (take k (rev s)) = utf8_length (drop (length s - k) s)"
    using k(2) by (simp add: take_rev)
  show "utf8_length (truncate_utf8_suffix s mb) \<le> mb" using k(3) len assms by (simp add: sfx)
  show "mb < utf8_size c + utf8_length (truncate_utf8_suffix s mb)"
    if s: "s = p @ c # truncate_utf8_suffix s mb"
  proof (cases "mb \<le> 0")
    case True
    then show ?thesis using utf8_size_pos [of c] by (simp add: sfx)
  next
    case False
    with s sfx have d: "s = p @ c # drop (length s - k) s" by simp
    have lk: "length (drop (length s - k) s) = k" using k(2) by simp
    have "length s = length p + 1 + length (drop (length s - k) s)" by (subst d) simp
    with lk have "k < length s" "length p = length s - k - 1" by simp_all
    moreover have "rev s ! k = c"
    proof -
      have "rev s ! k = s ! (length s - 1 - k)" using \<open>k < length s\<close> by (simp add: rev_nth)
      also have "length s - 1 - k = length p" using \<open>length p = length s - k - 1\<close> by simp
      also have "s ! length p = c" by (subst d) simp
      finally show ?thesis .
    qed
    ultimately show ?thesis using k(4) len False by (simp add: sfx)
  qed
qed

lemma tail_loop_spec:
  assumes "tail_loop ml mb ls out used = (o', b, why, p)"
    and "used = utf8_length (join_with newline out)" and "used \<le> mb" and "0 \<le> mb"
  shows "b = utf8_length (join_with newline o') \<and> b \<le> mb \<and>
     (int (length out) \<le> ml \<longrightarrow> int (length o') \<le> ml) \<and>
     (if p then out = [] \<and> ls \<noteq> [] \<and> o' = [truncate_utf8_suffix (hd ls) mb] \<and>
                mb < utf8_length (hd ls)
      else \<exists>k \<le> length ls. o' = rev (take k ls) @ out \<and>
             (ml \<le> int (length o') \<or> k = length ls \<or>
              mb < utf8_length (join_with newline (ls ! k # o'))))"
  using assms
proof (induction ml mb ls out used rule: tail_loop.induct)
  case (1 ml mb out used)
  then show ?case by auto
next
  case (2 ml mb l ls out used)
  define lb where "lb = utf8_length l + (if out = [] then 0 else 1)"
  have join: "utf8_length (join_with newline (l # out)) = used + lb"
    using "2.prems"(2) by (simp add: utf8_length_join_Cons lb_def)
  consider (full) "int (length out) \<ge> ml"
    | (cut) "int (length out) < ml" "used + lb > mb" "out = []"
    | (stop) "int (length out) < ml" "used + lb > mb" "out \<noteq> []"
    | (go) "int (length out) < ml" "used + lb \<le> mb" by linarith
  then show ?case
  proof cases
    case full
    with "2.prems" show ?thesis by (auto intro!: exI [of _ 0])
  next
    case cut
    with "2.prems" truncate_utf8_suffix_spec(2) [OF "2.prems"(4), of l] show ?thesis
      by (auto simp: lb_def Let_def)
  next
    case stop
    with "2.prems" join show ?thesis by (auto simp: lb_def Let_def intro!: exI [of _ 0])
  next
    case go
    from go "2.prems"(1) have rec: "tail_loop ml mb ls (l # out) (used + lb) = (o', b, why, p)"
      by (auto simp: lb_def Let_def)
    note IH = "2.IH" [OF _ lb_def, of]
    from go "2.prems" join rec have "b = utf8_length (join_with newline o') \<and> b \<le> mb \<and>
     (int (length (l # out)) \<le> ml \<longrightarrow> int (length o') \<le> ml) \<and>
     (if p then l # out = [] \<and> ls \<noteq> [] \<and> o' = [truncate_utf8_suffix (hd ls) mb] \<and>
                mb < utf8_length (hd ls)
      else \<exists>k \<le> length ls. o' = rev (take k ls) @ l # out \<and>
             (ml \<le> int (length o') \<or> k = length ls \<or>
              mb < utf8_length (join_with newline (ls ! k # o'))))"
      by (intro IH) auto
    note res = this
    then have np: "\<not> p" by auto
    with res have "\<exists>k \<le> length ls. o' = rev (take k ls) @ l # out \<and>
             (ml \<le> int (length o') \<or> k = length ls \<or>
              mb < utf8_length (join_with newline (ls ! k # o')))" by simp
    then obtain k where "k \<le> length ls" "o' = rev (take k ls) @ l # out"
      "ml \<le> int (length o') \<or> k = length ls \<or> mb < utf8_length (join_with newline (ls ! k # o'))"
      by blast
    with np res go(1) show ?thesis by (intro conjI) (auto intro!: exI [of _ "Suc k"])
  qed
qed

section \<open>Correctness\<close>

definition within_limits :: "truncation_result \<Rightarrow> int \<Rightarrow> int \<Rightarrow> bool" where
  "within_limits r ml mb \<longleftrightarrow>
     tr_output_lines r \<le> ml \<and> tr_output_bytes r \<le> mb \<and>
     tr_output_bytes r = utf8_length (tr_content r)"

lemma validate_limits_Inr [simp]: "validate_limits ml mb = Inr u \<longleftrightarrow> 0 \<le> ml \<and> 0 \<le> mb"
  by (auto simp: validate_limits_def)

lemma head_first_line_fits:
  "\<not> mb < utf8_length (case ls of [] \<Rightarrow> [] | l # _ \<Rightarrow> l) \<Longrightarrow>
   utf8_length (join_with newline (take (Suc 0) ls)) \<le> mb \<or> ls = []"
  by (cases ls) auto

text \<open>C14: \<^verbatim>\<open>truncate_head\<close> respects both limits, reports the exact number of lines and
  UTF-8 bytes it returns, and returns a prefix of the input made of whole lines: when it
  truncates, one more line would break the line limit or the byte limit, unless every line is
  there and only the final newline was dropped; a first line that is too long gives the empty text.\<close>

theorem truncate_head_correct:
  assumes "truncate_head s ml mb = Inr r"
  shows "within_limits r ml mb \<and> prefix (tr_content r) s \<and>
     (if \<not> tr_truncated r then tr_content r = s
      else \<exists>k. tr_content r = join_with newline (take k (split_lines_for_counting s)) \<and>
             tr_output_lines r = int k \<and>
             (tr_output_lines r = ml \<or> k = length (split_lines_for_counting s) \<or>
              mb < utf8_length (join_with newline (take (Suc k) (split_lines_for_counting s)))))"
proof -
  let ?ls = "split_lines_for_counting s"
  from assms have lim: "0 \<le> ml" "0 \<le> mb"
    by (auto simp: truncate_head_def bindE_eq_Inr)
  consider (same) "int (length ?ls) \<le> ml \<and> utf8_length s \<le> mb"
    | (first) "\<not> (int (length ?ls) \<le> ml \<and> utf8_length s \<le> mb)"
        "mb < utf8_length (case ?ls of [] \<Rightarrow> [] | l # _ \<Rightarrow> l)"
    | (cut) "\<not> (int (length ?ls) \<le> ml \<and> utf8_length s \<le> mb)"
        "\<not> mb < utf8_length (case ?ls of [] \<Rightarrow> [] | l # _ \<Rightarrow> l)" by blast
  then show ?thesis
  proof cases
    case same
    with assms lim show ?thesis
      by (auto simp: truncate_head_def bindE_eq_Inr unchanged_result_def within_limits_def Let_def)
  next
    case first
    with assms lim have "r = \<lparr>tr_content = [], tr_truncated = True, tr_truncated_by = Some ''bytes'',
               tr_total_lines = int (length ?ls), tr_total_bytes = utf8_length s, tr_output_lines = 0,
               tr_output_bytes = 0, tr_last_line_partial = False, tr_first_line_exceeds_limit = True,
               tr_max_lines = ml, tr_max_bytes = mb\<rparr>"
      by (auto simp: truncate_head_def bindE_eq_Inr Let_def)
    with first(2) lim show ?thesis
      by (cases ?ls) (auto simp: within_limits_def intro!: exI [of _ 0])
  next
    case cut
    obtain out used why where loop: "head_loop mb True (take (nat ml) ?ls) 0 = (out, used, why)"
      by (metis prod_cases3)
    note spec = head_loop_call [OF loop lim(2,1)]
    from assms lim cut loop have r: "tr_content r = join_with newline out"
      "tr_output_lines r = int (length out)" "tr_output_bytes r = utf8_length (join_with newline out)"
      "tr_truncated r"
      by (auto simp: truncate_head_def bindE_eq_Inr Let_def)
    have "prefix (tr_content r) s" using spec(1) r(1) join_take_lines_prefix by metis
    with r spec show ?thesis
      by (auto simp: within_limits_def intro!: exI [of _ "length out"])
  qed
qed

theorem truncate_head_correct_witness:
  "within_limits (projr (truncate_head (cps ''ab'' @ [newline] @ cps ''cd'') 1 100)) 1 100 \<and>
   tr_content (projr (truncate_head (cps ''ab'' @ [newline] @ cps ''cd'') 1 100)) = cps ''ab''"
proof -
  have eval: "truncate_head (cps ''ab'' @ [newline] @ cps ''cd'') 1 100
     = Inr (projr (truncate_head (cps ''ab'' @ [newline] @ cps ''cd'') 1 100))" by code_simp
  have "tr_content (projr (truncate_head (cps ''ab'' @ [newline] @ cps ''cd'') 1 100)) = cps ''ab''"
    by code_simp
  with truncate_head_correct [OF eval] show ?thesis by blast
qed

text \<open>\<^verbatim>\<open>truncate_tail\<close> respects both limits, reports the exact number of lines and
  bytes, and returns the end of the text (its final newline dropped when it truncates): either
  a maximal run of whole last lines, or, when the last line alone is too long, a longest suffix of
  that line that cuts no character in two.\<close>

theorem truncate_tail_correct:
  assumes "truncate_tail s ml mb = Inr r"
  shows "within_limits r ml mb \<and>
     (if \<not> tr_truncated r then tr_content r = s
      else suffix (tr_content r) (join_with newline (split_lines_for_counting s)) \<and>
        (if tr_last_line_partial r
         then mb < utf8_length (last (split_lines_for_counting s)) \<and>
              tr_content r = truncate_utf8_suffix (last (split_lines_for_counting s)) mb
         else \<exists>k \<le> length (split_lines_for_counting s).
                tr_content r = join_with newline (drop k (split_lines_for_counting s)) \<and>
                (tr_output_lines r = ml \<or> k = 0 \<or>
                 mb < utf8_length (join_with newline (drop (k - 1) (split_lines_for_counting s))))))"
proof -
  let ?ls = "split_lines_for_counting s"
  from assms have lim: "0 \<le> ml" "0 \<le> mb"
    by (auto simp: truncate_tail_def bindE_eq_Inr)
  show ?thesis
  proof (cases "int (length ?ls) \<le> ml \<and> utf8_length s \<le> mb")
    case True
    with assms lim show ?thesis
      by (auto simp: truncate_tail_def bindE_eq_Inr unchanged_result_def within_limits_def Let_def)
  next
    case False
    obtain out used why p where loop: "tail_loop ml mb (rev ?ls) [] 0 = (out, used, why, p)"
      by (metis prod_cases4)
    note spec = tail_loop_spec [OF loop _ _ lim(2), simplified]
    from assms lim False loop have r: "tr_content r = join_with newline out"
      "tr_output_lines r = int (length out)" "tr_output_bytes r = utf8_length (join_with newline out)"
      "tr_truncated r" "tr_last_line_partial r = p"
      by (auto simp: truncate_tail_def bindE_eq_Inr Let_def)
    have within: "within_limits r ml mb" using spec r lim by (auto simp: within_limits_def)
    show ?thesis
    proof (cases p)
      case True
      with spec lim have o: "?ls \<noteq> []" "out = [truncate_utf8_suffix (last ?ls) mb]"
        "mb < utf8_length (last ?ls)" by (auto simp: hd_rev)
      have "suffix (last ?ls) (join_with newline ?ls)"
        using join_with_drop_suffix [of newline "length ?ls - 1" ?ls] o(1)
        by (metis append_Nil append_butlast_last_id append_eq_conv_conj join_with.simps(2) length_butlast)
      then have "suffix (tr_content r) (join_with newline ?ls)"
        using truncate_utf8_suffix_spec(1) [OF lim(2)] r(1) o(2)
        by (metis join_with.simps(2) suffix_order.trans)
      with True within r o show ?thesis by simp
    next
      case notp: False
      with spec lim have "\<exists>k \<le> length ?ls. out = rev (take k (rev ?ls)) \<and>
          (ml \<le> int (length out) \<or> k = length ?ls \<or>
           mb < utf8_length (join_with newline (rev ?ls ! k # out)))" by simp
      then obtain k where k: "k \<le> length ?ls" "out = rev (take k (rev ?ls))"
        "ml \<le> int (length out) \<or> k = length ?ls \<or> mb < utf8_length (join_with newline (rev ?ls ! k # out))"
        by blast
      have kml: "int (length out) \<le> ml" using spec lim by simp
      define j where "j = length ?ls - k"
      from k(1,2) have out: "out = drop j ?ls" by (simp add: j_def take_rev)
      have "rev ?ls ! k # out = drop (j - 1) ?ls" if "k < length ?ls"
      proof -
        have "rev ?ls ! k = ?ls ! (j - 1)" using that by (simp add: rev_nth j_def)
        moreover have "Suc (j - 1) = j" "j - 1 < length ?ls" using that by (simp_all add: j_def)
        ultimately show ?thesis using out Cons_nth_drop_Suc [of "j - 1" ?ls] by simp
      qed
      with k kml have "tr_output_lines r = ml \<or> j = 0 \<or>
          mb < utf8_length (join_with newline (drop (j - 1) ?ls))"
        using r(2) by (cases "k < length ?ls") (auto simp: j_def)
      moreover have "suffix (tr_content r) (join_with newline ?ls)"
        unfolding r(1) out by (rule join_with_drop_suffix)
      ultimately show ?thesis using notp within r out
        by (auto simp: j_def intro!: exI [of _ j])
    qed
  qed
qed

theorem truncate_tail_correct_witness:
  "within_limits (projr (truncate_tail (cps ''ab'' @ [newline, 233]) 5 1)) 5 1 \<and>
   tr_last_line_partial (projr (truncate_tail (cps ''ab'' @ [newline, 233]) 5 1)) \<and>
   tr_content (projr (truncate_tail (cps ''ab'' @ [newline, 233]) 5 1)) = []"
proof -
  have eval: "truncate_tail (cps ''ab'' @ [newline, 233]) 5 1
     = Inr (projr (truncate_tail (cps ''ab'' @ [newline, 233]) 5 1))" by code_simp
  have "tr_content (projr (truncate_tail (cps ''ab'' @ [newline, 233]) 5 1)) = []"
    "tr_last_line_partial (projr (truncate_tail (cps ''ab'' @ [newline, 233]) 5 1))"
    by code_simp+
  with truncate_tail_correct [OF eval] show ?thesis by blast
qed

end
