(* ===== verification/PyJson.thy ===== *)
theory PyJson
  imports Prelude Complex_Main
begin

text \<open>
  The values that cross the program's boundaries: what \<^verbatim>\<open>json.loads\<close> returns and
  \<^verbatim>\<open>json.dumps\<close> accepts, Python's exceptions, and the built-in conversions the code
  applies to such values (\<^verbatim>\<open>str\<close>, \<^verbatim>\<open>int\<close>, \<^verbatim>\<open>float\<close>, \<^verbatim>\<open>bool\<close>,
  \<^verbatim>\<open>dict.get\<close>, \<^verbatim>\<open>==\<close>).  These are the language's own operations, so
  no source line is attached to them.  A finite \<^verbatim>\<open>float\<close> is its exact rational value:
  rounding is not modelled.  \<^verbatim>\<open>repr\<close> of a string is exact for printable text.
\<close>

section \<open>Exceptions\<close>

datatype exn_class =
    ValueError | TypeError | AttributeError | OverflowError | RuntimeError | KeyError
  | CancelledError | TimeoutError | ToolArgumentsError | FileError
  | SessionCodecError | SessionTreeError | SessionError | SessionCorruptionError
  | SessionValidationError | ToolDeniedError | CompactionError | CompactionCancelled | IndexError
  | OSError | OtherException

datatype exn = Exn (exn_class: exn_class) (exn_text: string)

text \<open>\<^verbatim>\<open>except ValueError\<close> also catches its subclasses.\<close>

definition is_value_error :: "exn \<Rightarrow> bool" where
  "is_value_error e \<longleftrightarrow>
     exn_class e \<in> {ValueError, SessionCodecError, SessionTreeError, ToolArgumentsError}"

definition is_session_error :: "exn \<Rightarrow> bool" where
  "is_session_error e \<longleftrightarrow>
     exn_class e \<in> {SessionError, SessionCorruptionError, SessionValidationError}"

section \<open>Values\<close>

datatype pyfloat = Fin rat | PosInf | NegInf | NaN

datatype json =
    JNull
  | JBool bool
  | JInt int
  | JFloat pyfloat
  | JStr string
  | JArr "json list"
  | JObj "(string \<times> json) list"

type_synonym jobject = "(string \<times> json) list"

fun is_JObj :: "json \<Rightarrow> bool" where
  "is_JObj (JObj _) = True" | "is_JObj _ = False"

fun is_JArr :: "json \<Rightarrow> bool" where
  "is_JArr (JArr _) = True" | "is_JArr _ = False"

text \<open>\<^verbatim>\<open>d.get(k)\<close> and \<^verbatim>\<open>d.get(k, default)\<close>.\<close>

definition jget :: "jobject \<Rightarrow> string \<Rightarrow> json" where
  "jget d k = (case map_of d k of None \<Rightarrow> JNull | Some v \<Rightarrow> v)"

definition jget_or :: "jobject \<Rightarrow> string \<Rightarrow> json \<Rightarrow> json" where
  "jget_or d k v = (case map_of d k of None \<Rightarrow> v | Some w \<Rightarrow> w)"

definition jmem :: "string \<Rightarrow> jobject \<Rightarrow> bool" where
  "jmem k d = (map_of d k \<noteq> None)"

section \<open>Truth\<close>

fun pf_zero :: "pyfloat \<Rightarrow> bool" where
  "pf_zero (Fin r) = (r = 0)" | "pf_zero _ = False"

fun truthy :: "json \<Rightarrow> bool" where
  "truthy JNull = False"
| "truthy (JBool b) = b"
| "truthy (JInt i) = (i \<noteq> 0)"
| "truthy (JFloat f) = (\<not> pf_zero f)"
| "truthy (JStr s) = (s \<noteq> [])"
| "truthy (JArr xs) = (xs \<noteq> [])"
| "truthy (JObj d) = (d \<noteq> [])"

section \<open>Numbers as text\<close>

text \<open>The decimal exponent of a rational: the least \<open>k\<close> with \<open>r * 10 ^ k\<close> an integer, looked
  for up to a bound; every \<^verbatim>\<open>float\<close> has one below 1100.\<close>

fun decimal_scale :: "nat \<Rightarrow> rat \<Rightarrow> nat" where
  "decimal_scale 0 r = 0"
| "decimal_scale (Suc n) r = (if of_int \<lfloor>r\<rfloor> = r then 0 else Suc (decimal_scale n (10 * r)))"

fun strip_zeros :: "nat \<Rightarrow> nat \<Rightarrow> nat \<times> nat" where
  "strip_zeros 0 m = (m, 0)"
| "strip_zeros (Suc n) m =
     (if m \<noteq> 0 \<and> m mod 10 = 0 then map_prod id Suc (strip_zeros n (m div 10)) else (m, 0))"

definition repr_exponent :: "int \<Rightarrow> string" where
  "repr_exponent e = (if e < 0 then ''e-'' else ''e+'') @
     (let d = nat_digits (nat \<bar>e\<bar>) in if length d < 2 then ''0'' @ d else d)"

definition repr_positive :: "rat \<Rightarrow> string" where
  "repr_positive r =
     (let k = decimal_scale 1100 r;
          mz = strip_zeros 400 (nat \<lfloor>r * 10 ^ k\<rfloor>);
          ds = nat_digits (fst mz);
          point = int (length ds) + int (snd mz) - int k
      in if - 4 < point \<and> point \<le> 16 then
           (if point \<le> 0 then ''0.'' @ replicate (nat (- point)) (CHR ''0'') @ ds
            else if int (length ds) \<le> point
            then ds @ replicate (nat point - length ds) (CHR ''0'') @ ''.0''
            else take (nat point) ds @ ''.'' @ drop (nat point) ds)
         else take 1 ds @ (if length ds = 1 then [] else ''.'' @ drop 1 ds)
              @ repr_exponent (point - 1))"

fun py_repr_float :: "pyfloat \<Rightarrow> string" where
  "py_repr_float (Fin r) =
     (if r = 0 then ''0.0'' else if r < 0 then ''-'' @ repr_positive (- r) else repr_positive r)"
| "py_repr_float PosInf = ''inf''"
| "py_repr_float NegInf = ''-inf''"
| "py_repr_float NaN = ''nan''"

section \<open>\<^verbatim>\<open>repr\<close> and \<^verbatim>\<open>str\<close>\<close>

definition hex_digit :: "nat \<Rightarrow> char" where
  "hex_digit n = (if n < 10 then char_of (48 + n) else char_of (87 + n))"

definition repr_char :: "char \<Rightarrow> char \<Rightarrow> string" where
  "repr_char q c =
     (if c = q \<or> c = CHR 0x5C then [CHR 0x5C, c]
      else if c = CHR 0x0A then [CHR 0x5C, CHR ''n'']
      else if c = CHR 0x0D then [CHR 0x5C, CHR ''r'']
      else if c = CHR 0x09 then [CHR 0x5C, CHR ''t'']
      else if of_char c < (32 :: nat) \<or> of_char c = (127 :: nat)
      then [CHR 0x5C, CHR ''x'', hex_digit (of_char c div 16), hex_digit (of_char c mod 16)]
      else [c])"

definition py_repr_str :: "string \<Rightarrow> string" where
  "py_repr_str s =
     (let q = (if CHR 0x27 \<in> set s \<and> CHR 0x22 \<notin> set s then CHR 0x22 else CHR 0x27)
      in q # concat (map (repr_char q) s) @ [q])"

fun comma_sep :: "string list \<Rightarrow> string" where
  "comma_sep [] = []"
| "comma_sep [x] = x"
| "comma_sep (x # xs) = x @ '', '' @ comma_sep xs"

fun py_repr :: "json \<Rightarrow> string" where
  "py_repr JNull = ''None''"
| "py_repr (JBool b) = (if b then ''True'' else ''False'')"
| "py_repr (JInt i) = py_str_int i"
| "py_repr (JFloat f) = py_repr_float f"
| "py_repr (JStr s) = py_repr_str s"
| "py_repr (JArr xs) = ''['' @ comma_sep (map py_repr xs) @ '']''"
| "py_repr (JObj d) =
     ''{'' @ comma_sep (map (\<lambda>kv. py_repr_str (fst kv) @ '': '' @ py_repr (snd kv)) d) @ ''}''"

fun py_str :: "json \<Rightarrow> string" where
  "py_str (JStr s) = s"
| "py_str v = py_repr v"

section \<open>\<^verbatim>\<open>int\<close> and \<^verbatim>\<open>float\<close>\<close>

definition is_digit :: "char \<Rightarrow> bool" where
  "is_digit c \<longleftrightarrow> 48 \<le> (of_char c :: nat) \<and> of_char c \<le> (57 :: nat)"

definition digit_val :: "char \<Rightarrow> nat" where
  "digit_val c = of_char c - 48"

definition is_space :: "char \<Rightarrow> bool" where
  "is_space c \<longleftrightarrow> (let n = of_char c :: nat in n = 32 \<or> (9 \<le> n \<and> n \<le> 13) \<or> (28 \<le> n \<and> n \<le> 31))"

definition lstrip :: "string \<Rightarrow> string" where
  "lstrip s = dropWhile is_space s"

definition strip :: "string \<Rightarrow> string" where
  "strip s = rev (lstrip (rev (lstrip s)))"

text \<open>Digits with single underscores between them; the flag says a digit came just before.\<close>

fun parse_digits :: "bool \<Rightarrow> nat \<Rightarrow> string \<Rightarrow> nat option" where
  "parse_digits ok acc [] = (if ok then Some acc else None)"
| "parse_digits ok acc (c # cs) =
     (if is_digit c then parse_digits True (acc * 10 + digit_val c) cs
      else if c = CHR ''_'' \<and> ok then parse_digits False acc cs
      else None)"

fun split_sign :: "string \<Rightarrow> int \<times> string" where
  "split_sign (c # cs) =
     (if c = CHR ''-'' then (- 1, cs) else if c = CHR ''+'' then (1, cs) else (1, c # cs))"
| "split_sign [] = (1, [])"

definition parse_int :: "string \<Rightarrow> int option" where
  "parse_int s = (case split_sign (strip s) of (sg, ds) \<Rightarrow>
     map_option (\<lambda>n. sg * int n) (parse_digits False 0 ds))"

definition rat_trunc :: "rat \<Rightarrow> int" where
  "rat_trunc r = (if r < 0 then - \<lfloor>- r\<rfloor> else \<lfloor>r\<rfloor>)"

fun py_int :: "json \<Rightarrow> (exn, int) result" where
  "py_int (JInt i) = Inr i"
| "py_int (JBool b) = Inr (if b then 1 else 0)"
| "py_int (JFloat (Fin r)) = Inr (rat_trunc r)"
| "py_int (JFloat NaN) = Inl (Exn ValueError ''cannot convert float NaN to integer'')"
| "py_int (JFloat _) = Inl (Exn OverflowError ''cannot convert float infinity to integer'')"
| "py_int (JStr s) =
     (case parse_int s of
        Some i \<Rightarrow> Inr i
      | None \<Rightarrow> Inl (Exn ValueError (''invalid literal for int() with base 10: '' @ py_repr_str s)))"
| "py_int v = Inl (Exn TypeError
     ''int() argument must be a string, a bytes-like object or a real number'')"

text \<open>Decimal literals: a mantissa with an optional point and an optional exponent.  The exponent is
  the part after the first \<^verbatim>\<open>e\<close> or \<^verbatim>\<open>E\<close>; the empty mantissa is refused.\<close>

definition lower :: "string \<Rightarrow> string" where
  "lower s = map (\<lambda>c. let n = of_char c :: nat in
                    if 65 \<le> n \<and> n \<le> 90 then char_of (n + 32) else c) s"

definition parse_mantissa :: "string \<Rightarrow> rat option" where
  "parse_mantissa s =
     (case split_on (CHR ''.'') s of
        [a] \<Rightarrow> map_option rat_of_nat (parse_digits False 0 a)
      | [a, b] \<Rightarrow>
          (if a = [] \<and> b = [] then None
           else case (if a = [] then Some 0 else parse_digits False 0 a,
                      if b = [] then Some 0 else parse_digits False 0 b) of
             (Some m, Some f) \<Rightarrow>
               Some (rat_of_nat m + rat_of_nat f / 10 ^ length (filter is_digit b))
           | _ \<Rightarrow> None)
      | _ \<Rightarrow> None)"

definition scale10 :: "rat \<Rightarrow> int \<Rightarrow> rat" where
  "scale10 r e = (if 0 \<le> e then r * 10 ^ nat e else r / 10 ^ nat (- e))"

definition parse_float :: "string \<Rightarrow> pyfloat option" where
  "parse_float s =
     (case split_sign (lower (strip s)) of (sg, body) \<Rightarrow>
        if body \<in> {''inf'', ''infinity''} then Some (if sg < 0 then NegInf else PosInf)
        else if body = ''nan'' then Some NaN
        else case split_on (CHR ''e'') body of
               [m] \<Rightarrow> map_option (\<lambda>r. Fin (of_int sg * r)) (parse_mantissa m)
             | [m, x] \<Rightarrow>
                 (case (parse_mantissa m, split_sign x) of
                    (Some r, (xs, xd)) \<Rightarrow>
                      map_option (\<lambda>n. Fin (of_int sg * scale10 r (xs * int n)))
                                 (parse_digits False 0 xd)
                  | _ \<Rightarrow> None)
             | _ \<Rightarrow> None)"

fun py_float :: "json \<Rightarrow> (exn, pyfloat) result" where
  "py_float (JFloat f) = Inr f"
| "py_float (JInt i) = Inr (Fin (of_int i))"
| "py_float (JBool b) = Inr (Fin (if b then 1 else 0))"
| "py_float (JStr s) =
     (case parse_float s of
        Some f \<Rightarrow> Inr f
      | None \<Rightarrow> Inl (Exn ValueError (''could not convert string to float: '' @ py_repr_str s)))"
| "py_float v = Inl (Exn TypeError ''float() argument must be a string or a real number'')"

section \<open>Equality\<close>

text \<open>\<^verbatim>\<open>==\<close> on plain data: \<^verbatim>\<open>True == 1 == 1.0\<close>, a NaN differs from itself, and
  dictionaries compare as mappings.\<close>

fun json_number :: "json \<Rightarrow> pyfloat option" where
  "json_number (JBool b) = Some (Fin (if b then 1 else 0))"
| "json_number (JInt i) = Some (Fin (of_int i))"
| "json_number (JFloat f) = Some f"
| "json_number _ = None"

fun pf_eq :: "pyfloat \<Rightarrow> pyfloat \<Rightarrow> bool" where
  "pf_eq (Fin a) (Fin b) = (a = b)"
| "pf_eq PosInf PosInf = True"
| "pf_eq NegInf NegInf = True"
| "pf_eq _ _ = False"

function (sequential) py_eq :: "json \<Rightarrow> json \<Rightarrow> bool" where
  "py_eq JNull JNull = True"
| "py_eq (JStr s) (JStr t) = (s = t)"
| "py_eq (JArr xs) (JArr ys) =
     (length xs = length ys \<and> (\<forall>p \<in> set (zip xs ys). py_eq (fst p) (snd p)))"
| "py_eq (JObj d) (JObj e) =
     (length d = length e \<and>
      (\<forall>kv \<in> set d. (case map_of e (fst kv) of None \<Rightarrow> False | Some v \<Rightarrow> py_eq (snd kv) v)))"
| "py_eq a b =
     (case (json_number a, json_number b) of (Some x, Some y) \<Rightarrow> pf_eq x y | _ \<Rightarrow> False)"
  by pat_completeness auto
termination
proof (relation "measure (\<lambda>(a, b). size a)", goal_cases)
  case 1
  then show ?case by simp
next
  case (2 xs ys p)
  then have "fst p \<in> set xs" by (metis prod.collapse set_zip_leftD)
  then have "size (fst p) \<le> size_list size xs" by (induction xs) auto
  then show ?case by (simp add: case_prod_beta)
next
  case (3 d e kv v)
  then have "size (snd kv) \<le> size_list (size_prod (\<lambda>_. 0) size) d"
    by (induction d) (auto simp: size_prod_def split: prod.splits)
  then show ?case by (simp add: case_prod_beta)
qed

section \<open>Lookup facts\<close>

lemma jget_simps [simp]:
  "jget [] k = JNull"
  "jget ((k, v) # d) j = (if j = k then v else jget d j)"
  by (simp_all add: jget_def)

lemma jget_or_simps [simp]:
  "jget_or [] k w = w"
  "jget_or ((k, v) # d) j w = (if j = k then v else jget_or d j w)"
  by (simp_all add: jget_or_def)

lemma jmem_simps [simp]:
  "jmem k [] = False"
  "jmem j ((k, v) # d) = (j = k \<or> jmem j d)"
  by (simp_all add: jmem_def)

lemma jget_append:
  "jget (d @ e) k = (if jmem k d then jget d k else jget e k)"
  by (auto simp: jget_def jmem_def map_add_def split: option.splits)

lemma jget_or_append:
  "jget_or (d @ e) k w = (if jmem k d then jget_or d k w else jget_or e k w)"
  by (auto simp: jget_or_def jmem_def map_add_def split: option.splits)

lemma jmem_append [simp]: "jmem k (d @ e) = (jmem k d \<or> jmem k e)"
  by (auto simp: jmem_def map_add_def split: option.splits)

end
