(* ===== verification/Messages.thy ===== *)
theory Messages
  imports PyJson
begin

text \<open>
  The provider-neutral data model (\<^verbatim>\<open>src/pi_agent/ai/types.py\<close>): content blocks,
  usage, the three message roles, and their conversion to and from JSON objects.
  A field the decoder fills with \<^verbatim>\<open>cast(T, value.get(k))\<close>, which checks nothing
  at run time, keeps the JSON value it was given (\<open>JNull\<close> is \<^verbatim>\<open>None\<close>);
  a field the decoder converts with \<^verbatim>\<open>str\<close> or \<^verbatim>\<open>int\<close> has the converted type.
\<close>

section \<open>Data\<close>

record usage_cost =
  uc_input :: pyfloat
  uc_output :: pyfloat
  uc_cache_read :: pyfloat
  uc_cache_write :: pyfloat
  uc_total :: pyfloat

record usage =
  u_input :: int
  u_output :: int
  u_cache_read :: int
  u_cache_write :: int
  u_cache_write_1h :: "int option"
  u_reasoning :: "int option"
  u_total_tokens :: int
  u_cost :: usage_cost

definition usage_zero :: usage where
  "usage_zero =
     \<lparr>u_input = 0, u_output = 0, u_cache_read = 0, u_cache_write = 0,
      u_cache_write_1h = None, u_reasoning = None, u_total_tokens = 0,
      u_cost = \<lparr>uc_input = Fin 0, uc_output = Fin 0, uc_cache_read = Fin 0,
                uc_cache_write = Fin 0, uc_total = Fin 0\<rparr>\<rparr>"

record tool_call =
  tc_id :: string
  tc_name :: string
  tc_arguments :: jobject
  tc_thought_signature :: json
  tc_namespace :: json

datatype content =
    TextContent (tx_text: string) (tx_signature: json)
  | ThinkingContent (th_thinking: string) (th_signature: json) (th_redacted: json)
  | ImageContent (im_data: string) (im_mime: string)
  | ToolCallContent (tc_call: tool_call)

datatype user_content = UserText string | UserBlocks "content list"

record user_message =
  um_content :: user_content
  um_timestamp :: int

record assistant_message =
  am_content :: "content list"
  am_api :: string
  am_provider :: string
  am_model :: string
  am_response_model :: json
  am_response_id :: json
  am_usage :: usage
  am_stop_reason :: json
  am_error_message :: json
  am_raw_stop_reason :: json
  am_end_turn :: json
  am_diagnostics :: json
  am_timestamp :: int

record tool_result_message =
  trm_tool_call_id :: string
  trm_tool_name :: string
  trm_content :: "content list"
  trm_details :: json
  trm_usage :: "usage option"
  trm_added_tool_names :: json
  trm_is_error :: bool
  trm_timestamp :: int

datatype message =
    UserMessage user_message
  | AssistantMessage assistant_message
  | ToolResultMessage tool_result_message

section \<open>Encoding\<close>

text \<open>\<^verbatim>\<open>if item is not None: value[key] = item\<close>\<close>

definition opt_field :: "string \<Rightarrow> json \<Rightarrow> jobject" where
  "opt_field k v = (if v = JNull then [] else [(k, v)])"

fun content_to_dict :: "content \<Rightarrow> jobject" where
  "content_to_dict (TextContent s sig) =
     [(''type'', JStr ''text''), (''text'', JStr s)] @ opt_field ''textSignature'' sig"
| "content_to_dict (ThinkingContent s sig red) =
     [(''type'', JStr ''thinking''), (''thinking'', JStr s)]
       @ opt_field ''thinkingSignature'' sig @ opt_field ''redacted'' red"
| "content_to_dict (ImageContent d m) =
     [(''type'', JStr ''image''), (''data'', JStr d), (''mimeType'', JStr m)]"
| "content_to_dict (ToolCallContent c) =
     [(''type'', JStr ''toolCall''), (''id'', JStr (tc_id c)), (''name'', JStr (tc_name c)),
      (''arguments'', JObj (tc_arguments c))]
       @ opt_field ''thoughtSignature'' (tc_thought_signature c)
       @ opt_field ''namespace'' (tc_namespace c)"

definition opt_int_field :: "string \<Rightarrow> int option \<Rightarrow> jobject" where
  "opt_int_field k v = (case v of None \<Rightarrow> [] | Some i \<Rightarrow> [(k, JInt i)])"

definition usage_to_dict :: "usage \<Rightarrow> jobject" where
  "usage_to_dict u =
     [(''input'', JInt (u_input u)), (''output'', JInt (u_output u)),
      (''cacheRead'', JInt (u_cache_read u)), (''cacheWrite'', JInt (u_cache_write u)),
      (''totalTokens'', JInt (u_total_tokens u)),
      (''cost'', JObj [(''input'', JFloat (uc_input (u_cost u))),
                     (''output'', JFloat (uc_output (u_cost u))),
                     (''cacheRead'', JFloat (uc_cache_read (u_cost u))),
                     (''cacheWrite'', JFloat (uc_cache_write (u_cost u))),
                     (''total'', JFloat (uc_total (u_cost u)))])]
     @ opt_int_field ''cacheWrite1h'' (u_cache_write_1h u)
     @ opt_int_field ''reasoning'' (u_reasoning u)"

definition contents_to_json :: "content list \<Rightarrow> json" where
  "contents_to_json cs = JArr (map (\<lambda>c. JObj (content_to_dict c)) cs)"

fun message_to_dict :: "message \<Rightarrow> jobject" where
  "message_to_dict (UserMessage m) =
     [(''role'', JStr ''user''),
      (''content'', (case um_content m of UserText s \<Rightarrow> JStr s
                                        | UserBlocks cs \<Rightarrow> contents_to_json cs)),
      (''timestamp'', JInt (um_timestamp m))]"
| "message_to_dict (ToolResultMessage m) =
     [(''role'', JStr ''toolResult''), (''toolCallId'', JStr (trm_tool_call_id m)),
      (''toolName'', JStr (trm_tool_name m)), (''content'', contents_to_json (trm_content m)),
      (''details'', trm_details m), (''isError'', JBool (trm_is_error m)),
      (''timestamp'', JInt (trm_timestamp m))]
     @ (case trm_usage m of None \<Rightarrow> [] | Some u \<Rightarrow> [(''usage'', JObj (usage_to_dict u))])
     @ opt_field ''addedToolNames'' (trm_added_tool_names m)"
| "message_to_dict (AssistantMessage m) =
     [(''role'', JStr ''assistant''), (''content'', contents_to_json (am_content m)),
      (''api'', JStr (am_api m)), (''provider'', JStr (am_provider m)),
      (''model'', JStr (am_model m)), (''usage'', JObj (usage_to_dict (am_usage m))),
      (''stopReason'', am_stop_reason m), (''timestamp'', JInt (am_timestamp m))]
     @ opt_field ''responseModel'' (am_response_model m)
     @ opt_field ''responseId'' (am_response_id m)
     @ opt_field ''errorMessage'' (am_error_message m)
     @ opt_field ''rawStopReason'' (am_raw_stop_reason m)
     @ opt_field ''endTurn'' (am_end_turn m)
     @ (if truthy (am_diagnostics m) then [(''diagnostics'', am_diagnostics m)] else [])"

section \<open>Decoding\<close>

definition content_from_dict :: "jobject \<Rightarrow> (exn, content) result" where
  "content_from_dict d =
     (let ty = jget d ''type'' in
      if ty = JStr ''text'' then
        Inr (TextContent (py_str (jget_or d ''text'' (JStr ''''))) (jget d ''textSignature''))
      else if ty = JStr ''thinking'' then
        Inr (ThinkingContent (py_str (jget_or d ''thinking'' (JStr '''')))
               (jget d ''thinkingSignature'') (jget d ''redacted''))
      else if ty = JStr ''image'' then
        Inr (ImageContent (py_str (jget_or d ''data'' (JStr '''')))
               (py_str (jget_or d ''mimeType'' (JStr ''''))))
      else if ty = JStr ''toolCall'' then
        (case jget_or d ''arguments'' (JObj []) of
           JObj args \<Rightarrow> Inr (ToolCallContent
             \<lparr>tc_id = py_str (jget_or d ''id'' (JStr '''')),
              tc_name = py_str (jget_or d ''name'' (JStr '''')),
              tc_arguments = args,
              tc_thought_signature = jget d ''thoughtSignature'',
              tc_namespace = jget d ''namespace''\<rparr>)
         | _ \<Rightarrow> Inl (Exn ValueError ''toolCall.arguments must be an object''))
      else Inl (Exn ValueError (''Unknown content type: '' @ py_repr ty)))"

text \<open>Calling a \<^verbatim>\<open>dict\<close> method on another value raises \<^verbatim>\<open>AttributeError\<close>.\<close>

definition content_of_json :: "json \<Rightarrow> (exn, content) result" where
  "content_of_json v = (case v of JObj d \<Rightarrow> content_from_dict d
     | _ \<Rightarrow> Inl (Exn AttributeError ''object has no attribute get''))"

fun mapE :: "('a \<Rightarrow> 'e + 'b) \<Rightarrow> 'a list \<Rightarrow> 'e + 'b list" where
  "mapE f [] = Inr []"
| "mapE f (x # xs) = bindE (f x) (\<lambda>y. bindE (mapE f xs) (\<lambda>ys. Inr (y # ys)))"

text \<open>\<^verbatim>\<open>int(value[k]) if k in value else None\<close>\<close>

definition opt_int_of :: "jobject \<Rightarrow> string \<Rightarrow> (exn, int option) result" where
  "opt_int_of d k = (if jmem k d then bindE (py_int (jget d k)) (\<lambda>i. Inr (Some i)) else Inr None)"

definition cost_from_dict :: "jobject \<Rightarrow> (exn, usage_cost) result" where
  "cost_from_dict c =
     bindE (py_float (jget_or c ''input'' (JInt 0))) (\<lambda>i.
     bindE (py_float (jget_or c ''output'' (JInt 0))) (\<lambda>ou.
     bindE (py_float (jget_or c ''cacheRead'' (JInt 0))) (\<lambda>cr.
     bindE (py_float (jget_or c ''cacheWrite'' (JInt 0))) (\<lambda>cw.
     bindE (py_float (jget_or c ''total'' (JInt 0))) (\<lambda>t.
     Inr \<lparr>uc_input = i, uc_output = ou, uc_cache_read = cr, uc_cache_write = cw, uc_total = t\<rparr>)))))"

definition usage_from_dict :: "jobject \<Rightarrow> (exn, usage) result" where
  "usage_from_dict d =
     bindE (py_int (jget_or d ''input'' (JInt 0))) (\<lambda>i.
     bindE (py_int (jget_or d ''output'' (JInt 0))) (\<lambda>ou.
     bindE (py_int (jget_or d ''cacheRead'' (JInt 0))) (\<lambda>cr.
     bindE (py_int (jget_or d ''cacheWrite'' (JInt 0))) (\<lambda>cw.
     bindE (opt_int_of d ''cacheWrite1h'') (\<lambda>c1.
     bindE (opt_int_of d ''reasoning'') (\<lambda>re.
     bindE (py_int (jget_or d ''totalTokens'' (JInt 0))) (\<lambda>t.
     bindE (cost_from_dict (case jget_or d ''cost'' (JObj []) of JObj c \<Rightarrow> c | _ \<Rightarrow> [])) (\<lambda>c.
     Inr \<lparr>u_input = i, u_output = ou, u_cache_read = cr, u_cache_write = cw,
          u_cache_write_1h = c1, u_reasoning = re, u_total_tokens = t, u_cost = c\<rparr>))))))))"

definition message_from_dict :: "jobject \<Rightarrow> (exn, message) result" where
  "message_from_dict d =
     (let role = jget d ''role'' in
      if role = JStr ''user'' then
        bindE (case jget_or d ''content'' (JStr '''') of
                 JArr vs \<Rightarrow> bindE (mapE content_of_json vs) (\<lambda>cs. Inr (UserBlocks cs))
               | v \<Rightarrow> Inr (UserText (py_str v))) (\<lambda>uc.
        bindE (py_int (jget_or d ''timestamp'' (JInt 0))) (\<lambda>ts.
        Inr (UserMessage \<lparr>um_content = uc, um_timestamp = ts\<rparr>)))
      else if role = JStr ''toolResult'' then
        (case jget_or d ''content'' (JArr []) of
           JArr vs \<Rightarrow>
             bindE (mapE content_of_json vs) (\<lambda>cs.
             bindE (case jget d ''usage'' of
                      JObj ud \<Rightarrow> bindE (usage_from_dict ud) (\<lambda>u. Inr (Some u))
                    | _ \<Rightarrow> Inr None) (\<lambda>us.
             bindE (py_int (jget_or d ''timestamp'' (JInt 0))) (\<lambda>ts.
             Inr (ToolResultMessage
               \<lparr>trm_tool_call_id = py_str (jget_or d ''toolCallId'' (JStr '''')),
                trm_tool_name = py_str (jget_or d ''toolName'' (JStr '''')),
                trm_content = cs,
                trm_details = jget_or d ''details'' (JObj []),
                trm_usage = us,
                trm_added_tool_names = jget d ''addedToolNames'',
                trm_is_error = truthy (jget_or d ''isError'' (JBool False)),
                trm_timestamp = ts\<rparr>))))
         | _ \<Rightarrow> Inl (Exn ValueError ''toolResult.content must be a list''))
      else if role = JStr ''assistant'' then
        (case jget_or d ''content'' (JArr []) of
           JArr vs \<Rightarrow>
             bindE (mapE content_of_json vs) (\<lambda>cs.
             bindE (case jget_or d ''usage'' (JObj []) of
                      JObj ud \<Rightarrow> usage_from_dict ud
                    | _ \<Rightarrow> Inl (Exn AttributeError ''object has no attribute get'')) (\<lambda>us.
             bindE (py_int (jget_or d ''timestamp'' (JInt 0))) (\<lambda>ts.
             Inr (AssistantMessage
               \<lparr>am_content = cs,
                am_api = py_str (jget_or d ''api'' (JStr '''')),
                am_provider = py_str (jget_or d ''provider'' (JStr '''')),
                am_model = py_str (jget_or d ''model'' (JStr '''')),
                am_response_model = jget d ''responseModel'',
                am_response_id = jget d ''responseId'',
                am_usage = us,
                am_stop_reason = jget_or d ''stopReason'' (JStr ''pending''),
                am_error_message = jget d ''errorMessage'',
                am_raw_stop_reason = jget d ''rawStopReason'',
                am_end_turn = jget d ''endTurn'',
                am_diagnostics = jget_or d ''diagnostics'' (JArr []),
                am_timestamp = ts\<rparr>))))
         | _ \<Rightarrow> Inl (Exn ValueError ''assistant.content must be a list''))
      else Inl (Exn ValueError (''Unknown message role: '' @ py_repr role)))"

text \<open>\<^verbatim>\<open>message_text\<close>: the concatenated text blocks.\<close>

definition texts_of :: "content list \<Rightarrow> string" where
  "texts_of cs = concat (map (\<lambda>c. case c of TextContent s _ \<Rightarrow> s | _ \<Rightarrow> []) cs)"

fun message_text :: "message \<Rightarrow> string" where
  "message_text (UserMessage m) =
     (case um_content m of UserText s \<Rightarrow> s | UserBlocks cs \<Rightarrow> texts_of cs)"
| "message_text (AssistantMessage m) = texts_of (am_content m)"
| "message_text (ToolResultMessage m) = texts_of (trm_content m)"

section \<open>Round trips\<close>

lemma mapE_map: "(\<And>x. x \<in> set xs \<Longrightarrow> f (g x) = Inr x) \<Longrightarrow> mapE f (map g xs) = Inr xs"
  by (induction xs) auto

lemma mapE_Inr_length: "mapE f xs = Inr ys \<Longrightarrow> length ys = length xs"
  by (induction xs arbitrary: ys) (auto simp: bindE_eq_Inr)

lemma opt_field_get [simp]:
  "jget (opt_field k v) k = v"
  "j \<noteq> k \<Longrightarrow> jget (opt_field k v) j = JNull"
  "jmem j (opt_field k v) = (j = k \<and> v \<noteq> JNull)"
  by (auto simp: opt_field_def)

lemma opt_int_field_get [simp]:
  "jmem j (opt_int_field k v) = (j = k \<and> v \<noteq> None)"
  "jget (opt_int_field k (Some i)) k = JInt i"
  by (auto simp: opt_int_field_def split: option.splits)

lemma content_roundtrip: "content_from_dict (content_to_dict c) = Inr c"
  by (cases c) (auto simp: content_from_dict_def Let_def jget_append jget_or_append)

lemma contents_roundtrip:
  "mapE content_of_json (map (\<lambda>c. JObj (content_to_dict c)) cs) = Inr cs"
  by (rule mapE_map) (simp add: content_of_json_def content_roundtrip)

lemma usage_roundtrip: "usage_from_dict (usage_to_dict u) = Inr u"
  by (cases "u_cache_write_1h u"; cases "u_reasoning u")
     (simp_all add: usage_from_dict_def usage_to_dict_def jget_append jget_or_append
        opt_int_of_def cost_from_dict_def)

text \<open>What the typed interface promises about the one field whose \<^verbatim>\<open>None\<close> the decoder
  does not restore: an empty \<^verbatim>\<open>diagnostics\<close> is a list.\<close>

fun message_typed :: "message \<Rightarrow> bool" where
  "message_typed (AssistantMessage m) = (truthy (am_diagnostics m) \<or> am_diagnostics m = JArr [])"
| "message_typed _ = True"

lemma message_codec:
  assumes "message_typed m"
  shows "message_from_dict (message_to_dict m) = Inr m"
proof (cases m)
  case (UserMessage u)
  then show ?thesis
    by (cases "um_content u")
       (simp_all add: message_from_dict_def Let_def contents_to_json_def contents_roundtrip)
next
  case (AssistantMessage a)
  with assms show ?thesis
    by (auto simp: message_from_dict_def Let_def contents_to_json_def contents_roundtrip
          jget_append jget_or_append usage_roundtrip)
next
  case (ToolResultMessage t)
  then show ?thesis
    by (cases "trm_usage t")
       (simp_all add: message_from_dict_def Let_def contents_to_json_def contents_roundtrip
          jget_append jget_or_append usage_roundtrip)
qed

text \<open>C13: A message survives its JSON form: \<^verbatim>\<open>message_from_dict(message_to_dict(m))\<close> is
  \<^verbatim>\<open>m\<close>, for every user, assistant and tool-result message whose diagnostics are a list.\<close>

theorem message_roundtrip:
  "message_typed m \<Longrightarrow> message_from_dict (message_to_dict m) = Inr m"
  by (rule message_codec)

theorem message_roundtrip_witness:
  "message_from_dict (message_to_dict (AssistantMessage
     \<lparr>am_content = [TextContent ''hi'' JNull], am_api = ''a'', am_provider = ''p'', am_model = ''m'',
      am_response_model = JNull, am_response_id = JStr ''r'', am_usage = usage_zero,
      am_stop_reason = JStr ''stop'', am_error_message = JNull, am_raw_stop_reason = JNull,
      am_end_turn = JNull, am_diagnostics = JArr [], am_timestamp = 3\<rparr>)) = Inr (AssistantMessage
     \<lparr>am_content = [TextContent ''hi'' JNull], am_api = ''a'', am_provider = ''p'', am_model = ''m'',
      am_response_model = JNull, am_response_id = JStr ''r'', am_usage = usage_zero,
      am_stop_reason = JStr ''stop'', am_error_message = JNull, am_raw_stop_reason = JNull,
      am_end_turn = JNull, am_diagnostics = JArr [], am_timestamp = 3\<rparr>)"
  by (rule message_roundtrip) simp

end
