(* ===== verification/JsonText.thy ===== *)
theory JsonText
  imports Messages "HOL-Library.List_Lexorder" "HOL-Library.Char_ord"
begin

text \<open>
  JSON text as \<^verbatim>\<open>json.dumps(value, ensure_ascii=False, ...)\<close> writes it.  Strings are
  UTF-8 bytes, so \<^verbatim>\<open>ensure_ascii=False\<close> copies every byte that need not be escaped, and
  byte order is the code-point order by which \<^verbatim>\<open>sort_keys\<close> sorts.
\<close>

section \<open>Writing\<close>

record dump_style =
  ds_item_sep :: string
  ds_key_sep :: string
  ds_sort_keys :: bool

text \<open>\<^verbatim>\<open>sort_keys=True\<close> with the default and with the compact separators.\<close>

definition sorted_style :: dump_style where
  "sorted_style = \<lparr>ds_item_sep = '', '', ds_key_sep = '': '', ds_sort_keys = True\<rparr>"

definition compact_style :: dump_style where
  "compact_style = \<lparr>ds_item_sep = '','', ds_key_sep = '':'', ds_sort_keys = True\<rparr>"

text \<open>\<^verbatim>\<open>separators=(",", ":")\<close> without sorting.\<close>

definition unspaced_style :: dump_style where
  "unspaced_style = \<lparr>ds_item_sep = '','', ds_key_sep = '':'', ds_sort_keys = False\<rparr>"

definition escape_char :: "char \<Rightarrow> string" where
  "escape_char c =
     (if c = CHR 0x22 \<or> c = CHR 0x5C then [CHR 0x5C, c]
      else if c = CHR 0x0A then [CHR 0x5C, CHR ''n'']
      else if c = CHR 0x0D then [CHR 0x5C, CHR ''r'']
      else if c = CHR 0x09 then [CHR 0x5C, CHR ''t'']
      else if c = CHR 0x08 then [CHR 0x5C, CHR ''b'']
      else if c = CHR 0x0C then [CHR 0x5C, CHR ''f'']
      else if of_char c < (32 :: nat)
      then [CHR 0x5C, CHR ''u'', CHR ''0'', CHR ''0'', hex_digit (of_char c div 16), hex_digit (of_char c mod 16)]
      else [c])"

definition dump_string :: "string \<Rightarrow> string" where
  "dump_string s = CHR 0x22 # concat (map escape_char s) @ [CHR 0x22]"

fun dump_float :: "pyfloat \<Rightarrow> string" where
  "dump_float PosInf = ''Infinity''"
| "dump_float NegInf = ''-Infinity''"
| "dump_float NaN = ''NaN''"
| "dump_float (Fin r) = py_repr_float (Fin r)"

fun sep_list :: "string \<Rightarrow> string list \<Rightarrow> string" where
  "sep_list sep [] = []"
| "sep_list sep [x] = x"
| "sep_list sep (x # xs) = x @ sep @ sep_list sep xs"

fun json_dumps :: "dump_style \<Rightarrow> json \<Rightarrow> string" where
  "json_dumps st JNull = ''null''"
| "json_dumps st (JBool b) = (if b then ''true'' else ''false'')"
| "json_dumps st (JInt i) = py_str_int i"
| "json_dumps st (JFloat f) = dump_float f"
| "json_dumps st (JStr s) = dump_string s"
| "json_dumps st (JArr xs) = ''['' @ sep_list (ds_item_sep st) (map (json_dumps st) xs) @ '']''"
| "json_dumps st (JObj d) =
     (let kvs = map (\<lambda>kv. (fst kv, json_dumps st (snd kv))) d in
      ''{'' @ sep_list (ds_item_sep st)
        (map (\<lambda>kv. dump_string (fst kv) @ ds_key_sep st @ snd kv)
           (if ds_sort_keys st then sort_key fst kvs else kvs)) @ ''}'')"

section \<open>Lower case\<close>

text \<open>\<^verbatim>\<open>str.lower\<close> and \<^verbatim>\<open>str.casefold\<close> on ASCII text.\<close>

definition lower_char :: "char \<Rightarrow> char" where
  "lower_char c = (if 65 \<le> (of_char c :: nat) \<and> of_char c \<le> (90 :: nat) then char_of (of_char c + 32 :: nat) else c)"

definition lower :: "string \<Rightarrow> string" where
  "lower s = map lower_char s"

end
