(* ===== verification/SessionCodec.thy ===== *)
theory SessionCodec
  imports Messages
begin

text \<open>
  Session records and their JSON form
  (\<^verbatim>\<open>src/pi_agent/harness/session/types.py\<close> and \<^verbatim>\<open>codec.py\<close>).  The seven entry
  classes share id, parent and timestamp, which are fields of \<open>tree_entry\<close>; what
  distinguishes them is the \<open>entry_body\<close>, one constructor per class.
\<close>

section \<open>Records\<close>

definition SESSION_SCHEMA_VERSION :: int where "SESSION_SCHEMA_VERSION = 1"

record session_header =
  sh_id :: string
  sh_cwd :: string
  sh_version :: int
  sh_timestamp :: int
  sh_name :: "string option"
  sh_parent_session_id :: "string option"

record compaction =
  c_summary :: string
  c_first_kept :: "string option"
  c_tokens_before :: int
  c_tokens_after :: int
  c_details :: jobject

record branch_summary =
  b_summary :: string
  b_from :: string
  b_to :: string
  b_details :: jobject

datatype entry_body =
    MessageEntry message
  | ModelChangeEntry (mc_provider: string) (mc_model_id: string)
  | ThinkingLevelChangeEntry (tl_level: string)
  | CompactionEntry compaction
  | BranchSummaryEntry branch_summary
  | CustomEntry (cu_type: string) (cu_data: jobject)
  | LabelEntry (lb_target: string) (lb_label: "string option")

record tree_entry =
  e_id :: string
  e_parent_id :: "string option"
  e_timestamp :: int
  e_body :: entry_body

datatype session_record =
    HeaderRecord session_header
  | EntryRecord tree_entry
  | CursorRecord (cur_leaf: "string option") (cur_timestamp: int)

fun entry_type :: "entry_body \<Rightarrow> string" where
  "entry_type (MessageEntry _) = ''message''"
| "entry_type (ModelChangeEntry _ _) = ''model_change''"
| "entry_type (ThinkingLevelChangeEntry _) = ''thinking_level_change''"
| "entry_type (CompactionEntry _) = ''compaction''"
| "entry_type (BranchSummaryEntry _) = ''branch_summary''"
| "entry_type (CustomEntry _ _) = ''custom''"
| "entry_type (LabelEntry _ _) = ''label''"

fun record_type :: "session_record \<Rightarrow> string" where
  "record_type (HeaderRecord _) = ''session''"
| "record_type (EntryRecord e) = entry_type (e_body e)"
| "record_type (CursorRecord _ _) = ''cursor''"

definition TREE_RECORD_TYPES :: "string list" where
  "TREE_RECORD_TYPES =
     [''message'', ''model_change'', ''thinking_level_change'', ''compaction'',
      ''branch_summary'', ''custom'', ''label'']"

definition is_tree_entry :: "session_record \<Rightarrow> bool" where
  "is_tree_entry r = (record_type r \<in> set TREE_RECORD_TYPES)"

lemma is_tree_entry_simps [simp]:
  "is_tree_entry (HeaderRecord h) = False"
  "is_tree_entry (EntryRecord e) = True"
  "is_tree_entry (CursorRecord l t) = False"
  by (cases "e_body e"; simp add: is_tree_entry_def TREE_RECORD_TYPES_def)+

section \<open>Encoding\<close>

definition json_opt :: "string option \<Rightarrow> json" where
  "json_opt x = (case x of None \<Rightarrow> JNull | Some s \<Rightarrow> JStr s)"

definition opt_str_field :: "string \<Rightarrow> string option \<Rightarrow> jobject" where
  "opt_str_field k x = (case x of None \<Rightarrow> [] | Some s \<Rightarrow> [(k, JStr s)])"

fun body_to_dict :: "entry_body \<Rightarrow> jobject" where
  "body_to_dict (MessageEntry m) = [(''message'', JObj (message_to_dict m))]"
| "body_to_dict (ModelChangeEntry p m) = [(''provider'', JStr p), (''modelId'', JStr m)]"
| "body_to_dict (ThinkingLevelChangeEntry l) = [(''thinkingLevel'', JStr l)]"
| "body_to_dict (CompactionEntry c) =
     [(''summary'', JStr (c_summary c)), (''firstKeptEntryId'', json_opt (c_first_kept c)),
      (''tokensBefore'', JInt (c_tokens_before c)), (''tokensAfter'', JInt (c_tokens_after c)),
      (''details'', JObj (c_details c))]"
| "body_to_dict (BranchSummaryEntry b) =
     [(''summary'', JStr (b_summary b)), (''fromEntryId'', JStr (b_from b)),
      (''toEntryId'', JStr (b_to b)), (''details'', JObj (b_details b))]"
| "body_to_dict (CustomEntry t d) = [(''customType'', JStr t), (''data'', JObj d)]"
| "body_to_dict (LabelEntry t l) = [(''targetId'', JStr t), (''label'', json_opt l)]"

fun record_to_dict :: "session_record \<Rightarrow> jobject" where
  "record_to_dict (HeaderRecord h) =
     [(''type'', JStr ''session''), (''id'', JStr (sh_id h)), (''version'', JInt (sh_version h)),
      (''timestamp'', JInt (sh_timestamp h)), (''cwd'', JStr (sh_cwd h))]
     @ opt_str_field ''name'' (sh_name h)
     @ opt_str_field ''parentSessionId'' (sh_parent_session_id h)"
| "record_to_dict (CursorRecord leaf ts) =
     [(''type'', JStr ''cursor''), (''leafId'', json_opt leaf), (''timestamp'', JInt ts)]"
| "record_to_dict (EntryRecord e) =
     [(''type'', JStr (entry_type (e_body e))), (''id'', JStr (e_id e)),
      (''parentId'', json_opt (e_parent_id e)), (''timestamp'', JInt (e_timestamp e))]
     @ body_to_dict (e_body e)"

section \<open>Decoding\<close>

definition codec_error :: "string \<Rightarrow> exn" where
  "codec_error s = Exn SessionCodecError s"

definition required_string :: "jobject \<Rightarrow> string \<Rightarrow> (exn, string) result" where
  "required_string d k = (case jget d k of
       JStr s \<Rightarrow> if s = [] then Inl (codec_error (k @ '' must be a non-empty string'')) else Inr s
     | _ \<Rightarrow> Inl (codec_error (k @ '' must be a non-empty string'')))"

definition optional_string :: "jobject \<Rightarrow> string \<Rightarrow> (exn, string option) result" where
  "optional_string d k = (case jget d k of
       JNull \<Rightarrow> Inr None
     | JStr s \<Rightarrow> Inr (Some s)
     | _ \<Rightarrow> Inl (codec_error (k @ '' must be a string or null'')))"

definition timestamp_of :: "jobject \<Rightarrow> (exn, int) result" where
  "timestamp_of d = (case jget_or d ''timestamp'' (JInt 0) of
       JInt i \<Rightarrow> if i < 0 then Inl (codec_error ''timestamp must be a non-negative integer'') else Inr i
     | _ \<Rightarrow> Inl (codec_error ''timestamp must be a non-negative integer''))"

definition details_of :: "jobject \<Rightarrow> string \<Rightarrow> (exn, jobject) result" where
  "details_of d k = (case jget_or d k (JObj []) of
       JObj o' \<Rightarrow> Inr o' | _ \<Rightarrow> Inl (codec_error (k @ '' must be an object'')))"

definition token_count :: "json \<Rightarrow> int option" where
  "token_count v = (case v of JInt i \<Rightarrow> if i < 0 then None else Some i | _ \<Rightarrow> None)"

definition header_from_dict :: "jobject \<Rightarrow> (exn, session_record) result" where
  "header_from_dict d =
     (case jget_or d ''version'' (JInt 1) of
        JInt v \<Rightarrow>
          bindE (required_string d ''id'') (\<lambda>i.
          bindE (required_string d ''cwd'') (\<lambda>c.
          bindE (timestamp_of d) (\<lambda>ts.
          bindE (optional_string d ''name'') (\<lambda>n.
          bindE (optional_string d ''parentSessionId'') (\<lambda>p.
          Inr (HeaderRecord \<lparr>sh_id = i, sh_cwd = c, sh_version = v, sh_timestamp = ts,
                            sh_name = n, sh_parent_session_id = p\<rparr>))))))
      | _ \<Rightarrow> Inl (codec_error ''version must be an integer''))"

definition body_from_dict :: "json \<Rightarrow> jobject \<Rightarrow> (exn, entry_body) result" where
  "body_from_dict ty d =
     (if ty = JStr ''message'' then
        (case jget d ''message'' of
           JObj m \<Rightarrow> bindE (message_from_dict m) (\<lambda>m. Inr (MessageEntry m))
         | _ \<Rightarrow> Inl (codec_error ''message must be an object''))
      else if ty = JStr ''model_change'' then
        bindE (required_string d ''provider'') (\<lambda>p.
        bindE (required_string d ''modelId'') (\<lambda>m. Inr (ModelChangeEntry p m)))
      else if ty = JStr ''thinking_level_change'' then
        bindE (required_string d ''thinkingLevel'') (\<lambda>l. Inr (ThinkingLevelChangeEntry l))
      else if ty = JStr ''compaction'' then
        (case (token_count (jget_or d ''tokensBefore'' (JInt 0)),
               token_count (jget_or d ''tokensAfter'' (JInt 0))) of
           (Some b, Some a) \<Rightarrow>
             bindE (optional_string d ''firstKeptEntryId'') (\<lambda>k.
             bindE (details_of d ''details'') (\<lambda>o'.
             Inr (CompactionEntry \<lparr>c_summary = py_str (jget_or d ''summary'' (JStr '''')),
                    c_first_kept = k, c_tokens_before = b, c_tokens_after = a, c_details = o'\<rparr>)))
         | _ \<Rightarrow> Inl (codec_error ''compaction token counts must be non-negative integers''))
      else if ty = JStr ''branch_summary'' then
        bindE (required_string d ''fromEntryId'') (\<lambda>f.
        bindE (required_string d ''toEntryId'') (\<lambda>t.
        bindE (details_of d ''details'') (\<lambda>o'.
        Inr (BranchSummaryEntry \<lparr>b_summary = py_str (jget_or d ''summary'' (JStr '''')),
               b_from = f, b_to = t, b_details = o'\<rparr>))))
      else if ty = JStr ''custom'' then
        bindE (required_string d ''customType'') (\<lambda>t.
        bindE (details_of d ''data'') (\<lambda>o'. Inr (CustomEntry t o')))
      else if ty = JStr ''label'' then
        bindE (required_string d ''targetId'') (\<lambda>t.
        bindE (optional_string d ''label'') (\<lambda>l. Inr (LabelEntry t l)))
      else Inl (codec_error (''Unknown session record type: '' @ py_repr ty)))"

definition record_from_dict :: "jobject \<Rightarrow> (exn, session_record) result" where
  "record_from_dict d =
     (let ty = jget d ''type'' in
      if ty = JStr ''session'' then header_from_dict d
      else if ty = JStr ''cursor'' then
        bindE (optional_string d ''leafId'') (\<lambda>l.
        bindE (timestamp_of d) (\<lambda>ts. Inr (CursorRecord l ts)))
      else
        bindE (required_string d ''id'') (\<lambda>i.
        bindE (optional_string d ''parentId'') (\<lambda>p.
        bindE (timestamp_of d) (\<lambda>ts.
        bindE (body_from_dict ty d) (\<lambda>b.
        Inr (EntryRecord \<lparr>e_id = i, e_parent_id = p, e_timestamp = ts, e_body = b\<rparr>))))))"

section \<open>Round trip\<close>

text \<open>The records the decoder accepts back: the non-empty strings and non-negative numbers it
  insists on.\<close>

fun body_codable :: "entry_body \<Rightarrow> bool" where
  "body_codable (MessageEntry m) = message_typed m"
| "body_codable (ModelChangeEntry p m) = (p \<noteq> [] \<and> m \<noteq> [])"
| "body_codable (ThinkingLevelChangeEntry l) = (l \<noteq> [])"
| "body_codable (CompactionEntry c) = (0 \<le> c_tokens_before c \<and> 0 \<le> c_tokens_after c)"
| "body_codable (BranchSummaryEntry b) = (b_from b \<noteq> [] \<and> b_to b \<noteq> [])"
| "body_codable (CustomEntry t d) = (t \<noteq> [])"
| "body_codable (LabelEntry t l) = (t \<noteq> [])"

fun record_codable :: "session_record \<Rightarrow> bool" where
  "record_codable (HeaderRecord h) = (sh_id h \<noteq> [] \<and> sh_cwd h \<noteq> [] \<and> 0 \<le> sh_timestamp h)"
| "record_codable (EntryRecord e) = (e_id e \<noteq> [] \<and> 0 \<le> e_timestamp e \<and> body_codable (e_body e))"
| "record_codable (CursorRecord l t) = (0 \<le> t)"

lemma opt_str_field_get [simp]:
  "jmem j (opt_str_field k x) = (j = k \<and> x \<noteq> None)"
  "jget (opt_str_field k x) k = json_opt x"
  "j \<noteq> k \<Longrightarrow> jget (opt_str_field k x) j = JNull"
  by (auto simp: opt_str_field_def json_opt_def split: option.splits)

lemma optional_string_json_opt:
  "jget d k = json_opt x \<Longrightarrow> optional_string d k = Inr x"
  by (auto simp: optional_string_def json_opt_def split: option.splits)

lemma required_string_Str:
  "jget d k = JStr s \<Longrightarrow> s \<noteq> [] \<Longrightarrow> required_string d k = Inr s"
  by (simp add: required_string_def)

lemma timestamp_of_Int:
  "jget_or d ''timestamp'' (JInt 0) = JInt i \<Longrightarrow> 0 \<le> i \<Longrightarrow> timestamp_of d = Inr i"
  by (simp add: timestamp_of_def)

lemma body_roundtrip:
  "body_codable b \<Longrightarrow>
   body_from_dict (JStr (entry_type b)) (pre @ body_to_dict b) = Inr b"
  if "\<And>k. jmem k pre \<Longrightarrow> k \<in> {''type'', ''id'', ''parentId'', ''timestamp''}"
proof -
  have no: "\<not> jmem k pre" if "k \<notin> {''type'', ''id'', ''parentId'', ''timestamp''}" for k
    using that \<open>\<And>k. jmem k pre \<Longrightarrow> _ k\<close> by blast
  show "body_codable b \<Longrightarrow> body_from_dict (JStr (entry_type b)) (pre @ body_to_dict b) = Inr b"
    by (cases b)
       (simp_all add: body_from_dict_def jget_append jget_or_append no message_codec
          required_string_def optional_string_def json_opt_def details_of_def token_count_def
          split: option.split)
qed

lemma record_codec:
  assumes "record_codable r"
  shows "record_from_dict (record_to_dict r) = Inr r"
proof (cases r)
  case (HeaderRecord h)
  with assms show ?thesis
    by (simp add: record_from_dict_def header_from_dict_def required_string_def timestamp_of_def
          optional_string_def jget_append jget_or_append json_opt_def split: option.split)
next
  case (CursorRecord l t)
  with assms show ?thesis
    by (simp add: record_from_dict_def timestamp_of_def optional_string_def json_opt_def
          split: option.split)
next
  case (EntryRecord e)
  let ?pre = "[(''type'', JStr (entry_type (e_body e))), (''id'', JStr (e_id e)),
      (''parentId'', json_opt (e_parent_id e)), (''timestamp'', JInt (e_timestamp e))]"
  have body: "body_from_dict (JStr (entry_type (e_body e))) (?pre @ body_to_dict (e_body e))
      = Inr (e_body e)"
    using assms EntryRecord by (intro body_roundtrip) (auto split: if_splits)
  have ty: "entry_type (e_body e) \<noteq> ''session''" "entry_type (e_body e) \<noteq> ''cursor''"
    by (cases "e_body e"; simp)+
  from assms EntryRecord body ty show ?thesis
    by (simp add: record_from_dict_def required_string_def timestamp_of_def
          optional_string_json_opt)
qed

text \<open>C12: The session codec round trip: decoding the dictionary written for a record gives the
  record back, for every record with the non-empty identifiers and non-negative numbers that the
  decoder demands.\<close>

theorem record_roundtrip:
  assumes "record_codable r"
  shows "record_from_dict (record_to_dict r) = Inr r"
  by (rule record_codec [OF assms])

theorem record_roundtrip_witness:
  "record_from_dict (record_to_dict (EntryRecord \<lparr>e_id = ''e1'', e_parent_id = None,
     e_timestamp = 5, e_body = LabelEntry ''e0'' (Some ''start'')\<rparr>)) =
   Inr (EntryRecord \<lparr>e_id = ''e1'', e_parent_id = None,
     e_timestamp = 5, e_body = LabelEntry ''e0'' (Some ''start'')\<rparr>)"
  by (rule record_roundtrip) simp

end
