(* ===== verification/SessionChain.thy ===== *)
theory SessionChain
  imports SessionCodec
begin

text \<open>
  Parent chains.  A session is an append-only list of entries, each naming an earlier entry as
  its parent, so following parents from any entry ends at a root.  The loops of
  \<^verbatim>\<open>tree.py\<close> and \<^verbatim>\<open>store.py\<close> that climb the tree are all read off the chain of an entry.
\<close>

section \<open>Entry dictionaries and their order\<close>

type_synonym entries = "(string, tree_entry) odict"

text \<open>Every parent is an earlier entry; identifiers are distinct and are the keys.\<close>

inductive wf_entries :: "entries \<Rightarrow> bool" where
  wf_Nil: "wf_entries []"
| wf_snoc: "wf_entries es \<Longrightarrow> e_id e \<notin> fst ` set es \<Longrightarrow>
     (case e_parent_id e of None \<Rightarrow> True | Some p \<Rightarrow> p \<in> fst ` set es) \<Longrightarrow>
     wf_entries (es @ [(e_id e, e)])"

lemma wf_entries_distinct: "wf_entries es \<Longrightarrow> distinct (map fst es)"
  by (induction rule: wf_entries.induct) auto

lemma wf_entries_key: "wf_entries es \<Longrightarrow> (i, e) \<in> set es \<Longrightarrow> e_id e = i"
  by (induction rule: wf_entries.induct) auto

lemma map_of_snoc_fresh:
  "k \<notin> fst ` set es \<Longrightarrow> map_of (es @ [(k, v)]) = (map_of es)(k \<mapsto> v)"
  by (induction es) (auto simp: fun_eq_iff)

lemma map_of_snoc_other:
  "j \<noteq> k \<Longrightarrow> map_of (es @ [(k, v)]) j = map_of es j"
  by (simp add: map_add_def split: option.split)

lemma wf_entries_map_of_id: "wf_entries es \<Longrightarrow> map_of es i = Some e \<Longrightarrow> e_id e = i"
  by (blast dest: map_of_SomeD wf_entries_key)

lemma map_of_None_iff: "map_of es i = None \<longleftrightarrow> i \<notin> fst ` set es"
  by (simp add: map_of_eq_None_iff)

section \<open>Chains\<close>

inductive chain :: "(string \<rightharpoonup> tree_entry) \<Rightarrow> string option \<Rightarrow> tree_entry list \<Rightarrow> bool" for M where
  chain_root: "chain M None []"
| chain_up: "M i = Some e \<Longrightarrow> chain M (e_parent_id e) es \<Longrightarrow> chain M (Some i) (e # es)"

inductive_simps chain_None_iff [simp]: "chain M None es"
inductive_simps chain_Some_iff: "chain M (Some i) es"
inductive_cases chain_SomeE: "chain M (Some i) es"

lemma chain_functional: "chain M i es \<Longrightarrow> chain M i fs \<Longrightarrow> es = fs"
proof (induction arbitrary: fs rule: chain.induct)
  case chain_root
  then show ?case by simp
next
  case (chain_up i e es)
  from chain_up.prems obtain e' es' where "fs = e' # es'" "M i = Some e'" "chain M (e_parent_id e') es'"
    by (rule chain_SomeE)
  with chain_up show ?case by simp
qed

text \<open>Later entries do not disturb the chains of earlier ones.\<close>

lemma chain_extend:
  "chain M i es \<Longrightarrow> M \<subseteq>\<^sub>m M' \<Longrightarrow> chain M' i es"
proof (induction rule: chain.induct)
  case chain_root
  show ?case by (rule chain.chain_root)
next
  case (chain_up i e es)
  then have "M' i = Some e" by (auto simp: map_le_def dom_def)
  with chain_up show ?case by (blast intro: chain.chain_up)
qed

lemma map_le_snoc: "k \<notin> fst ` set es \<Longrightarrow> map_of es \<subseteq>\<^sub>m map_of (es @ [(k, v)])"
  unfolding map_le_def by (metis domIff map_of_None_iff map_of_snoc_other)

lemma chain_in_entries: "chain (map_of es) i c \<Longrightarrow> set c \<subseteq> snd ` set es"
proof (induction rule: chain.induct)
  case (chain_up i e c)
  then have "(i, e) \<in> set es" by (blast dest: map_of_SomeD)
  then have "e \<in> snd ` set es" by force
  with chain_up show ?case by simp
qed simp

definition chain_of :: "entries \<Rightarrow> string option \<Rightarrow> tree_entry list" where
  "chain_of es i = (THE c. chain (map_of es) i c)"

lemma chain_of_eq: "chain (map_of es) i c \<Longrightarrow> chain_of es i = c"
  unfolding chain_of_def by (rule the_equality) (blast dest: chain_functional)+

text \<open>In a well-formed dictionary every entry has a chain, and no identifier repeats on it.\<close>

lemma wf_entries_chain:
  "wf_entries es \<Longrightarrow> i \<in> fst ` set es \<Longrightarrow>
     \<exists>c. chain (map_of es) (Some i) c \<and> length c \<le> length es \<and> distinct (map e_id c)"
proof (induction arbitrary: i rule: wf_entries.induct)
  case wf_Nil
  then show ?case by simp
next
  case (wf_snoc es e)
  let ?es = "es @ [(e_id e, e)]"
  have up: "chain (map_of ?es) p c" if "chain (map_of es) p c" for p c
    using chain_extend [OF that map_le_snoc [OF wf_snoc.hyps(2)]] .
  show ?case
  proof (cases "i = e_id e")
    case False
    then have "i \<in> fst ` set es" using wf_snoc.prems by auto
    with wf_snoc.IH obtain c where
      c: "chain (map_of es) (Some i) c" "length c \<le> length es" "distinct (map e_id c)" by blast
    from up [OF c(1)] c(2,3) show ?thesis by (intro exI [of _ c] conjI) simp_all
  next
    case True
    have "\<exists>c. chain (map_of es) (e_parent_id e) c \<and> length c \<le> length es \<and> distinct (map e_id c)"
      using wf_snoc by (cases "e_parent_id e") auto
    then obtain c where c: "chain (map_of es) (e_parent_id e) c" "length c \<le> length es"
      "distinct (map e_id c)" by blast
    have "e_id e \<notin> e_id ` set c"
    proof
      assume "e_id e \<in> e_id ` set c"
      then obtain a where a: "a \<in> set c" "e_id a = e_id e" by auto
      with chain_in_entries [OF c(1)] obtain k where k: "(k, a) \<in> set es" by auto
      then have "e_id a = k" by (rule wf_entries_key [OF wf_snoc.hyps(1)])
      with k a have "e_id e \<in> fst ` set es" by (auto simp: rev_image_eqI)
      with wf_snoc.hyps(2) show False ..
    qed
    moreover have "map_of ?es i = Some e" 
      by (simp only: True map_of_snoc_fresh [OF wf_snoc.hyps(2)] fun_upd_same)
    ultimately have "chain (map_of ?es) (Some i) (e # c)" "length (e # c) \<le> length ?es"
      "distinct (map e_id (e # c))"
      using c up [OF c(1)] by (simp_all add: chain.chain_up)
    then show ?thesis by blast
  qed
qed

lemma wf_entries_chain_opt:
  assumes "wf_entries es" and "case i of None \<Rightarrow> True | Some k \<Rightarrow> k \<in> fst ` set es"
  obtains c where "chain (map_of es) i c" "length c \<le> length es" "distinct (map e_id c)"
proof (cases i)
  case None
  then show ?thesis using that [of "[]"] by simp
next
  case (Some k)
  then show ?thesis using assms(2) wf_entries_chain [OF assms(1), of k] that by auto
qed

section \<open>The climbing loops\<close>

text \<open>\<^verbatim>\<open>while current is not None: result.append(current); current = get(current).parent_id\<close>.
  \<open>None\<close> stands for a loop that has not ended within the fuel, \<open>Inl\<close> for the missing
  entry.  A chain never holds an entry twice, so \<open>Suc (length es)\<close> rounds are enough for every
  dictionary: running out means that the loop does not end.\<close>

fun climb :: "nat \<Rightarrow> entries \<Rightarrow> string option \<Rightarrow> (string, tree_entry list) result option" where
  "climb 0 es i = None"
| "climb (Suc n) es None = Some (Inr [])"
| "climb (Suc n) es (Some i) =
     (case map_of es i of
        None \<Rightarrow> Some (Inl i)
      | Some e \<Rightarrow> map_option (\<lambda>r. bindE r (\<lambda>c. Inr (e # c))) (climb n es (e_parent_id e)))"

definition climb_fuel :: "entries \<Rightarrow> nat" where
  "climb_fuel es = Suc (length es)"

lemma climb_chain: "chain (map_of es) i c \<Longrightarrow> length c < n \<Longrightarrow> climb n es i = Some (Inr c)"
proof (induction arbitrary: n rule: chain.induct)
  case chain_root
  then show ?case by (cases n) auto
next
  case (chain_up i e c)
  then show ?case by (cases n) auto
qed

lemma climb_Inr_chain: "climb n es i = Some (Inr c) \<Longrightarrow> chain (map_of es) i c"
proof (induction n es i arbitrary: c rule: climb.induct)
  case (3 n es i)
  then obtain e r where e: "map_of es i = Some e" "climb n es (e_parent_id e) = Some r"
    "bindE r (\<lambda>c. Inr (e # c)) = Inr c" by (auto split: option.splits)
  then obtain c' where "r = Inr c'" "c = e # c'" by (auto simp: bindE_eq_Inr)
  with "3.IH" e show ?case by (blast intro: chain.chain_up)
qed simp_all

lemma climb_mono: "climb n es i = Some r \<Longrightarrow> n \<le> m \<Longrightarrow> climb m es i = Some r"
proof (induction n es i arbitrary: m r rule: climb.induct)
  case (3 n es i)
  then obtain m' where "m = Suc m'" "n \<le> m'" by (cases m) auto
  show ?case
  proof (cases "map_of es i")
    case None
    with "3.prems"(1) \<open>m = Suc m'\<close> show ?thesis by simp
  next
    case (Some e)
    with "3.prems"(1) obtain r' where "climb n es (e_parent_id e) = Some r'" by auto
    with "3.IH" [OF Some this \<open>n \<le> m'\<close>] "3.prems"(1) Some \<open>m = Suc m'\<close> show ?thesis by simp
  qed
next
  case (2 n es)
  then show ?case by (cases m) auto
qed simp

text \<open>Enough fuel: for a known entry of a well-formed dictionary the climb ends.\<close>

lemma climb_wf:
  assumes "wf_entries es" and "case i of None \<Rightarrow> True | Some k \<Rightarrow> k \<in> fst ` set es"
  shows "climb (climb_fuel es) es i = Some (Inr (chain_of es i))"
proof -
  obtain c where "chain (map_of es) i c" "length c \<le> length es"
    using wf_entries_chain_opt [OF assms] .
  then show ?thesis by (simp add: climb_fuel_def climb_chain chain_of_eq)
qed

lemma chain_of_wf:
  assumes "wf_entries es" and "case i of None \<Rightarrow> True | Some k \<Rightarrow> k \<in> fst ` set es"
  shows "chain (map_of es) i (chain_of es i)"
  using climb_Inr_chain [OF climb_wf [OF assms]] .

lemma chain_of_None [simp]: "chain_of es None = []"
  by (rule chain_of_eq) (rule chain_root)

lemma chain_of_Some:
  assumes "wf_entries es" and "map_of es i = Some e"
  shows "chain_of es (Some i) = e # chain_of es (e_parent_id e)"
proof -
  have "i \<in> fst ` set es" using assms(2) by (force dest: map_of_SomeD)
  then obtain c where "chain (map_of es) (Some i) c"
    using wf_entries_chain [OF assms(1)] by blast
  then obtain c' where "c = e # c'" "chain (map_of es) (e_parent_id e) c'"
    using assms(2) by (auto elim: chain_SomeE)
  with \<open>chain (map_of es) (Some i) c\<close> show ?thesis by (simp only: chain_of_eq)
qed

end
