(* ===== verification/SessionStore.thy ===== *)
theory SessionStore
  imports SessionChain
begin

text \<open>
  Session validation and the in-memory store
  (\<^verbatim>\<open>src/pi_agent/harness/session/store.py\<close>), and the contract of a session store that the
  manager relies on.
\<close>

section \<open>Validation\<close>

record session_warning =
  w_code :: string
  w_message :: string
  w_line :: "int option"
  w_offset :: "int option"

definition validation_error :: "string \<Rightarrow> exn" where
  "validation_error s = Exn SessionValidationError s"

text \<open>The first loop of \<^verbatim>\<open>validate_records\<close>: position, entry dictionary, last cursor.\<close>

fun scan_records ::
  "int \<Rightarrow> session_record list \<Rightarrow> entries \<Rightarrow> string option option \<Rightarrow>
   (exn, entries \<times> string option option) result" where
  "scan_records pos [] es c = Inr (es, c)"
| "scan_records pos (HeaderRecord h # rs) es c =
     Inl (validation_error (''duplicate session header at record '' @ py_str_int pos))"
| "scan_records pos (CursorRecord leaf ts # rs) es c = scan_records (pos + 1) rs es (Some leaf)"
| "scan_records pos (EntryRecord e # rs) es c =
     (if e_id e \<in> set (dict_keys es) then
        Inl (validation_error (''duplicate entry id: '' @ e_id e))
      else if (case e_parent_id e of None \<Rightarrow> False | Some p \<Rightarrow> p \<notin> set (dict_keys es)) then
        Inl (validation_error (''entry '' @ e_id e @ '' references unknown parent ''
               @ the (e_parent_id e)))
      else scan_records (pos + 1) rs (dict_set (e_id e) e es) c)"

definition calls_tool :: "tree_entry \<Rightarrow> string \<Rightarrow> bool" where
  "calls_tool e t = (case e_body e of
       MessageEntry (AssistantMessage a) \<Rightarrow>
         (\<exists>b \<in> set (am_content a). case b of ToolCallContent c \<Rightarrow> tc_id c = t | _ \<Rightarrow> False)
     | _ \<Rightarrow> False)"

definition result_of_tool :: "tree_entry \<Rightarrow> string option" where
  "result_of_tool e = (case e_body e of
       MessageEntry (ToolResultMessage m) \<Rightarrow> Some (trm_tool_call_id m) | _ \<Rightarrow> None)"

text \<open>The ancestor loop: climb until an assistant message holds the tool call.\<close>

fun tool_match :: "nat \<Rightarrow> entries \<Rightarrow> string \<Rightarrow> string option \<Rightarrow> (exn, bool) result option" where
  "tool_match 0 es t i = None"
| "tool_match (Suc n) es t None = Some (Inr False)"
| "tool_match (Suc n) es t (Some i) =
     (case map_of es i of
        None \<Rightarrow> Some (Inl (Exn KeyError i))
      | Some e \<Rightarrow> if calls_tool e t then Some (Inr True)
                  else tool_match n es t (e_parent_id e))"

text \<open>The second loop, over the entries in order.  Running out of fuel would be a loop that
  never ends; \<open>validate_terminates\<close> below excludes it.\<close>

definition diverges :: exn where
  "diverges = Exn OtherException ''the loop does not terminate''"

fun check_results :: "entries \<Rightarrow> tree_entry list \<Rightarrow> (exn, unit) result" where
  "check_results es [] = Inr ()"
| "check_results es (e # rest) =
     (case result_of_tool e of
        None \<Rightarrow> check_results es rest
      | Some t \<Rightarrow>
          (case tool_match (climb_fuel es) es t (e_parent_id e) of
             None \<Rightarrow> Inl diverges
           | Some (Inl x) \<Rightarrow> Inl x
           | Some (Inr True) \<Rightarrow> check_results es rest
           | Some (Inr False) \<Rightarrow>
               Inl (validation_error (''tool result '' @ e_id e
                      @ '' has no ancestor tool call '' @ t))))"

definition tool_call_ids :: "tree_entry \<Rightarrow> string list" where
  "tool_call_ids e = (case e_body e of
       MessageEntry (AssistantMessage a) \<Rightarrow>
         concat (map (\<lambda>b. case b of ToolCallContent c \<Rightarrow> [tc_id c] | _ \<Rightarrow> []) (am_content a))
     | _ \<Rightarrow> [])"

definition resolved_ids :: "tree_entry list \<Rightarrow> string list" where
  "resolved_ids es = concat (map (\<lambda>e. case result_of_tool e of None \<Rightarrow> [] | Some t \<Rightarrow> [t]) es)"

definition unresolved_warnings :: "tree_entry list \<Rightarrow> session_warning list" where
  "unresolved_warnings es =
     map (\<lambda>t. \<lparr>w_code = ''unresolved_tool_call'',
               w_message = ''tool call '' @ t @ '' has no recorded result; the session may have been interrupted'',
               w_line = None, w_offset = None\<rparr>)
       (filter (\<lambda>t. t \<notin> set (resolved_ids es)) (concat (map tool_call_ids es)))"

definition check_cursor :: "entries \<Rightarrow> string option option \<Rightarrow> (exn, unit) result" where
  "check_cursor es c = (case c of
       Some (Some leaf) \<Rightarrow>
         if leaf \<notin> set (dict_keys es)
         then Inl (validation_error (''cursor references unknown entry '' @ leaf))
         else Inr ()
     | _ \<Rightarrow> Inr ())"

definition validate_records ::
  "session_record list \<Rightarrow> (exn, session_warning list) result" where
  "validate_records rs = (case rs of
       [] \<Rightarrow> Inl (validation_error ''session is empty'')
     | HeaderRecord h # rest \<Rightarrow>
         if sh_version h \<noteq> 1 then
           Inl (validation_error (''unsupported session schema version: '' @ py_str_int (sh_version h)))
         else bindE (scan_records 2 rest [] None) (\<lambda>(es, c).
           bindE (check_cursor es c) (\<lambda>_.
           bindE (check_results es (map snd es)) (\<lambda>_.
           Inr (unresolved_warnings (map snd es)))))
     | _ \<Rightarrow> Inl (validation_error ''the first record must be a session header''))"

section \<open>What validation accepts\<close>

fun no_headers :: "session_record list \<Rightarrow> bool" where
  "no_headers [] = True"
| "no_headers (HeaderRecord h # rs) = False"
| "no_headers (r # rs) = no_headers rs"

fun entries_of :: "session_record list \<Rightarrow> entries" where
  "entries_of [] = []"
| "entries_of (EntryRecord e # rs) = (e_id e, e) # entries_of rs"
| "entries_of (r # rs) = entries_of rs"

fun cursor_after :: "string option option \<Rightarrow> session_record list \<Rightarrow> string option option" where
  "cursor_after c [] = c"
| "cursor_after c (CursorRecord leaf ts # rs) = cursor_after (Some leaf) rs"
| "cursor_after c (r # rs) = cursor_after c rs"

definition known :: "entries \<Rightarrow> string option \<Rightarrow> bool" where
  "known es i = (case i of None \<Rightarrow> True | Some k \<Rightarrow> k \<in> fst ` set es)"

text \<open>What the entries hold, read off their bodies: an entry asks for the tool call \<open>t\<close> when it
  is an assistant message with a tool call block of that identifier, and answers it when it is a
  tool result that names it.\<close>

definition asks :: "tree_entry \<Rightarrow> string \<Rightarrow> bool" where
  "asks e t \<longleftrightarrow> (\<exists>a c. e_body e = MessageEntry (AssistantMessage a)
     \<and> ToolCallContent c \<in> set (am_content a) \<and> tc_id c = t)"

definition answers :: "tree_entry \<Rightarrow> string \<Rightarrow> bool" where
  "answers e t \<longleftrightarrow> (\<exists>m. e_body e = MessageEntry (ToolResultMessage m) \<and> trm_tool_call_id m = t)"

definition results_matched :: "entries \<Rightarrow> bool" where
  "results_matched es \<longleftrightarrow>
     (\<forall>e \<in> snd ` set es. \<forall>t. answers e t \<longrightarrow>
        (\<exists>a \<in> set (chain_of es (e_parent_id e)). asks a t))"

text \<open>The identifiers of all tool calls of the assistant messages, in the order of the entries and
  of the blocks within each message.\<close>

fun block_calls :: "content list \<Rightarrow> string list" where
  "block_calls [] = []"
| "block_calls (ToolCallContent c # bs) = tc_id c # block_calls bs"
| "block_calls (b # bs) = block_calls bs"

fun calls_in_order :: "tree_entry list \<Rightarrow> string list" where
  "calls_in_order [] = []"
| "calls_in_order (e # es) =
     (case e_body e of MessageEntry (AssistantMessage a) \<Rightarrow> block_calls (am_content a) | _ \<Rightarrow> [])
     @ calls_in_order es"

definition missing_result :: "string \<Rightarrow> session_warning" where
  "missing_result t = \<lparr>w_code = ''unresolved_tool_call'',
     w_message = ''tool call '' @ t @ '' has no recorded result; the session may have been interrupted'',
     w_line = None, w_offset = None\<rparr>"

definition valid_session :: "session_record list \<Rightarrow> bool" where
  "valid_session rs \<longleftrightarrow>
     (\<exists>h rest. rs = HeaderRecord h # rest \<and> sh_version h = 1 \<and> no_headers rest \<and>
        wf_entries (entries_of rest) \<and>
        (case cursor_after None rest of Some i \<Rightarrow> known (entries_of rest) i | None \<Rightarrow> True) \<and>
        results_matched (entries_of rest))"

lemma known_simps [simp]:
  "known es None" "known es (Some k) = (k \<in> fst ` set es)"
  by (simp_all add: known_def)

lemma entries_of_append [simp]: "entries_of (xs @ ys) = entries_of xs @ entries_of ys"
  by (induction xs rule: entries_of.induct) auto

lemma no_headers_append [simp]: "no_headers (xs @ ys) = (no_headers xs \<and> no_headers ys)"
  by (induction xs rule: no_headers.induct) auto

lemma cursor_after_append [simp]: "cursor_after c (xs @ ys) = cursor_after (cursor_after c xs) ys"
  by (induction c xs rule: cursor_after.induct) auto

lemma wf_entries_snoc_iff:
  "wf_entries (es @ [(k, e)]) \<longleftrightarrow>
     wf_entries es \<and> k = e_id e \<and> k \<notin> fst ` set es \<and> known es (e_parent_id e)"
  (is "?L \<longleftrightarrow> ?R")
proof
  assume ?L
  then show ?R by (cases rule: wf_entries.cases) (auto simp: known_def)
next
  assume ?R
  then show ?L by (auto simp: known_def intro: wf_entries.wf_snoc)
qed

lemma wf_entries_appendD: "wf_entries (xs @ ys) \<Longrightarrow> wf_entries xs"
proof (induction ys rule: rev_induct)
  case (snoc y ys)
  then show ?case by (cases y) (auto simp: wf_entries_snoc_iff simp flip: append_assoc)
qed simp

lemma scan_records_sound:
  "scan_records pos rs es c = Inr (es', c') \<Longrightarrow> wf_entries es \<Longrightarrow>
     wf_entries es' \<and> es' = es @ entries_of rs \<and> c' = cursor_after c rs \<and> no_headers rs"
proof (induction pos rs es c rule: scan_records.induct)
  case (4 pos e rs es c)
  from "4.prems"(1) have ok: "e_id e \<notin> fst ` set es" "known es (e_parent_id e)"
    by (auto simp: dict_keys_def split: if_splits option.splits)
  then have "wf_entries (dict_set (e_id e) e es)"
    using "4.prems"(2) by (simp add: dict_set_fresh wf_entries_snoc_iff)
  with 4 ok show ?case by (auto simp: dict_keys_def dict_set_fresh split: if_splits option.splits)
qed auto

lemma scan_records_complete:
  "wf_entries (es @ entries_of rs) \<Longrightarrow> no_headers rs \<Longrightarrow>
     scan_records pos rs es c = Inr (es @ entries_of rs, cursor_after c rs)"
proof (induction pos rs es c rule: scan_records.induct)
  case (4 pos e rs es c)
  from "4.prems"(1) have "wf_entries ((es @ [(e_id e, e)]) @ entries_of rs)" by simp
  then have "wf_entries (es @ [(e_id e, e)])" by (rule wf_entries_appendD)
  then have ok: "e_id e \<notin> fst ` set es" "known es (e_parent_id e)"
    by (simp_all add: wf_entries_snoc_iff)
  with 4 show ?case by (auto simp: dict_keys_def dict_set_fresh known_def split: option.splits)
qed auto

lemma tool_match_chain:
  "chain (map_of es) i c \<Longrightarrow> length c < n \<Longrightarrow>
     tool_match n es t i = Some (Inr (\<exists>a \<in> set c. calls_tool a t))"
proof (induction arbitrary: n rule: chain.induct)
  case chain_root
  then show ?case by (cases n) auto
next
  case (chain_up i e c)
  then obtain m where "n = Suc m" "length c < m" by (cases n) auto
  with chain_up show ?case by simp
qed

lemma tool_match_wf:
  assumes "wf_entries es" and "known es i"
  shows "tool_match (climb_fuel es) es t i = Some (Inr (\<exists>a \<in> set (chain_of es i). calls_tool a t))"
proof -
  obtain c where "chain (map_of es) i c" "length c \<le> length es"
    using wf_entries_chain_opt [OF assms(1)] assms(2) by (auto simp: known_def)
  then show ?thesis by (simp add: tool_match_chain climb_fuel_def chain_of_eq)
qed

lemma wf_entries_parent_known:
  "wf_entries es \<Longrightarrow> (i, e) \<in> set es \<Longrightarrow> known es (e_parent_id e)"
proof (induction arbitrary: i e rule: wf_entries.induct)
  case (wf_snoc es e')
  then show ?case by (cases "e_parent_id e"; force simp: known_def)
qed simp

lemma check_results_iff:
  assumes "wf_entries es" and "snd ` set es \<supseteq> set xs"
  shows "check_results es xs = Inr () \<longleftrightarrow>
     (\<forall>e \<in> set xs. case result_of_tool e of None \<Rightarrow> True
        | Some t \<Rightarrow> \<exists>a \<in> set (chain_of es (e_parent_id e)). calls_tool a t)"
  using assms(2)
proof (induction xs)
  case (Cons e xs)
  then have "e \<in> snd ` set es" by simp
  then obtain i where "(i, e) \<in> set es" by auto
  then have "known es (e_parent_id e)" by (rule wf_entries_parent_known [OF assms(1)])
  with Cons show ?case
    by (auto simp: tool_match_wf [OF assms(1)] split: option.split bool.split)
qed simp

lemma check_results_terminates:
  assumes "wf_entries es" and "snd ` set es \<supseteq> set xs"
  shows "check_results es xs \<noteq> Inl diverges"
  using assms(2)
proof (induction xs)
  case (Cons e xs)
  then have "e \<in> snd ` set es" by simp
  then obtain i where "(i, e) \<in> set es" by auto
  then have "known es (e_parent_id e)" by (rule wf_entries_parent_known [OF assms(1)])
  with Cons show ?case
    by (auto simp: tool_match_wf [OF assms(1)] diverges_def validation_error_def
        split: option.split bool.split)
qed simp

lemma check_cursor_iff:
  "check_cursor es c = Inr () \<longleftrightarrow> (case c of Some i \<Rightarrow> known es i | None \<Rightarrow> True)"
  by (auto simp: check_cursor_def dict_keys_def known_def split: option.split)

lemma calls_tool_iff: "calls_tool e t \<longleftrightarrow> asks e t"
  by (auto simp: calls_tool_def asks_def split: entry_body.splits message.splits content.splits)

lemma result_of_tool_iff: "result_of_tool e = Some t \<longleftrightarrow> answers e t"
  by (auto simp: result_of_tool_def answers_def split: entry_body.splits message.splits)

lemma results_matched_alt0: "results_matched es \<longleftrightarrow>
     (\<forall>e \<in> snd ` set es. case result_of_tool e of None \<Rightarrow> True
        | Some t \<Rightarrow> \<exists>a \<in> set (chain_of es (e_parent_id e)). calls_tool a t)"
  unfolding results_matched_def calls_tool_iff result_of_tool_iff [symmetric]
  by (rule ball_cong) (auto split: option.split)

lemma resolved_ids_iff: "t \<in> set (resolved_ids es) \<longleftrightarrow> (\<exists>e \<in> set es. answers e t)"
  unfolding result_of_tool_iff [symmetric]
  by (induction es) (auto simp: resolved_ids_def split: option.splits)

lemma block_calls_eq:
  "block_calls bs = concat (map (\<lambda>b. case b of ToolCallContent c \<Rightarrow> [tc_id c] | _ \<Rightarrow> []) bs)"
  by (induction bs rule: block_calls.induct) simp_all

lemma calls_in_order_eq: "calls_in_order es = concat (map tool_call_ids es)"
  by (induction es)
     (simp_all add: tool_call_ids_def block_calls_eq split: entry_body.splits message.splits)

lemma unresolved_warnings_spec:
  "unresolved_warnings es =
     map missing_result (filter (\<lambda>t. \<not> (\<exists>e \<in> set es. answers e t)) (calls_in_order es))"
  by (simp add: unresolved_warnings_def resolved_ids_iff calls_in_order_eq
      missing_result_def [abs_def])

lemma validate_records_Inr:
  "validate_records rs = Inr ws \<longleftrightarrow>
     valid_session rs \<and> ws = unresolved_warnings (map snd (entries_of (tl rs)))"
proof (cases "\<exists>h rest. rs = HeaderRecord h # rest")
  case False
  then show ?thesis
    by (auto simp: validate_records_def valid_session_def split: list.split session_record.split)
next
  case True
  then obtain h rest where rs: "rs = HeaderRecord h # rest" by blast
  let ?es = "entries_of rest"
  show ?thesis
  proof (cases "wf_entries ?es \<and> no_headers rest")
    case True
    then have "scan_records 2 rest [] None = Inr (?es, cursor_after None rest)"
      using scan_records_complete [of "[]" rest 2 None] by simp
    then have "validate_records rs = Inr ws \<longleftrightarrow> sh_version h = 1 \<and>
        (case cursor_after None rest of Some i \<Rightarrow> known ?es i | None \<Rightarrow> True) \<and>
        check_results ?es (map snd ?es) = Inr () \<and> ws = unresolved_warnings (map snd ?es)"
      by (auto simp: validate_records_def rs bindE_eq_Inr check_cursor_iff)
    moreover have "check_results ?es (map snd ?es) = Inr () \<longleftrightarrow> results_matched ?es"
      using check_results_iff [of ?es "map snd ?es"] True by (simp add: results_matched_alt0)
    ultimately show ?thesis using True by (auto simp: valid_session_def rs)
  next
    case False
    have "scan_records 2 rest [] None \<noteq> Inr x" for x
    proof
      assume "scan_records 2 rest [] None = Inr x"
      then have "scan_records 2 rest [] None = Inr (fst x, snd x)" by simp
      note sound = scan_records_sound [OF this wf_entries.wf_Nil, simplified append_Nil]
      then have "wf_entries (fst x)" "fst x = ?es" "no_headers rest" by blast+
      with False show False by metis
    qed
    then have "validate_records rs \<noteq> Inr ws"
      by (simp add: validate_records_def rs bindE_eq_Inr)
    moreover have "\<not> valid_session rs" using False by (auto simp: valid_session_def rs)
    ultimately show ?thesis by simp
  qed
qed

text \<open>C6: \<^verbatim>\<open>validate_records\<close> accepts exactly the sessions that start with one version-1
  header, whose entries have distinct identifiers and earlier parents, whose last cursor points at
  nothing or at an entry, and whose every tool result has an assistant ancestor holding the tool
  call.  It then warns of the tool calls of the session's assistant messages that no tool result of
  the session answers, once for each such call, in the order of the calls, and of nothing else.\<close>

theorem validate_records_correct:
  "validate_records rs = Inr ws \<longleftrightarrow>
     valid_session rs \<and>
     ws = map missing_result
            (filter (\<lambda>t. \<not> (\<exists>e \<in> set (map snd (entries_of (tl rs))). answers e t))
               (calls_in_order (map snd (entries_of (tl rs)))))"
  by (simp only: validate_records_Inr unresolved_warnings_spec)

text \<open>Validation always returns: the ancestor climb never runs for ever, because a climb
  is only made on entries whose parents are known to be earlier entries.\<close>

theorem validate_terminates: "validate_records rs \<noteq> Inl diverges"
proof (cases "\<exists>h rest. rs = HeaderRecord h # rest")
  case False
  then show ?thesis
    by (auto simp: validate_records_def diverges_def validation_error_def
        split: list.split session_record.split)
next
  case True
  then obtain h rest where rs: "rs = HeaderRecord h # rest" by blast
  have scan_err: "scan_records pos r es c = Inl x \<Longrightarrow> x \<noteq> diverges" for pos r es c x
    by (induction pos r es c rule: scan_records.induct)
       (auto simp: diverges_def validation_error_def split: if_splits)
  have "validate_records rs = Inl x \<Longrightarrow> x \<noteq> diverges" for x
  proof (cases "scan_records 2 rest [] None")
    case (Inl y)
    moreover assume "validate_records rs = Inl x"
    ultimately show ?thesis
      using scan_err [OF Inl] by (auto simp: validate_records_def rs diverges_def validation_error_def split: if_splits)
  next
    case (Inr p)
    assume v: "validate_records rs = Inl x"
    obtain es c where p: "p = (es, c)" by (cases p)
    with Inr have "scan_records 2 rest [] None = Inr (es, c)" by simp
    then have "wf_entries es" using scan_records_sound wf_entries.wf_Nil by blast
    then have "check_results es (map snd es) \<noteq> Inl diverges"
      by (rule check_results_terminates) simp
    moreover have "check_cursor es c \<noteq> Inl diverges"
      by (auto simp: check_cursor_def diverges_def validation_error_def split: option.split)
    ultimately show ?thesis using v Inr p
      by (auto simp: validate_records_def rs bindE_eq_Inl diverges_def validation_error_def
          split: if_splits)
  qed
  then show ?thesis by blast
qed

section \<open>Stores\<close>

record load_result =
  l_records :: "session_record list"
  l_warnings :: "session_warning list"
  l_valid_bytes :: nat
  l_ignored_tail :: string

text \<open>\<^verbatim>\<open>InMemorySessionStore\<close>: the state is the record list.\<close>

type_synonym memory_store = "session_record list"

definition memory_init :: "session_record list \<Rightarrow> (exn, memory_store) result" where
  "memory_init rs =
     (if rs \<noteq> [] then bindE (validate_records rs) (\<lambda>_. Inr rs) else Inr rs)"

definition memory_load :: "memory_store \<Rightarrow> (exn, load_result) result" where
  "memory_load s = bindE (validate_records s) (\<lambda>ws.
     Inr \<lparr>l_records = s, l_warnings = ws, l_valid_bytes = 0, l_ignored_tail = []\<rparr>)"

definition memory_append :: "memory_store \<Rightarrow> session_record \<Rightarrow> (exn, memory_store) result" where
  "memory_append s r = bindE (validate_records (s @ [r])) (\<lambda>_. Inr (s @ [r]))"

text \<open>
  The \<^verbatim>\<open>SessionStore\<close> protocol: what a manager may assume of a store.  A load returns a
  valid session; an append that succeeds adds exactly that record at the end; and a record that
  keeps the session valid, and that the store's encoding can carry, is accepted.
\<close>

locale session_store =
  fixes load :: "'s \<Rightarrow> (exn, load_result) result"
    and append :: "'s \<Rightarrow> session_record \<Rightarrow> (exn, 's) result"
    and storable :: "session_record \<Rightarrow> bool"
    and clean :: "'s \<Rightarrow> bool"
  assumes load_valid: "load s = Inr l \<Longrightarrow> valid_session (l_records l)"
    and append_load:
      "load s = Inr l \<Longrightarrow> clean s \<Longrightarrow> storable r \<Longrightarrow> append s r = Inr s' \<Longrightarrow>
       clean s' \<and> (\<exists>l'. load s' = Inr l' \<and> l_records l' = l_records l @ [r])"
    and append_accepts:
      "load s = Inr l \<Longrightarrow> clean s \<Longrightarrow> storable r \<Longrightarrow>
       (\<exists>s'. append s r = Inr s') \<longleftrightarrow> valid_session (l_records l @ [r])"
begin

lemma append_valid:
  assumes "load s = Inr l" "clean s" "storable r" "append s r = Inr s'"
  shows "valid_session (l_records l @ [r])"
  using append_accepts [OF assms(1-3)] assms(4) by blast

lemma append_succeeds:
  assumes "load s = Inr l" "clean s" "storable r" "valid_session (l_records l @ [r])"
  obtains s' l' where "append s r = Inr s'" "clean s'" "load s' = Inr l'"
    "l_records l' = l_records l @ [r]"
  using append_accepts [OF assms(1-3)] append_load [OF assms(1-3)] assms(4) by blast

end

interpretation memory: session_store memory_load memory_append "\<lambda>r. True" "\<lambda>s. True"
proof unfold_locales
  fix s l
  assume "memory_load s = Inr l"
  then show "valid_session (l_records l)"
    by (auto simp: memory_load_def bindE_eq_Inr validate_records_Inr)
next
  fix s l r s'
  assume "memory_append s r = Inr s'" "memory_load s = Inr l"
  then show "True \<and> (\<exists>l'. memory_load s' = Inr l' \<and> l_records l' = l_records l @ [r])"
    by (auto simp: memory_append_def memory_load_def bindE_eq_Inr)
next
  fix s l r
  assume "memory_load s = Inr l"
  then show "(\<exists>s'. memory_append s r = Inr s') \<longleftrightarrow> valid_session (l_records l @ [r])"
    by (auto simp: memory_append_def memory_load_def bindE_eq_Inr validate_records_Inr)
qed

end
