(* ===== verification/SessionTree.thy ===== *)
theory SessionTree
  imports SessionStore
begin

text \<open>
  The tree projection over a session's records
  (\<^verbatim>\<open>src/pi_agent/harness/session/tree.py\<close>).  \<^verbatim>\<open>path_to\<close> keeps a set of seen
  identifiers and so always returns; the other climbs have no such guard and are modelled with the
  fuel of \<open>climb\<close>, where \<open>None\<close> is a loop that does not end.
\<close>

section \<open>Construction\<close>

record session_tree =
  t_header :: session_header
  t_entries :: entries
  t_order :: "string list"
  t_children :: "(string option, string list) odict"
  t_leaf_id :: "string option"

record session_path =
  p_header :: session_header
  p_entries :: "tree_entry list"

definition tree_error :: "string \<Rightarrow> exn" where
  "tree_error s = Exn SessionTreeError s"

definition child_list :: "(string option, string list) odict \<Rightarrow> string option \<Rightarrow> string list" where
  "child_list ch p = (case map_of ch p of None \<Rightarrow> [] | Some ks \<Rightarrow> ks)"

fun tree_scan ::
  "session_record list \<Rightarrow> entries \<Rightarrow> string list \<Rightarrow> (string option, string list) odict \<Rightarrow>
   string option \<Rightarrow> bool \<Rightarrow>
   entries \<times> string list \<times> (string option, string list) odict \<times> string option \<times> bool" where
  "tree_scan [] es ord ch leaf seen = (es, ord, ch, leaf, seen)"
| "tree_scan (CursorRecord l ts # rs) es ord ch leaf seen = tree_scan rs es ord ch l True"
| "tree_scan (HeaderRecord h # rs) es ord ch leaf seen = tree_scan rs es ord ch leaf seen"
| "tree_scan (EntryRecord e # rs) es ord ch leaf seen =
     tree_scan rs (dict_set (e_id e) e es) (ord @ [e_id e])
       (dict_set (e_parent_id e) (child_list ch (e_parent_id e) @ [e_id e]) ch) leaf seen"

definition session_tree_of :: "session_record list \<Rightarrow> (exn, session_tree) result" where
  "session_tree_of rs = (case rs of
       HeaderRecord h # rest \<Rightarrow>
         (case tree_scan rest [] [] [] None False of (es, ord, ch, leaf, seen) \<Rightarrow>
            if leaf \<noteq> None \<and> the leaf \<notin> set (dict_keys es)
            then Inl (tree_error (''cursor references unknown entry '' @ the leaf))
            else Inr \<lparr>t_header = h, t_entries = es, t_order = ord, t_children = ch,
                      t_leaf_id = (if seen then leaf
                                   else if ord = [] then None else Some (last ord))\<rparr>)
     | _ \<Rightarrow> Inl (tree_error ''session header is missing''))"

section \<open>Queries\<close>

definition tree_get :: "session_tree \<Rightarrow> string \<Rightarrow> (exn, tree_entry) result" where
  "tree_get t i = (case map_of (t_entries t) i of
       None \<Rightarrow> Inl (tree_error (''unknown entry: '' @ i)) | Some e \<Rightarrow> Inr e)"

function path_loop ::
  "entries \<Rightarrow> string option \<Rightarrow> string list \<Rightarrow> (exn, tree_entry list) result" where
  "path_loop es None seen = Inr []"
| "path_loop es (Some i) seen =
     (if i \<in> set seen then Inl (tree_error (''cycle detected at entry '' @ i))
      else case map_of es i of
             None \<Rightarrow> Inl (tree_error (''unknown entry: '' @ i))
           | Some e \<Rightarrow> bindE (path_loop es (e_parent_id e) (i # seen)) (\<lambda>p. Inr (e # p)))"
  by pat_completeness auto
termination
proof (relation "measure (\<lambda>(es, i, seen). card (fst ` set es - set seen))", goal_cases)
  case 1
  show ?case by simp
next
  case (2 es i seen e)
  then have "i \<in> fst ` set es - set seen" by (force dest: map_of_SomeD)
  then have "card (fst ` set es - set (i # seen)) < card (fst ` set es - set seen)"
    by (intro psubset_card_mono) auto
  then show ?case by simp
qed

definition path_to :: "session_tree \<Rightarrow> string option \<Rightarrow> (exn, session_path) result" where
  "path_to t i = bindE (path_loop (t_entries t) i [])
     (\<lambda>p. Inr \<lparr>p_header = t_header t, p_entries = rev p\<rparr>)"

definition path_messages :: "session_path \<Rightarrow> message list" where
  "path_messages p =
     concat (map (\<lambda>e. case e_body e of MessageEntry m \<Rightarrow> [m] | _ \<Rightarrow> []) (p_entries p))"

definition active_path :: "session_tree \<Rightarrow> (exn, session_path) result" where
  "active_path t = path_to t (t_leaf_id t)"

definition ancestor_climb :: "session_tree \<Rightarrow> string option \<Rightarrow> (exn, string list) result option" where
  "ancestor_climb t i = (case climb (climb_fuel (t_entries t)) (t_entries t) i of
       None \<Rightarrow> None
     | Some (Inl k) \<Rightarrow> Some (Inl (tree_error (''unknown entry: '' @ k)))
     | Some (Inr c) \<Rightarrow> Some (Inr (map e_id c)))"

text \<open>\<^verbatim>\<open>ancestor_ids\<close>: the climb appends the identifier it followed, which is the key.\<close>

definition ancestor_ids ::
  "session_tree \<Rightarrow> string option \<Rightarrow> bool \<Rightarrow> (exn, string list) result option" where
  "ancestor_ids t i include_self = (case i of
       None \<Rightarrow> Some (Inr [])
     | Some k \<Rightarrow>
         if include_self then ancestor_climb t (Some k)
         else bindD (Some (tree_get t k)) (\<lambda>e. ancestor_climb t (e_parent_id e)))"

definition common_ancestor ::
  "session_tree \<Rightarrow> string option \<Rightarrow> string option \<Rightarrow> (exn, string option) result option" where
  "common_ancestor t l r =
     bindD (ancestor_ids t r True) (\<lambda>right.
     bindD (ancestor_ids t l True) (\<lambda>left.
     Some (Inr (find (\<lambda>c. c \<in> set right) left))))"

definition child_ids :: "session_tree \<Rightarrow> string option \<Rightarrow> string list" where
  "child_ids t i = child_list (t_children t) i"

definition leaf_ids :: "session_tree \<Rightarrow> string list" where
  "leaf_ids t = filter (\<lambda>i. child_list (t_children t) (Some i) = []) (t_order t)"

text \<open>The stack of \<^verbatim>\<open>descendants\<close>, its top at the head: extending by the reversed children
  puts the first child on top.\<close>

fun desc_loop ::
  "nat \<Rightarrow> (string option, string list) odict \<Rightarrow> string list \<Rightarrow> string list option" where
  "desc_loop 0 ch stack = None"
| "desc_loop (Suc n) ch [] = Some []"
| "desc_loop (Suc n) ch (i # stack) =
     map_option (\<lambda>r. i # r) (desc_loop n ch (child_list ch (Some i) @ stack))"

definition descendants :: "session_tree \<Rightarrow> string option \<Rightarrow> string list option" where
  "descendants t i = desc_loop (Suc (length (t_order t))) (t_children t) (child_list (t_children t) i)"

definition branch_delta ::
  "session_tree \<Rightarrow> string option \<Rightarrow> string option \<Rightarrow> (exn, tree_entry list) result option" where
  "branch_delta t from to =
     bindD (common_ancestor t from to) (\<lambda>common.
     bindD (Some (path_to t to)) (\<lambda>path.
     case common of
       None \<Rightarrow> Some (Inr (p_entries path))
     | Some c \<Rightarrow> (case dropWhile (\<lambda>e. e_id e \<noteq> c) (p_entries path) of
                    [] \<Rightarrow> Some (Inl (Exn OtherException ''StopIteration''))
                  | _ # after \<Rightarrow> Some (Inr after))))"

definition tree_labels :: "session_tree \<Rightarrow> (string, string) odict" where
  "tree_labels t = fold (\<lambda>i labels.
       case map_of (t_entries t) i of
         Some e \<Rightarrow> (case e_body e of
             LabelEntry target None \<Rightarrow> dict_pop target labels
           | LabelEntry target (Some l) \<Rightarrow> dict_set target l labels
           | _ \<Rightarrow> labels)
       | None \<Rightarrow> labels) (t_order t) []"

section \<open>The tree of a valid session\<close>

definition kids :: "entries \<Rightarrow> string option \<Rightarrow> string list" where
  "kids es p = map fst (filter (\<lambda>ke. e_parent_id (snd ke) = p) es)"

lemma kids_simps [simp]:
  "kids [] p = []"
  "kids (xs @ ys) p = kids xs p @ kids ys p"
  "kids [(k, e)] p = (if e_parent_id e = p then [k] else [])"
  by (simp_all add: kids_def)

lemma child_list_simps [simp]:
  "child_list [] p = []"
  "child_list (dict_set q ks ch) p = (if p = q then ks else child_list ch p)"
  by (simp_all add: child_list_def)

text \<open>What the projection of a well-formed list of records is, as an invariant of trees.\<close>

definition wf_tree :: "session_tree \<Rightarrow> bool" where
  "wf_tree t \<longleftrightarrow>
     wf_entries (t_entries t) \<and> t_order t = map fst (t_entries t) \<and>
     (\<forall>p. child_list (t_children t) p = kids (t_entries t) p) \<and>
     known (t_entries t) (t_leaf_id t)"

lemma cursor_after_override:
  "cursor_after c rs = (case cursor_after None rs of None \<Rightarrow> c | Some x \<Rightarrow> Some x)"
proof (induction rs arbitrary: c)
  case (Cons r rs)
  show ?case
  proof (cases r)
    case (CursorRecord l ts)
    then show ?thesis using Cons.IH [of "Some l"] by (auto split: option.splits)
  qed (use Cons.IH [of c] in auto)
qed simp

lemma tree_scan_spec:
  "tree_scan rs es ord ch leaf seen = (es', ord', ch', leaf', seen') \<Longrightarrow>
   wf_entries (es @ entries_of rs) \<Longrightarrow>
     es' = es @ entries_of rs \<and> ord' = ord @ map fst (entries_of rs) \<and>
     (\<forall>p. child_list ch' p = child_list ch p @ kids (entries_of rs) p) \<and>
     (case cursor_after None rs of
        None \<Rightarrow> leaf' = leaf \<and> seen' = seen | Some l \<Rightarrow> leaf' = l \<and> seen')"
proof (induction rs es ord ch leaf seen rule: tree_scan.induct)
  case (1 es ord ch leaf seen)
  then show ?case by simp
next
  case (2 l ts rs es ord ch leaf seen)
  then show ?case using cursor_after_override [of "Some l" rs] by (auto split: option.splits)
next
  case (3 h rs es ord ch leaf seen)
  then show ?case by simp
next
  case (4 e rs es ord ch leaf seen)
  from "4.prems"(2) have wf: "wf_entries ((es @ [(e_id e, e)]) @ entries_of rs)" by simp
  then have "e_id e \<notin> fst ` set es" by (blast dest: wf_entries_appendD iffD1 [OF wf_entries_snoc_iff])
  then have "dict_set (e_id e) e es = es @ [(e_id e, e)]" by (rule dict_set_fresh)
  with 4 wf show ?case by (auto simp: kids_def)
qed

lemma session_tree_of_valid:
  assumes "valid_session rs"
  obtains t where "session_tree_of rs = Inr t" "wf_tree t"
    "t_entries t = entries_of (tl rs)" "HeaderRecord (t_header t) = hd rs"
    "t_leaf_id t = (case cursor_after None (tl rs) of Some l \<Rightarrow> l
       | None \<Rightarrow> if entries_of (tl rs) = [] then None else Some (fst (last (entries_of (tl rs)))))"
proof -
  from assms obtain h rest where rs: "rs = HeaderRecord h # rest"
    and wf: "wf_entries (entries_of rest)"
    and cur: "case cursor_after None rest of Some i \<Rightarrow> known (entries_of rest) i | None \<Rightarrow> True"
    by (auto simp: valid_session_def)
  obtain es ord ch leaf seen where scan: "tree_scan rest [] [] [] None False = (es, ord, ch, leaf, seen)"
    by (metis prod_cases5)
  note spec = tree_scan_spec [OF scan, simplified, OF wf]
  have leaf: "(if seen then leaf else if ord = [] then None else Some (last ord)) =
     (case cursor_after None rest of Some l \<Rightarrow> l
       | None \<Rightarrow> if entries_of rest = [] then None else Some (fst (last (entries_of rest))))"
    using spec by (auto simp: last_map split: option.splits)
  have ok: "\<not> (leaf \<noteq> None \<and> the leaf \<notin> set (dict_keys es))"
    using spec cur by (auto simp: dict_keys_def known_def split: option.splits)
  have known: "known es (if seen then leaf else if ord = [] then None else Some (last ord))"
    unfolding leaf using spec cur
    by (auto simp: known_def split: option.splits intro!: imageI last_in_set)
  show ?thesis
  proof (rule that)
    show "session_tree_of rs = Inr \<lparr>t_header = h, t_entries = es, t_order = ord, t_children = ch,
        t_leaf_id = (if seen then leaf else if ord = [] then None else Some (last ord))\<rparr>"
      using ok by (simp add: session_tree_of_def rs scan)
  qed (unfold rs list.sel, use spec wf known leaf in \<open>simp_all add: wf_tree_def\<close>)
qed

section \<open>Paths\<close>

lemma path_loop_chain:
  "chain (map_of es) i c \<Longrightarrow> distinct (map e_id c) \<Longrightarrow> set (map e_id c) \<inter> set seen = {} \<Longrightarrow>
   \<forall>k e. map_of es k = Some e \<longrightarrow> e_id e = k \<Longrightarrow> path_loop es i seen = Inr c"
proof (induction arbitrary: seen rule: chain.induct)
  case chain_root
  then show ?case by simp
next
  case (chain_up i e c)
  then have "e_id e = i" by blast
  with chain_up show ?case by auto
qed

lemma path_loop_wf:
  assumes "wf_entries es" and "known es i"
  shows "path_loop es i [] = Inr (chain_of es i)"
proof -
  obtain c where c: "chain (map_of es) i c" "distinct (map e_id c)"
    using wf_entries_chain_opt [OF assms(1)] assms(2) by (auto simp: known_def)
  with wf_entries_map_of_id [OF assms(1)] show ?thesis
    by (simp add: path_loop_chain chain_of_eq)
qed

lemma path_loop_unknown: "i \<notin> fst ` set es \<Longrightarrow> \<exists>x. path_loop es (Some i) [] = Inl x"
  by (simp flip: map_of_None_iff)

lemma path_to_wf:
  "wf_tree t \<Longrightarrow> known (t_entries t) i \<Longrightarrow>
   path_to t i = Inr \<lparr>p_header = t_header t, p_entries = rev (chain_of (t_entries t) i)\<rparr>"
  by (simp add: path_to_def wf_tree_def path_loop_wf)

text \<open>The shape of a path: it starts at a root, each entry is the parent of the next one, and it
  ends at the requested entry.\<close>

fun linked :: "string option \<Rightarrow> tree_entry list \<Rightarrow> bool" where
  "linked p [] = True"
| "linked p (e # es) = (e_parent_id e = p \<and> linked (Some (e_id e)) es)"

lemma linked_append:
  "linked p (xs @ ys) \<longleftrightarrow> linked p xs \<and> linked (if xs = [] then p else Some (e_id (last xs))) ys"
  by (induction xs arbitrary: p) auto

lemma chain_linked:
  "chain (map_of es) i c \<Longrightarrow> \<forall>k e. map_of es k = Some e \<longrightarrow> e_id e = k \<Longrightarrow>
     linked None (rev c) \<and> (case i of None \<Rightarrow> c = [] | Some k \<Rightarrow> c \<noteq> [] \<and> e_id (hd c) = k)"
proof (induction rule: chain.induct)
  case (chain_up i e c)
  then show ?case
    by (cases "e_parent_id e") (auto simp: linked_append last_rev)
qed simp

text \<open>In the tree of a valid session \<^verbatim>\<open>path_to\<close> never fails for a known entry: it
  returns the path of entries of the session from a root to that entry, each the parent of the
  next, without repetition; an unknown entry is an error.\<close>

theorem path_to_correct:
  assumes "valid_session rs" and "session_tree_of rs = Inr t"
  shows "(if known (t_entries t) i
     then \<exists>p. path_to t i = Inr p \<and> linked None (p_entries p) \<and>
            set (p_entries p) \<subseteq> snd ` set (entries_of (tl rs)) \<and>
            distinct (map e_id (p_entries p)) \<and>
            (case i of None \<Rightarrow> p_entries p = []
                     | Some k \<Rightarrow> p_entries p \<noteq> [] \<and> e_id (last (p_entries p)) = k)
     else \<exists>x. path_to t i = Inl x)"
proof -
  from assms have wf: "wf_tree t" and es: "t_entries t = entries_of (tl rs)"
    by (auto elim: session_tree_of_valid)
  show ?thesis
  proof (cases "known (t_entries t) i")
    case True
    let ?c = "chain_of (t_entries t) i"
    from wf True have ch: "chain (map_of (t_entries t)) i ?c"
      by (auto simp: wf_tree_def known_def intro: chain_of_wf)
    have "\<forall>k e. map_of (t_entries t) k = Some e \<longrightarrow> e_id e = k"
      using wf wf_entries_map_of_id by (auto simp: wf_tree_def)
    note lk = chain_linked [OF ch this]
    have "distinct (map e_id ?c)"
      using wf True wf_entries_chain_opt [of "t_entries t" i]
      by (metis chain_of_eq known_def wf_tree_def)
    with True wf lk chain_in_entries [OF ch] es show ?thesis
      by (auto simp: path_to_wf rev_map [symmetric] last_rev split: option.splits)
  next
    case False
    then obtain k where "i = Some k" "k \<notin> fst ` set (t_entries t)" by (auto simp: known_def split: option.splits)
    with False path_loop_unknown show ?thesis by (force simp: path_to_def bindE_def)
  qed
qed

section \<open>Common ancestors and branches\<close>

lemma wf_tree_ids: "wf_tree t \<Longrightarrow> \<forall>k e. map_of (t_entries t) k = Some e \<longrightarrow> e_id e = k"
  using wf_entries_map_of_id by (auto simp: wf_tree_def)

lemma wf_tree_chain:
  "wf_tree t \<Longrightarrow> known (t_entries t) i \<Longrightarrow>
   chain (map_of (t_entries t)) i (chain_of (t_entries t) i)"
  by (auto simp: wf_tree_def known_def intro: chain_of_wf)

lemma wf_tree_chain_distinct:
  "wf_tree t \<Longrightarrow> known (t_entries t) i \<Longrightarrow> distinct (map e_id (chain_of (t_entries t) i))"
  using wf_entries_chain_opt [of "t_entries t" i] by (metis chain_of_eq known_def wf_tree_def)

lemma chain_suffix:
  "chain M i (pre @ e # post) \<Longrightarrow> \<forall>k e. M k = Some e \<longrightarrow> e_id e = k \<Longrightarrow>
   chain M (Some (e_id e)) (e # post)"
proof (induction pre arbitrary: i)
  case Nil
  then show ?case by (cases i) (auto elim!: chain_SomeE intro: chain.chain_up)
next
  case (Cons a pre)
  then obtain k where "chain M (e_parent_id a) (pre @ e # post)" by (cases i) (auto elim!: chain_SomeE)
  with Cons show ?case by blast
qed

lemma ancestor_ids_wf:
  assumes "wf_tree t" and "known (t_entries t) i"
  shows "ancestor_ids t i True = Some (Inr (map e_id (chain_of (t_entries t) i)))"
proof (cases i)
  case (Some k)
  then show ?thesis
    using assms climb_wf [of "t_entries t" i]
    by (simp add: ancestor_ids_def ancestor_climb_def wf_tree_def)
qed (simp add: ancestor_ids_def)

lemma common_ancestor_wf:
  assumes "wf_tree t" and "known (t_entries t) l" and "known (t_entries t) r"
  shows "common_ancestor t l r = Some (Inr
    (find (\<lambda>c. c \<in> e_id ` set (chain_of (t_entries t) r)) (map e_id (chain_of (t_entries t) l))))"
  using assms by (simp add: common_ancestor_def ancestor_ids_wf)

lemma find_None_disjoint: "find P xs = None \<longleftrightarrow> (\<forall>x \<in> set xs. \<not> P x)"
  by (induction xs) auto

lemma find_Some_split:
  "find P xs = Some x \<Longrightarrow> \<exists>pre post. xs = pre @ x # post \<and> P x \<and> (\<forall>y \<in> set pre. \<not> P y)"
proof (induction xs)
  case (Cons a xs)
  show ?case
  proof (cases "P a")
    case True
    with Cons.prems have "a # xs = [] @ x # xs \<and> P x \<and> (\<forall>y \<in> set []. \<not> P y)" by simp
    then show ?thesis by blast
  next
    case False
    with Cons obtain pre post where "xs = pre @ x # post" "P x" "\<forall>y \<in> set pre. \<not> P y" by auto
    with False show ?thesis by (intro exI [of _ "a # pre"] exI [of _ post]) auto
  qed
qed simp

text \<open>The chain of an ancestor is the rest of the chain it stands on.\<close>

lemma chain_of_member:
  assumes "wf_tree t" and "known (t_entries t) i"
    and "chain_of (t_entries t) i = pre @ e # post"
  shows "chain_of (t_entries t) (Some (e_id e)) = e # post"
  using chain_suffix [OF _ wf_tree_ids [OF assms(1)]] wf_tree_chain [OF assms(1,2)] assms(3)
  by (metis chain_of_eq)

definition on_branch :: "session_tree \<Rightarrow> string \<Rightarrow> string option \<Rightarrow> bool" where
  "on_branch t k i \<longleftrightarrow> k \<in> e_id ` set (chain_of (t_entries t) i)"

lemma nearest_common_ancestor:
  assumes "wf_tree t" and "known (t_entries t) l" and "known (t_entries t) r"
  shows "\<exists>c. common_ancestor t l r = Some (Inr c) \<and>
     (case c of
        None \<Rightarrow> \<forall>k. \<not> (on_branch t k l \<and> on_branch t k r)
      | Some a \<Rightarrow> on_branch t a l \<and> on_branch t a r \<and>
          (\<forall>k. on_branch t k l \<and> on_branch t k r \<longrightarrow> on_branch t k (Some a)))"
proof -
  let ?cl = "chain_of (t_entries t) l" and ?cr = "chain_of (t_entries t) r"
  let ?f = "find (\<lambda>c. c \<in> e_id ` set ?cr) (map e_id ?cl)"
  show ?thesis
  proof (cases ?f)
    case None
    then have "\<forall>k. \<not> (on_branch t k l \<and> on_branch t k r)"
      by (auto simp: find_None_disjoint on_branch_def)
    with None common_ancestor_wf [OF assms] show ?thesis by (intro exI [of _ None]) simp
  next
    case (Some a)
    from find_Some_split [OF this] obtain pre' post' where
      split: "map e_id ?cl = pre' @ a # post'" "a \<in> e_id ` set ?cr"
      "\<forall>y \<in> set pre'. y \<notin> e_id ` set ?cr" by blast
    define pre where "pre = take (length pre') ?cl"
    define es where "es = drop (length pre') ?cl"
    have es: "?cl = pre @ es" "map e_id pre = pre'" "map e_id es = a # post'"
      using split(1) by (simp_all add: pre_def es_def flip: take_map drop_map)
    from es(3) obtain e post where "es = e # post" "e_id e = a" by (cases es) auto
    with es have cl: "?cl = pre @ e # post" "pre' = map e_id pre" "a = e_id e" by simp_all
    have "chain_of (t_entries t) (Some a) = e # post"
      using chain_of_member [OF assms(1,2) cl(1)] cl(3) by simp
    then have post: "on_branch t k (Some a) \<longleftrightarrow> k \<in> e_id ` set (e # post)" for k
      by (simp add: on_branch_def)
    have left: "on_branch t k l \<longleftrightarrow> k \<in> set pre' \<or> k \<in> e_id ` set (e # post)" for k
      by (auto simp: on_branch_def cl(1,2))
    have "on_branch t a l" "on_branch t a r"
      using split(2) cl(3) by (simp_all add: left) (simp add: on_branch_def)
    moreover have "on_branch t k (Some a)" if "on_branch t k l" "on_branch t k r" for k
      using that split(3) by (auto simp only: left post) (auto simp: on_branch_def)
    ultimately show ?thesis
      using Some common_ancestor_wf [OF assms] by (intro exI [of _ "Some a"]) simp
  qed
qed

text \<open>\<^verbatim>\<open>common_ancestor\<close> of two known entries always returns, and returns the
  nearest one: an entry on both branches on whose own branch every other shared entry lies; or
  nothing when the branches share no entry.\<close>

theorem common_ancestor_correct:
  assumes "wf_tree t" and "known (t_entries t) l" and "known (t_entries t) r"
  shows "\<exists>c. common_ancestor t l r = Some (Inr c) \<and>
     (case c of
        None \<Rightarrow> \<forall>k. \<not> (on_branch t k l \<and> on_branch t k r)
      | Some a \<Rightarrow> on_branch t a l \<and> on_branch t a r \<and>
          (\<forall>k. on_branch t k l \<and> on_branch t k r \<longrightarrow> on_branch t k (Some a)))"
  using assms by (rule nearest_common_ancestor)

lemma dropWhile_rev_chain:
  assumes "distinct (map e_id (pre @ e # post))"
  shows "dropWhile (\<lambda>x. e_id x \<noteq> e_id e) (rev (pre @ e # post)) = e # rev pre"
proof -
  have "\<forall>x \<in> set (rev post). e_id x \<noteq> e_id e" using assms by (auto simp: image_iff)
  then have "dropWhile (\<lambda>x. e_id x \<noteq> e_id e) (rev post @ e # rev pre)
      = dropWhile (\<lambda>x. e_id x \<noteq> e_id e) (e # rev pre)"
    by (intro dropWhile_append2) auto
  then show ?thesis by simp
qed

lemma branch_split:
  assumes "wf_tree t" and "known (t_entries t) i" and "on_branch t a i"
  obtains e pre post where "chain_of (t_entries t) i = pre @ e # post" "e_id e = a"
    "dropWhile (\<lambda>x. e_id x \<noteq> a) (rev (chain_of (t_entries t) i)) = e # rev pre"
    "chain_of (t_entries t) (Some a) = e # post"
    "\<forall>x \<in> set pre. \<not> on_branch t (e_id x) (Some a)"
proof -
  let ?c = "chain_of (t_entries t) i"
  from assms(3) obtain e where "e \<in> set ?c" "e_id e = a" by (auto simp: on_branch_def)
  then obtain pre post where c: "?c = pre @ e # post" by (meson split_list)
  have dist: "distinct (map e_id (pre @ e # post))" using wf_tree_chain_distinct [OF assms(1,2)] c by simp
  have sub: "chain_of (t_entries t) (Some a) = e # post"
    using chain_of_member [OF assms(1,2) c] \<open>e_id e = a\<close> by simp
  have "\<not> on_branch t (e_id x) (Some a)" if "x \<in> set pre" for x
    using dist sub that by (auto simp: on_branch_def image_iff)
  then show ?thesis
    using c sub \<open>e_id e = a\<close> dropWhile_rev_chain [OF dist] by (intro that [of pre e post]) auto
qed

text \<open>\<^verbatim>\<open>branch_delta(from, to)\<close> of known entries returns the part of the destination
  path that the two branches do not share: the destination path is the path to the common ancestor
  followed by the delta, and no entry of the delta is on the source branch.\<close>

theorem branch_delta_correct:
  assumes "wf_tree t" and "known (t_entries t) from" and "known (t_entries t) to"
  shows "\<exists>c d. common_ancestor t from to = Some (Inr c) \<and>
     branch_delta t from to = Some (Inr d) \<and>
     rev (chain_of (t_entries t) to) = rev (chain_of (t_entries t) c) @ d \<and>
     (\<forall>e \<in> set d. \<not> on_branch t (e_id e) from)"
proof -
  let ?cf = "chain_of (t_entries t) from" and ?ct = "chain_of (t_entries t) to"
  from nearest_common_ancestor [OF assms] obtain c where
    c: "common_ancestor t from to = Some (Inr c)" and
    spec: "case c of
        None \<Rightarrow> \<forall>k. \<not> (on_branch t k from \<and> on_branch t k to)
      | Some a \<Rightarrow> on_branch t a from \<and> on_branch t a to \<and>
          (\<forall>k. on_branch t k from \<and> on_branch t k to \<longrightarrow> on_branch t k (Some a))" by blast
  show ?thesis
  proof (cases c)
    case None
    with c spec assms show ?thesis
      by (auto simp: branch_delta_def path_to_wf on_branch_def)
  next
    case (Some a)
    with spec have on: "on_branch t a to" by simp
    obtain e pre post where ct: "?ct = pre @ e # post"
      "dropWhile (\<lambda>x. e_id x \<noteq> a) (rev ?ct) = e # rev pre" "chain_of (t_entries t) (Some a) = e # post"
      "\<forall>x \<in> set pre. \<not> on_branch t (e_id x) (Some a)"
      by (rule branch_split [OF assms(1,3) on])
    then have "branch_delta t from to = Some (Inr (rev pre))"
      using Some c assms by (simp add: branch_delta_def path_to_wf)
    moreover have "\<not> on_branch t (e_id x) from" if "x \<in> set pre" for x
    proof
      assume "on_branch t (e_id x) from"
      moreover have "on_branch t (e_id x) to" using that ct(1) by (auto simp: on_branch_def)
      ultimately show False using spec Some ct(4) that by auto
    qed
    ultimately show ?thesis using c Some ct(1,3) by (intro exI [of _ c] exI [of _ "rev pre"]) simp
  qed
qed

section \<open>Descendants\<close>

definition subtree :: "session_tree \<Rightarrow> string \<Rightarrow> string set" where
  "subtree t i = {j. known (t_entries t) (Some j) \<and>
     (\<exists>pre. chain_of (t_entries t) (Some j) = pre @ chain_of (t_entries t) (Some i))}"

definition below :: "session_tree \<Rightarrow> string option \<Rightarrow> string set" where
  "below t i = {j. known (t_entries t) (Some j) \<and>
     (\<exists>pre. pre \<noteq> [] \<and> chain_of (t_entries t) (Some j) = pre @ chain_of (t_entries t) i)}"

lemma wf_tree_chain_head:
  assumes "wf_tree t" and "known (t_entries t) (Some k)"
  obtains e where "map_of (t_entries t) k = Some e" "e_id e = k"
    "chain_of (t_entries t) (Some k) = e # chain_of (t_entries t) (e_parent_id e)"
proof -
  from assms(2) obtain e where e: "map_of (t_entries t) k = Some e"
    by (metis known_simps(2) map_of_None_iff option.exhaust)
  with assms(1) show ?thesis
    using that chain_of_Some wf_tree_ids by (metis wf_tree_def)
qed

lemma chain_of_not_Nil:
  "wf_tree t \<Longrightarrow> known (t_entries t) (Some k) \<Longrightarrow> chain_of (t_entries t) (Some k) \<noteq> []"
  by (metis list.distinct(1) wf_tree_chain_head)

lemma chain_of_hd:
  "wf_tree t \<Longrightarrow> known (t_entries t) (Some k) \<Longrightarrow> e_id (hd (chain_of (t_entries t) (Some k))) = k"
  by (metis list.sel(1) wf_tree_chain_head)

lemma chain_of_inj:
  assumes "wf_tree t" "known (t_entries t) i" "known (t_entries t) i'"
    and "chain_of (t_entries t) i = chain_of (t_entries t) i'"
  shows "i = i'"
  using assms by (metis chain_of_None chain_of_hd chain_of_not_Nil not_None_eq)

lemma kids_iff:
  assumes "wf_tree t"
  shows "k \<in> set (kids (t_entries t) i) \<longleftrightarrow>
     (\<exists>e. map_of (t_entries t) k = Some e \<and> e_parent_id e = i)"
proof -
  have "distinct (map fst (t_entries t))" using assms by (simp add: wf_tree_def wf_entries_distinct)
  then show ?thesis by (force simp: kids_def map_of_eq_Some_iff)
qed

lemma kids_chain:
  assumes "wf_tree t" and "k \<in> set (kids (t_entries t) i)"
  obtains e where "e_id e = k" "e_parent_id e = i" "known (t_entries t) (Some k)"
    "chain_of (t_entries t) (Some k) = e # chain_of (t_entries t) i"
proof -
  from assms obtain e where e: "map_of (t_entries t) k = Some e" "e_parent_id e = i"
    by (auto simp: kids_iff)
  then have kn: "known (t_entries t) (Some k)" by (metis known_simps(2) map_of_None_iff option.simps(3))
  from wf_tree_chain_head [OF assms(1) kn] e that kn show ?thesis by (metis option.inject)
qed

text \<open>What lies below an entry is the disjoint union of its children's subtrees.\<close>

lemma below_kids:
  assumes "wf_tree t" and "known (t_entries t) i"
  shows "below t i = (\<Union>k \<in> set (kids (t_entries t) i). subtree t k)"
proof (intro set_eqI iffI)
  fix j
  assume "j \<in> below t i"
  then obtain pre where j: "known (t_entries t) (Some j)" "pre \<noteq> []"
    "chain_of (t_entries t) (Some j) = pre @ chain_of (t_entries t) i" by (auto simp: below_def)
  then obtain pre' e where pre: "pre = pre' @ [e]" by (metis rev_exhaust)
  with j have ch: "chain_of (t_entries t) (Some j) = pre' @ e # chain_of (t_entries t) i" by simp
  note e = chain_of_member [OF assms(1) j(1) ch]
  have "e \<in> set (chain_of (t_entries t) (Some j))" using ch by simp
  then have "e \<in> snd ` set (t_entries t)"
    using chain_in_entries [OF wf_tree_chain [OF assms(1) j(1)]] by blast
  then obtain k where mem: "(k, e) \<in> set (t_entries t)" by auto
  with assms(1) have k: "e_id e = k" by (auto simp: wf_tree_def dest: wf_entries_key)
  with mem have kn: "known (t_entries t) (Some (e_id e))" by (force simp: known_def)
  have m: "map_of (t_entries t) (e_id e) = Some e"
    using mem k assms(1) by (simp add: wf_tree_def wf_entries_distinct map_of_eq_Some_iff)
  have "chain_of (t_entries t) (e_parent_id e) = chain_of (t_entries t) i"
    using e chain_of_Some [OF _ m] assms(1) by (simp add: wf_tree_def)
  then have "e_parent_id e = i"
    using chain_of_inj assms mem wf_entries_parent_known by (metis wf_tree_def)
  with m e ch j(1) show "j \<in> (\<Union>k \<in> set (kids (t_entries t) i). subtree t k)"
    by (auto simp: kids_iff [OF assms(1)] subtree_def intro!: bexI [of _ "e_id e"])
next
  fix j
  assume "j \<in> (\<Union>k \<in> set (kids (t_entries t) i). subtree t k)"
  then obtain k pre where "k \<in> set (kids (t_entries t) i)" "known (t_entries t) (Some j)"
    "chain_of (t_entries t) (Some j) = pre @ chain_of (t_entries t) (Some k)"
    by (auto simp: subtree_def)
  then show "j \<in> below t i"
    by (auto simp: below_def elim!: kids_chain [OF assms(1)])
qed

lemma kids_disjoint:
  assumes "wf_tree t" and "k \<in> set (kids (t_entries t) i)" and "k' \<in> set (kids (t_entries t) i)"
    and "k \<noteq> k'"
  shows "subtree t k \<inter> subtree t k' = {}"
proof (rule ccontr)
  assume "subtree t k \<inter> subtree t k' \<noteq> {}"
  then obtain j pre pre' where
    "chain_of (t_entries t) (Some j) = pre @ chain_of (t_entries t) (Some k)"
    "chain_of (t_entries t) (Some j) = pre' @ chain_of (t_entries t) (Some k')"
    by (auto simp: subtree_def)
  moreover obtain e where "e_id e = k" "chain_of (t_entries t) (Some k) = e # chain_of (t_entries t) i"
    using kids_chain [OF assms(1,2)] by metis
  moreover obtain e' where "e_id e' = k'" "chain_of (t_entries t) (Some k') = e' # chain_of (t_entries t) i"
    using kids_chain [OF assms(1,3)] by metis
  ultimately have "pre @ e # chain_of (t_entries t) i = pre' @ e' # chain_of (t_entries t) i" by simp
  then have "(pre @ [e]) @ chain_of (t_entries t) i = (pre' @ [e']) @ chain_of (t_entries t) i" by simp
  then have "pre @ [e] = pre' @ [e']" by (simp only: append_same_eq)
  then show False using assms(4) \<open>e_id e = k\<close> \<open>e_id e' = k'\<close> by simp
qed

lemma subtree_below: "known (t_entries t) (Some i) \<Longrightarrow> subtree t i = insert i (below t (Some i))"
  if "wf_tree t"
proof (intro set_eqI iffI)
  fix j
  assume kn: "known (t_entries t) (Some i)" and "j \<in> subtree t i"
  then obtain pre where j: "known (t_entries t) (Some j)"
    "chain_of (t_entries t) (Some j) = pre @ chain_of (t_entries t) (Some i)" by (auto simp: subtree_def)
  show "j \<in> insert i (below t (Some i))"
  proof (cases "pre = []")
    case True
    with j have "chain_of (t_entries t) (Some j) = chain_of (t_entries t) (Some i)" by simp
    from chain_of_inj [OF that j(1) kn this] show ?thesis by simp
  qed (use j in \<open>auto simp: below_def\<close>)
next
  fix j
  assume "known (t_entries t) (Some i)" and "j \<in> insert i (below t (Some i))"
  then show "j \<in> subtree t i" by (auto simp: below_def subtree_def)
qed

lemma not_below_self: "i \<notin> below t (Some i)"
  by (auto simp: below_def)

lemma finite_subtree [simp]: "finite (subtree t i)"
  by (rule finite_subset [of _ "fst ` set (t_entries t)"]) (auto simp: subtree_def)

definition stack_ok :: "session_tree \<Rightarrow> string list \<Rightarrow> bool" where
  "stack_ok t st \<longleftrightarrow> distinct st \<and> (\<forall>i \<in> set st. known (t_entries t) (Some i)) \<and>
     (\<forall>i \<in> set st. \<forall>j \<in> set st. i \<noteq> j \<longrightarrow> subtree t i \<inter> subtree t j = {})"

lemma stack_ok_append:
  assumes "stack_ok t xs" and "stack_ok t ys" and "set xs \<inter> set ys = {}"
    and "\<And>x y. x \<in> set xs \<Longrightarrow> y \<in> set ys \<Longrightarrow> subtree t x \<inter> subtree t y = {}"
  shows "stack_ok t (xs @ ys)"
proof -
  have "subtree t y \<inter> subtree t x = {}" if "x \<in> set xs" "y \<in> set ys" for x y
    using assms(4) [OF that] by (simp add: Int_commute)
  with assms show ?thesis unfolding stack_ok_def distinct_append set_append by (metis Un_iff)
qed

lemma stack_ok_kids:
  assumes "wf_tree t" and "known (t_entries t) i"
  shows "stack_ok t (kids (t_entries t) i)"
proof -
  have "distinct (kids (t_entries t) i)"
    using assms(1) by (simp add: kids_def wf_tree_def wf_entries_distinct distinct_map_filter)
  with kids_disjoint [OF assms(1)] kids_chain [OF assms(1)] show ?thesis
    unfolding stack_ok_def by metis
qed

lemma stack_ok_expand:
  assumes "wf_tree t" and "stack_ok t (i # st)"
  shows "stack_ok t (kids (t_entries t) (Some i) @ st)"
    and "(\<Union>k \<in> set (i # st). subtree t k) =
         insert i (\<Union>k \<in> set (kids (t_entries t) (Some i) @ st). subtree t k)"
    and "i \<notin> (\<Union>k \<in> set (kids (t_entries t) (Some i) @ st). subtree t k)"
proof -
  let ?ks = "kids (t_entries t) (Some i)"
  from assms(2) have kn: "known (t_entries t) (Some i)" and st: "stack_ok t st"
    and dis: "\<forall>j \<in> set st. subtree t i \<inter> subtree t j = {}"
    by (auto simp: stack_ok_def)
  note sub = subtree_below [OF assms(1) kn] and bel = below_kids [OF assms(1) kn]
  have ks: "subtree t k \<subseteq> subtree t i" if "k \<in> set ?ks" for k using that sub bel by blast
  have self: "k \<in> subtree t k" if "known (t_entries t) (Some k)" for k
    using that by (auto simp: subtree_def)
  have kids_ok: "stack_ok t ?ks" by (rule stack_ok_kids [OF assms(1) kn])
  have apart: "subtree t k \<inter> subtree t j = {}" if "k \<in> set ?ks" "j \<in> set st" for k j
    using ks [OF that(1)] dis that(2) by blast
  have "set ?ks \<inter> set st = {}"
  proof (rule ccontr)
    assume "set ?ks \<inter> set st \<noteq> {}"
    then obtain x where x: "x \<in> set ?ks" "x \<in> set st" by blast
    then have "known (t_entries t) (Some x)" using kids_ok by (simp add: stack_ok_def)
    with self apart [OF x] show False by blast
  qed
  from stack_ok_append [OF kids_ok st this apart] show "stack_ok t (?ks @ st)" .
  show "(\<Union>k \<in> set (i # st). subtree t k) = insert i (\<Union>k \<in> set (?ks @ st). subtree t k)"
    using sub bel by auto
  show "i \<notin> (\<Union>k \<in> set (?ks @ st). subtree t k)"
    using not_below_self [of i t] bel dis self [OF kn] by auto
qed

lemma desc_loop_wf:
  assumes "wf_tree t"
  shows "stack_ok t st \<Longrightarrow> card (\<Union>k \<in> set st. subtree t k) < n \<Longrightarrow>
     \<exists>ds. desc_loop n (t_children t) st = Some ds \<and> distinct ds \<and>
          set ds = (\<Union>k \<in> set st. subtree t k)"
proof (induction n arbitrary: st)
  case (Suc n)
  show ?case
  proof (cases st)
    case (Cons i st')
    with Suc.prems(1) have ok: "stack_ok t (i # st')" by simp
    note ex = stack_ok_expand [OF assms ok]
    let ?st = "kids (t_entries t) (Some i) @ st'"
    have "card (\<Union>k \<in> set ?st. subtree t k) < n"
      using Suc.prems(2) ex(2,3) Cons by simp
    from Suc.IH [OF ex(1) this] obtain ds where
      "desc_loop n (t_children t) ?st = Some ds" "distinct ds" "set ds = (\<Union>k \<in> set ?st. subtree t k)"
      by blast
    then have "desc_loop (Suc n) (t_children t) st = Some (i # ds)" "distinct (i # ds)"
      "set (i # ds) = (\<Union>k \<in> set st. subtree t k)"
      using assms ex(2,3) Cons by (simp_all add: wf_tree_def)
    then show ?thesis by blast
  qed simp
qed simp

text \<open>\<^verbatim>\<open>descendants\<close> always returns on the tree of a session, and lists, once each,
  exactly the entries whose branch passes through the given entry (all entries for \<^verbatim>\<open>None\<close>).\<close>

theorem descendants_correct:
  assumes "wf_tree t" and "known (t_entries t) i"
  shows "\<exists>ds. descendants t i = Some ds \<and> distinct ds \<and>
     set ds = {j. known (t_entries t) (Some j) \<and>
                  (case i of None \<Rightarrow> True | Some k \<Rightarrow> j \<noteq> k \<and> on_branch t k (Some j))}"
proof -
  let ?es = "t_entries t"
  have set: "below t i = {j. known ?es (Some j) \<and>
                  (case i of None \<Rightarrow> True | Some k \<Rightarrow> j \<noteq> k \<and> on_branch t k (Some j))}"
  proof (cases i)
    case None
    then show ?thesis using chain_of_not_Nil [OF assms(1)] by (auto simp: below_def)
  next
    case (Some k)
    have "j \<in> below t i \<longleftrightarrow> known ?es (Some j) \<and> j \<noteq> k \<and> on_branch t k (Some j)" for j
    proof
      assume j: "j \<in> below t i"
      moreover obtain e where "e_id e = k" "chain_of ?es (Some k) = e # chain_of ?es (e_parent_id e)"
        using wf_tree_chain_head [OF assms(1)] assms(2) Some by metis
      ultimately show "known ?es (Some j) \<and> j \<noteq> k \<and> on_branch t k (Some j)"
        using Some not_below_self [of k t] by (auto simp: below_def on_branch_def)
    next
      assume j: "known ?es (Some j) \<and> j \<noteq> k \<and> on_branch t k (Some j)"
      then obtain e where "e \<in> set (chain_of ?es (Some j))" "e_id e = k" by (auto simp: on_branch_def)
      then obtain pre post where ch: "chain_of ?es (Some j) = pre @ e # post" by (meson split_list)
      from j have "known ?es (Some j)" by blast
      from chain_of_member [OF assms(1) this ch] ch \<open>e_id e = k\<close>
      have eq: "chain_of ?es (Some j) = pre @ chain_of ?es (Some k)" by simp
      have "pre \<noteq> []"
      proof
        assume "pre = []"
        with eq have "chain_of ?es (Some j) = chain_of ?es (Some k)" by simp
        from chain_of_inj [OF assms(1) _ _ this] j assms(2) Some show False by simp
      qed
      with eq j Some show "j \<in> below t i" by (auto simp: below_def)
    qed
    with Some show ?thesis by auto
  qed
  have "below t i \<subseteq> fst ` set ?es" by (auto simp: below_def)
  then have "card (below t i) \<le> card (fst ` set ?es)" by (intro card_mono) auto
  also have "\<dots> \<le> length (t_order t)" 
    using assms(1) card_length [of "map fst ?es"] by (simp add: wf_tree_def)
  finally have "card (\<Union>k \<in> set (kids ?es i). subtree t k) < Suc (length (t_order t))"
    by (simp add: below_kids [OF assms])
  from desc_loop_wf [OF assms(1) stack_ok_kids [OF assms] this] set below_kids [OF assms]
  show ?thesis using assms(1) by (simp add: descendants_def wf_tree_def)
qed

section \<open>A small session\<close>

text \<open>A root with two branches, the cursor on the first; used to instantiate the theorems.\<close>

definition demo_header :: session_header where
  "demo_header = \<lparr>sh_id = ''s'', sh_cwd = ''/w'', sh_version = 1, sh_timestamp = 0,
     sh_name = None, sh_parent_session_id = None\<rparr>"

definition demo_entry :: "string \<Rightarrow> string option \<Rightarrow> tree_entry" where
  "demo_entry i p = \<lparr>e_id = i, e_parent_id = p, e_timestamp = 0,
     e_body = ThinkingLevelChangeEntry ''low''\<rparr>"

definition demo_session :: "session_record list" where
  "demo_session = [HeaderRecord demo_header, EntryRecord (demo_entry ''a'' None),
     EntryRecord (demo_entry ''b'' (Some ''a'')), EntryRecord (demo_entry ''c'' (Some ''a'')),
     CursorRecord (Some ''b'') 0]"

lemma demo_valid: "valid_session demo_session"
proof -
  have "validate_records demo_session = Inr []" by code_simp
  then show ?thesis by (simp add: validate_records_Inr)
qed

lemma demo_tree:
  obtains t where "session_tree_of demo_session = Inr t" "wf_tree t"
    "known (t_entries t) (Some ''a'')" "known (t_entries t) (Some ''b'')" "known (t_entries t) (Some ''c'')"
proof -
  from demo_valid obtain t where t: "session_tree_of demo_session = Inr t" "wf_tree t"
    "t_entries t = entries_of (tl demo_session)" by (rule session_tree_of_valid)
  have "fst ` set (t_entries t) = {''a'', ''b'', ''c''}"
    by (simp add: t(3) demo_session_def demo_entry_def)
  then have "known (t_entries t) (Some k) \<longleftrightarrow> k = ''a'' \<or> k = ''b'' \<or> k = ''c''" for k
    unfolding known_simps(2) by (simp only: insert_iff empty_iff simp_thms)
  then have "known (t_entries t) (Some ''a'')" "known (t_entries t) (Some ''b'')"
    "known (t_entries t) (Some ''c'')" by blast+
  with t(1,2) show ?thesis by (rule that)
qed

theorem path_to_correct_witness:
  "\<exists>t p. session_tree_of demo_session = Inr t \<and> path_to t (Some ''b'') = Inr p \<and>
     linked None (p_entries p) \<and> p_entries p \<noteq> []"
proof -
  obtain t where t: "session_tree_of demo_session = Inr t" "known (t_entries t) (Some ''b'')"
    by (rule demo_tree)
  from path_to_correct [OF demo_valid t(1), of "Some ''b''"] t show ?thesis by auto
qed

theorem common_ancestor_correct_witness:
  "\<exists>t c. session_tree_of demo_session = Inr t \<and>
     common_ancestor t (Some ''b'') (Some ''c'') = Some (Inr c)"
proof -
  obtain t where t: "session_tree_of demo_session = Inr t" "wf_tree t"
    "known (t_entries t) (Some ''b'')" "known (t_entries t) (Some ''c'')"
    by (rule demo_tree)
  from common_ancestor_correct [OF t(2-4)] t(1) show ?thesis by auto
qed

theorem branch_delta_correct_witness:
  "\<exists>t d. session_tree_of demo_session = Inr t \<and>
     branch_delta t (Some ''b'') (Some ''c'') = Some (Inr d)"
proof -
  obtain t where t: "session_tree_of demo_session = Inr t" "wf_tree t"
    "known (t_entries t) (Some ''b'')" "known (t_entries t) (Some ''c'')"
    by (rule demo_tree)
  from branch_delta_correct [OF t(2-4)] t(1) show ?thesis by auto
qed

theorem descendants_correct_witness:
  "\<exists>t ds. session_tree_of demo_session = Inr t \<and>
     descendants t (Some ''a'') = Some ds \<and> distinct ds"
proof -
  obtain t where t: "session_tree_of demo_session = Inr t" "wf_tree t"
    "known (t_entries t) (Some ''a'')" by (rule demo_tree)
  from descendants_correct [OF t(2,3)] t(1) show ?thesis by auto
qed

end
