(* ===== verification/SessionManager.thy ===== *)
theory SessionManager
  imports SessionTree
begin

text \<open>
  The session manager (\<^verbatim>\<open>src/pi_agent/harness/session/manager.py\<close>).  Its state is the
  store, the last load result and the tree projection.  An operation returns its result or
  exception together with the manager as the code leaves it: the assignments made before a raise
  stay made.  The clock and the generator of fresh identifiers are arguments.
\<close>

section \<open>Operations\<close>

record 's manager =
  m_store :: 's
  m_loaded :: load_result
  m_tree :: session_tree

type_synonym 's loader = "'s \<Rightarrow> (exn, load_result) result"
type_synonym 's appender = "'s \<Rightarrow> session_record \<Rightarrow> (exn, 's) result"

definition manager_open :: "'s loader \<Rightarrow> 's \<Rightarrow> (exn, 's manager) result" where
  "manager_open load s =
     bindE (load s) (\<lambda>l. bindE (session_tree_of (l_records l)) (\<lambda>t.
       Inr \<lparr>m_store = s, m_loaded = l, m_tree = t\<rparr>))"

definition manager_reload ::
  "'s loader \<Rightarrow> 's manager \<Rightarrow> (exn, load_result) result \<times> 's manager" where
  "manager_reload load m = (case load (m_store m) of
       Inl x \<Rightarrow> (Inl x, m)
     | Inr l \<Rightarrow> (case session_tree_of (l_records l) of
           Inl x \<Rightarrow> (Inl x, m\<lparr>m_loaded := l\<rparr>)
         | Inr t \<Rightarrow> (Inr l, m\<lparr>m_loaded := l, m_tree := t\<rparr>)))"

definition manager_leaf_id :: "'s manager \<Rightarrow> string option" where
  "manager_leaf_id m = t_leaf_id (m_tree m)"

definition manager_warnings :: "'s manager \<Rightarrow> string list" where
  "manager_warnings m = map w_message (l_warnings (m_loaded m))"

text \<open>\<^verbatim>\<open>_append\<close>: the entry, then a cursor on it, then a reload; \<open>now\<close> is the
  cursor's timestamp.\<close>

definition manager_append ::
  "'s loader \<Rightarrow> 's appender \<Rightarrow> int \<Rightarrow> 's manager \<Rightarrow> tree_entry \<Rightarrow>
   (exn, tree_entry) result \<times> 's manager" where
  "manager_append load app now m e = (case app (m_store m) (EntryRecord e) of
       Inl x \<Rightarrow> (Inl x, m)
     | Inr s \<Rightarrow> (case app s (CursorRecord (Some (e_id e)) now) of
           Inl x \<Rightarrow> (Inl x, m\<lparr>m_store := s\<rparr>)
         | Inr s' \<Rightarrow> (case manager_reload load (m\<lparr>m_store := s'\<rparr>) of
               (Inl x, m') \<Rightarrow> (Inl x, m')
             | (Inr l, m') \<Rightarrow> (Inr e, m'))))"

text \<open>\<^verbatim>\<open>entry_id or new_entry_id(...)\<close>\<close>

definition or_fresh :: "string option \<Rightarrow> string \<Rightarrow> string" where
  "or_fresh given fresh = (case given of None \<Rightarrow> fresh | Some i \<Rightarrow> if i = [] then fresh else i)"

definition new_entry :: "string option \<Rightarrow> string \<Rightarrow> int \<Rightarrow> 's manager \<Rightarrow> entry_body \<Rightarrow> tree_entry" where
  "new_entry given fresh now m b =
     \<lparr>e_id = or_fresh given fresh, e_parent_id = manager_leaf_id m, e_timestamp = now, e_body = b\<rparr>"

definition append_message where
  "append_message load app given fresh now m msg =
     manager_append load app now m (new_entry given fresh now m (MessageEntry msg))"

definition append_model_change where
  "append_model_change load app given fresh now m provider model_id =
     manager_append load app now m (new_entry given fresh now m (ModelChangeEntry provider model_id))"

definition append_thinking_level where
  "append_thinking_level load app given fresh now m level =
     manager_append load app now m (new_entry given fresh now m (ThinkingLevelChangeEntry level))"

definition append_compaction where
  "append_compaction load app given fresh now m summary first_kept before after details =
     manager_append load app now m (new_entry given fresh now m (CompactionEntry
       \<lparr>c_summary = summary, c_first_kept = first_kept, c_tokens_before = before,
        c_tokens_after = after, c_details = (case details of None \<Rightarrow> [] | Some d \<Rightarrow> d)\<rparr>))"

definition append_branch_summary where
  "append_branch_summary load app given fresh now m summary from_id to_id details =
     manager_append load app now m (new_entry given fresh now m (BranchSummaryEntry
       \<lparr>b_summary = summary, b_from = from_id, b_to = to_id,
        b_details = (case details of None \<Rightarrow> [] | Some d \<Rightarrow> d)\<rparr>))"

definition append_custom where
  "append_custom load app given fresh now m custom_type d =
     manager_append load app now m (new_entry given fresh now m (CustomEntry custom_type d))"

definition set_label ::
  "'s loader \<Rightarrow> 's appender \<Rightarrow> string option \<Rightarrow> string \<Rightarrow> int \<Rightarrow> 's manager \<Rightarrow> string \<Rightarrow>
   string option \<Rightarrow> (exn, tree_entry) result \<times> 's manager" where
  "set_label load app given fresh now m target label =
     (if target \<noteq> sh_id (t_header (m_tree m)) \<and> target \<notin> set (dict_keys (t_entries (m_tree m)))
      then (Inl (Exn SessionError (''cannot label unknown target '' @ target)), m)
      else manager_append load app now m (new_entry given fresh now m (LabelEntry target label)))"

definition navigate ::
  "'s loader \<Rightarrow> 's appender \<Rightarrow> int \<Rightarrow> 's manager \<Rightarrow> string option \<Rightarrow> bool \<Rightarrow>
   (exn, unit) result \<times> 's manager" where
  "navigate load app now m i persist =
     (case (case i of None \<Rightarrow> Inr () | Some k \<Rightarrow> bindE (tree_get (m_tree m) k) (\<lambda>_. Inr ())) of
        Inl x \<Rightarrow> (Inl x, m)
      | Inr _ \<Rightarrow>
          if persist then
            (case app (m_store m) (CursorRecord i now) of
               Inl x \<Rightarrow> (Inl x, m)
             | Inr s \<Rightarrow> (case manager_reload load (m\<lparr>m_store := s\<rparr>) of
                   (Inl x, m') \<Rightarrow> (Inl x, m') | (Inr l, m') \<Rightarrow> (Inr (), m')))
          else (Inr (), m\<lparr>m_tree := (m_tree m)\<lparr>t_leaf_id := i\<rparr>\<rparr>))"

definition fork where
  "fork load app now m i = navigate load app now m i True"

definition active_messages :: "'s manager \<Rightarrow> (exn, message list) result" where
  "active_messages m = bindE (active_path (m_tree m)) (\<lambda>p. Inr (path_messages p))"

definition active_entries :: "'s manager \<Rightarrow> (exn, tree_entry list) result" where
  "active_entries m = bindE (active_path (m_tree m)) (\<lambda>p. Inr (p_entries p))"

definition create_in_memory ::
  "string \<Rightarrow> string option \<Rightarrow> string option \<Rightarrow> string \<Rightarrow> int \<Rightarrow> (exn, memory_store manager) result" where
  "create_in_memory cwd name session_id fresh now =
     bindE (memory_init [HeaderRecord \<lparr>sh_id = or_fresh session_id fresh, sh_cwd = cwd,
              sh_version = SESSION_SCHEMA_VERSION, sh_timestamp = now, sh_name = name,
              sh_parent_session_id = None\<rparr>])
       (manager_open memory_load)"

section \<open>What keeps a session valid\<close>

text \<open>The guard that validation puts on one more entry at the end.\<close>

definition result_ok :: "entries \<Rightarrow> tree_entry \<Rightarrow> bool" where
  "result_ok es e \<longleftrightarrow> (case result_of_tool e of None \<Rightarrow> True
     | Some t \<Rightarrow> \<exists>a \<in> set (chain_of es (e_parent_id e)). calls_tool a t)"

definition entry_fits :: "entries \<Rightarrow> tree_entry \<Rightarrow> bool" where
  "entry_fits es e \<longleftrightarrow> e_id e \<notin> fst ` set es \<and> known es (e_parent_id e) \<and>
     result_ok es e"

lemma results_matched_alt: "results_matched es \<longleftrightarrow> (\<forall>e \<in> snd ` set es. result_ok es e)"
  by (simp add: results_matched_alt0 result_ok_def)

lemma chain_of_snoc:
  assumes "wf_entries es" and "e_id e \<notin> fst ` set es" and "known es i"
  shows "chain_of (es @ [(e_id e, e)]) i = chain_of es i"
proof -
  have "chain (map_of es) i (chain_of es i)"
    using assms by (auto simp: known_def intro: chain_of_wf)
  from chain_of_eq [OF chain_extend [OF this map_le_snoc [OF assms(2)]]] show ?thesis .
qed

lemma valid_append_entry:
  assumes "valid_session rs"
  shows "valid_session (rs @ [EntryRecord e]) \<longleftrightarrow> entry_fits (entries_of (tl rs)) e"
proof -
  from assms obtain h rest where rs: "rs = HeaderRecord h # rest" "sh_version h = 1" "no_headers rest"
    and wf: "wf_entries (entries_of rest)" and rm: "results_matched (entries_of rest)"
    and cur: "case cursor_after None rest of Some i \<Rightarrow> known (entries_of rest) i | None \<Rightarrow> True"
    by (auto simp: valid_session_def)
  let ?es = "entries_of rest"
  have cur': "case cursor_after None rest of
      Some i \<Rightarrow> known (?es @ [(e_id e, e)]) i | None \<Rightarrow> True"
    using cur by (auto simp: known_def split: option.splits)
  have "results_matched (?es @ [(e_id e, e)]) \<longleftrightarrow> result_ok ?es e"
    if fresh: "e_id e \<notin> fst ` set ?es" and kn: "known ?es (e_parent_id e)"
  proof -
    have same: "result_ok (?es @ [(e_id e, e)]) x \<longleftrightarrow> result_ok ?es x" if "known ?es (e_parent_id x)" for x
      unfolding result_ok_def chain_of_snoc [OF wf fresh that] ..
    have "result_ok (?es @ [(e_id e, e)]) x" if "x \<in> snd ` set ?es" for x
    proof -
      from that obtain i where "(i, x) \<in> set ?es" by auto
      then have "known ?es (e_parent_id x)" by (rule wf_entries_parent_known [OF wf])
      moreover have "result_ok ?es x" using that rm unfolding results_matched_alt by blast
      ultimately show ?thesis using same by blast
    qed
    with same [OF kn] show ?thesis by (auto simp: results_matched_alt)
  qed
  with rs wf cur' show ?thesis
    by (auto simp: valid_session_def entry_fits_def wf_entries_snoc_iff cong: option.case_cong)
qed

lemma valid_append_cursor:
  assumes "valid_session rs"
  shows "valid_session (rs @ [CursorRecord i ts]) \<longleftrightarrow> known (entries_of (tl rs)) i"
  using assms by (auto simp: valid_session_def)

section \<open>Managers over any store\<close>

definition in_step :: "session_record list \<Rightarrow> session_tree \<Rightarrow> bool" where
  "in_step rs t \<longleftrightarrow> known (t_entries t) (t_leaf_id t) \<and>
     (\<exists>t'. session_tree_of rs = Inr t' \<and> t = t'\<lparr>t_leaf_id := t_leaf_id t\<rparr>)"

lemma in_step_tree:
  assumes "valid_session rs" and "in_step rs t"
  shows "wf_tree t" and "t_entries t = entries_of (tl rs)" and "HeaderRecord (t_header t) = hd rs"
proof -
  from assms(1) obtain t' where t': "session_tree_of rs = Inr t'" "wf_tree t'"
    "t_entries t' = entries_of (tl rs)" "HeaderRecord (t_header t') = hd rs"
    by (rule session_tree_of_valid)
  moreover from this assms(2) have "t = t'\<lparr>t_leaf_id := t_leaf_id t\<rparr>" "known (t_entries t) (t_leaf_id t)"
    by (auto simp: in_step_def)
  ultimately show "wf_tree t" "t_entries t = entries_of (tl rs)" "HeaderRecord (t_header t) = hd rs"
    by (metis session_tree.select_convs(1-5) session_tree.surjective session_tree.update_convs(5) wf_tree_def)+
qed

lemma in_step_leaf:
  assumes "in_step rs t" and "known (t_entries t) i"
  shows "in_step rs (t\<lparr>t_leaf_id := i\<rparr>)"
proof -
  from assms(1) obtain t' where t': "session_tree_of rs = Inr t'" "t = t'\<lparr>t_leaf_id := t_leaf_id t\<rparr>"
    by (auto simp: in_step_def)
  from t'(2) have "t\<lparr>t_leaf_id := i\<rparr> = t'\<lparr>t_leaf_id := i\<rparr>" "t_entries t = t_entries t'"
    by (cases t; cases t'; simp)+
  with t'(1) assms(2) show ?thesis unfolding in_step_def by auto
qed

lemma tree_get_known: "(\<exists>e. tree_get t k = Inr e) \<longleftrightarrow> known (t_entries t) (Some k)"
proof -
  have "(\<exists>e. tree_get t k = Inr e) \<longleftrightarrow> map_of (t_entries t) k \<noteq> None"
    by (auto simp: tree_get_def split: option.split)
  then show ?thesis by (simp only: map_of_None_iff known_simps not_not)
qed

context session_store
begin

text \<open>The invariant of a manager: its store is clean, the last load is the store's content, and
  the tree is the projection of the loaded records up to an unsaved cursor move.\<close>

definition manager_ok :: "'s manager \<Rightarrow> bool" where
  "manager_ok m \<longleftrightarrow> clean (m_store m) \<and> load (m_store m) = Inr (m_loaded m) \<and>
     in_step (l_records (m_loaded m)) (m_tree m)"

lemma manager_ok_valid: "manager_ok m \<Longrightarrow> valid_session (l_records (m_loaded m))"
  using load_valid by (auto simp: manager_ok_def)

lemma reload_ok:
  assumes "clean s" and "load s = Inr l"
  shows "\<exists>t. session_tree_of (l_records l) = Inr t \<and>
     manager_reload load (m\<lparr>m_store := s\<rparr>) = (Inr l, m\<lparr>m_store := s, m_loaded := l, m_tree := t\<rparr>) \<and>
     manager_ok (m\<lparr>m_store := s, m_loaded := l, m_tree := t\<rparr>)"
proof -
  from load_valid [OF assms(2)] obtain t where
    "session_tree_of (l_records l) = Inr t" "wf_tree t" by (rule session_tree_of_valid)
  with assms show ?thesis
    by (auto simp: manager_reload_def manager_ok_def in_step_def wf_tree_def)
qed

lemma open_ok: "clean s \<Longrightarrow> manager_open load s = Inr m \<Longrightarrow> manager_ok m \<and> m_store m = s"
proof -
  assume "clean s" "manager_open load s = Inr m"
  then obtain l t where l: "load s = Inr l" "session_tree_of (l_records l) = Inr t"
    "m = \<lparr>m_store = s, m_loaded = l, m_tree = t\<rparr>"
    by (auto simp: manager_open_def bindE_eq_Inr)
  moreover from load_valid [OF l(1)] l(2) have "wf_tree t" by (auto elim: session_tree_of_valid)
  ultimately show ?thesis using \<open>clean s\<close>
    by (auto simp: manager_ok_def in_step_def wf_tree_def)
qed

lemma append_rejected:
  assumes "manager_ok m" and "storable (EntryRecord e)"
    and "\<not> entry_fits (t_entries (m_tree m)) e"
  shows "\<exists>x. manager_append load append now m e = (Inl x, m)"
proof -
  from assms(1) have ok: "clean (m_store m)" "load (m_store m) = Inr (m_loaded m)"
    "in_step (l_records (m_loaded m)) (m_tree m)" by (simp_all add: manager_ok_def)
  note v = manager_ok_valid [OF assms(1)]
  from assms(3) have "\<not> valid_session (l_records (m_loaded m) @ [EntryRecord e])"
    by (simp add: valid_append_entry [OF v] in_step_tree [OF v ok(3)])
  then have "\<nexists>s'. append (m_store m) (EntryRecord e) = Inr s'"
    using append_accepts [OF ok(2,1) assms(2)] by blast
  then show ?thesis by (cases "append (m_store m) (EntryRecord e)") (auto simp: manager_append_def)
qed

lemma append_accepted:
  assumes "manager_ok m" and "storable (EntryRecord e)" and "storable (CursorRecord (Some (e_id e)) now)"
    and "entry_fits (t_entries (m_tree m)) e"
  obtains m' where "manager_append load append now m e = (Inr e, m')" "manager_ok m'"
    "l_records (m_loaded m') = l_records (m_loaded m) @
       [EntryRecord e, CursorRecord (Some (e_id e)) now]"
    "manager_leaf_id m' = Some (e_id e)"
proof -
  from assms(1) have ok: "clean (m_store m)" "load (m_store m) = Inr (m_loaded m)"
    "in_step (l_records (m_loaded m)) (m_tree m)" by (simp_all add: manager_ok_def)
  let ?rs = "l_records (m_loaded m)"
  note v = manager_ok_valid [OF assms(1)]
  from assms(4) have v1: "valid_session (?rs @ [EntryRecord e])"
    by (simp add: valid_append_entry [OF v] in_step_tree [OF v ok(3)])
  from append_succeeds [OF ok(2,1) assms(2) v1] obtain s1 l1 where
    s1: "append (m_store m) (EntryRecord e) = Inr s1" "clean s1" "load s1 = Inr l1"
    "l_records l1 = ?rs @ [EntryRecord e]" .
  have "?rs \<noteq> []" using v by (auto simp: valid_session_def)
  then have "known (entries_of (tl (?rs @ [EntryRecord e]))) (Some (e_id e))" by simp
  then have v2: "valid_session (l_records l1 @ [CursorRecord (Some (e_id e)) now])"
    unfolding s1(4) valid_append_cursor [OF v1] .
  from append_succeeds [OF s1(3,2) assms(3) v2] obtain s2 l2 where
    s2: "append s1 (CursorRecord (Some (e_id e)) now) = Inr s2" "clean s2" "load s2 = Inr l2"
    "l_records l2 = ?rs @ [EntryRecord e] @ [CursorRecord (Some (e_id e)) now]" using s1(4) by auto
  from reload_ok [OF s2(2,3), of m] obtain t where t: "session_tree_of (l_records l2) = Inr t"
    "manager_reload load (m\<lparr>m_store := s2\<rparr>) = (Inr l2, m\<lparr>m_store := s2, m_loaded := l2, m_tree := t\<rparr>)"
    "manager_ok (m\<lparr>m_store := s2, m_loaded := l2, m_tree := t\<rparr>)" by blast
  have leaf: "t_leaf_id t = Some (e_id e)"
    using session_tree_of_valid [OF load_valid [OF s2(3)]] t(1) s2(4) \<open>?rs \<noteq> []\<close>
    by (auto split: option.splits)
  show ?thesis
    by (rule that [of "m\<lparr>m_store := s2, m_loaded := l2, m_tree := t\<rparr>"])
       (use s1 s2 t leaf in \<open>simp_all add: manager_append_def manager_leaf_id_def\<close>)
qed

lemma navigate_ok:
  assumes "manager_ok m" and "storable (CursorRecord i now)"
  shows "if known (t_entries (m_tree m)) i
     then \<exists>m'. navigate load append now m i persist = (Inr (), m') \<and> manager_ok m' \<and>
            manager_leaf_id m' = i \<and>
            l_records (m_loaded m') = l_records (m_loaded m) @
              (if persist then [CursorRecord i now] else [])
     else \<exists>x. navigate load append now m i persist = (Inl x, m)"
proof -
  from assms(1) have ok: "clean (m_store m)" "load (m_store m) = Inr (m_loaded m)"
    "in_step (l_records (m_loaded m)) (m_tree m)" by (simp_all add: manager_ok_def)
  let ?rs = "l_records (m_loaded m)"
  note v = manager_ok_valid [OF assms(1)]
  note tree = in_step_tree [OF v ok(3)]
  show ?thesis
  proof (cases "known (t_entries (m_tree m)) i")
    case False
    then obtain k where "i = Some k" "\<nexists>e. tree_get (m_tree m) k = Inr e"
      using tree_get_known [of "m_tree m"] by (cases i) auto
    with False show ?thesis
      by (cases "tree_get (m_tree m) k") (auto simp: navigate_def)
  next
    case True
    have guard: "(case i of None \<Rightarrow> Inr () | Some k \<Rightarrow> bindE (tree_get (m_tree m) k) (\<lambda>_. Inr ())) = Inr ()"
      using True tree_get_known [of "m_tree m"] by (cases i) (auto simp: bindE_eq_Inr)
    show ?thesis
    proof (cases persist)
      case False
      with True guard ok in_step_leaf [OF ok(3) True] show ?thesis
        by (simp add: navigate_def manager_ok_def manager_leaf_id_def)
    next
      case persist: True
      have v2: "valid_session (?rs @ [CursorRecord i now])"
        using True tree(2) by (simp add: valid_append_cursor [OF v])
      from append_succeeds [OF ok(2,1) assms(2) v2] obtain s l where
        s: "append (m_store m) (CursorRecord i now) = Inr s" "clean s" "load s = Inr l"
        "l_records l = ?rs @ [CursorRecord i now]" .
      from reload_ok [OF s(2,3), of m] obtain t where t: "session_tree_of (l_records l) = Inr t"
        "manager_reload load (m\<lparr>m_store := s\<rparr>) = (Inr l, m\<lparr>m_store := s, m_loaded := l, m_tree := t\<rparr>)"
        "manager_ok (m\<lparr>m_store := s, m_loaded := l, m_tree := t\<rparr>)" by blast
      have "?rs \<noteq> []" using v by (auto simp: valid_session_def)
      then have "t_leaf_id t = i"
        using session_tree_of_valid [OF load_valid [OF s(3)]] t(1) s(4)
        by (auto split: option.splits)
      with True persist guard s t show ?thesis
        by (auto simp: navigate_def manager_leaf_id_def)
    qed
  qed
qed

text \<open>Either way an append keeps the invariant and only ever adds records.\<close>

lemma append_keeps:
  assumes "manager_ok m" and "\<And>r. storable r"
    and "manager_append load append now m e = (r, m')"
  shows "manager_ok m' \<and> (\<exists>new. l_records (m_loaded m') = l_records (m_loaded m) @ new)"
proof (cases "entry_fits (t_entries (m_tree m)) e")
  case True
  from append_accepted [OF assms(1,2,2) True] assms(3) show ?thesis by (metis prod.inject)
next
  case False
  from append_rejected [OF assms(1,2) False] assms(1,3) show ?thesis by (metis append_Nil2 prod.inject)
qed

lemma navigate_keeps:
  assumes "manager_ok m" and "\<And>r. storable r"
    and "navigate load append now m i persist = (r, m')"
  shows "manager_ok m' \<and> (\<exists>new. l_records (m_loaded m') = l_records (m_loaded m) @ new)"
  using navigate_ok [OF assms(1,2), of i now persist] assms(1,3)
  by (auto split: if_splits)

end

section \<open>Managers over the in-memory store\<close>

text \<open>Old branches are untouched by an append, and the new entry ends the active one.\<close>

lemma tree_append_paths:
  assumes "valid_session rs" "in_step rs t" "entry_fits (t_entries t) e" "e_parent_id e = t_leaf_id t"
    and "valid_session rs'" "in_step rs' t'" "rs' = rs @ [EntryRecord e, CursorRecord (Some (e_id e)) now]"
    and "t_leaf_id t' = Some (e_id e)"
  shows "known (t_entries t) i \<Longrightarrow> path_to t' i = path_to t i"
    and "\<exists>p p'. active_path t = Inr p \<and> active_path t' = Inr p' \<and> p_entries p' = p_entries p @ [e]"
proof -
  note t = in_step_tree [OF assms(1,2)] and t' = in_step_tree [OF assms(5,6)]
  have ne: "rs \<noteq> []" using assms(1) by (auto simp: valid_session_def)
  with t t' assms(7) have es: "t_entries t' = t_entries t @ [(e_id e, e)]" by simp
  have hd: "t_header t' = t_header t"
    using t(3) t'(3) ne assms(7) by (metis hd_append2 session_record.inject(1))
  from assms(3) have fresh: "e_id e \<notin> fst ` set (t_entries t)" by (simp add: entry_fits_def)
  from t(1) have wf: "wf_entries (t_entries t)" and leaf: "known (t_entries t) (t_leaf_id t)"
    by (auto simp: wf_tree_def)
  have kn': "known (t_entries t') i" if "known (t_entries t) i" for i
    using that by (auto simp: es known_def split: option.splits)
  show old: "path_to t' i = path_to t i" if "known (t_entries t) i" for i
    using that by (simp add: path_to_wf [OF t(1)] path_to_wf [OF t'(1) kn'] hd)
      (simp add: es chain_of_snoc [OF wf fresh])
  have "map_of (t_entries t') (e_id e) = Some e"
    unfolding es map_of_snoc_fresh [OF fresh] by simp
  then have "chain_of (t_entries t') (Some (e_id e)) = e # chain_of (t_entries t') (e_parent_id e)"
    using t'(1) by (intro chain_of_Some) (auto simp: wf_tree_def)
  moreover have "chain_of (t_entries t') (e_parent_id e) = chain_of (t_entries t) (t_leaf_id t)"
    using leaf by (simp add: es assms(4) chain_of_snoc [OF wf fresh])
  moreover have "known (t_entries t') (Some (e_id e))" by (simp add: es)
  ultimately show "\<exists>p p'. active_path t = Inr p \<and> active_path t' = Inr p' \<and> p_entries p' = p_entries p @ [e]"
    using leaf by (simp add: active_path_def assms(8) path_to_wf [OF t(1)] path_to_wf [OF t'(1)])
qed

lemma memory_append_extends:
  assumes "memory.manager_ok m"
    and "entry_fits (t_entries (m_tree m)) (new_entry given fresh now m b)"
  shows "\<exists>m' p. manager_append memory_load memory_append now m (new_entry given fresh now m b)
         = (Inr (new_entry given fresh now m b), m') \<and>
       memory.manager_ok m' \<and>
       l_records (m_loaded m') = l_records (m_loaded m) @
         [EntryRecord (new_entry given fresh now m b),
          CursorRecord (Some (or_fresh given fresh)) now] \<and>
       manager_leaf_id m' = Some (or_fresh given fresh) \<and>
       active_entries m = Inr p \<and> active_entries m' = Inr (p @ [new_entry given fresh now m b]) \<and>
       (\<forall>i. known (t_entries (m_tree m)) i \<longrightarrow> path_to (m_tree m') i = path_to (m_tree m) i)"
proof -
  let ?e = "new_entry given fresh now m b"
  from memory.append_accepted [OF assms(1) TrueI TrueI assms(2), of now] obtain m' where
    m': "manager_append memory_load memory_append now m ?e = (Inr ?e, m')" "memory.manager_ok m'"
    "l_records (m_loaded m') = l_records (m_loaded m) @ [EntryRecord ?e, CursorRecord (Some (e_id ?e)) now]"
    "manager_leaf_id m' = Some (e_id ?e)" by blast
  have paths: "e_parent_id ?e = t_leaf_id (m_tree m)" "t_leaf_id (m_tree m') = Some (e_id ?e)"
    using m'(4) by (simp_all add: new_entry_def manager_leaf_id_def)
  have "in_step (l_records (m_loaded m)) (m_tree m)" "in_step (l_records (m_loaded m')) (m_tree m')"
    using assms(1) m'(2) by (simp_all add: memory.manager_ok_def)
  note ext = tree_append_paths [OF memory.manager_ok_valid [OF assms(1)] this(1) assms(2) paths(1)
      memory.manager_ok_valid [OF m'(2)] this(2) m'(3) paths(2)]
  from ext(2) obtain p where "active_entries m = Inr p" "active_entries m' = Inr (p @ [?e])"
    by (auto simp: active_entries_def)
  with m' ext(1) show ?thesis by (auto simp: new_entry_def)
qed

text \<open>C5: Appending an entry that fits (a fresh identifier and, for a tool result, the call on
  the active branch) records the entry and a cursor on it at the end of the session, makes it the
  leaf, extends the active branch by exactly that entry, and leaves the path to every older entry
  as it was.\<close>

theorem manager_append_extends_branch:
  assumes "memory.manager_ok m"
    and "entry_fits (t_entries (m_tree m)) (new_entry given fresh now m b)"
  shows "\<exists>m' p. manager_append memory_load memory_append now m (new_entry given fresh now m b)
         = (Inr (new_entry given fresh now m b), m') \<and>
       memory.manager_ok m' \<and>
       l_records (m_loaded m') = l_records (m_loaded m) @
         [EntryRecord (new_entry given fresh now m b),
          CursorRecord (Some (or_fresh given fresh)) now] \<and>
       manager_leaf_id m' = Some (or_fresh given fresh) \<and>
       active_entries m = Inr p \<and> active_entries m' = Inr (p @ [new_entry given fresh now m b]) \<and>
       (\<forall>i. known (t_entries (m_tree m)) i \<longrightarrow> path_to (m_tree m') i = path_to (m_tree m) i)"
  by (rule memory_append_extends [OF assms])

text \<open>An append that does not fit raises and changes nothing: neither the store nor the
  manager keeps a trace of the refused entry.\<close>

theorem manager_append_refused:
  assumes "memory.manager_ok m" and "\<not> entry_fits (t_entries (m_tree m)) e"
  shows "\<exists>x. manager_append memory_load memory_append now m e = (Inl x, m)"
  by (rule memory.append_rejected [OF assms(1) TrueI assms(2)])

text \<open>The life of an in-memory session: appends of any kind, labels, and cursor moves, accepted
  or refused.\<close>

inductive memory_step :: "memory_store manager \<Rightarrow> memory_store manager \<Rightarrow> bool" where
  step_append: "manager_append memory_load memory_append now m (new_entry given fresh now m b) = (r, m')
     \<Longrightarrow> memory_step m m'"
| step_label: "set_label memory_load memory_append given fresh now m target label = (r, m')
     \<Longrightarrow> memory_step m m'"
| step_navigate: "navigate memory_load memory_append now m i persist = (r, m') \<Longrightarrow> memory_step m m'"

inductive_cases memory_stepE: "memory_step m m'"

inductive session_run :: "memory_store manager \<Rightarrow> memory_store manager \<Rightarrow> bool" where
  run_start: "session_run m m"
| run_step: "session_run m m' \<Longrightarrow> memory_step m' m'' \<Longrightarrow> session_run m m''"

lemma memory_step_keeps:
  assumes "memory_step m m'" and "memory.manager_ok m"
  shows "memory.manager_ok m' \<and> (\<exists>new. l_records (m_loaded m') = l_records (m_loaded m) @ new)"
  using assms(1)
proof cases
  case (step_append now given fresh b r)
  then show ?thesis by (intro memory.append_keeps [OF assms(2)]) auto
next
  case (step_label given fresh now target label r)
  show ?thesis
  proof (cases "target \<noteq> sh_id (t_header (m_tree m)) \<and> target \<notin> set (dict_keys (t_entries (m_tree m)))")
    case True
    with step_label assms(2) show ?thesis by (simp add: set_label_def)
  next
    case False
    with step_label have "manager_append memory_load memory_append now m
        (new_entry given fresh now m (LabelEntry target label)) = (r, m')"
      unfolding set_label_def by argo
    then show ?thesis by (intro memory.append_keeps [OF assms(2)]) auto
  qed
next
  case (step_navigate now i persist r)
  then show ?thesis by (intro memory.navigate_keeps [OF assms(2)]) auto
qed

text \<open>C4: Through any sequence of appends, labels and cursor moves, accepted or refused, an
  in-memory session stays valid and in step with its tree, and its records are only ever added to:
  the history at any earlier moment is a prefix of the history now.\<close>

theorem session_history_append_only:
  assumes "session_run m m'" and "memory.manager_ok m"
  shows "memory.manager_ok m' \<and> valid_session (l_records (m_loaded m')) \<and>
     prefix (l_records (m_loaded m)) (l_records (m_loaded m'))"
proof -
  from assms have "memory.manager_ok m' \<and> prefix (l_records (m_loaded m)) (l_records (m_loaded m'))"
  proof (induction rule: session_run.induct)
    case (run_start m)
    then show ?case by simp
  next
    case (run_step m m' m'')
    then show ?case using memory_step_keeps [of m' m''] by (auto simp: prefix_def)
  qed
  then show ?thesis using memory.manager_ok_valid by blast
qed

section \<open>Instances\<close>

lemma demo_manager:
  obtains m where "manager_open memory_load demo_session = Inr m" "memory.manager_ok m"
    "l_records (m_loaded m) = demo_session"
    "entry_fits (t_entries (m_tree m)) (new_entry None ''d'' 7 m (ThinkingLevelChangeEntry ''high''))"
    "\<not> entry_fits (t_entries (m_tree m)) (new_entry None ''a'' 7 m (ThinkingLevelChangeEntry ''high''))"
proof -
  have load: "memory_load demo_session = Inr \<lparr>l_records = demo_session, l_warnings = [],
      l_valid_bytes = 0, l_ignored_tail = []\<rparr>" by code_simp
  from demo_valid obtain t where t: "session_tree_of demo_session = Inr t" "wf_tree t"
    "t_entries t = entries_of (tl demo_session)" by (rule session_tree_of_valid)
  then obtain m where m: "manager_open memory_load demo_session = Inr m" "m_tree m = t"
    "l_records (m_loaded m) = demo_session"
    by (auto simp: manager_open_def load)
  have "known (t_entries t) (t_leaf_id t)" using t(2) by (simp add: wf_tree_def)
  moreover have "''d'' \<notin> fst ` set (t_entries t)" "''a'' \<in> fst ` set (t_entries t)"
    by (simp_all add: t(3) demo_session_def demo_entry_def)
  ultimately show ?thesis
    using m memory.open_ok [OF TrueI m(1)]
    by (intro that [of m]) (simp_all add: entry_fits_def new_entry_def or_fresh_def
        manager_leaf_id_def result_ok_def result_of_tool_def)
qed

theorem manager_append_extends_branch_witness:
  "\<exists>m m'. manager_open memory_load demo_session = Inr m \<and>
     snd (manager_append memory_load memory_append 7 m
            (new_entry None ''d'' 7 m (ThinkingLevelChangeEntry ''high''))) = m' \<and>
     manager_leaf_id m' = Some ''d''"
proof -
  obtain m where m: "manager_open memory_load demo_session = Inr m" "memory.manager_ok m"
    "entry_fits (t_entries (m_tree m)) (new_entry None ''d'' 7 m (ThinkingLevelChangeEntry ''high''))"
    by (rule demo_manager)
  from manager_append_extends_branch [OF m(2,3)] m(1) show ?thesis
    by (auto simp: or_fresh_def)
qed

theorem manager_append_refused_witness:
  "\<exists>m x. manager_open memory_load demo_session = Inr m \<and>
     manager_append memory_load memory_append 7 m
       (new_entry None ''a'' 7 m (ThinkingLevelChangeEntry ''high'')) = (Inl x, m)"
proof -
  obtain m where m: "manager_open memory_load demo_session = Inr m" "memory.manager_ok m"
    "\<not> entry_fits (t_entries (m_tree m)) (new_entry None ''a'' 7 m (ThinkingLevelChangeEntry ''high''))"
    by (rule demo_manager)
  from manager_append_refused [OF m(2,3)] m(1) show ?thesis by auto
qed

theorem session_history_append_only_witness:
  "\<exists>m m'. memory.manager_ok m \<and> memory_step m m' \<and>
     prefix (l_records (m_loaded m)) (l_records (m_loaded m'))"
proof -
  obtain m where m: "memory.manager_ok m" by (rule demo_manager)
  obtain r m' where "navigate memory_load memory_append 7 m None True = (r, m')" by (metis prod.exhaust)
  then have step: "memory_step m m'" by (rule step_navigate)
  from session_history_append_only [OF run_step [OF run_start step] m] m step show ?thesis by auto
qed

end
