(* ===== verification/SessionContext.thy ===== *)
theory SessionContext
  imports SessionManager
begin

text \<open>
  Rebuilding the model's context from a session path
  (\<^verbatim>\<open>src/pi_agent/harness/session/context.py\<close>).  \<open>now\<close> is the timestamp of the
  messages that carry a summary.
\<close>

definition DEFAULT_COMPACTION_PREFIX :: string where
  "DEFAULT_COMPACTION_PREFIX =
     ''The conversation before this point was compacted. Continue from this summary:''
       @ [CHR 0x0A, CHR 0x0A]"

definition DEFAULT_BRANCH_SUMMARY_PREFIX :: string where
  "DEFAULT_BRANCH_SUMMARY_PREFIX =
     ''The user explored a different conversation branch before returning here.'' @ [CHR 0x0A]
       @ ''Summary of that exploration:'' @ [CHR 0x0A, CHR 0x0A]"

record reconstructed_context =
  rc_messages :: "message list"
  rc_model_provider :: "string option"
  rc_model_id :: "string option"
  rc_thinking_level :: "string option"
  rc_compaction :: "tree_entry option"

definition user_text :: "string \<Rightarrow> int \<Rightarrow> message" where
  "user_text s now = UserMessage \<lparr>um_content = UserText s, um_timestamp = now\<rparr>"

text \<open>The first loop: the last model, thinking level and compaction on the path.\<close>

type_synonym settings =
  "string option \<times> string option \<times> string option \<times> (tree_entry \<times> compaction) option"

definition settings_step :: "tree_entry \<Rightarrow> settings \<Rightarrow> settings" where
  "settings_step e st = (case st of (prov, mid, lvl, lc) \<Rightarrow>
     (case e_body e of
        ModelChangeEntry p m \<Rightarrow> (Some p, Some m, lvl, lc)
      | ThinkingLevelChangeEntry l \<Rightarrow> (prov, mid, Some l, lc)
      | CompactionEntry c \<Rightarrow> (prov, mid, lvl, Some (e, c))
      | _ \<Rightarrow> (prov, mid, lvl, lc)))"

definition settings_of ::
  "tree_entry list \<Rightarrow> settings" where
  "settings_of es = fold settings_step es (None, None, None, None)"

text \<open>The last loop: what an entry contributes to the messages.\<close>

definition entry_messages :: "string \<Rightarrow> int \<Rightarrow> tree_entry \<Rightarrow> message list" where
  "entry_messages bprefix now e = (case e_body e of
       MessageEntry m \<Rightarrow> [m]
     | BranchSummaryEntry b \<Rightarrow> [user_text (bprefix @ b_summary b) now]
     | _ \<Rightarrow> [])"

definition context_messages :: "string \<Rightarrow> int \<Rightarrow> tree_entry list \<Rightarrow> message list" where
  "context_messages bprefix now es = concat (map (entry_messages bprefix now) es)"

definition reconstruct_context ::
  "session_path \<Rightarrow> string \<Rightarrow> string \<Rightarrow> int \<Rightarrow> (exn, reconstructed_context) result" where
  "reconstruct_context path cprefix bprefix now =
     (let es = p_entries path in
      case settings_of es of (prov, mid, lvl, latest) \<Rightarrow>
        bindE (case latest of
            None \<Rightarrow> Inr ([], es)
          | Some (ce, c) \<Rightarrow>
              (case c_first_kept c of
                 Some k \<Rightarrow>
                   (case dropWhile (\<lambda>e. e_id e \<noteq> k) es of
                      [] \<Rightarrow> Inl (Exn ValueError
                        (''compaction first_kept_entry_id is not on the active session branch: '' @ k))
                    | kept \<Rightarrow> Inr ([user_text (cprefix @ c_summary c) now], kept))
               | None \<Rightarrow>
                   Inr ([user_text (cprefix @ c_summary c) now], tl (dropWhile (\<lambda>e. e \<noteq> ce) es))))
        (\<lambda>(summary, kept).
           Inr \<lparr>rc_messages = summary @ context_messages bprefix now kept,
                rc_model_provider = prov, rc_model_id = mid, rc_thinking_level = lvl,
                rc_compaction = map_option fst latest\<rparr>))"

section \<open>Properties\<close>

lemma settings_of_snoc: "settings_of (es @ [e]) = settings_step e (settings_of es)"
  by (simp add: settings_of_def)

lemma settings_compaction_in:
  "settings_of es = (p, m, l, Some (ce, c)) \<Longrightarrow> ce \<in> set es \<and> e_body ce = CompactionEntry c"
  by (induction es arbitrary: p m l ce c rule: rev_induct)
     (auto simp: settings_of_snoc settings_step_def settings_of_def split: entry_body.splits prod.splits)

lemma context_messages_append [simp]:
  "context_messages b n (xs @ ys) = context_messages b n xs @ context_messages b n ys"
  by (simp add: context_messages_def)

lemma dropWhile_snoc_not_all:
  "\<exists>x \<in> set xs. \<not> P x \<Longrightarrow> dropWhile P (xs @ ys) = dropWhile P xs @ ys"
  by (induction xs) auto

text \<open>Is the entry the latest compaction must keep still on the path?\<close>

definition kept_on_path :: "tree_entry list \<Rightarrow> bool" where
  "kept_on_path es \<longleftrightarrow> (case settings_of es of (_, _, _, latest) \<Rightarrow>
     (case latest of None \<Rightarrow> True
      | Some (ce, c) \<Rightarrow> (case c_first_kept c of None \<Rightarrow> True | Some k \<Rightarrow> k \<in> e_id ` set es)))"

lemma dropWhile_Nil_iff: "dropWhile P xs = [] \<longleftrightarrow> (\<forall>x \<in> set xs. P x)"
  by (induction xs) auto

lemma reconstruct_succeeds_iff:
  "(\<exists>r. reconstruct_context path cp bp now = Inr r) \<longleftrightarrow> kept_on_path (p_entries path)"
proof -
  obtain prov mid lvl latest where st: "settings_of (p_entries path) = (prov, mid, lvl, latest)"
    by (metis prod_cases4)
  show ?thesis
  proof (cases latest)
    case None
    with st show ?thesis by (simp add: reconstruct_context_def kept_on_path_def)
  next
    case (Some q)
    obtain ce c where q: "q = (ce, c)" by (cases q)
    show ?thesis
    proof (cases "c_first_kept c")
      case None
      with st \<open>latest = Some q\<close> q show ?thesis by (simp add: reconstruct_context_def kept_on_path_def)
    next
      case (Some k)
      show ?thesis
      proof (cases "dropWhile (\<lambda>e. e_id e \<noteq> k) (p_entries path)")
        case Nil
        then have "k \<notin> e_id ` set (p_entries path)" unfolding dropWhile_Nil_iff by auto
        with Nil st \<open>latest = Some q\<close> q Some show ?thesis
          by (simp add: reconstruct_context_def kept_on_path_def del: dropWhile_eq_Nil_conv)
      next
        case (Cons a as)
        then have "k \<in> e_id ` set (p_entries path)"
          by (metis (mono_tags, lifting) dropWhile_Nil_iff image_eqI list.distinct(1))
        with Cons st \<open>latest = Some q\<close> q Some show ?thesis
          by (simp add: reconstruct_context_def kept_on_path_def)
      qed
    qed
  qed
qed

text \<open>Adding a message entry to a path adds exactly that message at the end of the rebuilt
  context, and changes neither the model, the thinking level nor the compaction.\<close>

theorem reconstruct_append_message:
  assumes "reconstruct_context \<lparr>p_header = h, p_entries = es\<rparr> cp bp now = Inr r"
    and "e_body e = MessageEntry m"
  shows "reconstruct_context \<lparr>p_header = h, p_entries = es @ [e]\<rparr> cp bp now =
     Inr (r\<lparr>rc_messages := rc_messages r @ [m]\<rparr>)"
proof -
  obtain prov mid lvl latest where st: "settings_of es = (prov, mid, lvl, latest)"
    by (metis prod_cases4)
  with assms(2) have st': "settings_of (es @ [e]) = (prov, mid, lvl, latest)"
    by (simp add: settings_of_snoc settings_step_def)
  have m: "context_messages bp now [e] = [m]"
    using assms(2) by (simp add: context_messages_def entry_messages_def)
  show ?thesis
  proof (cases latest)
    case None
    with assms(1) st st' m show ?thesis by (auto simp: reconstruct_context_def)
  next
    case (Some q)
    obtain ce c where q: "q = (ce, c)" by (cases q)
    with st Some have ce: "ce \<in> set es" using settings_compaction_in by blast
    show ?thesis
    proof (cases "c_first_kept c")
      case None
      have "dropWhile (\<lambda>x. x \<noteq> ce) (es @ [e]) = dropWhile (\<lambda>x. x \<noteq> ce) es @ [e]"
        using ce by (intro dropWhile_snoc_not_all) auto
      moreover have "dropWhile (\<lambda>x. x \<noteq> ce) es \<noteq> []" using ce by (auto simp: dropWhile_Nil_iff)
      ultimately show ?thesis using assms(1) st st' m None Some q
        by (auto simp: reconstruct_context_def)
    next
      case (Some k)
      from assms(1) st \<open>latest = Some q\<close> q Some
      have ne: "dropWhile (\<lambda>e. e_id e \<noteq> k) es \<noteq> []"
        by (cases "dropWhile (\<lambda>e. e_id e \<noteq> k) es") (simp_all add: reconstruct_context_def)
      then have snoc: "dropWhile (\<lambda>e. e_id e \<noteq> k) (es @ [e]) = dropWhile (\<lambda>e. e_id e \<noteq> k) es @ [e]"
        by (intro dropWhile_snoc_not_all) (simp add: dropWhile_Nil_iff)
      obtain a as where "dropWhile (\<lambda>e. e_id e \<noteq> k) es = a # as"
        using ne by (cases "dropWhile (\<lambda>e. e_id e \<noteq> k) es") simp_all
      with snoc assms(1) st st' m Some \<open>latest = Some q\<close> q show ?thesis
        using context_messages_append [of bp now "a # as" "[e]"]
        by (auto simp: reconstruct_context_def)
    qed
  qed
qed

lemma reconstruct_compacted:
  assumes "e_body e = CompactionEntry c"
    and "case c_first_kept c of
           Some k \<Rightarrow> kept = dropWhile (\<lambda>y. e_id y \<noteq> k) es \<and> kept \<noteq> []
         | None \<Rightarrow> kept = [] \<and> e \<notin> set es"
  shows "\<exists>r. reconstruct_context \<lparr>p_header = h, p_entries = es @ [e]\<rparr> cp bp now = Inr r \<and>
     rc_messages r = user_text (cp @ c_summary c) now # context_messages bp now kept \<and>
     rc_compaction r = Some e"
proof -
  obtain prov mid lvl latest where "settings_of es = (prov, mid, lvl, latest)" by (metis prod_cases4)
  then have st: "settings_of (es @ [e]) = (prov, mid, lvl, Some (e, c))"
    using assms(1) by (simp add: settings_of_snoc settings_step_def)
  have [simp]: "context_messages bp now [e] = []"
    using assms(1) by (simp add: context_messages_def entry_messages_def)
  show ?thesis
  proof (cases "c_first_kept c")
    case None
    with assms(2) have kept: "kept = []" "e \<notin> set es" by simp_all
    then have "dropWhile (\<lambda>x. x \<noteq> e) (es @ [e]) = [e]" by (subst dropWhile_append2) auto
    with st None kept show ?thesis by (simp add: reconstruct_context_def context_messages_def)
  next
    case (Some k)
    have "kept = dropWhile (\<lambda>y. e_id y \<noteq> k) es \<and> kept \<noteq> []"
      using assms(2) unfolding Some option.case .
    note kept = conjunct1 [OF this] conjunct2 [OF this]
    have "\<exists>x \<in> set es. \<not> e_id x \<noteq> k" using kept(2) unfolding kept(1) dropWhile_Nil_iff by blast
    from dropWhile_snoc_not_all [OF this] have "dropWhile (\<lambda>y. e_id y \<noteq> k) (es @ [e]) = kept @ [e]"
      by (simp only: kept(1))
    moreover obtain a as where "kept = a # as" using kept(2) by (cases kept) simp_all
    moreover have "context_messages bp now (a # as @ [e]) = context_messages bp now (a # as)"
      using context_messages_append [of bp now "a # as" "[e]"] by simp
    ultimately show ?thesis using st Some by (simp add: reconstruct_context_def)
  qed
qed

text \<open>C7: Compaction: when a compaction entry that keeps entry \<open>k\<close> is appended to a path that
  contains \<open>k\<close>, the rebuilt context is the summary followed by what the path contributes from
  \<open>k\<close> on; nothing before \<open>k\<close> remains.\<close>

theorem reconstruct_after_compaction:
  assumes "e_body e = CompactionEntry c" and "c_first_kept c = Some k"
    and "es = pre @ x # post" and "e_id x = k" and "k \<notin> e_id ` set pre"
  shows "\<exists>r. reconstruct_context \<lparr>p_header = h, p_entries = es @ [e]\<rparr> cp bp now = Inr r \<and>
     rc_messages r = user_text (cp @ c_summary c) now # context_messages bp now (x # post) \<and>
     rc_compaction r = Some e"
proof -
  have "dropWhile (\<lambda>y. e_id y \<noteq> k) es = x # post"
    unfolding assms(3) using assms(4,5) by (subst dropWhile_append2) (auto intro: rev_image_eqI)
  with assms(1,2) show ?thesis by (intro reconstruct_compacted) simp_all
qed

theorem reconstruct_append_message_witness:
  "reconstruct_context \<lparr>p_header = demo_header, p_entries = [] @ [\<lparr>e_id = ''x'', e_parent_id = None,
      e_timestamp = 1, e_body = MessageEntry (user_text ''hi'' 2)\<rparr>]\<rparr> ''C'' ''B'' 5 =
   Inr \<lparr>rc_messages = [user_text ''hi'' 2], rc_model_provider = None, rc_model_id = None,
        rc_thinking_level = None, rc_compaction = None\<rparr>"
proof -
  have "reconstruct_context \<lparr>p_header = demo_header, p_entries = []\<rparr> ''C'' ''B'' 5 =
     Inr \<lparr>rc_messages = [], rc_model_provider = None, rc_model_id = None,
        rc_thinking_level = None, rc_compaction = None\<rparr>"
    by (simp add: reconstruct_context_def settings_of_def context_messages_def)
  from reconstruct_append_message [OF this, where e = "\<lparr>e_id = ''x'', e_parent_id = None,
      e_timestamp = 1, e_body = MessageEntry (user_text ''hi'' 2)\<rparr>"] show ?thesis by simp
qed

theorem reconstruct_after_compaction_witness:
  "\<exists>r. reconstruct_context \<lparr>p_header = demo_header,
       p_entries = ([demo_entry ''a'' None] @ demo_entry ''b'' (Some ''a'') # []) @
         [\<lparr>e_id = ''k'', e_parent_id = Some ''b'', e_timestamp = 1, e_body = CompactionEntry
           \<lparr>c_summary = ''S'', c_first_kept = Some ''b'', c_tokens_before = 9, c_tokens_after = 1,
            c_details = []\<rparr>\<rparr>]\<rparr> ''C'' ''B'' 5 = Inr r \<and>
     rc_messages r = [user_text ''CS'' 5]"
proof -
  from reconstruct_after_compaction [where k = "''b''" and pre = "[demo_entry ''a'' None]"
      and x = "demo_entry ''b'' (Some ''a'')" and post = "[]" and h = demo_header
      and cp = "''C''" and bp = "''B''" and now = 5 and
      e = "\<lparr>e_id = ''k'', e_parent_id = Some ''b'', e_timestamp = 1, e_body = CompactionEntry
           \<lparr>c_summary = ''S'', c_first_kept = Some ''b'', c_tokens_before = 9, c_tokens_after = 1,
            c_details = []\<rparr>\<rparr>", OF _ _ refl]
  show ?thesis by (auto simp: demo_entry_def context_messages_def entry_messages_def)
qed

end
