(* ===== verification/Prog.thy ===== *)
theory Prog
  imports PyJson
begin

text \<open>
  The effects of the asynchronous code: a program reads and changes a state, may raise an
  exception, and may fail to return (\<open>None\<close>).  A program that raises keeps the state it had
  reached, as Python does.  \<open>wp f Q E s\<close> says that \<open>f\<close>, run from \<open>s\<close>, ends in \<open>Q\<close> when it
  returns and in \<open>E\<close> when it raises; it says nothing when \<open>f\<close> does not return.
\<close>

section \<open>Programs\<close>

type_synonym ('s, 'a) prog = "'s \<Rightarrow> ((exn + 'a) \<times> 's) option"

definition ret :: "'a \<Rightarrow> ('s, 'a) prog" where
  "ret x s = Some (Inr x, s)"

definition raise_exn :: "exn \<Rightarrow> ('s, 'a) prog" where
  "raise_exn e s = Some (Inl e, s)"

definition diverge :: "('s, 'a) prog" where
  "diverge s = None"

definition bnd :: "('s, 'a) prog \<Rightarrow> ('a \<Rightarrow> ('s, 'b) prog) \<Rightarrow> ('s, 'b) prog" where
  "bnd f g s = (case f s of
       None \<Rightarrow> None
     | Some (Inl e, s') \<Rightarrow> Some (Inl e, s')
     | Some (Inr x, s') \<Rightarrow> g x s')"

definition thn :: "('s, 'a) prog \<Rightarrow> ('s, 'b) prog \<Rightarrow> ('s, 'b) prog" where
  "thn f g = bnd f (\<lambda>_. g)"

definition readS :: "('s \<Rightarrow> 'a) \<Rightarrow> ('s, 'a) prog" where
  "readS f s = Some (Inr (f s), s)"

definition modS :: "('s \<Rightarrow> 's) \<Rightarrow> ('s, unit) prog" where
  "modS f s = Some (Inr (), f s)"

text \<open>\<^verbatim>\<open>try: f except E as e: h(e)\<close>; the handler says whether it takes the exception.\<close>

definition catch :: "('s, 'a) prog \<Rightarrow> (exn \<Rightarrow> ('s, 'a) prog) \<Rightarrow> ('s, 'a) prog" where
  "catch f h s = (case f s of Some (Inl e, s') \<Rightarrow> h e s' | r \<Rightarrow> r)"

definition of_result :: "exn + 'a \<Rightarrow> ('s, 'a) prog" where
  "of_result r s = Some (r, s)"

text \<open>\<^verbatim>\<open>for x in xs: f(x)\<close>\<close>

fun each :: "('a \<Rightarrow> ('s, unit) prog) \<Rightarrow> 'a list \<Rightarrow> ('s, unit) prog" where
  "each f [] = ret ()"
| "each f (x # xs) = thn (f x) (each f xs)"

section \<open>Equations\<close>

named_theorems prog_simps \<open>evaluation of programs\<close>

lemma prog_run [prog_simps]:
  "ret x s = Some (Inr x, s)"
  "raise_exn e s = Some (Inl e, s)"
  "diverge s = None"
  "readS f s = Some (Inr (f s), s)"
  "modS h s = Some (Inr (), h s)"
  "of_result r s = Some (r, s)"
  by (simp_all add: ret_def raise_exn_def diverge_def readS_def modS_def of_result_def)

lemma bnd_run:
  "f s = Some (Inr x, s') \<Longrightarrow> bnd f g s = g x s'"
  "f s = Some (Inl e, s') \<Longrightarrow> bnd f g s = Some (Inl e, s')"
  "f s = None \<Longrightarrow> bnd f g s = None"
  by (simp_all add: bnd_def)

lemma bnd_prims [prog_simps]:
  "bnd (ret x) g s = g x s"
  "bnd (raise_exn e) g s = Some (Inl e, s)"
  "bnd (readS f) g s = g (f s) s"
  "bnd (modS h) k s = k () (h s)"
  "thn (ret x) k' s = k' s"
  "thn (raise_exn e) k' s = Some (Inl e, s)"
  "thn (modS h) k' s = k' (h s)"
  by (simp_all add: bnd_def thn_def prog_run)

lemma bnd_bnd: "bnd (bnd f g) h = bnd f (\<lambda>x. bnd (g x) h)"
  by (rule ext) (simp add: bnd_def split: option.split sum.split prod.split)

lemma bnd_cong [fundef_cong]:
  "f s = f' s \<Longrightarrow> (\<And>x s'. f' s = Some (Inr x, s') \<Longrightarrow> g x s' = g' x s') \<Longrightarrow> s = t \<Longrightarrow> bnd f g s = bnd f' g' t"
  by (auto simp: bnd_def split: option.split sum.split prod.split)

section \<open>Weakest preconditions\<close>

definition wp :: "('s, 'a) prog \<Rightarrow> ('a \<Rightarrow> 's \<Rightarrow> bool) \<Rightarrow> (exn \<Rightarrow> 's \<Rightarrow> bool) \<Rightarrow> 's \<Rightarrow> bool" where
  "wp f Q E s \<longleftrightarrow> (case f s of
       None \<Rightarrow> True | Some (Inl e, s') \<Rightarrow> E e s' | Some (Inr x, s') \<Rightarrow> Q x s')"

named_theorems wp_simps \<open>weakest preconditions of the combinators\<close>

lemma wp_basic [wp_simps]:
  "wp (ret x) Q E s = Q x s"
  "wp (raise_exn e) Q E s = E e s"
  "wp diverge Q E s = True"
  "wp (readS f) Q E s = Q (f s) s"
  "wp (modS h) Q' E s = Q' () (h s)"
  "wp (of_result r) Q E s = (case r of Inl e \<Rightarrow> E e s | Inr x \<Rightarrow> Q x s)"
  by (simp_all add: wp_def prog_run split: sum.split)

lemma wp_bnd [wp_simps]: "wp (bnd f g) Q E s = wp f (\<lambda>x. wp (g x) Q E) E s"
  by (simp add: wp_def bnd_def split: option.split sum.split prod.split)

lemma wp_thn [wp_simps]: "wp (thn f g) Q E s = wp f (\<lambda>_. wp g Q E) E s"
  by (simp add: thn_def wp_bnd)

lemma wp_catch [wp_simps]: "wp (catch f h) Q E s = wp f Q (\<lambda>e. wp (h e) Q E) s"
  by (simp add: wp_def catch_def split: option.split sum.split prod.split)

text \<open>The same equations before the state is supplied.\<close>

lemma wp_eta [wp_simps]:
  "wp (ret x) Q E = Q x" "wp (raise_exn e) Q E = E e"
  "wp (bnd f g) Q E = wp f (\<lambda>x. wp (g x) Q E) E"
  "wp (thn f' g') Q E = wp f' (\<lambda>_. wp g' Q E) E"
  by (simp_all add: fun_eq_iff wp_simps)

lemma wp_if [wp_simps]:
  "wp (if b then f else g) Q E s = (if b then wp f Q E s else wp g Q E s)"
  by simp

lemma wp_mono:
  assumes "wp f Q E s"
    and "\<And>x s'. Q x s' \<Longrightarrow> Q' x s'" and "\<And>e s'. E e s' \<Longrightarrow> E' e s'"
  shows "wp f Q' E' s"
  using assms by (auto simp: wp_def split: option.splits sum.splits)

lemma wp_conj:
  "wp f (\<lambda>x s. Q x s \<and> Q' x s) (\<lambda>e s. E e s \<and> E' e s) s \<longleftrightarrow> wp f Q E s \<and> wp f Q' E' s"
  by (auto simp: wp_def split: option.splits sum.splits)

lemma wp_True [simp]: "wp f (\<lambda>_ _. True) (\<lambda>_ _. True) s"
  by (auto simp: wp_def split: option.split sum.split)

lemma wp_each:
  assumes "\<And>x s. x \<in> set xs \<Longrightarrow> I s \<Longrightarrow> wp (f x) (\<lambda>_. I) E s" and "I s"
  shows "wp (each f xs) (\<lambda>_. I) E s"
  using assms
proof (induction xs arbitrary: s)
  case (Cons x xs)
  have "wp (f x) (\<lambda>_. I) E s" using Cons.prems by simp
  then have "wp (f x) (\<lambda>_. wp (each f xs) (\<lambda>_. I) E) E s"
  proof (rule wp_mono)
    fix y t assume "I t"
    then show "wp (each f xs) (\<lambda>_. I) E t" using Cons.prems by (intro Cons.IH) simp_all
  qed
  then show ?case by (simp add: wp_simps)
qed (simp add: wp_simps)

lemma wpD:
  "wp f Q E s \<Longrightarrow> f s = Some (Inr x, s') \<Longrightarrow> Q x s'"
  "wp f Q E s \<Longrightarrow> f s = Some (Inl e, s') \<Longrightarrow> E e s'"
  by (simp_all add: wp_def)

lemma wpI:
  "(\<And>x s'. f s = Some (Inr x, s') \<Longrightarrow> Q x s') \<Longrightarrow> (\<And>e s'. f s = Some (Inl e, s') \<Longrightarrow> E e s')
   \<Longrightarrow> wp f Q E s"
  by (auto simp: wp_def split: option.split sum.split)

text \<open>Does the program return or raise?\<close>

definition returns :: "('s, 'a) prog \<Rightarrow> 's \<Rightarrow> bool" where
  "returns f s \<longleftrightarrow> f s \<noteq> None"

lemma returns_simps [simp]:
  "returns (ret x) s" "returns (raise_exn e) s" "returns (readS f) s" "returns (modS h) s"
  "returns (of_result r) s" "\<not> returns diverge s"
  by (simp_all add: returns_def prog_run)

lemma returns_bnd:
  "returns f s \<Longrightarrow> (\<And>x s'. f s = Some (Inr x, s') \<Longrightarrow> returns (g x) s') \<Longrightarrow> returns (bnd f g) s"
  by (auto simp: returns_def bnd_def split: option.split sum.split)

lemma returns_thn:
  "returns f s \<Longrightarrow> (\<And>x s'. f s = Some (Inr x, s') \<Longrightarrow> returns g s') \<Longrightarrow> returns (thn f g) s"
  unfolding thn_def by (rule returns_bnd)

lemma returns_each: "(\<And>x s. x \<in> set xs \<Longrightarrow> returns (f x) s) \<Longrightarrow> returns (each f xs) s"
  by (induction xs arbitrary: s) (auto intro!: returns_thn)

lemma returns_catch:
  "returns f s \<Longrightarrow> (\<And>e s'. returns (h e) s') \<Longrightarrow> returns (catch f h) s"
  by (auto simp: returns_def catch_def split: option.split sum.split)

end
