(* ===== verification/Models.thy ===== *)
theory Models
  imports Messages
begin

text \<open>
  Models, their prices, and what a provider is given and streams back
  (\<^verbatim>\<open>src/pi_agent/ai/types.py\<close>, \<^verbatim>\<open>ai/events.py\<close>).  Prices are exact
  rationals: the rounding of \<^verbatim>\<open>float\<close> is not modelled.
\<close>

section \<open>Models and prices\<close>

record price_rates =
  pr_input :: rat
  pr_output :: rat
  pr_cache_read :: rat
  pr_cache_write :: rat

record model_cost_tier =
  tier_above :: int
  tier_rates :: price_rates

record model_cost =
  mc_rates :: price_rates
  mc_tiers :: "model_cost_tier list"

record model =
  md_api :: string
  md_provider :: string
  md_id :: string
  md_name :: string
  md_base_url :: string
  md_reasoning :: bool
  md_input :: "string list"
  md_cost :: model_cost
  md_context_window :: int
  md_max_tokens :: int
  md_headers :: jobject
  md_compat :: jobject
  md_sampling_params :: jobject

text \<open>The tier loop of \<^verbatim>\<open>calculate_cost\<close>: the rates so far and the threshold they matched.\<close>

fun tier_loop :: "int \<Rightarrow> model_cost_tier list \<Rightarrow> price_rates \<Rightarrow> int \<Rightarrow> price_rates" where
  "tier_loop tokens [] rates matched = rates"
| "tier_loop tokens (t # ts) rates matched =
     (if tier_above t < tokens \<and> matched < tier_above t
      then tier_loop tokens ts (tier_rates t) (tier_above t)
      else tier_loop tokens ts rates matched)"

definition cost_at :: "price_rates \<Rightarrow> usage \<Rightarrow> usage_cost" where
  "cost_at r u =
     (let long_write = (case u_cache_write_1h u of None \<Rightarrow> 0 | Some i \<Rightarrow> i);
          short_write = u_cache_write u - long_write;
          i = of_int (u_input u) * pr_input r / 1000000;
          ou = of_int (u_output u) * pr_output r / 1000000;
          cr = of_int (u_cache_read u) * pr_cache_read r / 1000000;
          cw = (pr_cache_write r * of_int short_write + pr_input r * 2 * of_int long_write) / 1000000
      in \<lparr>uc_input = Fin i, uc_output = Fin ou, uc_cache_read = Fin cr, uc_cache_write = Fin cw,
          uc_total = Fin (i + ou + cr + cw)\<rparr>)"

definition usage_input_tokens :: "usage \<Rightarrow> int" where
  "usage_input_tokens u = u_input u + u_cache_read u + u_cache_write u"

text \<open>The cost, and the usage object updated in place.\<close>

definition calculate_cost :: "model \<Rightarrow> usage \<Rightarrow> usage_cost \<times> usage" where
  "calculate_cost m u =
     (let c = cost_at (tier_loop (usage_input_tokens u) (mc_tiers (md_cost m))
                                 (mc_rates (md_cost m)) (- 1)) u
      in (c, u\<lparr>u_cost := c\<rparr>))"

section \<open>Requests\<close>

record tool_definition =
  td_name :: string
  td_description :: string
  td_parameters :: jobject
  td_constrained_sampling :: json

record provider_context =
  pc_messages :: "message list"
  pc_system_prompt :: "string option"
  pc_tools :: "tool_definition list option"

text \<open>The cancellation signal and the payload callbacks of \<^verbatim>\<open>StreamOptions\<close> are not data;
  the signal belongs to the environment of a run.\<close>

record stream_options =
  so_api_key :: "string option"
  so_temperature :: "pyfloat option"
  so_max_tokens :: "int option"
  so_headers :: jobject
  so_env :: "(string \<times> string) list"
  so_metadata :: jobject
  so_sampling_params :: jobject
  so_session_id :: "string option"
  so_tool_choice :: "string option"
  so_reasoning :: "string option"
  so_transport :: string
  so_cache_retention :: string
  so_timeout :: pyfloat
  so_stream_idle_timeout :: "pyfloat option"
  so_max_retries :: int
  so_retry_base_delay :: pyfloat
  so_max_retry_delay :: pyfloat

definition default_stream_options :: stream_options where
  "default_stream_options =
     \<lparr>so_api_key = None, so_temperature = None, so_max_tokens = None, so_headers = [], so_env = [],
      so_metadata = [], so_sampling_params = [], so_session_id = None, so_tool_choice = None,
      so_reasoning = None, so_transport = ''auto'', so_cache_retention = ''short'',
      so_timeout = Fin 600, so_stream_idle_timeout = None, so_max_retries = 2,
      so_retry_base_delay = Fin (1 / 2), so_max_retry_delay = Fin 60\<rparr>"

section \<open>Provider events\<close>

datatype assistant_event =
    StartEvent assistant_message
  | TextStartEvent int assistant_message
  | TextDeltaEvent int string assistant_message
  | TextEndEvent int string assistant_message
  | ThinkingStartEvent int assistant_message
  | ThinkingDeltaEvent int string assistant_message
  | ThinkingEndEvent int string assistant_message
  | ToolCallStartEvent int assistant_message
  | ToolCallDeltaEvent int string assistant_message
  | ToolCallEndEvent int tool_call assistant_message
  | DoneEvent string assistant_message
  | ErrorEvent string assistant_message

text \<open>\<^verbatim>\<open>event.partial\<close> of the events that have one.\<close>

fun event_partial :: "assistant_event \<Rightarrow> assistant_message option" where
  "event_partial (StartEvent p) = Some p"
| "event_partial (TextStartEvent _ p) = Some p"
| "event_partial (TextDeltaEvent _ _ p) = Some p"
| "event_partial (TextEndEvent _ _ p) = Some p"
| "event_partial (ThinkingStartEvent _ p) = Some p"
| "event_partial (ThinkingDeltaEvent _ _ p) = Some p"
| "event_partial (ThinkingEndEvent _ _ p) = Some p"
| "event_partial (ToolCallStartEvent _ p) = Some p"
| "event_partial (ToolCallDeltaEvent _ _ p) = Some p"
| "event_partial (ToolCallEndEvent _ _ p) = Some p"
| "event_partial (DoneEvent _ _) = None"
| "event_partial (ErrorEvent _ _) = None"

fun event_type :: "assistant_event \<Rightarrow> string" where
  "event_type (StartEvent _) = ''start''"
| "event_type (TextStartEvent _ _) = ''text_start''"
| "event_type (TextDeltaEvent _ _ _) = ''text_delta''"
| "event_type (TextEndEvent _ _ _) = ''text_end''"
| "event_type (ThinkingStartEvent _ _) = ''thinking_start''"
| "event_type (ThinkingDeltaEvent _ _ _) = ''thinking_delta''"
| "event_type (ThinkingEndEvent _ _ _) = ''thinking_end''"
| "event_type (ToolCallStartEvent _ _) = ''toolcall_start''"
| "event_type (ToolCallDeltaEvent _ _ _) = ''toolcall_delta''"
| "event_type (ToolCallEndEvent _ _ _) = ''toolcall_end''"
| "event_type (DoneEvent _ _) = ''done''"
| "event_type (ErrorEvent _ _) = ''error''"

definition assistant_json :: "assistant_message \<Rightarrow> json" where
  "assistant_json m = JObj (message_to_dict (AssistantMessage m))"

definition delta_fields :: "int \<Rightarrow> string \<Rightarrow> string \<Rightarrow> assistant_message \<Rightarrow> jobject" where
  "delta_fields i k s p =
     [(''contentIndex'', JInt i), (k, JStr s), (''partial'', assistant_json p)]"

fun event_fields :: "assistant_event \<Rightarrow> jobject" where
  "event_fields (StartEvent p) = [(''partial'', assistant_json p)]"
| "event_fields (TextStartEvent i p) = [(''contentIndex'', JInt i), (''partial'', assistant_json p)]"
| "event_fields (ThinkingStartEvent i p) = [(''contentIndex'', JInt i), (''partial'', assistant_json p)]"
| "event_fields (ToolCallStartEvent i p) = [(''contentIndex'', JInt i), (''partial'', assistant_json p)]"
| "event_fields (TextDeltaEvent i s p) = delta_fields i ''delta'' s p"
| "event_fields (ThinkingDeltaEvent i s p) = delta_fields i ''delta'' s p"
| "event_fields (ToolCallDeltaEvent i s p) = delta_fields i ''delta'' s p"
| "event_fields (TextEndEvent i s p) = delta_fields i ''content'' s p"
| "event_fields (ThinkingEndEvent i s p) = delta_fields i ''content'' s p"
| "event_fields (ToolCallEndEvent i c p) =
     [(''contentIndex'', JInt i),
      (''toolCall'', JObj [(''type'', JStr ''toolCall''), (''id'', JStr (tc_id c)),
                         (''name'', JStr (tc_name c)), (''arguments'', JObj (tc_arguments c))]),
      (''partial'', assistant_json p)]"
| "event_fields (DoneEvent r m) = [(''reason'', JStr r), (''message'', assistant_json m)]"
| "event_fields (ErrorEvent r m) = [(''reason'', JStr r), (''error'', assistant_json m)]"

definition assistant_event_to_dict :: "assistant_event \<Rightarrow> jobject" where
  "assistant_event_to_dict ev = (''type'', JStr (event_type ev)) # event_fields ev"

fun is_terminal_event :: "assistant_event \<Rightarrow> bool" where
  "is_terminal_event (DoneEvent _ _) = True"
| "is_terminal_event (ErrorEvent _ _) = True"
| "is_terminal_event _ = False"

fun event_result :: "assistant_event \<Rightarrow> (exn, assistant_message) result" where
  "event_result (DoneEvent _ m) = Inr m"
| "event_result (ErrorEvent _ m) = Inr m"
| "event_result ev = Inl (Exn ValueError (''Non-terminal event has no result: '' @ event_type ev))"

definition normal_stop_reason :: "string \<Rightarrow> (exn, string) result" where
  "normal_stop_reason r =
     (if r \<in> {''stop'', ''length'', ''toolUse'', ''deferred''} then Inr r
      else Inl (Exn ValueError (''Not a normal stop reason: '' @ r)))"

section \<open>Properties\<close>

definition eligible_tiers :: "int \<Rightarrow> model_cost_tier list \<Rightarrow> model_cost_tier list" where
  "eligible_tiers tokens ts = filter (\<lambda>t. - 1 < tier_above t \<and> tier_above t < tokens) ts"

lemma tier_loop_cases:
  "(tier_loop tokens ts r matched = r \<and> (\<forall>t \<in> set ts. tier_above t < tokens \<longrightarrow> tier_above t \<le> matched)) \<or>
   (\<exists>t \<in> set ts. tier_loop tokens ts r matched = tier_rates t \<and> matched < tier_above t \<and>
      tier_above t < tokens \<and> (\<forall>t' \<in> set ts. tier_above t' < tokens \<longrightarrow> tier_above t' \<le> tier_above t))"
proof (induction ts arbitrary: r matched)
  case (Cons t ts)
  show ?case
  proof (cases "tier_above t < tokens \<and> matched < tier_above t")
    case True
    with Cons.IH [of "tier_rates t" "tier_above t"] show ?thesis by fastforce
  next
    case False
    then have "tier_loop tokens (t # ts) r matched = tier_loop tokens ts r matched" by auto
    with False Cons.IH [of r matched] show ?thesis by fastforce
  qed
qed simp

lemma is_terminal_partial: "is_terminal_event ev \<longleftrightarrow> event_partial ev = None"
  by (cases ev) simp_all

lemma is_terminal_result: "is_terminal_event ev \<longleftrightarrow> isInr (event_result ev)"
  by (cases ev) simp_all

text \<open>\<^verbatim>\<open>calculate_cost\<close> prices the whole request at the highest tier whose threshold the input
  tokens exceed, and at the base rates when they exceed none; the total is the sum of the four
  parts, and the usage object receives the same cost.\<close>

theorem calculate_cost_highest_tier:
  "\<exists>r. calculate_cost m u = (cost_at r u, u\<lparr>u_cost := cost_at r u\<rparr>) \<and>
     (if eligible_tiers (usage_input_tokens u) (mc_tiers (md_cost m)) = []
      then r = mc_rates (md_cost m)
      else \<exists>t \<in> set (eligible_tiers (usage_input_tokens u) (mc_tiers (md_cost m))).
             r = tier_rates t \<and>
             tier_above t = Max (tier_above ` set (eligible_tiers (usage_input_tokens u) (mc_tiers (md_cost m)))))"
proof -
  define ts where "ts = mc_tiers (md_cost m)"
  define n where "n = usage_input_tokens u"
  define r where "r = tier_loop n ts (mc_rates (md_cost m)) (- 1)"
  have cost: "calculate_cost m u = (cost_at r u, u\<lparr>u_cost := cost_at r u\<rparr>)"
    by (simp add: calculate_cost_def r_def n_def ts_def Let_def)
  consider (base) "r = mc_rates (md_cost m)" "\<forall>t \<in> set ts. tier_above t < n \<longrightarrow> tier_above t \<le> - 1"
    | (tier) t where "t \<in> set ts" "r = tier_rates t" "- 1 < tier_above t" "tier_above t < n"
        "\<forall>t' \<in> set ts. tier_above t' < n \<longrightarrow> tier_above t' \<le> tier_above t"
    using tier_loop_cases [of n ts "mc_rates (md_cost m)" "- 1"] unfolding r_def by blast
  then show ?thesis
  proof cases
    case base
    then have "eligible_tiers n ts = []" by (fastforce simp: eligible_tiers_def filter_empty_conv)
    with base cost show ?thesis unfolding n_def ts_def by auto
  next
    case (tier t)
    then have mem: "t \<in> set (eligible_tiers n ts)" by (simp add: eligible_tiers_def)
    have "Max (tier_above ` set (eligible_tiers n ts)) = tier_above t"
      using mem tier(5) by (intro Max_eqI) (auto simp: eligible_tiers_def)
    moreover from mem have "eligible_tiers n ts \<noteq> []" by auto
    ultimately show ?thesis using mem tier(2) cost unfolding n_def ts_def by auto
  qed
qed

end
