(* ===== verification/EventStream.thy ===== *)
theory EventStream
  imports Prelude
begin

text \<open>
  The single-producer event stream (\<^verbatim>\<open>src/pi_agent/ai/event_stream.py\<close>) with its
  buffered events, the futures of waiting readers, and its final result.  A reader is one
  asynchronous iteration; its steps (asking for an item, being resumed by its future, being
  cancelled while it waits) interleave freely with the producer's \<open>stream_push\<close> and
  \<open>stream_end\<close>.
\<close>

section \<open>Operations\<close>

datatype 't future = FuturePending | FutureItem 't | FutureDone | FutureCancelled

record ('t, 'r) event_stream =
  es_queue :: "'t list"
  es_waiting :: "nat list"
  es_futures :: "nat \<Rightarrow> 't future"
  es_next :: nat
  es_done :: bool
  es_result :: "'r option"

definition new_stream :: "('t, 'r) event_stream" where
  "new_stream = \<lparr>es_queue = [], es_waiting = [], es_futures = (\<lambda>_. FutureCancelled), es_next = 0,
                 es_done = False, es_result = None\<rparr>"

text \<open>Hand the event to the first waiter that is not done, dropping the others; queue it when
  there is none.\<close>

fun offer :: "'t \<Rightarrow> nat list \<Rightarrow> (nat \<Rightarrow> 't future) \<Rightarrow> 't list \<Rightarrow> nat list \<times> (nat \<Rightarrow> 't future) \<times> 't list" where
  "offer ev [] fs q = ([], fs, q @ [ev])"
| "offer ev (w # ws) fs q =
     (if fs w \<noteq> FuturePending then offer ev ws fs q else (ws, fs(w := FutureItem ev), q))"

definition stream_push ::
  "('t \<Rightarrow> bool) \<Rightarrow> ('t \<Rightarrow> 'r) \<Rightarrow> 't \<Rightarrow> ('t, 'r) event_stream \<Rightarrow> ('t, 'r) event_stream" where
  "stream_push is_complete extract ev s =
     (if es_done s then s
      else let s1 = (if is_complete ev
                     then s\<lparr>es_done := True, es_result := Some (extract ev)\<rparr> else s);
               r = offer ev (es_waiting s1) (es_futures s1) (es_queue s1)
           in s1\<lparr>es_waiting := fst r, es_futures := fst (snd r), es_queue := snd (snd r)\<rparr>)"

fun finish_waiters :: "nat list \<Rightarrow> (nat \<Rightarrow> 't future) \<Rightarrow> nat \<Rightarrow> 't future" where
  "finish_waiters [] fs = fs"
| "finish_waiters (w # ws) fs =
     finish_waiters ws (if fs w = FuturePending then fs(w := FutureDone) else fs)"

definition stream_end :: "'r option \<Rightarrow> ('t, 'r) event_stream \<Rightarrow> ('t, 'r) event_stream" where
  "stream_end r s =
     s\<lparr>es_done := True,
       es_result := (if r \<noteq> None \<and> es_result s = None then r else es_result s),
       es_futures := finish_waiters (es_waiting s) (es_futures s),
       es_waiting := []\<rparr>"

section \<open>A reader beside the producer\<close>

datatype reader = Ready | Waiting nat | Stopped

record ('t, 'r) channel =
  ch_stream :: "('t, 'r) event_stream"
  ch_reader :: reader
  ch_delivered :: "'t list"
  ch_accepted :: "'t list"

datatype ('t, 'r) stream_op = Push 't | End "'r option" | Poll | Resume | CancelWait

text \<open>One turn of the iteration: take a buffered event, stop when the stream is done, or wait.\<close>

definition poll :: "('t, 'r) channel \<Rightarrow> ('t, 'r) channel" where
  "poll c = (let s = ch_stream c in
     case es_queue s of
       x # q \<Rightarrow> c\<lparr>ch_stream := s\<lparr>es_queue := q\<rparr>, ch_delivered := ch_delivered c @ [x]\<rparr>
     | [] \<Rightarrow>
         if es_done s then c\<lparr>ch_reader := Stopped\<rparr>
         else c\<lparr>ch_stream := s\<lparr>es_futures := (es_futures s)(es_next s := FuturePending),
                               es_waiting := es_waiting s @ [es_next s],
                               es_next := Suc (es_next s)\<rparr>,
                ch_reader := Waiting (es_next s)\<rparr>)"

definition resume :: "nat \<Rightarrow> ('t, 'r) channel \<Rightarrow> ('t, 'r) channel" where
  "resume w c = (case es_futures (ch_stream c) w of
       FutureItem x \<Rightarrow> c\<lparr>ch_delivered := ch_delivered c @ [x], ch_reader := Ready\<rparr>
     | FutureDone \<Rightarrow> c\<lparr>ch_reader := Stopped\<rparr>
     | _ \<Rightarrow> c)"

definition cancel_wait :: "nat \<Rightarrow> ('t, 'r) channel \<Rightarrow> ('t, 'r) channel" where
  "cancel_wait w c =
     (let s = ch_stream c in
      if es_futures s w = FuturePending
      then c\<lparr>ch_stream := s\<lparr>es_futures := (es_futures s)(w := FutureCancelled)\<rparr>, ch_reader := Ready\<rparr>
      else c)"

definition channel_step ::
  "('t \<Rightarrow> bool) \<Rightarrow> ('t \<Rightarrow> 'r) \<Rightarrow> ('t, 'r) stream_op \<Rightarrow> ('t, 'r) channel \<Rightarrow> ('t, 'r) channel" where
  "channel_step cmp ext op c = (case op of
       Push ev \<Rightarrow> c\<lparr>ch_stream := stream_push cmp ext ev (ch_stream c),
                    ch_accepted := ch_accepted c @ (if es_done (ch_stream c) then [] else [ev])\<rparr>
     | End r \<Rightarrow> c\<lparr>ch_stream := stream_end r (ch_stream c)\<rparr>
     | Poll \<Rightarrow> (case ch_reader c of Ready \<Rightarrow> poll c | _ \<Rightarrow> c)
     | Resume \<Rightarrow> (case ch_reader c of Waiting w \<Rightarrow> resume w c | _ \<Rightarrow> c)
     | CancelWait \<Rightarrow> (case ch_reader c of Waiting w \<Rightarrow> cancel_wait w c | _ \<Rightarrow> c))"

definition new_channel :: "('t, 'r) channel" where
  "new_channel = \<lparr>ch_stream = new_stream, ch_reader = Ready, ch_delivered = [], ch_accepted = []\<rparr>"

definition run_channel ::
  "('t \<Rightarrow> bool) \<Rightarrow> ('t \<Rightarrow> 'r) \<Rightarrow> ('t, 'r) stream_op list \<Rightarrow> ('t, 'r) channel" where
  "run_channel cmp ext ops = fold (channel_step cmp ext) ops new_channel"

section \<open>Invariant\<close>

definition in_flight :: "('t, 'r) channel \<Rightarrow> 't list" where
  "in_flight c = (case ch_reader c of
       Waiting w \<Rightarrow> (case es_futures (ch_stream c) w of FutureItem x \<Rightarrow> [x] | _ \<Rightarrow> [])
     | _ \<Rightarrow> [])"

definition waiting_on :: "('t, 'r) channel \<Rightarrow> nat \<Rightarrow> bool" where
  "waiting_on c w \<longleftrightarrow> ch_reader c = Waiting w \<and> es_futures (ch_stream c) w = FuturePending"

text \<open>Every accepted event is delivered, on its way to the reader, or buffered, in order; only the
  reader's own future is pending, and then nothing is buffered and the stream is open.\<close>

definition channel_ok :: "('t, 'r) channel \<Rightarrow> bool" where
  "channel_ok c \<longleftrightarrow>
     ch_accepted c = ch_delivered c @ in_flight c @ es_queue (ch_stream c) \<and>
     (\<forall>w. es_futures (ch_stream c) w = FuturePending \<longrightarrow>
        ch_reader c = Waiting w \<and> w \<in> set (es_waiting (ch_stream c)) \<and> w < es_next (ch_stream c)
        \<and> es_queue (ch_stream c) = [] \<and> \<not> es_done (ch_stream c)) \<and>
     (\<forall>w. ch_reader c = Waiting w \<longrightarrow> w < es_next (ch_stream c) \<and>
        (es_futures (ch_stream c) w = FutureDone \<longrightarrow>
           es_done (ch_stream c) \<and> es_queue (ch_stream c) = [])) \<and>
     (ch_reader c = Stopped \<longrightarrow> es_done (ch_stream c) \<and> es_queue (ch_stream c) = [])"

lemma channel_okI:
  assumes "ch_accepted c = ch_delivered c @ in_flight c @ es_queue (ch_stream c)"
    and "\<And>w. es_futures (ch_stream c) w = FuturePending \<Longrightarrow>
        ch_reader c = Waiting w \<and> w \<in> set (es_waiting (ch_stream c)) \<and> w < es_next (ch_stream c)
        \<and> es_queue (ch_stream c) = [] \<and> \<not> es_done (ch_stream c)"
    and "\<And>w. ch_reader c = Waiting w \<Longrightarrow> w < es_next (ch_stream c) \<and>
        (es_futures (ch_stream c) w = FutureDone \<longrightarrow> es_done (ch_stream c) \<and> es_queue (ch_stream c) = [])"
    and "ch_reader c = Stopped \<Longrightarrow> es_done (ch_stream c) \<and> es_queue (ch_stream c) = []"
  shows "channel_ok c"
  using assms unfolding channel_ok_def by blast

lemma channel_ok_new: "channel_ok new_channel"
  by (simp add: channel_ok_def new_channel_def new_stream_def in_flight_def)

lemma offer_cases:
  "(\<forall>w \<in> set ws. fs w \<noteq> FuturePending) \<and> offer ev ws fs q = ([], fs, q @ [ev]) \<or>
   (\<exists>us w vs. ws = us @ w # vs \<and> fs w = FuturePending \<and> offer ev ws fs q = (vs, fs(w := FutureItem ev), q))"
proof (induction ws)
  case (Cons w ws)
  show ?case
  proof (cases "fs w = FuturePending")
    case True
    then have "w # ws = [] @ w # ws \<and> fs w = FuturePending \<and>
      offer ev (w # ws) fs q = (ws, fs(w := FutureItem ev), q)" by simp
    then show ?thesis by blast
  next
    case False
    from Cons.IH show ?thesis
    proof (elim disjE exE conjE)
      fix us v vs
      assume "ws = us @ v # vs" "fs v = FuturePending" "offer ev ws fs q = (vs, fs(v := FutureItem ev), q)"
      with False have "w # ws = (w # us) @ v # vs \<and> fs v = FuturePending \<and>
        offer ev (w # ws) fs q = (vs, fs(v := FutureItem ev), q)" by simp
      then show ?thesis by blast
    qed (use False in simp)
  qed
qed simp

lemma finish_waiters_at:
  "finish_waiters ws fs w =
     (if fs w = FuturePending \<and> w \<in> set ws then FutureDone else fs w)"
  by (induction ws fs rule: finish_waiters.induct) auto

lemma push_fields:
  assumes "\<not> es_done s"
  shows "es_done (stream_push cmp ext ev s) = cmp ev"
    and "es_result (stream_push cmp ext ev s) = (if cmp ev then Some (ext ev) else es_result s)"
    and "es_next (stream_push cmp ext ev s) = es_next s"
  using assms by (simp_all add: stream_push_def Let_def)

lemma channel_ok_push:
  assumes ok: "channel_ok c"
  shows "channel_ok (channel_step cmp ext (Push ev) c)"
proof (cases "es_done (ch_stream c)")
  case True
  with ok show ?thesis by (simp add: channel_step_def stream_push_def)
next
  case open_: False
  define s where "s = ch_stream c"
  define s' where "s' = stream_push cmp ext ev s"
  have step: "channel_step cmp ext (Push ev) c =
      c\<lparr>ch_stream := s', ch_accepted := ch_accepted c @ [ev]\<rparr>"
    using open_ by (simp add: channel_step_def s'_def s_def)
  consider (queued) "\<forall>w \<in> set (es_waiting s). es_futures s w \<noteq> FuturePending"
      "offer ev (es_waiting s) (es_futures s) (es_queue s) = ([], es_futures s, es_queue s @ [ev])"
    | (handed) us w vs where "es_waiting s = us @ w # vs" "es_futures s w = FuturePending"
      "offer ev (es_waiting s) (es_futures s) (es_queue s) =
         (vs, (es_futures s)(w := FutureItem ev), es_queue s)"
    using offer_cases [of "es_waiting s" "es_futures s" ev "es_queue s"] by blast
  then show ?thesis
  proof cases
    case queued
    then have s': "es_queue s' = es_queue s @ [ev]" "es_futures s' = es_futures s" "es_next s' = es_next s"
      using open_ by (simp_all add: s'_def stream_push_def Let_def s_def)
    have nopend: "\<forall>w. es_futures s w \<noteq> FuturePending"
      using ok queued(1) by (auto simp: channel_ok_def s_def)
    have "ch_reader c \<noteq> Stopped" using ok open_ by (auto simp: channel_ok_def)
    moreover have "\<And>w. ch_reader c = Waiting w \<Longrightarrow> es_futures s w \<noteq> FutureDone"
      using ok open_ by (auto simp: channel_ok_def s_def)
    ultimately show ?thesis using ok nopend s' unfolding step
      by (auto simp: channel_ok_def in_flight_def s_def split: reader.splits)
  next
    case handed
    then have s': "es_queue s' = es_queue s" "es_futures s' = (es_futures s)(w := FutureItem ev)"
        "es_next s' = es_next s" "es_waiting s' = vs"
      using open_ by (simp_all add: s'_def stream_push_def Let_def s_def)
    from ok handed(2) have r: "ch_reader c = Waiting w" "es_queue s = []" "w < es_next s"
      by (auto simp: channel_ok_def s_def)
    have others: "\<And>v. v \<noteq> w \<Longrightarrow> es_futures s v \<noteq> FuturePending"
      using ok r(1) by (auto simp: channel_ok_def s_def)
    have "ch_accepted c = ch_delivered c @ in_flight c @ es_queue s"
      using ok unfolding channel_ok_def s_def by blast
    then have "ch_accepted c = ch_delivered c"
      using r(1,2) handed(2) by (simp add: in_flight_def s_def)
    then have "ch_accepted c @ [ev] =
        ch_delivered c @ in_flight (c\<lparr>ch_stream := s', ch_accepted := ch_accepted c @ [ev]\<rparr>) @ es_queue s'"
      using r(1,2) s'(1,2) by (simp add: in_flight_def)
    moreover have "es_futures s' v = FuturePending \<Longrightarrow> False" for v
      using others [of v] s'(2) by (simp split: if_splits)
    moreover have "w < es_next s'" "es_futures s' w \<noteq> FutureDone" using r(3) s'(2,3) by simp_all
    ultimately show ?thesis using r(1) unfolding step by (intro channel_okI) auto
  qed
qed

lemma channel_ok_end:
  assumes "channel_ok c" shows "channel_ok (channel_step cmp ext (End r) c)"
proof -
  define s where "s = ch_stream c"
  have nopend: "finish_waiters (es_waiting s) (es_futures s) w \<noteq> FuturePending" for w
    using assms by (auto simp: finish_waiters_at channel_ok_def s_def)
  have done_: "finish_waiters (es_waiting s) (es_futures s) w = FutureDone \<Longrightarrow>
      es_futures s w = FutureDone \<or> es_futures s w = FuturePending" for w
    by (auto simp: finish_waiters_at split: if_splits)
  have item: "finish_waiters (es_waiting s) (es_futures s) w = FutureItem x \<longleftrightarrow>
      es_futures s w = FutureItem x" for w x
    by (auto simp: finish_waiters_at)
  have fl: "in_flight (c\<lparr>ch_stream := stream_end r s\<rparr>) = in_flight c"
    unfolding in_flight_def stream_end_def s_def [symmetric]
    by (auto simp: item finish_waiters_at s_def [symmetric] split: reader.split future.split)
  show ?thesis using assms nopend done_ fl
    by (auto simp: channel_step_def channel_ok_def s_def stream_end_def)
qed

lemma channel_ok_reader:
  assumes "channel_ok c" and "op \<in> {Poll, Resume, CancelWait}"
  shows "channel_ok (channel_step cmp ext op c)"
proof -
  consider (poll) "op = Poll" "ch_reader c = Ready"
    | (wait) w where "op \<in> {Resume, CancelWait}" "ch_reader c = Waiting w"
    | (none) "channel_step cmp ext op c = c"
    using assms(2) by (cases "ch_reader c") (auto simp: channel_step_def)
  then show ?thesis
  proof cases
    case poll
    define s where "s = ch_stream c"
    have nopend: "es_futures s v \<noteq> FuturePending" for v
      using assms(1) poll by (auto simp: channel_ok_def s_def)
    have acc: "ch_accepted c = ch_delivered c @ es_queue s"
      using assms(1) poll by (simp add: channel_ok_def in_flight_def s_def)
    show ?thesis
    proof (cases "es_queue s")
      case Nil
      then show ?thesis using poll nopend acc
        by (cases "es_done s") (simp_all add: channel_step_def poll_def Let_def channel_ok_def in_flight_def s_def [symmetric])
    next
      case (Cons x q)
      then show ?thesis using poll nopend acc
        by (simp add: channel_step_def poll_def Let_def channel_ok_def in_flight_def s_def [symmetric])
    qed
  next
    case wait
    define s where "s = ch_stream c"
    have others: "es_futures s v = FuturePending \<Longrightarrow> v = w" for v
      using assms(1) wait by (auto simp: channel_ok_def s_def)
    have acc: "ch_accepted c = ch_delivered c @ in_flight c @ es_queue s"
      and done_: "es_futures s w = FutureDone \<Longrightarrow> es_done s \<and> es_queue s = []"
      using assms(1) wait by (simp_all add: channel_ok_def s_def)
    have nopend: "es_futures s w \<noteq> FuturePending \<Longrightarrow> es_futures s v \<noteq> FuturePending" for v
      using others by metis
    have cancelled: "(if v = w then FutureCancelled else es_futures (ch_stream c) v) \<noteq> FuturePending" for v
      using others by (auto simp: s_def)
    have bound: "w < es_next s" using assms(1) wait(2) by (simp add: channel_ok_def s_def)
    show ?thesis
    proof (cases "op = Resume")
      case op: True
      show ?thesis
      proof (cases "es_futures s w")
        case (FutureItem x)
        then have "channel_step cmp ext op c = c\<lparr>ch_delivered := ch_delivered c @ [x], ch_reader := Ready\<rparr>"
          "in_flight c = [x]"
          using op wait(2) by (simp_all add: channel_step_def resume_def s_def in_flight_def)
        then show ?thesis using acc nopend FutureItem
          by (intro channel_okI) (auto simp: s_def in_flight_def)
      next
        case FutureDone
        then have "channel_step cmp ext op c = c\<lparr>ch_reader := Stopped\<rparr>" "in_flight c = []"
          using op wait(2) by (simp_all add: channel_step_def resume_def s_def in_flight_def)
        then show ?thesis using acc nopend FutureDone done_
          by (intro channel_okI) (auto simp: s_def in_flight_def)
      next
        case FuturePending
        then show ?thesis using op wait(2) assms(1) by (simp add: channel_step_def resume_def s_def)
      next
        case FutureCancelled
        then show ?thesis using op wait(2) assms(1) by (simp add: channel_step_def resume_def s_def)
      qed
    next
      case False
      then have op: "op = CancelWait" using wait(1) by simp
      show ?thesis
      proof (cases "es_futures s w = FuturePending")
        case True
        then have "channel_step cmp ext op c =
            c\<lparr>ch_stream := s\<lparr>es_futures := (es_futures s)(w := FutureCancelled)\<rparr>, ch_reader := Ready\<rparr>"
          "in_flight c = []"
          using op wait(2) by (simp_all add: channel_step_def cancel_wait_def s_def in_flight_def Let_def)
        then show ?thesis using acc
          by (intro channel_okI) (auto simp: s_def in_flight_def cancelled)
      next
        case False
        then show ?thesis using op wait(2) assms(1)
          by (simp add: channel_step_def cancel_wait_def Let_def s_def)
      qed
    qed
  next
    case none
    with assms(1) show ?thesis by simp
  qed
qed

lemma channel_ok_step: "channel_ok c \<Longrightarrow> channel_ok (channel_step cmp ext op c)"
  by (cases op) (auto intro: channel_ok_push channel_ok_end channel_ok_reader)

lemma channel_ok_run: "channel_ok (run_channel cmp ext ops)"
proof -
  have "channel_ok c \<Longrightarrow> channel_ok (fold (channel_step cmp ext) ops c)" for c
    by (induction ops arbitrary: c) (auto intro: channel_ok_step)
  then show ?thesis by (simp add: run_channel_def channel_ok_new)
qed

text \<open>A result, once there, is never replaced.\<close>

lemma result_stable:
  assumes "es_result (ch_stream c) = Some r" and "es_done (ch_stream c)"
  shows "es_result (ch_stream (channel_step cmp ext op c)) = Some r \<and>
         es_done (ch_stream (channel_step cmp ext op c))"
  using assms
  by (cases op) (auto simp: channel_step_def stream_push_def stream_end_def poll_def resume_def
      cancel_wait_def Let_def split: reader.split list.split future.split)

definition result_ok :: "('t \<Rightarrow> bool) \<Rightarrow> ('t \<Rightarrow> 'r) \<Rightarrow> ('t, 'r) channel \<Rightarrow> bool" where
  "result_ok cmp ext c \<longleftrightarrow>
     (es_result (ch_stream c) \<noteq> None \<longrightarrow> es_done (ch_stream c)) \<and>
     (\<forall>ev \<in> set (ch_accepted c). cmp ev \<longrightarrow>
        ev = last (ch_accepted c) \<and> es_done (ch_stream c) \<and> es_result (ch_stream c) = Some (ext ev)) \<and>
     (\<forall>ev \<in> set (butlast (ch_accepted c)). \<not> cmp ev)"

lemma result_ok_step:
  assumes "result_ok cmp ext c" shows "result_ok cmp ext (channel_step cmp ext op c)"
proof (cases op)
  case (Push ev)
  show ?thesis
  proof (cases "es_done (ch_stream c)")
    case True
    with assms Push show ?thesis by (simp add: channel_step_def stream_push_def result_ok_def)
  next
    case False
    with assms have "\<forall>x \<in> set (ch_accepted c). \<not> cmp x" "es_result (ch_stream c) = None"
      by (auto simp: result_ok_def)
    with False Push show ?thesis
      by (simp add: channel_step_def result_ok_def push_fields)
  qed
next
  case (End r)
  with assms show ?thesis by (auto simp: channel_step_def stream_end_def result_ok_def)
next
  case Poll
  with assms show ?thesis
    by (auto simp: channel_step_def poll_def result_ok_def Let_def split: reader.split list.split)
next
  case Resume
  with assms show ?thesis
    by (auto simp: channel_step_def resume_def result_ok_def split: reader.split future.split)
next
  case CancelWait
  with assms show ?thesis
    by (auto simp: channel_step_def cancel_wait_def result_ok_def Let_def split: reader.split)
qed

lemma result_ok_run: "result_ok cmp ext (run_channel cmp ext ops)"
proof -
  have "result_ok cmp ext c \<Longrightarrow> result_ok cmp ext (fold (channel_step cmp ext) ops c)" for c
    by (induction ops arbitrary: c) (auto intro: result_ok_step)
  moreover have "result_ok cmp ext new_channel"
    by (simp add: result_ok_def new_channel_def new_stream_def)
  ultimately show ?thesis unfolding run_channel_def by blast
qed

section \<open>Properties\<close>

text \<open>C10: Whatever the interleaving of pushes, ends, reads, resumptions and cancelled waits, the
  reader has received a prefix of the accepted events, in order and each once; once it has
  stopped it has received all of them, and the stream is done.\<close>

theorem stream_delivers_in_order:
  fixes ops :: "('t, 'r) stream_op list"
  shows "\<exists>rest. ch_accepted (run_channel cmp ext ops) = ch_delivered (run_channel cmp ext ops) @ rest \<and>
     (ch_reader (run_channel cmp ext ops) \<noteq> Stopped \<or>
        rest = [] \<and> es_done (ch_stream (run_channel cmp ext ops)))"
proof -
  have ok: "channel_ok (run_channel cmp ext ops)" by (rule channel_ok_run)
  show ?thesis
  proof (cases "ch_reader (run_channel cmp ext ops) = Stopped")
    case True
    with ok have "ch_accepted (run_channel cmp ext ops) = ch_delivered (run_channel cmp ext ops) @ []"
      "es_done (ch_stream (run_channel cmp ext ops))"
      by (simp_all add: channel_ok_def in_flight_def)
    then show ?thesis by blast
  next
    case False
    with ok show ?thesis unfolding channel_ok_def by blast
  qed
qed

theorem stream_delivers_in_order_witness:
  "ch_accepted (run_channel (\<lambda>n. False) id [Poll, Push (3 :: nat), Push 7, Resume, Poll, End None, Poll])
     = ch_delivered (run_channel (\<lambda>n. False) id [Poll, Push (3 :: nat), Push 7, Resume, Poll, End None, Poll]) \<and>
   es_done (ch_stream (run_channel (\<lambda>n. False) (id :: nat \<Rightarrow> nat)
     [Poll, Push (3 :: nat), Push 7, Resume, Poll, End None, Poll]))"
proof -
  have "ch_reader (run_channel (\<lambda>n. False) (id :: nat \<Rightarrow> nat)
      [Poll, Push (3 :: nat), Push 7, Resume, Poll, End None, Poll]) = Stopped"
    by (simp add: run_channel_def new_channel_def new_stream_def channel_step_def poll_def resume_def
        stream_push_def stream_end_def)
  with stream_delivers_in_order [of "\<lambda>n. False" "id :: nat \<Rightarrow> nat"
      "[Poll, Push (3 :: nat), Push 7, Resume, Poll, End None, Poll]"]
  show ?thesis by auto
qed

text \<open>Only the last accepted event can be a terminal one, and then the stream is done and its
  result is the one extracted from that event, whatever \<^verbatim>\<open>end\<close> or \<^verbatim>\<open>push\<close> calls follow.\<close>

theorem stream_result_from_terminal:
  fixes ops :: "('t, 'r) stream_op list"
  assumes "ev \<in> set (ch_accepted (run_channel cmp ext ops))" and "cmp ev"
  shows "ev = last (ch_accepted (run_channel cmp ext ops)) \<and>
     es_done (ch_stream (run_channel cmp ext ops)) \<and>
     es_result (ch_stream (run_channel cmp ext ops)) = Some (ext ev)"
  using result_ok_run [of cmp ext ops] assms unfolding result_ok_def by blast

theorem stream_result_from_terminal_witness:
  "es_result (ch_stream (run_channel (\<lambda>n. n = 7) (\<lambda>n. n + 1)
     [Poll, Push (3 :: nat), Push 7, Resume, End (Some (0 :: nat)), Push 9, Poll])) = Some 8"
proof -
  have "(7 :: nat) \<in> set (ch_accepted (run_channel (\<lambda>n. n = 7) (\<lambda>n. n + 1)
     [Poll, Push (3 :: nat), Push 7, Resume, End (Some (0 :: nat)), Push 9, Poll]))"
    by (simp add: run_channel_def new_channel_def new_stream_def channel_step_def poll_def resume_def
        stream_push_def stream_end_def)
  from stream_result_from_terminal [OF this] show ?thesis by simp
qed

end
