(* ===== verification/PyFormat.thy ===== *)
theory PyFormat
  imports PyJson
begin

text \<open>
  Python's \<^verbatim>\<open>format(x, "g")\<close> of a float: six significant digits, rounded half to even on
  the exact value, trailing zeros dropped, exponent form for decimal exponents below -4 or above 5.
\<close>

fun exp10 :: "nat \<Rightarrow> rat \<Rightarrow> int" where
  "exp10 0 r = 0"
| "exp10 (Suc n) r =
     (if 10 \<le> r then 1 + exp10 n (r / 10) else if r < 1 then exp10 n (r * 10) - 1 else 0)"

definition round_half_even :: "rat \<Rightarrow> int" where
  "round_half_even q =
     (let f = \<lfloor>q\<rfloor>; d = q - of_int f in
      if d < 1 / 2 then f else if 1 / 2 < d then f + 1 else if even f then f else f + 1)"

definition drop_trailing_zeros :: "string \<Rightarrow> string" where
  "drop_trailing_zeros s = rev (dropWhile (\<lambda>c. c = CHR ''0'') (rev s))"

definition format_g_positive :: "rat \<Rightarrow> string" where
  "format_g_positive r =
     (let e0 = exp10 400 r;
          m0 = round_half_even (scale10 r (5 - e0));
          e = (if m0 = 1000000 then e0 + 1 else e0);
          m = (if m0 = 1000000 then 100000 else m0);
          ds = drop_trailing_zeros (nat_digits (nat m))
      in if 0 \<le> e \<and> e < 6 then
           (let k = Suc (nat e); w = take k ds @ replicate (k - length ds) (CHR ''0''); f = drop k ds
            in if f = [] then w else w @ ''.'' @ f)
         else if - 4 \<le> e \<and> e < 0 then ''0.'' @ replicate (nat (- e) - 1) (CHR ''0'') @ ds
         else take 1 ds @ (if length ds = 1 then [] else ''.'' @ drop 1 ds) @ repr_exponent e)"

fun format_g :: "pyfloat \<Rightarrow> string" where
  "format_g (Fin r) =
     (if r = 0 then ''0'' else if r < 0 then ''-'' @ format_g_positive (- r) else format_g_positive r)"
| "format_g PosInf = ''inf''"
| "format_g NegInf = ''-inf''"
| "format_g NaN = ''nan''"

end
