(* ===== verification/Schema.thy ===== *)
theory Schema
  imports Messages
begin

text \<open>
  Validation of tool arguments against the supported subset of JSON Schema
  (\<^verbatim>\<open>src/pi_agent/agent/schema.py\<close>).  \<open>re_search\<close> is Python's
  \<^verbatim>\<open>re.search\<close> as a test: whether the pattern matches somewhere in the string, or the
  exception of a malformed pattern.
\<close>

section \<open>Helpers\<close>

definition schema_error :: "string \<Rightarrow> string \<Rightarrow> (exn, 'a) result" where
  "schema_error path msg = Inl (Exn ToolArgumentsError (path @ '': '' @ msg))"

text \<open>Loops over a list that stop at the first exception.\<close>

fun checkE :: "('a \<Rightarrow> (exn, unit) result) \<Rightarrow> 'a list \<Rightarrow> (exn, unit) result" where
  "checkE f [] = Inr ()"
| "checkE f (x # xs) = bindE (f x) (\<lambda>_. checkE f xs)"

fun anyE :: "('a \<Rightarrow> (exn, bool) result) \<Rightarrow> 'a list \<Rightarrow> (exn, bool) result" where
  "anyE f [] = Inr False"
| "anyE f (x # xs) = bindE (f x) (\<lambda>b. if b then Inr True else anyE f xs)"

fun countE :: "('a \<Rightarrow> (exn, bool) result) \<Rightarrow> 'a list \<Rightarrow> (exn, nat) result" where
  "countE f [] = Inr 0"
| "countE f (x # xs) =
     bindE (f x) (\<lambda>b. bindE (countE f xs) (\<lambda>n. Inr (if b then Suc n else n)))"

lemma checkE_cong [fundef_cong]:
  "xs = ys \<Longrightarrow> (\<And>x. x \<in> set ys \<Longrightarrow> f x = g x) \<Longrightarrow> checkE f xs = checkE g ys"
  by (induction ys arbitrary: xs) auto

lemma anyE_cong [fundef_cong]:
  "xs = ys \<Longrightarrow> (\<And>x. x \<in> set ys \<Longrightarrow> f x = g x) \<Longrightarrow> anyE f xs = anyE g ys"
  by (induction ys arbitrary: xs) (auto intro!: bindE_cong)

lemma countE_cong [fundef_cong]:
  "xs = ys \<Longrightarrow> (\<And>x. x \<in> set ys \<Longrightarrow> f x = g x) \<Longrightarrow> countE f xs = countE g ys"
  by (induction ys arbitrary: xs) auto

lemma checkE_Inr: "checkE f xs = Inr u \<longleftrightarrow> (\<forall>x \<in> set xs. f x = Inr ())"
  by (induction xs) (auto simp: bindE_eq_Inr)

text \<open>\<^verbatim>\<open>len\<close> of a string counts its characters: the bytes that start one.\<close>

definition py_len :: "string \<Rightarrow> nat" where
  "py_len s = length (filter (\<lambda>c. (of_char c :: nat) div 64 \<noteq> 2) s)"

fun is_number :: "json \<Rightarrow> bool" where
  "is_number (JInt _) = True" | "is_number (JFloat _) = True" | "is_number _ = False"

fun matches_type :: "json \<Rightarrow> string \<Rightarrow> bool" where
  "matches_type v t =
     (if t = ''object'' then is_JObj v
      else if t = ''array'' then is_JArr v
      else if t = ''string'' then (case v of JStr _ \<Rightarrow> True | _ \<Rightarrow> False)
      else if t = ''number'' then is_number v
      else if t = ''integer'' then (case v of JInt _ \<Rightarrow> True | _ \<Rightarrow> False)
      else if t = ''boolean'' then (case v of JBool _ \<Rightarrow> True | _ \<Rightarrow> False)
      else if t = ''null'' then v = JNull
      else False)"

fun json_type :: "json \<Rightarrow> string" where
  "json_type JNull = ''null''"
| "json_type (JBool _) = ''boolean''"
| "json_type (JObj _) = ''object''"
| "json_type (JArr _) = ''array''"
| "json_type (JStr _) = ''string''"
| "json_type (JInt _) = ''integer''"
| "json_type (JFloat _) = ''number''"

text \<open>\<^verbatim>\<open>isinstance(v, int)\<close> holds of \<^verbatim>\<open>bool\<close> values too.\<close>

fun as_int :: "json \<Rightarrow> int option" where
  "as_int (JInt i) = Some i"
| "as_int (JBool b) = Some (if b then 1 else 0)"
| "as_int _ = None"

definition check_size :: "nat \<Rightarrow> jobject \<Rightarrow> string \<Rightarrow> string \<Rightarrow> string \<Rightarrow> (exn, unit) result" where
  "check_size n schema path min_key max_key =
     bindE (case as_int (jget schema min_key) of
              Some m \<Rightarrow> if int n < m
                then schema_error path (''length is below '' @ min_key @ ''='' @ py_str (jget schema min_key))
                else Inr ()
            | None \<Rightarrow> Inr ()) (\<lambda>_.
     (case as_int (jget schema max_key) of
        Some m \<Rightarrow> if m < int n
          then schema_error path (''length is above '' @ max_key @ ''='' @ py_str (jget schema max_key))
          else Inr ()
      | None \<Rightarrow> Inr ()))"

fun pf_less :: "pyfloat \<Rightarrow> pyfloat \<Rightarrow> bool" where
  "pf_less (Fin a) (Fin b) = (a < b)"
| "pf_less NegInf (Fin _) = True"
| "pf_less NegInf PosInf = True"
| "pf_less (Fin _) PosInf = True"
| "pf_less _ _ = False"

definition num_less :: "json \<Rightarrow> json \<Rightarrow> bool" where
  "num_less a b = (case (json_number a, json_number b) of
     (Some x, Some y) \<Rightarrow> pf_less x y | _ \<Rightarrow> False)"

definition num_le :: "json \<Rightarrow> json \<Rightarrow> bool" where
  "num_le a b = (case (json_number a, json_number b) of
     (Some x, Some y) \<Rightarrow> pf_less x y \<or> pf_eq x y | _ \<Rightarrow> False)"

definition check_bounds :: "json \<Rightarrow> jobject \<Rightarrow> string \<Rightarrow> (exn, unit) result" where
  "check_bounds v schema path =
     (let mn = jget schema ''minimum''; mx = jget schema ''maximum'';
          emn = jget schema ''exclusiveMinimum''; emx = jget schema ''exclusiveMaximum''
      in if is_number mn \<and> num_less v mn
         then schema_error path (''value is below minimum '' @ py_str mn)
         else if is_number mx \<and> num_less mx v
         then schema_error path (''value is above maximum '' @ py_str mx)
         else if is_number emn \<and> num_le v emn
         then schema_error path (''value must be greater than '' @ py_str emn)
         else if is_number emx \<and> num_le emx v
         then schema_error path (''value must be less than '' @ py_str emx)
         else Inr ())"

text \<open>The list of objects a combining keyword must hold.\<close>

definition schema_list :: "json \<Rightarrow> string \<Rightarrow> string \<Rightarrow> (exn, jobject list) result" where
  "schema_list v path keyword =
     (case v of
        JArr xs \<Rightarrow>
          if \<forall>x \<in> set xs. is_JObj x
          then Inr (map (\<lambda>x. case x of JObj d \<Rightarrow> d | _ \<Rightarrow> []) xs)
          else schema_error path (''schema '' @ keyword @ '' must be an array of objects'')
      | _ \<Rightarrow> schema_error path (''schema '' @ keyword @ '' must be an array of objects''))"

definition valid_of :: "(exn, unit) result \<Rightarrow> (exn, bool) result" where
  "valid_of r = (case r of Inr _ \<Rightarrow> Inr True
     | Inl e \<Rightarrow> if exn_class e = ToolArgumentsError then Inr False else Inl e)"

text \<open>\<^verbatim>\<open>const\<close> and \<^verbatim>\<open>enum\<close>.\<close>

definition check_const_enum :: "json \<Rightarrow> jobject \<Rightarrow> string \<Rightarrow> (exn, unit) result" where
  "check_const_enum v schema path =
     bindE (if jmem ''const'' schema \<and> \<not> py_eq v (jget schema ''const'')
            then schema_error path (''expected constant '' @ py_repr (jget schema ''const''))
            else Inr ()) (\<lambda>_.
     (if jmem ''enum'' schema then
        (case jget schema ''enum'' of
           JArr vs \<Rightarrow> if \<exists>w \<in> set vs. py_eq v w then Inr ()
                     else schema_error path (''expected one of '' @ py_repr (JArr vs))
         | _ \<Rightarrow> schema_error path ''schema enum must be an array'')
      else Inr ()))"

fun or_sep :: "string list \<Rightarrow> string" where
  "or_sep [] = []" | "or_sep [x] = x" | "or_sep (x # xs) = x @ '' or '' @ or_sep xs"

definition is_JStr :: "json \<Rightarrow> bool" where
  "is_JStr v = (case v of JStr _ \<Rightarrow> True | _ \<Rightarrow> False)"

definition str_of :: "json \<Rightarrow> string" where
  "str_of v = (case v of JStr s \<Rightarrow> s | _ \<Rightarrow> [])"

definition check_type :: "json \<Rightarrow> jobject \<Rightarrow> string \<Rightarrow> (exn, unit) result" where
  "check_type v schema path =
     (let ts = (case jget schema ''type'' of JStr s \<Rightarrow> JArr [JStr s] | t \<Rightarrow> t) in
      if jget schema ''type'' = JNull then Inr ()
      else case ts of
        JArr xs \<Rightarrow>
          if \<not> (\<forall>x \<in> set xs. is_JStr x)
          then schema_error path ''schema type must be a string or string array''
          else if \<exists>x \<in> set xs. matches_type v (str_of x) then Inr ()
          else schema_error path
                 (''expected '' @ or_sep (map str_of xs) @ '', got '' @ json_type v)
      | _ \<Rightarrow> schema_error path ''schema type must be a string or string array'')"

definition check_required :: "jobject \<Rightarrow> jobject \<Rightarrow> string \<Rightarrow> (exn, unit) result" where
  "check_required d schema path =
     (case jget_or schema ''required'' (JArr []) of
        JArr ks \<Rightarrow>
          checkE (\<lambda>k. if is_JStr k \<and> \<not> jmem (str_of k) d
                      then schema_error path (''missing required property '' @ py_repr k)
                      else Inr ()) ks
      | _ \<Rightarrow> schema_error path ''schema required must be an array'')"

fun unique_items :: "json list \<Rightarrow> json list \<Rightarrow> bool" where
  "unique_items seen [] = True"
| "unique_items seen (x # xs) = ((\<forall>y \<in> set seen. \<not> py_eq x y) \<and> unique_items (seen @ [x]) xs)"

definition check_items_shape :: "json list \<Rightarrow> jobject \<Rightarrow> string \<Rightarrow> (exn, unit) result" where
  "check_items_shape xs schema path =
     bindE (check_size (length xs) schema path ''minItems'' ''maxItems'') (\<lambda>_.
     (if jget schema ''uniqueItems'' = JBool True \<and> \<not> unique_items [] xs
      then schema_error path ''array items must be unique'' else Inr ()))"

definition check_string ::
  "(string \<Rightarrow> string \<Rightarrow> (exn, bool) result) \<Rightarrow> string \<Rightarrow> jobject \<Rightarrow> string \<Rightarrow> (exn, unit) result" where
  "check_string re_search s schema path =
     bindE (check_size (py_len s) schema path ''minLength'' ''maxLength'') (\<lambda>_.
     (case jget schema ''pattern'' of
        JStr p \<Rightarrow> bindE (re_search p s) (\<lambda>found.
          if found then Inr ()
          else schema_error path (''string does not match pattern '' @ py_repr_str p))
      | _ \<Rightarrow> Inr ()))"

section \<open>The validator\<close>

fun enum_from :: "nat \<Rightarrow> 'a list \<Rightarrow> (nat \<times> 'a) list" where
  "enum_from n [] = []" | "enum_from n (x # xs) = (n, x) # enum_from (Suc n) xs"

lemma jget_size: "jget d k = v \<Longrightarrow> v \<noteq> JNull \<Longrightarrow> size v < size (JObj d)"
  by (induction d) (auto simp: jget_def split: if_splits)

lemma jget_obj_size: "jget d k = JObj c \<Longrightarrow> size (JObj c) < size (JObj d)"
  using jget_size [of d k "JObj c"] by simp

lemma jget_or_size: "jget_or d k (JObj []) = JObj e \<Longrightarrow> e \<noteq> [] \<Longrightarrow> size (JObj e) < size (JObj d)"
  by (induction d) (auto simp: jget_or_def split: if_splits)

lemma property_size:
  assumes "jget_or d k (JObj []) = JObj ps" and "jget ps j = JObj c"
  shows "size (JObj c) < size (JObj d)"
proof -
  from assms(2) have "ps \<noteq> []" by auto
  then show ?thesis using jget_obj_size [OF assms(2)] jget_or_size [OF assms(1)] by linarith
qed

lemma schema_list_size:
  assumes "schema_list (jget d k) path kw = Inr cs" and "c \<in> set cs"
  shows "size (JObj c) < size (JObj d)"
proof -
  from assms(1) obtain xs where xs: "jget d k = JArr xs" "\<forall>x \<in> set xs. is_JObj x"
      "cs = map (\<lambda>x. case x of JObj d \<Rightarrow> d | _ \<Rightarrow> []) xs"
    by (cases "jget d k") (auto simp: schema_list_def schema_error_def split: if_splits)
  with assms(2) obtain x where "x \<in> set xs" "x = JObj c"
    by (auto split: json.splits)
  then have "size (JObj c) < size (JArr xs)" by (induction xs) auto
  also have "size (JArr xs) < size (JObj d)" using jget_size [OF xs(1)] by simp
  finally show ?thesis .
qed

function (sequential) validate_json_schema ::
  "(string \<Rightarrow> string \<Rightarrow> (exn, bool) result) \<Rightarrow> json \<Rightarrow> jobject \<Rightarrow> string \<Rightarrow> (exn, unit) result" where
  "validate_json_schema rs v schema path =
     bindE (if jmem ''allOf'' schema
            then bindE (schema_list (jget schema ''allOf'') path ''allOf'') (\<lambda>cs.
                   checkE (\<lambda>c. validate_json_schema rs v c path) cs)
            else Inr ()) (\<lambda>_.
     bindE (if jmem ''anyOf'' schema
            then bindE (schema_list (jget schema ''anyOf'') path ''anyOf'') (\<lambda>cs.
                 bindE (anyE (\<lambda>c. valid_of (validate_json_schema rs v c path)) cs) (\<lambda>ok.
                   if ok then Inr () else schema_error path ''value does not match anyOf''))
            else Inr ()) (\<lambda>_.
     bindE (if jmem ''oneOf'' schema
            then bindE (schema_list (jget schema ''oneOf'') path ''oneOf'') (\<lambda>cs.
                 bindE (countE (\<lambda>c. valid_of (validate_json_schema rs v c path)) cs) (\<lambda>n.
                   if n = 1 then Inr ()
                   else schema_error path ''value must match exactly one oneOf schema''))
            else Inr ()) (\<lambda>_.
     bindE (case jget schema ''not'' of
              JObj c \<Rightarrow> bindE (valid_of (validate_json_schema rs v c path)) (\<lambda>ok.
                if ok then schema_error path ''value matches forbidden schema'' else Inr ())
            | _ \<Rightarrow> Inr ()) (\<lambda>_.
     bindE (check_const_enum v schema path) (\<lambda>_.
     bindE (check_type v schema path) (\<lambda>_.
     (case v of
        JObj d \<Rightarrow>
          bindE (check_required d schema path) (\<lambda>_.
          bindE (case jget_or schema ''properties'' (JObj []) of
                   JObj ps \<Rightarrow>
                     checkE (\<lambda>kv. case jget ps (fst kv) of
                         JObj c \<Rightarrow> validate_json_schema rs (snd kv) c (path @ ''.'' @ fst kv)
                       | _ \<Rightarrow>
                         (case jget schema ''additionalProperties'' of
                            JBool False \<Rightarrow>
                              schema_error path (''unexpected property '' @ py_repr_str (fst kv))
                          | JObj c \<Rightarrow> validate_json_schema rs (snd kv) c (path @ ''.'' @ fst kv)
                          | _ \<Rightarrow> Inr ())) d
                 | _ \<Rightarrow> schema_error path ''schema properties must be an object'') (\<lambda>_.
          check_size (length d) schema path ''minProperties'' ''maxProperties''))
      | JArr xs \<Rightarrow>
          bindE (check_items_shape xs schema path) (\<lambda>_.
          (case jget schema ''items'' of
             JObj c \<Rightarrow> checkE (\<lambda>ix. validate_json_schema rs (snd ix) c
                         (path @ ''['' @ py_str_int (int (fst ix)) @ '']'')) (enum_from 0 xs)
           | _ \<Rightarrow> Inr ()))
      | JStr s \<Rightarrow> check_string rs s schema path
      | _ \<Rightarrow> if is_number v then check_bounds v schema path else Inr ())))))))"
  by pat_completeness auto
termination
  by (relation "measure (\<lambda>(_, _, schema, _). size (JObj schema))")
     (auto dest: jget_obj_size schema_list_size property_size simp del: json.size)

declare validate_json_schema.simps [simp del]

section \<open>Properties\<close>

text \<open>The schema the built-in tools declare.\<close>

definition object_schema :: "jobject \<Rightarrow> string list \<Rightarrow> jobject" where
  "object_schema ps req =
     [(''type'', JStr ''object''), (''properties'', JObj ps), (''required'', JArr (map JStr req)),
      (''additionalProperties'', JBool False)]"

lemma object_schema_get [simp]:
  "jmem ''allOf'' (object_schema ps req) = False" "jmem ''anyOf'' (object_schema ps req) = False"
  "jmem ''oneOf'' (object_schema ps req) = False" "jget (object_schema ps req) ''not'' = JNull"
  "jmem ''const'' (object_schema ps req) = False" "jmem ''enum'' (object_schema ps req) = False"
  "jget (object_schema ps req) ''type'' = JStr ''object''"
  "jget_or (object_schema ps req) ''required'' w = JArr (map JStr req)"
  "jget_or (object_schema ps req) ''properties'' w = JObj ps"
  "jget (object_schema ps req) ''additionalProperties'' = JBool False"
  "jget (object_schema ps req) ''minProperties'' = JNull"
  "jget (object_schema ps req) ''maxProperties'' = JNull"
  by (simp_all add: object_schema_def)

lemma check_required_ok:
  "check_required d (object_schema ps req) path = Inr u \<longleftrightarrow> (\<forall>k \<in> set req. jmem k d)"
  by (auto simp: check_required_def checkE_Inr is_JStr_def str_of_def schema_error_def split: if_splits)

lemma check_type_object:
  "check_type v (object_schema ps req) path = Inr u \<longleftrightarrow> is_JObj v"
  by (simp add: check_type_def is_JStr_def str_of_def schema_error_def)

lemma is_JObj_iff: "is_JObj v \<longleftrightarrow> (\<exists>d. v = JObj d)"
  by (cases v) simp_all

text \<open>C11: Against a closed object schema a value is accepted exactly when it is an object with every
  required key, no undeclared key, and every entry accepted by its own declared schema.\<close>

theorem validate_object_correct:
  "validate_json_schema rs v (object_schema ps req) path = Inr () \<longleftrightarrow>
     (\<exists>d. v = JObj d \<and> (\<forall>k \<in> set req. jmem k d) \<and>
        (\<forall>(k, x) \<in> set d. \<exists>c. jget ps k = JObj c \<and>
           validate_json_schema rs x c (path @ ''.'' @ k) = Inr ()))"
proof (cases "is_JObj v")
  case False
  have "\<nexists>u. check_type v (object_schema ps req) path = Inr u"
    using False by (simp add: check_type_object)
  then obtain e where "check_type v (object_schema ps req) path = Inl e"
    by (cases "check_type v (object_schema ps req) path") auto
  with False show ?thesis
    by (auto simp: validate_json_schema.simps [of rs v] check_const_enum_def is_JObj_iff)
next
  case True
  then obtain d where v: "v = JObj d" by (auto simp: is_JObj_iff)
  define entry :: "string \<times> json \<Rightarrow> (exn, unit) result" where "entry = (\<lambda>kv. case jget ps (fst kv) of
      JObj c \<Rightarrow> validate_json_schema rs (snd kv) c (path @ ''.'' @ fst kv)
    | _ \<Rightarrow> schema_error path (''unexpected property '' @ py_repr_str (fst kv)))"
  have entry: "entry (k, x) = Inr () \<longleftrightarrow>
      (\<exists>c. jget ps k = JObj c \<and> validate_json_schema rs x c (path @ ''.'' @ k) = Inr ())" for k x
    by (cases "jget ps k") (simp_all add: entry_def schema_error_def)
  have "check_type v (object_schema ps req) path = Inr ()"
    using True check_type_object by metis
  then have "validate_json_schema rs v (object_schema ps req) path =
      bindE (check_required d (object_schema ps req) path) (\<lambda>_. bindE (checkE entry d) (\<lambda>_. Inr ()))"
    unfolding v by (subst validate_json_schema.simps)
      (simp add: check_const_enum_def entry_def check_size_def cong: json.case_cong)
  then show ?thesis using v
    by (auto simp: bindE_eq_Inr check_required_ok checkE_Inr entry)
qed

theorem validate_object_correct_witness:
  "\<forall>rs. validate_json_schema rs (JObj [(''path'', JStr ''a'')])
     (object_schema [(''path'', JObj [(''type'', JStr ''string'')])] [''path'']) ''args'' = Inr ()"
proof
  fix rs
  have "validate_json_schema rs (JStr ''a'') [(''type'', JStr ''string'')] p = Inr ()" for p
    by (subst validate_json_schema.simps)
       (simp add: check_const_enum_def check_type_def check_size_def check_string_def check_bounds_def
             is_JStr_def str_of_def as_int.simps jmem_def jget_def)
  then show "validate_json_schema rs (JObj [(''path'', JStr ''a'')])
     (object_schema [(''path'', JObj [(''type'', JStr ''string'')])] [''path'']) ''args'' = Inr ()"
    by (simp add: validate_object_correct jmem_def jget_def)
qed

definition args_failure :: "(exn, 'a) result \<Rightarrow> bool" where
  "args_failure r \<longleftrightarrow> (case r of Inr _ \<Rightarrow> True | Inl e \<Rightarrow> exn_class e = ToolArgumentsError)"

lemma args_failure_simps [simp]:
  "args_failure (Inr x)" "args_failure (schema_error p m)"
  by (simp_all add: args_failure_def schema_error_def)

lemma args_failure_bind [intro]:
  "args_failure r \<Longrightarrow> (\<And>x. r = Inr x \<Longrightarrow> args_failure (f x)) \<Longrightarrow> args_failure (bindE r f)"
  by (cases r) (simp_all add: args_failure_def)

lemma args_failure_loops:
  "(\<And>x. x \<in> set xs \<Longrightarrow> args_failure (f x)) \<Longrightarrow> args_failure (checkE f xs)"
  "(\<And>x. x \<in> set xs \<Longrightarrow> args_failure (g x)) \<Longrightarrow> args_failure (anyE g xs)"
  "(\<And>x. x \<in> set xs \<Longrightarrow> args_failure (h x)) \<Longrightarrow> args_failure (countE h xs)"
  by (induction xs) (auto intro!: args_failure_bind)

lemma args_failure_valid_of: "args_failure r \<Longrightarrow> args_failure (valid_of r)"
  by (cases r) (simp_all add: valid_of_def args_failure_def)

lemma args_failure_checks:
  "args_failure (check_size n schema path a b)" "args_failure (check_const_enum v schema path)"
  "args_failure (check_type v schema path)" "args_failure (check_required d schema path)"
  "args_failure (check_items_shape xs schema path)" "args_failure (check_bounds v schema path)"
  "args_failure (schema_list j path kw)"
proof -
  show size: "args_failure (check_size n schema path a b)" for n a b
    unfolding check_size_def by (intro args_failure_bind) (simp_all split: option.split)
  show "args_failure (check_const_enum v schema path)"
    unfolding check_const_enum_def by (intro args_failure_bind) (simp_all split: json.split)
  show "args_failure (check_type v schema path)"
    by (simp add: check_type_def Let_def split: json.split)
  show "args_failure (check_required d schema path)"
    by (simp add: check_required_def args_failure_loops split: json.split)
  show "args_failure (check_items_shape xs schema path)"
    unfolding check_items_shape_def by (intro args_failure_bind size) simp_all
  show "args_failure (check_bounds v schema path)" by (simp add: check_bounds_def Let_def)
  show "args_failure (schema_list j path kw)" by (simp add: schema_list_def split: json.split)
qed

lemma validate_args_failure:
  assumes "\<And>p s. args_failure (rs p s)"
  shows "args_failure (validate_json_schema rs v schema path)"
proof (induction "size (JObj schema)" arbitrary: v schema path rule: less_induct)
  case less
  then have IH: "size (JObj c) < size (JObj schema) \<Longrightarrow> args_failure (validate_json_schema rs w c p)" for w c p
    by blast
  show ?case
    by (subst validate_json_schema.simps)
       (intro args_failure_bind; auto intro!: args_failure_bind args_failure_loops args_failure_checks
          args_failure_valid_of IH dest: jget_obj_size schema_list_size property_size
          simp: check_string_def assms simp del: json.size split: json.split bool.split)
qed

end
