(* ===== verification/AgentTypes.thy ===== *)
theory AgentTypes
  imports Prog Models EventStream PyFormat Schema
begin

text \<open>
  The data of an agent run (\<^verbatim>\<open>src/pi_agent/agent/types.py\<close>, \<^verbatim>\<open>agent/events.py\<close>,
  \<^verbatim>\<open>agent/event_stream.py\<close>) and the state its asynchronous code works on.

  Everything outside the agent package is the \<^emph>\<open>world\<close>, a type variable \<open>'w\<close>: the
  provider, the tools, the hooks, the clock, the cancellation signal and the event sink read and
  change it.  A hook sees the values the code passes it; a hook that mutates the context object in
  place, instead of returning an update, is outside the model.
\<close>

section \<open>Messages and tools\<close>

datatype agent_message = LlmMsg message | AppMsg jobject

datatype execution_mode = Parallel | Sequential

record agent_tool_result =
  tr_content :: "content list"
  tr_details :: json
  tr_usage :: "usage option"
  tr_added_tool_names :: json
  tr_terminate :: bool
  tr_is_error :: bool

type_synonym ('w, 'a) hook = "'w \<Rightarrow> (exn + 'a) \<times> 'w"

text \<open>Executing a tool yields the progress reports it made and how it ended.\<close>

record 'w agent_tool =
  t_name :: string
  t_label :: string
  t_description :: string
  t_parameters :: jobject
  t_execute :: "string \<Rightarrow> jobject \<Rightarrow> 'w \<Rightarrow> (agent_tool_result list \<times> (exn + agent_tool_result)) \<times> 'w"
  t_prepare_arguments :: "(jobject \<Rightarrow> ('w, json) hook) option"
  t_execution_mode :: execution_mode
  t_timeout :: "pyfloat option"
  t_constrained_sampling :: json

definition tool_definition_of :: "'w agent_tool \<Rightarrow> tool_definition" where
  "tool_definition_of t =
     \<lparr>td_name = t_name t, td_description = t_description t, td_parameters = t_parameters t,
      td_constrained_sampling = t_constrained_sampling t\<rparr>"

record 'w agent_context =
  cx_system_prompt :: string
  cx_messages :: "agent_message list"
  cx_tools :: "'w agent_tool list"

section \<open>Hooks\<close>

record 'w before_tool_call_context =
  bc_assistant_message :: assistant_message
  bc_tool_call :: tool_call
  bc_args :: jobject
  bc_context :: "'w agent_context"

record before_tool_call_result =
  br_block :: bool
  br_reason :: "string option"
  br_terminate :: bool

record 'w after_tool_call_context =
  ac_assistant_message :: assistant_message
  ac_tool_call :: tool_call
  ac_args :: jobject
  ac_result :: agent_tool_result
  ac_is_error :: bool
  ac_context :: "'w agent_context"

text \<open>\<^verbatim>\<open>details\<close> is a JSON value whose \<^verbatim>\<open>None\<close> is \<open>JNull\<close>.\<close>

record after_tool_call_result =
  ar_content :: "content list option"
  ar_details :: json
  ar_replace_details :: bool
  ar_is_error :: "bool option"
  ar_usage :: "usage option"
  ar_replace_usage :: bool
  ar_terminate :: "bool option"

record 'w completed_turn_context =
  ct_message :: assistant_message
  ct_tool_results :: "tool_result_message list"
  ct_context :: "'w agent_context"
  ct_new_messages :: "agent_message list"

record 'w agent_loop_turn_update =
  tu_context :: "'w agent_context option"
  tu_model :: "model option"
  tu_thinking_level :: "string option"

record 'w agent_loop_config =
  cf_model :: model
  cf_convert_to_llm :: "agent_message list \<Rightarrow> ('w, agent_message list) hook"
  cf_transform_context :: "(agent_message list \<Rightarrow> ('w, agent_message list) hook) option"
  cf_get_api_key :: "(string \<Rightarrow> ('w, string option) hook) option"
  cf_get_steering_messages :: "('w, agent_message list) hook option"
  cf_get_follow_up_messages :: "('w, agent_message list) hook option"
  cf_should_stop_after_turn :: "('w completed_turn_context \<Rightarrow> ('w, bool) hook) option"
  cf_prepare_next_turn ::
    "('w completed_turn_context \<Rightarrow> ('w, 'w agent_loop_turn_update option) hook) option"
  cf_before_tool_call ::
    "('w before_tool_call_context \<Rightarrow> ('w, before_tool_call_result option) hook) option"
  cf_after_tool_call ::
    "('w after_tool_call_context \<Rightarrow> ('w, after_tool_call_result option) hook) option"
  cf_tool_execution :: execution_mode
  cf_thinking_level :: string
  cf_stream_options :: stream_options

section \<open>Events\<close>

datatype agent_event =
    AgentStartEvent
  | AgentEndEvent "agent_message list"
  | TurnStartEvent
  | TurnEndEvent assistant_message "tool_result_message list"
  | MessageStartEvent agent_message
  | MessageUpdateEvent assistant_message assistant_event
  | MessageEndEvent agent_message
  | ToolExecutionStartEvent string string jobject
  | ToolExecutionUpdateEvent string string jobject agent_tool_result
  | ToolExecutionEndEvent string string agent_tool_result bool jobject

type_synonym agent_stream = "(agent_event, agent_message list) event_stream"

fun is_agent_end :: "agent_event \<Rightarrow> bool" where
  "is_agent_end (AgentEndEvent _) = True" | "is_agent_end _ = False"

fun agent_end_messages :: "agent_event \<Rightarrow> agent_message list" where
  "agent_end_messages (AgentEndEvent ms) = ms" | "agent_end_messages _ = []"

section \<open>The environment of a run\<close>

text \<open>What a provider call returns: the events its stream yields, the exception iterating it raises
  (if any), whether it is marked done afterwards, and its result (\<open>None\<close> when it never
  resolves).\<close>

record provider_response =
  prs_events :: "assistant_event list"
  prs_failure :: "exn option"
  prs_done :: bool
  prs_result :: "assistant_message option"

text \<open>\<open>ev_cancelled\<close> is the reason of the active cancellation signal, if it is set;
  \<open>ev_sink\<close> the awaited event sink (\<open>None\<close> when events are buffered in the stream);
  \<open>ev_schedule\<close> the order in which the event loop lets the concurrent tool tasks of a batch
  make progress; \<open>ev_re_search\<close> Python's \<^verbatim>\<open>re.search\<close>.\<close>

record 'w environment =
  ev_stream_fn :: "model \<Rightarrow> provider_context \<Rightarrow> stream_options \<Rightarrow> ('w, provider_response) hook"
  ev_sink :: "(agent_event \<Rightarrow> ('w, unit) hook) option"
  ev_cancelled :: "'w \<Rightarrow> string option"
  ev_clock :: "'w \<Rightarrow> int \<times> 'w"
  ev_schedule :: "'w \<Rightarrow> nat list"
  ev_re_search :: "string \<Rightarrow> string \<Rightarrow> (exn, bool) result"

text \<open>The state of a run: the world, the events emitted so far (in order), the stream object, the
  runtime context, and the list of new messages.\<close>

record 'w run_state =
  rs_world :: 'w
  rs_trace :: "agent_event list"
  rs_stream :: agent_stream
  rs_context :: "'w agent_context"
  rs_new :: "agent_message list"

section \<open>Primitive steps\<close>

definition hook :: "('w, 'a) hook \<Rightarrow> ('w run_state, 'a) prog" where
  "hook h s = (case h (rs_world s) of (r, w) \<Rightarrow> Some (r, s\<lparr>rs_world := w\<rparr>))"

definition now :: "'w environment \<Rightarrow> ('w run_state, int) prog" where
  "now env s = (case ev_clock env (rs_world s) of (t, w) \<Rightarrow> Some (Inr t, s\<lparr>rs_world := w\<rparr>))"

text \<open>\<^verbatim>\<open>AgentEventStream.emit\<close>: buffer the event when there is no sink, otherwise await the
  sink and close the stream after \<open>agent_end\<close>.\<close>

definition emit :: "'w environment \<Rightarrow> agent_event \<Rightarrow> ('w run_state, unit) prog" where
  "emit env ev s =
     (let s1 = s\<lparr>rs_trace := rs_trace s @ [ev]\<rparr> in
      case ev_sink env of
        None \<Rightarrow>
          Some (Inr (), s1\<lparr>rs_stream := stream_push is_agent_end agent_end_messages ev (rs_stream s)\<rparr>)
      | Some sink \<Rightarrow>
          (case sink ev (rs_world s) of
             (Inl e, w) \<Rightarrow> Some (Inl e, s1\<lparr>rs_world := w\<rparr>)
           | (Inr _, w) \<Rightarrow>
               Some (Inr (), s1\<lparr>rs_world := w, rs_stream :=
                 (if is_agent_end ev then stream_end (Some (agent_end_messages ev)) (rs_stream s)
                  else rs_stream s)\<rparr>)))"

definition cancelled :: "'w environment \<Rightarrow> 'w run_state \<Rightarrow> bool" where
  "cancelled env s \<longleftrightarrow> ev_cancelled env (rs_world s) \<noteq> None"

definition raise_if_cancelled :: "'w environment \<Rightarrow> ('w run_state, unit) prog" where
  "raise_if_cancelled env s = (case ev_cancelled env (rs_world s) of
     None \<Rightarrow> Some (Inr (), s) | Some reason \<Rightarrow> Some (Inl (Exn CancelledError reason), s))"

definition put_context :: "agent_message \<Rightarrow> ('w run_state, unit) prog" where
  "put_context m = modS (\<lambda>s. s\<lparr>rs_context := (rs_context s)\<lparr>cx_messages := cx_messages (rs_context s) @ [m]\<rparr>\<rparr>)"

definition put_new :: "agent_message \<Rightarrow> ('w run_state, unit) prog" where
  "put_new m = modS (\<lambda>s. s\<lparr>rs_new := rs_new s @ [m]\<rparr>)"

text \<open>\<^verbatim>\<open>context.messages[i] = m\<close> and \<^verbatim>\<open>new_messages[-1] = m\<close>.\<close>

definition set_context :: "nat \<Rightarrow> agent_message \<Rightarrow> ('w run_state, unit) prog" where
  "set_context i m =
     modS (\<lambda>s. s\<lparr>rs_context := (rs_context s)\<lparr>cx_messages := (cx_messages (rs_context s))[i := m]\<rparr>\<rparr>)"

definition set_last_new :: "agent_message \<Rightarrow> ('w run_state, unit) prog" where
  "set_last_new m = modS (\<lambda>s. s\<lparr>rs_new := butlast (rs_new s) @ [m]\<rparr>)"

definition maybe_hook :: "('w, 'a) hook option \<Rightarrow> 'a \<Rightarrow> ('w run_state, 'a) prog" where
  "maybe_hook h d = (case h of None \<Rightarrow> ret d | Some f \<Rightarrow> hook f)"

lemma hook_returns [simp]: "returns (hook h) s"
  by (simp add: returns_def hook_def split: prod.split)

lemma now_returns [simp]: "returns (now env) s"
  by (simp add: returns_def now_def split: prod.split)

lemma emit_returns [simp]: "returns (emit env ev) s"
  by (simp add: returns_def emit_def Let_def split: option.split prod.split sum.split)

lemma raise_if_cancelled_returns [simp]: "returns (raise_if_cancelled env) s"
  by (simp add: returns_def raise_if_cancelled_def split: option.split)

lemma put_returns [simp]:
  "returns (put_context m) s" "returns (put_new m) s" "returns (set_context i m) s"
  "returns (set_last_new m) s"
  by (simp_all add: put_context_def put_new_def set_context_def set_last_new_def)

lemma maybe_hook_returns [simp]: "returns (maybe_hook h d) s"
  by (simp add: maybe_hook_def split: option.split)

section \<open>Weakest preconditions of the primitive steps\<close>

lemma wp_hook [wp_simps]:
  "wp (hook h) Q E s = (case h (rs_world s) of
     (Inl e, w) \<Rightarrow> E e (s\<lparr>rs_world := w\<rparr>) | (Inr x, w) \<Rightarrow> Q x (s\<lparr>rs_world := w\<rparr>))"
  by (simp add: wp_def hook_def split: prod.split sum.split)

lemma wp_now [wp_simps]:
  "wp (now env) Q E s = (case ev_clock env (rs_world s) of (t, w) \<Rightarrow> Q t (s\<lparr>rs_world := w\<rparr>))"
  by (simp add: wp_def now_def split: prod.split)

lemma wp_raise_if_cancelled [wp_simps]:
  "wp (raise_if_cancelled env) Q E s = (case ev_cancelled env (rs_world s) of
     None \<Rightarrow> Q () s | Some reason \<Rightarrow> E (Exn CancelledError reason) s)"
  by (simp add: wp_def raise_if_cancelled_def split: option.split)

lemma wp_maybe_hook [wp_simps]:
  "wp (maybe_hook h d) Q E s = (case h of None \<Rightarrow> Q d s | Some f \<Rightarrow> wp (hook f) Q E s)"
  by (simp add: maybe_hook_def wp_simps split: option.split)

lemma wp_put [wp_simps]:
  "wp (put_context m) Q E s =
     Q () (s\<lparr>rs_context := (rs_context s)\<lparr>cx_messages := cx_messages (rs_context s) @ [m]\<rparr>\<rparr>)"
  "wp (put_new m) Q E s = Q () (s\<lparr>rs_new := rs_new s @ [m]\<rparr>)"
  "wp (set_context i m) Q E s =
     Q () (s\<lparr>rs_context := (rs_context s)\<lparr>cx_messages := (cx_messages (rs_context s))[i := m]\<rparr>\<rparr>)"
  "wp (set_last_new m) Q E s = Q () (s\<lparr>rs_new := butlast (rs_new s) @ [m]\<rparr>)"
  by (simp_all add: put_context_def put_new_def set_context_def set_last_new_def wp_simps)

text \<open>What emitting an event does to an open stream: \<open>agent_end\<close> closes it with its messages, and
  nothing else does.\<close>

definition stream_open :: "agent_stream \<Rightarrow> bool" where
  "stream_open st \<longleftrightarrow> \<not> es_done st \<and> es_result st = None"

definition after_emit :: "agent_event \<Rightarrow> agent_stream \<Rightarrow> agent_stream \<Rightarrow> bool" where
  "after_emit ev st st' \<longleftrightarrow> (stream_open st \<longrightarrow>
     (if is_agent_end ev then es_done st' \<and> es_result st' = Some (agent_end_messages ev)
      else stream_open st'))"

lemma after_emit_push: "after_emit ev st (stream_push is_agent_end agent_end_messages ev st)"
  by (auto simp: after_emit_def stream_open_def push_fields)

lemma after_emit_end: "is_agent_end ev \<Longrightarrow> after_emit ev st (stream_end (Some (agent_end_messages ev)) st)"
  by (simp add: after_emit_def stream_open_def stream_end_def)

lemma after_emit_same: "\<not> is_agent_end ev \<Longrightarrow> after_emit ev st st"
  by (simp add: after_emit_def)

text \<open>A sink that never raises; the buffered stream is one.\<close>

definition quiet_sink :: "'w environment \<Rightarrow> bool" where
  "quiet_sink env \<longleftrightarrow> (case ev_sink env of None \<Rightarrow> True
     | Some sink \<Rightarrow> (\<forall>ev w. isInr (fst (sink ev w))))"

lemma emit_cases:
  "(\<exists>w st. after_emit ev (rs_stream s) st \<and>
      emit env ev s = Some (Inr (), s\<lparr>rs_trace := rs_trace s @ [ev], rs_world := w, rs_stream := st\<rparr>)) \<or>
   (\<exists>e w sink. ev_sink env = Some sink \<and> sink ev (rs_world s) = (Inl e, w) \<and>
      emit env ev s = Some (Inl e, s\<lparr>rs_trace := rs_trace s @ [ev], rs_world := w\<rparr>))"
proof (cases "ev_sink env")
  case None
  then have "emit env ev s = Some (Inr (), s\<lparr>rs_trace := rs_trace s @ [ev], rs_world := rs_world s,
      rs_stream := stream_push is_agent_end agent_end_messages ev (rs_stream s)\<rparr>)"
    by (simp add: emit_def Let_def)
  with after_emit_push show ?thesis by blast
next
  case (Some sink)
  obtain r w where r: "sink ev (rs_world s) = (r, w)" by (cases "sink ev (rs_world s)")
  show ?thesis
  proof (cases r)
    case (Inl e)
    with Some r have "emit env ev s = Some (Inl e, s\<lparr>rs_trace := rs_trace s @ [ev], rs_world := w\<rparr>)"
      by (simp add: emit_def Let_def)
    with Some r Inl show ?thesis by blast
  next
    case (Inr u)
    with Some r have "emit env ev s = Some (Inr (), s\<lparr>rs_trace := rs_trace s @ [ev], rs_world := w,
      rs_stream := (if is_agent_end ev then stream_end (Some (agent_end_messages ev)) (rs_stream s)
                    else rs_stream s)\<rparr>)"
      by (simp add: emit_def Let_def)
    moreover have "after_emit ev (rs_stream s)
       (if is_agent_end ev then stream_end (Some (agent_end_messages ev)) (rs_stream s) else rs_stream s)"
      using after_emit_end after_emit_same by simp
    ultimately show ?thesis by blast
  qed
qed

lemma emit_quiet:
  assumes "quiet_sink env"
  shows "\<exists>w st. after_emit ev (rs_stream s) st \<and>
      emit env ev s = Some (Inr (), s\<lparr>rs_trace := rs_trace s @ [ev], rs_world := w, rs_stream := st\<rparr>)"
  using emit_cases [of ev s env]
proof
  assume "\<exists>e w sink. ev_sink env = Some sink \<and> sink ev (rs_world s) = (Inl e, w) \<and>
      emit env ev s = Some (Inl e, s\<lparr>rs_trace := rs_trace s @ [ev], rs_world := w\<rparr>)"
  then obtain e w sink where "ev_sink env = Some sink" "sink ev (rs_world s) = (Inl e, w)" by blast
  with assms have False unfolding quiet_sink_def by (metis fst_conv isInr_simps(1) option.simps(5))
  then show ?thesis ..
qed

lemma wp_emit_quiet:
  assumes "quiet_sink env"
    and "\<And>w st. after_emit ev (rs_stream s) st \<Longrightarrow>
      Q () (s\<lparr>rs_trace := rs_trace s @ [ev], rs_world := w, rs_stream := st\<rparr>)"
  shows "wp (emit env ev) Q E s"
  using emit_quiet [OF assms(1), of ev s] assms(2) by (auto simp: wp_def)

lemma wp_emit:
  assumes "\<And>w st. after_emit ev (rs_stream s) st \<Longrightarrow>
      Q () (s\<lparr>rs_trace := rs_trace s @ [ev], rs_world := w, rs_stream := st\<rparr>)"
    and "\<And>e w. E e (s\<lparr>rs_trace := rs_trace s @ [ev], rs_world := w\<rparr>)"
  shows "wp (emit env ev) Q E s"
  using emit_cases [of ev s env] assms by (auto simp: wp_def)

end
