(* ===== verification/Compaction.thy ===== *)
theory Compaction
  imports JsonText SessionContext AgentTypes
begin

text \<open>
  Compaction of a conversation (\<^verbatim>\<open>src/pi_agent/harness/compaction/\<close>): the token estimate,
  where a conversation may be cut, the summary with its retries, and the gate in front of the
  provider.  The summarizer and the two hooks are functions of a world; the world also stands for
  whatever else happens while they are awaited, except that the session is only changed by the
  compaction itself.
\<close>

section \<open>Token estimates\<close>

definition MESSAGE_OVERHEAD_TOKENS :: nat where "MESSAGE_OVERHEAD_TOKENS = 4"
definition IMAGE_ESTIMATE_TOKENS :: nat where "IMAGE_ESTIMATE_TOKENS = 1024"

text \<open>A string is its UTF-8 bytes.\<close>

definition estimate_text_tokens :: "string \<Rightarrow> nat" where
  "estimate_text_tokens s = (if s = [] then 0 else max 1 ((length s + 3) div 4))"

fun estimate_content :: "content \<Rightarrow> nat" where
  "estimate_content (TextContent s _) = estimate_text_tokens s"
| "estimate_content (ThinkingContent s _ _) = estimate_text_tokens s"
| "estimate_content (ImageContent _ _) = IMAGE_ESTIMATE_TOKENS"
| "estimate_content (ToolCallContent c) =
     estimate_text_tokens (tc_name c) +
     estimate_text_tokens (json_dumps compact_style (JObj (tc_arguments c)))"

definition estimate_contents :: "content list \<Rightarrow> nat" where
  "estimate_contents cs = sum_list (map estimate_content cs)"

fun estimate_message_tokens :: "message \<Rightarrow> nat" where
  "estimate_message_tokens (UserMessage m) = MESSAGE_OVERHEAD_TOKENS +
     (case um_content m of UserText s \<Rightarrow> estimate_text_tokens s | UserBlocks bs \<Rightarrow> estimate_contents bs)"
| "estimate_message_tokens (AssistantMessage m) = MESSAGE_OVERHEAD_TOKENS + estimate_contents (am_content m)"
| "estimate_message_tokens (ToolResultMessage m) =
     MESSAGE_OVERHEAD_TOKENS + estimate_text_tokens (trm_tool_name m) + estimate_contents (trm_content m) +
     (if truthy (trm_details m) then estimate_text_tokens (json_dumps sorted_style (trm_details m)) else 0)"

definition estimate_context_tokens :: "message list \<Rightarrow> nat" where
  "estimate_context_tokens ms = sum_list (map estimate_message_tokens ms)"

definition reported_tokens :: "assistant_message \<Rightarrow> int" where
  "reported_tokens m = u_input (am_usage m) + u_output (am_usage m) + u_cache_read (am_usage m)
     + u_cache_write (am_usage m)"

text \<open>The loop from the last message: the latest assistant message that reports its usage.\<close>

fun reported_scan :: "message list \<Rightarrow> nat \<Rightarrow> int option" where
  "reported_scan ms 0 = None"
| "reported_scan ms (Suc i) =
     (case ms ! i of
        AssistantMessage m \<Rightarrow>
          if reported_tokens m \<le> 0 then reported_scan ms i
          else Some (reported_tokens m + int (estimate_context_tokens (drop (Suc i) ms)))
      | _ \<Rightarrow> reported_scan ms i)"

definition calculate_context_tokens :: "message list \<Rightarrow> int" where
  "calculate_context_tokens ms =
     (case reported_scan ms (length ms) of Some n \<Rightarrow> n | None \<Rightarrow> int (estimate_context_tokens ms))"

section \<open>Settings\<close>

record compaction_settings =
  cs_context_window :: int
  cs_reserve_tokens :: int
  cs_keep_recent_tokens :: int
  cs_summary_prefix :: string
  cs_max_attempts :: int

definition check_settings :: "compaction_settings \<Rightarrow> (exn, unit) result" where
  "check_settings c =
     (if cs_context_window c \<le> 0 then Inl (Exn ValueError ''context_window must be positive'')
      else if cs_reserve_tokens c < 0 then Inl (Exn ValueError ''reserve_tokens must be non-negative'')
      else if cs_keep_recent_tokens c \<le> 0 then Inl (Exn ValueError ''keep_recent_tokens must be positive'')
      else if cs_reserve_tokens c \<ge> cs_context_window c
      then Inl (Exn ValueError ''reserve_tokens must be smaller than context_window'')
      else if cs_max_attempts c \<le> 0 then Inl (Exn ValueError ''max_attempts must be positive'')
      else Inr ())"

definition threshold :: "compaction_settings \<Rightarrow> int" where
  "threshold c = cs_context_window c - cs_reserve_tokens c"

definition should_compact :: "message list \<Rightarrow> compaction_settings \<Rightarrow> bool" where
  "should_compact ms c \<longleftrightarrow> calculate_context_tokens ms \<ge> threshold c"

section \<open>Where to cut\<close>

fun is_user :: "message \<Rightarrow> bool" where
  "is_user (UserMessage _) = True" | "is_user _ = False"

fun turn_start_loop :: "message list \<Rightarrow> nat \<Rightarrow> nat" where
  "turn_start_loop ms 0 = 0"
| "turn_start_loop ms (Suc i) = (if is_user (ms ! i) then i else turn_start_loop ms i)"

definition find_turn_start_index :: "message list \<Rightarrow> int \<Rightarrow> (exn, nat) result" where
  "find_turn_start_index ms i =
     (if \<not> (0 \<le> i \<and> i \<le> int (length ms)) then Inl (Exn IndexError (py_str_int i))
      else if ms = [] then Inr 0
      else Inr (turn_start_loop ms (Suc (min (nat i) (length ms - 1)))))"

definition call_ids :: "assistant_message \<Rightarrow> string list" where
  "call_ids m = concat (map (\<lambda>b. case b of ToolCallContent c \<Rightarrow> [tc_id c] | _ \<Rightarrow> []) (am_content m))"

text \<open>The calls without a result so far; a list stands for the set.\<close>

fun pending_step :: "message \<Rightarrow> string list \<Rightarrow> string list" where
  "pending_step (AssistantMessage m) p = p @ call_ids m"
| "pending_step (ToolResultMessage m) p = removeAll (trm_tool_call_id m) p"
| "pending_step (UserMessage m) p = p"

fun safe_loop :: "nat \<Rightarrow> string list \<Rightarrow> message list \<Rightarrow> nat list" where
  "safe_loop i p [] = []"
| "safe_loop i p (m # ms) =
     (let p' = pending_step m p in (if p' = [] then [Suc i] else []) @ safe_loop (Suc i) p' ms)"

definition safe_cut_indices :: "message list \<Rightarrow> nat list" where
  "safe_cut_indices ms = rev (remdups (rev (0 # safe_loop 0 [] ms)))"

text \<open>The walk back from the end until the recent tokens reach the budget.\<close>

fun cut_walk :: "message list \<Rightarrow> nat list \<Rightarrow> int \<Rightarrow> nat \<Rightarrow> nat \<Rightarrow> nat option" where
  "cut_walk ms candidates keep 0 acc = None"
| "cut_walk ms candidates keep (Suc i) acc =
     (let acc' = acc + estimate_context_tokens [ms ! i] in
      if int acc' < keep then cut_walk ms candidates keep i acc'
      else Some (case find (\<lambda>c. i \<le> c) candidates of None \<Rightarrow> length ms | Some c \<Rightarrow> c))"

definition find_cut_point :: "message list \<Rightarrow> int \<Rightarrow> (exn, nat \<times> bool) result" where
  "find_cut_point ms keep =
     (let candidates = filter (\<lambda>i. 0 < i \<and> i < length ms) (safe_cut_indices ms) in
      if ms = [] \<or> candidates = [] then Inr (0, False)
      else
        let chosen = (case cut_walk ms candidates keep (length ms) 0 of
                        None \<Rightarrow> hd candidates | Some c \<Rightarrow> c) in
        bindE (find_turn_start_index ms (int chosen)) (\<lambda>turn_start.
        let final = (if chosen < length ms \<and> turn_start > 0 \<and> turn_start \<in> set candidates
                        \<and> int (estimate_context_tokens (drop turn_start ms)) \<le> keep
                     then turn_start else chosen)
        in Inr (final, final = length ms \<or> \<not> is_user (ms ! final))))"

section \<open>File operations\<close>

record file_operations =
  fo_read :: "string list"
  fo_modified :: "string list"

fun path_from_keys :: "string list \<Rightarrow> jobject \<Rightarrow> string option" where
  "path_from_keys [] d = None"
| "path_from_keys (k # ks) d =
     (case jget d k of JStr (c # s) \<Rightarrow> Some (c # s) | _ \<Rightarrow> path_from_keys ks d)"

definition path_from_mapping :: "jobject \<Rightarrow> string option" where
  "path_from_mapping = path_from_keys [''path'', ''file'', ''file_path'', ''filePath'']"

definition READ_OPERATIONS :: "string list" where
  "READ_OPERATIONS = [''read'', ''grep'', ''find'', ''ls'']"

definition MODIFY_OPERATIONS :: "string list" where
  "MODIFY_OPERATIONS = [''write'', ''edit'', ''patch'', ''apply_patch'']"

text \<open>The sets of paths read and modified, as lists; they are sorted at the end.\<close>

type_synonym touched = "string list \<times> string list"

definition touch :: "string \<Rightarrow> string \<Rightarrow> touched \<Rightarrow> touched" where
  "touch op path t =
     (if op \<in> set READ_OPERATIONS then (List.insert path (fst t), snd t)
      else if op \<in> set MODIFY_OPERATIONS then (fst t, List.insert path (snd t)) else t)"

definition touch_call :: "content \<Rightarrow> touched \<Rightarrow> touched" where
  "touch_call b t = (case b of
       ToolCallContent c \<Rightarrow>
         (case path_from_mapping (tc_arguments c) of
            None \<Rightarrow> t | Some path \<Rightarrow> touch (lower (tc_name c)) path t)
     | _ \<Rightarrow> t)"

definition touch_files :: "string \<Rightarrow> json list \<Rightarrow> touched \<Rightarrow> touched" where
  "touch_files op fs t =
     (let names = concat (map (\<lambda>f. case f of JStr s \<Rightarrow> [s] | _ \<Rightarrow> []) fs) in
      if op \<in> set MODIFY_OPERATIONS then (fst t, fold List.insert names (snd t))
      else (fold List.insert names (fst t), snd t))"

definition touch_result :: "string \<Rightarrow> jobject \<Rightarrow> touched \<Rightarrow> touched" where
  "touch_result name d t =
     (let op = lower (py_str (jget_or d ''operation'' (JStr name)));
          t1 = (case path_from_mapping d of None \<Rightarrow> t | Some path \<Rightarrow> touch op path t)
      in case jget d ''files'' of JArr fs \<Rightarrow> touch_files op fs t1 | _ \<Rightarrow> t1)"

fun touch_message :: "message \<Rightarrow> touched \<Rightarrow> touched" where
  "touch_message (AssistantMessage m) t = fold touch_call (am_content m) t"
| "touch_message (ToolResultMessage m) t =
     (case trm_details m of JObj d \<Rightarrow> touch_result (trm_tool_name m) d t | _ \<Rightarrow> t)"
| "touch_message (UserMessage m) t = t"

definition collect_file_operations :: "message list \<Rightarrow> file_operations" where
  "collect_file_operations ms =
     (case fold touch_message ms ([], []) of (r, m) \<Rightarrow> \<lparr>fo_read = sort r, fo_modified = sort m\<rparr>)"

section \<open>Preparation\<close>

record compaction_preparation =
  cp_messages_to_summarize :: "message list"
  cp_messages_to_keep :: "message list"
  cp_cut_index :: nat
  cp_estimated_tokens :: int
  cp_kept_tokens :: nat
  cp_split_turn :: bool
  cp_previous_summary :: "string option"
  cp_file_operations :: file_operations

definition prepare_compaction ::
  "message list \<Rightarrow> compaction_settings \<Rightarrow> string option \<Rightarrow> bool \<Rightarrow> (exn, compaction_preparation) result" where
  "prepare_compaction ms c previous force =
     (let estimated = calculate_context_tokens ms in
      if \<not> force \<and> estimated < threshold c then
        Inl (Exn CompactionError (''context does not require compaction: '' @ py_str_int estimated @ '' < ''
          @ py_str_int (threshold c) @ '' tokens''))
      else bindE (find_cut_point ms (cs_keep_recent_tokens c)) (\<lambda>(cut, split).
        if cut = 0 then Inl (Exn CompactionError ''no safe compaction cut point is available'')
        else Inr \<lparr>cp_messages_to_summarize = take cut ms, cp_messages_to_keep = drop cut ms,
                  cp_cut_index = cut, cp_estimated_tokens = estimated,
                  cp_kept_tokens = estimate_context_tokens (drop cut ms), cp_split_turn = split,
                  cp_previous_summary = previous,
                  cp_file_operations = collect_file_operations (take cut ms)\<rparr>))"

definition serialize_conversation :: "message list \<Rightarrow> string" where
  "serialize_conversation ms =
     join_with (CHR 0x0A) (map (\<lambda>m. json_dumps sorted_style (JObj (message_to_dict m))) ms)"

section \<open>Summaries\<close>

record summary_response =
  sr_text :: string
  sr_usage :: usage

datatype summary_reply = Reply summary_response | RawReply string

type_synonym 'w summarizer = "string \<Rightarrow> string option \<Rightarrow> ('w, summary_reply) hook"

fun as_response :: "summary_reply \<Rightarrow> summary_response" where
  "as_response (Reply r) = r"
| "as_response (RawReply s) = \<lparr>sr_text = s, sr_usage = usage_zero\<rparr>"

definition empty_summary :: exn where
  "empty_summary = Exn CompactionError ''summarizer returned an empty summary''"

text \<open>The \<^verbatim>\<open>for\<close> loop over the attempts: the attempts left and made, the last response, and
  the last error.\<close>

fun summary_loop ::
  "nat \<Rightarrow> nat \<Rightarrow> 'w summarizer \<Rightarrow> string \<Rightarrow> string option \<Rightarrow> summary_response option \<Rightarrow> exn option
     \<Rightarrow> ('w, summary_response option \<times> nat \<times> exn option) prog" where
  "summary_loop 0 k summarizer conv previous resp err = ret (resp, k, err)"
| "summary_loop (Suc n) k summarizer conv previous resp err = (\<lambda>w.
     case summarizer conv previous w of
       (Inl e, w') \<Rightarrow>
         if exn_class e = CancelledError then Some (Inl e, w')
         else summary_loop n (Suc k) summarizer conv previous resp (Some e) w'
     | (Inr raw, w') \<Rightarrow>
         let r = as_response raw in
         if strip (sr_text r) = []
         then summary_loop n (Suc k) summarizer conv previous (Some r) (Some empty_summary) w'
         else Some (Inr (Some r, Suc k, err), w'))"

record before_compaction_decision =
  bd_cancel :: bool
  bd_preparation :: "compaction_preparation option"

record compaction_result =
  cr_summary :: string
  cr_active_messages :: "message list"
  cr_cut_index :: nat
  cr_tokens_before :: int
  cr_tokens_after :: nat
  cr_split_turn :: bool
  cr_usage :: usage
  cr_file_operations :: file_operations
  cr_attempts :: nat

definition call_hook :: "('w, 'a) hook \<Rightarrow> ('w, 'a) prog" where
  "call_hook h w = Some (h w)"

definition before_hook ::
  "(compaction_preparation \<Rightarrow> ('w, before_compaction_decision) hook) option \<Rightarrow> compaction_preparation
     \<Rightarrow> ('w, compaction_preparation) prog" where
  "before_hook before p =
     (case before of
        None \<Rightarrow> ret p
      | Some f \<Rightarrow> bnd (call_hook (f p)) (\<lambda>d.
          if bd_cancel d then raise_exn (Exn CompactionCancelled ''compaction was cancelled by a before hook'')
          else ret (case bd_preparation d of None \<Rightarrow> p | Some p' \<Rightarrow> p')))"

definition finish_compaction ::
  "compaction_settings \<Rightarrow> compaction_preparation \<Rightarrow> summary_response \<Rightarrow> nat \<Rightarrow> int \<Rightarrow> compaction_result" where
  "finish_compaction c p r attempts t =
     (let active = user_text (cs_summary_prefix c @ strip (sr_text r)) t # cp_messages_to_keep p in
      \<lparr>cr_summary = strip (sr_text r), cr_active_messages = active, cr_cut_index = cp_cut_index p,
       cr_tokens_before = cp_estimated_tokens p, cr_tokens_after = estimate_context_tokens active,
       cr_split_turn = cp_split_turn p, cr_usage = sr_usage r,
       cr_file_operations = cp_file_operations p, cr_attempts = attempts\<rparr>)"

text \<open>\<open>t\<close> is the timestamp of the summary message.\<close>

definition compact ::
  "message list \<Rightarrow> compaction_settings \<Rightarrow> 'w summarizer \<Rightarrow> string option \<Rightarrow> bool
     \<Rightarrow> (compaction_preparation \<Rightarrow> ('w, before_compaction_decision) hook) option
     \<Rightarrow> (compaction_result \<Rightarrow> ('w, compaction_result) hook) option \<Rightarrow> int
     \<Rightarrow> ('w, compaction_result) prog" where
  "compact ms c summarizer previous force before after t =
     bnd (of_result (prepare_compaction ms c previous force)) (\<lambda>p0.
     bnd (before_hook before p0) (\<lambda>p.
     bnd (summary_loop (nat (cs_max_attempts c)) 0 summarizer
            (serialize_conversation (cp_messages_to_summarize p)) (cp_previous_summary p) None None)
       (\<lambda>(resp, attempts, err).
        case resp of
          None \<Rightarrow> raise_exn (Exn CompactionError (''summary generation failed after ''
            @ py_str_int (int attempts) @ '' attempts: ''
            @ (case err of None \<Rightarrow> ''None'' | Some e \<Rightarrow> exn_text e)))
        | Some r \<Rightarrow>
            let res = finish_compaction c p r attempts t in
            (case after of None \<Rightarrow> ret res | Some f \<Rightarrow> call_hook (f res)))))"

section \<open>Compacting a session\<close>

definition usage_dict :: "usage \<Rightarrow> jobject" where
  "usage_dict u =
     [(''input'', JInt (u_input u)), (''output'', JInt (u_output u)),
      (''cacheRead'', JInt (u_cache_read u)), (''cacheWrite'', JInt (u_cache_write u)),
      (''totalTokens'', JInt (u_total_tokens u)),
      (''cost'', JObj [(''input'', JFloat (uc_input (u_cost u))), (''output'', JFloat (uc_output (u_cost u))),
         (''cacheRead'', JFloat (uc_cache_read (u_cost u))), (''cacheWrite'', JFloat (uc_cache_write (u_cost u))),
         (''total'', JFloat (uc_total (u_cost u)))])]"

definition compaction_details :: "compaction_result \<Rightarrow> jobject" where
  "compaction_details r =
     [(''splitTurn'', JBool (cr_split_turn r)), (''attempts'', JInt (int (cr_attempts r))),
      (''usage'', JObj (usage_dict (cr_usage r))),
      (''fileOperations'', JObj [(''read'', JArr (map JStr (fo_read (cr_file_operations r)))),
         (''modified'', JArr (map JStr (fo_modified (cr_file_operations r))))])]"

definition message_entries :: "tree_entry list \<Rightarrow> (tree_entry \<times> message) list" where
  "message_entries es = concat (map (\<lambda>e. case e_body e of MessageEntry m \<Rightarrow> [(e, m)] | _ \<Rightarrow> []) es)"

definition latest_summary :: "tree_entry list \<Rightarrow> string option" where
  "latest_summary es =
     (case concat (map (\<lambda>e. case e_body e of CompactionEntry c \<Rightarrow> [c_summary c] | _ \<Rightarrow> []) (rev es)) of
        [] \<Rightarrow> None | s # _ \<Rightarrow> Some s)"

text \<open>Programs over a session manager and a world.\<close>

definition in_world :: "('w, 'a) prog \<Rightarrow> ('s manager \<times> 'w, 'a) prog" where
  "in_world f s = (case f (snd s) of None \<Rightarrow> None | Some (r, w) \<Rightarrow> Some (r, (fst s, w)))"

definition in_manager :: "('s manager \<Rightarrow> (exn, 'a) result \<times> 's manager) \<Rightarrow> ('s manager \<times> 'w, 'a) prog" where
  "in_manager f s = (case f (fst s) of (r, m) \<Rightarrow> Some (r, (m, snd s)))"

definition first_kept_id :: "(tree_entry \<times> message) list \<Rightarrow> nat \<Rightarrow> string option" where
  "first_kept_id mes k = (if k < length mes then Some (e_id (fst (mes ! k))) else None)"

definition compact_session ::
  "'s loader \<Rightarrow> 's appender \<Rightarrow> string \<Rightarrow> int \<Rightarrow> compaction_settings \<Rightarrow> 'w summarizer \<Rightarrow> bool
     \<Rightarrow> (compaction_preparation \<Rightarrow> ('w, before_compaction_decision) hook) option
     \<Rightarrow> (compaction_result \<Rightarrow> ('w, compaction_result) hook) option
     \<Rightarrow> ('s manager \<times> 'w, tree_entry \<times> compaction_result) prog" where
  "compact_session load app fresh tm c summarizer force before after =
     bnd (in_manager (\<lambda>m. (active_entries m, m))) (\<lambda>es.
     let mes = message_entries es in
     bnd (in_world (compact (map snd mes) c summarizer
            (latest_summary es) force before after tm)) (\<lambda>r.
     bnd (in_manager (\<lambda>m. append_compaction load app None fresh tm m (cr_summary r)
            (first_kept_id mes (cr_cut_index r)) (cr_tokens_before r) (int (cr_tokens_after r))
            (Some (compaction_details r)))) (\<lambda>e.
     ret (e, r))))"

section \<open>The gate before a provider call\<close>

record compaction_decision =
  dc_compacted :: bool
  dc_messages :: "message list"
  dc_entry :: "tree_entry option"
  dc_result :: "compaction_result option"

definition session_messages :: "compaction_settings \<Rightarrow> int \<Rightarrow> 's manager \<Rightarrow> (exn, message list) result" where
  "session_messages c tm m =
     bindE (active_path (m_tree m)) (\<lambda>p.
     bindE (reconstruct_context p (cs_summary_prefix c) DEFAULT_BRANCH_SUMMARY_PREFIX tm) (\<lambda>r.
     Inr (rc_messages r)))"

text \<open>The lock only matters for calls that run concurrently; the context is rebuilt inside it, and
  in a single call nothing has changed by then.\<close>

definition prepare_next_provider_context ::
  "'s loader \<Rightarrow> 's appender \<Rightarrow> string \<Rightarrow> int \<Rightarrow> compaction_settings \<Rightarrow> 'w summarizer
     \<Rightarrow> (compaction_preparation \<Rightarrow> ('w, before_compaction_decision) hook) option
     \<Rightarrow> (compaction_result \<Rightarrow> ('w, compaction_result) hook) option
     \<Rightarrow> ('s manager \<times> 'w, compaction_decision) prog" where
  "prepare_next_provider_context load app fresh tm c summarizer before after =
     bnd (in_manager (\<lambda>m. (session_messages c tm m, m))) (\<lambda>current.
     if \<not> should_compact current c then
       ret \<lparr>dc_compacted = False, dc_messages = current, dc_entry = None, dc_result = None\<rparr>
     else
       bnd (in_manager (\<lambda>m. (session_messages c tm m, m))) (\<lambda>latest.
       if \<not> should_compact latest c then
         ret \<lparr>dc_compacted = False, dc_messages = latest, dc_entry = None, dc_result = None\<rparr>
       else
         bnd (compact_session load app fresh tm c summarizer False before after) (\<lambda>er.
         bnd (in_manager (\<lambda>m. (session_messages c tm m, m))) (\<lambda>rebuilt.
         ret \<lparr>dc_compacted = True, dc_messages = rebuilt, dc_entry = Some (fst er), dc_result = Some (snd er)\<rparr>))))"

end
