(* ===== verification/CompactionCorrect.thy ===== *)
theory CompactionCorrect
  imports Compaction
begin

text \<open>
  What compaction guarantees: a cut never separates a tool call from its result, the part that is
  kept stays near the budget, the result is the summary followed by what was kept, and the
  session then rebuilds exactly that; and where the code falls short of what it means to do.
\<close>

section \<open>Calls and results\<close>

fun called :: "message \<Rightarrow> string list" where
  "called (AssistantMessage m) = call_ids m" | "called _ = []"

fun answers :: "message \<Rightarrow> string option" where
  "answers (ToolResultMessage m) = Some (trm_tool_call_id m)" | "answers _ = None"

text \<open>Every tool call in the list has a result later in the list.\<close>

definition answered :: "message list \<Rightarrow> bool" where
  "answered ms \<longleftrightarrow> (\<forall>i < length ms. \<forall>x \<in> set (called (ms ! i)).
     \<exists>j < length ms. i < j \<and> answers (ms ! j) = Some x)"

lemma pending_step_set:
  "set (pending_step m p) = {x \<in> set p \<union> set (called m). answers m \<noteq> Some x}"
  by (cases m) auto

definition waits :: "message list \<Rightarrow> string \<Rightarrow> bool" where
  "waits ms x \<longleftrightarrow> (\<exists>i < length ms. x \<in> set (called (ms ! i)) \<and>
     (\<forall>j < length ms. i < j \<longrightarrow> answers (ms ! j) \<noteq> Some x))"

lemma called_answers: "x \<in> set (called m) \<Longrightarrow> answers m = None"
  by (cases m) simp_all

lemma waits_snoc: "waits (ms @ [m]) x \<longleftrightarrow> (waits ms x \<or> x \<in> set (called m)) \<and> answers m \<noteq> Some x"
proof
  assume "waits (ms @ [m]) x"
  then obtain i where i: "i < Suc (length ms)" "x \<in> set (called ((ms @ [m]) ! i))"
    and no: "\<And>j. j < Suc (length ms) \<Longrightarrow> i < j \<Longrightarrow> answers ((ms @ [m]) ! j) \<noteq> Some x"
    by (auto simp: waits_def)
  show "(waits ms x \<or> x \<in> set (called m)) \<and> answers m \<noteq> Some x"
  proof (cases "i = length ms")
    case True
    with i show ?thesis by (simp add: called_answers)
  next
    case False
    with i(1) have i': "i < length ms" by simp
    have "answers (ms ! j) \<noteq> Some x" if "j < length ms" "i < j" for j
      using no [of j] that by (simp add: nth_append)
    then have "waits ms x" using i i' by (auto simp: waits_def nth_append)
    moreover have "answers m \<noteq> Some x" using no [of "length ms"] i' by simp
    ultimately show ?thesis by simp
  qed
next
  assume r: "(waits ms x \<or> x \<in> set (called m)) \<and> answers m \<noteq> Some x"
  then show "waits (ms @ [m]) x"
  proof (elim conjE disjE)
    assume "waits ms x" and m: "answers m \<noteq> Some x"
    then obtain i where i: "i < length ms" "x \<in> set (called (ms ! i))"
      and no: "\<And>j. j < length ms \<Longrightarrow> i < j \<Longrightarrow> answers (ms ! j) \<noteq> Some x"
      by (auto simp: waits_def)
    have "answers ((ms @ [m]) ! j) \<noteq> Some x" if "j < Suc (length ms)" "i < j" for j
      using no [of j] m that by (cases "j = length ms") (auto simp: nth_append)
    with i show ?thesis unfolding waits_def by (intro exI [of _ i]) (simp add: nth_append)
  next
    assume "x \<in> set (called m)"
    then show ?thesis unfolding waits_def by (intro exI [of _ "length ms"]) simp
  qed
qed

lemma pending_waits: "x \<in> set (fold pending_step ms []) \<longleftrightarrow> waits ms x"
proof (induction ms rule: rev_induct)
  case (snoc m ms)
  then show ?case by (auto simp: pending_step_set waits_snoc)
qed (simp add: waits_def)

lemma pending_answered: "fold pending_step ms [] = [] \<Longrightarrow> answered ms"
  using pending_waits [of _ ms] unfolding answered_def waits_def by fastforce

lemma safe_loop_set:
  "set (safe_loop k p ms) = {k + n |n. 0 < n \<and> n \<le> length ms \<and> fold pending_step (take n ms) p = []}"
proof (induction ms arbitrary: k p)
  case (Cons m ms)
  let ?p = "pending_step m p"
  have "{k + n |n. 0 < n \<and> n \<le> length (m # ms) \<and> fold pending_step (take n (m # ms)) p = []} =
      {Suc k |n::nat. ?p = []} \<union> {Suc k + n |n. 0 < n \<and> n \<le> length ms \<and> fold pending_step (take n ms) ?p = []}"
    (is "?L = ?A \<union> ?B")
  proof (rule set_eqI, rule iffI)
    fix i assume "i \<in> ?L"
    then obtain n where n: "i = k + n" "0 < n" "n \<le> Suc (length ms)" "fold pending_step (take n (m # ms)) p = []"
      by auto
    then obtain n' where "n = Suc n'" by (cases n) auto
    with n show "i \<in> ?A \<union> ?B" by (cases n') auto
  next
    fix i assume "i \<in> ?A \<union> ?B"
    then consider "i = Suc k" "?p = []" | n where "i = Suc k + n" "0 < n" "n \<le> length ms" "fold pending_step (take n ms) ?p = []"
      by auto
    then show "i \<in> ?L"
    proof cases
      case 1
      then show ?thesis by (auto intro!: exI [of _ "Suc 0"])
    next
      case 2
      then show ?thesis by (auto intro!: exI [of _ "Suc n"])
    qed
  qed
  then show ?case using Cons.IH [of "Suc k" ?p] by (auto simp: Let_def)
qed simp

lemma answered_Nil [simp]: "answered []"
  by (simp add: answered_def)

lemma safe_cut_answered:
  assumes "i \<in> set (safe_cut_indices ms)" shows "i \<le> length ms \<and> answered (take i ms)"
proof (cases "i = 0")
  case False
  with assms obtain n where "i = 0 + n" "n \<le> length ms" "fold pending_step (take n ms) [] = []"
    unfolding safe_cut_indices_def using safe_loop_set [of 0 "[]" ms] by auto
  then show ?thesis by (simp add: pending_answered)
qed simp

section \<open>Token counts\<close>

lemma estimate_simps [simp]:
  "estimate_context_tokens [] = 0"
  "estimate_context_tokens (m # ms) = estimate_message_tokens m + estimate_context_tokens ms"
  "estimate_context_tokens (xs @ ys) = estimate_context_tokens xs + estimate_context_tokens ys"
  by (simp_all add: estimate_context_tokens_def)

lemma estimate_message_pos: "0 < estimate_message_tokens m"
  by (cases m) (simp_all add: MESSAGE_OVERHEAD_TOKENS_def)

lemma estimate_drop_Suc:
  "i < length ms \<Longrightarrow> estimate_context_tokens (drop i ms) = estimate_message_tokens (ms ! i) + estimate_context_tokens (drop (Suc i) ms)"
  by (simp flip: Cons_nth_drop_Suc)

lemma estimate_drop_mono: "i \<le> j \<Longrightarrow> estimate_context_tokens (drop j ms) \<le> estimate_context_tokens (drop i ms)"
proof (induction rule: dec_induct)
  case (step n)
  then show ?case using estimate_drop_Suc [of n ms] by (cases "n < length ms") simp_all
qed simp

section \<open>The cut point\<close>

lemma cut_walk_None:
  "cut_walk ms cs keep n acc = None \<Longrightarrow> n \<le> length ms \<Longrightarrow> int acc < keep \<Longrightarrow>
   acc = estimate_context_tokens (drop n ms) \<Longrightarrow> int (estimate_context_tokens ms) < keep"
proof (induction n arbitrary: acc)
  case (Suc n)
  then show ?case using estimate_drop_Suc [of n ms]
    by (auto simp: Let_def add.commute split: if_splits)
qed simp

lemma cut_walk_Some:
  "cut_walk ms cs keep n acc = Some c \<Longrightarrow> n \<le> length ms \<Longrightarrow> int acc < keep \<Longrightarrow>
   acc = estimate_context_tokens (drop n ms) \<Longrightarrow>
   \<exists>i < length ms. int (estimate_context_tokens (drop (Suc i) ms)) < keep \<and>
     c = (case find (\<lambda>c. i \<le> c) cs of None \<Rightarrow> length ms | Some c \<Rightarrow> c)"
proof (induction n arbitrary: acc)
  case (Suc n)
  show ?case
  proof (cases "int (acc + estimate_context_tokens [ms ! n]) < keep")
    case True
    with Suc.prems show ?thesis using estimate_drop_Suc [of n ms]
      by (intro Suc.IH [of "acc + estimate_context_tokens [ms ! n]"]) (auto simp: Let_def)
  next
    case False
    with Suc.prems show ?thesis by (intro exI [of _ n]) (auto simp: Let_def)
  qed
qed simp

lemma chosen_cut:
  assumes "cs \<noteq> []" and "\<forall>c \<in> set cs. c < length ms" and "0 < keep"
    and "c = (case cut_walk ms cs keep (length ms) 0 of None \<Rightarrow> hd cs | Some c \<Rightarrow> c)"
  shows "(c \<in> set cs \<or> c = length ms) \<and> int (estimate_context_tokens (drop (Suc c) ms)) < keep"
proof (cases "cut_walk ms cs keep (length ms) 0")
  case None
  from cut_walk_None [OF this] assms(3) have "int (estimate_context_tokens ms) < keep" by simp
  moreover have "estimate_context_tokens (drop (Suc c) ms) \<le> estimate_context_tokens ms"
    using estimate_drop_mono [of 0 "Suc c" ms] by simp
  ultimately show ?thesis using None assms(1,4) by auto
next
  case (Some c')
  from cut_walk_Some [OF this] assms(3) obtain i where i: "i < length ms"
      "int (estimate_context_tokens (drop (Suc i) ms)) < keep"
      "c' = (case find (\<lambda>c. i \<le> c) cs of None \<Rightarrow> length ms | Some c \<Rightarrow> c)" by auto
  have c: "c = c'" using assms(4) Some by simp
  have "i \<le> c'" "c' \<in> set cs \<or> c' = length ms"
    using i by (auto split: option.splits simp: find_Some_iff)
  moreover have "estimate_context_tokens (drop (Suc c') ms) \<le> estimate_context_tokens (drop (Suc i) ms)"
    using \<open>i \<le> c'\<close> by (intro estimate_drop_mono) simp
  ultimately show ?thesis using i(2) c by auto
qed

lemma find_turn_start_index_le:
  "k \<le> length ms \<Longrightarrow> \<exists>t. find_turn_start_index ms (int k) = Inr t"
  by (simp add: find_turn_start_index_def)

lemma cut_point_found:
  assumes "0 < keep"
  shows "\<exists>k split. find_cut_point ms keep = Inr (k, split) \<and>
    (k = 0 \<and> \<not> split \<or>
     0 < k \<and> k \<le> length ms \<and> (k < length ms \<longrightarrow> answered (take k ms)) \<and>
     int (estimate_context_tokens (drop (Suc k) ms)) < keep \<and>
     split = (k = length ms \<or> \<not> is_user (ms ! k)))"
proof -
  define cs where "cs = filter (\<lambda>i. 0 < i \<and> i < length ms) (safe_cut_indices ms)"
  define c where "c = (case cut_walk ms cs keep (length ms) 0 of None \<Rightarrow> hd cs | Some c \<Rightarrow> c)"
  have in_cs: "0 < i \<and> i < length ms \<and> answered (take i ms)" if "i \<in> set cs" for i
    using that safe_cut_answered [of i ms] by (simp add: cs_def)
  show ?thesis
  proof (cases "ms = [] \<or> cs = []")
    case True
    then show ?thesis by (auto simp: find_cut_point_def simp flip: cs_def)
  next
    case False
    then have c: "c \<in> set cs \<or> c = length ms" "int (estimate_context_tokens (drop (Suc c) ms)) < keep"
      using chosen_cut [of cs ms keep c] in_cs assms c_def by blast+
    then have "c \<le> length ms" using in_cs by fastforce
    then obtain t where t: "find_turn_start_index ms (int c) = Inr t"
      using find_turn_start_index_le by blast
    define k where "k = (if c < length ms \<and> t > 0 \<and> t \<in> set cs
      \<and> int (estimate_context_tokens (drop t ms)) \<le> keep then t else c)"
    have eq: "find_cut_point ms keep = Inr (k, k = length ms \<or> \<not> is_user (ms ! k))"
      using False t by (simp add: find_cut_point_def Let_def flip: cs_def c_def) (simp add: k_def)
    have k: "k \<in> set cs \<or> k = length ms" using c by (auto simp: k_def)
    have "int (estimate_context_tokens (drop (Suc k) ms)) < keep"
    proof (cases "k = c")
      case False
      then have "k = t" "k \<in> set cs" "int (estimate_context_tokens (drop k ms)) \<le> keep"
        by (auto simp: k_def split: if_splits)
      with in_cs [of k] show ?thesis
        using estimate_drop_Suc [of k ms] estimate_message_pos [of "ms ! k"] by simp
    qed (use c in simp)
    with eq k in_cs [of k] False show ?thesis by auto
  qed
qed

text \<open>C20: Compaction always finds a cut point, and the cut is safe: a tool call of the part to be
  summarized has its result there too, unless that part is the whole conversation.  Without its
  first message the part that is kept is below the budget for recent tokens.  The flag says
  whether what is kept starts in the middle of a turn.\<close>

theorem find_cut_point_correct:
  assumes "0 < keep"
  shows "\<exists>k split. find_cut_point ms keep = Inr (k, split) \<and>
    (k = 0 \<and> \<not> split \<or>
     0 < k \<and> k \<le> length ms \<and> (k < length ms \<longrightarrow> answered (take k ms)) \<and>
     int (estimate_context_tokens (drop (Suc k) ms)) < keep \<and>
     split = (k = length ms \<or> \<not> is_user (ms ! k)))"
  by (rule cut_point_found [OF assms])

section \<open>The summary\<close>

lemma summary_loop_result:
  obtains e w' where "summary_loop n k f conv previous resp err w = Some (Inl e, w')" "exn_class e = CancelledError"
  | resp' k' err' w' where
      "summary_loop n k f conv previous resp err w = Some (Inr (resp', k', err'), w')"
      "k \<le> k'" "k' \<le> k + n" "0 < n \<longrightarrow> k < k'"
      "k' < k + n \<longrightarrow> (\<exists>r. resp' = Some r \<and> strip (sr_text r) \<noteq> [])"
proof (induction n arbitrary: k resp err w thesis)
  case 0
  show ?case by (rule 0(2) [of resp k err w]) (simp_all add: prog_simps)
next
  case (Suc n)
  have more: thesis
    if eq: "summary_loop (Suc n) k f conv previous resp err w = summary_loop n (Suc k) f conv previous resp1 err1 w1"
    for resp1 err1 w1
  proof (cases rule: Suc.IH [of "Suc k" resp1 err1 w1])
    case (1 e w')
    then show thesis using Suc.prems(1) eq by simp
  next
    case (2 resp' k' err' w')
    then show thesis by (intro Suc.prems(2) [OF eq [THEN trans]]) auto
  qed
  show ?case
  proof (cases "f conv previous w")
    case (Pair r w1)
    show ?thesis
    proof (cases r)
      case (Inl e)
      show ?thesis
      proof (cases "exn_class e = CancelledError")
        case True
        then show ?thesis by (intro Suc.prems(1) [of e w1]) (simp_all add: Pair Inl)
      next
        case False
        then show ?thesis by (intro more) (simp add: Pair Inl)
      qed
    next
      case (Inr raw)
      show ?thesis
      proof (cases "strip (sr_text (as_response raw)) = []")
        case True
        then show ?thesis by (intro more) (simp add: Pair Inr Let_def)
      next
        case False
        then show ?thesis
          by (intro Suc.prems(2) [of "Some (as_response raw)" "Suc k" err w1]) (simp_all add: Pair Inr Let_def)
      qed
    qed
  qed
qed

lemma prepare_compaction_correct:
  assumes "check_settings c = Inr ()" and "prepare_compaction ms c previous force = Inr p"
  shows "let k = cp_cut_index p in 0 < k \<and> k \<le> length ms \<and>
    cp_messages_to_summarize p = take k ms \<and> cp_messages_to_keep p = drop k ms \<and>
    (k < length ms \<longrightarrow> answered (take k ms)) \<and>
    int (estimate_context_tokens (drop (Suc k) ms)) < cs_keep_recent_tokens c \<and>
    cp_estimated_tokens p = calculate_context_tokens ms \<and> cp_previous_summary p = previous \<and>
    (force \<or> threshold c \<le> calculate_context_tokens ms)"
proof -
  have keep: "0 < cs_keep_recent_tokens c" using assms(1) by (auto simp: check_settings_def split: if_splits)
  obtain k split where "find_cut_point ms (cs_keep_recent_tokens c) = Inr (k, split)"
    and "k = 0 \<and> \<not> split \<or> 0 < k \<and> k \<le> length ms \<and> (k < length ms \<longrightarrow> answered (take k ms)) \<and>
     int (estimate_context_tokens (drop (Suc k) ms)) < cs_keep_recent_tokens c \<and>
     split = (k = length ms \<or> \<not> is_user (ms ! k))"
    using cut_point_found [OF keep, of ms] by blast
  with assms(2) show ?thesis by (auto simp: prepare_compaction_def Let_def split: if_splits)
qed

lemma prepare_compaction_error:
  assumes "check_settings c = Inr ()" and "prepare_compaction ms c previous force = Inl e"
  shows "exn_class e = CompactionError"
proof -
  have keep: "0 < cs_keep_recent_tokens c" using assms(1) by (auto simp: check_settings_def split: if_splits)
  from cut_point_found [OF keep, of ms] assms(2) show ?thesis
    by (auto simp: prepare_compaction_def Let_def split: if_splits)
qed

text \<open>What a compaction's result says about the messages it was given.\<close>

definition compacted_from :: "message list \<Rightarrow> compaction_settings \<Rightarrow> int \<Rightarrow> compaction_result \<Rightarrow> bool" where
  "compacted_from ms c t r \<longleftrightarrow> (let k = cr_cut_index r in
     0 < k \<and> k \<le> length ms \<and> (k < length ms \<longrightarrow> answered (take k ms)) \<and>
     int (estimate_context_tokens (drop (Suc k) ms)) < cs_keep_recent_tokens c \<and>
     cr_active_messages r = user_text (cs_summary_prefix c @ cr_summary r) t # drop k ms \<and>
     cr_tokens_before r = calculate_context_tokens ms \<and>
     cr_tokens_after r = estimate_context_tokens (cr_active_messages r) \<and>
     0 < cr_attempts r \<and> int (cr_attempts r) \<le> cs_max_attempts c)"

lemma compact_result:
  assumes "check_settings c = Inr ()"
  shows "\<exists>r w'. compact ms c f previous force None None t w = Some (r, w') \<and> (case r of
      Inl e \<Rightarrow> exn_class e \<in> {CompactionError, CancelledError}
    | Inr res \<Rightarrow> compacted_from ms c t res \<and> (force \<or> threshold c \<le> calculate_context_tokens ms))"
proof (cases "prepare_compaction ms c previous force")
  case (Inl e)
  then show ?thesis using prepare_compaction_error [OF assms Inl]
    by (simp add: compact_def bnd_def prog_simps)
next
  case (Inr p)
  note p = prepare_compaction_correct [OF assms Inr, unfolded Let_def]
  have max: "0 < cs_max_attempts c" using assms by (auto simp: check_settings_def split: if_splits)
  show ?thesis
  proof (cases rule: summary_loop_result [where n = "nat (cs_max_attempts c)" and k = 0 and f = f
        and conv = "serialize_conversation (cp_messages_to_summarize p)"
        and previous = "cp_previous_summary p" and resp = None and err = None and w = w])
    case (1 e w')
    then show ?thesis
      by (simp add: compact_def Inr before_hook_def prog_simps bnd_def)
  next
    case (2 resp k err w')
    show ?thesis
    proof (cases resp)
      case None
      then show ?thesis using 2(1) by (simp add: compact_def Inr before_hook_def prog_simps bnd_def)
    next
      case (Some r)
      have "compact ms c f previous force None None t w = Some (Inr (finish_compaction c p r k t), w')"
        using 2(1) Some by (simp add: compact_def Inr before_hook_def prog_simps bnd_def Let_def)
      moreover have "compacted_from ms c t (finish_compaction c p r k t)"
        using p 2(2,3,4) max
        by (simp add: compacted_from_def finish_compaction_def Let_def)
      ultimately show ?thesis using p by auto
    qed
  qed
qed

text \<open>With valid settings and no hooks a compaction always returns or raises, whatever the
  summarizer does: it raises only a compaction error (nothing to do, no safe cut, no summary) or
  the summarizer's cancellation; otherwise the active messages are the prefixed summary followed by
  the untouched rest of the conversation from a safe cut on, the token counts are those of the
  conversation before and after, and the number of attempts is within the limit.\<close>

theorem compact_correct:
  assumes "check_settings c = Inr ()"
  shows "\<exists>r w'. compact ms c f previous force None None t w = Some (r, w') \<and> (case r of
      Inl e \<Rightarrow> exn_class e \<in> {CompactionError, CancelledError}
    | Inr res \<Rightarrow> compacted_from ms c t res \<and> (force \<or> threshold c \<le> calculate_context_tokens ms))"
  by (rule compact_result [OF assms])

section \<open>A compacted session\<close>

definition no_branch_summaries :: "tree_entry list \<Rightarrow> bool" where
  "no_branch_summaries es \<longleftrightarrow> (\<forall>e \<in> set es. case e_body e of BranchSummaryEntry _ \<Rightarrow> False | _ \<Rightarrow> True)"

lemma message_entries_simps [simp]:
  "message_entries [] = []"
  "message_entries (e # es) = (case e_body e of MessageEntry m \<Rightarrow> [(e, m)] | _ \<Rightarrow> []) @ message_entries es"
  by (simp_all add: message_entries_def)

lemma context_messages_simps [simp]:
  "context_messages b n [] = []"
  "context_messages b n (e # es) = entry_messages b n e @ context_messages b n es"
  by (simp_all add: context_messages_def)

lemma message_entries_ids: "fst ` set (message_entries es) \<subseteq> set es"
  by (induction es) (auto split: entry_body.splits)

lemma context_no_branch_summaries:
  "no_branch_summaries es \<Longrightarrow> context_messages b n es = map snd (message_entries es)"
  by (induction es) (auto simp: no_branch_summaries_def entry_messages_def split: entry_body.splits)

text \<open>The part of a branch that starts at its message number \<open>k\<close> (from 0), and the messages
  that this part stands for: its own messages, and in their places the summaries of branches that
  were left.\<close>

fun from_message :: "nat \<Rightarrow> tree_entry list \<Rightarrow> tree_entry list" where
  "from_message k [] = []"
| "from_message k (e # es) = (case e_body e of
       MessageEntry m \<Rightarrow> (case k of 0 \<Rightarrow> e # es | Suc j \<Rightarrow> from_message j es)
     | _ \<Rightarrow> from_message k es)"

fun kept_context :: "int \<Rightarrow> tree_entry list \<Rightarrow> message list" where
  "kept_context tm [] = []"
| "kept_context tm (e # es) = (case e_body e of
       MessageEntry m \<Rightarrow> m # kept_context tm es
     | BranchSummaryEntry b \<Rightarrow>
         UserMessage \<lparr>um_content = UserText
           (''The user explored a different conversation branch before returning here.'' @ [CHR 0x0A]
            @ ''Summary of that exploration:'' @ [CHR 0x0A, CHR 0x0A] @ b_summary b), um_timestamp = tm\<rparr> # kept_context tm es
     | _ \<Rightarrow> kept_context tm es)"

lemma context_messages_eq: "context_messages DEFAULT_BRANCH_SUMMARY_PREFIX tm es = kept_context tm es"
  by (induction es)
     (simp_all add: entry_messages_def user_text_def DEFAULT_BRANCH_SUMMARY_PREFIX_def
       split: entry_body.splits)

lemma from_message_messages:
  "map snd (message_entries (from_message k es)) = drop k (map snd (message_entries es))"
  by (induction k es rule: from_message.induct) (auto split: entry_body.splits nat.splits)

lemma from_message_past: "length (message_entries es) \<le> k \<Longrightarrow> from_message k es = []"
  by (induction k es rule: from_message.induct) (auto split: entry_body.splits nat.splits)

lemma from_message_subset: "set (from_message k es) \<subseteq> set es"
  by (induction k es rule: from_message.induct) (auto split: entry_body.splits nat.splits)

lemma from_message_no_branch_summaries: "no_branch_summaries es \<Longrightarrow> no_branch_summaries (from_message k es)"
  using from_message_subset [of k es] by (auto simp: no_branch_summaries_def)

lemma from_message_dropWhile:
  assumes "distinct (map e_id es)" and "k < length (message_entries es)"
  shows "dropWhile (\<lambda>y. e_id y \<noteq> e_id (fst (message_entries es ! k))) es = from_message k es"
  using assms
proof (induction es arbitrary: k)
  case (Cons e es)
  have nb: "distinct (map e_id es)" using Cons.prems by auto
  have other: "e_id (fst (message_entries es ! j)) \<noteq> e_id e" if "j < length (message_entries es)" for j
  proof -
    have "fst (message_entries es ! j) \<in> set es" using message_entries_ids [of es] nth_mem [OF that] by blast
    with Cons.prems(1) show ?thesis by (metis distinct.simps(2) image_eqI list.simps(9) set_map)
  qed
  show ?case
  proof (cases "\<exists>m. e_body e = MessageEntry m")
    case True
    then obtain m where m: "e_body e = MessageEntry m" ..
    show ?thesis
    proof (cases k)
      case 0
      with m show ?thesis by simp
    next
      case (Suc j)
      with m Cons.prems(2) show ?thesis using other [of j] Cons.IH [OF nb, of j] by auto
    qed
  next
    case False
    then have "message_entries (e # es) = message_entries es"
      "from_message k (e # es) = from_message k es" by (auto split: entry_body.splits)
    with Cons.prems(2) show ?thesis using other [of k] Cons.IH [OF nb, of k] by auto
  qed
qed simp

lemma active_entries_distinct:
  assumes "memory.manager_ok m" and "active_entries m = Inr es"
  shows "distinct (map e_id es)"
proof -
  from assms(1) have step: "in_step (l_records (m_loaded m)) (m_tree m)"
    by (simp add: memory.manager_ok_def)
  note tree = in_step_tree(1) [OF memory.manager_ok_valid [OF assms(1)] step]
  have leaf: "known (t_entries (m_tree m)) (t_leaf_id (m_tree m))" using step by (simp add: in_step_def)
  with assms(2) have "es = rev (chain_of (t_entries (m_tree m)) (t_leaf_id (m_tree m)))"
    by (simp add: active_entries_def active_path_def path_to_wf [OF tree])
  with wf_tree_chain_distinct [OF tree leaf] show ?thesis by (simp flip: rev_map)
qed

lemma session_messages_active:
  assumes "active_entries m = Inr es"
  shows "\<exists>h. session_messages c tm m = bindE (reconstruct_context \<lparr>p_header = h, p_entries = es\<rparr>
     (cs_summary_prefix c) DEFAULT_BRANCH_SUMMARY_PREFIX tm) (\<lambda>r. Inr (rc_messages r))"
proof -
  from assms obtain p where "active_path (m_tree m) = Inr p" "p_entries p = es"
    by (auto simp: active_entries_def bindE_eq_Inr)
  then show ?thesis by (intro exI [of _ "p_header p"]) (cases p, simp add: session_messages_def)
qed

text \<open>What is left after a compaction entry has been appended.\<close>

lemma compaction_entry_rebuilds:
  assumes "memory.manager_ok m" and "active_entries m = Inr es"
    and "fresh \<notin> fst ` set (t_entries (m_tree m))"
    and "0 < k" and "k \<le> length (message_entries es)"
  obtains e m' where
    "append_compaction memory_load memory_append None fresh tm m summary
       (first_kept_id (message_entries es) k) before after details = (Inr e, m')"
    "memory.manager_ok m'" "active_entries m' = Inr (es @ [e])"
    "session_messages c tm m' = Inr (user_text (cs_summary_prefix c @ summary) tm
       # kept_context tm (from_message k es))"
proof -
  define b where "b = CompactionEntry \<lparr>c_summary = summary,
    c_first_kept = first_kept_id (message_entries es) k, c_tokens_before = before,
    c_tokens_after = after, c_details = (case details of None \<Rightarrow> [] | Some d \<Rightarrow> d)\<rparr>"
  define e where "e = new_entry None fresh tm m b"
  have e: "e_id e = fresh" "e_body e = b" by (simp_all add: e_def new_entry_def or_fresh_def)
  have "in_step (l_records (m_loaded m)) (m_tree m)" using assms(1) by (simp add: memory.manager_ok_def)
  then have "known (t_entries (m_tree m)) (manager_leaf_id m)" by (simp add: in_step_def manager_leaf_id_def)
  then have "entry_fits (t_entries (m_tree m)) e"
    using assms(3) by (simp add: entry_fits_def e_def new_entry_def or_fresh_def SessionManager.result_ok_def result_of_tool_def b_def)
  then obtain m' where m': "manager_append memory_load memory_append tm m e = (Inr e, m')"
      "memory.manager_ok m'" "active_entries m' = Inr (es @ [e])"
    using memory_append_extends [OF assms(1), of None fresh tm b] assms(2) by (auto simp: e_def)
  have notin: "e \<notin> set es" using active_entries_distinct [OF m'(2,3)] by auto
  define kept where "kept = (case first_kept_id (message_entries es) k of
     None \<Rightarrow> [] | Some i \<Rightarrow> dropWhile (\<lambda>y. e_id y \<noteq> i) es)"
  have msgs: "context_messages DEFAULT_BRANCH_SUMMARY_PREFIX tm kept = kept_context tm (from_message k es)"
    using from_message_dropWhile [OF active_entries_distinct [OF assms(1,2)], of k] from_message_past [of es k]
    by (simp add: context_messages_eq kept_def first_kept_id_def)
  have ne: "dropWhile (\<lambda>y. e_id y \<noteq> e_id (fst (message_entries es ! k))) es \<noteq> []"
    if "k < length (message_entries es)"
    unfolding dropWhile_Nil_iff using message_entries_ids [of es] nth_mem [OF that] by blast
  obtain h where h: "session_messages c tm m' = bindE (reconstruct_context
      \<lparr>p_header = h, p_entries = es @ [e]\<rparr> (cs_summary_prefix c) DEFAULT_BRANCH_SUMMARY_PREFIX tm)
      (\<lambda>r. Inr (rc_messages r))"
    using session_messages_active [OF m'(3)] by blast
  have "\<exists>r. reconstruct_context \<lparr>p_header = h, p_entries = es @ [e]\<rparr> (cs_summary_prefix c)
      DEFAULT_BRANCH_SUMMARY_PREFIX tm = Inr r \<and>
     rc_messages r = user_text (cs_summary_prefix c @ summary) tm
       # context_messages DEFAULT_BRANCH_SUMMARY_PREFIX tm kept \<and> rc_compaction r = Some e"
    using reconstruct_compacted [of e "\<lparr>c_summary = summary,
        c_first_kept = first_kept_id (message_entries es) k, c_tokens_before = before,
        c_tokens_after = after, c_details = (case details of None \<Rightarrow> [] | Some d \<Rightarrow> d)\<rparr>" kept es]
      e(2) notin ne by (simp add: b_def kept_def first_kept_id_def del: dropWhile_eq_Nil_conv)
  with h msgs m' show thesis
    by (intro that [of e m']) (auto simp: append_compaction_def e_def b_def)
qed

text \<open>What the session stands for after a compaction: the summary, then what the entries from
  the first kept message on stand for.\<close>

definition compacted_context ::
  "compaction_settings \<Rightarrow> int \<Rightarrow> tree_entry list \<Rightarrow> compaction_result \<Rightarrow> message list" where
  "compacted_context c tm es res =
     UserMessage \<lparr>um_content = UserText (cs_summary_prefix c @ cr_summary res), um_timestamp = tm\<rparr>
     # kept_context tm (from_message (cr_cut_index res) es)"

lemma compacted_context_plain:
  assumes "compacted_from (map snd (message_entries es)) c tm res" and "no_branch_summaries es"
  shows "compacted_context c tm es res = cr_active_messages res"
proof -
  let ?kept = "from_message (cr_cut_index res) es"
  have "kept_context tm ?kept = drop (cr_cut_index res) (map snd (message_entries es))"
    using context_no_branch_summaries [OF from_message_no_branch_summaries [OF assms(2)]]
    by (simp flip: context_messages_eq from_message_messages)
  with assms(1) show ?thesis
    by (simp add: compacted_context_def compacted_from_def Let_def user_text_def)
qed

lemma compact_session_result:
  assumes "memory.manager_ok m" and "check_settings c = Inr ()"
    and "active_entries m = Inr es"
    and "fresh \<notin> fst ` set (t_entries (m_tree m))"
  shows "\<exists>r m' w'. compact_session memory_load memory_append fresh tm c f force None None (m, w)
       = Some (r, (m', w')) \<and> (case r of
      Inl e \<Rightarrow> exn_class e \<in> {CompactionError, CancelledError} \<and> m' = m
    | Inr (e, res) \<Rightarrow> memory.manager_ok m' \<and> active_entries m' = Inr (es @ [e]) \<and>
        compacted_from (map snd (message_entries es)) c tm res \<and>
        session_messages c tm m' = Inr (compacted_context c tm es res))"
proof -
  let ?ms = "map snd (message_entries es)"
  obtain r w' where run: "compact ?ms c f (latest_summary es) force None None tm w = Some (r, w')"
    and r: "case r of Inl e \<Rightarrow> exn_class e \<in> {CompactionError, CancelledError}
      | Inr res \<Rightarrow> compacted_from ?ms c tm res \<and> (force \<or> threshold c \<le> calculate_context_tokens ?ms)"
    using compact_result [OF assms(2), of ?ms f "latest_summary es" force tm w] by blast
  show ?thesis
  proof (cases r)
    case (Inl e)
    with run r assms(3) show ?thesis
      by (simp add: compact_session_def bnd_def in_manager_def in_world_def Let_def)
  next
    case (Inr res)
    with r have made: "compacted_from ?ms c tm res" by simp
    then have k: "0 < cr_cut_index res" "cr_cut_index res \<le> length (message_entries es)"
      by (simp_all add: compacted_from_def Let_def)
    from compaction_entry_rebuilds [OF assms(1,3,4) k, where tm = tm and summary = "cr_summary res"
        and before = "cr_tokens_before res" and after = "int (cr_tokens_after res)"
        and details = "Some (compaction_details res)" and c = c]
    obtain e m' where e: "append_compaction memory_load memory_append None fresh tm m (cr_summary res)
       (first_kept_id (message_entries es) (cr_cut_index res)) (cr_tokens_before res)
       (int (cr_tokens_after res)) (Some (compaction_details res)) = (Inr e, m')"
      "memory.manager_ok m'" "active_entries m' = Inr (es @ [e])"
      "session_messages c tm m' = Inr (user_text (cs_summary_prefix c @ cr_summary res) tm
         # kept_context tm (from_message (cr_cut_index res) es))" by blast
    then have "session_messages c tm m' = Inr (compacted_context c tm es res)"
      by (simp add: compacted_context_def user_text_def)
    with e made run Inr assms(3) show ?thesis
      by (simp add: compact_session_def bnd_def in_manager_def in_world_def Let_def ret_def)
  qed
qed

text \<open>C18: Compacting an in-memory session (with valid settings, a fresh entry identifier and no
  hooks before or after) either raises and leaves the session exactly as it was, or adds one
  compaction entry at the end of the branch.  The context that the session then rebuilds is the
  summary followed by what the entries from the first kept message on stand for: their messages and,
  in their places, the summaries of branches that were left.  The active messages the compaction
  returned are the same without these summaries of branches; on a branch without any they are
  exactly the rebuilt context.\<close>

theorem compact_session_consistent:
  assumes "memory.manager_ok m" and "check_settings c = Inr ()"
    and "active_entries m = Inr es"
    and "fresh \<notin> fst ` set (t_entries (m_tree m))"
  shows "\<exists>r m' w'. compact_session memory_load memory_append fresh tm c f force None None (m, w)
       = Some (r, (m', w')) \<and> (case r of
      Inl e \<Rightarrow> exn_class e \<in> {CompactionError, CancelledError} \<and> m' = m
    | Inr (e, res) \<Rightarrow> memory.manager_ok m' \<and> active_entries m' = Inr (es @ [e]) \<and>
        compacted_from (map snd (message_entries es)) c tm res \<and>
        session_messages c tm m' = Inr (compacted_context c tm es res) \<and>
        (no_branch_summaries es \<longrightarrow> session_messages c tm m' = Inr (cr_active_messages res)))"
proof -
  obtain r m' w' where run: "compact_session memory_load memory_append fresh tm c f force None None (m, w)
       = Some (r, (m', w'))" "case r of
      Inl e \<Rightarrow> exn_class e \<in> {CompactionError, CancelledError} \<and> m' = m
    | Inr (e, res) \<Rightarrow> memory.manager_ok m' \<and> active_entries m' = Inr (es @ [e]) \<and>
        compacted_from (map snd (message_entries es)) c tm res \<and>
        session_messages c tm m' = Inr (compacted_context c tm es res)"
    using compact_session_result [OF assms, of tm f force w] by blast
  then show ?thesis
    by (cases r) (auto simp: compacted_context_plain)
qed

section \<open>The gate\<close>

text \<open>C19: The gate before a provider call, on an in-memory session with valid settings, a fresh
  entry identifier and no hooks before or after, hands over the context the session stands for.
  When it says that nothing was compacted, the context is below the threshold and neither the session nor
  the summarizer was touched; when it compacted, one compaction entry was added and the context is
  the summary followed by what the entries from the first kept message on stand for (on a branch
  without summaries of other branches, exactly the compaction's active messages); when it raises,
  the session is as it was.\<close>

theorem provider_context_gate:
  assumes "memory.manager_ok m" and "check_settings c = Inr ()"
    and "active_entries m = Inr es"
    and "fresh \<notin> fst ` set (t_entries (m_tree m))"
  shows "\<exists>r m' w'. prepare_next_provider_context memory_load memory_append fresh tm c f None None (m, w)
       = Some (r, (m', w')) \<and> (case r of
      Inl e \<Rightarrow> m' = m
    | Inr d \<Rightarrow> session_messages c tm m' = Inr (dc_messages d) \<and>
        (if dc_compacted d
         then \<exists>e res. dc_entry d = Some e \<and> dc_result d = Some res \<and>
           dc_messages d = compacted_context c tm es res \<and> active_entries m' = Inr (es @ [e]) \<and>
           compacted_from (map snd (message_entries es)) c tm res \<and>
           (no_branch_summaries es \<longrightarrow> dc_messages d = cr_active_messages res)
         else m' = m \<and> w' = w \<and>
           calculate_context_tokens (dc_messages d) < cs_context_window c - cs_reserve_tokens c))"
proof (cases "session_messages c tm m")
  case (Inl e)
  then show ?thesis by (simp add: prepare_next_provider_context_def bnd_def in_manager_def)
next
  case (Inr current)
  show ?thesis
  proof (cases "should_compact current c")
    case False
    with Inr show ?thesis
      by (simp add: prepare_next_provider_context_def bnd_def in_manager_def prog_simps should_compact_def threshold_def)
  next
    case True
    from compact_session_result [OF assms, of tm f False w]
    obtain r m' w' where run: "compact_session memory_load memory_append fresh tm c f False None None (m, w)
         = Some (r, (m', w'))" and r: "case r of
        Inl e \<Rightarrow> exn_class e \<in> {CompactionError, CancelledError} \<and> m' = m
      | Inr (e, res) \<Rightarrow> memory.manager_ok m' \<and> active_entries m' = Inr (es @ [e]) \<and>
          compacted_from (map snd (message_entries es)) c tm res \<and>
          session_messages c tm m' = Inr (compacted_context c tm es res)" by blast
    with Inr True show ?thesis
      by (cases r) (auto simp: prepare_next_provider_context_def bnd_def in_manager_def prog_simps compacted_context_plain)
  qed
qed

section \<open>Where compaction falls short\<close>

lemma blank_loop:
  assumes "\<And>w. \<exists>s w'. f conv previous w = (Inr (RawReply s), w') \<and> strip s = []" and "0 < n"
  shows "\<exists>r err w'. summary_loop n k f conv previous resp err0 w = Some (Inr (Some r, k + n, err), w') \<and>
    strip (sr_text r) = []"
  using assms(2)
proof (induction n arbitrary: k resp err0 w)
  case (Suc n)
  obtain s w' where s: "f conv previous w = (Inr (RawReply s), w')" "strip s = []" using assms(1) by blast
  show ?case
  proof (cases n)
    case 0
    with s show ?thesis by (simp add: Let_def prog_simps)
  next
    case (Suc j)
    with s Suc.IH [of "Suc k" "Some (as_response (RawReply s))" "Some empty_summary" w'] show ?thesis
      by (simp add: Let_def del: summary_loop.simps(2)) (simp add: Let_def)
  qed
qed simp

text \<open>A summarizer that only ever returns blank text does not make compaction fail, although
  every attempt counts as an error: after the last attempt the blank response is taken, and the
  summarized part of the conversation is replaced by the prefix alone.\<close>

theorem blank_summary_accepted:
  assumes "prepare_compaction ms c previous force = Inr p" and "check_settings c = Inr ()"
    and "\<forall>conv previous w. \<exists>s w'. f conv previous w = (Inr (RawReply s), w') \<and> strip s = []"
  shows "\<exists>res w'. compact ms c f previous force None None t w = Some (Inr res, w') \<and>
    cr_summary res = [] \<and> cr_attempts res = nat (cs_max_attempts c) \<and>
    cr_active_messages res = user_text (cs_summary_prefix c) t # drop (cr_cut_index res) ms \<and>
    0 < cr_cut_index res"
proof -
  note p = prepare_compaction_correct [OF assms(2,1), unfolded Let_def]
  have max: "0 < nat (cs_max_attempts c)" using assms(2) by (auto simp: check_settings_def split: if_splits)
  let ?conv = "serialize_conversation (cp_messages_to_summarize p)"
  obtain r err w' where run: "summary_loop (nat (cs_max_attempts c)) 0 f ?conv (cp_previous_summary p) None None w
      = Some (Inr (Some r, 0 + nat (cs_max_attempts c), err), w')" "strip (sr_text r) = []"
    using blank_loop [OF _ max, of f ?conv "cp_previous_summary p" 0 None None w] assms(3) by blast
  have "compact ms c f previous force None None t w
      = Some (Inr (finish_compaction c p r (nat (cs_max_attempts c)) t), w')"
    using run(1) assms(1) by (simp add: compact_def before_hook_def prog_simps bnd_def Let_def)
  with run(2) p show ?thesis by (auto simp: finish_compaction_def Let_def)
qed

lemma reported_scan_suffix:
  "n \<le> length suf \<Longrightarrow> reported_scan (pre @ suf) (length pre + n) =
     (case reported_scan suf n of None \<Rightarrow> reported_scan (pre @ suf) (length pre) | Some v \<Rightarrow> Some v)"
  by (induction n) (auto simp: nth_append split: message.split)

lemma reported_scan_Some:
  "i < n \<Longrightarrow> n \<le> length ms \<Longrightarrow> ms ! i = AssistantMessage a \<Longrightarrow> 0 < reported_tokens a \<Longrightarrow>
   \<exists>v. reported_scan ms n = Some v"
proof (induction n)
  case (Suc n)
  then show ?case by (cases "i = n") (auto split: message.split)
qed simp

lemma calculate_kept:
  assumes "AssistantMessage a \<in> set kept" and "0 < reported_tokens a"
  shows "calculate_context_tokens (pre @ kept) = the (reported_scan kept (length kept))"
proof -
  from assms(1) obtain i where "i < length kept" "kept ! i = AssistantMessage a"
    by (auto simp: in_set_conv_nth)
  then obtain v where "reported_scan kept (length kept) = Some v"
    using reported_scan_Some [of i "length kept" kept a] assms(2) by blast
  then show ?thesis
    using reported_scan_suffix [of "length kept" kept pre] by (simp add: calculate_context_tokens_def)
qed

text \<open>When an assistant message that reports its usage is kept, compaction does not change the
  number that decides about compaction: it is read off the old report, which still counts the
  messages that were summarized.  So a context that had to be compacted still has to be
  compacted afterwards.\<close>

theorem compaction_keeps_reported_usage:
  assumes "compacted_from ms c t res"
    and "AssistantMessage a \<in> set (drop (cr_cut_index res) ms)" and "0 < reported_tokens a"
  shows "calculate_context_tokens (cr_active_messages res) = calculate_context_tokens ms \<and>
    should_compact (cr_active_messages res) c = should_compact ms c"
proof -
  let ?kept = "drop (cr_cut_index res) ms"
  let ?summary = "user_text (cs_summary_prefix c @ cr_summary res) t"
  have "cr_active_messages res = [?summary] @ ?kept"
    using assms(1) by (simp add: compacted_from_def Let_def)
  then have "calculate_context_tokens (cr_active_messages res) = calculate_context_tokens ms"
    using calculate_kept [OF assms(2,3), of "[?summary]"]
      calculate_kept [OF assms(2,3), of "take (cr_cut_index res) ms"] by simp
  then show ?thesis by (simp add: should_compact_def)
qed

section \<open>Instances\<close>

text \<open>A conversation with one answered tool call, whose last message reports its usage.\<close>

definition chat_assistant :: "int \<Rightarrow> content list \<Rightarrow> message" where
  "chat_assistant reported cs = AssistantMessage
     \<lparr>am_content = cs, am_api = ''x'', am_provider = ''p'', am_model = ''m'', am_response_model = JNull,
      am_response_id = JNull, am_usage = usage_zero\<lparr>u_input := reported\<rparr>, am_stop_reason = JStr ''stop'',
      am_error_message = JNull, am_raw_stop_reason = JNull, am_end_turn = JNull, am_diagnostics = JNull,
      am_timestamp = 0\<rparr>"

definition chat_call :: content where
  "chat_call = ToolCallContent \<lparr>tc_id = ''c'', tc_name = ''ls'', tc_arguments = [],
     tc_thought_signature = JNull, tc_namespace = JNull\<rparr>"

definition chat :: "message list" where
  "chat = [user_text ''hello'' 0, chat_assistant 0 [chat_call],
     ToolResultMessage \<lparr>trm_tool_call_id = ''c'', trm_tool_name = ''ls'', trm_content = [],
       trm_details = JNull, trm_usage = None, trm_added_tool_names = JNull, trm_is_error = False,
       trm_timestamp = 0\<rparr>,
     user_text ''go on'' 0, chat_assistant 95 []]"

definition chat_settings :: compaction_settings where
  "chat_settings = \<lparr>cs_context_window = 100, cs_reserve_tokens = 10, cs_keep_recent_tokens = 1,
     cs_summary_prefix = ''S: '', cs_max_attempts = 2\<rparr>"

definition chat_summarizer :: "string \<Rightarrow> unit summarizer" where
  "chat_summarizer s conv previous w = (Inr (RawReply s), w)"

fun chat_entries :: "string option \<Rightarrow> string list \<Rightarrow> message list \<Rightarrow> tree_entry list" where
  "chat_entries p (i # is) (m # ms) =
     \<lparr>e_id = i, e_parent_id = p, e_timestamp = 0, e_body = MessageEntry m\<rparr> # chat_entries (Some i) is ms"
| "chat_entries p _ _ = []"

definition chat_path :: "tree_entry list" where
  "chat_path = chat_entries None [''1'', ''2'', ''3'', ''4'', ''5''] chat"

definition chat_session :: "session_record list" where
  "chat_session = HeaderRecord demo_header # map EntryRecord chat_path"

lemma chat_settings_ok: "check_settings chat_settings = Inr ()" by code_simp

lemma chat_prepare:
  obtains p where "prepare_compaction chat chat_settings None False = Inr p" "cp_cut_index p = 4"
proof -
  have "case prepare_compaction chat chat_settings None False of Inl _ \<Rightarrow> False | Inr p \<Rightarrow> cp_cut_index p = 4"
    by code_simp
  then show ?thesis using that by (auto split: sum.splits)
qed

lemma chat_manager:
  obtains m where "manager_open memory_load chat_session = Inr m" "memory.manager_ok m"
    "active_entries m = Inr chat_path" "''6'' \<notin> fst ` set (t_entries (m_tree m))"
proof -
  have "case manager_open memory_load chat_session of Inl _ \<Rightarrow> False
     | Inr m \<Rightarrow> active_entries m = Inr chat_path \<and> ''6'' \<notin> set (map fst (t_entries (m_tree m)))"
    by code_simp
  then show ?thesis using that memory.open_ok [OF TrueI]
    by (auto split: sum.splits)
qed

lemma chat_messages: "map snd (message_entries chat_path) = chat" "no_branch_summaries chat_path"
  by (simp_all add: chat_path_def chat_def no_branch_summaries_def)

theorem find_cut_point_correct_witness:
  "find_cut_point chat 1 = Inr (4, True) \<and> answered (take 4 chat) \<and>
   int (estimate_context_tokens (drop 5 chat)) < 1"
proof -
  have "find_cut_point chat 1 = Inr (4, True)" by code_simp
  with find_cut_point_correct [of 1 chat] show ?thesis by (auto simp: chat_def)
qed

theorem compact_correct_witness:
  "\<exists>res w'. compact chat chat_settings (chat_summarizer ''done'') None False None None 7 () = Some (Inr res, w') \<and>
     cr_summary res = ''done'' \<and> compacted_from chat chat_settings 7 res"
proof -
  have "case compact chat chat_settings (chat_summarizer ''done'') None False None None 7 () of
     Some (Inr res, _) \<Rightarrow> cr_summary res = ''done'' | _ \<Rightarrow> False" by code_simp
  with compact_correct [OF chat_settings_ok, of chat "chat_summarizer ''done''" None False 7 "()"]
  show ?thesis by (auto split: option.splits sum.splits)
qed

theorem compact_session_consistent_witness:
  "\<exists>m e res m' w'. manager_open memory_load chat_session = Inr m \<and>
     compact_session memory_load memory_append ''6'' 7 chat_settings (chat_summarizer ''done'') False
       None None (m, ()) = Some (Inr (e, res), (m', w')) \<and>
     session_messages chat_settings 7 m' = Inr (cr_active_messages res)"
proof -
  obtain m where m: "manager_open memory_load chat_session = Inr m" "memory.manager_ok m"
    "active_entries m = Inr chat_path" "''6'' \<notin> fst ` set (t_entries (m_tree m))" by (rule chat_manager)
  have "case manager_open memory_load chat_session of Inr m \<Rightarrow>
      (case compact_session memory_load memory_append ''6'' 7 chat_settings (chat_summarizer ''done'') False
         None None (m, ()) of Some (Inr _, _) \<Rightarrow> True | _ \<Rightarrow> False) | _ \<Rightarrow> False" by code_simp
  moreover obtain r m' w' where r: "compact_session memory_load memory_append ''6'' 7 chat_settings
      (chat_summarizer ''done'') False None None (m, ()) = Some (r, (m', w'))" "case r of
      Inl e \<Rightarrow> exn_class e \<in> {CompactionError, CancelledError} \<and> m' = m
    | Inr (e, res) \<Rightarrow> memory.manager_ok m' \<and> active_entries m' = Inr (chat_path @ [e]) \<and>
        compacted_from (map snd (message_entries chat_path)) chat_settings 7 res \<and>
        session_messages chat_settings 7 m' = Inr (compacted_context chat_settings 7 chat_path res) \<and>
        (no_branch_summaries chat_path \<longrightarrow> session_messages chat_settings 7 m' = Inr (cr_active_messages res))"
    using compact_session_consistent [OF m(2) chat_settings_ok m(3,4), of 7
      "chat_summarizer ''done''" False "()"] by blast
  ultimately obtain e res where "r = Inr (e, res)" using m(1) by (cases r) auto
  with r m(1) chat_messages(2) show ?thesis by auto
qed

theorem provider_context_gate_witness:
  "\<exists>m d m' w'. manager_open memory_load chat_session = Inr m \<and>
     prepare_next_provider_context memory_load memory_append ''6'' 7 chat_settings (chat_summarizer ''done'')
       None None (m, ()) = Some (Inr d, (m', w')) \<and> dc_compacted d \<and>
     session_messages chat_settings 7 m' = Inr (dc_messages d)"
proof -
  obtain m where m: "manager_open memory_load chat_session = Inr m" "memory.manager_ok m"
    "active_entries m = Inr chat_path" "''6'' \<notin> fst ` set (t_entries (m_tree m))" by (rule chat_manager)
  have "case manager_open memory_load chat_session of Inr m \<Rightarrow>
      (case prepare_next_provider_context memory_load memory_append ''6'' 7 chat_settings
         (chat_summarizer ''done'') None None (m, ()) of Some (Inr d, _) \<Rightarrow> dc_compacted d | _ \<Rightarrow> False)
      | _ \<Rightarrow> False" by code_simp
  with provider_context_gate [OF m(2) chat_settings_ok m(3) m(4), of 7
      "chat_summarizer ''done''" "()"] m(1)
  show ?thesis by (auto split: sum.splits)
qed

theorem blank_summary_accepted_witness:
  "\<exists>res w'. compact chat chat_settings (chat_summarizer '' '') None False None None 7 () = Some (Inr res, w') \<and>
     cr_summary res = [] \<and> cr_attempts res = 2"
proof -
  obtain p where "prepare_compaction chat chat_settings None False = Inr p" by (rule chat_prepare)
  note blank = blank_summary_accepted [OF this chat_settings_ok, of "chat_summarizer '' ''" 7 "()"]
  have "strip '' '' = []" by code_simp
  with blank show ?thesis by (auto simp: chat_summarizer_def chat_settings_def)
qed

theorem compaction_keeps_reported_usage_witness:
  "\<exists>res w'. compact chat chat_settings (chat_summarizer ''done'') None False None None 7 () = Some (Inr res, w') \<and>
     should_compact chat chat_settings \<and> should_compact (cr_active_messages res) chat_settings"
proof -
  have "case compact chat chat_settings (chat_summarizer ''done'') None False None None 7 () of
     Some (Inr res, _) \<Rightarrow> cr_cut_index res = 4 | _ \<Rightarrow> False" by code_simp
  with compact_result [OF chat_settings_ok, of chat "chat_summarizer ''done''" None False 7 "()"]
  obtain res w' where res: "compact chat chat_settings (chat_summarizer ''done'') None False None None 7 () = Some (Inr res, w')"
    "compacted_from chat chat_settings 7 res" "cr_cut_index res = 4" by (auto split: option.splits sum.splits)
  have over: "should_compact chat chat_settings" by code_simp
  have "\<exists>a. AssistantMessage a \<in> set (drop 4 chat) \<and> 0 < reported_tokens a"
    by (simp add: chat_def chat_assistant_def reported_tokens_def usage_zero_def)
  with compaction_keeps_reported_usage [OF res(2)] res(1,3) over show ?thesis by auto
qed

end
