(* ===== verification/BranchSummary.thy ===== *)
theory BranchSummary
  imports CompactionCorrect
begin

text \<open>
  Summarizing the branch that a session leaves
  (\<^verbatim>\<open>src/pi_agent/harness/compaction/branch.py\<close>).  Only \<open>StopIteration\<close> from
  an impossible search and the loop of the ancestor search make the preparation partial; neither
  happens on a valid tree.
\<close>

section \<open>Preparation\<close>

record branch_preparation =
  bp_common_ancestor_id :: "string option"
  bp_from_entry_id :: string
  bp_to_entry_id :: string
  bp_entries :: "tree_entry list"
  bp_messages :: "message list"

record branch_summary_result =
  br_summary :: string
  br_usage :: usage
  br_preparation :: branch_preparation

definition collect_entries_for_branch_summary ::
  "session_tree \<Rightarrow> string \<Rightarrow> string \<Rightarrow> (exn, branch_preparation) result option" where
  "collect_entries_for_branch_summary t from to =
     bindD (Some (tree_get t from)) (\<lambda>_.
     bindD (Some (tree_get t to)) (\<lambda>_.
     bindD (common_ancestor t (Some from) (Some to)) (\<lambda>common.
     bindD (Some (path_to t (Some from))) (\<lambda>path.
     bindD (case common of
         None \<Rightarrow> Some (Inr (p_entries path))
       | Some c \<Rightarrow> (case dropWhile (\<lambda>e. e_id e \<noteq> c) (p_entries path) of
             [] \<Rightarrow> Some (Inl (Exn OtherException ''StopIteration''))
           | _ # after \<Rightarrow> Some (Inr after))) (\<lambda>es.
     Some (Inr \<lparr>bp_common_ancestor_id = common, bp_from_entry_id = from, bp_to_entry_id = to,
                bp_entries = es, bp_messages = map snd (message_entries es)\<rparr>))))))"

definition generate_branch_summary ::
  "branch_preparation \<Rightarrow> 'w summarizer \<Rightarrow> ('w, branch_summary_result) prog" where
  "generate_branch_summary p f =
     (if bp_messages p = [] then ret \<lparr>br_summary = [], br_usage = usage_zero, br_preparation = p\<rparr>
      else bnd (call_hook (f (serialize_conversation (bp_messages p)) None)) (\<lambda>raw.
        let r = as_response raw in
        ret \<lparr>br_summary = strip (sr_text r), br_usage = sr_usage r, br_preparation = p\<rparr>))"

definition branch_details :: "branch_summary_result \<Rightarrow> jobject" where
  "branch_details r =
     [(''commonAncestorId'', json_opt (bp_common_ancestor_id (br_preparation r))),
      (''usage'', JObj [(''input'', JInt (u_input (br_usage r))), (''output'', JInt (u_output (br_usage r))),
         (''totalTokens'', JInt (u_total_tokens (br_usage r)))])]"

text \<open>\<open>fresh\<close> is the identifier and \<open>tm\<close> the timestamp of what the session records.\<close>

definition summarize_and_navigate_branch ::
  "'s loader \<Rightarrow> 's appender \<Rightarrow> string \<Rightarrow> int \<Rightarrow> string \<Rightarrow> 'w summarizer
     \<Rightarrow> ('s manager \<times> 'w, tree_entry option \<times> branch_summary_result) prog" where
  "summarize_and_navigate_branch load app fresh tm to f = (\<lambda>s.
     case manager_leaf_id (fst s) of
       None \<Rightarrow> raise_exn (Exn ValueError ''cannot summarize an empty session branch'') s
     | Some from \<Rightarrow>
         bnd (\<lambda>s. map_option (\<lambda>r. (r, s)) (collect_entries_for_branch_summary (m_tree (fst s)) from to)) (\<lambda>p.
         bnd (in_world (generate_branch_summary p f)) (\<lambda>r.
         bnd (in_manager (\<lambda>m. navigate load app tm m (Some to) True)) (\<lambda>_.
         if br_summary r = [] then ret (None, r)
         else bnd (in_manager (\<lambda>m. append_branch_summary load app None fresh tm m (br_summary r)
                (bp_from_entry_id p) (bp_to_entry_id p) (Some (branch_details r)))) (\<lambda>e.
              ret (Some e, r))))) s)"

section \<open>Properties\<close>

lemma collect_wf:
  assumes "wf_tree t" and "known (t_entries t) (Some from)" and "known (t_entries t) (Some to)"
  shows "\<exists>p. collect_entries_for_branch_summary t from to = Some (Inr p) \<and>
    bp_from_entry_id p = from \<and> bp_to_entry_id p = to \<and>
    bp_messages p = map snd (message_entries (bp_entries p)) \<and>
    rev (chain_of (t_entries t) (Some from)) =
      rev (chain_of (t_entries t) (bp_common_ancestor_id p)) @ bp_entries p \<and>
    (\<forall>e \<in> set (bp_entries p). \<not> on_branch t (e_id e) (Some to))"
proof -
  let ?cf = "chain_of (t_entries t) (Some from)"
  obtain ef et where get: "tree_get t from = Inr ef" "tree_get t to = Inr et"
    using tree_get_known assms(2,3) by blast
  from nearest_common_ancestor [OF assms] obtain c where
    c: "common_ancestor t (Some from) (Some to) = Some (Inr c)" and
    spec: "case c of
        None \<Rightarrow> \<forall>k. \<not> (on_branch t k (Some from) \<and> on_branch t k (Some to))
      | Some a \<Rightarrow> on_branch t a (Some from) \<and> on_branch t a (Some to) \<and>
          (\<forall>k. on_branch t k (Some from) \<and> on_branch t k (Some to) \<longrightarrow> on_branch t k (Some a))" by blast
  show ?thesis
  proof (cases c)
    case None
    with c spec get assms(1,2) show ?thesis
      by (auto simp: collect_entries_for_branch_summary_def path_to_wf on_branch_def)
  next
    case (Some a)
    with spec have on: "on_branch t a (Some from)" by simp
    obtain e pre post where cf: "?cf = pre @ e # post"
      "dropWhile (\<lambda>x. e_id x \<noteq> a) (rev ?cf) = e # rev pre" "chain_of (t_entries t) (Some a) = e # post"
      "\<forall>x \<in> set pre. \<not> on_branch t (e_id x) (Some a)"
      by (rule branch_split [OF assms(1,2) on])
    have "\<not> on_branch t (e_id x) (Some to)" if "x \<in> set pre" for x
    proof
      assume "on_branch t (e_id x) (Some to)"
      moreover have "on_branch t (e_id x) (Some from)" using that cf(1) by (auto simp: on_branch_def)
      ultimately show False using spec Some cf(4) that by auto
    qed
    with c Some cf get assms(1,2) show ?thesis
      by (simp add: collect_entries_for_branch_summary_def path_to_wf)
  qed
qed

text \<open>What is collected for the summary of a branch is exactly the part of the branch that the
  target does not share: the path to the branch's end is the path to the common ancestor followed
  by the collected entries, none of which is on the target's branch, and the messages are those of
  the collected entries.\<close>

theorem collected_branch_correct:
  assumes "wf_tree t" and "known (t_entries t) (Some from)" and "known (t_entries t) (Some to)"
  shows "\<exists>p. collect_entries_for_branch_summary t from to = Some (Inr p) \<and>
    bp_from_entry_id p = from \<and> bp_to_entry_id p = to \<and>
    bp_messages p = map snd (message_entries (bp_entries p)) \<and>
    rev (chain_of (t_entries t) (Some from)) =
      rev (chain_of (t_entries t) (bp_common_ancestor_id p)) @ bp_entries p \<and>
    (\<forall>e \<in> set (bp_entries p). \<not> on_branch t (e_id e) (Some to))"
  by (rule collect_wf [OF assms])

lemma generate_branch_summary_returns: "\<exists>r w'. generate_branch_summary p f w = Some (r, w')"
  by (simp add: generate_branch_summary_def bnd_def call_hook_def ret_def Let_def split: prod.split sum.split)

lemma navigate_entries:
  assumes "memory.manager_ok m" and "known (t_entries (m_tree m)) i"
  obtains m' where "navigate memory_load memory_append tm m i True = (Inr (), m')" "memory.manager_ok m'"
    "manager_leaf_id m' = i" "t_entries (m_tree m') = t_entries (m_tree m)"
proof -
  from memory.navigate_ok [OF assms(1) TrueI, of i tm True] assms(2) obtain m' where
    m': "navigate memory_load memory_append tm m i True = (Inr (), m')" "memory.manager_ok m'"
    "manager_leaf_id m' = i" "l_records (m_loaded m') = l_records (m_loaded m) @ [CursorRecord i tm]"
    by auto
  have "in_step (l_records (m_loaded m)) (m_tree m)" "in_step (l_records (m_loaded m')) (m_tree m')"
    using assms(1) m'(2) by (simp_all add: memory.manager_ok_def)
  from in_step_tree(2) [OF memory.manager_ok_valid [OF assms(1)] this(1)]
    in_step_tree(2) [OF memory.manager_ok_valid [OF m'(2)] this(2)] m'(4)
    memory.manager_ok_valid [OF assms(1)]
  have "t_entries (m_tree m') = t_entries (m_tree m)" by (auto simp: valid_session_def)
  with m' show ?thesis by (intro that)
qed

lemma manager_tree_wf:
  assumes "memory.manager_ok m"
  shows "wf_tree (m_tree m)" "known (t_entries (m_tree m)) (manager_leaf_id m)"
proof -
  have step: "in_step (l_records (m_loaded m)) (m_tree m)" using assms by (simp add: memory.manager_ok_def)
  show "wf_tree (m_tree m)" by (rule in_step_tree(1) [OF memory.manager_ok_valid [OF assms] step])
  show "known (t_entries (m_tree m)) (manager_leaf_id m)" using step by (simp add: in_step_def manager_leaf_id_def)
qed

text \<open>C21: Leaving a branch with a summary: the call always returns or raises; when it raises, the
  session is as it was.  Otherwise the session is at the target, and when there is a summary to
  keep, the active branch is the target's path followed by one entry that holds it and names the
  branch it came from.\<close>

theorem branch_navigation_correct:
  assumes "memory.manager_ok m" and "fresh \<notin> fst ` set (t_entries (m_tree m))"
  shows "\<exists>r m' w'. summarize_and_navigate_branch memory_load memory_append fresh tm to f (m, w)
       = Some (r, (m', w')) \<and> (case r of
      Inl e \<Rightarrow> m' = m
    | Inr (eo, res) \<Rightarrow> memory.manager_ok m' \<and>
        (case eo of
           None \<Rightarrow> br_summary res = [] \<and> manager_leaf_id m' = Some to
         | Some e \<Rightarrow> br_summary res \<noteq> [] \<and>
             active_entries m' = Inr (rev (chain_of (t_entries (m_tree m)) (Some to)) @ [e]) \<and>
             (\<exists>b. e_body e = BranchSummaryEntry b \<and> b_summary b = br_summary res \<and>
                Some (b_from b) = manager_leaf_id m \<and> b_to b = to)))"
proof (cases "manager_leaf_id m")
  case None
  then show ?thesis by (simp add: summarize_and_navigate_branch_def prog_simps)
next
  case (Some src)
  note wf = manager_tree_wf [OF assms(1)]
  have leaf: "known (t_entries (m_tree m)) (Some src)" using wf(2) Some by simp
  show ?thesis
  proof (cases "known (t_entries (m_tree m)) (Some to)")
    case False
    with tree_get_known obtain e where e: "tree_get (m_tree m) to = Inl e" by (metis sum.exhaust)
    obtain ef where "tree_get (m_tree m) src = Inr ef" using tree_get_known leaf by blast
    with e Some show ?thesis
      by (simp add: summarize_and_navigate_branch_def collect_entries_for_branch_summary_def bnd_def)
  next
    case True
    from collect_wf [OF wf(1) leaf True] obtain p where
      p: "collect_entries_for_branch_summary (m_tree m) src to = Some (Inr p)"
      "bp_from_entry_id p = src" "bp_to_entry_id p = to" by blast
    obtain r w' where r: "generate_branch_summary p f w = Some (r, w')"
      using generate_branch_summary_returns by fast
    obtain m1 where m1: "navigate memory_load memory_append tm m (Some to) True = (Inr (), m1)"
      "memory.manager_ok m1" "manager_leaf_id m1 = Some to" "t_entries (m_tree m1) = t_entries (m_tree m)"
      by (rule navigate_entries [OF assms(1) True])
    show ?thesis
    proof (cases r)
      case (Inl e)
      with Some p r show ?thesis
        by (simp add: summarize_and_navigate_branch_def bnd_def in_world_def)
    next
      case (Inr res)
      show ?thesis
      proof (cases "br_summary res = []")
        case True
        with Some p r m1 Inr show ?thesis
          by (simp add: summarize_and_navigate_branch_def bnd_def in_world_def in_manager_def prog_simps)
      next
        case False
        define b where "b = BranchSummaryEntry \<lparr>b_summary = br_summary res, b_from = src,
          b_to = to, b_details = branch_details res\<rparr>"
        define e where "e = new_entry None fresh tm m1 b"
        have "entry_fits (t_entries (m_tree m1)) e"
          using assms(2) manager_tree_wf(2) [OF m1(2)] m1(3,4)
          by (simp add: entry_fits_def e_def new_entry_def or_fresh_def SessionManager.result_ok_def
              result_of_tool_def b_def)
        from memory_append_extends [OF m1(2) this [unfolded e_def]] obtain m2 es where
          m2: "manager_append memory_load memory_append tm m1 e = (Inr e, m2)" "memory.manager_ok m2"
          "active_entries m1 = Inr es" "active_entries m2 = Inr (es @ [e])" by (auto simp: e_def)
        have "es = rev (chain_of (t_entries (m_tree m)) (Some to))"
          using m2(3) manager_tree_wf [OF m1(2)] m1(3,4)
          by (simp add: active_entries_def active_path_def path_to_wf manager_leaf_id_def)
        moreover have "append_branch_summary memory_load memory_append None fresh tm m1 (br_summary res)
           src to (Some (branch_details res)) = (Inr e, m2)"
          using m2(1) by (simp add: append_branch_summary_def e_def b_def)
        moreover have "e_body e = b" by (simp add: e_def new_entry_def)
        ultimately show ?thesis using Some p r m1 m2 Inr False
          by (simp add: summarize_and_navigate_branch_def bnd_def in_world_def in_manager_def prog_simps b_def)
      qed
    qed
  qed
qed

theorem collected_branch_correct_witness:
  "\<exists>t p. session_tree_of demo_session = Inr t \<and>
     collect_entries_for_branch_summary t ''b'' ''c'' = Some (Inr p) \<and> map e_id (bp_entries p) = [''b'']"
proof -
  obtain t where t: "session_tree_of demo_session = Inr t" "wf_tree t"
    "known (t_entries t) (Some ''b'')" "known (t_entries t) (Some ''c'')" by (rule demo_tree)
  have "case session_tree_of demo_session of Inl _ \<Rightarrow> False | Inr t \<Rightarrow>
     (case collect_entries_for_branch_summary t ''b'' ''c'' of
        Some (Inr p) \<Rightarrow> map e_id (bp_entries p) = [''b''] | _ \<Rightarrow> False)" by code_simp
  with collected_branch_correct [OF t(2,3,4)] t(1) show ?thesis by auto
qed

theorem branch_navigation_correct_witness:
  "\<exists>m e res m' w'. manager_open memory_load chat_session = Inr m \<and>
     summarize_and_navigate_branch memory_load memory_append ''6'' 7 ''3'' (chat_summarizer ''done'')
       (m, ()) = Some (Inr (Some e, res), (m', w')) \<and>
     (\<exists>b. e_body e = BranchSummaryEntry b \<and> b_summary b = ''done'' \<and> Some (b_from b) = manager_leaf_id m)"
proof -
  obtain m where m: "manager_open memory_load chat_session = Inr m" "memory.manager_ok m"
    "active_entries m = Inr chat_path" "''6'' \<notin> fst ` set (t_entries (m_tree m))" by (rule chat_manager)
  obtain r m' w' where run: "summarize_and_navigate_branch memory_load memory_append ''6'' 7 ''3''
      (chat_summarizer ''done'') (m, ()) = Some (r, (m', w'))" "case r of
      Inl e \<Rightarrow> m' = m
    | Inr (eo, res) \<Rightarrow> memory.manager_ok m' \<and>
        (case eo of
           None \<Rightarrow> br_summary res = [] \<and> manager_leaf_id m' = Some ''3''
         | Some e \<Rightarrow> br_summary res \<noteq> [] \<and>
             active_entries m' = Inr (rev (chain_of (t_entries (m_tree m)) (Some ''3'')) @ [e]) \<and>
             (\<exists>b. e_body e = BranchSummaryEntry b \<and> b_summary b = br_summary res \<and>
                Some (b_from b) = manager_leaf_id m \<and> b_to b = ''3''))"
    using branch_navigation_correct [OF m(2,4), of 7 "''3''" "chat_summarizer ''done''" "()"] by blast
  have "case manager_open memory_load chat_session of Inl _ \<Rightarrow> False | Inr m \<Rightarrow>
     (case summarize_and_navigate_branch memory_load memory_append ''6'' 7 ''3''
        (chat_summarizer ''done'') (m, ()) of
        Some (Inr (Some _, res), _) \<Rightarrow> br_summary res = ''done'' | _ \<Rightarrow> False)" by code_simp
  then obtain e res where "r = Inr (Some e, res)" "br_summary res = ''done''"
    using m(1) run(1) by (auto split: sum.splits option.splits)
  with run m(1) show ?thesis by auto
qed

end
