(* ===== verification/Queues.thy ===== *)
theory Queues
  imports AgentTypes
begin

text \<open>
  The message queues of an agent (\<^verbatim>\<open>src/pi_agent/agent/queues.py\<close>) and what their users
  rely on: whatever is pushed comes out once, in order, and a queue that is drained again and again
  runs empty.
\<close>

section \<open>The queue\<close>

text \<open>The mode is an attribute that callers may assign directly, so it is any text; only the
  constructor and \<^verbatim>\<open>set_mode\<close> validate it.\<close>

record message_queue =
  mq_mode :: string
  mq_items :: "agent_message list"

definition validate_mode :: "string \<Rightarrow> (exn, unit) result" where
  "validate_mode mode =
     (if mode \<in> {''all'', ''one-at-a-time''} then Inr ()
      else Inl (Exn ValueError (''Unsupported queue mode: '' @ py_repr_str mode)))"

definition new_queue :: "string \<Rightarrow> (exn, message_queue) result" where
  "new_queue mode = bindE (validate_mode mode) (\<lambda>_. Inr \<lparr>mq_mode = mode, mq_items = []\<rparr>)"

definition queue_push :: "agent_message \<Rightarrow> message_queue \<Rightarrow> message_queue" where
  "queue_push m q = q\<lparr>mq_items := mq_items q @ [m]\<rparr>"

definition queue_drain :: "message_queue \<Rightarrow> agent_message list \<times> message_queue" where
  "queue_drain q =
     (if mq_items q = [] then ([], q)
      else if mq_mode q = ''one-at-a-time'' then ([hd (mq_items q)], q\<lparr>mq_items := tl (mq_items q)\<rparr>)
      else (mq_items q, q\<lparr>mq_items := []\<rparr>))"

definition queue_clear :: "message_queue \<Rightarrow> message_queue" where
  "queue_clear q = q\<lparr>mq_items := []\<rparr>"

definition set_mode :: "string \<Rightarrow> message_queue \<Rightarrow> (exn, message_queue) result" where
  "set_mode mode q = bindE (validate_mode mode) (\<lambda>_. Inr (q\<lparr>mq_mode := mode\<rparr>))"

definition queue_size :: "message_queue \<Rightarrow> nat" where
  "queue_size q = length (mq_items q)"

lemmas queue_defs = queue_push_def queue_drain_def queue_clear_def queue_size_def

section \<open>What a user of a queue relies on\<close>

datatype 'm queue_op = PushOp 'm | DrainOp

text \<open>The messages handed out by a sequence of operations, and the queue that is left.\<close>

fun serve ::
  "('m \<Rightarrow> 'q \<Rightarrow> 'q) \<Rightarrow> ('q \<Rightarrow> 'm list \<times> 'q) \<Rightarrow> 'm queue_op list \<Rightarrow> 'q \<Rightarrow> 'm list \<times> 'q" where
  "serve push drain [] q = ([], q)"
| "serve push drain (PushOp m # ops) q = serve push drain ops (push m q)"
| "serve push drain (DrainOp # ops) q =
     (case drain q of (ms, q') \<Rightarrow> case serve push drain ops q' of (ms', q'') \<Rightarrow> (ms @ ms', q''))"

fun pushed :: "'m queue_op list \<Rightarrow> 'm list" where
  "pushed [] = []"
| "pushed (PushOp m # ops) = m # pushed ops"
| "pushed (DrainOp # ops) = pushed ops"

locale message_source =
  fixes push :: "'m \<Rightarrow> 'q \<Rightarrow> 'q"
    and drain :: "'q \<Rightarrow> 'm list \<times> 'q"
    and items :: "'q \<Rightarrow> 'm list"
  assumes items_push: "items (push m q) = items q @ [m]"
    and items_drain: "items q = fst (drain q) @ items (snd (drain q))"
    and drain_progress: "items q \<noteq> [] \<Longrightarrow> fst (drain q) \<noteq> []"
begin

lemma first_in_first_out: "fst (serve push drain ops q) @ items (snd (serve push drain ops q)) = items q @ pushed ops"
proof (induction ops arbitrary: q)
  case (Cons op ops)
  show ?case
  proof (cases op)
    case (PushOp m)
    with Cons show ?thesis by (simp add: items_push)
  next
    case DrainOp
    then show ?thesis using Cons [of "snd (drain q)"] items_drain [of q]
      by (simp add: case_prod_beta)
  qed
qed simp

lemma drain_shrinks: "items q \<noteq> [] \<Longrightarrow> length (items (snd (drain q))) < length (items q)"
  using items_drain [of q] drain_progress [of q]
  by (metis append_self_conv2 length_append length_greater_0_conv less_add_same_cancel2)

lemma drain_empty: "items q = [] \<Longrightarrow> fst (drain q) = [] \<and> items (snd (drain q)) = []"
  using items_drain [of q] by simp

lemma drains_to_empty:
  "length (items q) \<le> n \<Longrightarrow>
     items (snd (serve push drain (replicate n DrainOp) q)) = [] \<and> fst (serve push drain (replicate n DrainOp) q) = items q"
proof (induction n arbitrary: q)
  case (Suc n)
  have "length (items (snd (drain q))) \<le> n"
  proof (cases "items q = []")
    case True
    then show ?thesis using drain_empty [of q] by simp
  next
    case False
    then show ?thesis using drain_shrinks [of q] Suc.prems by linarith
  qed
  with Suc.IH [of "snd (drain q)"] items_drain [of q] show ?case by (simp add: case_prod_beta)
qed simp

end

text \<open>A source that hands out at most one message at a time, in the states where \<open>single\<close> holds.\<close>

locale single_source = message_source push drain items
  for push :: "'m \<Rightarrow> 'q \<Rightarrow> 'q" and drain :: "'q \<Rightarrow> 'm list \<times> 'q" and items :: "'q \<Rightarrow> 'm list" +
  fixes single :: "'q \<Rightarrow> bool"
  assumes drain_single: "single q \<Longrightarrow> length (fst (drain q)) \<le> 1"
    and single_push: "single q \<Longrightarrow> single (push m q)"
    and single_drain: "single q \<Longrightarrow> single (snd (drain q))"
begin

lemma drain_first: "single q \<Longrightarrow> items q = m # ms \<Longrightarrow> fst (drain q) = [m] \<and> items (snd (drain q)) = ms"
  using drain_single [of q] drain_progress [of q] items_drain [of q]
  by (cases "fst (drain q)") auto

lemma serve_single: "single q \<Longrightarrow> single (snd (serve push drain ops q))"
proof (induction ops arbitrary: q)
  case (Cons op ops)
  then show ?case by (cases op) (simp_all add: case_prod_beta single_push single_drain)
qed simp

end

interpretation mq: single_source queue_push queue_drain mq_items "\<lambda>q. mq_mode q = ''one-at-a-time''"
  by unfold_locales (auto simp: queue_defs)

section \<open>Properties\<close>

text \<open>C17: A message queue loses, duplicates and reorders nothing: what its drains handed out, followed by
  what it still holds, is what it held at first followed by what was pushed, in whatever mode it
  is.  Draining it as many times as it holds messages hands out all of them and empties it.\<close>

theorem queue_first_in_first_out:
  "fst (serve queue_push queue_drain ops q) @ mq_items (snd (serve queue_push queue_drain ops q))
     = mq_items q @ pushed ops \<and>
   fst (serve queue_push queue_drain (replicate (queue_size q) DrainOp) q) = mq_items q \<and>
   queue_size (snd (serve queue_push queue_drain (replicate (queue_size q) DrainOp) q)) = 0"
  using mq.first_in_first_out mq.drains_to_empty [of q "queue_size q"] by (simp add: queue_size_def)

end
