(* ===== verification/ToolBatch.thy ===== *)
theory ToolBatch
  imports AgentTypes
begin

text \<open>
  Executing the tool calls of one assistant message
  (\<^verbatim>\<open>src/pi_agent/agent/agent_loop.py\<close>, from \<^verbatim>\<open>_execute_tool_batch\<close> on).
  In a parallel batch the prepared calls run as tasks; \<open>ev_schedule\<close> says which task makes
  its next step, and the tasks left when the schedule is used up finish in order.  A step of a
  task is the execution of the tool, the emission of one progress report, or its completion.  When
  a task raises, the batch raises; what the cancelled tasks still do to the world is not modelled.
\<close>

section \<open>Outcomes\<close>

record 'w prepared_tool_call =
  pt_index :: nat
  pt_call :: tool_call
  pt_tool :: "'w agent_tool"
  pt_args :: jobject

record tool_outcome =
  oc_index :: nat
  oc_call :: tool_call
  oc_args :: jobject
  oc_result :: agent_tool_result
  oc_is_error :: bool

definition text_result :: "string \<Rightarrow> bool \<Rightarrow> agent_tool_result" where
  "text_result msg term =
     \<lparr>tr_content = [TextContent msg JNull], tr_details = JObj [], tr_usage = None,
      tr_added_tool_names = JNull, tr_terminate = term, tr_is_error = False\<rparr>"

definition failed_tool_result :: "string \<Rightarrow> agent_tool_result" where
  "failed_tool_result msg = text_result msg False"

definition truncated_tool_text :: "string \<Rightarrow> string" where
  "truncated_tool_text name =
     ''Tool call \"'' @ name @ ''\" was not executed: the response hit the output token limit, ''
       @ ''so its arguments may be truncated. Re-issue the tool call with complete arguments.''"

definition failed_outcome :: "nat \<Rightarrow> tool_call \<Rightarrow> jobject \<Rightarrow> agent_tool_result \<Rightarrow> tool_outcome" where
  "failed_outcome i c args r =
     \<lparr>oc_index = i, oc_call = c, oc_args = args, oc_result = r, oc_is_error = True\<rparr>"

definition aborted_text :: "exn \<Rightarrow> string" where
  "aborted_text e = (if exn_text e = [] then ''Operation aborted'' else exn_text e)"

section \<open>Preparing a call\<close>

text \<open>The three \<^verbatim>\<open>except\<close> clauses of \<^verbatim>\<open>_prepare_tool_call\<close>.\<close>

definition prepare_failed :: "nat \<Rightarrow> tool_call \<Rightarrow> jobject \<Rightarrow> exn \<Rightarrow> tool_outcome" where
  "prepare_failed i c args e = failed_outcome i c args (failed_tool_result
     (if exn_class e = CancelledError then aborted_text e
      else if exn_class e = ToolArgumentsError
      then ''Invalid arguments for tool '' @ tc_name c @ '': '' @ exn_text e
      else exn_text e))"

definition prepared_arguments ::
  "'w environment \<Rightarrow> 'w agent_tool \<Rightarrow> jobject \<Rightarrow> ('w run_state, jobject) prog" where
  "prepared_arguments env tool args =
     thn (raise_if_cancelled env)
       (case t_prepare_arguments tool of
          None \<Rightarrow> ret args
        | Some f \<Rightarrow> bnd (hook (f args)) (\<lambda>v. case v of
              JObj args' \<Rightarrow> ret args'
            | _ \<Rightarrow> raise_exn (Exn ToolArgumentsError ''prepared arguments must be an object'')))"

definition before_call ::
  "'w agent_loop_config \<Rightarrow> assistant_message \<Rightarrow> nat \<Rightarrow> tool_call \<Rightarrow> 'w agent_tool \<Rightarrow> jobject
     \<Rightarrow> ('w run_state, 'w prepared_tool_call + tool_outcome) prog" where
  "before_call cfg assistant i c tool args =
     (let go = ret (Inl \<lparr>pt_index = i, pt_call = c, pt_tool = tool, pt_args = args\<rparr>) in
      case cf_before_tool_call cfg of
        None \<Rightarrow> go
      | Some f \<Rightarrow>
          bnd (readS rs_context) (\<lambda>ctx.
          bnd (hook (f \<lparr>bc_assistant_message = assistant, bc_tool_call = c, bc_args = args,
                        bc_context = ctx\<rparr>)) (\<lambda>d.
          case d of
            None \<Rightarrow> go
          | Some b \<Rightarrow>
              if br_block b then
                ret (Inr (failed_outcome i c args
                  (text_result
                     (case br_reason b of
                        Some (ch # r) \<Rightarrow> ch # r
                      | _ \<Rightarrow> ''Tool '' @ tc_name c @ '' was blocked'')
                     (br_terminate b))))
              else go)))"

definition prepare_tool_call ::
  "'w environment \<Rightarrow> 'w agent_loop_config \<Rightarrow> assistant_message \<Rightarrow> nat \<Rightarrow> tool_call
     \<Rightarrow> ('w run_state, 'w prepared_tool_call + tool_outcome) prog" where
  "prepare_tool_call env cfg assistant i c =
     (let args = tc_arguments c in
      bnd (readS (\<lambda>s. find (\<lambda>t. t_name t = tc_name c) (cx_tools (rs_context s)))) (\<lambda>found.
      case found of
        None \<Rightarrow> ret (Inr (failed_outcome i c args
                  (failed_tool_result (''Tool '' @ tc_name c @ '' not found''))))
      | Some tool \<Rightarrow>
          bnd (catch (bnd (prepared_arguments env tool args) (\<lambda>a. ret (Inl a)))
                     (\<lambda>e. ret (Inr (prepare_failed i c args e)))) (\<lambda>r.
          case r of
            Inr oc \<Rightarrow> ret (Inr oc)
          | Inl args' \<Rightarrow>
              catch (thn (of_result (validate_json_schema (ev_re_search env) (JObj args')
                                       (t_parameters tool) ''$''))
                         (before_call cfg assistant i c tool args'))
                    (\<lambda>e. ret (Inr (prepare_failed i c args' e))))))"

section \<open>Running a prepared call\<close>

text \<open>The \<^verbatim>\<open>except\<close> clauses of \<^verbatim>\<open>_run_prepared_tool\<close>.  The timeout
  message formats the tool's timeout, which raises \<^verbatim>\<open>TypeError\<close> when the tool has none
  and raised the \<^verbatim>\<open>TimeoutError\<close> itself.\<close>

definition tool_failure :: "'w prepared_tool_call \<Rightarrow> exn \<Rightarrow> exn + agent_tool_result \<times> bool" where
  "tool_failure p e =
     (if exn_class e = TimeoutError then
        (case t_timeout (pt_tool p) of
           Some t \<Rightarrow> Inr (failed_tool_result
             (''Tool '' @ tc_name (pt_call p) @ '' timed out after '' @ format_g t @ ''s''), True)
         | None \<Rightarrow> Inl (Exn TypeError ''unsupported format string passed to NoneType.__format__''))
      else if exn_class e = CancelledError then Inr (failed_tool_result (aborted_text e), True)
      else Inr (failed_tool_result (exn_text e), True))"

definition start_tool ::
  "'w environment \<Rightarrow> 'w prepared_tool_call
     \<Rightarrow> ('w run_state, agent_tool_result list \<times> (exn + agent_tool_result \<times> bool)) prog" where
  "start_tool env p s =
     (case ev_cancelled env (rs_world s) of
        Some reason \<Rightarrow> Some (Inr ([], tool_failure p (Exn CancelledError reason)), s)
      | None \<Rightarrow>
          (case t_execute (pt_tool p) (tc_id (pt_call p)) (pt_args p) (rs_world s) of
             ((ups, r), w) \<Rightarrow>
               Some (Inr (ups,
                 (case r of
                    Inl e \<Rightarrow> tool_failure p e
                  | Inr res \<Rightarrow>
                      (case ev_cancelled env w of
                         Some reason \<Rightarrow> tool_failure p (Exn CancelledError reason)
                       | None \<Rightarrow> Inr (res, tr_is_error res)))),
                 s\<lparr>rs_world := w\<rparr>)))"

definition apply_after_tool_override ::
  "agent_tool_result \<Rightarrow> bool \<Rightarrow> after_tool_call_result \<Rightarrow> agent_tool_result \<times> bool" where
  "apply_after_tool_override r err ov =
     (r\<lparr>tr_content := (case ar_content ov of Some c \<Rightarrow> c | None \<Rightarrow> tr_content r),
        tr_details := (if ar_replace_details ov \<or> ar_details ov \<noteq> JNull then ar_details ov
                       else tr_details r),
        tr_usage := (if ar_replace_usage ov \<or> ar_usage ov \<noteq> None then ar_usage ov else tr_usage r),
        tr_terminate := (case ar_terminate ov of Some t \<Rightarrow> t | None \<Rightarrow> tr_terminate r)\<rparr>,
      case ar_is_error ov of Some b \<Rightarrow> b | None \<Rightarrow> err)"

definition finish_tool ::
  "'w agent_loop_config \<Rightarrow> assistant_message \<Rightarrow> 'w prepared_tool_call \<Rightarrow> agent_tool_result \<times> bool
     \<Rightarrow> ('w run_state, tool_outcome) prog" where
  "finish_tool cfg assistant p rb =
     bnd (case cf_after_tool_call cfg of
            None \<Rightarrow> ret rb
          | Some f \<Rightarrow>
              catch (bnd (readS rs_context) (\<lambda>ctx.
                     bnd (hook (f \<lparr>ac_assistant_message = assistant, ac_tool_call = pt_call p,
                                   ac_args = pt_args p, ac_result = fst rb, ac_is_error = snd rb,
                                   ac_context = ctx\<rparr>)) (\<lambda>ov.
                     ret (case ov of None \<Rightarrow> rb
                          | Some o' \<Rightarrow> apply_after_tool_override (fst rb) (snd rb) o'))))
                    (\<lambda>e. if exn_class e = CancelledError then raise_exn e
                         else ret (failed_tool_result (exn_text e), True)))
         (\<lambda>rb'. ret \<lparr>oc_index = pt_index p, oc_call = pt_call p, oc_args = pt_args p,
                     oc_result = fst rb', oc_is_error = snd rb'\<rparr>)"

definition emit_update ::
  "'w environment \<Rightarrow> 'w prepared_tool_call \<Rightarrow> agent_tool_result \<Rightarrow> ('w run_state, unit) prog" where
  "emit_update env p u = emit env
     (ToolExecutionUpdateEvent (tc_id (pt_call p)) (tc_name (pt_call p)) (pt_args p) u)"

definition run_prepared_tool ::
  "'w environment \<Rightarrow> 'w agent_loop_config \<Rightarrow> assistant_message \<Rightarrow> 'w prepared_tool_call
     \<Rightarrow> ('w run_state, tool_outcome) prog" where
  "run_prepared_tool env cfg assistant p =
     bnd (start_tool env p) (\<lambda>ur.
     thn (each (emit_update env p) (fst ur))
         (bnd (of_result (snd ur)) (finish_tool cfg assistant p)))"

section \<open>Events and messages of an outcome\<close>

definition emit_tool_start :: "'w environment \<Rightarrow> tool_call \<Rightarrow> ('w run_state, unit) prog" where
  "emit_tool_start env c = emit env (ToolExecutionStartEvent (tc_id c) (tc_name c) (tc_arguments c))"

definition emit_tool_end :: "'w environment \<Rightarrow> tool_outcome \<Rightarrow> ('w run_state, unit) prog" where
  "emit_tool_end env oc = emit env
     (ToolExecutionEndEvent (tc_id (oc_call oc)) (tc_name (oc_call oc)) (oc_result oc) (oc_is_error oc)
        (oc_args oc))"

definition outcome_message :: "tool_outcome \<Rightarrow> int \<Rightarrow> tool_result_message" where
  "outcome_message oc t =
     \<lparr>trm_tool_call_id = tc_id (oc_call oc), trm_tool_name = tc_name (oc_call oc),
      trm_content = tr_content (oc_result oc), trm_details = tr_details (oc_result oc),
      trm_usage = tr_usage (oc_result oc), trm_added_tool_names = tr_added_tool_names (oc_result oc),
      trm_is_error = oc_is_error oc, trm_timestamp = t\<rparr>"

definition tool_message :: "tool_result_message \<Rightarrow> agent_message" where
  "tool_message m = LlmMsg (ToolResultMessage m)"

definition emit_tool_result_message ::
  "'w environment \<Rightarrow> tool_outcome \<Rightarrow> ('w run_state, tool_result_message) prog" where
  "emit_tool_result_message env oc =
     bnd (now env) (\<lambda>t. let m = outcome_message oc t in
     thn (emit env (MessageStartEvent (tool_message m)))
    (thn (emit env (MessageEndEvent (tool_message m)))
         (ret m)))"

text \<open>The message is emitted, then recorded in the context and among the new messages.\<close>

definition record_outcome ::
  "'w environment \<Rightarrow> tool_outcome \<Rightarrow> ('w run_state, tool_result_message) prog" where
  "record_outcome env oc =
     bnd (emit_tool_result_message env oc) (\<lambda>m.
     thn (put_context (tool_message m)) (thn (put_new (tool_message m)) (ret m)))"

section \<open>Batches\<close>

type_synonym 'w batch_result = "('w run_state, tool_result_message list \<times> tool_outcome list) prog"

text \<open>The response hit the token limit: no call is executed.\<close>

fun truncated_batch :: "'w environment \<Rightarrow> nat \<Rightarrow> tool_call list \<Rightarrow> 'w batch_result" where
  "truncated_batch env i [] = ret ([], [])"
| "truncated_batch env i (c # cs) =
     (let oc = failed_outcome i c (tc_arguments c)
                 (failed_tool_result (truncated_tool_text (tc_name c))) in
      thn (emit_tool_start env c)
     (thn (emit_tool_end env oc)
     (bnd (record_outcome env oc) (\<lambda>m.
      bnd (truncated_batch env (Suc i) cs) (\<lambda>r. ret (m # fst r, oc # snd r))))))"

definition prepare_and_run ::
  "'w environment \<Rightarrow> 'w agent_loop_config \<Rightarrow> assistant_message \<Rightarrow> nat \<Rightarrow> tool_call
     \<Rightarrow> ('w run_state, tool_outcome) prog" where
  "prepare_and_run env cfg assistant i c =
     bnd (prepare_tool_call env cfg assistant i c) (\<lambda>r. case r of
       Inl p \<Rightarrow> run_prepared_tool env cfg assistant p
     | Inr oc \<Rightarrow> ret oc)"

fun sequential_batch ::
  "'w environment \<Rightarrow> 'w agent_loop_config \<Rightarrow> assistant_message \<Rightarrow> nat \<Rightarrow> tool_call list \<Rightarrow> 'w batch_result" where
  "sequential_batch env cfg assistant i [] = ret ([], [])"
| "sequential_batch env cfg assistant i (c # cs) =
     thn (emit_tool_start env c)
    (bnd (prepare_and_run env cfg assistant i c) (\<lambda>oc.
     thn (emit_tool_end env oc)
    (bnd (record_outcome env oc) (\<lambda>m.
     bnd (readS (cancelled env)) (\<lambda>stop.
     if stop then ret ([m], [oc])
     else bnd (sequential_batch env cfg assistant (Suc i) cs) (\<lambda>r.
          ret (m # fst r, oc # snd r)))))))"

text \<open>The first loop of a parallel batch: the prepared calls, and the outcomes known at once.\<close>

fun prepare_all ::
  "'w environment \<Rightarrow> 'w agent_loop_config \<Rightarrow> assistant_message \<Rightarrow> nat \<Rightarrow> tool_call list
     \<Rightarrow> ('w run_state, 'w prepared_tool_call list \<times> (nat \<times> tool_outcome) list) prog" where
  "prepare_all env cfg assistant i [] = ret ([], [])"
| "prepare_all env cfg assistant i (c # cs) =
     thn (emit_tool_start env c)
    (bnd (prepare_tool_call env cfg assistant i c) (\<lambda>r. case r of
       Inl p \<Rightarrow> bnd (prepare_all env cfg assistant (Suc i) cs) (\<lambda>q. ret (p # fst q, snd q))
     | Inr oc \<Rightarrow>
         thn (emit_tool_end env oc)
        (bnd (prepare_all env cfg assistant (Suc i) cs) (\<lambda>q. ret (fst q, (i, oc) # snd q)))))"

text \<open>A task: not started, emitting its progress reports, or done.\<close>

datatype 'w tool_task =
    TaskNew "'w prepared_tool_call"
  | TaskUpdating "'w prepared_tool_call" "agent_tool_result list" "exn + agent_tool_result \<times> bool"
  | TaskDone

definition complete_task ::
  "'w environment \<Rightarrow> 'w agent_loop_config \<Rightarrow> assistant_message \<Rightarrow> 'w prepared_tool_call
     \<Rightarrow> exn + agent_tool_result \<times> bool \<Rightarrow> ('w run_state, (nat \<times> tool_outcome) list) prog" where
  "complete_task env cfg assistant p r =
     bnd (of_result r) (\<lambda>rb.
     bnd (finish_tool cfg assistant p rb) (\<lambda>oc.
     thn (emit_tool_end env oc) (ret [(oc_index oc, oc)])))"

text \<open>One step: the task's next state and the outcome it completed with, if any.\<close>

fun step_task ::
  "'w environment \<Rightarrow> 'w agent_loop_config \<Rightarrow> assistant_message \<Rightarrow> 'w tool_task
     \<Rightarrow> ('w run_state, 'w tool_task \<times> (nat \<times> tool_outcome) list) prog" where
  "step_task env cfg assistant (TaskNew p) =
     bnd (start_tool env p) (\<lambda>ur. ret (TaskUpdating p (fst ur) (snd ur), []))"
| "step_task env cfg assistant (TaskUpdating p (u # us) r) =
     thn (emit_update env p u) (ret (TaskUpdating p us r, []))"
| "step_task env cfg assistant (TaskUpdating p [] r) =
     bnd (complete_task env cfg assistant p r) (\<lambda>o'. ret (TaskDone, o'))"
| "step_task env cfg assistant TaskDone = ret (TaskDone, [])"

fun finish_task ::
  "'w environment \<Rightarrow> 'w agent_loop_config \<Rightarrow> assistant_message \<Rightarrow> 'w tool_task
     \<Rightarrow> ('w run_state, (nat \<times> tool_outcome) list) prog" where
  "finish_task env cfg assistant (TaskNew p) =
     bnd (start_tool env p) (\<lambda>ur.
     thn (each (emit_update env p) (fst ur)) (complete_task env cfg assistant p (snd ur)))"
| "finish_task env cfg assistant (TaskUpdating p us r) =
     thn (each (emit_update env p) us) (complete_task env cfg assistant p r)"
| "finish_task env cfg assistant TaskDone = ret []"

fun finish_tasks ::
  "'w environment \<Rightarrow> 'w agent_loop_config \<Rightarrow> assistant_message \<Rightarrow> 'w tool_task list
     \<Rightarrow> ('w run_state, (nat \<times> tool_outcome) list) prog" where
  "finish_tasks env cfg assistant [] = ret []"
| "finish_tasks env cfg assistant (t # ts) =
     bnd (finish_task env cfg assistant t) (\<lambda>o1.
     bnd (finish_tasks env cfg assistant ts) (\<lambda>o2. ret (o1 @ o2)))"

text \<open>Completed outcomes are collected as \<^verbatim>\<open>outcomes[index] = outcome\<close>.\<close>

fun run_tasks ::
  "'w environment \<Rightarrow> 'w agent_loop_config \<Rightarrow> assistant_message \<Rightarrow> nat list \<Rightarrow> 'w tool_task list
     \<Rightarrow> ('w run_state, (nat \<times> tool_outcome) list) prog" where
  "run_tasks env cfg assistant [] ts = finish_tasks env cfg assistant ts"
| "run_tasks env cfg assistant (k # ks) ts =
     (if k < length ts then
        bnd (step_task env cfg assistant (ts ! k)) (\<lambda>r.
        bnd (run_tasks env cfg assistant ks (ts[k := fst r])) (\<lambda>o2. ret (snd r @ o2)))
      else run_tasks env cfg assistant ks ts)"

definition in_call_order :: "nat \<Rightarrow> (nat \<times> tool_outcome) list \<Rightarrow> tool_outcome list" where
  "in_call_order n outs =
     concat (map (\<lambda>i. case map_of outs i of None \<Rightarrow> [] | Some oc \<Rightarrow> [oc]) [0..<n])"

fun record_outcomes :: "'w environment \<Rightarrow> tool_outcome list \<Rightarrow> ('w run_state, tool_result_message list) prog" where
  "record_outcomes env [] = ret []"
| "record_outcomes env (oc # ocs) =
     bnd (record_outcome env oc) (\<lambda>m.
     bnd (record_outcomes env ocs) (\<lambda>ms. ret (m # ms)))"

definition parallel_batch ::
  "'w environment \<Rightarrow> 'w agent_loop_config \<Rightarrow> assistant_message \<Rightarrow> tool_call list \<Rightarrow> 'w batch_result" where
  "parallel_batch env cfg assistant calls =
     bnd (prepare_all env cfg assistant 0 calls) (\<lambda>po.
     bnd (readS (\<lambda>s. ev_schedule env (rs_world s))) (\<lambda>ks.
     bnd (run_tasks env cfg assistant ks (map TaskNew (fst po))) (\<lambda>outs.
     let ordered = in_call_order (length calls) (snd po @ outs) in
     bnd (record_outcomes env ordered) (\<lambda>ms. ret (ms, ordered)))))"

definition effective_mode :: "'w agent_loop_config \<Rightarrow> 'w agent_tool list \<Rightarrow> tool_call list \<Rightarrow> execution_mode" where
  "effective_mode cfg tools calls =
     (let by_name = map_of (rev (map (\<lambda>t. (t_name t, t)) tools)) in
      if \<exists>c \<in> set calls. (case by_name (tc_name c) of
            None \<Rightarrow> False | Some t \<Rightarrow> t_execution_mode t = Sequential)
      then Sequential else cf_tool_execution cfg)"

definition execute_tool_batch ::
  "'w environment \<Rightarrow> 'w agent_loop_config \<Rightarrow> assistant_message \<Rightarrow> tool_call list \<Rightarrow> 'w batch_result" where
  "execute_tool_batch env cfg assistant calls =
     (if calls = [] then ret ([], [])
      else if am_stop_reason assistant = JStr ''length'' then truncated_batch env 0 calls
      else bnd (readS (\<lambda>s. cx_tools (rs_context s))) (\<lambda>tools.
           case effective_mode cfg tools calls of
             Sequential \<Rightarrow> sequential_batch env cfg assistant 0 calls
           | Parallel \<Rightarrow> parallel_batch env cfg assistant calls))"

end
