(* ===== verification/AgentTrace.thy ===== *)
theory AgentTrace
  imports ToolBatch
begin

text \<open>
  What the events of a run must look like, as an automaton over the emitted events, and the
  vocabulary in which the steps of the loop are specified: \<open>adds s s' evs ms\<close> says that going from
  \<open>s\<close> to \<open>s'\<close> emitted the events \<open>evs\<close>, all of them inside a turn, and added the messages \<open>ms\<close> to
  the event log, to the context and to the new messages alike.
\<close>

section \<open>The life cycle of a run\<close>

datatype phase = Idle | BetweenTurns | InTurn | InMessage | Finished

fun next_phase :: "phase \<Rightarrow> agent_event \<Rightarrow> phase option" where
  "next_phase Idle AgentStartEvent = Some BetweenTurns"
| "next_phase BetweenTurns TurnStartEvent = Some InTurn"
| "next_phase BetweenTurns (AgentEndEvent _) = Some Finished"
| "next_phase InTurn (MessageStartEvent _) = Some InMessage"
| "next_phase InTurn (ToolExecutionStartEvent _ _ _) = Some InTurn"
| "next_phase InTurn (ToolExecutionUpdateEvent _ _ _ _) = Some InTurn"
| "next_phase InTurn (ToolExecutionEndEvent _ _ _ _ _) = Some InTurn"
| "next_phase InTurn (TurnEndEvent _ _) = Some BetweenTurns"
| "next_phase InMessage (MessageUpdateEvent _ _) = Some InMessage"
| "next_phase InMessage (MessageEndEvent _) = Some InTurn"
| "next_phase _ _ = None"

fun accepts :: "phase \<Rightarrow> agent_event list \<Rightarrow> phase option" where
  "accepts p [] = Some p"
| "accepts p (ev # evs) = (case next_phase p ev of None \<Rightarrow> None | Some q \<Rightarrow> accepts q evs)"

lemma accepts_append:
  "accepts p (xs @ ys) = (case accepts p xs of None \<Rightarrow> None | Some q \<Rightarrow> accepts q ys)"
  by (induction xs arbitrary: p) (auto split: option.split)

fun ended_message :: "agent_event \<Rightarrow> agent_message list" where
  "ended_message (MessageEndEvent m) = [m]" | "ended_message _ = []"

fun started_call :: "agent_event \<Rightarrow> string list" where
  "started_call (ToolExecutionStartEvent i _ _) = [i]" | "started_call _ = []"

fun ended_call :: "agent_event \<Rightarrow> string list" where
  "ended_call (ToolExecutionEndEvent i _ _ _ _) = [i]" | "ended_call _ = []"

definition ended_messages :: "agent_event list \<Rightarrow> agent_message list" where
  "ended_messages evs = concat (map ended_message evs)"

definition started_calls :: "agent_event list \<Rightarrow> string list" where
  "started_calls evs = concat (map started_call evs)"

definition ended_calls :: "agent_event list \<Rightarrow> string list" where
  "ended_calls evs = concat (map ended_call evs)"

lemma trace_views [simp]:
  "ended_messages [] = []" "ended_messages (ev # evs) = ended_message ev @ ended_messages evs"
  "ended_messages (xs @ ys) = ended_messages xs @ ended_messages ys"
  "started_calls [] = []" "started_calls (ev # evs) = started_call ev @ started_calls evs"
  "started_calls (xs @ ys) = started_calls xs @ started_calls ys"
  "ended_calls [] = []" "ended_calls (ev # evs) = ended_call ev @ ended_calls evs"
  "ended_calls (xs @ ys) = ended_calls xs @ ended_calls ys"
  by (simp_all add: ended_messages_def started_calls_def ended_calls_def)

text \<open>Events that belong inside a turn.\<close>

fun inner :: "agent_event \<Rightarrow> bool" where
  "inner AgentStartEvent = False"
| "inner (AgentEndEvent _) = False"
| "inner TurnStartEvent = False"
| "inner (TurnEndEvent _ _) = False"
| "inner _ = True"

section \<open>Specifications\<close>

text \<open>An open event stream stays open.\<close>

definition keeps_open :: "'w run_state \<Rightarrow> 'w run_state \<Rightarrow> bool" where
  "keeps_open s s' \<longleftrightarrow> (stream_open (rs_stream s) \<longrightarrow> stream_open (rs_stream s'))"

lemma keeps_open_simps [simp]:
  "rs_stream s' = rs_stream s \<Longrightarrow> keeps_open s s'"
  by (simp add: keeps_open_def)

lemma keeps_open_trans: "keeps_open s t \<Longrightarrow> keeps_open t u \<Longrightarrow> keeps_open s u"
  by (simp add: keeps_open_def)

lemma keeps_open_emit:
  "after_emit ev (rs_stream s) st \<Longrightarrow> \<not> is_agent_end ev \<Longrightarrow> rs_stream s' = st \<Longrightarrow> keeps_open s s'"
  by (simp add: keeps_open_def after_emit_def)

definition grows :: "(agent_event \<Rightarrow> bool) \<Rightarrow> 'w run_state \<Rightarrow> 'w run_state \<Rightarrow> bool" where
  "grows ok s s' \<longleftrightarrow> (\<exists>evs. rs_trace s' = rs_trace s @ evs \<and> (\<forall>ev \<in> set evs. ok ev)) \<and> keeps_open s s'"

definition adds :: "agent_event list \<Rightarrow> agent_message list \<Rightarrow> 'w run_state \<Rightarrow> 'w run_state \<Rightarrow> bool" where
  "adds evs ms s s' \<longleftrightarrow>
     rs_trace s' = rs_trace s @ evs \<and> (\<forall>ev \<in> set evs. inner ev) \<and>
     rs_context s' = (rs_context s)\<lparr>cx_messages := cx_messages (rs_context s) @ ms\<rparr> \<and>
     rs_new s' = rs_new s @ ms \<and> keeps_open s s'"

lemma grows_refl [simp]: "grows ok s s"
  by (simp add: grows_def)

lemma grows_trans: "grows ok s t \<Longrightarrow> grows ok t u \<Longrightarrow> grows ok s u"
  unfolding grows_def by (elim conjE exE) (auto intro: keeps_open_trans)

lemma grows_mono: "grows p s t \<Longrightarrow> (\<And>ev. p ev \<Longrightarrow> q ev) \<Longrightarrow> grows q s t"
  by (fastforce simp: grows_def)

lemma adds_refl [simp]: "adds [] [] s s"
  by (simp add: adds_def)

lemma adds_trans: "adds a x s t \<Longrightarrow> adds b y t u \<Longrightarrow> adds (a @ b) (x @ y) s u"
  unfolding adds_def by (auto intro: keeps_open_trans)

lemma adds_grows: "adds evs ms s t \<Longrightarrow> grows inner s t"
  by (auto simp: adds_def grows_def)

text \<open>\<open>spec f P\<close>: \<open>P\<close> relates the value and the states before and after a return of \<open>f\<close>; when \<open>f\<close>
  raises, the trace has only grown by events inside a turn.\<close>

definition spec :: "('w run_state, 'a) prog \<Rightarrow> ('a \<Rightarrow> 'w run_state \<Rightarrow> 'w run_state \<Rightarrow> bool) \<Rightarrow> bool" where
  "spec f P \<longleftrightarrow> (\<forall>s. wp f (\<lambda>x s'. P x s s') (\<lambda>e s'. grows inner s s') s)"

lemma spec_bnd:
  assumes "spec f P" and "\<And>x s s'. P x s s' \<Longrightarrow> spec (g x) (P' x)"
    and "\<And>x s s'. P x s s' \<Longrightarrow> grows inner s s'"
    and "\<And>x y s s' s''. P x s s' \<Longrightarrow> P' x y s' s'' \<Longrightarrow> R y s s''"
  shows "spec (bnd f g) R"
  unfolding spec_def wp_bnd
proof
  fix s
  have "wp f (\<lambda>x s'. P x s s') (\<lambda>e s'. grows inner s s') s" using assms(1) by (simp add: spec_def)
  then show "wp f (\<lambda>x. wp (g x) (\<lambda>x s'. R x s s') (\<lambda>e s'. grows inner s s'))
      (\<lambda>e s'. grows inner s s') s"
  proof (rule wp_mono)
    fix x s' assume P: "P x s s'"
    have "wp (g x) (\<lambda>y s''. P' x y s' s'') (\<lambda>e s''. grows inner s' s'') s'"
      using assms(2) P by (simp add: spec_def)
    then show "wp (g x) (\<lambda>y s''. R y s s'') (\<lambda>e s''. grows inner s s'') s'"
      using P assms(3,4) by (blast intro: wp_mono grows_trans)
  qed
qed

lemma spec_thn:
  assumes "spec f P" and "spec g P'"
    and "\<And>x s s'. P x s s' \<Longrightarrow> grows inner s s'"
    and "\<And>x y s s' s''. P x s s' \<Longrightarrow> P' y s' s'' \<Longrightarrow> R y s s''"
  shows "spec (thn f g) R"
  unfolding thn_def using assms by (rule spec_bnd [where P' = "\<lambda>_. P'"])

lemma spec_mono: "spec f P \<Longrightarrow> (\<And>x s s'. P x s s' \<Longrightarrow> R x s s') \<Longrightarrow> spec f R"
  unfolding spec_def by (blast intro: wp_mono)

lemma spec_catch:
  assumes "spec f P" and "\<And>e. spec (h e) P"
    and "\<And>x s s' s''. grows inner s s' \<Longrightarrow> P x s' s'' \<Longrightarrow> P x s s''"
  shows "spec (catch f h) P"
  unfolding spec_def wp_catch
proof
  fix s
  have "wp f (\<lambda>x s'. P x s s') (\<lambda>e s'. grows inner s s') s" using assms(1) by (simp add: spec_def)
  then show "wp f (\<lambda>x s'. P x s s') (\<lambda>e. wp (h e) (\<lambda>x s'. P x s s') (\<lambda>e s'. grows inner s s')) s"
  proof (rule wp_mono)
    fix e s' assume g: "grows inner s s'"
    have "wp (h e) (\<lambda>y s''. P y s' s'') (\<lambda>e s''. grows inner s' s'') s'"
      using assms(2) by (simp add: spec_def)
    then show "wp (h e) (\<lambda>y s''. P y s s'') (\<lambda>e s''. grows inner s s'') s'"
      using g assms(3) by (blast intro: wp_mono grows_trans)
  qed simp
qed

text \<open>Programs that only touch the world, and may raise.\<close>

definition still :: "'w run_state \<Rightarrow> 'w run_state \<Rightarrow> bool" where
  "still s s' \<longleftrightarrow> rs_trace s' = rs_trace s \<and> rs_context s' = rs_context s \<and> rs_new s' = rs_new s \<and> keeps_open s s'"

lemma still_adds: "still s s' \<longleftrightarrow> adds [] [] s s'"
  by (auto simp: still_def adds_def)

definition worldly :: "('w run_state, 'a) prog \<Rightarrow> bool" where
  "worldly f \<longleftrightarrow> (\<forall>s. wp f (\<lambda>x s'. still s s') (\<lambda>e s'. still s s') s)"

lemma worldly_bnd: "worldly f \<Longrightarrow> (\<And>x. worldly (g x)) \<Longrightarrow> worldly (bnd f g)"
  unfolding worldly_def wp_bnd
proof
  fix s
  assume f: "\<forall>s. wp f (\<lambda>_ s'. still s s') (\<lambda>e s'. still s s') s"
    and g: "\<And>x. \<forall>s. wp (g x) (\<lambda>_ s'. still s s') (\<lambda>e s'. still s s') s"
  have "wp f (\<lambda>x s'. still s s') (\<lambda>e s'. still s s') s" using f by simp
  then show "wp f (\<lambda>x. wp (g x) (\<lambda>x s'. still s s') (\<lambda>e s'. still s s')) (\<lambda>e s'. still s s') s"
  proof (rule wp_mono)
    fix x s' assume st: "still s s'"
    have "wp (g x) (\<lambda>_ s''. still s' s'') (\<lambda>e s''. still s' s'') s'" using g by simp
    then show "wp (g x) (\<lambda>_ s''. still s s'') (\<lambda>e s''. still s s'') s'"
      using st by (elim wp_mono) (auto simp: still_def intro: keeps_open_trans)
  qed
qed

lemma worldly_thn: "worldly f \<Longrightarrow> worldly g \<Longrightarrow> worldly (thn f g)"
  unfolding thn_def by (rule worldly_bnd)

lemma worldly_catch: "worldly f \<Longrightarrow> (\<And>e. worldly (h e)) \<Longrightarrow> worldly (catch f h)"
  unfolding worldly_def wp_catch
proof
  fix s
  assume f: "\<forall>s. wp f (\<lambda>_ s'. still s s') (\<lambda>e s'. still s s') s"
    and g: "\<And>e. \<forall>s. wp (h e) (\<lambda>_ s'. still s s') (\<lambda>e s'. still s s') s"
  have "wp f (\<lambda>x s'. still s s') (\<lambda>e s'. still s s') s" using f by simp
  then show "wp f (\<lambda>x s'. still s s') (\<lambda>e. wp (h e) (\<lambda>x s'. still s s') (\<lambda>e s'. still s s')) s"
  proof (rule wp_mono)
    fix e s' assume st: "still s s'"
    have "wp (h e) (\<lambda>_ s''. still s' s'') (\<lambda>e s''. still s' s'') s'" using g by simp
    then show "wp (h e) (\<lambda>_ s''. still s s'') (\<lambda>e s''. still s s'') s'"
      using st by (elim wp_mono) (auto simp: still_def intro: keeps_open_trans)
  qed simp
qed

lemma worldly_basic [simp]:
  "worldly (ret x)" "worldly (raise_exn e)" "worldly diverge" "worldly (readS f)" "worldly (of_result r)"
  "worldly (hook h)" "worldly (now env)" "worldly (raise_if_cancelled env)" "worldly (maybe_hook k d)"
  by (auto simp: worldly_def wp_simps still_def split: sum.split prod.split option.split)

lemma worldly_start_tool [simp]: "worldly (start_tool env p)"
  by (simp add: worldly_def wp_def start_tool_def still_def split: option.split prod.split sum.split)

lemma worldly_spec: "worldly f \<Longrightarrow> spec f (\<lambda>_. adds [] [])"
  unfolding worldly_def spec_def by (blast intro: wp_mono adds_grows still_adds [THEN iffD1])

lemma spec_emit:
  fixes env :: "'w environment"
  assumes "inner ev" shows "spec (emit env ev) (\<lambda>_. adds [ev] [])"
  unfolding spec_def
proof (intro allI wp_emit)
  fix s :: "'w run_state" and w st assume "after_emit ev (rs_stream s) st"
  moreover have "\<not> is_agent_end ev" using assms by (cases ev) simp_all
  ultimately show "adds [ev] [] s (s\<lparr>rs_trace := rs_trace s @ [ev], rs_world := w, rs_stream := st\<rparr>)"
    using assms by (simp add: adds_def keeps_open_emit)
qed (use assms in \<open>simp add: grows_def\<close>)

text \<open>A message that is emitted and then recorded.\<close>

lemma spec_put:
  "spec (thn (put_context m) (thn (put_new m) (ret x))) (\<lambda>y s s'. y = x \<and> adds [] [m] s s')"
  by (simp add: spec_def wp_simps adds_def)

end
