(* ===== verification/ToolBatchCorrect.thy ===== *)
theory ToolBatchCorrect
  imports AgentTrace "HOL-Library.Multiset"
begin

text \<open>
  What a batch of tool calls does, for every tool, hook and schedule: one start and one end event
  per call, and the results recorded in the order of the calls.
\<close>

section \<open>Vocabulary\<close>

text \<open>\<open>steps st en ms s s'\<close>: from \<open>s\<close> to \<open>s'\<close> the run emitted a sequence of events that is legal
  inside a turn, started the calls \<open>st\<close>, ended the calls \<open>en\<close> and recorded the messages \<open>ms\<close>.\<close>

definition steps ::
  "string list \<Rightarrow> string list \<Rightarrow> agent_message list \<Rightarrow> 'w run_state \<Rightarrow> 'w run_state \<Rightarrow> bool" where
  "steps st en ms s s' \<longleftrightarrow> (\<exists>evs. adds evs ms s s' \<and> accepts InTurn evs = Some InTurn \<and>
     started_calls evs = st \<and> ended_calls evs = en \<and> ended_messages evs = ms)"

definition yields :: "('w run_state, 'a) prog \<Rightarrow> ('a \<Rightarrow> bool) \<Rightarrow> bool" where
  "yields f V \<longleftrightarrow> (\<forall>s. wp f (\<lambda>x _. V x) (\<lambda>_ _. True) s)"

lemma steps_refl [simp]: "steps [] [] [] s s"
  unfolding steps_def by (intro exI [where x = "[]"]) simp

lemma steps_trans:
  assumes "steps a b x s t" and "steps c d y t u"
  shows "steps (a @ c) (b @ d) (x @ y) s u"
proof -
  obtain e1 where 1: "adds e1 x s t" "accepts InTurn e1 = Some InTurn" "started_calls e1 = a"
      "ended_calls e1 = b" "ended_messages e1 = x"
    using assms(1) unfolding steps_def by blast
  obtain e2 where 2: "adds e2 y t u" "accepts InTurn e2 = Some InTurn" "started_calls e2 = c"
      "ended_calls e2 = d" "ended_messages e2 = y"
    using assms(2) unfolding steps_def by blast
  have "adds (e1 @ e2) (x @ y) s u" using 1(1) 2(1) by (rule adds_trans)
  then show ?thesis using 1 2 unfolding steps_def
    by (intro exI [where x = "e1 @ e2"]) (simp add: accepts_append)
qed

lemma steps_trans0: "steps [] [] [] s t \<Longrightarrow> steps a b x t u \<Longrightarrow> steps a b x s u"
  using steps_trans [of "[]" "[]" "[]" s t a b x u] by simp

lemma steps_grows: "steps a b x s t \<Longrightarrow> grows inner s t"
  unfolding steps_def by (blast intro: adds_grows)

lemma still_steps: "adds [] [] s s' \<Longrightarrow> steps [] [] [] s s'"
  unfolding steps_def by (intro exI [where x = "[]"]) simp

lemma spec_worldly:
  assumes "worldly f" and "yields f V"
  shows "spec f (\<lambda>x s s'. V x \<and> steps [] [] [] s s')"
  unfolding spec_def
proof
  fix s
  have "wp f (\<lambda>x s'. still s s' \<and> V x) (\<lambda>e s'. still s s' \<and> True) s"
    using assms unfolding worldly_def yields_def wp_conj by simp
  then show "wp f (\<lambda>x s'. V x \<and> steps [] [] [] s s') (\<lambda>e s'. grows inner s s') s"
    by (elim wp_mono) (auto simp: still_adds intro: still_steps adds_grows)
qed

lemma yields_True: "yields f (\<lambda>_. True)"
  by (simp add: yields_def)

lemma yields_bnd: "(\<And>x. yields (g x) V) \<Longrightarrow> yields (bnd f g) V"
  unfolding yields_def wp_bnd by (auto intro: wp_mono [OF wp_True])

lemma yields_bnd2:
  assumes "yields f V" and "\<And>x. V x \<Longrightarrow> yields (g x) W"
  shows "yields (bnd f g) W"
  unfolding yields_def wp_bnd
proof
  fix s
  have "wp f (\<lambda>x _. V x) (\<lambda>_ _. True) s" using assms(1) by (simp add: yields_def)
  then show "wp f (\<lambda>x. wp (g x) (\<lambda>x _. W x) (\<lambda>_ _. True)) (\<lambda>_ _. True) s"
    using assms(2) unfolding yields_def by (elim wp_mono) auto
qed

lemma yields_thn: "yields g V \<Longrightarrow> yields (thn f g) V"
  unfolding thn_def by (rule yields_bnd)

lemma yields_catch: "yields f V \<Longrightarrow> (\<And>e. yields (h e) V) \<Longrightarrow> yields (catch f h) V"
  unfolding yields_def wp_catch by (auto intro: wp_mono)

lemma yields_basic [simp]:
  "yields (ret x) V = V x" "yields (raise_exn e) V"
  by (simp_all add: yields_def wp_simps)

text \<open>Sequencing of specifications in terms of \<open>steps\<close>.\<close>

lemma spec_steps_bnd:
  assumes "spec f (\<lambda>x s s'. V x \<and> steps (a x) (b x) (c x) s s')"
    and "\<And>x. V x \<Longrightarrow> spec (g x) (\<lambda>y s s'. W x y \<and> steps (a' x y) (b' x y) (c' x y) s s')"
  shows "spec (bnd f g) (\<lambda>y s s'. \<exists>x. V x \<and> W x y \<and>
     steps (a x @ a' x y) (b x @ b' x y) (c x @ c' x y) s s')"
  using assms(1)
proof (rule spec_bnd)
  fix x s s' assume "V x \<and> steps (a x) (b x) (c x) s s'"
  then show "spec (g x) (\<lambda>y s s'. W x y \<and> steps (a' x y) (b' x y) (c' x y) s s')"
    using assms(2) by blast
qed (auto intro: steps_trans steps_grows)

lemma spec_steps_thn:
  assumes "spec f (\<lambda>_ s s'. steps a b c s s')"
    and "spec g (\<lambda>y s s'. W y \<and> steps (a' y) (b' y) (c' y) s s')"
  shows "spec (thn f g) (\<lambda>y s s'. W y \<and> steps (a @ a' y) (b @ b' y) (c @ c' y) s s')"
  by (rule spec_thn [OF assms]) (auto intro: steps_trans steps_grows)

lemma spec_ret: "V x \<Longrightarrow> spec (ret x) (\<lambda>x s s'. V x \<and> steps [] [] [] s s')"
  by (simp add: spec_def wp_simps)

lemma steps_emit:
  "spec (emit_tool_start env c) (\<lambda>_. steps [tc_id c] [] [])"
  "spec (emit_tool_end env oc) (\<lambda>_. steps [] [tc_id (oc_call oc)] [])"
  "spec (emit_update env p u) (\<lambda>_. steps [] [] [])"
  unfolding emit_tool_start_def emit_tool_end_def emit_update_def steps_def
  by (rule spec_mono [OF spec_emit]; fastforce)+

lemma steps_updates: "spec (each (emit_update env p) us) (\<lambda>_. steps [] [] [])"
proof (induction us)
  case Nil
  show ?case by (simp add: spec_def wp_simps)
next
  case (Cons u us)
  show ?case unfolding each.simps
    by (rule spec_thn [OF steps_emit(3) Cons.IH]) (auto intro: steps_grows dest: steps_trans)
qed

section \<open>One call\<close>

definition outcome_of :: "nat \<Rightarrow> tool_call \<Rightarrow> tool_outcome \<Rightarrow> bool" where
  "outcome_of i c oc \<longleftrightarrow> oc_index oc = i \<and> oc_call oc = c"

definition prepared_of :: "nat \<Rightarrow> tool_call \<Rightarrow> 'w prepared_tool_call + tool_outcome \<Rightarrow> bool" where
  "prepared_of i c r \<longleftrightarrow> (case r of
     Inl p \<Rightarrow> pt_index p = i \<and> pt_call p = c | Inr oc \<Rightarrow> outcome_of i c oc \<and> oc_is_error oc)"

lemma worldly_cases [intro]:
  "(\<And>x. worldly (f x)) \<Longrightarrow> worldly g \<Longrightarrow> worldly (case o' of None \<Rightarrow> g | Some x \<Rightarrow> f x)"
  "(\<And>x. worldly (f1 x)) \<Longrightarrow> (\<And>y. worldly (f2 y)) \<Longrightarrow> worldly (case r of Inl x \<Rightarrow> f1 x | Inr y \<Rightarrow> f2 y)"
  "worldly f3 \<Longrightarrow> worldly f4 \<Longrightarrow> worldly (if b then f3 else f4)"
  by (auto split: option.split sum.split)

lemma worldly_prepare: "worldly (prepare_tool_call env cfg assistant i c)"
proof -
  have args: "worldly (prepared_arguments env tool args)" for tool args
    unfolding prepared_arguments_def
    by (intro worldly_thn worldly_cases worldly_bnd worldly_basic) (simp split: json.split)
  have before: "worldly (before_call cfg assistant i c tool args)" for tool args
    unfolding before_call_def Let_def by (intro worldly_cases worldly_bnd worldly_basic)
  show ?thesis unfolding prepare_tool_call_def Let_def
    by (intro worldly_bnd worldly_cases worldly_catch worldly_thn args before worldly_basic)
qed

lemma yields_prepare: "yields (prepare_tool_call env cfg assistant i c) (prepared_of i c)"
proof -
  have before: "yields (before_call cfg assistant i c tool args) (prepared_of i c)" for tool args
    unfolding before_call_def Let_def
    by (auto simp: prepared_of_def outcome_of_def failed_outcome_def intro!: yields_bnd split: option.split)
  have failed: "yields (ret (Inr (prepare_failed i c args e))) (prepared_of i c)" for args e
    by (simp add: prepared_of_def outcome_of_def prepare_failed_def failed_outcome_def)
  have first: "yields (catch (bnd (prepared_arguments env tool args) (\<lambda>a. ret (Inl a)))
       (\<lambda>e. ret (Inr (prepare_failed i c args e))))
     (\<lambda>r. case r of Inl a \<Rightarrow> True | Inr oc \<Rightarrow> outcome_of i c oc \<and> oc_is_error oc)" for tool args
    by (intro yields_catch yields_bnd) (simp_all add: outcome_of_def prepare_failed_def failed_outcome_def)
  show ?thesis unfolding prepare_tool_call_def Let_def
  proof (intro yields_bnd)
    fix found :: "'a agent_tool option"
    show "yields (case found of
        None \<Rightarrow> ret (Inr (failed_outcome i c (tc_arguments c)
                  (failed_tool_result (''Tool '' @ tc_name c @ '' not found''))))
      | Some tool \<Rightarrow>
          bnd (catch (bnd (prepared_arguments env tool (tc_arguments c)) (\<lambda>a. ret (Inl a)))
                     (\<lambda>e. ret (Inr (prepare_failed i c (tc_arguments c) e)))) (\<lambda>r.
          case r of
            Inl args' \<Rightarrow>
              catch (thn (of_result (validate_json_schema (ev_re_search env) (JObj args')
                                       (t_parameters tool) ''$''))
                         (before_call cfg assistant i c tool args'))
                    (\<lambda>e. ret (Inr (prepare_failed i c args' e)))
          | Inr oc \<Rightarrow> ret (Inr oc))) (prepared_of i c)"
    proof (cases found)
      case None
      then show ?thesis by (simp add: prepared_of_def outcome_of_def failed_outcome_def)
    next
      case (Some tool)
      show ?thesis unfolding Some option.case
        by (rule yields_bnd2 [OF first])
           (auto intro!: yields_catch yields_thn before failed simp: prepared_of_def split: sum.splits)
    qed
  qed
qed

lemma finish_tool_spec:
  "spec (finish_tool cfg assistant p rb) (\<lambda>oc s s'. outcome_of (pt_index p) (pt_call p) oc \<and> steps [] [] [] s s')"
proof (rule spec_worldly)
  show "worldly (finish_tool cfg assistant p rb)" unfolding finish_tool_def
    by (intro worldly_bnd worldly_cases worldly_catch worldly_basic)
  show "yields (finish_tool cfg assistant p rb) (outcome_of (pt_index p) (pt_call p))"
    unfolding finish_tool_def by (intro yields_bnd) (simp add: outcome_of_def)
qed

lemma start_tool_spec: "spec (start_tool env p) (\<lambda>_ s s'. True \<and> steps [] [] [] s s')"
  by (intro spec_worldly yields_True) simp

lemma of_result_spec: "spec (of_result r) (\<lambda>_ s s'. True \<and> steps [] [] [] s s')"
  by (intro spec_worldly yields_True) simp

lemma run_prepared_spec:
  "spec (run_prepared_tool env cfg assistant p)
     (\<lambda>oc s s'. outcome_of (pt_index p) (pt_call p) oc \<and> steps [] [] [] s s')"
proof -
  have fin: "spec (bnd (of_result r) (finish_tool cfg assistant p))
     (\<lambda>oc s s'. outcome_of (pt_index p) (pt_call p) oc \<and> steps [] [] [] s s')" for r
    by (rule spec_mono [OF spec_steps_bnd [OF of_result_spec finish_tool_spec]]) auto
  have "spec (thn (each (emit_update env p) us) (bnd (of_result r) (finish_tool cfg assistant p)))
     (\<lambda>oc s s'. outcome_of (pt_index p) (pt_call p) oc \<and> steps [] [] [] s s')" for us r
    by (rule spec_mono [OF spec_steps_thn [OF steps_updates fin]]) auto
  then show ?thesis unfolding run_prepared_tool_def
    by (intro spec_mono [OF spec_steps_bnd [OF start_tool_spec]]) auto
qed

lemma prepare_spec:
  "spec (prepare_tool_call env cfg assistant i c) (\<lambda>r s s'. prepared_of i c r \<and> steps [] [] [] s s')"
  by (intro spec_worldly worldly_prepare yields_prepare)

lemma prepare_and_run_spec:
  "spec (prepare_and_run env cfg assistant i c) (\<lambda>oc s s'. outcome_of i c oc \<and> steps [] [] [] s s')"
proof -
  have "spec (case r of Inl p \<Rightarrow> run_prepared_tool env cfg assistant p | Inr oc \<Rightarrow> ret oc)
     (\<lambda>oc s s'. outcome_of i c oc \<and> steps [] [] [] s s')" if "prepared_of i c r" for r
  proof (cases r)
    case (Inl p)
    with that show ?thesis using run_prepared_spec [of env cfg assistant p] by (simp add: prepared_of_def)
  next
    case (Inr oc)
    with that show ?thesis by (simp add: prepared_of_def spec_ret)
  qed
  then show ?thesis unfolding prepare_and_run_def
    by (intro spec_mono [OF spec_steps_bnd [OF prepare_spec]]) auto
qed

definition message_of :: "tool_outcome \<Rightarrow> tool_result_message \<Rightarrow> bool" where
  "message_of oc m \<longleftrightarrow> (\<exists>t. m = outcome_message oc t)"

lemma record_outcome_spec:
  "spec (record_outcome env oc) (\<lambda>m s s'. message_of oc m \<and> steps [] [] [tool_message m] s s')"
proof -
  define emitted where "emitted = (\<lambda>m. [MessageStartEvent (tool_message m), MessageEndEvent (tool_message m)])"
  have done_: "spec (ret m) (\<lambda>y s s'. y = m \<and> adds [] [] s s')" for m
    by (simp add: spec_def wp_simps)
  have last: "spec (thn (emit env (MessageEndEvent (tool_message m))) (ret m))
      (\<lambda>y s s'. y = m \<and> adds [MessageEndEvent (tool_message m)] [] s s')" for m
    by (rule spec_thn [OF spec_emit done_]) (auto intro: adds_grows dest: adds_trans)
  have both: "spec (thn (emit env (MessageStartEvent (tool_message m)))
      (thn (emit env (MessageEndEvent (tool_message m))) (ret m)))
      (\<lambda>y s s'. y = m \<and> adds (emitted m) [] s s')" for m
    by (rule spec_thn [OF spec_emit last]) (auto simp: emitted_def intro: adds_grows dest: adds_trans)
  have "spec (emit_tool_result_message env oc) (\<lambda>m s s'. message_of oc m \<and> adds (emitted m) [] s s')"
    unfolding emit_tool_result_message_def Let_def
    by (rule spec_bnd [OF worldly_spec both])
       (auto simp: message_of_def intro: adds_grows dest: adds_trans)
  then have "spec (record_outcome env oc) (\<lambda>m s s'. message_of oc m \<and> adds (emitted m) [tool_message m] s s')"
    unfolding record_outcome_def
    by (rule spec_bnd [OF _ spec_put]) (auto intro: adds_grows dest: adds_trans)
  then show ?thesis
    by (rule spec_mono) (auto simp: steps_def emitted_def)
qed

section \<open>Sequential and truncated batches\<close>

definition call_ids :: "tool_outcome list \<Rightarrow> string list" where
  "call_ids ocs = map (\<lambda>oc. tc_id (oc_call oc)) ocs"

lemma call_ids_simps [simp]:
  "call_ids [] = []" "call_ids (oc # ocs) = tc_id (oc_call oc) # call_ids ocs"
  by (simp_all add: call_ids_def)

text \<open>The outcomes of the first calls, numbered from \<open>i\<close>, and their messages.\<close>

definition results_of ::
  "nat \<Rightarrow> tool_call list \<Rightarrow> tool_result_message list \<times> tool_outcome list \<Rightarrow> bool" where
  "results_of i calls r \<longleftrightarrow>
     map oc_call (snd r) = take (length (snd r)) calls \<and>
     map oc_index (snd r) = [i..<i + length (snd r)] \<and> list_all2 message_of (snd r) (fst r)"

definition batch_spec ::
  "'w environment \<Rightarrow> nat \<Rightarrow> tool_call list \<Rightarrow> tool_result_message list \<times> tool_outcome list
     \<Rightarrow> 'w run_state \<Rightarrow> 'w run_state \<Rightarrow> bool" where
  "batch_spec env i calls r s s' \<longleftrightarrow>
     results_of i calls r \<and>
     steps (call_ids (snd r)) (call_ids (snd r)) (map tool_message (fst r)) s s' \<and>
     (length (snd r) = length calls \<or> cancelled env s')"

lemma results_of_Nil [simp]: "results_of i [] ([], [])"
  by (simp add: results_of_def)

lemma results_of_Cons:
  assumes "outcome_of i c oc" and "message_of oc m" and "results_of (Suc i) cs r"
  shows "results_of i (c # cs) (m # fst r, oc # snd r)"
proof -
  have "[i..<i + Suc (length (snd r))] = i # [Suc i..<Suc i + length (snd r)]"
    by (simp add: upt_conv_Cons del: upt_Suc)
  with assms show ?thesis by (auto simp: results_of_def outcome_of_def simp del: upt_Suc)
qed

lemma batch_spec_grows: "batch_spec env i calls r s s' \<Longrightarrow> grows inner s s'"
  unfolding batch_spec_def by (blast intro: steps_grows)

lemma batch_spec_step:
  assumes "steps [tc_id c] [] [] s0 s1" and "outcome_of i c oc"
    and "steps [] [tc_id c] [tool_message m] s1 s2" and "message_of oc m"
    and "batch_spec env (Suc i) cs (ms, ocs) s2 s3"
  shows "batch_spec env i (c # cs) (m # ms, oc # ocs) s0 s3"
proof -
  define r where "r = (ms, ocs)"
  note assms = assms [folded r_def]
  have "steps [tc_id c] [tc_id c] [tool_message m] s0 s2"
    using steps_trans [OF assms(1,3)] by simp
  moreover have "steps (call_ids (snd r)) (call_ids (snd r)) (map tool_message (fst r)) s2 s3"
    using assms(5) by (simp add: batch_spec_def)
  ultimately have "steps (tc_id c # call_ids (snd r)) (tc_id c # call_ids (snd r))
      (tool_message m # map tool_message (fst r)) s0 s3" using steps_trans by fastforce
  then show ?thesis using assms(2,4,5) results_of_Cons [of i c oc m cs r]
    by (auto simp: batch_spec_def outcome_of_def r_def)
qed

text \<open>The part of a call after its outcome is known.\<close>

lemma end_and_record_spec:
  "spec (thn (emit_tool_end env oc) (record_outcome env oc))
     (\<lambda>m s s'. message_of oc m \<and> steps [] [tc_id (oc_call oc)] [tool_message m] s s')"
  by (rule spec_mono [OF spec_steps_thn [OF steps_emit(2) record_outcome_spec]]) simp

lemma thn_bnd: "thn f (bnd g h) = bnd (thn f g) h"
  by (simp add: thn_def bnd_bnd)

lemma truncated_batch_spec: "spec (truncated_batch env i calls) (batch_spec env i calls)"
proof (induction calls arbitrary: i)
  case Nil
  show ?case by (simp add: spec_def wp_simps batch_spec_def)
next
  case (Cons c cs)
  define oc where "oc = failed_outcome i c (tc_arguments c)
      (failed_tool_result (truncated_tool_text (tc_name c)))"
  have oc: "outcome_of i c oc" "oc_call oc = c" by (simp_all add: oc_def outcome_of_def failed_outcome_def)
  have tail: "spec (bnd (truncated_batch env (Suc i) cs) (\<lambda>r. ret (m # fst r, oc # snd r)))
      (\<lambda>q s s'. \<exists>r. q = (m # fst r, oc # snd r) \<and> batch_spec env (Suc i) cs r s s')" for m
    by (rule spec_bnd [OF Cons.IH, where P' = "\<lambda>r q s s'. q = (m # fst r, oc # snd r) \<and> s' = s"])
       (auto simp: spec_def wp_simps intro: batch_spec_grows)
  have "spec (thn (emit_tool_end env oc) (bnd (record_outcome env oc) (\<lambda>m.
        bnd (truncated_batch env (Suc i) cs) (\<lambda>r. ret (m # fst r, oc # snd r)))))
      (\<lambda>q s s'. \<exists>m r t. q = (m # fst r, oc # snd r) \<and> message_of oc m \<and>
         steps [] [tc_id c] [tool_message m] s t \<and> batch_spec env (Suc i) cs r t s')"
    unfolding thn_bnd
    by (rule spec_bnd [OF end_and_record_spec tail]) (auto simp: oc(2) intro: steps_grows)
  then show ?case unfolding truncated_batch.simps Let_def oc_def [symmetric]
    by (rule spec_thn [OF steps_emit(1)]) (auto intro: steps_grows batch_spec_step [OF _ oc(1)])
qed

lemma sequential_batch_spec:
  "spec (sequential_batch env cfg assistant i calls) (batch_spec env i calls)"
proof (induction calls arbitrary: i)
  case Nil
  show ?case by (simp add: spec_def wp_simps batch_spec_def)
next
  case (Cons c cs)
  have tail: "spec (bnd (sequential_batch env cfg assistant (Suc i) cs) (\<lambda>r. ret (m # fst r, oc # snd r)))
      (\<lambda>q s s'. \<exists>r. q = (m # fst r, oc # snd r) \<and> batch_spec env (Suc i) cs r s s')" for m oc
    by (rule spec_bnd [OF Cons.IH, where P' = "\<lambda>r q s s'. q = (m # fst r, oc # snd r) \<and> s' = s"])
       (auto simp: spec_def wp_simps intro: batch_spec_grows)
  have stop: "batch_spec env (Suc i) cs ([], []) s s" if "cancelled env s" for s
    using that by (simp add: batch_spec_def results_of_def)
  have rest: "spec (bnd (readS (cancelled env)) (\<lambda>stop. if stop then ret ([m], [oc])
       else bnd (sequential_batch env cfg assistant (Suc i) cs) (\<lambda>r. ret (m # fst r, oc # snd r))))
      (\<lambda>q s s'. \<exists>r. q = (m # fst r, oc # snd r) \<and> batch_spec env (Suc i) cs r s s')" for m oc
    unfolding spec_def
  proof
    fix s
    show "wp (bnd (readS (cancelled env)) (\<lambda>stop. if stop then ret ([m], [oc])
       else bnd (sequential_batch env cfg assistant (Suc i) cs) (\<lambda>r. ret (m # fst r, oc # snd r))))
      (\<lambda>q s'. \<exists>r. q = (m # fst r, oc # snd r) \<and> batch_spec env (Suc i) cs r s s')
      (\<lambda>e s'. grows inner s s') s"
      using tail [of m oc] stop [of s] unfolding spec_def wp_bnd wp_basic(4)
      by (cases "cancelled env s") (force simp: wp_simps)+
  qed
  have after: "spec (thn (emit_tool_end env oc) (bnd (record_outcome env oc) (\<lambda>m.
        bnd (readS (cancelled env)) (\<lambda>stop. if stop then ret ([m], [oc])
          else bnd (sequential_batch env cfg assistant (Suc i) cs) (\<lambda>r. ret (m # fst r, oc # snd r))))))
      (\<lambda>q s s'. \<exists>m r t. q = (m # fst r, oc # snd r) \<and> message_of oc m \<and>
         steps [] [tc_id c] [tool_message m] s t \<and> batch_spec env (Suc i) cs r t s')"
    if "outcome_of i c oc" for oc
    unfolding thn_bnd using that
    by (intro spec_bnd [OF end_and_record_spec rest]) (auto simp: outcome_of_def intro: steps_grows)
  have "spec (bnd (prepare_and_run env cfg assistant i c) (\<lambda>oc. thn (emit_tool_end env oc)
       (bnd (record_outcome env oc) (\<lambda>m. bnd (readS (cancelled env)) (\<lambda>stop. if stop then ret ([m], [oc])
          else bnd (sequential_batch env cfg assistant (Suc i) cs) (\<lambda>r. ret (m # fst r, oc # snd r)))))))
      (\<lambda>q s s'. \<exists>oc m r t. outcome_of i c oc \<and> q = (m # fst r, oc # snd r) \<and> message_of oc m \<and>
         steps [] [tc_id c] [tool_message m] s t \<and> batch_spec env (Suc i) cs r t s')"
    by (rule spec_bnd [OF prepare_and_run_spec after]) (blast intro: steps_grows steps_trans0)+
  then show ?case unfolding sequential_batch.simps
    by (rule spec_thn [OF steps_emit(1)]) (auto intro: steps_grows batch_spec_step)
qed

section \<open>Parallel batches\<close>

definition outcome_key :: "nat \<times> tool_outcome \<Rightarrow> nat \<times> tool_call" where
  "outcome_key io = (fst io, oc_call (snd io))"

definition prepared_key :: "'w prepared_tool_call \<Rightarrow> nat \<times> tool_call" where
  "prepared_key p = (pt_index p, pt_call p)"

fun task_keys :: "'w tool_task \<Rightarrow> (nat \<times> tool_call) list" where
  "task_keys (TaskNew p) = [prepared_key p]"
| "task_keys (TaskUpdating p _ _) = [prepared_key p]"
| "task_keys TaskDone = []"

definition keyed :: "(nat \<times> tool_outcome) list \<Rightarrow> bool" where
  "keyed outs \<longleftrightarrow> (\<forall>io \<in> set outs. oc_index (snd io) = fst io)"

lemma keyed_simps [simp]:
  "keyed []" "keyed (io # outs) \<longleftrightarrow> oc_index (snd io) = fst io \<and> keyed outs"
  "keyed (xs @ ys) \<longleftrightarrow> keyed xs \<and> keyed ys"
  by (auto simp: keyed_def)

abbreviation out_ids :: "(nat \<times> tool_outcome) list \<Rightarrow> string list" where
  "out_ids outs \<equiv> call_ids (map snd outs)"

lemma complete_task_spec:
  "spec (complete_task env cfg assistant p r)
     (\<lambda>outs s s'. (map outcome_key outs = [prepared_key p] \<and> keyed outs) \<and> steps [] (out_ids outs) [] s s')"
proof -
  have "spec (thn (emit_tool_end env oc) (ret [(oc_index oc, oc)]))
     (\<lambda>outs s s'. outs = [(oc_index oc, oc)] \<and> steps [] (out_ids outs) [] s s')" for oc
    by (rule spec_thn [OF steps_emit(2), where P' = "\<lambda>outs s s'. outs = [(oc_index oc, oc)] \<and> s' = s"])
       (auto simp: spec_def wp_simps intro: steps_grows)
  note ending = this
  have fin: "spec (bnd (finish_tool cfg assistant p rb) (\<lambda>oc. thn (emit_tool_end env oc) (ret [(oc_index oc, oc)])))
     (\<lambda>outs s s'. (map outcome_key outs = [prepared_key p] \<and> keyed outs) \<and> steps [] (out_ids outs) [] s s')" for rb
    by (rule spec_bnd [OF finish_tool_spec ending])
       (auto simp: outcome_key_def prepared_key_def outcome_of_def intro: steps_grows steps_trans0)
  show ?thesis unfolding complete_task_def
    by (rule spec_bnd [OF of_result_spec fin]) (auto intro: steps_grows steps_trans0)
qed

lemma updates_complete_spec:
  "spec (thn (each (emit_update env p) us) (complete_task env cfg assistant p r))
     (\<lambda>outs s s'. (map outcome_key outs = [prepared_key p] \<and> keyed outs) \<and> steps [] (out_ids outs) [] s s')"
  by (rule spec_thn [OF steps_updates complete_task_spec]) (auto intro: steps_grows steps_trans0)

lemma step_task_spec:
  "spec (step_task env cfg assistant t)
     (\<lambda>r s s'. (task_keys t = task_keys (fst r) @ map outcome_key (snd r) \<and> keyed (snd r)) \<and>
        steps [] (out_ids (snd r)) [] s s')"
proof (cases t)
  case (TaskNew p)
  show ?thesis unfolding TaskNew step_task.simps
    by (rule spec_bnd [OF start_tool_spec, where P' = "\<lambda>ur r s s'. r = (TaskUpdating p (fst ur) (snd ur), []) \<and> s' = s"])
       (auto simp: spec_def wp_simps intro: steps_grows)
next
  case (TaskUpdating p us r)
  show ?thesis
  proof (cases us)
    case Nil
    show ?thesis unfolding TaskUpdating Nil step_task.simps
      by (rule spec_bnd [OF complete_task_spec, where P' = "\<lambda>outs q s s'. q = (TaskDone, outs) \<and> s' = s"])
         (auto simp: spec_def wp_simps intro: steps_grows)
  next
    case (Cons u us')
    show ?thesis unfolding TaskUpdating Cons step_task.simps
      by (rule spec_thn [OF steps_emit(3), where P' = "\<lambda>q s s'. q = (TaskUpdating p us' r, []) \<and> s' = s"])
         (auto simp: spec_def wp_simps intro: steps_grows)
  qed
next
  case TaskDone
  then show ?thesis by (simp add: spec_def wp_simps)
qed

lemma finish_task_spec:
  "spec (finish_task env cfg assistant t)
     (\<lambda>outs s s'. (map outcome_key outs = task_keys t \<and> keyed outs) \<and> steps [] (out_ids outs) [] s s')"
proof (cases t)
  case (TaskNew p)
  show ?thesis unfolding TaskNew finish_task.simps
    by (rule spec_bnd [OF start_tool_spec updates_complete_spec]) (auto intro: steps_grows steps_trans0)
next
  case (TaskUpdating p us r)
  then show ?thesis using updates_complete_spec by simp
next
  case TaskDone
  then show ?thesis by (simp add: spec_def wp_simps)
qed

lemma finish_tasks_spec:
  "spec (finish_tasks env cfg assistant ts)
     (\<lambda>outs s s'. (map outcome_key outs = concat (map task_keys ts) \<and> keyed outs) \<and>
        steps [] (out_ids outs) [] s s')"
proof (induction ts)
  case Nil
  show ?case by (simp add: spec_def wp_simps)
next
  case (Cons t ts)
  have rest: "spec (bnd (finish_tasks env cfg assistant ts) (\<lambda>o2. ret (o1 @ o2)))
     (\<lambda>outs s s'. \<exists>o2. outs = o1 @ o2 \<and> (map outcome_key o2 = concat (map task_keys ts) \<and> keyed o2) \<and>
        steps [] (out_ids o2) [] s s')" for o1
    by (rule spec_bnd [OF Cons.IH, where P' = "\<lambda>o2 outs s s'. outs = o1 @ o2 \<and> s' = s"])
       (auto simp: spec_def wp_simps intro: steps_grows)
  show ?case unfolding finish_tasks.simps
    by (rule spec_bnd [OF finish_task_spec rest])
       (auto simp: call_ids_def intro: steps_grows dest: steps_trans [where x = "[]" and y = "[]"])
qed

lemma mset_task_keys_update:
  assumes "k < length ts" and "task_keys (ts ! k) = task_keys t @ o1"
  shows "mset (concat (map task_keys ts)) = mset o1 + mset (concat (map task_keys (ts[k := t])))"
proof -
  have "ts = take k ts @ ts ! k # drop (Suc k) ts" using assms(1) by (simp add: id_take_nth_drop)
  then have "mset (concat (map task_keys ts)) =
      mset (concat (map task_keys (take k ts))) + mset (task_keys (ts ! k))
        + mset (concat (map task_keys (drop (Suc k) ts)))"
    by (metis (no_types, lifting) append.assoc concat.simps(2) concat_append list.simps(9) map_append mset_append)
  moreover have "ts[k := t] = take k ts @ t # drop (Suc k) ts" using assms(1) by (simp add: upd_conv_take_nth_drop)
  ultimately show ?thesis using assms(2) by simp
qed

lemma run_tasks_spec:
  fixes ts :: "'w tool_task list"
  shows "spec (run_tasks env cfg assistant ks ts)
     (\<lambda>outs s s'. (mset (map outcome_key outs) = mset (concat (map task_keys ts)) \<and> keyed outs) \<and>
        steps [] (out_ids outs) [] s s')"
proof (induction ks arbitrary: ts)
  case Nil
  show ?case unfolding run_tasks.simps by (rule spec_mono [OF finish_tasks_spec]) simp
next
  case (Cons k ks)
  show ?case
  proof (cases "k < length ts")
    case True
    have rest: "spec (bnd (run_tasks env cfg assistant ks (ts[k := fst r])) (\<lambda>o2. ret (snd r @ o2)))
       (\<lambda>outs s s'. \<exists>o2. outs = snd r @ o2 \<and>
          (mset (map outcome_key o2) = mset (concat (map task_keys (ts[k := fst r]))) \<and> keyed o2) \<and>
          steps [] (out_ids o2) [] s s')" for r
      by (rule spec_bnd [OF Cons.IH, where P' = "\<lambda>o2 outs s s'. outs = snd r @ o2 \<and> s' = s"])
         (auto simp: spec_def wp_simps intro: steps_grows)
    have "spec (bnd (step_task env cfg assistant (ts ! k)) (\<lambda>r.
        bnd (run_tasks env cfg assistant ks (ts[k := fst r])) (\<lambda>o2. ret (snd r @ o2))))
       (\<lambda>outs s s'. (mset (map outcome_key outs) = mset (concat (map task_keys ts)) \<and> keyed outs) \<and>
        steps [] (out_ids outs) [] s s')"
    proof (rule spec_bnd [OF step_task_spec rest])
      fix r :: "'w tool_task \<times> (nat \<times> tool_outcome) list" and outs s s' s''
      assume 1: "(task_keys (ts ! k) = task_keys (fst r) @ map outcome_key (snd r) \<and> keyed (snd r)) \<and>
          steps [] (out_ids (snd r)) [] s s'"
      assume "\<exists>o2. outs = snd r @ o2 \<and>
          (mset (map outcome_key o2) = mset (concat (map task_keys (ts[k := fst r]))) \<and> keyed o2) \<and>
          steps [] (out_ids o2) [] s' s''"
      then obtain o2 where 2: "outs = snd r @ o2" "keyed o2" "steps [] (out_ids o2) [] s' s''"
          "mset (map outcome_key o2) = mset (concat (map task_keys (ts[k := fst r])))" by blast
      have "steps [] (out_ids outs) [] s s''"
        using steps_trans [OF conjunct2 [OF 1] 2(3)] 2(1) by (simp add: call_ids_def)
      moreover have "mset (map outcome_key outs) = mset (concat (map task_keys ts))"
        using mset_task_keys_update [OF True conjunct1 [OF conjunct1 [OF 1]]] 2 by simp
      ultimately show "(mset (map outcome_key outs) = mset (concat (map task_keys ts)) \<and> keyed outs) \<and>
          steps [] (out_ids outs) [] s s''" using 1 2 by simp
    qed (auto intro: steps_grows)
    with True show ?thesis by simp
  next
    case False
    with Cons.IH show ?thesis by simp
  qed
qed

definition prepared_all ::
  "nat \<Rightarrow> tool_call list \<Rightarrow> 'w prepared_tool_call list \<times> (nat \<times> tool_outcome) list \<Rightarrow> bool" where
  "prepared_all i calls q \<longleftrightarrow>
     mset (map prepared_key (fst q)) + mset (map outcome_key (snd q)) = mset (enum_from i calls) \<and>
     keyed (snd q)"

lemma prepare_all_spec:
  "spec (prepare_all env cfg assistant i calls)
     (\<lambda>q s s'. prepared_all i calls q \<and> steps (map tc_id calls) (out_ids (snd q)) [] s s')"
proof (induction calls arbitrary: i)
  case Nil
  show ?case by (simp add: spec_def wp_simps prepared_all_def)
next
  case (Cons c cs)
  let ?rec = "prepare_all env cfg assistant (Suc i) cs"
  have prep: "spec (bnd ?rec (\<lambda>q. ret (p # fst q, snd q)))
      (\<lambda>q' s s'. prepared_all i (c # cs) q' \<and> steps (map tc_id cs) (out_ids (snd q')) [] s s')"
    if "pt_index p = i \<and> pt_call p = c" for p
    by (rule spec_bnd [OF Cons.IH, where P' = "\<lambda>q q' s s'. q' = (p # fst q, snd q) \<and> s' = s"])
       (use that in \<open>auto simp: spec_def wp_simps prepared_all_def prepared_key_def intro: steps_grows\<close>)
  have known: "spec (bnd ?rec (\<lambda>q. ret (fst q, (i, oc) # snd q)))
      (\<lambda>q' s s'. \<exists>q. q' = (fst q, (i, oc) # snd q) \<and> prepared_all i (c # cs) q' \<and>
         steps (map tc_id cs) (out_ids (snd q)) [] s s')"
    if "outcome_of i c oc" for oc
    by (rule spec_bnd [OF Cons.IH, where P' = "\<lambda>q q' s s'. q' = (fst q, (i, oc) # snd q) \<and> s' = s"])
       (use that in \<open>auto simp: spec_def wp_simps prepared_all_def outcome_key_def outcome_of_def intro: steps_grows\<close>)
  have tail: "spec (case r of Inl p \<Rightarrow> bnd ?rec (\<lambda>q. ret (p # fst q, snd q))
        | Inr oc \<Rightarrow> thn (emit_tool_end env oc) (bnd ?rec (\<lambda>q. ret (fst q, (i, oc) # snd q))))
      (\<lambda>q' s s'. prepared_all i (c # cs) q' \<and> steps (map tc_id cs) (out_ids (snd q')) [] s s')"
    if "prepared_of i c r" for r
  proof (cases r)
    case (Inl p)
    with that prep show ?thesis by (simp add: prepared_of_def)
  next
    case (Inr oc)
    with that have oc: "outcome_of i c oc" by (simp add: prepared_of_def)
    show ?thesis unfolding Inr sum.case
      by (rule spec_thn [OF steps_emit(2) known [OF oc]]) (auto intro: steps_grows dest: steps_trans)
  qed
  have "spec (bnd (prepare_tool_call env cfg assistant i c) (\<lambda>r. case r of
          Inl p \<Rightarrow> bnd ?rec (\<lambda>q. ret (p # fst q, snd q))
        | Inr oc \<Rightarrow> thn (emit_tool_end env oc) (bnd ?rec (\<lambda>q. ret (fst q, (i, oc) # snd q)))))
      (\<lambda>q' s s'. prepared_all i (c # cs) q' \<and> steps (map tc_id cs) (out_ids (snd q')) [] s s')"
    by (rule spec_bnd [OF prepare_spec tail]) (auto intro: steps_grows steps_trans0)
  then show ?case unfolding prepare_all.simps
    by (rule spec_thn [OF steps_emit(1)]) (auto intro: steps_grows dest: steps_trans)
qed

lemma enum_from_zip: "enum_from i xs = zip [i..<i + length xs] xs"
  by (induction xs arbitrary: i) (simp_all add: upt_conv_Cons del: upt_Suc)

lemma in_call_order_correct:
  assumes "mset (map outcome_key outs) = mset (enum_from 0 calls)" and "keyed outs"
  shows "map oc_call (in_call_order (length calls) outs) = calls"
    and "map oc_index (in_call_order (length calls) outs) = [0..<length calls]"
    and "length (in_call_order (length calls) outs) = length calls"
proof -
  have "mset (map fst (map outcome_key outs)) = mset (map fst (enum_from 0 calls))"
    using assms(1) by (metis mset_map)
  then have "mset (map fst outs) = mset [0..<length calls]"
    by (simp add: enum_from_zip outcome_key_def comp_def)
  then have dist: "distinct (map fst outs)" using mset_eq_imp_distinct_iff by fastforce
  have entry: "\<exists>oc. map_of outs i = Some oc \<and> oc_call oc = calls ! i \<and> oc_index oc = i"
    if "i < length calls" for i
  proof -
    have "(i, calls ! i) \<in> set (enum_from 0 calls)" using that
      by (auto simp: enum_from_zip in_set_zip intro: exI [where x = i])
    then have "(i, calls ! i) \<in> set (map outcome_key outs)"
      using assms(1) by (metis set_mset_mset)
    then obtain oc where "(i, oc) \<in> set outs" "oc_call oc = calls ! i"
      by (auto simp: outcome_key_def)
    moreover from this(1) have "map_of outs i = Some oc" using dist by (simp add: map_of_is_SomeI)
    moreover from \<open>(i, oc) \<in> set outs\<close> have "oc_index oc = i" using assms(2) by (auto simp: keyed_def)
    ultimately show ?thesis by blast
  qed
  define pick where "pick = (\<lambda>i. the (map_of outs i))"
  have pick: "oc_call (pick i) = calls ! i" "oc_index (pick i) = i"
    "(case map_of outs i of None \<Rightarrow> [] | Some oc \<Rightarrow> [oc]) = [pick i]" if "i < length calls" for i
    using entry [OF that] by (auto simp: pick_def)
  have "in_call_order (length calls) outs = concat (map (\<lambda>i. [pick i]) [0..<length calls])"
    unfolding in_call_order_def using pick(3) by (intro arg_cong [where f = concat] map_cong) simp_all
  also have "\<dots> = map pick [0..<length calls]" by simp
  finally have ord: "in_call_order (length calls) outs = map pick [0..<length calls]" .
  show "map oc_call (in_call_order (length calls) outs) = calls"
    unfolding ord by (rule nth_equalityI) (simp_all add: pick(1))
  show "map oc_index (in_call_order (length calls) outs) = [0..<length calls]"
    unfolding ord by (rule nth_equalityI) (simp_all add: pick(2))
  show "length (in_call_order (length calls) outs) = length calls" by (simp add: ord)
qed

lemma record_outcomes_spec:
  "spec (record_outcomes env ocs) (\<lambda>ms s s'. list_all2 message_of ocs ms \<and> steps [] [] (map tool_message ms) s s')"
proof (induction ocs)
  case Nil
  show ?case by (simp add: spec_def wp_simps)
next
  case (Cons oc ocs)
  have rest: "spec (bnd (record_outcomes env ocs) (\<lambda>ms. ret (m # ms)))
     (\<lambda>q s s'. \<exists>ms. q = m # ms \<and> list_all2 message_of ocs ms \<and> steps [] [] (map tool_message ms) s s')" for m
    by (rule spec_bnd [OF Cons.IH, where P' = "\<lambda>ms q s s'. q = m # ms \<and> s' = s"])
       (auto simp: spec_def wp_simps intro: steps_grows)
  show ?case unfolding record_outcomes.simps
    by (rule spec_bnd [OF record_outcome_spec rest])
       (auto intro: steps_grows dest: steps_trans)
qed

text \<open>What every batch does: the outcomes of the first calls (all of them, unless the run was
  cancelled), each call started once and ended once, and the messages in the order of the calls.\<close>

definition batch_done ::
  "'w environment \<Rightarrow> tool_call list \<Rightarrow> tool_result_message list \<times> tool_outcome list
     \<Rightarrow> 'w run_state \<Rightarrow> 'w run_state \<Rightarrow> bool" where
  "batch_done env calls r s s' \<longleftrightarrow>
     results_of 0 calls r \<and>
     (\<exists>en. mset en = mset (call_ids (snd r)) \<and>
        steps (call_ids (snd r)) en (map tool_message (fst r)) s s') \<and>
     (length (snd r) = length calls \<or> cancelled env s')"

lemma batch_spec_done: "batch_spec env 0 calls r s s' \<Longrightarrow> batch_done env calls r s s'"
  unfolding batch_spec_def batch_done_def by blast

lemma parallel_batch_spec:
  fixes env :: "'w environment"
  shows "spec (parallel_batch env cfg assistant calls) (batch_done env calls)"
proof -
  have finish: "spec (let ordered = in_call_order (length calls) (kn @ outs) in
        bnd (record_outcomes env ordered) (\<lambda>ms. ret (ms, ordered)))
     (\<lambda>r s s'. snd r = in_call_order (length calls) (kn @ outs) \<and> list_all2 message_of (snd r) (fst r) \<and>
        steps [] [] (map tool_message (fst r)) s s')" for kn outs
    unfolding Let_def
    by (rule spec_bnd [OF record_outcomes_spec,
          where P' = "\<lambda>ms r s s'. r = (ms, in_call_order (length calls) (kn @ outs)) \<and> s' = s"])
       (auto simp: spec_def wp_simps intro: steps_grows)
  have run: "spec (bnd (run_tasks env cfg assistant ks (map TaskNew ps)) (\<lambda>outs.
       let ordered = in_call_order (length calls) (kn @ outs) in
        bnd (record_outcomes env ordered) (\<lambda>ms. ret (ms, ordered))))
     (\<lambda>r s s'. \<exists>outs. mset (map outcome_key outs) = mset (map prepared_key ps) \<and> keyed outs \<and>
        snd r = in_call_order (length calls) (kn @ outs) \<and> list_all2 message_of (snd r) (fst r) \<and>
        steps [] (out_ids outs) (map tool_message (fst r)) s s')" for ks ps kn
  proof (rule spec_bnd [OF run_tasks_spec finish])
    have keys: "concat (map task_keys (map TaskNew ps)) = map prepared_key ps"
      by (induction ps) simp_all
    fix outs r s s' s''
    assume "(mset (map outcome_key outs) = mset (concat (map task_keys (map TaskNew ps))) \<and> keyed outs) \<and>
        steps [] (out_ids outs) [] s s'"
    moreover assume "snd r = in_call_order (length calls) (kn @ outs) \<and> list_all2 message_of (snd r) (fst r) \<and>
        steps [] [] (map tool_message (fst r)) s' s''"
    ultimately show "\<exists>outs. mset (map outcome_key outs) = mset (map prepared_key ps) \<and> keyed outs \<and>
        snd r = in_call_order (length calls) (kn @ outs) \<and> list_all2 message_of (snd r) (fst r) \<and>
        steps [] (out_ids outs) (map tool_message (fst r)) s s''"
      unfolding keys using steps_trans [of "[]" "out_ids outs" "[]" s s' "[]" "[]" "map tool_message (fst r)" s'']
      by (intro exI [where x = outs]) (elim conjE, intro conjI; simp)
  qed (auto intro: steps_grows)
  have sched: "spec (bnd (readS (\<lambda>s. ev_schedule env (rs_world s))) (\<lambda>ks.
       bnd (run_tasks env cfg assistant ks (map TaskNew ps)) (\<lambda>outs.
       let ordered = in_call_order (length calls) (kn @ outs) in
        bnd (record_outcomes env ordered) (\<lambda>ms. ret (ms, ordered)))))
     (\<lambda>r s s'. \<exists>outs. mset (map outcome_key outs) = mset (map prepared_key ps) \<and> keyed outs \<and>
        snd r = in_call_order (length calls) (kn @ outs) \<and> list_all2 message_of (snd r) (fst r) \<and>
        steps [] (out_ids outs) (map tool_message (fst r)) s s')" for ps kn
    using run by (simp add: spec_def wp_simps)
  show ?thesis unfolding parallel_batch_def
  proof (rule spec_bnd [OF prepare_all_spec sched])
    fix q :: "'w prepared_tool_call list \<times> (nat \<times> tool_outcome) list" and r
      and s s' s'' :: "'w run_state"
    assume q: "prepared_all 0 calls q \<and> steps (map tc_id calls) (out_ids (snd q)) [] s s'"
    assume "\<exists>outs. mset (map outcome_key outs) = mset (map prepared_key (fst q)) \<and> keyed outs \<and>
        snd r = in_call_order (length calls) (snd q @ outs) \<and> list_all2 message_of (snd r) (fst r) \<and>
        steps [] (out_ids outs) (map tool_message (fst r)) s' s''"
    then obtain outs where r: "mset (map outcome_key outs) = mset (map prepared_key (fst q))" "keyed outs"
        "snd r = in_call_order (length calls) (snd q @ outs)" "list_all2 message_of (snd r) (fst r)"
        "steps [] (out_ids outs) (map tool_message (fst r)) s' s''" by blast
    have all: "mset (map outcome_key (snd q @ outs)) = mset (enum_from 0 calls)" "keyed (snd q @ outs)"
      using q r(1,2) by (simp_all add: prepared_all_def add.commute)
    note ord = in_call_order_correct [OF all]
    have ids: "call_ids (snd r) = map tc_id calls"
      unfolding r(3) call_ids_def using ord(1) by (metis (no_types, lifting) comp_def list.map_comp map_eq_conv)
    have "mset (map (tc_id \<circ> snd) (map outcome_key (snd q @ outs))) = mset (map (tc_id \<circ> snd) (enum_from 0 calls))"
      using all(1) by (metis mset_map)
    moreover have "map (tc_id \<circ> snd) (map outcome_key xs) = out_ids xs" for xs
      by (simp add: call_ids_def outcome_key_def)
    moreover have "map (tc_id \<circ> snd) (enum_from 0 calls) = map tc_id calls"
      by (simp add: enum_from_zip flip: map_map)
    moreover have "out_ids (xs @ ys) = out_ids xs @ out_ids ys" for xs ys
      by (simp add: call_ids_def)
    ultimately have "mset (out_ids (snd q) @ out_ids outs) = mset (map tc_id calls)"
      by metis
    moreover have "steps (map tc_id calls) (out_ids (snd q) @ out_ids outs) (map tool_message (fst r)) s s''"
      using steps_trans [OF conjunct2 [OF q] r(5)] by simp
    moreover have "results_of 0 calls r"
      using ord r(3,4) by (simp add: results_of_def)
    ultimately show "batch_done env calls r s s''"
      unfolding batch_done_def ids using ord(3) r(3) by metis
  qed (auto intro: steps_grows)
qed

lemma execute_tool_batch_spec: "spec (execute_tool_batch env cfg assistant calls) (batch_done env calls)"
proof -
  have seq: "spec (sequential_batch env cfg assistant 0 calls) (batch_done env calls)"
    and trunc: "spec (truncated_batch env 0 calls) (batch_done env calls)"
    by (auto intro: spec_mono [OF sequential_batch_spec] spec_mono [OF truncated_batch_spec] batch_spec_done)
  have pick: "spec (case m of Sequential \<Rightarrow> sequential_batch env cfg assistant 0 calls
      | Parallel \<Rightarrow> parallel_batch env cfg assistant calls) (batch_done env calls)" for m
    using seq parallel_batch_spec by (cases m) auto
  have none: "spec (ret ([], [])) (batch_done env [])"
    by (auto simp: spec_def wp_simps batch_done_def intro: exI [where x = "[]"])
  show ?thesis
    using none trunc pick unfolding execute_tool_batch_def
    by (auto simp: spec_def wp_simps)
qed

section \<open>Properties\<close>

text \<open>C3: Whatever the tools, the hooks and the order in which concurrent tools finish, a batch that
  returns has recorded one result per call in the order of the calls (all of them, unless the
  run was cancelled), in the events, in the context and among the new messages alike; every
  started call is ended exactly once.\<close>

theorem tool_batch_results_in_call_order:
  assumes "execute_tool_batch env cfg assistant calls s = Some (Inr (msgs, ocs), s')"
  shows "\<exists>evs. rs_trace s' = rs_trace s @ evs \<and>
     map trm_tool_call_id msgs = map tc_id (take (length msgs) calls) \<and>
     (length msgs = length calls \<or> cancelled env s') \<and>
     ended_messages evs = map tool_message msgs \<and>
     cx_messages (rs_context s') = cx_messages (rs_context s) @ map tool_message msgs \<and>
     rs_new s' = rs_new s @ map tool_message msgs \<and>
     started_calls evs = map tc_id (take (length msgs) calls) \<and>
     mset (ended_calls evs) = mset (started_calls evs)"
proof -
  have "batch_done env calls (msgs, ocs) s s'"
    using execute_tool_batch_spec [of env cfg assistant calls] assms
    unfolding spec_def by (blast dest: wpD(1))
  then obtain en where r: "results_of 0 calls (msgs, ocs)" "mset en = mset (call_ids ocs)"
      "steps (call_ids ocs) en (map tool_message msgs) s s'"
      "length ocs = length calls \<or> cancelled env s'"
    unfolding batch_done_def by auto
  have len: "length ocs = length msgs" and l2: "list_all2 message_of ocs msgs"
    using r(1) by (auto simp: results_of_def list_all2_lengthD)
  have ids: "call_ids ocs = map tc_id (take (length msgs) calls)"
    using r(1) len unfolding call_ids_def results_of_def
    by (metis (no_types, lifting) comp_def list.map_comp map_eq_conv snd_conv)
  have "map trm_tool_call_id msgs = call_ids ocs"
    using l2 by (induction rule: list_all2_induct) (auto simp: message_of_def outcome_message_def)
  with r len ids show ?thesis unfolding steps_def adds_def by (elim exE conjE) auto
qed

lemma each_updates_quiet:
  assumes "quiet_sink env"
  shows "\<exists>s'. each (emit_update env p) us s = Some (Inr (), s')"
proof (induction us arbitrary: s)
  case Nil
  show ?case by (simp add: prog_run)
next
  case (Cons u us)
  obtain t where 1: "emit_update env p u s = Some (Inr (), t)"
    unfolding emit_update_def using emit_quiet [OF assms] by blast
  show ?case unfolding each.simps thn_def bnd_run(1) [of "emit_update env p u" s, OF 1] by (rule Cons.IH)
qed

text \<open>How an execution that fails or is cancelled ends, before the after-hook.\<close>

definition tool_raised :: "'w environment \<Rightarrow> 'w prepared_tool_call \<Rightarrow> 'w \<Rightarrow> exn option" where
  "tool_raised env p w =
     (case ev_cancelled env w of
        Some reason \<Rightarrow> Some (Exn CancelledError reason)
      | None \<Rightarrow> (case t_execute (pt_tool p) (tc_id (pt_call p)) (pt_args p) w of
          ((ups, Inl e), w') \<Rightarrow> Some e
        | ((ups, Inr r), w') \<Rightarrow> map_option (Exn CancelledError) (ev_cancelled env w')))"

lemma start_tool_raised:
  "\<exists>ups w r. start_tool env p s = Some (Inr (ups, r), s\<lparr>rs_world := w\<rparr>) \<and>
     (case tool_raised env p (rs_world s) of
        Some e \<Rightarrow> r = tool_failure p e
      | None \<Rightarrow> \<exists>res. r = Inr (res, tr_is_error res))"
proof (cases "ev_cancelled env (rs_world s)")
  case (Some reason)
  then have "start_tool env p s = Some (Inr ([], tool_failure p (Exn CancelledError reason)),
      s\<lparr>rs_world := rs_world s\<rparr>)" by (simp add: start_tool_def)
  moreover have "tool_raised env p (rs_world s) = Some (Exn CancelledError reason)"
    using Some by (simp add: tool_raised_def)
  ultimately show ?thesis
    by (intro exI [where x = "[]"] exI [where x = "rs_world s"]
        exI [where x = "tool_failure p (Exn CancelledError reason)"]) (simp only: option.case)
next
  case None
  obtain ups r w where x: "t_execute (pt_tool p) (tc_id (pt_call p)) (pt_args p) (rs_world s) = ((ups, r), w)"
    by (metis prod.collapse)
  with None show ?thesis
    by (cases r; cases "ev_cancelled env w") (auto simp: start_tool_def tool_raised_def)
qed

text \<open>An after-hook that only watches: it returns no override and never raises.\<close>

definition watching_after_hook :: "'w agent_loop_config \<Rightarrow> bool" where
  "watching_after_hook cfg \<longleftrightarrow> (case cf_after_tool_call cfg of None \<Rightarrow> True
     | Some f \<Rightarrow> \<forall>x w. fst (f x w) = Inr None)"

lemma finish_tool_watched:
  assumes "watching_after_hook cfg"
  shows "\<exists>s'. finish_tool cfg assistant p rb s = Some (Inr \<lparr>oc_index = pt_index p,
     oc_call = pt_call p, oc_args = pt_args p, oc_result = fst rb, oc_is_error = snd rb\<rparr>, s')"
proof (cases "cf_after_tool_call cfg")
  case None
  then show ?thesis by (simp add: finish_tool_def bnd_def prog_run)
next
  case (Some f)
  then have w: "fst (f x v) = Inr None" for x v using assms by (simp add: watching_after_hook_def)
  define x where "x = \<lparr>ac_assistant_message = assistant, ac_tool_call = pt_call p,
     ac_args = pt_args p, ac_result = fst rb, ac_is_error = snd rb, ac_context = rs_context s\<rparr>"
  obtain v where "f x (rs_world s) = (Inr None, v)"
    using w by (metis prod.collapse)
  then show ?thesis
    using Some by (simp add: finish_tool_def bnd_def prog_run hook_def catch_def x_def)
qed

text \<open>The text that reports how a tool failed.\<close>

definition failure_text :: "'w prepared_tool_call \<Rightarrow> exn \<Rightarrow> string" where
  "failure_text p e = (case (exn_class e, t_timeout (pt_tool p)) of
       (TimeoutError, Some t) \<Rightarrow>
         ''Tool '' @ tc_name (pt_call p) @ '' timed out after '' @ format_g t @ ''s''
     | (CancelledError, _) \<Rightarrow> if exn_text e = [] then ''Operation aborted'' else exn_text e
     | _ \<Rightarrow> exn_text e)"

text \<open>C8: A tool that raises, is cancelled or times out produces an error result that holds
  the reason as its only content (for a timeout the tool's name and limit, for a cancellation
  without a reason \<^verbatim>\<open>Operation aborted\<close>, otherwise the text of the exception)
  instead of failing the run.  The conditions: the sink of events does not raise (its exception
  would end the run), a \<^verbatim>\<open>TimeoutError\<close> only comes from a tool with a timeout (without
  one the handler itself raises, see the next theorem), and the after-hook, if one is installed,
  neither overrides the result nor raises.\<close>

theorem tool_failures_become_results:
  assumes "quiet_sink env" and "watching_after_hook cfg"
    and "tool_raised env p (rs_world s) = Some e"
    and "exn_class e = TimeoutError \<Longrightarrow> t_timeout (pt_tool p) \<noteq> None"
  shows "\<exists>oc s'. run_prepared_tool env cfg assistant p s = Some (Inr oc, s') \<and>
     oc_is_error oc \<and> oc_call oc = pt_call p \<and> oc_index oc = pt_index p \<and>
     oc_result oc = \<lparr>tr_content = [TextContent (failure_text p e) JNull], tr_details = JObj [],
       tr_usage = None, tr_added_tool_names = JNull, tr_terminate = False, tr_is_error = False\<rparr>"
proof -
  obtain ups w r where st: "start_tool env p s = Some (Inr (ups, r), s\<lparr>rs_world := w\<rparr>)" "r = tool_failure p e"
    using start_tool_raised [of env p s] assms(3) by auto
  have r: "r = Inr (failed_tool_result (failure_text p e), True)"
    using assms(4) unfolding st(2) tool_failure_def
    by (cases "exn_class e"; cases "t_timeout (pt_tool p)") (simp_all add: failure_text_def aborted_text_def)
  obtain s1 where ev: "each (emit_update env p) ups (s\<lparr>rs_world := w\<rparr>) = Some (Inr (), s1)"
    using each_updates_quiet [OF assms(1)] by blast
  obtain s2 where "finish_tool cfg assistant p (failed_tool_result (failure_text p e), True) s1 =
      Some (Inr \<lparr>oc_index = pt_index p, oc_call = pt_call p, oc_args = pt_args p,
        oc_result = failed_tool_result (failure_text p e), oc_is_error = True\<rparr>, s2)"
    using finish_tool_watched [OF assms(2)] by (metis fst_conv snd_conv)
  then show ?thesis
    unfolding run_prepared_tool_def bnd_run(1) [of "start_tool env p" s, OF st(1)] fst_conv snd_conv
      thn_def bnd_run(1) [of "each (emit_update env p) ups", OF ev] r
    by (simp add: bnd_def prog_run failed_tool_result_def text_result_def)
qed

text \<open>But a tool without a timeout that raises \<^verbatim>\<open>TimeoutError\<close> itself (a socket
  timeout, say) makes the handler raise \<^verbatim>\<open>TypeError\<close>: the exception escapes instead of
  becoming an error result.\<close>

theorem untimed_timeout_escapes:
  assumes "quiet_sink env" and "tool_raised env p (rs_world s) = Some (Exn TimeoutError msg)"
    and "t_timeout (pt_tool p) = None"
  shows "\<exists>s'. run_prepared_tool env cfg assistant p s =
     Some (Inl (Exn TypeError ''unsupported format string passed to NoneType.__format__''), s')"
proof -
  obtain ups w r where st: "start_tool env p s = Some (Inr (ups, r), s\<lparr>rs_world := w\<rparr>)"
      "r = tool_failure p (Exn TimeoutError msg)"
    using start_tool_raised [of env p s] assms(2) by auto
  obtain s1 where ev: "each (emit_update env p) ups (s\<lparr>rs_world := w\<rparr>) = Some (Inr (), s1)"
    using each_updates_quiet [OF assms(1)] by blast
  show ?thesis
    unfolding run_prepared_tool_def bnd_run(1) [of "start_tool env p" s, OF st(1)] fst_conv snd_conv
      thn_def bnd_run(1) [of "each (emit_update env p) ups", OF ev] st(2) tool_failure_def
    using assms(3) by (simp add: bnd_def prog_run)
qed

definition clock_only :: "'w environment \<Rightarrow> bool" where
  "clock_only env \<longleftrightarrow> ev_sink env = None \<and> (\<forall>w. snd (ev_clock env w) = w)"

lemma emit_buffered:
  "ev_sink env = None \<Longrightarrow> wp (emit env ev) Q E s = Q () (s\<lparr>rs_trace := rs_trace s @ [ev],
     rs_stream := stream_push is_agent_end agent_end_messages ev (rs_stream s)\<rparr>)"
  by (simp add: wp_def emit_def Let_def)

lemma clock_only_wp:
  assumes "clock_only env"
  shows "wp (emit env ev) Q E s = Q () (s\<lparr>rs_trace := rs_trace s @ [ev],
      rs_stream := stream_push is_agent_end agent_end_messages ev (rs_stream s)\<rparr>)"
    and "wp (now env) Q' E s = Q' (fst (ev_clock env (rs_world s))) s"
proof -
  show "wp (emit env ev) Q E s = Q () (s\<lparr>rs_trace := rs_trace s @ [ev],
      rs_stream := stream_push is_agent_end agent_end_messages ev (rs_stream s)\<rparr>)"
    using assms by (simp add: clock_only_def emit_buffered)
  have "snd (ev_clock env (rs_world s)) = rs_world s" using assms by (simp add: clock_only_def)
  then show "wp (now env) Q' E s = Q' (fst (ev_clock env (rs_world s))) s"
    by (cases "ev_clock env (rs_world s)") (simp add: wp_simps)
qed

text \<open>C9: When the response hit the output token limit, no call is executed: with a clock that does
  not change the world, the world is untouched whatever the tools and hooks would do, and every
  call gets an error result that says so.\<close>

theorem truncated_response_runs_no_tool:
  assumes "clock_only env" and "am_stop_reason assistant = JStr ''length''"
    and "execute_tool_batch env cfg assistant calls s = Some (Inr (msgs, ocs), s')"
  shows "rs_world s' = rs_world s \<and> length msgs = length calls \<and>
     (\<forall>i < length calls. trm_is_error (msgs ! i) \<and> trm_tool_call_id (msgs ! i) = tc_id (calls ! i) \<and>
        trm_content (msgs ! i) = [TextContent (truncated_tool_text (tc_name (calls ! i))) JNull])"
proof -
  define good :: "tool_call \<Rightarrow> tool_result_message \<Rightarrow> bool" where "good = (\<lambda>c m. trm_is_error m \<and> trm_tool_call_id m = tc_id c \<and>
      trm_content m = [TextContent (truncated_tool_text (tc_name c)) JNull])"
  have all: "wp (truncated_batch env i calls) (\<lambda>r s'. rs_world s' = rs_world s \<and>
      list_all2 good calls (fst r)) (\<lambda>_ _. False) s" for i
  proof (induction calls arbitrary: i s)
    case Nil
    show ?case by (simp add: wp_simps)
  next
    case (Cons c cs)
    define oc where "oc = failed_outcome i c (tc_arguments c)
        (failed_tool_result (truncated_tool_text (tc_name c)))"
    have good: "good c (outcome_message oc t)" for t
      by (simp add: good_def oc_def outcome_message_def failed_outcome_def failed_tool_result_def text_result_def)
    have tail: "wp (truncated_batch env (Suc i) cs) (\<lambda>r s'. rs_world s' = rs_world s \<and>
         list_all2 good (c # cs) (m # fst r)) (\<lambda>_ _. False) t"
      if "rs_world t = rs_world s" "good c m" for t m
      using Cons.IH [of "Suc i" t] that by (elim wp_mono) auto
    show ?case unfolding truncated_batch.simps Let_def oc_def [symmetric]
      by (simp only: wp_simps clock_only_wp [OF assms(1)] emit_tool_start_def emit_tool_end_def
          record_outcome_def emit_tool_result_message_def Let_def fst_conv del: wp_now)
         (rule tail, simp_all add: good)
  qed
  show ?thesis
  proof (cases "calls = []")
    case True
    with assms(3) show ?thesis by (auto simp: execute_tool_batch_def prog_run)
  next
    case False
    with assms(2,3) have "truncated_batch env 0 calls s = Some (Inr (msgs, ocs), s')"
      by (simp add: execute_tool_batch_def)
    from wpD(1) [OF all this] show ?thesis by (auto simp: good_def list_all2_conv_all_nth)
  qed
qed

section \<open>A concrete batch\<close>

definition demo_model :: model where
  "demo_model = \<lparr>md_api = ''a'', md_provider = ''p'', md_id = ''m'', md_name = ''M'', md_base_url = [],
     md_reasoning = False, md_input = [''text''], md_cost = \<lparr>mc_rates = \<lparr>pr_input = 0, pr_output = 0,
     pr_cache_read = 0, pr_cache_write = 0\<rparr>, mc_tiers = []\<rparr>, md_context_window = 0, md_max_tokens = 0,
     md_headers = [], md_compat = [], md_sampling_params = []\<rparr>"

definition demo_assistant :: "string \<Rightarrow> content list \<Rightarrow> assistant_message" where
  "demo_assistant stop cs = \<lparr>am_content = cs, am_api = [], am_provider = [], am_model = [],
     am_response_model = JNull, am_response_id = JNull, am_usage = usage_zero, am_stop_reason = JStr stop,
     am_error_message = JNull, am_raw_stop_reason = JNull, am_end_turn = JNull, am_diagnostics = JNull,
     am_timestamp = 0\<rparr>"

definition demo_call :: "string \<Rightarrow> string \<Rightarrow> tool_call" where
  "demo_call i n = \<lparr>tc_id = i, tc_name = n, tc_arguments = [], tc_thought_signature = JNull,
     tc_namespace = JNull\<rparr>"

definition demo_tool :: "string \<Rightarrow> (exn + agent_tool_result) \<Rightarrow> unit agent_tool" where
  "demo_tool n r = \<lparr>t_name = n, t_label = n, t_description = [], t_parameters = [],
     t_execute = (\<lambda>_ _ w. (([], r), w)), t_prepare_arguments = None, t_execution_mode = Parallel,
     t_timeout = None, t_constrained_sampling = JBool False\<rparr>"

definition demo_batch_config :: "unit agent_loop_config" where
  "demo_batch_config = \<lparr>cf_model = demo_model, cf_convert_to_llm = (\<lambda>ms w. (Inr ms, w)),
     cf_transform_context = None, cf_get_api_key = None, cf_get_steering_messages = None,
     cf_get_follow_up_messages = None, cf_should_stop_after_turn = None, cf_prepare_next_turn = None,
     cf_before_tool_call = None, cf_after_tool_call = None, cf_tool_execution = Parallel,
     cf_thinking_level = ''off'', cf_stream_options = default_stream_options\<rparr>"

definition demo_batch_env :: "unit environment" where
  "demo_batch_env = \<lparr>ev_stream_fn = (\<lambda>_ _ _ w. (Inl (Exn RuntimeError ''no response''), w)),
     ev_sink = None, ev_cancelled = (\<lambda>_. None), ev_clock = (\<lambda>w. (7, w)), ev_schedule = (\<lambda>_. [1, 1, 0, 0]),
     ev_re_search = (\<lambda>_ _. Inr True)\<rparr>"

definition demo_run_state :: "unit agent_tool list \<Rightarrow> unit run_state" where
  "demo_run_state tools = \<lparr>rs_world = (), rs_trace = [], rs_stream = new_stream,
     rs_context = \<lparr>cx_system_prompt = [], cx_messages = [], cx_tools = tools\<rparr>, rs_new = []\<rparr>"

definition demo_calls :: "tool_call list" where
  "demo_calls = [demo_call ''a'' ''ok'', demo_call ''b'' ''bad'', demo_call ''c'' ''none'']"

definition demo_tools :: "unit agent_tool list" where
  "demo_tools = [demo_tool ''ok'' (Inr (text_result ''fine'' False)),
                 demo_tool ''bad'' (Inl (Exn RuntimeError ''boom''))]"

definition demo_prepared :: "unit agent_tool \<Rightarrow> unit prepared_tool_call" where
  "demo_prepared t = \<lparr>pt_index = 0, pt_call = demo_call ''a'' (t_name t), pt_tool = t, pt_args = []\<rparr>"

lemmas demo_defs = demo_model_def demo_assistant_def demo_call_def demo_tool_def demo_batch_config_def
  demo_batch_env_def demo_run_state_def demo_calls_def demo_tools_def demo_prepared_def

lemma validate_empty: "validate_json_schema rs (JObj d) [] path = Inr ()"
proof -
  have "checkE (\<lambda>kv. case JNull of JObj c \<Rightarrow> f kv c | _ \<Rightarrow> Inr ()) d = Inr ()" for f
    by (simp add: checkE_Inr)
  then show ?thesis
    by (subst validate_json_schema.simps)
       (simp add: check_const_enum_def check_type_def check_required_def check_size_def)
qed

lemmas batch_eval = validate_empty demo_defs execute_tool_batch_def effective_mode_def parallel_batch_def
  prepare_tool_call_def prepared_arguments_def before_call_def emit_tool_start_def emit_tool_end_def
  start_tool_def tool_failure_def complete_task_def finish_tool_def record_outcome_def
  emit_tool_result_message_def outcome_message_def in_call_order_def failed_outcome_def
  failed_tool_result_def text_result_def put_context_def put_new_def hook_def now_def emit_def
  raise_if_cancelled_def bnd_def thn_def catch_def prog_run Let_def

lemma demo_env_facts: "quiet_sink demo_batch_env" "clock_only demo_batch_env" "\<not> cancelled demo_batch_env s"
  by (simp_all add: quiet_sink_def clock_only_def cancelled_def demo_batch_env_def)

lemma returnedI:
  assumes "case p of Some (Inr (x, y), s') \<Rightarrow> Q x y s' | _ \<Rightarrow> False"
  shows "\<exists>x y s'. p = Some (Inr (x, y), s') \<and> Q x y s'"
proof (cases p)
  case (Some q)
  obtain r s' where "q = (r, s')" by (cases q)
  with assms Some show ?thesis by (cases r) (auto split: prod.splits)
qed (use assms in simp)

lemma demo_batch_returns:
  "\<exists>msgs ocs s'. execute_tool_batch demo_batch_env demo_batch_config (demo_assistant ''toolUse'' []) demo_calls
     (demo_run_state demo_tools) = Some (Inr (msgs, ocs), s') \<and>
   ended_calls (rs_trace s') = [''c'', ''b'', ''a'']"
proof -
  have "case execute_tool_batch demo_batch_env demo_batch_config (demo_assistant ''toolUse'' []) demo_calls
      (demo_run_state demo_tools) of
    Some (Inr (msgs, ocs), s') \<Rightarrow> ended_calls (rs_trace s') = [''c'', ''b'', ''a''] | _ \<Rightarrow> False"
    by (simp add: batch_eval)
  then show ?thesis by (rule returnedI)
qed

text \<open>The schedule lets the second tool finish first; the results are still in call order.\<close>

theorem tool_batch_results_in_call_order_witness:
  "\<exists>msgs ocs s'. execute_tool_batch demo_batch_env demo_batch_config (demo_assistant ''toolUse'' []) demo_calls
     (demo_run_state demo_tools) = Some (Inr (msgs, ocs), s') \<and>
   map trm_tool_call_id msgs = [''a'', ''b'', ''c''] \<and> ended_calls (rs_trace s') = [''c'', ''b'', ''a'']"
proof -
  obtain msgs ocs s' where run: "execute_tool_batch demo_batch_env demo_batch_config
      (demo_assistant ''toolUse'' []) demo_calls (demo_run_state demo_tools) = Some (Inr (msgs, ocs), s')"
      "ended_calls (rs_trace s') = [''c'', ''b'', ''a'']"
    using demo_batch_returns by blast
  from tool_batch_results_in_call_order [OF run(1)] demo_env_facts(3)
  have "map trm_tool_call_id msgs = map tc_id demo_calls" by auto
  with run show ?thesis by (auto simp: demo_calls_def demo_call_def)
qed

theorem tool_failures_become_results_witness:
  "\<exists>oc s'. run_prepared_tool demo_batch_env demo_batch_config (demo_assistant ''toolUse'' [])
      (demo_prepared (demo_tool ''bad'' (Inl (Exn RuntimeError ''boom'')))) (demo_run_state []) = Some (Inr oc, s') \<and>
     oc_is_error oc \<and> agent_tool_result.tr_content (oc_result oc) = [TextContent ''boom'' JNull]"
proof -
  have raised: "tool_raised demo_batch_env (demo_prepared (demo_tool ''bad'' (Inl (Exn RuntimeError ''boom''))))
      (rs_world (demo_run_state [])) = Some (Exn RuntimeError ''boom'')"
    by (simp add: tool_raised_def demo_defs)
  have "watching_after_hook demo_batch_config"
    by (simp add: watching_after_hook_def demo_batch_config_def)
  from tool_failures_become_results [OF demo_env_facts(1) this raised,
      of "demo_assistant ''toolUse'' []"]
  show ?thesis by (auto simp: failure_text_def)
qed

theorem untimed_timeout_escapes_witness:
  "\<exists>s'. run_prepared_tool demo_batch_env demo_batch_config (demo_assistant ''toolUse'' [])
      (demo_prepared (demo_tool ''slow'' (Inl (Exn TimeoutError ''timed out'')))) (demo_run_state []) =
     Some (Inl (Exn TypeError ''unsupported format string passed to NoneType.__format__''), s')"
  by (rule untimed_timeout_escapes [OF demo_env_facts(1), where msg = "''timed out''"])
     (simp_all add: tool_raised_def demo_defs)

theorem truncated_response_runs_no_tool_witness:
  "\<exists>msgs ocs s'. execute_tool_batch demo_batch_env demo_batch_config (demo_assistant ''length'' []) demo_calls
     (demo_run_state demo_tools) = Some (Inr (msgs, ocs), s') \<and> length msgs = 3 \<and> trm_is_error (msgs ! 0)"
proof -
  have "case execute_tool_batch demo_batch_env demo_batch_config (demo_assistant ''length'' []) demo_calls
      (demo_run_state demo_tools) of Some (Inr (msgs, ocs), s') \<Rightarrow> True | _ \<Rightarrow> False"
    by (simp add: batch_eval)
  from returnedI [OF this] obtain msgs ocs s' where run: "execute_tool_batch demo_batch_env demo_batch_config
      (demo_assistant ''length'' []) demo_calls (demo_run_state demo_tools) = Some (Inr (msgs, ocs), s')"
    by blast
  have "am_stop_reason (demo_assistant ''length'' []) = JStr ''length''" by (simp add: demo_assistant_def)
  from truncated_response_runs_no_tool [OF demo_env_facts(2) this run] run show ?thesis
    by (auto simp: demo_calls_def)
qed

end
