(* ===== verification/AgentLoop.thy ===== *)
theory AgentLoop
  imports ToolBatchCorrect
begin

text \<open>
  The agent loop (\<^verbatim>\<open>src/pi_agent/agent/agent_loop.py\<close>): streaming one assistant
  response, one turn, the nested \<^verbatim>\<open>while\<close> loops with steering and follow-up messages,
  and the guarded run that turns an exception into an error message.  \<open>turns\<close> takes the number of
  iterations it may make; \<open>None\<close> means more were needed, or that the code waits for ever.
  The event list of a provider stream is fixed when the provider is called.
\<close>

section \<open>One assistant response\<close>

fun is_llm_message :: "agent_message \<Rightarrow> bool" where
  "is_llm_message (LlmMsg _) = True" | "is_llm_message (AppMsg _) = False"

definition default_convert_to_llm :: "agent_message list \<Rightarrow> agent_message list" where
  "default_convert_to_llm ms = filter is_llm_message ms"

definition llm_messages :: "agent_message list \<Rightarrow> message list" where
  "llm_messages ms = concat (map (\<lambda>m. case m of LlmMsg x \<Rightarrow> [x] | AppMsg _ \<Rightarrow> []) ms)"

abbreviation asst :: "assistant_message \<Rightarrow> agent_message" where
  "asst m \<equiv> LlmMsg (AssistantMessage m)"

definition non_empty :: "string \<Rightarrow> string option" where
  "non_empty s = (if s = [] then None else Some s)"

definition request_options ::
  "'w agent_loop_config \<Rightarrow> string \<Rightarrow> string option \<Rightarrow> stream_options" where
  "request_options cfg level key =
     (let so = cf_stream_options cfg;
          so1 = (if level \<noteq> ''off'' then so\<lparr>so_reasoning := Some level\<rparr> else so)
      in case cf_get_api_key cfg of
           None \<Rightarrow> so1
         | Some _ \<Rightarrow> so1\<lparr>so_api_key := (case key of Some (c # cs) \<Rightarrow> Some (c # cs) | _ \<Rightarrow> so_api_key so1)\<rparr>)"

definition request_context :: "'w agent_context \<Rightarrow> agent_message list \<Rightarrow> provider_context" where
  "request_context ctx ms =
     \<lparr>pc_messages = llm_messages ms, pc_system_prompt = non_empty (cx_system_prompt ctx),
      pc_tools = (if cx_tools ctx = [] then None else Some (map tool_definition_of (cx_tools ctx)))\<rparr>"

text \<open>Everything before the provider's events: transform, convert, options, the call.\<close>

definition provider_request ::
  "'w environment \<Rightarrow> 'w agent_loop_config \<Rightarrow> model \<Rightarrow> string \<Rightarrow> ('w run_state, provider_response) prog" where
  "provider_request env cfg model level =
     bnd (readS (\<lambda>s. cx_messages (rs_context s))) (\<lambda>ms0.
     bnd (case cf_transform_context cfg of None \<Rightarrow> ret ms0 | Some f \<Rightarrow> hook (f ms0)) (\<lambda>ms1.
     bnd (hook (cf_convert_to_llm cfg ms1)) (\<lambda>ms2.
     if \<not> (\<forall>m \<in> set ms2. is_llm_message m)
     then raise_exn (Exn TypeError ''convert_to_llm must return only model Message values'')
     else
       bnd (case cf_get_api_key cfg of None \<Rightarrow> ret None | Some f \<Rightarrow> hook (f (md_provider model))) (\<lambda>key.
       bnd (readS rs_context) (\<lambda>ctx.
       hook (ev_stream_fn env model (request_context ctx ms2) (request_options cfg level key)))))))"

definition pending_of :: "assistant_message \<Rightarrow> assistant_message" where
  "pending_of m = m\<lparr>am_stop_reason := JStr ''pending'', am_error_message := JNull\<rparr>"

text \<open>Append the message, announce it, and remember its index.\<close>

definition insert_message :: "'w environment \<Rightarrow> assistant_message \<Rightarrow> ('w run_state, nat) prog" where
  "insert_message env m =
     thn (put_context (asst m))
    (thn (put_new (asst m))
    (bnd (readS (\<lambda>s. length (cx_messages (rs_context s)) - 1)) (\<lambda>i.
     thn (emit env (MessageStartEvent (asst m))) (ret i))))"

definition replace_message :: "nat \<Rightarrow> assistant_message \<Rightarrow> ('w run_state, unit) prog" where
  "replace_message i m = thn (set_context i (asst m)) (set_last_new (asst m))"

definition finish_message ::
  "'w environment \<Rightarrow> nat option \<Rightarrow> assistant_message \<Rightarrow> ('w run_state, nat) prog" where
  "finish_message env idx m =
     bnd (case idx of None \<Rightarrow> insert_message env (pending_of m) | Some i \<Rightarrow> ret i) (\<lambda>i.
     thn (replace_message i m)
    (thn (emit env (MessageEndEvent (asst m))) (ret i)))"

definition update_message ::
  "'w environment \<Rightarrow> nat option \<Rightarrow> assistant_message \<Rightarrow> assistant_event \<Rightarrow> ('w run_state, nat) prog" where
  "update_message env idx m ev =
     bnd (case idx of
            None \<Rightarrow> insert_message env m
          | Some i \<Rightarrow> thn (replace_message i m) (ret i)) (\<lambda>i.
     thn (emit env (MessageUpdateEvent m ev)) (ret i))"

text \<open>The \<^verbatim>\<open>async for\<close> over the provider's events: the assistant's index in the context, if
  it was inserted, and the final message, if a terminal event came.\<close>

fun provider_loop ::
  "'w environment \<Rightarrow> nat option \<Rightarrow> assistant_message option \<Rightarrow> assistant_event list
     \<Rightarrow> ('w run_state, nat option \<times> assistant_message option) prog" where
  "provider_loop env idx final [] = ret (idx, final)"
| "provider_loop env idx final (ev # evs) =
     (case ev of
        StartEvent p \<Rightarrow>
          if idx \<noteq> None then raise_exn (Exn RuntimeError ''Provider emitted more than one start event'')
          else bnd (insert_message env p) (\<lambda>i. provider_loop env (Some i) final evs)
      | DoneEvent _ m \<Rightarrow>
          bnd (finish_message env idx m) (\<lambda>i. provider_loop env (Some i) (Some m) evs)
      | ErrorEvent _ m \<Rightarrow>
          bnd (finish_message env idx m) (\<lambda>i. provider_loop env (Some i) (Some m) evs)
      | _ \<Rightarrow>
          (case event_partial ev of
             Some p \<Rightarrow> bnd (update_message env idx p ev) (\<lambda>i. provider_loop env (Some i) final evs)
           | None \<Rightarrow> provider_loop env idx final evs))"

text \<open>\<^verbatim>\<open>await response.result()\<close> never returns when the stream was ended without a
  result.\<close>

definition provider_result :: "provider_response \<Rightarrow> ('w run_state, assistant_message) prog" where
  "provider_result r =
     (case prs_failure r of
        Some e \<Rightarrow> raise_exn e
      | None \<Rightarrow>
          if \<not> prs_done r then
            raise_exn (Exn RuntimeError ''Provider stream ended without a terminal event'')
          else (case prs_result r of None \<Rightarrow> diverge | Some m \<Rightarrow> ret m))"

definition stream_assistant_response ::
  "'w environment \<Rightarrow> 'w agent_loop_config \<Rightarrow> model \<Rightarrow> string \<Rightarrow> ('w run_state, assistant_message) prog" where
  "stream_assistant_response env cfg model level =
     bnd (provider_request env cfg model level) (\<lambda>r.
     bnd (provider_loop env None None (prs_events r)) (\<lambda>st.
     bnd (provider_result r) (\<lambda>resolved.
     case snd st of
       Some m \<Rightarrow> ret m
     | None \<Rightarrow> bnd (finish_message env (fst st) resolved) (\<lambda>_. ret resolved))))"

section \<open>One turn\<close>

record 'w loop_control =
  lc_model :: model
  lc_level :: string
  lc_last :: "'w completed_turn_context option"
  lc_pending :: "agent_message list"
  lc_more :: bool

definition emit_agent_end :: "'w environment \<Rightarrow> ('w run_state, unit) prog" where
  "emit_agent_end env = bnd (readS rs_new) (\<lambda>ms. emit env (AgentEndEvent ms))"

definition apply_turn_update ::
  "'w agent_loop_turn_update \<Rightarrow> 'w loop_control \<Rightarrow> ('w run_state, 'w loop_control) prog" where
  "apply_turn_update u c =
     thn (modS (\<lambda>s. s\<lparr>rs_context := (case tu_context u of Some ctx \<Rightarrow> ctx | None \<Rightarrow> rs_context s)\<rparr>))
         (ret (c\<lparr>lc_model := (case tu_model u of Some m \<Rightarrow> m | None \<Rightarrow> lc_model c),
                 lc_level := (case tu_thinking_level u of Some (l # ls) \<Rightarrow> l # ls | _ \<Rightarrow> lc_level c)\<rparr>))"

text \<open>The part of the inner loop that runs only after a completed turn.\<close>

definition begin_turn ::
  "'w environment \<Rightarrow> 'w agent_loop_config \<Rightarrow> 'w loop_control \<Rightarrow> ('w run_state, 'w loop_control) prog" where
  "begin_turn env cfg c =
     (case lc_last c of
        None \<Rightarrow> ret c
      | Some completed \<Rightarrow>
          bnd (case cf_prepare_next_turn cfg of
                 None \<Rightarrow> ret c
               | Some f \<Rightarrow> bnd (hook (f completed)) (\<lambda>u.
                   case u of None \<Rightarrow> ret c | Some upd \<Rightarrow> apply_turn_update upd c)) (\<lambda>c1.
          bnd (if lc_pending c1 = [] then maybe_hook (cf_get_steering_messages cfg) []
               else ret (lc_pending c1)) (\<lambda>ms.
          thn (emit env TurnStartEvent) (ret (c1\<lparr>lc_pending := ms\<rparr>)))))"

definition add_message :: "'w environment \<Rightarrow> agent_message \<Rightarrow> ('w run_state, unit) prog" where
  "add_message env m =
     thn (emit env (MessageStartEvent m))
    (thn (emit env (MessageEndEvent m))
    (thn (put_context m) (put_new m)))"

definition tool_calls_of :: "assistant_message \<Rightarrow> tool_call list" where
  "tool_calls_of m = concat (map (\<lambda>b. case b of ToolCallContent c \<Rightarrow> [c] | _ \<Rightarrow> []) (am_content m))"

definition batch_terminates :: "tool_outcome list \<Rightarrow> bool" where
  "batch_terminates ocs \<longleftrightarrow> ocs \<noteq> [] \<and> (\<forall>oc \<in> set ocs. tr_terminate (oc_result oc))"

text \<open>The part after the tools ran: the turn ends, and the run may stop.\<close>

definition end_turn ::
  "'w environment \<Rightarrow> 'w agent_loop_config \<Rightarrow> assistant_message \<Rightarrow> tool_call list
     \<Rightarrow> tool_result_message list \<times> tool_outcome list \<Rightarrow> 'w loop_control
     \<Rightarrow> ('w run_state, 'w loop_control option) prog" where
  "end_turn env cfg assistant calls r c =
     thn (emit env (TurnEndEvent assistant (fst r)))
    (bnd (readS (\<lambda>s. \<lparr>ct_message = assistant, ct_tool_results = fst r, ct_context = rs_context s,
                      ct_new_messages = rs_new s\<rparr>)) (\<lambda>completed.
     bnd (case cf_should_stop_after_turn cfg of None \<Rightarrow> ret False | Some f \<Rightarrow> hook (f completed)) (\<lambda>stop.
     if stop then thn (emit_agent_end env) (ret None)
     else bnd (maybe_hook (cf_get_steering_messages cfg) []) (\<lambda>ms.
          ret (Some (c\<lparr>lc_last := Some completed, lc_pending := ms,
                      lc_more := calls \<noteq> [] \<and> \<not> batch_terminates (snd r)\<rparr>))))))"

text \<open>\<open>None\<close> when the run is over.\<close>

definition turn ::
  "'w environment \<Rightarrow> 'w agent_loop_config \<Rightarrow> 'w loop_control \<Rightarrow> ('w run_state, 'w loop_control option) prog" where
  "turn env cfg c0 =
     bnd (begin_turn env cfg c0) (\<lambda>c.
     thn (each (add_message env) (lc_pending c))
    (thn (raise_if_cancelled env)
    (bnd (stream_assistant_response env cfg (lc_model c) (lc_level c)) (\<lambda>assistant.
     if am_stop_reason assistant \<in> {JStr ''error'', JStr ''aborted''} then
       thn (emit env (TurnEndEvent assistant []))
      (thn (emit_agent_end env) (ret None))
     else
       bnd (execute_tool_batch env cfg assistant (tool_calls_of assistant)) (\<lambda>r.
       end_turn env cfg assistant (tool_calls_of assistant) r c)))))"

section \<open>The loop\<close>

fun turns ::
  "nat \<Rightarrow> 'w environment \<Rightarrow> 'w agent_loop_config \<Rightarrow> 'w loop_control \<Rightarrow> ('w run_state, unit) prog" where
  "turns 0 env cfg c = diverge"
| "turns (Suc n) env cfg c =
     (if lc_more c \<or> lc_pending c \<noteq> [] then
        bnd (turn env cfg c) (\<lambda>r. case r of None \<Rightarrow> ret () | Some c' \<Rightarrow> turns n env cfg c')
      else
        bnd (maybe_hook (cf_get_follow_up_messages cfg) []) (\<lambda>fu.
        if fu \<noteq> [] then turns n env cfg (c\<lparr>lc_pending := fu, lc_more := True\<rparr>)
        else emit_agent_end env))"

definition announce :: "'w environment \<Rightarrow> agent_message \<Rightarrow> ('w run_state, unit) prog" where
  "announce env m = thn (emit env (MessageStartEvent m)) (emit env (MessageEndEvent m))"

definition run_loop ::
  "nat \<Rightarrow> 'w environment \<Rightarrow> 'w agent_loop_config \<Rightarrow> agent_message list \<Rightarrow> bool \<Rightarrow> ('w run_state, unit) prog" where
  "run_loop fuel env cfg prompts is_continue =
     thn (emit env AgentStartEvent)
    (thn (emit env TurnStartEvent)
    (thn (if is_continue then ret () else each (announce env) prompts)
    (bnd (maybe_hook (cf_get_steering_messages cfg) []) (\<lambda>ms.
     turns fuel env cfg \<lparr>lc_model = cf_model cfg, lc_level = cf_thinking_level cfg, lc_last = None,
                         lc_pending = ms, lc_more = True\<rparr>))))"

text \<open>After \<^verbatim>\<open>prepare_next_turn\<close> replaced the context the code appends the error to the
  original context object, which nothing reads any more; the model appends it to the current one.\<close>

definition failure_message :: "model \<Rightarrow> string \<Rightarrow> string \<Rightarrow> int \<Rightarrow> assistant_message" where
  "failure_message m reason msg t =
     \<lparr>am_content = [], am_api = md_api m, am_provider = md_provider m, am_model = md_id m,
      am_response_model = JNull, am_response_id = JNull, am_usage = usage_zero,
      am_stop_reason = JStr reason, am_error_message = JStr msg, am_raw_stop_reason = JNull,
      am_end_turn = JNull, am_diagnostics = JArr [], am_timestamp = t\<rparr>"

definition finish_after_loop_failure ::
  "'w environment \<Rightarrow> model \<Rightarrow> string \<Rightarrow> string \<Rightarrow> ('w run_state, unit) prog" where
  "finish_after_loop_failure env m reason msg =
     bnd (now env) (\<lambda>t. let err = failure_message m reason msg t in
     thn (emit env (MessageStartEvent (asst err)))
    (thn (emit env (MessageEndEvent (asst err)))
    (thn (put_context (asst err))
    (thn (emit env (TurnEndEvent err []))
    (bnd (readS rs_new) (\<lambda>ms. emit env (AgentEndEvent (ms @ [asst err]))))))))"

definition run_guarded ::
  "nat \<Rightarrow> 'w environment \<Rightarrow> 'w agent_loop_config \<Rightarrow> agent_message list \<Rightarrow> bool \<Rightarrow> ('w run_state, unit) prog" where
  "run_guarded fuel env cfg prompts is_continue s =
     (case catch (run_loop fuel env cfg prompts is_continue)
         (\<lambda>e. if exn_class e = CancelledError
              then finish_after_loop_failure env (cf_model cfg) ''aborted'' (aborted_text e)
              else finish_after_loop_failure env (cf_model cfg) ''error'' (exn_text e)) s of
        None \<Rightarrow> None
      | Some (r, s') \<Rightarrow> Some (r, s'\<lparr>rs_stream := stream_end None (rs_stream s')\<rparr>))"

section \<open>Entry points\<close>

definition start_state ::
  "'w \<Rightarrow> 'w agent_context \<Rightarrow> agent_message list \<Rightarrow> agent_message list \<Rightarrow> 'w run_state" where
  "start_state w ctx added prompts =
     \<lparr>rs_world = w, rs_trace = [], rs_stream = new_stream,
      rs_context = ctx\<lparr>cx_messages := cx_messages ctx @ added\<rparr>, rs_new = prompts\<rparr>"

definition agent_loop ::
  "nat \<Rightarrow> 'w environment \<Rightarrow> 'w agent_loop_config \<Rightarrow> agent_message list \<Rightarrow> 'w agent_context \<Rightarrow> 'w
     \<Rightarrow> ((exn + unit) \<times> 'w run_state) option" where
  "agent_loop fuel env cfg prompts ctx w =
     run_guarded fuel env cfg prompts False (start_state w ctx prompts prompts)"

fun is_assistant :: "agent_message \<Rightarrow> bool" where
  "is_assistant (LlmMsg (AssistantMessage _)) = True" | "is_assistant _ = False"

definition agent_loop_continue ::
  "nat \<Rightarrow> 'w environment \<Rightarrow> 'w agent_loop_config \<Rightarrow> 'w agent_context \<Rightarrow> 'w
     \<Rightarrow> (exn, ((exn + unit) \<times> 'w run_state) option) result" where
  "agent_loop_continue fuel env cfg ctx w =
     (if cx_messages ctx = [] then Inl (Exn ValueError ''Cannot continue an empty context'')
      else if is_assistant (last (cx_messages ctx))
      then Inl (Exn ValueError ''Cannot continue when the last message is an assistant message'')
      else Inr (run_guarded fuel env cfg [] True (start_state w ctx [] [])))"

text \<open>\<^verbatim>\<open>await stream.result()\<close>: what the caller of a run gets; \<open>None\<close> when it waits for
  ever.\<close>

definition awaited_result :: "((exn + unit) \<times> 'w run_state) option \<Rightarrow> (agent_message list \<times> 'w run_state) option" where
  "awaited_result r = (case r of
       None \<Rightarrow> None
     | Some (_, s) \<Rightarrow> map_option (\<lambda>ms. (ms, s)) (es_result (rs_stream s)))"

definition run_agent_loop ::
  "nat \<Rightarrow> 'w environment \<Rightarrow> 'w agent_loop_config \<Rightarrow> agent_message list \<Rightarrow> 'w agent_context \<Rightarrow> 'w
     \<Rightarrow> (agent_message list \<times> 'w run_state) option" where
  "run_agent_loop fuel env cfg prompts ctx w =
     awaited_result (agent_loop fuel (env\<lparr>ev_sink := None\<rparr>) cfg prompts ctx w)"

definition run_agent_loop_continue ::
  "nat \<Rightarrow> 'w environment \<Rightarrow> 'w agent_loop_config \<Rightarrow> 'w agent_context \<Rightarrow> 'w
     \<Rightarrow> (exn, (agent_message list \<times> 'w run_state) option) result" where
  "run_agent_loop_continue fuel env cfg ctx w =
     bindE (agent_loop_continue fuel (env\<lparr>ev_sink := None\<rparr>) cfg ctx w) (\<lambda>r. Inr (awaited_result r))"

end
