(* ===== verification/Agent.thy ===== *)
theory Agent
  imports Queues AgentLoop
begin

text \<open>
  The stateful wrapper over the agent loop (\<^verbatim>\<open>src/pi_agent/agent/agent.py\<close>): it owns the
  transcript, the two message queues and the listeners, runs one loop at a time, and reduces the
  loop's events into its public state before it hands them to the listeners.

  An agent has two parts.  Its \<^emph>\<open>set-up\<close> (model, prompt, tools, configuration) only changes
  while no run is active, through setters that check this.  Its \<^emph>\<open>live\<close> state is the world of
  the loop: hooks, tools and listeners may read and change it while a run is active.  Listeners are
  known by numbers, in the order of subscription.  Copies (\<^verbatim>\<open>deepcopy\<close>) are the identity.
\<close>

section \<open>State\<close>

text \<open>\<open>ag_signal\<close> is the active cancellation token: \<open>None\<close> when no run is active, \<open>Some None\<close>
  when it is not cancelled, \<open>Some (Some reason)\<close> when it is.  \<open>ag_outer\<close> is everything else.\<close>

record 'u agent_live =
  ag_messages :: "agent_message list"
  ag_is_streaming :: bool
  ag_streaming_message :: "agent_message option"
  ag_pending_tool_calls :: "string set"
  ag_error_message :: json
  ag_steering :: message_queue
  ag_follow_up :: message_queue
  ag_listeners :: "nat list"
  ag_listener_errors :: "exn list"
  ag_signal :: "string option option"
  ag_outer :: 'u

record 'w agent_setup =
  su_system_prompt :: string
  su_model :: model
  su_thinking_level :: string
  su_tools :: "'w agent_tool list"
  su_config :: "'w agent_loop_config"
  su_env :: "'w environment"
  su_listener :: "nat \<Rightarrow> agent_event \<Rightarrow> ('w, unit) hook"

type_synonym 'u live_setup = "'u agent_live agent_setup"
type_synonym 'u agent = "'u live_setup \<times> 'u agent_live"

section \<open>Construction\<close>

record 'w agent_initial_state =
  is_system_prompt :: string
  is_model :: model
  is_thinking_level :: string
  is_tools :: "'w agent_tool list"
  is_messages :: "agent_message list"
  is_error_message :: json

definition empty_model :: model where
  "empty_model = \<lparr>md_api = [], md_provider = [], md_id = [], md_name = [], md_base_url = [],
     md_reasoning = False, md_input = [''text''],
     md_cost = \<lparr>mc_rates = \<lparr>pr_input = 0, pr_output = 0, pr_cache_read = 0, pr_cache_write = 0\<rparr>,
       mc_tiers = []\<rparr>,
     md_context_window = 0, md_max_tokens = 0, md_headers = [], md_compat = [], md_sampling_params = []\<rparr>"

definition empty_state :: "'w agent_initial_state" where
  "empty_state = \<lparr>is_system_prompt = [], is_model = empty_model, is_thinking_level = ''off'',
     is_tools = [], is_messages = [], is_error_message = JNull\<rparr>"

text \<open>\<open>ao_config\<close> holds the hooks, the tool execution mode and the stream options; its model, level
  and queue callbacks are replaced.\<close>

record 'w agent_options =
  ao_initial_state :: "'w agent_initial_state option"
  ao_model :: "model option"
  ao_system_prompt :: "string option"
  ao_thinking_level :: "string option"
  ao_tools :: "'w agent_tool list option"
  ao_messages :: "agent_message list option"
  ao_config :: "'w agent_loop_config"
  ao_steering_mode :: string
  ao_follow_up_mode :: string

definition given :: "'a option \<Rightarrow> 'a \<Rightarrow> 'a" where
  "given v d = (case v of None \<Rightarrow> d | Some x \<Rightarrow> x)"

definition options_state :: "'w agent_options \<Rightarrow> 'w agent_initial_state" where
  "options_state o' =
     (let st = given (ao_initial_state o') empty_state in
      st\<lparr>is_model := given (ao_model o') (is_model st),
         is_system_prompt := given (ao_system_prompt o') (is_system_prompt st),
         is_thinking_level := given (ao_thinking_level o') (is_thinking_level st),
         is_tools := given (ao_tools o') (is_tools st),
         is_messages := given (ao_messages o') (is_messages st)\<rparr>)"

text \<open>The second half of \<^verbatim>\<open>Agent.__init__\<close>, common to both ways of constructing one.\<close>

definition make_agent ::
  "'u agent_live agent_initial_state \<Rightarrow> 'u agent_live agent_loop_config \<Rightarrow> 'u agent_live environment
     \<Rightarrow> (nat \<Rightarrow> agent_event \<Rightarrow> ('u agent_live, unit) hook) \<Rightarrow> string \<Rightarrow> string \<Rightarrow> 'u
     \<Rightarrow> (exn, 'u agent) result" where
  "make_agent st cfg env listener steering follow_up u =
     (if md_id (is_model st) = [] then Inl (Exn ValueError ''Agent requires a model'')
      else bindE (new_queue steering) (\<lambda>q1.
           bindE (new_queue follow_up) (\<lambda>q2.
           Inr (\<lparr>su_system_prompt = is_system_prompt st, su_model = is_model st,
                 su_thinking_level = is_thinking_level st, su_tools = is_tools st, su_config = cfg,
                 su_env = env, su_listener = listener\<rparr>,
                \<lparr>ag_messages = is_messages st, ag_is_streaming = False, ag_streaming_message = None,
                 ag_pending_tool_calls = {}, ag_error_message = is_error_message st,
                 ag_steering = q1, ag_follow_up = q2, ag_listeners = [], ag_listener_errors = [],
                 ag_signal = None, ag_outer = u\<rparr>))))"

definition agent_of_options where
  "agent_of_options o' env listener u =
     (let st = options_state o' in
      make_agent st
        ((ao_config o')\<lparr>cf_model := is_model st, cf_thinking_level := is_thinking_level st,
           cf_get_steering_messages := None, cf_get_follow_up_messages := None\<rparr>)
        env listener (ao_steering_mode o') (ao_follow_up_mode o') u)"

definition agent_of_config where
  "agent_of_config cfg env listener prompt tools messages steering follow_up u =
     make_agent \<lparr>is_system_prompt = prompt, is_model = cf_model cfg,
                 is_thinking_level = cf_thinking_level cfg, is_tools = tools, is_messages = messages,
                 is_error_message = JNull\<rparr> cfg env listener steering follow_up u"

section \<open>Reducing events\<close>

fun assistant_of :: "agent_message \<Rightarrow> assistant_message option" where
  "assistant_of (LlmMsg (AssistantMessage m)) = Some m" | "assistant_of _ = None"

fun apply_event :: "agent_event \<Rightarrow> 'u agent_live \<Rightarrow> 'u agent_live" where
  "apply_event (MessageStartEvent m) w =
     (if is_assistant m then w\<lparr>ag_streaming_message := Some m\<rparr> else w)"
| "apply_event (MessageUpdateEvent m _) w = w\<lparr>ag_streaming_message := Some (asst m)\<rparr>"
| "apply_event (MessageEndEvent m) w =
     (let w1 = w\<lparr>ag_messages := ag_messages w @ [m]\<rparr> in
      case assistant_of m of
        None \<Rightarrow> w1
      | Some a \<Rightarrow>
          (let w2 = w1\<lparr>ag_streaming_message := None\<rparr> in
           if am_stop_reason a \<in> {JStr ''error'', JStr ''aborted''}
           then w2\<lparr>ag_error_message := am_error_message a\<rparr> else w2))"
| "apply_event (ToolExecutionStartEvent i _ _) w =
     w\<lparr>ag_pending_tool_calls := insert i (ag_pending_tool_calls w)\<rparr>"
| "apply_event (ToolExecutionEndEvent i _ _ _ _) w =
     w\<lparr>ag_pending_tool_calls := ag_pending_tool_calls w - {i}\<rparr>"
| "apply_event _ w = w"

text \<open>Listeners run in subscription order; an \<^verbatim>\<open>Exception\<close> is remembered, a cancellation is
  not an \<^verbatim>\<open>Exception\<close> and goes through.\<close>

fun dispatch ::
  "(nat \<Rightarrow> agent_event \<Rightarrow> ('u agent_live, unit) hook) \<Rightarrow> agent_event \<Rightarrow> nat list
     \<Rightarrow> 'u agent_live \<Rightarrow> (exn + unit) \<times> 'u agent_live" where
  "dispatch listener ev [] w = (Inr (), w)"
| "dispatch listener ev (l # ls) w =
     (case listener l ev w of
        (Inr _, w') \<Rightarrow> dispatch listener ev ls w'
      | (Inl e, w') \<Rightarrow>
          if exn_class e = CancelledError then (Inl e, w')
          else dispatch listener ev ls (w'\<lparr>ag_listener_errors := ag_listener_errors w' @ [e]\<rparr>))"

definition process_event :: "'u live_setup \<Rightarrow> agent_event \<Rightarrow> ('u agent_live, unit) hook" where
  "process_event su ev w =
     (case ag_signal w of
        None \<Rightarrow> (Inl (Exn RuntimeError ''Agent event received outside an active run''), w)
      | Some _ \<Rightarrow> let w1 = apply_event ev w in dispatch (su_listener su) ev (ag_listeners w1) w1)"

section \<open>Queues\<close>

text \<open>The agent's own queue first, then what the caller's callback hands out; messages already
  drained are lost when the callback raises.\<close>

definition with_external ::
  "('w, agent_message list) hook option \<Rightarrow> agent_message list \<Rightarrow> ('w, agent_message list) hook" where
  "with_external ext local w =
     (case ext of
        None \<Rightarrow> (Inr local, w)
      | Some h \<Rightarrow> (case h w of (Inl e, w') \<Rightarrow> (Inl e, w') | (Inr ms, w') \<Rightarrow> (Inr (local @ ms), w')))"

definition drain_steering :: "'u live_setup \<Rightarrow> ('u agent_live, agent_message list) hook" where
  "drain_steering su w =
     (case queue_drain (ag_steering w) of (ms, q) \<Rightarrow>
        with_external (cf_get_steering_messages (su_config su)) ms (w\<lparr>ag_steering := q\<rparr>))"

definition drain_follow_up :: "'u live_setup \<Rightarrow> ('u agent_live, agent_message list) hook" where
  "drain_follow_up su w =
     (case queue_drain (ag_follow_up w) of (ms, q) \<Rightarrow>
        with_external (cf_get_follow_up_messages (su_config su)) ms (w\<lparr>ag_follow_up := q\<rparr>))"

definition drain_for_continue :: "'u live_setup \<Rightarrow> ('u agent_live, agent_message list) hook" where
  "drain_for_continue su w =
     (case drain_steering su w of
        (Inl e, w') \<Rightarrow> (Inl e, w')
      | (Inr ms, w') \<Rightarrow> if ms \<noteq> [] then (Inr ms, w') else drain_follow_up su w')"

section \<open>Runs\<close>

definition run_environment :: "'u live_setup \<Rightarrow> 'u agent_live environment" where
  "run_environment su = (su_env su)\<lparr>ev_sink := Some (process_event su),
     ev_cancelled := (\<lambda>w. case ag_signal w of None \<Rightarrow> None | Some c \<Rightarrow> c)\<rparr>"

definition run_config :: "'u live_setup \<Rightarrow> 'u agent_live agent_loop_config" where
  "run_config su = (su_config su)\<lparr>cf_model := su_model su, cf_thinking_level := su_thinking_level su,
     cf_get_steering_messages := Some (drain_steering su),
     cf_get_follow_up_messages := Some (drain_follow_up su)\<rparr>"

definition run_context :: "'u live_setup \<Rightarrow> 'u agent_live \<Rightarrow> 'u agent_live agent_context" where
  "run_context su w = \<lparr>cx_system_prompt = su_system_prompt su, cx_messages = ag_messages w,
     cx_tools = su_tools su\<rparr>"

definition enter_run :: "'u agent_live \<Rightarrow> 'u agent_live" where
  "enter_run w = w\<lparr>ag_signal := Some None, ag_is_streaming := True, ag_error_message := JNull,
     ag_listener_errors := []\<rparr>"

definition leave_run :: "'u agent_live \<Rightarrow> 'u agent_live" where
  "leave_run w = w\<lparr>ag_is_streaming := False, ag_signal := None, ag_streaming_message := None,
     ag_pending_tool_calls := {}\<rparr>"

definition await_run ::
  "((exn + unit) \<times> 'u agent_live run_state) option \<Rightarrow> ((exn + agent_message list) \<times> 'u agent_live) option" where
  "await_run r = map_option (\<lambda>(ms, s). (Inr ms, leave_run (rs_world s))) (awaited_result r)"

text \<open>\<open>None\<close> when the call never returns.\<close>

definition start_run ::
  "nat \<Rightarrow> 'u live_setup \<Rightarrow> agent_message list \<Rightarrow> bool \<Rightarrow> 'u agent_live
     \<Rightarrow> ((exn + agent_message list) \<times> 'u agent_live) option" where
  "start_run fuel su prompts is_continue w =
     (if ag_is_streaming w then Some (Inl (Exn RuntimeError ''Agent is already streaming''), w)
      else
        let w1 = enter_run w; ctx = run_context su w1 in
        if is_continue then
          (case agent_loop_continue fuel (run_environment su) (run_config su) ctx w1 of
             Inl e \<Rightarrow> Some (Inl e, w1) | Inr r \<Rightarrow> await_run r)
        else await_run (agent_loop fuel (run_environment su) (run_config su) prompts ctx w1))"

datatype prompt_input = TextPrompt string | MessagePrompt agent_message | MessagesPrompt "agent_message list"

text \<open>\<open>t\<close> is the time at which a message made of text is stamped.\<close>

definition user_input :: "user_content \<Rightarrow> int \<Rightarrow> agent_message" where
  "user_input c t = LlmMsg (UserMessage \<lparr>um_content = c, um_timestamp = t\<rparr>)"

fun normalize_message :: "prompt_input \<Rightarrow> int \<Rightarrow> agent_message list" where
  "normalize_message (TextPrompt s) t = [user_input (UserText s) t]"
| "normalize_message (MessagePrompt m) t = [m]"
| "normalize_message (MessagesPrompt ms) t = ms"

definition prompt_messages :: "prompt_input \<Rightarrow> content list \<Rightarrow> int \<Rightarrow> agent_message list" where
  "prompt_messages p images t =
     (case p of
        TextPrompt s \<Rightarrow>
          if images \<noteq> [] then [user_input (UserBlocks (images @ [TextContent s JNull])) t]
          else normalize_message p t
      | _ \<Rightarrow> normalize_message p t)"

definition prompt ::
  "nat \<Rightarrow> 'u live_setup \<Rightarrow> prompt_input \<Rightarrow> content list \<Rightarrow> int \<Rightarrow> 'u agent_live
     \<Rightarrow> ((exn + agent_message list) \<times> 'u agent_live) option" where
  "prompt fuel su p images t w =
     (let ms = prompt_messages p images t in
      if ms = [] then Some (Inl (Exn ValueError ''prompt requires at least one message''), w)
      else start_run fuel su ms False w)"

definition continue_queued ::
  "nat \<Rightarrow> 'u live_setup \<Rightarrow> string \<Rightarrow> 'u agent_live \<Rightarrow> ((exn + agent_message list) \<times> 'u agent_live) option" where
  "continue_queued fuel su complaint w =
     (case drain_for_continue su w of
        (Inl e, w') \<Rightarrow> Some (Inl e, w')
      | (Inr ms, w') \<Rightarrow>
          if ms = [] then Some (Inl (Exn ValueError complaint), w') else start_run fuel su ms False w')"

definition continue_run ::
  "nat \<Rightarrow> 'u live_setup \<Rightarrow> 'u agent_live \<Rightarrow> ((exn + agent_message list) \<times> 'u agent_live) option" where
  "continue_run fuel su w =
     (if ag_messages w = [] then continue_queued fuel su ''Cannot continue an empty transcript'' w
      else if is_assistant (last (ag_messages w))
      then continue_queued fuel su ''Cannot continue when the last message is an assistant message'' w
      else start_run fuel su [] True w)"

section \<open>The other operations\<close>

definition ensure_idle :: "string \<Rightarrow> 'u agent_live \<Rightarrow> (exn, unit) result" where
  "ensure_idle action w =
     (if ag_is_streaming w
      then Inl (Exn RuntimeError (''Cannot '' @ action @ '' while the agent is running'')) else Inr ())"

definition when_idle :: "string \<Rightarrow> ('u agent \<Rightarrow> 'u agent) \<Rightarrow> 'u agent \<Rightarrow> (exn, 'u agent) result" where
  "when_idle action f a = bindE (ensure_idle action (snd a)) (\<lambda>_. Inr (f a))"

definition set_system_prompt :: "string \<Rightarrow> 'u agent \<Rightarrow> (exn, 'u agent) result" where
  "set_system_prompt v = when_idle ''change the system prompt'' (apfst (\<lambda>su. su\<lparr>su_system_prompt := v\<rparr>))"

definition set_model :: "model \<Rightarrow> 'u agent \<Rightarrow> (exn, 'u agent) result" where
  "set_model v = when_idle ''change the model'' (apfst (\<lambda>su. su\<lparr>su_model := v\<rparr>))"

definition set_thinking_level :: "string \<Rightarrow> 'u agent \<Rightarrow> (exn, 'u agent) result" where
  "set_thinking_level v = when_idle ''change the thinking level'' (apfst (\<lambda>su. su\<lparr>su_thinking_level := v\<rparr>))"

definition set_tools :: "'u agent_live agent_tool list \<Rightarrow> 'u agent \<Rightarrow> (exn, 'u agent) result" where
  "set_tools v = when_idle ''change tools'' (apfst (\<lambda>su. su\<lparr>su_tools := v\<rparr>))"

definition set_messages :: "agent_message list \<Rightarrow> 'u agent \<Rightarrow> (exn, 'u agent) result" where
  "set_messages v = when_idle ''replace messages'' (apsnd (\<lambda>w. w\<lparr>ag_messages := v\<rparr>))"

definition set_stream_options :: "stream_options \<Rightarrow> 'u agent \<Rightarrow> (exn, 'u agent) result" where
  "set_stream_options v = when_idle ''change stream options''
     (apfst (\<lambda>su. su\<lparr>su_config := (su_config su)\<lparr>cf_stream_options := v\<rparr>\<rparr>))"

text \<open>The properties \<^verbatim>\<open>steering_mode\<close> and \<^verbatim>\<open>follow_up_mode\<close> assign the mode
  without validating it; the methods \<^verbatim>\<open>set_steering_mode\<close> and
  \<^verbatim>\<open>set_follow_up_mode\<close> validate.\<close>

definition assign_steering_mode :: "string \<Rightarrow> 'u agent_live \<Rightarrow> 'u agent_live" where
  "assign_steering_mode v w = w\<lparr>ag_steering := (ag_steering w)\<lparr>mq_mode := v\<rparr>\<rparr>"

definition set_steering_mode :: "string \<Rightarrow> 'u agent_live \<Rightarrow> (exn, 'u agent_live) result" where
  "set_steering_mode v w = bindE (set_mode v (ag_steering w)) (\<lambda>q. Inr (w\<lparr>ag_steering := q\<rparr>))"

definition set_follow_up_mode :: "string \<Rightarrow> 'u agent_live \<Rightarrow> (exn, 'u agent_live) result" where
  "set_follow_up_mode v w = bindE (set_mode v (ag_follow_up w)) (\<lambda>q. Inr (w\<lparr>ag_follow_up := q\<rparr>))"

definition subscribe :: "nat \<Rightarrow> 'u agent_live \<Rightarrow> 'u agent_live" where
  "subscribe l w = w\<lparr>ag_listeners := ag_listeners w @ [l]\<rparr>"

definition unsubscribe :: "nat \<Rightarrow> 'u agent_live \<Rightarrow> 'u agent_live" where
  "unsubscribe l w = w\<lparr>ag_listeners := remove1 l (ag_listeners w)\<rparr>"

definition steer :: "agent_message \<Rightarrow> 'u agent_live \<Rightarrow> 'u agent_live" where
  "steer m w = w\<lparr>ag_steering := queue_push m (ag_steering w)\<rparr>"

definition follow_up :: "agent_message \<Rightarrow> 'u agent_live \<Rightarrow> 'u agent_live" where
  "follow_up m w = w\<lparr>ag_follow_up := queue_push m (ag_follow_up w)\<rparr>"

definition clear_all_queues :: "'u agent_live \<Rightarrow> 'u agent_live" where
  "clear_all_queues w = w\<lparr>ag_steering := queue_clear (ag_steering w), ag_follow_up := queue_clear (ag_follow_up w)\<rparr>"

definition has_queued_messages :: "'u agent_live \<Rightarrow> bool" where
  "has_queued_messages w \<longleftrightarrow> queue_size (ag_steering w) \<noteq> 0 \<or> queue_size (ag_follow_up w) \<noteq> 0"

text \<open>A cancelled token keeps its first reason.\<close>

definition abort :: "string \<Rightarrow> 'u agent_live \<Rightarrow> 'u agent_live" where
  "abort reason w = (case ag_signal w of
       Some None \<Rightarrow> w\<lparr>ag_signal := Some (Some reason)\<rparr> | _ \<Rightarrow> w)"

definition reset_agent :: "'u agent_live \<Rightarrow> (exn, 'u agent_live) result" where
  "reset_agent w = bindE (ensure_idle ''reset the agent'' w) (\<lambda>_. Inr
     ((clear_all_queues w)\<lparr>ag_messages := [], ag_streaming_message := None,
        ag_pending_tool_calls := {}, ag_error_message := JNull, ag_listener_errors := []\<rparr>))"

end
