(* ===== verification/AgentLoopCorrect.thy ===== *)
theory AgentLoopCorrect
  imports AgentLoop
begin

text \<open>
  What a run guarantees: its events follow the life cycle, its messages are the same in the events,
  in the context and in the result, and it ends when the provider does.
\<close>

section \<open>Streaming one response\<close>

text \<open>A provider that sends nothing after a terminal event, as its event stream ensures.\<close>

fun well_formed_events :: "assistant_event list \<Rightarrow> bool" where
  "well_formed_events [] = True"
| "well_formed_events (ev # evs) = ((is_terminal_event ev \<longrightarrow> evs = []) \<and> well_formed_events evs)"

definition well_formed_provider :: "'w environment \<Rightarrow> bool" where
  "well_formed_provider env \<longleftrightarrow> (\<forall>m c so w. case fst (ev_stream_fn env m c so w) of
     Inl e \<Rightarrow> True | Inr r \<Rightarrow> well_formed_events (prs_events r))"

text \<open>The assistant message is being streamed: it is announced, and it is the last message.\<close>

definition streaming :: "assistant_message \<Rightarrow> nat \<Rightarrow> 'w run_state \<Rightarrow> 'w run_state \<Rightarrow> bool" where
  "streaming m i s s' \<longleftrightarrow> (\<exists>evs. adds evs [asst m] s s' \<and> accepts InTurn evs = Some InMessage \<and>
     started_calls evs = [] \<and> ended_calls evs = [] \<and> ended_messages evs = [] \<and>
     i = length (cx_messages (rs_context s)))"

lemma streaming_grows: "streaming m i s s' \<Longrightarrow> grows inner s s'"
  unfolding streaming_def by (blast intro: adds_grows)

lemma insert_message_spec: "spec (insert_message env m) (streaming m)"
  unfolding insert_message_def spec_def
  by (auto simp: wp_simps streaming_def adds_def grows_def keeps_open_def after_emit_def
      intro!: wp_emit exI [where x = "[MessageStartEvent (asst m)]"])

text \<open>Replacing the streamed message, seen from the state before it was inserted.\<close>

lemma replace_message_wp:
  assumes "streaming m i s0 s"
  shows "wp (replace_message i m') (\<lambda>_ s'. streaming m' i s0 s' \<and> rs_trace s' = rs_trace s) E s"
  using assms unfolding replace_message_def streaming_def
  by (auto simp: wp_simps adds_def list_update_append keeps_open_def)

lemma spec_case_opt:
  "(\<And>x. spec (f x) P) \<Longrightarrow> spec g P \<Longrightarrow> spec (case o' of None \<Rightarrow> g | Some x \<Rightarrow> f x) P"
  by (cases o') auto

text \<open>Where the message stands, relative to the state \<open>s0\<close> before it.\<close>

definition stream_position :: "nat option \<Rightarrow> 'w run_state \<Rightarrow> 'w run_state \<Rightarrow> bool" where
  "stream_position idx s0 s \<longleftrightarrow> (case idx of
     None \<Rightarrow> steps [] [] [] s0 s | Some i \<Rightarrow> (\<exists>m. streaming m i s0 s))"

lemma steps_nil_streaming:
  assumes "steps [] [] [] s0 s" and "streaming m i s s'"
  shows "streaming m i s0 s'"
proof -
  obtain e0 where 0: "adds e0 [] s0 s" "accepts InTurn e0 = Some InTurn" "started_calls e0 = []"
      "ended_calls e0 = []" "ended_messages e0 = []" using assms(1) unfolding steps_def by blast
  obtain e1 where 1: "adds e1 [asst m] s s'" "accepts InTurn e1 = Some InMessage" "started_calls e1 = []"
      "ended_calls e1 = []" "ended_messages e1 = []" "i = length (cx_messages (rs_context s))"
    using assms(2) unfolding streaming_def by blast
  have "length (cx_messages (rs_context s)) = length (cx_messages (rs_context s0))"
    using 0(1) by (simp add: adds_def)
  with 0 1 adds_trans [OF 0(1) 1(1)] show ?thesis
    unfolding streaming_def by (intro exI [where x = "e0 @ e1"]) (simp add: accepts_append)
qed

lemma stream_position_grows: "stream_position idx s0 s \<Longrightarrow> grows inner s0 s"
  unfolding stream_position_def by (auto split: option.splits intro: steps_grows streaming_grows)

lemma insert_wp:
  assumes "steps [] [] [] s0 s"
  shows "wp (insert_message env m) (\<lambda>i s'. streaming m i s0 s') (\<lambda>_ s'. grows inner s0 s') s"
proof -
  have "wp (insert_message env m) (\<lambda>i s'. streaming m i s s') (\<lambda>_ s'. grows inner s s') s"
    using insert_message_spec [of env m] by (simp add: spec_def)
  then show ?thesis
    by (elim wp_mono) (auto intro: steps_nil_streaming [OF assms] grows_trans steps_grows [OF assms])
qed

lemma streaming_end:
  assumes "streaming m i s0 s" and "rs_trace s' = rs_trace s @ [MessageEndEvent (asst m)]"
    and "rs_context s' = rs_context s" and "rs_new s' = rs_new s" and "keeps_open s s'"
  shows "steps [] [] [asst m] s0 s'"
proof -
  obtain evs where "adds evs [asst m] s0 s" "accepts InTurn evs = Some InMessage"
     "started_calls evs = []" "ended_calls evs = []" "ended_messages evs = []"
    using assms(1) unfolding streaming_def by blast
  with assms(2-5) show ?thesis unfolding steps_def
    by (intro exI [where x = "evs @ [MessageEndEvent (asst m)]"])
       (auto simp: adds_def accepts_append intro: keeps_open_trans)
qed

lemma streaming_update:
  assumes "streaming m i s0 s" and "rs_trace s' = rs_trace s @ [MessageUpdateEvent m ev]"
    and "rs_context s' = rs_context s" and "rs_new s' = rs_new s" and "keeps_open s s'"
  shows "streaming m i s0 s'"
proof -
  obtain evs where "adds evs [asst m] s0 s" "accepts InTurn evs = Some InMessage"
     "started_calls evs = []" "ended_calls evs = []" "ended_messages evs = []"
     "i = length (cx_messages (rs_context s0))"
    using assms(1) unfolding streaming_def by blast
  with assms(2-5) show ?thesis unfolding streaming_def
    by (intro exI [where x = "evs @ [MessageUpdateEvent m ev]"])
       (auto simp: adds_def accepts_append intro: keeps_open_trans)
qed

lemma finish_message_wp:
  assumes "stream_position idx s0 s"
  shows "wp (finish_message env idx m) (\<lambda>_ s'. steps [] [] [asst m] s0 s') (\<lambda>_ s'. grows inner s0 s') s"
proof -
  have ins: "wp (case idx of None \<Rightarrow> insert_message env (pending_of m) | Some i \<Rightarrow> ret i)
      (\<lambda>i s'. \<exists>m'. streaming m' i s0 s') (\<lambda>_ s'. grows inner s0 s') s"
  proof (cases idx)
    case None
    with assms have "steps [] [] [] s0 s" by (simp add: stream_position_def)
    from insert_wp [OF this, of env "pending_of m"] None show ?thesis by (auto elim: wp_mono)
  next
    case (Some i)
    with assms show ?thesis by (simp add: wp_simps stream_position_def)
  qed
  show ?thesis unfolding finish_message_def wp_bnd
  proof (rule wp_mono [OF ins])
    fix i s1 assume "\<exists>m'. streaming m' i s0 s1"
    then obtain m' where "streaming m' i s0 s1" by blast
    then have rep: "wp (replace_message i m) (\<lambda>_ s'. streaming m i s0 s') (\<lambda>_ s'. grows inner s0 s') s1"
      by (intro wp_mono [OF replace_message_wp [where m' = m and E = "\<lambda>_ _. False"]]) (auto simp: streaming_def)
    show "wp (thn (replace_message i m) (thn (emit env (MessageEndEvent (asst m))) (ret i)))
        (\<lambda>_ s'. steps [] [] [asst m] s0 s') (\<lambda>_ s'. grows inner s0 s') s1"
      unfolding wp_thn
    proof (rule wp_mono [OF rep])
      fix s2 assume st: "streaming m i s0 s2"
      then have g: "grows inner s0 s2" by (rule streaming_grows)
      show "wp (emit env (MessageEndEvent (asst m))) (\<lambda>_. wp (ret i) (\<lambda>_ s'. steps [] [] [asst m] s0 s')
          (\<lambda>_ s'. grows inner s0 s')) (\<lambda>_ s'. grows inner s0 s') s2"
        using g by (intro wp_emit) (auto simp: wp_simps grows_def keeps_open_def after_emit_def intro!: streaming_end [OF st])
    qed
  qed
qed

lemma update_message_wp:
  assumes "stream_position idx s0 s"
  shows "wp (update_message env idx m ev) (\<lambda>i s'. streaming m i s0 s') (\<lambda>_ s'. grows inner s0 s') s"
proof -
  have ins: "wp (case idx of None \<Rightarrow> insert_message env m | Some i \<Rightarrow> thn (replace_message i m) (ret i))
      (\<lambda>i s'. streaming m i s0 s') (\<lambda>_ s'. grows inner s0 s') s"
  proof (cases idx)
    case None
    with assms insert_wp [of s0 s env m] show ?thesis by (simp add: stream_position_def)
  next
    case (Some i)
    with assms obtain m' where "streaming m' i s0 s" by (auto simp: stream_position_def)
    from replace_message_wp [OF this, of m "\<lambda>_ _. False"] Some show ?thesis
      by (auto simp: wp_simps elim: wp_mono)
  qed
  show ?thesis unfolding update_message_def wp_bnd
  proof (rule wp_mono [OF ins])
    fix i s1 assume st: "streaming m i s0 s1"
    then have g: "grows inner s0 s1" by (rule streaming_grows)
    show "wp (thn (emit env (MessageUpdateEvent m ev)) (ret i)) (\<lambda>i s'. streaming m i s0 s')
        (\<lambda>_ s'. grows inner s0 s') s1"
      unfolding wp_thn using g
      by (intro wp_emit) (auto simp: wp_simps grows_def keeps_open_def after_emit_def intro!: streaming_update [OF st])
  qed
qed

text \<open>After the provider's events: the message is complete, or still where it was.\<close>

definition stream_outcome :: "nat option \<times> assistant_message option \<Rightarrow> 'w run_state \<Rightarrow> 'w run_state \<Rightarrow> bool" where
  "stream_outcome r s0 s \<longleftrightarrow> (case snd r of
     Some m \<Rightarrow> steps [] [] [asst m] s0 s | None \<Rightarrow> stream_position (fst r) s0 s)"

lemma provider_loop_wp:
  assumes "well_formed_events evs" and "stream_position idx s0 s"
  shows "wp (provider_loop env idx None evs) (\<lambda>r s'. stream_outcome r s0 s') (\<lambda>_ s'. grows inner s0 s') s"
  using assms
proof (induction evs arbitrary: idx s)
  case Nil
  then show ?case by (simp add: wp_simps stream_outcome_def)
next
  case (Cons ev evs)
  have next_: "wp (provider_loop env (Some i) None evs) (\<lambda>r s'. stream_outcome r s0 s') (\<lambda>_ s'. grows inner s0 s') t"
    if "streaming m i s0 t" for i t m
    by (rule Cons.IH) (use Cons.prems(1) that in \<open>auto simp: stream_position_def\<close>)
  show ?case
  proof (cases "is_terminal_event ev")
    case True
    with Cons.prems(1) have "evs = []" by simp
    then obtain m where "provider_loop env idx None (ev # evs) =
        bnd (finish_message env idx m) (\<lambda>i. ret (Some i, Some m))"
      using True by (cases ev) auto
    then show ?thesis using finish_message_wp [OF Cons.prems(2), of env m]
      by (simp add: wp_simps stream_outcome_def)
  next
    case False
    show ?thesis
    proof (cases "\<exists>p. ev = StartEvent p")
      case True
      then obtain p where ev: "ev = StartEvent p" by blast
      show ?thesis
      proof (cases idx)
        case None
        then have "steps [] [] [] s0 s" using Cons.prems(2) by (simp add: stream_position_def)
        from insert_wp [OF this, of env p] None ev show ?thesis
          by (auto simp: wp_simps elim!: wp_mono intro: next_)
      next
        case (Some i)
        then show ?thesis using ev stream_position_grows [OF Cons.prems(2)] by (simp add: wp_simps)
      qed
    next
      case noStart: False
      then obtain p where p: "event_partial ev = Some p" and
        step: "provider_loop env idx None (ev # evs) =
          bnd (update_message env idx p ev) (\<lambda>i. provider_loop env (Some i) None evs)"
        using False by (cases ev) auto
      show ?thesis unfolding step wp_bnd
        by (rule wp_mono [OF update_message_wp [OF Cons.prems(2)]]) (auto intro: next_)
    qed
  qed
qed

lemma provider_request_worldly: "worldly (provider_request env cfg model level)"
  unfolding provider_request_def
  by (intro worldly_bnd worldly_cases worldly_basic)

lemma provider_request_yields:
  assumes "well_formed_provider env"
  shows "yields (provider_request env cfg model level) (\<lambda>r. well_formed_events (prs_events r))"
proof -
  have "yields (hook (ev_stream_fn env m c so)) (\<lambda>r. well_formed_events (prs_events r))" for m c so
    unfolding yields_def wp_hook
  proof
    fix s
    show "case ev_stream_fn env m c so (rs_world s) of (Inl e, w) \<Rightarrow> True
      | (Inr r, w) \<Rightarrow> well_formed_events (prs_events r)"
      using assms unfolding well_formed_provider_def
      by (metis (mono_tags, lifting) case_prod_beta sum.case_eq_if)
  qed
  then show ?thesis unfolding provider_request_def
    by (intro yields_bnd) (simp add: yields_bnd)
qed

lemma stream_assistant_response_spec:
  assumes "well_formed_provider env"
  shows "spec (stream_assistant_response env cfg model level) (\<lambda>m s s'. steps [] [] [asst m] s s')"
  unfolding spec_def
proof
  fix s
  have req: "wp (provider_request env cfg model level)
      (\<lambda>r s'. well_formed_events (prs_events r) \<and> steps [] [] [] s s') (\<lambda>_ s'. grows inner s s') s"
    using spec_worldly [OF provider_request_worldly provider_request_yields [OF assms]]
    by (simp add: spec_def)
  show "wp (stream_assistant_response env cfg model level) (\<lambda>m s'. steps [] [] [asst m] s s')
      (\<lambda>_ s'. grows inner s s') s"
    unfolding stream_assistant_response_def wp_bnd
  proof (rule wp_mono [OF req])
    fix r :: provider_response and s1
    assume r: "well_formed_events (prs_events r) \<and> steps [] [] [] s s1"
    then have "stream_position None s s1" by (simp add: stream_position_def)
    from provider_loop_wp [OF _ this] r
    have loop: "wp (provider_loop env None None (prs_events r)) (\<lambda>r s'. stream_outcome r s s')
        (\<lambda>_ s'. grows inner s s') s1" by blast
    show "wp (provider_loop env None None (prs_events r)) (\<lambda>st. wp (provider_result r) (\<lambda>resolved.
        wp (case snd st of None \<Rightarrow> bnd (finish_message env (fst st) resolved) (\<lambda>_. ret resolved)
            | Some m \<Rightarrow> ret m) (\<lambda>m s'. steps [] [] [asst m] s s') (\<lambda>_ s'. grows inner s s'))
        (\<lambda>_ s'. grows inner s s')) (\<lambda>_ s'. grows inner s s') s1"
    proof (rule wp_mono [OF loop])
      fix st s2 assume st: "stream_outcome st s s2"
      have g: "grows inner s s2"
        using st by (auto simp: stream_outcome_def split: option.splits intro: steps_grows stream_position_grows)
      have fin: "wp (case snd st of None \<Rightarrow> bnd (finish_message env (fst st) m) (\<lambda>_. ret m)
            | Some m \<Rightarrow> ret m) (\<lambda>m s'. steps [] [] [asst m] s s') (\<lambda>_ s'. grows inner s s') s2" for m
        using st finish_message_wp [of "fst st" s s2 env m]
        by (cases "snd st") (auto simp: wp_simps stream_outcome_def)
      show "wp (provider_result r) (\<lambda>resolved.
        wp (case snd st of None \<Rightarrow> bnd (finish_message env (fst st) resolved) (\<lambda>_. ret resolved)
            | Some m \<Rightarrow> ret m) (\<lambda>m s'. steps [] [] [asst m] s s') (\<lambda>_ s'. grows inner s s'))
        (\<lambda>_ s'. grows inner s s') s2"
        using fin g by (auto simp: provider_result_def wp_simps split: option.split)
    qed simp
  qed simp
qed

section \<open>Turns\<close>

text \<open>Events of a run other than its first and its last.\<close>

fun middle :: "agent_event \<Rightarrow> bool" where
  "middle AgentStartEvent = False" | "middle (AgentEndEvent _) = False" | "middle _ = True"

lemma inner_middle: "inner ev \<Longrightarrow> middle ev"
  by (cases ev) simp_all

lemma inner_grows_middle: "grows inner s t \<Longrightarrow> grows middle s t"
  by (erule grows_mono) (rule inner_middle)

text \<open>From \<open>s\<close> to \<open>s'\<close> the run went from phase \<open>p\<close> to phase \<open>q\<close> of its life cycle and recorded the
  messages \<open>ms\<close>, in the events and among the new messages; the context, when it was not
  replaced, has them too.\<close>

definition passes ::
  "bool \<Rightarrow> phase \<Rightarrow> phase \<Rightarrow> agent_message list \<Rightarrow> 'w run_state \<Rightarrow> 'w run_state \<Rightarrow> bool" where
  "passes keeps p q ms s s' \<longleftrightarrow> (\<exists>evs. rs_trace s' = rs_trace s @ evs \<and> (\<forall>ev \<in> set evs. middle ev) \<and>
     accepts p evs = Some q \<and> ended_messages evs = ms \<and> rs_new s' = rs_new s @ ms \<and>
     (keeps \<longrightarrow> cx_messages (rs_context s') = cx_messages (rs_context s) @ ms) \<and> keeps_open s s')"

lemma passes_refl [simp]: "passes k p p [] s s"
  unfolding passes_def by (intro exI [where x = "[]"]) simp

lemma passes_trans:
  assumes "passes k p q xs s t" and "passes k q r ys t u"
  shows "passes k p r (xs @ ys) s u"
proof -
  obtain e1 where 1: "rs_trace t = rs_trace s @ e1" "\<forall>ev \<in> set e1. middle ev" "accepts p e1 = Some q"
      "ended_messages e1 = xs" "rs_new t = rs_new s @ xs"
      "k \<longrightarrow> cx_messages (rs_context t) = cx_messages (rs_context s) @ xs" "keeps_open s t"
    using assms(1) unfolding passes_def by blast
  obtain e2 where 2: "rs_trace u = rs_trace t @ e2" "\<forall>ev \<in> set e2. middle ev" "accepts q e2 = Some r"
      "ended_messages e2 = ys" "rs_new u = rs_new t @ ys"
      "k \<longrightarrow> cx_messages (rs_context u) = cx_messages (rs_context t) @ ys" "keeps_open t u"
    using assms(2) unfolding passes_def by blast
  from 1 2 show ?thesis unfolding passes_def
    by (intro exI [where x = "e1 @ e2"]) (auto simp: accepts_append intro: keeps_open_trans)
qed

lemma passes_again: "passes k p q xs s t \<Longrightarrow> passes k q r ys t u \<Longrightarrow> \<exists>ms. passes k p r ms s u"
  by (blast dest: passes_trans)

lemma passes_grows: "passes k p q ms s t \<Longrightarrow> grows middle s t"
  unfolding passes_def grows_def by blast

lemma steps_passes: "steps a b ms s t \<Longrightarrow> passes k InTurn InTurn ms s t"
  unfolding steps_def passes_def adds_def by (fastforce intro: inner_middle)

lemma still_passes: "still s t \<Longrightarrow> passes k p p [] s t"
  unfolding still_def passes_def by (intro exI [where x = "[]"]) simp

text \<open>\<open>goes f P\<close>: a return satisfies \<open>P\<close>; when \<open>f\<close> raises, only middle events were emitted.\<close>

definition goes :: "('w run_state, 'a) prog \<Rightarrow> ('a \<Rightarrow> 'w run_state \<Rightarrow> 'w run_state \<Rightarrow> bool) \<Rightarrow> bool" where
  "goes f P \<longleftrightarrow> (\<forall>s. wp f (\<lambda>x s'. P x s s') (\<lambda>e s'. grows middle s s') s)"

lemma goes_bnd:
  assumes "goes f P" and "\<And>x s s'. P x s s' \<Longrightarrow> goes (g x) (P' x)"
    and "\<And>x s s'. P x s s' \<Longrightarrow> grows middle s s'"
    and "\<And>x y s s' s''. P x s s' \<Longrightarrow> P' x y s' s'' \<Longrightarrow> R y s s''"
  shows "goes (bnd f g) R"
  unfolding goes_def wp_bnd
proof
  fix s
  have "wp f (\<lambda>x s'. P x s s') (\<lambda>e s'. grows middle s s') s" using assms(1) by (simp add: goes_def)
  then show "wp f (\<lambda>x. wp (g x) (\<lambda>x s'. R x s s') (\<lambda>e s'. grows middle s s'))
      (\<lambda>e s'. grows middle s s') s"
  proof (rule wp_mono)
    fix x s' assume P: "P x s s'"
    have "wp (g x) (\<lambda>y s''. P' x y s' s'') (\<lambda>e s''. grows middle s' s'') s'"
      using assms(2) P by (simp add: goes_def)
    then show "wp (g x) (\<lambda>y s''. R y s s'') (\<lambda>e s''. grows middle s s'') s'"
      using P assms(3,4) by (blast intro: wp_mono grows_trans)
  qed
qed

lemma goes_thn:
  assumes "goes f P" and "goes g P'" and "\<And>x s s'. P x s s' \<Longrightarrow> grows middle s s'"
    and "\<And>x y s s' s''. P x s s' \<Longrightarrow> P' y s' s'' \<Longrightarrow> R y s s''"
  shows "goes (thn f g) R"
  unfolding thn_def using assms by (intro goes_bnd [where P' = "\<lambda>_. P'"])

lemma goes_mono: "goes f P \<Longrightarrow> (\<And>x s s'. P x s s' \<Longrightarrow> R x s s') \<Longrightarrow> goes f R"
  unfolding goes_def by (blast intro: wp_mono)

lemma spec_goes: "spec f P \<Longrightarrow> goes f P"
  unfolding spec_def goes_def by (blast intro: wp_mono inner_grows_middle)

lemma worldly_goes: "worldly f \<Longrightarrow> goes f (\<lambda>_. passes k p p [])"
  unfolding worldly_def goes_def
  by (blast intro: wp_mono still_passes inner_grows_middle adds_grows still_adds [THEN iffD1])

lemma goes_emit:
  fixes env :: "'w environment"
  assumes "middle ev" and "next_phase p ev = Some q" and "ended_message ev = []"
  shows "goes (emit env ev) (\<lambda>_. passes k p q [])"
  unfolding goes_def
proof (intro allI wp_emit)
  fix s :: "'w run_state" and w st assume "after_emit ev (rs_stream s) st"
  moreover have "\<not> is_agent_end ev" using assms(1) by (cases ev) simp_all
  ultimately have "keeps_open s (s\<lparr>rs_trace := rs_trace s @ [ev], rs_world := w, rs_stream := st\<rparr>)"
    by (simp add: keeps_open_emit)
  then show "passes k p q [] s (s\<lparr>rs_trace := rs_trace s @ [ev], rs_world := w, rs_stream := st\<rparr>)"
    unfolding passes_def using assms by (intro exI [where x = "[ev]"]) auto
next
  fix s :: "'w run_state" and e w
  show "grows middle s (s\<lparr>rs_trace := rs_trace s @ [ev], rs_world := w\<rparr>)"
    using assms(1) by (simp add: grows_def)
qed

lemma goes_ret: "P x \<Longrightarrow> goes (ret x) (\<lambda>x s s'. P x \<and> passes k p p [] s s')"
  by (simp add: goes_def wp_simps)

lemma add_message_spec: "spec (add_message env m) (\<lambda>_. steps [] [] [m])"
proof -
  have tail: "spec (thn (put_context m) (put_new m)) (\<lambda>_. adds [] [m])"
    by (simp add: spec_def wp_simps adds_def)
  have "spec (thn (emit env (MessageEndEvent m)) (thn (put_context m) (put_new m)))
      (\<lambda>_. adds [MessageEndEvent m] [m])"
    by (rule spec_thn [OF spec_emit tail]) (auto intro: adds_grows dest: adds_trans)
  note last = this
  have "spec (add_message env m) (\<lambda>_. adds [MessageStartEvent m, MessageEndEvent m] [m])"
    unfolding add_message_def
    by (rule spec_thn [OF spec_emit last]) (auto intro: adds_grows dest: adds_trans)
  then show ?thesis by (rule spec_mono) (auto simp: steps_def)
qed

lemma add_messages_spec: "spec (each (add_message env) ms) (\<lambda>_. steps [] [] ms)"
proof (induction ms)
  case Nil
  show ?case by (simp add: spec_def wp_simps)
next
  case (Cons m ms)
  show ?case unfolding each.simps
    by (rule spec_thn [OF add_message_spec Cons.IH]) (auto intro: steps_grows dest: steps_trans)
qed

text \<open>A configuration whose \<^verbatim>\<open>prepare_next_turn\<close> never replaces the context.\<close>

definition keeps_context :: "'w agent_loop_config \<Rightarrow> bool" where
  "keeps_context cfg \<longleftrightarrow> (case cf_prepare_next_turn cfg of None \<Rightarrow> True
     | Some f \<Rightarrow> (\<forall>c w. case fst (f c w) of Inr (Some u) \<Rightarrow> tu_context u = None | _ \<Rightarrow> True))"

definition entry_phase :: "'w loop_control \<Rightarrow> phase" where
  "entry_phase c = (case lc_last c of None \<Rightarrow> InTurn | Some _ \<Rightarrow> BetweenTurns)"

lemma begin_turn_goes:
  "goes (begin_turn env cfg c) (\<lambda>c' s s'. passes (keeps_context cfg) (entry_phase c) InTurn [] s s')"
proof (cases "lc_last c")
  case None
  then show ?thesis by (simp add: begin_turn_def goes_def wp_simps entry_phase_def)
next
  case (Some completed)
  have prep: "goes (case cf_prepare_next_turn cfg of
                 None \<Rightarrow> ret c
               | Some f \<Rightarrow> bnd (hook (f completed)) (\<lambda>u.
                   case u of None \<Rightarrow> ret c | Some upd \<Rightarrow> apply_turn_update upd c))
      (\<lambda>_. passes (keeps_context cfg) BetweenTurns BetweenTurns [])"
  proof (cases "cf_prepare_next_turn cfg")
    case None
    then show ?thesis by (simp add: goes_def wp_simps)
  next
    case (Some f)
    have upd: "keeps_context cfg \<Longrightarrow> f completed w = (Inr (Some u), w') \<Longrightarrow> tu_context u = None" for w u w'
      using Some unfolding keeps_context_def by (metis (mono_tags, lifting) fst_conv option.simps(5) sum.simps(6))
    show ?thesis unfolding Some option.case goes_def
    proof
      fix s
      show "wp (bnd (hook (f completed)) (\<lambda>u. case u of None \<Rightarrow> ret c | Some upd \<Rightarrow> apply_turn_update upd c))
          (\<lambda>x s'. passes (keeps_context cfg) BetweenTurns BetweenTurns [] s s')
          (\<lambda>e s'. grows middle s s') s"
        using upd [of "rs_world s"]
        by (auto simp: wp_simps apply_turn_update_def passes_def grows_def split: sum.split option.split prod.split)
    qed
  qed
  have steer: "goes (if lc_pending c1 = [] then maybe_hook (cf_get_steering_messages cfg) []
               else ret (lc_pending c1)) (\<lambda>_. passes (keeps_context cfg) BetweenTurns BetweenTurns [])" for c1
    by (intro worldly_goes worldly_cases worldly_basic)
  have start: "goes (thn (emit env TurnStartEvent) (ret (c1\<lparr>lc_pending := ms\<rparr>)))
      (\<lambda>_. passes (keeps_context cfg) BetweenTurns InTurn [])" for c1 :: "'a loop_control" and ms
    by (rule goes_thn [OF goes_emit goes_ret [where P = "\<lambda>_. True"]]) (auto intro: passes_grows dest: passes_trans)
  have "goes (bnd (if lc_pending c1 = [] then maybe_hook (cf_get_steering_messages cfg) []
               else ret (lc_pending c1)) (\<lambda>ms. thn (emit env TurnStartEvent) (ret (c1\<lparr>lc_pending := ms\<rparr>))))
      (\<lambda>_. passes (keeps_context cfg) BetweenTurns InTurn [])" for c1 :: "'a loop_control"
    by (rule goes_bnd [OF steer start]) (auto intro: passes_grows dest: passes_trans)
  then show ?thesis unfolding begin_turn_def Some option.case entry_phase_def
    by (rule goes_bnd [OF prep]) (auto intro: passes_grows dest: passes_trans)
qed

text \<open>The run is over: \<open>agent_end\<close> was emitted with all the new messages.\<close>

definition finished :: "bool \<Rightarrow> phase \<Rightarrow> 'w run_state \<Rightarrow> 'w run_state \<Rightarrow> bool" where
  "finished k p s s' \<longleftrightarrow> (\<exists>ms t. passes k p BetweenTurns ms s t \<and>
     rs_trace s' = rs_trace t @ [AgentEndEvent (rs_new t)] \<and> rs_new s' = rs_new t \<and>
     rs_context s' = rs_context t \<and> after_emit (AgentEndEvent (rs_new t)) (rs_stream t) (rs_stream s'))"

lemma passes_finished: "passes k p q xs s t \<Longrightarrow> finished k q t u \<Longrightarrow> finished k p s u"
  unfolding finished_def by (blast intro: passes_trans)

lemma emit_agent_end_goes:
  assumes "quiet_sink env"
  shows "goes (emit_agent_end env) (\<lambda>_. finished k BetweenTurns)"
  unfolding goes_def emit_agent_end_def wp_bnd wp_basic
proof
  fix s
  show "wp (emit env (AgentEndEvent (rs_new s))) (\<lambda>x s'. finished k BetweenTurns s s')
      (\<lambda>e s'. grows middle s s') s"
    using assms by (rule wp_emit_quiet)
      (auto simp: finished_def intro!: exI [where x = "[]"] exI [where x = s])
qed

text \<open>A turn returns the control of the next one, between turns, or the run is over.\<close>

definition turn_post ::
  "bool \<Rightarrow> phase \<Rightarrow> 'w loop_control option \<Rightarrow> 'w run_state \<Rightarrow> 'w run_state \<Rightarrow> bool" where
  "turn_post k p r s s' \<longleftrightarrow> (case r of
     None \<Rightarrow> finished k p s s'
   | Some c \<Rightarrow> lc_last c \<noteq> None \<and> (\<exists>ms. passes k p BetweenTurns ms s s'))"

lemma passes_turn_post: "passes k p q ms s t \<Longrightarrow> turn_post k q r t u \<Longrightarrow> turn_post k p r s u"
  unfolding turn_post_def
  by (cases r) (auto intro: passes_finished passes_trans)

lemma end_turn_goes:
  assumes "quiet_sink env"
  shows "goes (end_turn env cfg assistant calls r c) (turn_post k InTurn)"
proof -
  let ?k = k
  have over: "goes (thn (emit_agent_end env) (ret None)) (turn_post k BetweenTurns)"
    using emit_agent_end_goes [OF assms, of k] unfolding goes_def wp_eta wp_thn
    by (elim all_forward wp_mono) (simp_all add: turn_post_def)
  have on: "goes (bnd (maybe_hook (cf_get_steering_messages cfg) []) (\<lambda>ms.
          ret (Some (c\<lparr>lc_last := Some completed, lc_pending := ms, lc_more := b\<rparr>))))
      (turn_post k BetweenTurns)" for completed b
    by (rule goes_bnd [OF worldly_goes [where k = k and p = BetweenTurns]
          goes_ret [where P = "\<lambda>r. \<exists>c'. r = Some c' \<and> lc_last c' \<noteq> None" and k = k and p = BetweenTurns]])
       (auto simp: turn_post_def intro: passes_grows passes_again)
  have decide: "goes (bnd (case cf_should_stop_after_turn cfg of None \<Rightarrow> ret False | Some f \<Rightarrow> hook (f completed))
       (\<lambda>stop. if stop then thn (emit_agent_end env) (ret None)
     else bnd (maybe_hook (cf_get_steering_messages cfg) []) (\<lambda>ms.
          ret (Some (c\<lparr>lc_last := Some completed, lc_pending := ms, lc_more := b\<rparr>)))))
      (turn_post k BetweenTurns)" for completed b
  proof (rule goes_bnd)
    show "goes (case cf_should_stop_after_turn cfg of None \<Rightarrow> ret False | Some f \<Rightarrow> hook (f completed))
        (\<lambda>_. passes k BetweenTurns BetweenTurns [])"
      by (intro worldly_goes worldly_cases worldly_basic)
    show "goes (if stop then thn (emit_agent_end env) (ret None)
     else bnd (maybe_hook (cf_get_steering_messages cfg) []) (\<lambda>ms.
          ret (Some (c\<lparr>lc_last := Some completed, lc_pending := ms, lc_more := b\<rparr>))))
        (turn_post k BetweenTurns)" for stop
      using over on by simp
  qed (auto intro: passes_grows passes_turn_post)
  have read: "goes (bnd (readS h) g) (turn_post k BetweenTurns)"
    if "\<And>x. goes (g x) (turn_post k BetweenTurns)" for h :: "'a run_state \<Rightarrow> 'a completed_turn_context" and g
    using that by (simp add: goes_def wp_simps)
  show ?thesis unfolding end_turn_def
    by (rule goes_thn [OF goes_emit read [OF decide]]) (auto intro: passes_grows passes_turn_post)
qed

lemma turn_goes:
  assumes "quiet_sink env" and "well_formed_provider env"
  shows "goes (turn env cfg c) (turn_post (keeps_context cfg) (entry_phase c))"
proof -
  let ?k = "keeps_context cfg"
  have over: "goes (thn (emit_agent_end env) (ret None)) (turn_post ?k BetweenTurns)"
    using emit_agent_end_goes [OF assms(1), of ?k] unfolding goes_def wp_eta wp_thn
    by (elim all_forward wp_mono) (simp_all add: turn_post_def)
  have failed: "goes (thn (emit env (TurnEndEvent assistant [])) (thn (emit_agent_end env) (ret None)))
      (turn_post ?k InTurn)" for assistant
    by (rule goes_thn [OF goes_emit over]) (auto intro: passes_grows passes_turn_post)
  have tools: "goes (bnd (execute_tool_batch env cfg assistant calls) (\<lambda>r. end_turn env cfg assistant calls r c'))
      (turn_post ?k InTurn)" for assistant calls c'
  proof (rule goes_bnd)
    show "goes (execute_tool_batch env cfg assistant calls)
        (\<lambda>r. passes ?k InTurn InTurn (map tool_message (fst r)))"
      by (rule goes_mono [OF spec_goes [OF execute_tool_batch_spec]])
         (auto simp: batch_done_def intro: steps_passes)
    show "goes (end_turn env cfg assistant calls r c') (turn_post ?k InTurn)" for r
      by (rule end_turn_goes [OF assms(1)])
  qed (auto intro: passes_grows passes_turn_post)
  have response: "goes (stream_assistant_response env cfg m l) (\<lambda>a. passes ?k InTurn InTurn [asst a])" for m l
    by (rule goes_mono [OF spec_goes [OF stream_assistant_response_spec [OF assms(2)]]]) (rule steps_passes)
  have after: "goes (bnd (stream_assistant_response env cfg m l) (\<lambda>assistant.
     if am_stop_reason assistant \<in> {JStr ''error'', JStr ''aborted''} then
       thn (emit env (TurnEndEvent assistant [])) (thn (emit_agent_end env) (ret None))
     else bnd (execute_tool_batch env cfg assistant (tool_calls_of assistant)) (\<lambda>r.
       end_turn env cfg assistant (tool_calls_of assistant) r c'))) (turn_post ?k InTurn)" for m l c'
    by (rule goes_bnd [OF response, where P' = "\<lambda>_. turn_post ?k InTurn"])
       (use failed tools in \<open>auto intro: passes_grows passes_turn_post\<close>)
  have checked: "goes (thn (raise_if_cancelled env) (bnd (stream_assistant_response env cfg m l) (\<lambda>assistant.
     if am_stop_reason assistant \<in> {JStr ''error'', JStr ''aborted''} then
       thn (emit env (TurnEndEvent assistant [])) (thn (emit_agent_end env) (ret None))
     else bnd (execute_tool_batch env cfg assistant (tool_calls_of assistant)) (\<lambda>r.
       end_turn env cfg assistant (tool_calls_of assistant) r c')))) (turn_post ?k InTurn)" for m l c'
    by (rule goes_thn [OF worldly_goes after]) (auto intro: passes_grows passes_turn_post)
  have pending: "goes (each (add_message env) ms) (\<lambda>_. passes ?k InTurn InTurn ms)" for ms
    by (rule goes_mono [OF spec_goes [OF add_messages_spec]]) (rule steps_passes)
  have body: "goes (thn (each (add_message env) (lc_pending c'))
    (thn (raise_if_cancelled env) (bnd (stream_assistant_response env cfg (lc_model c') (lc_level c')) (\<lambda>assistant.
     if am_stop_reason assistant \<in> {JStr ''error'', JStr ''aborted''} then
       thn (emit env (TurnEndEvent assistant [])) (thn (emit_agent_end env) (ret None))
     else bnd (execute_tool_batch env cfg assistant (tool_calls_of assistant)) (\<lambda>r.
       end_turn env cfg assistant (tool_calls_of assistant) r c'))))) (turn_post ?k InTurn)" for c'
    by (rule goes_thn [OF pending checked]) (auto intro: passes_grows passes_turn_post)
  show ?thesis unfolding turn_def
    by (rule goes_bnd [OF begin_turn_goes body]) (auto intro: passes_grows passes_turn_post)
qed

section \<open>The whole run\<close>

lemma turns_goes:
  assumes "quiet_sink env" and "well_formed_provider env"
    and "lc_last c = None \<Longrightarrow> lc_more c"
  shows "goes (turns n env cfg c) (\<lambda>_. finished (keeps_context cfg) (entry_phase c))"
  using assms(3)
proof (induction n arbitrary: c)
  case 0
  show ?case by (simp add: goes_def wp_simps)
next
  case (Suc n)
  let ?k = "keeps_context cfg"
  show ?case
  proof (cases "lc_more c \<or> lc_pending c \<noteq> []")
    case True
    have "goes (bnd (turn env cfg c) (\<lambda>r. case r of None \<Rightarrow> ret () | Some c' \<Rightarrow> turns n env cfg c'))
        (\<lambda>_. finished ?k (entry_phase c))"
      unfolding goes_def wp_bnd
    proof
      fix s
      have "wp (turn env cfg c) (\<lambda>r s'. turn_post ?k (entry_phase c) r s s') (\<lambda>e s'. grows middle s s') s"
        using turn_goes [OF assms(1,2), of cfg c] by (simp add: goes_def)
      then show "wp (turn env cfg c) (\<lambda>r. wp (case r of None \<Rightarrow> ret () | Some c' \<Rightarrow> turns n env cfg c')
          (\<lambda>x s'. finished ?k (entry_phase c) s s') (\<lambda>e s'. grows middle s s')) (\<lambda>e s'. grows middle s s') s"
      proof (rule wp_mono)
        fix r s' assume r: "turn_post ?k (entry_phase c) r s s'"
        show "wp (case r of None \<Rightarrow> ret () | Some c' \<Rightarrow> turns n env cfg c')
          (\<lambda>x s'. finished ?k (entry_phase c) s s') (\<lambda>e s'. grows middle s s') s'"
        proof (cases r)
          case None
          with r show ?thesis by (simp add: wp_simps turn_post_def)
        next
          case (Some c')
          with r obtain ms where p: "passes ?k (entry_phase c) BetweenTurns ms s s'" and l: "lc_last c' \<noteq> None"
            by (auto simp: turn_post_def)
          have "wp (turns n env cfg c') (\<lambda>_ s''. finished ?k BetweenTurns s' s'') (\<lambda>e s''. grows middle s' s'') s'"
            using Suc.IH [of c'] l by (auto simp: goes_def entry_phase_def)
          then show ?thesis unfolding Some option.case
            by (elim wp_mono) (blast intro: passes_finished [OF p] grows_trans passes_grows [OF p])+
        qed
      qed
    qed
    with True show ?thesis by simp
  next
    case False
    then obtain l where l: "lc_last c = Some l" using Suc.prems by (cases "lc_last c") auto
    have rest: "goes (if fu \<noteq> [] then turns n env cfg (c\<lparr>lc_pending := fu, lc_more := True\<rparr>)
        else emit_agent_end env) (\<lambda>_. finished ?k BetweenTurns)" for fu
      using Suc.IH [of "c\<lparr>lc_pending := fu, lc_more := True\<rparr>"] emit_agent_end_goes [OF assms(1)] l
      by (simp add: entry_phase_def)
    have "goes (bnd (maybe_hook (cf_get_follow_up_messages cfg) []) (\<lambda>fu.
        if fu \<noteq> [] then turns n env cfg (c\<lparr>lc_pending := fu, lc_more := True\<rparr>)
        else emit_agent_end env)) (\<lambda>_. finished ?k BetweenTurns)"
      by (rule goes_bnd [OF worldly_goes rest]) (auto intro: passes_grows passes_finished)
    with False l show ?thesis by (simp add: entry_phase_def)
  qed
qed

definition announced :: "agent_message list \<Rightarrow> 'w run_state \<Rightarrow> 'w run_state \<Rightarrow> bool" where
  "announced ps s s' \<longleftrightarrow> (\<exists>evs. adds evs [] s s' \<and> accepts InTurn evs = Some InTurn \<and>
     ended_messages evs = ps)"

lemma announced_grows: "announced ps s s' \<Longrightarrow> grows inner s s'"
  unfolding announced_def by (blast intro: adds_grows)

lemma announced_trans:
  assumes "announced ps s t" and "announced qs t u" shows "announced (ps @ qs) s u"
proof -
  obtain a b where "adds a [] s t" "accepts InTurn a = Some InTurn" "ended_messages a = ps"
    "adds b [] t u" "accepts InTurn b = Some InTurn" "ended_messages b = qs"
    using assms unfolding announced_def by blast
  with adds_trans [of a "[]" s t b "[]" u] show ?thesis unfolding announced_def
    by (intro exI [where x = "a @ b"]) (simp add: accepts_append)
qed

lemma announce_spec: "spec (announce env m) (\<lambda>_. announced [m])"
proof -
  have "spec (announce env m) (\<lambda>_. adds [MessageStartEvent m, MessageEndEvent m] [])"
    unfolding announce_def
    by (rule spec_thn [OF spec_emit spec_emit]) (auto intro: adds_grows dest: adds_trans)
  then show ?thesis by (rule spec_mono) (auto simp: announced_def)
qed

lemma announces_spec: "spec (each (announce env) ps) (\<lambda>_. announced ps)"
proof (induction ps)
  case Nil
  show ?case by (auto simp: spec_def wp_simps announced_def intro: exI [where x = "[]"])
next
  case (Cons p ps)
  show ?case unfolding each.simps
    by (rule spec_thn [OF announce_spec Cons.IH]) (auto intro: announced_grows dest: announced_trans)
qed

definition run_end ::
  "bool \<Rightarrow> agent_message list \<Rightarrow> 'w run_state \<Rightarrow> 'w run_state \<Rightarrow> bool" where
  "run_end k ps s s' \<longleftrightarrow> (\<exists>mid ms. rs_trace s' = rs_trace s @ mid @ [AgentEndEvent (rs_new s')] \<and>
     (\<forall>ev \<in> set mid. middle ev) \<and> accepts InTurn mid = Some BetweenTurns \<and>
     ended_messages mid = ps @ ms \<and> rs_new s' = rs_new s @ ms \<and>
     (k \<longrightarrow> cx_messages (rs_context s') = cx_messages (rs_context s) @ ms) \<and>
     (stream_open (rs_stream s) \<longrightarrow> es_done (rs_stream s') \<and> es_result (rs_stream s') = Some (rs_new s')))"

lemma announced_finished:
  assumes "announced ps s t" and "finished k InTurn t u" shows "run_end k ps s u"
proof -
  obtain a where a: "adds a [] s t" "accepts InTurn a = Some InTurn" "ended_messages a = ps"
    using assms(1) unfolding announced_def by blast
  obtain ms v where f: "passes k InTurn BetweenTurns ms t v" "rs_trace u = rs_trace v @ [AgentEndEvent (rs_new v)]"
      "rs_new u = rs_new v" "rs_context u = rs_context v"
      "after_emit (AgentEndEvent (rs_new v)) (rs_stream v) (rs_stream u)"
    using assms(2) unfolding finished_def by blast
  obtain b where b: "rs_trace v = rs_trace t @ b" "\<forall>ev \<in> set b. middle ev" "accepts InTurn b = Some BetweenTurns"
      "ended_messages b = ms" "rs_new v = rs_new t @ ms"
      "k \<longrightarrow> cx_messages (rs_context v) = cx_messages (rs_context t) @ ms" "keeps_open t v"
    using f(1) unfolding passes_def by blast
  have "stream_open (rs_stream s) \<Longrightarrow> stream_open (rs_stream v)"
    using a(1) b(7) by (simp add: adds_def keeps_open_def)
  with a b f show ?thesis unfolding run_end_def
    by (intro exI [where x = "a @ b"] exI [where x = ms])
       (auto simp: adds_def accepts_append after_emit_def inner_middle)
qed

text \<open>A run: \<open>agent_start\<close> and \<open>turn_start\<close>, then the rest, ended by \<open>agent_end\<close> unless it raised.\<close>

lemma run_loop_wp:
  fixes env :: "'w environment"
  assumes "quiet_sink env" and "well_formed_provider env"
    and "rs_trace s = []" and "stream_open (rs_stream s)"
  shows "wp (run_loop fuel env cfg prompts cont)
     (\<lambda>_ s'. \<exists>t. rs_trace t = [AgentStartEvent, TurnStartEvent] \<and> rs_new t = rs_new s \<and>
        rs_context t = rs_context s \<and> stream_open (rs_stream t) \<and>
        run_end (keeps_context cfg) (if cont then [] else prompts) t s')
     (\<lambda>_ s'. \<exists>t. rs_trace t = [AgentStartEvent, TurnStartEvent] \<and> stream_open (rs_stream t) \<and>
        grows middle t s') s"
proof -
  let ?k = "keeps_context cfg" and ?ps = "if cont then [] else prompts"
  have ps: "goes (if cont then ret () else each (announce env) prompts) (\<lambda>_. announced ?ps)"
    using spec_goes [OF announces_spec [of env prompts]]
    by (auto simp: goes_def wp_simps announced_def intro: exI [where x = "[]"])
  have loop: "goes (turns fuel env cfg \<lparr>lc_model = cf_model cfg, lc_level = cf_thinking_level cfg,
       lc_last = None, lc_pending = ms, lc_more = True\<rparr>) (\<lambda>_. finished ?k InTurn)" for ms
    using turns_goes [OF assms(1,2), of "\<lparr>lc_model = cf_model cfg, lc_level = cf_thinking_level cfg,
       lc_last = None, lc_pending = ms, lc_more = True\<rparr>" fuel cfg] by (simp add: entry_phase_def)
  have steer: "goes (bnd (maybe_hook (cf_get_steering_messages cfg) []) (\<lambda>ms.
     turns fuel env cfg \<lparr>lc_model = cf_model cfg, lc_level = cf_thinking_level cfg, lc_last = None,
                         lc_pending = ms, lc_more = True\<rparr>)) (\<lambda>_. finished ?k InTurn)"
    by (rule goes_bnd [OF worldly_goes loop]) (auto intro: passes_grows passes_finished)
  have rest: "goes (thn (if cont then ret () else each (announce env) prompts)
    (bnd (maybe_hook (cf_get_steering_messages cfg) []) (\<lambda>ms.
     turns fuel env cfg \<lparr>lc_model = cf_model cfg, lc_level = cf_thinking_level cfg, lc_last = None,
                         lc_pending = ms, lc_more = True\<rparr>))) (\<lambda>_. run_end ?k ?ps)"
    by (rule goes_thn [OF ps steer]) (auto intro: inner_grows_middle announced_grows announced_finished)
  define body where "body = thn (if cont then ret () else each (announce env) prompts)
    (bnd (maybe_hook (cf_get_steering_messages cfg) []) (\<lambda>ms.
     turns fuel env cfg \<lparr>lc_model = cf_model cfg, lc_level = cf_thinking_level cfg, lc_last = None,
                         lc_pending = ms, lc_more = True\<rparr>))"
  define Q :: "unit \<Rightarrow> 'w run_state \<Rightarrow> bool" where
    "Q = (\<lambda>_ s'. \<exists>t. rs_trace t = [AgentStartEvent, TurnStartEvent] \<and> rs_new t = rs_new s \<and>
        rs_context t = rs_context s \<and> stream_open (rs_stream t) \<and> run_end ?k ?ps t s')"
  define E :: "exn \<Rightarrow> 'w run_state \<Rightarrow> bool" where
    "E = (\<lambda>_ s'. \<exists>t. rs_trace t = [AgentStartEvent, TurnStartEvent] \<and> stream_open (rs_stream t) \<and>
        grows middle t s')"
  have body: "wp body Q E u" if "rs_trace u = [AgentStartEvent, TurnStartEvent]" "stream_open (rs_stream u)"
      "rs_new u = rs_new s" "rs_context u = rs_context s" for u
  proof -
    have "wp body (\<lambda>_ s'. run_end ?k ?ps u s') (\<lambda>_ s'. grows middle u s') u"
      using rest by (simp add: goes_def body_def)
    then show ?thesis by (rule wp_mono) (use that in \<open>auto simp: Q_def E_def\<close>)
  qed
  have "wp (thn (emit env AgentStartEvent) (thn (emit env TurnStartEvent) body)) Q E s"
    unfolding wp_thn
    by (rule wp_emit_quiet [OF assms(1)], rule wp_emit_quiet [OF assms(1)], rule body)
       (use assms(3,4) in \<open>simp_all add: after_emit_def\<close>)
  then show ?thesis unfolding run_loop_def body_def Q_def E_def .
qed

lemma stream_end_result: "es_result st = Some ms \<Longrightarrow> es_result (stream_end None st) = Some ms"
  by (simp add: stream_end_def)

text \<open>The failure path: an error message, the end of the turn, and \<open>agent_end\<close>.\<close>

lemma finish_after_failure_wp:
  assumes "quiet_sink env" and "stream_open (rs_stream s)"
  shows "wp (finish_after_loop_failure env m reason msg)
     (\<lambda>_ s'. \<exists>err. err = failure_message m reason msg (am_timestamp err) \<and>
        rs_trace s' = rs_trace s @ [MessageStartEvent (asst err), MessageEndEvent (asst err), TurnEndEvent err [],
          AgentEndEvent (rs_new s @ [asst err])] \<and> es_result (rs_stream s') = Some (rs_new s @ [asst err]))
     (\<lambda>_ _. False) s"
  unfolding finish_after_loop_failure_def Let_def using assms(2)
  by (auto simp: wp_simps after_emit_def failure_message_def split: prod.split
      intro!: wp_emit_quiet [OF assms(1)])

section \<open>Properties\<close>

text \<open>C1: Every run that returns, however it ends, emits \<open>agent_start\<close> and \<open>turn_start\<close> first,
  \<open>agent_end\<close> once and last, and resolves its result with the messages of that last event
  (provided the event sink does not raise).\<close>

theorem agent_loop_lifecycle:
  fixes env :: "'w environment"
  assumes "quiet_sink env" and "well_formed_provider env"
    and "agent_loop fuel env cfg prompts ctx w = Some (r, s')"
  shows "r = Inr () \<and> (\<exists>mid ms. rs_trace s' = AgentStartEvent # TurnStartEvent # mid @ [AgentEndEvent ms] \<and>
     (\<forall>ev \<in> set mid. middle ev) \<and> es_result (rs_stream s') = Some ms \<and> es_done (rs_stream s'))"
proof -
  let ?s = "start_state w ctx prompts prompts"
  let ?Q = "\<lambda>(_ :: unit) (s' :: 'w run_state). \<exists>mid ms. rs_trace s' = AgentStartEvent # TurnStartEvent # mid @ [AgentEndEvent ms] \<and>
     (\<forall>ev \<in> set mid. middle ev) \<and> es_result (rs_stream s') = Some ms"
  let ?h = "\<lambda>e. if exn_class e = CancelledError
              then finish_after_loop_failure env (cf_model cfg) ''aborted'' (aborted_text e)
              else finish_after_loop_failure env (cf_model cfg) ''error'' (exn_text e)"
  have open_: "rs_trace ?s = []" "stream_open (rs_stream ?s)"
    by (simp_all add: start_state_def stream_open_def new_stream_def)
  have failed: "wp (finish_after_loop_failure env m reason msg) ?Q (\<lambda>_ _. False) s1"
    if t: "rs_trace t = [AgentStartEvent, TurnStartEvent]" "stream_open (rs_stream t)" "grows middle t s1"
    for m reason msg t s1
  proof -
    obtain mid where mid: "rs_trace s1 = AgentStartEvent # TurnStartEvent # mid" "\<forall>ev \<in> set mid. middle ev"
      using t(1,3) unfolding grows_def by auto
    have "stream_open (rs_stream s1)" using t(2,3) by (simp add: grows_def keeps_open_def)
    from finish_after_failure_wp [OF assms(1) this, of m reason msg] show ?thesis
    proof (rule wp_mono)
      fix s2 :: "'w run_state" assume "\<exists>err. err = failure_message m reason msg (am_timestamp err) \<and>
        rs_trace s2 = rs_trace s1 @ [MessageStartEvent (asst err), MessageEndEvent (asst err), TurnEndEvent err [],
          AgentEndEvent (rs_new s1 @ [asst err])] \<and> es_result (rs_stream s2) = Some (rs_new s1 @ [asst err])"
      then obtain err where e: "rs_trace s2 = rs_trace s1 @ [MessageStartEvent (asst err), MessageEndEvent (asst err),
          TurnEndEvent err [], AgentEndEvent (rs_new s1 @ [asst err])]"
          "es_result (rs_stream s2) = Some (rs_new s1 @ [asst err])" by blast
      with mid show "?Q x s2" for x
        by (intro exI [where x = "mid @ [MessageStartEvent (asst err), MessageEndEvent (asst err), TurnEndEvent err []]"]
            exI [where x = "rs_new s1 @ [asst err]"]) auto
    qed simp
  qed
  have "wp (catch (run_loop fuel env cfg prompts False) ?h) ?Q (\<lambda>_ _. False) ?s"
    unfolding wp_catch
  proof (rule wp_mono [OF run_loop_wp [OF assms(1,2) open_]])
    fix s1 :: "'w run_state" assume "\<exists>t. rs_trace t = [AgentStartEvent, TurnStartEvent] \<and> rs_new t = rs_new ?s \<and>
        rs_context t = rs_context ?s \<and> stream_open (rs_stream t) \<and>
        run_end (keeps_context cfg) (if False then [] else prompts) t s1"
    then show "?Q x s1" for x unfolding run_end_def by fastforce
  next
    fix e and s1 :: "'w run_state" assume "\<exists>t. rs_trace t = [AgentStartEvent, TurnStartEvent] \<and> stream_open (rs_stream t) \<and> grows middle t s1"
    then show "wp (?h e) ?Q (\<lambda>_ _. False) s1" using failed by auto
  qed
  moreover obtain s1 where s1: "catch (run_loop fuel env cfg prompts False) ?h ?s = Some (r, s1)"
      "s' = s1\<lparr>rs_stream := stream_end None (rs_stream s1)\<rparr>"
    using assms(3) unfolding agent_loop_def run_guarded_def by (auto split: option.splits prod.splits)
  ultimately have "r = Inr () \<and> ?Q () s1" by (cases r) (auto simp: wp_def)
  with s1(2) show ?thesis by (auto simp: stream_end_result) (auto simp: stream_end_def)
qed

text \<open>C2: A run that does not fail follows the life cycle (turns start and end alternately, every
  message that starts ends, tool events only inside a turn), and its new messages are exactly
  the messages whose end was announced, in order: the prompts first, and the same messages
  appended to the context (unless \<^verbatim>\<open>prepare_next_turn\<close> replaced it).\<close>

theorem agent_loop_clean_run:
  assumes "quiet_sink env" and "well_formed_provider env"
    and "run_loop fuel env cfg prompts False (start_state w ctx prompts prompts) = Some (Inr (), s')"
  shows "accepts Idle (rs_trace s') = Some Finished \<and>
     last (rs_trace s') = AgentEndEvent (rs_new s') \<and>
     ended_messages (rs_trace s') = rs_new s' \<and>
     take (length prompts) (rs_new s') = prompts \<and>
     (keeps_context cfg \<longrightarrow> cx_messages (rs_context s') = cx_messages ctx @ rs_new s')"
proof -
  let ?s = "start_state w ctx prompts prompts"
  have open_: "rs_trace ?s = []" "stream_open (rs_stream ?s)"
    by (simp_all add: start_state_def stream_open_def new_stream_def)
  obtain t where t: "rs_trace t = [AgentStartEvent, TurnStartEvent]" "rs_new t = rs_new ?s"
      "rs_context t = rs_context ?s" "run_end (keeps_context cfg) prompts t s'"
    using wpD(1) [OF run_loop_wp [OF assms(1,2) open_] assms(3)] by auto
  then obtain mid ms where m: "rs_trace s' = rs_trace t @ mid @ [AgentEndEvent (rs_new s')]"
      "accepts InTurn mid = Some BetweenTurns" "ended_messages mid = prompts @ ms" "rs_new s' = rs_new t @ ms"
      "keeps_context cfg \<longrightarrow> cx_messages (rs_context s') = cx_messages (rs_context t) @ ms"
    unfolding run_end_def by blast
  show ?thesis using t m by (auto simp: start_state_def accepts_append)
qed

text \<open>When the provider's stream is marked done without a result (its producer called
  \<^verbatim>\<open>end()\<close> without a terminal event), the loop waits for that result for ever: the
  explicit error for a stream without a terminal event is never raised.\<close>

theorem unresolved_provider_hangs:
  assumes "prs_done r" and "prs_failure r = None" and "prs_result r = None"
    and "provider_request env cfg model level s = Some (Inr r, s1)"
  shows "\<forall>final s2. provider_loop env None None (prs_events r) s1 = Some (Inr final, s2) \<longrightarrow>
     stream_assistant_response env cfg model level s = None"
  using assms
  by (simp add: stream_assistant_response_def provider_result_def bnd_def prog_run diverge_def)

section \<open>A concrete run\<close>

definition demo_reply :: assistant_message where
  "demo_reply = demo_assistant ''stop'' [TextContent ''hello'' JNull]"

definition demo_response :: "bool \<Rightarrow> provider_response" where
  "demo_response ends = \<lparr>prs_events = StartEvent (demo_assistant ''pending'' []) #
       (if ends then [DoneEvent ''stop'' demo_reply] else []),
     prs_failure = None, prs_done = True, prs_result = (if ends then Some demo_reply else None)\<rparr>"

definition demo_env :: "bool \<Rightarrow> unit environment" where
  "demo_env ends = demo_batch_env\<lparr>ev_stream_fn := (\<lambda>_ _ _ w. (Inr (demo_response ends), w))\<rparr>"

definition demo_prompt :: agent_message where
  "demo_prompt = LlmMsg (UserMessage \<lparr>um_content = UserText ''hi'', um_timestamp = 3\<rparr>)"

definition demo_context :: "unit agent_context" where
  "demo_context = \<lparr>cx_system_prompt = [], cx_messages = [], cx_tools = []\<rparr>"

lemma demo_env_ok: "quiet_sink (demo_env b)" "well_formed_provider (demo_env b)"
  by (simp_all add: quiet_sink_def well_formed_provider_def demo_env_def demo_batch_env_def demo_response_def)

lemmas run_eval = batch_eval demo_reply_def demo_response_def demo_env_def demo_prompt_def demo_context_def
  run_loop_def turn_def begin_turn_def stream_assistant_response_def provider_request_def
  request_options_def request_context_def llm_messages_def non_empty_def insert_message_def
  replace_message_def finish_message_def set_context_def set_last_new_def provider_result_def
  tool_calls_of_def end_turn_def emit_agent_end_def batch_terminates_def add_message_def announce_def
  maybe_hook_def start_state_def

lemma returned_unitI:
  assumes "case p of Some (Inr u, s') \<Rightarrow> Q s' | _ \<Rightarrow> False"
  shows "\<exists>s'. p = Some (Inr (), s') \<and> Q s'"
proof (cases p)
  case (Some q)
  obtain r s' where "q = (r, s')" by (cases q)
  with assms Some show ?thesis by (cases r) auto
qed (use assms in simp)

lemma demo_run:
  "case run_loop 5 (demo_env True) demo_batch_config [demo_prompt] False
     (start_state () demo_context [demo_prompt] [demo_prompt]) of
     Some (Inr _, s') \<Rightarrow> rs_new s' = [demo_prompt, asst demo_reply] \<and> length (rs_trace s') = 8
   | _ \<Rightarrow> False"
  by (simp add: run_eval eval_nat_numeral)

lemma demo_guarded:
  "case agent_loop 5 (demo_env True) demo_batch_config [demo_prompt] demo_context () of
     Some (Inr _, s') \<Rightarrow> es_result (rs_stream s') = Some [demo_prompt, asst demo_reply] | _ \<Rightarrow> False"
  by (simp add: agent_loop_def run_guarded_def run_eval eval_nat_numeral stream_push_def new_stream_def
      stream_end_def)

theorem agent_loop_lifecycle_witness:
  "\<exists>s' mid. agent_loop 5 (demo_env True) demo_batch_config [demo_prompt] demo_context () = Some (Inr (), s') \<and>
     rs_trace s' = AgentStartEvent # TurnStartEvent # mid @ [AgentEndEvent [demo_prompt, asst demo_reply]]"
proof -
  obtain s' where s': "agent_loop 5 (demo_env True) demo_batch_config [demo_prompt] demo_context () = Some (Inr (), s')"
      "es_result (rs_stream s') = Some [demo_prompt, asst demo_reply]"
    using returned_unitI [OF demo_guarded] by blast
  from agent_loop_lifecycle [OF demo_env_ok s'(1)] s' show ?thesis by auto
qed

theorem agent_loop_clean_run_witness:
  "\<exists>s'. run_loop 5 (demo_env True) demo_batch_config [demo_prompt] False
      (start_state () demo_context [demo_prompt] [demo_prompt]) = Some (Inr (), s') \<and>
     accepts Idle (rs_trace s') = Some Finished \<and>
     cx_messages (rs_context s') = [demo_prompt, asst demo_reply]"
proof -
  obtain s' where s': "run_loop 5 (demo_env True) demo_batch_config [demo_prompt] False
      (start_state () demo_context [demo_prompt] [demo_prompt]) = Some (Inr (), s')"
      "rs_new s' = [demo_prompt, asst demo_reply]"
    using returned_unitI [OF demo_run] by blast
  have "keeps_context demo_batch_config" by (simp add: keeps_context_def demo_batch_config_def)
  with agent_loop_clean_run [OF demo_env_ok s'(1)] s' show ?thesis by (auto simp: demo_context_def)
qed

theorem unresolved_provider_hangs_witness:
  "stream_assistant_response (demo_env False) demo_batch_config demo_model ''off''
     (start_state () demo_context [demo_prompt] []) = None"
proof -
  have "provider_request (demo_env False) demo_batch_config demo_model ''off''
      (start_state () demo_context [demo_prompt] []) =
    Some (Inr (demo_response False), start_state () demo_context [demo_prompt] [])"
    by (simp add: run_eval)
  from unresolved_provider_hangs [OF _ _ _ this] show ?thesis
    by (simp add: run_eval)
qed

end
