(* ===== verification/RunRelation.thy ===== *)
theory RunRelation
  imports AgentLoopCorrect
begin

text \<open>
  What holds of the world across a whole run because every hook, tool and event sink respects it:
  a reflexive and transitive relation between a world with the events emitted so far and a later
  one.  An invariant of the world and the trace, or a measure that never grows, is such a relation.
\<close>

section \<open>Respecting a relation\<close>

type_synonym 'w world_rel = "'w \<Rightarrow> agent_event list \<Rightarrow> 'w \<Rightarrow> agent_event list \<Rightarrow> bool"

definition hook_respects :: "'w world_rel \<Rightarrow> ('w, 'a) hook \<Rightarrow> bool" where
  "hook_respects rel h \<longleftrightarrow> (\<forall>w t. rel w t (snd (h w)) t)"

definition tool_respects :: "'w world_rel \<Rightarrow> 'w agent_tool \<Rightarrow> bool" where
  "tool_respects rel tool \<longleftrightarrow> (\<forall>i a w t. rel w t (snd (t_execute tool i a w)) t) \<and>
     (\<forall>f a. t_prepare_arguments tool = Some f \<longrightarrow> hook_respects rel (f a))"

definition tools_respect :: "'w world_rel \<Rightarrow> 'w agent_context \<Rightarrow> bool" where
  "tools_respect rel ctx \<longleftrightarrow> (\<forall>tool \<in> set (cx_tools ctx). tool_respects rel tool)"

definition sink_world :: "'w environment \<Rightarrow> agent_event \<Rightarrow> 'w \<Rightarrow> 'w" where
  "sink_world env ev w = (case ev_sink env of None \<Rightarrow> w | Some sink \<Rightarrow> snd (sink ev w))"

definition env_respects :: "'w world_rel \<Rightarrow> 'w environment \<Rightarrow> bool" where
  "env_respects rel env \<longleftrightarrow>
     (\<forall>m c so. hook_respects rel (ev_stream_fn env m c so)) \<and>
     (\<forall>w t. rel w t (snd (ev_clock env w)) t) \<and>
     (\<forall>ev w t. rel w t (sink_world env ev w) (t @ [ev]))"

text \<open>The contexts that \<^verbatim>\<open>prepare_next_turn\<close> hands out after a turn hold respectful tools; it may
  hand out the tools of the turn's own context.\<close>

definition updates_respect :: "'w world_rel \<Rightarrow> 'w agent_loop_config \<Rightarrow> 'w completed_turn_context \<Rightarrow> bool" where
  "updates_respect rel cfg ct \<longleftrightarrow> (\<forall>f w u ctx. cf_prepare_next_turn cfg = Some f \<longrightarrow>
     fst (f ct w) = Inr (Some u) \<longrightarrow> tu_context u = Some ctx \<longrightarrow> tools_respect rel ctx)"

definition config_respects :: "'w world_rel \<Rightarrow> 'w agent_loop_config \<Rightarrow> bool" where
  "config_respects rel cfg \<longleftrightarrow>
     (\<forall>ms. hook_respects rel (cf_convert_to_llm cfg ms)) \<and>
     (\<forall>f ms. cf_transform_context cfg = Some f \<longrightarrow> hook_respects rel (f ms)) \<and>
     (\<forall>f p. cf_get_api_key cfg = Some f \<longrightarrow> hook_respects rel (f p)) \<and>
     (\<forall>h. cf_get_steering_messages cfg = Some h \<longrightarrow> hook_respects rel h) \<and>
     (\<forall>h. cf_get_follow_up_messages cfg = Some h \<longrightarrow> hook_respects rel h) \<and>
     (\<forall>f c. cf_should_stop_after_turn cfg = Some f \<longrightarrow> hook_respects rel (f c)) \<and>
     (\<forall>f c. cf_before_tool_call cfg = Some f \<longrightarrow> hook_respects rel (f c)) \<and>
     (\<forall>f c. cf_after_tool_call cfg = Some f \<longrightarrow> hook_respects rel (f c)) \<and>
     (\<forall>f c. cf_prepare_next_turn cfg = Some f \<longrightarrow> hook_respects rel (f c)) \<and>
     (\<forall>c. tools_respect rel (ct_context c) \<longrightarrow> updates_respect rel cfg c)"

lemma config_respectsD:
  assumes "config_respects rel cfg"
  shows "hook_respects rel (cf_convert_to_llm cfg ms)"
    and "cf_transform_context cfg = Some f1 \<Longrightarrow> hook_respects rel (f1 ms)"
    and "cf_get_api_key cfg = Some f2 \<Longrightarrow> hook_respects rel (f2 p)"
    and "cf_get_steering_messages cfg = Some h1 \<Longrightarrow> hook_respects rel h1"
    and "cf_get_follow_up_messages cfg = Some h2 \<Longrightarrow> hook_respects rel h2"
    and "cf_should_stop_after_turn cfg = Some f3 \<Longrightarrow> hook_respects rel (f3 c3)"
    and "cf_before_tool_call cfg = Some f4 \<Longrightarrow> hook_respects rel (f4 c4)"
    and "cf_after_tool_call cfg = Some f5 \<Longrightarrow> hook_respects rel (f5 c5)"
    and "cf_prepare_next_turn cfg = Some f6 \<Longrightarrow> hook_respects rel (f6 c6)"
    and "tools_respect rel (ct_context c6) \<Longrightarrow> updates_respect rel cfg c6"
  using assms unfolding config_respects_def by blast+

locale run_relation =
  fixes rel :: "'w world_rel"
  assumes rel_refl: "rel w t w t"
    and rel_trans: "rel w t w' t' \<Longrightarrow> rel w' t' w'' t'' \<Longrightarrow> rel w t w'' t''"
begin

definition before_after :: "'w run_state \<Rightarrow> 'w run_state \<Rightarrow> bool" where
  "before_after s s' \<longleftrightarrow> tools_respect rel (rs_context s') \<and>
     rel (rs_world s) (rs_trace s) (rs_world s') (rs_trace s')"

text \<open>Run from a state with respectful tools, \<open>f\<close> respects the relation, and returns only values
  that satisfy \<open>P\<close>.\<close>

definition along :: "('a \<Rightarrow> bool) \<Rightarrow> ('w run_state, 'a) prog \<Rightarrow> bool" where
  "along P f \<longleftrightarrow> (\<forall>s. tools_respect rel (rs_context s) \<longrightarrow>
     wp f (\<lambda>x s'. P x \<and> before_after s s') (\<lambda>_ s'. before_after s s') s)"

abbreviation along_any :: "('w run_state, 'a) prog \<Rightarrow> bool" where
  "along_any \<equiv> along (\<lambda>_. True)"

lemma before_after_trans: "before_after s s' \<Longrightarrow> before_after s' s'' \<Longrightarrow> before_after s s''"
  unfolding before_after_def by (blast intro: rel_trans)

lemma before_after_tools: "before_after s s' \<Longrightarrow> tools_respect rel (rs_context s')"
  by (simp add: before_after_def)

lemma along_bnd:
  assumes "along P f" and "\<And>x. P x \<Longrightarrow> along Q (g x)"
  shows "along Q (bnd f g)"
  unfolding along_def wp_bnd
proof (intro allI impI)
  fix s :: "'w run_state" assume s: "tools_respect rel (rs_context s)"
  with assms(1) have "wp f (\<lambda>x s'. P x \<and> before_after s s') (\<lambda>_ s'. before_after s s') s"
    by (simp add: along_def)
  then show "wp f (\<lambda>x. wp (g x) (\<lambda>x s'. Q x \<and> before_after s s') (\<lambda>_ s'. before_after s s'))
      (\<lambda>_ s'. before_after s s') s"
  proof (rule wp_mono)
    fix x s' assume x: "P x \<and> before_after s s'"
    then have "wp (g x) (\<lambda>x s''. Q x \<and> before_after s' s'') (\<lambda>_ s''. before_after s' s'') s'"
      using assms(2) before_after_tools unfolding along_def by blast
    then show "wp (g x) (\<lambda>x s''. Q x \<and> before_after s s'') (\<lambda>_ s''. before_after s s'') s'"
      by (rule wp_mono) (use x in \<open>blast intro: before_after_trans\<close>)+
  qed
qed

lemma along_thn: "along P f \<Longrightarrow> along Q g \<Longrightarrow> along Q (thn f g)"
  unfolding thn_def by (rule along_bnd)

lemma along_weaken: "along P f \<Longrightarrow> (\<And>x. P x \<Longrightarrow> Q x) \<Longrightarrow> along Q f"
  unfolding along_def by (blast intro: wp_mono)

lemma along_catch:
  assumes "along P f" and "\<And>e. along P (h e)"
  shows "along P (catch f h)"
  unfolding along_def wp_catch
proof (intro allI impI)
  fix s :: "'w run_state" assume s: "tools_respect rel (rs_context s)"
  with assms(1) have "wp f (\<lambda>x s'. P x \<and> before_after s s') (\<lambda>_ s'. before_after s s') s"
    by (simp add: along_def)
  then show "wp f (\<lambda>x s'. P x \<and> before_after s s')
      (\<lambda>e. wp (h e) (\<lambda>x s'. P x \<and> before_after s s') (\<lambda>_ s'. before_after s s')) s"
  proof (rule wp_mono)
    fix e s' assume e: "before_after s s'"
    then have "wp (h e) (\<lambda>x s''. P x \<and> before_after s' s'') (\<lambda>_ s''. before_after s' s'') s'"
      using assms(2) before_after_tools unfolding along_def by blast
    then show "wp (h e) (\<lambda>x s''. P x \<and> before_after s s'') (\<lambda>_ s''. before_after s s'') s'"
      by (rule wp_mono) (use e in \<open>blast intro: before_after_trans\<close>)+
  qed
qed

lemma along_prims [simp]:
  "P x \<Longrightarrow> along P (ret x)" "along P (raise_exn e)" "along P diverge"
  "(\<And>x. r = Inr x \<Longrightarrow> P x) \<Longrightarrow> along P (of_result r)"
  "along_any (raise_if_cancelled env)"
  "along_any (put_context m)" "along_any (put_new m)" "along_any (set_context i m)"
  "along_any (set_last_new m)"
  by (auto simp: along_def before_after_def wp_simps tools_respect_def split: sum.split option.split
      intro: rel_refl)

lemma along_read:
  "(\<And>s. tools_respect rel (rs_context s) \<Longrightarrow> P (f s)) \<Longrightarrow> along P (readS f)"
  by (simp add: along_def before_after_def wp_simps rel_refl)

lemma along_hook: "hook_respects rel h \<Longrightarrow> (\<And>x w. fst (h w) = Inr x \<Longrightarrow> P x) \<Longrightarrow> along P (hook h)"
  unfolding along_def wp_hook hook_respects_def before_after_def
  by (auto split: prod.split sum.split) (metis snd_conv, metis fst_conv, metis snd_conv)

lemma along_maybe_hook: "(\<And>h. k = Some h \<Longrightarrow> hook_respects rel h) \<Longrightarrow> along_any (maybe_hook k d)"
  by (cases k) (auto simp: maybe_hook_def intro: along_hook)

lemma along_now: "env_respects rel env \<Longrightarrow> along_any (now env)"
  unfolding along_def wp_now env_respects_def before_after_def
  by (auto split: prod.split) (metis snd_conv)

lemma along_emit: "env_respects rel env \<Longrightarrow> along_any (emit env ev)"
  unfolding along_def wp_def before_after_def env_respects_def sink_world_def emit_def
  by (auto simp: Let_def split: option.splits prod.split sum.split) (metis snd_conv)+

lemma along_each: "(\<And>x. x \<in> set xs \<Longrightarrow> along_any (f x)) \<Longrightarrow> along_any (each f xs)"
  by (induction xs) (auto intro!: along_thn)

lemma along_if: "(b \<Longrightarrow> along P f) \<Longrightarrow> (\<not> b \<Longrightarrow> along P g) \<Longrightarrow> along P (if b then f else g)"
  by simp

lemmas along_intros = along_bnd along_thn along_catch along_if along_maybe_hook along_now along_emit
  along_each

lemma along_case_option:
  "(\<And>x. v = Some x \<Longrightarrow> along P (f x)) \<Longrightarrow> (v = None \<Longrightarrow> along P g) \<Longrightarrow>
   along P (case v of None \<Rightarrow> g | Some x \<Rightarrow> f x)"
  by (cases v) auto

lemma along_case_sum:
  "(\<And>x. v = Inl x \<Longrightarrow> along P (f x)) \<Longrightarrow> (\<And>y. v = Inr y \<Longrightarrow> along P (g y)) \<Longrightarrow>
   along P (case v of Inl x \<Rightarrow> f x | Inr y \<Rightarrow> g y)"
  by (cases v) auto

end

section \<open>Tools and batches\<close>

context run_relation
begin

definition prepared_ok :: "'w prepared_tool_call + tool_outcome \<Rightarrow> bool" where
  "prepared_ok r \<longleftrightarrow> (case r of Inl p \<Rightarrow> tool_respects rel (pt_tool p) | Inr _ \<Rightarrow> True)"

lemma prepared_ok_simps [simp]:
  "prepared_ok (Inl p) = tool_respects rel (pt_tool p)" "prepared_ok (Inr oc)"
  by (simp_all add: prepared_ok_def)

lemma along_prepared_arguments:
  assumes "tool_respects rel tool" shows "along_any (prepared_arguments env tool args)"
proof -
  have hook: "along_any (hook (f a))" if "t_prepare_arguments tool = Some f" for f a
    using assms that by (auto simp: tool_respects_def intro!: along_hook)
  have val: "along_any (case v of JObj a \<Rightarrow> ret a
      | _ \<Rightarrow> raise_exn (Exn ToolArgumentsError ''prepared arguments must be an object''))" for v
    by (cases v) simp_all
  show ?thesis unfolding prepared_arguments_def
    by (intro along_thn [where P = "\<lambda>_. True"] along_case_option along_bnd [OF hook val]) simp_all
qed

lemma along_before_call:
  assumes "config_respects rel cfg" and "tool_respects rel tool"
  shows "along prepared_ok (before_call cfg assistant i c tool args)"
  unfolding before_call_def Let_def
  by (intro along_case_option along_bnd [OF along_read [where P = "\<lambda>_. True"]]
      along_bnd [OF along_hook [where P = "\<lambda>_. True"]] along_if config_respectsD(7) [OF assms(1)])
     (simp_all add: assms(2))

lemma along_prepare_tool_call:
  assumes "config_respects rel cfg"
  shows "along prepared_ok (prepare_tool_call env cfg assistant i c)"
  unfolding prepare_tool_call_def Let_def
proof (rule along_bnd [where P = "\<lambda>t. case t of None \<Rightarrow> True | Some tool \<Rightarrow> tool_respects rel tool"])
  show "along (case_option True (tool_respects rel))
     (readS (\<lambda>s. find (\<lambda>t. t_name t = tc_name c) (cx_tools (rs_context s))))"
    by (rule along_read) (auto simp: tools_respect_def find_Some_iff split: option.split)
next
  fix found :: "'w agent_tool option"
  assume f: "case found of None \<Rightarrow> True | Some tool \<Rightarrow> tool_respects rel tool"
  show "along prepared_ok (case found of
        None \<Rightarrow> ret (Inr (failed_outcome i c (tc_arguments c)
                  (failed_tool_result (''Tool '' @ tc_name c @ '' not found''))))
      | Some tool \<Rightarrow>
          bnd (catch (bnd (prepared_arguments env tool (tc_arguments c)) (\<lambda>a. ret (Inl a)))
                     (\<lambda>e. ret (Inr (prepare_failed i c (tc_arguments c) e)))) (\<lambda>r.
          case r of
            Inl args' \<Rightarrow>
              catch (thn (of_result (validate_json_schema (ev_re_search env) (JObj args')
                                       (t_parameters tool) ''$''))
                         (before_call cfg assistant i c tool args'))
                    (\<lambda>e. ret (Inr (prepare_failed i c args' e)))
          | Inr oc \<Rightarrow> ret (Inr oc)))"
    using f
    by (intro along_case_option along_bnd [where P = "\<lambda>_. True"] along_catch along_case_sum
        along_thn [where P = "\<lambda>_. True"] along_bnd [OF along_prepared_arguments] along_before_call assms)
       simp_all
qed

lemma along_start_tool:
  assumes "tool_respects rel (pt_tool p)" shows "along_any (start_tool env p)"
proof -
  have "rel w t (snd (t_execute (pt_tool p) i a w)) t" for i a w t
    using assms by (simp add: tool_respects_def)
  then have step: "t_execute (pt_tool p) i a w = (r, w') \<Longrightarrow> rel w t w' t" for i a w t r w'
    by (metis snd_conv)
  show ?thesis
    by (auto simp: along_def wp_def start_tool_def before_after_def rel_refl split: option.split prod.split
        intro: step)
qed

lemma along_finish_tool:
  assumes "config_respects rel cfg" shows "along_any (finish_tool cfg assistant p rb)"
  unfolding finish_tool_def
  by (intro along_bnd [where P = "\<lambda>_. True"] along_case_option along_catch along_hook along_if along_read
      config_respectsD(8) [OF assms]) simp_all

lemma along_updates: "env_respects rel env \<Longrightarrow> along_any (each (emit_update env p) ups)"
  unfolding emit_update_def by (intro along_each along_emit)

lemma along_run_prepared_tool:
  assumes "env_respects rel env" and "config_respects rel cfg" and "tool_respects rel (pt_tool p)"
  shows "along_any (run_prepared_tool env cfg assistant p)"
  unfolding run_prepared_tool_def
  by (intro along_bnd [where P = "\<lambda>_. True"] along_thn [where P = "\<lambda>_. True"] along_start_tool
      along_updates along_finish_tool assms) simp_all

lemma along_prepare_and_run:
  assumes "env_respects rel env" and "config_respects rel cfg"
  shows "along_any (prepare_and_run env cfg assistant i c)"
  unfolding prepare_and_run_def
  by (rule along_bnd [OF along_prepare_tool_call [OF assms(2)]])
     (auto intro!: along_case_sum along_run_prepared_tool assms)

lemma along_record_outcome: "env_respects rel env \<Longrightarrow> along_any (record_outcome env oc)"
  unfolding record_outcome_def emit_tool_result_message_def Let_def
  by (intro along_bnd [where P = "\<lambda>_. True"] along_thn [where P = "\<lambda>_. True"] along_now along_emit) simp_all

lemma along_record_outcomes: "env_respects rel env \<Longrightarrow> along_any (record_outcomes env ocs)"
  by (induction ocs) (auto intro!: along_bnd [where P = "\<lambda>_. True"] along_record_outcome)

lemma along_tool_events:
  assumes "env_respects rel env"
  shows "along_any (emit_tool_start env c)" "along_any (emit_tool_end env oc)"
  unfolding emit_tool_start_def emit_tool_end_def by (intro along_emit assms)+

lemma along_truncated_batch: "env_respects rel env \<Longrightarrow> along_any (truncated_batch env i cs)"
  by (induction cs arbitrary: i)
     (auto simp: Let_def intro!: along_thn [where P = "\<lambda>_. True"] along_bnd [where P = "\<lambda>_. True"]
        along_tool_events along_record_outcome)

lemma along_sequential_batch:
  assumes "env_respects rel env" and "config_respects rel cfg"
  shows "along_any (sequential_batch env cfg assistant i cs)"
  by (induction cs arbitrary: i)
     (auto intro!: along_thn [where P = "\<lambda>_. True"] along_bnd [where P = "\<lambda>_. True"] along_tool_events
        along_record_outcome along_prepare_and_run assms along_read)

lemma along_prepare_all:
  assumes "env_respects rel env" and "config_respects rel cfg"
  shows "along (\<lambda>q. \<forall>p \<in> set (fst q). tool_respects rel (pt_tool p)) (prepare_all env cfg assistant i cs)"
proof (induction cs arbitrary: i)
  case (Cons c cs)
  show ?case unfolding prepare_all.simps
  proof (rule along_thn [OF along_tool_events(1) [OF assms(1)]], rule along_bnd [OF along_prepare_tool_call [OF assms(2)]])
    fix r assume r: "prepared_ok r"
    show "along (\<lambda>q. \<forall>p \<in> set (fst q). tool_respects rel (pt_tool p)) (case r of
       Inl p \<Rightarrow> bnd (prepare_all env cfg assistant (Suc i) cs) (\<lambda>q. ret (p # fst q, snd q))
     | Inr oc \<Rightarrow> thn (emit_tool_end env oc)
        (bnd (prepare_all env cfg assistant (Suc i) cs) (\<lambda>q. ret (fst q, (i, oc) # snd q))))"
      using r by (intro along_case_sum along_thn [OF along_tool_events(2) [OF assms(1)]]
          along_bnd [OF Cons.IH]) auto
  qed
qed simp

fun task_ok :: "'w tool_task \<Rightarrow> bool" where
  "task_ok (TaskNew p) = tool_respects rel (pt_tool p)"
| "task_ok (TaskUpdating p us r) = tool_respects rel (pt_tool p)"
| "task_ok TaskDone = True"

lemma along_complete_task:
  assumes "env_respects rel env" and "config_respects rel cfg"
  shows "along_any (complete_task env cfg assistant p r)"
  unfolding complete_task_def
  by (intro along_bnd [where P = "\<lambda>_. True"] along_thn [where P = "\<lambda>_. True"] along_finish_tool
      along_tool_events assms) simp_all

lemma along_step_task:
  assumes "env_respects rel env" and "config_respects rel cfg" and "task_ok t"
  shows "along (\<lambda>r. task_ok (fst r)) (step_task env cfg assistant t)"
  using assms(3)
proof (cases t rule: task_ok.cases)
  case (1 p)
  with assms(3) show ?thesis by (auto intro!: along_bnd [OF along_start_tool])
next
  case (2 p us r)
  then show ?thesis
  proof (cases us)
    case Nil
    with 2 show ?thesis by (auto intro!: along_bnd [OF along_complete_task] assms)
  next
    case (Cons u us')
    with 2 assms(3) show ?thesis
      by (auto simp: emit_update_def intro!: along_thn [OF along_emit] assms)
  qed
qed simp

lemma along_finish_task:
  assumes "env_respects rel env" and "config_respects rel cfg" and "task_ok t"
  shows "along_any (finish_task env cfg assistant t)"
  using assms(3)
  by (cases t rule: task_ok.cases)
     (auto intro!: along_bnd [OF along_start_tool] along_thn [OF along_updates] along_complete_task assms)

lemma along_finish_tasks:
  assumes "env_respects rel env" and "config_respects rel cfg" and "\<forall>t \<in> set ts. task_ok t"
  shows "along_any (finish_tasks env cfg assistant ts)"
  using assms(3)
  by (induction ts) (auto intro!: along_bnd [where P = "\<lambda>_. True"] along_finish_task assms)

lemma along_run_tasks:
  assumes "env_respects rel env" and "config_respects rel cfg" and "\<forall>t \<in> set ts. task_ok t"
  shows "along_any (run_tasks env cfg assistant ks ts)"
  using assms(3)
proof (induction ks arbitrary: ts)
  case Nil
  then show ?case by (simp add: along_finish_tasks assms)
next
  case (Cons k ks)
  show ?case
  proof (cases "k < length ts")
    case True
    then have step: "along (\<lambda>r. task_ok (fst r)) (step_task env cfg assistant (ts ! k))"
      using Cons.prems by (intro along_step_task assms) simp
    have "\<forall>t \<in> set (ts[k := t']). task_ok t" if "task_ok t'" for t'
      using Cons.prems that set_update_subset_insert [of ts k t'] by blast
    then show ?thesis using True Cons.IH
      by (auto intro!: along_bnd [OF step] along_bnd [where P = "\<lambda>_. True"])
  qed (use Cons in simp)
qed

lemma along_parallel_batch:
  assumes "env_respects rel env" and "config_respects rel cfg"
  shows "along_any (parallel_batch env cfg assistant cs)"
  unfolding parallel_batch_def Let_def
  by (rule along_bnd [OF along_prepare_all [OF assms]], rule along_bnd [where P = "\<lambda>_. True"])
     (auto intro!: along_bnd [where P = "\<lambda>_. True"] along_run_tasks along_record_outcomes assms along_read)

lemma along_execute_tool_batch:
  assumes "env_respects rel env" and "config_respects rel cfg"
  shows "along_any (execute_tool_batch env cfg assistant cs)"
  unfolding execute_tool_batch_def
  by (intro along_if along_truncated_batch along_bnd [where P = "\<lambda>_. True"] along_read assms)
     (auto intro!: along_sequential_batch along_parallel_batch assms split: execution_mode.split)

end

end
