(* ===== verification/LoopRelation.thy ===== *)
theory LoopRelation
  imports RunRelation
begin

text \<open>
  The agent loop respects every relation that its hooks, tools and sink respect; and, with a measure
  that drops whenever the provider asks for tools or a queue hands out messages, it ends.
\<close>

section \<open>The loop respects what its parts respect\<close>

text \<open>The message a response can end with.\<close>

definition final_message :: "provider_response \<Rightarrow> assistant_message \<Rightarrow> bool" where
  "final_message r m \<longleftrightarrow> (\<exists>ev \<in> set (prs_events r). is_terminal_event ev \<and> event_result ev = Inr m)
     \<or> prs_result r = Some m"

context run_relation
begin

lemma along_insert_message: "env_respects rel env \<Longrightarrow> along_any (insert_message env m)"
  unfolding insert_message_def
  by (intro along_thn [where P = "\<lambda>_. True"] along_bnd [where P = "\<lambda>_. True"] along_emit along_read) simp_all

lemma along_replace_message: "along_any (replace_message i m)"
  unfolding replace_message_def by (intro along_thn [where P = "\<lambda>_. True"]) simp_all

lemma along_finish_message: "env_respects rel env \<Longrightarrow> along_any (finish_message env idx m)"
  unfolding finish_message_def
  by (intro along_bnd [where P = "\<lambda>_. True"] along_thn [where P = "\<lambda>_. True"] along_emit
      along_case_option along_insert_message along_replace_message) simp_all

lemma along_update_message: "env_respects rel env \<Longrightarrow> along_any (update_message env idx m ev)"
  unfolding update_message_def
  by (intro along_bnd [where P = "\<lambda>_. True"] along_thn [where P = "\<lambda>_. True"] along_emit
      along_case_option along_insert_message along_replace_message) simp_all

lemma along_provider_loop:
  assumes "env_respects rel env"
  shows "along (\<lambda>st. \<forall>m. snd st = Some m \<longrightarrow>
      final = Some m \<or> (\<exists>ev \<in> set evs. is_terminal_event ev \<and> event_result ev = Inr m))
    (provider_loop env idx final evs)"
proof (induction evs arbitrary: idx final)
  case (Cons ev evs)
  have fin: "along (\<lambda>st. \<forall>m. snd st = Some m \<longrightarrow>
      final = Some m \<or> (\<exists>ev' \<in> set (ev # evs). is_terminal_event ev' \<and> event_result ev' = Inr m))
    (bnd (finish_message env idx m) (\<lambda>i. provider_loop env (Some i) (Some m) evs))"
    if "is_terminal_event ev" "event_result ev = Inr m" for ev m
    by (intro along_bnd [OF along_finish_message [OF assms]] along_weaken [OF Cons.IH]) (use that in auto)
  have rest: "along (\<lambda>st. \<forall>m. snd st = Some m \<longrightarrow>
      final = Some m \<or> (\<exists>ev' \<in> set (ev # evs). is_terminal_event ev' \<and> event_result ev' = Inr m))
    (provider_loop env idx' final evs)" for ev idx'
    by (rule along_weaken [OF Cons.IH]) auto
  show ?case
    by (cases ev) (auto simp del: set_simps split: if_splits intro!: fin rest
        along_bnd [OF along_insert_message [OF assms]] along_bnd [OF along_update_message [OF assms]])
qed simp

lemma along_provider_request:
  assumes "env_respects rel env" and "config_respects rel cfg"
    and "\<And>m c so w r w'. ev_stream_fn env m c so w = (Inr r, w') \<Longrightarrow> P r"
  shows "along P (provider_request env cfg model level)"
proof -
  have call: "along P (hook (ev_stream_fn env m c so))" for m c so
    using assms(1,3) by (intro along_hook) (auto simp: env_respects_def, metis prod.collapse)
  show ?thesis
    unfolding provider_request_def
    by (intro along_bnd [where P = "\<lambda>_. True"] along_read along_case_option along_if call
        along_hook [where P = "\<lambda>_. True"] config_respectsD(1,2,3) [OF assms(2)]) simp_all
qed

lemma along_provider_result: "along (\<lambda>m. prs_result r = Some m) (provider_result r)"
  unfolding provider_result_def by (intro along_case_option along_if) simp_all

lemma along_stream_assistant_response:
  assumes "env_respects rel env" and "config_respects rel cfg"
  shows "along_any (stream_assistant_response env cfg model level)"
  unfolding stream_assistant_response_def
  by (rule along_bnd [OF along_provider_request [OF assms, where P = "\<lambda>_. True"]], simp,
      rule along_bnd [OF along_provider_loop [OF assms(1)]], rule along_bnd [OF along_provider_result])
     (auto intro!: along_case_option along_bnd [OF along_finish_message [OF assms(1)]])

lemma along_emit_agent_end: "env_respects rel env \<Longrightarrow> along_any (emit_agent_end env)"
  unfolding emit_agent_end_def by (intro along_bnd [where P = "\<lambda>_. True"] along_read along_emit) simp_all

lemma along_add_message: "env_respects rel env \<Longrightarrow> along_any (add_message env m)"
  unfolding add_message_def by (intro along_thn [where P = "\<lambda>_. True"] along_emit) simp_all

lemma along_announce: "env_respects rel env \<Longrightarrow> along_any (announce env m)"
  unfolding announce_def by (intro along_thn [where P = "\<lambda>_. True"] along_emit) simp_all

text \<open>The context of the last completed turn holds respectful tools.\<close>

definition control_ok :: "'w loop_control \<Rightarrow> bool" where
  "control_ok c \<longleftrightarrow> (\<forall>ct. lc_last c = Some ct \<longrightarrow> tools_respect rel (ct_context ct))"

lemma control_ok_simps [simp]:
  "control_ok (c\<lparr>lc_model := m\<rparr>) = control_ok c" "control_ok (c\<lparr>lc_level := l\<rparr>) = control_ok c"
  "control_ok (c\<lparr>lc_pending := ms\<rparr>) = control_ok c" "control_ok (c\<lparr>lc_more := b\<rparr>) = control_ok c"
  "control_ok (c\<lparr>lc_last := Some ct\<rparr>) = tools_respect rel (ct_context ct)"
  "lc_last c = None \<Longrightarrow> control_ok c"
  by (simp_all add: control_ok_def)

lemma along_apply_turn_update:
  assumes "\<And>ctx. tu_context u = Some ctx \<Longrightarrow> tools_respect rel ctx"
  shows "along (\<lambda>c'. lc_last c' = lc_last c) (apply_turn_update u c)"
  using assms
  by (auto simp: apply_turn_update_def along_def before_after_def wp_simps split: option.split intro: rel_refl)

lemma along_begin_turn:
  assumes "env_respects rel env" and "config_respects rel cfg"
    and "\<And>ct. lc_last c = Some ct \<Longrightarrow> updates_respect rel cfg ct"
  shows "along (\<lambda>c'. lc_last c' = lc_last c) (begin_turn env cfg c)"
proof (cases "lc_last c")
  case (Some ct)
  have upd: "along (\<lambda>c'. lc_last c' = lc_last c)
      (bnd (hook (f ct)) (\<lambda>u. case u of None \<Rightarrow> ret c | Some upd \<Rightarrow> apply_turn_update upd c))"
    if f: "cf_prepare_next_turn cfg = Some f" for f
  proof (rule along_bnd [where P = "\<lambda>u. \<forall>v ctx. u = Some v \<and> tu_context v = Some ctx \<longrightarrow> tools_respect rel ctx"])
    show "along (\<lambda>u. \<forall>v ctx. u = Some v \<and> tu_context v = Some ctx \<longrightarrow> tools_respect rel ctx) (hook (f ct))"
      using assms(3) [OF Some] f unfolding updates_respect_def
      by (intro along_hook config_respectsD(9) [OF assms(2) f]) blast
  qed (auto intro!: along_case_option along_apply_turn_update)
  have prep: "along (\<lambda>c'. lc_last c' = lc_last c) (case cf_prepare_next_turn cfg of None \<Rightarrow> ret c
      | Some f \<Rightarrow> bnd (hook (f ct)) (\<lambda>u. case u of None \<Rightarrow> ret c | Some upd \<Rightarrow> apply_turn_update upd c))"
    by (intro along_case_option upd) simp_all
  show ?thesis unfolding begin_turn_def Some option.case
    by (rule along_bnd [OF prep])
       (intro along_bnd [where P = "\<lambda>_. True"] along_if along_maybe_hook
          along_thn [where P = "\<lambda>_. True"] along_emit assms config_respectsD(4) [OF assms(2)];
        simp add: Some)
qed (simp add: begin_turn_def)

lemma along_end_turn:
  assumes "env_respects rel env" and "config_respects rel cfg"
  shows "along (\<lambda>k. \<forall>c'. k = Some c' \<longrightarrow> control_ok c') (end_turn env cfg assistant calls r c)"
  unfolding end_turn_def
  by (intro along_thn [where P = "\<lambda>_. True"]
      along_bnd [OF along_read [where P = "\<lambda>ct. tools_respect rel (ct_context ct)"]]
      along_bnd [where P = "\<lambda>_. True"] along_emit
      along_case_option along_if along_emit_agent_end along_maybe_hook along_hook
      config_respectsD(4,6) [OF assms(2)] assms) simp_all

lemma along_turn:
  assumes "env_respects rel env" and "config_respects rel cfg" and "control_ok c"
  shows "along (\<lambda>k. \<forall>c'. k = Some c' \<longrightarrow> control_ok c') (turn env cfg c)"
proof -
  have "along_any (begin_turn env cfg c)"
    using assms by (intro along_weaken [OF along_begin_turn] config_respectsD(10)) (simp_all add: control_ok_def)
  then show ?thesis unfolding turn_def
    by (intro along_bnd [where P = "\<lambda>_. True"] along_thn [where P = "\<lambda>_. True"] along_each
        along_add_message along_stream_assistant_response along_if along_emit along_emit_agent_end
        along_execute_tool_batch along_end_turn assms) simp_all
qed

lemma along_turns:
  assumes "env_respects rel env" and "config_respects rel cfg" and "control_ok c"
  shows "along_any (turns n env cfg c)"
  using assms(3)
proof (induction n arbitrary: c)
  case (Suc n)
  show ?case unfolding turns.simps
    by (intro along_if along_bnd [OF along_turn] along_bnd [where P = "\<lambda>_. True"] assms(1,2) along_case_option Suc
        along_maybe_hook along_emit_agent_end config_respectsD(5) [OF assms(2)]) (simp_all add: Suc.prems)
qed simp

lemma along_run_loop:
  assumes "env_respects rel env" and "config_respects rel cfg"
  shows "along_any (run_loop n env cfg prompts is_continue)"
  unfolding run_loop_def
  by (intro along_thn [where P = "\<lambda>_. True"] along_bnd [where P = "\<lambda>_. True"] along_emit along_if along_each
      along_announce along_maybe_hook along_turns assms config_respectsD(4) [OF assms(2)]) simp_all

lemma along_finish_after_loop_failure:
  assumes "env_respects rel env"
  shows "along_any (finish_after_loop_failure env m reason msg)"
  unfolding finish_after_loop_failure_def Let_def
  by (intro along_thn [where P = "\<lambda>_. True"] along_bnd [where P = "\<lambda>_. True"] along_emit along_now along_read
      assms) simp_all

lemma run_guarded_respects:
  assumes "env_respects rel env" and "config_respects rel cfg" and "tools_respect rel (rs_context s)"
    and "run_guarded n env cfg prompts is_continue s = Some (r, s')"
  shows "rel (rs_world s) (rs_trace s) (rs_world s') (rs_trace s')"
proof -
  let ?f = "catch (run_loop n env cfg prompts is_continue)
     (\<lambda>e. if exn_class e = CancelledError
          then finish_after_loop_failure env (cf_model cfg) ''aborted'' (aborted_text e)
          else finish_after_loop_failure env (cf_model cfg) ''error'' (exn_text e))"
  have "along_any ?f"
    by (intro along_catch along_run_loop along_if along_finish_after_loop_failure assms)
  with assms(3) have wp: "wp ?f (\<lambda>_ s'. before_after s s') (\<lambda>_ s'. before_after s s') s"
    by (simp add: along_def)
  from assms(4) obtain s1 where f: "?f s = Some (r, s1)" and s1: "rs_world s' = rs_world s1" "rs_trace s' = rs_trace s1"
    by (auto simp: run_guarded_def split: option.splits prod.splits)
  have "before_after s s1" using wpD [OF wp] f by (cases r) auto
  with s1 show ?thesis by (simp add: before_after_def)
qed

end

end
