(* ===== verification/QuietRuns.thy ===== *)
theory QuietRuns
  imports AgentLoopCorrect
begin

text \<open>
  A run that does not fail behaves as with an event sink that cannot raise.  The guarantees of a
  clean run, proved for quiet sinks, thereby hold for every sink.
\<close>

section \<open>Agreeing on what returns normally\<close>

definition hush :: "'w environment \<Rightarrow> 'w environment" where
  "hush env = env\<lparr>ev_sink := map_option (\<lambda>sink ev w. (Inr (), snd (sink ev w))) (ev_sink env)\<rparr>"

lemma hush_fields [simp]:
  "ev_cancelled (hush env) = ev_cancelled env" "ev_clock (hush env) = ev_clock env"
  "ev_schedule (hush env) = ev_schedule env" "ev_re_search (hush env) = ev_re_search env"
  "ev_stream_fn (hush env) = ev_stream_fn env"
  by (simp_all add: hush_def)

lemma hush_quiet: "quiet_sink (hush env)"
  by (simp add: quiet_sink_def hush_def split: option.split)

lemma hush_provider: "well_formed_provider (hush env) = well_formed_provider env"
  by (simp add: well_formed_provider_def)

definition agrees :: "('s, 'a) prog \<Rightarrow> ('s, 'a) prog \<Rightarrow> bool" where
  "agrees f f' \<longleftrightarrow> (\<forall>s x s'. f s = Some (Inr x, s') \<longrightarrow> f' s = Some (Inr x, s'))"

lemma agrees_refl [simp]: "agrees f f"
  by (simp add: agrees_def)

lemma agrees_bnd: "agrees f f' \<Longrightarrow> (\<And>x. agrees (g x) (g' x)) \<Longrightarrow> agrees (bnd f g) (bnd f' g')"
  unfolding agrees_def bnd_def by (fastforce split: option.splits sum.splits prod.splits)

lemma agrees_thn: "agrees f f' \<Longrightarrow> agrees g g' \<Longrightarrow> agrees (thn f g) (thn f' g')"
  unfolding thn_def by (rule agrees_bnd)

lemma agrees_each: "(\<And>x. agrees (f x) (f' x)) \<Longrightarrow> agrees (each f xs) (each f' xs)"
  by (induction xs) (auto intro: agrees_thn)

lemma agrees_cases:
  "(\<And>x. agrees (f x) (f' x)) \<Longrightarrow> agrees g g' \<Longrightarrow>
     agrees (case v of None \<Rightarrow> g | Some x \<Rightarrow> f x) (case v of None \<Rightarrow> g' | Some x \<Rightarrow> f' x)"
  "(\<And>x. agrees (h x) (h' x)) \<Longrightarrow> (\<And>y. agrees (k y) (k' y)) \<Longrightarrow>
     agrees (case r of Inl x \<Rightarrow> h x | Inr y \<Rightarrow> k y) (case r of Inl x \<Rightarrow> h' x | Inr y \<Rightarrow> k' y)"
  "agrees a a' \<Longrightarrow> agrees b b' \<Longrightarrow> agrees (if c then a else b) (if c then a' else b')"
  by (auto split: option.split sum.split)

lemmas agrees_intros = agrees_bnd agrees_thn agrees_each agrees_cases

lemma agrees_emit: "agrees (emit env ev) (emit (hush env) ev)"
  by (auto simp: agrees_def emit_def hush_def Let_def split: option.split prod.split sum.split)

section \<open>The loop agrees with itself under a quiet sink\<close>

lemma hush_eqs [simp]:
  "now (hush env) = now env" "raise_if_cancelled (hush env) = raise_if_cancelled env"
  "cancelled (hush env) = cancelled env"
  by (simp_all add: fun_eq_iff now_def raise_if_cancelled_def cancelled_def)

lemma hush_programs [simp]:
  "prepare_tool_call (hush env) cfg a i c = prepare_tool_call env cfg a i c"
  "start_tool (hush env) p = start_tool env p"
  "provider_request (hush env) cfg m l = provider_request env cfg m l"
  unfolding prepare_tool_call_def prepared_arguments_def start_tool_def [abs_def] provider_request_def
    hush_fields hush_eqs by (rule refl)+

lemma agrees_tool_events:
  "agrees (emit_tool_start env c) (emit_tool_start (hush env) c)"
  "agrees (emit_tool_end env oc) (emit_tool_end (hush env) oc)"
  "agrees (emit_update env p u) (emit_update (hush env) p u)"
  by (simp_all add: emit_tool_start_def emit_tool_end_def emit_update_def agrees_emit)

lemma agrees_record:
  "agrees (record_outcome env oc) (record_outcome (hush env) oc)"
  "agrees (record_outcomes env ocs) (record_outcomes (hush env) ocs)"
proof -
  show one: "agrees (record_outcome env oc) (record_outcome (hush env) oc)" for oc
    unfolding record_outcome_def emit_tool_result_message_def Let_def
    by (intro agrees_intros agrees_emit; simp)
  show "agrees (record_outcomes env ocs) (record_outcomes (hush env) ocs)"
    by (induction ocs) (auto intro!: agrees_intros one)
qed

lemma agrees_tasks:
  "agrees (complete_task env cfg a p r) (complete_task (hush env) cfg a p r)"
  "agrees (step_task env cfg a t) (step_task (hush env) cfg a t)"
  "agrees (finish_task env cfg a t) (finish_task (hush env) cfg a t)"
proof -
  show complete: "agrees (complete_task env cfg a p r) (complete_task (hush env) cfg a p r)" for p r
    unfolding complete_task_def by (intro agrees_intros agrees_tool_events; simp)
  show "agrees (step_task env cfg a t) (step_task (hush env) cfg a t)"
    by (cases "(env, cfg, a, t)" rule: step_task.cases) (auto intro!: agrees_intros agrees_tool_events complete)
  show "agrees (finish_task env cfg a t) (finish_task (hush env) cfg a t)"
    by (cases t) (auto intro!: agrees_intros agrees_tool_events complete)
qed

lemma agrees_run_tasks: "agrees (run_tasks env cfg a ks ts) (run_tasks (hush env) cfg a ks ts)"
proof (induction ks arbitrary: ts)
  case Nil
  have "agrees (finish_tasks env cfg a us) (finish_tasks (hush env) cfg a us)" for us
    by (induction us) (auto intro!: agrees_intros agrees_tasks)
  then show ?case by simp
qed (auto intro!: agrees_intros agrees_tasks)

lemma agrees_batch: "agrees (execute_tool_batch env cfg a calls) (execute_tool_batch (hush env) cfg a calls)"
proof -
  have truncated: "agrees (truncated_batch env i cs) (truncated_batch (hush env) i cs)" for i cs
    by (induction cs arbitrary: i) (auto simp: Let_def intro!: agrees_intros agrees_record agrees_tool_events)
  have run: "agrees (prepare_and_run env cfg a i c) (prepare_and_run (hush env) cfg a i c)" for i c
    unfolding prepare_and_run_def run_prepared_tool_def
    by (simp, intro agrees_intros agrees_tool_events; simp)
  have sequential: "agrees (sequential_batch env cfg a i cs) (sequential_batch (hush env) cfg a i cs)" for i cs
    by (induction cs arbitrary: i) (auto intro!: agrees_intros agrees_record agrees_tool_events run)
  have "agrees (prepare_all env cfg a i cs) (prepare_all (hush env) cfg a i cs)" for i cs
    by (induction cs arbitrary: i) (auto intro!: agrees_intros agrees_tool_events)
  then have "agrees (parallel_batch env cfg a calls) (parallel_batch (hush env) cfg a calls)"
    unfolding parallel_batch_def Let_def by (intro agrees_intros agrees_run_tasks agrees_record; simp)
  with truncated sequential show ?thesis unfolding execute_tool_batch_def
    by (auto intro!: agrees_intros split: execution_mode.split)
qed

lemma agrees_messages:
  "agrees (insert_message env m) (insert_message (hush env) m)"
  "agrees (finish_message env idx m) (finish_message (hush env) idx m)"
  "agrees (update_message env idx m ev) (update_message (hush env) idx m ev)"
proof -
  show insert: "agrees (insert_message env m) (insert_message (hush env) m)" for m
    unfolding insert_message_def by (intro agrees_intros agrees_emit; simp)
  show "agrees (finish_message env idx m) (finish_message (hush env) idx m)"
    unfolding finish_message_def by (intro agrees_intros agrees_emit insert; simp)
  show "agrees (update_message env idx m ev) (update_message (hush env) idx m ev)"
    unfolding update_message_def by (intro agrees_intros agrees_emit insert; simp)
qed

lemma agrees_response:
  "agrees (stream_assistant_response env cfg m l) (stream_assistant_response (hush env) cfg m l)"
proof -
  have "agrees (provider_loop env idx final evs) (provider_loop (hush env) idx final evs)" for idx final evs
    by (induction evs arbitrary: idx final)
       (auto intro!: agrees_intros agrees_messages split: assistant_event.split)
  then show ?thesis unfolding stream_assistant_response_def
    by (simp, intro agrees_intros agrees_messages; simp)
qed

lemma agrees_turn: "agrees (turn env cfg c) (turn (hush env) cfg c)"
proof -
  have agent_end: "agrees (emit_agent_end env) (emit_agent_end (hush env))"
    unfolding emit_agent_end_def by (intro agrees_intros agrees_emit; simp)
  have add: "agrees (add_message env m) (add_message (hush env) m)" for m
    unfolding add_message_def by (intro agrees_intros agrees_emit; simp)
  have begin_: "agrees (begin_turn env cfg c) (begin_turn (hush env) cfg c)"
    unfolding begin_turn_def by (intro agrees_intros agrees_emit; simp)
  have end_: "agrees (end_turn env cfg a calls r c) (end_turn (hush env) cfg a calls r c)" for a calls r c
    unfolding end_turn_def by (intro agrees_intros agrees_emit agent_end; simp)
  show ?thesis unfolding turn_def
    by (simp, intro agrees_intros begin_ add end_ agrees_emit agent_end agrees_response agrees_batch; simp)
qed

lemma agrees_run_loop: "agrees (run_loop n env cfg ps b) (run_loop n (hush env) cfg ps b)"
proof -
  have agent_end: "agrees (emit_agent_end env) (emit_agent_end (hush env))"
    unfolding emit_agent_end_def by (intro agrees_intros agrees_emit; simp)
  have "agrees (turns n env cfg c) (turns n (hush env) cfg c)" for c
    by (induction n arbitrary: c) (auto intro!: agrees_intros agrees_turn agent_end)
  moreover have "agrees (announce env m) (announce (hush env) m)" for m
    unfolding announce_def by (intro agrees_intros agrees_emit)
  ultimately show ?thesis unfolding run_loop_def
    by (intro agrees_intros agrees_emit; simp)
qed

section \<open>A clean run, whatever the sink\<close>

lemma clean_run:
  assumes "well_formed_provider env"
    and "run_loop n env cfg prompts False (start_state w ctx prompts prompts) = Some (Inr (), s')"
  shows "ended_messages (rs_trace s') = rs_new s'" and "take (length prompts) (rs_new s') = prompts"
    and "es_result (rs_stream s') = Some (rs_new s')"
proof -
  let ?s = "start_state w ctx prompts prompts"
  have run: "run_loop n (hush env) cfg prompts False ?s = Some (Inr (), s')"
    using agrees_run_loop assms(2) unfolding agrees_def by blast
  have open_: "rs_trace ?s = []" "stream_open (rs_stream ?s)"
    by (simp_all add: start_state_def stream_open_def new_stream_def)
  have wf: "well_formed_provider (hush env)" using assms(1) by (simp add: hush_provider)
  obtain t where t: "rs_trace t = [AgentStartEvent, TurnStartEvent]" "rs_new t = rs_new ?s"
      "stream_open (rs_stream t)" "run_end (keeps_context cfg) prompts t s'"
    using wpD(1) [OF run_loop_wp [OF hush_quiet wf open_] run] by auto
  then obtain mid ms where m: "rs_trace s' = rs_trace t @ mid @ [AgentEndEvent (rs_new s')]"
      "ended_messages mid = prompts @ ms" "rs_new s' = rs_new t @ ms"
      "es_result (rs_stream s') = Some (rs_new s')"
    unfolding run_end_def by blast
  show "ended_messages (rs_trace s') = rs_new s'" "take (length prompts) (rs_new s') = prompts"
    "es_result (rs_stream s') = Some (rs_new s')"
    using t(1,2) m by (auto simp: start_state_def)
qed

end
