(* ===== verification/AgentCorrect.thy ===== *)
theory AgentCorrect
  imports Agent LoopRelation QuietRuns
begin

text \<open>
  What the stateful agent guarantees: its transcript is the old one extended by the messages the run
  announced, and it is idle again after a run, however the run ended; and where it does not keep a
  message.
\<close>

section \<open>Hooks that leave the transcript alone\<close>

text \<open>Hooks, tools and listeners are clients of the agent: they may steer, queue, abort and subscribe,
  but the transcript and the active signal are the agent's.\<close>

definition leaves_transcript :: "'u agent_live world_rel" where
  "leaves_transcript w t w' t' \<longleftrightarrow> ag_messages w' = ag_messages w \<and> (ag_signal w \<noteq> None \<longrightarrow> ag_signal w' \<noteq> None)"

definition transcript_safe :: "'u live_setup \<Rightarrow> bool" where
  "transcript_safe su \<longleftrightarrow>
     (\<forall>m c so. hook_respects leaves_transcript (ev_stream_fn (su_env su) m c so)) \<and>
     hook_respects leaves_transcript (\<lambda>w. (Inr (), snd (ev_clock (su_env su) w))) \<and>
     config_respects leaves_transcript (su_config su) \<and>
     (\<forall>ct. updates_respect leaves_transcript (su_config su) ct) \<and>
     (\<forall>tool \<in> set (su_tools su). tool_respects leaves_transcript tool) \<and>
     (\<forall>l ev. hook_respects leaves_transcript (su_listener su l ev))"

text \<open>The transcript mirrors the events: it grew by the messages that ended.\<close>

definition mirrors :: "'u agent_live world_rel" where
  "mirrors w t w' t' \<longleftrightarrow> (ag_signal w \<noteq> None \<longrightarrow> ag_signal w' \<noteq> None \<and>
     (\<exists>ms. ended_messages t' = ended_messages t @ ms \<and> ag_messages w' = ag_messages w @ ms))"

interpretation transcript: run_relation mirrors
proof unfold_locales
  show "mirrors w t w t" for w :: "'u agent_live" and t by (simp add: mirrors_def)
next
  fix w w' w'' :: "'u agent_live" and t t' t''
  assume "mirrors w t w' t'" and "mirrors w' t' w'' t''"
  then show "mirrors w t w'' t''" unfolding mirrors_def by (metis append.assoc)
qed

lemma hook_mono:
  "\<forall>w t w'. rel w t w' t \<longrightarrow> rel' w t w' t \<Longrightarrow> hook_respects rel h \<Longrightarrow> hook_respects rel' h"
  by (simp add: hook_respects_def)

lemma respects_mono:
  assumes "\<forall>w t w'. rel w t w' t \<longrightarrow> rel' w t w' t"
  shows "tool_respects rel tool \<Longrightarrow> tool_respects rel' tool"
    and "tools_respect rel ctx \<Longrightarrow> tools_respect rel' ctx"
    and "(\<And>ct. updates_respect rel cfg ct) \<Longrightarrow> updates_respect rel' cfg ct"
    and "config_respects rel cfg \<Longrightarrow> (\<And>ct. updates_respect rel cfg ct) \<Longrightarrow> config_respects rel' cfg"
proof -
  note hook = hook_mono [of rel rel', OF assms]
  show tool: "tool_respects rel tool \<Longrightarrow> tool_respects rel' tool" for tool
    unfolding tool_respects_def using assms by (blast intro: hook)
  then show tools: "tools_respect rel ctx \<Longrightarrow> tools_respect rel' ctx" for ctx
    by (simp add: tools_respect_def)
  then show updates: "(\<And>ct. updates_respect rel cfg ct) \<Longrightarrow> updates_respect rel' cfg ct" for ct
    unfolding updates_respect_def by blast
  assume cfg: "config_respects rel cfg" and u: "\<And>ct. updates_respect rel cfg ct"
  note d = config_respectsD [OF cfg]
  show "config_respects rel' cfg" unfolding config_respects_def
    by (intro conjI allI impI)
       (rule hook, rule d(1) | rule hook, erule d(2-9) | rule updates, rule u)+
qed

lemma leaves_mirrors: "\<forall>w t w'. leaves_transcript w t w' t \<longrightarrow> mirrors w t w' t"
  by (simp add: leaves_transcript_def mirrors_def)

lemmas leaves_to_mirrors = hook_mono [of leaves_transcript mirrors, OF leaves_mirrors]
  respects_mono [of leaves_transcript mirrors, OF leaves_mirrors]

section \<open>The agent's own hooks\<close>

lemma apply_event_messages:
  "ag_messages (apply_event ev w) = ag_messages w @ ended_message ev"
  "ag_signal (apply_event ev w) = ag_signal w"
  by (cases "(ev, w)" rule: apply_event.cases; simp add: Let_def split: option.split)+

lemma dispatch_leaves:
  assumes "\<And>l ev. hook_respects leaves_transcript (listener l ev)"
  shows "leaves_transcript w t (snd (dispatch listener ev ls w)) t"
proof (induction ls arbitrary: w)
  case (Cons l ls)
  obtain r w' where l: "listener l ev w = (r, w')" by (cases "listener l ev w")
  have "leaves_transcript w t w' t" using assms [of l ev] l unfolding hook_respects_def by (metis snd_conv)
  with l Cons [of w'] Cons [of "w'\<lparr>ag_listener_errors := ag_listener_errors w' @ [x]\<rparr>" for x] show ?case
    by (auto simp: leaves_transcript_def split: sum.split)
qed (simp add: leaves_transcript_def)

lemma process_event_mirrors:
  assumes "transcript_safe su"
  shows "mirrors w t (snd (process_event su ev w)) (t @ [ev])"
proof (cases "ag_signal w")
  case (Some sig)
  have "leaves_transcript (apply_event ev w) t
     (snd (dispatch (su_listener su) ev (ag_listeners (apply_event ev w)) (apply_event ev w))) t"
    by (rule dispatch_leaves) (use assms in \<open>simp add: transcript_safe_def\<close>)
  with Some show ?thesis
    by (simp add: process_event_def Let_def mirrors_def leaves_transcript_def apply_event_messages)
qed (simp add: mirrors_def)

lemma with_external_leaves:
  assumes "\<And>h. ext = Some h \<Longrightarrow> hook_respects leaves_transcript h"
  shows "leaves_transcript w t (snd (with_external ext ms w)) t"
proof (cases ext)
  case (Some h)
  with assms have "leaves_transcript w t (snd (h w)) t" by (simp add: hook_respects_def)
  with Some show ?thesis by (auto simp: with_external_def split: prod.split sum.split)
qed (simp add: with_external_def leaves_transcript_def)

lemma drains_leave:
  assumes "transcript_safe su"
  shows "hook_respects leaves_transcript (drain_steering su)" "hook_respects leaves_transcript (drain_follow_up su)"
proof -
  have cfg: "config_respects leaves_transcript (su_config su)" using assms by (simp add: transcript_safe_def)
  have "leaves_transcript w t (snd (with_external (cf_get_steering_messages (su_config su)) ms (w\<lparr>ag_steering := q\<rparr>))) t"
    "leaves_transcript w t (snd (with_external (cf_get_follow_up_messages (su_config su)) ms (w\<lparr>ag_follow_up := q\<rparr>))) t"
    for w t ms q
    using with_external_leaves [OF config_respectsD(4) [OF cfg], where w = "w\<lparr>ag_steering := q\<rparr>"]
      with_external_leaves [OF config_respectsD(5) [OF cfg], where w = "w\<lparr>ag_follow_up := q\<rparr>"]
    by (simp_all add: leaves_transcript_def)
  then show "hook_respects leaves_transcript (drain_steering su)" "hook_respects leaves_transcript (drain_follow_up su)"
    by (simp_all add: hook_respects_def drain_steering_def drain_follow_up_def case_prod_beta)
qed

lemma run_respects:
  assumes "transcript_safe su"
  shows "env_respects mirrors (run_environment su)" "config_respects mirrors (run_config su)"
    "tools_respect mirrors (run_context su w)"
proof -
  have safe: "hook_respects leaves_transcript (ev_stream_fn (su_env su) m c so)"
    "hook_respects leaves_transcript (\<lambda>w. (Inr (), snd (ev_clock (su_env su) w)))"
    "config_respects leaves_transcript (su_config su)" "updates_respect leaves_transcript (su_config su) ct"
    "\<forall>tool \<in> set (su_tools su). tool_respects leaves_transcript tool" for m c so ct
    using assms by (simp_all add: transcript_safe_def)
  have "mirrors w t (snd (ev_clock (su_env su) w)) t" for w t
    using safe(2) by (simp add: hook_respects_def leaves_mirrors)
  with leaves_to_mirrors(1) [OF safe(1)] show "env_respects mirrors (run_environment su)"
    by (simp add: env_respects_def run_environment_def sink_world_def process_event_mirrors [OF assms])
  have "config_respects leaves_transcript (run_config su)"
    using safe(3) drains_leave [OF assms] by (simp add: config_respects_def updates_respect_def run_config_def)
  moreover have "updates_respect leaves_transcript (run_config su) ct" for ct
    using safe(4) [of ct] by (simp add: updates_respect_def run_config_def)
  ultimately show "config_respects mirrors (run_config su)" by (rule leaves_to_mirrors(5))
  show "tools_respect mirrors (run_context su w)"
    using safe(5) leaves_to_mirrors(2) by (auto simp: tools_respect_def run_context_def)
qed

section \<open>Runs of the agent\<close>

definition agent_run where
  "agent_run fuel su prompts w =
     agent_loop fuel (run_environment su) (run_config su) prompts (run_context su (enter_run w)) (enter_run w)"

lemma start_run_cases:
  assumes "start_run fuel su prompts False w = Some (Inr ms, w')"
  obtains r s where "\<not> ag_is_streaming w" "agent_run fuel su prompts w = Some (r, s)"
    "es_result (rs_stream s) = Some ms" "w' = leave_run (rs_world s)"
  using assms
  by (auto simp: start_run_def Let_def await_run_def awaited_result_def agent_run_def enter_run_def
      split: if_splits option.splits prod.splits)

lemma agent_run_mirrors:
  assumes "transcript_safe su" and "agent_run fuel su prompts w = Some (r, s)"
  shows "ag_messages (rs_world s) = ag_messages w @ ended_messages (rs_trace s)"
proof -
  have "mirrors (rs_world (start_state (enter_run w) (run_context su (enter_run w)) prompts prompts))
     (rs_trace (start_state (enter_run w) (run_context su (enter_run w)) prompts prompts)) (rs_world s) (rs_trace s)"
    by (rule transcript.run_guarded_respects [OF run_respects(1,2) [OF assms(1)]])
       (use assms run_respects(3) [OF assms(1)] in \<open>auto simp: agent_run_def agent_loop_def start_state_def tools_respect_def\<close>)
  then show ?thesis by (auto simp: mirrors_def start_state_def enter_run_def)
qed

text \<open>The loop of a run that does not fail.\<close>

definition run_succeeds where
  "run_succeeds fuel su prompts w s \<longleftrightarrow>
     run_loop fuel (run_environment su) (run_config su) prompts False
       (start_state (enter_run w) (run_context su (enter_run w)) prompts prompts) = Some (Inr (), s)"

lemma clean_agent_run:
  assumes "run_succeeds fuel su prompts w s"
  shows "agent_run fuel su prompts w = Some (Inr (), s\<lparr>rs_stream := stream_end None (rs_stream s)\<rparr>)"
  using assms by (simp add: run_succeeds_def agent_run_def agent_loop_def run_guarded_def catch_def)

definition idle :: "'u agent_live \<Rightarrow> bool" where
  "idle w \<longleftrightarrow> \<not> ag_is_streaming w \<and> ag_signal w = None \<and> ag_streaming_message w = None \<and>
     ag_pending_tool_calls w = {}"

lemma leave_run_idle [simp]: "idle (leave_run w)" "ag_messages (leave_run w) = ag_messages w"
  by (simp_all add: idle_def leave_run_def)

lemma clean_start_run:
  assumes "well_formed_provider (su_env su)" and "\<not> ag_is_streaming w" and "run_succeeds fuel su prompts w s"
  shows "start_run fuel su prompts False w = Some (Inr (rs_new s), leave_run (rs_world s))"
    and "ended_messages (rs_trace s) = rs_new s" and "take (length prompts) (rs_new s) = prompts"
proof -
  have wf: "well_formed_provider (run_environment su)"
    using assms(1) by (simp add: well_formed_provider_def run_environment_def)
  note run = clean_agent_run [OF assms(3)] and clean = clean_run [OF wf assms(3) [unfolded run_succeeds_def]]
  show "start_run fuel su prompts False w = Some (Inr (rs_new s), leave_run (rs_world s))"
    using assms(2) run clean(3)
    by (simp add: start_run_def Let_def await_run_def awaited_result_def stream_end_result
        flip: agent_run_def)
  show "ended_messages (rs_trace s) = rs_new s" "take (length prompts) (rs_new s) = prompts"
    using clean by simp_all
qed

section \<open>Properties\<close>

text \<open>A prompt that is answered without a failure extends the agent's transcript by exactly the messages it
  returns, which begin with the prompts, and leaves the agent idle; whatever the listeners, tools
  and hooks do, as long as they leave the transcript to the agent.\<close>

theorem prompt_extends_transcript:
  assumes "transcript_safe su" and "well_formed_provider (su_env su)"
    and "\<not> ag_is_streaming w" and "run_succeeds fuel su prompts w s"
  shows "\<exists>ms w'. start_run fuel su prompts False w = Some (Inr ms, w') \<and>
     ag_messages w' = ag_messages w @ ms \<and> take (length prompts) ms = prompts \<and> idle w'"
  using clean_start_run [OF assms(2-4)] agent_run_mirrors [OF assms(1) clean_agent_run [OF assms(4)]]
  by auto

text \<open>C16: However a run ends, when it returns the agent is idle and its transcript has only grown: by the
  messages whose end was announced, in order.\<close>

theorem run_only_appends:
  assumes "transcript_safe su" and "start_run fuel su prompts False w = Some (Inr ms, w')"
  shows "idle w' \<and> (\<exists>r s. agent_run fuel su prompts w = Some (r, s) \<and>
     ag_messages w' = ag_messages w @ ended_messages (rs_trace s) \<and> es_result (rs_stream s) = Some ms)"
  using assms(2)
proof (rule start_run_cases)
  fix r s
  assume run: "agent_run fuel su prompts w = Some (r, s)" and res: "es_result (rs_stream s) = Some ms"
    and w': "w' = leave_run (rs_world s)"
  have "ag_messages w' = ag_messages w @ ended_messages (rs_trace s)"
    using agent_run_mirrors [OF assms(1) run] w' by simp
  with run res w' show ?thesis by auto
qed

text \<open>Only one run at a time: while a run is active every prompt, every configuration change and a reset
  are refused, and the refusal changes nothing.\<close>

theorem active_agent_refuses:
  assumes "ag_is_streaming w"
  shows "start_run fuel su prompts c w = Some (Inl (Exn RuntimeError ''Agent is already streaming''), w) \<and>
     (prompt_messages p images t \<noteq> [] \<longrightarrow>
        prompt fuel su p images t w = Some (Inl (Exn RuntimeError ''Agent is already streaming''), w)) \<and>
     \<not> isInr (reset_agent w) \<and> \<not> isInr (set_messages ms (su, w)) \<and> \<not> isInr (set_model m (su, w)) \<and>
     \<not> isInr (set_tools ts (su, w)) \<and> \<not> isInr (set_system_prompt v (su, w)) \<and>
     \<not> isInr (set_thinking_level v (su, w)) \<and> \<not> isInr (set_stream_options so (su, w))"
  using assms
  by (simp add: start_run_def prompt_def Let_def reset_agent_def set_messages_def set_model_def set_tools_def
      set_system_prompt_def set_thinking_level_def set_stream_options_def when_idle_def ensure_idle_def)

text \<open>But \<^verbatim>\<open>continue_run\<close> drains the steering queue before it finds out that a run is
  active: the call is refused, and the queued messages it had taken are gone.\<close>

theorem refused_continue_drops_messages:
  assumes "ag_is_streaming w" and "ag_messages w \<noteq> []" and "is_assistant (last (ag_messages w))"
    and "cf_get_steering_messages (su_config su) = None"
    and "mq_items (ag_steering w) = m # ms" and "mq_mode (ag_steering w) = ''one-at-a-time''"
  shows "continue_run fuel su w = Some (Inl (Exn RuntimeError ''Agent is already streaming''),
     w\<lparr>ag_steering := (ag_steering w)\<lparr>mq_items := ms\<rparr>\<rparr>)"
  using assms
  by (simp add: continue_run_def continue_queued_def drain_for_continue_def drain_steering_def
      with_external_def queue_drain_def start_run_def)

section \<open>A concrete agent\<close>

definition agent_demo_config :: "unit agent_live agent_loop_config" where
  "agent_demo_config = \<lparr>cf_model = demo_model, cf_convert_to_llm = (\<lambda>ms w. (Inr ms, w)),
     cf_transform_context = None, cf_get_api_key = None, cf_get_steering_messages = None,
     cf_get_follow_up_messages = None, cf_should_stop_after_turn = None, cf_prepare_next_turn = None,
     cf_before_tool_call = None, cf_after_tool_call = None, cf_tool_execution = Parallel,
     cf_thinking_level = ''off'', cf_stream_options = default_stream_options\<rparr>"

definition agent_demo_env :: "unit agent_live environment" where
  "agent_demo_env = \<lparr>ev_stream_fn = (\<lambda>_ _ _ w. (Inr (demo_response True), w)),
     ev_sink = None, ev_cancelled = (\<lambda>_. None), ev_clock = (\<lambda>w. (7, w)), ev_schedule = (\<lambda>_. []),
     ev_re_search = (\<lambda>_ _. Inr True)\<rparr>"

text \<open>Its one listener steers once, when the run starts.\<close>

definition agent_demo_setup :: "unit live_setup" where
  "agent_demo_setup = \<lparr>su_system_prompt = [], su_model = demo_model, su_thinking_level = ''off'',
     su_tools = [], su_config = agent_demo_config, su_env = agent_demo_env,
     su_listener = (\<lambda>l ev w. (Inr (), if ev = AgentStartEvent then steer demo_prompt w else w))\<rparr>"

definition agent_demo_live :: "bool \<Rightarrow> unit agent_live" where
  "agent_demo_live busy = \<lparr>ag_messages = [demo_prompt, asst demo_reply], ag_is_streaming = busy,
     ag_streaming_message = None, ag_pending_tool_calls = {}, ag_error_message = JNull,
     ag_steering = \<lparr>mq_mode = ''one-at-a-time'', mq_items = (if busy then [demo_prompt] else [])\<rparr>,
     ag_follow_up = \<lparr>mq_mode = ''all'', mq_items = []\<rparr>, ag_listeners = [0],
     ag_listener_errors = [], ag_signal = (if busy then Some None else None), ag_outer = ()\<rparr>"

lemma agent_demo_safe: "transcript_safe agent_demo_setup" "well_formed_provider (su_env agent_demo_setup)"
  by (auto simp: transcript_safe_def agent_demo_setup_def agent_demo_env_def agent_demo_config_def
      hook_respects_def config_respects_def updates_respect_def leaves_transcript_def steer_def well_formed_provider_def
      demo_response_def)

lemmas agent_eval = run_eval agent_demo_config_def agent_demo_env_def agent_demo_setup_def
  agent_demo_live_def run_environment_def run_config_def run_context_def enter_run_def
  process_event_def drain_steering_def drain_follow_up_def with_external_def queue_drain_def
  steer_def queue_push_def

lemma agent_demo_run:
  "case run_loop 6 (run_environment agent_demo_setup) (run_config agent_demo_setup) [demo_prompt] False
     (start_state (enter_run (agent_demo_live False)) (run_context agent_demo_setup (enter_run (agent_demo_live False)))
        [demo_prompt] [demo_prompt]) of
     Some (Inr _, s') \<Rightarrow> rs_new s' = [demo_prompt, demo_prompt, asst demo_reply] | _ \<Rightarrow> False"
  by (simp add: agent_eval eval_nat_numeral)

theorem prompt_extends_transcript_witness:
  "\<exists>ms w'. start_run 6 agent_demo_setup [demo_prompt] False (agent_demo_live False) = Some (Inr ms, w') \<and>
     ag_messages w' = [demo_prompt, asst demo_reply] @ ms \<and> idle w'"
proof -
  obtain s where "run_succeeds 6 agent_demo_setup [demo_prompt] (agent_demo_live False) s"
    using returned_unitI [OF agent_demo_run] unfolding run_succeeds_def by blast
  from prompt_extends_transcript [OF agent_demo_safe _ this]
  show ?thesis by (auto simp: agent_demo_live_def)
qed

theorem run_only_appends_witness:
  "\<exists>ms w' r s. start_run 6 agent_demo_setup [demo_prompt] False (agent_demo_live False) = Some (Inr ms, w') \<and>
     idle w' \<and> agent_run 6 agent_demo_setup [demo_prompt] (agent_demo_live False) = Some (r, s) \<and>
     ag_messages w' = [demo_prompt, asst demo_reply] @ ended_messages (rs_trace s)"
proof -
  obtain s where s: "run_succeeds 6 agent_demo_setup [demo_prompt] (agent_demo_live False) s"
    using returned_unitI [OF agent_demo_run] unfolding run_succeeds_def by blast
  have "\<not> ag_is_streaming (agent_demo_live False)" by (simp add: agent_demo_live_def)
  note start = clean_start_run(1) [OF agent_demo_safe(2) this s]
  from run_only_appends [OF agent_demo_safe(1) start] start show ?thesis
    by (auto simp: agent_demo_live_def)
qed

theorem active_agent_refuses_witness:
  "prompt 6 agent_demo_setup (TextPrompt ''hi'') [] 3 (agent_demo_live True) =
     Some (Inl (Exn RuntimeError ''Agent is already streaming''), agent_demo_live True)"
proof -
  have "ag_is_streaming (agent_demo_live True)" by (simp add: agent_demo_live_def)
  from active_agent_refuses [OF this] show ?thesis by (auto simp: prompt_messages_def)
qed

theorem refused_continue_drops_messages_witness:
  "continue_run 6 agent_demo_setup (agent_demo_live True) =
     Some (Inl (Exn RuntimeError ''Agent is already streaming''),
       (agent_demo_live True)\<lparr>ag_steering := \<lparr>mq_mode = ''one-at-a-time'', mq_items = []\<rparr>\<rparr>)"
  using refused_continue_drops_messages [of "agent_demo_live True" agent_demo_setup demo_prompt "[]" 6]
  by (simp add: agent_demo_live_def agent_demo_setup_def agent_demo_config_def)

end
