(* ===== verification/LoopTermination.thy ===== *)
theory LoopTermination
  imports LoopRelation
begin

text \<open>
  When a run ends.  The agent loop has no bound of its own: it goes on while the model asks for tools
  and while a queue hands out messages.  With a measure of the world that drops at each of these,
  and a provider whose streams resolve, every run returns, and a fuel of twice the measure plus two
  is enough; more fuel gives the same run.
\<close>

section \<open>More fuel gives the same run\<close>

lemma bnd_more:
  "bnd f g s = Some r \<Longrightarrow> (\<And>x s' r. g x s' = Some r \<Longrightarrow> g' x s' = Some r) \<Longrightarrow> bnd f g' s = Some r"
  by (auto simp: bnd_def split: option.splits sum.splits prod.splits)

lemma turns_more: "turns n env cfg c s = Some r \<Longrightarrow> turns (n + k) env cfg c s = Some r"
proof (induction n arbitrary: c s r)
  case 0
  then show ?case by (simp add: prog_run)
next
  case (Suc n)
  show ?case
  proof (cases "lc_more c \<or> lc_pending c \<noteq> []")
    case True
    with Suc.prems have "bnd (turn env cfg c) (\<lambda>r. case r of None \<Rightarrow> ret () | Some c' \<Rightarrow> turns n env cfg c') s = Some r"
      by simp
    then have "bnd (turn env cfg c) (\<lambda>r. case r of None \<Rightarrow> ret () | Some c' \<Rightarrow> turns (n + k) env cfg c') s = Some r"
      by (rule bnd_more) (auto split: option.splits dest: Suc.IH)
    with True show ?thesis by simp
  next
    case False
    with Suc.prems have "bnd (maybe_hook (cf_get_follow_up_messages cfg) []) (\<lambda>fu.
        if fu \<noteq> [] then turns n env cfg (c\<lparr>lc_pending := fu, lc_more := True\<rparr>) else emit_agent_end env) s = Some r"
      by simp
    then have "bnd (maybe_hook (cf_get_follow_up_messages cfg) []) (\<lambda>fu.
        if fu \<noteq> [] then turns (n + k) env cfg (c\<lparr>lc_pending := fu, lc_more := True\<rparr>) else emit_agent_end env) s = Some r"
      by (rule bnd_more) (auto split: if_splits dest: Suc.IH)
    with False show ?thesis by simp
  qed
qed

lemma run_loop_more: "run_loop n env cfg p b s = Some r \<Longrightarrow> run_loop (n + k) env cfg p b s = Some r"
  unfolding run_loop_def thn_def by (elim bnd_more) (assumption | erule turns_more)+

lemma run_guarded_more: "run_guarded n env cfg p b s = Some r \<Longrightarrow> run_guarded (n + k) env cfg p b s = Some r"
  using run_loop_more [of n env cfg p b s _ k]
  by (auto simp: run_guarded_def catch_def split: option.splits sum.splits prod.splits)

section \<open>Programs that return from every state\<close>

definition total :: "('s, 'a) prog \<Rightarrow> bool" where
  "total f \<longleftrightarrow> (\<forall>s. returns f s)"

lemma total_bnd: "total f \<Longrightarrow> (\<And>x. total (g x)) \<Longrightarrow> total (bnd f g)"
  by (simp add: total_def returns_bnd)

lemma total_thn: "total f \<Longrightarrow> total g \<Longrightarrow> total (thn f g)"
  by (simp add: total_def returns_thn)

lemma total_catch: "total f \<Longrightarrow> (\<And>e. total (h e)) \<Longrightarrow> total (catch f h)"
  by (simp add: total_def returns_catch)

lemma total_each: "(\<And>x. total (f x)) \<Longrightarrow> total (each f xs)"
  by (simp add: total_def returns_each)

lemma total_yields:
  assumes "total f" and "yields f V" and "\<And>x. V x \<Longrightarrow> total (g x)"
  shows "total (bnd f g)"
  unfolding total_def
proof
  fix s
  show "returns (bnd f g) s"
  proof (rule returns_bnd)
    show "returns f s" using assms(1) by (simp add: total_def)
    fix x s' assume "f s = Some (Inr x, s')"
    with assms(2) have "V x" unfolding yields_def by (blast dest: wpD(1))
    with assms(3) show "returns (g x) s'" by (simp add: total_def)
  qed
qed

lemma total_basic [simp]:
  "total (ret x)" "total (raise_exn e)" "total (readS f)" "total (modS m)" "total (of_result r)"
  "total (hook h)" "total (now env)" "total (emit env ev)" "total (raise_if_cancelled env)"
  "total (put_context a)" "total (put_new a)" "total (set_context i a)" "total (set_last_new a)"
  "total (maybe_hook k d)"
  by (simp_all add: total_def)

lemma total_cases:
  "(\<And>x. v = Some x \<Longrightarrow> total (f x)) \<Longrightarrow> (v = None \<Longrightarrow> total g) \<Longrightarrow> total (case v of None \<Rightarrow> g | Some x \<Rightarrow> f x)"
  "(\<And>x. total (f' x)) \<Longrightarrow> (\<And>y. total (g' y)) \<Longrightarrow> total (case w of Inl x \<Rightarrow> f' x | Inr y \<Rightarrow> g' y)"
  "total a \<Longrightarrow> total b \<Longrightarrow> total (if c then a else b)"
  by (auto split: option.split sum.split)

lemmas total_intros = total_bnd total_thn total_catch total_each total_cases

section \<open>Tool batches return\<close>

lemma total_start_tool: "total (start_tool env p)"
  by (simp add: total_def returns_def start_tool_def split: option.split prod.split)

lemma total_prepare: "total (prepare_tool_call env cfg assistant i c)"
proof -
  have "total (case v of JObj a \<Rightarrow> ret a | _ \<Rightarrow> raise_exn e)" for v and e
    by (cases v) simp_all
  then have args: "total (prepared_arguments env tool args)" for tool args
    unfolding prepared_arguments_def by (intro total_intros) simp_all
  have before: "total (before_call cfg assistant i c tool args)" for tool args
    unfolding before_call_def Let_def by (intro total_intros) simp_all
  show ?thesis unfolding prepare_tool_call_def Let_def
    by (intro total_intros args before) simp_all
qed

lemma total_finish: "total (finish_tool cfg assistant p rb)"
  unfolding finish_tool_def by (intro total_intros) simp_all

lemma total_record: "total (record_outcome env oc)" "total (record_outcomes env ocs)"
proof -
  show one: "total (record_outcome env oc)" for oc
    unfolding record_outcome_def emit_tool_result_message_def Let_def by (intro total_intros) simp_all
  show "total (record_outcomes env ocs)" by (induction ocs) (auto intro!: total_intros one)
qed

lemma total_tool_events:
  "total (emit_tool_start env c)" "total (emit_tool_end env oc)" "total (emit_update env p u)"
  by (simp_all add: emit_tool_start_def emit_tool_end_def emit_update_def)

lemma total_complete: "total (complete_task env cfg assistant p r)"
  unfolding complete_task_def by (intro total_intros total_finish total_tool_events) simp_all

lemma total_finish_task: "total (finish_task env cfg assistant t)"
  by (cases t) (auto intro!: total_intros total_start_tool total_complete total_tool_events)

lemma total_step_task: "total (step_task env cfg assistant t)"
  by (cases "(env, cfg, assistant, t)" rule: step_task.cases)
     (auto intro!: total_intros total_start_tool total_complete total_tool_events)

lemma total_run_tasks: "total (run_tasks env cfg assistant ks ts)"
proof (induction ks arbitrary: ts)
  case Nil
  have "total (finish_tasks env cfg assistant us)" for us
    by (induction us) (auto intro!: total_intros total_finish_task)
  then show ?case by simp
qed (auto intro!: total_intros total_step_task)

lemma total_batch: "total (execute_tool_batch env cfg assistant calls)"
proof -
  have "total (truncated_batch env i cs)" for i cs
    by (induction cs arbitrary: i) (auto simp: Let_def intro!: total_intros total_record total_tool_events)
  moreover have run: "total (prepare_and_run env cfg assistant i c)" for i c
    unfolding prepare_and_run_def run_prepared_tool_def
    by (intro total_intros total_prepare total_start_tool total_tool_events total_finish) simp_all
  have "total (sequential_batch env cfg assistant i cs)" for i cs
    by (induction cs arbitrary: i) (auto intro!: total_intros total_record total_tool_events run)
  moreover have "total (prepare_all env cfg assistant i cs)" for i cs
    by (induction cs arbitrary: i) (auto intro!: total_intros total_prepare total_tool_events)
  then have "total (parallel_batch env cfg assistant calls)"
    unfolding parallel_batch_def Let_def
    by (intro total_intros total_run_tasks total_record) simp_all
  ultimately show ?thesis unfolding execute_tool_batch_def
    by (auto intro!: total_intros split: execution_mode.split)
qed

section \<open>Measures\<close>

text \<open>A provider stream that is done without a failure has a result.\<close>

definition resolves :: "provider_response \<Rightarrow> bool" where
  "resolves r \<longleftrightarrow> (prs_failure r = None \<and> prs_done r \<longrightarrow> prs_result r \<noteq> None)"

definition responsive :: "'w environment \<Rightarrow> bool" where
  "responsive env \<longleftrightarrow> (\<forall>m c so w r w'. ev_stream_fn env m c so w = (Inr r, w') \<longrightarrow> resolves r)"

definition measure_rel :: "('w \<Rightarrow> nat) \<Rightarrow> 'w world_rel" where
  "measure_rel mu w t w' t' \<longleftrightarrow> mu w' \<le> mu w"

text \<open>Asking for tools, and handing out messages, cost something.\<close>

definition tools_cost :: "('w \<Rightarrow> nat) \<Rightarrow> 'w environment \<Rightarrow> bool" where
  "tools_cost mu env \<longleftrightarrow> (\<forall>m c so w r w' msg. ev_stream_fn env m c so w = (Inr r, w') \<and>
     final_message r msg \<and> tool_calls_of msg \<noteq> [] \<longrightarrow> mu w' < mu w)"

definition messages_cost :: "('w \<Rightarrow> nat) \<Rightarrow> ('w, agent_message list) hook option \<Rightarrow> bool" where
  "messages_cost mu k \<longleftrightarrow> (\<forall>h w ms w'. k = Some h \<and> h w = (Inr ms, w') \<and> ms \<noteq> [] \<longrightarrow> mu w' < mu w)"

definition bounded_by :: "('w \<Rightarrow> nat) \<Rightarrow> 'w environment \<Rightarrow> 'w agent_loop_config \<Rightarrow> bool" where
  "bounded_by mu env cfg \<longleftrightarrow> env_respects (measure_rel mu) env \<and> config_respects (measure_rel mu) cfg \<and>
     responsive env \<and> tools_cost mu env \<and> messages_cost mu (cf_get_steering_messages cfg) \<and>
     messages_cost mu (cf_get_follow_up_messages cfg) \<and>
     (\<forall>ct. updates_respect (measure_rel mu) cfg ct)"

interpretation anything: run_relation "\<lambda>_ _ _ _. True"
  by unfold_locales simp_all

interpretation measured: run_relation "measure_rel mu" for mu :: "'w \<Rightarrow> nat"
  by unfold_locales (auto simp: measure_rel_def)

lemma anything_respects:
  "hook_respects (\<lambda>_ _ _ _. True) h" "tool_respects (\<lambda>_ _ _ _. True) tool"
  "tools_respect (\<lambda>_ _ _ _. True) ctx" "env_respects (\<lambda>_ _ _ _. True) env"
  "config_respects (\<lambda>_ _ _ _. True) cfg"
  by (simp_all add: hook_respects_def tool_respects_def tools_respect_def env_respects_def config_respects_def
      updates_respect_def)

lemma total_stream_assistant_response:
  assumes "responsive env" shows "total (stream_assistant_response env cfg model level)"
proof -
  have "anything.along resolves (provider_request env cfg model level)"
    by (rule anything.along_provider_request [OF anything_respects(4,5)])
       (use assms in \<open>unfold responsive_def, blast\<close>)
  then have yields: "yields (provider_request env cfg model level) resolves"
    unfolding anything.along_def yields_def by (auto simp: anything_respects elim: wp_mono)
  have request: "total (provider_request env cfg model level)"
    unfolding provider_request_def by (intro total_intros) simp_all
  have insert: "total (insert_message env m)" "total (replace_message i m)" for m i
    unfolding insert_message_def replace_message_def by (intro total_intros; simp)+
  have messages: "total (finish_message env idx m)" "total (update_message env idx m ev)" for idx m ev
    unfolding finish_message_def update_message_def by (intro total_intros insert; simp)+
  have loop: "total (provider_loop env idx final evs)" for idx final evs
    by (induction evs arbitrary: idx final)
       (auto intro!: total_intros insert messages split: assistant_event.split)
  have result: "total (provider_result r)" if "resolves r" for r
    using that unfolding provider_result_def by (auto simp: resolves_def intro!: total_intros)
  show ?thesis unfolding stream_assistant_response_def
    by (rule total_yields [OF request yields]) (intro total_intros loop result messages; simp)
qed

lemma total_turn:
  assumes "responsive env" shows "total (turn env cfg c)"
proof -
  have begin_: "total (begin_turn env cfg c)"
    unfolding begin_turn_def by (intro total_intros; simp add: apply_turn_update_def total_thn)
  have messages: "total (add_message env m)" "total (emit_agent_end env)" for m
    unfolding add_message_def emit_agent_end_def by (intro total_intros; simp)+
  have end_: "total (end_turn env cfg a calls r c)" for a calls r c
    unfolding end_turn_def by (intro total_intros messages; simp)
  show ?thesis unfolding turn_def
    by (intro total_intros begin_ messages end_ total_stream_assistant_response [OF assms] total_batch; simp)
qed

text \<open>Running \<open>f\<close> first, with what is known of its value and of the measure.\<close>

lemma wp_measured:
  assumes "measured.along mu P f" and "tools_respect (measure_rel mu) (rs_context s)"
    and "\<And>x s'. P x \<Longrightarrow> tools_respect (measure_rel mu) (rs_context s') \<Longrightarrow>
           mu (rs_world s') \<le> mu (rs_world s) \<Longrightarrow> wp (g x) Q (\<lambda>_ _. True) s'"
  shows "wp (bnd f g) Q (\<lambda>_ _. True) s"
proof -
  have "wp f (\<lambda>x s'. P x \<and> measured.before_after mu s s') (\<lambda>_ s'. measured.before_after mu s s') s"
    using assms(1,2) by (simp add: measured.along_def)
  then show ?thesis unfolding wp_bnd
    by (rule wp_mono) (use assms(3) in \<open>auto simp: measured.before_after_def measure_rel_def\<close>)
qed

lemma wp_measured_last:
  assumes "measured.along mu P f" and "tools_respect (measure_rel mu) (rs_context s)"
    and "\<And>x s'. P x \<Longrightarrow> tools_respect (measure_rel mu) (rs_context s') \<Longrightarrow>
           mu (rs_world s') \<le> mu (rs_world s) \<Longrightarrow> Q x s'"
  shows "wp f Q (\<lambda>_ _. True) s"
proof -
  have "wp f (\<lambda>x s'. P x \<and> measured.before_after mu s s') (\<lambda>_ s'. measured.before_after mu s s') s"
    using assms(1,2) by (simp add: measured.along_def)
  then show ?thesis
    by (rule wp_mono) (use assms(3) in \<open>auto simp: measured.before_after_def measure_rel_def\<close>)
qed

lemma wp_maybe_hook_cost:
  assumes "\<And>h. k = Some h \<Longrightarrow> hook_respects (measure_rel mu) h" and "messages_cost mu k"
    and "tools_respect (measure_rel mu) (rs_context s)"
  shows "wp (maybe_hook k []) (\<lambda>ms s'. tools_respect (measure_rel mu) (rs_context s') \<and>
     mu (rs_world s') \<le> mu (rs_world s) \<and> (ms \<noteq> [] \<longrightarrow> mu (rs_world s') < mu (rs_world s)))
     (\<lambda>_ _. True) s"
proof (cases k)
  case (Some h)
  obtain r w' where h: "h (rs_world s) = (r, w')" by (cases "h (rs_world s)")
  have "mu w' \<le> mu (rs_world s)"
    using assms(1) [OF Some] h unfolding hook_respects_def measure_rel_def by (metis snd_conv)
  moreover have "\<forall>ms. r = Inr ms \<and> ms \<noteq> [] \<longrightarrow> mu w' < mu (rs_world s)"
    using assms(2) Some h unfolding messages_cost_def by metis
  ultimately show ?thesis
    using Some h assms(3) by (auto simp: wp_simps split: sum.split)
qed (simp add: wp_simps assms(3))

section \<open>A turn brings the end nearer\<close>

definition spent :: "('w \<Rightarrow> nat) \<Rightarrow> bool \<Rightarrow> 'w run_state \<Rightarrow> 'w run_state \<Rightarrow> bool" where
  "spent mu strictly s s' \<longleftrightarrow> tools_respect (measure_rel mu) (rs_context s') \<and>
     mu (rs_world s') \<le> mu (rs_world s) \<and> (strictly \<longrightarrow> mu (rs_world s') < mu (rs_world s))"

lemma spent_trans:
  "spent mu a s s' \<Longrightarrow> spent mu b s' s'' \<Longrightarrow> (c \<Longrightarrow> a \<or> b) \<Longrightarrow> spent mu c s s''"
  by (auto simp: spent_def)

lemma spent_tools: "spent mu a s s' \<Longrightarrow> tools_respect (measure_rel mu) (rs_context s')"
  by (simp add: spent_def)

text \<open>Sequencing, with the price paid so far.\<close>

lemma wp_spend:
  assumes "measured.along mu P f" and "spent mu a r s"
    and "\<And>x t. P x \<Longrightarrow> spent mu a r t \<Longrightarrow> wp (g x) Q (\<lambda>_ _. True) t"
  shows "wp (bnd f g) Q (\<lambda>_ _. True) s"
  by (rule wp_measured [OF assms(1) spent_tools [OF assms(2)]])
     (rule assms(3), use assms(2) in \<open>auto simp: spent_def\<close>)

lemma spend_along:
  assumes "measured.along mu P f" and "tools_respect (measure_rel mu) (rs_context s)"
  shows "wp f (\<lambda>x s'. P x \<and> spent mu False s s') (\<lambda>_ _. True) s"
  by (rule wp_measured_last [OF assms]) (simp add: spent_def)

lemma provider_request_spends:
  fixes env :: "'a environment"
  assumes "bounded_by mu env cfg" and "tools_respect (measure_rel mu) (rs_context s)"
  shows "wp (provider_request env cfg model level)
     (\<lambda>r s'. spent mu (\<exists>m. final_message r m \<and> tool_calls_of m \<noteq> []) s s') (\<lambda>_ _. True) s"
proof -
  have env: "env_respects (measure_rel mu) env" and cfg: "config_respects (measure_rel mu) cfg"
    and cost: "tools_cost mu env"
    using assms(1) by (simp_all add: bounded_by_def)
  have call: "wp (hook (ev_stream_fn env m c so))
      (\<lambda>r s'. spent mu (\<exists>m. final_message r m \<and> tool_calls_of m \<noteq> []) s s') (\<lambda>_ _. True) t"
    if t: "spent mu False s t" for m c so t
  proof -
    obtain r w' where h: "ev_stream_fn env m c so (rs_world t) = (r, w')"
      by (cases "ev_stream_fn env m c so (rs_world t)")
    have "mu w' \<le> mu (rs_world t)"
      using env h unfolding env_respects_def hook_respects_def measure_rel_def by (metis snd_conv)
    moreover have "mu w' < mu (rs_world t)" if "r = Inr x" "final_message x msg" "tool_calls_of msg \<noteq> []" for x msg
      using cost h that unfolding tools_cost_def by blast
    ultimately show ?thesis using h t
      by (auto simp: wp_simps spent_def split: sum.split intro: order_trans less_le_trans)
  qed
  have transform: "measured.along mu (\<lambda>_. True) (case cf_transform_context cfg of None \<Rightarrow> ret ms | Some f \<Rightarrow> hook (f ms))" for ms
    by (intro measured.along_case_option measured.along_hook config_respectsD(2) [OF cfg]) simp_all
  have key: "measured.along mu (\<lambda>_. True) (case cf_get_api_key cfg of None \<Rightarrow> ret None | Some f \<Rightarrow> hook (f p))" for p
    by (intro measured.along_case_option measured.along_hook config_respectsD(3) [OF cfg]) simp_all
  have convert: "measured.along mu (\<lambda>_. True) (hook (cf_convert_to_llm cfg ms))" for ms
    by (intro measured.along_hook config_respectsD(1) [OF cfg]) simp
  note look = measured.along_read [where P = "\<lambda>_. True", simplified]
  have refl: "spent mu False s s" using assms(2) by (simp add: spent_def)
  have bad_or: "wp g Q (\<lambda>_ _. True) t \<Longrightarrow> wp (if b then raise_exn e else g) Q (\<lambda>_ _. True) t"
    for b e t Q and g :: "('a run_state, provider_response) prog"
    by (simp add: wp_simps)
  show ?thesis unfolding provider_request_def
    apply (rule wp_spend [OF look refl])
    apply (rule wp_spend [OF transform], assumption)
    apply (rule wp_spend [OF convert], assumption)
    apply (rule bad_or)
    apply (rule wp_spend [OF key], assumption)
    apply (rule wp_spend [OF look], assumption)
    apply (rule call, assumption)
    done
qed

lemma response_spends:
  fixes env :: "'a environment"
  assumes "bounded_by mu env cfg" and "tools_respect (measure_rel mu) (rs_context s)"
  shows "wp (stream_assistant_response env cfg model level)
     (\<lambda>m s'. spent mu (tool_calls_of m \<noteq> []) s s') (\<lambda>_ _. True) s"
  unfolding stream_assistant_response_def wp_bnd
proof (rule wp_mono [OF provider_request_spends [OF assms]])
  have env: "env_respects (measure_rel mu) env" using assms(1) by (simp add: bounded_by_def)
  fix r s1 assume s1: "spent mu (\<exists>m. final_message r m \<and> tool_calls_of m \<noteq> []) s s1"
  have loop: "wp (provider_loop env None None (prs_events r))
      (\<lambda>st s'. (\<forall>m. snd st = Some m \<longrightarrow> final_message r m) \<and> spent mu False s1 s') (\<lambda>_ _. True) s1"
    by (rule wp_mono [OF spend_along [OF measured.along_provider_loop [OF env] spent_tools [OF s1]]])
       (auto simp: final_message_def)
  show "wp (provider_loop env None None (prs_events r)) (\<lambda>st. wp (provider_result r) (\<lambda>resolved.
        wp (case snd st of None \<Rightarrow> bnd (finish_message env (fst st) resolved) (\<lambda>_. ret resolved)
            | Some m \<Rightarrow> ret m) (\<lambda>m s'. spent mu (tool_calls_of m \<noteq> []) s s') (\<lambda>_ _. True)) (\<lambda>_ _. True))
        (\<lambda>_ _. True) s1"
  proof (rule wp_mono [OF loop], elim conjE)
    fix st :: "nat option \<times> assistant_message option" and s2 :: "'a run_state"
    assume st: "\<forall>m. snd st = Some m \<longrightarrow> final_message r m" and s2: "spent mu False s1 s2"
    have done_: "spent mu (tool_calls_of m \<noteq> []) s s3" if "final_message r m" "spent mu False s2 s3" for m s3
      using that by (auto intro: spent_trans [OF s1 spent_trans [OF s2, where c = False]])
    have finish: "wp (finish_message env idx m) (\<lambda>_ s'. spent mu False s2 s') (\<lambda>_ _. True) s2" for idx m
      using spend_along [OF measured.along_finish_message [OF env] spent_tools [OF s2]] by simp
    have here: "spent mu False s2 s2" using s2 by (simp add: spent_def)
    have fin: "wp (finish_message env idx m) (\<lambda>_ s'. spent mu (tool_calls_of m \<noteq> []) s s') (\<lambda>_ _. True) s2"
      if "final_message r m" for idx m
      by (rule wp_mono [OF finish]) (auto intro: done_ [OF that])
    show "wp (provider_result r) (\<lambda>resolved. wp (case snd st of
        None \<Rightarrow> bnd (finish_message env (fst st) resolved) (\<lambda>_. ret resolved) | Some m \<Rightarrow> ret m)
        (\<lambda>m s'. spent mu (tool_calls_of m \<noteq> []) s s') (\<lambda>_ _. True)) (\<lambda>_ _. True) s2"
    proof -
      have "final_message r m" if "prs_result r = Some m" for m using that by (simp add: final_message_def)
      then show ?thesis using st done_ [OF _ here] fin
        by (auto simp: provider_result_def wp_simps split: option.split)
    qed
  qed simp
qed simp

lemma begin_turn_along:
  assumes "bounded_by mu env cfg" shows "measured.along_any mu (begin_turn env cfg c)"
  using assms by (intro measured.along_weaken [OF measured.along_begin_turn]) (simp_all add: bounded_by_def)

lemma begin_turn_spends:
  assumes "bounded_by mu env cfg" and "tools_respect (measure_rel mu) (rs_context s)"
  shows "wp (begin_turn env cfg c) (\<lambda>_ s'. spent mu False s s') (\<lambda>_ _. True) s"
  using spend_along [OF begin_turn_along [OF assms(1)] assms(2)] by simp

definition active :: "'w loop_control \<Rightarrow> bool" where
  "active c \<longleftrightarrow> lc_more c \<or> lc_pending c \<noteq> []"

lemma end_turn_spends:
  fixes env :: "'a environment"
  assumes "bounded_by mu env cfg" and "spent mu (calls \<noteq> []) s0 s"
  shows "wp (end_turn env cfg assistant calls r c)
     (\<lambda>k s'. case k of None \<Rightarrow> True | Some c' \<Rightarrow> spent mu (active c') s0 s') (\<lambda>_ _. True) s"
proof -
  have env: "env_respects (measure_rel mu) env" and cfg: "config_respects (measure_rel mu) cfg"
    and cost: "messages_cost mu (cf_get_steering_messages cfg)"
    using assms(1) by (simp_all add: bounded_by_def)
  have along: "measured.along mu (\<lambda>_. True) (case cf_should_stop_after_turn cfg of None \<Rightarrow> ret False | Some f \<Rightarrow> hook (f ct))" for ct
    by (intro measured.along_case_option measured.along_hook config_respectsD(6) [OF cfg]) simp_all
  have steering: "wp (maybe_hook (cf_get_steering_messages cfg) []) (\<lambda>ms s'. spent mu (calls \<noteq> [] \<or> ms \<noteq> []) s0 s') (\<lambda>_ _. True) t"
    if t: "spent mu (calls \<noteq> []) s0 t" for t
    by (rule wp_mono [OF wp_maybe_hook_cost [OF config_respectsD(4) [OF cfg] cost spent_tools [OF t]]])
       (use t in \<open>auto simp: spent_def\<close>)
  have stop: "wp (if stop then bnd (emit_agent_end env) (\<lambda>_. ret None)
       else bnd (maybe_hook (cf_get_steering_messages cfg) []) (\<lambda>ms.
          ret (Some (c\<lparr>lc_last := Some ct, lc_pending := ms, lc_more := calls \<noteq> [] \<and> \<not> batch_terminates (snd r)\<rparr>))))
       (\<lambda>k s'. case k of None \<Rightarrow> True | Some c' \<Rightarrow> spent mu (active c') s0 s') (\<lambda>_ _. True) t"
    if "spent mu (calls \<noteq> []) s0 t" for stop ct t
  proof (cases stop)
    case False
    then show ?thesis
      by (simp add: wp_bnd wp_eta) (rule wp_mono [OF steering [OF that]], auto simp: spent_def active_def)
  qed (simp add: wp_bnd wp_eta)
  show ?thesis unfolding end_turn_def thn_def
    apply (rule wp_spend [OF measured.along_emit [OF env] assms(2)])
    apply (rule wp_spend [OF measured.along_read [where P = "\<lambda>_. True", simplified]], assumption)
    apply (rule wp_spend [OF along], assumption)
    apply (rule stop, assumption)
    done
qed

lemma wp_always: "wp f (\<lambda>_ _. True) (\<lambda>_ _. True) = (\<lambda>_. True)"
  by (simp add: fun_eq_iff)

lemma turn_spends:
  fixes env :: "'a environment"
  assumes "bounded_by mu env cfg" and "tools_respect (measure_rel mu) (rs_context s)"
  shows "wp (turn env cfg c)
     (\<lambda>k s'. case k of None \<Rightarrow> True | Some c' \<Rightarrow> spent mu (active c') s s') (\<lambda>_ _. True) s"
proof -
  have env: "env_respects (measure_rel mu) env" and cfg: "config_respects (measure_rel mu) cfg"
    using assms(1) by (simp_all add: bounded_by_def)
  have refl: "spent mu False s s" using assms(2) by (simp add: spent_def)
  have messages: "measured.along_any mu (each (add_message env) ms)" for ms
    by (intro measured.along_each measured.along_add_message env)
  have rest: "wp (if am_stop_reason a \<in> {JStr ''error'', JStr ''aborted''} then
       bnd (emit env (TurnEndEvent a [])) (\<lambda>_. bnd (emit_agent_end env) (\<lambda>_. ret None))
     else
       bnd (execute_tool_batch env cfg a (tool_calls_of a)) (\<lambda>r.
       end_turn env cfg a (tool_calls_of a) r c'))
     (\<lambda>k s'. case k of None \<Rightarrow> True | Some c' \<Rightarrow> spent mu (active c') s s') (\<lambda>_ _. True) t"
    if t: "spent mu (tool_calls_of a \<noteq> []) s t" for a c' t
  proof (cases "am_stop_reason a \<in> {JStr ''error'', JStr ''aborted''}")
    case False
    have "wp (bnd (execute_tool_batch env cfg a (tool_calls_of a)) (\<lambda>r.
       end_turn env cfg a (tool_calls_of a) r c'))
     (\<lambda>k s'. case k of None \<Rightarrow> True | Some c' \<Rightarrow> spent mu (active c') s s') (\<lambda>_ _. True) t"
      by (rule wp_spend [OF measured.along_execute_tool_batch [OF env cfg] t], rule end_turn_spends [OF assms(1)])
    with False show ?thesis by simp
  qed (simp add: wp_bnd wp_eta wp_always)
  have response: "wp (bnd (stream_assistant_response env cfg model level) g)
     Q (\<lambda>_ _. True) t" if "spent mu False s t"
     "\<And>a t. spent mu (tool_calls_of a \<noteq> []) s t \<Longrightarrow> wp (g a) Q (\<lambda>_ _. True) t" for g model level t Q
    unfolding wp_bnd
    by (rule wp_mono [OF response_spends [OF assms(1) spent_tools [OF that(1)]]])
       (auto intro!: that(2) spent_trans [OF that(1)])
  show ?thesis unfolding turn_def thn_def
    apply (rule wp_spend [OF begin_turn_along [OF assms(1)] refl])
    apply (rule wp_spend [OF messages], assumption)
    apply (rule wp_spend [where P = "\<lambda>_. True"], simp, assumption)
    apply (rule response, assumption)
    apply (rule rest, assumption)
    done
qed

lemma turns_return:
  assumes "bounded_by mu env cfg" and "tools_respect (measure_rel mu) (rs_context s)"
    and "2 * mu (rs_world s) + of_bool (active c) < n"
  shows "returns (turns n env cfg c) s"
  using assms(2,3)
proof (induction n arbitrary: c s)
  case (Suc n)
  have responsive: "responsive env" and cfg: "config_respects (measure_rel mu) cfg"
    and cost: "messages_cost mu (cf_get_follow_up_messages cfg)"
    using assms(1) by (simp_all add: bounded_by_def)
  show ?case
  proof (cases "active c")
    case True
    have "returns (bnd (turn env cfg c) (\<lambda>r. case r of None \<Rightarrow> ret () | Some c' \<Rightarrow> turns n env cfg c')) s"
    proof (rule returns_bnd)
      show "returns (turn env cfg c) s" using total_turn [OF responsive] by (simp add: total_def)
      fix k s' assume "turn env cfg c s = Some (Inr k, s')"
      from wpD(1) [OF turn_spends [OF assms(1) Suc.prems(1)] this]
      have "case k of None \<Rightarrow> True | Some c' \<Rightarrow> spent mu (active c') s s'" .
      then show "returns (case k of None \<Rightarrow> ret () | Some c' \<Rightarrow> turns n env cfg c') s'"
        using Suc.prems(2) True
        by (auto simp: spent_def of_bool_def split: option.splits if_splits intro!: Suc.IH)
    qed
    with True show ?thesis by (simp add: active_def)
  next
    case False
    have "returns (bnd (maybe_hook (cf_get_follow_up_messages cfg) []) (\<lambda>fu.
        if fu \<noteq> [] then turns n env cfg (c\<lparr>lc_pending := fu, lc_more := True\<rparr>) else emit_agent_end env)) s"
    proof (rule returns_bnd)
      fix fu s' assume "maybe_hook (cf_get_follow_up_messages cfg) [] s = Some (Inr fu, s')"
      from wpD(1) [OF wp_maybe_hook_cost [OF config_respectsD(5) [OF cfg] cost Suc.prems(1)] this]
      have "tools_respect (measure_rel mu) (rs_context s')" "fu \<noteq> [] \<Longrightarrow> mu (rs_world s') < mu (rs_world s)"
        by simp_all
      moreover have "returns (emit_agent_end env) s'"
        unfolding emit_agent_end_def by (intro returns_bnd) simp_all
      ultimately show "returns (if fu \<noteq> [] then turns n env cfg (c\<lparr>lc_pending := fu, lc_more := True\<rparr>)
          else emit_agent_end env) s'"
        using Suc.prems(2) False by (auto simp: active_def intro!: Suc.IH)
    qed simp
    with False show ?thesis by (simp add: active_def)
  qed
qed simp

lemma run_loop_returns:
  assumes "bounded_by mu env cfg" and "tools_respect (measure_rel mu) (rs_context s)"
    and "2 * mu (rs_world s) + 2 \<le> n"
  shows "returns (run_loop n env cfg prompts b) s"
proof -
  have env: "env_respects (measure_rel mu) env" and cfg: "config_respects (measure_rel mu) cfg"
    using assms(1) by (simp_all add: bounded_by_def)
  have step: "returns (bnd f g) t"
    if "measured.along mu P f" "total f" "tools_respect (measure_rel mu) (rs_context t)"
      "\<And>x t'. tools_respect (measure_rel mu) (rs_context t') \<Longrightarrow> mu (rs_world t') \<le> mu (rs_world t) \<Longrightarrow> returns (g x) t'"
    for f :: "('a run_state, 'b) prog" and g :: "'b \<Rightarrow> ('a run_state, unit) prog" and P t
  proof (rule returns_bnd)
    show "returns f t" using that(2) by (simp add: total_def)
    fix x t' assume "f t = Some (Inr x, t')"
    with that(1,3) show "returns (g x) t'"
      by (auto simp: measured.along_def measured.before_after_def measure_rel_def intro!: that(4)
          dest: wpD(1))
  qed
  have announce: "measured.along_any mu (if b then ret () else each (announce env) prompts)"
    by (intro measured.along_if measured.along_each measured.along_announce env) simp_all
  have total: "total (if b then ret () else each (announce env) prompts)"
    unfolding announce_def by (intro total_intros; simp)
  have steering: "measured.along_any mu (maybe_hook (cf_get_steering_messages cfg) [])"
    by (intro measured.along_maybe_hook config_respectsD(4) [OF cfg])
  note emit = measured.along_emit [OF env]
  show ?thesis unfolding run_loop_def thn_def
    apply (rule step [OF emit _ assms(2)], simp)
    apply (rule step [OF emit], simp, assumption)
    apply (rule step [OF announce total], assumption)
    apply (rule step [OF steering], simp, assumption)
    apply (rule turns_return [OF assms(1)], assumption)
    using assms(3) apply (simp add: active_def)
    done
qed

lemma run_guarded_returns:
  assumes "bounded_by mu env cfg" and "tools_respect (measure_rel mu) (rs_context s)"
    and "2 * mu (rs_world s) + 2 \<le> n"
  shows "\<exists>r s'. run_guarded n env cfg prompts b s = Some (r, s')"
proof -
  have "total (finish_after_loop_failure env m reason msg)" for m reason msg
    unfolding finish_after_loop_failure_def Let_def by (intro total_intros; simp)
  then have "returns (catch (run_loop n env cfg prompts b)
     (\<lambda>e. if exn_class e = CancelledError
          then finish_after_loop_failure env (cf_model cfg) ''aborted'' (aborted_text e)
          else finish_after_loop_failure env (cf_model cfg) ''error'' (exn_text e))) s"
    by (intro returns_catch run_loop_returns [OF assms]) (simp add: total_def)
  then show ?thesis by (auto simp: run_guarded_def returns_def)
qed

section \<open>Properties\<close>

text \<open>C15: A run ends when its provider does its part: if the streams resolve, and some measure of the world is
  never raised and drops whenever the model asks for tools or a queue hands out messages, then
  the loop returns, whatever fails on the way; twice the initial measure plus two iterations are
  enough, and the result does not depend on how many more were allowed.\<close>

theorem agent_loop_terminates:
  assumes "bounded_by mu env cfg" and "tools_respect (measure_rel mu) ctx"
  shows "\<exists>r s'. \<forall>k. agent_loop (2 * mu w + 2 + k) env cfg prompts ctx w = Some (r, s')"
proof -
  let ?s = "start_state w ctx prompts prompts"
  have "tools_respect (measure_rel mu) (rs_context ?s)" "2 * mu (rs_world ?s) + 2 \<le> 2 * mu w + 2"
    using assms(2) by (simp_all add: start_state_def tools_respect_def)
  from run_guarded_returns [OF assms(1) this] show ?thesis
    unfolding agent_loop_def by (blast intro: run_guarded_more)
qed

text \<open>A model that asks for a tool as many times as the world says, then replies.\<close>

definition countdown_reply :: "nat \<Rightarrow> assistant_message" where
  "countdown_reply n = (if n = 0 then demo_assistant ''stop'' [TextContent ''done'' JNull]
     else demo_assistant ''toolUse'' [ToolCallContent (demo_call ''a'' ''none'')])"

definition countdown_env :: "nat environment" where
  "countdown_env = \<lparr>ev_stream_fn = (\<lambda>_ _ _ n. (Inr \<lparr>prs_events = [DoneEvent ''stop'' (countdown_reply n)],
       prs_failure = None, prs_done = True, prs_result = Some (countdown_reply n)\<rparr>, n - 1)),
     ev_sink = None, ev_cancelled = (\<lambda>_. None), ev_clock = (\<lambda>w. (7, w)), ev_schedule = (\<lambda>_. []),
     ev_re_search = (\<lambda>_ _. Inr True)\<rparr>"

definition countdown_config :: "nat agent_loop_config" where
  "countdown_config = \<lparr>cf_model = demo_model, cf_convert_to_llm = (\<lambda>ms w. (Inr ms, w)),
     cf_transform_context = None, cf_get_api_key = None, cf_get_steering_messages = None,
     cf_get_follow_up_messages = None, cf_should_stop_after_turn = None, cf_prepare_next_turn = None,
     cf_before_tool_call = None, cf_after_tool_call = None, cf_tool_execution = Parallel,
     cf_thinking_level = ''off'', cf_stream_options = default_stream_options\<rparr>"

lemma countdown_bounded: "bounded_by (\<lambda>n. n) countdown_env countdown_config"
  by (auto simp: bounded_by_def env_respects_def config_respects_def updates_respect_def hook_respects_def measure_rel_def
      responsive_def resolves_def tools_cost_def messages_cost_def sink_world_def final_message_def
      countdown_env_def countdown_config_def countdown_reply_def demo_assistant_def tool_calls_of_def
      split: if_splits)

theorem agent_loop_terminates_witness:
  "\<exists>r s'. agent_loop 8 countdown_env countdown_config [demo_prompt]
     \<lparr>cx_system_prompt = [], cx_messages = [], cx_tools = []\<rparr> 3 = Some (r, s')"
proof -
  have "tools_respect (measure_rel (\<lambda>n. n)) \<lparr>cx_system_prompt = [], cx_messages = [], cx_tools = []\<rparr>"
    by (simp add: tools_respect_def)
  from agent_loop_terminates [OF countdown_bounded this, of 3 "[demo_prompt]"]
  obtain r s' where "\<forall>k. agent_loop (2 * 3 + 2 + k) countdown_env countdown_config [demo_prompt]
     \<lparr>cx_system_prompt = [], cx_messages = [], cx_tools = []\<rparr> 3 = Some (r, s')" by blast
  from spec [OF this, of 0] show ?thesis by simp
qed

end
