(* ===== verification/Patterns.thy ===== *)
theory Patterns
  imports JsonText
begin

text \<open>
  The parts of Python's standard library that decide by the shape of a text: \<^verbatim>\<open>re.search\<close> for
  the patterns the code uses, \<^verbatim>\<open>fnmatch.fnmatchcase\<close> and \<^verbatim>\<open>shlex.split\<close>.
\<close>

section \<open>Searching for a regular expression\<close>

text \<open>Repetition is only ever applied to one character class.  Whether a match exists does not
  depend on greediness, so the matcher tries every way; its continuation gets the character
  before the rest of the text.\<close>

datatype rx =
    One "char \<Rightarrow> bool"
  | Many "char \<Rightarrow> bool"
  | Seq rx rx
  | Alt rx rx
  | Boundary
  | AtStart
  | AtEnd

definition word_char :: "char \<Rightarrow> bool" where
  "word_char c \<longleftrightarrow> (let n = of_char c :: nat in
     48 \<le> n \<and> n \<le> 57 \<or> 65 \<le> n \<and> n \<le> 90 \<or> 97 \<le> n \<and> n \<le> 122 \<or> n = 95)"

definition space_char :: "char \<Rightarrow> bool" where
  "space_char c \<longleftrightarrow> (let n = of_char c :: nat in 9 \<le> n \<and> n \<le> 13 \<or> 28 \<le> n \<and> n \<le> 32)"

definition word_at :: "char option \<Rightarrow> bool" where
  "word_at c = (case c of None \<Rightarrow> False | Some c \<Rightarrow> word_char c)"

definition first_char :: "string \<Rightarrow> char option" where
  "first_char s = (case s of [] \<Rightarrow> None | c # _ \<Rightarrow> Some c)"

fun many :: "(char \<Rightarrow> bool) \<Rightarrow> char option \<Rightarrow> string \<Rightarrow> (char option \<Rightarrow> string \<Rightarrow> bool) \<Rightarrow> bool" where
  "many f p [] k = k p []"
| "many f p (c # s) k = (k p (c # s) \<or> f c \<and> many f (Some c) s k)"

primrec rx_match :: "rx \<Rightarrow> char option \<Rightarrow> string \<Rightarrow> (char option \<Rightarrow> string \<Rightarrow> bool) \<Rightarrow> bool" where
  "rx_match (One f) p s k = (case s of [] \<Rightarrow> False | c # s' \<Rightarrow> f c \<and> k (Some c) s')"
| "rx_match (Many f) p s k = many f p s k"
| "rx_match (Seq a b) p s k = rx_match a p s (\<lambda>p s. rx_match b p s k)"
| "rx_match (Alt a b) p s k = (rx_match a p s k \<or> rx_match b p s k)"
| "rx_match Boundary p s k = (word_at p \<noteq> word_at (first_char s) \<and> k p s)"
| "rx_match AtStart p s k = (p = None \<and> k p s)"
| "rx_match AtEnd p s k = ((s = [] \<or> s = [CHR 0x0A]) \<and> k p s)"

fun rx_search_from :: "rx \<Rightarrow> char option \<Rightarrow> string \<Rightarrow> bool" where
  "rx_search_from r p [] = rx_match r p [] (\<lambda>_ _. True)"
| "rx_search_from r p (c # s) = (rx_match r p (c # s) (\<lambda>_ _. True) \<or> rx_search_from r (Some c) s)"

definition rx_search :: "rx \<Rightarrow> string \<Rightarrow> bool" where
  "rx_search r s = rx_search_from r None s"

text \<open>Abbreviating constructors for \<^verbatim>\<open>abc\<close>, \<^verbatim>\<open>\s\<close>, \<^verbatim>\<open>\s+\<close> and \<^verbatim>\<open>[^...]*\<close>.\<close>

fun seqs :: "rx list \<Rightarrow> rx" where
  "seqs [] = Many (\<lambda>_. False)"
| "seqs [r] = r"
| "seqs (r # rs) = Seq r (seqs rs)"

fun alts :: "rx list \<Rightarrow> rx" where
  "alts [] = One (\<lambda>_. False)"
| "alts [r] = r"
| "alts (r # rs) = Alt r (alts rs)"

definition lit :: "string \<Rightarrow> rx" where
  "lit s = seqs (map (\<lambda>c. One (\<lambda>x. x = c)) s)"

definition spaces0 :: rx where "spaces0 = Many space_char"
definition spaces1 :: rx where "spaces1 = Seq (One space_char) (Many space_char)"

definition none_of :: "string \<Rightarrow> rx" where
  "none_of cs = Many (\<lambda>c. c \<notin> set cs)"

section \<open>Shell-style patterns\<close>

text \<open>A text is cut into its characters, each the list of its UTF-8 bytes; the order of byte lists
  is the order of code points.\<close>

definition continuation_byte :: "char \<Rightarrow> bool" where
  "continuation_byte c \<longleftrightarrow> 128 \<le> (of_char c :: nat) \<and> of_char c < (192 :: nat)"

fun utf8_chars :: "string \<Rightarrow> string list" where
  "utf8_chars [] = []"
| "utf8_chars (c # s) =
     (case utf8_chars s of
        [] \<Rightarrow> [[c]]
      | g # gs \<Rightarrow> if continuation_byte (hd g) then (c # g) # gs else [c] # g # gs)"

datatype set_item = Single string | Range string string

datatype glob_item = Star | AnyChar | NeverMatch | LitChar string | CharSet bool "set_item list"

text \<open>The inside of \<^verbatim>\<open>[...]\<close>: a hyphen between two characters makes a range; ranges that are
  empty are dropped before a leading exclamation mark is read as negation.\<close>

fun scan_set :: "string list \<Rightarrow> set_item list" where
  "scan_set (a # h # b # r) = (if h = ''-'' then Range a b # scan_set r else Single a # scan_set (h # b # r))"
| "scan_set (a # r) = Single a # scan_set r"
| "scan_set [] = []"

fun live_item :: "set_item \<Rightarrow> bool" where
  "live_item (Range a b) = (a \<le> b)" | "live_item (Single _) = True"

definition set_items :: "string list \<Rightarrow> set_item list" where
  "set_items body = filter live_item
     (case body of [] \<Rightarrow> [] | c # r \<Rightarrow> if c = ''!'' then Single c # scan_set r else scan_set body)"

definition bracket_item :: "string list \<Rightarrow> glob_item" where
  "bracket_item body =
     (case set_items body of
        [] \<Rightarrow> NeverMatch
      | Single c # r \<Rightarrow>
          if c \<noteq> ''!'' then CharSet False (Single c # r)
          else if r = [] then AnyChar else CharSet True r
      | Range a b # r \<Rightarrow>
          if a = ''!'' then CharSet True (Single ''-'' # Single b # r) else CharSet False (Range a b # r))"

text \<open>Up to the closing bracket; a bracket right after the opening one (or after the exclamation mark)
  belongs to the set.\<close>

definition bracket_prefix :: "string list \<Rightarrow> nat" where
  "bracket_prefix p =
     (let i = (if take 1 p = [''!''] then 1 else 0) in
      if take 1 (drop i p) = ['']''] then Suc i else i)"

definition split_bracket :: "string list \<Rightarrow> (string list \<times> string list) option" where
  "split_bracket p =
     (let k = bracket_prefix p; rest = drop k p in
      if ('']'' :: string) \<in> set rest
      then Some (take k p @ takeWhile (\<lambda>c. c \<noteq> '']'') rest, tl (dropWhile (\<lambda>c. c \<noteq> '']'') rest))
      else None)"

lemma split_bracket_shorter:
  assumes "split_bracket p = Some (body, rest)"
  shows "length rest \<le> length p"
proof -
  have "rest = tl (dropWhile (\<lambda>c. c \<noteq> '']'') (drop (bracket_prefix p) p))"
    using assms by (simp add: split_bracket_def Let_def split: if_splits)
  moreover have "length (dropWhile (\<lambda>c. c \<noteq> '']'') (drop (bracket_prefix p) p)) \<le> length (drop (bracket_prefix p) p)"
    by (rule length_dropWhile_le)
  ultimately show ?thesis by simp
qed

function parse_glob :: "string list \<Rightarrow> glob_item list" where
  "parse_glob [] = []"
| "parse_glob (c # p) =
     (if c = ''*'' then Star # parse_glob p
      else if c = ''?'' then AnyChar # parse_glob p
      else if c = ''['' then
        (case split_bracket p of
           None \<Rightarrow> LitChar c # parse_glob p
         | Some br \<Rightarrow> bracket_item (fst br) # parse_glob (snd br))
      else LitChar c # parse_glob p)"
  by pat_completeness auto
termination
  by (relation "measure length") (auto simp: less_Suc_eq_le intro: split_bracket_shorter)

fun in_set_item :: "string \<Rightarrow> set_item \<Rightarrow> bool" where
  "in_set_item c (Single x) = (c = x)"
| "in_set_item c (Range a b) = (a \<le> c \<and> c \<le> b)"

fun char_matches :: "glob_item \<Rightarrow> string \<Rightarrow> bool" where
  "char_matches (LitChar x) c = (c = x)"
| "char_matches (CharSet neg items) c = ((\<exists>i \<in> set items. in_set_item c i) \<noteq> neg)"
| "char_matches AnyChar c = True"
| "char_matches _ c = False"

fun glob_match :: "glob_item list \<Rightarrow> string list \<Rightarrow> bool" where
  "glob_match [] cs = (cs = [])"
| "glob_match (Star # ps) [] = glob_match ps []"
| "glob_match (Star # ps) (c # cs) = (glob_match ps (c # cs) \<or> glob_match (Star # ps) cs)"
| "glob_match (p # ps) [] = False"
| "glob_match (p # ps) (c # cs) = (char_matches p c \<and> glob_match ps cs)"

definition fnmatchcase :: "string \<Rightarrow> string \<Rightarrow> bool" where
  "fnmatchcase name pattern = glob_match (parse_glob (utf8_chars pattern)) (utf8_chars name)"

section \<open>Splitting a command line\<close>

text \<open>The states of \<^verbatim>\<open>shlex\<close> in POSIX mode with \<^verbatim>\<open>whitespace_split\<close>: between tokens,
  in a token, inside a quotation, and after a backslash (with the state to go back to).\<close>

datatype shlex_state = Blank | InWord | InQuote char | Escape "char option"

definition shlex_space :: "char \<Rightarrow> bool" where
  "shlex_space c \<longleftrightarrow> c \<in> {CHR '' '', CHR 0x09, CHR 0x0D, CHR 0x0A}"

definition is_quote :: "char \<Rightarrow> bool" where
  "is_quote c \<longleftrightarrow> c = CHR 0x27 \<or> c = CHR 0x22"

definition emit_token :: "string \<Rightarrow> bool \<Rightarrow> (exn, string list) result \<Rightarrow> (exn, string list) result" where
  "emit_token tok quoted r = (if tok \<noteq> [] \<or> quoted then bindE r (\<lambda>ts. Inr (tok # ts)) else r)"

fun shlex_loop :: "shlex_state \<Rightarrow> string \<Rightarrow> bool \<Rightarrow> string \<Rightarrow> (exn, string list) result" where
  "shlex_loop Blank tok quoted [] = emit_token tok quoted (Inr [])"
| "shlex_loop InWord tok quoted [] = emit_token tok quoted (Inr [])"
| "shlex_loop (InQuote q) tok quoted [] = Inl (Exn ValueError ''No closing quotation'')"
| "shlex_loop (Escape back) tok quoted [] = Inl (Exn ValueError ''No escaped character'')"
| "shlex_loop Blank tok quoted (c # s) =
     (if shlex_space c then emit_token tok quoted (shlex_loop Blank [] False s)
      else if c = CHR 0x5C then shlex_loop (Escape None) tok quoted s
      else if is_quote c then shlex_loop (InQuote c) tok quoted s
      else shlex_loop InWord [c] quoted s)"
| "shlex_loop InWord tok quoted (c # s) =
     (if shlex_space c then emit_token tok quoted (shlex_loop Blank [] False s)
      else if is_quote c then shlex_loop (InQuote c) tok quoted s
      else if c = CHR 0x5C then shlex_loop (Escape None) tok quoted s
      else shlex_loop InWord (tok @ [c]) quoted s)"
| "shlex_loop (InQuote q) tok quoted (c # s) =
     (if c = q then shlex_loop InWord tok True s
      else if c = CHR 0x5C \<and> q = CHR 0x22 then shlex_loop (Escape (Some q)) tok True s
      else shlex_loop (InQuote q) (tok @ [c]) True s)"
| "shlex_loop (Escape back) tok quoted (c # s) =
     (case back of
        None \<Rightarrow> shlex_loop InWord (tok @ [c]) quoted s
      | Some q \<Rightarrow> shlex_loop (InQuote q)
          (tok @ (if c \<noteq> CHR 0x5C \<and> c \<noteq> q then [CHR 0x5C] else []) @ [c]) quoted s)"

definition shlex_split :: "string \<Rightarrow> (exn, string list) result" where
  "shlex_split s = shlex_loop Blank [] False s"

end
