(* ===== verification/Security.thy ===== *)
theory Security
  imports Patterns AgentTypes SessionCodec
begin

text \<open>
  Tool policy and approval (\<^verbatim>\<open>src/pi_agent/security/\<close>): how a request is classified, which
  rule decides, and the manager that asks for approval, remembers grants and keeps the audit
  trail.  Case folding, word characters and white space are those of ASCII text.
\<close>

section \<open>Data\<close>

datatype risk_level = Low | Medium | High | Critical
datatype decision_effect = Allow | Deny | Ask
datatype approval_scope = Once | SessionExact | SessionPattern
datatype rule_matcher = Exact | Glob

instantiation risk_level :: linorder
begin

fun rank :: "risk_level \<Rightarrow> nat" where
  "rank Low = 0" | "rank Medium = 1" | "rank High = 2" | "rank Critical = 3"

definition less_eq_risk_level :: "risk_level \<Rightarrow> risk_level \<Rightarrow> bool" where
  "less_eq_risk_level a b = (rank a \<le> rank b)"

definition less_risk_level :: "risk_level \<Rightarrow> risk_level \<Rightarrow> bool" where
  "less_risk_level a b = (rank a < rank b)"

instance
proof
  fix a b :: risk_level
  show "a \<le> b \<Longrightarrow> b \<le> a \<Longrightarrow> a = b"
    by (cases a; cases b) (simp_all add: less_eq_risk_level_def)
qed (auto simp: less_eq_risk_level_def less_risk_level_def)

end

record tool_request =
  rq_tool :: string
  rq_arguments :: jobject
  rq_session_id :: "string option"
  rq_cwd :: "string option"
  rq_risk :: risk_level

record policy_decision =
  pd_effect :: decision_effect
  pd_reason :: string
  pd_rule_id :: "string option"
  pd_risk :: risk_level

record approval_response =
  ar_approved :: bool
  ar_scope :: approval_scope
  ar_pattern :: "string option"
  ar_reason :: string

record policy_rule =
  pr_id :: string
  pr_effect :: decision_effect
  pr_tool :: string
  pr_matcher :: rule_matcher
  pr_arguments :: jobject
  pr_reason :: string
  pr_risk :: "risk_level option"

record approval_grant =
  gr_tool :: string
  gr_matcher :: rule_matcher
  gr_arguments :: jobject
  gr_pattern :: "string option"
  gr_created_at :: pyfloat

record audit_record =
  au_timestamp :: pyfloat
  au_request :: tool_request
  au_decision :: policy_decision
  au_approval :: "approval_response option"

section \<open>Classification\<close>

text \<open>The parts of \<^verbatim>\<open>Path(value)\<close> on a POSIX system; \<open>home\<close> is the home directory that
  \<^verbatim>\<open>os.path.expanduser\<close> finds for a first part that starts with a tilde, if any.\<close>

definition posix_root :: "string \<Rightarrow> string" where
  "posix_root s =
     (if take 1 s \<noteq> ''/'' then ''''
      else if take 2 s = ''//'' \<and> take 3 s \<noteq> ''///'' then ''//'' else ''/'')"

definition posix_parts :: "string \<Rightarrow> string list" where
  "posix_parts s = (if posix_root s = '''' then [] else [posix_root s]) @
     filter (\<lambda>p. p \<noteq> '''' \<and> p \<noteq> ''.'') (split_on (CHR ''/'') s)"

definition is_absolute :: "string list \<Rightarrow> bool" where
  "is_absolute parts \<longleftrightarrow> (case parts of [] \<Rightarrow> False | p # _ \<Rightarrow> take 1 p = ''/'')"

definition expanduser :: "(string \<Rightarrow> string option) \<Rightarrow> string \<Rightarrow> (exn, string list) result" where
  "expanduser home s =
     (case posix_parts s of
        [] \<Rightarrow> Inr []
      | p # ps \<Rightarrow>
          if take 1 p = ''~'' then
            (case home p of
               None \<Rightarrow> Inl (Exn RuntimeError ''Could not determine home directory.'')
             | Some h \<Rightarrow> Inr (posix_parts h @ ps))
          else Inr (p # ps))"

definition SENSITIVE_PARTS :: "string list" where
  "SENSITIVE_PARTS = [''.ssh'', ''.gnupg'', ''etc'', ''system32'', ''private'', ''secrets'']"

definition is_sensitive_path :: "(string \<Rightarrow> string option) \<Rightarrow> string \<Rightarrow> (exn, bool) result" where
  "is_sensitive_path home s = bindE (expanduser home s) (\<lambda>parts.
     Inr (is_absolute parts \<and> length parts \<le> 2 \<or>
          (\<exists>p \<in> set parts. lower p \<in> set SENSITIVE_PARTS)))"

fun argument_string :: "jobject \<Rightarrow> string list \<Rightarrow> string option" where
  "argument_string args [] = None"
| "argument_string args (k # ks) =
     (case jget args k of JStr s \<Rightarrow> Some s | _ \<Rightarrow> argument_string args ks)"

definition slash_end :: rx where "slash_end = alts [One space_char, AtEnd]"

definition critical_patterns :: "rx list" where
  "critical_patterns =
    [seqs [alts [AtStart, Seq (One (\<lambda>c. c \<in> set '';&|'')) spaces0], lit ''rm'', spaces1, lit ''-'',
       none_of [CHR 0x0A], lit ''r'', none_of [CHR 0x0A], spaces1, lit ''/'', slash_end],
     seqs [Boundary, lit ''mkfs'', alts [lit ''.'', One space_char]],
     seqs [Boundary, lit ''dd'', spaces1, none_of [CHR 0x0A], Boundary, lit ''of=/dev/''],
     alts [seqs [Boundary, lit ''shutdown'', Boundary], seqs [Boundary, lit ''reboot'', Boundary],
       seqs [Boundary, lit ''halt'', Boundary]],
     seqs [Boundary, lit ''chmod'', spaces1, lit ''-R'', spaces1, lit ''777'', spaces1, lit ''/''],
     seqs [Boundary, lit ''curl'', Boundary, none_of [CHR 0x0A, CHR ''|''], lit ''|'', spaces0,
       alts [lit ''sh'', lit ''bash''], Boundary],
     seqs [Boundary, lit ''wget'', Boundary, none_of [CHR 0x0A, CHR ''|''], lit ''|'', spaces0,
       alts [lit ''sh'', lit ''bash''], Boundary]]"

definition HIGH_TOKENS :: "string list" where
  "HIGH_TOKENS = [''rm'', ''mv'', ''chmod'', ''chown'', ''sudo'', ''git'', ''pip'', ''npm'', ''uv'', ''kill'', ''pkill'']"

text \<open>The words in command position: the first one, and those after an operator that stands alone.\<close>

fun commands_after :: "bool \<Rightarrow> string list \<Rightarrow> string list" where
  "commands_after start [] = []"
| "commands_after start (t # ts) =
     (if start then [t] else []) @ commands_after (t \<in> {'';'', ''&&'', ''||'', ''|''}) ts"

definition classify_command :: "string \<Rightarrow> risk_level" where
  "classify_command command =
     (if \<exists>r \<in> set critical_patterns. rx_search r (lower command) then Critical
      else case shlex_split command of
          Inl _ \<Rightarrow> High
        | Inr tokens \<Rightarrow>
            if \<exists>t \<in> set (commands_after True tokens). t \<in> set HIGH_TOKENS then High
            else if CHR ''>'' \<in> set command \<or> CHR ''|'' \<in> set command then High
            else if tokens = [] then Low else Medium)"

definition classify_request :: "(string \<Rightarrow> string option) \<Rightarrow> tool_request \<Rightarrow> (exn, risk_level) result" where
  "classify_request home r =
     (let name = lower (rq_tool r) in
      if name \<in> {''read'', ''grep'', ''find'', ''ls''} then Inr Low
      else if name \<in> {''write'', ''edit'', ''patch'', ''apply_patch''} then
        (case argument_string (rq_arguments r) [''path'', ''file'', ''filePath''] of
           Some (c # s) \<Rightarrow> bindE (is_sensitive_path home (c # s)) (\<lambda>b. Inr (if b then Critical else High))
         | _ \<Rightarrow> Inr High)
      else if name \<in> {''bash'', ''shell'', ''exec'', ''command''} then
        Inr (classify_command (case argument_string (rq_arguments r) [''command'', ''cmd''] of
                                 None \<Rightarrow> [] | Some c \<Rightarrow> c))
      else if name \<in> {''delete'', ''remove'', ''unlink''} then Inr Critical
      else Inr (rq_risk r))"

section \<open>Policy\<close>

record tool_policy =
  tp_rules :: "policy_rule list"
  tp_default_effect :: decision_effect

definition canonical_arguments :: "jobject \<Rightarrow> string" where
  "canonical_arguments d = json_dumps compact_style (JObj d)"

fun nested_get :: "json \<Rightarrow> string list \<Rightarrow> json" where
  "nested_get v [] = v"
| "nested_get v (p # ps) =
     (case v of JObj d \<Rightarrow> if jmem p d then nested_get (jget d p) ps else JNull | _ \<Rightarrow> JNull)"

definition stringify :: "json \<Rightarrow> string" where
  "stringify v = (case v of JStr s \<Rightarrow> s | _ \<Rightarrow> json_dumps sorted_style v)"

definition argument_matches :: "rule_matcher \<Rightarrow> jobject \<Rightarrow> string \<times> json \<Rightarrow> bool" where
  "argument_matches matcher args ke =
     (let actual = nested_get (JObj args) (split_on (CHR ''.'') (fst ke)) in
      case matcher of
        Exact \<Rightarrow> py_eq actual (snd ke)
      | Glob \<Rightarrow> fnmatchcase (stringify actual) (stringify (snd ke)))"

definition matches_rule :: "policy_rule \<Rightarrow> tool_request \<Rightarrow> bool" where
  "matches_rule rule r \<longleftrightarrow>
     (case pr_matcher rule of
        Exact \<Rightarrow> rq_tool r = pr_tool rule
      | Glob \<Rightarrow> fnmatchcase (rq_tool r) (pr_tool rule)) \<and>
     (\<forall>ke \<in> set (pr_arguments rule). argument_matches (pr_matcher rule) (rq_arguments r) ke)"

definition rule_decision :: "policy_rule \<Rightarrow> risk_level \<Rightarrow> policy_decision" where
  "rule_decision rule risk =
     \<lparr>pd_effect = pr_effect rule,
      pd_reason = (if pr_reason rule = [] then ''matched policy rule '' @ pr_id rule else pr_reason rule),
      pd_rule_id = Some (pr_id rule),
      pd_risk = (case pr_risk rule of None \<Rightarrow> risk | Some k \<Rightarrow> k)\<rparr>"

definition evaluate :: "(string \<Rightarrow> string option) \<Rightarrow> tool_policy \<Rightarrow> tool_request \<Rightarrow> (exn, policy_decision) result" where
  "evaluate home p r = bindE (classify_request home r) (\<lambda>risk. Inr
     (case find (\<lambda>rule. matches_rule rule r) (tp_rules p) of
        Some rule \<Rightarrow> rule_decision rule risk
      | None \<Rightarrow> \<lparr>pd_effect = tp_default_effect p, pd_reason = ''no policy rule matched '' @ rq_tool r,
                 pd_rule_id = None, pd_risk = risk\<rparr>))"

fun effect_of :: "string \<Rightarrow> decision_effect option" where
  "effect_of s = (if s = ''allow'' then Some Allow else if s = ''deny'' then Some Deny
     else if s = ''ask'' then Some Ask else None)"

definition make_policy :: "policy_rule list \<Rightarrow> string \<Rightarrow> (exn, tool_policy) result" where
  "make_policy rules eff = (case effect_of eff of
       None \<Rightarrow> Inl (Exn ValueError ''default_effect must be allow, deny, or ask'')
     | Some e \<Rightarrow> Inr \<lparr>tp_rules = rules, tp_default_effect = e\<rparr>)"

definition add_rule ::
  "rule_matcher \<Rightarrow> string \<Rightarrow> string \<Rightarrow> string \<Rightarrow> jobject \<Rightarrow> string \<Rightarrow> tool_policy \<Rightarrow> (exn, tool_policy) result" where
  "add_rule matcher rule_id effect tool args reason p = (case effect_of effect of
       None \<Rightarrow> Inl (Exn ValueError ''effect must be allow, deny, or ask'')
     | Some e \<Rightarrow> Inr (p\<lparr>tp_rules := tp_rules p @ [\<lparr>pr_id = rule_id, pr_effect = e, pr_tool = tool,
          pr_matcher = matcher, pr_arguments = args, pr_reason = reason, pr_risk = None\<rparr>]\<rparr>))"

definition add_exact where "add_exact = add_rule Exact"
definition add_pattern where "add_pattern = add_rule Glob"

section \<open>Approval\<close>

text \<open>The manager's state.  The approval handler, the audit sink and the clock are functions of the
  rest of the world; the handler does not touch the manager.\<close>

record approval_manager =
  ap_policy :: tool_policy
  ap_session_id :: "string option"
  ap_grants :: "approval_grant list"
  ap_audit :: "audit_record list"

record 'v approval_env =
  ae_home :: "string \<Rightarrow> string option"
  ae_handler :: "tool_request \<Rightarrow> policy_decision \<Rightarrow> ('v, approval_response) hook"
  ae_sink :: "(audit_record \<Rightarrow> ('v, unit) hook) option"
  ae_time :: "'v \<Rightarrow> pyfloat"

type_synonym ('v, 'a) guarded = "(approval_manager \<times> 'v, 'a) hook"

definition and_then :: "('w, 'a) hook \<Rightarrow> ('a \<Rightarrow> ('w, 'b) hook) \<Rightarrow> ('w, 'b) hook" where
  "and_then f g w = (case f w of (Inl e, w') \<Rightarrow> (Inl e, w') | (Inr x, w') \<Rightarrow> g x w')"

lemma and_then_elim:
  assumes "and_then f g w = (r, w')"
  obtains (first_failed) e where "f w = (Inl e, w')" "r = Inl e"
  | (both) x w1 where "f w = (Inr x, w1)" "g x w1 = (r, w')"
proof (cases "f w")
  case (Pair x w1)
  then show thesis using assms first_failed both by (cases x) (auto simp: and_then_def)
qed

definition pure :: "'a \<Rightarrow> ('w, 'a) hook" where "pure x w = (Inr x, w)"
definition fails :: "exn \<Rightarrow> ('w, 'a) hook" where "fails e w = (Inl e, w)"
definition settle :: "(exn, 'a) result \<Rightarrow> ('w, 'a) hook" where "settle r w = (r, w)"

definition grant_matches :: "tool_request \<Rightarrow> approval_grant \<Rightarrow> bool" where
  "grant_matches r g \<longleftrightarrow> gr_tool g = rq_tool r \<and>
     (gr_matcher g = Exact \<and> py_eq (JObj (gr_arguments g)) (JObj (rq_arguments r)) \<or>
      gr_matcher g = Glob \<and> (case gr_pattern g of None \<Rightarrow> False
         | Some p \<Rightarrow> fnmatchcase (canonical_arguments (rq_arguments r)) p))"

definition matching_grant :: "tool_request \<Rightarrow> approval_grant list \<Rightarrow> approval_grant option" where
  "matching_grant r gs = find (grant_matches r) (rev gs)"

definition record_decision ::
  "'v approval_env \<Rightarrow> tool_request \<Rightarrow> policy_decision \<Rightarrow> approval_response option \<Rightarrow> ('v, unit) guarded" where
  "record_decision env r d a = (\<lambda>(m, v).
     let au = \<lparr>au_timestamp = ae_time env v, au_request = r, au_decision = d, au_approval = a\<rparr>;
         m' = m\<lparr>ap_audit := ap_audit m @ [au]\<rparr> in
     case ae_sink env of
       None \<Rightarrow> (Inr (), (m', v))
     | Some sink \<Rightarrow> (case sink au v of (x, v') \<Rightarrow> (x, (m', v'))))"

definition remember ::
  "pyfloat \<Rightarrow> tool_request \<Rightarrow> approval_response \<Rightarrow> approval_manager \<Rightarrow> (exn, approval_manager) result" where
  "remember t r a m = (case ar_scope a of
       Once \<Rightarrow> Inr m
     | SessionExact \<Rightarrow> Inr (m\<lparr>ap_grants := ap_grants m @ [\<lparr>gr_tool = rq_tool r, gr_matcher = Exact,
         gr_arguments = rq_arguments r, gr_pattern = None, gr_created_at = t\<rparr>]\<rparr>)
     | SessionPattern \<Rightarrow>
         (case ar_pattern a of
            Some (c # p) \<Rightarrow> Inr (m\<lparr>ap_grants := ap_grants m @ [\<lparr>gr_tool = rq_tool r, gr_matcher = Glob,
              gr_arguments = [], gr_pattern = Some (c # p), gr_created_at = t\<rparr>]\<rparr>)
          | _ \<Rightarrow> Inl (Exn ValueError ''session_pattern approval requires an explicit pattern'')))"

definition matcher_name :: "rule_matcher \<Rightarrow> string" where
  "matcher_name k = (case k of Exact \<Rightarrow> ''exact'' | Glob \<Rightarrow> ''glob'')"

definition granted :: "tool_request \<Rightarrow> approval_grant \<Rightarrow> policy_decision" where
  "granted r g = \<lparr>pd_effect = Allow, pd_reason = ''matched session '' @ matcher_name (gr_matcher g) @ '' approval'',
     pd_rule_id = None, pd_risk = rq_risk r\<rparr>"

definition normalize_request ::
  "(string \<Rightarrow> string option) \<Rightarrow> approval_manager \<Rightarrow> tool_request \<Rightarrow> (exn, tool_request) result" where
  "normalize_request home m r = bindE (classify_request home r) (\<lambda>risk. Inr
     \<lparr>rq_tool = rq_tool r, rq_arguments = rq_arguments r,
      rq_session_id = (case rq_session_id r of Some (c # s) \<Rightarrow> Some (c # s) | _ \<Rightarrow> ap_session_id m),
      rq_cwd = rq_cwd r, rq_risk = risk\<rparr>)"

text \<open>An authorization runs in three steps, at whose ends the call may be suspended: the check
  against grants and policy, the check again once the lock is held, and the answer.  A step
  either settles the call or passes on the decision that has to be put to the user.\<close>

datatype stage = Settled policy_decision | Pending policy_decision

definition check_request :: "'v approval_env \<Rightarrow> tool_request \<Rightarrow> ('v, stage) guarded" where
  "check_request env r = (\<lambda>(m, v).
     case matching_grant r (ap_grants m) of
       Some g \<Rightarrow> and_then (record_decision env r (granted r g) None) (\<lambda>_. pure (Settled (granted r g))) (m, v)
     | None \<Rightarrow> and_then (settle (evaluate (ae_home env) (ap_policy m) r)) (\<lambda>d.
         case pd_effect d of
           Allow \<Rightarrow> and_then (record_decision env r d None) (\<lambda>_. pure (Settled d))
         | Deny \<Rightarrow> and_then (record_decision env r d None) (\<lambda>_. fails (Exn ToolDeniedError (pd_reason d)))
         | Ask \<Rightarrow> pure (Pending d)) (m, v))"

definition check_again :: "'v approval_env \<Rightarrow> tool_request \<Rightarrow> policy_decision \<Rightarrow> ('v, stage) guarded" where
  "check_again env r d = (\<lambda>(m, v).
     case matching_grant r (ap_grants m) of
       Some g \<Rightarrow> and_then (record_decision env r (granted r g) None) (\<lambda>_. pure (Settled (granted r g))) (m, v)
     | None \<Rightarrow> pure (Pending d) (m, v))"

definition final_decision :: "tool_request \<Rightarrow> approval_response \<Rightarrow> policy_decision" where
  "final_decision r a = \<lparr>pd_effect = (if ar_approved a then Allow else Deny),
     pd_reason = (if ar_reason a \<noteq> [] then ar_reason a
                  else if ar_approved a then ''approved by user'' else ''denied by user''),
     pd_rule_id = None, pd_risk = rq_risk r\<rparr>"

definition answer_request ::
  "'v approval_env \<Rightarrow> tool_request \<Rightarrow> approval_response \<Rightarrow> ('v, policy_decision) guarded" where
  "answer_request env r a =
     (if ar_approved a then
        and_then (\<lambda>(m, v). case remember (ae_time env v) r a m of
                    Inl e \<Rightarrow> (Inl e, (m, v)) | Inr m' \<Rightarrow> (Inr (), (m', v))) (\<lambda>_.
        and_then (record_decision env r (final_decision r a) (Some a)) (\<lambda>_.
        pure (final_decision r a)))
      else
        and_then (record_decision env r (final_decision r a) (Some a)) (\<lambda>_.
        fails (Exn ToolDeniedError (pd_reason (final_decision r a)))))"

definition ask_user ::
  "'v approval_env \<Rightarrow> tool_request \<Rightarrow> policy_decision \<Rightarrow> ('v, approval_response) guarded" where
  "ask_user env r d = (\<lambda>(m, v). case ae_handler env r d v of (x, v') \<Rightarrow> (x, (m, v')))"

definition authorize :: "'v approval_env \<Rightarrow> tool_request \<Rightarrow> ('v, policy_decision) guarded" where
  "authorize env r = (\<lambda>(m, v).
     and_then (settle (normalize_request (ae_home env) m r)) (\<lambda>r.
     and_then (check_request env r) (\<lambda>st. case st of
       Settled d \<Rightarrow> pure d
     | Pending d \<Rightarrow> and_then (check_again env r d) (\<lambda>st'. case st' of
         Settled d' \<Rightarrow> pure d'
       | Pending d' \<Rightarrow> and_then (ask_user env r d') (\<lambda>a. answer_request env r a)))) (m, v))"

definition clear_grants :: "approval_manager \<Rightarrow> approval_manager" where
  "clear_grants m = m\<lparr>ap_grants := []\<rparr>"

definition guard_tool ::
  "'v approval_env \<Rightarrow> (approval_manager \<times> 'v) agent_tool \<Rightarrow> (approval_manager \<times> 'v) agent_tool" where
  "guard_tool env t = t\<lparr>t_execute := \<lambda>call_id args s.
     (case authorize env \<lparr>rq_tool = t_name t, rq_arguments = args, rq_session_id = ap_session_id (fst s),
              rq_cwd = None, rq_risk = Medium\<rparr> s of
        (Inl e, s') \<Rightarrow> (([], Inl e), s')
      | (Inr _, s') \<Rightarrow> t_execute t call_id args s')\<rparr>"

section \<open>Redaction\<close>

definition SECRET_KEYS :: "string list" where
  "SECRET_KEYS = [''api_key'', ''apikey'', ''authorization'', ''password'', ''secret'', ''token'',
     ''access_token'', ''refresh_token'']"

definition is_secret_key :: "string \<Rightarrow> bool" where
  "is_secret_key k \<longleftrightarrow> map (\<lambda>c. if c = CHR ''-'' then CHR ''_'' else c) (lower k) \<in> set SECRET_KEYS"

text \<open>The inner function keeps the key that \<^verbatim>\<open>_redact_sensitive\<close> passes down.\<close>

fun redact :: "string \<Rightarrow> json \<Rightarrow> json" where
  "redact k v = (if is_secret_key k then JStr ''[REDACTED]''
     else case v of
       JObj d \<Rightarrow> JObj (map (\<lambda>kv. (fst kv, redact (fst kv) (snd kv))) d)
     | JArr vs \<Rightarrow> JArr (map (redact '''') vs)
     | _ \<Rightarrow> v)"

text \<open>What \<^verbatim>\<open>JsonlAuditSink\<close> writes for a record.\<close>

definition risk_name :: "risk_level \<Rightarrow> string" where
  "risk_name k = (case k of Low \<Rightarrow> ''low'' | Medium \<Rightarrow> ''medium'' | High \<Rightarrow> ''high'' | Critical \<Rightarrow> ''critical'')"

definition effect_name :: "decision_effect \<Rightarrow> string" where
  "effect_name k = (case k of Allow \<Rightarrow> ''allow'' | Deny \<Rightarrow> ''deny'' | Ask \<Rightarrow> ''ask'')"

definition scope_name :: "approval_scope \<Rightarrow> string" where
  "scope_name k = (case k of Once \<Rightarrow> ''once'' | SessionExact \<Rightarrow> ''session_exact''
     | SessionPattern \<Rightarrow> ''session_pattern'')"

definition audit_json :: "audit_record \<Rightarrow> json" where
  "audit_json au = JObj
     [(''timestamp'', JFloat (au_timestamp au)),
      (''request'', JObj [(''tool'', JStr (rq_tool (au_request au))),
         (''arguments'', redact '''' (JObj (rq_arguments (au_request au)))),
         (''sessionId'', json_opt (rq_session_id (au_request au))),
         (''cwd'', json_opt (rq_cwd (au_request au))),
         (''risk'', JStr (risk_name (rq_risk (au_request au))))]),
      (''decision'', JObj [(''effect'', JStr (effect_name (pd_effect (au_decision au)))),
         (''reason'', JStr (pd_reason (au_decision au))),
         (''ruleId'', json_opt (pd_rule_id (au_decision au))),
         (''risk'', JStr (risk_name (pd_risk (au_decision au))))]),
      (''approval'', case au_approval au of
           None \<Rightarrow> JNull
         | Some a \<Rightarrow> JObj [(''approved'', JBool (ar_approved a)), (''scope'', JStr (scope_name (ar_scope a))),
             (''pattern'', json_opt (ar_pattern a)), (''reason'', JStr (ar_reason a))])]"

definition audit_line :: "audit_record \<Rightarrow> string" where
  "audit_line au = json_dumps unspaced_style (audit_json au) @ [CHR 0x0A]"

text \<open>What the console handler makes of the two lines the user may type.\<close>

definition refused_response :: "string \<Rightarrow> approval_response" where
  "refused_response reason = \<lparr>ar_approved = False, ar_scope = Once, ar_pattern = None, ar_reason = reason\<rparr>"

definition console_response :: "string \<Rightarrow> string \<Rightarrow> approval_response" where
  "console_response line pattern_line =
     (let answer = lower (strip line) in
      if answer \<in> {''y'', ''yes''} then \<lparr>ar_approved = True, ar_scope = Once, ar_pattern = None, ar_reason = []\<rparr>
      else if answer \<in> {''a'', ''always''} then
        \<lparr>ar_approved = True, ar_scope = SessionExact, ar_pattern = None, ar_reason = []\<rparr>
      else if answer \<in> {''p'', ''pattern''} then
        (if strip pattern_line = [] then refused_response ''empty approval pattern''
         else \<lparr>ar_approved = True, ar_scope = SessionPattern, ar_pattern = Some (strip pattern_line), ar_reason = []\<rparr>)
      else refused_response ''user denied tool call'')"

end
