(* ===== verification/SecurityCorrect.thy ===== *)
theory SecurityCorrect
  imports Security
begin

text \<open>
  What the approval layer guarantees: nothing is allowed without a reason that the audit trail
  shows, a guarded tool runs only after such an authorization, and the user is never asked for
  what has been granted, however many calls run at once.
\<close>

section \<open>One authorization\<close>

lemmas guard_defs = and_then_def pure_def fails_def settle_def

text \<open>Why a request was let through.\<close>

definition justified ::
  "'v approval_env \<Rightarrow> approval_manager \<Rightarrow> tool_request \<Rightarrow> policy_decision \<Rightarrow> approval_response option \<Rightarrow> bool" where
  "justified env m r d a \<longleftrightarrow> pd_effect d = Allow \<and>
     (case a of
        None \<Rightarrow> (\<exists>g \<in> set (ap_grants m). grant_matches r g) \<or> evaluate (ae_home env) (ap_policy m) r = Inr d
      | Some resp \<Rightarrow> ar_approved resp \<and>
          (\<forall>g \<in> set (ap_grants m). \<not> grant_matches r g) \<and>
          (\<exists>q. evaluate (ae_home env) (ap_policy m) r = Inr q \<and> pd_effect q = Ask \<and>
             (\<exists>v. fst (ae_handler env r q v) = Inr resp)))"

lemma matching_grant_Some: "matching_grant r gs = Some g \<Longrightarrow> g \<in> set gs \<and> grant_matches r g"
  by (auto simp: matching_grant_def find_Some_iff) (metis nth_mem set_rev length_rev)

lemma matching_grant_None: "matching_grant r gs = None \<longleftrightarrow> (\<forall>g \<in> set gs. \<not> grant_matches r g)"
  by (auto simp: matching_grant_def find_None_iff)

lemma record_decision_result:
  "record_decision env r d a (m, v) = (x, (m', v')) \<Longrightarrow>
   ap_audit m' = ap_audit m @ [\<lparr>au_timestamp = ae_time env v, au_request = r, au_decision = d, au_approval = a\<rparr>] \<and>
   ap_grants m' = ap_grants m \<and> ap_policy m' = ap_policy m"
  by (auto simp: record_decision_def Let_def split: option.splits prod.splits)

lemma remember_result:
  "remember t r a m = Inr m' \<Longrightarrow> ap_audit m' = ap_audit m \<and> ap_policy m' = ap_policy m \<and>
     (\<exists>gs. ap_grants m' = ap_grants m @ gs)"
  by (auto simp: remember_def split: approval_scope.splits option.splits list.splits)

lemma granted_allow [simp]: "pd_effect (granted r g) = Allow"
  by (simp add: granted_def)

text \<open>One new audit record that says \<open>r\<close> was decided as \<open>d\<close>.\<close>

definition audited ::
  "approval_manager \<Rightarrow> approval_manager \<Rightarrow> tool_request \<Rightarrow> policy_decision \<Rightarrow> approval_response option \<Rightarrow> bool" where
  "audited m m' r d a \<longleftrightarrow> (\<exists>t. ap_audit m' = ap_audit m @
     [\<lparr>au_timestamp = t, au_request = r, au_decision = d, au_approval = a\<rparr>])"

lemma record_audited: "record_decision env r d a (m, v) = (x, (m', v')) \<Longrightarrow> audited m m' r d a"
  using record_decision_result [of env r d a m v x m' v'] by (auto simp: audited_def)

lemma check_request_settled:
  assumes "check_request env r (m, v) = (Inr (Settled d), (m', v'))"
  shows "justified env m r d None \<and> audited m m' r d None"
proof (cases "matching_grant r (ap_grants m)")
  case (Some g)
  with assms matching_grant_Some [OF Some] show ?thesis
    by (auto simp: check_request_def guard_defs justified_def split: prod.splits sum.splits
        dest!: record_audited)
next
  case None
  with assms show ?thesis
    by (auto simp: check_request_def guard_defs justified_def split: prod.splits sum.splits
        decision_effect.splits dest!: record_audited)
qed

lemma check_request_pending:
  assumes "check_request env r (m, v) = (Inr (Pending d), (m', v'))"
  shows "m' = m \<and> v' = v \<and> evaluate (ae_home env) (ap_policy m) r = Inr d \<and> pd_effect d = Ask \<and>
    (\<forall>g \<in> set (ap_grants m). \<not> grant_matches r g)"
  using assms matching_grant_None [of r "ap_grants m"]
  by (auto simp: check_request_def guard_defs split: prod.splits sum.splits option.splits decision_effect.splits)

lemma answer_allowed:
  assumes "answer_request env r a (m, v) = (Inr d, (m', v'))"
  shows "ar_approved a \<and> d = final_decision r a \<and> audited m m' r d (Some a)"
  using assms by (auto simp: answer_request_def guard_defs audited_def split: if_splits prod.splits sum.splits
      dest!: record_decision_result remember_result)

lemma authorize_allowed:
  assumes "authorize env r0 (m, v) = (Inr d, (m', v'))"
  shows "\<exists>r a. normalize_request (ae_home env) m r0 = Inr r \<and> justified env m r d a \<and> audited m m' r d a"
proof -
  from assms obtain r where r: "normalize_request (ae_home env) m r0 = Inr r"
    by (cases "normalize_request (ae_home env) m r0") (simp_all add: authorize_def guard_defs)
  obtain x m1 v1 where c: "check_request env r (m, v) = (x, (m1, v1))" by (metis prod.exhaust)
  show ?thesis
  proof (cases x)
    case (Inl e)
    with assms r c show ?thesis by (simp add: authorize_def guard_defs)
  next
    case (Inr st)
    show ?thesis
    proof (cases st)
      case (Settled d')
      with assms r c Inr have "d' = d" "m1 = m'" by (simp_all add: authorize_def guard_defs)
      with check_request_settled [of env r m v d m' v1] c Inr Settled r show ?thesis by blast
    next
      case (Pending q)
      from check_request_pending [of env r m v q m1 v1] c Inr Pending have q: "m1 = m" "v1 = v"
        "evaluate (ae_home env) (ap_policy m) r = Inr q" "pd_effect q = Ask"
        "\<forall>g \<in> set (ap_grants m). \<not> grant_matches r g" by blast+
      then have "check_again env r q (m, v) = (Inr (Pending q), (m, v))"
        by (simp add: check_again_def matching_grant_None [THEN iffD2] pure_def)
      with assms r c Inr Pending q obtain a v2 where
        a: "ae_handler env r q v = (Inr a, v2)" "answer_request env r a (m, v2) = (Inr d, (m', v'))"
        by (auto simp: authorize_def guard_defs ask_user_def split: prod.splits sum.splits)
      from answer_allowed [OF a(2)] have "ar_approved a" "d = final_decision r a" "audited m m' r d (Some a)"
        by blast+
      moreover have "fst (ae_handler env r q v) = Inr a" using a(1) by simp
      ultimately have "justified env m r d (Some a)"
        using q by (auto simp: justified_def final_decision_def)
      with r \<open>audited m m' r d (Some a)\<close> show ?thesis by blast
    qed
  qed
qed

text \<open>C23: An authorization that succeeds is justified and on record: exactly one audit record is
  added, it is about this request and allows it, and the reason is a session grant that matches,
  a policy rule or default that allows, or the user's approval of exactly this request after the
  policy asked for it.\<close>

theorem authorization_justified:
  assumes "authorize env r0 (m, v) = (Inr d, (m', v'))"
  shows "\<exists>r a. normalize_request (ae_home env) m r0 = Inr r \<and> justified env m r d a \<and> audited m m' r d a"
  by (rule authorize_allowed [OF assms])

section \<open>Guarded tools\<close>

definition guarded_request :: "approval_manager \<Rightarrow> 'w agent_tool \<Rightarrow> jobject \<Rightarrow> tool_request" where
  "guarded_request m t args = \<lparr>rq_tool = t_name t, rq_arguments = args, rq_session_id = ap_session_id m,
     rq_cwd = None, rq_risk = Medium\<rparr>"

text \<open>C24: A guarded tool runs only when its call has been authorized: either the authorization
  fails, and then the tool is not executed and its error is the result; or one audit record that
  allows exactly this call has been added before the tool runs.\<close>

theorem guarded_tool_needs_authorization:
  "\<exists>x m' v'. authorize env (guarded_request m t args) (m, v) = (x, (m', v')) \<and>
     (case x of
        Inl e \<Rightarrow> t_execute (guard_tool env t) call_id args (m, v) = (([], Inl e), (m', v'))
      | Inr d \<Rightarrow> t_execute (guard_tool env t) call_id args (m, v) = t_execute t call_id args (m', v') \<and>
          (\<exists>r a. rq_tool r = t_name t \<and> rq_arguments r = args \<and> pd_effect d = Allow \<and> audited m m' r d a))"
proof -
  obtain x m' v' where run: "authorize env (guarded_request m t args) (m, v) = (x, (m', v'))"
    by (metis prod.exhaust)
  show ?thesis
  proof (cases x)
    case (Inl e)
    with run show ?thesis by (auto simp: guard_tool_def guarded_request_def)
  next
    case (Inr d)
    with run authorize_allowed [of env "guarded_request m t args" m v d m' v'] obtain r a where
      r: "normalize_request (ae_home env) m (guarded_request m t args) = Inr r"
      and "justified env m r d a" "audited m m' r d a" by auto
    moreover have "rq_tool r = t_name t" "rq_arguments r = args"
      using r by (auto simp: normalize_request_def guarded_request_def bindE_eq_Inr)
    ultimately show ?thesis using run Inr
      by (auto simp: guard_tool_def guarded_request_def justified_def)
  qed
qed

section \<open>Calls that run at once\<close>

text \<open>The calls of a session share the manager.  Between its steps a call may be suspended; the lock
  admits one call at a time to the user.  While it waits, the world may change and grants may be
  cleared.\<close>

datatype call_phase =
    Idle
  | Waiting tool_request policy_decision
  | Asking tool_request policy_decision
  | Done tool_request policy_decision
  | Refused

record 'v approval_system =
  sy_manager :: approval_manager
  sy_world :: 'v
  sy_calls :: "nat \<Rightarrow> call_phase"

fun after_check :: "(tool_request \<Rightarrow> policy_decision \<Rightarrow> call_phase) \<Rightarrow> tool_request \<Rightarrow> (exn, stage) result \<Rightarrow> call_phase" where
  "after_check wait r (Inl e) = Refused"
| "after_check wait r (Inr (Settled d)) = Done r d"
| "after_check wait r (Inr (Pending d)) = wait r d"

fun after_answer :: "tool_request \<Rightarrow> (exn, policy_decision) result \<Rightarrow> call_phase" where
  "after_answer r (Inl e) = Refused"
| "after_answer r (Inr d) = Done r d"

definition asking :: "call_phase \<Rightarrow> bool" where
  "asking p = (case p of Asking _ _ \<Rightarrow> True | _ \<Rightarrow> False)"

inductive approval_step :: "'v approval_env \<Rightarrow> 'v approval_system \<Rightarrow> 'v approval_system \<Rightarrow> bool" for env where
  step_begin: "sy_calls S i = Idle \<Longrightarrow> normalize_request (ae_home env) (sy_manager S) r0 = Inr r \<Longrightarrow>
     check_request env r (sy_manager S, sy_world S) = (x, (m, v)) \<Longrightarrow>
     approval_step env S \<lparr>sy_manager = m, sy_world = v, sy_calls = (sy_calls S)(i := after_check Waiting r x)\<rparr>"
| step_acquire: "sy_calls S i = Waiting r d \<Longrightarrow> \<forall>j. \<not> asking (sy_calls S j) \<Longrightarrow>
     check_again env r d (sy_manager S, sy_world S) = (x, (m, v)) \<Longrightarrow>
     approval_step env S \<lparr>sy_manager = m, sy_world = v, sy_calls = (sy_calls S)(i := after_check Asking r x)\<rparr>"
| step_answer: "sy_calls S i = Asking r d \<Longrightarrow>
     answer_request env r a (sy_manager S, sy_world S) = (x, (m, v)) \<Longrightarrow>
     approval_step env S \<lparr>sy_manager = m, sy_world = v, sy_calls = (sy_calls S)(i := after_answer r x)\<rparr>"
| step_withdraw: "sy_calls S i = Asking r d \<Longrightarrow>
     approval_step env S (S\<lparr>sy_calls := (sy_calls S)(i := Refused)\<rparr>)"
| step_world: "approval_step env S (S\<lparr>sy_world := v\<rparr>)"
| step_clear: "approval_step env S (S\<lparr>sy_manager := clear_grants (sy_manager S)\<rparr>)"

inductive approval_run :: "'v approval_env \<Rightarrow> 'v approval_system \<Rightarrow> 'v approval_system \<Rightarrow> bool" for env where
  no_steps: "approval_run env S S"
| more_steps: "approval_run env S S' \<Longrightarrow> approval_step env S' S'' \<Longrightarrow> approval_run env S S''"

text \<open>The invariant of the running system.\<close>

definition grants_free :: "tool_request \<Rightarrow> approval_manager \<Rightarrow> bool" where
  "grants_free r m \<longleftrightarrow> (\<forall>g \<in> set (ap_grants m). \<not> grant_matches r g)"

definition on_record :: "tool_request \<Rightarrow> policy_decision \<Rightarrow> approval_manager \<Rightarrow> bool" where
  "on_record r d m \<longleftrightarrow> pd_effect d = Allow \<and>
     (\<exists>au \<in> set (ap_audit m). au_request au = r \<and> au_decision au = d)"

definition system_ok :: "'v approval_system \<Rightarrow> bool" where
  "system_ok S \<longleftrightarrow>
     (\<forall>i j. asking (sy_calls S i) \<longrightarrow> asking (sy_calls S j) \<longrightarrow> i = j) \<and>
     (\<forall>i r d. sy_calls S i = Asking r d \<longrightarrow> grants_free r (sy_manager S)) \<and>
     (\<forall>i r d. sy_calls S i = Done r d \<longrightarrow> on_record r d (sy_manager S))"

lemma asking_simps [simp]:
  "asking (Asking r d)" "\<not> asking Idle" "\<not> asking (Waiting r d)" "\<not> asking (Done r d)" "\<not> asking Refused"
  by (simp_all add: asking_def)

lemma audited_on_record: "audited m m' r d a \<Longrightarrow> pd_effect d = Allow \<Longrightarrow> on_record r d m'"
  by (auto simp: audited_def on_record_def)

lemma on_record_mono: "on_record r d m \<Longrightarrow> prefix (ap_audit m) (ap_audit m') \<Longrightarrow> on_record r d m'"
  by (auto simp: on_record_def prefix_def)

lemma check_request_frame:
  assumes "check_request env r (m, v) = (x, (m', v'))"
  shows "ap_grants m' = ap_grants m \<and> prefix (ap_audit m) (ap_audit m')"
proof -
  have "ap_grants n' = ap_grants n \<and> prefix (ap_audit n) (ap_audit n')"
    if "record_decision env r d None (n, u) = (y, (n', u'))" for d n u y n' u'
    using record_decision_result [OF that] by simp
  with assms show ?thesis
    by (auto simp: check_request_def guard_defs split: option.splits prod.splits sum.splits decision_effect.splits)
qed

lemma check_again_frame:
  assumes "check_again env r d (m, v) = (x, (m', v'))"
  shows "ap_grants m' = ap_grants m \<and> prefix (ap_audit m) (ap_audit m') \<and>
    (case x of Inl e \<Rightarrow> True | Inr (Settled d') \<Rightarrow> on_record r d' m' | Inr (Pending d') \<Rightarrow> grants_free r m')"
proof (cases "matching_grant r (ap_grants m)")
  case None
  with assms show ?thesis by (auto simp: check_again_def guard_defs grants_free_def matching_grant_None)
next
  case (Some g)
  with assms obtain y where rec: "record_decision env r (granted r g) None (m, v) = (y, (m', v'))"
    and x: "x = (case y of Inl e \<Rightarrow> Inl e | Inr _ \<Rightarrow> Inr (Settled (granted r g)))"
    by (auto simp: check_again_def guard_defs split: prod.splits sum.splits)
  show ?thesis using record_decision_result [OF rec] audited_on_record [OF record_audited [OF rec]] x
    by (auto split: sum.split)
qed

lemma answer_frame:
  assumes "answer_request env r a (m, v) = (x, (m', v'))"
  shows "prefix (ap_audit m) (ap_audit m') \<and> (case x of Inl e \<Rightarrow> True | Inr d \<Rightarrow> on_record r d m')"
proof -
  have "prefix (ap_audit n) (ap_audit n')"
    if "record_decision env r d b (n, u) = (y, (n', u'))" for d b n u y n' u'
    using record_decision_result [OF that] by simp
  then have "prefix (ap_audit m) (ap_audit m')"
    using assms by (auto simp: answer_request_def guard_defs split: if_splits prod.splits sum.splits
      dest: remember_result) (metis remember_result)+
  moreover have "on_record r d m'" if "x = Inr d" for d
    using answer_allowed [of env r a m v d m' v'] assms that audited_on_record
    by (auto simp: final_decision_def)
  ultimately show ?thesis by (auto split: sum.split)
qed

lemma stage_cases:
  obtains (refused) e where "x = Inl e" | (settled) d where "x = Inr (Settled d)" | (waits) d where "x = Inr (Pending d)"
  by (metis sum.exhaust stage.exhaust)

text \<open>What one call's step may do to the others.\<close>

lemma system_ok_update:
  assumes "system_ok S" and "ap_grants m = ap_grants (sy_manager S) \<or> (\<forall>j. j \<noteq> i \<longrightarrow> \<not> asking (sy_calls S j))"
    and "prefix (ap_audit (sy_manager S)) (ap_audit m)"
    and "case p of
        Asking r d \<Rightarrow> grants_free r m \<and> (\<forall>j. j \<noteq> i \<longrightarrow> \<not> asking (sy_calls S j))
      | Done r d \<Rightarrow> on_record r d m
      | _ \<Rightarrow> True"
  shows "system_ok \<lparr>sy_manager = m, sy_world = v, sy_calls = (sy_calls S)(i := p)\<rparr>"
proof -
  have one: "k = l" if "asking (((sy_calls S)(i := p)) k)" "asking (((sy_calls S)(i := p)) l)" for k l
    using that assms(1,4) unfolding system_ok_def by (cases p) (auto split: if_splits)
  have free: "grants_free r m" if "((sy_calls S)(i := p)) k = Asking r d" for k r d
  proof (cases "k = i")
    case False
    with that have at_k: "sy_calls S k = Asking r d" by simp
    then have "ap_grants m = ap_grants (sy_manager S)" using assms(2) False by (metis asking_simps(1))
    with at_k assms(1) show ?thesis unfolding system_ok_def grants_free_def by metis
  qed (use that assms(4) in auto)
  have rec: "on_record r d m" if "((sy_calls S)(i := p)) k = Done r d" for k r d
  proof (cases "k = i")
    case False
    with that assms(1) have "on_record r d (sy_manager S)" by (auto simp: system_ok_def)
    then show ?thesis by (rule on_record_mono [OF _ assms(3)])
  qed (use that assms(4) in auto)
  show ?thesis unfolding system_ok_def approval_system.simps
    by (intro conjI allI impI) (rule one free rec; assumption)+
qed

lemma approval_step_ok:
  assumes "approval_step env S S'" and "system_ok S"
  shows "system_ok S'"
  using assms(1)
proof cases
  case (step_begin i r0 r x m v)
  note f = check_request_frame [OF step_begin(4)]
  have "on_record r d m" if "x = Inr (Settled d)" for d
    using check_request_settled [of env r "sy_manager S" "sy_world S" d m v] step_begin(4) that audited_on_record
    by (auto simp: justified_def)
  then show ?thesis unfolding step_begin(1) using f
    by (intro system_ok_update [OF assms(2)]) (cases x rule: stage_cases; simp)+
next
  case (step_acquire i r d x m v)
  note f = check_again_frame [OF step_acquire(4)]
  then show ?thesis unfolding step_acquire(1) using step_acquire(3)
    by (intro system_ok_update [OF assms(2)]) (cases x rule: stage_cases; simp)+
next
  case (step_answer i r d a x m v)
  note f = answer_frame [OF step_answer(3)]
  have "\<not> asking (sy_calls S j)" if "j \<noteq> i" for j
    using assms(2) step_answer(2) that unfolding system_ok_def by (metis asking_simps(1))
  with f show ?thesis unfolding step_answer(1)
    by (intro system_ok_update [OF assms(2)]) (cases x; simp)+
next
  case (step_withdraw i r d)
  then show ?thesis using assms(2) unfolding system_ok_def by (auto split: if_splits)
qed (use assms(2) in \<open>auto simp: system_ok_def grants_free_def on_record_def clear_grants_def\<close>)

text \<open>C25: However many calls are authorized at once and however their steps interleave, with the user
  answering, grants being remembered or cleared and calls being withdrawn: at most one call is
  with the user at any time, the user is never asked for a request that a current grant covers,
  and every call that was let through has an audit record that allows exactly it.\<close>

theorem concurrent_approvals_safe:
  assumes "approval_run env S S'" and "\<forall>i. sy_calls S i = Idle"
  shows "(\<forall>i j. asking (sy_calls S' i) \<and> asking (sy_calls S' j) \<longrightarrow> i = j) \<and>
    (\<forall>i r d. sy_calls S' i = Asking r d \<longrightarrow> matching_grant r (ap_grants (sy_manager S')) = None) \<and>
    (\<forall>i r d. sy_calls S' i = Done r d \<longrightarrow> pd_effect d = Allow \<and>
       (\<exists>au \<in> set (ap_audit (sy_manager S')). au_request au = r \<and> au_decision au = d))"
proof -
  have "system_ok S'"
    using assms
  proof (induction rule: approval_run.induct)
    case (no_steps S)
    then show ?case by (simp add: system_ok_def)
  next
    case (more_steps S S' S'')
    then show ?case using approval_step_ok by blast
  qed
  then show ?thesis by (auto simp: system_ok_def on_record_def grants_free_def matching_grant_None)
qed

section \<open>Where the checks fall short\<close>

text \<open>Does every match of the expression consume the character \<open>c\<close>?\<close>

primrec consumes :: "char \<Rightarrow> rx \<Rightarrow> bool" where
  "consumes c (One f) = (\<forall>x. f x \<longrightarrow> x = c)"
| "consumes c (Many f) = False"
| "consumes c (Seq a b) = (consumes c a \<or> consumes c b)"
| "consumes c (Alt a b) = (consumes c a \<and> consumes c b)"
| "consumes c Boundary = False"
| "consumes c AtStart = False"
| "consumes c AtEnd = False"

lemma many_suffix: "many f p s k \<Longrightarrow> \<exists>p' s'. k p' s' \<and> suffix s' s"
  by (induction f p s k rule: many.induct) (auto intro: suffix_ConsI)

lemma rx_match_suffix: "rx_match r p s k \<Longrightarrow> \<exists>p' s'. k p' s' \<and> suffix s' s \<and> (consumes c r \<longrightarrow> c \<in> set s)"
proof (induction r arbitrary: p s k)
  case (One f)
  then show ?case by (cases s) (auto intro: suffix_ConsI)
next
  case (Many f)
  then show ?case using many_suffix by fastforce
next
  case (Seq a b)
  from Seq.prems have "rx_match a p s (\<lambda>p s. rx_match b p s k)" by simp
  from Seq.IH(1) [OF this] obtain p1 s1 where
    1: "rx_match b p1 s1 k" "suffix s1 s" "consumes c a \<longrightarrow> c \<in> set s" by blast
  from Seq.IH(2) [OF 1(1)] obtain p2 s2 where
    2: "k p2 s2" "suffix s2 s1" "consumes c b \<longrightarrow> c \<in> set s1" by blast
  have "set s1 \<subseteq> set s" using 1(2) by (rule set_mono_suffix)
  with 1(3) 2(3) have "consumes c (Seq a b) \<longrightarrow> c \<in> set s" by auto
  with 2(1) suffix_order.trans [OF 2(2) 1(2)] show ?case by blast
next
  case (Alt a b)
  from Alt.prems consider "rx_match a p s k" | "rx_match b p s k" by auto
  then show ?case
  proof cases
    case 1
    from Alt.IH(1) [OF this] show ?thesis by auto
  next
    case 2
    from Alt.IH(2) [OF this] show ?thesis by auto
  qed
qed auto

lemma rx_search_consumes: "rx_search_from r p s \<Longrightarrow> consumes c r \<Longrightarrow> c \<in> set s"
proof (induction s arbitrary: p)
  case Nil
  then show ?case using rx_match_suffix [of r p "[]" "\<lambda>_ _. True" c] by auto
next
  case (Cons x s)
  then show ?case using rx_match_suffix [of r p "x # s" "\<lambda>_ _. True" c] by auto
qed

definition chmod_pattern :: rx where
  "chmod_pattern = critical_patterns ! 4"

lemma lower_no_R: "CHR ''R'' \<notin> set (lower s)"
proof -
  have "lower_char c \<noteq> CHR ''R''" for c
  proof
    assume eq: "lower_char c = CHR ''R''"
    show False
    proof (cases "65 \<le> (of_char c :: nat) \<and> of_char c \<le> (90 :: nat)")
      case True
      with eq have "char_of (of_char c + 32 :: nat) = CHR ''R''" by (simp add: lower_char_def)
      then have "of_char (char_of (of_char c + 32 :: nat) :: char) = (82 :: nat)" by simp
      with True show False by (simp add: of_char_of)
    next
      case False
      with eq have "c = CHR ''R''" by (simp add: lower_char_def)
      with False show False by simp
    qed
  qed
  then show ?thesis by (force simp: lower_def)
qed

text \<open>The pattern that is meant to make a recursive \<^verbatim>\<open>chmod -R 777 /\<close> critical never
  matches anything: the command is turned to lower case first, and the pattern asks for a capital
  letter.  The command itself is classified as high only.\<close>

theorem recursive_chmod_not_critical:
  "\<not> rx_search chmod_pattern (lower s) \<and> classify_command ''chmod -R 777 /'' = High"
proof
  have "consumes (CHR ''R'') chmod_pattern"
    by (simp add: chmod_pattern_def critical_patterns_def lit_def)
  then show "\<not> rx_search chmod_pattern (lower s)"
    using rx_search_consumes lower_no_R unfolding rx_search_def by blast
  show "classify_command ''chmod -R 777 /'' = High" by code_simp
qed

text \<open>When the user approves with a session pattern that is empty, the authorization raises
  before anything is recorded: the answer leaves no trace in the audit trail.\<close>

theorem empty_pattern_unaudited:
  assumes "normalize_request (ae_home env) m r0 = Inr r" and "matching_grant r (ap_grants m) = None"
    and "evaluate (ae_home env) (ap_policy m) r = Inr q" and "pd_effect q = Ask"
    and "ae_handler env r q v = (Inr a, v')" and "ar_approved a" and "ar_scope a = SessionPattern"
    and "ar_pattern a = None \<or> ar_pattern a = Some []"
  shows "\<exists>e. authorize env r0 (m, v) = (Inl e, (m, v')) \<and> exn_class e = ValueError"
  using assms by (auto simp: authorize_def guard_defs check_request_def check_again_def ask_user_def
      answer_request_def remember_def)

text \<open>A session grant is looked up before the policy: a request that a remembered grant covers is
  let through and recorded as approved even when a rule of the policy denies it.\<close>

theorem grant_outranks_deny:
  assumes "normalize_request (ae_home env) m r0 = Inr r" and "matching_grant r (ap_grants m) = Some g"
    and "evaluate (ae_home env) (ap_policy m) r = Inr q" and "pd_effect q = Deny" and "ae_sink env = None"
  shows "\<exists>m' d. authorize env r0 (m, v) = (Inr d, (m', v)) \<and> pd_effect d = Allow \<and> audited m m' r d None"
  using assms by (auto simp: authorize_def guard_defs check_request_def record_decision_def audited_def Let_def)

section \<open>The audit file\<close>

text \<open>No value that a secret key names is visible.\<close>

fun secrets_hidden :: "json \<Rightarrow> bool" where
  "secrets_hidden (JObj d) = (\<forall>kv \<in> set d. (is_secret_key (fst kv) \<longrightarrow> snd kv = JStr ''[REDACTED]'') \<and>
     secrets_hidden (snd kv))"
| "secrets_hidden (JArr vs) = (\<forall>v \<in> set vs. secrets_hidden v)"
| "secrets_hidden _ = True"

lemma redact_hidden: "secrets_hidden (redact k v) \<and> (is_secret_key k \<longrightarrow> redact k v = JStr ''[REDACTED]'')"
proof (induction k v rule: redact.induct)
  case (1 k v)
  show ?case
  proof (cases "is_secret_key k")
    case False
    show ?thesis
    proof (cases v)
      case (JObj d)
      then show ?thesis using 1(2) [OF False JObj] False by auto
    next
      case (JArr vs)
      then show ?thesis using 1(1) [OF False JArr] False by auto
    qed (use False in simp_all)
  qed simp
qed

text \<open>What the audit file records of a request's arguments never shows the value of a key that
  names a secret, however deeply it is nested and whatever its case or hyphens; everything else about
  the decision is written as it is.\<close>

theorem audit_hides_secrets:
  "\<exists>args rest. audit_json au = JObj rest \<and>
     jget rest ''request'' = JObj [(''tool'', JStr (rq_tool (au_request au))), (''arguments'', args),
        (''sessionId'', json_opt (rq_session_id (au_request au))), (''cwd'', json_opt (rq_cwd (au_request au))),
        (''risk'', JStr (risk_name (rq_risk (au_request au))))] \<and>
     args = redact '''' (JObj (rq_arguments (au_request au))) \<and> secrets_hidden args"
  using redact_hidden [of "''''" "JObj (rq_arguments (au_request au))"]
  by (simp add: audit_json_def jget_def)

section \<open>Instances\<close>

definition demo_request :: "string \<Rightarrow> tool_request" where
  "demo_request path = \<lparr>rq_tool = ''write'', rq_arguments = [(''path'', JStr path)], rq_session_id = None,
     rq_cwd = None, rq_risk = Medium\<rparr>"

definition demo_env :: "approval_response \<Rightarrow> unit approval_env" where
  "demo_env a = \<lparr>ae_home = (\<lambda>_. None), ae_handler = (\<lambda>r d v. (Inr a, v)), ae_sink = None,
     ae_time = (\<lambda>_. Fin 0)\<rparr>"

definition demo_manager :: "policy_rule list \<Rightarrow> approval_grant list \<Rightarrow> approval_manager" where
  "demo_manager rules gs = \<lparr>ap_policy = \<lparr>tp_rules = rules, tp_default_effect = Ask\<rparr>, ap_session_id = None,
     ap_grants = gs, ap_audit = []\<rparr>"

definition always_exact :: approval_response where
  "always_exact = \<lparr>ar_approved = True, ar_scope = SessionExact, ar_pattern = None, ar_reason = []\<rparr>"

definition empty_pattern :: approval_response where
  "empty_pattern = \<lparr>ar_approved = True, ar_scope = SessionPattern, ar_pattern = None, ar_reason = []\<rparr>"

definition any_write :: approval_grant where
  "any_write = \<lparr>gr_tool = ''write'', gr_matcher = Glob, gr_arguments = [], gr_pattern = Some ''*'',
     gr_created_at = Fin 0\<rparr>"

definition deny_secrets :: policy_rule where
  "deny_secrets = \<lparr>pr_id = ''deny'', pr_effect = Deny, pr_tool = ''write'', pr_matcher = Exact,
     pr_arguments = [(''path'', JStr ''secrets.txt'')], pr_reason = [], pr_risk = None\<rparr>"

theorem authorization_justified_witness:
  "\<exists>d m' r a. authorize (demo_env always_exact) (demo_request ''a'') (demo_manager [] [], ()) = (Inr d, (m', ())) \<and>
     justified (demo_env always_exact) (demo_manager [] []) r d a \<and> audited (demo_manager [] []) m' r d a"
proof -
  have "isInr (fst (authorize (demo_env always_exact) (demo_request ''a'') (demo_manager [] [], ())))"
    by code_simp
  then obtain d m' where run: "authorize (demo_env always_exact) (demo_request ''a'') (demo_manager [] [], ())
      = (Inr d, (m', ()))" by (cases "authorize (demo_env always_exact) (demo_request ''a'') (demo_manager [] [], ())")
      (auto simp: isInr_iff)
  from authorization_justified [OF run] run show ?thesis by blast
qed

lemma demo_asks:
  obtains r q where "normalize_request (ae_home (demo_env a)) (demo_manager [] []) (demo_request ''a'') = Inr r"
    "matching_grant r (ap_grants (demo_manager [] [])) = None"
    "evaluate (ae_home (demo_env a)) (ap_policy (demo_manager [] [])) r = Inr q" "pd_effect q = Ask"
proof -
  let ?r = "demo_request ''a'' \<lparr>rq_risk := High\<rparr>" and ?home = "\<lambda>_. None"
  let ?q = "\<lparr>pd_effect = Ask, pd_reason = ''no policy rule matched write'', pd_rule_id = None, pd_risk = High\<rparr>"
  have c: "classify_request ?home (demo_request ''a'') = Inr High" "classify_request ?home ?r = Inr High"
    by code_simp+
  have home: "ae_home (demo_env a) = ?home" by (simp add: demo_env_def)
  have "normalize_request ?home (demo_manager [] []) (demo_request ''a'') = Inr ?r"
    by (simp add: normalize_request_def c) (simp add: demo_request_def demo_manager_def)
  moreover have "evaluate ?home (ap_policy (demo_manager [] [])) ?r = Inr ?q"
    by (simp add: evaluate_def c) (simp add: demo_manager_def demo_request_def)
  ultimately show ?thesis
    by (intro that [of ?r ?q]) (simp_all add: home demo_manager_def matching_grant_def)
qed

theorem empty_pattern_unaudited_witness:
  "\<exists>e. authorize (demo_env empty_pattern) (demo_request ''a'') (demo_manager [] [], ()) =
     (Inl e, (demo_manager [] [], ())) \<and> exn_class e = ValueError"
proof -
  obtain r q where "normalize_request (ae_home (demo_env empty_pattern)) (demo_manager [] []) (demo_request ''a'') = Inr r"
    "matching_grant r (ap_grants (demo_manager [] [])) = None"
    "evaluate (ae_home (demo_env empty_pattern)) (ap_policy (demo_manager [] [])) r = Inr q" "pd_effect q = Ask"
    by (rule demo_asks)
  from empty_pattern_unaudited [OF this, where v = "()" and v' = "()" and a = empty_pattern]
  show ?thesis by (simp add: demo_env_def empty_pattern_def)
qed

theorem grant_outranks_deny_witness:
  "\<exists>m' d. authorize (demo_env always_exact) (demo_request ''secrets.txt'')
       (demo_manager [deny_secrets] [any_write], ()) = (Inr d, (m', ())) \<and> pd_effect d = Allow"
proof -
  let ?m = "demo_manager [deny_secrets] [any_write]" and ?home = "\<lambda>_. None"
  let ?r = "demo_request ''secrets.txt'' \<lparr>rq_risk := High\<rparr>"
  have c: "classify_request ?home (demo_request ''secrets.txt'') = Inr High"
    "classify_request ?home ?r = Inr High" by code_simp+
  have home: "ae_home (demo_env always_exact) = ?home" by (simp add: demo_env_def)
  have "normalize_request ?home ?m (demo_request ''secrets.txt'') = Inr ?r"
    by (simp add: normalize_request_def c) (simp add: demo_request_def demo_manager_def)
  moreover have "matching_grant ?r (ap_grants ?m) = Some any_write" by code_simp
  moreover have "matches_rule deny_secrets ?r" by code_simp
  then have "evaluate ?home (ap_policy ?m) ?r = Inr (rule_decision deny_secrets High)"
    by (simp add: evaluate_def c demo_manager_def)
  ultimately show ?thesis
    using grant_outranks_deny [of "demo_env always_exact" ?m "demo_request ''secrets.txt''" ?r any_write
      "rule_decision deny_secrets High" "()"]
    by (auto simp: home rule_decision_def deny_secrets_def) (auto simp: demo_env_def)
qed

definition idle_system :: "unit approval_system" where
  "idle_system = \<lparr>sy_manager = demo_manager [] [], sy_world = (), sy_calls = (\<lambda>_. Idle)\<rparr>"

theorem concurrent_approvals_safe_witness:
  "\<exists>S r d. approval_run (demo_env always_exact) idle_system S \<and> sy_calls S 0 = Asking r d \<and>
     (\<forall>j. asking (sy_calls S j) \<longrightarrow> j = 0) \<and> matching_grant r (ap_grants (sy_manager S)) = None"
proof -
  let ?m = "demo_manager [] []" and ?env = "demo_env always_exact"
  obtain r q where r: "normalize_request (ae_home ?env) ?m (demo_request ''a'') = Inr r"
    "matching_grant r (ap_grants ?m) = None" "evaluate (ae_home ?env) (ap_policy ?m) r = Inr q" "pd_effect q = Ask"
    by (rule demo_asks)
  define S1 where "S1 = \<lparr>sy_manager = ?m, sy_world = (), sy_calls = (sy_calls idle_system)(0 := Waiting r q)\<rparr>"
  define S2 where "S2 = \<lparr>sy_manager = ?m, sy_world = (), sy_calls = (sy_calls S1)(0 := Asking r q)\<rparr>"
  have "check_request ?env r (?m, ()) = (Inr (Pending q), (?m, ()))"
    using r by (simp add: check_request_def guard_defs)
  then have 1: "approval_step ?env idle_system S1"
    using step_begin [of idle_system 0 ?env "demo_request ''a''" r "Inr (Pending q)" ?m "()"] r(1)
    by (simp add: S1_def idle_system_def)
  have "check_again ?env r q (?m, ()) = (Inr (Pending q), (?m, ()))"
    using r(2) by (simp add: check_again_def pure_def)
  then have "approval_step ?env S1 S2"
    using step_acquire [of S1 0 r q ?env "Inr (Pending q)" ?m "()"]
    by (simp add: S1_def S2_def idle_system_def)
  from more_steps [OF more_steps [OF no_steps 1] this] have run: "approval_run ?env idle_system S2" .
  have "\<forall>i. sy_calls idle_system i = Idle" by (simp add: idle_system_def)
  from concurrent_approvals_safe [OF run this] have safe:
    "\<forall>i j. asking (sy_calls S2 i) \<and> asking (sy_calls S2 j) \<longrightarrow> i = j"
    "\<forall>i r d. sy_calls S2 i = Asking r d \<longrightarrow> matching_grant r (ap_grants (sy_manager S2)) = None"
    by (rule conjunct1, rule conjunct1 [OF conjunct2])
  have "sy_calls S2 0 = Asking r q" by (simp add: S2_def)
  with run safe show ?thesis by (metis asking_simps(1))
qed

end
