(* ===== verification/JsonRead.thy ===== *)
theory JsonRead
  imports JsonText
begin

text \<open>
  JSON text as \<^verbatim>\<open>json.loads\<close> reads it.  The text and the strings in it are UTF-8 bytes; a
  lone surrogate escape is read as its three-byte form.  Decimal fractions are exact rationals,
  Python's limits on the digits of an \<^verbatim>\<open>int\<close> and on nesting are not modelled, and neither is
  the wording of the error, so a text that is refused has no value.
\<close>

section \<open>Reading\<close>

definition json_space :: "char \<Rightarrow> bool" where
  "json_space c \<longleftrightarrow> c \<in> {CHR '' '', CHR 0x09, CHR 0x0A, CHR 0x0D}"

definition skip_ws :: "string \<Rightarrow> string" where
  "skip_ws s = dropWhile json_space s"

text \<open>The rest of the text when it starts with the character.\<close>

definition expect :: "char \<Rightarrow> string \<Rightarrow> string option" where
  "expect c s = (case s of [] \<Rightarrow> None | x # r \<Rightarrow> if x = c then Some r else None)"

definition after_prefix :: "string \<Rightarrow> string \<Rightarrow> string option" where
  "after_prefix p s = (if take (length p) s = p then Some (drop (length p) s) else None)"

subsection \<open>Strings\<close>

definition hex_value :: "char \<Rightarrow> nat option" where
  "hex_value c = (let n = of_char c :: nat in
     if 48 \<le> n \<and> n \<le> 57 then Some (n - 48)
     else if 65 \<le> n \<and> n \<le> 70 then Some (n - 55)
     else if 97 \<le> n \<and> n \<le> 102 then Some (n - 87) else None)"

fun read_hex4 :: "string \<Rightarrow> (nat \<times> string) option" where
  "read_hex4 (a # b # c # d # s) =
     (case (hex_value a, hex_value b, hex_value c, hex_value d) of
        (Some w, Some x, Some y, Some z) \<Rightarrow> Some (4096 * w + 256 * x + 16 * y + z, s)
      | _ \<Rightarrow> None)"
| "read_hex4 _ = None"

definition utf8_encode :: "nat \<Rightarrow> string" where
  "utf8_encode n =
     (if n < 128 then [char_of n]
      else if n < 2048 then [char_of (192 + n div 64), char_of (128 + n mod 64)]
      else if n < 65536 then [char_of (224 + n div 4096), char_of (128 + n div 64 mod 64), char_of (128 + n mod 64)]
      else [char_of (240 + n div 262144), char_of (128 + n div 4096 mod 64), char_of (128 + n div 64 mod 64),
            char_of (128 + n mod 64)])"

text \<open>After \<^verbatim>\<open>\u\<close>: a high surrogate joins the low surrogate escape that follows it.\<close>

definition read_unicode :: "string \<Rightarrow> (string \<times> string) option" where
  "read_unicode s =
     (case read_hex4 s of
        None \<Rightarrow> None
      | Some (n, r) \<Rightarrow>
          if 55296 \<le> n \<and> n < 56320 then
            (case after_prefix [CHR 0x5C, CHR ''u''] r of
               None \<Rightarrow> Some (utf8_encode n, r)
             | Some r1 \<Rightarrow>
                 (case read_hex4 r1 of
                    None \<Rightarrow> None
                  | Some (m, r2) \<Rightarrow>
                      if 56320 \<le> m \<and> m < 57344
                      then Some (utf8_encode (65536 + (n - 55296) * 1024 + (m - 56320)), r2)
                      else Some (utf8_encode n, r)))
          else Some (utf8_encode n, r))"

definition unescape :: "char \<Rightarrow> char option" where
  "unescape c =
     (if c = CHR 0x22 \<or> c = CHR 0x5C \<or> c = CHR ''/'' then Some c
      else if c = CHR ''b'' then Some (CHR 0x08) else if c = CHR ''f'' then Some (CHR 0x0C)
      else if c = CHR ''n'' then Some (CHR 0x0A) else if c = CHR ''r'' then Some (CHR 0x0D)
      else if c = CHR ''t'' then Some (CHR 0x09) else None)"

lemma read_hex4_shorter: "read_hex4 s = Some (n, r) \<Longrightarrow> length r < length s"
  by (cases s rule: read_hex4.cases) (auto split: option.splits)

lemma read_unicode_shorter: "read_unicode s = Some (b, r) \<Longrightarrow> length r < length s"
  by (auto simp: read_unicode_def after_prefix_def split: option.splits prod.splits if_splits
      dest!: read_hex4_shorter)

definition prepend :: "string \<Rightarrow> (string \<times> string) option \<Rightarrow> (string \<times> string) option" where
  "prepend b = map_option (apfst ((@) b))"

function read_string :: "string \<Rightarrow> (string \<times> string) option" where
  "read_string [] = None"
| "read_string (c # s) =
     (if c = CHR 0x22 then Some ([], s)
      else if c = CHR 0x5C then
        (case s of
           [] \<Rightarrow> None
         | e # r \<Rightarrow>
             if e = CHR ''u'' then
               (case read_unicode r of
                  None \<Rightarrow> None | Some br \<Rightarrow> prepend (fst br) (read_string (snd br)))
             else (case unescape e of
                  None \<Rightarrow> None | Some b \<Rightarrow> prepend [b] (read_string r)))
      else if of_char c < (32 :: nat) then None
      else prepend [c] (read_string s))"
  by pat_completeness auto
termination
  by (relation "measure length") (auto dest!: read_unicode_shorter)

subsection \<open>Numbers\<close>

definition int_part :: "string \<Rightarrow> string" where
  "int_part s = (case takeWhile is_digit s of
       [] \<Rightarrow> [] | d # ds \<Rightarrow> if d = CHR ''0'' then [d] else d # ds)"

definition frac_part :: "string \<Rightarrow> string" where
  "frac_part s = (case s of
       [] \<Rightarrow> []
     | c # t \<Rightarrow> if c = CHR ''.'' \<and> takeWhile is_digit t \<noteq> [] then c # takeWhile is_digit t else [])"

definition exp_part :: "string \<Rightarrow> string" where
  "exp_part s = (case s of
       [] \<Rightarrow> []
     | c # t \<Rightarrow>
         if c = CHR ''e'' \<or> c = CHR ''E'' then
           (let sg = (case t of [] \<Rightarrow> [] | x # _ \<Rightarrow> if x = CHR ''-'' \<or> x = CHR ''+'' then [x] else []);
                ds = takeWhile is_digit (drop (length sg) t)
            in if ds = [] then [] else c # sg @ ds)
         else [])"

definition digits_value :: "string \<Rightarrow> nat" where
  "digits_value ds = fold (\<lambda>c n. 10 * n + digit_val c) ds 0"

definition read_number :: "string \<Rightarrow> (json \<times> string) option" where
  "read_number s =
     (let sg = (if take 1 s = ''-'' then ''-'' else '''');
          s1 = drop (length sg) s; i = int_part s1;
          s2 = drop (length i) s1; f = frac_part s2;
          s3 = drop (length f) s2; x = exp_part s3; s4 = drop (length x) s3
      in if i = [] then None
         else if f = [] \<and> x = [] then
           Some (JInt (if sg = [] then int (digits_value i) else - int (digits_value i)), s4)
         else map_option (\<lambda>v. (JFloat v, s4)) (parse_float (sg @ i @ f @ x)))"

subsection \<open>Values\<close>

definition constants :: "(string \<times> json) list" where
  "constants = [(''null'', JNull), (''true'', JBool True), (''false'', JBool False),
     (''NaN'', JFloat NaN), (''Infinity'', JFloat PosInf), (''-Infinity'', JFloat NegInf)]"

fun read_constant :: "(string \<times> json) list \<Rightarrow> string \<Rightarrow> (json \<times> string) option" where
  "read_constant [] s = read_number s"
| "read_constant ((w, v) # ws) s =
     (case after_prefix w s of Some r \<Rightarrow> Some (v, r) | None \<Rightarrow> read_constant ws s)"

text \<open>One unit of fuel per value, member and element; the length of the text is enough.\<close>

fun read_value :: "nat \<Rightarrow> string \<Rightarrow> (json \<times> string) option"
and read_members :: "nat \<Rightarrow> jobject \<Rightarrow> string \<Rightarrow> (json \<times> string) option"
and read_elements :: "nat \<Rightarrow> json list \<Rightarrow> string \<Rightarrow> (json \<times> string) option" where
  "read_value 0 s = None"
| "read_value (Suc n) s =
     (case s of
        [] \<Rightarrow> None
      | c # r \<Rightarrow>
          if c = CHR 0x22 then map_option (apfst JStr) (read_string r)
          else if c = CHR ''{'' then
            (case expect (CHR ''}'') (skip_ws r) of
               Some r' \<Rightarrow> Some (JObj [], r') | None \<Rightarrow> read_members n [] (skip_ws r))
          else if c = CHR ''['' then
            (case expect (CHR '']'') (skip_ws r) of
               Some r' \<Rightarrow> Some (JArr [], r') | None \<Rightarrow> read_elements n [] (skip_ws r))
          else read_constant constants s)"
| "read_members 0 acc s = None"
| "read_members (Suc n) acc s =
     Option.bind (expect (CHR 0x22) s) (\<lambda>s1.
     Option.bind (read_string s1) (\<lambda>(k, s2).
     Option.bind (expect (CHR '':'') (skip_ws s2)) (\<lambda>s3.
     Option.bind (read_value n (skip_ws s3)) (\<lambda>(v, s4).
     case expect (CHR ''}'') (skip_ws s4) of
       Some r \<Rightarrow> Some (JObj (dict_set k v acc), r)
     | None \<Rightarrow> Option.bind (expect (CHR '','') (skip_ws s4)) (\<lambda>s5.
         read_members n (dict_set k v acc) (skip_ws s5))))))"
| "read_elements 0 acc s = None"
| "read_elements (Suc n) acc s =
     Option.bind (read_value n s) (\<lambda>(v, s1).
     case expect (CHR '']'') (skip_ws s1) of
       Some r \<Rightarrow> Some (JArr (acc @ [v]), r)
     | None \<Rightarrow> Option.bind (expect (CHR '','') (skip_ws s1)) (\<lambda>s2.
         read_elements n (acc @ [v]) (skip_ws s2)))"

definition json_loads :: "string \<Rightarrow> json option" where
  "json_loads s = Option.bind (read_value (Suc (length s)) (skip_ws s)) (\<lambda>(v, r).
     if skip_ws r = [] then Some v else None)"

section \<open>Characters\<close>

lemma skip_ws_id: "s \<noteq> [] \<Longrightarrow> \<not> json_space (hd s) \<Longrightarrow> skip_ws s = s"
  by (cases s) (simp_all add: skip_ws_def)

lemma skip_ws_Cons: "skip_ws (c # s) = (if json_space c then skip_ws s else c # s)"
  by (simp add: skip_ws_def)

lemma skip_ws_Nil [simp]: "skip_ws [] = []" by (simp add: skip_ws_def)

lemma expect_simps [simp]:
  "expect c [] = None" "expect c (x # s) = (if x = c then Some s else None)"
  by (simp_all add: expect_def)

lemma expect_append: "expect c s = Some r \<Longrightarrow> expect c (s @ q) = Some (r @ q)"
  by (cases s) (auto split: if_splits)

lemma skip_ws_append: "skip_ws s \<noteq> [] \<Longrightarrow> skip_ws (s @ q) = skip_ws s @ q"
  by (induction s) (auto simp: skip_ws_Cons)

lemma skip_ws_length: "length (skip_ws s) \<le> length s"
  by (simp add: skip_ws_def length_dropWhile_le)

end
