(* ===== verification/JsonRoundTrip.thy ===== *)
theory JsonRoundTrip
  imports JsonRead
begin

text \<open>
  What is written can be read back, and reading is stable: a text that starts with a complete value
  is read the same way whatever follows.
\<close>

section \<open>Strings\<close>

lemma hex_value_digit: "n < 16 \<Longrightarrow> hex_value (hex_digit n) = Some n"
  by (auto simp: hex_value_def hex_digit_def Let_def of_char_of)

lemma hex_value_zero: "hex_value (CHR ''0'') = Some 0"
  by (simp add: hex_value_def)

declare read_string.simps [simp del]
lemmas read_string_Cons = read_string.simps(2)

lemma read_string_escape: "read_string (escape_char c @ s) = prepend [c] (read_string s)"
proof (cases "c = CHR 0x22 \<or> c = CHR 0x5C \<or> c = CHR 0x0A \<or> c = CHR 0x0D \<or> c = CHR 0x09 \<or> c = CHR 0x08 \<or> c = CHR 0x0C")
  case True
  then show ?thesis
    by (elim disjE) (simp_all add: escape_char_def read_string_Cons unescape_def)
next
  case False
  show ?thesis
  proof (cases "of_char c < (32 :: nat)")
    case True
    define n where "n = (of_char c :: nat)"
    have c: "c = char_of n" by (simp add: n_def)
    have n: "n < 32" "n div 16 < 16" "n mod 16 < 16" using True by (simp_all add: n_def)
    have "read_unicode (CHR ''0'' # CHR ''0'' # hex_digit (n div 16) # hex_digit (n mod 16) # s) = Some ([c], s)"
      using n by (simp add: read_unicode_def hex_value_digit hex_value_zero utf8_encode_def c)
    moreover have "escape_char c = CHR 0x5C # CHR ''u'' # CHR ''0'' # CHR ''0'' # [hex_digit (n div 16), hex_digit (n mod 16)]"
      using True False by (simp add: escape_char_def n_def)
    ultimately show ?thesis by (simp add: read_string_Cons)
  next
    case False': False
    with False show ?thesis by (simp add: escape_char_def read_string_Cons)
  qed
qed

lemma read_string_dump: "read_string (concat (map escape_char s) @ CHR 0x22 # r) = Some (s, r)"
  by (induction s) (simp_all add: read_string_escape prepend_def read_string_Cons)

section \<open>Numbers\<close>

definition number_ends :: "string \<Rightarrow> bool" where
  "number_ends s \<longleftrightarrow> (case s of [] \<Rightarrow> True | c # _ \<Rightarrow>
     \<not> is_digit c \<and> c \<noteq> CHR ''.'' \<and> c \<noteq> CHR ''e'' \<and> c \<noteq> CHR ''E'')"

lemma digit_char [simp]: "n < 10 \<Longrightarrow> is_digit (char_of (48 + n))" "n < 10 \<Longrightarrow> digit_val (char_of (48 + n)) = n"
  by (simp_all add: is_digit_def digit_val_def of_char_of)

lemma nat_digits_digits: "c \<in> set (nat_digits n) \<Longrightarrow> is_digit c"
proof (induction n rule: nat_digits.induct)
  case (1 n)
  then show ?case by (subst (asm) (2) nat_digits.simps) (auto split: if_splits)
qed

lemma nat_digits_value: "digits_value (nat_digits n) = n"
proof (induction n rule: nat_digits.induct)
  case (1 n)
  then show ?case by (subst nat_digits.simps) (auto simp: digits_value_def)
qed

lemma nat_digits_not_Nil: "nat_digits n \<noteq> []"
  by (subst nat_digits.simps) simp

lemma nat_digits_hd: "nat_digits n = CHR ''0'' # ds \<Longrightarrow> ds = []"
proof (induction n arbitrary: ds rule: nat_digits.induct)
  case (1 n)
  show ?case
  proof (cases "n < 10")
    case True
    with 1(2) show ?thesis by (subst (asm) nat_digits.simps) simp
  next
    case False
    from False 1(2) have eq: "nat_digits (n div 10) @ [char_of (48 + n mod 10)] = CHR ''0'' # ds"
      by (subst (asm) nat_digits.simps) simp
    with nat_digits_not_Nil obtain ds' where "nat_digits (n div 10) = CHR ''0'' # ds'"
      by (cases "nat_digits (n div 10)") auto
    with 1(1) [OF False this] have "nat_digits (n div 10) = [CHR ''0'']" by simp
    then have "n div 10 = 0" using nat_digits_value [of "n div 10"] by (simp add: digits_value_def digit_val_def)
    with False show ?thesis by simp
  qed
qed

lemma takeWhile_digits:
  "number_ends r \<Longrightarrow> takeWhile is_digit (nat_digits n @ r) = nat_digits n"
  by (cases r) (auto simp: number_ends_def nat_digits_digits takeWhile_append)

lemma int_part_digits: "number_ends r \<Longrightarrow> int_part (nat_digits n @ r) = nat_digits n"
  using nat_digits_hd [of n] nat_digits_not_Nil [of n]
  by (auto simp: int_part_def takeWhile_digits split: list.split)

lemma no_fraction: "number_ends r \<Longrightarrow> frac_part r = [] \<and> exp_part r = []"
  by (cases r) (auto simp: number_ends_def frac_part_def exp_part_def)

lemma read_number_int:
  assumes "number_ends r" shows "read_number (py_str_int i @ r) = Some (JInt i, r)"
proof (cases "i < 0")
  case True
  then show ?thesis using assms no_fraction [OF assms]
    by (simp add: read_number_def py_str_int_def Let_def int_part_digits nat_digits_value nat_digits_not_Nil)
next
  case False
  have "take 1 (nat_digits n @ r) \<noteq> ''-''" for n
    using nat_digits_not_Nil [of n] nat_digits_digits [of "CHR ''-''" n]
    by (cases "nat_digits n") (auto simp: is_digit_def)
  with False show ?thesis using assms no_fraction [OF assms]
    by (simp add: read_number_def py_str_int_def Let_def int_part_digits nat_digits_value nat_digits_not_Nil)
qed

text \<open>A number is read the same way when more text follows that does not continue it.\<close>

lemma takeWhile_append_stop:
  "drop (length (takeWhile P s)) s \<noteq> [] \<or> q = [] \<or> \<not> P (hd q) \<Longrightarrow> takeWhile P (s @ q) = takeWhile P s"
  by (induction s) (auto, cases q, auto)

lemma digits_append_stop:
  "drop (length (takeWhile is_digit s)) s \<noteq> [] \<or> number_ends q \<Longrightarrow> takeWhile is_digit (s @ q) = takeWhile is_digit s"
  by (rule takeWhile_append_stop) (cases q; auto simp: number_ends_def)

lemma int_part_append:
  "drop (length (int_part s)) s \<noteq> [] \<or> number_ends q \<Longrightarrow> int_part (s @ q) = int_part s"
proof -
  assume a: "drop (length (int_part s)) s \<noteq> [] \<or> number_ends q"
  show ?thesis
  proof (cases s)
    case Nil
    with a show ?thesis by (cases q) (auto simp: int_part_def number_ends_def)
  next
    case (Cons d s')
    show ?thesis
    proof (cases "is_digit d \<and> d \<noteq> CHR ''0''")
      case True
      then have i: "int_part s = d # takeWhile is_digit s'" by (simp add: Cons int_part_def)
      then have "takeWhile is_digit (s' @ q) = takeWhile is_digit s'"
        using a by (intro digits_append_stop) (simp add: Cons)
      with True i show ?thesis by (simp add: Cons int_part_def)
    next
      case False
      then show ?thesis by (auto simp: Cons int_part_def)
    qed
  qed
qed

lemma frac_part_append:
  "frac_part s = [] \<Longrightarrow> (if s = [] then number_ends q else hd s \<noteq> CHR ''.'') \<Longrightarrow> frac_part (s @ q) = []"
  "drop (length (frac_part s)) s \<noteq> [] \<or> number_ends q \<Longrightarrow> frac_part s \<noteq> [] \<Longrightarrow> frac_part (s @ q) = frac_part s"
proof -
  assume "frac_part s = []" "if s = [] then number_ends q else hd s \<noteq> CHR ''.''"
  then show "frac_part (s @ q) = []"
    by (cases s; cases q) (auto simp: frac_part_def number_ends_def split: if_splits)
next
  assume a: "drop (length (frac_part s)) s \<noteq> [] \<or> number_ends q" "frac_part s \<noteq> []"
  then obtain t where s: "s = CHR ''.'' # t" "frac_part s = CHR ''.'' # takeWhile is_digit t" "takeWhile is_digit t \<noteq> []"
    by (cases s) (auto simp: frac_part_def split: if_splits)
  then have "takeWhile is_digit (t @ q) = takeWhile is_digit t"
    using a(1) by (intro digits_append_stop) simp
  with s show "frac_part (s @ q) = frac_part s" by (simp add: frac_part_def)
qed

lemma exp_part_append:
  assumes "drop (length (exp_part s)) s \<noteq> [] \<or> number_ends q"
    and "exp_part s \<noteq> [] \<or> (if s = [] then number_ends q else hd s \<noteq> CHR ''e'' \<and> hd s \<noteq> CHR ''E'')"
  shows "exp_part (s @ q) = exp_part s"
proof (cases s)
  case Nil
  with assms(2) show ?thesis by (cases q) (auto simp: exp_part_def number_ends_def)
next
  case (Cons c t)
  show ?thesis
  proof (cases "c = CHR ''e'' \<or> c = CHR ''E''")
    case True
    define sg where "sg = (case t of [] \<Rightarrow> [] | x # _ \<Rightarrow> if x = CHR ''-'' \<or> x = CHR ''+'' then [x] else [])"
    define ds where "ds = takeWhile is_digit (drop (length sg) t)"
    from True assms(2) Cons have ne: "exp_part s \<noteq> []" by auto
    have x: "exp_part s = (if ds = [] then [] else c # sg @ ds)"
      using True by (simp add: exp_part_def Cons sg_def ds_def Let_def)
    with ne have ds: "ds \<noteq> []" "exp_part s = c # sg @ ds" by (auto split: if_splits)
    then have t: "t \<noteq> []" by (auto simp: ds_def)
    have "drop (length ds) (drop (length sg) t) \<noteq> [] \<or> number_ends q"
      using assms(1) ds Cons by (auto simp: add.commute)
    then have "takeWhile is_digit (drop (length sg) t @ q) = ds"
      unfolding ds_def by (rule digits_append_stop)
    moreover have "drop (length sg) (t @ q) = drop (length sg) t @ q"
      using t by (cases t) (simp_all add: sg_def)
    moreover have "(case t @ q of [] \<Rightarrow> [] | x # _ \<Rightarrow> if x = CHR ''-'' \<or> x = CHR ''+'' then [x] else []) = sg"
      using t by (cases t) (simp_all add: sg_def)
    ultimately show ?thesis using True x by (simp add: exp_part_def Cons Let_def)
  qed (use Cons in \<open>simp add: exp_part_def\<close>)
qed

lemma prefix_drop: "prefix p s \<Longrightarrow> s = p @ drop (length p) s"
  by (auto simp: prefix_def)

lemma part_prefix: "prefix (int_part s) s" "prefix (frac_part s) s" "prefix (exp_part s) s"
proof -
  show "prefix (int_part s) s"
    using takeWhile_is_prefix [of is_digit s] by (cases s) (auto simp: int_part_def)
  show "prefix (frac_part s) s"
    by (cases s) (auto simp: frac_part_def takeWhile_is_prefix)
  show "prefix (exp_part s) s"
  proof (cases s)
    case (Cons c t)
    define sg where "sg = (case t of [] \<Rightarrow> [] | x # _ \<Rightarrow> if x = CHR ''-'' \<or> x = CHR ''+'' then [x] else [])"
    have "t = sg @ drop (length sg) t" by (cases t) (simp_all add: sg_def)
    then have "prefix (sg @ takeWhile is_digit (drop (length sg) t)) t"
      by (metis same_prefix_prefix takeWhile_is_prefix)
    then show ?thesis by (simp add: Cons exp_part_def Let_def flip: sg_def)
  qed (simp add: exp_part_def)
qed

lemma read_number_append:
  assumes "read_number s = Some (v, r)" and "number_ends (r @ q)"
  shows "read_number (s @ q) = Some (v, r @ q)"
proof -
  define sg where "sg = (if take 1 s = ''-'' then ''-'' else '''')"
  define s1 where "s1 = drop (length sg) s"
  define i where "i = int_part s1"
  define s2 where "s2 = drop (length i) s1"
  define f where "f = frac_part s2"
  define s3 where "s3 = drop (length f) s2"
  define x where "x = exp_part s3"
  define s4 where "s4 = drop (length x) s3"
  note defs = sg_def s1_def i_def s2_def f_def s3_def x_def s4_def
  have r: "r = s4" "i \<noteq> []"
    using assms(1) unfolding read_number_def Let_def defs [symmetric] by (auto split: if_splits)
  have q: "s4 \<noteq> [] \<or> number_ends q" using assms(2) r(1) by (cases s4) auto
  have ne: "s3 \<noteq> [] \<or> number_ends q" "s2 \<noteq> [] \<or> number_ends q" "s1 \<noteq> []" "s \<noteq> []"
    using q r(2) by (auto simp: s4_def s3_def s2_def s1_def i_def int_part_def)
  have hd4: "s4 \<noteq> [] \<Longrightarrow> hd s4 \<noteq> CHR ''.'' \<and> hd s4 \<noteq> CHR ''e'' \<and> hd s4 \<noteq> CHR ''E''"
    using assms(2) r(1) by (cases s4) (auto simp: number_ends_def)
  have X: "exp_part (s3 @ q) = x"
    unfolding x_def
  proof (rule exp_part_append)
    show "drop (length (exp_part s3)) s3 \<noteq> [] \<or> number_ends q" using q by (simp add: s4_def x_def)
    show "exp_part s3 \<noteq> [] \<or> (if s3 = [] then number_ends q else hd s3 \<noteq> CHR ''e'' \<and> hd s3 \<noteq> CHR ''E'')"
      using hd4 q by (auto simp: s4_def x_def)
  qed
  have F: "frac_part (s2 @ q) = f"
  proof (cases "f = []")
    case True
    have "if s2 = [] then number_ends q else hd s2 \<noteq> CHR ''.''"
    proof (cases "s2 = []")
      case False
      have "hd s2 \<noteq> CHR ''.''"
      proof
        assume dot: "hd s2 = CHR ''.''"
        then have "x = []" using True False by (cases s2) (auto simp: x_def s3_def exp_part_def)
        with True dot hd4 False show False by (simp add: s4_def s3_def)
      qed
      with False show ?thesis by simp
    qed (use ne(2) in simp)
    with True show ?thesis using frac_part_append(1) [of s2 q] by (simp add: f_def)
  next
    case False
    with ne(1) show ?thesis using frac_part_append(2) [of s2 q] by (simp add: f_def s3_def)
  qed
  have I: "int_part (s1 @ q) = i"
    using int_part_append [of s1 q] ne(2) by (simp add: i_def s2_def)
  have S: "(if take 1 (s @ q) = ''-'' then ''-'' else '''') = sg"
    using ne(4) by (cases s) (simp_all add: sg_def)
  have len: "length sg \<le> length s" "length i \<le> length s1" "length f \<le> length s2" "length x \<le> length s3"
    using ne(4) prefix_length_le [OF part_prefix(1)] prefix_length_le [OF part_prefix(2)]
      prefix_length_le [OF part_prefix(3)]
    by (cases s; simp add: sg_def i_def f_def x_def)+
  then have D: "drop (length sg) (s @ q) = s1 @ q" "drop (length i) (s1 @ q) = s2 @ q"
    "drop (length f) (s2 @ q) = s3 @ q" "drop (length x) (s3 @ q) = s4 @ q"
    by (simp_all add: s1_def s2_def s3_def s4_def)
  have "read_number (s @ q) = (if i = [] then None
      else if f = [] \<and> x = [] then
        Some (JInt (if sg = [] then int (digits_value i) else - int (digits_value i)), s4 @ q)
      else map_option (\<lambda>v. (JFloat v, s4 @ q)) (parse_float (sg @ i @ f @ x)))"
    unfolding read_number_def Let_def S D I F X ..
  moreover have "read_number s = (if i = [] then None
      else if f = [] \<and> x = [] then
        Some (JInt (if sg = [] then int (digits_value i) else - int (digits_value i)), s4)
      else map_option (\<lambda>v. (JFloat v, s4)) (parse_float (sg @ i @ f @ x)))"
    unfolding read_number_def Let_def defs [symmetric] by simp
  ultimately show ?thesis using assms(1) r
    by (cases "parse_float (sg @ i @ f @ x)") (auto split: if_splits)
qed

section \<open>Values\<close>

text \<open>The values that survive: a dictionary has each key once, and a finite float is one whose text
  denotes it.\<close>

fun json_ok :: "json \<Rightarrow> bool" where
  "json_ok (JFloat (Fin r)) = (read_number (dump_float (Fin r)) = Some (JFloat (Fin r), []))"
| "json_ok (JArr xs) = (\<forall>x \<in> set xs. json_ok x)"
| "json_ok (JObj d) = (distinct (map fst d) \<and> (\<forall>kv \<in> set d. json_ok (snd kv)))"
| "json_ok _ = True"

fun json_fuel :: "json \<Rightarrow> nat" where
  "json_fuel (JArr xs) = Suc (sum_list (map (\<lambda>x. Suc (json_fuel x)) xs))"
| "json_fuel (JObj d) = Suc (sum_list (map (\<lambda>kv. Suc (json_fuel (snd kv))) d))"
| "json_fuel _ = 1"

text \<open>Separators that only add white space, and keys in the order of the dictionary.\<close>

definition plain_style :: "dump_style \<Rightarrow> bool" where
  "plain_style st \<longleftrightarrow> \<not> ds_sort_keys st \<and>
     (\<exists>w. ds_item_sep st = CHR '','' # w \<and> (\<forall>c \<in> set w. json_space c)) \<and>
     (\<exists>w. ds_key_sep st = CHR '':'' # w \<and> (\<forall>c \<in> set w. json_space c))"

definition dump_member :: "dump_style \<Rightarrow> string \<times> json \<Rightarrow> string" where
  "dump_member st kv = dump_string (fst kv) @ ds_key_sep st @ json_dumps st (snd kv)"

lemma dumps_object:
  "\<not> ds_sort_keys st \<Longrightarrow>
   json_dumps st (JObj d) = ''{'' @ sep_list (ds_item_sep st) (map (dump_member st) d) @ ''}''"
  by (simp add: dump_member_def [abs_def] comp_def)

definition starts_number :: "string \<Rightarrow> bool" where
  "starts_number s \<longleftrightarrow> (case s of [] \<Rightarrow> False | c # t \<Rightarrow> is_digit c \<or>
     c = CHR ''-'' \<and> (case t of [] \<Rightarrow> False | d # _ \<Rightarrow> is_digit d))"

lemma int_part_starts: "int_part s \<noteq> [] \<Longrightarrow> s \<noteq> [] \<and> is_digit (hd s)"
  by (cases s) (auto simp: int_part_def split: if_splits)

lemma read_number_starts: "read_number s = Some (v, r) \<Longrightarrow> starts_number s"
proof -
  assume "read_number s = Some (v, r)"
  then have "int_part (drop (length (if take 1 s = ''-'' then ''-'' else '''')) s) \<noteq> []"
    by (auto simp: read_number_def Let_def split: if_splits)
  note i = int_part_starts [OF this]
  show ?thesis
  proof (cases s)
    case (Cons c t)
    with i show ?thesis by (cases t) (auto simp: starts_number_def split: if_splits)
  qed (use i in simp)
qed

lemma digit_plain:
  "is_digit c \<Longrightarrow> \<not> json_space c \<and>
     c \<notin> {CHR 0x22, CHR ''{'', CHR ''['', CHR ''}'', CHR '']'', CHR '','', CHR '':''}"
  by (auto simp: json_space_def is_digit_def)

text \<open>The first character of a value.\<close>

definition clear_start :: "string \<Rightarrow> bool" where
  "clear_start s \<longleftrightarrow> s \<noteq> [] \<and> \<not> json_space (hd s) \<and> hd s \<notin> {CHR '']'', CHR ''}'', CHR '',''}"

lemma starts_number_clear:
  assumes "starts_number s"
  shows "clear_start s" "hd s \<notin> {CHR 0x22, CHR ''{'', CHR ''[''}"
proof -
  have "s \<noteq> []" "is_digit (hd s) \<or> hd s = CHR ''-''"
    using assms by (cases s; auto simp: starts_number_def)+
  with digit_plain [of "hd s"] show "clear_start s" "hd s \<notin> {CHR 0x22, CHR ''{'', CHR ''[''}"
    unfolding clear_start_def by (auto simp: json_space_def)
qed

lemma read_constant_number: "starts_number s \<Longrightarrow> read_constant constants s = read_number s"
proof -
  assume s: "starts_number s"
  have "after_prefix w s = None" if "(w, v) \<in> set constants" for w v
    using that s by (cases s; cases "tl s") (auto simp: constants_def after_prefix_def starts_number_def is_digit_def)
  moreover have "\<forall>(w, v) \<in> set ws. after_prefix w s = None \<Longrightarrow> read_constant ws s = read_number s" for ws
    by (induction ws) auto
  ultimately show ?thesis by blast
qed

lemma read_value_number:
  assumes "read_number s = Some (v, r)"
  shows "read_value (Suc n) s = Some (v, r)"
proof -
  note st = read_number_starts [OF assms]
  have "read_value (Suc n) s = read_constant constants s"
    using starts_number_clear [OF st] by (cases s) (simp_all add: clear_start_def)
  with read_constant_number [OF st] assms show ?thesis by simp
qed

lemma dumps_clear: "json_ok v \<Longrightarrow> clear_start (json_dumps st v)"
proof (cases v)
  case (JInt i)
  have "starts_number (json_dumps st v)"
    using read_number_starts [OF read_number_int [of "[]" i]] by (simp add: JInt number_ends_def)
  then show ?thesis by (rule starts_number_clear)
next
  case (JFloat f)
  assume ok: "json_ok v"
  show ?thesis
  proof (cases f)
    case (Fin r)
    with JFloat ok have "read_number (json_dumps st v) = Some (JFloat (Fin r), [])" by simp
    then show ?thesis by (rule starts_number_clear(1) [OF read_number_starts])
  qed (simp_all add: JFloat clear_start_def json_space_def)
next
  case (JBool b)
  then show ?thesis by (cases b) (simp_all add: clear_start_def json_space_def)
qed (simp_all add: clear_start_def json_space_def dump_string_def Let_def)

lemma skip_ws_clear: "clear_start s \<Longrightarrow> skip_ws (s @ t) = s @ t"
  by (cases s) (simp_all add: clear_start_def skip_ws_Cons)

lemma skip_ws_spaces: "\<forall>c \<in> set w. json_space c \<Longrightarrow> skip_ws (w @ s) = skip_ws s"
  by (induction w) (simp_all add: skip_ws_Cons)

lemma sep_list_Cons: "xs \<noteq> [] \<Longrightarrow> sep_list sep (x # xs) = x @ sep @ sep_list sep xs"
  by (cases xs) simp_all

declare read_value.simps [simp del] read_members.simps [simp del] read_elements.simps [simp del]

lemma number_ends_stop: "c \<in> {CHR '','', CHR '']'', CHR ''}''} \<Longrightarrow> number_ends (c # s)"
  by (auto simp: number_ends_def is_digit_def)

lemma space_ends: "json_space c \<Longrightarrow> number_ends (c # s)"
  by (auto simp: json_space_def number_ends_def is_digit_def)

lemma number_ends_Nil [simp]: "number_ends []"
  by (simp add: number_ends_def)

lemma read_elements_dumps:
  assumes "plain_style st" and "xs \<noteq> []"
    and "\<And>x n r. x \<in> set xs \<Longrightarrow> json_fuel x \<le> n \<Longrightarrow> number_ends r \<Longrightarrow>
      read_value n (json_dumps st x @ r) = Some (x, r)"
    and "\<forall>x \<in> set xs. json_ok x" and "sum_list (map (\<lambda>x. Suc (json_fuel x)) xs) \<le> n"
  shows "read_elements n acc (sep_list (ds_item_sep st) (map (json_dumps st) xs) @ CHR '']'' # r)
    = Some (JArr (acc @ xs), r)"
  using assms(2-)
proof (induction xs arbitrary: n acc)
  case (Cons x xs)
  from Cons.prems(4) obtain m where n: "n = Suc m" "json_fuel x \<le> m"
    "sum_list (map (\<lambda>x. Suc (json_fuel x)) xs) \<le> m" by (cases n) auto
  from assms(1) obtain w where w: "ds_item_sep st = CHR '','' # w" "\<forall>c \<in> set w. json_space c"
    by (auto simp: plain_style_def)
  have x: "read_value m (json_dumps st x @ q) = Some (x, q)" if "number_ends q" for q
    using Cons.prems(2) [of x m q] that n(2) by simp
  show ?case
  proof (cases xs)
    case Nil
    then show ?thesis using x [of "CHR '']'' # r"] n(1)
      by (simp add: read_elements.simps number_ends_stop skip_ws_Cons json_space_def)
  next
    case (Cons y ys)
    let ?rest = "sep_list (ds_item_sep st) (map (json_dumps st) xs) @ CHR '']'' # r"
    have rest: "read_elements m (acc @ [x]) ?rest = Some (JArr ((acc @ [x]) @ xs), r)"
      using Cons.IH [of m "acc @ [x]"] Cons.prems n Cons by simp
    have "skip_ws (w @ ?rest) = ?rest"
      using w(2) Cons.prems(3) skip_ws_clear [OF dumps_clear [of y st]]
      by (cases ys) (simp_all add: skip_ws_spaces Cons)
    with x [of "CHR '','' # w @ ?rest"] rest n(1) w(1) Cons show ?thesis
      by (simp add: read_elements.simps number_ends_stop skip_ws_Cons json_space_def sep_list_Cons)
  qed
qed simp

lemma read_members_dumps:
  assumes "plain_style st" and "d \<noteq> []"
    and "\<And>kv n r. kv \<in> set d \<Longrightarrow> json_fuel (snd kv) \<le> n \<Longrightarrow> number_ends r \<Longrightarrow>
      read_value n (json_dumps st (snd kv) @ r) = Some (snd kv, r)"
    and "\<forall>kv \<in> set d. json_ok (snd kv)" and "distinct (map fst (acc @ d))"
    and "sum_list (map (\<lambda>kv. Suc (json_fuel (snd kv))) d) \<le> n"
  shows "read_members n acc (sep_list (ds_item_sep st) (map (dump_member st) d) @ CHR ''}'' # r)
    = Some (JObj (acc @ d), r)"
  using assms(2-)
proof (induction d arbitrary: n acc)
  case (Cons kv d)
  obtain k v where kv: "kv = (k, v)" by (cases kv)
  from Cons.prems(5) obtain m where n: "n = Suc m" "json_fuel v \<le> m"
    "sum_list (map (\<lambda>kv. Suc (json_fuel (snd kv))) d) \<le> m" by (cases n) (auto simp: kv)
  from assms(1) obtain w u where w: "ds_item_sep st = CHR '','' # w" "\<forall>c \<in> set w. json_space c"
    and u: "ds_key_sep st = CHR '':'' # u" "\<forall>c \<in> set u. json_space c"
    by (auto simp: plain_style_def)
  have "json_ok v" using Cons.prems(3) kv by simp
  then have v: "skip_ws (u @ json_dumps st v @ q) = json_dumps st v @ q" for q
    using u(2) by (simp add: skip_ws_spaces skip_ws_clear dumps_clear)
  have x: "read_value m (json_dumps st v @ q) = Some (v, q)" if "number_ends q" for q
    using Cons.prems(2) [of kv m q] that n(2) kv by simp
  have acc: "dict_set k v acc = acc @ [(k, v)]" using Cons.prems(4) kv by (intro dict_set_fresh) auto
  have colon: "skip_ws (CHR '':'' # t) = CHR '':'' # t" for t
    by (simp add: skip_ws_Cons json_space_def)
  have one: "read_members (Suc m) acc (dump_member st kv @ q) =
      (case expect (CHR ''}'') (skip_ws q) of
         Some r \<Rightarrow> Some (JObj (acc @ [(k, v)]), r)
       | None \<Rightarrow> Option.bind (expect (CHR '','') (skip_ws q)) (\<lambda>s5.
           read_members m (acc @ [(k, v)]) (skip_ws s5)))" if "number_ends q" for q
    using x [OF that] acc v [of q]
    by (simp add: read_members.simps dump_member_def dump_string_def kv read_string_dump u(1) colon cong: option.case_cong)
  show ?case
  proof (cases d)
    case Nil
    then show ?thesis using one [of "CHR ''}'' # r"] n(1) kv
      by (simp add: number_ends_stop skip_ws_Cons json_space_def)
  next
    case (Cons y ys)
    let ?rest = "sep_list (ds_item_sep st) (map (dump_member st) d) @ CHR ''}'' # r"
    have rest: "read_members m (acc @ [(k, v)]) ?rest = Some (JObj ((acc @ [(k, v)]) @ d), r)"
      using Cons.IH [of "acc @ [(k, v)]" m] Cons.prems n Cons kv by simp
    have "skip_ws (w @ ?rest) = ?rest"
      using w(2) by (cases ys) (simp_all add: skip_ws_spaces Cons dump_member_def dump_string_def skip_ws_Cons json_space_def)
    with one [of "CHR '','' # w @ ?rest"] rest n(1) w(1) kv Cons show ?thesis
      by (simp add: number_ends_stop skip_ws_Cons json_space_def sep_list_Cons)
  qed
qed simp

lemma read_value_dumps:
  assumes "plain_style st"
  shows "json_ok v \<Longrightarrow> json_fuel v \<le> n \<Longrightarrow> number_ends r \<Longrightarrow> read_value n (json_dumps st v @ r) = Some (v, r)"
proof (induction v arbitrary: n r)
  case (JInt i)
  then obtain m where "n = Suc m" by (cases n) auto
  with JInt show ?case by (simp add: read_value_number read_number_int)
next
  case (JFloat f)
  then obtain m where n: "n = Suc m" by (cases n) auto
  show ?case
  proof (cases f)
    case (Fin x)
    with JFloat have "read_number (dump_float (Fin x)) = Some (JFloat (Fin x), [])" by simp
    from read_number_append [OF this, of r] JFloat.prems(3) Fin n show ?thesis
      by (simp add: read_value_number)
  qed (simp_all add: n read_value.simps constants_def after_prefix_def)
next
  case (JArr xs)
  then obtain m where n: "n = Suc m" "sum_list (map (\<lambda>x. Suc (json_fuel x)) xs) \<le> m" by (cases n) auto
  show ?case
  proof (cases "xs = []")
    case False
    let ?s = "sep_list (ds_item_sep st) (map (json_dumps st) xs) @ CHR '']'' # r"
    obtain x ys where xs: "xs = x # ys" using False by (cases xs) auto
    have "clear_start (json_dumps st x)" using JArr.prems(1) xs by (intro dumps_clear) simp
    then have "skip_ws ?s = ?s" "expect (CHR '']'') ?s = None"
      by (cases ys; cases "json_dumps st x"; simp add: xs skip_ws_Cons clear_start_def)+
    moreover have "read_elements m [] ?s = Some (JArr ([] @ xs), r)"
      using JArr n(2) False by (intro read_elements_dumps [OF assms]) auto
    ultimately show ?thesis using n(1) by (simp add: read_value.simps)
  qed (simp add: n read_value.simps skip_ws_Cons json_space_def)
next
  case (JObj d)
  then obtain m where n: "n = Suc m" "sum_list (map (\<lambda>kv. Suc (json_fuel (snd kv))) d) \<le> m" by (cases n) auto
  have st: "\<not> ds_sort_keys st" using assms by (simp add: plain_style_def)
  show ?case
  proof (cases "d = []")
    case False
    let ?s = "sep_list (ds_item_sep st) (map (dump_member st) d) @ CHR ''}'' # r"
    obtain x ys where d: "d = x # ys" using False by (cases d) auto
    have "skip_ws ?s = ?s" "expect (CHR ''}'') ?s = None"
      by (cases ys; simp add: d dump_member_def dump_string_def skip_ws_Cons json_space_def)+
    moreover have "read_members m [] ?s = Some (JObj ([] @ d), r)"
    proof (rule read_members_dumps [OF assms False])
      show "read_value n (json_dumps st (snd kv) @ r) = Some (snd kv, r)"
        if "kv \<in> set d" "json_fuel (snd kv) \<le> n" "number_ends r" for kv n r
        using JObj.IH [of kv "snd kv" n r] JObj.prems(1) that by (cases kv) auto
    qed (use JObj.prems(1) n(2) in auto)
    ultimately show ?thesis using n(1) by (simp add: read_value.simps dumps_object [OF st] del: json_dumps.simps)
  qed (simp add: n st read_value.simps skip_ws_Cons json_space_def)
next
  case (JStr s)
  then obtain m where "n = Suc m" by (cases n) auto
  then show ?case by (simp add: read_value.simps dump_string_def read_string_dump)
qed (auto simp: read_value.simps constants_def after_prefix_def Suc_le_eq gr0_conv_Suc)

lemma json_fuel_length:
  assumes "plain_style st" shows "json_ok v \<Longrightarrow> json_fuel v \<le> length (json_dumps st v)"
proof (induction v)
  case (JArr xs)
  have sep: "Suc 0 \<le> length (ds_item_sep st)" using assms by (auto simp: plain_style_def)
  have "sum_list (map (\<lambda>x. Suc (json_fuel x)) xs) \<le> Suc (length (sep_list (ds_item_sep st) (map (json_dumps st) xs)))"
    using JArr
  proof (induction xs)
    case (Cons x xs)
    then show ?case using sep by (cases xs) (auto, fastforce)
  qed simp
  then show ?case by simp
next
  case (JObj d)
  have sep: "Suc 0 \<le> length (ds_item_sep st)" "\<not> ds_sort_keys st" using assms by (auto simp: plain_style_def)
  have "sum_list (map (\<lambda>kv. Suc (json_fuel (snd kv))) d) \<le> Suc (length (sep_list (ds_item_sep st) (map (dump_member st) d)))"
    using JObj
  proof (induction d)
    case (Cons kv d)
    have "json_fuel (snd kv) \<le> length (json_dumps st (snd kv))"
      using Cons.prems(1) [of kv "snd kv"] Cons.prems(2) by (cases kv) simp
    then have "json_fuel (snd kv) \<le> length (dump_member st kv)" by (simp add: dump_member_def)
    then show ?case using sep Cons by (cases d) (auto, fastforce)
  qed simp
  then show ?case by (simp add: dumps_object [OF sep(2)] del: json_dumps.simps)
next
  case (JInt i)
  have "clear_start (json_dumps st (JInt i))" by (rule dumps_clear) simp
  then show ?case by (cases "py_str_int i") (auto simp: clear_start_def)
next
  case (JFloat f)
  then have "clear_start (json_dumps st (JFloat f))" by (rule dumps_clear)
  then show ?case by (cases "dump_float f") (auto simp: clear_start_def)
qed (auto simp: dump_string_def)

text \<open>What \<^verbatim>\<open>json.dumps\<close> writes, \<^verbatim>\<open>json.loads\<close> reads back as the same value, with
  the keys of every object in the same order; white space around the text changes nothing.\<close>

lemma loads_dumps:
  assumes "plain_style st" and "json_ok v" and "\<forall>c \<in> set ws. json_space c"
  shows "json_loads (json_dumps st v @ ws) = Some v"
proof -
  have "number_ends ws" using assms(3) space_ends by (cases ws) simp_all
  then have "read_value (Suc (length (json_dumps st v @ ws))) (json_dumps st v @ ws) = Some (v, ws)"
    using json_fuel_length [OF assms(1,2)] by (intro read_value_dumps [OF assms(1,2)]) auto
  moreover have "skip_ws ws = []" using skip_ws_spaces [OF assms(3), of "[]"] by simp
  ultimately show ?thesis using skip_ws_clear [OF dumps_clear [OF assms(2)]] by (simp add: json_loads_def)
qed

section \<open>Stability\<close>

lemma read_hex4_append: "read_hex4 s = Some (n, r) \<Longrightarrow> read_hex4 (s @ q) = Some (n, r @ q)"
  by (cases s rule: read_hex4.cases) (auto split: option.splits)

lemma after_prefix_append: "after_prefix p s = Some r \<Longrightarrow> after_prefix p (s @ q) = Some (r @ q)"
proof -
  assume "after_prefix p s = Some r"
  then have p: "take (length p) s = p" "r = drop (length p) s" by (auto simp: after_prefix_def split: if_splits)
  from p(1) have "length p \<le> length s" by (metis length_take min.absorb_iff2 min.commute)
  with p show ?thesis by (simp add: after_prefix_def)
qed

lemma no_escape_append:
  assumes "after_prefix [CHR 0x5C, CHR ''u''] r = None" and "r \<noteq> []" and "r \<noteq> [CHR 0x5C]"
  shows "after_prefix [CHR 0x5C, CHR ''u''] (r @ q) = None"
  using assms by (cases r; cases "tl r") (auto simp: after_prefix_def)

lemma read_unicode_append:
  assumes "read_unicode s = Some (b, r)" and "r \<noteq> []" and "r \<noteq> [CHR 0x5C]"
  shows "read_unicode (s @ q) = Some (b, r @ q)"
proof -
  from assms(1) obtain n t where t: "read_hex4 s = Some (n, t)" by (auto simp: read_unicode_def split: option.splits)
  note t' = read_hex4_append [OF t, of q]
  show ?thesis
  proof (cases "55296 \<le> n \<and> n < 56320")
    case False
    then show ?thesis using assms(1) t t' by (auto simp: read_unicode_def)
  next
    case True
    show ?thesis
    proof (cases "after_prefix [CHR 0x5C, CHR ''u''] t")
      case None
      with assms t True have "t = r" "b = utf8_encode n" by (auto simp: read_unicode_def)
      with no_escape_append [OF None] assms(2,3) t' True show ?thesis by (auto simp: read_unicode_def)
    next
      case (Some t1)
      note s1 = after_prefix_append [OF Some, of q]
      obtain m t2 where m: "read_hex4 t1 = Some (m, t2)"
        using assms(1) t True Some by (auto simp: read_unicode_def split: option.splits)
      show ?thesis using assms(1) t t' True Some s1 m read_hex4_append [OF m, of q]
        by (auto simp: read_unicode_def split: if_splits)
    qed
  qed
qed

lemma prepend_Some: "prepend b x = Some (v, r) \<longleftrightarrow> (\<exists>u. x = Some (u, r) \<and> v = b @ u)"
  by (cases x) (auto simp: prepend_def)

lemma read_string_append: "read_string s = Some (v, r) \<Longrightarrow> read_string (s @ q) = Some (v, r @ q)"
proof (induction s arbitrary: v rule: read_string.induct)
  case (2 c s)
  show ?case
  proof (cases "c = CHR 0x22 \<or> c \<noteq> CHR 0x5C")
    case True
    then show ?thesis using 2
      by (auto simp: read_string_Cons prepend_Some split: if_splits)
  next
    case False
    then have c: "c = CHR 0x5C" "c \<noteq> CHR 0x22" by auto
    with 2(4) obtain e t where s: "s = e # t" by (cases s) (auto simp: read_string_Cons)
    show ?thesis
    proof (cases "e = CHR ''u''")
      case True
      obtain b t' u where u: "read_unicode t = Some (b, t')" "read_string t' = Some (u, r)" "v = b @ u"
        using 2(4) c s True by (auto simp: read_string_Cons prepend_Some split: option.splits)
      have "t' \<noteq> []" "t' \<noteq> [CHR 0x5C]" using u(2) by (auto simp: read_string.simps)
      from read_unicode_append [OF u(1) this, of q] 2(1) [OF c(2,1) s True u(1), of u] u c s True
      show ?thesis by (simp add: read_string_Cons prepend_def)
    next
      case False
      obtain b u where u: "unescape e = Some b" "read_string t = Some (u, r)" "v = b # u"
        using 2(4) c s False by (auto simp: read_string_Cons prepend_Some split: option.splits)
      with 2(2) [OF c(2,1) s False u(1), of u] c s False
      show ?thesis by (simp add: read_string_Cons prepend_def)
    qed
  qed
qed (simp add: read_string.simps)

text \<open>More fuel changes nothing.\<close>

lemma read_more:
  "read_value n s = Some x \<Longrightarrow> read_value (n + k) s = Some x"
  "read_members n acc s = Some x \<Longrightarrow> read_members (n + k) acc s = Some x"
  "read_elements n xs s = Some x \<Longrightarrow> read_elements (n + k) xs s = Some x"
proof (induction n s and n acc s and n xs s arbitrary: x and x and x
    rule: read_value_read_members_read_elements.induct)
  case (2 n s)
  then show ?case by (auto simp: read_value.simps split: list.splits if_splits option.splits)
next
  case (4 n acc s)
  from 4(3) obtain s1 k' s2 s3 v s4 where a: "expect (CHR 0x22) s = Some s1" "read_string s1 = Some (k', s2)"
    "expect (CHR '':'') (skip_ws s2) = Some s3" "read_value n (skip_ws s3) = Some (v, s4)"
    by (auto simp: read_members.simps bind_eq_Some_conv)
  note v = 4(1) [OF a(1,2) refl a(3,4)]
  show ?case
  proof (cases "expect (CHR ''}'') (skip_ws s4)")
    case None
    then obtain s5 where s5: "expect (CHR '','') (skip_ws s4) = Some s5"
      "read_members n (dict_set k' v acc) (skip_ws s5) = Some x"
      using 4(3) a by (auto simp: read_members.simps bind_eq_Some_conv)
    with 4(2) [OF a(1,2) refl a(3,4) refl None s5(1)] None a v show ?thesis
      by (simp add: read_members.simps)
  next
    case (Some r)
    with 4(3) a v show ?thesis by (simp add: read_members.simps)
  qed
next
  case (6 n acc s)
  from 6(3) obtain v s1 where a: "read_value n s = Some (v, s1)"
    by (auto simp: read_elements.simps bind_eq_Some_conv)
  note v = 6(1) [OF a]
  show ?case
  proof (cases "expect (CHR '']'') (skip_ws s1)")
    case None
    then obtain s2 where s2: "expect (CHR '','') (skip_ws s1) = Some s2"
      "read_elements n (acc @ [v]) (skip_ws s2) = Some x"
      using 6(3) a by (auto simp: read_elements.simps bind_eq_Some_conv)
    with 6(2) [OF a refl None s2(1)] None a v show ?thesis
      by (simp add: read_elements.simps)
  next
    case (Some r)
    with 6(3) a v show ?thesis by (simp add: read_elements.simps)
  qed
qed (simp_all add: read_value.simps read_members.simps read_elements.simps)

text \<open>A complete value is read the same way whatever follows, unless it is a number that goes on.\<close>

fun is_number :: "json \<Rightarrow> bool" where
  "is_number (JInt _) = True" | "is_number (JFloat _) = True" | "is_number _ = False"

lemma starts_number_append: "starts_number s \<Longrightarrow> starts_number (s @ q)"
  by (cases s; cases "tl s") (auto simp: starts_number_def)

lemma read_constant_cases:
  "read_constant ws s = Some (v, r) \<Longrightarrow>
   (\<exists>w. (w, v) \<in> set ws \<and> after_prefix w s = Some r) \<or> read_number s = Some (v, r)"
  by (induction ws) (auto split: option.split_asm)

lemma after_prefix_iff: "after_prefix w s = Some r \<longleftrightarrow> s = w @ r"
  by (auto simp: after_prefix_def) (metis append_take_drop_id)

lemma read_constant_word:
  assumes "after_prefix w s = Some r" and "(w, v) \<in> set constants"
  shows "read_constant constants (s @ q) = Some (v, r @ q)"
proof -
  have "s = w @ r" using assms(1) by (simp add: after_prefix_iff)
  moreover have "\<forall>wv \<in> set constants. read_constant constants (fst wv @ t) = Some (snd wv, t)" for t
    by (simp add: constants_def after_prefix_def)
  from bspec [OF this assms(2)] have "read_constant constants (w @ t) = Some (v, t)" for t by simp
  ultimately show ?thesis by simp
qed

lemma is_number_read: "read_number s = Some (v, r) \<Longrightarrow> is_number v"
  by (auto simp: read_number_def Let_def split: if_splits)

lemma read_constant_append:
  assumes "read_constant constants s = Some (v, r)" and "is_number v \<longrightarrow> number_ends (r @ q)"
  shows "read_constant constants (s @ q) = Some (v, r @ q)"
  using read_constant_cases [OF assms(1)]
proof (elim disjE exE conjE)
  fix w assume "(w, v) \<in> set constants" "after_prefix w s = Some r"
  then show ?thesis by (intro read_constant_word)
next
  assume num: "read_number s = Some (v, r)"
  with assms(2) is_number_read [OF num] have "read_number (s @ q) = Some (v, r @ q)"
    by (intro read_number_append) simp_all
  then show ?thesis by (simp add: read_constant_number [OF read_number_starts])
qed

lemma expect_ends:
  assumes "expect c (skip_ws s) = Some r" and "c \<in> {CHR '','', CHR '']'', CHR ''}''}"
  shows "number_ends (s @ q)" "skip_ws (s @ q) = skip_ws s @ q"
proof -
  from assms(1) have ne: "skip_ws s \<noteq> []" by auto
  then show "skip_ws (s @ q) = skip_ws s @ q" by (rule skip_ws_append)
  show "number_ends (s @ q)"
  proof (cases s)
    case (Cons d t)
    show ?thesis
    proof (cases "json_space d")
      case True
      then show ?thesis by (simp add: Cons space_ends)
    next
      case False
      with assms Cons have "d = c" by (simp add: skip_ws_Cons split: if_splits)
      with assms(2) show ?thesis by (auto simp: Cons intro: number_ends_stop)
    qed
  qed (use ne in simp)
qed

lemma expect_skip_append:
  "expect c (skip_ws s) = Some r \<Longrightarrow> expect c (skip_ws (s @ q)) = Some (r @ q)"
  using skip_ws_append [of s q] expect_append [of c "skip_ws s" r q] by fastforce

lemma expect_other:
  "expect c (skip_ws s) = None \<Longrightarrow> skip_ws s \<noteq> [] \<Longrightarrow> expect c (skip_ws (s @ q)) = None"
  using skip_ws_append [of s q] by (cases "skip_ws s") (auto split: if_splits)

lemma read_value_nonempty: "read_value n s = Some x \<Longrightarrow> s \<noteq> []"
  by (cases n; cases s) (auto simp: read_value.simps)

lemma read_members_nonempty: "read_members n acc s = Some x \<Longrightarrow> s \<noteq> []"
  by (cases n; cases s) (auto simp: read_members.simps)

lemma read_elements_nonempty: "read_elements n acc s = Some x \<Longrightarrow> s \<noteq> []"
  by (cases n; cases s) (auto simp: read_elements.simps bind_eq_Some_conv dest: read_value_nonempty)

lemma read_append:
  "read_value n s = Some (v, r) \<Longrightarrow> is_number v \<longrightarrow> number_ends (r @ q) \<Longrightarrow> read_value n (s @ q) = Some (v, r @ q)"
  "read_members n acc s = Some (v, r) \<Longrightarrow> read_members n acc (s @ q) = Some (v, r @ q)"
  "read_elements n xs s = Some (v, r) \<Longrightarrow> read_elements n xs (s @ q) = Some (v, r @ q)"
proof (induction n s and n acc s and n xs s arbitrary: v r and v r and v r
    rule: read_value_read_members_read_elements.induct)
  case (2 n s)
  from 2(3) obtain c t where s: "s = c # t" by (cases s) (auto simp: read_value.simps)
  consider "c = CHR 0x22" | "c = CHR ''{''" | "c = CHR ''[''" | "c \<notin> {CHR 0x22, CHR ''{'', CHR ''[''}" by blast
  then show ?case
  proof cases
    case 1
    with 2(3) s show ?thesis by (auto simp: read_value.simps dest: read_string_append)
  next
    case 2
    show ?thesis
    proof (cases "expect (CHR ''}'') (skip_ws t)")
      case None
      with "2.prems"(1) s 2 have m: "read_members n [] (skip_ws t) = Some (v, r)" by (simp add: read_value.simps)
      have "skip_ws t \<noteq> []" by (rule read_members_nonempty [OF m])
      then show ?thesis using "2.IH"(1) [OF s _ 2 None m] expect_other [OF None] 2 s
        by (simp add: read_value.simps skip_ws_append)
    next
      case (Some r')
      with "2.prems"(1) s 2 expect_skip_append [OF Some, of q] show ?thesis by (simp add: read_value.simps)
    qed
  next
    case 3
    show ?thesis
    proof (cases "expect (CHR '']'') (skip_ws t)")
      case None
      with "2.prems"(1) s 3 have m: "read_elements n [] (skip_ws t) = Some (v, r)" by (simp add: read_value.simps)
      have "skip_ws t \<noteq> []" by (rule read_elements_nonempty [OF m])
      then show ?thesis using "2.IH"(2) [OF s _ _ 3 None m] expect_other [OF None] 3 s
        by (simp add: read_value.simps skip_ws_append)
    next
      case (Some r')
      with "2.prems"(1) s 3 expect_skip_append [OF Some, of q] show ?thesis by (simp add: read_value.simps)
    qed
  next
    case 4
    with "2.prems" s read_constant_append [of s v r q] show ?thesis by (simp add: read_value.simps)
  qed
next
  case (4 n acc s)
  from 4(3) obtain s1 k' s2 s3 u s4 where a: "expect (CHR 0x22) s = Some s1" "read_string s1 = Some (k', s2)"
    "expect (CHR '':'') (skip_ws s2) = Some s3" "read_value n (skip_ws s3) = Some (u, s4)"
    by (auto simp: read_members.simps bind_eq_Some_conv)
  have s3: "skip_ws (s3 @ q) = skip_ws s3 @ q"
    by (rule skip_ws_append [OF read_value_nonempty [OF a(4)]])
  have front: "expect (CHR 0x22) (s @ q) = Some (s1 @ q)" "read_string (s1 @ q) = Some (k', s2 @ q)"
    "expect (CHR '':'') (skip_ws (s2 @ q)) = Some (s3 @ q)"
    using a by (simp_all add: expect_append read_string_append expect_skip_append)
  show ?case
  proof (cases "expect (CHR ''}'') (skip_ws s4)")
    case None
    then obtain s5 where s5: "expect (CHR '','') (skip_ws s4) = Some s5"
      "read_members n (dict_set k' u acc) (skip_ws s5) = Some (v, r)"
      using 4(3) a by (auto simp: read_members.simps bind_eq_Some_conv)
    have "read_value n (skip_ws s3 @ q) = Some (u, s4 @ q)"
      using 4(1) [OF a(1,2) refl a(3,4)] expect_ends(1) [OF s5(1)] by simp
    moreover have "expect (CHR ''}'') (skip_ws (s4 @ q)) = None"
      using None s5(1) by (intro expect_other) auto
    moreover have "skip_ws (s5 @ q) = skip_ws s5 @ q"
      by (rule skip_ws_append [OF read_members_nonempty [OF s5(2)]])
    ultimately show ?thesis using front s3 expect_skip_append [OF s5(1), of q]
        4(2) [OF a(1,2) refl a(3,4) refl None s5(1,2)]
      by (simp add: read_members.simps)
  next
    case (Some r')
    have "read_value n (skip_ws s3 @ q) = Some (u, s4 @ q)"
      using 4(1) [OF a(1,2) refl a(3,4)] expect_ends(1) [OF Some] by simp
    with Some 4(3) a front s3 expect_skip_append [OF Some, of q] show ?thesis by (simp add: read_members.simps)
  qed
next
  case (6 n acc s)
  from 6(3) obtain u s1 where a: "read_value n s = Some (u, s1)"
    by (auto simp: read_elements.simps bind_eq_Some_conv)
  show ?case
  proof (cases "expect (CHR '']'') (skip_ws s1)")
    case None
    then obtain s2 where s2: "expect (CHR '','') (skip_ws s1) = Some s2"
      "read_elements n (acc @ [u]) (skip_ws s2) = Some (v, r)"
      using 6(3) a by (auto simp: read_elements.simps bind_eq_Some_conv)
    have "read_value n (s @ q) = Some (u, s1 @ q)"
      using 6(1) [OF a] expect_ends(1) [OF s2(1)] by simp
    moreover have "expect (CHR '']'') (skip_ws (s1 @ q)) = None"
      using None s2(1) by (intro expect_other) auto
    moreover have "skip_ws (s2 @ q) = skip_ws s2 @ q"
      by (rule skip_ws_append [OF read_elements_nonempty [OF s2(2)]])
    ultimately show ?thesis using expect_skip_append [OF s2(1), of q] 6(2) [OF a refl None s2(1,2)]
      by (simp add: read_elements.simps)
  next
    case (Some r')
    have "read_value n (s @ q) = Some (u, s1 @ q)"
      using 6(1) [OF a] expect_ends(1) [OF Some] by simp
    with Some 6(3) a expect_skip_append [OF Some, of q] show ?thesis by (simp add: read_elements.simps)
  qed
qed (simp_all add: read_value.simps read_members.simps read_elements.simps)

text \<open>So no strict prefix of an object's text is itself a JSON text.\<close>

lemma strict_prefix_refused:
  assumes "plain_style st" and "json_ok (JObj d)" and "json_dumps st (JObj d) = p @ q" and "q \<noteq> []"
  shows "json_loads p = None"
proof (rule ccontr)
  let ?t = "json_dumps st (JObj d)"
  assume "json_loads p \<noteq> None"
  then obtain v r where v: "read_value (Suc (length p)) (skip_ws p) = Some (v, r)" "skip_ws r = []"
    by (auto simp: json_loads_def bind_eq_Some_conv split: if_splits)
  then have "p \<noteq> []" by (auto simp: read_value.simps)
  then obtain p' where p: "p = CHR ''{'' # p'" using assms(3) by (cases p) (auto simp: Let_def)
  then have ws: "skip_ws p = p" by (simp add: skip_ws_Cons json_space_def)
  have "\<not> is_number v"
  proof -
    have m: "\<not> is_number u" if "read_members n acc s = Some (u, r)" for n acc s u
      using that by (induction n arbitrary: acc s)
        (auto simp: read_members.simps bind_eq_Some_conv split: option.split_asm)
    with v(1) ws p show ?thesis by (auto simp: read_value.simps split: option.split_asm)
  qed
  with read_append(1) [OF v(1) [unfolded ws], of q] have 1: "read_value (Suc (length p)) ?t = Some (v, r @ q)"
    unfolding assms(3) by blast
  have "read_value (Suc (length p) + length ?t) (?t @ []) = Some (JObj d, [])"
    using json_fuel_length [OF assms(1,2)] by (intro read_value_dumps [OF assms(1,2)]) auto
  with read_more(1) [OF 1, of "length ?t"] have "r @ q = []" by simp
  with assms(4) show False by simp
qed

end
