(* ===== verification/SessionFile.thy ===== *)
theory SessionFile
  imports JsonRoundTrip SessionStore
begin

text \<open>
  Sessions in JSONL files (\<^verbatim>\<open>JsonlSessionStore\<close> in
  \<^verbatim>\<open>src/pi_agent/harness/session/store.py\<close>).  The state is the file's content, or nothing
  when there is no file.  The locks and \<^verbatim>\<open>fsync\<close> are not modelled, and neither is the wording of
  the errors of the decoders of the standard library.
\<close>

section \<open>Bytes\<close>

text \<open>Does \<^verbatim>\<open>bytes.decode("utf-8")\<close> accept the bytes?\<close>

definition byte_in :: "nat \<Rightarrow> nat \<Rightarrow> char \<Rightarrow> bool" where
  "byte_in a b c \<longleftrightarrow> a \<le> (of_char c :: nat) \<and> of_char c \<le> b"

fun utf8_valid :: "string \<Rightarrow> bool" where
  "utf8_valid [] = True"
| "utf8_valid [a] = byte_in 0 127 a"
| "utf8_valid [a, b] = (if byte_in 0 127 a then utf8_valid [b] else byte_in 194 223 a \<and> byte_in 128 191 b)"
| "utf8_valid [a, b, c] =
     (if byte_in 0 127 a then utf8_valid [b, c]
      else if byte_in 194 223 a then byte_in 128 191 b \<and> utf8_valid [c]
      else (a = char_of (224 :: nat) \<and> byte_in 160 191 b \<or>
            (byte_in 225 236 a \<or> byte_in 238 239 a) \<and> byte_in 128 191 b \<or>
            a = char_of (237 :: nat) \<and> byte_in 128 159 b) \<and> byte_in 128 191 c)"
| "utf8_valid (a # b # c # d # s) =
     (if byte_in 0 127 a then utf8_valid (b # c # d # s)
      else if byte_in 194 223 a then byte_in 128 191 b \<and> utf8_valid (c # d # s)
      else if byte_in 224 239 a then
        (a = char_of (224 :: nat) \<and> byte_in 160 191 b \<or>
         (byte_in 225 236 a \<or> byte_in 238 239 a) \<and> byte_in 128 191 b \<or>
         a = char_of (237 :: nat) \<and> byte_in 128 159 b) \<and> byte_in 128 191 c \<and> utf8_valid (d # s)
      else (a = char_of (240 :: nat) \<and> byte_in 144 191 b \<or> byte_in 241 243 a \<and> byte_in 128 191 b \<or>
            a = char_of (244 :: nat) \<and> byte_in 128 143 b) \<and> byte_in 128 191 c \<and> byte_in 128 191 d \<and>
           utf8_valid s)"

text \<open>\<^verbatim>\<open>bytes.splitlines(keepends=True)\<close>, \<^verbatim>\<open>rstrip(b"\r\n")\<close> and
  \<^verbatim>\<open>strip()\<close>.\<close>

fun lines_keep :: "string \<Rightarrow> string list" where
  "lines_keep [] = []"
| "lines_keep (c # s) =
     (if c = CHR 0x0A \<or> c = CHR 0x0D \<and> take 1 s \<noteq> [CHR 0x0A] then [c] # lines_keep s
      else (case lines_keep s of [] \<Rightarrow> [[c]] | l # ls \<Rightarrow> (c # l) # ls))"

definition line_end :: "char \<Rightarrow> bool" where
  "line_end c \<longleftrightarrow> c = CHR 0x0A \<or> c = CHR 0x0D"

definition line_body :: "string \<Rightarrow> string" where
  "line_body l = rev (dropWhile line_end (rev l))"

definition blank_bytes :: "string \<Rightarrow> bool" where
  "blank_bytes s \<longleftrightarrow> (\<forall>c \<in> set s. c = CHR '' '' \<or> byte_in 9 13 c)"

section \<open>Decoding\<close>

definition decode_error :: exn where
  "decode_error = Exn ValueError ''the record cannot be decoded''"

definition parse_record :: "string \<Rightarrow> (exn, session_record) result" where
  "parse_record body =
     (if \<not> utf8_valid body then Inl decode_error
      else case json_loads body of
          None \<Rightarrow> Inl decode_error
        | Some (JObj d) \<Rightarrow> record_from_dict d
        | Some _ \<Rightarrow> Inl (codec_error ''record must be a JSON object''))"

definition corruption :: "string \<Rightarrow> exn" where
  "corruption s = Exn SessionCorruptionError s"

definition corrupt_tail :: "exn \<Rightarrow> nat \<Rightarrow> nat \<Rightarrow> session_warning" where
  "corrupt_tail e index offset = \<lparr>w_code = ''corrupt_tail'',
     w_message = ''ignored incomplete final JSONL record: '' @ exn_text e,
     w_line = Some (int index), w_offset = Some (int offset)\<rparr>"

text \<open>The loop over the lines: number and offset of the next line, the valid bytes, the records.\<close>

fun decode_lines ::
  "nat \<Rightarrow> nat \<Rightarrow> nat \<Rightarrow> session_record list \<Rightarrow> string list \<Rightarrow> (exn, load_result) result" where
  "decode_lines index offset valid recs [] =
     Inr \<lparr>l_records = recs, l_warnings = [], l_valid_bytes = valid, l_ignored_tail = []\<rparr>"
| "decode_lines index offset valid recs (raw # rest) =
     (let body = line_body raw; next_offset = offset + length raw in
      if blank_bytes body then
        (if rest = []
         then Inr \<lparr>l_records = recs, l_warnings = [], l_valid_bytes = next_offset, l_ignored_tail = []\<rparr>
         else Inl (corruption ''blank JSONL record''))
      else case parse_record body of
          Inr r \<Rightarrow> decode_lines (Suc index) next_offset next_offset (recs @ [r]) rest
        | Inl e \<Rightarrow>
            if \<not> is_value_error e then Inl e
            else if rest = [] \<and> \<not> line_end (last raw)
            then Inr \<lparr>l_records = recs, l_warnings = [corrupt_tail e index offset],
                      l_valid_bytes = valid, l_ignored_tail = raw\<rparr>
            else Inl (corruption (''invalid session record: '' @ exn_text e)))"

definition decode_jsonl :: "string \<Rightarrow> (exn, load_result) result" where
  "decode_jsonl data = decode_lines 1 0 0 [] (lines_keep data)"

definition record_text :: "session_record \<Rightarrow> string" where
  "record_text r = json_dumps unspaced_style (JObj (record_to_dict r))"

definition encode_record :: "session_record \<Rightarrow> (exn, string) result" where
  "encode_record r = (let s = record_text r @ [CHR 0x0A] in
     if utf8_valid s then Inr s else Inl (Exn ValueError ''surrogates not allowed''))"

section \<open>The store\<close>

type_synonym session_file = "string option"

definition session_error :: "string \<Rightarrow> exn" where
  "session_error s = Exn SessionError s"

fun is_header :: "session_record \<Rightarrow> bool" where
  "is_header (HeaderRecord _) = True" | "is_header _ = False"

text \<open>Creating opens the file exclusively before the header is encoded.\<close>

definition jsonl_create :: "session_file \<Rightarrow> session_header \<Rightarrow> (exn, unit) result \<times> session_file" where
  "jsonl_create f h = (case f of
       Some s \<Rightarrow> (Inl (session_error ''session already exists''), Some s)
     | None \<Rightarrow> (case encode_record (HeaderRecord h) of
           Inl e \<Rightarrow> (Inl e, Some []) | Inr b \<Rightarrow> (Inr (), Some b)))"

definition jsonl_load :: "session_file \<Rightarrow> (exn, load_result) result" where
  "jsonl_load f = (case f of
       None \<Rightarrow> Inl (session_error ''session does not exist'')
     | Some data \<Rightarrow>
         bindE (decode_jsonl data) (\<lambda>l.
         bindE (validate_records (l_records l)) (\<lambda>ws.
         Inr (l\<lparr>l_warnings := l_warnings l @ ws\<rparr>))))"

text \<open>What is written at the end of the file, when the record is accepted.\<close>

definition jsonl_appended :: "string \<Rightarrow> session_record \<Rightarrow> string \<Rightarrow> (exn, string) result" where
  "jsonl_appended existing r encoded =
     (if existing = [] then
        (if is_header r then Inr encoded
         else Inl (validation_error ''the first record must be a session header''))
      else
        bindE (decode_jsonl existing) (\<lambda>l.
        if l_ignored_tail l \<noteq> [] then
          Inl (corruption ''refusing to append after a corrupt final JSONL record; repair the tail first'')
        else
        bindE (validate_records (l_records l @ [r])) (\<lambda>_.
        if is_header r then Inl (validation_error ''a session header may only be the first record'')
        else Inr ((if last existing \<noteq> CHR 0x0A then [CHR 0x0A] else []) @ encoded))))"

text \<open>Opening for appending creates the file, even when the record is then refused.\<close>

definition jsonl_append ::
  "session_file \<Rightarrow> session_record \<Rightarrow> (exn, unit) result \<times> session_file" where
  "jsonl_append f r = (case encode_record r of
       Inl e \<Rightarrow> (Inl e, f)
     | Inr encoded \<Rightarrow>
         let existing = (case f of None \<Rightarrow> [] | Some s \<Rightarrow> s) in
         (case jsonl_appended existing r encoded of
            Inl e \<Rightarrow> (Inl e, Some existing)
          | Inr w \<Rightarrow> (Inr (), Some (existing @ w))))"

definition repair_tail :: "session_file \<Rightarrow> (exn, load_result) result \<times> session_file" where
  "repair_tail f = (case f of
       None \<Rightarrow> (Inl (Exn OSError ''No such file or directory''), None)
     | Some data \<Rightarrow>
         (case decode_jsonl data of
            Inl e \<Rightarrow> (Inl e, Some data)
          | Inr l \<Rightarrow> (Inr l, Some (if l_ignored_tail l \<noteq> [] then take (l_valid_bytes l) data else data))))"

end
