(* ===== verification/SessionFileCorrect.thy ===== *)
theory SessionFileCorrect
  imports SessionFile SessionManager
begin

text \<open>
  The file store keeps the promises of the store protocol, and an append that was cut short at any
  byte loses at most the record being written.
\<close>

section \<open>Lines\<close>

lemma lines_keep_Nil_iff [simp]: "lines_keep s = [] \<longleftrightarrow> s = []"
  by (cases s) (auto split: list.split)

lemma concat_lines_keep [simp]: "concat (lines_keep s) = s"
  by (induction s) (auto split: list.split)

lemma lines_keep_append:
  "s = [] \<or> last s = CHR 0x0A \<Longrightarrow> lines_keep (s @ t) = lines_keep s @ lines_keep t"
proof (induction s)
  case (Cons c s)
  show ?case
  proof (cases "s = []")
    case False
    with Cons have "lines_keep (s @ t) = lines_keep s @ lines_keep t" "take 1 (s @ t) = take 1 s"
      by (cases s; simp)+
    then show ?thesis using False by (auto split: list.split)
  qed (use Cons in simp)
qed simp

lemma lines_keep_newline:
  "s \<noteq> [] \<Longrightarrow> last s \<noteq> CHR 0x0A \<Longrightarrow>
   lines_keep (s @ [CHR 0x0A]) = butlast (lines_keep s) @ [last (lines_keep s) @ [CHR 0x0A]]"
proof (induction s)
  case (Cons c s)
  show ?case
  proof (cases "s = []")
    case True
    with Cons.prems show ?thesis by simp
  next
    case False
    with Cons have IH: "lines_keep (s @ [CHR 0x0A]) = butlast (lines_keep s) @ [last (lines_keep s) @ [CHR 0x0A]]"
      by simp
    obtain l ls where ls: "lines_keep s = l # ls" using False by (cases "lines_keep s") auto
    have "take 1 (s @ [CHR 0x0A]) = take 1 s" using False by (cases s) simp_all
    with IH ls show ?thesis by (cases ls) (auto split: list.split)
  qed
qed simp

lemma lines_keep_line: "\<forall>c \<in> set t. \<not> line_end c \<Longrightarrow> t \<noteq> [] \<Longrightarrow> lines_keep t = [t]"
proof (induction t)
  case (Cons c t)
  then show ?case by (cases t) (simp_all add: line_end_def)
qed simp

lemma lines_keep_full_line: "\<forall>c \<in> set t. \<not> line_end c \<Longrightarrow> lines_keep (t @ [CHR 0x0A]) = [t @ [CHR 0x0A]]"
proof (cases "t = []")
  case False
  assume a: "\<forall>c \<in> set t. \<not> line_end c"
  with False have "last t \<noteq> CHR 0x0A" by (auto simp: line_end_def dest: last_in_set)
  with lines_keep_newline [OF False] lines_keep_line [OF a False] show ?thesis by simp
qed simp

lemma line_body_newline [simp]: "line_body (l @ [CHR 0x0A]) = line_body l"
  by (simp add: line_body_def line_end_def)

lemma line_body_id: "\<forall>c \<in> set t. \<not> line_end c \<Longrightarrow> line_body t = t"
proof -
  assume "\<forall>c \<in> set t. \<not> line_end c"
  then have "\<not> line_end (hd (rev t))" if "t \<noteq> []" using that last_in_set [of t] by (simp add: hd_rev)
  then have "dropWhile line_end (rev t) = rev t" by (auto simp: dropWhile_eq_self_iff)
  then show ?thesis by (simp add: line_body_def)
qed

section \<open>The text of a record\<close>

lemma digit_chars: "c \<in> set (takeWhile is_digit t) \<Longrightarrow> (32 :: nat) \<le> of_char c"
  using set_takeWhileD [of c is_digit t] by (simp add: is_digit_def)

lemma part_chars:
  "c \<in> set (int_part s) \<Longrightarrow> (32 :: nat) \<le> of_char c"
  "c \<in> set (frac_part s) \<Longrightarrow> (32 :: nat) \<le> of_char c"
  "c \<in> set (exp_part s) \<Longrightarrow> (32 :: nat) \<le> of_char c"
proof -
  have "set (int_part s) \<subseteq> set (takeWhile is_digit s)"
    by (cases "takeWhile is_digit s") (auto simp: int_part_def)
  then show "c \<in> set (int_part s) \<Longrightarrow> (32 :: nat) \<le> of_char c" using digit_chars by blast
  show "c \<in> set (frac_part s) \<Longrightarrow> (32 :: nat) \<le> of_char c"
  proof (cases s)
    case (Cons d t)
    assume "c \<in> set (frac_part s)"
    with Cons have "c = CHR ''.'' \<or> c \<in> set (takeWhile is_digit t)" by (auto simp: frac_part_def split: if_splits)
    then show ?thesis using digit_chars by fastforce
  qed (simp add: frac_part_def)
  show "c \<in> set (exp_part s) \<Longrightarrow> (32 :: nat) \<le> of_char c"
  proof (cases s)
    case (Cons d t)
    define sg where "sg = (case t of [] \<Rightarrow> [] | y # _ \<Rightarrow> if y = CHR ''-'' \<or> y = CHR ''+'' then [y] else [])"
    assume "c \<in> set (exp_part s)"
    then have "c \<in> {CHR ''e'', CHR ''E''} \<union> set sg \<union> set (takeWhile is_digit (drop (length sg) t))"
      unfolding exp_part_def Cons list.case Let_def sg_def [symmetric] by (simp split: if_splits) blast
    moreover have "set sg \<subseteq> {CHR ''-'', CHR ''+''}" by (auto simp: sg_def split: list.split)
    ultimately have "c \<in> {CHR ''e'', CHR ''E'', CHR ''-'', CHR ''+''} \<or>
        c \<in> set (takeWhile is_digit (drop (length sg) t))" by blast
    then show ?thesis using digit_chars by fastforce
  qed (simp add: exp_part_def)
qed

lemma number_chars:
  assumes "read_number s = Some (v, r)"
  shows "\<exists>p. s = p @ r \<and> (\<forall>c \<in> set p. (32 :: nat) \<le> of_char c)"
proof -
  define sg where "sg = (if take 1 s = ''-'' then ''-'' else '''')"
  define s1 where "s1 = drop (length sg) s"
  define i where "i = int_part s1"
  define s2 where "s2 = drop (length i) s1"
  define f where "f = frac_part s2"
  define s3 where "s3 = drop (length f) s2"
  define x where "x = exp_part s3"
  note defs = sg_def s1_def i_def s2_def f_def s3_def x_def
  have r: "r = drop (length x) s3"
    using assms unfolding read_number_def Let_def defs [symmetric] by (auto split: if_splits)
  have "s = sg @ s1" unfolding sg_def s1_def by (cases s) auto
  moreover have "s1 = i @ s2" unfolding s2_def i_def by (rule prefix_drop [OF part_prefix(1)])
  moreover have "s2 = f @ s3" unfolding s3_def f_def by (rule prefix_drop [OF part_prefix(2)])
  moreover have "s3 = x @ r" unfolding r x_def by (rule prefix_drop [OF part_prefix(3)])
  moreover have "\<forall>c \<in> set (sg @ i @ f @ x). (32 :: nat) \<le> of_char c"
    using part_chars by (auto simp: sg_def i_def f_def x_def)
  ultimately show ?thesis by (intro exI [of _ "sg @ i @ f @ x"]) simp
qed

lemma escape_chars: "c \<in> set (escape_char d) \<Longrightarrow> (32 :: nat) \<le> of_char c"
proof -
  assume c: "c \<in> set (escape_char d)"
  have hex: "(32 :: nat) \<le> of_char (hex_digit n)" if "n < 16" for n
    using that by (simp add: hex_digit_def of_char_of)
  have "of_char d div 16 < (16 :: nat)" "of_char d mod 16 < (16 :: nat)"
    by (simp_all add: less_mult_imp_div_less)
  with c hex show ?thesis by (auto simp: escape_char_def split: if_splits)
qed

lemma sep_list_chars: "c \<in> set (sep_list sep xs) \<Longrightarrow> c \<in> set sep \<or> (\<exists>x \<in> set xs. c \<in> set x)"
  by (induction sep xs rule: sep_list.induct) auto

lemma dump_chars: "json_ok v \<Longrightarrow> c \<in> set (json_dumps unspaced_style v) \<Longrightarrow> (32 :: nat) \<le> of_char c"
proof (induction v arbitrary: c)
  case (JInt i)
  have "\<exists>p. py_str_int i = p @ [] \<and> (\<forall>c \<in> set p. (32 :: nat) \<le> of_char c)"
    by (rule number_chars [OF read_number_int [of "[]" i, simplified]])
  with JInt show ?case by auto
next
  case (JFloat f)
  show ?case
  proof (cases f)
    case (Fin r)
    with JFloat have "read_number (dump_float (Fin r)) = Some (JFloat (Fin r), [])" by simp
    from number_chars [OF this] JFloat(2) Fin show ?thesis by auto
  qed (use JFloat in auto)
next
  case (JStr s)
  then show ?case by (auto simp: dump_string_def dest: escape_chars)
next
  case (JArr xs)
  then show ?case by (auto simp: unspaced_style_def dest!: sep_list_chars)
next
  case (JObj d)
  from JObj(3) have "c \<in> set (sep_list '','' (map (dump_member unspaced_style) d)) \<or> c \<in> {CHR ''{'', CHR ''}''}"
    by (simp add: dumps_object unspaced_style_def del: json_dumps.simps) blast
  then consider "c \<in> {CHR ''{'', CHR ''}'', CHR '',''}" | kv where "kv \<in> set d" "c \<in> set (dump_member unspaced_style kv)"
    using sep_list_chars [of c "'',''"] by fastforce
  then show ?case
  proof cases
    case 2
    then have "c \<in> set (dump_string (fst kv)) \<or> c = CHR '':'' \<or> c \<in> set (json_dumps unspaced_style (snd kv))"
      by (auto simp: dump_member_def unspaced_style_def)
    then show ?thesis
      using JObj.IH [of kv "snd kv"] JObj.prems(1) 2(1) by (cases kv) (auto simp: dump_string_def dest: escape_chars)
  qed auto
qed (auto split: if_splits)

lemma storable_line:
  "\<lbrakk>json_ok (JObj d); c \<in> set (json_dumps unspaced_style (JObj d))\<rbrakk> \<Longrightarrow> \<not> line_end c"
  using dump_chars [of "JObj d" c] by (auto simp: line_end_def)

section \<open>Bytes\<close>

lemma utf8_valid_snoc: "byte_in 0 127 c \<Longrightarrow> utf8_valid (s @ [c]) = utf8_valid s"
proof (induction s rule: utf8_valid.induct)
  case 1
  then show ?case by simp
next
  case (2 a)
  then show ?case by (auto simp: byte_in_def)
next
  case (3 a b)
  then show ?case by (auto simp: byte_in_def)
next
  case (4 a b d)
  then show ?case by (auto simp: byte_in_def)
next
  case (5 a b d e s)
  then show ?case by (cases s) (auto simp: byte_in_def)
qed

section \<open>Files that hold records\<close>

definition line_of :: "string \<Rightarrow> session_record \<Rightarrow> bool" where
  "line_of l r \<longleftrightarrow> \<not> blank_bytes (line_body l) \<and> parse_record (line_body l) = Inr r"

definition file_holds :: "string \<Rightarrow> session_record list \<Rightarrow> bool" where
  "file_holds f rs \<longleftrightarrow> list_all2 line_of (lines_keep f) rs"

lemma decode_good_lines:
  "list_all2 line_of ls rs \<Longrightarrow>
   decode_lines i v v acc (ls @ rest) =
   decode_lines (i + length ls) (v + length (concat ls)) (v + length (concat ls)) (acc @ rs) rest"
proof (induction ls rs arbitrary: i v acc rule: list_all2_induct)
  case (Cons l ls r rs)
  then have "decode_lines i v v acc ((l # ls) @ rest) =
      decode_lines (Suc i) (v + length l) (v + length l) (acc @ [r]) (ls @ rest)"
    by (simp add: line_of_def Let_def)
  with Cons show ?case by (simp add: add.assoc)
qed simp

lemma decode_holds:
  "file_holds f rs \<Longrightarrow>
   decode_jsonl f = Inr \<lparr>l_records = rs, l_warnings = [], l_valid_bytes = length f, l_ignored_tail = []\<rparr>"
  using decode_good_lines [of "lines_keep f" rs 1 0 "[]" "[]"]
  by (simp add: file_holds_def decode_jsonl_def)

lemma load_holds:
  "file_holds f rs \<Longrightarrow> valid_session rs \<Longrightarrow>
   \<exists>ws. jsonl_load (Some f) = Inr \<lparr>l_records = rs, l_warnings = ws, l_valid_bytes = length f, l_ignored_tail = []\<rparr>"
proof -
  assume h: "file_holds f rs" and "valid_session rs"
  then obtain ws where "validate_records rs = Inr ws" using validate_records_Inr by blast
  then show ?thesis by (simp add: jsonl_load_def decode_holds [OF h])
qed

text \<open>A new record starts on a line of its own: a last line without its newline gets one.\<close>

definition terminated :: "string \<Rightarrow> string" where
  "terminated f = f @ (if f \<noteq> [] \<and> last f \<noteq> CHR 0x0A then [CHR 0x0A] else [])"

lemma terminated_lines: "lines_keep (terminated f @ t) = lines_keep (terminated f) @ lines_keep t"
  by (rule lines_keep_append) (simp add: terminated_def)

lemma terminated_holds: "file_holds f rs \<Longrightarrow> file_holds (terminated f) rs"
proof (cases "f \<noteq> [] \<and> last f \<noteq> CHR 0x0A")
  case True
  assume h: "file_holds f rs"
  let ?b = "butlast (lines_keep f)" and ?l = "last (lines_keep f)"
  have "lines_keep f = ?b @ [?l]" using True by simp
  with h have "list_all2 line_of (?b @ [?l]) rs" by (simp add: file_holds_def)
  then obtain bs r where "rs = bs @ [r]" "list_all2 line_of ?b bs" "line_of ?l r"
    by (auto simp: list_all2_append1 list_all2_Cons1)
  moreover have "line_of (?l @ [CHR 0x0A]) r" if "line_of ?l r" using that by (simp add: line_of_def)
  ultimately show ?thesis using True
    by (auto simp: file_holds_def terminated_def lines_keep_newline intro!: list_all2_appendI)
qed (auto simp: terminated_def)

lemma holds_append:
  "file_holds f rs \<Longrightarrow> list_all2 line_of (lines_keep t) ts \<Longrightarrow> file_holds (terminated f @ t) (rs @ ts)"
  using terminated_holds [of f rs] by (simp add: file_holds_def terminated_lines list_all2_appendI)

section \<open>Storable records\<close>

definition storable :: "session_record \<Rightarrow> bool" where
  "storable r \<longleftrightarrow> record_codable r \<and> json_ok (JObj (record_to_dict r)) \<and> utf8_valid (record_text r)"

lemma unspaced_plain: "plain_style unspaced_style" by (simp add: plain_style_def unspaced_style_def)

lemma record_text_start: "\<exists>t. record_text r = CHR ''{'' # t"
  by (simp add: record_text_def Let_def)

lemma record_line:
  assumes "storable r" shows "\<forall>c \<in> set (record_text r). \<not> line_end c"
  using storable_line [of "record_to_dict r"] assms unfolding storable_def record_text_def by blast

lemma encode_storable: "storable r \<Longrightarrow> encode_record r = Inr (record_text r @ [CHR 0x0A])"
  using utf8_valid_snoc [of "CHR 0x0A" "record_text r"]
  by (simp add: encode_record_def storable_def byte_in_def)

lemma text_not_blank: "t \<noteq> [] \<Longrightarrow> prefix t (record_text r) \<Longrightarrow> \<not> blank_bytes t"
proof -
  assume "t \<noteq> []" "prefix t (record_text r)"
  then have "CHR ''{'' \<in> set t" using record_text_start [of r] by (cases t) auto
  then show ?thesis unfolding blank_bytes_def byte_in_def by force
qed

lemma record_line_of:
  assumes "storable r"
  shows "line_of (record_text r) r" "line_of (record_text r @ [CHR 0x0A]) r"
proof -
  have body: "line_body (record_text r) = record_text r" by (rule line_body_id [OF record_line [OF assms]])
  have "json_loads (record_text r) = Some (JObj (record_to_dict r))"
    using loads_dumps [OF unspaced_plain, of "JObj (record_to_dict r)" "[]"] assms
    unfolding storable_def record_text_def by simp
  moreover have "\<not> blank_bytes (record_text r)"
    using record_text_start [of r] by (intro text_not_blank [of "record_text r" r]) auto
  ultimately show "line_of (record_text r) r" "line_of (record_text r @ [CHR 0x0A]) r"
    using assms unfolding storable_def by (simp_all only: line_of_def line_body_newline body parse_record_def record_codec
        option.case json.case if_False not_True_eq_False not_False_eq_True simp_thms)
qed

text \<open>A record cut short is not a record, and is recognised as an incomplete last line.\<close>

lemma torn_line:
  assumes "storable r" and "record_text r = p @ q" and "p \<noteq> []" and "q \<noteq> []"
  shows "decode_lines i v v acc [p] =
     Inr \<lparr>l_records = acc, l_warnings = [corrupt_tail decode_error i v], l_valid_bytes = v, l_ignored_tail = p\<rparr>"
proof -
  have line: "\<forall>c \<in> set p. \<not> line_end c" using record_line [OF assms(1)] assms(2) by simp
  have body: "line_body p = p" by (rule line_body_id [OF line])
  have "json_loads p = None"
    using assms(1) by (intro strict_prefix_refused [OF unspaced_plain _ assms(2) [unfolded record_text_def] assms(4)])
      (simp add: storable_def del: json_ok.simps)
  then have "parse_record p = Inl decode_error" by (simp add: parse_record_def)
  moreover have "\<not> blank_bytes p" using assms(2,3) by (intro text_not_blank [of _ r]) auto
  moreover have "\<not> line_end (last p)" using line last_in_set [OF assms(3)] by blast
  moreover have "is_value_error decode_error" by (simp add: decode_error_def is_value_error_def)
  ultimately show ?thesis by (simp add: body)
qed
section \<open>Appending\<close>

lemma append_holds:
  assumes "file_holds f rs" and "f \<noteq> []" and "storable r"
  shows "jsonl_append (Some f) r =
    (case validate_records (rs @ [r]) of
       Inl x \<Rightarrow> (Inl x, Some f)
     | Inr _ \<Rightarrow> if is_header r then (Inl (validation_error ''a session header may only be the first record''), Some f)
                else (Inr (), Some (terminated f @ record_text r @ [CHR 0x0A])))"
  using assms(2)
  by (auto simp: jsonl_append_def jsonl_appended_def encode_storable [OF assms(3)] decode_holds [OF assms(1)]
      bindE_def terminated_def Let_def split: sum.split)

lemma valid_not_header: "valid_session (rs @ [r]) \<Longrightarrow> rs \<noteq> [] \<Longrightarrow> \<not> is_header r"
  by (cases r; cases rs) (auto simp: valid_session_def)

lemma holds_valid_nonempty: "file_holds f rs \<Longrightarrow> valid_session rs \<Longrightarrow> f \<noteq> [] \<and> rs \<noteq> []"
  by (auto simp: file_holds_def valid_session_def)

lemma append_holds_valid:
  assumes "file_holds f rs" "valid_session rs" "storable r" "valid_session (rs @ [r])"
  shows "jsonl_append (Some f) r = (Inr (), Some (terminated f @ record_text r @ [CHR 0x0A]))"
proof -
  note ne = holds_valid_nonempty [OF assms(1,2)]
  obtain ws where "validate_records (rs @ [r]) = Inr ws" using assms(4) validate_records_Inr by blast
  with ne valid_not_header [OF assms(4)] show ?thesis by (simp add: append_holds [OF assms(1) _ assms(3)])
qed

lemma append_holds_invalid:
  assumes "file_holds f rs" "valid_session rs" "storable r" "\<not> valid_session (rs @ [r])"
  shows "\<exists>x. jsonl_append (Some f) r = (Inl x, Some f)"
proof -
  note ne = holds_valid_nonempty [OF assms(1,2)]
  obtain x where "validate_records (rs @ [r]) = Inl x"
    using assms(4) validate_records_Inr [of "rs @ [r]"] by (cases "validate_records (rs @ [r])") blast+
  with ne show ?thesis by (simp add: append_holds [OF assms(1) _ assms(3)])
qed

lemma appended_holds:
  assumes "file_holds f rs" and "storable r"
  shows "file_holds (terminated f @ record_text r @ [CHR 0x0A]) (rs @ [r])"
  using record_line_of(2) [OF assms(2)] lines_keep_full_line [OF record_line [OF assms(2)]]
  by (intro holds_append [OF assms(1)]) simp

text \<open>The file store as a store of the protocol: an append that raises has changed nothing that a
  load can see, and the state it leaves is not passed on.\<close>

definition file_append :: "session_file \<Rightarrow> session_record \<Rightarrow> (exn, session_file) result" where
  "file_append f r = (case jsonl_append f r of (Inl e, _) \<Rightarrow> Inl e | (Inr _, f') \<Rightarrow> Inr f')"

definition clean_file :: "session_file \<Rightarrow> bool" where
  "clean_file f \<longleftrightarrow> (\<exists>s rs. f = Some s \<and> file_holds s rs)"

lemma clean_file_load:
  assumes "clean_file f" and "jsonl_load f = Inr l"
  obtains s where "f = Some s" "file_holds s (l_records l)" "valid_session (l_records l)"
proof -
  from assms(1) obtain s rs where s: "f = Some s" "file_holds s rs" by (auto simp: clean_file_def)
  with assms(2) have "l_records l = rs" "valid_session rs"
    by (auto simp: jsonl_load_def decode_holds bindE_eq_Inr validate_records_Inr)
  with s that show ?thesis by blast
qed

interpretation jsonl: session_store jsonl_load file_append storable clean_file
proof unfold_locales
  fix f l
  assume "jsonl_load f = Inr l"
  then show "valid_session (l_records l)"
    by (auto simp: jsonl_load_def bindE_eq_Inr validate_records_Inr split: option.splits)
next
  fix f l r f'
  assume l: "jsonl_load f = Inr l" "clean_file f" and r: "storable r" "file_append f r = Inr f'"
  from l(2,1) obtain s where s: "f = Some s" "file_holds s (l_records l)" "valid_session (l_records l)"
    by (rule clean_file_load)
  have v: "valid_session (l_records l @ [r])"
  proof (rule ccontr)
    assume "\<not> ?thesis"
    from append_holds_invalid [OF s(2,3) r(1) this] r(2) s(1) show False by (auto simp: file_append_def)
  qed
  note a = append_holds_valid [OF s(2,3) r(1) v] appended_holds [OF s(2) r(1)]
  from a(1) r(2) s(1) have f': "f' = Some (terminated s @ record_text r @ [CHR 0x0A])"
    by (simp add: file_append_def)
  from load_holds [OF a(2) v] a(2) f' show "clean_file f' \<and> (\<exists>l'. jsonl_load f' = Inr l' \<and> l_records l' = l_records l @ [r])"
    by (auto simp: clean_file_def)
next
  fix f l r
  assume l: "jsonl_load f = Inr l" "clean_file f" and r: "storable r"
  from l(2,1) obtain s where s: "f = Some s" "file_holds s (l_records l)" "valid_session (l_records l)"
    by (rule clean_file_load)
  show "(\<exists>f'. file_append f r = Inr f') \<longleftrightarrow> valid_session (l_records l @ [r])"
    using append_holds_valid [OF s(2,3) r] append_holds_invalid [OF s(2,3) r] s(1)
    by (fastforce simp: file_append_def)
qed
section \<open>An append cut short\<close>

lemma prefix_of_line: "prefix p (t @ [c]) \<Longrightarrow> p = t @ [c] \<or> p = t \<or> (\<exists>q. q \<noteq> [] \<and> t = p @ q)"
  unfolding prefix_snoc by (auto elim!: prefixE)

lemma torn_tail:
  assumes "file_holds f rs" and "storable r" and "prefix p (record_text r @ [CHR 0x0A])"
  shows "\<exists>g rs' ws rest. decode_jsonl (terminated f @ p) =
       Inr \<lparr>l_records = rs', l_warnings = ws, l_valid_bytes = length g, l_ignored_tail = rest\<rparr> \<and>
     terminated f @ p = g @ rest \<and> file_holds g rs' \<and> prefix f g \<and>
     (p = record_text r @ [CHR 0x0A] \<and> rs' = rs @ [r] \<or> p \<noteq> record_text r @ [CHR 0x0A] \<and> rs' \<in> {rs, rs @ [r]})"
proof -
  have ext: "prefix f (terminated f @ p)" for p by (simp add: terminated_def)
  have done_: "?thesis" if "file_holds (terminated f @ p) rs'"
    "p = record_text r @ [CHR 0x0A] \<and> rs' = rs @ [r] \<or> p \<noteq> record_text r @ [CHR 0x0A] \<and> rs' \<in> {rs, rs @ [r]}" for rs'
    using decode_holds [OF that(1)] that ext by (intro exI [of _ "terminated f @ p"] exI [of _ rs']) auto
  from prefix_of_line [OF assms(3)] consider "p = record_text r @ [CHR 0x0A]" | "p = record_text r"
    | q where "q \<noteq> []" "record_text r = p @ q" by blast
  then show ?thesis
  proof cases
    case 1
    then show ?thesis using appended_holds [OF assms(1,2)] by (intro done_) auto
  next
    case 2
    have ne: "record_text r \<noteq> []" using record_text_start [of r] by auto
    have "list_all2 line_of (lines_keep (record_text r)) [r]"
      using lines_keep_line [OF record_line [OF assms(2)] ne] record_line_of(1) [OF assms(2)] by simp
    from holds_append [OF assms(1) this] 2 show ?thesis by (intro done_) auto
  next
    case 3
    show ?thesis
    proof (cases "p = []")
      case True
      with terminated_holds [OF assms(1)] show ?thesis by (intro done_ [of rs]) auto
    next
      case False
      let ?g = "terminated f"
      have "lines_keep p = [p]"
        using record_line [OF assms(2)] 3(2) by (intro lines_keep_line [OF _ False]) simp
      then have "decode_jsonl (?g @ p) = decode_lines 1 0 0 [] (lines_keep ?g @ [p])"
        by (simp add: decode_jsonl_def terminated_lines)
      also have "\<dots> = decode_lines (1 + length (lines_keep ?g)) (length ?g) (length ?g) rs [p]"
        using decode_good_lines [of "lines_keep ?g" rs 1 0 "[]" "[p]"] terminated_holds [OF assms(1)]
        by (simp add: file_holds_def)
      finally have "decode_jsonl (?g @ p) = Inr \<lparr>l_records = rs,
          l_warnings = [corrupt_tail decode_error (1 + length (lines_keep ?g)) (length ?g)],
          l_valid_bytes = length ?g, l_ignored_tail = p\<rparr>"
        by (simp only: torn_line [OF assms(2) 3(2) False 3(1)])
      moreover have "p \<noteq> record_text r @ [CHR 0x0A]" using 3 by auto
      ultimately show ?thesis using terminated_holds [OF assms(1)] ext [of "[]"]
        by (intro exI [of _ ?g] exI [of _ rs]) auto
    qed
  qed
qed

lemma torn_append:
  assumes "file_holds f rs" and "storable r" and "f @ w = terminated f @ record_text r @ [CHR 0x0A]" and "prefix p w"
  shows "\<exists>g rs' ws rest. decode_jsonl (f @ p) =
       Inr \<lparr>l_records = rs', l_warnings = ws, l_valid_bytes = length g, l_ignored_tail = rest\<rparr> \<and>
     f @ p = g @ rest \<and> file_holds g rs' \<and> prefix f g \<and>
     (p = w \<and> rs' = rs @ [r] \<or> p \<noteq> w \<and> rs' \<in> {rs, rs @ [r]})"
proof -
  obtain z where z: "terminated f = f @ z" "z = [] \<or> z = [CHR 0x0A]" by (simp add: terminated_def)
  with assms(3) have w: "w = z @ record_text r @ [CHR 0x0A]" by simp
  show ?thesis
  proof (cases "p = []")
    case True
    then show ?thesis using decode_holds [OF assms(1)] assms(1) w by (intro exI [of _ f] exI [of _ rs]) auto
  next
    case False
    from z(2) False assms(4) w obtain p' where p': "p = z @ p'" "prefix p' (record_text r @ [CHR 0x0A])"
      by (auto simp: Cons_prefix_Cons elim!: prefix_Cons [THEN iffD1, THEN disjE])
    from torn_tail [OF assms(1,2) p'(2)] show ?thesis by (simp add: z(1) p'(1) w)
  qed
qed

text \<open>C22: A crash in the middle of an append loses at most the record being written.  Whatever
  prefix of the appended bytes reached the file, the session still loads, with the records it had
  or with those and the new one, and repairing the tail leaves a file that holds exactly the
  loaded records and takes further appends.\<close>

theorem torn_append_keeps_records:
  assumes "file_holds f rs" and "valid_session rs" and "storable r" and "valid_session (rs @ [r])"
    and "jsonl_append (Some f) r = (Inr (), Some (f @ w))" and "prefix p w"
  shows "\<exists>rs' l l' g. rs' \<in> {rs, rs @ [r]} \<and> (p = w \<longrightarrow> rs' = rs @ [r]) \<and>
     jsonl_load (Some (f @ p)) = Inr l \<and> l_records l = rs' \<and>
     repair_tail (Some (f @ p)) = (Inr l', Some g) \<and> file_holds g rs' \<and> prefix f g \<and> prefix g (f @ p)"
proof -
  have "f @ w = terminated f @ record_text r @ [CHR 0x0A]"
    using append_holds_valid [OF assms(1-4)] assms(5) by simp
  from torn_append [OF assms(1,3) this assms(6)] obtain g rs' ws rest where
    d: "decode_jsonl (f @ p) = Inr \<lparr>l_records = rs', l_warnings = ws, l_valid_bytes = length g, l_ignored_tail = rest\<rparr>"
    "f @ p = g @ rest" "file_holds g rs'" "prefix f g"
    "p = w \<and> rs' = rs @ [r] \<or> p \<noteq> w \<and> rs' \<in> {rs, rs @ [r]}" by blast
  from d(5) assms(2,4) have "valid_session rs'" by auto
  then obtain vs where "validate_records rs' = Inr vs" using validate_records_Inr by blast
  with d(1) have "\<exists>l. jsonl_load (Some (f @ p)) = Inr l \<and> l_records l = rs'" by (simp add: jsonl_load_def)
  moreover have "\<exists>l'. repair_tail (Some (f @ p)) = (Inr l', Some g)"
    using d(1) by (simp add: repair_tail_def d(2))
  ultimately show ?thesis using d(2-5) by auto
qed

text \<open>A blank last line makes the next append destroy the session.  Loading tolerates one
  blank line at the end and appending does not ask for its repair, but the record written after it
  leaves the blank line in the middle, and then the session neither loads nor can be repaired.\<close>

theorem append_after_blank_line:
  assumes "file_holds f rs" and "valid_session rs" and "storable r" and "valid_session (rs @ [r])"
    and "last f = CHR 0x0A"
  shows "\<exists>l g e. jsonl_load (Some (f @ [CHR 0x0A])) = Inr l \<and> l_records l = rs \<and>
     jsonl_append (Some (f @ [CHR 0x0A])) r = (Inr (), Some g) \<and>
     jsonl_load (Some g) = Inl (corruption e) \<and> repair_tail (Some g) = (Inl (corruption e), Some g)"
proof -
  let ?f = "f @ [CHR 0x0A]" and ?t = "record_text r @ [CHR 0x0A]"
  have lines: "lines_keep (?f @ t) = lines_keep f @ [CHR 0x0A] # lines_keep t" for t
    using lines_keep_append [of f "CHR 0x0A # t"] assms(5) by simp
  have blank: "decode_lines i v v acc ([CHR 0x0A] # rest) = (if rest = []
      then Inr \<lparr>l_records = acc, l_warnings = [], l_valid_bytes = Suc v, l_ignored_tail = []\<rparr>
      else Inl (corruption ''blank JSONL record''))" for i v acc rest
    by (simp add: line_body_def line_end_def blank_bytes_def)
  note good = decode_good_lines [OF assms(1) [unfolded file_holds_def], of "Suc 0" 0 "[]"]
  have d: "decode_jsonl ?f = Inr \<lparr>l_records = rs, l_warnings = [], l_valid_bytes = Suc (length f), l_ignored_tail = []\<rparr>"
    using lines [of "[]"] by (simp add: decode_jsonl_def good blank del: decode_lines.simps)
  obtain ws ws' where v: "validate_records rs = Inr ws" "validate_records (rs @ [r]) = Inr ws'"
    using assms(2,4) validate_records_Inr by blast
  have "lines_keep ?t \<noteq> []" by simp
  then have bad: "decode_jsonl (?f @ ?t) = Inl (corruption ''blank JSONL record'')"
    unfolding decode_jsonl_def lines by (simp add: good blank del: decode_lines.simps lines_keep_Nil_iff)
  have "\<not> is_header r" using valid_not_header [OF assms(4)] holds_valid_nonempty [OF assms(1,2)] by blast
  then have "jsonl_append (Some ?f) r = (Inr (), Some (?f @ ?t))"
    using d v(2) by (simp add: jsonl_append_def jsonl_appended_def encode_storable [OF assms(3)])
  moreover have "\<exists>l. jsonl_load (Some ?f) = Inr l \<and> l_records l = rs"
    using d v(1) by (simp add: jsonl_load_def)
  ultimately show ?thesis using bad by (auto simp: jsonl_load_def repair_tail_def)
qed
section \<open>Instances\<close>

definition small_header :: session_record where
  "small_header = HeaderRecord \<lparr>sh_id = ''s1'', sh_cwd = ''/w'', sh_version = 1, sh_timestamp = 3,
     sh_name = None, sh_parent_session_id = None\<rparr>"

definition small_entry :: session_record where
  "small_entry = EntryRecord \<lparr>e_id = ''e1'', e_parent_id = None, e_timestamp = 4,
     e_body = ThinkingLevelChangeEntry ''high''\<rparr>"

definition small_file :: string where
  "small_file = record_text small_header @ [CHR 0x0A]"

lemma small_storable: "storable small_header" "storable small_entry"
proof -
  have "record_codable small_header" "record_codable small_entry" by code_simp+
  moreover have "json_ok (JObj (record_to_dict small_header))" "json_ok (JObj (record_to_dict small_entry))"
    by code_simp+
  moreover have "utf8_valid (record_text small_header)" "utf8_valid (record_text small_entry)" by code_simp+
  ultimately show "storable small_header" "storable small_entry" by (simp_all only: storable_def)
qed

lemma small_holds: "file_holds small_file [small_header]"
  using appended_holds [of "[]" "[]" small_header] small_storable(1)
  by (simp add: file_holds_def terminated_def small_file_def)

lemma small_valid: "valid_session [small_header]" "valid_session ([small_header] @ [small_entry])"
proof -
  have "validate_records [small_header] = Inr []" "validate_records ([small_header] @ [small_entry]) = Inr []"
    by code_simp+
  then show "valid_session [small_header]" "valid_session ([small_header] @ [small_entry])"
    by (simp_all only: validate_records_Inr)
qed

lemma small_last: "last small_file = CHR 0x0A" by (simp add: small_file_def)

theorem torn_append_keeps_records_witness:
  "\<exists>l. jsonl_load (Some (small_file @ ''{'')) = Inr l \<and> l_records l \<in> {[small_header], [small_header, small_entry]}"
proof -
  let ?w = "record_text small_entry @ [CHR 0x0A]"
  have ne: "small_file \<noteq> []" by (simp add: small_file_def)
  have a: "jsonl_append (Some small_file) small_entry = (Inr (), Some (small_file @ ?w))"
    using append_holds_valid [OF small_holds small_valid(1) small_storable(2) small_valid(2)] small_last
    by (simp add: terminated_def)
  have "prefix ''{'' ?w" using record_text_start [of small_entry] by auto
  from torn_append_keeps_records [OF small_holds small_valid(1) small_storable(2) small_valid(2) a this]
  show ?thesis by auto
qed

theorem append_after_blank_line_witness:
  "\<exists>g e. jsonl_append (Some (small_file @ [CHR 0x0A])) small_entry = (Inr (), Some g) \<and>
     jsonl_load (Some g) = Inl (corruption e)"
  using append_after_blank_line [OF small_holds small_valid(1) small_storable(2) small_valid(2) small_last]
  by blast
end
