(* ===== verification/Retry.thy ===== *)
theory Retry
  imports Models Schema PyFormat
begin

text \<open>
  Errors of a provider and the delay before the next attempt
  (\<^verbatim>\<open>src/pi_agent/ai/errors.py\<close>, \<^verbatim>\<open>ai/retry.py\<close>).  Floats are exact and have no
  upper bound; the calendar dates of \<^verbatim>\<open>Retry-After\<close> are read by a parameter.
\<close>

section \<open>Errors\<close>

record provider_error =
  pe_message :: string
  pe_status_code :: "int option"
  pe_code :: "string option"
  pe_retryable :: bool
  pe_retry_after :: "pyfloat option"
  pe_headers :: "(string \<times> string) list"
  pe_raw :: json
  pe_response_started :: bool
  pe_partial_message :: "assistant_message option"

definition plain_error :: "string \<Rightarrow> provider_error" where
  "plain_error message = \<lparr>pe_message = message, pe_status_code = None, pe_code = None,
     pe_retryable = False, pe_retry_after = None, pe_headers = [], pe_raw = JNull,
     pe_response_started = False, pe_partial_message = None\<rparr>"

definition diagnostic :: "provider_error \<Rightarrow> jobject" where
  "diagnostic e =
     [(''type'', JStr ''provider_error''), (''message'', JStr (pe_message e)),
      (''retryable'', JBool (pe_retryable e)), (''responseStarted'', JBool (pe_response_started e))]
     @ (case pe_status_code e of None \<Rightarrow> [] | Some i \<Rightarrow> [(''statusCode'', JInt i)])
     @ (case pe_code e of None \<Rightarrow> [] | Some s \<Rightarrow> [(''code'', JStr s)])
     @ (case pe_retry_after e of None \<Rightarrow> [] | Some f \<Rightarrow> [(''retryAfterSeconds'', JFloat f)])
     @ (if pe_headers e = [] then []
        else [(''headers'', JObj (map (\<lambda>kv. (fst kv, JStr (snd kv))) (pe_headers e)))])
     @ (if pe_raw e = JNull then [] else [(''raw'', pe_raw e)])"

definition with_response_started :: "bool \<Rightarrow> provider_error \<Rightarrow> provider_error" where
  "with_response_started started e =
     (if pe_response_started e = started then e else e\<lparr>pe_response_started := started\<rparr>)"

definition with_partial_message :: "assistant_message \<Rightarrow> provider_error \<Rightarrow> provider_error" where
  "with_partial_message m e = e\<lparr>pe_partial_message := Some m\<rparr>"

function error_field :: "json \<Rightarrow> string \<Rightarrow> string option" where
  "error_field (JObj d) key =
     (case jget d key of
        JStr s \<Rightarrow> Some s
      | JInt i \<Rightarrow> Some (py_str (JInt i))
      | JBool b \<Rightarrow> Some (py_str (JBool b))
      | JFloat f \<Rightarrow> Some (py_str (JFloat f))
      | _ \<Rightarrow> (case map_of d ''error'' of None \<Rightarrow> None | Some v \<Rightarrow> error_field v key))"
| "error_field JNull key = None"
| "error_field (JBool b) key = None"
| "error_field (JInt i) key = None"
| "error_field (JFloat f) key = None"
| "error_field (JStr s) key = None"
| "error_field (JArr vs) key = None"
  by pat_completeness auto
termination
proof (relation "measure (\<lambda>(v, _). size v)", goal_cases)
  case 1
  then show ?case by simp
qed (auto dest!: map_of_SomeD simp: less_Suc_eq_le intro!: order_trans [OF _ size_list_estimation'])

text \<open>\<^verbatim>\<open>a or b\<close> on optional strings.\<close>

definition or_else :: "string option \<Rightarrow> string option \<Rightarrow> string option" where
  "or_else a b = (case a of Some (c # s) \<Rightarrow> Some (c # s) | _ \<Rightarrow> b)"

definition retryable_status :: "int option \<Rightarrow> bool" where
  "retryable_status status = (case status of
       None \<Rightarrow> True
     | Some i \<Rightarrow> i \<in> {408, 409, 425, 429} \<or> 500 \<le> i \<and> i \<le> 599)"

text \<open>\<open>_json_value\<close> passes a value through its JSON text, which gives a JSON value back as it is.\<close>

definition provider_error_from_payload ::
  "json \<Rightarrow> int option \<Rightarrow> (string \<times> string) list \<Rightarrow> pyfloat option \<Rightarrow> bool \<Rightarrow> provider_error" where
  "provider_error_from_payload payload status headers retry_after started =
     \<lparr>pe_message = the (or_else (error_field payload ''message'') (Some (py_str payload))),
      pe_status_code = status,
      pe_code = or_else (error_field payload ''code'') (error_field payload ''type''),
      pe_retryable = retryable_status status, pe_retry_after = retry_after, pe_headers = headers,
      pe_raw = payload, pe_response_started = started, pe_partial_message = None\<rparr>"

definition transport_error :: "string \<Rightarrow> json \<Rightarrow> provider_error" where
  "transport_error message raw = (plain_error message)\<lparr>pe_retryable := True, pe_raw := raw\<rparr>"

section \<open>Delays\<close>

text \<open>\<^verbatim>\<open>max(x, 0.0)\<close> keeps its first argument unless the second is greater.\<close>

definition at_least_zero :: "pyfloat \<Rightarrow> pyfloat" where
  "at_least_zero x = (if pf_less x (Fin 0) then Fin 0 else x)"

definition pf_min :: "pyfloat \<Rightarrow> pyfloat \<Rightarrow> pyfloat" where
  "pf_min x y = (if pf_less y x then y else x)"

fun pf_minus :: "pyfloat \<Rightarrow> rat \<Rightarrow> pyfloat" where
  "pf_minus (Fin a) t = Fin (a - t)" | "pf_minus f t = f"

fun pf_scale :: "rat \<Rightarrow> pyfloat \<Rightarrow> pyfloat" where
  "pf_scale k (Fin a) = Fin (k * a)" | "pf_scale k f = f"

definition lower_headers :: "(string \<times> string) list \<Rightarrow> (string \<times> string) list" where
  "lower_headers hs = fold (\<lambda>kv d. dict_set (lower (fst kv)) (snd kv) d) hs []"

text \<open>\<open>parse_date\<close> is \<^verbatim>\<open>email.utils\<close> reading a date as a POSIX time stamp, \<open>clock\<close> the time.\<close>

definition parse_retry_after ::
  "(string \<Rightarrow> rat option) \<Rightarrow> rat \<Rightarrow> (string \<times> string) list \<Rightarrow> pyfloat option" where
  "parse_retry_after parse_date clock headers =
     (let normalized = map_of (lower_headers headers);
          number = (\<lambda>key. Option.bind (normalized key) parse_float);
          date = Option.bind (normalized ''retry-after'') parse_date;
          reset = (case number ''x-ratelimit-reset'' of
              None \<Rightarrow> None
            | Some v \<Rightarrow> Some (at_least_zero (if pf_less (Fin 1000000000) v then pf_minus v clock else v)))
      in case number ''retry-after-ms'' of
           Some ms \<Rightarrow> Some (at_least_zero (pf_scale (1 / 1000) ms))
         | None \<Rightarrow> (case number ''retry-after'' of
               Some s \<Rightarrow> Some (at_least_zero s)
             | None \<Rightarrow> (case date of
                   Some t \<Rightarrow> Some (at_least_zero (Fin (t - clock)))
                 | None \<Rightarrow> reset)))"

definition retry_delay ::
  "provider_error \<Rightarrow> nat \<Rightarrow> pyfloat \<Rightarrow> pyfloat \<Rightarrow> (provider_error, pyfloat) result" where
  "retry_delay e attempt base maximum =
     (case pe_retry_after e of
        Some requested \<Rightarrow>
          if pf_less (Fin 0) maximum \<and> pf_less maximum requested then
            Inl (e\<lparr>pe_message := ''Provider requested a retry delay of '' @ format_g requested @
                     ''s, which exceeds the configured maximum of '' @ format_g maximum @ ''s'',
                   pe_retryable := False, pe_partial_message := None\<rparr>)
          else Inr requested
      | None \<Rightarrow>
          (let delay = pf_scale (2 ^ attempt) (at_least_zero base) in
           Inr (if pf_less (Fin 0) maximum then pf_min delay maximum else delay)))"

section \<open>Facts\<close>

lemma pf_less_irrefl [simp]: "\<not> pf_less x x"
  by (cases x) simp_all

lemma pf_less_trans: "pf_less x y \<Longrightarrow> pf_less y z \<Longrightarrow> pf_less x z"
  by (cases x; cases y; cases z) auto

text \<open>A delay that is granted never exceeds the configured maximum.\<close>

lemma retry_delay_bounded:
  assumes "retry_delay e attempt base maximum = Inr d" and "pf_less (Fin 0) maximum"
  shows "\<not> pf_less maximum d"
proof (cases "pe_retry_after e")
  case None
  have "\<not> pf_less maximum (pf_min x maximum)" for x
    using pf_less_trans by (auto simp: pf_min_def)
  with None assms show ?thesis by (auto simp: retry_delay_def Let_def)
next
  case (Some r)
  with assms show ?thesis by (auto simp: retry_delay_def split: if_splits)
qed

end
