(* ===== verification/JsonPartial.thy ===== *)
theory JsonPartial
  imports JsonRead
begin

text \<open>
  The useful prefix of a JSON value that is still arriving
  (\<^verbatim>\<open>src/pi_agent/ai/json_parse.py\<close>).  The parser's index is the text that is left; a
  value that is missing is \<open>None\<close>.  White space and digits are those of ASCII text, a lone
  surrogate is its three-byte form, and Python's limits on nesting and digits are not modelled.
\<close>

section \<open>Strings\<close>

definition cons_text :: "string \<Rightarrow> string \<times> bool \<times> string \<Rightarrow> string \<times> bool \<times> string" where
  "cons_text b = apfst ((@) b)"

text \<open>After the opening quote: the text, whether it is complete, and what is left.\<close>

function partial_string :: "string \<Rightarrow> string \<times> bool \<times> string" where
  "partial_string [] = ([], False, [])"
| "partial_string (c # s) =
     (if c = CHR 0x22 then ([], True, s)
      else if c \<noteq> CHR 0x5C then cons_text [c] (partial_string s)
      else case s of
          [] \<Rightarrow> ([], False, [])
        | e # r \<Rightarrow>
            if e = CHR ''u'' then
              (case read_hex4 r of
                 None \<Rightarrow> ([], False, r)
               | Some nr \<Rightarrow> cons_text (utf8_encode (fst nr)) (partial_string (snd nr)))
            else cons_text [case unescape e of None \<Rightarrow> e | Some b \<Rightarrow> b] (partial_string r))"
  by pat_completeness auto
termination
  by (relation "measure length") (auto dest!: read_hex4_shorter)

declare partial_string.simps [simp del]

section \<open>Numbers and literals\<close>

definition open_frac :: "string \<Rightarrow> string" where
  "open_frac s = (case s of [] \<Rightarrow> [] | c # t \<Rightarrow> if c = CHR ''.'' then c # takeWhile is_digit t else [])"

definition open_exp :: "string \<Rightarrow> string" where
  "open_exp s = (case s of
       [] \<Rightarrow> []
     | c # t \<Rightarrow>
         if c = CHR ''e'' \<or> c = CHR ''E'' then
           (let sg = (case t of [] \<Rightarrow> [] | x # _ \<Rightarrow> if x = CHR ''-'' \<or> x = CHR ''+'' then [x] else [])
            in c # sg @ takeWhile is_digit (drop (length sg) t))
         else [])"

text \<open>What \<^verbatim>\<open>_NUMBER\<close> matches at the start of the text.\<close>

definition number_match :: "string \<Rightarrow> string option" where
  "number_match s =
     (let sg = (if take 1 s = ''-'' then ''-'' else '''');
          s1 = drop (length sg) s; i = int_part s1;
          s2 = drop (length i) s1; f = open_frac s2;
          s3 = drop (length f) s2
      in if i = [] then None else Some (sg @ i @ f @ open_exp s3))"

definition number_rest :: "char \<Rightarrow> bool" where
  "number_rest c \<longleftrightarrow> c \<in> set ''.eE+-''"

definition partial_number :: "string \<Rightarrow> json option \<times> string" where
  "partial_number s = (case number_match s of
       None \<Rightarrow> (None, s)
     | Some m \<Rightarrow>
         (let token = rev (dropWhile number_rest (rev m)) in
          if token = [] \<or> token = ''-'' then (None, s)
          else (if \<exists>c \<in> set token. c \<in> set ''.eE'' then map_option JFloat (parse_float token)
                else map_option JInt (parse_int token), drop (length m) s)))"

definition literals :: "(string \<times> json) list" where
  "literals = [(''true'', JBool True), (''false'', JBool False), (''null'', JNull)]"

fun partial_literal :: "(string \<times> json) list \<Rightarrow> string \<Rightarrow> json option \<times> string" where
  "partial_literal [] s = (None, s)"
| "partial_literal ((w, v) # ws) s =
     (if prefix w s then (Some v, drop (length w) s)
      else if prefix s w then (None, [])
      else partial_literal ws s)"

section \<open>Values\<close>

text \<open>The recursion takes fuel, and \<open>None\<close> outside is running out of it: twice the length of the
  text is enough.\<close>

fun partial_value :: "nat \<Rightarrow> string \<Rightarrow> (json option \<times> string) option"
and partial_members :: "nat \<Rightarrow> jobject \<Rightarrow> string \<Rightarrow> (jobject \<times> string) option"
and partial_elements :: "nat \<Rightarrow> json list \<Rightarrow> string \<Rightarrow> (json list \<times> string) option" where
  "partial_value 0 s = None"
| "partial_value (Suc n) s =
     (case lstrip s of
        [] \<Rightarrow> Some (None, [])
      | c # r \<Rightarrow>
          if c = CHR ''{'' then map_option (\<lambda>(d, q). (Some (JObj d), q)) (partial_members n [] r)
          else if c = CHR ''['' then map_option (\<lambda>(xs, q). (Some (JArr xs), q)) (partial_elements n [] r)
          else if c = CHR 0x22 then (case partial_string r of (v, _, q) \<Rightarrow> Some (Some (JStr v), q))
          else if c = CHR ''-'' \<or> is_digit c then Some (partial_number (c # r))
          else Some (partial_literal literals (c # r)))"
| "partial_members 0 acc s = None"
| "partial_members (Suc n) acc s =
     (case lstrip s of
        [] \<Rightarrow> Some (acc, [])
      | c # r \<Rightarrow>
          if c = CHR ''}'' then Some (acc, r)
          else if c \<noteq> CHR 0x22 then Some (acc, c # r)
          else (case partial_string r of (k, whole, r1) \<Rightarrow>
            if \<not> whole then Some (acc, r1)
            else (case lstrip r1 of
                [] \<Rightarrow> Some (acc, [])
              | x # r2 \<Rightarrow>
                  if x \<noteq> CHR '':'' then Some (acc, x # r2)
                  else (case partial_value n r2 of
                      None \<Rightarrow> None
                    | Some (None, _) \<Rightarrow> Some (acc, r2)
                    | Some (Some v, r3) \<Rightarrow>
                        (case lstrip r3 of
                           [] \<Rightarrow> Some (dict_set k v acc, [])
                         | y # r4 \<Rightarrow>
                             if y = CHR ''}'' then Some (dict_set k v acc, r4)
                             else if y \<noteq> CHR '','' then Some (dict_set k v acc, y # r4)
                             else partial_members n (dict_set k v acc) r4)))))"
| "partial_elements 0 acc s = None"
| "partial_elements (Suc n) acc s =
     (case lstrip s of
        [] \<Rightarrow> Some (acc, [])
      | c # r \<Rightarrow>
          if c = CHR '']'' then Some (acc, r)
          else (case partial_value n (c # r) of
              None \<Rightarrow> None
            | Some (None, q) \<Rightarrow> Some (acc, q)
            | Some (Some v, r1) \<Rightarrow>
                (case lstrip r1 of
                   [] \<Rightarrow> Some (acc @ [v], [])
                 | y # r2 \<Rightarrow>
                     if y = CHR '']'' then Some (acc @ [v], r2)
                     else if y \<noteq> CHR '','' then Some (acc @ [v], y # r2)
                     else partial_elements n (acc @ [v]) r2)))"

declare partial_value.simps [simp del] partial_members.simps [simp del] partial_elements.simps [simp del]

definition parse_streaming_json :: "string \<Rightarrow> json option" where
  "parse_streaming_json raw =
     (if strip raw = [] then Some (JObj [])
      else case json_loads raw of
          Some v \<Rightarrow> Some v
        | None \<Rightarrow> map_option (\<lambda>(v, _). case v of None \<Rightarrow> JObj [] | Some v \<Rightarrow> v)
                    (partial_value (Suc (2 * length raw)) raw))"

end
