(* ===== verification/Provider.thy ===== *)
theory Provider
  imports Retry JsonPartial SessionCodec
begin

text \<open>
  The OpenAI-compatible provider (\<^verbatim>\<open>src/pi_agent/ai/openai_compatible.py\<close>): the request it
  sends, the way it turns the lines of the response into events, and its attempts.  The transport,
  the cancellation signal and the callbacks are a script of what each of them yields; the HTTP
  client itself is not modelled.
\<close>

section \<open>Requests\<close>

text \<open>\<^verbatim>\<open>ensure_ascii=True\<close>: outside ASCII a JSON text has characters only in its strings, and each of
  them becomes an escape.\<close>

definition unicode_escape :: "nat \<Rightarrow> string" where
  "unicode_escape n = [CHR 0x5C, CHR ''u'', hex_digit (n div 4096 mod 16), hex_digit (n div 256 mod 16),
     hex_digit (n div 16 mod 16), hex_digit (n mod 16)]"

definition escape_code :: "nat \<Rightarrow> string" where
  "escape_code n = (if n < 65536 then unicode_escape n
     else unicode_escape (55296 + (n - 65536) div 1024) @ unicode_escape (56320 + (n - 65536) mod 1024))"

definition cont :: "char \<Rightarrow> nat" where "cont c = of_char c mod 64"

fun ascii_only :: "string \<Rightarrow> string" where
  "ascii_only (a # b # c # d # s) =
     (let n = of_char a :: nat in
      if n < 127 then a # ascii_only (b # c # d # s)
      else if n = 127 then unicode_escape 127 @ ascii_only (b # c # d # s)
      else if n < 224 then escape_code (n mod 32 * 64 + cont b) @ ascii_only (c # d # s)
      else if n < 240 then escape_code (n mod 16 * 4096 + cont b * 64 + cont c) @ ascii_only (d # s)
      else escape_code (n mod 8 * 262144 + cont b * 4096 + cont c * 64 + cont d) @ ascii_only s)"
| "ascii_only [a, b, c] =
     (let n = of_char a :: nat in
      if n < 127 then a # ascii_only [b, c]
      else if n = 127 then unicode_escape 127 @ ascii_only [b, c]
      else if n < 224 then escape_code (n mod 32 * 64 + cont b) @ ascii_only [c]
      else escape_code (n mod 16 * 4096 + cont b * 64 + cont c))"
| "ascii_only [a, b] =
     (let n = of_char a :: nat in
      if n < 127 then a # ascii_only [b]
      else if n = 127 then unicode_escape 127 @ ascii_only [b]
      else escape_code (n mod 32 * 64 + cont b))"
| "ascii_only [a] = (if of_char a < (127 :: nat) then [a] else unicode_escape 127)"
| "ascii_only [] = []"

definition wire_text :: "json \<Rightarrow> string" where
  "wire_text v = ascii_only (json_dumps unspaced_style v)"

definition text_blocks :: "content list \<Rightarrow> string" where
  "text_blocks cs = concat (map (\<lambda>c. case c of TextContent s _ \<Rightarrow> s | _ \<Rightarrow> []) cs)"

fun user_part :: "content \<Rightarrow> json list" where
  "user_part (TextContent s sig) = [JObj [(''type'', JStr ''text''), (''text'', JStr s)]]"
| "user_part (ImageContent d m) = [JObj [(''type'', JStr ''image_url''),
     (''image_url'', JObj [(''url'', JStr (''data:'' @ m @ '';base64,'' @ d))])]]"
| "user_part _ = []"

fun call_part :: "content \<Rightarrow> json list" where
  "call_part (ToolCallContent c) = [JObj [(''id'', JStr (tc_id c)), (''type'', JStr ''function''),
     (''function'', JObj [(''name'', JStr (tc_name c)), (''arguments'', JStr (wire_text (JObj (tc_arguments c))))])]]"
| "call_part _ = []"

fun convert_message :: "message \<Rightarrow> json list" where
  "convert_message (UserMessage m) = [JObj [(''role'', JStr ''user''), (''content'',
     (case um_content m of UserText s \<Rightarrow> JStr s | UserBlocks cs \<Rightarrow> JArr (concat (map user_part cs))))]]"
| "convert_message (ToolResultMessage m) = [JObj [(''role'', JStr ''tool''),
     (''tool_call_id'', JStr (trm_tool_call_id m)), (''name'', JStr (trm_tool_name m)),
     (''content'', JStr (text_blocks (trm_content m)))]]"
| "convert_message (AssistantMessage m) =
     (let s = text_blocks (am_content m); calls = concat (map call_part (am_content m)) in
      [JObj ([(''role'', JStr ''assistant''), (''content'', if s = [] then JNull else JStr s)]
         @ (if calls = [] then [] else [(''tool_calls'', JArr calls)]))])"

definition convert_messages :: "provider_context \<Rightarrow> json list" where
  "convert_messages ctx =
     (case pc_system_prompt ctx of
        Some (c # s) \<Rightarrow> [JObj [(''role'', JStr ''system''), (''content'', JStr (c # s))]] | _ \<Rightarrow> [])
     @ concat (map convert_message (pc_messages ctx))"

definition tool_json :: "tool_definition \<Rightarrow> json" where
  "tool_json t = JObj [(''type'', JStr ''function''), (''function'', JObj [(''name'', JStr (td_name t)),
     (''description'', JStr (td_description t)), (''parameters'', JObj (td_parameters t))])]"

definition dict_update :: "jobject \<Rightarrow> jobject \<Rightarrow> jobject" where
  "dict_update d e = fold (\<lambda>kv d. dict_set (fst kv) (snd kv) d) e d"

definition request_body :: "model \<Rightarrow> provider_context \<Rightarrow> stream_options \<Rightarrow> jobject" where
  "request_body m ctx opts =
     (let max_tokens = (case so_max_tokens opts of Some i \<Rightarrow> i | None \<Rightarrow> md_max_tokens m);
          cached = (case so_session_id opts of Some (c # s) \<Rightarrow> so_cache_retention opts \<noteq> ''none'' \<and>
              jget (md_compat m) ''supportsPromptCacheKey'' = JBool True | _ \<Rightarrow> False);
          body =
            [(''model'', JStr (md_id m)), (''messages'', JArr (convert_messages ctx)),
             (''stream'', JBool True), (''stream_options'', JObj [(''include_usage'', JBool True)])]
            @ (case pc_tools ctx of Some (t # ts) \<Rightarrow> [(''tools'', JArr (map tool_json (t # ts)))] | _ \<Rightarrow> [])
            @ (case so_temperature opts of None \<Rightarrow> [] | Some f \<Rightarrow> [(''temperature'', JFloat f)])
            @ (if 0 < max_tokens then [(''max_tokens'', JInt max_tokens)] else [])
            @ opt_str_field ''tool_choice'' (so_tool_choice opts)
            @ (case jget (so_metadata opts) ''user_id'' of JStr s \<Rightarrow> [(''user'', JStr s)] | _ \<Rightarrow> [])
            @ (if cached then opt_str_field ''prompt_cache_key'' (so_session_id opts)
                 @ (if so_cache_retention opts = ''long'' then [(''prompt_cache_retention'', JStr ''24h'')] else [])
               else [])
      in dict_update (dict_update body (md_sampling_params m)) (so_sampling_params opts))"

text \<open>Headers: the last source that names a header wins whatever the case of the name, and a null
  value removes it.\<close>

definition dict_remove :: "string \<Rightarrow> (string \<times> 'a) list \<Rightarrow> (string \<times> 'a) list" where
  "dict_remove k d = filter (\<lambda>kv. fst kv \<noteq> k) d"

definition merge_header ::
  "string \<times> json \<Rightarrow> (string \<times> string \<times> json) list \<Rightarrow> (string \<times> string \<times> json) list" where
  "merge_header nv merged =
     (if snd nv = JNull then dict_remove (lower (fst nv)) merged else dict_set (lower (fst nv)) nv merged)"

definition merge_headers :: "jobject list \<Rightarrow> jobject" where
  "merge_headers sources = map snd (fold merge_header (concat sources) [])"

record http_request =
  hr_url :: string
  hr_headers :: jobject
  hr_body :: string
  hr_timeout :: pyfloat

record provider_config =
  cf_base_url :: "string option"
  cf_api_key :: "string option"

definition rstrip_slash :: "string \<Rightarrow> string" where
  "rstrip_slash s = rev (dropWhile (\<lambda>c. c = CHR ''/'') (rev s))"

definition ends_with :: "string \<Rightarrow> string \<Rightarrow> bool" where
  "ends_with t s \<longleftrightarrow> drop (length s - length t) s = t \<and> length t \<le> length s"

definition request_url :: "provider_config \<Rightarrow> model \<Rightarrow> string option" where
  "request_url cf m =
     (let base = rstrip_slash (case or_else (cf_base_url cf) (Some (md_base_url m)) of None \<Rightarrow> [] | Some s \<Rightarrow> s) in
      if base = [] then None
      else Some (if ends_with ''/chat/completions'' base then base else base @ ''/chat/completions''))"

text \<open>What raised: a cancellation, a provider error, or any other exception with its text.\<close>

datatype failure = Cancelled string | Request provider_error | Other string

text \<open>\<open>on_payload\<close> may replace the body, leave it (\<^verbatim>\<open>None\<close>), or raise.\<close>

type_synonym payload_hook = "jobject \<Rightarrow> failure + json"

definition request_headers :: "provider_config \<Rightarrow> model \<Rightarrow> stream_options \<Rightarrow> jobject" where
  "request_headers cf m opts =
     (let key = or_else (so_api_key opts) (cf_api_key cf) in
      merge_headers [[(''Accept'', JStr ''text/event-stream''), (''Content-Type'', JStr ''application/json''),
         (''Authorization'', case key of Some (c # s) \<Rightarrow> JStr (''Bearer '' @ c # s) | _ \<Rightarrow> JNull)],
        md_headers m, so_headers opts])"

definition build_request ::
  "provider_config \<Rightarrow> payload_hook option \<Rightarrow> model \<Rightarrow> provider_context \<Rightarrow> stream_options \<Rightarrow>
   failure + http_request" where
  "build_request cf on_payload m ctx opts = (case request_url cf m of
       None \<Rightarrow> Inl (Other ''OpenAI-compatible base URL is required'')
     | Some url \<Rightarrow>
         bindE (case on_payload of
             None \<Rightarrow> Inr (request_body m ctx opts)
           | Some hook \<Rightarrow> bindE (hook (request_body m ctx opts)) (\<lambda>v. case v of
               JNull \<Rightarrow> Inr (request_body m ctx opts)
             | JObj d \<Rightarrow> Inr d
             | _ \<Rightarrow> Inl (Other ''on_payload must return a request object or None'')))
         (\<lambda>body. Inr \<lparr>hr_url = url, hr_headers = request_headers cf m opts,
            hr_body = wire_text (JObj body), hr_timeout = so_timeout opts\<rparr>))"

end
