(* ===== verification/ProviderStream.thy ===== *)
theory ProviderStream
  imports Provider
begin

text \<open>
  From the lines of a response to events (\<^verbatim>\<open>_run_once\<close> and \<^verbatim>\<open>_run\<close> in
  \<^verbatim>\<open>src/pi_agent/ai/openai_compatible.py\<close>).  A step takes the state of the response, in which
  the events pushed so far are recorded, and either fails or goes on; what was pushed before a
  failure stays pushed.  The tool call of an accumulator is the block of the partial message at its
  index, because the code shares the object.
\<close>

section \<open>State\<close>

record tool_accumulator =
  ta_index :: nat
  ta_raw :: string

record response_state =
  rs_partial :: assistant_message
  rs_started :: bool
  rs_text :: "nat option"
  rs_thinking :: "nat option"
  rs_tools :: "(int \<times> tool_accumulator) list"
  rs_finish :: "string option"
  rs_usage :: usage
  rs_model :: "string option"
  rs_id :: "string option"
  rs_events :: "assistant_event list"

type_synonym step = "response_state \<Rightarrow> failure option \<times> response_state"

definition ok :: step where "ok s = (None, s)"
definition raise :: "failure \<Rightarrow> step" where "raise f s = (Some f, s)"

definition after :: "step \<Rightarrow> step \<Rightarrow> step" where
  "after f g s = (case f s of (None, s') \<Rightarrow> g s' | (Some x, s') \<Rightarrow> (Some x, s'))"

fun in_order :: "('a \<Rightarrow> step) \<Rightarrow> 'a list \<Rightarrow> step" where
  "in_order f [] = ok"
| "in_order f (x # xs) = after (f x) (in_order f xs)"

definition push :: "assistant_event \<Rightarrow> response_state \<Rightarrow> response_state" where
  "push ev s = s\<lparr>rs_events := rs_events s @ [ev]\<rparr>"

definition set_content :: "content list \<Rightarrow> response_state \<Rightarrow> response_state" where
  "set_content cs s = s\<lparr>rs_partial := (rs_partial s)\<lparr>am_content := cs\<rparr>\<rparr>"

definition blocks :: "response_state \<Rightarrow> content list" where
  "blocks s = am_content (rs_partial s)"

definition empty_response :: "model \<Rightarrow> int \<Rightarrow> assistant_message" where
  "empty_response m t = \<lparr>am_content = [], am_api = md_api m, am_provider = md_provider m, am_model = md_id m,
     am_response_model = JNull, am_response_id = JNull, am_usage = usage_zero, am_stop_reason = JStr ''pending'',
     am_error_message = JNull, am_raw_stop_reason = JNull, am_end_turn = JNull, am_diagnostics = JArr [],
     am_timestamp = t\<rparr>"

definition initial_response :: "model \<Rightarrow> int \<Rightarrow> response_state" where
  "initial_response m t = \<lparr>rs_partial = empty_response m t, rs_started = False, rs_text = None, rs_thinking = None,
     rs_tools = [], rs_finish = None, rs_usage = usage_zero, rs_model = None, rs_id = None, rs_events = []\<rparr>"

section \<open>One payload\<close>

definition parse_sse_line :: "string \<Rightarrow> string option" where
  "parse_sse_line line =
     (let s = strip line in
      if s = [] \<or> take 1 s = '':'' then None
      else if take 5 s \<noteq> ''data:'' then None
      else Some (lstrip (drop 5 s)))"

definition string_or_none :: "json \<Rightarrow> string option" where
  "string_or_none v = (case v of JStr s \<Rightarrow> Some s | _ \<Rightarrow> None)"

definition object_or_empty :: "json \<Rightarrow> jobject" where
  "object_or_empty v = (case v of JObj d \<Rightarrow> d | _ \<Rightarrow> [])"

text \<open>\<^verbatim>\<open>int(d.get(k, 0) or 0)\<close>\<close>

definition count_field :: "jobject \<Rightarrow> string \<Rightarrow> (exn, int) result" where
  "count_field d k = py_int (let v = jget_or d k (JInt 0) in if truthy v then v else JInt 0)"

definition parse_usage :: "jobject \<Rightarrow> (exn, usage) result" where
  "parse_usage d =
     (let prompt_details = object_or_empty (jget_or d ''prompt_tokens_details'' (JObj []));
          completion_details = object_or_empty (jget_or d ''completion_tokens_details'' (JObj [])) in
      bindE (count_field prompt_details ''cached_tokens'') (\<lambda>cached.
      bindE (count_field d ''prompt_tokens'') (\<lambda>prompt_tokens.
      bindE (count_field d ''completion_tokens'') (\<lambda>ou.
      bindE (count_field completion_details ''reasoning_tokens'') (\<lambda>reasoning.
      bindE (py_int (let v = jget_or d ''total_tokens'' (JInt (prompt_tokens + ou)) in
               if truthy v then v else JInt 0)) (\<lambda>total.
      Inr (usage_zero\<lparr>u_input := max (prompt_tokens - cached) 0, u_output := ou, u_cache_read := cached,
             u_reasoning := Some reasoning, u_total_tokens := total\<rparr>)))))))"

definition start_response :: "response_state \<Rightarrow> response_state" where
  "start_response s = (if rs_started s then s else
     let p = (rs_partial s)\<lparr>am_response_model := json_opt (rs_model s), am_response_id := json_opt (rs_id s)\<rparr> in
     (push (StartEvent p) (s\<lparr>rs_partial := p\<rparr>))\<lparr>rs_started := True\<rparr>)"

definition read_text :: "json \<Rightarrow> response_state \<Rightarrow> response_state" where
  "read_text v s = (case v of
       JStr (c # d) \<Rightarrow>
         let s1 = (case rs_text s of
                 Some i \<Rightarrow> s
               | None \<Rightarrow>
                   let i = length (blocks s); s0 = set_content (blocks s @ [TextContent [] JNull]) s
                   in push (TextStartEvent (int i) (rs_partial s0)) (s0\<lparr>rs_text := Some i\<rparr>));
             i = the (rs_text s1);
             s2 = set_content ((blocks s1)[i := TextContent (tx_text (blocks s1 ! i) @ c # d) (tx_signature (blocks s1 ! i))]) s1
         in push (TextDeltaEvent (int i) (c # d) (rs_partial s2)) s2
     | _ \<Rightarrow> s)"

definition read_thinking :: "json \<Rightarrow> response_state \<Rightarrow> response_state" where
  "read_thinking v s = (case v of
       JStr (c # d) \<Rightarrow>
         let s1 = (case rs_thinking s of
                 Some i \<Rightarrow> s
               | None \<Rightarrow>
                   let i = length (blocks s); s0 = set_content (blocks s @ [ThinkingContent [] JNull JNull]) s
                   in push (ThinkingStartEvent (int i) (rs_partial s0)) (s0\<lparr>rs_thinking := Some i\<rparr>));
             i = the (rs_thinking s1); b = blocks s1 ! i;
             s2 = set_content ((blocks s1)[i := ThinkingContent (th_thinking b @ c # d) (th_signature b) (th_redacted b)]) s1
         in push (ThinkingDeltaEvent (int i) (c # d) (rs_partial s2)) s2
     | _ \<Rightarrow> s)"

text \<open>The parser of \<open>JsonPartial\<close> always returns.\<close>

definition streaming_value :: "string \<Rightarrow> json" where
  "streaming_value raw = the (parse_streaming_json raw)"

definition update_call :: "nat \<Rightarrow> (tool_call \<Rightarrow> tool_call) \<Rightarrow> response_state \<Rightarrow> response_state" where
  "update_call i f s = set_content ((blocks s)[i := ToolCallContent (f (tc_call (blocks s ! i)))]) s"

definition open_call :: "int \<Rightarrow> string option \<Rightarrow> response_state \<Rightarrow> response_state" where
  "open_call k call_id s = (case map_of (rs_tools s) k of
       Some a \<Rightarrow> s
     | None \<Rightarrow>
         let i = length (blocks s);
             c = \<lparr>tc_id = (case call_id of None \<Rightarrow> [] | Some t \<Rightarrow> t), tc_name = [], tc_arguments = [],
                  tc_thought_signature = JNull, tc_namespace = JNull\<rparr>;
             s0 = set_content (blocks s @ [ToolCallContent c]) s
         in push (ToolCallStartEvent (int i) (rs_partial s0))
              (s0\<lparr>rs_tools := rs_tools s @ [(k, \<lparr>ta_index = i, ta_raw = []\<rparr>)]\<rparr>))"

definition name_call :: "nat \<Rightarrow> string option \<Rightarrow> string option \<Rightarrow> response_state \<Rightarrow> response_state" where
  "name_call i call_id name s =
     (let s1 = (case call_id of Some (c # t) \<Rightarrow> update_call i (\<lambda>x. x\<lparr>tc_id := c # t\<rparr>) s | _ \<Rightarrow> s) in
      case name of Some (c # t) \<Rightarrow> update_call i (\<lambda>x. x\<lparr>tc_name := tc_name x @ c # t\<rparr>) s1 | _ \<Rightarrow> s1)"

definition extend_arguments :: "int \<Rightarrow> tool_accumulator \<Rightarrow> json \<Rightarrow> response_state \<Rightarrow> response_state" where
  "extend_arguments k a v s = (case v of
       JStr (c # d) \<Rightarrow>
         let raw = ta_raw a @ c # d;
             s1 = s\<lparr>rs_tools := dict_set k (a\<lparr>ta_raw := raw\<rparr>) (rs_tools s)\<rparr>;
             s2 = (case streaming_value raw of
                 JObj o' \<Rightarrow> update_call (ta_index a) (\<lambda>x. x\<lparr>tc_arguments := o'\<rparr>) s1 | _ \<Rightarrow> s1)
         in push (ToolCallDeltaEvent (int (ta_index a)) (c # d) (rs_partial s2)) s2
     | _ \<Rightarrow> s)"

definition read_call :: "json \<Rightarrow> step" where
  "read_call v = (case v of
       JObj d \<Rightarrow> (\<lambda>s. case py_int (jget_or d ''index'' (JInt 0)) of
           Inl e \<Rightarrow> raise (Other (exn_text e)) s
         | Inr k \<Rightarrow>
             let fn = object_or_empty (jget_or d ''function'' (JObj []));
                 call_id = string_or_none (jget d ''id'');
                 s1 = open_call k call_id s;
                 a = the (map_of (rs_tools s1) k);
                 s2 = name_call (ta_index a) call_id (string_or_none (jget fn ''name'')) s1
             in ok (extend_arguments k a (jget fn ''arguments'') s2))
     | _ \<Rightarrow> ok)"

definition read_choice :: "json \<Rightarrow> step" where
  "read_choice v = (case v of
       JObj ch \<Rightarrow> (\<lambda>s.
         let s1 = (case jget ch ''finish_reason'' of JStr r \<Rightarrow> s\<lparr>rs_finish := Some r\<rparr> | _ \<Rightarrow> s) in
         case jget_or ch ''delta'' (JObj []) of
           JObj delta \<Rightarrow>
             let s2 = read_text (jget delta ''content'') s1;
                 thinking = (if jget delta ''reasoning_content'' = JNull then jget delta ''reasoning''
                             else jget delta ''reasoning_content'');
                 s3 = read_thinking thinking s2
             in (case jget_or delta ''tool_calls'' (JArr []) of
                   JArr calls \<Rightarrow> in_order read_call calls s3
                 | _ \<Rightarrow> ok s3)
         | _ \<Rightarrow> ok s1)
     | _ \<Rightarrow> ok)"

definition read_usage :: "jobject \<Rightarrow> step" where
  "read_usage d s = (case jget d ''usage'' of
       JObj u \<Rightarrow> (case parse_usage u of
           Inl e \<Rightarrow> raise (Other (exn_text e)) s | Inr x \<Rightarrow> ok (s\<lparr>rs_usage := x\<rparr>))
     | _ \<Rightarrow> ok s)"

definition note_response :: "jobject \<Rightarrow> response_state \<Rightarrow> response_state" where
  "note_response d s = s\<lparr>rs_model := or_else (string_or_none (jget d ''model'')) (rs_model s),
                         rs_id := or_else (string_or_none (jget d ''id'')) (rs_id s)\<rparr>"

definition read_object :: "jobject \<Rightarrow> step" where
  "read_object d s =
     (if jget d ''error'' \<noteq> JNull then
        raise (Request (provider_error_from_payload (jget d ''error'') None [] None (rs_started s))) s
      else after (read_usage d) (\<lambda>s.
        (case jget_or d ''choices'' (JArr []) of
           JArr choices \<Rightarrow> in_order read_choice choices (start_response s)
         | _ \<Rightarrow> raise (Other ''OpenAI stream choices must be a list'') (start_response s))) (note_response d s))"

text \<open>\<open>json_error\<close> is the text of the decoder's error.\<close>

definition read_payload :: "(string \<Rightarrow> string) \<Rightarrow> string \<Rightarrow> step" where
  "read_payload json_error payload = (case json_loads payload of
       None \<Rightarrow> raise (Other (json_error payload))
     | Some (JObj d) \<Rightarrow> read_object d
     | Some _ \<Rightarrow> raise (Other ''OpenAI stream payload must be an object''))"

section \<open>One attempt\<close>

text \<open>What raises before the first line is awaited.\<close>

definition request_failure ::
  "string option \<Rightarrow> provider_config \<Rightarrow> payload_hook option \<Rightarrow> model \<Rightarrow> provider_context \<Rightarrow> stream_options \<Rightarrow>
   failure option" where
  "request_failure cancelled cf hook m ctx opts = (case cancelled of
       Some r \<Rightarrow> Some (Cancelled r)
     | None \<Rightarrow> (case build_request cf hook m ctx opts of Inl f \<Rightarrow> Some f | Inr _ \<Rightarrow> None))"

text \<open>What awaiting the next line yields: a line, or a failure (an idle timeout, a transport error,
  a cancellation while waiting or just after).  The stream ends with the list.\<close>

datatype line_event = Line string | Broken failure

record attempt_script =
  as_request :: "failure option"
  as_lines :: "line_event list"
  as_last_check :: "string option"

fun read_lines :: "(string \<Rightarrow> string) \<Rightarrow> line_event list \<Rightarrow> step" where
  "read_lines json_error [] = ok"
| "read_lines json_error (Broken f # rest) = raise f"
| "read_lines json_error (Line l # rest) = (case parse_sse_line l of
       None \<Rightarrow> read_lines json_error rest
     | Some payload \<Rightarrow>
         if payload = ''[DONE]'' then ok
         else after (read_payload json_error payload) (read_lines json_error rest))"

definition end_text :: "response_state \<Rightarrow> response_state" where
  "end_text s = (case rs_text s of
       None \<Rightarrow> s | Some i \<Rightarrow> push (TextEndEvent (int i) (tx_text (blocks s ! i)) (rs_partial s)) s)"

definition end_thinking :: "response_state \<Rightarrow> response_state" where
  "end_thinking s = (case rs_thinking s of
       None \<Rightarrow> s | Some i \<Rightarrow> push (ThinkingEndEvent (int i) (th_thinking (blocks s ! i)) (rs_partial s)) s)"

definition end_call :: "int \<times> tool_accumulator \<Rightarrow> step" where
  "end_call ka s = (let a = snd ka; i = ta_index a in
     case streaming_value (ta_raw a) of
       JObj d \<Rightarrow>
         let s1 = update_call i (\<lambda>x. x\<lparr>tc_arguments := d\<rparr>) s
         in ok (push (ToolCallEndEvent (int i) (tc_call (blocks s1 ! i)) (rs_partial s1)) s1)
     | _ \<Rightarrow> raise (Other ''Tool call arguments must decode to an object'') s)"

definition map_finish_reason :: "string option \<Rightarrow> bool \<Rightarrow> string" where
  "map_finish_reason raw has_tools =
     (if raw = Some ''tool_calls'' \<or> raw = Some ''function_call'' \<or> raw = None \<and> has_tools then ''toolUse''
      else if raw = Some ''length'' then ''length'' else ''stop'')"

definition complete_response :: "model \<Rightarrow> string option \<Rightarrow> step" where
  "complete_response m cancelled s =
     (let reason = map_finish_reason (rs_finish s) (rs_tools s \<noteq> []);
          p = (rs_partial s)\<lparr>am_stop_reason := JStr reason, am_raw_stop_reason := json_opt (rs_finish s),
                am_response_model := json_opt (rs_model s), am_response_id := json_opt (rs_id s),
                am_usage := snd (calculate_cost m (rs_usage s))\<rparr>;
          s1 = s\<lparr>rs_partial := p\<rparr>
      in case cancelled of
           Some reason' \<Rightarrow> raise (Cancelled reason') s1
         | None \<Rightarrow> ok (push (DoneEvent reason p) s1))"

definition ensure_started :: "response_state \<Rightarrow> response_state" where
  "ensure_started s = (if rs_started s then s else (push (StartEvent (rs_partial s)) s)\<lparr>rs_started := True\<rparr>)"

definition finish_response :: "model \<Rightarrow> string option \<Rightarrow> step" where
  "finish_response m cancelled s =
     after (in_order end_call (sort_key fst (rs_tools s))) (complete_response m cancelled)
       (end_thinking (end_text (ensure_started s)))"

text \<open>How the exceptions of an attempt leave it.  Closing the response afterwards (the
  \<^verbatim>\<open>finally\<close> clause of \<^verbatim>\<open>_run_once\<close>) is taken to succeed: a failure of the close, which
  would replace the outcome of the attempt, is not part of the script.\<close>

definition attempt_failure :: "failure \<Rightarrow> response_state \<Rightarrow> failure" where
  "attempt_failure f s = (case f of
       Cancelled r \<Rightarrow> Cancelled r
     | Request e \<Rightarrow>
         let e1 = with_response_started (rs_started s) e
         in Request (if rs_started s then with_partial_message (rs_partial s) e1 else e1)
     | Other t \<Rightarrow> Request ((plain_error t)\<lparr>pe_raw := JStr t, pe_response_started := rs_started s,
           pe_partial_message := (if rs_started s then Some (rs_partial s) else None)\<rparr>))"

definition run_once ::
  "(string \<Rightarrow> string) \<Rightarrow> model \<Rightarrow> int \<Rightarrow> attempt_script \<Rightarrow> failure option \<times> assistant_event list" where
  "run_once json_error m t sc =
     (case after (\<lambda>s. case as_request sc of Some f \<Rightarrow> raise f s | None \<Rightarrow> ok s)
            (after (read_lines json_error (as_lines sc)) (finish_response m (as_last_check sc)))
            (initial_response m t) of
        (None, s) \<Rightarrow> (None, rs_events s)
      | (Some f, s) \<Rightarrow> (Some (attempt_failure f s), rs_events s))"

section \<open>The attempts\<close>

definition error_message :: "model \<Rightarrow> int \<Rightarrow> string \<Rightarrow> string + provider_error \<Rightarrow> assistant_message" where
  "error_message m t reason err =
     (let fresh = (\<lambda>text ds. (empty_response m t)\<lparr>am_stop_reason := JStr reason, am_error_message := JStr text,
                             am_diagnostics := JArr ds\<rparr>) in
      case err of
        Inl text \<Rightarrow> fresh text []
      | Inr e \<Rightarrow>
          let ds = [JObj (diagnostic e)] in
          (case pe_partial_message e of
             Some p \<Rightarrow> p\<lparr>am_stop_reason := JStr reason, am_error_message := JStr (pe_message e),
                        am_diagnostics := (case am_diagnostics p of JArr vs \<Rightarrow> JArr (vs @ ds) | v \<Rightarrow> v)\<rparr>
           | None \<Rightarrow> fresh (pe_message e) ds))"

text \<open>The script of a run: what each attempt meets, the clock when it starts and when it fails, and
  whether the sleep after it was cancelled.\<close>

record run_script =
  ru_attempt :: "nat \<Rightarrow> attempt_script"
  ru_clock :: "nat \<Rightarrow> int"
  ru_late :: "nat \<Rightarrow> int"
  ru_sleep :: "nat \<Rightarrow> string option"

definition aborted :: "model \<Rightarrow> int \<Rightarrow> string \<Rightarrow> assistant_event" where
  "aborted m t reason = ErrorEvent ''aborted''
     (error_message m t ''aborted'' (Inl (if reason = [] then ''Operation aborted'' else reason)))"

definition failed :: "model \<Rightarrow> int \<Rightarrow> provider_error \<Rightarrow> assistant_event" where
  "failed m t e = ErrorEvent ''error'' (error_message m t ''error'' (Inr e))"

text \<open>\<open>left\<close> attempts may still follow the current one; the result is the pushed events and the
  delays slept.\<close>

fun run_attempts ::
  "(string \<Rightarrow> string) \<Rightarrow> model \<Rightarrow> stream_options \<Rightarrow> run_script \<Rightarrow> nat \<Rightarrow> nat \<Rightarrow>
   assistant_event list \<times> pyfloat list" where
  "run_attempts json_error m opts ru left attempt =
     (case run_once json_error m (ru_clock ru attempt) (ru_attempt ru attempt) of
        (None, evs) \<Rightarrow> (evs, [])
      | (Some (Cancelled r), evs) \<Rightarrow> (evs @ [aborted m (ru_late ru attempt) r], [])
      | (Some (Other t), evs) \<Rightarrow> (evs @ [failed m (ru_late ru attempt) ((plain_error t)\<lparr>pe_raw := JStr t\<rparr>)], [])
      | (Some (Request e), evs) \<Rightarrow>
          (case left of
             0 \<Rightarrow> (evs @ [failed m (ru_late ru attempt) e], [])
           | Suc n \<Rightarrow>
               if \<not> pe_retryable e \<or> pe_response_started e
               then (evs @ [failed m (ru_late ru attempt) e], [])
               else (case retry_delay e attempt (so_retry_base_delay opts) (so_max_retry_delay opts) of
                   Inl capped \<Rightarrow> (evs @ [failed m (ru_late ru attempt) capped], [])
                 | Inr d \<Rightarrow>
                     (case ru_sleep ru attempt of
                        Some r \<Rightarrow> (evs @ [aborted m (ru_late ru attempt) r], [d])
                      | None \<Rightarrow>
                          (case run_attempts json_error m opts ru n (Suc attempt) of
                             (evs', ds) \<Rightarrow> (evs @ evs', d # ds))))))"

definition provider_run ::
  "(string \<Rightarrow> string) \<Rightarrow> model \<Rightarrow> stream_options \<Rightarrow> run_script \<Rightarrow> assistant_event list \<times> pyfloat list" where
  "provider_run json_error m opts ru = run_attempts json_error m opts ru (nat (max (so_max_retries opts) 0)) 0"

end
