(* ===== verification/JsonPartialCorrect.thy ===== *)
theory JsonPartialCorrect
  imports JsonPartial JsonRoundTrip
begin

text \<open>
  The streaming parser always returns, and what it makes of an unfinished text approximates the
  value that is being written.
\<close>

section \<open>Termination\<close>

lemma lstrip_length: "length (lstrip s) \<le> length s"
  by (simp add: lstrip_def length_dropWhile_le)

lemma lstrip_Cons: "lstrip s = c # r \<Longrightarrow> length r < length s"
  using lstrip_length [of s] by simp

lemma partial_string_length: "length (snd (snd (partial_string s))) \<le> length s"
proof (induction s rule: partial_string.induct)
  case (2 c s)
  show ?case
  proof (cases "c = CHR 0x22 \<or> c \<noteq> CHR 0x5C")
    case True
    with 2(1) show ?thesis by (auto simp: partial_string.simps(2) cons_text_def le_SucI)
  next
    case esc: False
    show ?thesis
    proof (cases s)
      case (Cons e r)
      show ?thesis
      proof (cases "e = CHR ''u''")
        case True
        show ?thesis
        proof (cases "read_hex4 r")
          case (Some nr)
          then have "length (snd nr) < length r" by (cases nr) (auto dest: read_hex4_shorter)
          with 2(2) [of e r nr] esc Cons True Some show ?thesis
            by (simp add: partial_string.simps(2) cons_text_def)
        qed (use esc Cons True in \<open>simp add: partial_string.simps(2)\<close>)
      next
        case False
        with 2(3) [of e r] esc Cons show ?thesis by (simp add: partial_string.simps(2) cons_text_def)
      qed
    qed (use esc in \<open>simp add: partial_string.simps(2)\<close>)
  qed
qed (simp add: partial_string.simps)

lemma partial_literal_length: "length (snd (partial_literal ws s)) \<le> length s"
  by (induction ws) auto

lemma partial_number_length: "length (snd (partial_number s)) \<le> length s"
  by (auto simp: partial_number_def Let_def split: option.split)

text \<open>Enough fuel, and how much of the text is left.\<close>

lemma partial_returns:
  "2 * length s < n \<Longrightarrow> \<exists>v r. partial_value n s = Some (v, r) \<and> length r \<le> length s"
  "2 * length s < n \<Longrightarrow> \<exists>d r. partial_members n acc s = Some (d, r) \<and> length r \<le> length s"
  "Suc (2 * length s) < n \<Longrightarrow> \<exists>xs r. partial_elements n ys s = Some (xs, r) \<and> length r \<le> length s"
proof (induction n arbitrary: s acc ys)
  case (Suc n)
  note IH = Suc.IH
  {
    case 1
    then have len: "2 * length s < Suc n" .
    show ?case
    proof (cases "lstrip s")
      case (Cons c r)
      from lstrip_Cons [OF Cons] len have r: "Suc (2 * length r) < n" "2 * length r < n" "length (c # r) \<le> length s" by simp_all
      consider "c = CHR ''{''" | "c = CHR ''[''" | "c = CHR 0x22"
        | "c = CHR ''-'' \<or> is_digit c" "c \<noteq> CHR ''{''" "c \<noteq> CHR ''[''" "c \<noteq> CHR 0x22"
        | "c \<notin> {CHR ''{'', CHR ''['', CHR 0x22, CHR ''-''}" "\<not> is_digit c" by blast
      then show ?thesis
      proof cases
        case 1
        with IH(2) [OF r(2), of "[]"] Cons r show ?thesis by (fastforce simp: partial_value.simps)
      next
        case 2
        with IH(3) [OF r(1), of "[]"] Cons r show ?thesis by (fastforce simp: partial_value.simps)
      next
        case 3
        with partial_string_length [of r] Cons r show ?thesis
          by (auto simp: partial_value.simps split: prod.split)
      next
        case 4
        with partial_number_length [of "c # r"] Cons r show ?thesis
          by (cases "partial_number (c # r)") (auto simp: partial_value.simps)
      next
        case 5
        with partial_literal_length [of literals "c # r"] Cons r show ?thesis
          by (cases "partial_literal literals (c # r)") (auto simp: partial_value.simps)
      qed
    qed (simp add: partial_value.simps)
  next
    case 2
    then have len: "2 * length s < Suc n" .
    show ?case
    proof (cases "lstrip s")
      case (Cons c r)
      obtain k b r1 where str: "partial_string r = (k, b, r1)" by (cases "partial_string r") auto
      from lstrip_Cons [OF Cons] len partial_string_length [of r] str
      have r: "2 * length r < n" "length (c # r) \<le> length s" "length r1 \<le> length r" by simp_all
      consider "c \<noteq> CHR 0x22 \<or> \<not> b \<or> lstrip r1 = []"
        | x r2 where "c = CHR 0x22" b "lstrip r1 = x # r2" by (cases "lstrip r1") auto
      then show ?thesis
      proof cases
        case 1
        with Cons str r show ?thesis by (auto simp: partial_members.simps)
      next
        case (2 x r2)
        from lstrip_Cons [OF 2(3)] r have r2: "2 * length r2 < n" "length (x # r2) \<le> length s"
          using lstrip_length [of r1] 2(3) by simp_all
        from IH(1) [OF r2(1)] obtain v r3 where v: "partial_value n r2 = Some (v, r3)" "length r3 \<le> length r2" by blast
        show ?thesis
        proof (cases "x = CHR '':'' \<and> v \<noteq> None \<and> lstrip r3 \<noteq> []")
          case True
          then obtain u y r4 where u: "v = Some u" "lstrip r3 = y # r4" by (cases v; cases "lstrip r3") auto
          from lstrip_Cons [OF u(2)] v(2) r2 have r4: "2 * length r4 < n" "length (y # r4) \<le> length s"
            using lstrip_length [of r3] u(2) by simp_all
          from IH(2) [OF r4(1), of "dict_set k u acc"] Cons str 2 v u True r4 show ?thesis
            by (auto simp: partial_members.simps)
        next
          case False
          with Cons str 2 v r2 show ?thesis by (auto simp: partial_members.simps split: option.split)
        qed
      qed
    qed (simp add: partial_members.simps)
  next
    case 3
    then have len: "2 * length s < n" by simp
    show ?case
    proof (cases "lstrip s")
      case (Cons c r)
      from lstrip_Cons [OF Cons] len have r: "length (c # r) \<le> length s" by simp
      show ?thesis
      proof (cases "c = CHR '']''")
        case False
        note c = False
        from r len have "2 * length (c # r) < n" by simp
        from IH(1) [OF this] obtain v r1 where v: "partial_value n (c # r) = Some (v, r1)" "length r1 \<le> length (c # r)"
            by blast
          show ?thesis
          proof (cases "v \<noteq> None \<and> lstrip r1 \<noteq> []")
            case True
            then obtain u y r2 where u: "v = Some u" "lstrip r1 = y # r2" by (cases v; cases "lstrip r1") auto
            from lstrip_Cons [OF u(2)] v(2) r have r2: "Suc (2 * length r2) < n" "length (y # r2) \<le> length s"
              using lstrip_length [of r1] u(2) len by simp_all
            from IH(3) [OF r2(1), of "ys @ [u]"] Cons c v u r2 show ?thesis
              by (auto simp: partial_elements.simps)
          next
            case False
            with Cons c v r show ?thesis by (auto simp: partial_elements.simps split: option.split)
          qed
      qed (use Cons r in \<open>simp add: partial_elements.simps\<close>)
    qed (simp add: partial_elements.simps)
  }
qed simp_all

text \<open>So the parser returns on every text.\<close>

lemma streaming_returns: "\<exists>v. parse_streaming_json raw = Some v"
  using partial_returns(1) [of raw "Suc (2 * length raw)"]
  by (cases "json_loads raw") (auto simp: parse_streaming_json_def)

section \<open>Approximation\<close>

text \<open>An approximation is the value itself as far as it goes: a prefix of a string, any number in
  place of a number, and a prefix of the elements or members of which only the last is itself an
  approximation.\<close>

inductive approx :: "json \<Rightarrow> json \<Rightarrow> bool" where
  approx_same: "approx v v"
| approx_string: "prefix s t \<Longrightarrow> approx (JStr s) (JStr t)"
| approx_number: "is_number a \<Longrightarrow> is_number b \<Longrightarrow> approx a b"
| approx_elements: "prefix xs ys \<Longrightarrow> approx (JArr xs) (JArr ys)"
| approx_last_element: "approx x y \<Longrightarrow> approx (JArr (xs @ [x])) (JArr (xs @ y # ys))"
| approx_members: "prefix xs ys \<Longrightarrow> approx (JObj xs) (JObj ys)"
| approx_last_member: "approx x y \<Longrightarrow> approx (JObj (xs @ [(k, x)])) (JObj (xs @ (k, y) # ys))"

inductive_simps approx_Null [simp]: "approx JNull v"
inductive_simps approx_Bool [simp]: "approx (JBool b) v"

lemma cut: "a @ b = p @ q \<Longrightarrow> (\<exists>q'. q' \<noteq> [] \<and> a = p @ q') \<or> (\<exists>p'. p = a @ p' \<and> b = p' @ q)"
  by (auto simp: append_eq_append_conv2)

text \<open>What is left does not look like the continuation of an array or object.\<close>

definition stuck :: "string \<Rightarrow> bool" where
  "stuck s \<longleftrightarrow> (case lstrip s of [] \<Rightarrow> True | c # _ \<Rightarrow> c \<notin> {CHR '','', CHR '']'', CHR ''}''})"

lemma lstrip_simps [simp]: "lstrip [] = []" "lstrip (c # s) = (if is_space c then lstrip s else c # s)"
  by (simp_all add: lstrip_def)

lemma stuck_Nil [simp]: "stuck []" by (simp add: stuck_def)

lemma stuck_Cons: "\<not> is_space c \<Longrightarrow> c \<notin> {CHR '','', CHR '']'', CHR ''}''} \<Longrightarrow> stuck (c # s)"
  by (simp add: stuck_def)

lemma lstrip_spaces: "\<forall>c \<in> set w. is_space c \<Longrightarrow> lstrip (w @ s) = lstrip s"
  by (induction w) auto

lemma stuck_spaces: "\<forall>c \<in> set w. is_space c \<Longrightarrow> stuck (w @ s) = stuck s"
  by (simp add: stuck_def lstrip_spaces)

lemma json_space_is_space: "json_space c \<Longrightarrow> is_space c"
  by (auto simp: json_space_def is_space_def Let_def)

lemma stuck_lstrip: "stuck (lstrip r) = stuck r"
  by (simp add: stuck_def lstrip_def dropWhile_idem)

section \<open>Strings\<close>

lemma partial_string_escape: "partial_string (escape_char c @ s) = cons_text [c] (partial_string s)"
proof (cases "of_char c < (32 :: nat) \<and> c \<notin> {CHR 0x0A, CHR 0x0D, CHR 0x09, CHR 0x08, CHR 0x0C}")
  case True
  define n where "n = (of_char c :: nat)"
  have c: "c = char_of n" by (simp add: n_def)
  have n: "n < 32" using True by (simp add: n_def)
  then have "n div 16 < 16" "n mod 16 < 16" by simp_all
  note n = n this
  have "read_hex4 (CHR ''0'' # CHR ''0'' # hex_digit (n div 16) # hex_digit (n mod 16) # s) = Some (n, s)"
    using n by (simp add: hex_value_digit hex_value_zero)
  moreover have "utf8_encode n = [c]" using n by (simp add: utf8_encode_def c)
  moreover have "c \<noteq> CHR 0x22" "c \<noteq> CHR 0x5C" using True by (intro notI; simp)+
  then have "escape_char c = CHR 0x5C # CHR ''u'' # CHR ''0'' # CHR ''0'' # [hex_digit (n div 16), hex_digit (n mod 16)]"
    using True by (simp add: escape_char_def n_def)
  ultimately show ?thesis by (simp add: partial_string.simps(2))
next
  case False
  show ?thesis
  proof (cases "c \<in> {CHR 0x22, CHR 0x5C, CHR 0x0A, CHR 0x0D, CHR 0x09, CHR 0x08, CHR 0x0C}")
    case True
    then show ?thesis
      by (elim insertE) (simp_all add: escape_char_def partial_string.simps(2) unescape_def)
  next
    case False': False
    with False have "escape_char c = [c]" by (auto simp: escape_char_def)
    with False' show ?thesis by (simp add: partial_string.simps(2))
  qed
qed

lemma partial_string_whole: "partial_string (concat (map escape_char s) @ CHR 0x22 # r) = (s, True, r)"
  by (induction s) (simp_all add: partial_string_escape cons_text_def partial_string.simps(2))

lemma torn_escape:
  assumes "escape_char c = p @ q" and "q \<noteq> []"
  shows "\<exists>r. partial_string p = ([], False, r) \<and> stuck r"
proof -
  let ?e = "[CHR 0x5C, CHR ''u'', CHR ''0'', CHR ''0'', hex_digit (of_char c div 16), hex_digit (of_char c mod 16)]"
  have "escape_char c = [c] \<or> (\<exists>x. escape_char c = [CHR 0x5C, x]) \<or> escape_char c = ?e"
    by (simp add: escape_char_def)
  then consider "escape_char c = [c]" | x where "escape_char c = [CHR 0x5C, x]" | "escape_char c = ?e" by blast
  then show ?thesis
  proof cases
    case 1
    with assms have "p = []" by (cases p) auto
    then show ?thesis by (simp add: partial_string.simps(1))
  next
    case (2 x)
    with assms have "p = [] \<or> p = [CHR 0x5C]" by (cases p; cases "tl p") auto
    then show ?thesis by (auto simp: partial_string.simps)
  next
    case 3
    with assms(1) have eq: "?e = p @ q" by simp
    have "length p + length q = 6" using arg_cong [OF eq, of length] by simp
    then have "length p < 6" using assms(2) by (cases q) simp_all
    moreover have "p = take (length p) ?e" by (simp add: eq)
    moreover have "\<exists>r. partial_string (take k ?e) = ([], False, r) \<and> stuck r" if "k < 6" for k
    proof -
      from that have "k = 0 \<or> k = 1 \<or> k = 2 \<or> k = 3 \<or> k = 4 \<or> k = 5" by linarith
      then show ?thesis by (elim disjE) (simp_all add: partial_string.simps stuck_Cons is_space_def)
    qed
    ultimately show ?thesis by metis
  qed
qed

lemma torn_string:
  "concat (map escape_char s) = p @ q \<Longrightarrow> \<exists>s' r. partial_string p = (s', False, r) \<and> prefix s' s \<and> stuck r"
proof (induction s arbitrary: p)
  case Nil
  then show ?case by (simp add: partial_string.simps)
next
  case (Cons c s)
  from cut [of "escape_char c" "concat (map escape_char s)" p q] Cons.prems
  consider q' where "q' \<noteq> []" "escape_char c = p @ q'" | p' where "p = escape_char c @ p'" "concat (map escape_char s) = p' @ q"
    by auto
  then show ?case
  proof cases
    case 1
    with torn_escape show ?thesis by force
  next
    case (2 p')
    with Cons.IH [of p'] show ?thesis by (auto simp: partial_string_escape cons_text_def)
  qed
qed

section \<open>Numbers\<close>

lemma read_number_parts:
  assumes "read_number t = Some (v, [])"
  obtains sg i f x where "t = sg @ i @ f @ x" "sg = [] \<or> sg = ''-''" "i \<noteq> []" "\<forall>c \<in> set i. is_digit c"
    "i = ''0'' \<or> hd i \<noteq> CHR ''0''"
    "f = [] \<or> (\<exists>ds. ds \<noteq> [] \<and> (\<forall>c \<in> set ds. is_digit c) \<and> f = CHR ''.'' # ds)"
    "x = [] \<or> (\<exists>e s ds. e \<in> {CHR ''e'', CHR ''E''} \<and> s \<in> {[], ''-'', ''+''} \<and> ds \<noteq> [] \<and>
        (\<forall>c \<in> set ds. is_digit c) \<and> x = e # s @ ds)"
    "f = [] \<and> x = [] \<Longrightarrow> v = JInt (if sg = [] then int (digits_value i) else - int (digits_value i))"
    "f \<noteq> [] \<or> x \<noteq> [] \<Longrightarrow> map_option JFloat (parse_float t) = Some v"
proof -
  define sg where "sg = (if take 1 t = ''-'' then ''-'' else '''')"
  define s1 where "s1 = drop (length sg) t"
  define i where "i = int_part s1"
  define s2 where "s2 = drop (length i) s1"
  define f where "f = frac_part s2"
  define s3 where "s3 = drop (length f) s2"
  define x where "x = exp_part s3"
  note defs = sg_def s1_def i_def s2_def f_def s3_def x_def
  have r: "read_number t = (if i = [] then None
      else if f = [] \<and> x = [] then
        Some (JInt (if sg = [] then int (digits_value i) else - int (digits_value i)), drop (length x) s3)
      else map_option (\<lambda>v. (JFloat v, drop (length x) s3)) (parse_float (sg @ i @ f @ x)))"
    unfolding read_number_def Let_def defs [symmetric] ..
  with assms have i: "i \<noteq> []" and nil: "drop (length x) s3 = []" by (auto split: if_splits)
  have "t = sg @ s1" unfolding sg_def s1_def by (cases t) auto
  moreover have "s1 = i @ s2" unfolding s2_def i_def by (rule prefix_drop [OF part_prefix(1)])
  moreover have "s2 = f @ s3" unfolding s3_def f_def by (rule prefix_drop [OF part_prefix(2)])
  moreover have "s3 = x" using prefix_drop [OF part_prefix(3) [of s3]] nil by (simp add: x_def)
  ultimately have t: "t = sg @ i @ f @ x" by simp
  have tw: "\<forall>c \<in> set (takeWhile is_digit u). is_digit c" for u by (meson set_takeWhileD)
  have "\<forall>c \<in> set i. is_digit c" "i = ''0'' \<or> hd i \<noteq> CHR ''0''"
    using tw [of s1] i by (cases "takeWhile is_digit s1"; auto simp: i_def int_part_def)+
  moreover have "f = [] \<or> (\<exists>ds. ds \<noteq> [] \<and> (\<forall>c \<in> set ds. is_digit c) \<and> f = CHR ''.'' # ds)"
    using tw by (cases s2) (auto simp: f_def frac_part_def)
  moreover have "x = [] \<or> (\<exists>e s ds. e \<in> {CHR ''e'', CHR ''E''} \<and> s \<in> {[], ''-'', ''+''} \<and> ds \<noteq> [] \<and>
        (\<forall>c \<in> set ds. is_digit c) \<and> x = e # s @ ds)"
  proof (cases s3)
    case (Cons c u)
    define s where "s = (case u of [] \<Rightarrow> [] | y # _ \<Rightarrow> if y = CHR ''-'' \<or> y = CHR ''+'' then [y] else [])"
    let ?ds = "takeWhile is_digit (drop (length s) u)" and ?C = "c = CHR ''e'' \<or> c = CHR ''E''"
    have sset: "s \<in> {[], ''-'', ''+''}" by (auto simp: s_def split: list.split)
    have xeq: "x = (if ?C \<and> ?ds \<noteq> [] then c # s @ ?ds else [])"
      by (simp add: x_def exp_part_def Cons Let_def flip: s_def)
    show ?thesis
    proof (cases "?C \<and> ?ds \<noteq> []")
      case True
      with xeq have "x = c # s @ ?ds" by simp
      with True sset tw [of "drop (length s) u"] show ?thesis
        by (intro disjI2 exI [of _ c] exI [of _ s] exI [of _ ?ds]) simp
    next
      case False
      then show ?thesis using xeq by (simp only: False if_False simp_thms)
    qed
  qed (simp add: x_def exp_part_def)
  moreover have "f = [] \<and> x = [] \<Longrightarrow> v = JInt (if sg = [] then int (digits_value i) else - int (digits_value i))"
    using r assms i by simp
  moreover have "map_option JFloat (parse_float t) = Some v" if "f \<noteq> [] \<or> x \<noteq> []"
  proof -
    from that r assms i have "map_option (\<lambda>v. (JFloat v, drop (length x) s3)) (parse_float t) = Some (v, [])"
      unfolding t by (simp only: split: if_splits) blast+
    then show ?thesis by (cases "parse_float t") simp_all
  qed
  moreover have "sg = [] \<or> sg = ''-''" by (simp add: sg_def)
  ultimately show ?thesis by (intro that [of sg i f x] t i)
qed

lemma number_text_chars:
  assumes "read_number t = Some (v, [])" and "c \<in> set t"
  shows "is_digit c \<or> number_rest c"
  using assms(1)
proof (rule read_number_parts)
  fix sg i f x
  assume "t = sg @ i @ f @ x" "sg = [] \<or> sg = ''-''" "\<forall>c \<in> set i. is_digit c"
    "f = [] \<or> (\<exists>ds. ds \<noteq> [] \<and> (\<forall>c \<in> set ds. is_digit c) \<and> f = CHR ''.'' # ds)"
    "x = [] \<or> (\<exists>e s ds. e \<in> {CHR ''e'', CHR ''E''} \<and> s \<in> {[], ''-'', ''+''} \<and> ds \<noteq> [] \<and>
        (\<forall>c \<in> set ds. is_digit c) \<and> x = e # s @ ds)"
  then show ?thesis using assms(2) by (auto simp: number_rest_def)
qed
lemma digits_not_rest: "is_digit c \<Longrightarrow> \<not> number_rest c"
  by (auto simp: number_rest_def is_digit_def)

lemma take_digits: "\<forall>c \<in> set ds. is_digit c \<Longrightarrow> (case r of [] \<Rightarrow> True | c # _ \<Rightarrow> \<not> is_digit c) \<Longrightarrow>
   takeWhile is_digit (ds @ r) = ds"
  by (cases r) (simp_all add: takeWhile_append)

lemma parse_digits_all: "\<forall>c \<in> set ds. is_digit c \<Longrightarrow> ds \<noteq> [] \<or> ok \<Longrightarrow>
   parse_digits ok n ds = Some (fold (\<lambda>c n. 10 * n + digit_val c) ds n)"
  by (induction ds arbitrary: ok n) (auto simp: mult.commute)

lemma strip_id: "s \<noteq> [] \<Longrightarrow> \<not> is_space (hd s) \<Longrightarrow> \<not> is_space (last s) \<Longrightarrow> strip s = s"
proof -
  assume "s \<noteq> []" "\<not> is_space (hd s)" "\<not> is_space (last s)"
  then have "lstrip s = s" "lstrip (rev s) = rev s"
    unfolding lstrip_def dropWhile_eq_self_iff by (simp_all add: hd_rev)
  then show ?thesis by (simp add: strip_def)
qed

lemma digit_not_space: "is_digit c \<Longrightarrow> \<not> is_space c"
  by (simp add: is_digit_def is_space_def Let_def)

lemma parse_int_digits:
  assumes "\<forall>c \<in> set i. is_digit c" "i \<noteq> []" "sg = [] \<or> sg = ''-''"
  shows "parse_int (sg @ i) = Some (if sg = [] then int (digits_value i) else - int (digits_value i))"
proof -
  obtain d ds where i: "i = d # ds" using assms(2) by (cases i) auto
  have d: "is_digit d" "is_digit (last i)" using assms(1,2) by (simp_all add: i)
  have "strip (sg @ i) = sg @ i"
    using assms d digit_not_space by (intro strip_id) (auto simp: i is_space_def)
  moreover have "split_sign (sg @ i) = (if sg = [] then 1 else - 1, i)"
    using assms(3) d(1) by (auto simp: i is_digit_def)
  ultimately show ?thesis
    using parse_digits_all [OF assms(1), of False 0] assms(2) by (simp add: parse_int_def digits_value_def)
qed

lemma number_match_whole:
  assumes "read_number t = Some (v, [])" and "number_ends r"
  shows "number_match (t @ r) = Some t"
  using assms(1)
proof (rule read_number_parts)
  fix sg i f x
  assume a: "t = sg @ i @ f @ x" "sg = [] \<or> sg = ''-''" "i \<noteq> []" "\<forall>c \<in> set i. is_digit c"
    "i = ''0'' \<or> hd i \<noteq> CHR ''0''"
    "f = [] \<or> (\<exists>ds. ds \<noteq> [] \<and> (\<forall>c \<in> set ds. is_digit c) \<and> f = CHR ''.'' # ds)"
    "x = [] \<or> (\<exists>e s ds. e \<in> {CHR ''e'', CHR ''E''} \<and> s \<in> {[], ''-'', ''+''} \<and> ds \<noteq> [] \<and>
        (\<forall>c \<in> set ds. is_digit c) \<and> x = e # s @ ds)"
  obtain d ds where i: "i = d # ds" "is_digit d" using a(3,4) by (cases i) auto
  have r: "case r of [] \<Rightarrow> True | c # _ \<Rightarrow> \<not> is_digit c"
    using assms(2) by (simp add: number_ends_def split: list.splits)
  have xr: "case x @ r of [] \<Rightarrow> True | c # _ \<Rightarrow> \<not> is_digit c" using a(7) r by (auto simp: is_digit_def)
  have fr: "case f @ x @ r of [] \<Rightarrow> True | c # _ \<Rightarrow> \<not> is_digit c" using a(6) xr by (auto simp: is_digit_def)
  have sgn: "(if take 1 (sg @ i @ q) = ''-'' then ''-'' else '''') = sg" for q
    using a(2) i by (auto simp: is_digit_def)
  have ip: "int_part (i @ f @ x @ r) = i"
    using a(5) i(1) unfolding int_part_def take_digits [OF a(4) fr] by auto
  have fp: "open_frac (f @ x @ r) = f"
  proof (cases "f = []")
    case True
    then show ?thesis using a(7) assms(2) by (auto simp: open_frac_def number_ends_def split: list.splits)
  next
    case False
    with a(6) show ?thesis using take_digits [OF _ xr] by (auto simp: open_frac_def)
  qed
  have xp: "open_exp (x @ r) = x"
  proof (cases "x = []")
    case True
    then show ?thesis using assms(2) by (auto simp: open_exp_def number_ends_def split: list.splits)
  next
    case False
    with a(7) obtain e s es where x: "x = e # s @ es" "e \<in> {CHR ''e'', CHR ''E''}" "s \<in> {[], ''-'', ''+''}"
      "es \<noteq> []" "\<forall>c \<in> set es. is_digit c" by blast
    obtain c cs where es: "es = c # cs" "is_digit c" using x(4,5) by (cases es) auto
    have "(case s @ es @ r of [] \<Rightarrow> [] | y # _ \<Rightarrow> if y = CHR ''-'' \<or> y = CHR ''+'' then [y] else []) = s"
      using x(3) es by (auto simp: is_digit_def)
    with x take_digits [OF x(5) r] show ?thesis by (auto simp: open_exp_def)
  qed
  show ?thesis unfolding number_match_def Let_def a(1) append_assoc sgn
    by (simp add: ip fp xp a(3))
qed

lemma number_last_digit:
  assumes "read_number t = Some (v, [])" shows "t \<noteq> [] \<and> is_digit (last t)"
  using assms by (rule read_number_parts) auto

lemma partial_number_whole:
  assumes "read_number t = Some (v, [])" and "number_ends r"
  shows "partial_number (t @ r) = (Some v, r)"
proof -
  note last = number_last_digit [OF assms(1)]
  have "\<not> number_rest (hd (rev t))" using last digits_not_rest by (simp add: hd_rev)
  then have token: "rev (dropWhile number_rest (rev t)) = t" by (cases "rev t") auto
  have "t \<noteq> ''-''" using last by (auto simp: is_digit_def)
  with last token number_match_whole [OF assms] have "partial_number (t @ r) =
      (if \<exists>c \<in> set t. c \<in> set ''.eE'' then map_option JFloat (parse_float t) else map_option JInt (parse_int t), r)"
    by (simp add: partial_number_def)
  moreover have "(if \<exists>c \<in> set t. c \<in> set ''.eE'' then map_option JFloat (parse_float t) else map_option JInt (parse_int t)) = Some v"
    using assms(1)
  proof (rule read_number_parts)
    fix sg i f x
    assume a: "t = sg @ i @ f @ x" "sg = [] \<or> sg = ''-''" "i \<noteq> []" "\<forall>c \<in> set i. is_digit c"
      "f = [] \<or> (\<exists>ds. ds \<noteq> [] \<and> (\<forall>c \<in> set ds. is_digit c) \<and> f = CHR ''.'' # ds)"
      "x = [] \<or> (\<exists>e s ds. e \<in> {CHR ''e'', CHR ''E''} \<and> s \<in> {[], ''-'', ''+''} \<and> ds \<noteq> [] \<and>
          (\<forall>c \<in> set ds. is_digit c) \<and> x = e # s @ ds)"
      "f = [] \<and> x = [] \<Longrightarrow> v = JInt (if sg = [] then int (digits_value i) else - int (digits_value i))"
      "f \<noteq> [] \<or> x \<noteq> [] \<Longrightarrow> map_option JFloat (parse_float t) = Some v"
    show ?thesis
    proof (cases "f = [] \<and> x = []")
      case True
      have "\<not> (\<exists>c \<in> set t. c \<in> set ''.eE'')" using a(1,2,4) True by (auto simp: is_digit_def)
      with a(7) [OF True] parse_int_digits [OF a(4,3,2)] True a(1) show ?thesis by simp
    next
      case False
      then have "CHR ''.'' \<in> set t \<or> CHR ''e'' \<in> set t \<or> CHR ''E'' \<in> set t"
        using a(5,6) unfolding a(1) by fastforce
      then have "\<exists>c \<in> set t. c \<in> set ''.eE''" by auto
      with a(8) False show ?thesis by (simp only: if_True simp_thms) blast
    qed
  qed
  ultimately show ?thesis by simp
qed

lemma partial_number_kind: "fst (partial_number s) = Some v \<Longrightarrow> is_number v"
proof -
  assume "fst (partial_number s) = Some v"
  then have "(\<exists>f. v = JFloat f) \<or> (\<exists>i. v = JInt i)"
    unfolding partial_number_def Let_def by (cases "number_match s") (auto split: if_split_asm)
  then show ?thesis by auto
qed

lemma partial_number_suffix: "\<exists>m. s = m @ snd (partial_number s)"
proof -
  have "snd (partial_number s) = s \<or> (\<exists>k. snd (partial_number s) = drop k s)"
    by (auto simp: partial_number_def Let_def split: option.split)
  then show ?thesis
  proof (elim disjE exE)
    fix k assume "snd (partial_number s) = drop k s"
    then show ?thesis by (intro exI [of _ "take k s"]) simp
  qed (intro exI [of _ "[]"], simp)
qed

lemma torn_number:
  assumes "read_number t = Some (v, [])" and "t = p @ q" and "partial_number p = (o', r)"
  shows "stuck r \<and> (case o' of None \<Rightarrow> True | Some v' \<Rightarrow> approx v' v)"
proof -
  obtain m where "p = m @ r" using partial_number_suffix [of p] assms(3) by auto
  then have "\<forall>c \<in> set r. is_digit c \<or> number_rest c" using number_text_chars [OF assms(1)] assms(2) by auto
  then have "stuck r"
  proof (cases r)
    case (Cons c cs)
    assume "\<forall>c \<in> set r. is_digit c \<or> number_rest c"
    then have "is_digit c \<or> c \<in> set ''.eE+-''" by (simp add: Cons number_rest_def)
    then show ?thesis unfolding Cons
      by (intro stuck_Cons) (auto simp: is_digit_def is_space_def)
  qed simp
  moreover have "approx v' v" if "o' = Some v'" for v'
    using partial_number_kind [of p v'] assms(3) that is_number_read [OF assms(1)]
    by (intro approx_number) simp_all
  ultimately show ?thesis by (simp split: option.split)
qed
section \<open>Values\<close>

text \<open>JSON has no infinities and no NaN.\<close>

fun finite_numbers :: "json \<Rightarrow> bool" where
  "finite_numbers (JFloat f) = (\<exists>r. f = Fin r)"
| "finite_numbers (JArr xs) = (\<forall>x \<in> set xs. finite_numbers x)"
| "finite_numbers (JObj d) = (\<forall>kv \<in> set d. finite_numbers (snd kv))"
| "finite_numbers _ = True"

definition reads_whole :: "dump_style \<Rightarrow> json \<Rightarrow> bool" where
  "reads_whole st v \<longleftrightarrow> (\<forall>n r. number_ends r \<longrightarrow> 2 * length (json_dumps st v @ r) < n \<longrightarrow>
     partial_value n (json_dumps st v @ r) = Some (Some v, r))"

definition reads_torn :: "dump_style \<Rightarrow> json \<Rightarrow> bool" where
  "reads_torn st v \<longleftrightarrow> (\<forall>n p q. json_dumps st v = p @ q \<longrightarrow> q \<noteq> [] \<longrightarrow> 2 * length p < n \<longrightarrow>
     (\<exists>w r. partial_value n p = Some (w, r) \<and> stuck r \<and>
        (case w of None \<Rightarrow> True | Some v' \<Rightarrow> approx v' v)))"

lemma reads_wholeD:
  "reads_whole st v \<Longrightarrow> number_ends r \<Longrightarrow> 2 * length (json_dumps st v @ r) < n \<Longrightarrow>
   partial_value n (json_dumps st v @ r) = Some (Some v, r)"
  by (simp add: reads_whole_def)

lemma reads_tornD:
  "reads_torn st v \<Longrightarrow> json_dumps st v = p @ q \<Longrightarrow> q \<noteq> [] \<Longrightarrow> 2 * length p < n \<Longrightarrow>
   \<exists>w r. partial_value n p = Some (w, r) \<and> stuck r \<and> (case w of None \<Rightarrow> True | Some v' \<Rightarrow> approx v' v)"
  by (simp add: reads_torn_def)

lemma partial_value_Suc: "0 < n \<Longrightarrow> partial_value n s = partial_value (Suc (n - 1)) s"
  by simp

lemma partial_value_spaces: "\<forall>c \<in> set w. is_space c \<Longrightarrow> partial_value n (w @ s) = partial_value n s"
  by (cases n) (simp_all add: partial_value.simps lstrip_spaces)

lemma partial_members_spaces: "\<forall>c \<in> set w. is_space c \<Longrightarrow> partial_members n acc (w @ s) = partial_members n acc s"
  by (cases n) (simp_all add: partial_members.simps lstrip_spaces)

lemma partial_elements_spaces: "\<forall>c \<in> set w. is_space c \<Longrightarrow> partial_elements n acc (w @ s) = partial_elements n acc s"
  by (cases n) (simp_all add: partial_elements.simps lstrip_spaces)

lemma partial_value_Nil: "0 < n \<Longrightarrow> partial_value n [] = Some (None, [])"
  by (cases n) (simp_all add: partial_value.simps)

lemma partial_value_number:
  "s \<noteq> [] \<Longrightarrow> hd s = CHR ''-'' \<or> is_digit (hd s) \<Longrightarrow> 0 < n \<Longrightarrow> partial_value n s = Some (partial_number s)"
  by (cases n; cases s) (auto simp: partial_value.simps is_digit_def is_space_def)

lemma number_start: "read_number t = Some (v, r) \<Longrightarrow> t \<noteq> [] \<and> (hd t = CHR ''-'' \<or> is_digit (hd t))"
  using read_number_starts [of t v r] by (cases t) (auto simp: starts_number_def)

lemma number_reads:
  assumes "read_number (json_dumps st v) = Some (v, [])"
  shows "reads_whole st v" "reads_torn st v"
proof -
  note start = number_start [OF assms]
  show "reads_whole st v"
    unfolding reads_whole_def
  proof (intro allI impI)
    fix n r assume "number_ends r" "2 * length (json_dumps st v @ r) < n"
    with start partial_number_whole [OF assms] show "partial_value n (json_dumps st v @ r) = Some (Some v, r)"
      by (subst partial_value_number) auto
  qed
  show "reads_torn st v"
    unfolding reads_torn_def
  proof (intro allI impI)
    fix n p q assume t: "json_dumps st v = p @ q" and n: "2 * length p < n"
    show "\<exists>w r. partial_value n p = Some (w, r) \<and> stuck r \<and> (case w of None \<Rightarrow> True | Some v' \<Rightarrow> approx v' v)"
    proof (cases "p = []")
      case False
      then have "partial_value n p = Some (partial_number p)"
        using start n t by (intro partial_value_number) auto
      with torn_number [OF assms t, of "fst (partial_number p)" "snd (partial_number p)"] show ?thesis
        by (cases "partial_number p") auto
    qed (use n partial_value_Nil in auto)
  qed
qed

lemma string_reads: "reads_whole st (JStr s)" "reads_torn st (JStr s)"
proof -
  have quote: "partial_value n (CHR 0x22 # t) = Some (Some (JStr (fst (partial_string t))), snd (snd (partial_string t)))"
    if "0 < n" for n t
    using that by (cases n) (simp_all add: partial_value.simps is_space_def split: prod.split)
  show "reads_whole st (JStr s)"
    by (simp add: reads_whole_def dump_string_def quote partial_string_whole)
  show "reads_torn st (JStr s)"
    unfolding reads_torn_def
  proof (intro allI impI)
    fix n p q assume t: "json_dumps st (JStr s) = p @ q" "q \<noteq> []" and n: "2 * length p < n"
    show "\<exists>w r. partial_value n p = Some (w, r) \<and> stuck r \<and> (case w of None \<Rightarrow> True | Some v' \<Rightarrow> approx v' (JStr s))"
    proof (cases p)
      case (Cons c u)
      have u: "c = CHR 0x22" using t(1) Cons by (simp add: dump_string_def)
      have "concat (map escape_char s) @ [CHR 0x22] = u @ q" using t(1) Cons by (auto simp: dump_string_def)
      then have "concat (map escape_char s) = u @ butlast q"
        using t(2) by (metis append_butlast_last_id append_eq_appendI butlast_snoc butlast_append)
      from torn_string [OF this] obtain s' r where "partial_string u = (s', False, r)" "prefix s' s" "stuck r" by blast
      with quote [of n u] n Cons u show ?thesis by (auto intro: approx_string)
    qed (use n partial_value_Nil in auto)
  qed
qed

lemma word_reads:
  assumes "(json_dumps st v, v) \<in> set literals"
  shows "reads_whole st v" "reads_torn st v"
proof -
  from assms consider "json_dumps st v = ''true''" "v = JBool True" | "json_dumps st v = ''false''" "v = JBool False"
    | "json_dumps st v = ''null''" "v = JNull" by (auto simp: literals_def)
  note cases = this
  have lit: "partial_value n (c # t) = Some (partial_literal literals (c # t))"
    if pos: "0 < n" and "c \<in> {CHR ''t'', CHR ''f'', CHR ''n''}" for n c t
  proof -
    obtain m where "n = Suc m" using pos by (cases n) auto
    moreover have "\<not> is_space c" "\<not> is_digit c" "c \<noteq> CHR ''{''" "c \<noteq> CHR ''[''" "c \<noteq> CHR 0x22" "c \<noteq> CHR ''-''"
      using that(2) by (auto simp: is_space_def is_digit_def)
    ultimately show ?thesis by (simp add: partial_value.simps del: partial_literal.simps)
  qed
  show "reads_whole st v"
    unfolding reads_whole_def
  proof (intro allI impI)
    fix n r assume "2 * length (json_dumps st v @ r) < n"
    then have n: "0 < n" by simp
    from cases show "partial_value n (json_dumps st v @ r) = Some (Some v, r)"
    proof cases
      case 1
      show ?thesis unfolding 1 using n by (simp add: lit) (simp add: literals_def)
    next
      case 2
      show ?thesis unfolding 2 using n by (simp add: lit) (simp add: literals_def)
    next
      case 3
      show ?thesis unfolding 3 using n by (simp add: lit) (simp add: literals_def)
    qed
  qed
  show "reads_torn st v"
    unfolding reads_torn_def
  proof (intro allI impI)
    fix n p q assume t: "json_dumps st v = p @ q" "q \<noteq> []" and n: "2 * length p < n"
    have "p = [] \<or> partial_value n p = Some (None, [])"
      using cases
    proof cases
      case 1
      with t have "p \<in> {[], ''t'', ''tr'', ''tru''}" by (auto simp: Cons_eq_append_conv)
      with n show ?thesis by (auto simp: lit literals_def)
    next
      case 2
      with t have "p \<in> {[], ''f'', ''fa'', ''fal'', ''fals''}" by (auto simp: Cons_eq_append_conv)
      with n show ?thesis by (auto simp: lit literals_def)
    next
      case 3
      with t have "p \<in> {[], ''n'', ''nu'', ''nul''}" by (auto simp: Cons_eq_append_conv)
      with n show ?thesis by (auto simp: lit literals_def)
    qed
    with n partial_value_Nil [of n] show "\<exists>w r. partial_value n p = Some (w, r) \<and> stuck r \<and> (case w of None \<Rightarrow> True | Some v' \<Rightarrow> approx v' v)"
      by auto
  qed
qed
section \<open>Members and elements\<close>

definition part :: "jobject \<Rightarrow> jobject \<Rightarrow> bool" where
  "part e d \<longleftrightarrow> prefix e d \<or> (\<exists>xs k v' v ys. e = xs @ [(k, v')] \<and> d = xs @ (k, v) # ys \<and> approx v' v)"

lemma part_approx: "part e d \<Longrightarrow> approx (JObj e) (JObj d)"
  by (auto simp: part_def intro: approx_members approx_last_member)

lemma part_Nil [simp]: "part [] d" by (simp add: part_def)

lemma part_one: "approx v' v \<Longrightarrow> part [(k, v')] ((k, v) # d)"
  unfolding part_def by (metis append_Nil)

lemma part_Cons: "part e d \<Longrightarrow> part (kv # e) (kv # d)"
  unfolding part_def by (metis append_Cons Cons_prefix_Cons)

lemma spaces_prefix:
  assumes "\<forall>c \<in> set w. is_space c" and "w @ t = p @ q"
  shows "(\<forall>c \<in> set p. is_space c) \<or> (\<exists>p'. p = w @ p' \<and> t = p' @ q)"
  using cut [OF assms(2)] assms(1) by auto

lemma dumps_not_space: "json_ok v \<Longrightarrow> \<not> is_space (hd (json_dumps st v))"
proof -
  assume ok: "json_ok v"
  have num: "\<not> is_space (hd t)" if "read_number t = Some (u, r)" for t u r
    using number_start [OF that] digit_not_space [of "hd t"] by (auto simp: is_space_def)
  show ?thesis
  proof (cases v)
    case (JInt i)
    with num [OF read_number_int [of "[]" i]] show ?thesis by simp
  next
    case (JFloat f)
    with ok num show ?thesis by (cases f) (auto simp: is_space_def)
  next
    case (JBool b)
    then show ?thesis by (cases b) (simp_all add: is_space_def)
  qed (simp_all add: is_space_def dump_string_def Let_def)
qed

lemma members_key:
  "partial_members (Suc n) acc (CHR 0x22 # concat (map escape_char k) @ CHR 0x22 # s) =
     (case lstrip s of
        [] \<Rightarrow> Some (acc, [])
      | x # r2 \<Rightarrow>
          if x \<noteq> CHR '':'' then Some (acc, x # r2)
          else (case partial_value n r2 of
              None \<Rightarrow> None
            | Some (None, _) \<Rightarrow> Some (acc, r2)
            | Some (Some v, r3) \<Rightarrow>
                (case lstrip r3 of
                   [] \<Rightarrow> Some (dict_set k v acc, [])
                 | y # r4 \<Rightarrow>
                     if y = CHR ''}'' then Some (dict_set k v acc, r4)
                     else if y \<noteq> CHR '','' then Some (dict_set k v acc, y # r4)
                     else partial_members n (dict_set k v acc) r4)))"
  by (simp add: partial_members.simps partial_string_whole is_space_def)

lemma members_torn_key:
  assumes "concat (map escape_char k) = p @ q" and "0 < n"
  shows "\<exists>r. partial_members n acc (CHR 0x22 # p) = Some (acc, r) \<and> stuck r"
  using torn_string [OF assms(1)] assms(2)
  by (cases n) (auto simp: partial_members.simps is_space_def)

lemma members_Nil: "0 < n \<Longrightarrow> partial_members n acc [] = Some (acc, [])"
  by (cases n) (simp_all add: partial_members.simps)

text \<open>One member, from the key on: the value is written by \<open>json_dumps\<close>.\<close>

lemma member_value:
  assumes "plain_style st" and "reads_whole st v" and "number_ends s" and "k \<notin> fst ` set acc"
    and "2 * length (dump_member st (k, v) @ s) \<le> n"
  shows "partial_members (Suc n) acc (dump_member st (k, v) @ s) =
     (case lstrip s of
        [] \<Rightarrow> Some (acc @ [(k, v)], [])
      | y # r4 \<Rightarrow>
          if y = CHR ''}'' then Some (acc @ [(k, v)], r4)
          else if y \<noteq> CHR '','' then Some (acc @ [(k, v)], y # r4)
          else partial_members n (acc @ [(k, v)]) r4)"
proof -
  from assms(1) obtain u where u: "ds_key_sep st = CHR '':'' # u" "\<forall>c \<in> set u. is_space c"
    using json_space_is_space by (auto simp: plain_style_def)
  have len: "2 * length (json_dumps st v @ s) < n"
    using assms(5) by (simp add: dump_member_def dump_string_def u(1))
  have "partial_value n (u @ json_dumps st v @ s) = Some (Some v, s)"
    using reads_wholeD [OF assms(2,3) len] by (simp add: partial_value_spaces [OF u(2)])
  moreover have "dump_member st (k, v) @ s = CHR 0x22 # concat (map escape_char k) @ CHR 0x22 # CHR '':'' # u @ json_dumps st v @ s"
    by (simp add: dump_member_def dump_string_def u(1))
  ultimately show ?thesis unfolding dict_set_fresh [OF assms(4), of v, symmetric]
    by (simp add: members_key is_space_def)
qed

lemma torn_member:
  assumes "plain_style st" and "reads_torn st v" and "json_ok v" and "k \<notin> fst ` set acc"
    and "dump_member st (k, v) = p @ q" and "q \<noteq> []" and "2 * length p < n"
  shows "\<exists>e r. partial_members n acc p = Some (acc @ e, r) \<and> stuck r \<and> part e ((k, v) # d)"
proof -
  from assms(1) obtain u where u: "ds_key_sep st = CHR '':'' # u" "\<forall>c \<in> set u. is_space c"
    using json_space_is_space by (auto simp: plain_style_def)
  have keep: "?thesis" if "partial_members n acc p = Some (acc, r)" "stuck r" for r
    using that by (intro exI [of _ "[]"] exI [of _ r]) simp
  have n: "0 < n" using assms(7) by simp
  then obtain m where m: "n = Suc m" by (cases n) auto
  show ?thesis
  proof (cases p)
    case Nil
    with members_Nil [OF n] show ?thesis by (intro keep) auto
  next
    case (Cons c p0)
    have c: "c = CHR 0x22" and eq: "(concat (map escape_char k) @ [CHR 0x22]) @ (CHR '':'' # u @ json_dumps st v) = p0 @ q"
      using assms(5) Cons by (auto simp: dump_member_def dump_string_def u(1))
    from cut [OF eq] consider q' where "q' \<noteq> []" "concat (map escape_char k) @ [CHR 0x22] = p0 @ q'"
      | p1 where "p0 = concat (map escape_char k) @ CHR 0x22 # p1" "CHR '':'' # u @ json_dumps st v = p1 @ q" by auto
    then show ?thesis
    proof cases
      case 1
      then have "concat (map escape_char k) = p0 @ butlast q'"
        by (metis append_butlast_last_id append_eq_appendI butlast_snoc butlast_append)
      from members_torn_key [OF this n, of acc] obtain r where "partial_members n acc (CHR 0x22 # p0) = Some (acc, r)" "stuck r"
        by blast
      with keep [of r] show ?thesis by (simp add: Cons c)
    next
      case (2 p1)
      have key: "partial_members n acc p = partial_members (Suc m) acc (CHR 0x22 # concat (map escape_char k) @ CHR 0x22 # p1)"
        by (simp add: m Cons c 2(1))
      note key = key [unfolded members_key]
      show ?thesis
      proof (cases p1)
        case Nil
        with key show ?thesis by (intro keep [of "[]"]) simp_all
      next
        case p1: (Cons x p2)
        with 2(2) have x: "x = CHR '':''" "u @ json_dumps st v = p2 @ q" by auto
        have len: "2 * length p2 < m" using assms(7) by (simp add: m Cons 2(1) p1)
        have nonspace: "\<not> is_space (CHR '':'')" by (simp add: is_space_def)
        from spaces_prefix [OF u(2) x(2)] show ?thesis
        proof (elim disjE exE conjE)
          assume sp: "\<forall>c \<in> set p2. is_space c"
          have "partial_value (m) (p2 @ []) = Some (None, [])"
            using partial_value_spaces [OF sp, of "m" "[]"] partial_value_Nil [of "m"] len by simp
          with key nonspace show ?thesis using stuck_spaces [OF sp, of "[]"]
            by (intro keep [of p2]) (simp_all add: p1 x(1))
        next
          fix p3 assume p3: "p2 = u @ p3" "json_dumps st v = p3 @ q"
          have "2 * length p3 < m" using len by (simp add: p3(1))
          from reads_tornD [OF assms(2) p3(2) assms(6) this] obtain w r where
            w: "partial_value (m) p3 = Some (w, r)" "stuck r" "case w of None \<Rightarrow> True | Some v' \<Rightarrow> approx v' v" by blast
          have w1: "partial_value (m) p2 = Some (w, r)" using w(1) by (simp add: p3(1) partial_value_spaces [OF u(2)])
          show ?thesis
          proof (cases w)
            case None
            have "stuck p2"
            proof (cases p3)
              case (Cons y p4)
              with p3(2) dumps_clear [OF assms(3), of st] dumps_not_space [OF assms(3), of st]
              have "\<not> is_space y" "y \<notin> {CHR '','', CHR '']'', CHR ''}''}"
                by (simp_all add: clear_start_def)
              then have "stuck p3" unfolding Cons by (rule stuck_Cons)
              then show ?thesis by (simp add: p3(1) stuck_spaces [OF u(2)])
            qed (use stuck_spaces [OF u(2), of "[]"] p3(1) in simp)
            with key nonspace w1 None show ?thesis
              by (intro keep [of p2]) (simp_all add: p1 x(1))
          next
            case (Some v')
            have "partial_members n acc p = Some (acc @ [(k, v')], lstrip r)"
              using key nonspace w1 Some w(2) dict_set_fresh [OF assms(4), of v']
              by (auto simp: p1 x(1) stuck_def split: list.splits)
            moreover have "stuck (lstrip r)" using w(2) by (simp add: stuck_lstrip)
            moreover have "part [(k, v')] ((k, v) # d)" using w(3) Some by (intro part_one) simp
            ultimately show ?thesis by blast
          qed
        qed
      qed
    qed
  qed
qed
definition members_text :: "dump_style \<Rightarrow> jobject \<Rightarrow> string" where
  "members_text st d = sep_list (ds_item_sep st) (map (dump_member st) d) @ ''}''"

definition elements_text :: "dump_style \<Rightarrow> json list \<Rightarrow> string" where
  "elements_text st xs = sep_list (ds_item_sep st) (map (json_dumps st) xs) @ '']''"

lemma text_Cons:
  "members_text st (kv # d) = dump_member st kv @ (if d = [] then ''}'' else ds_item_sep st @ members_text st d)"
  "elements_text st (x # xs) = json_dumps st x @ (if xs = [] then '']'' else ds_item_sep st @ elements_text st xs)"
  by (simp_all add: members_text_def elements_text_def sep_list_Cons)

lemma text_Nil: "members_text st [] = ''}''" "elements_text st [] = '']''"
  by (simp_all add: members_text_def elements_text_def)

lemma item_sep:
  assumes "plain_style st"
  obtains w where "ds_item_sep st = CHR '','' # w" "\<forall>c \<in> set w. is_space c"
  using assms json_space_is_space by (auto simp: plain_style_def)

lemma stops_not_space: "\<not> is_space (CHR '','')" "\<not> is_space (CHR ''}'')" "\<not> is_space (CHR '']'')"
  by (simp_all add: is_space_def)

lemma members_whole:
  assumes "plain_style st"
  shows "\<forall>kv \<in> set d. reads_whole st (snd kv) \<Longrightarrow> distinct (map fst (acc @ d)) \<Longrightarrow>
    2 * length (members_text st d @ r) < n \<Longrightarrow> partial_members n acc (members_text st d @ r) = Some (acc @ d, r)"
proof (induction d arbitrary: acc n)
  case Nil
  then obtain m where "n = Suc m" by (cases n) auto
  then show ?case by (simp add: text_Nil partial_members.simps stops_not_space)
next
  case (Cons kv d)
  obtain k v where kv: "kv = (k, v)" by (cases kv)
  obtain w where w: "ds_item_sep st = CHR '','' # w" "\<forall>c \<in> set w. is_space c" using item_sep [OF assms] .
  obtain m where n: "n = Suc m" using Cons.prems(3) by (cases n) auto
  let ?s = "(if d = [] then ''}'' else ds_item_sep st @ members_text st d) @ r"
  have "number_ends ?s" using w by (simp add: number_ends_stop)
  moreover have "2 * length (dump_member st (k, v) @ ?s) \<le> m"
    using Cons.prems(3) by (simp add: n kv text_Cons)
  ultimately have "partial_members n acc (members_text st (kv # d) @ r) = (case lstrip ?s of
        [] \<Rightarrow> Some (acc @ [(k, v)], [])
      | y # r4 \<Rightarrow> if y = CHR ''}'' then Some (acc @ [(k, v)], r4)
          else if y \<noteq> CHR '','' then Some (acc @ [(k, v)], y # r4)
          else partial_members m (acc @ [(k, v)]) r4)"
    using Cons.prems(1,2) member_value [OF assms, of v ?s k acc m] by (simp add: n kv text_Cons)
  also have "\<dots> = Some (acc @ kv # d, r)"
  proof (cases "d = []")
    case False
    have "2 * length (members_text st d @ r) < m"
      using Cons.prems(3) False by (simp add: n text_Cons w(1))
    then have "partial_members m (acc @ [(k, v)]) (members_text st d @ r) = Some ((acc @ [(k, v)]) @ d, r)"
      using Cons.prems(1,2) by (intro Cons.IH) (auto simp: kv)
    then show ?thesis using False by (simp add: w(1) stops_not_space partial_members_spaces [OF w(2)] kv)
  qed (simp add: stops_not_space kv)
  finally show ?case .
qed

lemma members_torn:
  assumes "plain_style st"
  shows "\<forall>kv \<in> set d. reads_whole st (snd kv) \<and> reads_torn st (snd kv) \<and> json_ok (snd kv) \<Longrightarrow>
    distinct (map fst (acc @ d)) \<Longrightarrow> members_text st d = p @ q \<Longrightarrow> q \<noteq> [] \<Longrightarrow> 2 * length p < n \<Longrightarrow>
    \<exists>e r. partial_members n acc p = Some (acc @ e, r) \<and> stuck r \<and> part e d"
proof (induction d arbitrary: acc n p)
  case Nil
  then have "p = []" by (simp add: text_Nil Cons_eq_append_conv)
  with members_Nil [of n acc] Nil show ?case by (intro exI [of _ "[]"]) auto
next
  case (Cons kv d)
  obtain k v where kv: "kv = (k, v)" by (cases kv)
  obtain w where w: "ds_item_sep st = CHR '','' # w" "\<forall>c \<in> set w. is_space c" using item_sep [OF assms] .
  obtain m where n: "n = Suc m" using Cons.prems(5) by (cases n) auto
  have fresh: "k \<notin> fst ` set acc" using Cons.prems(2) by (auto simp: kv)
  from cut [OF Cons.prems(3) [unfolded text_Cons]] show ?case
  proof (elim disjE exE conjE)
    fix q' assume "q' \<noteq> []" "dump_member st kv = p @ q'"
    then show ?thesis using torn_member [OF assms _ _ fresh, of v p q' n d] Cons.prems(1,5)
      by (simp add: kv)
  next
    fix p' assume p': "p = dump_member st kv @ p'"
      "(if d = [] then ''}'' else ds_item_sep st @ members_text st d) = p' @ q"
    have ends: "number_ends p'"
      using p'(2) w(1) by (cases p') (auto intro: number_ends_stop split: if_splits)
    have len: "2 * length (dump_member st (k, v) @ p') \<le> m" using Cons.prems(5) by (simp add: n kv p'(1))
    have run: "partial_members n acc p = (case lstrip p' of
        [] \<Rightarrow> Some (acc @ [(k, v)], [])
      | y # r4 \<Rightarrow> if y = CHR ''}'' then Some (acc @ [(k, v)], r4)
          else if y \<noteq> CHR '','' then Some (acc @ [(k, v)], y # r4)
          else partial_members m (acc @ [(k, v)]) r4)"
      using member_value [OF assms _ ends fresh len] Cons.prems(1) by (simp add: n kv p'(1))
    have one: "part [kv] (kv # d)" by (rule part_Cons) simp
    show ?thesis
    proof (cases p')
      case Nil
      with run one show ?thesis by (intro exI [of _ "[kv]"]) (simp add: kv)
    next
      case p2: (Cons y p2)
      have d: "d \<noteq> []" using p'(2) p2 Cons.prems(4) by (auto split: if_splits)
      with p'(2) p2 have y: "y = CHR '',''" "w @ members_text st d = p2 @ q" by (simp_all add: w(1))
      have lenp: "2 * length p2 < m" using len by (simp add: p2 dump_member_def dump_string_def)
      have run': "partial_members n acc p = partial_members m (acc @ [kv]) p2"
        using run by (simp add: p2 y(1) stops_not_space kv)
      from spaces_prefix [OF w(2) y(2)] show ?thesis
      proof (elim disjE exE conjE)
        assume sp: "\<forall>c \<in> set p2. is_space c"
        have "partial_members m (acc @ [kv]) p2 = Some (acc @ [kv], [])"
          using partial_members_spaces [OF sp, of m "acc @ [kv]" "[]"] members_Nil [of m] lenp by simp
        with run' one show ?thesis by auto
      next
        fix p3 assume p3: "p2 = w @ p3" "members_text st d = p3 @ q"
        have "2 * length p3 < m" using lenp by (simp add: p3(1))
        with Cons.IH [of "acc @ [kv]" p3 m] Cons.prems(1,2,4) p3(2) obtain e r where
          e: "partial_members m (acc @ [kv]) p3 = Some ((acc @ [kv]) @ e, r)" "stuck r" "part e d" by auto
        then show ?thesis using run' part_Cons [OF e(3), of kv]
          by (intro exI [of _ "kv # e"] exI [of _ r]) (simp add: p3(1) partial_members_spaces [OF w(2)])
      qed
    qed
  qed
qed
definition part_list :: "json list \<Rightarrow> json list \<Rightarrow> bool" where
  "part_list e d \<longleftrightarrow> prefix e d \<or> (\<exists>xs v' v ys. e = xs @ [v'] \<and> d = xs @ v # ys \<and> approx v' v)"

lemma part_list_approx: "part_list e d \<Longrightarrow> approx (JArr e) (JArr d)"
  by (auto simp: part_list_def intro: approx_elements approx_last_element)

lemma part_list_Nil [simp]: "part_list [] d" by (simp add: part_list_def)

lemma part_list_one: "approx v' v \<Longrightarrow> part_list [v'] (v # d)"
  unfolding part_list_def by (metis append_Nil)

lemma part_list_Cons: "part_list e d \<Longrightarrow> part_list (v # e) (v # d)"
  unfolding part_list_def by (metis append_Cons Cons_prefix_Cons)

lemma elements_Nil: "0 < n \<Longrightarrow> partial_elements n acc [] = Some (acc, [])"
  by (cases n) (simp_all add: partial_elements.simps)

lemma element_value:
  assumes "json_ok v" and "json_dumps st v @ t = s @ q" and "s \<noteq> []"
  shows "partial_elements (Suc n) acc s =
     (case partial_value n s of
        None \<Rightarrow> None
      | Some (None, r) \<Rightarrow> Some (acc, r)
      | Some (Some u, r1) \<Rightarrow>
          (case lstrip r1 of
             [] \<Rightarrow> Some (acc @ [u], [])
           | y # r2 \<Rightarrow>
               if y = CHR '']'' then Some (acc @ [u], r2)
               else if y \<noteq> CHR '','' then Some (acc @ [u], y # r2)
               else partial_elements n (acc @ [u]) r2))"
proof -
  obtain c u where s: "s = c # u" using assms(3) by (cases s) auto
  have "json_dumps st v \<noteq> []" using dumps_clear [OF assms(1)] by (auto simp: clear_start_def)
  with assms(2) s have "hd (json_dumps st v) = c" by (cases "json_dumps st v") auto
  with dumps_clear [OF assms(1), of st] dumps_not_space [OF assms(1), of st]
  have "\<not> is_space c" "c \<noteq> CHR '']''" by (auto simp: clear_start_def)
  then show ?thesis by (simp add: s partial_elements.simps)
qed

lemma elements_whole:
  assumes "plain_style st"
  shows "\<forall>x \<in> set xs. reads_whole st x \<and> json_ok x \<Longrightarrow> Suc (2 * length (elements_text st xs @ r)) < n \<Longrightarrow>
    partial_elements n acc (elements_text st xs @ r) = Some (acc @ xs, r)"
proof (induction xs arbitrary: acc n)
  case Nil
  then obtain m where "n = Suc m" by (cases n) auto
  then show ?case by (simp add: text_Nil partial_elements.simps stops_not_space)
next
  case (Cons x xs)
  obtain w where w: "ds_item_sep st = CHR '','' # w" "\<forall>c \<in> set w. is_space c" using item_sep [OF assms] .
  obtain m where n: "n = Suc m" using Cons.prems(2) by (cases n) auto
  let ?s = "(if xs = [] then '']'' else ds_item_sep st @ elements_text st xs) @ r"
  have written: "elements_text st (x # xs) @ r = json_dumps st x @ ?s" by (simp add: text_Cons)
  have "number_ends ?s" using w by (simp add: number_ends_stop)
  moreover have "2 * length (json_dumps st x @ ?s) < m" using Cons.prems(2) by (simp add: n text_Cons)
  ultimately have v: "partial_value m (json_dumps st x @ ?s) = Some (Some x, ?s)"
    using Cons.prems(1) by (intro reads_wholeD) auto
  have "json_dumps st x @ ?s \<noteq> []" using w by simp
  note step = element_value [of x st ?s "json_dumps st x @ ?s" "[]" m acc, OF _ _ this, unfolded v]
  show ?case
  proof (cases "xs = []")
    case True
    with step Cons.prems(1) show ?thesis by (simp add: text_Cons n stops_not_space)
  next
    case False
    have "Suc (2 * length (elements_text st xs @ r)) < m"
      using Cons.prems(2) False by (simp add: n text_Cons w(1))
    then have "partial_elements m (acc @ [x]) (elements_text st xs @ r) = Some ((acc @ [x]) @ xs, r)"
      using Cons.prems(1) by (intro Cons.IH) auto
    with step False Cons.prems(1) show ?thesis
      by (simp add: written n w(1) stops_not_space partial_elements_spaces [OF w(2)])
  qed
qed

lemma elements_torn:
  assumes "plain_style st"
  shows "\<forall>x \<in> set xs. reads_whole st x \<and> reads_torn st x \<and> json_ok x \<Longrightarrow>
    elements_text st xs = p @ q \<Longrightarrow> q \<noteq> [] \<Longrightarrow> Suc (2 * length p) < n \<Longrightarrow>
    \<exists>e r. partial_elements n acc p = Some (acc @ e, r) \<and> stuck r \<and> part_list e xs"
proof (induction xs arbitrary: acc n p)
  case Nil
  then have "p = []" by (simp add: text_Nil Cons_eq_append_conv)
  with elements_Nil [of n acc] Nil show ?case by (intro exI [of _ "[]"]) auto
next
  case (Cons x xs)
  obtain w where w: "ds_item_sep st = CHR '','' # w" "\<forall>c \<in> set w. is_space c" using item_sep [OF assms] .
  obtain m where n: "n = Suc m" using Cons.prems(4) by (cases n) auto
  have one: "part_list [x] (x # xs)" by (rule part_list_Cons) simp
  show ?case
  proof (cases "p = []")
    case True
    with elements_Nil [of n acc] n show ?thesis by (intro exI [of _ "[]"]) auto
  next
    case False
    have written: "json_dumps st x @ (if xs = [] then '']'' else ds_item_sep st @ elements_text st xs) = p @ q"
      using Cons.prems(2) by (simp add: text_Cons)
    have ok: "json_ok x" using Cons.prems(1) by simp
    note step = element_value [OF ok written False, of m acc]
    from cut [OF written] show ?thesis
    proof (elim disjE exE conjE)
      fix q' assume q': "q' \<noteq> []" "json_dumps st x = p @ q'"
      have "2 * length p < m" using Cons.prems(4) by (simp add: n)
      from reads_tornD [OF _ q'(2,1) this] Cons.prems(1) obtain u r where
        u: "partial_value m p = Some (u, r)" "stuck r" "case u of None \<Rightarrow> True | Some v' \<Rightarrow> approx v' x" by auto
      show ?thesis
      proof (cases u)
        case None
        with step u show ?thesis by (intro exI [of _ "[]"] exI [of _ r]) (simp add: n)
      next
        case (Some v')
        have "partial_elements n acc p = Some (acc @ [v'], lstrip r)"
          using step u(1,2) Some by (auto simp: n stuck_def split: list.splits)
        with u Some stuck_lstrip [of r] part_list_one [of v' x xs] show ?thesis by auto
      qed
    next
      fix p' assume p': "p = json_dumps st x @ p'"
        "(if xs = [] then '']'' else ds_item_sep st @ elements_text st xs) = p' @ q"
      have "number_ends p'"
        using p'(2) w(1) by (cases p') (auto intro: number_ends_stop split: if_splits)
      moreover have "2 * length (json_dumps st x @ p') < m" using Cons.prems(4) by (simp add: n p'(1))
      ultimately have v: "partial_value m p = Some (Some x, p')"
        unfolding p'(1) using Cons.prems(1) by (intro reads_wholeD) auto
      show ?thesis
      proof (cases p')
        case Nil
        with step v one show ?thesis by (intro exI [of _ "[x]"]) (simp add: n)
      next
        case p2: (Cons y p2)
        have d: "xs \<noteq> []" using p'(2) p2 Cons.prems(3) by (auto split: if_splits)
        with p'(2) p2 have y: "y = CHR '',''" "w @ elements_text st xs = p2 @ q" by (simp_all add: w(1))
        have lenp: "Suc (2 * length p2) < m" using Cons.prems(4) by (simp add: n p'(1) p2)
        have run: "partial_elements n acc p = partial_elements m (acc @ [x]) p2"
          using step v by (simp add: n p2 y(1) stops_not_space)
        from spaces_prefix [OF w(2) y(2)] show ?thesis
        proof (elim disjE exE conjE)
          assume sp: "\<forall>c \<in> set p2. is_space c"
          have "partial_elements m (acc @ [x]) p2 = Some (acc @ [x], [])"
            using partial_elements_spaces [OF sp, of m "acc @ [x]" "[]"] elements_Nil [of m] lenp by simp
          with run one show ?thesis by auto
        next
          fix p3 assume p3: "p2 = w @ p3" "elements_text st xs = p3 @ q"
          have "Suc (2 * length p3) < m" using lenp by (simp add: p3(1))
          with Cons.IH [of p3 m "acc @ [x]"] Cons.prems(1,3) p3(2) obtain e r where
            e: "partial_elements m (acc @ [x]) p3 = Some ((acc @ [x]) @ e, r)" "stuck r" "part_list e xs" by auto
          then show ?thesis using run part_list_Cons [OF e(3), of x]
            by (intro exI [of _ "x # e"] exI [of _ r]) (simp add: p3(1) partial_elements_spaces [OF w(2)])
        qed
      qed
    qed
  qed
qed

section \<open>The streaming parser\<close>

lemma value_reads:
  assumes "plain_style st"
  shows "json_ok v \<Longrightarrow> finite_numbers v \<Longrightarrow> reads_whole st v \<and> reads_torn st v"
proof (induction v)
  case JNull
  then show ?case using word_reads [of st JNull] by (simp add: literals_def)
next
  case (JBool b)
  then show ?case using word_reads [of st "JBool b"] by (cases b) (simp_all add: literals_def)
next
  case (JInt i)
  have "read_number (json_dumps st (JInt i)) = Some (JInt i, [])"
    using read_number_int [of "[]" i] by simp
  then show ?case using number_reads by blast
next
  case (JFloat f)
  then obtain r where "f = Fin r" by auto
  with JFloat have "read_number (json_dumps st (JFloat f)) = Some (JFloat f, [])" by simp
  then show ?case using number_reads by blast
next
  case (JStr s)
  then show ?case using string_reads by blast
next
  case (JArr xs)
  then have ih: "\<forall>x \<in> set xs. reads_whole st x \<and> reads_torn st x \<and> json_ok x" by auto
  have written: "json_dumps st (JArr xs) = CHR ''['' # elements_text st xs" by (simp add: elements_text_def)
  have run: "partial_value (Suc n) (CHR ''['' # s) = map_option (\<lambda>(xs, q). (Some (JArr xs), q)) (partial_elements n [] s)" for n s
    by (simp add: partial_value.simps is_space_def)
  have "reads_whole st (JArr xs)"
    unfolding reads_whole_def written
  proof (intro allI impI)
    fix n r assume n: "2 * length ((CHR ''['' # elements_text st xs) @ r) < n"
    then obtain m where m: "n = Suc m" by (cases n) auto
    with n have "Suc (2 * length (elements_text st xs @ r)) < m" by simp
    then have "partial_elements m [] (elements_text st xs @ r) = Some ([] @ xs, r)"
      using ih by (intro elements_whole [OF assms]) auto
    then show "partial_value n ((CHR ''['' # elements_text st xs) @ r) = Some (Some (JArr xs), r)"
      by (simp add: m run)
  qed
  moreover have "reads_torn st (JArr xs)"
    unfolding reads_torn_def written
  proof (intro allI impI)
    fix n p q assume t: "CHR ''['' # elements_text st xs = p @ q" "q \<noteq> []" and n: "2 * length p < n"
    then obtain m where m: "n = Suc m" by (cases n) auto
    show "\<exists>w r. partial_value n p = Some (w, r) \<and> stuck r \<and> (case w of None \<Rightarrow> True | Some v' \<Rightarrow> approx v' (JArr xs))"
    proof (cases p)
      case (Cons c u)
      with t have u: "c = CHR ''[''" "elements_text st xs = u @ q" by simp_all
      have "Suc (2 * length u) < m" using n by (simp add: Cons m)
      from elements_torn [OF assms ih u(2) t(2) this, of "[]"] obtain e r where
        "partial_elements m [] u = Some (e, r)" "stuck r" "part_list e xs" by auto
      then show ?thesis using part_list_approx by (simp add: Cons u(1) m run)
    qed (use partial_value_Nil [of "Suc m"] in \<open>simp add: m\<close>)
  qed
  ultimately show ?case ..
next
  case (JObj d)
  then have ih: "\<forall>kv \<in> set d. reads_whole st (snd kv) \<and> reads_torn st (snd kv) \<and> json_ok (snd kv)"
    and dist: "distinct (map fst ([] @ d))" using JObj.IH [of _ "snd _"] by (force, simp)
  have written: "json_dumps st (JObj d) = CHR ''{'' # members_text st d"
    using assms dumps_object [of st d] by (simp add: members_text_def plain_style_def)
  have run: "partial_value (Suc n) (CHR ''{'' # s) = map_option (\<lambda>(d, q). (Some (JObj d), q)) (partial_members n [] s)" for n s
    by (simp add: partial_value.simps is_space_def)
  have "reads_whole st (JObj d)"
    unfolding reads_whole_def written
  proof (intro allI impI)
    fix n r assume n: "2 * length ((CHR ''{'' # members_text st d) @ r) < n"
    then obtain m where m: "n = Suc m" by (cases n) auto
    with n have "2 * length (members_text st d @ r) < m" by simp
    then have "partial_members m [] (members_text st d @ r) = Some ([] @ d, r)"
      using ih dist by (intro members_whole [OF assms]) auto
    then show "partial_value n ((CHR ''{'' # members_text st d) @ r) = Some (Some (JObj d), r)"
      by (simp add: m run)
  qed
  moreover have "reads_torn st (JObj d)"
    unfolding reads_torn_def written
  proof (intro allI impI)
    fix n p q assume t: "CHR ''{'' # members_text st d = p @ q" "q \<noteq> []" and n: "2 * length p < n"
    then obtain m where m: "n = Suc m" by (cases n) auto
    show "\<exists>w r. partial_value n p = Some (w, r) \<and> stuck r \<and> (case w of None \<Rightarrow> True | Some v' \<Rightarrow> approx v' (JObj d))"
    proof (cases p)
      case (Cons c u)
      with t have u: "c = CHR ''{''" "members_text st d = u @ q" by simp_all
      have "2 * length u < m" using n by (simp add: Cons m)
      from members_torn [OF assms ih dist u(2) t(2) this] obtain e r where
        "partial_members m [] u = Some (e, r)" "stuck r" "part e d" by auto
      then show ?thesis using part_approx by (simp add: Cons u(1) m run)
    qed (use partial_value_Nil [of "Suc m"] in \<open>simp add: m\<close>)
  qed
  ultimately show ?case ..
qed

lemma streaming_prefix:
  assumes "plain_style st" and "json_ok (JObj d)" and "finite_numbers (JObj d)"
    and "json_dumps st (JObj d) = p @ q"
  shows "\<exists>e. parse_streaming_json p = Some (JObj e) \<and> approx (JObj e) (JObj d) \<and> (q = [] \<longrightarrow> e = d)"
proof (cases "q = []")
  case True
  then have "json_loads p = Some (JObj d)"
    using loads_dumps [OF assms(1,2), of "[]"] assms(4) by simp
  moreover have "strip p \<noteq> []"
  proof
    obtain u where p: "p = CHR ''{'' # u" using assms(4) True by (cases p) (auto simp: Let_def)
    assume "strip p = []"
    then have "\<forall>c \<in> set p. is_space c"
      by (simp add: p strip_def is_space_def) (simp add: lstrip_def dropWhile_eq_Nil_conv is_space_def)
    then show False by (simp add: p is_space_def)
  qed
  ultimately show ?thesis using True by (intro exI [of _ d]) (simp add: parse_streaming_json_def approx_same)
next
  case False
  show ?thesis
  proof (cases "strip p = []")
    case True
    then show ?thesis using False by (auto simp: parse_streaming_json_def intro: approx_members)
  next
    case strip: False
    have "json_loads p = None" by (rule strict_prefix_refused [OF assms(1,2,4) False])
    moreover have "reads_torn st (JObj d)" using value_reads [OF assms(1-3)] ..
    from reads_tornD [OF this assms(4) False, of "Suc (2 * length p)"] obtain w r where
      w: "partial_value (Suc (2 * length p)) p = Some (w, r)" "case w of None \<Rightarrow> True | Some v \<Rightarrow> approx v (JObj d)" by auto
    moreover have "\<exists>e. v = JObj e" if "approx v (JObj d)" "w = Some v" for v
    proof -
      from assms(4) strip obtain u where "p = CHR ''{'' # u" by (cases p) (auto simp: strip_def Let_def)
      with w(1) that show ?thesis by (auto simp: partial_value.simps is_space_def)
    qed
    ultimately show ?thesis using strip False
      by (cases w) (auto simp: parse_streaming_json_def intro: approx_members)
  qed
qed
text \<open>C26: Whatever prefix of the text of an object has arrived, however its separators are spaced, the
  streaming parser returns an object that approximates it: the members read so far are exact, and
  only the last one may still be growing.  On the whole text it returns the object itself.\<close>

theorem streaming_arguments_approximate:
  assumes "plain_style st" and "json_ok (JObj d)" and "finite_numbers (JObj d)"
    and "prefix p (json_dumps st (JObj d))"
  shows "\<exists>e. parse_streaming_json p = Some (JObj e) \<and> approx (JObj e) (JObj d) \<and>
     (p = json_dumps st (JObj d) \<longrightarrow> e = d)"
proof -
  from assms(4) obtain q where "json_dumps st (JObj d) = p @ q" by (rule prefixE)
  from streaming_prefix [OF assms(1-3) this] this show ?thesis by auto
qed

text \<open>The streaming parser returns a value on every text, well-formed or not.\<close>

theorem streaming_parser_total: "\<exists>v. parse_streaming_json raw = Some v"
  by (rule streaming_returns)

section \<open>Surrogates\<close>

definition pair_text :: string where
  "pair_text = [CHR 0x5C, CHR ''u'', CHR ''d'', CHR ''8'', CHR ''3'', CHR ''d'',
     CHR 0x5C, CHR ''u'', CHR ''d'', CHR ''e'', CHR ''0'', CHR ''0'']"

lemma pair_digits:
  "hex_value (CHR ''d'') = Some 13" "hex_value (CHR ''8'') = Some 8" "hex_value (CHR ''3'') = Some 3"
  "hex_value (CHR ''e'') = Some 14" "hex_value (CHR ''0'') = Some 0"
  by (simp_all add: hex_value_def Let_def)

lemma pair_read:
  "read_string (pair_text @ [CHR 0x22]) = Some (utf8_encode 128512, [])"
  "read_string pair_text = None"
  "partial_string pair_text = (utf8_encode 55357 @ utf8_encode 56832, False, [])"
  by (simp_all add: pair_text_def read_string_Cons read_string.simps(1) read_unicode_def pair_digits
      after_prefix_def prepend_def partial_string.simps cons_text_def)

text \<open>An escaped surrogate pair is one character to \<^verbatim>\<open>json.loads\<close>; while the string around it is
  unfinished the streaming parser shows two lone surrogates instead, which no UTF-8 encoder
  accepts.\<close>

theorem streaming_splits_surrogates:
  "json_loads (CHR 0x22 # pair_text @ [CHR 0x22]) = Some (JStr (utf8_encode 128512)) \<and>
   parse_streaming_json (CHR 0x22 # pair_text) = Some (JStr (utf8_encode 55357 @ utf8_encode 56832))"
proof
  show "json_loads (CHR 0x22 # pair_text @ [CHR 0x22]) = Some (JStr (utf8_encode 128512))"
    by (simp add: json_loads_def skip_ws_Cons json_space_def read_value.simps pair_read)
  have "json_loads (CHR 0x22 # pair_text) = None"
    by (simp add: json_loads_def skip_ws_Cons json_space_def read_value.simps pair_read)
  moreover have "strip (CHR 0x22 # pair_text) \<noteq> []"
    by (simp add: pair_text_def strip_def is_space_def)
  ultimately show "parse_streaming_json (CHR 0x22 # pair_text) = Some (JStr (utf8_encode 55357 @ utf8_encode 56832))"
    by (simp add: parse_streaming_json_def partial_value.simps pair_read is_space_def)
qed

section \<open>Instances\<close>

theorem streaming_arguments_approximate_witness:
  "\<exists>e. parse_streaming_json (take 12 (json_dumps unspaced_style (JObj [(''path'', JStr ''/tmp/a''), (''n'', JInt 12)])))
       = Some (JObj e) \<and> approx (JObj e) (JObj [(''path'', JStr ''/tmp/a''), (''n'', JInt 12)])"
proof -
  have "plain_style unspaced_style" by (simp add: plain_style_def unspaced_style_def)
  moreover have "json_ok (JObj [(''path'', JStr ''/tmp/a''), (''n'', JInt 12)])"
    "finite_numbers (JObj [(''path'', JStr ''/tmp/a''), (''n'', JInt 12)])" by simp_all
  ultimately show ?thesis
    using streaming_arguments_approximate [of unspaced_style "[(''path'', JStr ''/tmp/a''), (''n'', JInt 12)]"]
      take_is_prefix by blast
qed
end
