(* ===== verification/ProviderCorrect.thy ===== *)
theory ProviderCorrect
  imports ProviderStream JsonPartialCorrect EventStream
begin

text \<open>
  What a consumer of the provider's stream can rely on: the protocol of the events, the agreement of
  the deltas with the final message, and the bounds on retries.
\<close>

section \<open>The protocol\<close>

text \<open>The index an event is about, the delta it brings, and what it opens or closes.\<close>

fun delta_of :: "assistant_event \<Rightarrow> (int \<times> string) list" where
  "delta_of (TextDeltaEvent i d _) = [(i, d)]"
| "delta_of (ThinkingDeltaEvent i d _) = [(i, d)]"
| "delta_of (ToolCallDeltaEvent i d _) = [(i, d)]"
| "delta_of _ = []"

definition deltas :: "int \<Rightarrow> assistant_event list \<Rightarrow> string" where
  "deltas i evs = concat (map snd (filter (\<lambda>id. fst id = i) (concat (map delta_of evs))))"

fun opened_by :: "assistant_event \<Rightarrow> int list" where
  "opened_by (TextStartEvent i _) = [i]"
| "opened_by (ThinkingStartEvent i _) = [i]"
| "opened_by (ToolCallStartEvent i _) = [i]"
| "opened_by _ = []"

fun closed_by :: "assistant_event \<Rightarrow> int list" where
  "closed_by (TextEndEvent i _ _) = [i]"
| "closed_by (ThinkingEndEvent i _ _) = [i]"
| "closed_by (ToolCallEndEvent i _ _) = [i]"
| "closed_by _ = []"

definition opened :: "assistant_event list \<Rightarrow> int list" where
  "opened evs = concat (map opened_by evs)"

definition closed_blocks :: "assistant_event list \<Rightarrow> int list" where
  "closed_blocks evs = concat (map closed_by evs)"

fun is_start :: "assistant_event \<Rightarrow> bool" where
  "is_start (StartEvent _) = True" | "is_start _ = False"

definition inner :: "assistant_event \<Rightarrow> bool" where
  "inner ev \<longleftrightarrow> \<not> is_start ev \<and> \<not> is_terminal_event ev"

fun is_text :: "content \<Rightarrow> bool" where
  "is_text (TextContent _ _) = True" | "is_text _ = False"

fun is_thinking :: "content \<Rightarrow> bool" where
  "is_thinking (ThinkingContent _ _ _) = True" | "is_thinking _ = False"

fun is_call :: "content \<Rightarrow> bool" where
  "is_call (ToolCallContent _) = True" | "is_call _ = False"

lemma deltas_simps [simp]:
  "deltas i [] = []"
  "deltas i (evs @ [ev]) = deltas i evs @ concat (map snd (filter (\<lambda>id. fst id = i) (delta_of ev)))"
  "deltas i [ev] = concat (map snd (filter (\<lambda>id. fst id = i) (delta_of ev)))"
  by (simp_all add: deltas_def)

lemma opened_simps [simp]:
  "opened [] = []" "opened (evs @ [ev]) = opened evs @ opened_by ev"
  "opened [ev] = opened_by ev" "closed_blocks [ev] = closed_by ev"
  "closed_blocks [] = []" "closed_blocks (evs @ [ev]) = closed_blocks evs @ closed_by ev"
  by (simp_all add: opened_def closed_blocks_def)

lemma inner_simps [simp]:
  "inner (TextStartEvent i p)" "inner (TextDeltaEvent i d p)" "inner (TextEndEvent i d p)"
  "inner (ThinkingStartEvent i p)" "inner (ThinkingDeltaEvent i d p)" "inner (ThinkingEndEvent i d p)"
  "inner (ToolCallStartEvent i p)" "inner (ToolCallDeltaEvent i d p)" "inner (ToolCallEndEvent i c p)"
  by (simp_all add: inner_def)

section \<open>The invariant of a response\<close>

definition shape :: "response_state \<Rightarrow> bool" where
  "shape s \<longleftrightarrow> (if rs_started s then \<exists>p evs. rs_events s = StartEvent p # evs \<and> (\<forall>ev \<in> set evs. inner ev)
     else rs_events s = [] \<and> blocks s = [])"

text \<open>Every block has been announced once, in order; its text is what its deltas brought; and the
  pointers of the state cover the blocks.\<close>

fun block_matches ::
  "nat option \<Rightarrow> nat option \<Rightarrow> (int \<times> tool_accumulator) list \<Rightarrow> nat \<Rightarrow> string \<Rightarrow> content \<Rightarrow> bool" where
  "block_matches tx th tools i d (TextContent t _) = (tx = Some i \<and> t = d)"
| "block_matches tx th tools i d (ThinkingContent t _ _) = (th = Some i \<and> t = d)"
| "block_matches tx th tools i d (ToolCallContent c) =
     (\<exists>ka \<in> set tools. ta_index (snd ka) = i \<and> ta_raw (snd ka) = d)"
| "block_matches tx th tools i d (ImageContent _ _) = False"

definition block_ok :: "response_state \<Rightarrow> nat \<Rightarrow> bool" where
  "block_ok s i \<longleftrightarrow> block_matches (rs_text s) (rs_thinking s) (rs_tools s) i
     (deltas (int i) (rs_events s)) (blocks s ! i)"

definition pointers_ok :: "response_state \<Rightarrow> bool" where
  "pointers_ok s \<longleftrightarrow>
     (\<forall>i. rs_text s = Some i \<longrightarrow> i < length (blocks s) \<and> is_text (blocks s ! i)) \<and>
     (\<forall>i. rs_thinking s = Some i \<longrightarrow> i < length (blocks s) \<and> is_thinking (blocks s ! i)) \<and>
     (\<forall>ka \<in> set (rs_tools s). ta_index (snd ka) < length (blocks s) \<and> is_call (blocks s ! ta_index (snd ka))) \<and>
     distinct (map fst (rs_tools s)) \<and> distinct (map (\<lambda>ka. ta_index (snd ka)) (rs_tools s))"

definition response_ok :: "response_state \<Rightarrow> bool" where
  "response_ok s \<longleftrightarrow> shape s \<and> opened (rs_events s) = map int [0..<length (blocks s)] \<and>
     closed_blocks (rs_events s) = [] \<and>
     (\<forall>i \<ge> length (blocks s). deltas (int i) (rs_events s) = []) \<and>
     (\<forall>i < length (blocks s). block_ok s i) \<and> pointers_ok s"

lemma response_fields [simp]:
  "rs_events (push ev s) = rs_events s @ [ev]" "rs_partial (push ev s) = rs_partial s" "blocks (push ev s) = blocks s"
  "rs_text (push ev s) = rs_text s" "rs_thinking (push ev s) = rs_thinking s" "rs_tools (push ev s) = rs_tools s"
  "rs_started (push ev s) = rs_started s"
  "rs_events (set_content cs s) = rs_events s" "blocks (set_content cs s) = cs"
  "rs_text (set_content cs s) = rs_text s" "rs_thinking (set_content cs s) = rs_thinking s"
  "rs_tools (set_content cs s) = rs_tools s" "rs_started (set_content cs s) = rs_started s"
  by (simp_all add: push_def set_content_def blocks_def)

lemma blocks_updates [simp]:
  "blocks (s\<lparr>rs_text := a\<rparr>) = blocks s" "blocks (s\<lparr>rs_thinking := a\<rparr>) = blocks s" "blocks (s\<lparr>rs_tools := b\<rparr>) = blocks s"
  "blocks (s\<lparr>rs_finish := c\<rparr>) = blocks s" "blocks (s\<lparr>rs_usage := d\<rparr>) = blocks s" "blocks (s\<lparr>rs_model := c\<rparr>) = blocks s"
  "blocks (s\<lparr>rs_id := c\<rparr>) = blocks s" "blocks (s\<lparr>rs_started := e\<rparr>) = blocks s" "blocks (s\<lparr>rs_events := f\<rparr>) = blocks s"
  by (simp_all add: blocks_def)

lemma response_ok_irrelevant [simp]:
  "response_ok (s\<lparr>rs_finish := c\<rparr>) = response_ok s" "response_ok (s\<lparr>rs_usage := d\<rparr>) = response_ok s"
  "response_ok (s\<lparr>rs_model := c\<rparr>) = response_ok s" "response_ok (s\<lparr>rs_id := c\<rparr>) = response_ok s"
  by (simp_all add: response_ok_def shape_def block_ok_def pointers_ok_def)

lemma response_ok_initial: "response_ok (initial_response m t)"
  by (simp add: response_ok_def initial_response_def shape_def blocks_def empty_response_def pointers_ok_def)

lemma response_open:
  assumes "response_ok s" and "rs_started s"
    and "blocks s' = blocks s @ [b]" and "rs_events s' = rs_events s @ [ev]" and "rs_started s'"
    and "opened_by ev = [int (length (blocks s))]" "closed_by ev = []" "delta_of ev = []" "inner ev"
    and "block_matches (rs_text s') (rs_thinking s') (rs_tools s') (length (blocks s)) [] b"
    and "\<And>i d. i < length (blocks s) \<Longrightarrow> block_matches (rs_text s) (rs_thinking s) (rs_tools s) i d (blocks s ! i) \<Longrightarrow>
       block_matches (rs_text s') (rs_thinking s') (rs_tools s') i d (blocks s ! i)"
    and "pointers_ok s'"
  shows "response_ok s'"
  using assms by (auto simp: response_ok_def shape_def block_ok_def nth_append less_Suc_eq)

lemma response_extend:
  assumes "response_ok s" and "rs_started s" and "i < length (blocks s)"
    and "blocks s' = (blocks s)[i := b]" and "rs_events s' = rs_events s @ [ev]" and "rs_started s'"
    and "opened_by ev = []" "closed_by ev = []" "delta_of ev = [(int i, d)]" "inner ev"
    and "block_matches (rs_text s') (rs_thinking s') (rs_tools s') i (deltas (int i) (rs_events s) @ d) b"
    and "\<And>j d. j < length (blocks s) \<Longrightarrow> j \<noteq> i \<Longrightarrow>
       block_matches (rs_text s) (rs_thinking s) (rs_tools s) j d (blocks s ! j) \<Longrightarrow>
       block_matches (rs_text s') (rs_thinking s') (rs_tools s') j d (blocks s ! j)"
    and "pointers_ok s'"
  shows "response_ok s'"
proof -
  have "block_ok s' j" if "j < length (blocks s)" for j
    using assms(1,3-5,9,11,12) that by (cases "j = i") (auto simp: response_ok_def block_ok_def)
  with assms show ?thesis by (auto simp: response_ok_def shape_def)
qed

section \<open>Reading keeps the invariant\<close>

lemma start_response_ok:
  assumes "response_ok s"
  shows "response_ok (start_response s) \<and> rs_started (start_response s)"
  using assms by (cases "rs_started s")
    (auto simp: start_response_def response_ok_def shape_def pointers_ok_def Let_def blocks_def push_def)

lemma pointersD:
  assumes "response_ok s"
  shows "rs_text s = Some i \<Longrightarrow> i < length (blocks s) \<and> is_text (blocks s ! i)"
    and "rs_thinking s = Some i \<Longrightarrow> i < length (blocks s) \<and> is_thinking (blocks s ! i)"
    and "ka \<in> set (rs_tools s) \<Longrightarrow> ta_index (snd ka) < length (blocks s) \<and> is_call (blocks s ! ta_index (snd ka))"
    and "distinct (map fst (rs_tools s))" "distinct (map (\<lambda>ka. ta_index (snd ka)) (rs_tools s))"
  using assms by (auto simp: response_ok_def pointers_ok_def)

lemma pointers_okI:
  assumes "\<And>i. rs_text s = Some i \<Longrightarrow> i < length (blocks s) \<and> is_text (blocks s ! i)"
    and "\<And>i. rs_thinking s = Some i \<Longrightarrow> i < length (blocks s) \<and> is_thinking (blocks s ! i)"
    and "\<And>ka. ka \<in> set (rs_tools s) \<Longrightarrow> ta_index (snd ka) < length (blocks s) \<and> is_call (blocks s ! ta_index (snd ka))"
    and "distinct (map fst (rs_tools s))" "distinct (map (\<lambda>ka. ta_index (snd ka)) (rs_tools s))"
  shows "pointers_ok s"
  using assms by (simp add: pointers_ok_def)

lemma nth_snoc: "i < length xs \<Longrightarrow> (xs @ [x]) ! i = xs ! i"
  by (simp add: nth_append)

fun kind_of :: "content \<Rightarrow> nat" where
  "kind_of (TextContent _ _) = 0" | "kind_of (ThinkingContent _ _ _) = 1" | "kind_of (ToolCallContent _) = 2"
| "kind_of (ImageContent _ _) = 3"

lemma kind_of_iff: "is_text b \<longleftrightarrow> kind_of b = 0" "is_thinking b \<longleftrightarrow> kind_of b = 1" "is_call b \<longleftrightarrow> kind_of b = 2"
  by (cases b; simp)+

lemma pointers_update:
  assumes "response_ok s" and "blocks s' = (blocks s)[i := b]" and "kind_of b = kind_of (blocks s ! i)"
    and "rs_text s' = rs_text s" "rs_thinking s' = rs_thinking s"
    and "map fst (rs_tools s') = map fst (rs_tools s)"
    and "map (\<lambda>ka. ta_index (snd ka)) (rs_tools s') = map (\<lambda>ka. ta_index (snd ka)) (rs_tools s)"
  shows "pointers_ok s'"
proof -
  have k: "kind_of (blocks s' ! j) = kind_of (blocks s ! j)" if "j < length (blocks s)" for j
    using assms(2,3) that by (cases "i = j") simp_all
  have "\<exists>ka' \<in> set (rs_tools s). ta_index (snd ka) = ta_index (snd ka')" if "ka \<in> set (rs_tools s')" for ka
  proof -
    have "ta_index (snd ka) \<in> set (map (\<lambda>ka. ta_index (snd ka)) (rs_tools s'))" using that by simp
    then show ?thesis unfolding assms(7) by auto
  qed
  note tools = this
  show ?thesis
  proof (rule pointers_okI)
    show "ta_index (snd ka) < length (blocks s') \<and> is_call (blocks s' ! ta_index (snd ka))" if "ka \<in> set (rs_tools s')" for ka
      using tools [OF that] pointersD(3) [OF assms(1)] k assms(2) by (auto simp: kind_of_iff)
  qed (use pointersD [OF assms(1)] k assms(2,4-7) in \<open>simp_all add: kind_of_iff\<close>)
qed

lemma kinds:
  "is_text b \<Longrightarrow> b = TextContent (tx_text b) (tx_signature b)" "is_thinking b \<Longrightarrow> b = ThinkingContent (th_thinking b) (th_signature b) (th_redacted b)"
  "is_call b \<Longrightarrow> b = ToolCallContent (tc_call b)"
  by (cases b; simp)+

lemma open_text_ok:
  assumes "response_ok s" "rs_started s" "rs_text s = None" "blocks s' = blocks s @ [TextContent [] g]"
    "rs_events s' = rs_events s @ [TextStartEvent (int (length (blocks s))) p]" "rs_started s'"
    "rs_text s' = Some (length (blocks s))" "rs_thinking s' = rs_thinking s" "rs_tools s' = rs_tools s"
  shows "response_ok s'"
proof (rule response_open [OF assms(1,2,4,5,6)])
  show "pointers_ok s'"
    using assms pointersD [OF assms(1)] by (intro pointers_okI) (simp_all add: nth_snoc less_SucI)
  show "block_matches (rs_text s') (rs_thinking s') (rs_tools s') i d (blocks s ! i)"
    if "i < length (blocks s)" "block_matches (rs_text s) (rs_thinking s) (rs_tools s) i d (blocks s ! i)" for i d
    using that assms by (cases "blocks s ! i") simp_all
qed (simp_all add: assms)

lemma extend_text_ok:
  assumes "response_ok s" "rs_started s" "rs_text s = Some i"
    "blocks s' = (blocks s)[i := TextContent (tx_text (blocks s ! i) @ d) g]"
    "rs_events s' = rs_events s @ [TextDeltaEvent (int i) d p]" "rs_started s'"
    "rs_text s' = rs_text s" "rs_thinking s' = rs_thinking s" "rs_tools s' = rs_tools s"
  shows "response_ok s'"
proof -
  have i: "i < length (blocks s)" "is_text (blocks s ! i)" using pointersD(1) [OF assms(1,3)] by simp_all
  have "block_ok s i" using assms(1) i by (simp add: response_ok_def)
  with kinds(1) [OF i(2)] have t: "tx_text (blocks s ! i) = deltas (int i) (rs_events s)"
    by (cases "blocks s ! i") (simp_all add: block_ok_def)
  show ?thesis
  proof (rule response_extend [OF assms(1,2) i(1) assms(4,5,6)])
    show "pointers_ok s'"
      using assms i(2) by (intro pointers_update [OF assms(1,4)]) (simp_all add: kind_of_iff)
  qed (simp_all add: assms t)
qed

lemma open_thinking_ok:
  assumes "response_ok s" "rs_started s" "rs_thinking s = None" "blocks s' = blocks s @ [ThinkingContent [] g h]"
    "rs_events s' = rs_events s @ [ThinkingStartEvent (int (length (blocks s))) p]" "rs_started s'"
    "rs_thinking s' = Some (length (blocks s))" "rs_text s' = rs_text s" "rs_tools s' = rs_tools s"
  shows "response_ok s'"
proof (rule response_open [OF assms(1,2,4,5,6)])
  show "pointers_ok s'"
    using assms pointersD [OF assms(1)] by (intro pointers_okI) (simp_all add: nth_snoc less_SucI)
  show "block_matches (rs_text s') (rs_thinking s') (rs_tools s') i d (blocks s ! i)"
    if "i < length (blocks s)" "block_matches (rs_text s) (rs_thinking s) (rs_tools s) i d (blocks s ! i)" for i d
    using that assms by (cases "blocks s ! i") simp_all
qed (simp_all add: assms)

lemma extend_thinking_ok:
  assumes "response_ok s" "rs_started s" "rs_thinking s = Some i"
    "blocks s' = (blocks s)[i := ThinkingContent (th_thinking (blocks s ! i) @ d) g h]"
    "rs_events s' = rs_events s @ [ThinkingDeltaEvent (int i) d p]" "rs_started s'"
    "rs_text s' = rs_text s" "rs_thinking s' = rs_thinking s" "rs_tools s' = rs_tools s"
  shows "response_ok s'"
proof -
  have i: "i < length (blocks s)" "is_thinking (blocks s ! i)" using pointersD(2) [OF assms(1,3)] by simp_all
  have "block_ok s i" using assms(1) i by (simp add: response_ok_def)
  with kinds(2) [OF i(2)] have t: "th_thinking (blocks s ! i) = deltas (int i) (rs_events s)"
    by (cases "blocks s ! i") (simp_all add: block_ok_def)
  show ?thesis
  proof (rule response_extend [OF assms(1,2) i(1) assms(4,5,6)])
    show "pointers_ok s'"
      using assms i(2) by (intro pointers_update [OF assms(1,4)]) (simp_all add: kind_of_iff)
  qed (simp_all add: assms t)
qed

lemma read_text_ok:
  assumes "response_ok s" and "rs_started s"
  shows "response_ok (read_text v s) \<and> rs_started (read_text v s)"
proof (cases "\<exists>c d. v = JStr (c # d)")
  case True
  then obtain c d where v: "v = JStr (c # d)" by blast
  define i where "i = (case rs_text s of Some i \<Rightarrow> i | None \<Rightarrow> length (blocks s))"
  define s0 where "s0 = set_content (blocks s @ [TextContent [] JNull]) s"
  define s1 where "s1 = (case rs_text s of Some i \<Rightarrow> s
     | None \<Rightarrow> push (TextStartEvent (int i) (rs_partial s0)) (s0\<lparr>rs_text := Some i\<rparr>))"
  have s1: "response_ok s1 \<and> rs_started s1 \<and> rs_text s1 = Some i"
  proof (cases "rs_text s")
    case None
    have "response_ok s1"
      by (rule open_text_ok [OF assms None, of s1 JNull "rs_partial s0"]) (simp_all add: None assms s1_def s0_def i_def)
    with None assms show ?thesis by (simp add: s1_def s0_def)
  qed (use assms in \<open>simp add: s1_def i_def\<close>)
  define s2 where
    "s2 = set_content ((blocks s1)[i := TextContent (tx_text (blocks s1 ! i) @ c # d) (tx_signature (blocks s1 ! i))]) s1"
  have eq: "read_text v s = push (TextDeltaEvent (int i) (c # d) (rs_partial s2)) s2"
    by (cases "rs_text s") (simp_all add: read_text_def v Let_def s2_def s1_def s0_def i_def)
  have "response_ok (read_text v s)" unfolding eq
    by (rule extend_text_ok [of s1 i _ "c # d" "tx_signature (blocks s1 ! i)" "rs_partial s2"]) (use s1 in \<open>simp_all add: s2_def\<close>)
  then show ?thesis using s1 by (simp add: eq s2_def)
qed (use assms in \<open>auto simp: read_text_def split: json.split list.split\<close>)

lemma read_thinking_ok:
  assumes "response_ok s" and "rs_started s"
  shows "response_ok (read_thinking v s) \<and> rs_started (read_thinking v s)"
proof (cases "\<exists>c d. v = JStr (c # d)")
  case True
  then obtain c d where v: "v = JStr (c # d)" by blast
  define i where "i = (case rs_thinking s of Some i \<Rightarrow> i | None \<Rightarrow> length (blocks s))"
  define s0 where "s0 = set_content (blocks s @ [ThinkingContent [] JNull JNull]) s"
  define s1 where "s1 = (case rs_thinking s of Some i \<Rightarrow> s
     | None \<Rightarrow> push (ThinkingStartEvent (int i) (rs_partial s0)) (s0\<lparr>rs_thinking := Some i\<rparr>))"
  have s1: "response_ok s1 \<and> rs_started s1 \<and> rs_thinking s1 = Some i"
  proof (cases "rs_thinking s")
    case None
    have "response_ok s1"
      by (rule open_thinking_ok [OF assms None, of s1 JNull JNull "rs_partial s0"]) (simp_all add: None assms s1_def s0_def i_def)
    with None assms show ?thesis by (simp add: s1_def s0_def)
  qed (use assms in \<open>simp add: s1_def i_def\<close>)
  define b where "b = blocks s1 ! i"
  define s2 where
    "s2 = set_content ((blocks s1)[i := ThinkingContent (th_thinking b @ c # d) (th_signature b) (th_redacted b)]) s1"
  have eq: "read_thinking v s = push (ThinkingDeltaEvent (int i) (c # d) (rs_partial s2)) s2"
    by (cases "rs_thinking s") (simp_all add: read_thinking_def v Let_def s2_def s1_def s0_def i_def b_def)
  have "response_ok (read_thinking v s)" unfolding eq
    by (rule extend_thinking_ok [of s1 i _ "c # d" "th_signature b" "th_redacted b" "rs_partial s2"])
      (use s1 in \<open>simp_all add: s2_def b_def\<close>)
  then show ?thesis using s1 by (simp add: eq s2_def)
qed (use assms in \<open>auto simp: read_thinking_def split: json.split list.split\<close>)

lemma dict_set_update:
  assumes "distinct (map fst d)" and "(k, v) \<in> set d"
  shows "map fst (dict_set k w d) = map fst d" and "set (dict_set k w d) = set d - {(k, v)} \<union> {(k, w)}"
    and "f w = f v \<Longrightarrow> map (\<lambda>x. f (snd x)) (dict_set k w d) = map (\<lambda>x. f (snd x)) d"
proof -
  have "map fst (dict_set k w d) = map fst d \<and> set (dict_set k w d) = set d - {(k, v)} \<union> {(k, w)} \<and>
     (f w = f v \<longrightarrow> map (\<lambda>x. f (snd x)) (dict_set k w d) = map (\<lambda>x. f (snd x)) d)"
    using assms by (induction k w d rule: dict_set.induct) (auto simp: image_iff)
  then show "map fst (dict_set k w d) = map fst d" and "set (dict_set k w d) = set d - {(k, v)} \<union> {(k, w)}"
    and "f w = f v \<Longrightarrow> map (\<lambda>x. f (snd x)) (dict_set k w d) = map (\<lambda>x. f (snd x)) d" by simp_all
qed

lemma update_call_fields [simp]:
  "rs_events (update_call i f s) = rs_events s" "rs_text (update_call i f s) = rs_text s"
  "rs_thinking (update_call i f s) = rs_thinking s" "rs_tools (update_call i f s) = rs_tools s"
  "rs_started (update_call i f s) = rs_started s"
  "blocks (update_call i f s) = (blocks s)[i := ToolCallContent (f (tc_call (blocks s ! i)))]"
  by (simp_all add: update_call_def)

lemma response_same_events:
  assumes "response_ok s" and "rs_started s" and "blocks s' = (blocks s)[i := b]" and "rs_events s' = rs_events s"
    and "rs_started s'" "rs_text s' = rs_text s" "rs_thinking s' = rs_thinking s" "rs_tools s' = rs_tools s"
    and "i < length (blocks s)" and "is_call (blocks s ! i)" and "is_call b"
  shows "response_ok s'"
proof -
  have "pointers_ok s'" using assms by (intro pointers_update [OF assms(1,3)]) (simp_all add: kind_of_iff)
  moreover have "block_ok s' j" if "j < length (blocks s)" for j
  proof -
    have "block_ok s j" using assms(1) that by (simp add: response_ok_def)
    with assms(3-11) kinds(3) [of b] kinds(3) [of "blocks s ! i"] show ?thesis
      by (cases "j = i"; cases b; cases "blocks s ! i") (simp_all add: block_ok_def)
  qed
  ultimately show ?thesis using assms(1-5) by (auto simp: response_ok_def shape_def)
qed

lemma open_call_ok:
  assumes "response_ok s" and "rs_started s"
  shows "response_ok (open_call k call_id s) \<and> rs_started (open_call k call_id s) \<and>
    (\<exists>a. map_of (rs_tools (open_call k call_id s)) k = Some a)"
proof (cases "map_of (rs_tools s) k")
  case None
  define c where "c = \<lparr>tc_id = (case call_id of None \<Rightarrow> [] | Some t \<Rightarrow> t), tc_name = [], tc_arguments = [],
                  tc_thought_signature = JNull, tc_namespace = JNull\<rparr>"
  define n where "n = length (blocks s)"
  define s0 where "s0 = set_content (blocks s @ [ToolCallContent c]) s"
  define s1 where "s1 = push (ToolCallStartEvent (int n) (rs_partial s0))
              (s0\<lparr>rs_tools := rs_tools s @ [(k, \<lparr>ta_index = n, ta_raw = []\<rparr>)]\<rparr>)"
  have eq: "open_call k call_id s = s1"
    by (simp add: open_call_def None Let_def s1_def s0_def n_def c_def)
  have fresh: "k \<notin> fst ` set (rs_tools s)" using None by (simp add: map_of_eq_None_iff)
  have idx: "ta_index (snd ka) < n" if "ka \<in> set (rs_tools s)" for ka
    using pointersD(3) [OF assms(1) that] by (simp add: n_def)
  have "response_ok s1"
  proof (rule response_open [OF assms, of s1 "ToolCallContent c" "ToolCallStartEvent (int n) (rs_partial s0)"])
    show "pointers_ok s1"
    proof (rule pointers_okI)
      show "distinct (map (\<lambda>ka. ta_index (snd ka)) (rs_tools s1))"
        using pointersD(5) [OF assms(1)] idx by (fastforce simp: s1_def s0_def)
      show "distinct (map fst (rs_tools s1))"
        using pointersD(4) [OF assms(1)] fresh by (simp add: s1_def s0_def)
    qed (use pointersD(1-3) [OF assms(1)] in \<open>auto simp: s1_def s0_def n_def nth_snoc less_SucI\<close>)
    show "block_matches (rs_text s1) (rs_thinking s1) (rs_tools s1) i d (blocks s ! i)"
      if "block_matches (rs_text s) (rs_thinking s) (rs_tools s) i d (blocks s ! i)" for i d
      using that by (cases "blocks s ! i") (auto simp: s1_def s0_def)
  qed (simp_all add: s1_def s0_def n_def assms)
  moreover have "map_of (rs_tools s1) k = Some \<lparr>ta_index = n, ta_raw = []\<rparr>"
    using fresh by (simp add: s1_def s0_def map_add_def None)
  ultimately show ?thesis unfolding eq using assms by (simp add: s1_def s0_def)
qed (use assms in \<open>simp add: open_call_def\<close>)

lemma update_call_ok:
  assumes "response_ok s" and "rs_started s" and "i < length (blocks s)" and "is_call (blocks s ! i)"
  shows "response_ok (update_call i f s)"
  by (rule response_same_events [OF assms(1,2), where i = i and b = "ToolCallContent (f (tc_call (blocks s ! i)))"])
    (simp_all add: assms)

lemma name_call_fields [simp]:
  "rs_events (name_call i cid nm s) = rs_events s" "rs_text (name_call i cid nm s) = rs_text s"
  "rs_thinking (name_call i cid nm s) = rs_thinking s" "rs_tools (name_call i cid nm s) = rs_tools s"
  "rs_started (name_call i cid nm s) = rs_started s"
  by (simp_all add: name_call_def Let_def split: option.split list.split)

lemma name_call_ok:
  assumes "response_ok s" and "rs_started s" and "i < length (blocks s)" and "is_call (blocks s ! i)"
  shows "response_ok (name_call i cid nm s)"
proof -
  define s1 where "s1 = (case cid of Some (c # t) \<Rightarrow> update_call i (\<lambda>x. x\<lparr>tc_id := c # t\<rparr>) s | _ \<Rightarrow> s)"
  have "response_ok s1 \<and> rs_started s1 \<and> i < length (blocks s1) \<and> is_call (blocks s1 ! i)"
    using assms update_call_ok [OF assms] by (simp add: s1_def split: option.split list.split)
  then show ?thesis
    by (simp add: name_call_def s1_def [symmetric] update_call_ok split: option.split list.split)
qed

lemma extend_arguments_ok:
  assumes "response_ok s" and "rs_started s" and "map_of (rs_tools s) k = Some a"
  shows "response_ok (extend_arguments k a v s) \<and> rs_started (extend_arguments k a v s)"
proof (cases "\<exists>c d. v = JStr (c # d)")
  case True
  then obtain c d where v: "v = JStr (c # d)" by blast
  define i where "i = ta_index a"
  define raw where "raw = ta_raw a @ c # d"
  define a' where "a' = a\<lparr>ta_raw := raw\<rparr>"
  define s1 where "s1 = s\<lparr>rs_tools := dict_set k a' (rs_tools s)\<rparr>"
  define s2 where "s2 = (case streaming_value raw of
      JObj o' \<Rightarrow> update_call i (\<lambda>x. x\<lparr>tc_arguments := o'\<rparr>) s1 | _ \<Rightarrow> s1)"
  have eq: "extend_arguments k a v s = push (ToolCallDeltaEvent (int i) (c # d) (rs_partial s2)) s2"
    by (simp add: extend_arguments_def v Let_def s2_def s1_def raw_def i_def a'_def cong: json.case_cong)
  have mem: "(k, a) \<in> set (rs_tools s)" by (rule map_of_SomeD [OF assms(3)])
  note dist = pointersD(4,5) [OF assms(1)]
  note upd = dict_set_update [OF dist(1) mem, where w = a']
  have i: "i < length (blocks s)" "is_call (blocks s ! i)"
    using pointersD(3) [OF assms(1) mem] by (simp_all add: i_def)
  obtain b where b: "blocks s2 = (blocks s)[i := b]" "is_call b"
  proof (cases "\<exists>o'. streaming_value raw = JObj o'")
    case True
    then obtain o' where "streaming_value raw = JObj o'" by blast
    then show ?thesis by (intro that [of "ToolCallContent ((tc_call (blocks s ! i))\<lparr>tc_arguments := o'\<rparr>)"])
      (simp_all add: s2_def s1_def)
  next
    case False
    then have "s2 = s1" by (simp add: s2_def split: json.split)
    then show ?thesis using i by (intro that [of "blocks s ! i"]) (simp_all add: s1_def)
  qed
  have s2: "rs_tools s2 = dict_set k a' (rs_tools s)" "rs_text s2 = rs_text s" "rs_thinking s2 = rs_thinking s"
    "rs_started s2" "rs_events s2 = rs_events s"
    using assms(2) by (simp_all add: s2_def s1_def split: json.split)
  have "\<exists>ka \<in> set (rs_tools s). ta_index (snd ka) = i \<and> ta_raw (snd ka) = deltas (int i) (rs_events s)"
    using assms(1) i kinds(3) [OF i(2)] by (cases "blocks s ! i") (auto simp: response_ok_def block_ok_def)
  then have rawa: "ta_raw a = deltas (int i) (rs_events s)"
    using dist(2) mem by (fastforce simp: i_def distinct_map inj_on_def)
  have a': "ta_index a' = i" "ta_raw a' = deltas (int i) (rs_events s) @ c # d"
    by (simp_all add: a'_def raw_def rawa i_def)
  have "response_ok (extend_arguments k a v s)" unfolding eq
  proof (rule response_extend [OF assms(1,2) i(1), where b = b and d = "c # d"
      and ev = "ToolCallDeltaEvent (int i) (c # d) (rs_partial s2)"])
    show "block_matches (rs_text (push (ToolCallDeltaEvent (int i) (c # d) (rs_partial s2)) s2))
       (rs_thinking (push (ToolCallDeltaEvent (int i) (c # d) (rs_partial s2)) s2))
       (rs_tools (push (ToolCallDeltaEvent (int i) (c # d) (rs_partial s2)) s2)) i (deltas (int i) (rs_events s) @ c # d) b"
      using b(2) by (cases b) (auto simp: s2 upd(2) a')
    show "block_matches (rs_text (push (ToolCallDeltaEvent (int i) (c # d) (rs_partial s2)) s2))
       (rs_thinking (push (ToolCallDeltaEvent (int i) (c # d) (rs_partial s2)) s2))
       (rs_tools (push (ToolCallDeltaEvent (int i) (c # d) (rs_partial s2)) s2)) j e (blocks s ! j)"
      if "j \<noteq> i" "block_matches (rs_text s) (rs_thinking s) (rs_tools s) j e (blocks s ! j)" for j e
      using that by (cases "blocks s ! j") (auto simp: s2 upd(2) i_def)
    show "pointers_ok (push (ToolCallDeltaEvent (int i) (c # d) (rs_partial s2)) s2)"
    proof (rule pointers_update [OF assms(1), of _ i b])
      show "kind_of b = kind_of (blocks s ! i)" using b(2) i(2) by (simp add: kind_of_iff)
    qed (simp_all add: s2 upd(1) upd(3) [of ta_index] a' b i_def [symmetric])
  qed (simp_all add: s2 b)
  then show ?thesis by (simp add: eq s2)
qed (use assms in \<open>auto simp: extend_arguments_def split: json.split list.split\<close>)

section \<open>Steps that keep the invariant\<close>

definition keeps :: "(response_state \<Rightarrow> bool) \<Rightarrow> step \<Rightarrow> bool" where
  "keeps I f \<longleftrightarrow> (\<forall>s. I s \<longrightarrow> I (snd (f s)))"

lemma keepsD: "keeps I f \<Longrightarrow> I s \<Longrightarrow> I (snd (f s))"
  by (simp add: keeps_def)

lemma keeps_ok [intro, simp]: "keeps I ok"
  by (simp add: keeps_def ok_def)

lemma keeps_raise [intro, simp]: "keeps I (raise f)"
  by (simp add: keeps_def raise_def)

lemma snd_ok [simp]: "snd (ok s) = s" and snd_raise [simp]: "snd (raise f s) = s"
  and fst_ok [simp]: "fst (ok s) = None" and fst_raise [simp]: "fst (raise f s) = Some f"
  by (simp_all add: ok_def raise_def)

lemma snd_after: "snd (after f g s) = (if fst (f s) = None then snd (g (snd (f s))) else snd (f s))"
  and fst_after: "fst (after f g s) = (if fst (f s) = None then fst (g (snd (f s))) else fst (f s))"
  by (simp_all add: after_def split: prod.split option.split)

lemma keeps_after [intro]: "keeps I f \<Longrightarrow> keeps I g \<Longrightarrow> keeps I (after f g)"
  by (simp add: keeps_def snd_after)

lemma keeps_in_order [intro]: "(\<And>x. x \<in> set xs \<Longrightarrow> keeps I (f x)) \<Longrightarrow> keeps I (in_order f xs)"
  by (induction xs) auto

definition running :: "response_state \<Rightarrow> bool" where
  "running s \<longleftrightarrow> response_ok s \<and> rs_started s"

lemma keeps_read_call: "keeps running (read_call v)"
proof -
  have "running (snd (read_call v s))" if r: "running s" for s
  proof (cases "\<exists>d k. v = JObj d \<and> py_int (jget_or d ''index'' (JInt 0)) = Inr k")
    case True
    then obtain d k where v: "v = JObj d" "py_int (jget_or d ''index'' (JInt 0)) = Inr k" by blast
    define fn where "fn = object_or_empty (jget_or d ''function'' (JObj []))"
    define cid where "cid = string_or_none (jget d ''id'')"
    define s1 where "s1 = open_call k cid s"
    from open_call_ok [of s k cid] r obtain a where s1: "response_ok s1" "rs_started s1" "map_of (rs_tools s1) k = Some a"
      by (auto simp: running_def s1_def)
    define s2 where "s2 = name_call (ta_index a) cid (string_or_none (jget fn ''name'')) s1"
    have i: "ta_index a < length (blocks s1) \<and> is_call (blocks s1 ! ta_index a)"
      using pointersD(3) [OF s1(1) map_of_SomeD [OF s1(3)]] by simp
    have "response_ok s2" "rs_started s2" "map_of (rs_tools s2) k = Some a"
      using name_call_ok [OF s1(1,2)] i s1 by (simp_all add: s2_def)
    from extend_arguments_ok [OF this] show ?thesis
      using s1(3) by (simp add: read_call_def v Let_def running_def s1_def [symmetric] cid_def [symmetric]
        fn_def [symmetric] s2_def [symmetric])
  next
    case False
    with r show ?thesis by (auto simp: read_call_def split: json.split sum.split)
  qed
  then show ?thesis by (simp add: keeps_def)
qed

lemma keeps_read_choice: "keeps running (read_choice v)"
proof -
  have "running (snd (read_choice v s))" if r: "running s" for s
  proof (cases v)
    case (JObj ch)
    define s1 where "s1 = (case jget ch ''finish_reason'' of JStr r \<Rightarrow> s\<lparr>rs_finish := Some r\<rparr> | _ \<Rightarrow> s)"
    have s1: "running s1" using r by (simp add: s1_def running_def split: json.split)
    show ?thesis
    proof (cases "jget_or ch ''delta'' (JObj [])")
      case delta: (JObj delta)
      define s3 where "s3 = read_thinking (if jget delta ''reasoning_content'' = JNull then jget delta ''reasoning''
        else jget delta ''reasoning_content'') (read_text (jget delta ''content'') s1)"
      have s3: "running s3"
        using s1 read_text_ok read_thinking_ok by (simp add: running_def s3_def)
      have "running (snd (in_order read_call calls s3))" for calls
        using keeps_in_order [of calls running read_call] keeps_read_call s3 by (blast intro: keepsD)
      moreover have "read_choice v s = (case jget_or delta ''tool_calls'' (JArr []) of
          JArr calls \<Rightarrow> in_order read_call calls s3 | _ \<Rightarrow> ok s3)"
        unfolding read_choice_def JObj s3_def s1_def by (simp only: json.case delta Let_def)
      ultimately show ?thesis using s3 by (simp split: json.split)
    qed (use s1 in \<open>simp_all add: read_choice_def JObj Let_def s1_def [symmetric]\<close>)
  qed (use r in \<open>simp_all add: read_choice_def\<close>)
  then show ?thesis by (simp add: keeps_def)
qed

lemma keeps_read_object: "keeps response_ok (read_object d)"
proof -
  have "response_ok (snd (read_object d s))" if s: "response_ok s" for s
  proof (cases "jget d ''error'' = JNull")
    case True
    have noted: "response_ok (note_response d s)" using s by (simp add: note_response_def)
    have usage: "response_ok (snd (read_usage d s'))" if "response_ok s'" for s'
      using that by (simp add: read_usage_def split: json.split sum.split)
    have "response_ok (snd (in_order read_choice choices (start_response s')))" if "response_ok s'" for choices s'
    proof -
      have "running (start_response s')" using start_response_ok [OF that] by (simp add: running_def)
      with keeps_in_order [of choices running read_choice] keeps_read_choice
      have "running (snd (in_order read_choice choices (start_response s')))" by (blast intro: keepsD)
      then show ?thesis by (simp add: running_def)
    qed
    moreover have "response_ok (start_response s')" if "response_ok s'" for s' using start_response_ok [OF that] by simp
    ultimately have "response_ok (snd (case jget_or d ''choices'' (JArr []) of
           JArr choices \<Rightarrow> in_order read_choice choices (start_response s')
         | _ \<Rightarrow> raise (Other ''OpenAI stream choices must be a list'') (start_response s')))" if "response_ok s'" for s'
      using that by (simp split: json.split)
    with usage [OF noted] show ?thesis
      by (simp add: read_object_def True snd_after)
  next
    case False
    with s show ?thesis by (simp add: read_object_def)
  qed
  then show ?thesis by (simp add: keeps_def)
qed

lemma keeps_read_payload: "keeps response_ok (read_payload je p)"
  using keeps_read_object by (auto simp: read_payload_def split: option.split json.split)

lemma keeps_read_lines: "keeps response_ok (read_lines je ls)"
  by (induction ls rule: read_lines.induct [where P = "\<lambda>a b. keeps response_ok (read_lines je b)" and ?a0.0 = je])
    (auto intro: keeps_read_payload split: option.split)

section \<open>Closing the blocks\<close>

definition ends_only :: "assistant_event list \<Rightarrow> bool" where
  "ends_only evs \<longleftrightarrow> (\<forall>ev \<in> set evs. inner ev \<and> opened_by ev = [] \<and> delta_of ev = [])"

lemma ends_only_simps [simp]:
  "ends_only []" "ends_only (a @ b) \<longleftrightarrow> ends_only a \<and> ends_only b"
  "ends_only [TextEndEvent i d p]" "ends_only [ThinkingEndEvent i d p]" "ends_only [ToolCallEndEvent i c p]"
  by (auto simp: ends_only_def)

lemma closed_append [simp]: "closed_blocks (a @ b) = closed_blocks a @ closed_blocks b"
  and opened_append [simp]: "opened (a @ b) = opened a @ opened b"
  and deltas_append [simp]: "deltas i (a @ b) = deltas i a @ deltas i b"
  by (simp_all add: closed_blocks_def opened_def deltas_def)

lemma ends_only_opened: "ends_only evs \<Longrightarrow> opened evs = []"
  and ends_only_deltas: "ends_only evs \<Longrightarrow> concat (map delta_of evs) = []"
  by (simp_all add: ends_only_def opened_def)

text \<open>The state after the calls \<open>kas\<close> have been closed.\<close>

definition calls_closed :: "(int \<times> tool_accumulator) list \<Rightarrow> response_state \<Rightarrow> response_state \<Rightarrow> bool" where
  "calls_closed kas s s' \<longleftrightarrow> length (blocks s') = length (blocks s) \<and> rs_started s' = rs_started s \<and>
     (\<exists>evs. rs_events s' = rs_events s @ evs \<and> ends_only evs \<and> closed_blocks evs = map (\<lambda>ka. int (ta_index (snd ka))) kas) \<and>
     (\<forall>j. j \<notin> (\<lambda>ka. ta_index (snd ka)) ` set kas \<longrightarrow> blocks s' ! j = blocks s ! j) \<and>
     (\<forall>ka \<in> set kas. \<exists>c. blocks s' ! ta_index (snd ka) = ToolCallContent c \<and>
        streaming_value (ta_raw (snd ka)) = JObj (tc_arguments c))"

lemma calls_closed_Nil: "calls_closed [] s s"
  by (simp add: calls_closed_def exI [of _ "[]"])

lemma end_call_closed:
  assumes "end_call ka s = (None, s')" and "ta_index (snd ka) < length (blocks s)"
  shows "calls_closed [ka] s s'"
proof -
  define i where "i = ta_index (snd ka)"
  from assms(1) obtain d where d: "streaming_value (ta_raw (snd ka)) = JObj d"
    by (auto simp: end_call_def Let_def raise_def split: json.splits)
  define s1 where "s1 = update_call i (\<lambda>x. x\<lparr>tc_arguments := d\<rparr>) s"
  have s': "s' = push (ToolCallEndEvent (int i) (tc_call (blocks s1 ! i)) (rs_partial s1)) s1"
    using assms(1) by (simp add: end_call_def Let_def d i_def s1_def ok_def)
  show ?thesis unfolding calls_closed_def s'
    using assms(2) d by (auto simp: s1_def i_def [symmetric])
qed

lemma calls_closed_Cons:
  assumes "calls_closed [ka] s s1" and "calls_closed kas s1 s2"
    and "ta_index (snd ka) \<notin> (\<lambda>ka. ta_index (snd ka)) ` set kas"
  shows "calls_closed (ka # kas) s s2"
proof -
  from assms(1,2) obtain e1 e2 where e: "rs_events s1 = rs_events s @ e1" "ends_only e1"
    "closed_blocks e1 = [int (ta_index (snd ka))]" "rs_events s2 = rs_events s1 @ e2" "ends_only e2"
    "closed_blocks e2 = map (\<lambda>ka. int (ta_index (snd ka))) kas"
    by (auto simp: calls_closed_def)
  then have "\<exists>evs. rs_events s2 = rs_events s @ evs \<and> ends_only evs \<and>
      closed_blocks evs = map (\<lambda>ka. int (ta_index (snd ka))) (ka # kas)"
    by (intro exI [of _ "e1 @ e2"]) simp
  with assms show ?thesis by (simp add: calls_closed_def)
qed

lemma end_calls_closed:
  assumes "in_order end_call kas s = (None, s')"
    and "\<forall>ka \<in> set kas. ta_index (snd ka) < length (blocks s)"
    and "distinct (map (\<lambda>ka. ta_index (snd ka)) kas)"
  shows "calls_closed kas s s'"
  using assms
proof (induction kas arbitrary: s)
  case Nil
  then show ?case by (simp add: ok_def calls_closed_Nil)
next
  case (Cons ka kas)
  from Cons.prems(1) obtain s1 where s1: "end_call ka s = (None, s1)" "in_order end_call kas s1 = (None, s')"
    by (auto simp: after_def split: prod.splits option.splits)
  have one: "calls_closed [ka] s s1" using end_call_closed [OF s1(1)] Cons.prems(2) by simp
  then have "length (blocks s1) = length (blocks s)" by (simp add: calls_closed_def)
  with Cons.IH [OF s1(2)] Cons.prems(2,3) have "calls_closed kas s1 s'" by simp
  show ?case
    by (rule calls_closed_Cons [OF one \<open>calls_closed kas s1 s'\<close>]) (use Cons.prems(3) in \<open>simp add: image_image\<close>)
qed

section \<open>Completed responses\<close>

fun final_block :: "string \<Rightarrow> content \<Rightarrow> bool" where
  "final_block d (TextContent t _) = (t = d)"
| "final_block d (ThinkingContent t _ _) = (t = d)"
| "final_block d (ToolCallContent c) = (parse_streaming_json d = Some (JObj (tc_arguments c)))"
| "final_block d (ImageContent _ _) = False"

lemma streaming_value_eq: "parse_streaming_json raw = Some (streaming_value raw)"
proof -
  obtain v where "parse_streaming_json raw = Some v" using streaming_returns [of raw] by (rule exE)
  then show ?thesis by (simp add: streaming_value_def)
qed

text \<open>A block and the position of its pointer: the indices that are closed at the end.\<close>

definition closing_order :: "response_state \<Rightarrow> nat list" where
  "closing_order s = (case rs_text s of None \<Rightarrow> [] | Some i \<Rightarrow> [i]) @
     (case rs_thinking s of None \<Rightarrow> [] | Some i \<Rightarrow> [i]) @
     map (\<lambda>ka. ta_index (snd ka)) (sort_key fst (rs_tools s))"

lemma sorted_calls_distinct:
  assumes "response_ok s"
  shows "distinct (map (\<lambda>ka. ta_index (snd ka)) (sort_key fst (rs_tools s)))"
  using pointersD(5) [OF assms] by (simp add: distinct_map distinct_sort)

lemma closing_order_complete:
  assumes "response_ok s"
  shows "distinct (closing_order s)" and "set (closing_order s) = {0..<length (blocks s)}"
proof -
  note p = pointersD [OF assms]
  define tools where "tools = sort_key fst (rs_tools s)"
  have tools: "set tools = set (rs_tools s)" by (simp add: tools_def)
  have dist: "distinct (map (\<lambda>ka. ta_index (snd ka)) tools)"
    unfolding tools_def by (rule sorted_calls_distinct [OF assms])
  have kinds_differ: "kind_of (blocks s ! i) = 0" if "rs_text s = Some i" for i
    using p(1) [OF that] by (simp add: kind_of_iff)
  have kinds_differ2: "kind_of (blocks s ! i) = 1" if "rs_thinking s = Some i" for i
    using p(2) [OF that] by (simp add: kind_of_iff)
  have kinds_differ3: "kind_of (blocks s ! ta_index (snd ka)) = 2" if "ka \<in> set tools" for ka
    using p(3) that by (simp add: kind_of_iff tools)
  show "distinct (closing_order s)"
    unfolding closing_order_def tools_def [symmetric]
    using dist kinds_differ kinds_differ2 kinds_differ3
    by (cases "rs_text s"; cases "rs_thinking s") fastforce+
  show "set (closing_order s) = {0..<length (blocks s)}"
  proof (intro equalityI subsetI)
    fix i assume "i \<in> set (closing_order s)"
    then show "i \<in> {0..<length (blocks s)}"
      using p(1,2,3) by (auto simp: closing_order_def split: option.splits)
  next
    fix i assume "i \<in> {0..<length (blocks s)}"
    then have "block_ok s i" using assms by (simp add: response_ok_def)
    then show "i \<in> set (closing_order s)"
      by (cases "blocks s ! i") (auto simp: block_ok_def closing_order_def)
  qed
qed

lemma response_ok_final:
  assumes "response_ok s" and "i < length (blocks s)"
  shows "case blocks s ! i of ToolCallContent _ \<Rightarrow>
      \<exists>ka \<in> set (rs_tools s). ta_index (snd ka) = i \<and> ta_raw (snd ka) = deltas (int i) (rs_events s)
    | b \<Rightarrow> final_block (deltas (int i) (rs_events s)) b"
proof -
  have "block_ok s i" using assms by (simp add: response_ok_def)
  then show ?thesis by (cases "blocks s ! i") (simp_all add: block_ok_def)
qed

lemma ensure_started_ok:
  assumes "response_ok s"
  shows "running (ensure_started s)"
  using assms by (cases "rs_started s")
    (auto simp: ensure_started_def running_def response_ok_def shape_def pointers_ok_def block_ok_def)

text \<open>What a response that completes has pushed: \<open>ups\<close> announce the blocks and bring their deltas,
  \<open>ends\<close> close them.\<close>

definition closed_response :: "response_state \<Rightarrow> response_state \<Rightarrow> bool" where
  "closed_response s s' \<longleftrightarrow> length (blocks s') = length (blocks s) \<and> rs_started s' \<and>
     (\<exists>ends. rs_events s' = rs_events s @ ends \<and> ends_only ends \<and> closed_blocks ends = map int (closing_order s)) \<and>
     (\<forall>i < length (blocks s). final_block (deltas (int i) (rs_events s)) (blocks s' ! i))"

lemma close_response:
  assumes "running s"
    and "in_order end_call (sort_key fst (rs_tools s)) (end_thinking (end_text s)) = (None, s')"
  shows "closed_response s s'"
proof -
  have ok: "response_ok s" and st: "rs_started s" using assms(1) by (simp_all add: running_def)
  note p = pointersD [OF ok]
  define t where "t = end_thinking (end_text s)"
  define kas where "kas = sort_key fst (rs_tools s)"
  obtain e1 where t: "blocks t = blocks s" "rs_tools t = rs_tools s" "rs_started t"
    "rs_events t = rs_events s @ e1" "ends_only e1"
    "closed_blocks e1 = map int ((case rs_text s of None \<Rightarrow> [] | Some i \<Rightarrow> [i]) @
       (case rs_thinking s of None \<Rightarrow> [] | Some i \<Rightarrow> [i]))"
    using st by (cases "rs_text s"; cases "rs_thinking s")
      (auto simp: t_def end_thinking_def end_text_def ends_only_def closed_blocks_def)
  have dist: "distinct (map (\<lambda>ka. ta_index (snd ka)) kas)"
    unfolding kas_def by (rule sorted_calls_distinct [OF ok])
  have c: "calls_closed kas t s'"
    by (rule end_calls_closed) (use assms(2) p(3) dist t(1) in \<open>simp_all add: t_def kas_def\<close>)
  have fin: "final_block (deltas (int i) (rs_events s)) (blocks s' ! i)" if i: "i < length (blocks s)" for i
  proof (cases "i \<in> (\<lambda>ka. ta_index (snd ka)) ` set kas")
    case True
    then obtain ka where ka: "ka \<in> set kas" "i = ta_index (snd ka)" by blast
    with c obtain c' where c': "blocks s' ! i = ToolCallContent c'" "streaming_value (ta_raw (snd ka)) = JObj (tc_arguments c')"
      by (auto simp: calls_closed_def)
    have mem: "ka \<in> set (rs_tools s)" using ka(1) by (simp add: kas_def)
    then have "is_call (blocks s ! i)" using p(3) ka(2) by simp
    then obtain ka' where ka': "ka' \<in> set (rs_tools s)" "ta_index (snd ka') = i" "ta_raw (snd ka') = deltas (int i) (rs_events s)"
      using response_ok_final [OF ok i] by (cases "blocks s ! i") auto
    then have "ka' = ka" using p(5) mem ka(2) by (auto simp: distinct_map inj_on_def)
    with c' ka' show ?thesis by (simp add: streaming_value_eq)
  next
    case False
    then have "blocks s' ! i = blocks s ! i" using c t(1) by (simp add: calls_closed_def)
    moreover have "\<not> is_call (blocks s ! i)"
      using False response_ok_final [OF ok i] by (cases "blocks s ! i") (auto simp: kas_def)
    ultimately show ?thesis using response_ok_final [OF ok i] by (cases "blocks s ! i") simp_all
  qed
  from c obtain e2 where "rs_events s' = rs_events t @ e2" "ends_only e2"
    "closed_blocks e2 = map (\<lambda>ka. int (ta_index (snd ka))) kas" "length (blocks s') = length (blocks t)" "rs_started s'"
    using t(3) by (auto simp: calls_closed_def)
  then have "\<exists>ends. rs_events s' = rs_events s @ ends \<and> ends_only ends \<and> closed_blocks ends = map int (closing_order s)"
    using t by (intro exI [of _ "e1 @ e2"]) (simp add: closing_order_def kas_def)
  with fin \<open>rs_started s'\<close> \<open>length (blocks s') = length (blocks t)\<close> t(1) show ?thesis
    by (simp add: closed_response_def)
qed

lemma deltas_Start: "deltas i (StartEvent p # evs) = deltas i evs" and opened_Start: "opened (StartEvent p # evs) = opened evs"
  and closed_Start: "closed_blocks (StartEvent p # evs) = closed_blocks evs"
  by (simp_all add: deltas_def opened_def closed_blocks_def)

lemma run_once_success:
  assumes "run_once je m t sc = (None, evs)"
  obtains s s1 where "running s" "closed_response s s1" "fst (complete_response m (as_last_check sc) s1) = None"
    "evs = rs_events (snd (complete_response m (as_last_check sc) s1))"
proof -
  define f where "f = after (read_lines je (as_lines sc)) (finish_response m (as_last_check sc))"
  have req: "as_request sc = None"
    using assms by (cases "as_request sc") (simp_all add: run_once_def after_def raise_def)
  then have run: "f (initial_response m t) = (None, snd (f (initial_response m t)))"
    and evs: "evs = rs_events (snd (f (initial_response m t)))"
    using assms by (auto simp: run_once_def after_def f_def ok_def split: prod.splits option.splits)
  define r where "r = snd (read_lines je (as_lines sc) (initial_response m t))"
  have r: "response_ok r" unfolding r_def
    using keeps_read_lines response_ok_initial by (rule keepsD)
  define s where "s = ensure_started r"
  define s1 where "s1 = snd (in_order end_call (sort_key fst (rs_tools r)) (end_thinking (end_text s)))"
  have fin: "fst (f (initial_response m t)) = None" using run by (metis fst_conv)
  then have fin2: "fst (finish_response m (as_last_check sc) r) = None"
    by (simp add: f_def fst_after r_def split: if_splits)
  then have calls: "in_order end_call (sort_key fst (rs_tools r)) (end_thinking (end_text s)) = (None, s1)"
    by (simp add: finish_response_def fst_after s_def s1_def prod_eq_iff split: if_splits)
  have tools: "rs_tools s = rs_tools r" by (simp add: s_def ensure_started_def)
  have "closed_response s s1"
    by (rule close_response) (use ensure_started_ok [OF r] calls in \<open>simp_all add: s_def [symmetric] tools\<close>)
  moreover have "snd (f (initial_response m t)) = snd (complete_response m (as_last_check sc) s1)"
    using fin calls by (simp add: f_def snd_after fst_after r_def [symmetric] finish_response_def s_def [symmetric]
        split: if_splits)
  moreover have "fst (complete_response m (as_last_check sc) s1) = None"
    using fin2 calls by (simp add: finish_response_def fst_after s_def [symmetric] split: if_splits)
  ultimately show ?thesis using evs ensure_started_ok [OF r] by (intro that [of s s1]) (simp_all add: s_def)
qed

text \<open>C27: An attempt that succeeds has pushed a start event, then the announcements and deltas of the
  blocks (numbered from 0, in order), then one end event for each block, then the done event with
  the final message.  The text of each block is the concatenation of its deltas, and the arguments
  of a tool call are what the streaming parser reads from its deltas.\<close>

theorem response_stream_protocol:
  assumes "run_once je m t sc = (None, evs)"
  shows "\<exists>p ups ends reason msg. evs = StartEvent p # ups @ ends @ [DoneEvent reason msg] \<and>
    am_stop_reason msg = JStr reason \<and> (\<forall>ev \<in> set (ups @ ends). inner ev) \<and>
    opened ups = map int [0..<length (am_content msg)] \<and> closed_blocks ups = [] \<and>
    opened ends = [] \<and> concat (map delta_of ends) = [] \<and>
    distinct (closed_blocks ends) \<and> set (closed_blocks ends) = set (opened ups) \<and>
    (\<forall>i < length (am_content msg). final_block (deltas (int i) ups) (am_content msg ! i))"
proof (rule run_once_success [OF assms])
  fix s s1
  assume s: "running s" and c: "closed_response s s1"
    and last_ok: "fst (complete_response m (as_last_check sc) s1) = None"
    and evs: "evs = rs_events (snd (complete_response m (as_last_check sc) s1))"
  from s have ok: "response_ok s" and st: "rs_started s" by (simp_all add: running_def)
  from ok st obtain p ups where ups: "rs_events s = StartEvent p # ups" "\<forall>ev \<in> set ups. inner ev"
    by (auto simp: response_ok_def shape_def)
  from c obtain ends where ends: "rs_events s1 = rs_events s @ ends" "ends_only ends"
    "closed_blocks ends = map int (closing_order s)"
    by (auto simp: closed_response_def)
  from last_ok have "as_last_check sc = None"
    by (cases "as_last_check sc") (simp_all add: complete_response_def Let_def)
  then obtain reason msg where fin: "evs = rs_events s1 @ [DoneEvent reason msg]" "am_content msg = blocks s1"
    "am_stop_reason msg = JStr reason"
    using evs by (simp add: complete_response_def Let_def blocks_def)
  have len: "length (am_content msg) = length (blocks s)" using c fin(2) by (simp add: closed_response_def)
  have "evs = StartEvent p # ups @ ends @ [DoneEvent reason msg]" using ups(1) ends(1) fin(1) by simp
  moreover have "\<forall>ev \<in> set (ups @ ends). inner ev" using ups(2) ends(2) by (auto simp: ends_only_def)
  moreover have up: "opened ups = map int [0..<length (am_content msg)] \<and> closed_blocks ups = []"
    using ok by (simp add: response_ok_def ups(1) len opened_Start closed_Start)
  moreover have "distinct (closed_blocks ends) \<and> set (closed_blocks ends) = set (opened ups)"
    using closing_order_complete [OF ok] up by (simp add: ends(3) len distinct_map)
  moreover have "\<forall>i < length (am_content msg). final_block (deltas (int i) ups) (am_content msg ! i)"
    using c by (simp add: closed_response_def len fin(2) ups(1) deltas_Start)
  ultimately show ?thesis using ends_only_opened [OF ends(2)] ends_only_deltas [OF ends(2)] fin(3)
    by (intro exI [of _ p] exI [of _ ups] exI [of _ ends] exI [of _ reason] exI [of _ msg] conjI) simp_all
qed

section \<open>Failed attempts\<close>

lemma keeps_shape_end_call: "keeps (\<lambda>s. shape s \<and> rs_started s) (end_call ka)"
  by (auto simp: keeps_def end_call_def Let_def shape_def split: json.split)

lemma shape_end: "shape s \<and> rs_started s \<Longrightarrow> shape (end_thinking (end_text s)) \<and> rs_started (end_thinking (end_text s))"
  by (auto simp: end_thinking_def end_text_def shape_def split: option.split)

lemma run_once_failure:
  assumes "run_once je m t sc = (Some f, evs)"
  shows "evs = [] \<or> (\<exists>p mids. evs = StartEvent p # mids \<and> (\<forall>ev \<in> set mids. inner ev))"
    and "f = Request e \<Longrightarrow> pe_response_started e \<longleftrightarrow> evs \<noteq> []"
    and "f \<noteq> Other x"
proof -
  define g where "g = after (\<lambda>s. case as_request sc of Some f \<Rightarrow> raise f s | None \<Rightarrow> ok s)
     (after (read_lines je (as_lines sc)) (finish_response m (as_last_check sc)))"
  from assms obtain f' where f': "g (initial_response m t) = (Some f', snd (g (initial_response m t)))"
    "f = attempt_failure f' (snd (g (initial_response m t)))" "evs = rs_events (snd (g (initial_response m t)))"
    by (auto simp: run_once_def g_def split: prod.splits option.splits)
  have init: "shape (initial_response m t)" using response_ok_initial [of m t] by (simp add: response_ok_def)
  define r where "r = snd (read_lines je (as_lines sc) (initial_response m t))"
  have "response_ok r" unfolding r_def using keeps_read_lines response_ok_initial by (rule keepsD)
  then have r: "shape r" and e: "shape (ensure_started r) \<and> rs_started (ensure_started r)"
    using ensure_started_ok by (auto simp: response_ok_def running_def)
  define c where "c = snd (in_order end_call (sort_key fst (rs_tools r)) (end_thinking (end_text (ensure_started r))))"
  have c: "shape c \<and> rs_started c" unfolding c_def
    by (rule keepsD [where I = "\<lambda>s. shape s \<and> rs_started s", OF _ shape_end [OF e]])
      (rule keeps_in_order, rule keeps_shape_end_call)
  have no: "shape (snd (complete_response m cancelled c))" if "fst (complete_response m cancelled c) \<noteq> None" for cancelled
    using that c by (cases cancelled) (simp_all add: complete_response_def Let_def shape_def)
  have "shape (snd (g (initial_response m t)))"
    using f' init r c no [of "as_last_check sc"]
    by (cases "as_request sc") (auto simp: g_def snd_after fst_after finish_response_def r_def [symmetric] c_def [symmetric]
        prod_eq_iff split: if_splits)
  then show "evs = [] \<or> (\<exists>p mids. evs = StartEvent p # mids \<and> (\<forall>ev \<in> set mids. inner ev))"
    and "f = Request e \<Longrightarrow> pe_response_started e \<longleftrightarrow> evs \<noteq> []" and "f \<noteq> Other x"
    using f'(2,3) by (auto simp: shape_def attempt_failure_def with_response_started_def with_partial_message_def Let_def
        split: if_splits failure.splits)
qed

section \<open>The run of the provider\<close>

definition lifecycle :: "assistant_event list \<Rightarrow> bool" where
  "lifecycle evs \<longleftrightarrow> (\<exists>mids fin. evs = mids @ [fin] \<and> is_terminal_event fin \<and>
     (mids = [] \<or> (\<exists>p rest. mids = StartEvent p # rest \<and> (\<forall>ev \<in> set rest. inner ev))))"

lemma lifecycle_failed:
  assumes "run_once je m t sc = (Some f, evs)" and "is_terminal_event fin"
  shows "lifecycle (evs @ [fin])"
  using run_once_failure(1) [OF assms(1)] assms(2) by (auto simp: lifecycle_def)

lemma lifecycle_done:
  assumes "run_once je m t sc = (None, evs)" shows "lifecycle evs"
proof (rule run_once_success [OF assms])
  fix s s1
  assume s: "running s" and c: "closed_response s s1"
    and last_ok: "fst (complete_response m (as_last_check sc) s1) = None"
    and evs: "evs = rs_events (snd (complete_response m (as_last_check sc) s1))"
  from s obtain p ups where ups: "rs_events s = StartEvent p # ups" "\<forall>ev \<in> set ups. inner ev"
    by (auto simp: running_def response_ok_def shape_def)
  from c obtain ends where ends: "rs_events s1 = rs_events s @ ends" "ends_only ends"
    by (auto simp: closed_response_def)
  from last_ok have "as_last_check sc = None"
    by (cases "as_last_check sc") (simp_all add: complete_response_def Let_def)
  then obtain reason msg where "evs = rs_events s1 @ [DoneEvent reason msg]"
    using evs by (simp add: complete_response_def Let_def blocks_def)
  then have "evs = (StartEvent p # ups @ ends) @ [DoneEvent reason msg]" using ups ends by simp
  moreover have "\<forall>ev \<in> set (ups @ ends). inner ev" using ups(2) ends(2) by (auto simp: ends_only_def)
  ultimately show ?thesis unfolding lifecycle_def
    by (intro exI [of _ "StartEvent p # ups @ ends"] exI [of _ "DoneEvent reason msg"]) simp
qed

lemma run_attempts_lifecycle:
  "lifecycle (fst (run_attempts je m opts ru n k)) \<and> length (snd (run_attempts je m opts ru n k)) \<le> n \<and>
   (pf_less (Fin 0) (so_max_retry_delay opts) \<longrightarrow>
      (\<forall>d \<in> set (snd (run_attempts je m opts ru n k)). \<not> pf_less (so_max_retry_delay opts) d))"
proof (induction n arbitrary: k)
  case 0
  obtain r evs where once: "run_once je m (ru_clock ru k) (ru_attempt ru k) = (r, evs)" by (cases "run_once je m (ru_clock ru k) (ru_attempt ru k)")
  show ?case
  proof (cases r)
    case None
    with lifecycle_done once show ?thesis by simp
  next
    case (Some f)
    with lifecycle_failed [OF once [unfolded Some]] once show ?thesis
      by (cases f) (simp_all add: aborted_def failed_def)
  qed
next
  case (Suc n)
  obtain r evs where once: "run_once je m (ru_clock ru k) (ru_attempt ru k) = (r, evs)" by (cases "run_once je m (ru_clock ru k) (ru_attempt ru k)")
  show ?case
  proof (cases r)
    case None
    with lifecycle_done once show ?thesis by simp
  next
    case (Some f)
    note stop = lifecycle_failed [OF once [unfolded Some]]
    show ?thesis
    proof (cases f)
      case (Request e)
      show ?thesis
      proof (cases "\<not> pe_retryable e \<or> pe_response_started e")
        case True
        then show ?thesis using once Some Request stop by (simp add: failed_def)
      next
        case False
        then have "evs = []" using run_once_failure(2) [OF once [unfolded Some] Request] by simp
        show ?thesis
        proof (cases "retry_delay e k (so_retry_base_delay opts) (so_max_retry_delay opts)")
          case (Inl capped)
          then show ?thesis using False once Some Request stop by (simp add: failed_def)
        next
          case (Inr d)
          have d: "pf_less (Fin 0) (so_max_retry_delay opts) \<Longrightarrow> \<not> pf_less (so_max_retry_delay opts) d"
            by (rule retry_delay_bounded [OF Inr])
          show ?thesis
          proof (cases "ru_sleep ru k")
            case None
            obtain evs' ds where rest: "run_attempts je m opts ru n (Suc k) = (evs', ds)" by (cases "run_attempts je m opts ru n (Suc k)")
            then show ?thesis using Suc.IH [of "Suc k"] False once Some Request Inr None d \<open>evs = []\<close> by simp
          next
            case sl: (Some reason)
            then show ?thesis using False once Some Request Inr stop d by (simp add: aborted_def)
          qed
        qed
      qed
    qed (use once Some stop in \<open>simp_all add: aborted_def failed_def\<close>)
  qed
qed

text \<open>C28: However many attempts are made, the provider pushes at most one start event, as its first
  event, and exactly one terminal event, as its last: an attempt is repeated only when it has pushed
  nothing.  It sleeps at most \<^verbatim>\<open>max_retries\<close> times, never longer than a positive
  \<^verbatim>\<open>max_retry_delay\<close>.\<close>

theorem provider_run_lifecycle:
  assumes "provider_run je m opts ru = (evs, ds)"
  shows "(\<exists>mids fin. evs = mids @ [fin] \<and> is_terminal_event fin \<and>
      (mids = [] \<or> (\<exists>p rest. mids = StartEvent p # rest \<and> (\<forall>ev \<in> set rest. \<not> is_start ev \<and> \<not> is_terminal_event ev)))) \<and>
    int (length ds) \<le> max (so_max_retries opts) 0 \<and>
    (pf_less (Fin 0) (so_max_retry_delay opts) \<longrightarrow> (\<forall>d \<in> set ds. \<not> pf_less (so_max_retry_delay opts) d))"
proof -
  have "run_attempts je m opts ru (nat (max (so_max_retries opts) 0)) 0 = (evs, ds)"
    using assms by (simp add: provider_run_def)
  with run_attempts_lifecycle [of je m opts ru "nat (max (so_max_retries opts) 0)" 0] show ?thesis
    by (simp add: lifecycle_def inner_def) linarith
qed

section \<open>The run and the stream\<close>

fun by_producer :: "('t, 'r) stream_op \<Rightarrow> bool" where
  "by_producer (Push _) = True" | "by_producer (End _) = True" | "by_producer _ = False"

definition outcome :: "('t, 'r) channel \<Rightarrow> 't list \<times> bool \<times> 'r option" where
  "outcome c = (ch_accepted c, es_done (ch_stream c), es_result (ch_stream c))"

fun outcome_step :: "('t \<Rightarrow> bool) \<Rightarrow> ('t \<Rightarrow> 'r) \<Rightarrow> ('t, 'r) stream_op \<Rightarrow> 't list \<times> bool \<times> 'r option \<Rightarrow>
   't list \<times> bool \<times> 'r option" where
  "outcome_step cmp ext (Push ev) (xs, d, r) =
     (if d then (xs, d, r) else if cmp ev then (xs @ [ev], True, Some (ext ev)) else (xs @ [ev], d, r))"
| "outcome_step cmp ext (End r') (xs, d, r) = (xs, True, if r' \<noteq> None \<and> r = None then r' else r)"
| "outcome_step cmp ext op o' = o'"

lemma outcome_channel_step: "outcome (channel_step cmp ext op c) = outcome_step cmp ext op (outcome c)"
  by (cases op) (auto simp: outcome_def channel_step_def stream_push_def stream_end_def poll_def resume_def
      cancel_wait_def Let_def split: reader.split list.split future.split)

lemma outcome_fold:
  "outcome (fold (channel_step cmp ext) ops c) = fold (outcome_step cmp ext) (filter by_producer ops) (outcome c)"
proof (induction ops arbitrary: c)
  case (Cons op ops)
  then show ?case by (cases op) (simp_all add: outcome_channel_step)
qed simp

lemma outcome_pushes:
  "\<forall>ev \<in> set evs. \<not> cmp ev \<Longrightarrow> fold (outcome_step cmp ext) (map Push evs) (xs, False, r) = (xs @ evs, False, r)"
  by (induction evs arbitrary: xs) auto

text \<open>C29: However a reader's steps fall between the pushes of the provider's task and its final
  \<^verbatim>\<open>end()\<close>, the stream accepts every event the provider pushes, is done afterwards, and its
  result is a message: awaiting the result of a stream of this provider always returns.\<close>

theorem provider_result_resolves:
  assumes "filter by_producer ops = map Push (fst (provider_run je m opts ru)) @ [End None]"
  shows "ch_accepted (run_channel is_terminal_event event_result ops) = fst (provider_run je m opts ru) \<and>
    es_done (ch_stream (run_channel is_terminal_event event_result ops)) \<and>
    (\<exists>msg. es_result (ch_stream (run_channel is_terminal_event event_result ops)) = Some (Inr msg))"
proof -
  have "lifecycle (fst (provider_run je m opts ru))"
    unfolding provider_run_def using run_attempts_lifecycle by (rule conjunct1)
  then obtain mids fin where evs: "fst (provider_run je m opts ru) = mids @ [fin]" "is_terminal_event fin"
    "\<forall>ev \<in> set mids. \<not> is_terminal_event ev"
    by (auto simp: lifecycle_def inner_def)
  have "outcome (run_channel is_terminal_event event_result ops) =
      fold (outcome_step is_terminal_event event_result) (map Push mids @ [Push fin, End None]) ([], False, None)"
    unfolding run_channel_def outcome_fold assms evs(1) map_append
    by (simp add: outcome_def new_channel_def new_stream_def)
  also have "\<dots> = (mids @ [fin], True, Some (event_result fin))"
    by (simp add: outcome_pushes [OF evs(3)] evs(2))
  finally have "outcome (run_channel is_terminal_event event_result ops) = (mids @ [fin], True, Some (event_result fin))" .
  moreover have "\<exists>msg. event_result fin = Inr msg" using evs(2) by (cases fin) simp_all
  ultimately show ?thesis by (simp add: outcome_def evs(1))
qed

section \<open>Calls that are cut off\<close>

lemma prefix_value:
  assumes "plain_style st" and "json_ok (JObj d)" and "finite_numbers (JObj d)" and "prefix p (json_dumps st (JObj d))"
  shows "\<exists>e. streaming_value p = JObj e \<and> approx (JObj e) (JObj d)"
proof -
  from assms(4) obtain q where "json_dumps st (JObj d) = p @ q" by (rule prefixE)
  from streaming_prefix [OF assms(1-3) this] show ?thesis by (auto simp: streaming_value_def)
qed

text \<open>C30: A response whose lines end inside the arguments of its tool call, with no finish reason, is
  not an error: it completes as a response that asks for the tool, with the arguments that were
  readable so far.\<close>

theorem cut_off_call_completes:
  assumes "plain_style st" and "json_ok (JObj d)" and "finite_numbers (JObj d)" and "prefix p (json_dumps st (JObj d))"
    and "rs_tools s = [(k, \<lparr>ta_index = i, ta_raw = p\<rparr>)]" and "i < length (blocks s)" and "rs_finish s = None"
  shows "\<exists>s' msg c. finish_response m None s = (None, s') \<and> last (rs_events s') = DoneEvent ''toolUse'' msg \<and>
    am_content msg ! i = ToolCallContent c \<and> approx (JObj (tc_arguments c)) (JObj d)"
proof -
  from prefix_value [OF assms(1-4)] obtain e where e: "streaming_value p = JObj e" "approx (JObj e) (JObj d)" by blast
  define t where "t = end_thinking (end_text (ensure_started s))"
  have t: "blocks t = blocks s" "rs_tools t = rs_tools s" "rs_finish t = None"
    using assms(7) by (simp_all add: t_def end_thinking_def end_text_def ensure_started_def push_def blocks_def split: option.split)
  define s1 where "s1 = update_call i (\<lambda>x. x\<lparr>tc_arguments := e\<rparr>) t"
  define s2 where "s2 = push (ToolCallEndEvent (int i) (tc_call (blocks s1 ! i)) (rs_partial s1)) s1"
  have calls: "in_order end_call (sort_key fst (rs_tools s)) t = (None, s2)"
    by (simp add: assms(5) after_def end_call_def e s1_def s2_def ok_def Let_def)
  have s2: "rs_tools s2 \<noteq> []" "rs_finish s2 = None" "blocks s2 ! i = ToolCallContent ((tc_call (blocks s ! i))\<lparr>tc_arguments := e\<rparr>)"
    using t assms(5,6) by (simp_all add: s2_def s1_def push_def update_call_def set_content_def blocks_def)
  then show ?thesis using calls e
    by (simp add: finish_response_def after_def t_def [symmetric] complete_response_def Let_def map_finish_reason_def
        ok_def push_def blocks_def)
qed

section \<open>Instances\<close>

definition demo_chunk :: jobject where
  "demo_chunk = [(''choices'', JArr [JObj [(''delta'', JObj [(''content'', JStr ''hi'')])]])]"

definition demo_script :: attempt_script where
  "demo_script = \<lparr>as_request = None, as_lines = [Line (''data: '' @ json_dumps unspaced_style (JObj demo_chunk))],
     as_last_check = None\<rparr>"

definition silent_model :: model where
  "silent_model = \<lparr>md_api = ''a'', md_provider = ''p'', md_id = ''m'', md_name = ''M'', md_base_url = [],
     md_reasoning = False, md_input = [''text''], md_cost = \<lparr>mc_rates = \<lparr>pr_input = 0, pr_output = 0, pr_cache_read = 0,
     pr_cache_write = 0\<rparr>, mc_tiers = []\<rparr>, md_context_window = 1000, md_max_tokens = 100,
     md_headers = [], md_compat = [], md_sampling_params = []\<rparr>"

lemma demo_payload:
  "parse_sse_line (''data: '' @ json_dumps unspaced_style (JObj demo_chunk)) = Some (json_dumps unspaced_style (JObj demo_chunk))"
  "json_loads (json_dumps unspaced_style (JObj demo_chunk)) = Some (JObj demo_chunk)"
  subgoal by (simp add: parse_sse_line_def demo_chunk_def strip_def lstrip_def is_space_def unspaced_style_def Let_def)
  subgoal using loads_dumps [of unspaced_style "JObj demo_chunk" "[]"] by (simp add: demo_chunk_def unspaced_style_def plain_style_def)
  done

lemma demo_lines:
  "read_lines je (as_lines demo_script) (initial_response m t) =
     (None, read_text (JStr ''hi'') (start_response (initial_response m t)))"
proof -
  define x where "x = initial_response m t"
  have noted: "note_response demo_chunk x = x"
    by (simp add: note_response_def demo_chunk_def string_or_none_def or_else_def x_def initial_response_def)
  have usage: "read_usage demo_chunk x = ok x" by (simp add: read_usage_def demo_chunk_def)
  have "read_object demo_chunk x = (None, read_text (JStr ''hi'') (start_response x))"
    unfolding read_object_def noted after_def usage
    by (simp add: demo_chunk_def ok_def after_def read_choice_def Let_def read_thinking_def)
  moreover have "json_dumps unspaced_style (JObj demo_chunk) \<noteq> ''[DONE]''" by (simp add: Let_def)
  ultimately show ?thesis
    unfolding demo_script_def x_def
    by (simp only: attempt_script.simps read_lines.simps demo_payload option.case if_False read_payload_def json.case
        after_def prod.case ok_def)
qed

lemma provider_demo_run:
  "\<exists>evs r msg. run_once je m t demo_script = (None, evs) \<and> 2 \<le> length evs \<and> last evs = DoneEvent r msg \<and>
     am_content msg = [TextContent ''hi'' JNull]"
proof -
  define r where "r = read_text (JStr ''hi'') (start_response (initial_response m t))"
  have "\<exists>s r' msg. finish_response m None r = (None, s) \<and> 2 \<le> length (rs_events s) \<and>
     last (rs_events s) = DoneEvent r' msg \<and> am_content msg = [TextContent ''hi'' JNull]"
    by (simp add: r_def ok_def read_text_def start_response_def initial_response_def empty_response_def
      push_def set_content_def blocks_def Let_def finish_response_def after_def ensure_started_def end_text_def
      end_thinking_def complete_response_def map_finish_reason_def)
  then obtain s r' msg where s: "finish_response m None r = (None, s)" "2 \<le> length (rs_events s)" "last (rs_events s) = DoneEvent r' msg"
    "am_content msg = [TextContent ''hi'' JNull]" by blast
  have "run_once je m t demo_script = (None, rs_events s)"
    using s(1) demo_lines [of je m t] by (simp add: run_once_def after_def demo_script_def ok_def r_def)
  with s(2-4) show ?thesis by blast
qed

theorem response_stream_protocol_witness:
  "\<exists>evs p ups ends reason msg. run_once (\<lambda>_. []) silent_model 0 demo_script = (None, evs) \<and>
     evs = StartEvent p # ups @ ends @ [DoneEvent reason msg] \<and> am_content msg = [TextContent ''hi'' JNull] \<and>
     opened ups = [0] \<and> deltas 0 ups = ''hi''"
proof -
  obtain evs r m where run: "run_once (\<lambda>_. []) silent_model 0 demo_script = (None, evs)" "last evs = DoneEvent r m"
    "am_content m = [TextContent ''hi'' JNull]"
    using provider_demo_run by blast
  from response_stream_protocol [OF run(1)] obtain p ups ends reason msg where
    evs: "evs = StartEvent p # ups @ ends @ [DoneEvent reason msg]" "opened ups = map int [0..<length (am_content msg)]"
    "\<forall>i < length (am_content msg). final_block (deltas (int i) ups) (am_content msg ! i)" by blast
  then have "am_content msg = [TextContent ''hi'' JNull]" using run(2,3) by simp
  with run(1) evs show ?thesis
    by (intro exI [of _ evs] exI [of _ p] exI [of _ ups] exI [of _ ends] exI [of _ reason] exI [of _ msg]) simp
qed

text \<open>A first attempt that is refused with a retryable status, then the response above.\<close>

definition refused_then_demo :: run_script where
  "refused_then_demo = \<lparr>ru_attempt = (\<lambda>n. if n = 0 then demo_script\<lparr>as_request :=
       Some (Request ((plain_error ''busy'')\<lparr>pe_retryable := True, pe_retry_after := None\<rparr>))\<rparr> else demo_script),
     ru_clock = (\<lambda>_. 0), ru_late = (\<lambda>_. 0), ru_sleep = (\<lambda>_. None)\<rparr>"

definition one_retry :: stream_options where
  "one_retry = default_stream_options\<lparr>so_max_retries := 1\<rparr>"

lemma demo_retry:
  assumes "run_once je silent_model 0 demo_script = (None, evs)"
  shows "provider_run je silent_model one_retry refused_then_demo = (evs, [Fin (1 / 2)])"
proof -
  have "run_once je silent_model 0 (demo_script\<lparr>as_request :=
      Some (Request ((plain_error ''busy'')\<lparr>pe_retryable := True, pe_retry_after := None\<rparr>))\<rparr>)
    = (Some (Request ((plain_error ''busy'')\<lparr>pe_retryable := True, pe_retry_after := None\<rparr>)), [])"
    by (simp add: run_once_def after_def raise_def initial_response_def attempt_failure_def with_response_started_def
        plain_error_def Let_def)
  then show ?thesis using assms
    by (simp add: provider_run_def one_retry_def default_stream_options_def refused_then_demo_def retry_delay_def
        plain_error_def Let_def at_least_zero_def pf_min_def)
qed

theorem provider_run_lifecycle_witness:
  "\<exists>evs p rest fin. provider_run (\<lambda>_. []) silent_model one_retry refused_then_demo = (evs, [Fin (1 / 2)]) \<and>
     evs = (StartEvent p # rest) @ [fin] \<and> is_terminal_event fin \<and> (\<forall>ev \<in> set rest. \<not> is_start ev)"
proof -
  obtain evs where run: "run_once (\<lambda>_. []) silent_model 0 demo_script = (None, evs)" "2 \<le> length evs"
    using provider_demo_run by blast
  note life = provider_run_lifecycle [OF demo_retry [OF run(1)]]
  obtain mids fin where evs: "evs = mids @ [fin]" "is_terminal_event fin"
    "mids = [] \<or> (\<exists>p rest. mids = StartEvent p # rest \<and> (\<forall>ev \<in> set rest. \<not> is_start ev \<and> \<not> is_terminal_event ev))"
    using life [THEN conjunct1] by blast
  with run(2) obtain p rest where "mids = StartEvent p # rest" "\<forall>ev \<in> set rest. \<not> is_start ev" by auto
  with evs demo_retry [OF run(1)] show ?thesis by blast
qed

theorem provider_result_resolves_witness:
  "\<exists>msg. es_result (ch_stream (run_channel is_terminal_event event_result
     (Poll # map Push (fst (provider_run (\<lambda>_. []) silent_model one_retry refused_then_demo)) @ [Resume, End None]))) = Some (Inr msg)"
proof -
  have "filter by_producer (Poll # map Push evs @ [Resume, End None :: (assistant_event, (exn, assistant_message) result) stream_op])
      = map Push evs @ [End None]" for evs
    by (induction evs) simp_all
  from provider_result_resolves [OF this] show ?thesis by blast
qed

definition cut_off_state :: response_state where
  "cut_off_state = (set_content [ToolCallContent \<lparr>tc_id = ''c'', tc_name = ''write'', tc_arguments = [],
       tc_thought_signature = JNull, tc_namespace = JNull\<rparr>] (initial_response silent_model 0))
     \<lparr>rs_tools := [(0, \<lparr>ta_index = 0,
        ta_raw = take 12 (json_dumps unspaced_style (JObj [(''path'', JStr ''/tmp/a''), (''n'', JInt 12)]))\<rparr>)]\<rparr>"

theorem cut_off_call_completes_witness:
  "\<exists>s' msg c. finish_response silent_model None cut_off_state = (None, s') \<and>
     last (rs_events s') = DoneEvent ''toolUse'' msg \<and> am_content msg ! 0 = ToolCallContent c \<and>
     approx (JObj (tc_arguments c)) (JObj [(''path'', JStr ''/tmp/a''), (''n'', JInt 12)])"
proof (rule cut_off_call_completes)
  show "plain_style unspaced_style" by (simp add: plain_style_def unspaced_style_def)
  show "prefix (take 12 (json_dumps unspaced_style (JObj [(''path'', JStr ''/tmp/a''), (''n'', JInt 12)])))
     (json_dumps unspaced_style (JObj [(''path'', JStr ''/tmp/a''), (''n'', JInt 12)]))" by (rule take_is_prefix)
qed (simp_all add: cut_off_state_def initial_response_def set_content_def blocks_def)

end
