(* ===== verification/JsonLayout.thy ===== *)
theory JsonLayout
  imports JsonRoundTrip
begin

text \<open>
  Indented JSON documents, and what any layout of a value reads back as: white space between the
  tokens does not matter.
\<close>

section \<open>Writing\<close>

text \<open>\<^verbatim>\<open>json.dumps(value, indent=2, ensure_ascii=False, sort_keys=True)\<close>.\<close>

definition line_at :: "nat \<Rightarrow> string" where
  "line_at n = CHR 0x0A # replicate (2 * n) (CHR '' '')"

fun indented :: "nat \<Rightarrow> json \<Rightarrow> string" where
  "indented n (JArr xs) =
     (if xs = [] then ''[]''
      else ''['' @ line_at (Suc n) @ sep_list ('','' @ line_at (Suc n)) (map (indented (Suc n)) xs) @ line_at n @ '']'')"
| "indented n (JObj d) =
     (if d = [] then ''{}''
      else ''{'' @ line_at (Suc n) @ sep_list ('','' @ line_at (Suc n))
          (map (\<lambda>kv. dump_string (fst kv) @ '': '' @ snd kv)
             (sort_key fst (map (\<lambda>kv. (fst kv, indented (Suc n) (snd kv))) d))) @ line_at n @ ''}'')"
| "indented n v = json_dumps unspaced_style v"

section \<open>Layouts\<close>

definition spaces :: "string \<Rightarrow> bool" where
  "spaces w \<longleftrightarrow> (\<forall>c \<in> set w. json_space c)"

fun container :: "json \<Rightarrow> bool" where
  "container (JArr xs) = (xs \<noteq> [])" | "container (JObj d) = (d \<noteq> [])" | "container _ = False"

inductive layout :: "string \<Rightarrow> json \<Rightarrow> bool"
  and element_layout :: "string \<Rightarrow> json list \<Rightarrow> bool"
  and member_layout :: "string \<Rightarrow> jobject \<Rightarrow> bool" where
  layout_scalar: "\<not> container v \<Longrightarrow> json_ok v \<Longrightarrow> layout (json_dumps unspaced_style v) v"
| layout_array: "element_layout t xs \<Longrightarrow> spaces w \<Longrightarrow> layout (CHR ''['' # w @ t @ [CHR '']'']) (JArr xs)"
| layout_object: "member_layout t d \<Longrightarrow> spaces w \<Longrightarrow> layout (CHR ''{'' # w @ t @ [CHR ''}'']) (JObj d)"
| layout_last: "layout t v \<Longrightarrow> spaces w \<Longrightarrow> element_layout (t @ w) [v]"
| layout_more: "layout t v \<Longrightarrow> spaces w \<Longrightarrow> element_layout s xs \<Longrightarrow> element_layout (t @ CHR '','' # w @ s) (v # xs)"
| layout_last_member: "layout t v \<Longrightarrow> spaces u \<Longrightarrow> spaces w \<Longrightarrow>
    member_layout (dump_string k @ CHR '':'' # u @ t @ w) [(k, v)]"
| layout_member: "layout t v \<Longrightarrow> spaces u \<Longrightarrow> spaces w \<Longrightarrow> member_layout s d \<Longrightarrow> k \<notin> fst ` set d \<Longrightarrow>
    member_layout (dump_string k @ CHR '':'' # u @ t @ CHR '','' # w @ s) ((k, v) # d)"

lemma plain_unspaced: "plain_style unspaced_style"
  by (simp add: plain_style_def unspaced_style_def)

lemma layout_clear:
  "layout t v \<Longrightarrow> clear_start t" "element_layout s xs \<Longrightarrow> clear_start s" "member_layout p d \<Longrightarrow> clear_start p"
proof (induction rule: layout_element_layout_member_layout.inducts)
  case (layout_scalar v)
  then show ?case by (intro dumps_clear)
qed (auto simp: clear_start_def dump_string_def json_space_def split: list.splits)

lemma skip_spaces: "spaces w \<Longrightarrow> clear_start t \<Longrightarrow> skip_ws (w @ t @ r) = t @ r"
  by (simp add: spaces_def skip_ws_spaces skip_ws_clear)

lemma skip_stop: "c \<in> {CHR '','', CHR '']'', CHR ''}'', CHR '':''} \<Longrightarrow> spaces w \<Longrightarrow> skip_ws (w @ c # s) = c # s"
  by (auto simp: spaces_def skip_ws_spaces skip_ws_Cons json_space_def)

lemma spaces_ends: "spaces w \<Longrightarrow> c \<in> {CHR '','', CHR '']'', CHR ''}''} \<Longrightarrow> number_ends (w @ c # s)"
  by (cases w) (auto simp: spaces_def space_ends number_ends_stop)

lemma not_closed:
  assumes "clear_start t" and "c \<in> {CHR '']'', CHR ''}''}" shows "expect c (t @ r) = None"
  using assms by (cases t) (auto simp: clear_start_def)

lemma read_member_step:
  assumes "read_value m (t @ q) = Some (v, q)" and "spaces u" and "clear_start t" and "k \<notin> fst ` set acc"
  shows "read_members (Suc m) acc (dump_string k @ CHR '':'' # u @ t @ q) =
    (case expect (CHR ''}'') (skip_ws q) of
       Some r \<Rightarrow> Some (JObj (acc @ [(k, v)]), r)
     | None \<Rightarrow> Option.bind (expect (CHR '','') (skip_ws q)) (\<lambda>s5. read_members m (acc @ [(k, v)]) (skip_ws s5)))"
proof -
  have "skip_ws (CHR '':'' # x) = CHR '':'' # x" for x
    by (simp add: skip_ws_Cons json_space_def)
  then show ?thesis
    using assms(1) skip_spaces [OF assms(2,3), of q] dict_set_fresh [OF assms(4), of v]
    by (simp add: read_members.simps dump_string_def read_string_dump cong: option.case_cong)
qed

lemma layout_reads:
  "layout t v \<Longrightarrow> length t \<le> n \<Longrightarrow> number_ends r \<Longrightarrow> read_value n (t @ r) = Some (v, r)"
  "element_layout s xs \<Longrightarrow> Suc (length s) \<le> n \<Longrightarrow> read_elements n acc (s @ CHR '']'' # r) = Some (JArr (acc @ xs), r)"
  "member_layout p d \<Longrightarrow> Suc (length p) \<le> n \<Longrightarrow> fst ` set d \<inter> fst ` set bcc = {} \<Longrightarrow>
     read_members n bcc (p @ CHR ''}'' # r) = Some (JObj (bcc @ d), r)"
proof (induction arbitrary: n r and n acc r and n bcc r rule: layout_element_layout_member_layout.inducts)
  case (layout_scalar v)
  have "json_fuel v \<le> n" using json_fuel_length [OF plain_unspaced layout_scalar.hyps(2)] layout_scalar.prems(1) by simp
  then show ?case by (intro read_value_dumps [OF plain_unspaced layout_scalar.hyps(2)] layout_scalar.prems(2))
next
  case (layout_array t xs w)
  from layout_array.prems(1) obtain m where n: "n = Suc m" "Suc (length t) \<le> m" by (cases n) auto
  have c: "clear_start t" using layout_array.hyps(1) by (rule layout_clear(2))
  have "skip_ws (w @ t @ CHR '']'' # r) = t @ CHR '']'' # r"
    by (rule skip_spaces [OF layout_array.hyps(2) c])
  then show ?case
    using layout_array.IH [OF n(2), of "[]" r] not_closed [OF c, of "CHR '']''" "CHR '']'' # r"] n(1)
    by (simp add: read_value.simps)
next
  case (layout_object t d w)
  from layout_object.prems(1) obtain m where n: "n = Suc m" "Suc (length t) \<le> m" by (cases n) auto
  have c: "clear_start t" using layout_object.hyps(1) by (rule layout_clear(3))
  have "skip_ws (w @ t @ CHR ''}'' # r) = t @ CHR ''}'' # r"
    by (rule skip_spaces [OF layout_object.hyps(2) c])
  then show ?case
    using layout_object.IH [OF n(2), of "[]" r] not_closed [OF c, of "CHR ''}''" "CHR ''}'' # r"] n(1)
    by (simp add: read_value.simps)
next
  case (layout_last t v w)
  from layout_last.prems obtain m where n: "n = Suc m" "length t \<le> m" by (cases n) auto
  have "read_value m (t @ w @ CHR '']'' # r) = Some (v, w @ CHR '']'' # r)"
    by (rule layout_last.IH [OF n(2) spaces_ends [OF layout_last.hyps(2)]]) simp
  then show ?case using skip_stop [of "CHR '']''" w r] layout_last.hyps(2) by (simp add: n(1) read_elements.simps)
next
  case (layout_more t v w s xs)
  from layout_more.prems obtain m where n: "n = Suc m" "length t \<le> m" "Suc (length s) \<le> m" by (cases n) auto
  have "read_value m (t @ CHR '','' # w @ s @ CHR '']'' # r) = Some (v, CHR '','' # w @ s @ CHR '']'' # r)"
    by (rule layout_more.IH(1) [OF n(2)]) (simp add: number_ends_stop)
  moreover have "skip_ws (w @ s @ CHR '']'' # r) = s @ CHR '']'' # r"
    by (rule skip_spaces [OF layout_more.hyps(2) layout_clear(2) [OF layout_more.hyps(3)]])
  ultimately show ?case using layout_more.IH(2) [OF n(3), of "acc @ [v]" r]
    by (simp add: n(1) read_elements.simps skip_ws_Cons json_space_def)
next
  case (layout_last_member t v u w k)
  from layout_last_member.prems(1) obtain m where n: "n = Suc m" "length t \<le> m" by (cases n) auto
  have "read_value m (t @ w @ CHR ''}'' # r) = Some (v, w @ CHR ''}'' # r)"
    by (rule layout_last_member.IH [OF n(2) spaces_ends [OF layout_last_member.hyps(3)]]) simp
  from read_member_step [OF this layout_last_member.hyps(2) layout_clear(1) [OF layout_last_member.hyps(1)], of k bcc]
  show ?case using layout_last_member.prems(2) skip_stop [of "CHR ''}''" w r] layout_last_member.hyps(3)
    by (simp add: n(1))
next
  case (layout_member t v u w s d k)
  from layout_member.prems(1) obtain m where n: "n = Suc m" "length t \<le> m" "Suc (length s) \<le> m" by (cases n) auto
  have "read_value m (t @ CHR '','' # w @ s @ CHR ''}'' # r) = Some (v, CHR '','' # w @ s @ CHR ''}'' # r)"
    by (rule layout_member.IH(1) [OF n(2)]) (simp add: number_ends_stop)
  note one = read_member_step [OF this layout_member.hyps(2) layout_clear(1) [OF layout_member.hyps(1)], of k bcc]
  have "skip_ws (w @ s @ CHR ''}'' # r) = s @ CHR ''}'' # r"
    by (rule skip_spaces [OF layout_member.hyps(3) layout_clear(3) [OF layout_member.hyps(4)]])
  moreover have "read_members m (bcc @ [(k, v)]) (s @ CHR ''}'' # r) = Some (JObj ((bcc @ [(k, v)]) @ d), r)"
    by (rule layout_member.IH(2) [OF n(3)]) (use layout_member.prems(2) layout_member.hyps(5) in auto)
  ultimately show ?case using one layout_member.prems(2)
    by (simp add: n(1) skip_ws_Cons json_space_def)
qed

lemma layout_loads:
  assumes "layout t v" and "spaces w" shows "json_loads (t @ w) = Some v"
proof -
  have "number_ends w" using assms(2) space_ends by (cases w) (simp_all add: spaces_def)
  then have "read_value (Suc (length (t @ w))) (t @ w) = Some (v, w)"
    by (intro layout_reads(1) [OF assms(1)]) simp_all
  moreover have "skip_ws (t @ w) = t @ w" by (rule skip_ws_clear [OF layout_clear(1) [OF assms(1)]])
  moreover have "skip_ws w = []" using assms(2) skip_ws_spaces [of w "[]"] by (simp add: spaces_def)
  ultimately show ?thesis by (simp add: json_loads_def)
qed

text \<open>What reading an indented document gives: the value with the keys of its objects sorted.\<close>

fun sorted_keys :: "json \<Rightarrow> json" where
  "sorted_keys (JArr xs) = JArr (map sorted_keys xs)"
| "sorted_keys (JObj d) = JObj (sort_key fst (map (\<lambda>kv. (fst kv, sorted_keys (snd kv))) d))"
| "sorted_keys v = v"

lemma spaces_line: "spaces (line_at n)"
  by (simp add: spaces_def line_at_def json_space_def)

lemma elements_indented:
  assumes "xs \<noteq> []" and "\<And>x. x \<in> set xs \<Longrightarrow> layout (f x) (g x)" and "spaces w" and "spaces w'"
  shows "element_layout (sep_list (CHR '','' # w) (map f xs) @ w') (map g xs)"
  using assms(1,2)
proof (induction xs rule: list_nonempty_induct)
  case (single x)
  then show ?case using assms(4) by (simp add: layout_last)
next
  case (cons x xs)
  then have "element_layout (f x @ CHR '','' # w @ sep_list (CHR '','' # w) (map f xs) @ w') (g x # map g xs)"
    using assms(3) by (intro layout_more) simp_all
  with cons.hyps show ?case by (simp add: sep_list_Cons)
qed

lemma members_indented:
  assumes "d \<noteq> []" and "\<And>kv. kv \<in> set d \<Longrightarrow> layout (f kv) (g kv)" and "distinct (map fst d)"
    and "spaces u" "spaces w" "spaces w'"
  shows "member_layout (sep_list (CHR '','' # w) (map (\<lambda>kv. dump_string (fst kv) @ CHR '':'' # u @ f kv) d) @ w')
    (map (\<lambda>kv. (fst kv, g kv)) d)"
  using assms(1-3)
proof (induction d rule: list_nonempty_induct)
  case (single kv)
  then show ?case using layout_last_member [of "f kv" "g kv" u w' "fst kv"] assms(4,6) by simp
next
  case (cons kv d)
  have "member_layout (dump_string (fst kv) @ CHR '':'' # u @ f kv @ CHR '','' # w @
     sep_list (CHR '','' # w) (map (\<lambda>kv. dump_string (fst kv) @ CHR '':'' # u @ f kv) d) @ w')
     ((fst kv, g kv) # map (\<lambda>kv. (fst kv, g kv)) d)"
    using cons assms(4,5) by (intro layout_member) (simp_all add: image_image)
  with cons.hyps show ?case by (simp add: sep_list_Cons)
qed

lemma insort_map: "insort_key fst (fst x, f x) (map (\<lambda>kv. (fst kv, f kv)) d) = map (\<lambda>kv. (fst kv, f kv)) (insort_key fst x d)"
  by (induction d) simp_all

lemma sort_key_map: "sort_key fst (map (\<lambda>kv. (fst kv, f kv)) d) = map (\<lambda>kv. (fst kv, f kv)) (sort_key fst d)"
  by (induction d) (simp_all add: insort_map)

lemma layout_indented: "json_ok v \<Longrightarrow> layout (indented n v) (sorted_keys v)"
proof (induction v arbitrary: n)
  case (JArr xs)
  show ?case
  proof (cases "xs = []")
    case True
    then show ?thesis using layout_scalar [of "JArr []"] by simp
  next
    case False
    have "element_layout (sep_list (CHR '','' # line_at (Suc n)) (map (indented (Suc n)) xs) @ line_at n) (map sorted_keys xs)"
      using JArr False by (intro elements_indented spaces_line) simp_all
    from layout_array [OF this spaces_line] False show ?thesis by simp
  qed
next
  case (JObj d)
  show ?case
  proof (cases "d = []")
    case True
    then show ?thesis using layout_scalar [of "JObj []"] by (simp add: unspaced_style_def)
  next
    case False
    define e where "e = sort_key fst d"
    have set_e: "set e = set d" by (simp add: e_def)
    then have e: "e \<noteq> []" "distinct (map fst e)" "set e = set d"
      using False JObj.prems set_empty [of e] by (simp_all add: e_def distinct_map distinct_sort)
    have "member_layout (sep_list (CHR '','' # line_at (Suc n))
        (map (\<lambda>kv. dump_string (fst kv) @ CHR '':'' # '' '' @ indented (Suc n) (snd kv)) e) @ line_at n)
        (map (\<lambda>kv. (fst kv, sorted_keys (snd kv))) e)"
    proof (rule members_indented [OF e(1) _ e(2)])
      show "layout (indented (Suc n) (snd kv)) (sorted_keys (snd kv))" if "kv \<in> set e" for kv
        using JObj.IH [of kv "snd kv"] JObj.prems that e(3) by (cases kv) auto
    qed (rule spaces_line | simp add: spaces_def json_space_def)+
    from layout_object [OF this spaces_line, of "Suc n"] False show ?thesis
      by (simp add: e_def sort_key_map comp_def)
  qed
qed (simp_all add: layout_scalar del: json_dumps.simps)

lemma loads_indented:
  assumes "json_ok v" and "spaces w" shows "json_loads (indented n v @ w) = Some (sorted_keys v)"
  by (rule layout_loads [OF layout_indented [OF assms(1)] assms(2)])

end
