(* ===== verification/Settings.thy ===== *)
theory Settings
  imports JsonLayout SessionFile Retry
begin

text \<open>
  Layered settings (\<^verbatim>\<open>src/pi_agent/coding_agent/settings.py\<close>): the table of settings with
  their coercions and validations, the resolution of the layers (defaults, global file, project
  file, environment, command line, runtime), and the saved documents.  A raw value is a JSON value:
  what a file, the environment or a caller's plain data can give.  The TOML reader and the texts of
  decoding errors are parameters.
\<close>

section \<open>Values, origins and errors\<close>

datatype setting =
    SNone
  | SBool bool
  | SInt int
  | SFloat pyfloat
  | SStr string
  | STuple "string list"
  | SMap "(string \<times> string) list"

datatype layer = Default | Global | Project | Environment | Cli | Runtime

record setting_origin =
  og_layer :: layer
  og_location :: string
  og_key :: string

record settings_warning =
  wn_code :: string
  wn_message :: string
  wn_location :: "string option"

text \<open>\<^verbatim>\<open>SettingsError\<close>, or an exception of another class that is not caught.\<close>

datatype settings_exn = SettingsError string | Raised exn

record setting_spec =
  sp_default :: setting
  sp_coerce :: "json \<Rightarrow> (settings_exn, setting) result"
  sp_validate :: "setting \<Rightarrow> bool"

section \<open>Coercions\<close>

definition refuse :: "string \<Rightarrow> (settings_exn, 'a) result" where
  "refuse why = Inl (SettingsError why)"

definition optional_text :: "json \<Rightarrow> (settings_exn, setting) result" where
  "optional_text v = (case v of
       JNull \<Rightarrow> Inr SNone
     | JStr s \<Rightarrow> Inr (if s = [] then SNone else SStr s)
     | _ \<Rightarrow> refuse ''must be a string or null'')"

definition nonempty_string :: "json \<Rightarrow> (settings_exn, setting) result" where
  "nonempty_string v = (case v of
       JStr s \<Rightarrow> if s = [] then refuse ''must be a non-empty string'' else Inr (SStr s)
     | _ \<Rightarrow> refuse ''must be a non-empty string'')"

definition boolean :: "json \<Rightarrow> (settings_exn, setting) result" where
  "boolean v = (case v of
       JBool b \<Rightarrow> Inr (SBool b)
     | JStr s \<Rightarrow>
         (let lowered = lower (strip s) in
          if lowered \<in> {''1'', ''true'', ''yes'', ''on''} then Inr (SBool True)
          else if lowered \<in> {''0'', ''false'', ''no'', ''off''} then Inr (SBool False)
          else refuse ''must be a boolean'')
     | _ \<Rightarrow> refuse ''must be a boolean'')"

text \<open>\<^verbatim>\<open>except (TypeError, ValueError)\<close>; an \<^verbatim>\<open>OverflowError\<close> is neither.\<close>

definition catch_conversion :: "string \<Rightarrow> (exn, 'a) result \<Rightarrow> (settings_exn, 'a) result" where
  "catch_conversion why r = (case r of
       Inr x \<Rightarrow> Inr x
     | Inl e \<Rightarrow> if exn_class e = TypeError \<or> is_value_error e then refuse why else Inl (Raised e))"

definition integer :: "json \<Rightarrow> (settings_exn, setting) result" where
  "integer v = (case v of
       JBool _ \<Rightarrow> refuse ''must be an integer''
     | _ \<Rightarrow> bindE (catch_conversion ''must be an integer'' (py_int v)) (\<lambda>i. Inr (SInt i)))"

definition float_number :: "json \<Rightarrow> (settings_exn, setting) result" where
  "float_number v = (case v of
       JBool _ \<Rightarrow> refuse ''must be a number''
     | _ \<Rightarrow> bindE (catch_conversion ''must be a number'' (py_float v)) (\<lambda>f. Inr (SFloat f)))"

definition optional_float :: "json \<Rightarrow> (settings_exn, setting) result" where
  "optional_float v = (if v = JNull \<or> v = JStr [] then Inr SNone else float_number v)"

fun strings_of :: "json list \<Rightarrow> string list option" where
  "strings_of [] = Some []"
| "strings_of (JStr s # vs) = map_option (Cons s) (strings_of vs)"
| "strings_of _ = None"

definition string_tuple :: "json \<Rightarrow> (settings_exn, setting) result" where
  "string_tuple v = (case v of
       JStr s \<Rightarrow> Inr (STuple (filter (\<lambda>x. x \<noteq> []) (map strip (split_on (CHR '','') s))))
     | JArr vs \<Rightarrow> (case strings_of vs of
           Some ss \<Rightarrow> Inr (STuple ss) | None \<Rightarrow> refuse ''must be a string list'')
     | _ \<Rightarrow> refuse ''must be a string list'')"

fun string_items :: "jobject \<Rightarrow> (string \<times> string) list option" where
  "string_items [] = Some []"
| "string_items ((k, JStr s) # d) = map_option (Cons (k, s)) (string_items d)"
| "string_items _ = None"

definition object_of_strings :: "json \<Rightarrow> (settings_exn, setting) result" where
  "object_of_strings v = (case v of
       JObj d \<Rightarrow> (case string_items d of
           Some m \<Rightarrow> Inr (SMap m) | None \<Rightarrow> refuse ''must be an object of strings'')
     | _ \<Rightarrow> refuse ''must be an object of strings'')"

definition string_map :: "json \<Rightarrow> (settings_exn, setting) result" where
  "string_map v = (case v of
       JStr s \<Rightarrow> (case json_loads s of
           None \<Rightarrow> refuse ''must be a JSON object of strings'' | Some w \<Rightarrow> object_of_strings w)
     | _ \<Rightarrow> object_of_strings v)"

section \<open>The table\<close>

fun number_of :: "setting \<Rightarrow> pyfloat option" where
  "number_of (SInt i) = Some (Fin (of_int i))"
| "number_of (SFloat f) = Some f"
| "number_of (SBool b) = Some (Fin (if b then 1 else 0))"
| "number_of _ = None"

definition above_zero :: "setting \<Rightarrow> bool" where
  "above_zero v = (case number_of v of Some f \<Rightarrow> pf_less (Fin 0) f | None \<Rightarrow> False)"

definition from_zero :: "setting \<Rightarrow> bool" where
  "from_zero v = (case number_of v of Some f \<Rightarrow> pf_less (Fin 0) f \<or> pf_eq (Fin 0) f | None \<Rightarrow> False)"

definition always :: "setting \<Rightarrow> bool" where "always v = True"

definition one_of :: "string list \<Rightarrow> setting \<Rightarrow> bool" where
  "one_of allowed v = (case v of SStr s \<Rightarrow> s \<in> set allowed | _ \<Rightarrow> False)"

definition none_or_above_zero :: "setting \<Rightarrow> bool" where
  "none_or_above_zero v \<longleftrightarrow> v = SNone \<or> above_zero v"

abbreviation setting_row :: "setting \<Rightarrow> (json \<Rightarrow> (settings_exn, setting) result) \<Rightarrow> (setting \<Rightarrow> bool) \<Rightarrow> setting_spec" where
  "setting_row d c p \<equiv> \<lparr>sp_default = d, sp_coerce = c, sp_validate = p\<rparr>"

definition DEFAULT_SPECS :: "(string \<times> setting_spec) list" where
  "DEFAULT_SPECS =
    [(''model.provider'', setting_row SNone optional_text always),
     (''model.id'', setting_row SNone optional_text always),
     (''thinking.level'', setting_row (SStr ''off'') nonempty_string
        (one_of [''off'', ''minimal'', ''low'', ''medium'', ''high'', ''xhigh'', ''max''])),
     (''provider.transport'', setting_row (SStr ''auto'') nonempty_string
        (one_of [''auto'', ''sse'', ''websocket'', ''websocket-cached''])),
     (''provider.timeout_seconds'', setting_row (SFloat (Fin 600)) float_number above_zero),
     (''provider.stream_idle_timeout_seconds'', setting_row SNone optional_float none_or_above_zero),
     (''provider.max_retries'', setting_row (SInt 2) integer from_zero),
     (''provider.max_retry_delay_seconds'', setting_row (SFloat (Fin 60)) float_number from_zero),
     (''compaction.enabled'', setting_row (SBool True) boolean always),
     (''compaction.reserve_tokens'', setting_row (SInt 16384) integer from_zero),
     (''compaction.keep_recent_tokens'', setting_row (SInt 20000) integer above_zero),
     (''tools.enabled'', setting_row (STuple [''read'', ''write'', ''edit'', ''bash'']) string_tuple always),
     (''tools.timeout_seconds'', setting_row (SFloat (Fin 120)) float_number above_zero),
     (''resources.user_root'', setting_row (SStr ''~/.pi/agent'') nonempty_string always),
     (''resources.project_dir_name'', setting_row (SStr ''.pi'') nonempty_string always),
     (''resources.include'', setting_row (STuple []) string_tuple always),
     (''resources.exclude'', setting_row (STuple [''**/.git/**'', ''**/__pycache__/**'']) string_tuple always),
     (''resources.follow_symlinks'', setting_row (SBool False) boolean always),
     (''packages.enabled'', setting_row (STuple []) string_tuple always),
     (''packages.root'', setting_row (SStr ''~/.pi/agent'') nonempty_string always),
     (''packages.auto_load'', setting_row (SBool True) boolean always),
     (''auth.file'', setting_row (SStr ''~/.pi/agent/auth.json'') nonempty_string always),
     (''models.snapshot_file'', setting_row (SStr ''~/.pi/agent/models.json'') nonempty_string always),
     (''extensions.enabled'', setting_row (SBool True) boolean always),
     (''extensions.trusted_project'', setting_row (STuple []) string_tuple always),
     (''session.enabled'', setting_row (SBool True) boolean always),
     (''session.directory'', setting_row (SStr ''~/.pi/agent/sessions'') nonempty_string always),
     (''session.fsync'', setting_row (SBool False) boolean always),
     (''ui.theme'', setting_row SNone optional_text always),
     (''ui.keybindings'', setting_row (SMap []) string_map always),
     (''telemetry.enabled'', setting_row (SBool False) boolean always),
     (''telemetry.exporter'', setting_row (SStr ''none'') nonempty_string always)]"

definition DEFAULT_ENV_KEYS :: "(string \<times> string) list" where
  "DEFAULT_ENV_KEYS =
    [(''PI_MODEL_PROVIDER'', ''model.provider''), (''PI_MODEL'', ''model.id''),
     (''PI_THINKING_LEVEL'', ''thinking.level''), (''PI_PROVIDER_TRANSPORT'', ''provider.transport''),
     (''PI_PROVIDER_TIMEOUT'', ''provider.timeout_seconds''),
     (''PI_PROVIDER_STREAM_IDLE_TIMEOUT'', ''provider.stream_idle_timeout_seconds''),
     (''PI_PROVIDER_MAX_RETRIES'', ''provider.max_retries''),
     (''PI_COMPACTION_ENABLED'', ''compaction.enabled''),
     (''PI_COMPACTION_RESERVE_TOKENS'', ''compaction.reserve_tokens''),
     (''PI_COMPACTION_KEEP_RECENT_TOKENS'', ''compaction.keep_recent_tokens''),
     (''PI_TOOLS'', ''tools.enabled''), (''PI_TOOL_TIMEOUT'', ''tools.timeout_seconds''),
     (''PI_RESOURCE_USER_ROOT'', ''resources.user_root''),
     (''PI_RESOURCE_PROJECT_DIR'', ''resources.project_dir_name''),
     (''PI_SESSION_DIR'', ''session.directory''), (''PI_SESSION_ENABLED'', ''session.enabled''),
     (''PI_THEME'', ''ui.theme''), (''PI_EXTENSIONS_ENABLED'', ''extensions.enabled''),
     (''PI_PACKAGES_ROOT'', ''packages.root''), (''PI_PACKAGES_AUTO_LOAD'', ''packages.auto_load''),
     (''PI_TELEMETRY_ENABLED'', ''telemetry.enabled'')]"

section \<open>Nested and flat keys\<close>

definition sub_key :: "string \<Rightarrow> string \<Rightarrow> string" where
  "sub_key pre key = (if pre = [] then key else pre @ ''.'' @ key)"

fun flatten_item :: "string \<Rightarrow> json \<Rightarrow> jobject"
and flatten :: "string \<Rightarrow> jobject \<Rightarrow> jobject \<Rightarrow> jobject" where
  "flatten_item full (JObj d) =
     (if full \<in> fst ` set DEFAULT_SPECS then [(full, JObj d)] else flatten full [] d)"
| "flatten_item full v = [(full, v)]"
| "flatten pre result [] = result"
| "flatten pre result ((key, item) # d) =
     flatten pre (fold (\<lambda>kv. dict_set (fst kv) (snd kv)) (flatten_item (sub_key pre key) item) result) d"

fun assign_nested :: "jobject \<Rightarrow> string list \<Rightarrow> json \<Rightarrow> jobject" where
  "assign_nested t [] v = t"
| "assign_nested t [p] v = dict_set p v t"
| "assign_nested t (p # ps) v =
     dict_set p (JObj (assign_nested (case map_of t p of Some (JObj c) \<Rightarrow> c | _ \<Rightarrow> []) ps v)) t"

definition dotted :: "string \<Rightarrow> string list" where
  "dotted key = split_on (CHR ''.'') key"

definition nested_from_input :: "jobject \<Rightarrow> jobject" where
  "nested_from_input d =
     (if \<exists>kv \<in> set d. CHR ''.'' \<in> set (fst kv)
      then fold (\<lambda>kv t. assign_nested t (dotted (fst kv)) (snd kv)) d []
      else fold (\<lambda>kv. dict_set (fst kv) (snd kv)) d [])"

text \<open>\<^verbatim>\<open>_serializable_value\<close>: the JSON value a setting is stored as.\<close>

fun setting_json :: "setting \<Rightarrow> json" where
  "setting_json SNone = JNull"
| "setting_json (SBool b) = JBool b"
| "setting_json (SInt i) = JInt i"
| "setting_json (SFloat f) = JFloat f"
| "setting_json (SStr s) = JStr s"
| "setting_json (STuple ss) = JArr (map JStr ss)"
| "setting_json (SMap m) = JObj (map (\<lambda>kv. (fst kv, JStr (snd kv))) m)"

section \<open>Layers\<close>

record settings_state =
  st_values :: "(string \<times> setting) list"
  st_origins :: "(string \<times> setting_origin) list"
  st_warnings :: "settings_warning list"

type_synonym specs = "(string \<times> setting_spec) list"

definition default_settings :: "specs \<Rightarrow> settings_state" where
  "default_settings specs =
     \<lparr>st_values = map (\<lambda>ks. (fst ks, sp_default (snd ks))) specs,
      st_origins = map (\<lambda>ks. (fst ks, \<lparr>og_layer = Default, og_location = ''built-in'', og_key = fst ks\<rparr>)) specs,
      st_warnings = []\<rparr>"

text \<open>One item of a layer; the second component collects the errors of the layer.\<close>

definition apply_item ::
  "specs \<Rightarrow> layer \<Rightarrow> string \<Rightarrow> bool \<Rightarrow> string \<times> json \<Rightarrow> settings_state \<times> string list \<Rightarrow>
   (settings_exn, settings_state \<times> string list) result" where
  "apply_item specs ly location strict kv = (\<lambda>(st, errors).
     (let key = fst kv; raw = snd kv in
      case map_of specs key of
        None \<Rightarrow>
          (let message = ''unknown setting '' @ py_repr_str key @ '' in '' @ location in
           Inr (if strict then (st, errors @ [message])
                else (st\<lparr>st_warnings := st_warnings st @
                   [\<lparr>wn_code = ''unknown_setting'', wn_message = message, wn_location = Some location\<rparr>]\<rparr>, errors)))
      | Some sp \<Rightarrow>
          (case sp_coerce sp raw of
             Inl (Raised e) \<Rightarrow> Inl (Raised e)
           | Inl (SettingsError why) \<Rightarrow> Inr (st, errors @ [key @ '' in '' @ location @ '' '' @ why])
           | Inr value \<Rightarrow>
               if \<not> sp_validate sp value then
                 Inr (st, errors @ [key @ '' in '' @ location @ '' has an invalid value: '' @ py_repr raw])
               else Inr (st\<lparr>st_values := dict_set key value (st_values st),
                   st_origins := dict_set key \<lparr>og_layer = ly, og_location = location, og_key = key\<rparr> (st_origins st)\<rparr>,
                 errors))))"

fun apply_items ::
  "specs \<Rightarrow> layer \<Rightarrow> string \<Rightarrow> bool \<Rightarrow> jobject \<Rightarrow> settings_state \<times> string list \<Rightarrow>
   (settings_exn, settings_state \<times> string list) result" where
  "apply_items specs ly location strict [] acc = Inr acc"
| "apply_items specs ly location strict (kv # d) acc =
     bindE (apply_item specs ly location strict kv acc) (apply_items specs ly location strict d)"

definition apply_mapping ::
  "specs \<Rightarrow> jobject \<Rightarrow> layer \<Rightarrow> string \<Rightarrow> bool \<Rightarrow> settings_state \<Rightarrow> (settings_exn, settings_state) result" where
  "apply_mapping specs mapping ly location strict st =
     bindE (apply_items specs ly location strict mapping (st, [])) (\<lambda>(st', errors).
       if errors = [] then Inr st' else Inl (SettingsError (sep_list ''; '' errors)))"

section \<open>Files\<close>

text \<open>What a path holds: nothing, something that cannot be read (with the text of the error), or
  bytes.\<close>

datatype file_state = Missing | Unreadable string | Contents string

record settings_file =
  fi_path :: string
  fi_state :: file_state

text \<open>Texts of decoding errors, and the TOML reader (an error text, or the document).\<close>

record settings_env =
  se_unicode_error :: "string \<Rightarrow> string"
  se_json_error :: "string \<Rightarrow> string"
  se_toml :: "string \<Rightarrow> (string, jobject) result"

definition is_toml :: "string \<Rightarrow> bool" where
  "is_toml path =
     (let name = last (split_on (CHR ''/'') path) in
      5 < length name \<and> lower (drop (length name - 5) name) = ''.toml'')"

definition load_settings_file :: "settings_env \<Rightarrow> settings_file \<Rightarrow> (settings_exn, jobject) result" where
  "load_settings_file env fi =
     (let path = fi_path fi;
          invalid = (\<lambda>why. Inl (SettingsError (''invalid settings file '' @ path @ '': '' @ why))) in
      case fi_state fi of
        Missing \<Rightarrow> Inl (SettingsError (''could not read settings file '' @ path @ '': no such file''))
      | Unreadable why \<Rightarrow> Inl (SettingsError (''could not read settings file '' @ path @ '': '' @ why))
      | Contents data \<Rightarrow>
          if \<not> utf8_valid data then invalid (se_unicode_error env data)
          else if is_toml path then
            (case se_toml env data of Inl why \<Rightarrow> invalid why | Inr d \<Rightarrow> Inr d)
          else (case json_loads data of
              None \<Rightarrow> invalid (se_json_error env data)
            | Some (JObj d) \<Rightarrow> Inr d
            | Some _ \<Rightarrow> Inl (SettingsError (''settings file '' @ path @ '' must contain an object''))))"

definition apply_file ::
  "specs \<Rightarrow> settings_env \<Rightarrow> settings_file option \<Rightarrow> layer \<Rightarrow> bool \<Rightarrow> settings_state \<Rightarrow>
   (settings_exn, settings_state) result" where
  "apply_file specs env file ly strict st = (case file of
       None \<Rightarrow> Inr st
     | Some fi \<Rightarrow>
         if fi_state fi = Missing then Inr st
         else bindE (load_settings_file env fi) (\<lambda>mapping.
           apply_mapping specs (flatten [] [] mapping) ly (fi_path fi) strict st))"

section \<open>Resolution\<close>

record layers =
  la_global :: "settings_file option"
  la_project :: "settings_file option"
  la_environ :: "(string \<times> string) list"
  la_cli :: jobject
  la_runtime :: jobject
  la_strict :: bool

definition environment_settings :: "(string \<times> string) list \<Rightarrow> (string \<times> string) list \<Rightarrow> jobject" where
  "environment_settings env_keys environ =
     fold (\<lambda>nk d. case map_of environ (fst nk) of None \<Rightarrow> d | Some v \<Rightarrow> dict_set (snd nk) (JStr v) d) env_keys []"

definition cross_fields :: "settings_state \<Rightarrow> (settings_exn, unit) result" where
  "cross_fields st =
     (case map_of (st_values st) ''compaction.keep_recent_tokens'' of
        None \<Rightarrow> Inl (Raised (Exn KeyError ''compaction.keep_recent_tokens''))
      | Some k \<Rightarrow> (case map_of (st_values st) ''compaction.reserve_tokens'' of
            None \<Rightarrow> Inl (Raised (Exn KeyError ''compaction.reserve_tokens''))
          | Some r \<Rightarrow> (case (number_of k, number_of r) of
                (Some a, Some b) \<Rightarrow>
                  if pf_less a b \<or> pf_eq a b then
                    Inl (SettingsError ''compaction.keep_recent_tokens must be greater than compaction.reserve_tokens'')
                  else Inr ()
              | _ \<Rightarrow> Inl (Raised (Exn TypeError ''not supported between these instances'')))))"

definition resolve ::
  "specs \<Rightarrow> (string \<times> string) list \<Rightarrow> settings_env \<Rightarrow> layers \<Rightarrow> (settings_exn, settings_state) result" where
  "resolve specs env_keys env ls =
     bindE (apply_file specs env (la_global ls) Global (la_strict ls) (default_settings specs)) (\<lambda>st.
     bindE (apply_file specs env (la_project ls) Project (la_strict ls) st) (\<lambda>st.
     bindE (apply_mapping specs (environment_settings env_keys (la_environ ls)) Environment ''environment''
              (la_strict ls) st) (\<lambda>st.
     bindE (if la_cli ls = [] then Inr st
            else apply_mapping specs (flatten [] [] (la_cli ls)) Cli ''command line'' (la_strict ls) st) (\<lambda>st.
     bindE (if la_runtime ls = [] then Inr st
            else apply_mapping specs (flatten [] [] (la_runtime ls)) Runtime ''runtime override'' (la_strict ls) st) (\<lambda>st.
     bindE (cross_fields st) (\<lambda>_. Inr st))))))"

section \<open>Snapshots\<close>

definition snapshot_require :: "settings_state \<Rightarrow> string \<Rightarrow> (exn, setting) result" where
  "snapshot_require st key = (case map_of (st_values st) key of
       Some v \<Rightarrow> Inr v | None \<Rightarrow> Inl (Exn KeyError (py_repr_str key)))"

definition snapshot_source :: "settings_state \<Rightarrow> string \<Rightarrow> (exn, setting_origin) result" where
  "snapshot_source st key = (case map_of (st_origins st) key of
       Some v \<Rightarrow> Inr v | None \<Rightarrow> Inl (Exn KeyError (py_repr_str (''unknown setting: '' @ key))))"

definition snapshot_flat :: "settings_state \<Rightarrow> jobject" where
  "snapshot_flat st = map (\<lambda>kv. (fst kv, setting_json (snd kv))) (st_values st)"

definition snapshot_nested :: "settings_state \<Rightarrow> jobject" where
  "snapshot_nested st = fold (\<lambda>kv t. assign_nested t (dotted (fst kv)) (snd kv)) (snapshot_flat st) []"

section \<open>Saved documents\<close>

fun toml_value :: "json \<Rightarrow> (settings_exn, string) result"
and toml_values :: "json list \<Rightarrow> (settings_exn, string list) result"
and toml_items :: "jobject \<Rightarrow> (settings_exn, string list) result" where
  "toml_value JNull = Inl (SettingsError ''TOML cannot persist null values'')"
| "toml_value (JBool b) = Inr (if b then ''true'' else ''false'')"
| "toml_value (JInt i) = Inr (py_str_int i)"
| "toml_value (JFloat f) = Inr (py_repr_float f)"
| "toml_value (JStr s) = Inr (dump_string s)"
| "toml_value (JArr vs) = bindE (toml_values vs) (\<lambda>ts. Inr (''['' @ sep_list '', '' ts @ '']''))"
| "toml_value (JObj d) = bindE (toml_items d) (\<lambda>ts. Inr (''{ '' @ sep_list '', '' ts @ '' }''))"
| "toml_values [] = Inr []"
| "toml_values (v # vs) = bindE (toml_value v) (\<lambda>t. bindE (toml_values vs) (\<lambda>ts. Inr (t # ts)))"
| "toml_items [] = Inr []"
| "toml_items ((k, v) # d) =
     bindE (toml_value v) (\<lambda>t. bindE (toml_items d) (\<lambda>ts. Inr ((k @ '' = '' @ t) # ts)))"

text \<open>The lines of a section; a table inside it is refused.\<close>

fun section_lines :: "jobject \<Rightarrow> string list \<Rightarrow> (settings_exn, string list) result" where
  "section_lines [] lines = Inr lines"
| "section_lines ((k, v) # d) lines =
     (if is_JObj v then Inl (SettingsError ''nested TOML tables deeper than one level are not supported'')
      else bindE (toml_value v) (\<lambda>t. section_lines d (lines @ [k @ '' = '' @ t])))"

fun toml_sections :: "jobject \<Rightarrow> string list \<Rightarrow> (settings_exn, string list) result" where
  "toml_sections [] lines = Inr lines"
| "toml_sections ((k, v) # d) lines = (case v of
       JObj m \<Rightarrow> bindE (section_lines m ((if lines = [] then [] else lines @ [[]]) @ [''['' @ k @ '']'']))
                   (toml_sections d)
     | _ \<Rightarrow> toml_sections d lines)"

definition toml_document :: "jobject \<Rightarrow> (settings_exn, string) result" where
  "toml_document d =
     bindE (section_lines (filter (\<lambda>kv. \<not> is_JObj (snd kv)) d) []) (\<lambda>lines.
     bindE (toml_sections d lines) (\<lambda>lines. Inr (join_with (CHR 0x0A) lines @ [CHR 0x0A])))"

definition settings_document :: "string \<Rightarrow> jobject \<Rightarrow> (settings_exn, string) result" where
  "settings_document path values =
     (let nested = nested_from_input values in
      if is_toml path then toml_document nested else Inr (indented 0 (JObj nested) @ [CHR 0x0A]))"

text \<open>The temporary file replaces the old one in a single step, or nothing changes.\<close>

definition save_settings_file :: "settings_file \<Rightarrow> jobject \<Rightarrow> (settings_exn, settings_file) result" where
  "save_settings_file fi values =
     bindE (settings_document (fi_path fi) values) (\<lambda>content.
       if utf8_valid content then Inr (fi\<lparr>fi_state := Contents content\<rparr>)
       else Inl (Raised (Exn ValueError ''surrogates not allowed'')))"

end
