(* ===== verification/SettingsCorrect.thy ===== *)
theory SettingsCorrect
  imports Settings SessionFileCorrect
begin

text \<open>
  Resolved settings: where each value comes from, that it has the declared type, and that a saved
  snapshot resolves to the same values.
\<close>

section \<open>The layers of a resolution\<close>

type_synonym layer_map = "layer \<times> string \<times> jobject"

definition file_layer :: "settings_env \<Rightarrow> settings_file option \<Rightarrow> layer \<Rightarrow> layer_map list" where
  "file_layer env source ly = (case source of
       None \<Rightarrow> []
     | Some fi \<Rightarrow> if fi_state fi = Missing then [] else (case load_settings_file env fi of
           Inl _ \<Rightarrow> [] | Inr d \<Rightarrow> [(ly, fi_path fi, flatten [] [] d)]))"

definition layer_maps :: "(string \<times> string) list \<Rightarrow> settings_env \<Rightarrow> layers \<Rightarrow> layer_map list" where
  "layer_maps env_keys env ls =
     file_layer env (la_global ls) Global @ file_layer env (la_project ls) Project @
     [(Environment, ''environment'', environment_settings env_keys (la_environ ls))] @
     (if la_cli ls = [] then [] else [(Cli, ''command line'', flatten [] [] (la_cli ls))]) @
     (if la_runtime ls = [] then [] else [(Runtime, ''runtime override'', flatten [] [] (la_runtime ls))])"

text \<open>The last layer that mentions a key, and what it says.\<close>

definition last_layer :: "layer_map list \<Rightarrow> string \<Rightarrow> (layer \<times> string \<times> json) option" where
  "last_layer maps k =
     fold (\<lambda>(ly, loc, m) acc. case map_of m k of None \<Rightarrow> acc | Some raw \<Rightarrow> Some (ly, loc, raw)) maps None"

lemma last_layer_simps [simp]:
  "last_layer [] k = None"
  "last_layer (maps @ [(ly, loc, m)]) k = (case map_of m k of None \<Rightarrow> last_layer maps k | Some raw \<Rightarrow> Some (ly, loc, raw))"
  by (simp_all add: last_layer_def cong: option.case_cong)

lemma last_layer_item:
  "fst kv \<notin> fst ` set m \<Longrightarrow> last_layer (maps @ [(ly, loc, m @ [kv])]) k =
     (if k = fst kv then Some (ly, loc, snd kv) else last_layer (maps @ [(ly, loc, m)]) k)"
  using map_of_eq_None_iff [of m "fst kv"] by (cases kv; cases "map_of m k") (auto simp: map_add_def)

lemma keys_dict_set_present: "k \<in> fst ` set d \<Longrightarrow> map fst (dict_set k v d) = map fst d"
  by (induction k v d rule: dict_set.induct) (auto simp: image_iff)

section \<open>One layer\<close>

text \<open>What one item leaves behind when its layer has no error.\<close>

definition item_effect :: "specs \<Rightarrow> layer \<Rightarrow> string \<Rightarrow> bool \<Rightarrow> string \<times> json \<Rightarrow> settings_state \<Rightarrow> settings_state \<Rightarrow> bool" where
  "item_effect specs ly loc strict kv st st' \<longleftrightarrow> (case map_of specs (fst kv) of
       None \<Rightarrow> \<not> strict \<and> st_values st' = st_values st \<and> st_origins st' = st_origins st
     | Some sp \<Rightarrow> \<exists>v. sp_coerce sp (snd kv) = Inr v \<and> sp_validate sp v \<and>
         st_values st' = dict_set (fst kv) v (st_values st) \<and>
         st_origins st' = dict_set (fst kv) \<lparr>og_layer = ly, og_location = loc, og_key = fst kv\<rparr> (st_origins st))"

lemma apply_item_effect:
  assumes "apply_item specs ly loc strict kv (st, es) = Inr (st', [])"
  shows "es = [] \<and> item_effect specs ly loc strict kv st st'"
  using assms
  by (auto simp: apply_item_def item_effect_def Let_def split: option.splits sum.splits settings_exn.splits if_splits)

lemma apply_item_errors:
  assumes "apply_item specs ly loc strict kv (st, es) = Inr (st', es')"
  shows "\<exists>e. es' = es @ e"
  using assms by (auto simp: apply_item_def Let_def split: option.splits sum.splits settings_exn.splits if_splits)

lemma apply_items_errors:
  "apply_items specs ly loc strict d (st, es) = Inr (st', es') \<Longrightarrow> \<exists>e. es' = es @ e"
proof (induction d arbitrary: st es)
  case (Cons kv d)
  then obtain s1 e1 where "apply_item specs ly loc strict kv (st, es) = Inr (s1, e1)"
    "apply_items specs ly loc strict d (s1, e1) = Inr (st', es')"
    by (auto simp: bindE_eq_Inr)
  with Cons.IH [of s1 e1] apply_item_errors show ?case by fastforce
qed simp

lemma apply_items_effects:
  assumes "apply_items specs ly loc strict (kv # d) (st, es) = Inr (st', [])"
  shows "es = [] \<and> (\<exists>s1. item_effect specs ly loc strict kv st s1 \<and> apply_items specs ly loc strict d (s1, []) = Inr (st', []))"
proof -
  from assms obtain s1 e1 where s1: "apply_item specs ly loc strict kv (st, es) = Inr (s1, e1)"
    "apply_items specs ly loc strict d (s1, e1) = Inr (st', [])"
    by (auto simp: bindE_eq_Inr)
  then have "e1 = []" using apply_items_errors by fastforce
  with s1 apply_item_effect show ?thesis by blast
qed

text \<open>The meaning of the state after some layers.\<close>

definition value_from :: "setting_spec \<Rightarrow> string \<Rightarrow> (layer \<times> string \<times> json) option \<Rightarrow> setting option \<Rightarrow> setting_origin option \<Rightarrow> bool" where
  "value_from sp k src v og \<longleftrightarrow> (case src of
       None \<Rightarrow> v = Some (sp_default sp) \<and> og = Some \<lparr>og_layer = Default, og_location = ''built-in'', og_key = k\<rparr>
     | Some (ly, loc, raw) \<Rightarrow> (\<exists>x. sp_coerce sp raw = Inr x \<and> sp_validate sp x \<and> v = Some x) \<and>
         og = Some \<lparr>og_layer = ly, og_location = loc, og_key = k\<rparr>)"

definition explained :: "specs \<Rightarrow> bool \<Rightarrow> layer_map list \<Rightarrow> settings_state \<Rightarrow> bool" where
  "explained specs strict maps st \<longleftrightarrow>
     map fst (st_values st) = map fst specs \<and> map fst (st_origins st) = map fst specs \<and>
     (strict \<longrightarrow> (\<forall>(ly, loc, m) \<in> set maps. fst ` set m \<subseteq> fst ` set specs)) \<and>
     (\<forall>k sp. map_of specs k = Some sp \<longrightarrow>
        value_from sp k (last_layer maps k) (map_of (st_values st) k) (map_of (st_origins st) k))"

lemma explained_default: "explained specs strict [] (default_settings specs)"
proof -
  have "map_of (map (\<lambda>ks. (fst ks, f ks)) specs) k = Some (f (k, sp))" if "map_of specs k = Some sp" for f k sp
    using that by (induction specs) auto
  from this [of _ _ "\<lambda>ks. sp_default (snd ks)"] this [of _ _ "\<lambda>ks. \<lparr>og_layer = Default, og_location = ''built-in'', og_key = fst ks\<rparr>"]
  show ?thesis by (simp add: explained_def default_settings_def value_from_def comp_def)
qed

lemma explained_item:
  assumes "explained specs strict (maps @ [(ly, loc, m)]) st" and "item_effect specs ly loc strict kv st st'"
    and "fst kv \<notin> fst ` set m"
  shows "explained specs strict (maps @ [(ly, loc, m @ [kv])]) st'"
proof (cases "map_of specs (fst kv)")
  case None
  with assms(2) have "\<not> strict" "st_values st' = st_values st" "st_origins st' = st_origins st"
    by (simp_all add: item_effect_def)
  with assms(1) None show ?thesis
    by (auto simp: explained_def last_layer_item [OF assms(3)] simp del: last_layer_simps)
next
  case (Some sp)
  then have mem: "fst kv \<in> fst ` set specs" by (metis domI dom_map_of_conv_image_fst)
  from assms(2) Some obtain v where v: "sp_coerce sp (snd kv) = Inr v" "sp_validate sp v"
    "st_values st' = dict_set (fst kv) v (st_values st)"
    "st_origins st' = dict_set (fst kv) \<lparr>og_layer = ly, og_location = loc, og_key = fst kv\<rparr> (st_origins st)"
    by (auto simp: item_effect_def)
  have keys: "fst ` set (st_values st) = fst ` set specs" "fst ` set (st_origins st) = fst ` set specs"
    using assms(1) by (auto simp: explained_def simp flip: set_map)
  have "value_from sp' k (last_layer (maps @ [(ly, loc, m @ [kv])]) k) (map_of (st_values st') k) (map_of (st_origins st') k)"
    if sp': "map_of specs k = Some sp'" for k sp'
  proof (cases "k = fst kv")
    case True
    with sp' Some v show ?thesis unfolding last_layer_item [OF assms(3)] by (simp add: value_from_def)
  next
    case False
    with sp' assms(1) v show ?thesis unfolding last_layer_item [OF assms(3)] by (simp add: explained_def del: last_layer_simps)
  qed
  moreover have "strict \<longrightarrow> (\<forall>(ly, loc, m) \<in> set (maps @ [(ly, loc, m @ [kv])]). fst ` set m \<subseteq> fst ` set specs)"
    using assms(1) mem by (auto simp: explained_def)
  moreover have "map fst (st_values st') = map fst specs" "map fst (st_origins st') = map fst specs"
    using assms(1) v(3,4) keys mem by (simp_all add: explained_def keys_dict_set_present)
  ultimately show ?thesis by (simp add: explained_def del: last_layer_simps)
qed

lemma explained_items:
  assumes "explained specs strict (maps @ [(ly, loc, m)]) st" and "apply_items specs ly loc strict d (st, []) = Inr (st', [])"
    and "distinct (map fst (m @ d))"
  shows "explained specs strict (maps @ [(ly, loc, m @ d)]) st'"
  using assms
proof (induction d arbitrary: st m)
  case (Cons kv d)
  from apply_items_effects [OF Cons.prems(2)] obtain s1 where
    s1: "item_effect specs ly loc strict kv st s1" "apply_items specs ly loc strict d (s1, []) = Inr (st', [])" by blast
  have "fst kv \<notin> fst ` set m" using Cons.prems(3) by auto
  from Cons.IH [OF explained_item [OF Cons.prems(1) s1(1) this] s1(2)] Cons.prems(3) show ?case by simp
qed simp

lemma explained_empty: "explained specs strict maps st \<Longrightarrow> explained specs strict (maps @ [(ly, loc, [])]) st"
  by (auto simp: explained_def)

lemma explained_mapping:
  assumes "explained specs strict maps st" and "apply_mapping specs m ly loc strict st = Inr st'"
    and "distinct (map fst m)"
  shows "explained specs strict (maps @ [(ly, loc, m)]) st'"
proof -
  from assms(2) have "apply_items specs ly loc strict m (st, []) = Inr (st', [])"
    by (auto simp: apply_mapping_def bindE_eq_Inr split: if_splits)
  from explained_items [OF explained_empty [OF assms(1)] this] assms(3) show ?thesis by simp
qed

section \<open>All layers\<close>

lemma distinct_dict_merge: "distinct (map fst d) \<Longrightarrow> distinct (map fst (fold (\<lambda>kv. dict_set (fst kv) (snd kv)) e d))"
  by (induction e arbitrary: d) (simp_all add: distinct_dict_set)

lemma distinct_flatten: "distinct (map fst r) \<Longrightarrow> distinct (map fst (flatten pre r d))"
proof (induction d arbitrary: r)
  case (Cons kv d)
  then show ?case by (cases kv) (simp add: distinct_dict_merge)
qed simp

lemma distinct_environment: "distinct (map fst (environment_settings env_keys environ))"
proof -
  have "distinct (map fst d) \<Longrightarrow> distinct (map fst (fold (\<lambda>nk d. case map_of environ (fst nk) of None \<Rightarrow> d
     | Some v \<Rightarrow> dict_set (snd nk) (JStr v) d) env_keys d))" for d
    by (induction env_keys arbitrary: d) (auto simp: distinct_dict_set split: option.split)
  then show ?thesis by (simp add: environment_settings_def)
qed

lemma explained_file:
  assumes "explained specs strict maps st" and "apply_file specs env source ly strict st = Inr st'"
  shows "explained specs strict (maps @ file_layer env source ly) st'"
proof (cases source)
  case (Some fi)
  show ?thesis
  proof (cases "fi_state fi = Missing")
    case False
    with assms(2) Some obtain d where d: "load_settings_file env fi = Inr d"
      "apply_mapping specs (flatten [] [] d) ly (fi_path fi) strict st = Inr st'"
      by (auto simp: apply_file_def bindE_eq_Inr)
    from explained_mapping [OF assms(1) d(2) distinct_flatten] d(1) Some False show ?thesis
      by (simp add: file_layer_def)
  qed (use assms Some in \<open>simp add: apply_file_def file_layer_def\<close>)
qed (use assms in \<open>simp add: apply_file_def file_layer_def\<close>)

lemma explained_resolve:
  assumes "resolve specs env_keys env ls = Inr st"
  shows "explained specs (la_strict ls) (layer_maps env_keys env ls) st \<and> cross_fields st = Inr ()"
proof -
  let ?strict = "la_strict ls"
  from assms obtain s1 s2 s3 s4 where
    s: "apply_file specs env (la_global ls) Global ?strict (default_settings specs) = Inr s1"
    "apply_file specs env (la_project ls) Project ?strict s1 = Inr s2"
    "apply_mapping specs (environment_settings env_keys (la_environ ls)) Environment ''environment'' ?strict s2 = Inr s3"
    "(if la_cli ls = [] then Inr s3
      else apply_mapping specs (flatten [] [] (la_cli ls)) Cli ''command line'' ?strict s3) = Inr s4"
    "(if la_runtime ls = [] then Inr s4
      else apply_mapping specs (flatten [] [] (la_runtime ls)) Runtime ''runtime override'' ?strict s4) = Inr st"
    "cross_fields st = Inr ()"
    unfolding resolve_def bindE_eq_Inr by auto
  note 1 = explained_file [OF explained_default s(1)]
  note 2 = explained_file [OF 1 s(2)]
  note 3 = explained_mapping [OF 2 s(3) distinct_environment]
  have 4: "explained specs ?strict ((([] @ file_layer env (la_global ls) Global) @ file_layer env (la_project ls) Project) @
      [(Environment, ''environment'', environment_settings env_keys (la_environ ls))] @
      (if la_cli ls = [] then [] else [(Cli, ''command line'', flatten [] [] (la_cli ls))])) s4"
    using 3 s(4) explained_mapping [OF 3, of "flatten [] [] (la_cli ls)" Cli "''command line''" s4] distinct_flatten [of "[]"]
    by (auto split: if_splits)
  have "explained specs ?strict (((([] @ file_layer env (la_global ls) Global) @ file_layer env (la_project ls) Project) @
      [(Environment, ''environment'', environment_settings env_keys (la_environ ls))] @
      (if la_cli ls = [] then [] else [(Cli, ''command line'', flatten [] [] (la_cli ls))])) @
      (if la_runtime ls = [] then [] else [(Runtime, ''runtime override'', flatten [] [] (la_runtime ls))])) st"
    using 4 s(5) explained_mapping [OF 4, of "flatten [] [] (la_runtime ls)" Runtime "''runtime override''" st] distinct_flatten [of "[]"]
    by (auto split: if_splits)
  with s(6) show ?thesis by (simp add: layer_maps_def)
qed

text \<open>C32: When a resolution succeeds, every setting has the value given by the last layer that mentions it,
  coerced and validated, or its default when no layer does; its origin names that layer; and in
  strict mode no layer mentions a key that is not in the table.\<close>

theorem last_layer_wins:
  assumes "resolve specs env_keys env ls = Inr st" and "map_of specs k = Some sp"
  shows "(case last_layer (layer_maps env_keys env ls) k of
      None \<Rightarrow> map_of (st_values st) k = Some (sp_default sp) \<and>
        map_of (st_origins st) k = Some \<lparr>og_layer = Default, og_location = ''built-in'', og_key = k\<rparr>
    | Some (ly, loc, raw) \<Rightarrow> (\<exists>v. sp_coerce sp raw = Inr v \<and> sp_validate sp v \<and> map_of (st_values st) k = Some v) \<and>
        map_of (st_origins st) k = Some \<lparr>og_layer = ly, og_location = loc, og_key = k\<rparr>) \<and>
    (la_strict ls \<longrightarrow> (\<forall>(ly, loc, m) \<in> set (layer_maps env_keys env ls). fst ` set m \<subseteq> fst ` set specs))"
  using explained_resolve [OF assms(1)] assms(2)
  by (force simp: explained_def value_from_def split: option.splits prod.splits)

section \<open>Types\<close>

datatype setting_type = OptString | String | Boolean | Integer | Number | OptNumber | Strings | StringMap

fun has_type :: "setting_type \<Rightarrow> setting \<Rightarrow> bool" where
  "has_type OptString v = (v = SNone \<or> (\<exists>s. v = SStr s \<and> s \<noteq> []))"
| "has_type String v = (\<exists>s. v = SStr s \<and> s \<noteq> [])"
| "has_type Boolean v = (\<exists>b. v = SBool b)"
| "has_type Integer v = (\<exists>i. v = SInt i)"
| "has_type Number v = (\<exists>f. v = SFloat f)"
| "has_type OptNumber v = (v = SNone \<or> (\<exists>f. v = SFloat f))"
| "has_type Strings v = (\<exists>ss. v = STuple ss)"
| "has_type StringMap v = (\<exists>m. v = SMap m)"

definition setting_types :: "(string \<times> setting_type) list" where
  "setting_types =
    [(''model.provider'', OptString), (''model.id'', OptString), (''thinking.level'', String),
     (''provider.transport'', String), (''provider.timeout_seconds'', Number),
     (''provider.stream_idle_timeout_seconds'', OptNumber), (''provider.max_retries'', Integer),
     (''provider.max_retry_delay_seconds'', Number), (''compaction.enabled'', Boolean),
     (''compaction.reserve_tokens'', Integer), (''compaction.keep_recent_tokens'', Integer),
     (''tools.enabled'', Strings), (''tools.timeout_seconds'', Number), (''resources.user_root'', String),
     (''resources.project_dir_name'', String), (''resources.include'', Strings), (''resources.exclude'', Strings),
     (''resources.follow_symlinks'', Boolean), (''packages.enabled'', Strings), (''packages.root'', String),
     (''packages.auto_load'', Boolean), (''auth.file'', String), (''models.snapshot_file'', String),
     (''extensions.enabled'', Boolean), (''extensions.trusted_project'', Strings), (''session.enabled'', Boolean),
     (''session.directory'', String), (''session.fsync'', Boolean), (''ui.theme'', OptString),
     (''ui.keybindings'', StringMap), (''telemetry.enabled'', Boolean), (''telemetry.exporter'', String)]"

definition coerces_to :: "setting_type \<Rightarrow> (json \<Rightarrow> (settings_exn, setting) result) \<Rightarrow> bool" where
  "coerces_to t c \<longleftrightarrow> (\<forall>raw v. c raw = Inr v \<longrightarrow> has_type t v)"

lemma coercions:
  "coerces_to OptString optional_text" "coerces_to String nonempty_string" "coerces_to Boolean boolean"
  "coerces_to Integer integer" "coerces_to Number float_number" "coerces_to OptNumber optional_float"
  "coerces_to Strings string_tuple" "coerces_to StringMap string_map"
proof -
  show "coerces_to OptString optional_text" "coerces_to String nonempty_string" "coerces_to Boolean boolean"
    by (auto simp: coerces_to_def optional_text_def nonempty_string_def boolean_def refuse_def Let_def
        split: json.splits if_splits)
  show "coerces_to Integer integer" and n: "coerces_to Number float_number"
    by (auto simp: coerces_to_def integer_def float_number_def refuse_def bindE_eq_Inr split: json.splits)
  show "coerces_to OptNumber optional_float"
    using n by (auto simp: coerces_to_def optional_float_def split: if_splits)
  show "coerces_to Strings string_tuple"
    by (auto simp: coerces_to_def string_tuple_def refuse_def split: json.splits option.splits)
  have "coerces_to StringMap object_of_strings"
    by (auto simp: coerces_to_def object_of_strings_def refuse_def split: json.splits option.splits)
  then show "coerces_to StringMap string_map"
    by (auto simp: coerces_to_def string_map_def refuse_def split: json.splits option.splits)
qed

definition typed_spec :: "setting_type \<Rightarrow> setting_spec \<Rightarrow> bool" where
  "typed_spec t sp \<longleftrightarrow> has_type t (sp_default sp) \<and> sp_validate sp (sp_default sp) \<and> coerces_to t (sp_coerce sp)"

lemma typed_table: "list_all2 (\<lambda>kt ks. fst kt = fst ks \<and> typed_spec (snd kt) (snd ks)) setting_types DEFAULT_SPECS"
  by (simp add: setting_types_def DEFAULT_SPECS_def typed_spec_def coercions always_def one_of_def
      above_zero_def from_zero_def none_or_above_zero_def ex_bool_eq)

lemma typed_specs:
  assumes "map_of setting_types k = Some t"
  shows "\<exists>sp. map_of DEFAULT_SPECS k = Some sp \<and> typed_spec t sp"
proof -
  have "list_all2 (\<lambda>kt ks. fst kt = fst ks \<and> typed_spec (snd kt) (snd ks)) xs ys \<Longrightarrow> map_of xs k = Some t \<Longrightarrow>
     \<exists>sp. map_of ys k = Some sp \<and> typed_spec t sp" for xs ys
    by (induction rule: list_all2_induct) (auto split: if_splits)
  from this [OF typed_table assms] show ?thesis .
qed

lemma resolved_value:
  assumes "resolve DEFAULT_SPECS env_keys env ls = Inr st" and "map_of setting_types k = Some t"
  shows "\<exists>sp v. map_of DEFAULT_SPECS k = Some sp \<and> map_of (st_values st) k = Some v \<and> has_type t v \<and> sp_validate sp v"
proof -
  from typed_specs [OF assms(2)] obtain sp where sp: "map_of DEFAULT_SPECS k = Some sp" "typed_spec t sp" by blast
  then have "value_from sp k (last_layer (layer_maps env_keys env ls) k) (map_of (st_values st) k) (map_of (st_origins st) k)"
    using explained_resolve [OF assms(1)] by (simp add: explained_def)
  with sp show ?thesis
    by (auto simp: value_from_def typed_spec_def coerces_to_def split: option.splits)
qed

text \<open>C31: Every resolution that succeeds gives exactly the settings of the table, each with a value of its
  declared type that passes its validation, whatever the layers contain; and the recent tail that
  compaction keeps is larger than the reserve.\<close>

theorem resolved_settings_typed:
  assumes "resolve DEFAULT_SPECS env_keys env ls = Inr st"
  shows "map fst (st_values st) = map fst DEFAULT_SPECS \<and>
    (\<forall>k t. map_of setting_types k = Some t \<longrightarrow>
       (\<exists>sp v. map_of DEFAULT_SPECS k = Some sp \<and> map_of (st_values st) k = Some v \<and> has_type t v \<and> sp_validate sp v)) \<and>
    (\<exists>keep reserve. map_of (st_values st) ''compaction.keep_recent_tokens'' = Some (SInt keep) \<and>
       map_of (st_values st) ''compaction.reserve_tokens'' = Some (SInt reserve) \<and> 0 \<le> reserve \<and> reserve < keep)"
proof (intro conjI allI impI)
  show "map fst (st_values st) = map fst DEFAULT_SPECS"
    using explained_resolve [OF assms] by (simp add: explained_def)
  show "\<exists>sp v. map_of DEFAULT_SPECS k = Some sp \<and> map_of (st_values st) k = Some v \<and> has_type t v \<and> sp_validate sp v"
    if "map_of setting_types k = Some t" for k t
    using resolved_value [OF assms that] .
  have "map_of setting_types ''compaction.keep_recent_tokens'' = Some Integer"
    "map_of setting_types ''compaction.reserve_tokens'' = Some Integer" by (simp_all add: setting_types_def)
  from resolved_value [OF assms this(1)] resolved_value [OF assms this(2)] obtain k r sp where
    k: "map_of (st_values st) ''compaction.keep_recent_tokens'' = Some (SInt k)"
    and r: "map_of (st_values st) ''compaction.reserve_tokens'' = Some (SInt r)"
    and sp: "map_of DEFAULT_SPECS ''compaction.reserve_tokens'' = Some sp" "sp_validate sp (SInt r)" by auto
  from sp have "0 \<le> r" by (auto simp: DEFAULT_SPECS_def from_zero_def pf_eq.simps)
  moreover have "r < k" using explained_resolve [OF assms] k r
    by (auto simp: cross_fields_def split: if_splits)
  ultimately show "\<exists>keep reserve. map_of (st_values st) ''compaction.keep_recent_tokens'' = Some (SInt keep) \<and>
       map_of (st_values st) ''compaction.reserve_tokens'' = Some (SInt reserve) \<and> 0 \<le> reserve \<and> reserve < keep"
    using k r by blast
qed

section \<open>Nested documents\<close>

definition in_table :: "string \<Rightarrow> bool" where
  "in_table k \<longleftrightarrow> k \<in> fst ` set DEFAULT_SPECS"

definition plain_part :: "string \<Rightarrow> bool" where
  "plain_part a \<longleftrightarrow> CHR ''.'' \<notin> set a"

fun section_ok :: "string \<Rightarrow> json \<Rightarrow> bool" where
  "section_ok a (JObj c) = (distinct (map fst c) \<and>
     (\<forall>by \<in> set c. plain_part (fst by) \<and> (is_JObj (snd by) \<longrightarrow> in_table (a @ CHR ''.'' # fst by))))"
| "section_ok a _ = False"

definition two_level :: "jobject \<Rightarrow> bool" where
  "two_level t \<longleftrightarrow> distinct (map fst t) \<and>
     (\<forall>ax \<in> set t. plain_part (fst ax) \<and> fst ax \<noteq> [] \<and> section_ok (fst ax) (snd ax) \<and> snd ax \<noteq> JObj [])"

definition section_of :: "jobject \<Rightarrow> string \<Rightarrow> jobject" where
  "section_of t a = (case map_of t a of Some (JObj c) \<Rightarrow> c | _ \<Rightarrow> [])"

abbreviation "lookup2 t a b \<equiv> map_of (section_of t a) b"

lemma dotted_pair: "plain_part a \<Longrightarrow> plain_part b \<Longrightarrow> dotted (a @ CHR ''.'' # b) = [a, b]"
  by (simp add: dotted_def plain_part_def split_on_append_sep split_on_line)

lemma pair_inject:
  assumes "plain_part a" "plain_part b" "plain_part a'" "plain_part b'"
  shows "a @ CHR ''.'' # b = a' @ CHR ''.'' # b' \<longleftrightarrow> a = a' \<and> b = b'"
  using dotted_pair [OF assms(1,2)] dotted_pair [OF assms(3,4)] by (metis list.inject)

lemma dict_set_mem: "kv \<in> set (dict_set k v d) \<Longrightarrow> kv = (k, v) \<or> kv \<in> set d"
  by (induction k v d rule: dict_set.induct) (auto split: if_splits)

lemma section_of_ok:
  assumes "two_level t" shows "section_ok a (JObj (section_of t a))"
proof (cases "map_of t a")
  case (Some x)
  then have "(a, x) \<in> set t" by (rule map_of_SomeD)
  then have "section_ok a x" using assms by (force simp: two_level_def)
  with Some show ?thesis by (cases x) (simp_all add: section_of_def)
qed (simp add: section_of_def)

lemma assign_two_level:
  assumes "two_level t" and "plain_part a" "a \<noteq> []" "plain_part b" and "is_JObj v \<longrightarrow> in_table (a @ CHR ''.'' # b)"
  shows "two_level (assign_nested t [a, b] v)"
    and "lookup2 (assign_nested t [a, b] v) a' b' = (if a' = a \<and> b' = b then Some v else lookup2 t a' b')"
proof -
  define c where "c = section_of t a"
  have c: "section_ok a (JObj c)" unfolding c_def by (rule section_of_ok [OF assms(1)])
  have eq: "assign_nested t [a, b] v = dict_set a (JObj (dict_set b v c)) t"
    by (simp add: c_def section_of_def)
  have new: "section_ok a (JObj (dict_set b v c))"
  proof -
    have "plain_part (fst by) \<and> (is_JObj (snd by) \<longrightarrow> in_table (a @ CHR ''.'' # fst by))"
      if "by \<in> set (dict_set b v c)" for "by"
      using dict_set_mem [OF that] c assms(4,5) by auto
    with c show ?thesis by (simp add: distinct_dict_set)
  qed
  show "two_level (assign_nested t [a, b] v)" unfolding eq two_level_def
  proof (intro conjI ballI)
    show "distinct (map fst (dict_set a (JObj (dict_set b v c)) t))"
      using assms(1) by (intro distinct_dict_set) (simp add: two_level_def)
    fix ax assume ax: "ax \<in> set (dict_set a (JObj (dict_set b v c)) t)"
    have "dict_set b v c \<noteq> []" by (cases c) (auto split: if_splits)
    then have "plain_part (fst ax) \<and> fst ax \<noteq> [] \<and> section_ok (fst ax) (snd ax) \<and> snd ax \<noteq> JObj []"
      using dict_set_mem [OF ax] assms(1-3) new by (auto simp: two_level_def)
    then show "plain_part (fst ax)" "fst ax \<noteq> []" "section_ok (fst ax) (snd ax)" "snd ax \<noteq> JObj []" by simp_all
  qed
  show "lookup2 (assign_nested t [a, b] v) a' b' = (if a' = a \<and> b' = b then Some v else lookup2 t a' b')"
    unfolding eq by (simp add: section_of_def c_def)
qed

definition two_part :: "string \<times> json \<Rightarrow> bool" where
  "two_part kv \<longleftrightarrow> (\<exists>a b. fst kv = a @ CHR ''.'' # b \<and> plain_part a \<and> a \<noteq> [] \<and> plain_part b) \<and>
     in_table (fst kv)"

abbreviation "assign_all d t \<equiv> fold (\<lambda>kv t. assign_nested t (dotted (fst kv)) (snd kv)) d t"

lemma assign_all_two_level:
  assumes "two_level t" and "\<forall>kv \<in> set d. two_part kv" and "distinct (map fst d)" and "plain_part a" "plain_part b"
  shows "two_level (assign_all d t) \<and>
    lookup2 (assign_all d t) a b = (case map_of d (a @ CHR ''.'' # b) of Some v \<Rightarrow> Some v | None \<Rightarrow> lookup2 t a b)"
  using assms(1-3)
proof (induction d arbitrary: t)
  case (Cons kv d)
  obtain p q where pq: "fst kv = p @ CHR ''.'' # q" "plain_part p" "p \<noteq> []" "plain_part q" "in_table (fst kv)"
    using Cons.prems(2) two_part_def [of kv] by (metis list.set_intros(1))
  have "is_JObj (snd kv) \<longrightarrow> in_table (p @ CHR ''.'' # q)" using pq(1,5) by simp
  note one = assign_two_level [OF Cons.prems(1) pq(2-4) this]
  have key: "a @ CHR ''.'' # b = fst kv \<longleftrightarrow> a = p \<and> b = q"
    unfolding pq(1) by (rule pair_inject [OF assms(4,5) pq(2,4)])
  have none: "map_of d (fst kv) = None" using Cons.prems(3) by (simp add: map_of_eq_None_iff)
  have fold: "assign_all (kv # d) t = assign_all d (assign_nested t [p, q] (snd kv))"
    by (simp add: pq(1) dotted_pair [OF pq(2,4)] del: assign_nested.simps)
  have "two_level (assign_all d (assign_nested t [p, q] (snd kv))) \<and>
     lookup2 (assign_all d (assign_nested t [p, q] (snd kv))) a b =
       (case map_of d (a @ CHR ''.'' # b) of Some v \<Rightarrow> Some v | None \<Rightarrow> lookup2 (assign_nested t [p, q] (snd kv)) a b)"
    using Cons.prems(2,3) by (intro Cons.IH one(1)) simp_all
  moreover have "map_of (kv # d) k = (if k = fst kv then Some (snd kv) else map_of d k)" for k
    by (cases kv) simp
  ultimately show ?case unfolding fold one(2) using key none pq(1) by (auto simp del: assign_nested.simps split: option.split)
qed simp

section \<open>Flattening nested documents\<close>

lemma flatten_section:
  assumes "plain_part a" "a \<noteq> []" and "section_ok a (JObj c)"
  shows "flatten a r c = fold (\<lambda>kv. dict_set (a @ CHR ''.'' # fst kv) (snd kv)) c r"
  using assms(3)
proof (induction c arbitrary: r)
  case (Cons bx c)
  obtain b y where bx: "bx = (b, y)" by (cases bx)
  have "flatten_item (a @ CHR ''.'' # b) y = [(a @ CHR ''.'' # b, y)]"
    using Cons.prems bx by (cases y) (auto simp: in_table_def)
  with Cons bx assms(2) show ?case by (simp add: sub_key_def)
qed simp

lemma table_keys_dotted: "\<forall>ks \<in> set DEFAULT_SPECS. \<exists>a b. fst ks = a @ CHR ''.'' # b \<and> plain_part a \<and> a \<noteq> [] \<and> plain_part b"
proof -
  have "\<forall>ks \<in> set DEFAULT_SPECS. (case dotted (fst ks) of [a, b] \<Rightarrow> a \<noteq> [] | _ \<Rightarrow> False)"
    by (simp add: DEFAULT_SPECS_def dotted_def)
  moreover have "\<exists>a b. k = a @ CHR ''.'' # b \<and> plain_part a \<and> a \<noteq> [] \<and> plain_part b"
    if "case dotted k of [a, b] \<Rightarrow> a \<noteq> [] | _ \<Rightarrow> False" for k
  proof -
    from that obtain a b where ab: "dotted k = [a, b]" "a \<noteq> []" by (auto split: list.splits)
    have "join_with (CHR ''.'') (dotted k) = k" by (simp add: dotted_def)
    moreover have "plain_part a" "plain_part b"
      using split_on_no_sep [of _ "CHR ''.''" k] ab(1) by (auto simp: plain_part_def dotted_def)
    ultimately show ?thesis using ab by (intro exI [of _ a] exI [of _ b]) auto
  qed
  ultimately show ?thesis by blast
qed

lemma map_of_merge:
  "distinct (map fst e) \<Longrightarrow> map_of (fold (\<lambda>kv. dict_set (fst kv) (snd kv)) e d) k = (case map_of e k of Some v \<Rightarrow> Some v | None \<Rightarrow> map_of d k)"
proof (induction e arbitrary: d)
  case (Cons kv e)
  have "map_of e (fst kv) = None" using Cons.prems by (simp add: map_of_eq_None_iff)
  with Cons show ?case by (cases kv) (auto split: option.split)
qed simp

lemma flatten_two_level:
  assumes "two_level t" and "plain_part a" "plain_part b"
  shows "map_of (flatten [] r t) (a @ CHR ''.'' # b) =
    (case lookup2 t a b of Some v \<Rightarrow> Some v | None \<Rightarrow> map_of r (a @ CHR ''.'' # b))"
  using assms(1)
proof (induction t arbitrary: r)
  case (Cons px t)
  obtain p x where px: "px = (p, x)" by (cases px)
  from Cons.prems px have p: "plain_part p" "p \<noteq> []" "section_ok p x" "two_level t" "p \<notin> fst ` set t"
    by (simp_all add: two_level_def)
  then obtain c where c: "x = JObj c" by (cases x) simp_all
  define e where "e = map (\<lambda>kv. (p @ CHR ''.'' # fst kv, snd kv)) c"
  have "p \<notin> fst ` set DEFAULT_SPECS" using p(1) table_keys_dotted by (auto simp: plain_part_def)
  then have item: "flatten_item (sub_key [] p) x = flatten p [] c" by (simp add: sub_key_def c)
  have sec: "flatten p r' c = fold (\<lambda>kv. dict_set (fst kv) (snd kv)) e r'" for r'
    using flatten_section [OF p(1,2), of c r'] p(3) by (simp add: c e_def fold_map comp_def)
  have dist: "distinct (map fst e)" using p(3) by (simp add: c e_def comp_def distinct_map inj_on_def)
  have merged: "map_of (fold (\<lambda>kv. dict_set (fst kv) (snd kv)) (flatten p [] c) r) k = (case map_of e k of Some v \<Rightarrow> Some v | None \<Rightarrow> map_of r k)" for k
    using map_of_merge [OF distinct_flatten [of "[]" p c], of r k] map_of_merge [OF dist, of "[]" k]
    unfolding sec by (cases "map_of e k") simp_all
  have look_e: "map_of e (a @ CHR ''.'' # b) = (if a = p then map_of c b else None)"
  proof -
    have "map_of (map (\<lambda>kv. (p @ CHR ''.'' # fst kv, snd kv)) c') (a @ CHR ''.'' # b) = (if a = p then map_of c' b else None)"
      if "\<forall>kv \<in> set c'. plain_part (fst kv)" for c' :: jobject
      using that pair_inject [OF assms(2,3) p(1)] by (induction c') auto
    then show ?thesis using p(3) by (simp add: c e_def)
  qed
  have "lookup2 (px # t) a b = (if a = p then map_of c b else lookup2 t a b)"
    by (simp add: px c section_of_def)
  moreover have "lookup2 t p b = None" using p(5) by (simp add: section_of_def map_of_eq_None_iff [THEN iffD2])
  moreover have "map_of (flatten [] r (px # t)) (a @ CHR ''.'' # b) =
      (case lookup2 t a b of Some v \<Rightarrow> Some v
       | None \<Rightarrow> (case (if a = p then map_of c b else None) of Some v \<Rightarrow> Some v | None \<Rightarrow> map_of r (a @ CHR ''.'' # b)))"
    using Cons.IH [OF p(4), of "fold (\<lambda>kv. dict_set (fst kv) (snd kv)) (flatten p [] c) r"] item
    unfolding merged look_e by (simp add: px)
  ultimately show ?case by (cases "a = p"; cases "lookup2 t a b") simp_all
qed (simp add: section_of_def)

lemma keys_merge: "fst ` set (fold (\<lambda>kv. dict_set (fst kv) (snd kv)) e d) = fst ` set e \<union> fst ` set d"
  by (induction e arbitrary: d) auto

lemma flatten_keys:
  assumes "two_level t" and "k \<in> fst ` set (flatten [] r t)"
  shows "k \<in> fst ` set r \<or> (\<exists>a b. k = a @ CHR ''.'' # b \<and> plain_part a \<and> plain_part b \<and> lookup2 t a b \<noteq> None)"
  using assms
proof (induction t arbitrary: r)
  case (Cons px t)
  obtain p x where px: "px = (p, x)" by (cases px)
  from Cons.prems(1) px have p: "plain_part p" "p \<noteq> []" "section_ok p x" "two_level t" "p \<notin> fst ` set t"
    by (simp_all add: two_level_def)
  then obtain c where c: "x = JObj c" by (cases x) simp_all
  have "p \<notin> fst ` set DEFAULT_SPECS" using p(1) table_keys_dotted by (auto simp: plain_part_def)
  then have item: "flatten_item (sub_key [] p) x = flatten p [] c" by (simp add: sub_key_def c)
  have keys: "fst ` set (flatten p [] c) = fst ` set (map (\<lambda>kv. (p @ CHR ''.'' # fst kv, snd kv)) c)"
    using flatten_section [OF p(1,2), of c "[]"] p(3) keys_merge [of "map (\<lambda>kv. (p @ CHR ''.'' # fst kv, snd kv)) c" "[]"]
    by (simp add: c fold_map comp_def)
  let ?r = "fold (\<lambda>kv. dict_set (fst kv) (snd kv)) (flatten p [] c) r"
  have look: "lookup2 (px # t) a b = (if a = p then map_of c b else lookup2 t a b)" for a b
    by (simp add: px c section_of_def)
  have "lookup2 t p b = None" for b using p(5) by (simp add: section_of_def map_of_eq_None_iff [THEN iffD2])
  then have there: "lookup2 (px # t) a b \<noteq> None" if "lookup2 t a b \<noteq> None" for a b using that look by auto
  from Cons.prems(2) have "k \<in> fst ` set (flatten [] ?r t)" by (simp add: px item)
  from Cons.IH [OF p(4) this] consider "k \<in> fst ` set r" | "k \<in> fst ` set (flatten p [] c)"
    | a b where "k = a @ CHR ''.'' # b" "plain_part a" "plain_part b" "lookup2 t a b \<noteq> None"
    unfolding keys_merge by blast
  then show ?case
  proof cases
    case 2
    then obtain b where b: "k = p @ CHR ''.'' # b" "b \<in> fst ` set c" unfolding keys by force
    then have "plain_part b" using p(3) c by auto
    moreover have "lookup2 (px # t) p b \<noteq> None" using look [of p b] b(2) by (simp add: map_of_eq_None_iff)
    ultimately show ?thesis using b(1) p(1) by blast
  qed (use there in blast)+
qed simp

section \<open>Sorted documents\<close>

lemma map_of_sort:
  assumes "distinct (map fst d)" shows "map_of (sort_key fst d) = map_of d"
  using assms by (subst map_of_inject_set) (simp_all add: distinct_map distinct_sort)

lemma map_of_values: "map_of (map (\<lambda>kv. (fst kv, f (snd kv))) d) k = map_option f (map_of d k)"
  by (induction d) auto

definition sorted_object :: "jobject \<Rightarrow> jobject" where
  "sorted_object d = sort_key fst (map (\<lambda>kv. (fst kv, sorted_keys (snd kv))) d)"

lemma sorted_keys_object: "sorted_keys (JObj d) = JObj (sorted_object d)"
  by (simp add: sorted_object_def)

lemma map_of_sorted_object:
  "distinct (map fst d) \<Longrightarrow> map_of (sorted_object d) k = map_option sorted_keys (map_of d k)"
  by (simp add: sorted_object_def map_of_sort comp_def map_of_values)

lemma is_JObj_sorted [simp]: "is_JObj (sorted_keys v) = is_JObj v"
  by (cases v) simp_all

lemma sorted_keys_empty [simp]: "sorted_keys v = JObj [] \<longleftrightarrow> v = JObj []"
proof (cases v)
  case (JObj d)
  have "set (sort_key fst (map (\<lambda>kv. (fst kv, sorted_keys (snd kv))) d)) = {} \<longleftrightarrow> d = []" by simp
  then show ?thesis unfolding set_empty by (simp add: JObj)
qed simp_all

lemma section_ok_sorted: "section_ok a x \<Longrightarrow> section_ok a (sorted_keys x)"
  by (cases x) (auto simp: distinct_map distinct_sort inj_on_def)

lemma two_level_sorted:
  assumes "two_level t"
  shows "two_level (sorted_object t)" and "lookup2 (sorted_object t) a b = map_option sorted_keys (lookup2 t a b)"
proof -
  have dist: "distinct (map fst t)" using assms by (simp add: two_level_def)
  show "two_level (sorted_object t)"
    using assms by (auto simp: two_level_def sorted_object_def section_ok_sorted distinct_map distinct_sort inj_on_def)
  show "lookup2 (sorted_object t) a b = map_option sorted_keys (lookup2 t a b)"
  proof (cases "map_of t a")
    case (Some x)
    then have "section_ok a x" using assms by (auto simp: two_level_def dest!: map_of_SomeD)
    then obtain c where c: "x = JObj c" "distinct (map fst c)" by (cases x) simp_all
    with Some dist show ?thesis
      by (simp add: section_of_def map_of_sorted_object sorted_keys_object del: sorted_keys.simps)
  qed (use dist in \<open>simp add: section_of_def map_of_sorted_object\<close>)
qed

section \<open>Saving and loading\<close>

text \<open>A saved map comes back with its keys sorted; every other value as it was.\<close>

fun sort_setting :: "setting \<Rightarrow> setting" where
  "sort_setting (SMap m) = SMap (sort_key fst m)"
| "sort_setting v = v"

definition reads_back :: "setting_type \<Rightarrow> setting_spec \<Rightarrow> bool" where
  "reads_back t sp \<longleftrightarrow> (\<forall>v. has_type t v \<and> sp_validate sp v \<longrightarrow>
     sp_coerce sp (sorted_keys (setting_json v)) = Inr (sort_setting v) \<and> sp_validate sp (sort_setting v))"

lemma strings_of_map [simp]: "strings_of (map JStr ss) = Some ss"
  by (induction ss) simp_all

lemma string_items_map [simp]: "string_items (map (\<lambda>kv. (fst kv, JStr (snd kv))) m) = Some m"
  by (induction m) auto

lemma reads_back_table: "list_all2 (\<lambda>kt ks. fst kt = fst ks \<and> reads_back (snd kt) (snd ks)) setting_types DEFAULT_SPECS"
proof -
  have s: "reads_back OptString (setting_row d optional_text p)" "reads_back String (setting_row d nonempty_string p)"
    "reads_back Boolean (setting_row d boolean p)" "reads_back Integer (setting_row d integer p)" "reads_back Number (setting_row d float_number p)"
    "reads_back OptNumber (setting_row d optional_float p)" "reads_back Strings (setting_row d string_tuple p)" for d p
    by (auto simp: reads_back_def optional_text_def nonempty_string_def boolean_def integer_def float_number_def
        optional_float_def string_tuple_def catch_conversion_def comp_def)
  have m: "reads_back StringMap (setting_row d string_map always)" for d
    by (auto simp: reads_back_def string_map_def object_of_strings_def always_def comp_def sort_key_map)
  show ?thesis by (simp add: setting_types_def DEFAULT_SPECS_def s m)
qed

lemma reads_back_spec:
  assumes "map_of setting_types k = Some t" and "map_of DEFAULT_SPECS k = Some sp" and "has_type t v" and "sp_validate sp v"
  shows "sp_coerce sp (sorted_keys (setting_json v)) = Inr (sort_setting v)" "sp_validate sp (sort_setting v)"
proof -
  have "list_all2 (\<lambda>kt ks. fst kt = fst ks \<and> reads_back (snd kt) (snd ks)) xs ys \<Longrightarrow> map_of xs k = Some t \<Longrightarrow>
     map_of ys k = Some sp \<Longrightarrow> reads_back t sp" for xs ys
    by (induction rule: list_all2_induct) (auto split: if_splits)
  from this [OF reads_back_table assms(1,2)] assms(3,4)
  show "sp_coerce sp (sorted_keys (setting_json v)) = Inr (sort_setting v)" "sp_validate sp (sort_setting v)"
    by (simp_all add: reads_back_def)
qed

lemma typed_keys: "map fst setting_types = map fst DEFAULT_SPECS" "distinct (map fst DEFAULT_SPECS)"
  by (simp_all add: setting_types_def DEFAULT_SPECS_def)

lemma apply_items_succeed:
  assumes "\<forall>kv \<in> set d. \<exists>sp v. map_of specs (fst kv) = Some sp \<and> sp_coerce sp (snd kv) = Inr v \<and> sp_validate sp v"
  shows "\<exists>st'. apply_items specs ly loc strict d (st, []) = Inr (st', [])"
  using assms
proof (induction d arbitrary: st)
  case (Cons kv d)
  then obtain sp v where v: "map_of specs (fst kv) = Some sp" "sp_coerce sp (snd kv) = Inr v" "sp_validate sp v" by auto
  then obtain s1 where "apply_item specs ly loc strict kv (st, []) = Inr (s1, [])"
    by (simp add: apply_item_def Let_def)
  with Cons.IH [of s1] Cons.prems show ?case by simp
qed simp

text \<open>What the nested document of a snapshot says about a key.\<close>

lemma snapshot_document:
  assumes "resolve DEFAULT_SPECS env_keys env ls = Inr st"
  defines "d \<equiv> snapshot_flat st" and "n \<equiv> nested_from_input (snapshot_flat st)"
  shows "two_level n" and "n = assign_all d []"
    and "plain_part a \<Longrightarrow> plain_part b \<Longrightarrow> lookup2 n a b = map_of d (a @ CHR ''.'' # b)"
    and "map_of d k = map_option setting_json (map_of (st_values st) k)"
proof -
  have keys: "map fst (st_values st) = map fst DEFAULT_SPECS" using explained_resolve [OF assms(1)] by (simp add: explained_def)
  then have dk: "map fst d = map fst DEFAULT_SPECS" by (simp add: d_def snapshot_flat_def comp_def)
  have part: "two_part kv" if "kv \<in> set d" for kv
  proof -
    have "fst kv \<in> set (map fst DEFAULT_SPECS)" unfolding dk [symmetric] using that by simp
    then obtain ks where ks: "ks \<in> set DEFAULT_SPECS" "fst kv = fst ks" by (metis image_iff set_map)
    from bspec [OF table_keys_dotted ks(1)] show ?thesis
      using ks by (simp add: two_part_def in_table_def)
  qed
  moreover have "d \<noteq> []" using dk by (auto simp: DEFAULT_SPECS_def)
  ultimately have "two_part (hd d)" "hd d \<in> set d" by simp_all
  then have "\<exists>kv \<in> set d. CHR ''.'' \<in> set (fst kv)" by (intro bexI [of _ "hd d"]) (auto simp: two_part_def)
  then show n: "n = assign_all d []" by (simp add: n_def d_def nested_from_input_def)
  have "distinct (map fst d)" using dk typed_keys(2) by simp
  note two = assign_all_two_level [of "[]" d, OF _ _ this]
  show "two_level n" using two [of "[]" "[]"] part by (simp add: n two_level_def plain_part_def)
  show "lookup2 n a b = map_of d (a @ CHR ''.'' # b)" if "plain_part a" "plain_part b"
    using two [OF _ _ that] part by (auto simp: n two_level_def section_of_def split: option.split)
  show "map_of d k = map_option setting_json (map_of (st_values st) k)"
    by (simp add: d_def snapshot_flat_def map_of_values)
qed

lemma known_key:
  assumes "resolve DEFAULT_SPECS env_keys env ls = Inr st" and "map_of (st_values st) k = Some v"
  shows "\<exists>a b t sp. k = a @ CHR ''.'' # b \<and> plain_part a \<and> plain_part b \<and> map_of setting_types k = Some t \<and>
    map_of DEFAULT_SPECS k = Some sp \<and> has_type t v \<and> sp_validate sp v"
proof -
  have keys: "map fst (st_values st) = map fst DEFAULT_SPECS" using explained_resolve [OF assms(1)] by (simp add: explained_def)
  have "k \<in> fst ` set (st_values st)" using assms(2) by (auto dest!: map_of_SomeD intro: image_eqI [of _ _ "(k, v)"])
  then have "k \<in> set (map fst (st_values st))" by simp
  then have k: "k \<in> set (map fst DEFAULT_SPECS)" unfolding keys .
  then obtain ks where "ks \<in> set DEFAULT_SPECS" "k = fst ks" by auto
  then have "\<exists>a b. k = a @ CHR ''.'' # b \<and> plain_part a \<and> plain_part b" using bspec [OF table_keys_dotted] by blast
  moreover have "map_of setting_types k \<noteq> None" using k typed_keys(1) by (metis map_of_eq_None_iff set_map)
  then obtain t where "map_of setting_types k = Some t" by blast
  moreover from resolved_value [OF assms(1) this] assms(2)
  obtain sp where "map_of DEFAULT_SPECS k = Some sp" "has_type t v" "sp_validate sp v" by auto
  ultimately show ?thesis by blast
qed

lemma document_sections:
  assumes "resolve DEFAULT_SPECS env_keys env ls = Inr st" and "(a, x) \<in> set (nested_from_input (snapshot_flat st))"
  shows "\<exists>c. x = JObj c \<and> c \<noteq> [] \<and> distinct (map fst c) \<and>
    (\<forall>(b, y) \<in> set c. \<exists>v. map_of (st_values st) (a @ CHR ''.'' # b) = Some v \<and> y = setting_json v)"
proof -
  note doc = snapshot_document [OF assms(1)]
  let ?n = "nested_from_input (snapshot_flat st)"
  from assms(2) doc(1) have a: "plain_part a" "section_ok a x" "distinct (map fst ?n)" "x \<noteq> JObj []"
    by (auto simp: two_level_def)
  then obtain c where c: "x = JObj c" "c \<noteq> []" "distinct (map fst c)" by (cases x) simp_all
  have sec: "section_of ?n a = c" using assms(2) a(3) c(1) by (simp add: section_of_def)
  have "\<exists>v. map_of (st_values st) (a @ CHR ''.'' # b) = Some v \<and> y = setting_json v" if "(b, y) \<in> set c" for b y
  proof -
    have b: "plain_part b" using that a(2) c(1) by auto
    have "lookup2 ?n a b = Some y" unfolding sec using that c(3) by simp
    then show ?thesis using doc(3) [OF a(1) b] doc(4) by auto
  qed
  with c show ?thesis by blast
qed

lemma document_ok:
  assumes "resolve DEFAULT_SPECS env_keys env ls = Inr st" and "\<forall>kv \<in> set (st_values st). json_ok (setting_json (snd kv))"
  shows "json_ok (JObj (nested_from_input (snapshot_flat st)))"
proof -
  have "json_ok x" if ax: "(a, x) \<in> set (nested_from_input (snapshot_flat st))" for a x
  proof -
    from document_sections [OF assms(1) ax] obtain c where c: "x = JObj c" "distinct (map fst c)"
      "\<forall>(b, y) \<in> set c. \<exists>v. map_of (st_values st) (a @ CHR ''.'' # b) = Some v \<and> y = setting_json v" by blast
    have "json_ok y" if "(b, y) \<in> set c" for b y
    proof -
      from c(3) that obtain v where v: "map_of (st_values st) (a @ CHR ''.'' # b) = Some v" "y = setting_json v" by auto
      show ?thesis using assms(2) map_of_SomeD [OF v(1)] v(2) by auto
    qed
    with c(1,2) show ?thesis by auto
  qed
  with snapshot_document(1) [OF assms(1)] show ?thesis by (auto simp: two_level_def)
qed

lemma reloaded_items:
  assumes "resolve DEFAULT_SPECS env_keys env ls = Inr st"
  defines "m \<equiv> flatten [] [] (sorted_object (nested_from_input (snapshot_flat st)))"
  shows "map_of (st_values st) k = Some v \<Longrightarrow> map_of m k = Some (sorted_keys (setting_json v))"
    and "kv \<in> set m \<Longrightarrow> \<exists>sp v. map_of DEFAULT_SPECS (fst kv) = Some sp \<and> sp_coerce sp (snd kv) = Inr v \<and> sp_validate sp v"
proof -
  let ?n = "nested_from_input (snapshot_flat st)"
  note doc = snapshot_document [OF assms(1)]
  note srt = two_level_sorted [OF doc(1)]
  have look: "map_of m k = Some (sorted_keys (setting_json v))" if v: "map_of (st_values st) k = Some v" for k v
  proof -
    from known_key [OF assms(1) v] obtain a b where ab: "k = a @ CHR ''.'' # b" "plain_part a" "plain_part b" by blast
    have "lookup2 ?n a b = Some (setting_json v)" using doc(3) [OF ab(2,3)] doc(4) v ab(1) by simp
    then show ?thesis using flatten_two_level [OF srt(1) ab(2,3), of "[]"] srt(2) by (simp add: m_def ab(1))
  qed
  then show "map_of (st_values st) k = Some v \<Longrightarrow> map_of m k = Some (sorted_keys (setting_json v))" .
  have dist: "distinct (map fst m)" by (simp add: m_def distinct_flatten)
  show "\<exists>sp v. map_of DEFAULT_SPECS (fst kv) = Some sp \<and> sp_coerce sp (snd kv) = Inr v \<and> sp_validate sp v" if kv: "kv \<in> set m"
  proof -
    have "fst kv \<in> fst ` set m" using kv by simp
    from flatten_keys [OF srt(1) this [unfolded m_def]] obtain a b where
      ab: "fst kv = a @ CHR ''.'' # b" "plain_part a" "plain_part b" "lookup2 (sorted_object ?n) a b \<noteq> None" by auto
    then obtain v where v: "map_of (st_values st) (fst kv) = Some v"
      using srt(2) doc(3) [OF ab(2,3)] doc(4) by auto
    then have "snd kv = sorted_keys (setting_json v)" using eq_key_imp_eq_value [OF dist map_of_SomeD [OF look [OF v]]] kv
      by (metis prod.collapse)
    moreover from known_key [OF assms(1) v] obtain t sp where "map_of setting_types (fst kv) = Some t"
      "map_of DEFAULT_SPECS (fst kv) = Some sp" "has_type t v" "sp_validate sp v" by blast
    ultimately show ?thesis using reads_back_spec by metis
  qed
qed

lemma map_of_equal:
  assumes "map fst xs = map fst ys" "distinct (map fst xs)" "\<And>k v. map_of xs k = Some v \<Longrightarrow> map_of ys k = Some (f v)"
  shows "ys = map (\<lambda>kv. (fst kv, f (snd kv))) xs"
  using assms
proof (induction xs arbitrary: ys)
  case (Cons x xs)
  obtain k v where x: "x = (k, v)" by (cases x)
  from Cons.prems(1) x obtain w zs where ys: "ys = (k, w) # zs" "map fst xs = map fst zs" by (cases ys) auto
  have "w = f v" using Cons.prems(3) [of k v] by (simp add: x ys)
  moreover have "zs = map (\<lambda>kv. (fst kv, f (snd kv))) xs"
  proof (rule Cons.IH [OF ys(2)])
    show "map_of zs j = Some (f u)" if u: "map_of xs j = Some u" for j u
    proof -
      have "j \<noteq> k" using u Cons.prems(2) x by (force dest!: map_of_SomeD)
      with u Cons.prems(3) [of j u] show ?thesis by (simp add: x ys)
    qed
  qed (use Cons.prems(2) in simp)
  ultimately show ?case by (simp add: x ys)
qed simp

definition only_file :: "settings_file \<Rightarrow> layers" where
  "only_file fi = \<lparr>la_global = Some fi, la_project = None, la_environ = [], la_cli = [], la_runtime = [], la_strict = True\<rparr>"

lemma environment_empty [simp]: "environment_settings env_keys [] = []"
proof -
  have "fold (\<lambda>nk d. case map_of [] (fst nk) of None \<Rightarrow> d | Some v \<Rightarrow> dict_set (snd nk) (JStr v) d) xs [] = []" for xs :: "(string \<times> string) list"
    by (induction xs) simp_all
  then show ?thesis by (simp add: environment_settings_def)
qed

text \<open>C33: The flat values of a resolved snapshot, saved as a JSON settings file, resolve to the same
  values again in strict mode (the keys of the key bindings come back sorted): every saved value is
  accepted, of the same type, and none is lost.  The hypothesis on the values says that the text of
  a float reads back as that float.\<close>

theorem saved_snapshot_reloads:
  assumes "resolve DEFAULT_SPECS env_keys env ls = Inr st"
    and "\<forall>kv \<in> set (st_values st). json_ok (setting_json (snd kv))"
    and "\<not> is_toml (fi_path fi)" and "save_settings_file fi (snapshot_flat st) = Inr fi'"
  shows "\<exists>st'. resolve DEFAULT_SPECS env_keys env (only_file fi') = Inr st' \<and>
    st_values st' = map (\<lambda>kv. (fst kv, sort_setting (snd kv))) (st_values st)"
proof -
  let ?n = "nested_from_input (snapshot_flat st)"
  define m where "m = flatten [] [] (sorted_object ?n)"
  define content where "content = indented 0 (JObj ?n) @ [CHR 0x0A]"
  from assms(3,4) have fi': "fi' = fi\<lparr>fi_state := Contents content\<rparr>" "utf8_valid content"
    by (auto simp: save_settings_file_def settings_document_def Let_def content_def split: if_splits)
  have "json_loads content = Some (JObj (sorted_object ?n))"
    unfolding content_def loads_indented [OF document_ok [OF assms(1,2)], of "[CHR 0x0A]" 0] sorted_keys_object [symmetric]
    by (rule loads_indented [OF document_ok [OF assms(1,2)]]) (simp add: spaces_def json_space_def)
  then have load: "load_settings_file env fi' = Inr (sorted_object ?n)"
    using fi' assms(3) by (simp add: load_settings_file_def)
  from apply_items_succeed [of m DEFAULT_SPECS] reloaded_items(2) [OF assms(1)] obtain s1 where
    "apply_items DEFAULT_SPECS Global (fi_path fi') True m (default_settings DEFAULT_SPECS, []) = Inr (s1, [])"
    unfolding m_def by blast
  then have s1: "apply_file DEFAULT_SPECS env (Some fi') Global True (default_settings DEFAULT_SPECS) = Inr s1"
    using load fi'(1) by (simp add: apply_file_def apply_mapping_def m_def)
  have ex: "explained DEFAULT_SPECS True (file_layer env (Some fi') Global) s1"
    using explained_file [OF explained_default s1] by simp
  have layers: "file_layer env (Some fi') Global = [] @ [(Global, fi_path fi', m)]"
    using load fi'(1) by (simp add: file_layer_def m_def)
  have vals: "map_of (st_values s1) k = Some (sort_setting v)" if v: "map_of (st_values st) k = Some v" for k v
  proof -
    from known_key [OF assms(1) v] obtain t sp where sp: "map_of setting_types k = Some t" "map_of DEFAULT_SPECS k = Some sp"
      "has_type t v" "sp_validate sp v" by blast
    have "last_layer (file_layer env (Some fi') Global) k = Some (Global, fi_path fi', sorted_keys (setting_json v))"
      unfolding layers last_layer_simps using reloaded_items(1) [OF assms(1) v] by (simp add: m_def)
    moreover have "value_from sp k (last_layer (file_layer env (Some fi') Global) k) (map_of (st_values s1) k) (map_of (st_origins s1) k)"
      using ex sp(2) by (simp add: explained_def)
    ultimately show ?thesis using reads_back_spec(1) [OF sp] by (simp add: value_from_def)
  qed
  have same: "st_values s1 = map (\<lambda>kv. (fst kv, sort_setting (snd kv))) (st_values st)"
    by (rule map_of_equal) (use explained_resolve [OF assms(1)] ex typed_keys(2) vals in \<open>simp_all add: explained_def\<close>)
  have "map_of (st_values s1) k = map_option sort_setting (map_of (st_values st) k)" for k
    unfolding same by (rule map_of_values)
  moreover have "number_of (sort_setting v) = number_of v" for v by (cases v) simp_all
  ultimately have "cross_fields s1 = cross_fields st"
    by (simp add: cross_fields_def split: option.split)
  then have "cross_fields s1 = Inr ()" using explained_resolve [OF assms(1)] by simp
  then have "resolve DEFAULT_SPECS env_keys env (only_file fi') = Inr s1"
    using s1 by (simp add: resolve_def only_file_def apply_file_def [of _ _ None] apply_mapping_def)
  with same show ?thesis by blast
qed

section \<open>Refusals\<close>

lemma toml_value_errors:
  "toml_value v \<noteq> Inl (Raised e)" "toml_values vs \<noteq> Inl (Raised e)" "toml_items d \<noteq> Inl (Raised e)"
  by (induction v and vs and d rule: toml_value_toml_values_toml_items.induct) (auto simp: bindE_eq_Inl)

lemma section_lines_errors: "section_lines d lines \<noteq> Inl (Raised e)"
  by (induction d lines rule: section_lines.induct) (auto simp: bindE_eq_Inl toml_value_errors)

lemma toml_sections_errors: "toml_sections d lines \<noteq> Inl (Raised e)"
  by (induction d lines rule: toml_sections.induct)
    (auto simp: bindE_eq_Inl section_lines_errors split: json.splits)

lemma section_lines_flat: "section_lines d lines = Inr r \<Longrightarrow> \<forall>kv \<in> set d. \<not> is_JObj (snd kv)"
  by (induction d lines rule: section_lines.induct) (auto simp: bindE_eq_Inr split: if_splits)

lemma toml_sections_flat:
  "toml_sections d lines = Inr r \<Longrightarrow> (k, JObj m) \<in> set d \<Longrightarrow> \<forall>kv \<in> set m. \<not> is_JObj (snd kv)"
  by (induction d lines rule: toml_sections.induct)
    (auto simp: bindE_eq_Inr split: json.splits dest: section_lines_flat)

text \<open>The flat values of a resolved snapshot are never accepted by a TOML settings file: the key
  bindings are a table inside the table of the user interface (and an unset model is a null value).\<close>

theorem toml_refuses_snapshot:
  assumes "resolve DEFAULT_SPECS env_keys env ls = Inr st" and "is_toml path"
  shows "\<exists>why. settings_document path (snapshot_flat st) = Inl (SettingsError why)"
proof -
  let ?n = "nested_from_input (snapshot_flat st)"
  note doc = snapshot_document [OF assms(1)]
  have "map_of setting_types ''ui.keybindings'' = Some StringMap" by (simp add: setting_types_def)
  from resolved_value [OF assms(1) this] obtain b where "map_of (st_values st) ''ui.keybindings'' = Some (SMap b)" by auto
  then have look: "lookup2 ?n ''ui'' ''keybindings'' = Some (setting_json (SMap b))"
    using doc(3) [of "''ui''" "''keybindings''"] doc(4) [of "''ui.keybindings''"] by (simp add: plain_part_def)
  obtain c where ui: "map_of ?n ''ui'' = Some (JObj c)"
  proof (cases "map_of ?n ''ui''")
    case (Some x)
    with look that show ?thesis by (cases x) (simp_all add: section_of_def)
  qed (use look in \<open>simp add: section_of_def\<close>)
  with look have c: "(''ui'', JObj c) \<in> set ?n" "(''keybindings'', setting_json (SMap b)) \<in> set c"
    by (simp_all add: section_of_def map_of_SomeD)
  have "filter (\<lambda>kv. \<not> is_JObj (snd kv)) ?n = []"
    using doc(1) by (auto simp: filter_empty_conv two_level_def elim!: section_ok.elims)
  then have "toml_document ?n = bindE (toml_sections ?n []) (\<lambda>lines. Inr (join_with (CHR 0x0A) lines @ [CHR 0x0A]))"
    by (simp add: toml_document_def)
  moreover have "toml_sections ?n [] \<noteq> Inr r" for r
    using toml_sections_flat [of ?n "[]" r, OF _ c(1)] bspec [OF _ c(2), of "\<lambda>kv. \<not> is_JObj (snd kv)"] by auto
  moreover have "toml_sections ?n [] \<noteq> Inl (Raised e)" for e by (rule toml_sections_errors)
  ultimately show ?thesis using assms(2)
    by (cases "toml_sections ?n []"; cases "projl (toml_sections ?n [])") (auto simp: settings_document_def)
qed

text \<open>An infinite value (the text \<^verbatim>\<open>Infinity\<close> in a JSON file) for an integer setting is not
  reported as a settings error: the overflow of the conversion escapes.\<close>

theorem infinite_integer_escapes:
  assumes "map_of setting_types k = Some Integer" and "\<forall>fi. la_global ls \<noteq> Some fi \<and> la_project ls \<noteq> Some fi"
    and "la_environ ls = []" and "la_cli ls = []" and "la_runtime ls = [(k, JFloat PosInf)]"
  shows "resolve DEFAULT_SPECS env_keys env ls =
    Inl (Raised (Exn OverflowError ''cannot convert float infinity to integer''))"
proof -
  from typed_specs [OF assms(1)] obtain sp where sp: "map_of DEFAULT_SPECS k = Some sp" by blast
  have "k \<in> {''provider.max_retries'', ''compaction.reserve_tokens'', ''compaction.keep_recent_tokens''}"
    using assms(1) by (auto simp: setting_types_def split: if_splits)
  then have c: "sp_coerce sp = integer" "k \<noteq> []" using sp by (auto simp: DEFAULT_SPECS_def)
  have "apply_mapping DEFAULT_SPECS [(k, JFloat PosInf)] Runtime ''runtime override'' (la_strict ls) st =
      Inl (Raised (Exn OverflowError ''cannot convert float infinity to integer''))" for st
    by (simp add: apply_mapping_def apply_item_def sp c Let_def integer_def catch_conversion_def is_value_error_def)
  moreover have "flatten [] [] (la_runtime ls) = [(k, JFloat PosInf)]" using assms(5) by (simp add: sub_key_def)
  moreover have "apply_file DEFAULT_SPECS env (la_global ls) Global (la_strict ls) st = Inr st"
    "apply_file DEFAULT_SPECS env (la_project ls) Project (la_strict ls) st = Inr st" for st
    using assms(2) by (cases "la_global ls"; cases "la_project ls"; simp add: apply_file_def)+
  ultimately show ?thesis using assms(3,4,5) by (simp add: resolve_def apply_mapping_def [of _ "[]"])
qed

text \<open>Documents in ASCII.\<close>

definition ascii :: "string \<Rightarrow> bool" where
  "ascii s \<longleftrightarrow> (\<forall>c \<in> set s. of_char c < (128 :: nat))"

lemma ascii_simps [simp]:
  "ascii []" "ascii (c # s) \<longleftrightarrow> of_char c < (128 :: nat) \<and> ascii s" "ascii (s @ t) \<longleftrightarrow> ascii s \<and> ascii t"
  by (auto simp: ascii_def)

lemma ascii_valid: "ascii s \<Longrightarrow> utf8_valid s"
  by (induction s rule: rev_induct) (simp_all add: utf8_valid_snoc byte_in_def)

fun ascii_json :: "json \<Rightarrow> bool" where
  "ascii_json (JStr s) = ascii s"
| "ascii_json (JArr xs) = (\<forall>x \<in> set xs. ascii_json x)"
| "ascii_json (JObj d) = (\<forall>kv \<in> set d. ascii (fst kv) \<and> ascii_json (snd kv))"
| "ascii_json v = ascii (json_dumps unspaced_style v)"

lemma ascii_dump_string: "ascii s \<Longrightarrow> ascii (dump_string s)"
proof (induction s)
  case (Cons c s)
  have h: "of_char (hex_digit n) < (128 :: nat)" if "n < 16" for n
    using that by (auto simp: hex_digit_def of_char_of)
  have "of_char c div 16 < (16 :: nat)" using Cons.prems by (intro less_mult_imp_div_less) simp
  moreover have "of_char c mod 16 < (16 :: nat)" by simp
  ultimately have "ascii (escape_char c)" using h Cons.prems by (simp add: escape_char_def)
  with Cons show ?case by (simp add: dump_string_def)
qed (simp add: dump_string_def)

lemma ascii_sep_list: "ascii sep \<Longrightarrow> \<forall>t \<in> set ts. ascii t \<Longrightarrow> ascii (sep_list sep ts)"
  by (induction sep ts rule: sep_list.induct) simp_all

lemma ascii_line: "ascii (line_at n)"
  by (simp add: line_at_def) (simp add: ascii_def)

lemma ascii_indented: "ascii_json v \<Longrightarrow> ascii (indented n v)"
proof (induction v arbitrary: n)
  case (JArr xs)
  have "ascii (sep_list (CHR '','' # line_at (Suc n)) (map (indented (Suc n)) xs))"
    by (rule ascii_sep_list) (use JArr in \<open>auto simp: ascii_line\<close>)
  then show ?case by (simp add: ascii_line)
next
  case (JObj d)
  have "ascii (indented (Suc n) (snd kv)) \<and> ascii (dump_string (fst kv))" if "kv \<in> set d" for kv
    using JObj.IH [of kv "snd kv" "Suc n"] JObj.prems that by (cases kv) (fastforce intro: ascii_dump_string)
  then have "ascii (sep_list (CHR '','' # line_at (Suc n)) (map (\<lambda>kv. dump_string (fst kv) @ '': '' @ snd kv)
      (sort_key fst (map (\<lambda>kv. (fst kv, indented (Suc n) (snd kv))) d))))"
    by (intro ascii_sep_list) (auto simp: ascii_line)
  then show ?case by (simp add: ascii_line)
qed (simp_all add: ascii_dump_string)

definition demo_settings_env :: settings_env where
  "demo_settings_env = \<lparr>se_unicode_error = (\<lambda>_. ''invalid byte''), se_json_error = (\<lambda>_. ''invalid text''),
     se_toml = (\<lambda>_. Inl ''invalid document'')\<rparr>"

definition demo_layers :: "jobject \<Rightarrow> layers" where
  "demo_layers rt = \<lparr>la_global = None, la_project = None, la_environ = [(''PI_THEME'', ''dark'')], la_cli = [],
     la_runtime = rt, la_strict = True\<rparr>"

lemma demo_resolution:
  "\<exists>st. resolve DEFAULT_SPECS DEFAULT_ENV_KEYS demo_settings_env (demo_layers []) = Inr st \<and>
     st_values st = dict_set ''ui.theme'' (SStr ''dark'') (st_values (default_settings DEFAULT_SPECS))"
proof -
  have env: "environment_settings DEFAULT_ENV_KEYS [(''PI_THEME'', ''dark'')] = [(''ui.theme'', JStr ''dark'')]"
    by (simp add: environment_settings_def DEFAULT_ENV_KEYS_def)
  have def_value: "map_of (st_values (default_settings specs)) k = map_option sp_default (map_of specs k)" for specs k
    by (induction specs) (simp_all add: default_settings_def)
  have sp: "map_of DEFAULT_SPECS ''ui.theme'' = Some (setting_row SNone optional_text always)"
    "map_of DEFAULT_SPECS ''compaction.keep_recent_tokens'' = Some (setting_row (SInt 20000) integer above_zero)"
    "map_of DEFAULT_SPECS ''compaction.reserve_tokens'' = Some (setting_row (SInt 16384) integer from_zero)"
    by (simp_all add: DEFAULT_SPECS_def)
  obtain s1 where s1: "apply_mapping DEFAULT_SPECS [(''ui.theme'', JStr ''dark'')] Environment ''environment'' True
      (default_settings DEFAULT_SPECS) = Inr s1" "map_of (st_values s1) ''compaction.keep_recent_tokens'' = Some (SInt 20000)"
      "map_of (st_values s1) ''compaction.reserve_tokens'' = Some (SInt 16384)"
      "st_values s1 = dict_set ''ui.theme'' (SStr ''dark'') (st_values (default_settings DEFAULT_SPECS))"
    by (simp add: apply_mapping_def apply_item_def sp(1) optional_text_def always_def Let_def def_value sp(2,3))
  have "cross_fields s1 = Inr ()" by (simp add: cross_fields_def s1(2,3))
  with s1(1,4) env show ?thesis by (simp add: resolve_def demo_layers_def apply_file_def)
qed

theorem last_layer_wins_witness:
  "\<exists>st. resolve DEFAULT_SPECS DEFAULT_ENV_KEYS demo_settings_env (demo_layers []) = Inr st \<and>
     map_of (st_values st) ''ui.theme'' = Some (SStr ''dark'') \<and>
     map_of (st_origins st) ''ui.theme'' = Some \<lparr>og_layer = Environment, og_location = ''environment'', og_key = ''ui.theme''\<rparr>"
proof -
  obtain st where st: "resolve DEFAULT_SPECS DEFAULT_ENV_KEYS demo_settings_env (demo_layers []) = Inr st"
    using demo_resolution by blast
  have sp: "map_of DEFAULT_SPECS ''ui.theme'' = Some (setting_row SNone optional_text always)" by (simp add: DEFAULT_SPECS_def)
  have "environment_settings DEFAULT_ENV_KEYS [(''PI_THEME'', ''dark'')] = [(''ui.theme'', JStr ''dark'')]"
    by (simp add: environment_settings_def DEFAULT_ENV_KEYS_def)
  then have "last_layer (layer_maps DEFAULT_ENV_KEYS demo_settings_env (demo_layers [])) ''ui.theme'' =
      Some (Environment, ''environment'', JStr ''dark'')"
    by (simp add: layer_maps_def demo_layers_def file_layer_def last_layer_def)
  with last_layer_wins [OF st sp] st show ?thesis by (simp add: optional_text_def always_def)
qed

theorem resolved_settings_typed_witness:
  "\<exists>st keep reserve. resolve DEFAULT_SPECS DEFAULT_ENV_KEYS demo_settings_env (demo_layers []) = Inr st \<and>
     map_of (st_values st) ''compaction.keep_recent_tokens'' = Some (SInt keep) \<and>
     map_of (st_values st) ''compaction.reserve_tokens'' = Some (SInt reserve) \<and> reserve < keep"
  using demo_resolution resolved_settings_typed by blast

theorem toml_refuses_snapshot_witness:
  "\<exists>st why. resolve DEFAULT_SPECS DEFAULT_ENV_KEYS demo_settings_env (demo_layers []) = Inr st \<and>
     settings_document ''/home/u/settings.toml'' (snapshot_flat st) = Inl (SettingsError why)"
proof -
  have "is_toml ''/home/u/settings.toml''" by (simp add: is_toml_def Let_def lower_def lower_char_def)
  with demo_resolution toml_refuses_snapshot show ?thesis by blast
qed

theorem infinite_integer_escapes_witness:
  "resolve DEFAULT_SPECS DEFAULT_ENV_KEYS demo_settings_env
     ((demo_layers [(''provider.max_retries'', JFloat PosInf)])\<lparr>la_environ := []\<rparr>) =
     Inl (Raised (Exn OverflowError ''cannot convert float infinity to integer''))"
  by (rule infinite_integer_escapes [of "''provider.max_retries''"]) (simp_all add: setting_types_def demo_layers_def)

lemma demo_floats:
  "dump_float (Fin 600) = ''600.0''" "dump_float (Fin 120) = ''120.0''" "dump_float (Fin 60) = ''60.0''"
proof -
  have k: "decimal_scale 1100 (of_int i) = 0" for i
    using decimal_scale.simps(2) [of 1099 "of_int i"] by simp
  have z: "strip_zeros 400 m = (if m \<noteq> 0 \<and> m mod 10 = 0 then map_prod id Suc (strip_zeros 399 (m div 10)) else (m, 0))"
    "strip_zeros 399 m = (if m \<noteq> 0 \<and> m mod 10 = 0 then map_prod id Suc (strip_zeros 398 (m div 10)) else (m, 0))"
    "strip_zeros 398 m = (if m \<noteq> 0 \<and> m mod 10 = 0 then map_prod id Suc (strip_zeros 397 (m div 10)) else (m, 0))" for m
    using strip_zeros.simps(2) [of 399 m] strip_zeros.simps(2) [of 398 m] strip_zeros.simps(2) [of 397 m] by simp_all
  have c: "char_of (54 :: nat) = CHR ''6''" "char_of (49 :: nat) = CHR ''1''" "char_of (50 :: nat) = CHR ''2''"
    "replicate 2 (CHR ''0'') = ''00''"
    by code_simp+
  show "dump_float (Fin 600) = ''600.0''" "dump_float (Fin 120) = ''120.0''" "dump_float (Fin 60) = ''60.0''"
    using k [of 600] k [of 120] k [of 60]
    by (simp_all add: repr_positive_def Let_def z nat_digits.simps c)
qed

lemma demo_float_ok:
  "json_ok (JFloat (Fin 600))" "json_ok (JFloat (Fin 120))" "json_ok (JFloat (Fin 60))"
  unfolding json_ok.simps demo_floats by code_simp+

lemma demo_values:
  assumes "st_values st = dict_set ''ui.theme'' (SStr ''dark'') (st_values (default_settings DEFAULT_SPECS))"
    and "kv \<in> set (st_values st)"
  shows "json_ok (setting_json (snd kv)) \<and> ascii_json (setting_json (snd kv))"
proof -
  have def: "json_ok (setting_json (sp_default (snd ks))) \<and> ascii_json (setting_json (sp_default (snd ks)))"
    if "ks \<in> set DEFAULT_SPECS" for ks
  proof -
    have "\<forall>ks \<in> set DEFAULT_SPECS. sp_default (snd ks) \<in> {SFloat (Fin 600), SFloat (Fin 120), SFloat (Fin 60)} \<or>
      json_ok (setting_json (sp_default (snd ks))) \<and> ascii_json (setting_json (sp_default (snd ks)))"
      by (simp add: DEFAULT_SPECS_def py_str_int_def nat_digits.simps of_char_of)
    from bspec [OF this that] demo_float_ok show ?thesis by (auto simp: demo_floats simp del: json_ok.simps dump_float.simps)
  qed
  from dict_set_mem [OF assms(2) [unfolded assms(1)]] show ?thesis
  proof
    assume "kv = (''ui.theme'', SStr ''dark'')"
    then show ?thesis by simp
  next
    assume "kv \<in> set (st_values (default_settings DEFAULT_SPECS))"
    then obtain ks where "ks \<in> set DEFAULT_SPECS" "kv = (fst ks, sp_default (snd ks))" by (auto simp: default_settings_def)
    with def show ?thesis by simp
  qed
qed

theorem saved_snapshot_reloads_witness:
  "\<exists>st fi' st'. resolve DEFAULT_SPECS DEFAULT_ENV_KEYS demo_settings_env (demo_layers []) = Inr st \<and>
     save_settings_file \<lparr>fi_path = ''/home/u/settings.json'', fi_state = Missing\<rparr> (snapshot_flat st) = Inr fi' \<and>
     resolve DEFAULT_SPECS DEFAULT_ENV_KEYS demo_settings_env (only_file fi') = Inr st' \<and>
     map_of (st_values st') ''ui.theme'' = Some (SStr ''dark'')"
proof -
  obtain st where st: "resolve DEFAULT_SPECS DEFAULT_ENV_KEYS demo_settings_env (demo_layers []) = Inr st"
    "st_values st = dict_set ''ui.theme'' (SStr ''dark'') (st_values (default_settings DEFAULT_SPECS))"
    using demo_resolution by blast
  note vals = demo_values [OF st(2)]
  let ?fi = "\<lparr>fi_path = ''/home/u/settings.json'', fi_state = Missing\<rparr>"
  let ?n = "nested_from_input (snapshot_flat st)"
  have toml: "\<not> is_toml (fi_path ?fi)" by (simp add: is_toml_def Let_def lower_def lower_char_def)
  have "ascii a \<and> ascii_json x" if ax: "(a, x) \<in> set ?n" for a x
  proof -
    from document_sections [OF st(1) ax] obtain c where c: "x = JObj c" "c \<noteq> []"
      "\<forall>(b, y) \<in> set c. \<exists>v. map_of (st_values st) (a @ CHR ''.'' # b) = Some v \<and> y = setting_json v" by blast
    have each: "ascii a \<and> ascii b \<and> ascii_json y" if "(b, y) \<in> set c" for b y
    proof -
      from c(3) that obtain v where v: "map_of (st_values st) (a @ CHR ''.'' # b) = Some v" "y = setting_json v" by auto
      from known_key [OF st(1) v(1)] obtain sp where "map_of DEFAULT_SPECS (a @ CHR ''.'' # b) = Some sp" by blast
      then have mem: "(a @ CHR ''.'' # b, sp) \<in> set DEFAULT_SPECS" by (rule map_of_SomeD)
      have "\<forall>ks \<in> set DEFAULT_SPECS. ascii (fst ks)" by (simp add: DEFAULT_SPECS_def)
      from bspec [OF this mem] have "ascii a \<and> ascii b" by simp
      with vals [OF map_of_SomeD [OF v(1)]] v(2) show ?thesis by simp
    qed
    obtain b y where "(b, y) \<in> set c" using c(2) by (cases c) auto
    with each c(1) show ?thesis by auto
  qed
  then have "ascii_json (JObj ?n)" by auto
  then have "utf8_valid (indented 0 (JObj ?n) @ [CHR 0x0A])"
    by (intro ascii_valid) (simp add: ascii_indented del: indented.simps)
  then obtain fi' where fi': "save_settings_file ?fi (snapshot_flat st) = Inr fi'"
    using toml by (simp add: save_settings_file_def settings_document_def Let_def)
  from saved_snapshot_reloads [OF st(1) _ toml fi'] vals obtain st' where
    st': "resolve DEFAULT_SPECS DEFAULT_ENV_KEYS demo_settings_env (only_file fi') = Inr st'"
    "st_values st' = map (\<lambda>kv. (fst kv, sort_setting (snd kv))) (st_values st)" by blast
  have "map_of (st_values st') ''ui.theme'' = Some (SStr ''dark'')"
    unfolding st'(2) map_of_values by (simp add: st(2))
  with st(1) fi' st'(1) show ?thesis by blast
qed

end
