(* ===== verification/PyText.thy ===== *)
theory PyText
  imports SessionFile Patterns
begin

text \<open>
  Python's text operations that the file tools use.  \<^verbatim>\<open>str.replace\<close>, \<^verbatim>\<open>str.count\<close> and
  \<^verbatim>\<open>str.index\<close> are on UTF-8 bytes: an occurrence of a character sequence in a text is an
  occurrence of its encoding.  Positions in characters come from \<open>char_count\<close>.  Lines are split on
  code points.
\<close>

section \<open>Search and replacement\<close>

fun find_index :: "string \<Rightarrow> string \<Rightarrow> nat option" where
  "find_index p [] = (if p = [] then Some 0 else None)"
| "find_index p (c # s) =
     (if prefix p (c # s) then Some 0 else map_option Suc (find_index p s))"

definition contains :: "string \<Rightarrow> string \<Rightarrow> bool" where
  "contains p s \<longleftrightarrow> find_index p s \<noteq> None"

text \<open>Occurrences are counted and replaced from left to right without overlap; \<open>p\<close> is not empty.\<close>

fun count_text :: "string \<Rightarrow> string \<Rightarrow> nat" where
  "count_text p [] = 0"
| "count_text p (c # s) =
     (if p \<noteq> [] \<and> prefix p (c # s) then Suc (count_text p (drop (length p - 1) s)) else count_text p s)"

fun replace_text :: "string \<Rightarrow> string \<Rightarrow> string \<Rightarrow> string" where
  "replace_text p r [] = []"
| "replace_text p r (c # s) =
     (if p \<noteq> [] \<and> prefix p (c # s) then r @ replace_text p r (drop (length p - 1) s)
      else c # replace_text p r s)"

definition char_count :: "string \<Rightarrow> nat" where
  "char_count s = length (utf8_chars s)"

section \<open>Code points and lines\<close>

fun byte_code :: "char \<Rightarrow> nat" where
  "byte_code c = of_char c"

fun char_code :: "string \<Rightarrow> codepoint" where
  "char_code [a] = byte_code a"
| "char_code [a, b] = (byte_code a - 192) * 64 + (byte_code b - 128)"
| "char_code [a, b, c] =
     ((byte_code a - 224) * 64 + (byte_code b - 128)) * 64 + (byte_code c - 128)"
| "char_code [a, b, c, d] =
     (((byte_code a - 240) * 64 + (byte_code b - 128)) * 64 + (byte_code c - 128)) * 64
       + (byte_code d - 128)"
| "char_code _ = 65533"

definition decode_text :: "string \<Rightarrow> text" where
  "decode_text s = map char_code (utf8_chars s)"

definition encode_text :: "text \<Rightarrow> string" where
  "encode_text t = concat (map utf8_encode t)"

definition line_break :: "codepoint \<Rightarrow> bool" where
  "line_break c \<longleftrightarrow> c \<in> {10, 11, 12, 13, 28, 29, 30, 133, 8232, 8233}"

text \<open>\<^verbatim>\<open>str.splitlines(keepends=True)\<close> and \<^verbatim>\<open>str.splitlines()\<close>.\<close>

fun text_lines_keep :: "text \<Rightarrow> text list" where
  "text_lines_keep [] = []"
| "text_lines_keep (c # s) =
     (if line_break c \<and> \<not> (c = 13 \<and> take 1 s = [10]) then [c] # text_lines_keep s
      else (case text_lines_keep s of [] \<Rightarrow> [[c]] | l # ls \<Rightarrow> (c # l) # ls))"

definition strip_break :: "text \<Rightarrow> text" where
  "strip_break l =
     (if l \<noteq> [] \<and> line_break (last l) then
        (let b = butlast l in if last l = 10 \<and> b \<noteq> [] \<and> last b = 13 then butlast b else b)
      else l)"

definition text_lines :: "text \<Rightarrow> text list" where
  "text_lines s = map strip_break (text_lines_keep s)"

section \<open>Sizes\<close>

text \<open>\<^verbatim>\<open>f"{n / d:.1f}"\<close> for non-negative \<open>n\<close>: the tenths of the quotient, rounded half to
  even.  The quotients of \<^verbatim>\<open>format_size\<close> are exact in binary, so the exact value is what Python
  rounds.\<close>

definition tenths :: "int \<Rightarrow> int \<Rightarrow> int" where
  "tenths n d =
     (let q = n * 10 div d; r = n * 10 mod d
      in if 2 * r < d then q else if d < 2 * r then q + 1 else if even q then q else q + 1)"

definition one_decimal :: "int \<Rightarrow> int \<Rightarrow> string" where
  "one_decimal n d = py_str_int (tenths n d div 10) @ CHR ''.'' # py_str_int (tenths n d mod 10)"

definition format_size :: "int \<Rightarrow> string" where
  "format_size n =
     (if n < 1024 then py_str_int n @ ''B''
      else if n < 1024 * 1024 then one_decimal n 1024 @ ''KB''
      else one_decimal n (1024 * 1024) @ ''MB'')"

end
