(* ===== verification/FileEnv.thy ===== *)
theory FileEnv
  imports PyText Security
begin

text \<open>
  The execution environment as the coding tools see it
  (\<^verbatim>\<open>src/pi_agent/harness/types.py\<close>, \<^verbatim>\<open>result.py\<close>, \<^verbatim>\<open>path_utils.py\<close>,
  \<^verbatim>\<open>tools/common.py\<close>).  An environment is a record of its calls; each changes the world
  and returns a \<^verbatim>\<open>Result\<close>, or raises.  A cancellation token is what it shows of the world:
  the reason, once it is cancelled.
\<close>

section \<open>Results\<close>

record file_error =
  fe_code :: string
  fe_message :: string
  fe_path :: "string option"

type_synonym ('w, 'a) env_call = "('w, file_error + 'a) hook"

type_synonym 'w signal = "'w \<Rightarrow> string option"

definition no_signal :: "'w signal" where "no_signal w = None"

record file_info =
  fi_name :: string
  fi_path :: string
  fi_kind :: string
  fi_size :: int

text \<open>\<^verbatim>\<open>get_or_raise\<close>: a \<^verbatim>\<open>FileError\<close> is an exception and is raised.\<close>

fun get_or_raise :: "file_error + 'a \<Rightarrow> (exn, 'a) result" where
  "get_or_raise (Inr x) = Inr x"
| "get_or_raise (Inl e) = Inl (Exn FileError (fe_message e))"

definition call_env :: "('w, 'a) env_call \<Rightarrow> ('w, 'a) hook" where
  "call_env f = and_then f (\<lambda>r. settle (get_or_raise r))"

section \<open>The environment\<close>

text \<open>\<open>xe_nfd\<close> is \<^verbatim>\<open>unicodedata.normalize("NFD", _)\<close>, whose tables are not part of the model.\<close>

record 'w execution_env =
  xe_absolute_path :: "string \<Rightarrow> 'w signal \<Rightarrow> ('w, string) env_call"
  xe_canonical_path :: "string \<Rightarrow> 'w signal \<Rightarrow> ('w, string) env_call"
  xe_exists :: "string \<Rightarrow> 'w signal \<Rightarrow> ('w, bool) env_call"
  xe_file_info :: "string \<Rightarrow> 'w signal \<Rightarrow> ('w, file_info) env_call"
  xe_read_binary_file :: "string \<Rightarrow> 'w signal \<Rightarrow> ('w, string) env_call"
  xe_write_file :: "string \<Rightarrow> string \<Rightarrow> 'w signal \<Rightarrow> ('w, unit) env_call"
  xe_nfd :: "string \<Rightarrow> string"

definition check_signal :: "'w signal \<Rightarrow> ('w, unit) hook" where
  "check_signal signal w =
     ((case signal w of None \<Rightarrow> Inr () | Some reason \<Rightarrow> Inl (Exn CancelledError reason)), w)"

section \<open>Arguments\<close>

definition require_string :: "jobject \<Rightarrow> string \<Rightarrow> (exn, string) result" where
  "require_string args name =
     (case jget args name of JStr s \<Rightarrow> Inr s
      | _ \<Rightarrow> Inl (Exn ValueError (name @ '' must be a string'')))"

definition optional_positive_int :: "jobject \<Rightarrow> string \<Rightarrow> (exn, int option) result" where
  "optional_positive_int args name =
     (case jget args name of
        JNull \<Rightarrow> Inr None
      | JInt i \<Rightarrow> if i \<le> 0 then Inl (Exn ValueError (name @ '' must be a positive integer'')) else Inr (Some i)
      | _ \<Rightarrow> Inl (Exn ValueError (name @ '' must be a positive integer'')))"

definition file_result :: "string \<Rightarrow> jobject \<Rightarrow> agent_tool_result" where
  "file_result msg details =
     \<lparr>tr_content = [TextContent msg JNull], tr_details = JObj details, tr_usage = None,
      tr_added_tool_names = JNull, tr_terminate = False, tr_is_error = False\<rparr>"

section \<open>Paths\<close>

definition UNICODE_SPACES :: "string list" where
  "UNICODE_SPACES =
     map utf8_encode
       [160, 8192, 8193, 8194, 8195, 8196, 8197, 8198, 8199, 8200, 8201, 8202, 8239, 8287, 12288]"

definition plain_spaces :: "string \<Rightarrow> string" where
  "plain_spaces s = concat (map (\<lambda>g. if g \<in> set UNICODE_SPACES then '' '' else g) (utf8_chars s))"

definition normalize_tool_path :: "string \<Rightarrow> string" where
  "normalize_tool_path path =
     (let normalized = plain_spaces path
      in if take 1 normalized = ''@'' then drop 1 normalized else normalized)"

definition resolve_tool_path :: "'w execution_env \<Rightarrow> string \<Rightarrow> 'w signal \<Rightarrow> ('w, string) hook" where
  "resolve_tool_path env path signal = call_env (xe_absolute_path env (normalize_tool_path path) signal)"

text \<open>\<^verbatim>\<open>re.sub(r" (AM|PM)\.", ...)\<close> ignoring case: the space becomes U+202F.\<close>

fun narrow_space :: "string \<Rightarrow> string" where
  "narrow_space (c # a # m # d # s) =
     (if c = CHR '' '' \<and> a \<in> set ''AaPp'' \<and> m \<in> set ''Mm'' \<and> d = CHR ''.''
      then utf8_encode 8239 @ [a, m, d] @ narrow_space s
      else c # narrow_space (a # m # d # s))"
| "narrow_space s = s"

definition path_variants :: "'w execution_env \<Rightarrow> string \<Rightarrow> string list" where
  "path_variants env resolved =
     [resolved, narrow_space resolved, xe_nfd env resolved,
      replace_text [CHR 0x27] (utf8_encode 8217) resolved,
      replace_text [CHR 0x27] (utf8_encode 8217) (xe_nfd env resolved)]"

fun first_existing :: "'w execution_env \<Rightarrow> 'w signal \<Rightarrow> string list \<Rightarrow> string list \<Rightarrow> ('w, string option) hook" where
  "first_existing env signal seen [] = pure None"
| "first_existing env signal seen (v # vs) =
     (if v \<in> set seen then first_existing env signal seen vs
      else and_then (call_env (xe_exists env v signal)) (\<lambda>found.
        if found then pure (Some v) else first_existing env signal (v # seen) vs))"

definition resolve_read_tool_path :: "'w execution_env \<Rightarrow> string \<Rightarrow> 'w signal \<Rightarrow> ('w, string) hook" where
  "resolve_read_tool_path env path signal =
     and_then (resolve_tool_path env path signal) (\<lambda>resolved.
     and_then (first_existing env signal [] (path_variants env resolved)) (\<lambda>v.
     pure (case v of Some p \<Rightarrow> p | None \<Rightarrow> resolved)))"

section \<open>The mutation queue\<close>

text \<open>The key under which a mutation is serialized.  A tool call that runs alone gets the lock at
  once; calls that run together are the subject of the theory \<open>MutationQueue\<close>.\<close>

definition queue_key :: "'w execution_env \<Rightarrow> string \<Rightarrow> ('w, string) hook" where
  "queue_key env path =
     and_then (call_env (xe_absolute_path env path no_signal)) (\<lambda>absolute.
     and_then (xe_canonical_path env absolute no_signal) (\<lambda>canonical.
       case canonical of
         Inr key \<Rightarrow> pure key
       | Inl e \<Rightarrow>
           if fe_code e = ''not_found'' \<or> fe_code e = ''not_supported'' then pure absolute
           else fails (Exn FileError (fe_message e))))"

definition with_file_mutation_queue ::
  "'w execution_env \<Rightarrow> string \<Rightarrow> ('w, 'a) hook \<Rightarrow> ('w, 'a) hook" where
  "with_file_mutation_queue env path operation = and_then (queue_key env path) (\<lambda>_. operation)"

end
