(* ===== verification/FileTools.thy ===== *)
theory FileTools
  imports FileEnv
begin

text \<open>
  The tools that change files (\<^verbatim>\<open>src/pi_agent/harness/tools/edit.py\<close> and
  \<^verbatim>\<open>write.py\<close>), as the functions that the agent loop executes.
\<close>

section \<open>Edits\<close>

record text_edit =
  ed_old_text :: string
  ed_new_text :: string

fun parse_edit_items :: "nat \<Rightarrow> json list \<Rightarrow> (exn, text_edit list) result" where
  "parse_edit_items i [] = Inr []"
| "parse_edit_items i (item # items) =
     (case item of
        JObj d \<Rightarrow>
          (case (jget d ''oldText'', jget d ''newText'') of
             (JStr old, JStr new) \<Rightarrow>
               bindE (parse_edit_items (Suc i) items) (\<lambda>es.
               Inr (\<lparr>ed_old_text = old, ed_new_text = new\<rparr> # es))
           | _ \<Rightarrow> Inl (Exn ValueError
                   (''Edit '' @ nat_digits i @ '' oldText and newText must be strings'')))
      | _ \<Rightarrow> Inl (Exn ValueError (''Edit '' @ nat_digits i @ '' must be an object'')))"

definition parse_edits :: "jobject \<Rightarrow> (exn, text_edit list) result" where
  "parse_edits args =
     (let raw = jget args ''edits'';
          single = jmem ''oldText'' args \<or> jmem ''newText'' args
      in if raw \<noteq> JNull \<and> single then
           Inl (Exn ValueError ''Use either oldText/newText or edits, not both'')
         else if raw \<noteq> JNull then
           (case raw of
              JArr (item # items) \<Rightarrow> parse_edit_items 1 (item # items)
            | _ \<Rightarrow> Inl (Exn ValueError ''edits must be a non-empty array''))
         else
           (case (jget args ''oldText'', jget args ''newText'') of
              (JStr old, JStr new) \<Rightarrow> Inr [\<lparr>ed_old_text = old, ed_new_text = new\<rparr>]
            | _ \<Rightarrow> Inl (Exn ValueError ''oldText and newText are required for a single edit'')))"

definition CR :: char where "CR = CHR 0x0D"
definition LF :: char where "LF = CHR 0x0A"

definition normalize_newlines :: "string \<Rightarrow> string" where
  "normalize_newlines s = replace_text [CR] [LF] (replace_text [CR, LF] [LF] s)"

definition detect_newline :: "string \<Rightarrow> string" where
  "detect_newline s =
     (if contains [CR, LF] s then [CR, LF] else if contains [CR] s then [CR] else [LF])"

text \<open>One turn of the loop over the edits: the new text and the record of the replacement.\<close>

definition edit_error :: "nat \<Rightarrow> string \<Rightarrow> exn" where
  "edit_error i msg = Exn ValueError (''Edit '' @ nat_digits i @ msg)"

definition replacement_json :: "nat \<Rightarrow> nat \<Rightarrow> string \<Rightarrow> string \<Rightarrow> json" where
  "replacement_json i position old new =
     JObj [(''index'', JInt (int i)), (''position'', JInt (int position)),
           (''removedChars'', JInt (int (char_count old))), (''addedChars'', JInt (int (char_count new)))]"

definition apply_edit :: "string \<Rightarrow> nat \<Rightarrow> text_edit \<Rightarrow> string \<Rightarrow> (exn, string \<times> json) result" where
  "apply_edit raw_path i e updated =
     (let old = normalize_newlines (ed_old_text e);
          new = normalize_newlines (ed_new_text e);
          occurrences = count_text old updated
      in if old = [] then Inl (edit_error i '' oldText must not be empty'')
         else if occurrences = 0 then Inl (edit_error i ('' oldText was not found in '' @ raw_path))
         else if occurrences > 1 then
           Inl (edit_error i ('' oldText matched '' @ nat_digits occurrences @ '' locations in ''
                  @ raw_path @ ''; provide more context''))
         else case find_index old updated of
           None \<Rightarrow> Inl (Exn ValueError ''substring not found'')
         | Some p \<Rightarrow>
             Inr (take p updated @ new @ drop (p + length old) updated,
                  replacement_json i (char_count (take p updated)) old new))"

fun apply_edits :: "string \<Rightarrow> nat \<Rightarrow> text_edit list \<Rightarrow> string \<Rightarrow> (exn, string \<times> json list) result" where
  "apply_edits raw_path i [] updated = Inr (updated, [])"
| "apply_edits raw_path i (e # es) updated =
     bindE (apply_edit raw_path i e updated) (\<lambda>(updated', r).
     bindE (apply_edits raw_path (Suc i) es updated') (\<lambda>(final, rs). Inr (final, r # rs)))"

definition restore_newlines :: "string \<Rightarrow> string \<Rightarrow> string" where
  "restore_newlines newline_text updated =
     (if newline_text \<noteq> [LF] then replace_text [LF] newline_text updated else updated)"

text \<open>From the bytes of the file to the bytes to write; \<^verbatim>\<open>encode("utf-8")\<close> refuses lone
  surrogates, but only when something changed.\<close>

definition file_text :: "string \<Rightarrow> string \<Rightarrow> string \<Rightarrow> (exn, unit) result" where
  "file_text what raw_path data =
     (if CHR 0x00 \<in> set (take 8192 data) then
        Inl (Exn ValueError (''Binary files are not supported by '' @ what @ '': '' @ raw_path))
      else if \<not> utf8_valid data then
        Inl (Exn ValueError (''File is not valid UTF-8: '' @ raw_path))
      else Inr ())"

definition edited_text :: "string \<Rightarrow> text_edit list \<Rightarrow> string \<Rightarrow> (exn, string \<times> json list) result" where
  "edited_text raw_path edits data =
     bindE (file_text ''edit'' raw_path data) (\<lambda>_.
     bindE (apply_edits raw_path 1 edits (normalize_newlines data)) (\<lambda>(updated, rs).
     Inr (restore_newlines (detect_newline data) updated, rs)))"

definition encodable :: "string \<Rightarrow> (exn, unit) result" where
  "encodable s = (if utf8_valid s then Inr () else Inl (Exn ValueError ''surrogates not allowed''))"

definition mutate_edit ::
  "'w execution_env \<Rightarrow> 'w signal \<Rightarrow> string \<Rightarrow> string \<Rightarrow> text_edit list \<Rightarrow> ('w, agent_tool_result) hook" where
  "mutate_edit env signal raw_path resolved edits =
     and_then (call_env (xe_read_binary_file env resolved signal)) (\<lambda>data.
     and_then (settle (edited_text raw_path edits data)) (\<lambda>(restored, rs).
       if restored = data then
         pure (file_result (''No changes needed in '' @ raw_path)
           [(''path'', JStr resolved), (''changed'', JBool False),
            (''replacements'', JInt (int (length rs))), (''edits'', JArr rs)])
       else
         and_then (settle (encodable restored)) (\<lambda>_.
         and_then (call_env (xe_write_file env resolved restored signal)) (\<lambda>_.
         pure (file_result
           (''Applied '' @ nat_digits (length edits) @ '' edit(s) to '' @ raw_path)
           [(''path'', JStr resolved), (''changed'', JBool True),
            (''beforeBytes'', JInt (int (length data))), (''afterBytes'', JInt (int (length restored))),
            (''replacements'', JInt (int (length rs))), (''edits'', JArr rs)])))))"

definition execute_edit :: "'w execution_env \<Rightarrow> 'w signal \<Rightarrow> jobject \<Rightarrow> ('w, agent_tool_result) hook" where
  "execute_edit env signal args =
     and_then (check_signal signal) (\<lambda>_.
     and_then (settle (require_string args ''path'')) (\<lambda>raw_path.
     and_then (settle (parse_edits args)) (\<lambda>edits.
     and_then (resolve_tool_path env (normalize_tool_path raw_path) signal) (\<lambda>resolved.
     with_file_mutation_queue env resolved (mutate_edit env signal raw_path resolved edits)))))"

section \<open>Whole files\<close>

definition mutate_write ::
  "'w execution_env \<Rightarrow> 'w signal \<Rightarrow> string \<Rightarrow> string \<Rightarrow> string \<Rightarrow> ('w, agent_tool_result) hook" where
  "mutate_write env signal raw_path resolved data =
     and_then (call_env (xe_exists env resolved signal)) (\<lambda>existed.
     and_then (call_env (xe_write_file env resolved data signal)) (\<lambda>_.
     pure (file_result
       ((if existed then ''Updated'' else ''Created'') @ '' '' @ raw_path @ '' ('' @ nat_digits (length data)
          @ '' bytes)'')
       [(''path'', JStr resolved), (''bytes'', JInt (int (length data))), (''existed'', JBool existed),
        (''created'', JBool (\<not> existed))])))"

definition execute_write :: "'w execution_env \<Rightarrow> 'w signal \<Rightarrow> jobject \<Rightarrow> ('w, agent_tool_result) hook" where
  "execute_write env signal args =
     and_then (check_signal signal) (\<lambda>_.
     and_then (settle (require_string args ''path'')) (\<lambda>raw_path.
     and_then (settle (require_string args ''content'')) (\<lambda>content.
     and_then (resolve_tool_path env (normalize_tool_path raw_path) signal) (\<lambda>resolved.
     and_then (settle (encodable content)) (\<lambda>_.
     with_file_mutation_queue env resolved (mutate_write env signal raw_path resolved content))))))"

section \<open>The tools\<close>

text \<open>A tool that reports no progress.\<close>

definition coding_tool ::
  "string \<Rightarrow> string \<Rightarrow> string \<Rightarrow> jobject \<Rightarrow> execution_mode \<Rightarrow> (jobject \<Rightarrow> ('w, agent_tool_result) hook)
   \<Rightarrow> 'w agent_tool" where
  "coding_tool name label description parameters mode execute =
     \<lparr>t_name = name, t_label = label, t_description = description, t_parameters = parameters,
      t_execute = (\<lambda>_ args w. (([], fst (execute args w)), snd (execute args w))),
      t_prepare_arguments = None, t_execution_mode = mode, t_timeout = None,
      t_constrained_sampling = JBool False\<rparr>"

definition string_schema :: json where "string_schema = JObj [(''type'', JStr ''string'')]"

definition path_schema :: json where
  "path_schema = JObj [(''type'', JStr ''string''), (''minLength'', JInt 1)]"

definition edit_parameters :: jobject where
  "edit_parameters =
     [(''type'', JStr ''object''), (''required'', JArr [JStr ''path'']),
      (''properties'', JObj
        [(''path'', path_schema), (''oldText'', string_schema), (''newText'', string_schema),
         (''edits'', JObj
           [(''type'', JStr ''array''), (''minItems'', JInt 1),
            (''items'', JObj
              [(''type'', JStr ''object''), (''required'', JArr [JStr ''oldText'', JStr ''newText'']),
               (''properties'', JObj [(''oldText'', string_schema), (''newText'', string_schema)]),
               (''additionalProperties'', JBool False)])])]),
      (''additionalProperties'', JBool False)]"

definition write_parameters :: jobject where
  "write_parameters =
     [(''type'', JStr ''object''), (''required'', JArr [JStr ''path'', JStr ''content'']),
      (''properties'', JObj [(''path'', path_schema), (''content'', string_schema)]),
      (''additionalProperties'', JBool False)]"

definition edit_tool :: "'w execution_env \<Rightarrow> 'w signal \<Rightarrow> 'w agent_tool" where
  "edit_tool env signal = coding_tool ''edit'' ''Edit''
     (''Apply one or more exact, unique text replacements atomically. ''
        @ ''Use oldText/newText for one edit or edits for a sequence.'')
     edit_parameters Sequential (execute_edit env signal)"

definition write_tool :: "'w execution_env \<Rightarrow> 'w signal \<Rightarrow> 'w agent_tool" where
  "write_tool env signal = coding_tool ''write'' ''Write'' ''Atomically create or replace a UTF-8 text file.''
     write_parameters Sequential (execute_write env signal)"

end
