(* ===== verification/LocalEnv.thy ===== *)
theory LocalEnv
  imports FileEnv
begin

text \<open>
  The local execution environment (\<^verbatim>\<open>src/pi_agent/harness/environment.py\<close>): its paths,
  the wrapper around every file operation, and the operations on files.  The operating system is
  a record of calls on its own state; what is relied on of it is the locale \<open>posix_files\<close>.
  Listing, temporary directories, decoding reads and subprocesses are not modelled.
\<close>

section \<open>The operating system\<close>

datatype os_kind =
    FileNotFoundError | PermissionError | NotADirectoryError | IsADirectoryError
  | ValueOrTypeError | NotImplementedError | OtherOSError

datatype os_exn = OSExn os_kind string

type_synonym ('o, 'a) os_call = "'o \<Rightarrow> (os_exn + 'a) \<times> 'o"

text \<open>\<open>os_fill\<close> writes, flushes and syncs the file that \<^verbatim>\<open>mkstemp\<close> made, \<open>os_append\<close> does the same
  at the end of a file, \<open>os_unlink\<close> ignores a missing file and \<open>os_remove\<close> does not, \<open>os_lstat\<close>
  describes a path without following it, and \<open>os_is_directory\<close> is false of links.\<close>

record 'o os_calls =
  os_mkdir_parents :: "string \<Rightarrow> ('o, unit) os_call"
  os_mkstemp :: "string \<Rightarrow> string \<Rightarrow> ('o, string) os_call"
  os_fill :: "string \<Rightarrow> string \<Rightarrow> ('o, unit) os_call"
  os_append :: "string \<Rightarrow> string \<Rightarrow> ('o, unit) os_call"
  os_replace :: "string \<Rightarrow> string \<Rightarrow> ('o, unit) os_call"
  os_unlink :: "string \<Rightarrow> ('o, unit) os_call"
  os_read_bytes :: "string \<Rightarrow> ('o, string) os_call"
  os_lexists :: "string \<Rightarrow> ('o, bool) os_call"
  os_lstat :: "string \<Rightarrow> ('o, file_info) os_call"
  os_realpath :: "string \<Rightarrow> ('o, string) os_call"
  os_is_directory :: "string \<Rightarrow> ('o, bool) os_call"
  os_mkdir :: "string \<Rightarrow> ('o, unit) os_call"
  os_remove :: "string \<Rightarrow> ('o, unit) os_call"
  os_rmdir :: "string \<Rightarrow> ('o, unit) os_call"
  os_rmtree :: "string \<Rightarrow> ('o, unit) os_call"

definition os_then :: "('o, 'a) os_call \<Rightarrow> ('a \<Rightarrow> ('o, 'b) os_call) \<Rightarrow> ('o, 'b) os_call" where
  "os_then f g w = (case f w of (Inl e, w') \<Rightarrow> (Inl e, w') | (Inr x, w') \<Rightarrow> g x w')"

section \<open>Paths\<close>

text \<open>\<^verbatim>\<open>os.path.normpath\<close> of an absolute path, on its parts below the root.\<close>

fun normal_parts :: "string list \<Rightarrow> string list \<Rightarrow> string list" where
  "normal_parts up [] = rev up"
| "normal_parts up (p # ps) =
     (if p = ''..'' then normal_parts (drop 1 up) ps else normal_parts (p # up) ps)"

definition posix_join :: "string \<Rightarrow> string list \<Rightarrow> string" where
  "posix_join top_part parts = top_part @ join_with (CHR ''/'') parts"

text \<open>\<^verbatim>\<open>resolve\<close>; \<open>cwd\<close> is absolute, as the constructor made it.\<close>

definition resolve_local :: "(string \<Rightarrow> string option) \<Rightarrow> string \<Rightarrow> string \<Rightarrow> (exn, string) result" where
  "resolve_local home cwd path = bindE (expanduser home path) (\<lambda>parts.
     Inr (case (if is_absolute parts then parts else posix_parts cwd @ parts) of
            [] \<Rightarrow> ''/''
          | top_part # rest \<Rightarrow> posix_join top_part (normal_parts [] rest)))"

definition path_parent :: "string \<Rightarrow> string" where
  "path_parent path =
     (case posix_parts path of [] \<Rightarrow> ''.'' | top_part # rest \<Rightarrow> posix_join top_part (butlast rest))"

definition path_name :: "string \<Rightarrow> string" where
  "path_name path = (case posix_parts path of [] \<Rightarrow> '''' | _ # rest \<Rightarrow> (if rest = [] then [] else last rest))"

section \<open>File operations\<close>

record 'o local_env =
  le_cwd :: string
  le_home :: "string \<Rightarrow> string option"
  le_os :: "'o os_calls"

definition local_path :: "'o local_env \<Rightarrow> string \<Rightarrow> (exn, string) result" where
  "local_path env path = resolve_local (le_home env) (le_cwd env) path"

fun error_code :: "os_kind \<Rightarrow> string" where
  "error_code FileNotFoundError = ''not_found''"
| "error_code PermissionError = ''permission_denied''"
| "error_code NotADirectoryError = ''not_directory''"
| "error_code IsADirectoryError = ''is_directory''"
| "error_code ValueOrTypeError = ''invalid''"
| "error_code NotImplementedError = ''not_supported''"
| "error_code OtherOSError = ''unknown''"

text \<open>The error names the resolved path, so a path that cannot be resolved raises here.\<close>

definition failed_with :: "'o local_env \<Rightarrow> string \<Rightarrow> string \<Rightarrow> string \<Rightarrow> ('o, 'a) env_call" where
  "failed_with env path code msg =
     and_then (settle (local_path env path)) (\<lambda>resolved.
     pure (Inl \<lparr>fe_code = code, fe_message = msg, fe_path = Some resolved\<rparr>))"

definition or_aborted :: "string \<Rightarrow> string" where
  "or_aborted msg = (if msg = '''' then ''Operation aborted'' else msg)"

definition guarded_call ::
  "'o local_env \<Rightarrow> string \<Rightarrow> 'o signal \<Rightarrow> ('o, 'a) os_call \<Rightarrow> ('o, 'a) env_call" where
  "guarded_call env path signal operation w =
     (case signal w of
        Some reason \<Rightarrow> failed_with env path ''aborted'' reason w
      | None \<Rightarrow>
          (case operation w of
             (Inl (OSExn kind msg), w') \<Rightarrow> failed_with env path (error_code kind) msg w'
           | (Inr x, w') \<Rightarrow>
               (case signal w' of
                  Some reason \<Rightarrow> failed_with env path ''aborted'' (or_aborted reason) w'
                | None \<Rightarrow> (Inr (Inr x), w'))))"

text \<open>The operation resolves its path inside the wrapper; a path that does not resolve raises
  \<^verbatim>\<open>RuntimeError\<close> there, and again where the error is built.\<close>

definition file_operation ::
  "'o local_env \<Rightarrow> string \<Rightarrow> 'o signal \<Rightarrow> (string \<Rightarrow> ('o, 'a) os_call) \<Rightarrow> ('o, 'a) env_call" where
  "file_operation env path signal operation =
     guarded_call env path signal (\<lambda>w.
       case local_path env path of
         Inl e \<Rightarrow> (Inl (OSExn OtherOSError (exn_text e)), w)
       | Inr p \<Rightarrow> operation p w)"

definition os_ret :: "'a \<Rightarrow> ('o, 'a) os_call" where "os_ret x w = (Inr x, w)"

definition absolute_path :: "'o local_env \<Rightarrow> string \<Rightarrow> 'o signal \<Rightarrow> ('o, string) env_call" where
  "absolute_path env path signal = file_operation env path signal os_ret"

definition canonical_path :: "'o local_env \<Rightarrow> string \<Rightarrow> 'o signal \<Rightarrow> ('o, string) env_call" where
  "canonical_path env path signal = file_operation env path signal (os_realpath (le_os env))"

definition read_binary_file :: "'o local_env \<Rightarrow> string \<Rightarrow> 'o signal \<Rightarrow> ('o, string) env_call" where
  "read_binary_file env path signal = file_operation env path signal (os_read_bytes (le_os env))"

definition file_info_of :: "'o local_env \<Rightarrow> string \<Rightarrow> 'o signal \<Rightarrow> ('o, file_info) env_call" where
  "file_info_of env path signal = file_operation env path signal (os_lstat (le_os env))"

text \<open>The content goes to a temporary file beside the target, which then takes its place; after any
  failure the temporary file is removed and the failure raised again.\<close>

definition replace_file :: "'o os_calls \<Rightarrow> string \<Rightarrow> string \<Rightarrow> ('o, unit) os_call" where
  "replace_file os data target =
     os_then (os_mkdir_parents os (path_parent target)) (\<lambda>_.
     os_then (os_mkstemp os (CHR ''.'' # path_name target @ ''.'') (path_parent target)) (\<lambda>temporary w.
       case os_then (os_fill os temporary data) (\<lambda>_. os_replace os temporary target) w of
         (Inr _, w') \<Rightarrow> (Inr (), w')
       | (Inl e, w') \<Rightarrow> os_then (os_unlink os temporary) (\<lambda>_ w''. (Inl e, w'')) w'))"

definition write_file :: "'o local_env \<Rightarrow> string \<Rightarrow> string \<Rightarrow> 'o signal \<Rightarrow> ('o, unit) env_call" where
  "write_file env path data signal = file_operation env path signal (replace_file (le_os env) data)"

definition append_to_file :: "'o local_env \<Rightarrow> string \<Rightarrow> string \<Rightarrow> 'o signal \<Rightarrow> ('o, unit) env_call" where
  "append_to_file env path data signal = file_operation env path signal (\<lambda>target.
     os_then (os_mkdir_parents (le_os env) (path_parent target)) (\<lambda>_. os_append (le_os env) target data))"

definition rename_file ::
  "'o local_env \<Rightarrow> string \<Rightarrow> string \<Rightarrow> 'o signal \<Rightarrow> ('o, unit) env_call" where
  "rename_file env source destination signal = file_operation env source signal (\<lambda>p.
     case local_path env destination of
       Inl e \<Rightarrow> (\<lambda>w. (Inl (OSExn OtherOSError (exn_text e)), w))
     | Inr q \<Rightarrow> os_then (os_mkdir_parents (le_os env) (path_parent q)) (\<lambda>_. os_replace (le_os env) p q))"

text \<open>\<^verbatim>\<open>exists\<close> does not look at the token again.\<close>

definition exists_file :: "'o local_env \<Rightarrow> string \<Rightarrow> 'o signal \<Rightarrow> ('o, bool) env_call" where
  "exists_file env path signal w =
     (case signal w of
        Some reason \<Rightarrow> failed_with env path ''aborted'' reason w
      | None \<Rightarrow> file_operation env path no_signal (os_lexists (le_os env)) w)"

definition os_fail :: "os_kind \<Rightarrow> string \<Rightarrow> ('o, 'a) os_call" where
  "os_fail kind msg w = (Inl (OSExn kind msg), w)"

definition create_dir :: "'o local_env \<Rightarrow> string \<Rightarrow> bool \<Rightarrow> 'o signal \<Rightarrow> ('o, unit) env_call" where
  "create_dir env path recursive signal = file_operation env path signal
     (if recursive then os_mkdir_parents (le_os env) else os_mkdir (le_os env))"

definition remove_path ::
  "'o local_env \<Rightarrow> string \<Rightarrow> bool \<Rightarrow> bool \<Rightarrow> 'o signal \<Rightarrow> ('o, unit) env_call" where
  "remove_path env path recursive force signal = file_operation env path signal (\<lambda>target.
     os_then (os_lexists (le_os env) target) (\<lambda>found.
       if \<not> found then (if force then os_ret () else os_fail FileNotFoundError target)
       else os_then (os_is_directory (le_os env) target) (\<lambda>directory.
         if directory then (if recursive then os_rmtree (le_os env) target else os_rmdir (le_os env) target)
         else os_remove (le_os env) target)))"

definition local_execution_env :: "'o local_env \<Rightarrow> (string \<Rightarrow> string) \<Rightarrow> 'o execution_env" where
  "local_execution_env env nfd =
     \<lparr>xe_absolute_path = absolute_path env, xe_canonical_path = canonical_path env,
      xe_exists = exists_file env, xe_file_info = file_info_of env,
      xe_read_binary_file = read_binary_file env, xe_write_file = write_file env, xe_nfd = nfd\<rparr>"

end
