(* ===== verification/FileStore.thy ===== *)
theory FileStore
  imports LocalEnv
begin

text \<open>
  What the file tools rely on.  \<open>posix_files\<close> states what the calls of the operating system do to
  the contents of files, seen as a map from resolved paths; names that links make equal are outside
  it.  \<open>file_store\<close> is the contract of an execution environment, and the local environment keeps
  it over any system that keeps the first.  A disk in memory, on which every call may fail and the
  token may be cancelled at any call, is such a system.
\<close>

section \<open>Resolved paths\<close>

lemma normal_parts_plain:
  "''..'' \<notin> set ps \<Longrightarrow> normal_parts up ps = rev up @ ps"
  by (induction ps arbitrary: up) auto

lemma normal_parts_set: "set (normal_parts up ps) \<subseteq> set up \<union> (set ps - {''..''})"
proof (induction ps arbitrary: up)
  case (Cons p ps)
  show ?case using Cons.IH [of "drop 1 up"] Cons.IH [of "p # up"] by (auto dest: in_set_dropD)
qed simp

definition plain_name :: "string \<Rightarrow> bool" where
  "plain_name p \<longleftrightarrow> p \<noteq> '''' \<and> p \<noteq> ''.'' \<and> CHR ''/'' \<notin> set p"

lemma plain_parts: "p \<in> set (filter (\<lambda>p. p \<noteq> '''' \<and> p \<noteq> ''.'') (split_on (CHR ''/'') s)) \<Longrightarrow> plain_name p"
  by (auto simp: plain_name_def dest: split_on_no_sep)

definition root_name :: "string \<Rightarrow> bool" where
  "root_name t \<longleftrightarrow> t = ''/'' \<or> t = ''//''"

text \<open>The parts of a path: possibly a root, then plain names.\<close>

definition path_parts :: "string list \<Rightarrow> bool" where
  "path_parts ps \<longleftrightarrow> (case ps of [] \<Rightarrow> True | p # qs \<Rightarrow> (root_name p \<or> plain_name p) \<and> (\<forall>q \<in> set qs. plain_name q))"

lemma posix_parts_shape: "path_parts (posix_parts s)"
proof (cases "posix_root s = ''''")
  case True
  then have "posix_parts s = filter (\<lambda>p. p \<noteq> '''' \<and> p \<noteq> ''.'') (split_on (CHR ''/'') s)"
    by (simp add: posix_parts_def)
  then have "\<forall>p \<in> set (posix_parts s). plain_name p" using plain_parts [of _ s] by metis
  then show ?thesis by (cases "posix_parts s") (simp_all add: path_parts_def)
next
  case False
  then have "root_name (posix_root s)" by (auto simp: posix_root_def root_name_def split: if_splits)
  with False show ?thesis using plain_parts [of _ s] by (auto simp: posix_parts_def path_parts_def)
qed

lemma plain_not_absolute: "plain_name p \<Longrightarrow> take 1 p \<noteq> ''/''"
  by (cases p) (auto simp: plain_name_def)

lemma split_join_slash:
  assumes "qs \<noteq> []" and "\<forall>q \<in> set qs. plain_name q"
  shows "split_on (CHR ''/'') (join_with (CHR ''/'') qs) = qs"
  using assms by (intro split_join) (auto simp: plain_name_def)

lemma join_plain_start:
  assumes "\<forall>q \<in> set qs. plain_name q"
  shows "take 1 (join_with (CHR ''/'') qs) \<noteq> ''/''"
proof (cases qs)
  case (Cons q rs)
  then obtain c s where "q = c # s" "c \<noteq> CHR ''/''" using assms by (cases q) (auto simp: plain_name_def)
  then show ?thesis using Cons by (cases rs) simp_all
qed simp

lemma posix_parts_join:
  assumes "root_name t" and "\<forall>q \<in> set qs. plain_name q"
  shows "posix_parts (posix_join t qs) = t # qs"
proof -
  let ?j = "join_with (CHR ''/'') qs"
  have start: "take 1 ?j \<noteq> ''/''" using assms(2) by (rule join_plain_start)
  have names: "filter (\<lambda>p. p \<noteq> '''' \<and> p \<noteq> ''.'') (split_on (CHR ''/'') ?j) = qs"
  proof (cases "qs = []")
    case False
    then show ?thesis using split_join_slash [OF False assms(2)] assms(2)
      by (simp add: filter_id_conv plain_name_def)
  qed simp
  from assms(1) have "t = ''/'' \<or> t = ''//''" by (simp add: root_name_def)
  then show ?thesis
  proof
    assume t: "t = ''/''"
    have "posix_root (CHR ''/'' # ?j) = ''/''" using start by (cases ?j) (auto simp: posix_root_def)
    then show ?thesis using t names by (simp add: posix_parts_def posix_join_def)
  next
    assume t: "t = ''//''"
    have "posix_root (CHR ''/'' # CHR ''/'' # ?j) = ''//''" using start by (cases ?j) (auto simp: posix_root_def)
    then show ?thesis using t names by (simp add: posix_parts_def posix_join_def)
  qed
qed

text \<open>A resolved path: absolute, made of plain names, none of them a dot.\<close>

definition resolved_path :: "string \<Rightarrow> bool" where
  "resolved_path p \<longleftrightarrow> (\<exists>t qs. p = posix_join t qs \<and> root_name t \<and> (\<forall>q \<in> set qs. plain_name q \<and> q \<noteq> ''..''))"

lemma root_not_home: "root_name t \<Longrightarrow> take 1 t \<noteq> ''~''" by (auto simp: root_name_def)

lemma resolved_path_again:
  assumes "resolved_path p"
  shows "resolve_local home cwd p = Inr p"
proof -
  from assms obtain t qs where p: "p = posix_join t qs" and t: "root_name t"
    and qs: "\<forall>q \<in> set qs. plain_name q \<and> q \<noteq> ''..''" by (auto simp: resolved_path_def)
  have parts: "posix_parts p = t # qs" using p t qs by (simp add: posix_parts_join)
  have "take 1 t = ''/''" using t by (auto simp: root_name_def)
  moreover have "normal_parts [] qs = qs" using qs by (subst normal_parts_plain) auto
  ultimately show ?thesis using parts root_not_home [OF t] p
    by (simp add: resolve_local_def expanduser_def is_absolute_def)
qed

lemma expanduser_shape:
  assumes "expanduser home s = Inr parts"
  shows "path_parts parts"
proof (cases "posix_parts s")
  case Nil
  with assms show ?thesis by (simp add: expanduser_def path_parts_def)
next
  case (Cons p ps)
  note shape = posix_parts_shape [of s, unfolded Cons]
  show ?thesis
  proof (cases "take 1 p = ''~''")
    case True
    with assms Cons obtain h where h: "parts = posix_parts h @ ps"
      by (auto simp: expanduser_def split: option.splits)
    show ?thesis using posix_parts_shape [of h] shape unfolding h
      by (cases "posix_parts h"; cases ps) (auto simp: path_parts_def)
  next
    case False
    with assms Cons shape show ?thesis by (simp add: expanduser_def)
  qed
qed

lemma resolve_resolved:
  assumes "resolve_local home cwd path = Inr p" and cwd: "take 1 cwd = ''/''"
  shows "resolved_path p"
proof -
  from assms(1) obtain parts where parts: "expanduser home path = Inr parts"
    and p: "p = (case (if is_absolute parts then parts else posix_parts cwd @ parts) of
            [] \<Rightarrow> ''/'' | t # rest \<Rightarrow> posix_join t (normal_parts [] rest))"
    by (auto simp: resolve_local_def bindE_eq_Inr)
  have root: "posix_root cwd \<noteq> ''''" using cwd by (simp add: posix_root_def)
  then obtain t0 rs where c: "posix_parts cwd = t0 # rs" "t0 = posix_root cwd" by (simp add: posix_parts_def)
  have t0: "root_name t0" using root c by (auto simp: posix_root_def root_name_def split: if_splits)
  have "\<exists>t rest. (if is_absolute parts then parts else posix_parts cwd @ parts) = t # rest \<and> root_name t \<and>
      (\<forall>q \<in> set rest. plain_name q)"
  proof (cases "is_absolute parts")
    case True
    then show ?thesis using expanduser_shape [OF parts] plain_not_absolute
      by (cases parts) (auto simp: path_parts_def is_absolute_def)
  next
    case False
    have "\<forall>q \<in> set parts. plain_name q"
      using expanduser_shape [OF parts] False
      by (cases parts) (auto simp: path_parts_def is_absolute_def root_name_def)
    moreover have "\<forall>q \<in> set rs. plain_name q" using posix_parts_shape [of cwd] c by (simp add: path_parts_def)
    ultimately show ?thesis using False c t0 by auto
  qed
  then obtain t rest where tr: "(if is_absolute parts then parts else posix_parts cwd @ parts) = t # rest"
    "root_name t" "\<forall>q \<in> set rest. plain_name q" by blast
  then have "p = posix_join t (normal_parts [] rest)" using p by simp
  moreover have "\<forall>q \<in> set (normal_parts [] rest). plain_name q \<and> q \<noteq> ''..''"
    using normal_parts_set [of "[]" rest] tr(3) by auto
  ultimately show ?thesis using tr(2) unfolding resolved_path_def by blast
qed

section \<open>The contracts\<close>

definition unaltered :: "('w \<Rightarrow> 'f) \<Rightarrow> ('w, 'a) hook \<Rightarrow> bool" where
  "unaltered files f \<longleftrightarrow> (\<forall>w. files (snd (f w)) = files w)"

text \<open>What an environment promises for resolved paths.  A write either happens as a whole or leaves
  the file as it was; when it happened and still reports a failure, the token was cancelled
  meanwhile.  Other files that exist are left alone.\<close>

locale file_store =
  fixes env :: "'w execution_env" and files :: "'w \<Rightarrow> string \<Rightarrow> string option"
  assumes absolute_quiet: "unaltered files (xe_absolute_path env p sg)"
    and absolute_resolved: "xe_absolute_path env p sg w = (Inr (Inr q), w') \<Longrightarrow> resolved_path q"
    and canonical_quiet: "unaltered files (xe_canonical_path env p sg)"
    and exists_quiet: "unaltered files (xe_exists env p sg)"
    and info_quiet: "unaltered files (xe_file_info env p sg)"
    and read_quiet: "unaltered files (xe_read_binary_file env p sg)"
    and read_content: "resolved_path p \<Longrightarrow> xe_read_binary_file env p sg w = (Inr (Inr data), w') \<Longrightarrow>
      files w p = Some data"
    and write_done: "resolved_path p \<Longrightarrow> xe_write_file env p data sg w = (Inr (Inr u), w') \<Longrightarrow>
      files w' = (files w)(p \<mapsto> data)"
    and write_failed: "resolved_path p \<Longrightarrow> xe_write_file env p data sg w = (r, w') \<Longrightarrow>
      (\<forall>u. r \<noteq> Inr (Inr u)) \<Longrightarrow> files w' p \<noteq> files w p \<Longrightarrow> files w' p = Some data \<and> sg w' \<noteq> None"
    and write_local: "resolved_path p \<Longrightarrow> xe_write_file env p data sg w = (r, w') \<Longrightarrow> q \<noteq> p \<Longrightarrow> files w q \<noteq> None \<Longrightarrow>
      files w' q = files w q"

text \<open>What the local environment relies on.\<close>

locale posix_files =
  fixes os :: "'o os_calls" and files :: "'o \<Rightarrow> string \<Rightarrow> string option"
  assumes mkdir_quiet: "files (snd (os_mkdir_parents os p w)) = files w"
    and mkstemp_failed: "os_mkstemp os a b w = (Inl e, w') \<Longrightarrow> files w' = files w"
    and mkstemp_fresh: "os_mkstemp os a b w = (Inr t, w') \<Longrightarrow>
      files w t = None \<and> files w' = (files w)(t \<mapsto> []) \<and> prefix a (path_name t)"
    and fill_failed: "os_fill os t data w = (Inl e, w') \<Longrightarrow> \<exists>x. files w' = (files w)(t := x)"
    and fill_done: "os_fill os t data w = (Inr u, w') \<Longrightarrow> files w' = (files w)(t \<mapsto> data)"
    and replace_failed: "os_replace os t p w = (Inl e, w') \<Longrightarrow> files w' = files w"
    and replace_done: "os_replace os t p w = (Inr u, w') \<Longrightarrow> files w t \<noteq> None \<Longrightarrow>
      files w' = (files w)(t := None, p := files w t)"
    and unlink_failed: "os_unlink os t w = (Inl e, w') \<Longrightarrow> files w' = files w"
    and unlink_done: "os_unlink os t w = (Inr u, w') \<Longrightarrow> files w' = (files w)(t := None)"
    and read_bytes_quiet: "files (snd (os_read_bytes os p w)) = files w"
    and read_bytes_content: "os_read_bytes os p w = (Inr data, w') \<Longrightarrow> files w p = Some data"
    and lexists_quiet: "files (snd (os_lexists os p w)) = files w"
    and lstat_quiet: "files (snd (os_lstat os p w)) = files w"
    and realpath_quiet: "files (snd (os_realpath os p w)) = files w"
begin

text \<open>Whatever happens, the target has its old content or the new one, and only the target of a
  write that was done has changed, apart from a temporary file that did not exist before.\<close>

lemma replace_file_cases:
  assumes run: "replace_file os data p w = (r, w')"
  shows "case r of
      Inr _ \<Rightarrow> files w' = (files w)(p \<mapsto> data)
    | Inl _ \<Rightarrow> files w' = files w \<or> (\<exists>t x. files w t = None \<and> t \<noteq> p \<and> files w' = (files w)(t := x))"
proof -
  let ?a = "CHR ''.'' # path_name p @ ''.''"
  obtain r1 w1 where m: "os_mkdir_parents os (path_parent p) w = (r1, w1)" by (metis prod.exhaust)
  have w1: "files w1 = files w" using mkdir_quiet [of "path_parent p" w] m by simp
  obtain r2 w2 where t: "os_mkstemp os ?a (path_parent p) w1 = (r2, w2)" by (metis prod.exhaust)
  show ?thesis
  proof (cases "\<exists>u t. r1 = Inr u \<and> r2 = Inr t")
    case False
    then have "\<exists>e. r = Inl e \<and> (w' = w1 \<or> w' = w2 \<and> (\<exists>e. r2 = Inl e))"
      using run m t by (cases r1; cases r2) (auto simp: replace_file_def os_then_def)
    then show ?thesis using w1 mkstemp_failed [of ?a "path_parent p" w1 _ w2] t by auto
  next
    case True
    then obtain u1 t' where r: "r1 = Inr u1" "r2 = Inr t'" by blast
    note fresh = mkstemp_fresh [OF t [unfolded r]]
    have ne: "t' \<noteq> p" using fresh by (auto dest!: prefix_length_le)
    obtain r3 w3 where f: "os_fill os t' data w2 = (r3, w3)" by (metis prod.exhaust)
    obtain r4 w4 where s: "os_replace os t' p w3 = (r4, w4)" by (metis prod.exhaust)
    have body: "(r, w') = (case os_then (os_fill os t' data) (\<lambda>_. os_replace os t' p) w2 of
         (Inr _, w') \<Rightarrow> (Inr (), w') | (Inl e, w') \<Rightarrow> os_then (os_unlink os t') (\<lambda>_ w''. (Inl e, w'')) w')"
      using run m t r by (simp add: replace_file_def os_then_def)
    have clean: ?thesis if "r = Inl e" "os_unlink os t' v = (r5, w')" "\<exists>x. files v = (files w)(t' := x)" for e v r5
      using that unlink_failed [of t' v _ w'] unlink_done [of t' v _ w'] fresh w1 ne
      by (cases r5) fastforce+
    show ?thesis
    proof (cases r3)
      case (Inl e)
      obtain r5 w5 where u: "os_unlink os t' w3 = (r5, w5)" by (metis prod.exhaust)
      then have "(\<exists>e. r = Inl e) \<and> w' = w5" using body Inl f by (cases r5) (simp_all add: os_then_def)
      moreover have "\<exists>x. files w3 = (files w)(t' := x)"
        using fill_failed [of t' data w2 e w3] f Inl fresh w1 by auto
      ultimately show ?thesis using u clean by blast
    next
      case r3: (Inr u3)
      then have w3: "files w3 = (files w)(t' \<mapsto> data)" using fill_done [of t' data w2 u3 w3] f fresh w1 by simp
      show ?thesis
      proof (cases r4)
        case (Inl e)
        obtain r5 w5 where u: "os_unlink os t' w4 = (r5, w5)" by (metis prod.exhaust)
        then have "(\<exists>e. r = Inl e) \<and> w' = w5" using body Inl r3 f s by (cases r5) (simp_all add: os_then_def)
        moreover have "\<exists>x. files w4 = (files w)(t' := x)" using replace_failed [of t' p w3 e w4] s Inl w3 by auto
        ultimately show ?thesis using u clean by blast
      next
        case (Inr u4)
        then have "r = Inr () \<and> w' = w4" using body r3 f s by (simp add: os_then_def)
        moreover have "files w4 = (files w)(p \<mapsto> data)"
          using replace_done [of t' p w3 u4 w4] s Inr w3 fresh ne w1 by (auto simp: fun_eq_iff)
        ultimately show ?thesis by simp
      qed
    qed
  qed
qed

end

section \<open>The local environment keeps the contract\<close>

lemma failed_with_keeps: "failed_with env path code msg w = (r, w') \<Longrightarrow> w' = w \<and> (\<forall>x. r \<noteq> Inr (Inr x))"
  by (auto simp: failed_with_def and_then_def settle_def pure_def split: sum.splits)

lemma guarded_call_cases:
  assumes "guarded_call env path signal operation w = (r, w')"
  obtains (refused) "w' = w" "\<forall>x. r \<noteq> Inr (Inr x)"
  | (failed) e where "operation w = (Inl e, w')" "\<forall>x. r \<noteq> Inr (Inr x)"
  | (completed) x where "operation w = (Inr x, w')" "r = Inr (Inr x) \<or> (\<forall>x. r \<noteq> Inr (Inr x)) \<and> signal w' \<noteq> None"
proof (cases "signal w")
  case (Some reason)
  then have "failed_with env path ''aborted'' reason w = (r, w')" using assms by (simp add: guarded_call_def)
  from failed_with_keeps [OF this] show thesis by (intro refused) simp_all
next
  case None
  obtain ox w1 where op: "operation w = (ox, w1)" by (metis prod.exhaust)
  show thesis
  proof (cases ox)
    case (Inl e)
    obtain kind msg where "e = OSExn kind msg" by (cases e)
    then have "failed_with env path (error_code kind) msg w1 = (r, w')"
      using assms None op Inl by (simp add: guarded_call_def)
    from failed_with_keeps [OF this] show thesis using op Inl by (intro failed [of e]) simp_all
  next
    case (Inr x)
    show thesis
    proof (cases "signal w1")
      case (Some reason)
      then have "failed_with env path ''aborted'' (or_aborted reason) w1 = (r, w')"
        using assms None op Inr by (simp add: guarded_call_def)
      from failed_with_keeps [OF this] show thesis using op Inr Some by (intro completed [of x]) simp_all
    next
      case none: None
      then show thesis using assms None op Inr completed [of x] by (simp add: guarded_call_def)
    qed
  qed
qed

lemma file_operation_quiet:
  assumes "\<And>p w. files (snd (operation p w)) = files w"
  shows "unaltered files (file_operation env path signal operation)"
  unfolding unaltered_def
proof
  fix w
  obtain r w' where run: "file_operation env path signal operation w = (r, w')" by (metis prod.exhaust)
  let ?op = "\<lambda>w. case local_path env path of
      Inl e \<Rightarrow> (Inl (OSExn OtherOSError (exn_text e)), w) | Inr p \<Rightarrow> operation p w"
  have quiet: "files v = files w" if "?op w = (x, v)" for x v
    using that assms by (cases "local_path env path") (auto dest: arg_cong [where f = "\<lambda>s. files (snd s)"])
  have "guarded_call env path signal ?op w = (r, w')" using run by (simp add: file_operation_def)
  then have "files w' = files w" using quiet by (cases rule: guarded_call_cases) auto
  then show "files (snd (file_operation env path signal operation w)) = files w" using run by simp
qed

locale local_files = posix_files "le_os env" files
  for env :: "'o local_env" and files +
  assumes cwd_absolute: "take 1 (le_cwd env) = ''/''"
begin

lemma local_path_resolved: "resolved_path p \<Longrightarrow> local_path env p = Inr p"
  by (simp add: local_path_def resolved_path_again)

lemma write_file_cases:
  assumes p: "resolved_path p" and run: "write_file env p data sg w = (r, w')"
  shows "(\<exists>u. r = Inr (Inr u)) \<and> files w' = (files w)(p \<mapsto> data) \<or>
     (\<forall>u. r \<noteq> Inr (Inr u)) \<and> (files w' = files w \<or> files w' = (files w)(p \<mapsto> data) \<and> sg w' \<noteq> None \<or>
       (\<exists>t x. files w t = None \<and> t \<noteq> p \<and> files w' = (files w)(t := x)))"
proof -
  have call: "guarded_call env p sg (replace_file (le_os env) data p) w = (r, w')"
    using run local_path_resolved [OF p] by (simp add: write_file_def file_operation_def)
  show ?thesis
  proof (cases rule: guarded_call_cases [OF call])
    case 1
    then show ?thesis by simp
  next
    case (2 e)
    from replace_file_cases [OF 2(1)] have "files w' = files w \<or>
        (\<exists>t x. files w t = None \<and> t \<noteq> p \<and> files w' = (files w)(t := x))" by simp
    then show ?thesis using 2(2) by blast
  next
    case (3 x)
    from replace_file_cases [OF 3(1)] have "files w' = (files w)(p \<mapsto> data)" by simp
    then show ?thesis using 3(2) by blast
  qed
qed

sublocale file_store "local_execution_env env nfd" files
proof
  fix p sg
  note env = local_execution_env_def
  show "unaltered files (xe_absolute_path (local_execution_env env nfd) p sg)"
    by (simp add: env absolute_path_def file_operation_quiet os_ret_def)
  show "unaltered files (xe_canonical_path (local_execution_env env nfd) p sg)"
    by (simp add: env canonical_path_def file_operation_quiet realpath_quiet)
  show "unaltered files (xe_file_info (local_execution_env env nfd) p sg)"
    by (simp add: env file_info_of_def file_operation_quiet lstat_quiet)
  show "unaltered files (xe_read_binary_file (local_execution_env env nfd) p sg)"
    by (simp add: env read_binary_file_def file_operation_quiet read_bytes_quiet)
  have quiet: "unaltered files (file_operation env p no_signal (os_lexists (le_os env)))"
    by (rule file_operation_quiet) (rule lexists_quiet)
  show "unaltered files (xe_exists (local_execution_env env nfd) p sg)"
    unfolding unaltered_def
  proof
    fix w
    show "files (snd (xe_exists (local_execution_env env nfd) p sg w)) = files w"
    proof (cases "sg w")
      case None
      then show ?thesis using quiet by (simp add: env exists_file_def unaltered_def)
    next
      case (Some reason)
      obtain r w' where "failed_with env p ''aborted'' reason w = (r :: exn + (file_error + bool), w')"
        by (metis prod.exhaust)
      then show ?thesis using Some failed_with_keeps [of env p "''aborted''" reason w r w']
        by (simp add: env exists_file_def)
    qed
  qed
next
  fix p sg w q w'
  assume "xe_absolute_path (local_execution_env env nfd) p sg w = (Inr (Inr q), w')"
  then have "guarded_call env p sg (\<lambda>w. case local_path env p of
      Inl e \<Rightarrow> (Inl (OSExn OtherOSError (exn_text e)), w) | Inr p \<Rightarrow> os_ret p w) w = (Inr (Inr q), w')"
    by (simp add: local_execution_env_def absolute_path_def file_operation_def)
  then have "local_path env p = Inr q"
    by (cases rule: guarded_call_cases) (auto simp: os_ret_def split: sum.splits)
  then show "resolved_path q" unfolding local_path_def using cwd_absolute by (rule resolve_resolved)
next
  fix p sg w data w'
  assume p: "resolved_path p" and "xe_read_binary_file (local_execution_env env nfd) p sg w = (Inr (Inr data), w')"
  then have "guarded_call env p sg (os_read_bytes (le_os env) p) w = (Inr (Inr data), w')"
    by (simp add: local_execution_env_def read_binary_file_def file_operation_def local_path_resolved)
  then show "files w p = Some data"
    by (cases rule: guarded_call_cases) (auto dest: read_bytes_content)
next
  fix p data sg w u w'
  assume "resolved_path p" "xe_write_file (local_execution_env env nfd) p data sg w = (Inr (Inr u), w')"
  then show "files w' = (files w)(p \<mapsto> data)"
    using write_file_cases by (fastforce simp: local_execution_env_def)
next
  fix p data sg w r w'
  assume "resolved_path p" "xe_write_file (local_execution_env env nfd) p data sg w = (r, w')"
    "\<forall>u. r \<noteq> Inr (Inr u)" "files w' p \<noteq> files w p"
  then show "files w' p = Some data \<and> sg w' \<noteq> None"
    using write_file_cases by (fastforce simp: local_execution_env_def)
next
  fix p data sg w r w' q
  assume "resolved_path p" "xe_write_file (local_execution_env env nfd) p data sg w = (r, w')" "q \<noteq> p"
    "files w q \<noteq> None"
  then show "files w' q = files w q"
    using write_file_cases by (fastforce simp: local_execution_env_def)
qed

end

section \<open>A disk in memory\<close>

text \<open>Each call first consumes one entry of \<open>dk_faults\<close>, which may make it fail, and one of the calls
  that are left before the token is cancelled.\<close>

record disk =
  dk_files :: "(string \<times> string) list"
  dk_faults :: "os_exn option list"
  dk_cancel_after :: "nat option"

definition disk_files :: "disk \<Rightarrow> string \<Rightarrow> string option" where
  "disk_files d = map_of (dk_files d)"

definition disk_token :: "disk signal" where
  "disk_token d = (if dk_cancel_after d = Some 0 then Some ''stop'' else None)"

definition passed :: "disk \<Rightarrow> disk" where
  "passed d = d\<lparr>dk_faults := drop 1 (dk_faults d), dk_cancel_after := map_option (\<lambda>n. n - 1) (dk_cancel_after d)\<rparr>"

definition disk_call :: "(disk, 'a) os_call \<Rightarrow> (disk, 'a) os_call" where
  "disk_call f d = (case dk_faults d of Some e # _ \<Rightarrow> (Inl e, passed d) | _ \<Rightarrow> f (passed d))"

definition missing :: "string \<Rightarrow> os_exn" where
  "missing p = OSExn FileNotFoundError (''No such file: '' @ p)"

definition store_file :: "string \<Rightarrow> string \<Rightarrow> (disk, unit) os_call" where
  "store_file p data d = (Inr (), d\<lparr>dk_files := dict_set p data (dk_files d)\<rparr>)"

definition with_content :: "string \<Rightarrow> (string \<Rightarrow> (disk, 'a) os_call) \<Rightarrow> (disk, 'a) os_call" where
  "with_content p f d = (case disk_files d p of None \<Rightarrow> (Inl (missing p), d) | Some data \<Rightarrow> f data d)"

definition fresh_name :: "string \<Rightarrow> disk \<Rightarrow> string" where
  "fresh_name a d = a @ replicate (Suc (Suc (sum_list (map (length \<circ> fst) (dk_files d))))) (CHR ''x'')"

definition disk_mkstemp :: "string \<Rightarrow> string \<Rightarrow> (disk, string) os_call" where
  "disk_mkstemp a dir d =
     (case posix_parts dir of
        [] \<Rightarrow> (Inl (missing dir), d)
      | t # rest \<Rightarrow>
          if posix_root dir = [] \<or> CHR ''/'' \<in> set a then (Inl (missing dir), d)
          else (let p = posix_join t (rest @ [fresh_name a d])
                in (Inr p, d\<lparr>dk_files := dict_set p [] (dk_files d)\<rparr>)))"

definition disk_os :: "disk os_calls" where
  "disk_os =
     \<lparr>os_mkdir_parents = (\<lambda>p. disk_call (os_ret ())),
      os_mkstemp = (\<lambda>a dir. disk_call (disk_mkstemp a dir)),
      os_fill = (\<lambda>p data. disk_call (store_file p data)),
      os_append = (\<lambda>p data. disk_call (\<lambda>d. store_file p ((case disk_files d p of None \<Rightarrow> [] | Some x \<Rightarrow> x) @ data) d)),
      os_replace = (\<lambda>t p. disk_call (with_content t (\<lambda>data d.
        store_file p data (d\<lparr>dk_files := dict_pop t (dk_files d)\<rparr>)))),
      os_unlink = (\<lambda>p. disk_call (\<lambda>d. (Inr (), d\<lparr>dk_files := dict_pop p (dk_files d)\<rparr>))),
      os_read_bytes = (\<lambda>p. disk_call (with_content p os_ret)),
      os_lexists = (\<lambda>p. disk_call (\<lambda>d. (Inr (disk_files d p \<noteq> None), d))),
      os_lstat = (\<lambda>p. disk_call (with_content p (\<lambda>data. os_ret
        \<lparr>fi_name = path_name p, fi_path = p, fi_kind = ''file'', fi_size = int (length data)\<rparr>))),
      os_realpath = (\<lambda>p. disk_call (with_content p (\<lambda>_. os_ret p))),
      os_is_directory = (\<lambda>p. disk_call (\<lambda>d. (Inr (\<exists>f \<in> set (dk_files d). prefix (p @ ''/'') (fst f)), d))),
      os_mkdir = (\<lambda>p. disk_call (os_ret ())),
      os_remove = (\<lambda>p. disk_call (with_content p (\<lambda>_ d. (Inr (), d\<lparr>dk_files := dict_pop p (dk_files d)\<rparr>)))),
      os_rmdir = (\<lambda>p. disk_call (os_fail OtherOSError ''Directory not empty'')),
      os_rmtree = (\<lambda>p. disk_call (\<lambda>d. (Inr (), d\<lparr>dk_files := filter (\<lambda>f. \<not> prefix (p @ ''/'') (fst f)) (dk_files d)\<rparr>)))\<rparr>"

lemma passed_files [simp]: "disk_files (passed d) = disk_files d"
  by (simp add: disk_files_def passed_def)

lemma disk_call_cases:
  assumes "disk_call f d = (r, d')"
  shows "d' = passed d \<and> (\<exists>e. r = Inl e) \<or> f (passed d) = (r, d')"
  using assms by (auto simp: disk_call_def split: list.splits option.splits)

lemma disk_call_quiet:
  assumes "\<And>d. disk_files (snd (f d)) = disk_files d"
  shows "disk_files (snd (disk_call f d)) = disk_files d"
  using assms [of "passed d"] disk_call_cases [of f d "fst (disk_call f d)" "snd (disk_call f d)"] by auto

lemma with_content_quiet:
  "(\<And>x d. disk_files (snd (f x d)) = disk_files d) \<Longrightarrow> disk_files (snd (with_content p f d)) = disk_files d"
  by (simp add: with_content_def split: option.split)

lemma disk_mkstemp_fresh:
  assumes "disk_mkstemp a dir d = (Inr t, d')"
  shows "disk_files d t = None \<and> disk_files d' = (disk_files d)(t \<mapsto> []) \<and> prefix a (path_name t)"
proof -
  let ?n = "fresh_name a d"
  from assms obtain s rest where parts: "posix_parts dir = s # rest" and root: "posix_root dir \<noteq> []"
    and a: "CHR ''/'' \<notin> set a" and t: "t = posix_join s (rest @ [?n])"
    and d': "d' = d\<lparr>dk_files := dict_set t [] (dk_files d)\<rparr>"
    by (auto simp: disk_mkstemp_def Let_def split: list.splits if_splits)
  have s: "root_name s" using parts root by (auto simp: posix_parts_def posix_root_def root_name_def split: if_splits)
  have "plain_name ?n" using a by (auto simp: plain_name_def fresh_name_def append_eq_Cons_conv)
  then have plain: "\<forall>q \<in> set (rest @ [?n]). plain_name q"
    using posix_parts_shape [of dir] parts by (auto simp: path_parts_def)
  have "path_name t = ?n" using posix_parts_join [OF s plain] t by (simp add: path_name_def)
  moreover have "t \<notin> fst ` set (dk_files d)"
  proof
    assume "t \<in> fst ` set (dk_files d)"
    then obtain x where x: "x \<in> set (dk_files d)" "fst x = t" by auto
    have "length t \<le> sum_list (map (length \<circ> fst) (dk_files d))"
      using x member_le_sum_list [of "length t" "map (length \<circ> fst) (dk_files d)"] by force
    moreover have "length ?n \<le> length t"
      unfolding t posix_join_def by (cases "rest = []") (simp_all add: join_with_snoc)
    ultimately show False by (simp add: fresh_name_def)
  qed
  ultimately show ?thesis using d' by (simp add: disk_files_def map_of_eq_None_iff fresh_name_def)
qed

interpretation disk: posix_files disk_os disk_files
proof
  fix p a b data t :: string and w w' :: disk and u :: unit and e :: os_exn
  show "disk_files (snd (os_mkdir_parents disk_os p w)) = disk_files w"
    by (simp add: disk_os_def disk_call_quiet os_ret_def)
  show "disk_files (snd (os_read_bytes disk_os p w)) = disk_files w"
    by (simp add: disk_os_def disk_call_quiet with_content_quiet os_ret_def)
  show "disk_files (snd (os_lexists disk_os p w)) = disk_files w"
    by (simp add: disk_os_def disk_call_quiet)
  show "disk_files (snd (os_lstat disk_os p w)) = disk_files w"
    by (simp add: disk_os_def disk_call_quiet with_content_quiet os_ret_def)
  show "disk_files (snd (os_realpath disk_os p w)) = disk_files w"
    by (simp add: disk_os_def disk_call_quiet with_content_quiet os_ret_def)
  show "disk_files w' = disk_files w" if "os_mkstemp disk_os a b w = (Inl e, w')"
    using that by (auto simp: disk_os_def disk_mkstemp_def Let_def dest!: disk_call_cases split: list.splits if_splits)
  show "disk_files w t = None \<and> disk_files w' = (disk_files w)(t \<mapsto> []) \<and> prefix a (path_name t)"
    if "os_mkstemp disk_os a b w = (Inr t, w')"
    using that disk_mkstemp_fresh [of a b "passed w" t w'] by (auto simp: disk_os_def dest!: disk_call_cases)
  show "\<exists>x. disk_files w' = (disk_files w)(t := x)" if "os_fill disk_os t data w = (Inl e, w')"
    using that by (auto simp: disk_os_def store_file_def dest!: disk_call_cases intro!: exI [of _ "disk_files w t"])
  show "disk_files w' = (disk_files w)(t \<mapsto> data)" if "os_fill disk_os t data w = (Inr u, w')"
    using that by (auto simp: disk_os_def store_file_def disk_files_def passed_def dest!: disk_call_cases)
  show "disk_files w' = disk_files w" if "os_replace disk_os t p w = (Inl e, w')"
    using that by (auto simp: disk_os_def store_file_def with_content_def dest!: disk_call_cases split: option.splits)
  show "disk_files w' = (disk_files w)(t := None, p := disk_files w t)"
    if "os_replace disk_os t p w = (Inr u, w')"
    using that by (auto simp: disk_os_def store_file_def with_content_def disk_files_def passed_def
      dest!: disk_call_cases split: option.splits)
  show "disk_files w' = disk_files w" if "os_unlink disk_os t w = (Inl e, w')"
    using that by (auto simp: disk_os_def dest!: disk_call_cases)
  show "disk_files w' = (disk_files w)(t := None)" if "os_unlink disk_os t w = (Inr u, w')"
    using that by (auto simp: disk_os_def disk_files_def passed_def dest!: disk_call_cases)
  show "disk_files w p = Some data" if "os_read_bytes disk_os p w = (Inr data, w')"
    using that by (auto simp: disk_os_def with_content_def os_ret_def dest!: disk_call_cases split: option.splits)
qed

definition disk_env :: "disk local_env" where
  "disk_env = \<lparr>le_cwd = ''/work'', le_home = (\<lambda>_. None), le_os = disk_os\<rparr>"

interpretation disk_store: local_files disk_env disk_files
  by (rule local_files.intro) (simp_all add: disk_env_def disk.posix_files_axioms local_files_axioms_def)

end
