(* ===== verification/FileToolsCorrect.thy ===== *)
theory FileToolsCorrect
  imports FileTools FileStore
begin

text \<open>
  What the tools that change files guarantee: only the addressed file changes, it changes as a
  whole, an edit replaces exactly the text it names in a file with one kind of line end, and what
  is surprising about uniqueness, line ends and cancellation.
\<close>

section \<open>Search and replacement\<close>

lemma find_index_Some:
  "find_index p s = Some i \<Longrightarrow> i + length p \<le> length s \<and> take (length p) (drop i s) = p"
proof (induction s arbitrary: i)
  case Nil
  then show ?case by (simp split: if_splits)
next
  case (Cons c s)
  show ?case
  proof (cases "prefix p (c # s)")
    case True
    with Cons.prems have "i = 0" by simp
    moreover obtain z where "c # s = p @ z" using True by (auto simp: prefix_def)
    ultimately show ?thesis by simp
  next
    case False
    with Cons.prems obtain j where "find_index p s = Some j" "i = Suc j" by auto
    with Cons.IH show ?thesis by simp
  qed
qed

lemma find_index_split:
  assumes "find_index p s = Some i"
  shows "s = take i s @ p @ drop (i + length p) s"
proof -
  have "drop i s = p @ drop (length p) (drop i s)"
    using find_index_Some [OF assms] by (metis append_take_drop_id)
  then show ?thesis by (metis append_take_drop_id add.commute drop_drop)
qed

lemma count_zero_iff: "p \<noteq> [] \<Longrightarrow> count_text p s = 0 \<longleftrightarrow> find_index p s = None"
  by (induction s) auto

text \<open>Normalised text has no carriage return, and restoring line ends is undone by normalising.\<close>

lemma replace_CR_free: "CR \<notin> set (replace_text [CR] [LF] s)"
  by (induction s) (auto simp: CR_def LF_def)

lemma normalized_no_CR: "CR \<notin> set (normalize_newlines s)"
  by (simp add: normalize_newlines_def replace_CR_free)

lemma replace_no_match: "p \<noteq> [] \<Longrightarrow> hd p \<notin> set s \<Longrightarrow> replace_text p r s = s"
  by (induction s) (auto simp: prefix_def neq_Nil_conv)

lemma normalize_plain: "CR \<notin> set s \<Longrightarrow> normalize_newlines s = s"
  by (simp add: normalize_newlines_def replace_no_match)

lemma replace_one: "replace_text [c] r (s @ t) = replace_text [c] r s @ replace_text [c] r t"
  by (induction s) auto

lemma CR_LF [simp]: "CR \<noteq> LF" "LF \<noteq> CR" by (simp_all add: CR_def LF_def)

lemma crlf_undone: "CR \<notin> set s \<Longrightarrow> replace_text [CR, LF] [LF] (replace_text [LF] [CR, LF] s) = s"
  by (induction s) auto

lemma cr_undone: "CR \<notin> set s \<Longrightarrow> replace_text [CR] [LF] (replace_text [LF] [CR] s) = s"
  by (induction s) auto

lemma cr_no_lf: "LF \<notin> set (replace_text [LF] [CR] s)"
  by (induction s) auto

lemma no_lf_no_crlf: "LF \<notin> set s \<Longrightarrow> replace_text [CR, LF] [LF] s = s"
  by (induction s) (auto simp: prefix_def)

lemma detect_cases: "detect_newline s \<in> {[CR, LF], [CR], [LF]}"
  by (simp add: detect_newline_def)

text \<open>The restored file reads, normalised, as the edited text.\<close>

lemma normalize_restore:
  assumes "CR \<notin> set u" and "nl \<in> {[CR, LF], [CR], [LF]}"
  shows "normalize_newlines (restore_newlines nl u) = u"
proof -
  consider "nl = [LF]" | "nl = [CR, LF]" | "nl = [CR]" using assms(2) by auto
  then show ?thesis
  proof cases
    case 1
    then show ?thesis using assms(1) by (simp add: restore_newlines_def normalize_plain)
  next
    case 2
    then show ?thesis using assms(1)
      by (simp add: restore_newlines_def normalize_newlines_def crlf_undone replace_no_match)
  next
    case 3
    then show ?thesis using assms(1)
      by (simp add: restore_newlines_def normalize_newlines_def no_lf_no_crlf cr_no_lf cr_undone)
  qed
qed

text \<open>A file with one kind of line end is what restoring makes of its normalised text.\<close>

definition one_newline :: "string \<Rightarrow> bool" where
  "one_newline s \<longleftrightarrow> restore_newlines (detect_newline s) (normalize_newlines s) = s"

lemma one_newline_LF: "CR \<notin> set s \<Longrightarrow> one_newline s"
proof -
  assume s: "CR \<notin> set s"
  have "find_index (CR # p) s = None" for p using s by (induction s) (auto simp: prefix_def)
  then show ?thesis using s by (simp add: one_newline_def detect_newline_def contains_def restore_newlines_def normalize_plain)
qed

lemma restore_append: "restore_newlines nl (s @ t) = restore_newlines nl s @ restore_newlines nl t"
  by (simp add: restore_newlines_def replace_one)

section \<open>Sequences of replacements\<close>

text \<open>Each replacement is made where its old text first occurs in what the earlier ones left, and is
  the only one that the count of \<^verbatim>\<open>str.count\<close> sees.\<close>

inductive replaced :: "text_edit list \<Rightarrow> string \<Rightarrow> string \<Rightarrow> bool" where
  replaced_none: "replaced [] s s"
| replaced_next: "old = normalize_newlines (ed_old_text e) \<Longrightarrow> old \<noteq> [] \<Longrightarrow> count_text old (a @ old @ b) = 1 \<Longrightarrow>
    find_index old (a @ old @ b) = Some (length a) \<Longrightarrow>
    replaced es (a @ normalize_newlines (ed_new_text e) @ b) t \<Longrightarrow> replaced (e # es) (a @ old @ b) t"

inductive_simps replaced_Nil [simp]: "replaced [] s t"
inductive_simps replaced_Cons: "replaced (e # es) s t"

lemma apply_edit_iff:
  "apply_edit raw i e s = Inr (t, j) \<longleftrightarrow>
     (\<exists>a b. let old = normalize_newlines (ed_old_text e); new = normalize_newlines (ed_new_text e) in
        old \<noteq> [] \<and> count_text old s = 1 \<and> find_index old s = Some (length a) \<and> s = a @ old @ b \<and>
        t = a @ new @ b \<and> j = replacement_json i (char_count a) old new)"
    (is "?l \<longleftrightarrow> ?r")
proof
  assume ?l
  then obtain p where p: "find_index (normalize_newlines (ed_old_text e)) s = Some p"
    and n: "normalize_newlines (ed_old_text e) \<noteq> []" "count_text (normalize_newlines (ed_old_text e)) s = 1"
    and t: "t = take p s @ normalize_newlines (ed_new_text e) @ drop (p + length (normalize_newlines (ed_old_text e))) s"
      "j = replacement_json i (char_count (take p s)) (normalize_newlines (ed_old_text e)) (normalize_newlines (ed_new_text e))"
    by (auto simp: apply_edit_def Let_def split: if_splits option.splits)
  have "length (take p s) = p" using find_index_Some [OF p] by simp
  with p n t find_index_split [OF p] show ?r unfolding Let_def by metis
next
  assume ?r
  then show ?l by (auto simp: apply_edit_def Let_def)
qed

lemma apply_edits_replaced:
  "apply_edits raw i es s = Inr (t, js) \<Longrightarrow> replaced es s t \<and> length js = length es"
proof (induction es arbitrary: i s js)
  case (Cons e es)
  then obtain u j js' where one: "apply_edit raw i e s = Inr (u, j)" and rest: "apply_edits raw (Suc i) es u = Inr (t, js')"
    and js: "js = j # js'" by (auto simp: bindE_eq_Inr)
  from Cons.IH [OF rest] have IH: "replaced es u t" "length js' = length es" by simp_all
  from one obtain a b where "s = a @ normalize_newlines (ed_old_text e) @ b" "u = a @ normalize_newlines (ed_new_text e) @ b"
    "normalize_newlines (ed_old_text e) \<noteq> []" "count_text (normalize_newlines (ed_old_text e)) s = 1"
    "find_index (normalize_newlines (ed_old_text e)) s = Some (length a)"
    by (auto simp: apply_edit_iff Let_def)
  with IH js show ?case by (auto simp: replaced_Cons)
qed simp

lemma replaced_apply:
  "replaced es s t \<Longrightarrow> \<exists>js. apply_edits raw i es s = Inr (t, js)"
proof (induction arbitrary: i rule: replaced.induct)
  case (replaced_next old e a b es t)
  have "apply_edit raw i e (a @ old @ b)
      = Inr (a @ normalize_newlines (ed_new_text e) @ b, replacement_json i (char_count a) old (normalize_newlines (ed_new_text e)))"
    using replaced_next.hyps by (auto simp: apply_edit_iff Let_def)
  then show ?case using replaced_next.IH [of "Suc i"] by auto
qed simp

lemma replaced_no_CR: "replaced es s t \<Longrightarrow> CR \<notin> set s \<Longrightarrow> CR \<notin> set t"
  by (induction rule: replaced.induct) (auto simp: normalized_no_CR)

section \<open>Steps of a tool\<close>

lemma check_signal_run: "check_signal sg w = (r, w') \<Longrightarrow> w' = w"
  by (simp add: check_signal_def)

lemma settle_run: "settle x w = (r, w') \<Longrightarrow> r = x \<and> w' = w"
  by (simp add: settle_def)

lemma call_env_run:
  assumes "call_env f w = (r, w')"
  shows "(\<exists>e. r = Inl e) \<and> (\<forall>x. fst (f w) \<noteq> Inr (Inr x)) \<and> snd (f w) = w' \<or> (\<exists>x. r = Inr x \<and> f w = (Inr (Inr x), w'))"
proof (cases rule: and_then_elim [OF assms [unfolded call_env_def]])
  case (1 e)
  then show ?thesis by simp
next
  case (2 x w1)
  then show ?thesis by (cases x) (auto simp: settle_def)
qed

lemma unaltered_run: "unaltered files f \<Longrightarrow> f w = (r, w') \<Longrightarrow> files w' = files w"
  by (auto simp: unaltered_def dest: spec [of _ w])

lemma unaltered_call: "unaltered files f \<Longrightarrow> call_env f w = (r, w') \<Longrightarrow> files w' = files w"
  using call_env_run [of f w r w'] unaltered_run [of files f w "fst (f w)" "snd (f w)"] by fastforce

text \<open>A write through \<^verbatim>\<open>get_or_raise\<close>: done when it returns; when it raises, the file is as it was, or
  holds the new content and the token was cancelled meanwhile.\<close>

definition written ::
  "('w \<Rightarrow> string \<Rightarrow> string option) \<Rightarrow> string \<Rightarrow> string \<Rightarrow> 'w signal \<Rightarrow> exn + 'b \<Rightarrow> 'w \<Rightarrow> 'w \<Rightarrow> bool" where
  "written files p data sg r w w' \<longleftrightarrow>
     (case r of
        Inr _ \<Rightarrow> files w' = (files w)(p \<mapsto> data)
      | Inl _ \<Rightarrow> (files w' p = files w p \<or> files w' p = Some data \<and> sg w' \<noteq> None) \<and>
          (\<forall>q. q \<noteq> p \<longrightarrow> files w q \<noteq> None \<longrightarrow> files w' q = files w q))"

context file_store
begin

lemma resolve_tool_path_run:
  assumes "resolve_tool_path env path sg w = (r, w')"
  shows "files w' = files w \<and> (\<forall>p. r = Inr p \<longrightarrow> resolved_path p)"
  using assms unaltered_call [OF absolute_quiet] call_env_run absolute_resolved
  by (fastforce simp: resolve_tool_path_def)

lemma queue_key_run: "queue_key env p w = (r, w') \<Longrightarrow> files w' = files w"
  unfolding queue_key_def
  by (auto simp: pure_def fails_def elim!: and_then_elim split: sum.splits if_splits
    dest!: unaltered_call [OF absolute_quiet] unaltered_run [OF canonical_quiet])

lemma write_run:
  assumes p: "resolved_path p" and run: "call_env (xe_write_file env p data sg) w = (r, w')"
  shows "written files p data sg r w w'"
proof (cases "\<exists>x. r = Inr x \<and> xe_write_file env p data sg w = (Inr (Inr x), w')")
  case True
  then show ?thesis using write_done [OF p] by (auto simp: written_def)
next
  case False
  then obtain e y where r: "r = Inl e" and y: "xe_write_file env p data sg w = (y, w')" "\<forall>u. y \<noteq> Inr (Inr u)"
    using call_env_run [OF run] by (cases "xe_write_file env p data sg w") auto
  then show ?thesis using write_failed [OF p y] write_local [OF p y(1)] by (auto simp: written_def)
qed

lemma mutate_edit_run:
  assumes p: "resolved_path p" and run: "mutate_edit env sg raw p edits w = (r, w')"
  shows "(\<exists>e. r = Inl e) \<and> files w' = files w \<or>
     (\<exists>data new js. files w p = Some data \<and> edited_text raw edits data = Inr (new, js) \<and> written files p new sg r w w')"
  using run unfolding mutate_edit_def
proof (cases rule: and_then_elim)
  case (first_failed e)
  then show ?thesis using unaltered_call [OF read_quiet] by blast
next
  case (both data w1)
  have w1: "files w1 = files w" using both(1) by (rule unaltered_call [OF read_quiet])
  have data: "files w p = Some data" using call_env_run [OF both(1)] read_content [OF p] by fastforce
  from both(2) show ?thesis
  proof (cases rule: and_then_elim)
    case (first_failed e)
    then show ?thesis using w1 by (auto dest: settle_run)
  next
    case edited: (both x w2)
    obtain new js where x: "x = (new, js)" by (cases x)
    have e: "edited_text raw edits data = Inr (new, js)" "w2 = w1" using settle_run [OF edited(1)] x by auto
    show ?thesis
    proof (cases "new = data")
      case True
      then have "w' = w1" "\<exists>y. r = Inr y" using edited(2) x e by (auto simp: pure_def)
      then have "written files p new sg r w w'" using w1 data True by (auto simp: written_def fun_eq_iff)
      then show ?thesis using e data by blast
    next
      case False
      with edited(2) x e have step: "and_then (settle (encodable new)) (\<lambda>_.
          and_then (call_env (xe_write_file env p new sg)) (\<lambda>_. pure (file_result
            (''Applied '' @ nat_digits (length edits) @ '' edit(s) to '' @ raw)
            [(''path'', JStr p), (''changed'', JBool True), (''beforeBytes'', JInt (int (length data))),
             (''afterBytes'', JInt (int (length new))), (''replacements'', JInt (int (length js))),
             (''edits'', JArr js)]))) w1 = (r, w')" by simp
      from step show ?thesis
      proof (cases rule: and_then_elim)
        case (first_failed e)
        then show ?thesis using w1 by (auto dest: settle_run)
      next
        case enc: (both u w3)
        have "w3 = w1" using settle_run [OF enc(1)] by simp
        from enc(2) have "written files p new sg r w1 w'"
        proof (cases rule: and_then_elim)
          case (first_failed e)
          then show ?thesis using write_run [OF p first_failed(1)] \<open>w3 = w1\<close> by (simp add: written_def)
        next
          case (both v w4)
          then show ?thesis using write_run [OF p both(1)] \<open>w3 = w1\<close> by (auto simp: written_def pure_def)
        qed
        then have "written files p new sg r w w'" unfolding written_def w1 .
        then show ?thesis using e data by blast
      qed
    qed
  qed
qed

lemma execute_edit_run:
  assumes run: "execute_edit env sg args w = (r, w')"
  shows "(\<exists>e. r = Inl e) \<and> files w' = files w \<or>
     (\<exists>raw edits p data new js. require_string args ''path'' = Inr raw \<and> parse_edits args = Inr edits \<and>
        resolved_path p \<and> files w p = Some data \<and> edited_text raw edits data = Inr (new, js) \<and>
        written files p new sg r w w')"
  using run unfolding execute_edit_def
proof (cases rule: and_then_elim)
  case (first_failed e)
  then show ?thesis using check_signal_run [of sg w "Inl e" w'] by simp
next
  case a: (both u w1)
  have w1: "w1 = w" using check_signal_run [OF a(1)] .
  from a(2) show ?thesis
  proof (cases rule: and_then_elim)
    case (first_failed e)
    then show ?thesis using w1 by (auto dest: settle_run)
  next
    case b: (both raw w2)
    have raw: "require_string args ''path'' = Inr raw" "w2 = w" using settle_run [OF b(1)] w1 by auto
    from b(2) show ?thesis
    proof (cases rule: and_then_elim)
      case (first_failed e)
      then show ?thesis using raw by (auto dest: settle_run)
    next
      case c: (both edits w3)
      have edits: "parse_edits args = Inr edits" "w3 = w" using settle_run [OF c(1)] raw by auto
      from c(2) show ?thesis
      proof (cases rule: and_then_elim)
        case (first_failed e)
        then show ?thesis using resolve_tool_path_run edits by blast
      next
        case d: (both p w4)
        have p: "files w4 = files w" "resolved_path p" using resolve_tool_path_run [OF d(1)] edits by auto
        from d(2) show ?thesis unfolding with_file_mutation_queue_def
        proof (cases rule: and_then_elim)
          case (first_failed e)
          then show ?thesis using queue_key_run [OF first_failed(1)] p by simp
        next
          case (both k w5)
          have w5: "files w5 = files w" using queue_key_run [OF both(1)] p by simp
          from mutate_edit_run [OF p(2) both(2)] show ?thesis
            unfolding written_def w5 using raw edits p(2) by blast
        qed
      qed
    qed
  qed
qed

end

context local_files
begin

lemma local_edit_run:
  "execute_edit (local_execution_env env nfd) sg args w = (r, w') \<Longrightarrow>
   (\<exists>e. r = Inl e) \<and> files w' = files w \<or>
     (\<exists>raw edits p data new js. require_string args ''path'' = Inr raw \<and> parse_edits args = Inr edits \<and>
        resolved_path p \<and> files w p = Some data \<and> edited_text raw edits data = Inr (new, js) \<and>
        written files p new sg r w w')"
  by (rule execute_edit_run)

end

section \<open>The edit tool\<close>

text \<open>C34: Over any file system, the edit tool changes at most the file that its path addresses, and
  that file as a whole.  If it returns, the file holds exactly the edited text of the content it had;
  if it raises, the file is unchanged, unless the token was cancelled during the write, and then it
  holds the whole edited text.  Any other file that existed is untouched.\<close>

theorem edit_changes_one_file:
  assumes "posix_files (le_os env) files" and "take 1 (le_cwd env) = ''/''"
    and "execute_edit (local_execution_env env nfd) sg args w = (r, w')"
  shows "(\<exists>e. r = Inl e) \<and> files w' = files w \<or>
     (\<exists>raw edits p data new js. require_string args ''path'' = Inr raw \<and> parse_edits args = Inr edits \<and>
        resolved_path p \<and> files w p = Some data \<and> edited_text raw edits data = Inr (new, js) \<and>
        (case r of
           Inr _ \<Rightarrow> files w' = (files w)(p \<mapsto> new)
         | Inl _ \<Rightarrow> (files w' p = files w p \<or> files w' p = Some new \<and> sg w' \<noteq> None) \<and>
             (\<forall>q. q \<noteq> p \<longrightarrow> files w q \<noteq> None \<longrightarrow> files w' q = files w q)))"
proof -
  have "local_files env files" using assms(1,2) by (simp add: local_files_def local_files_axioms_def)
  from local_files.local_edit_run [OF this assms(3)] show ?thesis unfolding written_def .
qed

section \<open>Examples\<close>

definition low :: "string \<Rightarrow> bool" where
  "low s \<longleftrightarrow> (\<forall>c \<in> set s. (of_char c :: nat) < 128)"

lemma low_simps [simp]: "low []" "low (c # s) \<longleftrightarrow> (of_char c :: nat) < 128 \<and> low s"
  by (auto simp: low_def)

lemma utf8_chars_low: "low s \<Longrightarrow> utf8_chars s = map (\<lambda>c. [c]) s"
proof (induction s)
  case (Cons c s)
  then show ?case by (cases s) (auto simp: continuation_byte_def)
qed simp

lemma unicode_space_long: "g \<in> set UNICODE_SPACES \<Longrightarrow> length g \<noteq> 1"
  by (auto simp: UNICODE_SPACES_def utf8_encode_def)

lemma plain_spaces_low:
  assumes "low s"
  shows "plain_spaces s = s"
proof -
  have "[c] \<notin> set UNICODE_SPACES" for c using unicode_space_long [of "[c]"] by auto
  then show ?thesis using assms by (simp add: plain_spaces_def utf8_chars_low comp_def)
qed

lemma normalize_low: "low s \<Longrightarrow> take 1 s \<noteq> ''@'' \<Longrightarrow> normalize_tool_path s = s"
  by (simp add: normalize_tool_path_def plain_spaces_low)

definition small_disk :: "nat option \<Rightarrow> disk" where
  "small_disk n = \<lparr>dk_files = [(''/work/a'', ''xyz'')], dk_faults = [], dk_cancel_after = n\<rparr>"

definition small_edit :: jobject where
  "small_edit = [(''path'', JStr ''a''), (''oldText'', JStr ''y''), (''newText'', JStr ''Y'')]"

lemma small_paths:
  "local_path disk_env ''a'' = Inr ''/work/a''" "local_path disk_env ''/work/a'' = Inr ''/work/a''"
  "path_parent ''/work/a'' = ''/work''" "path_name ''/work/a'' = ''a''"
  "posix_parts ''/work'' = [''/'', ''work'']" "posix_root ''/work'' = ''/''"
proof -
  have "resolve_local (\<lambda>_. None) ''/work'' ''a'' = Inr ''/work/a''"
    "resolve_local (\<lambda>_. None) ''/work'' ''/work/a'' = Inr ''/work/a''" by code_simp+
  then show "local_path disk_env ''a'' = Inr ''/work/a''" "local_path disk_env ''/work/a'' = Inr ''/work/a''"
    by (simp_all add: local_path_def disk_env_def)
  show "path_parent ''/work/a'' = ''/work''" "path_name ''/work/a'' = ''a''"
    "posix_parts ''/work'' = [''/'', ''work'']" "posix_root ''/work'' = ''/''" by code_simp+
qed

lemma small_edit_steps:
  "require_string small_edit ''path'' = Inr ''a''"
  "parse_edits small_edit = Inr [\<lparr>ed_old_text = ''y'', ed_new_text = ''Y''\<rparr>]"
  "edited_text ''a'' [\<lparr>ed_old_text = ''y'', ed_new_text = ''Y''\<rparr>] ''xyz'' = Inr (''xYz'', [replacement_json 1 1 ''y'' ''Y''])"
  "encodable ''xYz'' = Inr ()"
  "normalize_tool_path ''a'' = ''a''"
  by (code_simp, code_simp, code_simp, code_simp, simp add: normalize_low)

lemma disk_env_os: "le_os disk_env = disk_os" by (simp add: disk_env_def)

lemmas disk_run_simps =
  and_then_def check_signal_def disk_token_def settle_def resolve_tool_path_def call_env_def
  local_execution_env_def absolute_path_def file_operation_def guarded_call_def os_ret_def
  with_file_mutation_queue_def queue_key_def no_signal_def canonical_path_def disk_env_os disk_os_def
  disk_call_def with_content_def disk_files_def passed_def pure_def read_binary_file_def write_file_def
  replace_file_def os_then_def disk_mkstemp_def fresh_name_def posix_join_def store_file_def Let_def
  failed_with_def or_aborted_def small_disk_def small_paths

lemma small_edit_run:
  "\<exists>x. execute_edit (local_execution_env disk_env id) disk_token small_edit (small_disk None)
     = (Inr x, (small_disk None)\<lparr>dk_files := [(''/work/a'', ''xYz'')]\<rparr>)"
  by (simp add: execute_edit_def mutate_edit_def small_edit_steps disk_run_simps dict_pop_def)

theorem edit_changes_one_file_witness:
  "\<exists>p data. disk_files (small_disk None) p = Some data \<and>
     disk_files ((small_disk None)\<lparr>dk_files := [(''/work/a'', ''xYz'')]\<rparr>)
       = (disk_files (small_disk None))(p \<mapsto> ''xYz'')"
proof -
  obtain x where run: "execute_edit (local_execution_env disk_env id) disk_token small_edit (small_disk None)
     = (Inr x, (small_disk None)\<lparr>dk_files := [(''/work/a'', ''xYz'')]\<rparr>)" using small_edit_run by blast
  have "posix_files (le_os disk_env) disk_files" by (simp add: disk_env_os disk.posix_files_axioms)
  moreover have "take 1 (le_cwd disk_env) = ''/''" by (simp add: disk_env_def)
  ultimately have "\<exists>raw edits p data new js. require_string small_edit ''path'' = Inr raw \<and>
      parse_edits small_edit = Inr edits \<and> resolved_path p \<and> disk_files (small_disk None) p = Some data \<and>
      edited_text raw edits data = Inr (new, js) \<and>
      disk_files ((small_disk None)\<lparr>dk_files := [(''/work/a'', ''xYz'')]\<rparr>) = (disk_files (small_disk None))(p \<mapsto> new)"
    using edit_changes_one_file [OF _ _ run, of disk_files] by simp
  then obtain p data new js where "disk_files (small_disk None) p = Some data"
    "edited_text ''a'' [\<lparr>ed_old_text = ''y'', ed_new_text = ''Y''\<rparr>] data = Inr (new, js)"
    "disk_files ((small_disk None)\<lparr>dk_files := [(''/work/a'', ''xYz'')]\<rparr>) = (disk_files (small_disk None))(p \<mapsto> new)"
    by (auto simp: small_edit_steps)
  moreover from this(1) have "data = ''xyz''" by (simp add: disk_files_def small_disk_def split: if_splits)
  ultimately show ?thesis by (auto simp: small_edit_steps)
qed

text \<open>A cancellation that arrives while the file is being written is reported as a failure of the
  tool, although the file has been replaced: the wrapper looks at the token after the operation.\<close>

theorem cancelled_edit_is_kept:
  "\<exists>d. execute_edit (local_execution_env disk_env id) disk_token small_edit (small_disk (Some 4))
     = (Inl (Exn FileError ''stop''), d) \<and> disk_files d ''/work/a'' = Some ''xYz''"
  by (simp add: execute_edit_def mutate_edit_def small_edit_steps disk_run_simps)

section \<open>The edited text\<close>

text \<open>C35: The edits are made one after the other, each at the only place that the count sees; the
  rest of the text stays, and a file with one kind of line end keeps it: a single edit replaces
  exactly one stretch of the file's bytes.\<close>

theorem edited_text_exact:
  assumes "edited_text raw edits data = Inr (new, js)"
  shows "replaced edits (normalize_newlines data) (normalize_newlines new) \<and> length js = length edits \<and>
     (\<forall>e. one_newline data \<and> edits = [e] \<longrightarrow>
        (let R = restore_newlines (detect_newline data) in
         \<exists>a b. data = a @ R (normalize_newlines (ed_old_text e)) @ b \<and>
               new = a @ R (normalize_newlines (ed_new_text e)) @ b))"
proof -
  let ?R = "restore_newlines (detect_newline data)"
  obtain u where edits: "apply_edits raw 1 edits (normalize_newlines data) = Inr (u, js)" and new: "new = ?R u"
    using assms by (auto simp: edited_text_def bindE_eq_Inr)
  note r = apply_edits_replaced [OF edits]
  have "CR \<notin> set u" using r replaced_no_CR normalized_no_CR by blast
  then have "normalize_newlines new = u" unfolding new by (rule normalize_restore) (rule detect_cases)
  moreover have "let R = ?R in \<exists>a b. data = a @ R (normalize_newlines (ed_old_text e)) @ b \<and>
      new = a @ R (normalize_newlines (ed_new_text e)) @ b" if one: "one_newline data" and e: "edits = [e]" for e
  proof -
    obtain a b where a: "normalize_newlines data = a @ normalize_newlines (ed_old_text e) @ b"
      "u = a @ normalize_newlines (ed_new_text e) @ b" using r e by (auto simp: replaced_Cons)
    have "data = ?R (normalize_newlines data)" using one by (simp add: one_newline_def)
    then show ?thesis unfolding Let_def new a restore_append
      by (intro exI [of _ "?R a"] exI [of _ "?R b"]) simp
  qed
  ultimately show ?thesis using r by blast
qed

theorem edited_text_exact_witness:
  "\<exists>a b. ''xyz'' = a @ ''y'' @ b \<and> ''xYz'' = a @ ''Y'' @ b"
proof -
  have "one_newline ''xyz''" by code_simp
  moreover have "restore_newlines (detect_newline ''xyz'') (normalize_newlines ''y'') = ''y''"
    "restore_newlines (detect_newline ''xyz'') (normalize_newlines ''Y'') = ''Y''" by code_simp+
  ultimately show ?thesis
    using edited_text_exact [OF small_edit_steps(3)] by (auto simp: Let_def)
qed

text \<open>Uniqueness is checked by \<^verbatim>\<open>str.count\<close>, which skips overlapping occurrences: an old text that
  occurs twice, overlapping, is accepted and replaced where it first occurs.\<close>

theorem overlapping_match_accepted:
  "edited_text ''a'' [\<lparr>ed_old_text = [CHR ''}'', LF, CHR ''}''], ed_new_text = ''x''\<rparr>]
       [CHR ''}'', LF, CHR ''}'', LF, CHR ''}'']
     = Inr ([CHR ''x'', LF, CHR ''}''], [replacement_json 1 0 [CHR ''}'', LF, CHR ''}''] ''x'']) \<and>
   take 3 (drop 2 [CHR ''}'', LF, CHR ''}'', LF, CHR ''}'']) = [CHR ''}'', LF, CHR ''}'']"
  by code_simp

text \<open>A file with mixed line ends is rewritten with one kind throughout, even by an edit that
  replaces a text by itself.\<close>

theorem mixed_newlines_rewritten:
  "edited_text ''a'' [\<lparr>ed_old_text = ''b'', ed_new_text = ''b''\<rparr>] [CHR ''a'', CR, LF, CHR ''b'', LF]
     = Inr ([CHR ''a'', CR, LF, CHR ''b'', CR, LF], [replacement_json 1 2 ''b'' ''b''])"
  by code_simp

end
