(* ===== verification/ImageType.thy ===== *)
theory ImageType
  imports Prelude
begin

text \<open>
  Which files the read tool sends as images (\<^verbatim>\<open>src/pi_agent/harness/image.py\<close>).  Bytes are
  characters; slices beyond the end are shorter, as in Python.
\<close>

section \<open>Reading bytes\<close>

definition slice :: "nat \<Rightarrow> nat \<Rightarrow> string \<Rightarrow> string" where
  "slice a b s = drop a (take b s)"

definition starts_with :: "nat list \<Rightarrow> string \<Rightarrow> bool" where
  "starts_with ns s \<longleftrightarrow> map of_char (take (length ns) s) = ns"

definition big_endian :: "string \<Rightarrow> nat" where
  "big_endian s = foldl (\<lambda>n c. n * 256 + of_char c) 0 s"

definition little_endian :: "string \<Rightarrow> nat" where
  "little_endian s = big_endian (rev s)"

section \<open>Formats\<close>

definition PNG_SIGNATURE :: "nat list" where
  "PNG_SIGNATURE = [137, 80, 78, 71, 13, 10, 26, 10]"

definition is_png :: "string \<Rightarrow> bool" where
  "is_png s \<longleftrightarrow> 16 \<le> length s \<and> big_endian (slice 8 12 s) = 13 \<and> slice 12 16 s = ''IHDR''"

text \<open>The walk over the chunks: the next offset is always beyond the current one, so the guard
  \<^verbatim>\<open>next_offset <= offset\<close> never fires, and the walk ends.\<close>

function animated_from :: "nat \<Rightarrow> string \<Rightarrow> bool" where
  "animated_from offset s =
     (if offset + 8 \<le> length s then
        (let chunk_length = big_endian (slice offset (offset + 4) s);
             chunk_type = slice (offset + 4) (offset + 8) s;
             next_offset = offset + 8 + chunk_length + 4
         in if chunk_type = ''acTL'' then True
            else if chunk_type = ''IDAT'' then False
            else if next_offset \<le> offset \<or> length s < next_offset then False
            else animated_from next_offset s)
      else False)"
  by pat_completeness auto
termination by (relation "measure (\<lambda>(offset, s). length s - offset)") auto

declare animated_from.simps [simp del]

definition is_animated_png :: "string \<Rightarrow> bool" where
  "is_animated_png s = animated_from (length PNG_SIGNATURE) s"

definition is_bmp :: "string \<Rightarrow> bool" where
  "is_bmp s =
     (if length s < 26 then False
      else
        (let declared_size = little_endian (slice 2 6 s);
             pixel_offset = little_endian (slice 10 14 s);
             dib_size = little_endian (slice 14 18 s);
             valid = (\<lambda>planes bits. planes = 1 \<and> bits \<in> {1, 4, 8, 16, 24, 32})
         in if declared_size \<noteq> 0 \<and> declared_size < 26 then False
            else if pixel_offset < 14 + dib_size then False
            else if declared_size \<noteq> 0 \<and> declared_size \<le> pixel_offset then False
            else if dib_size = 12 then
              valid (little_endian (slice 22 24 s)) (little_endian (slice 24 26 s))
            else if 40 \<le> dib_size \<and> dib_size \<le> 124 \<and> 30 \<le> length s then
              valid (little_endian (slice 26 28 s)) (little_endian (slice 28 30 s))
            else False))"

definition detect_supported_image_mime_type :: "string \<Rightarrow> string option" where
  "detect_supported_image_mime_type s =
     (if starts_with [255, 216, 255] s then
        (if 3 < length s \<and> (of_char (s ! 3) :: nat) = 247 then None else Some ''image/jpeg'')
      else if starts_with PNG_SIGNATURE s then
        (if is_png s \<and> \<not> is_animated_png s then Some ''image/png'' else None)
      else if take 3 s = ''GIF'' then Some ''image/gif''
      else if take 4 s = ''RIFF'' \<and> slice 8 12 s = ''WEBP'' then Some ''image/webp''
      else if take 2 s = ''BM'' \<and> is_bmp s then Some ''image/bmp''
      else None)"

section \<open>Base64\<close>

definition base64_char :: "nat \<Rightarrow> char" where
  "base64_char n =
     (if n < 26 then char_of (65 + n) else if n < 52 then char_of (71 + n)
      else if n < 62 then char_of (n - 4) else if n = 62 then CHR ''+'' else CHR ''/'')"

fun encode_base64 :: "string \<Rightarrow> string" where
  "encode_base64 (a # b # c # s) =
     (let n = big_endian [a, b, c]
      in [base64_char (n div 262144), base64_char (n div 4096 mod 64), base64_char (n div 64 mod 64),
          base64_char (n mod 64)] @ encode_base64 s)"
| "encode_base64 [a, b] =
     (let n = big_endian [a, b] * 4
      in [base64_char (n div 4096), base64_char (n div 64 mod 64), base64_char (n mod 64), CHR ''='']) "
| "encode_base64 [a] =
     (let n = big_endian [a] * 16
      in [base64_char (n div 64), base64_char (n mod 64), CHR ''='', CHR ''=''])"
| "encode_base64 [] = []"

end
