(* ===== verification/ReadTool.thy ===== *)
theory ReadTool
  imports FileTools ImageType Truncate
begin

text \<open>
  The tools that show files and command output
  (\<^verbatim>\<open>src/pi_agent/harness/tools/read.py\<close> and \<^verbatim>\<open>bash.py\<close>).  Their output is cut by
  \<open>Truncate\<close>, on code points.
\<close>

section \<open>Reading\<close>

definition limits :: "(string, 'a) result \<Rightarrow> (exn, 'a) result" where
  "limits r = (case r of Inl msg \<Rightarrow> Inl (Exn ValueError msg) | Inr x \<Rightarrow> Inr x)"

definition optional_json :: "string option \<Rightarrow> json" where
  "optional_json = case_option JNull JStr"

definition read_details ::
  "string \<Rightarrow> int \<Rightarrow> json \<Rightarrow> int \<Rightarrow> int \<Rightarrow> int \<Rightarrow> int \<Rightarrow> bool \<Rightarrow> string option \<Rightarrow> jobject" where
  "read_details resolved offset limit start stop n_lines data_size truncated truncated_by =
     [(''path'', JStr resolved), (''offset'', JInt offset), (''limit'', limit),
      (''startLine'', JInt (if n_lines \<noteq> 0 then start + 1 else 0)), (''endLine'', JInt stop),
      (''totalLines'', JInt n_lines), (''size'', JInt data_size), (''truncated'', JBool truncated),
      (''truncatedBy'', optional_json truncated_by)]"

definition continue_hint :: "int \<Rightarrow> int \<Rightarrow> int \<Rightarrow> string" where
  "continue_hint start stop n_lines =
     LF # ''[Showing lines '' @ py_str_int (start + 1) @ ''-'' @ py_str_int stop @ '' of '' @ py_str_int n_lines
       @ ''. Use offset='' @ py_str_int (stop + 1) @ '' to continue.]''"

definition selection :: "int \<Rightarrow> int \<Rightarrow> 'a list \<Rightarrow> 'a list" where
  "selection start stop xs = drop (nat start) (take (nat stop) xs)"

definition render_verbatim ::
  "string \<Rightarrow> text \<Rightarrow> int \<Rightarrow> int \<Rightarrow> int \<Rightarrow> int \<Rightarrow> int \<Rightarrow> (exn, agent_tool_result) result" where
  "render_verbatim resolved s data_size offset limit max_bytes max_lines =
     (let lines = text_lines_keep s;
          n_lines = int (length lines);
          start = min (offset - 1) n_lines;
          stop = min (start + limit) n_lines;
          selected = concat (selection start stop lines)
      in bindE (limits (truncate_head selected max_lines max_bytes)) (\<lambda>cut.
         let shown = truncation_result.tr_content cut;
             has_more = stop < n_lines;
             rendered =
               (if has_more then
                  encode_text shown @ (if shown \<noteq> [] \<and> last shown \<noteq> newline then [LF] else [])
                    @ continue_hint start stop n_lines
                else encode_text shown)
         in Inr (file_result rendered
              (read_details resolved offset (JInt limit) start stop n_lines data_size
                 (tr_truncated cut \<or> has_more) (tr_truncated_by cut)))))"

text \<open>\<^verbatim>\<open>f"{n:>{width}}: {line}"\<close>\<close>

definition ascii_text :: "string \<Rightarrow> text" where
  "ascii_text s = map of_char s"

definition pad_left :: "nat \<Rightarrow> string \<Rightarrow> string" where
  "pad_left width s = replicate (width - length s) (CHR '' '') @ s"

fun number_lines :: "nat \<Rightarrow> int \<Rightarrow> text list \<Rightarrow> text list" where
  "number_lines width n [] = []"
| "number_lines width n (l # ls) =
     (ascii_text (pad_left width (py_str_int n) @ '': '') @ l) # number_lines width (n + 1) ls"

definition render_numbered ::
  "string \<Rightarrow> string \<Rightarrow> text \<Rightarrow> int \<Rightarrow> int \<Rightarrow> int option \<Rightarrow> int \<Rightarrow> int \<Rightarrow> (exn, agent_tool_result) result" where
  "render_numbered raw_path resolved s data_size offset limit max_bytes max_lines =
     (let lines = text_lines s;
          n_lines = int (length lines);
          start = min (offset - 1) n_lines;
          stop = (case limit of None \<Rightarrow> n_lines | Some n \<Rightarrow> min (start + n) n_lines);
          width = max 1 (length (py_str_int (max stop 1)));
          numbered = join_with newline (number_lines width (start + 1) (selection start stop lines))
      in bindE (limits (truncate_head numbered max_lines max_bytes)) (\<lambda>cut.
         let header = raw_path @ '' (lines '' @ py_str_int (start + 1) @ ''-'' @ py_str_int stop @ '' of ''
                        @ py_str_int n_lines @ '')'';
             shown = truncation_result.tr_content cut;
             body = (if shown = [] then ''[empty selection]'' else encode_text shown)
         in Inr (file_result (header @ LF # body)
              (read_details resolved offset (case limit of None \<Rightarrow> JNull | Some n \<Rightarrow> JInt n) start stop
                 n_lines data_size (tr_truncated cut) (tr_truncated_by cut)))))"

definition image_result :: "string \<Rightarrow> string \<Rightarrow> string \<Rightarrow> agent_tool_result" where
  "image_result resolved data mime =
     \<lparr>agent_tool_result.tr_content =
        [TextContent (''Read image file ['' @ mime @ '']'') JNull, ImageContent (encode_base64 data) mime],
      tr_details = JObj [(''path'', JStr resolved), (''size'', JInt (int (length data))),
        (''mimeType'', JStr mime), (''image'', JBool True)],
      tr_usage = None, tr_added_tool_names = JNull, tr_terminate = False, tr_is_error = False\<rparr>"

definition render_file ::
  "int option \<Rightarrow> int \<Rightarrow> int \<Rightarrow> string \<Rightarrow> string \<Rightarrow> int \<Rightarrow> int option \<Rightarrow> string
   \<Rightarrow> (exn, agent_tool_result) result" where
  "render_file default_line_limit max_chars max_lines raw_path resolved offset limit data =
     (case detect_supported_image_mime_type data of
        Some mime \<Rightarrow>
          if offset \<noteq> 1 \<or> limit \<noteq> None then
            Inl (Exn ValueError ''offset and limit are not supported for images'')
          else Inr (image_result resolved data mime)
      | None \<Rightarrow>
          bindE (file_text ''read'' raw_path data) (\<lambda>_.
          case default_line_limit of
            Some n \<Rightarrow>
              render_verbatim resolved (decode_text data) (int (length data)) offset
                (case limit of Some l \<Rightarrow> l | None \<Rightarrow> n) max_chars max_lines
          | None \<Rightarrow>
              render_numbered raw_path resolved (decode_text data) (int (length data)) offset limit
                max_chars max_lines))"

definition execute_read ::
  "'w execution_env \<Rightarrow> 'w signal \<Rightarrow> int option \<Rightarrow> int \<Rightarrow> int \<Rightarrow> jobject \<Rightarrow> ('w, agent_tool_result) hook" where
  "execute_read env signal default_line_limit max_chars max_lines args =
     and_then (check_signal signal) (\<lambda>_.
     and_then (settle (require_string args ''path'')) (\<lambda>raw_path.
     and_then (settle (optional_positive_int args ''offset'')) (\<lambda>given_offset.
     and_then (settle (optional_positive_int args ''limit'')) (\<lambda>limit.
     and_then (resolve_read_tool_path env raw_path signal) (\<lambda>resolved.
     and_then (call_env (xe_file_info env resolved signal)) (\<lambda>info.
       if fi_kind info \<noteq> ''file'' then fails (Exn ValueError (''Not a regular file: '' @ raw_path))
       else
         and_then (call_env (xe_read_binary_file env resolved signal)) (\<lambda>data.
         and_then (check_signal signal) (\<lambda>_.
         settle (render_file default_line_limit max_chars max_lines raw_path resolved
                   (case given_offset of Some n \<Rightarrow> n | None \<Rightarrow> 1) limit data)))))))))"

definition positive_schema :: json where
  "positive_schema = JObj [(''type'', JStr ''integer''), (''minimum'', JInt 1)]"

definition read_parameters :: jobject where
  "read_parameters =
     [(''type'', JStr ''object''), (''required'', JArr [JStr ''path'']),
      (''properties'', JObj [(''path'', path_schema), (''offset'', positive_schema),
         (''limit'', positive_schema)]),
      (''additionalProperties'', JBool False)]"

definition create_read_tool ::
  "'w execution_env \<Rightarrow> 'w signal \<Rightarrow> int option \<Rightarrow> int \<Rightarrow> int \<Rightarrow> (exn, 'w agent_tool) result" where
  "create_read_tool env signal default_line_limit max_chars max_lines =
     (if (case default_line_limit of Some n \<Rightarrow> n \<le> 0 | None \<Rightarrow> False)
      then Inl (Exn ValueError ''default_line_limit must be positive'')
      else Inr (coding_tool ''read'' ''Read''
        ''Read a text file or a supported image with optional one-based offset and limit.''
        read_parameters Parallel (execute_read env signal default_line_limit max_chars max_lines)))"

section \<open>Running a command\<close>

record execution_error =
  xr_code :: string
  xr_message :: string

record shell_result =
  sh_stdout :: string
  sh_stderr :: string
  sh_exit_code :: int
  sh_duration_seconds :: pyfloat

text \<open>\<^verbatim>\<open>env.exec\<close>, with the environment's working directory, the token and a callback: the
  chunks it hands to the callback, and its result.\<close>

type_synonym 'w shell_exec =
  "string \<Rightarrow> pyfloat \<Rightarrow> 'w \<Rightarrow> ((string \<times> string) list \<times> (execution_error + shell_result)) \<times> 'w"

definition shell_output :: "shell_result \<Rightarrow> string" where
  "shell_output r =
     (if sh_stdout r \<noteq> [] \<and> sh_stderr r \<noteq> [] then sh_stdout r @ LF # sh_stderr r
      else if sh_stdout r \<noteq> [] then sh_stdout r else sh_stderr r)"

definition chunk_update :: "string \<times> string \<Rightarrow> agent_tool_result" where
  "chunk_update sc = file_result (snd sc) [(''stream'', JStr (fst sc)), (''partial'', JBool True)]"

definition execution_failure :: "execution_error \<Rightarrow> exn" where
  "execution_failure e =
     Exn (if xr_code e = ''timeout'' then TimeoutError
          else if xr_code e = ''aborted'' then CancelledError else OtherException) (xr_message e)"

definition render_command ::
  "int \<Rightarrow> int \<Rightarrow> string \<Rightarrow> shell_result \<Rightarrow> (exn, agent_tool_result) result" where
  "render_command max_chars max_lines command r =
     bindE (limits (truncate_tail (decode_text (shell_output r)) max_lines max_chars)) (\<lambda>cut.
     let shown = truncation_result.tr_content cut;
         body = (if shown = [] then ''[command produced no output]'' else encode_text shown);
         rendered =
           (if tr_truncated cut then
              ''[Output truncated; showing the final '' @ py_str_int (tr_output_lines cut) @ '' lines / ''
                @ format_size (tr_output_bytes cut) @ '' of '' @ format_size (tr_total_bytes cut) @ '']''
                @ LF # body
            else body)
     in Inr ((file_result (rendered @ LF # LF # ''Process exited with code '' @ py_str_int (sh_exit_code r))
          [(''command'', JStr command), (''exitCode'', JInt (sh_exit_code r)),
           (''stdout'', JStr (sh_stdout r)), (''stderr'', JStr (sh_stderr r)),
           (''durationSeconds'', JFloat (sh_duration_seconds r)), (''truncated'', JBool (tr_truncated cut)),
           (''truncatedBy'', optional_json (tr_truncated_by cut))])
        \<lparr>tr_is_error := sh_exit_code r \<noteq> 0\<rparr>))"

definition execute_bash ::
  "'w shell_exec \<Rightarrow> pyfloat \<Rightarrow> int \<Rightarrow> int \<Rightarrow> jobject \<Rightarrow> 'w
   \<Rightarrow> (agent_tool_result list \<times> (exn + agent_tool_result)) \<times> 'w" where
  "execute_bash exec default_timeout max_chars max_lines args w =
     (case bindE (require_string args ''command'') (\<lambda>command.
             bindE (optional_positive_int args ''timeout'') (\<lambda>timeout. Inr (command, timeout))) of
        Inl e \<Rightarrow> (([], Inl e), w)
      | Inr (command, requested) \<Rightarrow>
          (case exec command (case requested of Some n \<Rightarrow> Fin (of_int n) | None \<Rightarrow> default_timeout) w of
             ((chunks, outcome), w') \<Rightarrow>
               ((map chunk_update chunks,
                 case outcome of
                   Inl e \<Rightarrow> Inl (execution_failure e)
                 | Inr r \<Rightarrow> render_command max_chars max_lines command r), w')))"

definition bash_parameters :: jobject where
  "bash_parameters =
     [(''type'', JStr ''object''), (''required'', JArr [JStr ''command'']),
      (''properties'', JObj [(''command'', path_schema), (''timeout'', positive_schema)]),
      (''additionalProperties'', JBool False)]"

definition bash_tool :: "'w shell_exec \<Rightarrow> pyfloat \<Rightarrow> int \<Rightarrow> int \<Rightarrow> 'w agent_tool" where
  "bash_tool exec default_timeout max_chars max_lines =
     \<lparr>t_name = ''bash'', t_label = ''Bash'',
      t_description = ''Execute a shell command in the current working directory.'',
      t_parameters = bash_parameters,
      t_execute = (\<lambda>_. execute_bash exec default_timeout max_chars max_lines),
      t_prepare_arguments = None, t_execution_mode = Sequential, t_timeout = None,
      t_constrained_sampling = JBool False\<rparr>"

end
