(* ===== verification/ReadToolCorrect.thy ===== *)
theory ReadToolCorrect
  imports ReadTool
begin

text \<open>
  What a reader of the read tool's output can rely on: pages that fit are shown as they are and the
  hints lead through the whole file; and where the output says more than it shows.
\<close>

section \<open>Lines\<close>

lemma text_lines_keep_Nil [simp]: "text_lines_keep s = [] \<longleftrightarrow> s = []"
  by (cases s) (auto split: list.split)

lemma concat_text_lines_keep [simp]: "concat (text_lines_keep s) = s"
  by (induction s) (auto split: list.splits)

text \<open>The part of a text that a page of the verbatim rendering is made of.\<close>

definition page :: "text \<Rightarrow> nat \<Rightarrow> nat \<Rightarrow> text" where
  "page s start n = concat (take n (drop start (text_lines_keep s)))"

lemma page_selection:
  "concat (selection (int start) (min (int start + int n) (int (length (text_lines_keep s)))) (text_lines_keep s))
     = page s start n"
proof -
  have "nat (min (int start + int n) (int (length (text_lines_keep s)))) = min (start + n) (length (text_lines_keep s))"
    by (simp add: min_def nat_add_distrib)
  then show ?thesis by (simp add: selection_def page_def take_drop add.commute min_def)
qed

lemma pages_join:
  assumes "0 < n"
  shows "concat (map (\<lambda>k. page s (k * n) n) [0..<m]) = concat (take (m * n) (text_lines_keep s))"
proof (induction m)
  case (Suc m)
  have "take (Suc m * n) (text_lines_keep s)
      = take (m * n) (text_lines_keep s) @ take n (drop (m * n) (text_lines_keep s))"
    using take_add [of "m * n" n "text_lines_keep s"] by (simp add: add.commute)
  with Suc show ?case by (simp add: page_def)
qed simp

definition fits :: "int \<Rightarrow> int \<Rightarrow> text \<Rightarrow> bool" where
  "fits ml mb s \<longleftrightarrow> 0 \<le> ml \<and> 0 \<le> mb \<and> int (length (split_lines_for_counting s)) \<le> ml \<and> utf8_length s \<le> mb"

lemma truncate_head_fits:
  "fits ml mb s \<Longrightarrow> truncate_head s ml mb
     = Inr (unchanged_result s (int (length (split_lines_for_counting s))) (utf8_length s) ml mb)"
  by (simp add: fits_def truncate_head_def validate_limits_def Let_def)

text \<open>What the reader of page \<open>k\<close> is told when there are lines after it, written out: the
  lines shown, counted from 1, and the offset at which page \<open>k + 1\<close> starts.  The hint stands on a
  line of its own, after an empty one.\<close>

definition told_next :: "text \<Rightarrow> nat \<Rightarrow> nat \<Rightarrow> string" where
  "told_next s n k =
     (if page s (k * n) n \<noteq> [] \<and> last (page s (k * n) n) \<noteq> newline then [CHR 0x0A] else [])
     @ [CHR 0x0A] @ ''[Showing lines '' @ py_str_int (int (k * n) + 1) @ ''-'' @ py_str_int (int (Suc k * n))
     @ '' of '' @ py_str_int (int (length (text_lines_keep s)))
     @ ''. Use offset='' @ py_str_int (int (Suc k * n) + 1) @ '' to continue.]''"

definition page_fields :: "string \<Rightarrow> text \<Rightarrow> int \<Rightarrow> nat \<Rightarrow> nat \<Rightarrow> jobject" where
  "page_fields resolved s n_bytes n k =
     (let total = length (text_lines_keep s) in
      [(''path'', JStr resolved), (''offset'', JInt (int (k * n) + 1)), (''limit'', JInt (int n)),
       (''startLine'', JInt (if s = [] then 0 else int (k * n) + 1)),
       (''endLine'', JInt (int (min (Suc k * n) total))), (''totalLines'', JInt (int total)),
       (''size'', JInt n_bytes), (''truncated'', JBool (Suc k * n < total)), (''truncatedBy'', JNull)])"

definition page_shown :: "string \<Rightarrow> text \<Rightarrow> int \<Rightarrow> nat \<Rightarrow> nat \<Rightarrow> agent_tool_result" where
  "page_shown resolved s n_bytes n k =
     \<lparr>agent_tool_result.tr_content =
        [TextContent (encode_text (page s (k * n) n)
           @ (if Suc k * n < length (text_lines_keep s) then told_next s n k else [])) JNull],
      tr_details = JObj (page_fields resolved s n_bytes n k),
      tr_usage = None, tr_added_tool_names = JNull, tr_terminate = False, tr_is_error = False\<rparr>"

lemma render_verbatim_fits:
  assumes "fits ml mb (page s (k * n) n)" and "k * n \<le> length (text_lines_keep s)"
  shows "render_verbatim resolved s n_bytes (int (k * n) + 1) (int n) mb ml =
    Inr (page_shown resolved s n_bytes n k)"
proof -
  let ?n = "length (text_lines_keep s)"
  define b where "b = k * n"
  have Suc: "Suc k * n = b + n" by (simp add: b_def)
  have start: "min (int b + 1 - 1) (int ?n) = int b"
    using assms(2) [folded b_def] by simp
  have more: "min (int b + int n) (int ?n) < int ?n \<longleftrightarrow> b + n < ?n" by (auto simp: min_def)
  have stop: "min (int b + int n) (int ?n) = int (min (b + n) ?n)" by (simp add: min_def)
  show ?thesis
    unfolding render_verbatim_def Let_def b_def [symmetric] start page_selection
      truncate_head_fits [OF assms(1) [folded b_def]] more
    unfolding stop page_shown_def page_fields_def told_next_def Let_def b_def [symmetric] Suc
    by (cases "b + n < ?n")
      (simp_all add: limits_def unchanged_result_def file_result_def read_details_def continue_hint_def
         optional_json_def LF_def)
qed

text \<open>C36: When every page of \<open>n\<close> lines fits the limits of the output, reading at offset
  \<open>k * n + 1\<close> shows the lines of page \<open>k\<close> exactly as they are in the file.  If the file has lines
  after the page, they are followed by a hint that names the lines shown and the offset
  \<open>(k + 1) * n + 1\<close>, at which reading shows the next page; on the last page there is no hint.  The
  details of the result count the same lines.  The pages that follow one another spell the whole text.\<close>

theorem verbatim_pages_cover:
  assumes "0 < n" and "\<forall>k. fits ml mb (page s (k * n) n)"
  shows "(\<forall>k. k * n \<le> length (text_lines_keep s) \<longrightarrow>
      render_verbatim resolved s n_bytes (int (k * n) + 1) (int n) mb ml =
        Inr (page_shown resolved s n_bytes n k)) \<and>
    concat (map (\<lambda>k. page s (k * n) n) [0..<length (text_lines_keep s)]) = s"
proof (intro conjI allI impI)
  fix k
  assume "k * n \<le> length (text_lines_keep s)"
  with assms(2) show "render_verbatim resolved s n_bytes (int (k * n) + 1) (int n) mb ml =
        Inr (page_shown resolved s n_bytes n k)"
    by (intro render_verbatim_fits) simp_all
next
  have "length (text_lines_keep s) \<le> length (text_lines_keep s) * n" using assms(1) by simp
  then show "concat (map (\<lambda>k. page s (k * n) n) [0..<length (text_lines_keep s)]) = s"
    by (simp add: pages_join assms(1))
qed

text \<open>Three lines in pages of two.\<close>

definition three_lines :: "text" where "three_lines = [97, 10, 98, 10, 99]"

theorem verbatim_pages_cover_witness:
  "\<exists>r r'. render_verbatim ''f'' three_lines 5 1 2 100 10 = Inr r \<and>
     agent_tool_result.tr_content r = [TextContent (''a'' @ [LF] @ ''b'' @ [LF, LF]
       @ ''[Showing lines 1-2 of 3. Use offset=3 to continue.]'') JNull] \<and>
     render_verbatim ''f'' three_lines 5 3 2 100 10 = Inr r' \<and>
     agent_tool_result.tr_content r' = [TextContent ''c'' JNull]"
proof -
  have ls: "text_lines_keep three_lines = [[97, 10], [98, 10], [99]]" by (simp add: three_lines_def line_break_def)
  have fit: "fits 10 100 (page three_lines (k * 2) 2)" for k
  proof (cases k)
    case 0
    then show ?thesis by (simp add: page_def ls fits_def utf8_length_def utf8_size.simps split_lines_for_counting_def)
  next
    case (Suc m)
    then show ?thesis by (cases m) (simp_all add: page_def ls fits_def utf8_length_def utf8_size.simps split_lines_for_counting_def)
  qed
  have digits: "py_str_int 1 = ''1''" "py_str_int 2 = ''2''" "py_str_int 3 = ''3''" by code_simp+
  have letters: "encode_text [97, 10, 98, 10] = ''a'' @ [LF] @ ''b'' @ [LF]" "encode_text [99] = ''c''"
    by code_simp+
  have "agent_tool_result.tr_content (page_shown ''f'' three_lines 5 2 0) = [TextContent (''a'' @ [LF] @ ''b'' @ [LF, LF]
       @ ''[Showing lines 1-2 of 3. Use offset=3 to continue.]'') JNull]"
    "agent_tool_result.tr_content (page_shown ''f'' three_lines 5 2 1) = [TextContent ''c'' JNull]"
    by (simp_all add: page_shown_def page_def told_next_def ls digits letters LF_def)
  note shown = this
  have pages: "\<forall>k. k * 2 \<le> length (text_lines_keep three_lines) \<longrightarrow>
      render_verbatim ''f'' three_lines 5 (int (k * 2) + 1) (int 2) 100 10 =
        Inr (page_shown ''f'' three_lines 5 2 k)"
    using verbatim_pages_cover [of 2 10 100 three_lines "''f''" 5] fit by simp
  have "render_verbatim ''f'' three_lines 5 1 2 100 10 = Inr (page_shown ''f'' three_lines 5 2 0)"
    "render_verbatim ''f'' three_lines 5 3 2 100 10 = Inr (page_shown ''f'' three_lines 5 2 1)"
    using pages [THEN spec, of 0] pages [THEN spec, of 1] by (simp_all add: ls)
  with shown show ?thesis by blast
qed

text \<open>The numbered rendering of a file with more lines than the limit: the header says
  that all lines are shown, the body has at most as many as the limit, and nothing in the text says
  that there is more.\<close>

lemma truncate_head_lines:
  assumes "truncate_head s ml mb = Inr shown" and "int (length (split_lines_for_counting s)) > ml"
  shows "\<exists>out. truncation_result.tr_content shown = join_with newline out \<and> int (length out) \<le> ml"
proof (cases "utf8_length (case split_lines_for_counting s of [] \<Rightarrow> [] | l # _ \<Rightarrow> l) > mb")
  case True
  then have "truncation_result.tr_content shown = []" "0 \<le> ml" using assms
    by (auto simp: truncate_head_def Let_def bindE_eq_Inr)
  then show ?thesis by (intro exI [of _ "[]"]) simp
next
  case False
  obtain out used why where l: "head_loop mb True (take (nat ml) (split_lines_for_counting s)) 0 = (out, used, why)"
    by (metis prod.exhaust)
  have n: "length (fst (head_loop mb f ls u)) \<le> length ls" for f ls u
  proof (induction ls arbitrary: f u)
    case (Cons l ls)
    show ?case using Cons.IH [of False "u + (utf8_length l + (if f then 0 else 1))"]
      by (cases f; cases "head_loop mb False ls (u + (utf8_length l + (if f then 0 else 1)))")
        (simp_all add: Let_def)
  qed simp
  from False l have "truncation_result.tr_content shown = join_with newline out" "0 \<le> ml" using assms
    by (auto simp: truncate_head_def Let_def bindE_eq_Inr)
  moreover have "length out \<le> nat ml" using n [of True "take (nat ml) (split_lines_for_counting s)" 0] l by simp
  ultimately show ?thesis by auto
qed

lemma digits_no_newline: "newline \<notin> of_char ` set (py_str_int i)"
  by (auto simp: py_str_int_def is_digit_def dest!: nat_digits_digits split: if_splits)

lemma number_lines_length [simp]: "length (number_lines w n ls) = length ls"
  by (induction ls arbitrary: n) simp_all

lemma number_lines_plain:
  "l \<in> set (number_lines w n ls) \<Longrightarrow> \<forall>x \<in> set ls. newline \<notin> set x \<Longrightarrow> newline \<notin> set l \<and> l \<noteq> []"
  by (induction ls arbitrary: n) (auto simp: ascii_text_def pad_left_def digits_no_newline)

lemma text_lines_no_newline: "l \<in> set (text_lines s) \<Longrightarrow> newline \<notin> set l"
proof -
  have inner: "k \<in> set (text_lines_keep s) \<Longrightarrow> k \<noteq> [] \<and> newline \<notin> set (butlast k)" for k
    by (induction s arbitrary: k) (auto simp: line_break_def split: list.splits if_splits)
  have "newline \<notin> set (strip_break k)" if "k \<noteq> []" "newline \<notin> set (butlast k)" for k
    using that by (cases k rule: rev_cases) (auto simp: strip_break_def Let_def line_break_def dest: in_set_butlastD)
  then show "l \<in> set (text_lines s) \<Longrightarrow> newline \<notin> set l" using inner by (auto simp: text_lines_def)
qed

lemma split_lines_join:
  assumes "\<forall>l \<in> set ls. newline \<notin> set l \<and> l \<noteq> []"
  shows "split_lines_for_counting (join_with newline ls) = ls"
proof (cases ls rule: rev_cases)
  case Nil
  then show ?thesis by simp
next
  case (snoc ks l)
  have ne: "join_with newline ls \<noteq> []" "last (join_with newline ls) \<noteq> newline"
    using assms snoc by (cases "ks = []"; auto simp: join_with_snoc dest: last_in_set)+
  then have "split_lines_for_counting (join_with newline ls) = split_on newline (join_with newline ls)"
    by (simp add: split_lines_for_counting_def)
  also have "\<dots> = ls" using assms snoc by (intro split_join) auto
  finally show ?thesis .
qed

theorem numbered_read_overstates:
  assumes run: "render_numbered raw_path resolved s n_bytes 1 None mb ml = Inr out"
    and more: "ml < int (length (text_lines s))"
  shows "\<exists>body ls. agent_tool_result.tr_content out =
      [TextContent (raw_path @ '' (lines 1-'' @ py_str_int (int (length (text_lines s))) @ '' of ''
         @ py_str_int (int (length (text_lines s))) @ '')'' @ LF # body) JNull] \<and>
    int (length ls) \<le> ml \<and> (body = encode_text (join_with newline ls) \<or> body = ''[empty selection]'')"
proof -
  let ?n = "int (length (text_lines s))"
  let ?numbered = "join_with newline (number_lines (max 1 (length (py_str_int (max ?n 1)))) 1 (text_lines s))"
  have sel: "selection 0 ?n (text_lines s) = text_lines s" by (simp add: selection_def)
  have one: "py_str_int 1 = ''1''" by code_simp
  obtain shown where shown: "truncate_head ?numbered ml mb = Inr shown"
    and out: "agent_tool_result.tr_content out = [TextContent (raw_path @ '' (lines 1-'' @ py_str_int ?n @ '' of ''
         @ py_str_int ?n @ '')'' @ LF # (if truncation_result.tr_content shown = [] then ''[empty selection]''
           else encode_text (truncation_result.tr_content shown))) JNull]"
    using run [unfolded render_numbered_def Let_def limits_def, simplified, unfolded sel]
    by (cases "truncate_head ?numbered ml mb") (auto simp: file_result_def one)
  have "length (split_lines_for_counting ?numbered) = length (text_lines s)"
    by (subst split_lines_join) (auto dest!: number_lines_plain text_lines_no_newline)
  then obtain ls where "truncation_result.tr_content shown = join_with newline ls" "int (length ls) \<le> ml"
    using truncate_head_lines [OF shown] more by auto
  then show ?thesis using out by auto
qed

lemma truncate_head_returns:
  assumes "0 \<le> ml" and "0 \<le> mb"
  shows "\<exists>r. truncate_head s ml mb = Inr r"
  using assms by (simp add: truncate_head_def validate_limits_def Let_def split: prod.split)

lemma render_numbered_returns:
  assumes "0 \<le> ml" and "0 \<le> mb"
  shows "\<exists>out. render_numbered raw_path resolved s n_bytes offset limit mb ml = Inr out"
proof -
  have *: "\<exists>x. bindE (limits (truncate_head t ml mb)) (\<lambda>c. Inr (f c)) = Inr x"
    for t and f :: "truncation_result \<Rightarrow> agent_tool_result"
    using truncate_head_returns [OF assms, of t] by (auto simp: limits_def)
  show ?thesis unfolding render_numbered_def Let_def by (rule *)
qed

text \<open>Of three lines, one is shown under a header that names three.\<close>

theorem numbered_read_overstates_witness:
  "\<exists>out body ls. render_numbered ''f'' ''f'' three_lines 5 1 None 100 1 = Inr out \<and>
     agent_tool_result.tr_content out = [TextContent (''f (lines 1-3 of 3)'' @ LF # body) JNull] \<and>
     int (length (ls :: text list)) \<le> 1 \<and> (body = encode_text (join_with newline ls) \<or> body = ''[empty selection]'')"
proof -
  obtain out where run: "render_numbered ''f'' ''f'' three_lines 5 1 None 100 1 = Inr out"
    using render_numbered_returns [of 1 100 "''f''" "''f''" three_lines 5 1 None] by auto
  have n: "length (text_lines three_lines) = 3" "py_str_int 3 = ''3''"
    by (simp_all add: text_lines_def three_lines_def line_break_def) code_simp
  show ?thesis using numbered_read_overstates [OF run] run by (simp add: n)
qed

end
