(* ===== verification/MutationQueue.thy ===== *)
theory MutationQueue
  imports Prelude
begin

text \<open>
  The queue in front of file mutations (\<^verbatim>\<open>src/pi_agent/harness/mutation_queue.py\<close>) as a
  system of tasks, each with the key of its file.  A table maps keys to locks that count their
  users; the last user removes the entry.  The registration lock is never held across a suspension,
  so its blocks are atomic; a lock of \<^verbatim>\<open>asyncio\<close> is handed over in the order of waiting.  A step is
  what one task does between two suspensions.
\<close>

section \<open>State\<close>

record path_lock =
  pl_users :: nat
  pl_holder :: "nat option"
  pl_waiters :: "nat list"

text \<open>Tasks are numbered; a task is before its registration, waiting for the lock of its entry,
  running its operation, or finished.\<close>

datatype task_phase = Arriving | Waiting nat | Running nat | Finished

record queue_state =
  qs_locks :: "nat \<Rightarrow> path_lock"
  qs_next :: nat
  qs_paths :: "string \<Rightarrow> nat option"
  qs_phase :: "nat \<Rightarrow> task_phase"

definition new_lock :: path_lock where
  "new_lock = \<lparr>pl_users = 0, pl_holder = None, pl_waiters = []\<rparr>"

definition start_queue :: "nat \<Rightarrow> queue_state" where
  "start_queue n = \<lparr>qs_locks = (\<lambda>_. new_lock), qs_next = 0, qs_paths = (\<lambda>_. None),
     qs_phase = (\<lambda>t. if t < n then Arriving else Finished)\<rparr>"

section \<open>Operations\<close>

definition put_lock :: "nat \<Rightarrow> path_lock \<Rightarrow> queue_state \<Rightarrow> queue_state" where
  "put_lock e l s = s\<lparr>qs_locks := (qs_locks s)(e := l)\<rparr>"

definition put_phase :: "nat \<Rightarrow> task_phase \<Rightarrow> queue_state \<Rightarrow> queue_state" where
  "put_phase t p s = s\<lparr>qs_phase := (qs_phase s)(t := p)\<rparr>"

text \<open>Find or make the entry.\<close>

definition entry_for :: "string \<Rightarrow> queue_state \<Rightarrow> nat \<times> queue_state" where
  "entry_for key s =
     (case qs_paths s key of
        Some e \<Rightarrow> (e, s)
      | None \<Rightarrow> (qs_next s, put_lock (qs_next s) new_lock
          (s\<lparr>qs_next := Suc (qs_next s), qs_paths := (qs_paths s)(key \<mapsto> qs_next s)\<rparr>)))"

definition count_user :: "nat \<Rightarrow> queue_state \<Rightarrow> queue_state" where
  "count_user e s = put_lock e ((qs_locks s e)\<lparr>pl_users := Suc (pl_users (qs_locks s e))\<rparr>) s"

text \<open>\<^verbatim>\<open>lock.acquire\<close>: at once when the lock is free and nobody waits.\<close>

definition acquire :: "nat \<Rightarrow> nat \<Rightarrow> queue_state \<Rightarrow> queue_state" where
  "acquire t e s =
     (let l = qs_locks s e
      in if pl_holder l = None \<and> pl_waiters l = []
         then put_phase t (Running e) (put_lock e (l\<lparr>pl_holder := Some t\<rparr>) s)
         else put_phase t (Waiting e) (put_lock e (l\<lparr>pl_waiters := pl_waiters l @ [t]\<rparr>) s))"

definition enter_queue :: "string \<Rightarrow> nat \<Rightarrow> queue_state \<Rightarrow> queue_state" where
  "enter_queue key t s = (case entry_for key s of (e, s') \<Rightarrow> acquire t e (count_user e s'))"

text \<open>The \<^verbatim>\<open>finally\<close> block.\<close>

definition drop_user :: "string \<Rightarrow> nat \<Rightarrow> queue_state \<Rightarrow> queue_state" where
  "drop_user key e s =
     (let l = (qs_locks s e)\<lparr>pl_users := pl_users (qs_locks s e) - 1\<rparr>; s' = put_lock e l s
      in if pl_users l = 0 \<and> qs_paths s' key = Some e then s'\<lparr>qs_paths := (qs_paths s')(key := None)\<rparr> else s')"

text \<open>The operation of the holder ends, by returning or raising; a waiting task is cancelled.\<close>

definition leave_queue :: "string \<Rightarrow> nat \<Rightarrow> nat \<Rightarrow> queue_state \<Rightarrow> queue_state" where
  "leave_queue key t e s =
     put_phase t Finished (drop_user key e (put_lock e ((qs_locks s e)\<lparr>pl_holder := None\<rparr>) s))"

definition give_up :: "string \<Rightarrow> nat \<Rightarrow> nat \<Rightarrow> queue_state \<Rightarrow> queue_state" where
  "give_up key t e s =
     put_phase t Finished (drop_user key e (put_lock e
       ((qs_locks s e)\<lparr>pl_waiters := remove1 t (pl_waiters (qs_locks s e))\<rparr>) s))"

definition hand_over :: "nat \<Rightarrow> nat \<Rightarrow> nat list \<Rightarrow> queue_state \<Rightarrow> queue_state" where
  "hand_over e t ts s =
     put_phase t (Running e) (put_lock e ((qs_locks s e)\<lparr>pl_holder := Some t, pl_waiters := ts\<rparr>) s)"

section \<open>Steps\<close>

inductive queue_step :: "(nat \<Rightarrow> string) \<Rightarrow> queue_state \<Rightarrow> queue_state \<Rightarrow> bool" for key where
  arrive: "qs_phase s t = Arriving \<Longrightarrow> queue_step key s (enter_queue (key t) t s)"
| hand: "qs_phase s t = Waiting e \<Longrightarrow> pl_holder (qs_locks s e) = None \<Longrightarrow> pl_waiters (qs_locks s e) = t # ts \<Longrightarrow>
    queue_step key s (hand_over e t ts s)"
| depart: "qs_phase s t = Running e \<Longrightarrow> queue_step key s (leave_queue (key t) t e s)"
| cancel: "qs_phase s t = Waiting e \<Longrightarrow> queue_step key s (give_up (key t) t e s)"

inductive queue_run :: "(nat \<Rightarrow> string) \<Rightarrow> nat \<Rightarrow> queue_state \<Rightarrow> bool" for key n where
  run_start: "queue_run key n (start_queue n)"
| run_step: "queue_run key n s \<Longrightarrow> queue_step key s s' \<Longrightarrow> queue_run key n s'"

section \<open>The invariant\<close>

definition members :: "queue_state \<Rightarrow> nat \<Rightarrow> nat set" where
  "members s e = {t. qs_phase s t = Waiting e \<or> qs_phase s t = Running e}"

text \<open>The tasks that a lock knows about agree with their phases.\<close>

definition lock_ok :: "queue_state \<Rightarrow> nat \<Rightarrow> bool" where
  "lock_ok s e \<longleftrightarrow>
     pl_users (qs_locks s e) = card (members s e) \<and>
     (\<forall>t. pl_holder (qs_locks s e) = Some t \<longleftrightarrow> qs_phase s t = Running e) \<and>
     set (pl_waiters (qs_locks s e)) = {t. qs_phase s t = Waiting e} \<and> distinct (pl_waiters (qs_locks s e))"

definition table_ok :: "(nat \<Rightarrow> string) \<Rightarrow> queue_state \<Rightarrow> bool" where
  "table_ok key s \<longleftrightarrow>
     (\<forall>k e. qs_paths s k = Some e \<longrightarrow> e < qs_next s \<and> members s e \<noteq> {}) \<and>
     (\<forall>k k' e. qs_paths s k = Some e \<longrightarrow> qs_paths s k' = Some e \<longrightarrow> k = k') \<and>
     (\<forall>t e. t \<in> members s e \<longrightarrow> qs_paths s (key t) = Some e)"

definition queue_ok :: "(nat \<Rightarrow> string) \<Rightarrow> nat \<Rightarrow> queue_state \<Rightarrow> bool" where
  "queue_ok key n s \<longleftrightarrow>
     (\<forall>t. n \<le> t \<longrightarrow> qs_phase s t = Finished) \<and> table_ok key s \<and> (\<forall>e. e < qs_next s \<longrightarrow> lock_ok s e)"

lemma members_finite: "queue_ok key n s \<Longrightarrow> finite (members s e)"
proof -
  assume ok: "queue_ok key n s"
  have "members s e \<subseteq> {..<n}"
  proof
    fix t assume "t \<in> members s e"
    then have "qs_phase s t \<noteq> Finished" by (auto simp: members_def)
    with ok have "\<not> n \<le> t" unfolding queue_ok_def by blast
    then show "t \<in> {..<n}" by simp
  qed
  then show ?thesis by (rule finite_subset) simp
qed

lemma member_entry:
  "queue_ok key n s \<Longrightarrow> t \<in> members s e \<Longrightarrow> qs_paths s (key t) = Some e \<and> e < qs_next s \<and> lock_ok s e"
  unfolding queue_ok_def table_ok_def by blast

lemma lock_members: "lock_ok s e \<Longrightarrow> members s e = set (pl_waiters (qs_locks s e)) \<union> set_option (pl_holder (qs_locks s e))"
  by (auto simp: lock_ok_def members_def)

lemma put_simps [simp]:
  "qs_locks (put_lock e l s) = (qs_locks s)(e := l)" "qs_next (put_lock e l s) = qs_next s"
  "qs_paths (put_lock e l s) = qs_paths s" "qs_phase (put_lock e l s) = qs_phase s"
  "qs_locks (put_phase t p s) = qs_locks s" "qs_next (put_phase t p s) = qs_next s"
  "qs_paths (put_phase t p s) = qs_paths s" "qs_phase (put_phase t p s) = (qs_phase s)(t := p)"
  by (simp_all add: put_lock_def put_phase_def)

lemma start_ok: "queue_ok key n (start_queue n)"
  by (auto simp: queue_ok_def table_ok_def start_queue_def members_def)

lemma lock_ok_cong:
  assumes "qs_locks s' e = qs_locks s e"
    and "\<And>t. qs_phase s' t = Waiting e \<longleftrightarrow> qs_phase s t = Waiting e"
    and "\<And>t. qs_phase s' t = Running e \<longleftrightarrow> qs_phase s t = Running e"
  shows "lock_ok s' e = lock_ok s e"
  unfolding lock_ok_def members_def assms ..

text \<open>The lock after a task has joined it.\<close>

lemma acquire_ok:
  assumes "lock_ok s e" and "finite (members s e)" and "qs_phase s t \<noteq> Waiting e" "qs_phase s t \<noteq> Running e"
  shows "lock_ok (acquire t e (count_user e s)) e"
proof -
  let ?s = "acquire t e (count_user e s)"
  have t: "t \<notin> members s e" using assms(3,4) by (simp add: members_def)
  have mem: "members ?s e = insert t (members s e)"
    by (auto simp: acquire_def count_user_def members_def Let_def)
  have "card (insert t (members s e)) = Suc (card (members s e))" using assms(2) t by simp
  then show ?thesis unfolding lock_ok_def mem using assms
    by (auto simp: lock_ok_def acquire_def count_user_def Let_def)
qed

lemma enter_ok:
  assumes ok: "queue_ok key n s" and t: "qs_phase s t = Arriving"
  shows "queue_ok key n (enter_queue (key t) t s)"
proof -
  obtain e s1 where entry: "entry_for (key t) s = (e, s1)" by (metis prod.exhaust)
  let ?s = "acquire t e (count_user e s1)"
  have tn: "t < n" using ok t by (metis queue_ok_def not_le task_phase.distinct(5))
  have phase: "qs_phase s1 = qs_phase s" "qs_paths s1 = (qs_paths s)(key t \<mapsto> e)" "e < qs_next s1" "qs_next s \<le> qs_next s1"
    "\<forall>e'. e' < qs_next s1 \<longrightarrow> e' < qs_next s \<or> e' = e"
    "\<forall>e'. e' \<noteq> e \<longrightarrow> qs_locks s1 e' = qs_locks s e'"
    using entry ok by (auto simp: entry_for_def queue_ok_def table_ok_def fun_upd_idem split: option.splits)
  have mem: "members ?s e' = (if e' = e then insert t (members s e) else members s e')" for e'
    using t phase(1) by (auto simp: acquire_def count_user_def members_def Let_def)
  have keeps: "qs_paths ?s = qs_paths s1" "qs_next ?s = qs_next s1"
    "\<And>u. u \<noteq> t \<Longrightarrow> qs_phase ?s u = qs_phase s u" "qs_phase ?s t = Waiting e \<or> qs_phase ?s t = Running e"
    "\<And>e'. e' \<noteq> e \<Longrightarrow> qs_locks ?s e' = qs_locks s e'"
    using phase by (auto simp: acquire_def count_user_def Let_def)
  have lock1: "lock_ok s1 e"
  proof (cases "qs_paths s (key t)")
    case None
    then have "e = qs_next s" "qs_locks s1 e = new_lock" using entry by (auto simp: entry_for_def)
    moreover have "members s (qs_next s) = {}" using member_entry [OF ok] by blast
    ultimately show ?thesis using phase(1) by (auto simp: lock_ok_def members_def new_lock_def)
  next
    case (Some e1)
    then have "s1 = s" "e1 = e" using entry by (simp_all add: entry_for_def)
    then show ?thesis using ok Some by (auto simp: queue_ok_def table_ok_def)
  qed
  have "lock_ok ?s e'" if "e' < qs_next ?s" for e'
  proof (cases "e' = e")
    case True
    have "members s1 e = members s e" using phase(1) by (simp add: members_def)
    with members_finite [OF ok] lock1 t phase(1) show ?thesis unfolding True by (intro acquire_ok) simp_all
  next
    case False
    then have "e' < qs_next s" using that phase(5) keeps(2) by auto
    then have "lock_ok s e'" using ok by (simp add: queue_ok_def)
    moreover have "lock_ok ?s e' = lock_ok s e'"
      using keeps(3-5) False t by (intro lock_ok_cong) (metis task_phase.inject task_phase.distinct)+
    ultimately show ?thesis by simp
  qed
  moreover have "table_ok key ?s"
  proof -
    have same: "\<And>k. qs_paths s k = Some e \<Longrightarrow> k = key t" "\<And>e'. qs_paths s (key t) = Some e' \<Longrightarrow> e' = e"
      using entry ok unfolding queue_ok_def table_ok_def
      by (auto simp: entry_for_def split: option.splits) (metis option.distinct(1) less_irrefl)?
    have tab: "\<And>k e'. qs_paths s k = Some e' \<Longrightarrow> e' < qs_next s \<and> members s e' \<noteq> {}"
      "\<And>k k' e'. qs_paths s k = Some e' \<Longrightarrow> qs_paths s k' = Some e' \<Longrightarrow> k = k'"
      "\<And>u e'. u \<in> members s e' \<Longrightarrow> qs_paths s (key u) = Some e'"
      using ok unfolding queue_ok_def table_ok_def by blast+
    show ?thesis unfolding table_ok_def keeps(1,2) phase(2) mem
    proof (intro conjI allI impI)
      fix k e' assume "((qs_paths s)(key t \<mapsto> e)) k = Some e'"
      then show "e' < qs_next s1" "(if e' = e then insert t (members s e) else members s e') \<noteq> {}"
        using tab(1) phase(3,4) by (auto split: if_splits dest: order_less_le_trans)
    next
      fix k k' e'
      assume "((qs_paths s)(key t \<mapsto> e)) k = Some e'" "((qs_paths s)(key t \<mapsto> e)) k' = Some e'"
      then show "k = k'" using tab(2) same(1) by (auto split: if_splits)
    next
      fix u e' assume "u \<in> (if e' = e then insert t (members s e) else members s e')"
      then show "((qs_paths s)(key t \<mapsto> e)) (key u) = Some e'"
        using tab(3) [of u e'] same(2) [of e'] by (cases "key u = key t") (auto split: if_splits)
    qed
  qed
  moreover have "qs_phase ?s u = Finished" if "n \<le> u" for u
    using that tn keeps(3) [of u] ok by (simp add: queue_ok_def)
  ultimately show ?thesis by (simp add: queue_ok_def enter_queue_def entry)
qed

text \<open>A member leaves: its lock forgets it, and with the last member the table forgets the key.\<close>

lemma leave_ok:
  assumes ok: "queue_ok key n s" and t: "t \<in> members s e"
    and lock: "pl_users l = pl_users (qs_locks s e)"
      "\<And>u. pl_holder l = Some u \<longleftrightarrow> qs_phase s u = Running e \<and> u \<noteq> t"
      "set (pl_waiters l) = {u. qs_phase s u = Waiting e} - {t}" "distinct (pl_waiters l)"
  shows "queue_ok key n (put_phase t Finished (drop_user (key t) e (put_lock e l s)))"
proof -
  let ?s = "put_phase t Finished (drop_user (key t) e (put_lock e l s))"
  note entry = member_entry [OF ok t]
  have card: "pl_users l = card (members s e)" using entry lock(1) by (simp add: lock_ok_def)
  have fin: "finite (members s e)" using ok by (rule members_finite)
  have mem: "members ?s e' = members s e' - {t}" for e'
    by (auto simp: members_def drop_user_def Let_def)
  have last: "pl_users l - 1 = 0 \<longleftrightarrow> members s e - {t} = {}"
    using card fin t by (metis card_Diff_singleton card_eq_0_iff finite_Diff)
  have other: "e' \<noteq> e \<Longrightarrow> t \<notin> members s e'" for e' using t by (auto simp: members_def)
  have paths: "qs_paths ?s = (if members s e - {t} = {} then (qs_paths s)(key t := None) else qs_paths s)"
    using entry last by (simp add: drop_user_def Let_def)
  have next_same: "qs_next ?s = qs_next s" by (simp add: drop_user_def Let_def)
  have tab: "\<And>k e'. qs_paths s k = Some e' \<Longrightarrow> e' < qs_next s \<and> members s e' \<noteq> {}"
    "\<And>k k' e'. qs_paths s k = Some e' \<Longrightarrow> qs_paths s k' = Some e' \<Longrightarrow> k = k'"
    "\<And>u e'. u \<in> members s e' \<Longrightarrow> qs_paths s (key u) = Some e'"
    using ok unfolding queue_ok_def table_ok_def by blast+
  have "table_ok key ?s" unfolding table_ok_def next_same mem
  proof (intro conjI allI impI)
    fix k e' assume k: "qs_paths ?s k = Some e'"
    then have "qs_paths s k = Some e'" unfolding paths by (auto split: if_splits)
    then show "e' < qs_next s" using tab(1) by blast
    show "members s e' - {t} \<noteq> {}"
    proof (cases "e' = e")
      case True
      then have "k = key t" using tab(2) entry \<open>qs_paths s k = Some e'\<close> by blast
      then show ?thesis using k True unfolding paths by (auto split: if_splits)
    next
      case False
      then show ?thesis using tab(1) [OF \<open>qs_paths s k = Some e'\<close>] other by blast
    qed
  next
    fix k k' e' assume "qs_paths ?s k = Some e'" "qs_paths ?s k' = Some e'"
    then show "k = k'" using tab(2) unfolding paths by (auto split: if_splits)
  next
    fix u e' assume u: "u \<in> members s e' - {t}"
    have "\<not> (members s e - {t} = {} \<and> key u = key t)"
    proof
      assume a: "members s e - {t} = {} \<and> key u = key t"
      then have "Some e' = Some e" using tab(3) [of u e'] u entry by auto
      then show False using a u by auto
    qed
    then show "qs_paths ?s (key u) = Some e'" using tab(3) [of u e'] u unfolding paths by auto
  qed
  moreover have "lock_ok ?s e'" if "e' < qs_next ?s" for e'
  proof (cases "e' = e")
    case True
    have "qs_locks ?s e = l\<lparr>pl_users := pl_users l - 1\<rparr>" by (simp add: drop_user_def Let_def)
    moreover have "qs_phase ?s = (qs_phase s)(t := Finished)" by (simp add: drop_user_def Let_def)
    ultimately show ?thesis unfolding True lock_ok_def mem using lock card t fin
      by (auto simp: card_Diff_singleton)
  next
    case False
    have "lock_ok s e'" using that next_same ok by (simp add: queue_ok_def)
    moreover have "lock_ok ?s e' = lock_ok s e'"
      using other [OF False] False by (intro lock_ok_cong) (auto simp: drop_user_def Let_def members_def)
    ultimately show ?thesis by simp
  qed
  moreover have "qs_phase ?s u = Finished" if "n \<le> u" for u
    using that ok by (simp add: queue_ok_def drop_user_def Let_def)
  ultimately show ?thesis by (simp add: queue_ok_def)
qed

lemma hand_ok:
  assumes ok: "queue_ok key n s" and e: "pl_holder (qs_locks s e) = None" "pl_waiters (qs_locks s e) = t # ts"
    and lt: "e < qs_next s"
  shows "queue_ok key n (hand_over e t ts s)"
proof -
  have l: "lock_ok s e" using ok lt by (simp add: queue_ok_def)
  then have t: "qs_phase s t = Waiting e" "t \<notin> set ts" "distinct ts" using e by (auto simp: lock_ok_def)
  have ts: "set ts = {u. qs_phase s u = Waiting e} - {t}" using l e t by (auto simp: lock_ok_def)
  have none: "qs_phase s u \<noteq> Running e" for u using l e by (auto simp: lock_ok_def)
  have mem: "members (hand_over e t ts s) = members s"
    using t by (auto simp: hand_over_def members_def fun_eq_iff)
  have "lock_ok (hand_over e t ts s) e'" if "e' < qs_next s" for e'
  proof (cases "e' = e")
    case True
    show ?thesis unfolding True lock_ok_def mem using l ts t none
      by (auto simp: hand_over_def lock_ok_def)
  next
    case False
    have "lock_ok s e'" using that ok by (simp add: queue_ok_def)
    moreover have "lock_ok (hand_over e t ts s) e' = lock_ok s e'"
      using False t(1) by (intro lock_ok_cong) (auto simp: hand_over_def)
    ultimately show ?thesis by simp
  qed
  moreover have "qs_phase (hand_over e t ts s) u = Finished" if "n \<le> u" for u
    using that ok t(1) by (auto simp: queue_ok_def hand_over_def)
  moreover have "table_ok key (hand_over e t ts s)"
    using ok by (simp add: queue_ok_def table_ok_def mem) (simp add: hand_over_def)
  ultimately show ?thesis by (simp add: queue_ok_def) (simp add: hand_over_def)
qed

lemma step_ok:
  assumes "queue_step key s s'" and ok: "queue_ok key n s"
  shows "queue_ok key n s'"
  using assms(1)
proof cases
  case (arrive t)
  then show ?thesis using enter_ok [OF ok] by simp
next
  case (hand t e ts)
  then have "t \<in> members s e" by (simp add: members_def)
  then have "e < qs_next s" using member_entry [OF ok] by blast
  with hand show ?thesis using hand_ok [OF ok] by simp
next
  case (depart t e)
  then have m: "t \<in> members s e" by (simp add: members_def)
  have l: "lock_ok s e" using member_entry [OF ok m] by blast
  then have only: "u = t" if "qs_phase s u = Running e" for u
    using that depart unfolding lock_ok_def by (metis option.inject)
  show ?thesis unfolding depart(1) leave_queue_def
  proof (rule leave_ok [OF ok m])
    show "(pl_holder ((qs_locks s e)\<lparr>pl_holder := None\<rparr>) = Some u) = (qs_phase s u = Running e \<and> u \<noteq> t)" for u
      using only by auto
    show "set (pl_waiters ((qs_locks s e)\<lparr>pl_holder := None\<rparr>)) = {u. qs_phase s u = Waiting e} - {t}"
      using l depart(2) by (auto simp: lock_ok_def)
  qed (use l in \<open>simp_all add: lock_ok_def\<close>)
next
  case (cancel t e)
  then have "t \<in> members s e" by (simp add: members_def)
  with member_entry [OF ok this] cancel show ?thesis unfolding cancel(1) give_up_def
    by (intro leave_ok [OF ok]) (auto simp: lock_ok_def)
qed

lemma run_ok: "queue_run key n s \<Longrightarrow> queue_ok key n s"
  by (induction rule: queue_run.induct) (simp_all add: start_ok step_ok)

section \<open>Guarantees\<close>

text \<open>C37: Under any interleaving: two operations that run at once are on files with different keys; a
  task that waits is behind one that runs, or the lock is free for the first that waits; and when
  all tasks have finished the table is empty.\<close>

theorem mutations_are_serialized:
  assumes "queue_run key n s"
  shows "(\<forall>t u e e'. qs_phase s t = Running e \<and> qs_phase s u = Running e' \<and> key t = key u \<longrightarrow> t = u) \<and>
    (\<forall>t e. qs_phase s t = Waiting e \<longrightarrow>
       (\<exists>u. qs_phase s u = Running e) \<or>
       (\<exists>u ts. qs_phase s u = Waiting e \<and> pl_holder (qs_locks s e) = None \<and> pl_waiters (qs_locks s e) = u # ts)) \<and>
    ((\<forall>t. qs_phase s t = Finished) \<longrightarrow> (\<forall>k. qs_paths s k = None))"
proof (intro conjI allI impI)
  have ok: "queue_ok key n s" using assms by (rule run_ok)
  fix t u e e' assume r: "qs_phase s t = Running e \<and> qs_phase s u = Running e' \<and> key t = key u"
  then have "t \<in> members s e" "u \<in> members s e'" by (simp_all add: members_def)
  with member_entry [OF ok] have "qs_paths s (key t) = Some e" "qs_paths s (key u) = Some e'" "lock_ok s e"
    by blast+
  then have "e = e'" "lock_ok s e" using r by simp_all
  then have "pl_holder (qs_locks s e) = Some t" "pl_holder (qs_locks s e) = Some u"
    using r by (simp_all add: lock_ok_def)
  then show "t = u" by simp
next
  have ok: "queue_ok key n s" using assms by (rule run_ok)
  fix t e assume t: "qs_phase s t = Waiting e"
  then have "t \<in> members s e" by (simp add: members_def)
  with member_entry [OF ok] have l: "lock_ok s e" by blast
  show "(\<exists>u. qs_phase s u = Running e) \<or>
       (\<exists>u ts. qs_phase s u = Waiting e \<and> pl_holder (qs_locks s e) = None \<and> pl_waiters (qs_locks s e) = u # ts)"
  proof (cases "pl_holder (qs_locks s e)")
    case None
    have "t \<in> set (pl_waiters (qs_locks s e))" using l t by (simp add: lock_ok_def)
    then obtain u ts where w: "pl_waiters (qs_locks s e) = u # ts" by (cases "pl_waiters (qs_locks s e)") auto
    then have "qs_phase s u = Waiting e" using l by (auto simp: lock_ok_def)
    with None w show ?thesis by blast
  next
    case (Some u)
    then show ?thesis using l by (auto simp: lock_ok_def)
  qed
next
  have ok: "queue_ok key n s" using assms by (rule run_ok)
  fix k assume "\<forall>t. qs_phase s t = Finished"
  then have "members s e = {}" for e by (simp add: members_def)
  with ok show "qs_paths s k = None" unfolding queue_ok_def table_ok_def by (metis not_None_eq)
qed

text \<open>Two tasks on one file and one on another.\<close>

theorem mutations_are_serialized_witness:
  "\<exists>s e. queue_run (\<lambda>t. if t = 2 then ''b'' else ''a'') 3 s \<and> qs_phase s 0 = Running e \<and> qs_phase s 1 = Waiting e \<and>
     \<not> (\<exists>e'. qs_phase s 1 = Running e')"
proof -
  let ?key = "\<lambda>t::nat. if t = 2 then ''b'' else ''a''"
  let ?s = "enter_queue ''a'' 1 (enter_queue ''a'' 0 (start_queue 3))"
  have first: "enter_queue ''a'' 0 (start_queue 3) =
      \<lparr>qs_locks = (\<lambda>_. new_lock)(0 := \<lparr>pl_users = 1, pl_holder = Some 0, pl_waiters = []\<rparr>), qs_next = 1,
       qs_paths = (\<lambda>_. None)(''a'' := Some 0), qs_phase = (\<lambda>t. if t < 3 then Arriving else Finished)(0 := Running 0)\<rparr>"
    by (simp add: start_queue_def enter_queue_def entry_for_def acquire_def count_user_def new_lock_def
      put_lock_def put_phase_def)
  have phases: "qs_phase ?s 0 = Running 0" "qs_phase ?s 1 = Waiting 0"
    unfolding first by (simp_all add: enter_queue_def entry_for_def acquire_def count_user_def)
  have "queue_run ?key 3 (enter_queue (?key 0) 0 (start_queue 3))"
    by (rule run_step [OF run_start arrive]) (simp add: start_queue_def)
  then have "queue_run ?key 3 (enter_queue ''a'' 0 (start_queue 3))" by simp
  then have "queue_run ?key 3 (enter_queue (?key 1) 1 (enter_queue ''a'' 0 (start_queue 3)))"
    by (rule run_step [OF _ arrive]) (simp add: first)
  then have run: "queue_run ?key 3 ?s" by simp
  have "\<not> (\<exists>e'. qs_phase ?s 1 = Running e')"
  proof
    assume "\<exists>e'. qs_phase ?s 1 = Running e'"
    then obtain e' where "qs_phase ?s 1 = Running e'" ..
    moreover have "?key 0 = ?key 1" by simp
    ultimately have "(0 :: nat) = 1" using mutations_are_serialized [OF run] phases(1) by blast
    then show False by simp
  qed
  with phases run show ?thesis by blast
qed

text \<open>Every task takes at most three steps, so the queue always empties.\<close>

fun steps_left :: "task_phase \<Rightarrow> nat" where
  "steps_left Arriving = 3" | "steps_left (Waiting e) = 2" | "steps_left (Running e) = 1" | "steps_left Finished = 0"

definition work_left :: "nat \<Rightarrow> queue_state \<Rightarrow> nat" where
  "work_left n s = (\<Sum>t<n. steps_left (qs_phase s t))"

lemma work_drops:
  assumes "t < n" and "\<And>u. u \<noteq> t \<Longrightarrow> qs_phase s' u = qs_phase s u"
    and "steps_left (qs_phase s' t) < steps_left (qs_phase s t)"
  shows "work_left n s' < work_left n s"
  unfolding work_left_def
proof (rule sum_strict_mono_ex1)
  show "\<forall>u\<in>{..<n}. steps_left (qs_phase s' u) \<le> steps_left (qs_phase s u)"
    using assms by (metis less_imp_le order_refl)
  show "\<exists>u\<in>{..<n}. steps_left (qs_phase s' u) < steps_left (qs_phase s u)" using assms by blast
qed simp

lemma enter_phase:
  "\<exists>e. qs_phase (enter_queue k t s) = (qs_phase s)(t := Waiting e) \<or> qs_phase (enter_queue k t s) = (qs_phase s)(t := Running e)"
  by (auto simp: enter_queue_def entry_for_def acquire_def count_user_def Let_def split: option.split)

text \<open>C38: Whatever the schedule, each step brings the end nearer, and as long as a task has not finished
  some task can go on without being cancelled.\<close>

theorem mutation_queue_empties:
  assumes run: "queue_run key n s"
  shows "(\<forall>s'. queue_step key s s' \<longrightarrow> work_left n s' < work_left n s) \<and>
    ((\<exists>t. qs_phase s t \<noteq> Finished) \<longrightarrow>
      (\<exists>t s'. queue_step key s s' \<and> steps_left (qs_phase s' t) < steps_left (qs_phase s t) \<and>
         (\<forall>e. qs_phase s t = Waiting e \<longrightarrow> qs_phase s' t = Running e)))"
proof (intro conjI allI impI)
  have ok: "queue_ok key n s" using run by (rule run_ok)
  have small: "t < n" if "qs_phase s t \<noteq> Finished" for t using ok that by (metis queue_ok_def not_le)
  fix s' assume "queue_step key s s'"
  then show "work_left n s' < work_left n s"
  proof cases
    case (arrive t)
    then show ?thesis using small [of t] enter_phase [of "key t" t s] by (intro work_drops [of t]) auto
  next
    case (hand t e ts)
    then show ?thesis using small [of t] by (intro work_drops [of t]) (auto simp: hand_over_def)
  next
    case (depart t e)
    then show ?thesis using small [of t]
      by (intro work_drops [of t]) (auto simp: leave_queue_def drop_user_def Let_def)
  next
    case (cancel t e)
    then show ?thesis using small [of t]
      by (intro work_drops [of t]) (auto simp: give_up_def drop_user_def Let_def)
  qed
next
  have ok: "queue_ok key n s" using run by (rule run_ok)
  assume "\<exists>t. qs_phase s t \<noteq> Finished"
  then obtain t where t: "qs_phase s t \<noteq> Finished" by blast
  let ?goal = "\<exists>t s'. queue_step key s s' \<and> steps_left (qs_phase s' t) < steps_left (qs_phase s t) \<and>
         (\<forall>e. qs_phase s t = Waiting e \<longrightarrow> qs_phase s' t = Running e)"
  have running: ?goal if "qs_phase s u = Running e" for u e
    using queue_step.depart [OF that, of key] that
    by (intro exI [of _ u] exI [of _ "leave_queue (key u) u e s"]) (simp add: leave_queue_def)
  show ?goal
  proof (cases "qs_phase s t")
    case Arriving
    then show ?thesis using queue_step.arrive [OF Arriving, of key] enter_phase [of "key t" t s]
      by (intro exI [of _ t] exI [of _ "enter_queue (key t) t s"]) auto
  next
    case (Waiting e)
    then have "t \<in> members s e" by (simp add: members_def)
    with member_entry [OF ok] have l: "lock_ok s e" by blast
    show ?thesis
    proof (cases "pl_holder (qs_locks s e)")
      case None
      have "t \<in> set (pl_waiters (qs_locks s e))" using l Waiting by (simp add: lock_ok_def)
      then obtain u ts where w: "pl_waiters (qs_locks s e) = u # ts" by (cases "pl_waiters (qs_locks s e)") auto
      then have u: "qs_phase s u = Waiting e" using l by (auto simp: lock_ok_def)
      show ?thesis using queue_step.hand [OF u None w, of key] u
        by (intro exI [of _ u] exI [of _ "hand_over e u ts s"]) (simp add: hand_over_def)
    next
      case (Some u)
      then have "qs_phase s u = Running e" using l by (auto simp: lock_ok_def)
      then show ?thesis by (rule running)
    qed
  next
    case (Running e)
    then show ?thesis by (rule running)
  next
    case Finished
    with t show ?thesis by simp
  qed
qed

theorem mutation_queue_empties_witness:
  "work_left 3 (enter_queue ''a'' 0 (start_queue 3)) < work_left 3 (start_queue 3)"
proof -
  have "queue_step (\<lambda>_. ''a'') (start_queue 3) (enter_queue ''a'' 0 (start_queue 3))"
    using queue_step.arrive [of "start_queue 3" 0 "\<lambda>_. ''a''"] by (simp add: start_queue_def)
  then show ?thesis using mutation_queue_empties [OF run_start, of "\<lambda>_. ''a''" 3] by blast
qed

end
