(* ===== verification/AgentSession.thy ===== *)
theory AgentSession
  imports Agent BranchSummary Security
begin

text \<open>
  The product session (\<^verbatim>\<open>src/pi_agent/coding_agent/agent_session.py\<close>) around an agent and a
  session manager: it persists every message the agent announces, rebuilds the agent's transcript
  from the session, compacts between turns, and switches models, levels, branches and sessions.
  The session's own state lives in the part of the agent's world that the agent leaves to others;
  the session listens to the agent as listener 0.  Its listeners, the repository, the summarizers and
  the clock are arguments.
\<close>

section \<open>Results of a run\<close>

fun pf_add :: "pyfloat \<Rightarrow> pyfloat \<Rightarrow> pyfloat" where
  "pf_add (Fin a) (Fin b) = Fin (a + b)"
| "pf_add NaN _ = NaN"
| "pf_add _ NaN = NaN"
| "pf_add PosInf NegInf = NaN"
| "pf_add NegInf PosInf = NaN"
| "pf_add PosInf _ = PosInf"
| "pf_add _ PosInf = PosInf"
| "pf_add NegInf _ = NegInf"
| "pf_add _ NegInf = NegInf"

definition add_cost :: "usage_cost \<Rightarrow> usage_cost \<Rightarrow> usage_cost" where
  "add_cost a b = \<lparr>uc_input = pf_add (uc_input a) (uc_input b), uc_output = pf_add (uc_output a) (uc_output b),
     uc_cache_read = pf_add (uc_cache_read a) (uc_cache_read b),
     uc_cache_write = pf_add (uc_cache_write a) (uc_cache_write b), uc_total = pf_add (uc_total a) (uc_total b)\<rparr>"

definition add_optional :: "int option \<Rightarrow> int option \<Rightarrow> int option" where
  "add_optional a b = (case b of None \<Rightarrow> a | Some n \<Rightarrow> Some ((case a of None \<Rightarrow> 0 | Some k \<Rightarrow> k) + n))"

definition add_usage :: "usage \<Rightarrow> usage \<Rightarrow> usage" where
  "add_usage a b =
     \<lparr>u_input = u_input a + u_input b, u_output = u_output a + u_output b,
      u_cache_read = u_cache_read a + u_cache_read b, u_cache_write = u_cache_write a + u_cache_write b,
      u_cache_write_1h = add_optional (u_cache_write_1h a) (u_cache_write_1h b),
      u_reasoning = add_optional (u_reasoning a) (u_reasoning b),
      u_total_tokens = u_total_tokens a + u_total_tokens b, u_cost = add_cost (u_cost a) (u_cost b)\<rparr>"

fun message_usage :: "agent_message \<Rightarrow> usage option" where
  "message_usage (LlmMsg (AssistantMessage m)) = Some (am_usage m)"
| "message_usage (LlmMsg (ToolResultMessage m)) = trm_usage m"
| "message_usage _ = None"

definition total_usage :: "agent_message list \<Rightarrow> usage" where
  "total_usage ms = foldl (\<lambda>u m. case message_usage m of None \<Rightarrow> u | Some v \<Rightarrow> add_usage u v) usage_zero ms"

record harness_result =
  hr_new_messages :: "agent_message list"
  hr_transcript :: "agent_message list"
  hr_final_assistant :: "assistant_message option"
  hr_usage :: usage
  hr_aborted :: bool
  hr_error_message :: json

definition assistants :: "agent_message list \<Rightarrow> assistant_message list" where
  "assistants ms = concat (map (\<lambda>m. case assistant_of m of None \<Rightarrow> [] | Some a \<Rightarrow> [a]) ms)"

definition build_harness_result :: "agent_message list \<Rightarrow> agent_message list \<Rightarrow> harness_result" where
  "build_harness_result new transcript =
     (let final = (case rev (assistants new) of [] \<Rightarrow> None | a # _ \<Rightarrow> Some a)
      in \<lparr>hr_new_messages = new, hr_transcript = transcript, hr_final_assistant = final,
          hr_usage = total_usage new,
          hr_aborted = (case final of None \<Rightarrow> False | Some a \<Rightarrow> am_stop_reason a = JStr ''aborted''),
          hr_error_message = (case final of None \<Rightarrow> JNull | Some a \<Rightarrow> am_error_message a)\<rparr>)"

definition result_succeeded :: "harness_result \<Rightarrow> bool" where
  "result_succeeded r \<longleftrightarrow> (case hr_final_assistant r of None \<Rightarrow> False
     | Some a \<Rightarrow> am_stop_reason a \<notin> {JStr ''error'', JStr ''aborted''})"

section \<open>State\<close>

record ('s, 'v) session_live =
  sl_manager :: "'s manager"
  sl_listeners :: "nat list"
  sl_closed :: bool
  sl_is_compacting :: bool
  sl_persistence_error :: "exn option"
  sl_auto_compaction :: bool
  sl_outer :: 'v

type_synonym ('s, 'v) session_world = "('s, 'v) session_live agent_live"
type_synonym ('s, 'v, 'a) session_call = "(('s, 'v) session_world, 'a) hook"

datatype session_event =
    AgentSessionEvent agent_event
  | AgentSettledEvent
  | QueueUpdateEvent string string "agent_message option"
  | CompactionStartEvent string
  | CompactionEndEvent string "compaction_result option" bool "string option"
  | EntryAppendedEvent tree_entry
  | SessionInfoChangedEvent string "string option"
  | ThinkingLevelChangedEvent string

record 'v compaction_controller =
  cc_settings :: compaction_settings
  cc_summarizer :: "'v summarizer"
  cc_before :: "(compaction_preparation \<Rightarrow> ('v, before_compaction_decision) hook) option"
  cc_after :: "(compaction_result \<Rightarrow> ('v, compaction_result) hook) option"

text \<open>\<open>sd_stamp\<close> makes a fresh identifier and reads the clock.\<close>

record ('s, 'v) session_deps =
  sd_load :: "'s loader"
  sd_append :: "'s appender"
  sd_stamp :: "'v \<Rightarrow> (string \<times> int) \<times> 'v"
  sd_listener :: "nat \<Rightarrow> session_event \<Rightarrow> ('s, 'v, unit) session_call"
  sd_controller :: "'v compaction_controller option"
  sd_branch_summarizer :: "'v summarizer option"
  sd_models :: "model list option"
  sd_external_prepare :: "(('s, 'v) session_world completed_turn_context
     \<Rightarrow> ('s, 'v, ('s, 'v) session_world agent_loop_turn_update option) session_call) option"
  sd_create :: "string \<Rightarrow> string option \<Rightarrow> ('v, 's manager) hook"
  sd_open :: "(string \<Rightarrow> ('v, 's manager) hook) option"
  sd_cleanup :: "('v, unit) hook"

definition upd_session ::
  "(('s, 'v) session_live \<Rightarrow> ('s, 'v) session_live) \<Rightarrow> ('s, 'v) session_world \<Rightarrow> ('s, 'v) session_world" where
  "upd_session f w = w\<lparr>ag_outer := f (ag_outer w)\<rparr>"

text \<open>A call of the manager, and a call of what is outside the session.\<close>

definition manager_op ::
  "('s, 'v) session_deps \<Rightarrow> (string \<Rightarrow> int \<Rightarrow> 's manager \<Rightarrow> (exn, 'a) result \<times> 's manager)
     \<Rightarrow> ('s, 'v, 'a) session_call" where
  "manager_op d f w =
     (let s = ag_outer w; st = sd_stamp d (sl_outer s); r = f (fst (fst st)) (snd (fst st)) (sl_manager s)
      in (fst r, upd_session (\<lambda>s. s\<lparr>sl_manager := snd r, sl_outer := snd st\<rparr>) w))"

definition outside :: "('v, 'a) hook \<Rightarrow> ('s, 'v, 'a) session_call" where
  "outside f w =
     (let r = f (sl_outer (ag_outer w)) in (fst r, upd_session (\<lambda>s. s\<lparr>sl_outer := snd r\<rparr>) w))"

section \<open>Events\<close>

fun emit_to ::
  "('s, 'v) session_deps \<Rightarrow> session_event \<Rightarrow> nat list \<Rightarrow> ('s, 'v, unit) session_call" where
  "emit_to d ev [] = pure ()"
| "emit_to d ev (l # ls) = and_then (sd_listener d l ev) (\<lambda>_. emit_to d ev ls)"

definition emit_session :: "('s, 'v) session_deps \<Rightarrow> session_event \<Rightarrow> ('s, 'v, unit) session_call" where
  "emit_session d ev w = emit_to d ev (sl_listeners (ag_outer w)) w"

definition persist_message ::
  "('s, 'v) session_deps \<Rightarrow> agent_message \<Rightarrow> ('s, 'v, tree_entry) session_call" where
  "persist_message d m =
     (case m of
        LlmMsg x \<Rightarrow> manager_op d (\<lambda>fresh tm mg. append_message (sd_load d) (sd_append d) None fresh tm mg x)
      | AppMsg x \<Rightarrow> manager_op d (\<lambda>fresh tm mg. append_custom (sd_load d) (sd_append d) None fresh tm mg
          (py_str (jget_or x ''role'' (JStr ''custom''))) x))"

text \<open>\<^verbatim>\<open>_on_agent_event\<close>; the agent only remembers what its listeners raise, so the session keeps
  the failure of a write until the run is over.\<close>

definition remember_failure :: "('s, 'v, 'a) session_call \<Rightarrow> ('s, 'v, 'a) session_call" where
  "remember_failure f w =
     (case f w of
        (Inl e, w') \<Rightarrow> (Inl e, if exn_class e = CancelledError then w'
                               else upd_session (\<lambda>s. s\<lparr>sl_persistence_error := Some e\<rparr>) w')
      | (Inr x, w') \<Rightarrow> (Inr x, w'))"

definition on_agent_event :: "('s, 'v) session_deps \<Rightarrow> agent_event \<Rightarrow> ('s, 'v, unit) session_call" where
  "on_agent_event d ev =
     and_then
       (case ev of
          MessageEndEvent m \<Rightarrow>
            remember_failure (and_then (persist_message d m) (\<lambda>e. emit_session d (EntryAppendedEvent e)))
        | _ \<Rightarrow> pure ())
       (\<lambda>_. emit_session d (AgentSessionEvent ev))"

section \<open>Context and compaction\<close>

definition rebuilt_context ::
  "('s, 'v) session_deps \<Rightarrow> string \<Rightarrow> ('s, 'v, reconstructed_context) session_call" where
  "rebuilt_context d heading = manager_op d (\<lambda>_ tm m.
     (bindE (active_path (m_tree m)) (\<lambda>p. reconstruct_context p heading DEFAULT_BRANCH_SUMMARY_PREFIX tm), m))"

definition replace_transcript :: "agent_message list \<Rightarrow> ('s, 'v, unit) session_call" where
  "replace_transcript ms w =
     (case ensure_idle ''replace messages'' w of Inl e \<Rightarrow> (Inl e, w) | Inr _ \<Rightarrow> (Inr (), w\<lparr>ag_messages := ms\<rparr>))"

definition sync_agent_context :: "('s, 'v) session_deps \<Rightarrow> ('s, 'v, unit) session_call" where
  "sync_agent_context d =
     and_then (rebuilt_context d DEFAULT_COMPACTION_PREFIX) (\<lambda>r.
     replace_transcript (map LlmMsg (rc_messages r)))"

definition mark_compacting :: "bool \<Rightarrow> ('s, 'v) session_world \<Rightarrow> ('s, 'v) session_world" where
  "mark_compacting b = upd_session (\<lambda>s. s\<lparr>sl_is_compacting := b\<rparr>)"

text \<open>A program over the manager and the outside, as a call; \<open>None\<close> does not happen for the
  programs it is used with.\<close>

definition manager_prog ::
  "('s, 'v) session_deps \<Rightarrow> (string \<Rightarrow> int \<Rightarrow> ('s manager \<times> 'v, 'a) prog) \<Rightarrow> ('s, 'v, 'a) session_call" where
  "manager_prog d f w =
     (let s = ag_outer w; st = sd_stamp d (sl_outer s) in
      case f (fst (fst st)) (snd (fst st)) (sl_manager s, snd st) of
        None \<Rightarrow> (Inl (Exn RuntimeError ''unreachable''), w)
      | Some (r, (m, v)) \<Rightarrow> (r, upd_session (\<lambda>s. s\<lparr>sl_manager := m, sl_outer := v\<rparr>) w))"

text \<open>The common frame of both ways to compact: the events, and the flag that is reset whatever
  happens.\<close>

definition compaction_frame ::
  "('s, 'v) session_deps \<Rightarrow> string \<Rightarrow> ('s, 'v, 'a) session_call \<Rightarrow> ('s, 'v, 'a) session_call" where
  "compaction_frame d reason body w =
     (case body (mark_compacting True w) of
        (Inr x, w') \<Rightarrow> (Inr x, mark_compacting False w')
      | (Inl e, w') \<Rightarrow>
          (case emit_session d
              (if exn_class e = CancelledError then CompactionEndEvent reason None True None
               else CompactionEndEvent reason None False (Some (exn_text e))) w' of
             (Inl e', w'') \<Rightarrow> (Inl e', mark_compacting False w'')
           | (Inr _, w'') \<Rightarrow> (Inl e, mark_compacting False w'')))"

definition over_threshold :: "('s, 'v) session_deps \<Rightarrow> 'v compaction_controller \<Rightarrow> ('s, 'v, bool) session_call" where
  "over_threshold d c =
     and_then (rebuilt_context d (cs_summary_prefix (cc_settings c))) (\<lambda>r.
     pure (should_compact (rc_messages r) (cc_settings c)))"

definition prepare_next_turn_of ::
  "('s, 'v) session_deps \<Rightarrow> ('s, 'v) session_world completed_turn_context
     \<Rightarrow> ('s, 'v, ('s, 'v) session_world agent_loop_turn_update option) session_call" where
  "prepare_next_turn_of d completed =
     and_then (case sd_external_prepare d of None \<Rightarrow> pure None | Some f \<Rightarrow> f completed) (\<lambda>external w.
     case sd_controller d of
       None \<Rightarrow> (Inr external, w)
     | Some c \<Rightarrow>
         if \<not> sl_auto_compaction (ag_outer w) then (Inr external, w)
         else and_then (over_threshold d c) (\<lambda>over.
           if \<not> over then pure external
           else and_then (emit_session d (CompactionStartEvent ''auto'')) (\<lambda>_.
             compaction_frame d ''auto''
               (and_then (manager_prog d (\<lambda>fresh tm. prepare_next_provider_context (sd_load d) (sd_append d)
                    fresh tm (cc_settings c) (cc_summarizer c) (cc_before c) (cc_after c))) (\<lambda>decision.
                if \<not> dc_compacted decision then pure external
                else
                  and_then (case dc_entry decision of None \<Rightarrow> pure ()
                            | Some e \<Rightarrow> emit_session d (EntryAppendedEvent e)) (\<lambda>_.
                  and_then (emit_session d (CompactionEndEvent ''auto'' (dc_result decision) False None)) (\<lambda>_.
                  let base = ct_context completed;
                      ext = (case external of None \<Rightarrow> None | Some u \<Rightarrow> tu_context u);
                      source = (case ext of None \<Rightarrow> base | Some x \<Rightarrow> x)
                  in pure (Some \<lparr>tu_context = Some \<lparr>cx_system_prompt = cx_system_prompt source,
                         cx_messages = map LlmMsg (dc_messages decision), cx_tools = cx_tools source\<rparr>,
                       tu_model = (case external of None \<Rightarrow> None | Some u \<Rightarrow> tu_model u),
                       tu_thinking_level = (case external of None \<Rightarrow> None | Some u \<Rightarrow> tu_thinking_level u)\<rparr>))))))) w)"

section \<open>Operations\<close>

type_synonym ('s, 'v) agent_session = "('s, 'v) session_live agent"
type_synonym ('s, 'v, 'a) session_op = "(('s, 'v) agent_session, 'a) hook"

definition on_world :: "('s, 'v, 'a) session_call \<Rightarrow> ('s, 'v, 'a) session_op" where
  "on_world f s = (let r = f (snd s) in (fst r, (fst s, snd r)))"

definition with_agent ::
  "(('s, 'v) agent_session \<Rightarrow> (exn, ('s, 'v) agent_session) result) \<Rightarrow> ('s, 'v, unit) session_op" where
  "with_agent f s = (case f s of Inl e \<Rightarrow> (Inl e, s) | Inr s' \<Rightarrow> (Inr (), s'))"

definition ensure_open :: "('s, 'v, unit) session_call" where
  "ensure_open w = (if sl_closed (ag_outer w) then Inl (Exn RuntimeError ''AgentSession is closed'') else Inr (), w)"

definition ensure_session_idle :: "string \<Rightarrow> ('s, 'v, unit) session_call" where
  "ensure_session_idle action =
     and_then ensure_open (\<lambda>_ w.
       (if ag_is_streaming w \<or> sl_is_compacting (ag_outer w)
        then Inl (Exn RuntimeError (''cannot '' @ action @ '' while AgentSession is busy'')) else Inr (), w))"

definition manager_read ::
  "('s manager \<Rightarrow> (exn, 'a) result) \<Rightarrow> ('s, 'v, 'a) session_call" where
  "manager_read f w = (f (sl_manager (ag_outer w)), w)"

definition raise_persistence_error :: "('s, 'v, unit) session_call" where
  "raise_persistence_error w =
     (case sl_persistence_error (ag_outer w) of
        None \<Rightarrow> (Inr (), w)
      | Some e \<Rightarrow> (Inl (Exn RuntimeError (''session persistence failed: '' @ exn_text e)),
                  upd_session (\<lambda>s. s\<lparr>sl_persistence_error := None\<rparr>) w))"

definition run_result :: "agent_message list \<Rightarrow> ('s, 'v, agent_message list \<times> harness_result) session_call" where
  "run_result ms =
     and_then (manager_read active_messages) (\<lambda>tr. pure (ms, build_harness_result ms (map LlmMsg tr)))"

definition settle_run :: "('s, 'v) session_deps \<Rightarrow> agent_message list
    \<Rightarrow> ('s, 'v, agent_message list \<times> harness_result) session_call" where
  "settle_run d ms =
     and_then raise_persistence_error (\<lambda>_.
     and_then (emit_session d AgentSettledEvent) (\<lambda>_. run_result ms))"

definition forget_failure :: "('s, 'v, unit) session_call" where
  "forget_failure w = (Inr (), upd_session (\<lambda>s. s\<lparr>sl_persistence_error := None\<rparr>) w)"

text \<open>A run of the agent between the rebuilt context and the settled event; \<open>None\<close> when the agent
  never returns.\<close>

definition session_run_agent ::
  "('s, 'v) session_deps \<Rightarrow> (('s, 'v) session_world \<Rightarrow> ((exn + agent_message list) \<times> ('s, 'v) session_world) option)
     \<Rightarrow> ('s, 'v) session_world
     \<Rightarrow> ((exn + (agent_message list \<times> harness_result)) \<times> ('s, 'v) session_world) option" where
  "session_run_agent d run w =
     (case and_then (sync_agent_context d) (\<lambda>_. forget_failure) w of
        (Inl e, w1) \<Rightarrow> Some (Inl e, w1)
      | (Inr _, w1) \<Rightarrow>
          (case run w1 of
             None \<Rightarrow> None
           | Some (Inl e, w2) \<Rightarrow> Some (Inl e, w2)
           | Some (Inr ms, w2) \<Rightarrow> Some (settle_run d ms w2)))"

text \<open>A text or message that joins a queue while a run is active.  A list would be queued as if it
  were one message; that is outside the model and marked by the last error.\<close>

definition queued_input :: "prompt_input \<Rightarrow> int \<Rightarrow> (exn, agent_message) result" where
  "queued_input p t =
     (case p of MessagesPrompt ms \<Rightarrow> Inl (Exn OtherException ''a list queued as a message'')
      | _ \<Rightarrow> Inr (hd (normalize_message p t)))"

definition steer_async :: "('s, 'v) session_deps \<Rightarrow> agent_message \<Rightarrow> ('s, 'v, unit) session_call" where
  "steer_async d m w = emit_session d (QueueUpdateEvent ''steering'' ''push'' (Some m)) (steer m w)"

definition follow_up_async :: "('s, 'v) session_deps \<Rightarrow> agent_message \<Rightarrow> ('s, 'v, unit) session_call" where
  "follow_up_async d m w = emit_session d (QueueUpdateEvent ''follow_up'' ''push'' (Some m)) (follow_up m w)"

definition join_queue ::
  "('s, 'v) session_deps \<Rightarrow> prompt_input \<Rightarrow> int \<Rightarrow> string option
     \<Rightarrow> ('s, 'v, agent_message list \<times> harness_result) session_call" where
  "join_queue d p t behavior =
     (if behavior = Some ''steer'' then
        and_then (settle (queued_input p t)) (\<lambda>m. and_then (steer_async d m) (\<lambda>_. run_result []))
      else if behavior = Some ''followUp'' then
        and_then (settle (queued_input p t)) (\<lambda>m. and_then (follow_up_async d m) (\<lambda>_. run_result []))
      else fails (Exn RuntimeError ''prompt while streaming requires streaming_behavior''))"

definition session_prompt ::
  "nat \<Rightarrow> ('s, 'v) session_deps \<Rightarrow> ('s, 'v) session_live live_setup \<Rightarrow> prompt_input \<Rightarrow> content list \<Rightarrow> string option
     \<Rightarrow> int \<Rightarrow> ('s, 'v) session_world
     \<Rightarrow> ((exn + (agent_message list \<times> harness_result)) \<times> ('s, 'v) session_world) option" where
  "session_prompt fuel d su p images behavior t w =
     (if sl_closed (ag_outer w) then Some (Inl (Exn RuntimeError ''AgentSession is closed''), w)
      else if images \<noteq> [] \<and> ''image'' \<notin> set (md_input (su_model su)) then
        Some (Inl (Exn ValueError (''model '' @ md_provider (su_model su) @ CHR ''/'' # md_id (su_model su)
          @ '' does not accept image input'')), w)
      else if ag_is_streaming w then
        (if images \<noteq> [] then
           Some (Inl (Exn ValueError ''queued steering/follow-up messages cannot include images''), w)
         else Some (join_queue d p t behavior w))
      else session_run_agent d (prompt fuel su p images t) w)"

definition session_continue ::
  "nat \<Rightarrow> ('s, 'v) session_deps \<Rightarrow> ('s, 'v) session_live live_setup \<Rightarrow> ('s, 'v) session_world
     \<Rightarrow> ((exn + (agent_message list \<times> harness_result)) \<times> ('s, 'v) session_world) option" where
  "session_continue fuel d su w =
     (if sl_closed (ag_outer w) then Some (Inl (Exn RuntimeError ''AgentSession is closed''), w)
      else session_run_agent d (continue_run fuel su) w)"

definition clear_queue :: "('s, 'v) session_deps \<Rightarrow> string \<Rightarrow> ('s, 'v, unit) session_call" where
  "clear_queue d queue =
     and_then (if queue \<in> {''steering'', ''all''} then
         (\<lambda>w. emit_session d (QueueUpdateEvent ''steering'' ''clear'' None)
                (w\<lparr>ag_steering := queue_clear (ag_steering w)\<rparr>)) else pure ()) (\<lambda>_.
     if queue \<in> {''follow_up'', ''all''} then
         (\<lambda>w. emit_session d (QueueUpdateEvent ''follow_up'' ''clear'' None)
                (w\<lparr>ag_follow_up := queue_clear (ag_follow_up w)\<rparr>)) else pure ())"

definition compact_now ::
  "('s, 'v) session_deps \<Rightarrow> string \<Rightarrow> bool \<Rightarrow> ('s, 'v, (tree_entry \<times> compaction_result) option) session_call" where
  "compact_now d reason force =
     and_then ensure_open (\<lambda>_ w.
       if ag_is_streaming w then (Inl (Exn RuntimeError ''cannot compact while the agent is streaming''), w)
       else case sd_controller d of
         None \<Rightarrow> (Inr None, w)
       | Some c \<Rightarrow>
           and_then (over_threshold d c) (\<lambda>over.
             if \<not> force \<and> \<not> over then pure None
             else and_then (emit_session d (CompactionStartEvent reason)) (\<lambda>_.
               compaction_frame d reason
                 (and_then (manager_prog d (\<lambda>fresh tm. compact_session (sd_load d) (sd_append d) fresh tm
                      (cc_settings c) (cc_summarizer c) force (cc_before c) (cc_after c))) (\<lambda>er.
                  and_then (sync_agent_context d) (\<lambda>_.
                  and_then (emit_session d (EntryAppendedEvent (fst er))) (\<lambda>_.
                  and_then (emit_session d (CompactionEndEvent reason (Some (snd er)) False None)) (\<lambda>_.
                  pure (Some er)))))))) w)"

definition record_entry ::
  "('s, 'v) session_deps \<Rightarrow> (string \<Rightarrow> int \<Rightarrow> 's manager \<Rightarrow> (exn, tree_entry) result \<times> 's manager)
     \<Rightarrow> ('s, 'v, unit) session_op" where
  "record_entry d f =
     on_world (and_then (manager_op d f) (\<lambda>e. emit_session d (EntryAppendedEvent e)))"

definition session_set_model :: "('s, 'v) session_deps \<Rightarrow> model \<Rightarrow> ('s, 'v, unit) session_op" where
  "session_set_model d m =
     and_then (on_world (ensure_session_idle ''set model'')) (\<lambda>_.
     and_then (with_agent (set_model m)) (\<lambda>_.
     record_entry d (\<lambda>fresh tm mg. append_model_change (sd_load d) (sd_append d) None fresh tm mg
       (md_provider m) (md_id m))))"

definition available_models :: "('s, 'v) session_deps \<Rightarrow> ('s, 'v) agent_session \<Rightarrow> model list" where
  "available_models d s = (case sd_models d of None \<Rightarrow> [su_model (fst s)] | Some ms \<Rightarrow> ms)"

fun position_of :: "('a \<Rightarrow> bool) \<Rightarrow> 'a list \<Rightarrow> nat option" where
  "position_of P [] = None"
| "position_of P (x # xs) = (if P x then Some 0 else map_option Suc (position_of P xs))"

definition next_index :: "nat option \<Rightarrow> int \<Rightarrow> int \<Rightarrow> nat \<Rightarrow> nat" where
  "next_index found missing_at direction n =
     nat (((case found of Some i \<Rightarrow> int i | None \<Rightarrow> missing_at) + (if 0 \<le> direction then 1 else - 1)) mod int n)"

definition cycle_model :: "('s, 'v) session_deps \<Rightarrow> int \<Rightarrow> ('s, 'v, model) session_op" where
  "cycle_model d direction s =
     (let ms = available_models d s; cur = su_model (fst s) in
      if ms = [] then (Inl (Exn RuntimeError ''no models are available''), s)
      else
        (let selected = ms ! next_index
               (position_of (\<lambda>m. md_provider m = md_provider cur \<and> md_id m = md_id cur) ms)
               (if 0 < direction then - 1 else 0) direction (length ms)
         in and_then (session_set_model d selected) (\<lambda>_. pure selected) s))"

definition available_levels :: "model \<Rightarrow> string list" where
  "available_levels m =
     (if \<not> md_reasoning m then [''off'']
      else [''off'', ''minimal'', ''low'', ''medium'', ''high'', ''xhigh'', ''max''])"

definition session_set_level :: "('s, 'v) session_deps \<Rightarrow> string \<Rightarrow> ('s, 'v, unit) session_op" where
  "session_set_level d level =
     and_then (on_world (ensure_session_idle ''set thinking level'')) (\<lambda>_ s.
       if level \<notin> set (available_levels (su_model (fst s))) then
         (Inl (Exn ValueError (''thinking level '' @ py_repr_str level @ '' is unavailable for model ''
            @ py_repr_str (md_id (su_model (fst s))))), s)
       else
         and_then (with_agent (Agent.set_thinking_level level)) (\<lambda>_.
         and_then (record_entry d (\<lambda>fresh tm mg. append_thinking_level (sd_load d) (sd_append d) None fresh tm mg level)) (\<lambda>_.
         on_world (emit_session d (ThinkingLevelChangedEvent level)))) s)"

definition cycle_level :: "('s, 'v) session_deps \<Rightarrow> int \<Rightarrow> ('s, 'v, string) session_op" where
  "cycle_level d direction s =
     (let levels = available_levels (su_model (fst s));
          found = (case position_of (\<lambda>l. l = su_thinking_level (fst s)) levels of None \<Rightarrow> Some 0 | f \<Rightarrow> f);
          selected = levels ! next_index found 0 direction (length levels)
      in and_then (session_set_level d selected) (\<lambda>_. pure selected) s)"

section \<open>Branches and sessions\<close>

text \<open>\<^verbatim>\<open>_restore_branch_runtime\<close>: the model of the branch if the registry knows it, its level if the
  model has it, and its messages.\<close>

definition restored_model :: "('s, 'v) session_deps \<Rightarrow> reconstructed_context \<Rightarrow> model option" where
  "restored_model d r =
     (case (rc_model_provider r, rc_model_id r, sd_models d) of
        (Some p, Some i, Some ms) \<Rightarrow>
          if p = [] \<or> i = [] then None else find (\<lambda>m. md_provider m = p \<and> md_id m = i) ms
      | _ \<Rightarrow> None)"

definition restored_level :: "reconstructed_context \<Rightarrow> model \<Rightarrow> string" where
  "restored_level r m =
     (case rc_thinking_level r of
        Some l \<Rightarrow> if l \<in> set (available_levels m) then l else ''off'' | None \<Rightarrow> ''off'')"

definition restore_branch :: "('s, 'v) session_deps \<Rightarrow> ('s, 'v, unit) session_op" where
  "restore_branch d =
     and_then (on_world (rebuilt_context d DEFAULT_COMPACTION_PREFIX)) (\<lambda>r.
     and_then (case restored_model d r of None \<Rightarrow> pure () | Some m \<Rightarrow> with_agent (set_model m)) (\<lambda>_ s.
     and_then (with_agent (Agent.set_thinking_level (restored_level r (su_model (fst s))))) (\<lambda>_.
     on_world (replace_transcript (map LlmMsg (rc_messages r)))) s))"

definition install_manager :: "'s manager \<Rightarrow> ('s, 'v, unit) session_call" where
  "install_manager m w = (Inr (), upd_session (\<lambda>s. s\<lparr>sl_manager := m\<rparr>) w)"

definition session_header_of :: "('s, 'v) session_world \<Rightarrow> session_header" where
  "session_header_of w = t_header (m_tree (sl_manager (ag_outer w)))"

definition session_name :: "('s, 'v) session_world \<Rightarrow> string option" where
  "session_name w =
     (let h = session_header_of w in
      case map_of (tree_labels (m_tree (sl_manager (ag_outer w)))) (sh_id h) of
        Some l \<Rightarrow> Some l | None \<Rightarrow> sh_name h)"

definition reset_transcript :: "('s, 'v, unit) session_call" where
  "reset_transcript w = (case reset_agent w of Inl e \<Rightarrow> (Inl e, w) | Inr w' \<Rightarrow> (Inr (), w'))"

definition new_session :: "('s, 'v) session_deps \<Rightarrow> string option \<Rightarrow> ('s, 'v, unit) session_op" where
  "new_session d name =
     and_then (on_world (ensure_session_idle ''create session'')) (\<lambda>_ s.
     and_then (on_world (\<lambda>w. outside (sd_create d (sh_cwd (session_header_of w)) name) w)) (\<lambda>m.
     and_then (on_world (install_manager m)) (\<lambda>_.
     and_then (on_world reset_transcript) (\<lambda>_.
     and_then (on_world (replace_transcript [])) (\<lambda>_.
     and_then (on_world (manager_op d (\<lambda>fresh tm mg. append_model_change (sd_load d) (sd_append d) None fresh tm mg
        (md_provider (su_model (fst s))) (md_id (su_model (fst s)))))) (\<lambda>e1.
     and_then (on_world (manager_op d (\<lambda>fresh tm mg. append_thinking_level (sd_load d) (sd_append d) None fresh tm mg
        (su_thinking_level (fst s))))) (\<lambda>e2.
     on_world (and_then (emit_session d (EntryAppendedEvent e1)) (\<lambda>_.
       and_then (emit_session d (EntryAppendedEvent e2)) (\<lambda>_.
       emit_session d (SessionInfoChangedEvent (sh_id (t_header (m_tree m))) name)))))))))) s)"

definition switch_session :: "('s, 'v) session_deps \<Rightarrow> string \<Rightarrow> ('s, 'v, unit) session_op" where
  "switch_session d i =
     and_then (on_world (ensure_session_idle ''switch session'')) (\<lambda>_.
     case sd_open d of
       None \<Rightarrow> fails (Exn RuntimeError ''session switching requires a SessionRepository'')
     | Some f \<Rightarrow>
         and_then (on_world (outside (f i))) (\<lambda>m.
         and_then (on_world (install_manager m)) (\<lambda>_.
         and_then (restore_branch d) (\<lambda>_.
         on_world (\<lambda>w. emit_session d (SessionInfoChangedEvent (sh_id (t_header (m_tree m))) (session_name w)) w)))))"

definition fork_session :: "('s, 'v) session_deps \<Rightarrow> string option \<Rightarrow> ('s, 'v, unit) session_op" where
  "fork_session d i =
     and_then (on_world (ensure_session_idle ''fork session'')) (\<lambda>_.
     and_then (on_world (manager_op d (\<lambda>_ tm mg. fork (sd_load d) (sd_append d) tm mg i))) (\<lambda>_.
     restore_branch d))"

definition navigate_tree :: "('s, 'v) session_deps \<Rightarrow> string option \<Rightarrow> bool \<Rightarrow> ('s, 'v, unit) session_op" where
  "navigate_tree d i summarize =
     and_then (on_world (ensure_session_idle ''navigate session tree'')) (\<lambda>_.
     and_then (on_world
       (case (if summarize then sd_branch_summarizer d else None, i) of
          (Some f, Some target) \<Rightarrow>
            and_then (manager_prog d (\<lambda>fresh tm.
              summarize_and_navigate_branch (sd_load d) (sd_append d) fresh tm target f)) (\<lambda>er.
            case fst er of None \<Rightarrow> pure () | Some e \<Rightarrow> emit_session d (EntryAppendedEvent e))
        | _ \<Rightarrow> manager_op d (\<lambda>_ tm mg. navigate (sd_load d) (sd_append d) tm mg i True))) (\<lambda>_.
     restore_branch d))"

definition set_session_name :: "('s, 'v) session_deps \<Rightarrow> string option \<Rightarrow> ('s, 'v, unit) session_op" where
  "set_session_name d name =
     and_then (on_world (ensure_session_idle ''rename session'')) (\<lambda>_ s.
     (let i = sh_id (session_header_of (snd s)) in
      and_then (record_entry d (\<lambda>fresh tm mg. set_label (sd_load d) (sd_append d) None fresh tm mg i name)) (\<lambda>_.
      on_world (emit_session d (SessionInfoChangedEvent i name))) s))"

section \<open>Reading\<close>

definition last_assistant_text :: "('s, 'v, string option) session_call" where
  "last_assistant_text =
     and_then (manager_read active_messages) (\<lambda>ms. pure
       (case concat (map (\<lambda>m. case m of AssistantMessage a \<Rightarrow> [message_text m] | _ \<Rightarrow> []) (rev ms)) of
          [] \<Rightarrow> None | t # _ \<Rightarrow> Some t))"

record session_stats =
  st_session_id :: string
  st_entry_count :: nat
  st_message_count :: nat
  st_assistant_count :: nat
  st_tool_result_count :: nat
  st_leaf_count :: nat
  st_usage :: usage

definition session_stats_of :: "('s, 'v, session_stats) session_call" where
  "session_stats_of w =
     (let tree = m_tree (sl_manager (ag_outer w)) in
      and_then (manager_read active_messages) (\<lambda>ms. pure
        \<lparr>st_session_id = sh_id (t_header tree), st_entry_count = length (t_entries tree),
         st_message_count = length ms,
         st_assistant_count = length (filter (\<lambda>m. case m of AssistantMessage _ \<Rightarrow> True | _ \<Rightarrow> False) ms),
         st_tool_result_count = length (filter (\<lambda>m. case m of ToolResultMessage _ \<Rightarrow> True | _ \<Rightarrow> False) ms),
         st_leaf_count = length (leaf_ids tree), st_usage = total_usage (map LlmMsg ms)\<rparr>) w)"

definition stats_to_dict :: "session_stats \<Rightarrow> jobject" where
  "stats_to_dict s =
     [(''sessionId'', JStr (st_session_id s)), (''entryCount'', JInt (int (st_entry_count s))),
      (''messageCount'', JInt (int (st_message_count s))), (''assistantCount'', JInt (int (st_assistant_count s))),
      (''toolResultCount'', JInt (int (st_tool_result_count s))), (''leafCount'', JInt (int (st_leaf_count s))),
      (''usage'', JObj
        [(''input'', JInt (u_input (st_usage s))), (''output'', JInt (u_output (st_usage s))),
         (''cacheRead'', JInt (u_cache_read (st_usage s))), (''cacheWrite'', JInt (u_cache_write (st_usage s))),
         (''totalTokens'', JInt (u_total_tokens (st_usage s))),
         (''cost'', JObj [(''input'', JFloat (uc_input (u_cost (st_usage s)))),
            (''output'', JFloat (uc_output (u_cost (st_usage s)))),
            (''cacheRead'', JFloat (uc_cache_read (u_cost (st_usage s)))),
            (''cacheWrite'', JFloat (uc_cache_write (u_cost (st_usage s)))),
            (''total'', JFloat (uc_total (u_cost (st_usage s))))])])]"

definition entry_dict :: "session_tree \<Rightarrow> string \<Rightarrow> json option" where
  "entry_dict t i = map_option (\<lambda>e. JObj (record_to_dict (EntryRecord e))) (map_of (t_entries t) i)"

definition get_entries :: "session_tree \<Rightarrow> json list option" where
  "get_entries t = those (map (entry_dict t) (t_order t))"

text \<open>The recursion follows the children; one more level than there are entries is enough on a valid
  tree, and \<open>None\<close> stands for a lookup that fails or a recursion that does not end.\<close>

fun tree_node :: "nat \<Rightarrow> session_tree \<Rightarrow> string \<Rightarrow> json option" where
  "tree_node 0 t i = None"
| "tree_node (Suc n) t i =
     (case (entry_dict t i, those (map (tree_node n t) (child_ids t (Some i)))) of
        (Some e, Some cs) \<Rightarrow> Some (JObj [(''entry'', e), (''children'', JArr cs)]) | _ \<Rightarrow> None)"

definition get_tree :: "('s, 'v) session_world \<Rightarrow> json option" where
  "get_tree w =
     (let t = m_tree (sl_manager (ag_outer w)); h = t_header t in
      map_option (\<lambda>roots. JObj
        [(''sessionId'', JStr (sh_id h)), (''leafId'', json_opt (t_leaf_id t)),
         (''root'', JObj [(''id'', JStr (sh_id h)), (''name'', json_opt (session_name w)), (''cwd'', JStr (sh_cwd h)),
            (''children'', JArr roots)])])
        (those (map (tree_node (Suc (length (t_entries t))) t) (child_ids t None))))"

definition session_subscribe :: "nat \<Rightarrow> ('s, 'v) session_world \<Rightarrow> ('s, 'v) session_world" where
  "session_subscribe l = upd_session (\<lambda>s. s\<lparr>sl_listeners := sl_listeners s @ [l]\<rparr>)"

definition session_unsubscribe :: "nat \<Rightarrow> ('s, 'v) session_world \<Rightarrow> ('s, 'v) session_world" where
  "session_unsubscribe l = upd_session (\<lambda>s. s\<lparr>sl_listeners := remove1 l (sl_listeners s)\<rparr>)"

definition set_auto_compaction :: "bool \<Rightarrow> ('s, 'v) session_world \<Rightarrow> ('s, 'v) session_world" where
  "set_auto_compaction b = upd_session (\<lambda>s. s\<lparr>sl_auto_compaction := b\<rparr>)"

section \<open>The agent of a session\<close>

text \<open>The session subscribes first; other listeners of the agent have other numbers.\<close>

definition session_setup ::
  "('s, 'v) session_deps \<Rightarrow> ('s, 'v) session_live live_setup \<Rightarrow> ('s, 'v) session_live live_setup" where
  "session_setup d su = su\<lparr>
     su_listener := (\<lambda>l ev. if l = 0 then on_agent_event d ev else su_listener su l ev),
     su_config := (su_config su)\<lparr>cf_prepare_next_turn := Some (prepare_next_turn_of d)\<rparr>\<rparr>"

text \<open>\<^verbatim>\<open>close\<close> aborts, waits until the agent is idle, unsubscribes and cleans up the execution
  environment (\<open>sd_cleanup\<close>); here it is called when no run is active, so there is nothing to wait
  for.  When the clean-up raises the session stays open, but no longer listens to the agent.\<close>

definition close_session :: "('s, 'v) session_deps \<Rightarrow> ('s, 'v, unit) session_call" where
  "close_session d w =
     (if sl_closed (ag_outer w) then (Inr (), w)
      else and_then (outside (sd_cleanup d))
             (\<lambda>_ w'. (Inr (), upd_session (\<lambda>s. s\<lparr>sl_closed := True\<rparr>) w'))
             (unsubscribe 0 (abort ''AgentSession closed'' w)))"

end
