(* ===== verification/SessionRecords.thy ===== *)
theory SessionRecords
  imports SessionManager Compaction
begin

text \<open>
  What one call does to an in-memory session, in the form that the product session needs: its
  errors are never cancellations, an append either extends the active branch by one entry or leaves
  the manager as it was, and compaction adds compaction entries only.
\<close>

section \<open>Errors of a session are not cancellations\<close>

lemma tool_match_error: "tool_match n es t i = Some (Inl x) \<Longrightarrow> exn_class x \<noteq> CancelledError"
  by (induction n es t i rule: tool_match.induct) (auto split: option.splits if_splits)

lemma scan_records_error: "scan_records pos rs es c = Inl x \<Longrightarrow> exn_class x \<noteq> CancelledError"
  by (induction pos rs es c rule: scan_records.induct) (auto simp: validation_error_def split: if_splits)

lemma check_results_error: "check_results es xs = Inl x \<Longrightarrow> exn_class x \<noteq> CancelledError"
proof (induction xs)
  case (Cons e xs)
  show ?case
  proof (cases "result_of_tool e")
    case (Some t)
    show ?thesis
    proof (cases "tool_match (climb_fuel es) es t (e_parent_id e)")
      case None
      with Cons.prems Some show ?thesis by (auto simp: diverges_def)
    next
      case (Some r)
      with \<open>result_of_tool e = Some t\<close> Cons show ?thesis
        by (cases r) (auto simp: validation_error_def tool_match_error split: bool.splits)
    qed
  qed (use Cons in simp)
qed simp

lemma validate_error:
  assumes "validate_records rs = Inl x" shows "exn_class x \<noteq> CancelledError"
proof (cases rs)
  case (Cons r rest)
  show ?thesis
  proof (cases r)
    case (HeaderRecord h)
    show ?thesis
    proof (cases "scan_records 2 rest [] None")
      case (Inl y)
      then show ?thesis using assms scan_records_error [OF Inl] Cons HeaderRecord
        by (auto simp: validate_records_def validation_error_def split: if_splits)
    next
      case (Inr p)
      have "check_cursor es c = Inl y \<Longrightarrow> exn_class y \<noteq> CancelledError" for es c y
        by (auto simp: check_cursor_def validation_error_def split: option.splits if_splits)
      moreover obtain es c where "p = (es, c)" by (cases p)
      ultimately show ?thesis using Inr assms Cons HeaderRecord check_results_error
        by (auto simp: validate_records_def bindE_eq_Inl validation_error_def split: if_splits)
    qed
  qed (use assms Cons in \<open>auto simp: validate_records_def validation_error_def\<close>)
qed (use assms in \<open>auto simp: validate_records_def validation_error_def\<close>)

section \<open>The active branch\<close>

definition branch :: "'s manager \<Rightarrow> tree_entry list" where
  "branch m = (case active_entries m of Inr es \<Rightarrow> es | Inl _ \<Rightarrow> [])"

definition history :: "'s manager \<Rightarrow> session_record list" where
  "history m = l_records (m_loaded m)"

definition is_compaction :: "entry_body \<Rightarrow> bool" where
  "is_compaction b \<longleftrightarrow> (case b of CompactionEntry _ \<Rightarrow> True | _ \<Rightarrow> False)"

text \<open>The branch without its compaction entries.\<close>

definition conversation :: "'s manager \<Rightarrow> entry_body list" where
  "conversation m = filter (\<lambda>b. \<not> is_compaction b) (map e_body (branch m))"

text \<open>\<open>grew m bs m'\<close>: from \<open>m\<close> to \<open>m'\<close> the session stayed sound, its history was only added to,
  and its branch gained \<open>bs\<close>.\<close>

definition grew :: "memory_store manager \<Rightarrow> entry_body list \<Rightarrow> memory_store manager \<Rightarrow> bool" where
  "grew m bs m' \<longleftrightarrow> memory.manager_ok m' \<and> prefix (history m) (history m') \<and>
     conversation m' = conversation m @ bs"

lemma grew_refl [simp]: "grew m [] m \<longleftrightarrow> memory.manager_ok m"
  by (simp add: grew_def)

lemma grew_trans: "grew m bs m' \<Longrightarrow> grew m' cs m'' \<Longrightarrow> grew m (bs @ cs) m''"
  unfolding grew_def by (auto intro: prefix_order.trans)

lemma grew_ok: "grew m bs m' \<Longrightarrow> memory.manager_ok m'"
  by (simp add: grew_def)

lemma append_outcome:
  assumes "memory.manager_ok m"
  obtains (refused) x where "exn_class x \<noteq> CancelledError"
      "manager_append memory_load memory_append tm m (new_entry i fresh tm m b) = (Inl x, m)"
  | (accepted) m' where "grew m (filter (\<lambda>b. \<not> is_compaction b) [b]) m'"
      "manager_append memory_load memory_append tm m (new_entry i fresh tm m b) = (Inr (new_entry i fresh tm m b), m')"
proof (cases "entry_fits (t_entries (m_tree m)) (new_entry i fresh tm m b)")
  case True
  from memory_append_extends [OF assms True] obtain m' p where
    "manager_append memory_load memory_append tm m (new_entry i fresh tm m b) = (Inr (new_entry i fresh tm m b), m')"
    "memory.manager_ok m'" "prefix (history m) (history m')"
    "active_entries m = Inr p" "active_entries m' = Inr (p @ [new_entry i fresh tm m b])"
    by (auto simp: history_def)
  then show thesis
    by (intro accepted) (auto simp: grew_def conversation_def branch_def new_entry_def)
next
  case False
  from memory.append_rejected [OF assms TrueI False] obtain x where
    x: "manager_append memory_load memory_append tm m (new_entry i fresh tm m b) = (Inl x, m)" by blast
  show thesis
  proof (cases "memory_append (m_store m) (EntryRecord (new_entry i fresh tm m b))")
    case (Inl y)
    with x have "y = x" by (simp add: manager_append_def)
    with Inl have "exn_class x \<noteq> CancelledError"
      by (auto simp: memory_append_def bindE_eq_Inl dest: validate_error)
    with x show thesis by (intro refused)
  next
    case (Inr s)
    have ok: "memory_load (m_store m) = Inr (m_loaded m)" using assms by (simp add: memory.manager_ok_def)
    have "valid_session (l_records (m_loaded m) @ [EntryRecord (new_entry i fresh tm m b)])"
      using memory.append_accepts [OF ok TrueI TrueI] Inr by blast
    then have "entry_fits (t_entries (m_tree m)) (new_entry i fresh tm m b)"
      using assms valid_append_entry [OF memory.manager_ok_valid [OF assms]]
        in_step_tree [OF memory.manager_ok_valid [OF assms]]
      by (auto simp: memory.manager_ok_def)
    with False show thesis by simp
  qed
qed

section \<open>Compaction\<close>

lemma wp_in_world:
  "(\<And>x w'. Q x (fst s, w')) \<Longrightarrow> (\<And>e w'. E e (fst s, w')) \<Longrightarrow> wp (in_world f) Q E s"
  by (auto simp: wp_def in_world_def split: option.split sum.split)

lemma wp_in_manager:
  "wp (in_manager f) Q E s =
     (case f (fst s) of (Inr x, m) \<Rightarrow> Q x (m, snd s) | (Inl e, m) \<Rightarrow> E e (m, snd s))"
  by (auto simp: wp_def in_manager_def split: prod.split sum.split)

lemma append_compaction_grew:
  assumes "memory.manager_ok m"
    and "append_compaction memory_load memory_append i fresh tm m summary kept before after details = (r, m')"
  shows "grew m [] m'"
  by (rule append_outcome [OF assms(1), where tm = tm and i = i and fresh = fresh and b = "CompactionEntry
       \<lparr>c_summary = summary, c_first_kept = kept, c_tokens_before = before,
        c_tokens_after = after, c_details = (case details of None \<Rightarrow> [] | Some d \<Rightarrow> d)\<rparr>"])
     (use assms in \<open>simp_all add: append_compaction_def is_compaction_def\<close>)

lemma compact_session_grew:
  assumes "memory.manager_ok (fst s)"
  shows "wp (compact_session memory_load memory_append fresh tm c f force before after)
     (\<lambda>_ s'. grew (fst s) [] (fst s')) (\<lambda>_ s'. grew (fst s) [] (fst s')) s"
  unfolding compact_session_def Let_def wp_bnd wp_in_manager
  using assms
  by (auto simp: wp_bnd wp_basic wp_in_manager split: sum.split prod.split intro!: wp_in_world
      intro: append_compaction_grew)

lemma gate_grew:
  assumes "memory.manager_ok (fst s)"
  shows "wp (prepare_next_provider_context memory_load memory_append fresh tm c f before after)
     (\<lambda>_ s'. grew (fst s) [] (fst s')) (\<lambda>_ s'. grew (fst s) [] (fst s')) s"
proof -
  have read: "wp (bnd (in_manager (\<lambda>m. (h m, m))) g) Q E t"
    if "\<And>x. wp (g x) Q E t" and "\<And>e. E e t" for h :: "memory_store manager \<Rightarrow> (exn, message list) result" and g Q E t
    using that by (auto simp: wp_bnd wp_in_manager split: sum.split)
  have kept: "grew (fst s) [] (fst s)" using assms by simp
  show ?thesis unfolding prepare_next_provider_context_def
  proof (rule read)
    fix current
    show "wp (if \<not> should_compact current c
        then ret \<lparr>dc_compacted = False, dc_messages = current, dc_entry = None, dc_result = None\<rparr>
        else bnd (in_manager (\<lambda>m. (session_messages c tm m, m))) (\<lambda>latest.
          if \<not> should_compact latest c
          then ret \<lparr>dc_compacted = False, dc_messages = latest, dc_entry = None, dc_result = None\<rparr>
          else bnd (compact_session memory_load memory_append fresh tm c f False before after) (\<lambda>er.
            bnd (in_manager (\<lambda>m. (session_messages c tm m, m))) (\<lambda>rebuilt.
            ret \<lparr>dc_compacted = True, dc_messages = rebuilt, dc_entry = Some (fst er), dc_result = Some (snd er)\<rparr>))))
      (\<lambda>_ s'. grew (fst s) [] (fst s')) (\<lambda>_ s'. grew (fst s) [] (fst s')) s" (is "wp (if _ then _ else ?rest) _ _ _")
    proof (cases "should_compact current c")
      case True
      have "wp ?rest (\<lambda>_ s'. grew (fst s) [] (fst s')) (\<lambda>_ s'. grew (fst s) [] (fst s')) s"
      proof (rule read)
        fix latest
        have "wp (bnd (compact_session memory_load memory_append fresh tm c f False before after) (\<lambda>er.
            bnd (in_manager (\<lambda>m. (session_messages c tm m, m))) (\<lambda>rebuilt.
            ret \<lparr>dc_compacted = True, dc_messages = rebuilt, dc_entry = Some (fst er), dc_result = Some (snd er)\<rparr>)))
          (\<lambda>_ s'. grew (fst s) [] (fst s')) (\<lambda>_ s'. grew (fst s) [] (fst s')) s"
          unfolding wp_bnd
          by (rule wp_mono [OF compact_session_grew [OF assms]])
             (auto simp: wp_bnd wp_in_manager wp_basic split: sum.split)
        with kept show "wp (if \<not> should_compact latest c
            then ret \<lparr>dc_compacted = False, dc_messages = latest, dc_entry = None, dc_result = None\<rparr>
            else bnd (compact_session memory_load memory_append fresh tm c f False before after) (\<lambda>er.
              bnd (in_manager (\<lambda>m. (session_messages c tm m, m))) (\<lambda>rebuilt.
              ret \<lparr>dc_compacted = True, dc_messages = rebuilt, dc_entry = Some (fst er), dc_result = Some (snd er)\<rparr>)))
          (\<lambda>_ s'. grew (fst s) [] (fst s')) (\<lambda>_ s'. grew (fst s) [] (fst s')) s"
          by (simp add: wp_basic)
      qed (rule kept)
      with True show ?thesis by simp
    qed (use kept in \<open>simp add: wp_basic\<close>)
  qed (rule kept)
qed

end
