(* ===== verification/AgentSessionCorrect.thy ===== *)
theory AgentSessionCorrect
  imports AgentSession AgentCorrect SessionRecords
begin

text \<open>
  What the product session guarantees over an in-memory store: a prompt that returns has recorded
  every message of its run on the active branch, a write that fails is reported, navigation rebuilds
  the agent from the branch it arrives at, and a busy or closed session refuses.
\<close>

section \<open>Calls that leave the session alone\<close>

abbreviation manager_of :: "('s, 'v) session_world \<Rightarrow> 's manager" where
  "manager_of w \<equiv> sl_manager (ag_outer w)"

abbreviation failure_of :: "('s, 'v) session_world \<Rightarrow> exn option" where
  "failure_of w \<equiv> sl_persistence_error (ag_outer w)"

text \<open>The session listens first.\<close>

definition session_first :: "'u agent_live \<Rightarrow> bool" where
  "session_first w \<longleftrightarrow> (\<exists>ls. ag_listeners w = 0 # ls \<and> 0 \<notin> set ls)"

text \<open>Hooks, tools and listeners may do anything except write to the session, unsubscribe the session
  or end the run.\<close>

definition leaves_session :: "('s, 'v) session_world world_rel" where
  "leaves_session w t w' t' \<longleftrightarrow> manager_of w' = manager_of w \<and> failure_of w' = failure_of w \<and>
     (session_first w \<longrightarrow> session_first w') \<and> (ag_signal w \<noteq> None \<longrightarrow> ag_signal w' \<noteq> None)"

definition session_safe :: "('s, 'v) session_deps \<Rightarrow> ('s, 'v) session_live live_setup \<Rightarrow> bool" where
  "session_safe d su \<longleftrightarrow>
     (\<forall>m c so. hook_respects leaves_session (ev_stream_fn (su_env su) m c so)) \<and>
     hook_respects leaves_session (\<lambda>w. (Inr (), snd (ev_clock (su_env su) w))) \<and>
     config_respects leaves_session (su_config su) \<and> cf_prepare_next_turn (su_config su) = None \<and>
     (\<forall>tool \<in> set (su_tools su). tool_respects leaves_session tool) \<and>
     (\<forall>l ev. hook_respects leaves_session (su_listener su l ev)) \<and>
     (\<forall>l ev. hook_respects leaves_session (sd_listener d l ev)) \<and>
     (\<forall>f ct. sd_external_prepare d = Some f \<longrightarrow> hook_respects leaves_session (f ct) \<and>
        (\<forall>w u ctx. fst (f ct w) = Inr (Some u) \<longrightarrow> tu_context u = Some ctx \<longrightarrow> tools_respect leaves_session ctx))"

section \<open>Recording\<close>

text \<open>\<open>attached\<close>: a sound session that listens to a run.\<close>

definition attached :: "(memory_store, 'v) session_world \<Rightarrow> bool" where
  "attached w \<longleftrightarrow> memory.manager_ok (manager_of w) \<and> session_first w \<and> ag_signal w \<noteq> None"

definition recorded :: "agent_message \<Rightarrow> entry_body" where
  "recorded m = (case m of
     LlmMsg x \<Rightarrow> MessageEntry x
   | AppMsg x \<Rightarrow> CustomEntry (py_str (jget_or x ''role'' (JStr ''custom''))) x)"

text \<open>From \<open>w\<close> to \<open>w'\<close> the branch gained \<open>bs\<close>, or a failed write is remembered.\<close>

definition records :: "(memory_store, 'v) session_world \<Rightarrow> entry_body list \<Rightarrow> (memory_store, 'v) session_world \<Rightarrow> bool" where
  "records w bs w' \<longleftrightarrow> attached w' \<and> prefix (history (manager_of w)) (history (manager_of w')) \<and>
     (failure_of w \<noteq> None \<longrightarrow> failure_of w' \<noteq> None) \<and>
     (failure_of w' = None \<longrightarrow> conversation (manager_of w') = conversation (manager_of w) @ bs)"

lemma records_trans: "records w bs w' \<Longrightarrow> records w' cs w'' \<Longrightarrow> records w (bs @ cs) w''"
  unfolding records_def by (auto intro: prefix_order.trans)

lemma records_then: "records w bs w' \<Longrightarrow> records w' [] w'' \<Longrightarrow> records w bs w''"
  using records_trans [of w bs w' "[]" w''] by simp

lemma records_refl [simp]: "records w [] w \<longleftrightarrow> attached w"
  by (simp add: records_def)

lemma records_attached: "records w bs w' \<Longrightarrow> attached w'"
  by (simp add: records_def)

lemma leaves_records: "attached w \<Longrightarrow> leaves_session w t w' t' \<Longrightarrow> records w [] w'"
  by (simp add: records_def leaves_session_def attached_def)

text \<open>A call that records nothing.\<close>

definition quiet :: "((memory_store, 'v) session_world, 'a) hook \<Rightarrow> bool" where
  "quiet f \<longleftrightarrow> (\<forall>w. attached w \<longrightarrow> records w [] (snd (f w)))"

lemma quietD: "quiet f \<Longrightarrow> attached w \<Longrightarrow> f w = (r, w') \<Longrightarrow> records w [] w'"
  by (auto simp: quiet_def dest: spec [of _ w])

lemma quiet_leaves: "hook_respects leaves_session f \<Longrightarrow> quiet f"
  by (auto simp: quiet_def hook_respects_def intro: leaves_records)

lemma quiet_pure [simp]: "quiet (pure x)"
  by (simp add: quiet_def pure_def)

lemma quiet_and_then:
  fixes f :: "((memory_store, 'v) session_world, 'a) hook"
  assumes "quiet f" and "\<And>x. quiet (g x)" shows "quiet (and_then f g)"
  unfolding quiet_def
proof (intro allI impI)
  fix w :: "(memory_store, 'v) session_world" assume w: "attached w"
  obtain r w1 where f: "f w = (r, w1)" by (cases "f w")
  with assms(1) w have w1: "records w [] w1" by (blast intro: quietD)
  show "records w [] (snd (and_then f g w))"
  proof (cases r)
    case (Inr x)
    obtain r' w2 where g: "g x w1 = (r', w2)" by (cases "g x w1")
    with assms(2) w1 have "records w1 [] w2" by (blast intro: quietD records_attached)
    with w1 f Inr g show ?thesis by (auto simp: and_then_def intro: records_then)
  qed (use f w1 in \<open>simp add: and_then_def\<close>)
qed

lemma quiet_emit:
  assumes "\<And>l ev. hook_respects leaves_session (sd_listener d l ev)"
  shows "quiet (emit_session d ev)"
proof -
  have "quiet (emit_to d ev ls)" for ls
    by (induction ls) (simp_all add: quiet_and_then [OF quiet_leaves [OF assms]])
  then show ?thesis by (simp add: quiet_def emit_session_def)
qed

lemma quiet_manager_op:
  assumes "\<And>fresh tm m. memory.manager_ok m \<Longrightarrow> grew m [] (snd (f fresh tm m))"
  shows "quiet (manager_op d f)"
  using assms
  by (auto simp: quiet_def manager_op_def Let_def records_def attached_def upd_session_def session_first_def grew_def)

lemma quiet_read: "quiet (manager_op d (\<lambda>fresh tm m. (h fresh tm m, m)))"
  by (rule quiet_manager_op) simp

lemma quiet_mark: "records w bs (mark_compacting b w') = records w bs w'" "attached (mark_compacting b w) = attached w"
  by (simp_all add: mark_compacting_def upd_session_def records_def attached_def session_first_def)

lemma quiet_frame:
  fixes body :: "((memory_store, 'v) session_world, 'a) hook"
  assumes "quiet body" and "\<And>ev. quiet (emit_session d ev)"
  shows "quiet (compaction_frame d reason body)"
  unfolding quiet_def
proof (intro allI impI)
  fix w :: "(memory_store, 'v) session_world" assume "attached w"
  then have w: "attached (mark_compacting True w)" and start: "records w [] (mark_compacting True w)"
    by (simp_all add: quiet_mark)
  obtain r w1 where b: "body (mark_compacting True w) = (r, w1)" by (cases "body (mark_compacting True w)")
  have w1: "records w [] w1" by (rule records_then [OF start quietD [OF assms(1) w b]])
  show "records w [] (snd (compaction_frame d reason body w))"
  proof (cases r)
    case (Inl e)
    let ?ev = "if exn_class e = CancelledError then CompactionEndEvent reason None True None
               else CompactionEndEvent reason None False (Some (exn_text e))"
    obtain r' w2 where ev: "emit_session d ?ev w1 = (r', w2)" by (cases "emit_session d ?ev w1")
    have "records w [] w2" by (rule records_then [OF w1 quietD [OF assms(2) records_attached [OF w1] ev]])
    with b Inl ev show ?thesis by (cases r') (simp_all add: compaction_frame_def quiet_mark)
  qed (use b w1 in \<open>simp add: compaction_frame_def quiet_mark\<close>)
qed

lemma quiet_manager_prog:
  assumes "\<And>fresh tm s. memory.manager_ok (fst s) \<Longrightarrow>
     wp (f fresh tm) (\<lambda>_ s'. grew (fst s) [] (fst s')) (\<lambda>_ s'. grew (fst s) [] (fst s')) s"
  shows "quiet (manager_prog d f)"
  unfolding quiet_def
proof (intro allI impI)
  fix w :: "(memory_store, 'a) session_world" assume w: "attached w"
  then have ok: "memory.manager_ok (fst (sl_manager (ag_outer w), v))" for v :: 'a
    by (simp add: attached_def)
  let ?st = "sd_stamp d (sl_outer (ag_outer w))"
  note wp = assms [OF ok, of "fst (fst ?st)" "snd (fst ?st)" "snd ?st"]
  show "records w [] (snd (manager_prog d f w))"
  proof (cases "f (fst (fst ?st)) (snd (fst ?st)) (sl_manager (ag_outer w), snd ?st)")
    case (Some rs)
    obtain r m v where rs: "rs = (r, (m, v))" by (cases rs) auto
    have "grew (manager_of w) [] m" using wpD [OF wp] Some rs by (cases r) auto
    with w Some rs show ?thesis
      by (auto simp: manager_prog_def Let_def records_def attached_def upd_session_def session_first_def grew_def)
  qed (use w in \<open>simp add: manager_prog_def Let_def\<close>)
qed

section \<open>Listening to the agent\<close>

lemma recorded_not_compaction [simp]: "\<not> is_compaction (recorded m)"
  by (cases m) (simp_all add: recorded_def is_compaction_def)

lemma persist_entry:
  "persist_message d m = manager_op d (\<lambda>fresh tm mg.
     manager_append (sd_load d) (sd_append d) tm mg (new_entry None fresh tm mg (recorded m)))"
  by (cases m) (simp_all add: persist_message_def recorded_def append_message_def append_custom_def)

definition in_memory :: "(memory_store, 'v) session_deps \<Rightarrow> bool" where
  "in_memory d \<longleftrightarrow> sd_load d = memory_load \<and> sd_append d = memory_append"

lemma persist_cases:
  assumes "in_memory d" and "attached w"
  obtains (refused) x w' where "persist_message d m w = (Inl x, w')" "exn_class x \<noteq> CancelledError" "records w [] w'"
  | (accepted) e w' where "persist_message d m w = (Inr e, w')" "records w [recorded m] w'"
proof -
  let ?st = "sd_stamp d (sl_outer (ag_outer w))"
  have "memory.manager_ok (manager_of w)" using assms(2) by (simp add: attached_def)
  then show thesis
  proof (rule append_outcome [where tm = "snd (fst ?st)" and i = None and fresh = "fst (fst ?st)" and b = "recorded m"])
    fix x
    assume "exn_class x \<noteq> CancelledError" and "manager_append memory_load memory_append (snd (fst ?st)) (manager_of w)
       (new_entry None (fst (fst ?st)) (snd (fst ?st)) (manager_of w) (recorded m)) = (Inl x, manager_of w)"
    with assms show thesis
      by (intro refused [of x "upd_session (\<lambda>s. s\<lparr>sl_manager := manager_of w, sl_outer := snd ?st\<rparr>) w"])
         (simp_all add: persist_entry manager_op_def Let_def in_memory_def records_def attached_def
            upd_session_def session_first_def)
  next
    fix m'
    assume g: "grew (manager_of w) (filter (\<lambda>b. \<not> is_compaction b) [recorded m]) m'"
      and r: "manager_append memory_load memory_append (snd (fst ?st)) (manager_of w)
        (new_entry None (fst (fst ?st)) (snd (fst ?st)) (manager_of w) (recorded m)) =
          (Inr (new_entry None (fst (fst ?st)) (snd (fst ?st)) (manager_of w) (recorded m)), m')"
    from g r assms show thesis
      by (intro accepted [of "new_entry None (fst (fst ?st)) (snd (fst ?st)) (manager_of w) (recorded m)"
              "upd_session (\<lambda>s. s\<lparr>sl_manager := m', sl_outer := snd ?st\<rparr>) w"])
         (simp_all add: persist_entry manager_op_def Let_def in_memory_def records_def attached_def
            upd_session_def session_first_def grew_def)
  qed
qed

lemma records_failed:
  "records w bs w' \<Longrightarrow> records w cs (upd_session (\<lambda>s. s\<lparr>sl_persistence_error := Some e\<rparr>) w')"
  by (simp add: records_def attached_def upd_session_def session_first_def)

text \<open>Whatever a listener of the session raises: after a message ended, it is recorded or the failure
  is remembered.\<close>

lemma remembered_records:
  assumes "in_memory d" and "\<And>ev. quiet (emit_session d ev)" and "attached w"
  shows "records w [recorded m]
     (snd (remember_failure (and_then (persist_message d m) (\<lambda>e. emit_session d (EntryAppendedEvent e))) w))"
  using assms(1,3)
proof (cases rule: persist_cases [where m = m])
  case (refused x w')
  then show ?thesis by (simp add: remember_failure_def and_then_def records_failed [of w "[]"])
next
  case (accepted e w')
  obtain r w2 where ev: "emit_session d (EntryAppendedEvent e) w' = (r, w2)"
    by (cases "emit_session d (EntryAppendedEvent e) w'")
  have "records w [recorded m] w2"
    by (rule records_then [OF accepted(2) quietD [OF assms(2) records_attached [OF accepted(2)] ev]])
  with accepted(1) ev show ?thesis
    by (cases r) (simp_all add: remember_failure_def and_then_def records_failed [of w "[recorded m]"])
qed

lemma on_event_records:
  assumes "in_memory d" and "\<And>ev. quiet (emit_session d ev)" and "attached w"
  shows "records w (map recorded (ended_message ev)) (snd (on_agent_event d ev w))"
proof -
  define f where "f = (case ev of
      MessageEndEvent m \<Rightarrow>
        remember_failure (and_then (persist_message d m) (\<lambda>e. emit_session d (EntryAppendedEvent e)))
    | _ \<Rightarrow> pure ())"
  have first: "records w (map recorded (ended_message ev)) (snd (f w))"
    using remembered_records [OF assms] assms(3) by (cases ev) (simp_all add: f_def pure_def)
  obtain r w1 where fw: "f w = (r, w1)" by (cases "f w")
  have run: "on_agent_event d ev w = and_then f (\<lambda>_. emit_session d (AgentSessionEvent ev)) w"
    by (simp add: on_agent_event_def f_def)
  show ?thesis
  proof (cases r)
    case (Inr x)
    obtain r' w2 where g: "emit_session d (AgentSessionEvent ev) w1 = (r', w2)"
      by (cases "emit_session d (AgentSessionEvent ev) w1")
    have w1: "records w (map recorded (ended_message ev)) w1" using first fw by simp
    have "records w1 [] w2" by (rule quietD [OF assms(2) records_attached [OF w1] g])
    with w1 fw Inr g run show ?thesis by (simp add: and_then_def records_then)
  qed (use first fw run in \<open>simp add: and_then_def\<close>)
qed

text \<open>The agent hands an event to its listeners, the session first.\<close>

lemma dispatch_quiet:
  assumes "\<And>l. l \<in> set ls \<Longrightarrow> quiet (listener l ev)" and "attached w"
  shows "records w [] (snd (dispatch listener ev ls w))"
  using assms
proof (induction ls arbitrary: w)
  case (Cons l ls)
  obtain r w1 where f: "listener l ev w = (r, w1)" by (cases "listener l ev w")
  have w1: "records w [] w1" using quietD [OF Cons.prems(1) Cons.prems(2) f] by simp
  have noted: "records w [] (w1\<lparr>ag_listener_errors := es\<rparr>)" for es
    using w1 by (simp add: records_def attached_def session_first_def)
  have IH: "records w' [] (snd (dispatch listener ev ls w'))" if "records w [] w'" for w'
    using that Cons by (simp add: records_attached)
  show ?case
  proof (cases r)
    case (Inl e)
    with f w1 records_then [OF noted IH [OF noted]] show ?thesis by simp
  next
    case (Inr x)
    with f records_then [OF w1 IH [OF w1]] show ?thesis by simp
  qed
qed simp

lemma apply_event_same:
  "ag_outer (apply_event ev w) = ag_outer w" "ag_listeners (apply_event ev w) = ag_listeners w"
  by (cases "(ev, w)" rule: apply_event.cases; simp add: Let_def split: option.split)+

lemma process_event_records:
  assumes "in_memory d" and "session_safe d su" and "attached w"
  shows "records w (map recorded (ended_message ev)) (snd (process_event (session_setup d su) ev w))"
proof -
  let ?w = "apply_event ev w" and ?su = "session_setup d su" and ?bs = "map recorded (ended_message ev)"
  have emits: "quiet (emit_session d e)" for e
    using assms(2) by (intro quiet_emit) (simp add: session_safe_def)
  have w: "attached ?w" "records w [] ?w"
    using assms(3) by (simp_all add: attached_def records_def session_first_def apply_event_same apply_event_messages)
  obtain ls where ls: "ag_listeners ?w = 0 # ls" "0 \<notin> set ls"
    using w(1) by (auto simp: attached_def session_first_def)
  obtain sig where sig: "ag_signal w = Some sig" using assms(3) by (auto simp: attached_def)
  obtain r w1 where f: "on_agent_event d ev ?w = (r, w1)" by (cases "on_agent_event d ev ?w")
  have w1: "records w ?bs w1" using records_trans [OF w(2) on_event_records [OF assms(1) emits w(1), of ev]] f by simp
  have others: "quiet (su_listener ?su l ev)" if "l \<in> set ls" for l
    using that ls(2) assms(2) by (auto simp: session_setup_def session_safe_def intro: quiet_leaves)
  have noted: "records w ?bs (w1\<lparr>ag_listener_errors := es\<rparr>)" for es
    using w1 by (simp add: records_def attached_def session_first_def)
  have rest: "records w ?bs (snd (dispatch (su_listener ?su) ev ls w'))" if "records w ?bs w'" for w'
    by (rule records_then [OF that dispatch_quiet]) (use others records_attached [OF that] in auto)
  have "su_listener ?su 0 ev = on_agent_event d ev" by (simp add: session_setup_def)
  then show ?thesis
    using sig ls(1) f w1 rest [OF w1] rest [OF noted] by (cases r) (simp_all add: process_event_def Let_def)
qed

section \<open>Compacting between turns\<close>

lemma quiet_case_option:
  "(\<And>x. quiet (f x)) \<Longrightarrow> quiet g \<Longrightarrow> quiet (case v of None \<Rightarrow> g | Some x \<Rightarrow> f x)"
  by (cases v) simp_all

lemma quiet_if: "quiet f \<Longrightarrow> quiet g \<Longrightarrow> quiet (if b then f else g)"
  by simp

lemma quiet_over_threshold: "quiet (over_threshold d c)"
  unfolding over_threshold_def rebuilt_context_def by (intro quiet_and_then quiet_read) simp

lemma quiet_at: "(\<And>w. quiet (f w)) \<Longrightarrow> quiet (\<lambda>w. f w w)"
  by (simp add: quiet_def)

lemma quiet_prepare:
  assumes "in_memory d" and "session_safe d su"
  shows "quiet (prepare_next_turn_of d ct)"
proof -
  have emits: "quiet (emit_session d e)" for e
    using assms(2) by (intro quiet_emit) (simp add: session_safe_def)
  have ext: "quiet (f ct)" if "sd_external_prepare d = Some f" for f
    using that assms(2) by (intro quiet_leaves) (simp add: session_safe_def)
  have gate: "quiet (manager_prog d (\<lambda>fresh tm. prepare_next_provider_context (sd_load d) (sd_append d)
       fresh tm s f b a))" for s f b a
    using assms(1) gate_grew by (intro quiet_manager_prog) (auto simp: in_memory_def)
  have inner: "quiet (\<lambda>w. if \<not> sl_auto_compaction (ag_outer w) then (Inr external, w) else f w)"
    if "quiet f" for external :: "'b option" and f
    using that by (simp add: quiet_def)
  show ?thesis unfolding prepare_next_turn_of_def Let_def
    apply (rule quiet_and_then)
     apply (cases "sd_external_prepare d"; simp add: ext)
    apply (cases "sd_controller d")
     apply (simp add: quiet_def)
    apply simp
    apply (rule inner)
    apply (intro quiet_and_then quiet_over_threshold quiet_if quiet_frame gate emits quiet_case_option quiet_pure)
    done
qed

text \<open>What a call returns.\<close>

definition yields_only :: "('a \<Rightarrow> bool) \<Rightarrow> ('w, 'a) hook \<Rightarrow> bool" where
  "yields_only P f \<longleftrightarrow> (\<forall>w x. fst (f w) = Inr x \<longrightarrow> P x)"

lemma yields_and_then: "yields_only P f \<Longrightarrow> (\<And>x. P x \<Longrightarrow> yields_only Q (g x)) \<Longrightarrow> yields_only Q (and_then f g)"
  by (auto simp: yields_only_def and_then_def split: prod.splits sum.splits) (metis fst_conv)

lemma yields_any [simp]: "yields_only (\<lambda>_. True) f"
  by (simp add: yields_only_def)

lemma yields_pure [simp]: "yields_only P (pure x) = P x"
  by (simp add: yields_only_def pure_def)

lemma yields_frame: "yields_only P body \<Longrightarrow> yields_only P (compaction_frame d reason body)"
  by (auto simp: yields_only_def compaction_frame_def split: prod.splits sum.splits) (metis fst_conv)

lemma prepare_tools:
  assumes "\<And>f. sd_external_prepare d = Some f \<Longrightarrow>
      yields_only (\<lambda>u. \<forall>v ctx. u = Some v \<and> tu_context v = Some ctx \<longrightarrow> T (cx_tools ctx)) (f ct)"
    and "T (cx_tools (ct_context ct))"
  shows "yields_only (\<lambda>u. \<forall>v ctx. u = Some v \<and> tu_context v = Some ctx \<longrightarrow> T (cx_tools ctx)) (prepare_next_turn_of d ct)"
    (is "yields_only ?P _")
proof -
  have ext: "yields_only ?P (case sd_external_prepare d of None \<Rightarrow> pure None | Some f \<Rightarrow> f ct)"
    using assms(1) by (cases "sd_external_prepare d") simp_all
  have inner: "yields_only ?P (\<lambda>w. if \<not> sl_auto_compaction (ag_outer w) then (Inr external, w) else f w)"
    if "?P external" and "yields_only ?P f" for external f
    using that unfolding yields_only_def by simp blast
  show ?thesis unfolding prepare_next_turn_of_def Let_def
    apply (rule yields_and_then [OF ext])
    subgoal for external
      apply (cases "sd_controller d")
       apply (simp add: yields_only_def)
      apply simp
      apply (rule inner, simp)
      apply (rule yields_and_then [where P = "\<lambda>_. True"], simp)
      subgoal for c over
        apply (cases over)
         apply simp
         apply (rule yields_and_then [where P = "\<lambda>_. True"], simp)
         apply (rule yields_frame)
         apply (rule yields_and_then [where P = "\<lambda>_. True"], simp)
        subgoal for u decision
          apply (cases "dc_compacted decision")
           apply simp
           apply (rule yields_and_then [where P = "\<lambda>_. True"], simp)+
           apply (use assms(2) in \<open>auto split: option.split\<close>)
          done
        apply simp
        done
      done
    done
qed

section \<open>A run of the agent\<close>

definition follows :: "(memory_store, 'v) session_world world_rel" where
  "follows w t w' t' \<longleftrightarrow> (attached w \<longrightarrow>
     (\<exists>ms. ended_messages t' = ended_messages t @ ms \<and> records w (map recorded ms) w'))"

interpretation recording: run_relation follows
proof unfold_locales
  show "follows w t w t" for w :: "(memory_store, 'v) session_world" and t by (simp add: follows_def)
next
  fix w w' w'' :: "(memory_store, 'v) session_world" and t t' t''
  assume f: "follows w t w' t'" "follows w' t' w'' t''"
  show "follows w t w'' t''" unfolding follows_def
  proof
    assume "attached w"
    with f(1) obtain ms where ms: "ended_messages t' = ended_messages t @ ms" "records w (map recorded ms) w'"
      by (auto simp: follows_def)
    with f(2) obtain ns where "ended_messages t'' = ended_messages t' @ ns" "records w' (map recorded ns) w''"
      using records_attached by (auto simp: follows_def)
    with ms records_trans [OF ms(2), of "map recorded ns" w'']
    show "\<exists>ms. ended_messages t'' = ended_messages t @ ms \<and> records w (map recorded ms) w''"
      by (intro exI [of _ "ms @ ns"]) simp
  qed
qed

lemma quiet_follows: "records w [] w' \<Longrightarrow> follows w t w' t"
  by (auto simp: follows_def intro: exI [of _ "[]"])

lemma leaves_follows: "\<forall>w t w'. leaves_session w t w' t \<longrightarrow> follows w t w' t"
  using leaves_records by (auto simp: follows_def intro!: exI [of _ "[]"])

lemma quiet_respects: "quiet f \<Longrightarrow> hook_respects follows f"
  by (auto simp: hook_respects_def quiet_def follows_def intro!: exI [of _ "[]"])

lemma drains_leave_session:
  assumes "config_respects leaves_session (su_config su)"
  shows "hook_respects leaves_session (drain_steering su)" "hook_respects leaves_session (drain_follow_up su)"
proof -
  have ext: "leaves_session w t (snd (with_external k ms w)) t"
    if "\<And>h. k = Some h \<Longrightarrow> hook_respects leaves_session h" for k ms w t
  proof (cases k)
    case (Some h)
    with that have "leaves_session w t (snd (h w)) t" by (simp add: hook_respects_def)
    with Some show ?thesis by (auto simp: with_external_def split: prod.split sum.split)
  qed (simp add: with_external_def leaves_session_def)
  have same: "leaves_session w t (snd (with_external (cf_get_steering_messages (su_config su)) ms (w\<lparr>ag_steering := q\<rparr>))) t"
    "leaves_session w t (snd (with_external (cf_get_follow_up_messages (su_config su)) ms (w\<lparr>ag_follow_up := q\<rparr>))) t"
    for w t ms q
    using ext [OF config_respectsD(4) [OF assms], of _ "w\<lparr>ag_steering := q\<rparr>"]
      ext [OF config_respectsD(5) [OF assms], of _ "w\<lparr>ag_follow_up := q\<rparr>"]
    by (simp_all add: leaves_session_def session_first_def)
  then show "hook_respects leaves_session (drain_steering su)" "hook_respects leaves_session (drain_follow_up su)"
    by (simp_all add: hook_respects_def drain_steering_def drain_follow_up_def case_prod_beta)
qed

lemma session_run_respects:
  assumes "in_memory d" and "session_safe d su"
  shows "env_respects follows (run_environment (session_setup d su))"
    "config_respects follows (run_config (session_setup d su))"
    "tools_respect follows (run_context (session_setup d su) w)"
proof -
  let ?su = "session_setup d su"
  have safe: "hook_respects leaves_session (ev_stream_fn (su_env su) m c so)"
    "hook_respects leaves_session (\<lambda>w. (Inr (), snd (ev_clock (su_env su) w)))"
    "config_respects leaves_session (su_config su)" "cf_prepare_next_turn (su_config su) = None"
    "\<forall>tool \<in> set (su_tools su). tool_respects leaves_session tool" for m c so
    using assms(2) by (simp_all add: session_safe_def)
  note mono = hook_mono [of leaves_session follows, OF leaves_follows]
    respects_mono [of leaves_session follows, OF leaves_follows]
  have event: "follows w t (snd (process_event ?su ev w)) (t @ [ev])" for ev w t
    using process_event_records [OF assms] by (auto simp: follows_def)
  have clock: "follows w t (snd (ev_clock (su_env su) w)) t" for w t
    using safe(2) by (auto simp: hook_respects_def intro: leaves_follows [rule_format])
  show "env_respects follows (run_environment ?su)"
    using clock mono(1) [OF safe(1)] event
    by (simp add: env_respects_def run_environment_def sink_world_def session_setup_def)
  have tools: "tools_respect follows ctx" if "tools_respect leaves_session ctx" for ctx
    using that by (rule mono(3))
  have leaves: "config_respects leaves_session (run_config su)"
    using safe(3,4) drains_leave_session [OF safe(3)]
    by (simp add: config_respects_def updates_respect_def run_config_def)
  have base: "config_respects follows (run_config su)"
    by (rule mono(5) [OF leaves]) (simp add: updates_respect_def run_config_def safe(4))
  have drains: "drain_steering ?su = drain_steering su" "drain_follow_up ?su = drain_follow_up su"
    by (simp_all add: fun_eq_iff drain_steering_def drain_follow_up_def session_setup_def)
  have cfg: "run_config ?su = (run_config su)\<lparr>cf_prepare_next_turn := Some (prepare_next_turn_of d)\<rparr>"
    by (simp add: run_config_def session_setup_def drains drain_steering_def [abs_def] drain_follow_up_def [abs_def])
  have updates: "updates_respect follows ((run_config su)\<lparr>cf_prepare_next_turn := Some (prepare_next_turn_of d)\<rparr>) ct"
    if ct: "tools_respect follows (ct_context ct)" for ct
  proof -
    have "yields_only (\<lambda>u. \<forall>v ctx. u = Some v \<and> tu_context v = Some ctx \<longrightarrow>
        (\<forall>tool \<in> set (cx_tools ctx). tool_respects follows tool)) (prepare_next_turn_of d ct)"
    proof (rule prepare_tools)
      fix f assume f: "sd_external_prepare d = Some f"
      have "tools_respect follows ctx" if "fst (f ct w) = Inr (Some u)" "tu_context u = Some ctx" for w u ctx
        using that f assms(2) by (intro tools) (auto simp: session_safe_def)
      then show "yields_only (\<lambda>u. \<forall>v ctx. u = Some v \<and> tu_context v = Some ctx \<longrightarrow>
          (\<forall>tool \<in> set (cx_tools ctx). tool_respects follows tool)) (f ct)"
        by (auto simp: yields_only_def tools_respect_def)
    qed (use ct in \<open>simp add: tools_respect_def\<close>)
    then show ?thesis by (auto simp: updates_respect_def yields_only_def tools_respect_def)
  qed
  have prep: "hook_respects follows (prepare_next_turn_of d ct)" for ct
    by (rule quiet_respects [OF quiet_prepare [OF assms]])
  show "config_respects follows (run_config ?su)"
    unfolding cfg using base prep updates
    by (simp add: config_respects_def)
  show "tools_respect follows (run_context ?su w)"
    using safe(5) mono(2) by (auto simp: tools_respect_def run_context_def session_setup_def)
qed

lemma session_run_records:
  assumes "in_memory d" and "session_safe d su"
    and "memory.manager_ok (manager_of w)" and "session_first w"
    and "agent_run fuel (session_setup d su) prompts w = Some (r, s)"
  shows "records w (map recorded (ended_messages (rs_trace s))) (rs_world s)"
proof -
  let ?s = "start_state (enter_run w) (run_context (session_setup d su) (enter_run w)) prompts prompts"
  have "follows (rs_world ?s) (rs_trace ?s) (rs_world s) (rs_trace s)"
    by (rule recording.run_guarded_respects [OF session_run_respects(1,2) [OF assms(1,2)]])
       (use assms(5) session_run_respects(3) [OF assms(1,2)] in
         \<open>auto simp: agent_run_def agent_loop_def start_state_def tools_respect_def\<close>)
  moreover have "attached (enter_run w)" using assms(3,4) by (simp add: attached_def enter_run_def session_first_def)
  ultimately show ?thesis by (auto simp: follows_def start_state_def enter_run_def records_def)
qed

section \<open>Entering and leaving a run\<close>

lemma leaves_emit:
  assumes "session_safe d su"
  shows "leaves_session w t (snd (emit_session d ev w)) t"
proof -
  have "leaves_session w t (snd (emit_to d ev ls w)) t" for ls
  proof (induction ls arbitrary: w)
    case (Cons l ls)
    obtain r w1 where f: "sd_listener d l ev w = (r, w1)" by (cases "sd_listener d l ev w")
    have "hook_respects leaves_session (sd_listener d l ev)" using assms by (simp add: session_safe_def)
    then have "leaves_session w t w1 t" using f unfolding hook_respects_def by (metis snd_conv)
    with f Cons [of w1] show ?case by (cases r) (auto simp: and_then_def leaves_session_def)
  qed (simp add: pure_def leaves_session_def)
  then show ?thesis by (simp add: emit_session_def)
qed

text \<open>The world in which the agent is started.\<close>

definition synced :: "('s, 'v) session_deps \<Rightarrow> ('s, 'v) session_world \<Rightarrow> ('s, 'v) session_world" where
  "synced d w = snd (and_then (sync_agent_context d) (\<lambda>_. forget_failure) w)"

lemma rebuilt_same:
  "rebuilt_context d h w = (r, w') \<Longrightarrow> manager_of w' = manager_of w \<and> failure_of w' = failure_of w \<and>
     ag_listeners w' = ag_listeners w \<and> ag_is_streaming w' = ag_is_streaming w"
  by (auto simp: rebuilt_context_def manager_op_def Let_def upd_session_def)

lemma synced_same:
  "manager_of (synced d w) = manager_of w \<and> ag_listeners (synced d w) = ag_listeners w \<and>
     ag_is_streaming (synced d w) = ag_is_streaming w"
proof -
  obtain r w1 where b: "rebuilt_context d DEFAULT_COMPACTION_PREFIX w = (r, w1)"
    by (cases "rebuilt_context d DEFAULT_COMPACTION_PREFIX w")
  show ?thesis using rebuilt_same [OF b] b
    by (cases r)
       (simp_all add: synced_def sync_agent_context_def and_then_def replace_transcript_def ensure_idle_def
          forget_failure_def upd_session_def split: prod.splits sum.splits if_splits)
qed

lemma session_first_cong: "ag_listeners w' = ag_listeners w \<Longrightarrow> session_first w' = session_first w"
  by (simp add: session_first_def)

lemma settle_run_cases:
  assumes "session_safe d su" and "settle_run d ms w = (r, w')"
  shows "manager_of w' = manager_of w \<and>
     (case failure_of w of
        Some e \<Rightarrow> r = Inl (Exn RuntimeError (''session persistence failed: '' @ exn_text e))
      | None \<Rightarrow> (\<forall>x. r = Inr x \<longrightarrow> fst x = ms \<and> hr_new_messages (snd x) = ms \<and>
          (\<exists>tr. active_messages (manager_of w') = Inr tr \<and> hr_transcript (snd x) = map LlmMsg tr)))"
proof (cases "failure_of w")
  case None
  obtain r1 w1 where e: "emit_session d AgentSettledEvent w = (r1, w1)" by (cases "emit_session d AgentSettledEvent w")
  have "manager_of w1 = manager_of w" using leaves_emit [OF assms(1), of w "[]" AgentSettledEvent] e by (simp add: leaves_session_def)
  with None e assms(2) show ?thesis
    by (cases r1; cases "active_messages (manager_of w)")
       (auto simp: settle_run_def raise_persistence_error_def and_then_def run_result_def manager_read_def
          pure_def build_harness_result_def Let_def)
qed (use assms(2) in \<open>auto simp: settle_run_def raise_persistence_error_def and_then_def upd_session_def\<close>)

section \<open>How a run ends\<close>

text \<open>A run whose loop raised, and the message that reports it.\<close>

definition run_fails where
  "run_fails fuel su prompts w e t \<longleftrightarrow>
     run_loop fuel (run_environment su) (run_config su) prompts False
       (start_state (enter_run w) (run_context su (enter_run w)) prompts prompts) = Some (Inl e, t)"

definition reports_failure :: "assistant_message \<Rightarrow> exn \<Rightarrow> bool" where
  "reports_failure a e \<longleftrightarrow> am_content a = [] \<and>
     (if exn_class e = CancelledError
      then am_stop_reason a = JStr ''aborted'' \<and>
        am_error_message a = JStr (if exn_text e = [] then ''Operation aborted'' else exn_text e)
      else am_stop_reason a = JStr ''error'' \<and> am_error_message a = JStr (exn_text e))"

lemma agrees_finish:
  "agrees (finish_after_loop_failure env m reason msg) (finish_after_loop_failure (hush env) m reason msg)"
  unfolding finish_after_loop_failure_def Let_def by (intro agrees_intros agrees_emit agrees_refl) simp_all

lemma finish_trace:
  assumes "finish_after_loop_failure env m reason msg s = Some (Inr (), s')"
  shows "\<exists>t. ended_messages (rs_trace s') =
     ended_messages (rs_trace s) @ [asst (failure_message m reason msg t)]"
proof -
  have "wp (finish_after_loop_failure (hush env) m reason msg)
     (\<lambda>_ s'. \<exists>t. ended_messages (rs_trace s') =
        ended_messages (rs_trace s) @ [asst (failure_message m reason msg t)]) (\<lambda>_ _. False) s"
    unfolding finish_after_loop_failure_def Let_def
    by (auto simp: wp_simps ended_messages_def split: prod.split intro!: wp_emit_quiet [OF hush_quiet]) blast
  moreover have "finish_after_loop_failure (hush env) m reason msg s = Some (Inr (), s')"
    using agrees_finish assms unfolding agrees_def by blast
  ultimately show ?thesis by (simp add: wp_def)
qed

lemma failed_agent_run:
  assumes "run_fails fuel su prompts w e t" and "agent_run fuel su prompts w = Some (Inr (), s)"
  shows "\<exists>a. reports_failure a e \<and> ended_messages (rs_trace s) = ended_messages (rs_trace t) @ [asst a]"
proof -
  let ?env = "run_environment su" and ?m = "cf_model (run_config su)"
  obtain s1 where s1: "rs_trace s = rs_trace s1"
    "(if exn_class e = CancelledError then finish_after_loop_failure ?env ?m ''aborted'' (aborted_text e)
      else finish_after_loop_failure ?env ?m ''error'' (exn_text e)) t = Some (Inr (), s1)"
    using assms(2) assms(1) [unfolded run_fails_def]
    by (auto simp: agent_run_def agent_loop_def run_guarded_def catch_def split: option.splits prod.splits if_splits)
  show ?thesis
  proof (cases "exn_class e = CancelledError")
    case True
    with finish_trace [of ?env ?m "''aborted''" "aborted_text e" t s1] s1 show ?thesis
      by (auto simp: reports_failure_def failure_message_def aborted_text_def)
  next
    case False
    with finish_trace [of ?env ?m "''error''" "exn_text e" t s1] s1 show ?thesis
      by (auto simp: reports_failure_def failure_message_def)
  qed
qed

text \<open>What a run of the prompts \<open>ps\<close> that ended in \<open>s\<close> and returned \<open>ms\<close> has announced: exactly the
  messages it returned, the prompts first, if its loop did not raise; otherwise at last the message
  that reports the failure (unless a listener raised on the way, so that the run itself raised).\<close>

definition run_account where
  "run_account fuel su ps w r s ms \<longleftrightarrow>
     (\<forall>t. run_succeeds fuel su ps w t \<longrightarrow> ended_messages (rs_trace s) = ms \<and> take (length ps) ms = ps) \<and>
     (\<forall>e t. run_fails fuel su ps w e t \<longrightarrow> r = Inr () \<longrightarrow>
        (\<exists>a. reports_failure a e \<and> ended_messages (rs_trace s) = ended_messages (rs_trace t) @ [asst a]))"

lemma run_accounted:
  assumes "well_formed_provider (su_env su)"
    and "agent_run fuel su ps w = Some (r, s)" and "es_result (rs_stream s) = Some ms"
  shows "run_account fuel su ps w r s ms"
proof -
  have "ended_messages (rs_trace s) = ms \<and> take (length ps) ms = ps" if "run_succeeds fuel su ps w t" for t
  proof -
    have wf: "well_formed_provider (run_environment su)"
      using assms(1) by (simp add: well_formed_provider_def run_environment_def)
    note clean = clean_run [OF wf that [unfolded run_succeeds_def]]
    have "rs_trace s = rs_trace t" "rs_stream s = stream_end None (rs_stream t)"
      using clean_agent_run [OF that] assms(2) by auto
    then show ?thesis using clean stream_end_result [OF clean(3)] assms(3) by auto
  qed
  then show ?thesis
    unfolding run_account_def using failed_agent_run assms(2) by blast
qed

text \<open>C39: A prompt is recorded or refused loudly, however its run ends.  When an idle, open in-memory
  session whose context can be rebuilt gets a prompt of at least one message (with images only if
  the model accepts them) and the call comes back, the agent has run, and either a write had failed
  and the call raises that failure, or the active branch of the session, compaction entries aside,
  has gained exactly one entry for every message whose end the run announced, in order.  These are
  the messages of the run, prompts first, if it did not fail, and end with the message that reports
  the failure if it did.  The session is sound, its history was only added to, and a result that is
  returned holds exactly the messages the run returned.  The conditions on the clients: tools, hooks
  and listeners do not write to the session themselves or detach it from the agent
  (\<open>session_safe\<close>), and the session listens to the agent first.\<close>

theorem session_prompt_records:
  assumes "in_memory d" and "session_safe d su" and "well_formed_provider (su_env su)"
    and "memory.manager_ok (manager_of w)" and "session_first w" and "\<not> ag_is_streaming w"
    and "session_prompt fuel d (session_setup d su) p images b t w = Some (r, w')"
    and "fst (and_then (sync_agent_context d) (\<lambda>_. forget_failure) w) = Inr ()"
    and "prompt_messages p images t \<noteq> []" and "images = [] \<or> ''image'' \<in> set (md_input (su_model su))"
    and "\<not> sl_closed (ag_outer w)"
  shows "memory.manager_ok (manager_of w') \<and> prefix (history (manager_of w)) (history (manager_of w')) \<and>
     (\<exists>ar s ms. agent_run fuel (session_setup d su) (prompt_messages p images t) (synced d w) = Some (ar, s) \<and>
        es_result (rs_stream s) = Some ms \<and>
        run_account fuel (session_setup d su) (prompt_messages p images t) (synced d w) ar s ms \<and>
        (case failure_of (rs_world s) of
           Some e \<Rightarrow> r = Inl (Exn RuntimeError (''session persistence failed: '' @ exn_text e))
         | None \<Rightarrow>
             conversation (manager_of w') =
               conversation (manager_of w) @ map recorded (ended_messages (rs_trace s)) \<and>
             (\<forall>x. r = Inr x \<longrightarrow> fst x = ms \<and> hr_new_messages (snd x) = ms \<and>
               (\<exists>tr. active_messages (manager_of w') = Inr tr \<and> hr_transcript (snd x) = map LlmMsg tr))))"
proof -
  let ?su = "session_setup d su" and ?w = "synced d w" and ?ps = "prompt_messages p images t"
  have wf: "well_formed_provider (su_env ?su)" using assms(3) by (simp add: session_setup_def)
  note same = synced_same [of d w]
  have enter: "and_then (sync_agent_context d) (\<lambda>_. forget_failure) w = (Inr (), ?w)"
    using assms(8) by (metis synced_def prod.collapse)
  have started: "prompt fuel ?su p images t ?w = start_run fuel ?su ?ps False ?w"
    using assms(9) by (simp add: prompt_def Let_def)
  have accepts: "\<not> (images \<noteq> [] \<and> ''image'' \<notin> set (md_input (su_model ?su)))"
    using assms(10) by (simp add: session_setup_def)
  have "session_prompt fuel d ?su p images b t w = session_run_agent d (start_run fuel ?su ?ps False) w"
    unfolding session_prompt_def using assms(6,11) accepts
    by (simp only: if_False simp_thms) (simp add: session_run_agent_def enter started)
  with assms(7) obtain ms v where v: "start_run fuel ?su ?ps False ?w = Some (Inr ms, v)"
      and settled: "settle_run d ms v = (r, w')"
    using same assms(6) by (auto simp: session_run_agent_def enter start_run_def Let_def await_run_def split: option.splits)
  from v obtain ar s where s: "agent_run fuel ?su ?ps ?w = Some (ar, s)" "es_result (rs_stream s) = Some ms"
      "v = leave_run (rs_world s)" by (rule start_run_cases)
  note account = run_accounted [OF wf s(1,2)]
  have rec: "records ?w (map recorded (ended_messages (rs_trace s))) (rs_world s)"
    using session_run_records [OF assms(1,2) _ _ s(1)] same assms(4,5) session_first_cong [of ?w w] by simp
  have outer: "ag_outer v = ag_outer (rs_world s)" using s(3) by (simp add: leave_run_def)
  note ended = settle_run_cases [OF assms(2) settled]
  with outer have mgr: "manager_of w' = manager_of (rs_world s)" by simp
  have at: "attached (rs_world s)" "prefix (history (manager_of ?w)) (history (manager_of (rs_world s)))"
    and grown: "failure_of (rs_world s) = None \<longrightarrow> conversation (manager_of (rs_world s)) =
      conversation (manager_of ?w) @ map recorded (ended_messages (rs_trace s))"
    using rec unfolding records_def by blast+
  have base: "manager_of ?w = manager_of w" using same by blast
  have fine: "memory.manager_ok (manager_of w')" "prefix (history (manager_of w)) (history (manager_of w'))"
    using at unfolding mgr base attached_def by blast+
  have gained: "conversation (manager_of w') = conversation (manager_of w) @ map recorded (ended_messages (rs_trace s))"
    if "failure_of (rs_world s) = None" using grown that unfolding mgr base by blast
  show ?thesis
  proof (intro conjI fine exI [of _ ar] exI [of _ s] exI [of _ ms] s(1,2) account)
    show "case failure_of (rs_world s) of
           Some e \<Rightarrow> r = Inl (Exn RuntimeError (''session persistence failed: '' @ exn_text e))
         | None \<Rightarrow>
             conversation (manager_of w') =
               conversation (manager_of w) @ map recorded (ended_messages (rs_trace s)) \<and>
             (\<forall>x. r = Inr x \<longrightarrow> fst x = ms \<and> hr_new_messages (snd x) = ms \<and>
               (\<exists>tr. active_messages (manager_of w') = Inr tr \<and> hr_transcript (snd x) = map LlmMsg tr))"
    proof (cases "failure_of (rs_world s)")
      case None
      show ?thesis using ended [THEN conjunct2] gained [OF None] unfolding outer None option.case by blast
    next
      case (Some e)
      show ?thesis using ended [THEN conjunct2] unfolding outer Some option.case .
    qed
  qed
qed

section \<open>Moving between branches\<close>

text \<open>The last change of model and of thinking level on a path, and what the agent uses then: the
  model with exactly that provider and identifier if the registry holds one, else the model it had
  before; the level if it is \<^verbatim>\<open>off\<close> or the model reasons and the level is a known one, else
  \<^verbatim>\<open>off\<close>.\<close>

definition last_model_change :: "tree_entry list \<Rightarrow> string \<Rightarrow> string \<Rightarrow> bool" where
  "last_model_change es p i \<longleftrightarrow> (\<exists>pre e post. es = pre @ e # post \<and> e_body e = ModelChangeEntry p i \<and>
     (\<forall>x \<in> set post. \<forall>q j. e_body x \<noteq> ModelChangeEntry q j))"

definition last_level_change :: "tree_entry list \<Rightarrow> string \<Rightarrow> bool" where
  "last_level_change es l \<longleftrightarrow> (\<exists>pre e post. es = pre @ e # post \<and> e_body e = ThinkingLevelChangeEntry l \<and>
     (\<forall>x \<in> set post. \<forall>k. e_body x \<noteq> ThinkingLevelChangeEntry k))"

definition in_registry :: "model list option \<Rightarrow> string \<Rightarrow> string \<Rightarrow> model \<Rightarrow> bool" where
  "in_registry models p i m \<longleftrightarrow> (\<exists>ms. models = Some ms \<and> m \<in> set ms \<and> md_provider m = p \<and> md_id m = i)"

definition shows_model :: "tree_entry list \<Rightarrow> model list option \<Rightarrow> model \<Rightarrow> model \<Rightarrow> bool" where
  "shows_model es models before m \<longleftrightarrow>
     (if \<exists>p i x. last_model_change es p i \<and> p \<noteq> [] \<and> i \<noteq> [] \<and> in_registry models p i x
      then \<exists>p i. last_model_change es p i \<and> in_registry models p i m
      else m = before)"

definition shows_level :: "tree_entry list \<Rightarrow> model \<Rightarrow> string \<Rightarrow> bool" where
  "shows_level es m l \<longleftrightarrow>
     (if \<exists>k. last_level_change es k \<and> (k = ''off'' \<or>
           md_reasoning m \<and> k \<in> {''minimal'', ''low'', ''medium'', ''high'', ''xhigh'', ''max''})
      then last_level_change es l else l = ''off'')"

text \<open>The agent shows the branch of its session: its messages are the context reconstructed from it,
  and its model and level are those of the last changes on the branch, as far as they are available.\<close>

definition shows_branch ::
  "('s, 'v) session_deps \<Rightarrow> model \<Rightarrow> ('s, 'v) agent_session \<Rightarrow> bool" where
  "shows_branch d before s' \<longleftrightarrow> (\<exists>p r tm. active_path (m_tree (manager_of (snd s'))) = Inr p \<and>
     reconstruct_context p DEFAULT_COMPACTION_PREFIX DEFAULT_BRANCH_SUMMARY_PREFIX tm = Inr r \<and>
     ag_messages (snd s') = map LlmMsg (rc_messages r) \<and>
     shows_model (p_entries p) (sd_models d) before (su_model (fst s')) \<and>
     shows_level (p_entries p) (su_model (fst s')) (su_thinking_level (fst s')))"

lemma last_model_change_Nil [simp]: "\<not> last_model_change [] p i"
  by (simp add: last_model_change_def)

lemma last_level_change_Nil [simp]: "\<not> last_level_change [] l"
  by (simp add: last_level_change_def)

lemma split_snoc:
  "(\<exists>pre x post. es @ [e] = pre @ x # post \<and> P x \<and> (\<forall>y \<in> set post. \<not> Q y)) \<longleftrightarrow>
     P e \<or> \<not> Q e \<and> (\<exists>pre x post. es = pre @ x # post \<and> P x \<and> (\<forall>y \<in> set post. \<not> Q y))" (is "?l \<longleftrightarrow> ?r")
proof
  assume ?l
  then obtain pre x post where s: "es @ [e] = pre @ x # post" "P x" "\<forall>y \<in> set post. \<not> Q y" by blast
  then show ?r
  proof (cases post rule: rev_cases)
    case (snoc post' z)
    with s have "es = pre @ x # post'" "z = e" by simp_all
    with s snoc show ?thesis by auto
  qed auto
next
  assume ?r
  then show ?l
  proof
    assume "P e"
    then show ?l by (intro exI [of _ es] exI [of _ e] exI [of _ "[]"]) simp
  next
    assume "\<not> Q e \<and> (\<exists>pre x post. es = pre @ x # post \<and> P x \<and> (\<forall>y \<in> set post. \<not> Q y))"
    then obtain pre x post where s: "\<not> Q e" "es = pre @ x # post" "P x" "\<forall>y \<in> set post. \<not> Q y" by blast
    then show ?l by (intro exI [of _ pre] exI [of _ x] exI [of _ "post @ [e]"]) auto
  qed
qed

lemma last_model_change_snoc: "last_model_change (es @ [e]) p i \<longleftrightarrow>
    e_body e = ModelChangeEntry p i \<or> (\<forall>q j. e_body e \<noteq> ModelChangeEntry q j) \<and> last_model_change es p i"
  using split_snoc [of es e "\<lambda>x. e_body x = ModelChangeEntry p i" "\<lambda>x. \<exists>q j. e_body x = ModelChangeEntry q j"]
  by (simp add: last_model_change_def)

lemma last_level_change_snoc: "last_level_change (es @ [e]) l \<longleftrightarrow>
    e_body e = ThinkingLevelChangeEntry l \<or> (\<forall>k. e_body e \<noteq> ThinkingLevelChangeEntry k) \<and> last_level_change es l"
  using split_snoc [of es e "\<lambda>x. e_body x = ThinkingLevelChangeEntry l" "\<lambda>x. \<exists>k. e_body x = ThinkingLevelChangeEntry k"]
  by (simp add: last_level_change_def)

lemma settings_last_changes:
  "settings_of es = (prov, mid, lvl, lc) \<Longrightarrow>
     (\<forall>p i. last_model_change es p i \<longleftrightarrow> prov = Some p \<and> mid = Some i) \<and>
     (\<forall>l. last_level_change es l \<longleftrightarrow> lvl = Some l)"
proof (induction es arbitrary: prov mid lvl lc rule: rev_induct)
  case Nil
  then show ?case by (simp add: settings_of_def)
next
  case (snoc e es)
  obtain q j k c where st: "settings_of es = (q, j, k, c)" by (metis prod_cases4)
  from snoc.IH [OF st] snoc.prems show ?case
    by (auto simp: settings_of_snoc settings_step_def st last_model_change_snoc last_level_change_snoc
        split: entry_body.splits)
qed

lemma reconstruct_settings:
  assumes "reconstruct_context p h b tm = Inr r"
  shows "(\<forall>q i. last_model_change (p_entries p) q i \<longleftrightarrow> rc_model_provider r = Some q \<and> rc_model_id r = Some i) \<and>
     (\<forall>l. last_level_change (p_entries p) l \<longleftrightarrow> rc_thinking_level r = Some l)"
proof -
  obtain prov mid lvl lc where st: "settings_of (p_entries p) = (prov, mid, lvl, lc)" by (metis prod_cases4)
  have "rc_model_provider r = prov \<and> rc_model_id r = mid \<and> rc_thinking_level r = lvl"
    using assms by (auto simp: reconstruct_context_def st bindE_eq_Inr Let_def)
  with settings_last_changes [OF st] show ?thesis by simp
qed

lemma restored_model_shown:
  assumes "reconstruct_context p h b tm = Inr r"
  shows "shows_model (p_entries p) (sd_models d) before
     (case restored_model d r of Some m \<Rightarrow> m | None \<Rightarrow> before)"
  using reconstruct_settings [OF assms]
  by (auto simp: shows_model_def in_registry_def restored_model_def find_None_iff find_Some_iff
      split: option.splits dest: nth_mem)

lemma restored_level_shown:
  assumes "reconstruct_context p h b tm = Inr r"
  shows "shows_level (p_entries p) m (restored_level r m)"
  using reconstruct_settings [OF assms]
  by (auto simp: shows_level_def restored_level_def available_levels_def split: option.split)

lemma rebuilt_context_ok:
  assumes "rebuilt_context d h w = (Inr r, w')"
  shows "manager_of w' = manager_of w \<and> (\<exists>p tm. active_path (m_tree (manager_of w)) = Inr p \<and>
     reconstruct_context p h DEFAULT_BRANCH_SUMMARY_PREFIX tm = Inr r)"
proof -
  let ?st = "sd_stamp d (sl_outer (ag_outer w))"
  have "bindE (active_path (m_tree (manager_of w))) (\<lambda>p. reconstruct_context p h DEFAULT_BRANCH_SUMMARY_PREFIX (snd (fst ?st))) = Inr r"
    and "manager_of w' = manager_of w"
    using assms by (auto simp: rebuilt_context_def manager_op_def Let_def upd_session_def)
  then show ?thesis unfolding bindE_eq_Inr by blast
qed

lemma restore_branch_ok:
  assumes "restore_branch d s = (Inr (), s')"
  shows "manager_of (snd s') = manager_of (snd s) \<and> shows_branch d (su_model (fst s)) s'"
  using assms unfolding restore_branch_def
proof (cases rule: and_then_elim)
  case (both r s1)
  obtain w1 where b: "rebuilt_context d DEFAULT_COMPACTION_PREFIX (snd s) = (Inr r, w1)" "s1 = (fst s, w1)"
    using both(1) by (cases "rebuilt_context d DEFAULT_COMPACTION_PREFIX (snd s)") (auto simp: on_world_def Let_def)
  note built = rebuilt_context_ok [OF b(1)]
  from both(2) show ?thesis
  proof (cases rule: and_then_elim)
    case models: (both x s2)
    have s2: "snd s2 = w1" "su_model (fst s2) = (case restored_model d r of Some m \<Rightarrow> m | None \<Rightarrow> su_model (fst s))"
      using models(1) b(2)
      by (auto simp: pure_def with_agent_def set_model_def when_idle_def ensure_idle_def split: option.splits if_splits)
    from models(2) show ?thesis
    proof (cases rule: and_then_elim)
      case level: (both y s3)
      have s3: "snd s3 = w1" "su_model (fst s3) = su_model (fst s2)"
        "su_thinking_level (fst s3) = restored_level r (su_model (fst s2))"
        using level(1) s2(1) by (auto simp: with_agent_def Agent.set_thinking_level_def when_idle_def ensure_idle_def split: if_splits)
      have fin: "fst s' = fst s3" "ag_messages (snd s') = map LlmMsg (rc_messages r)" "manager_of (snd s') = manager_of w1"
        using level(2) s3(1) by (auto simp: on_world_def Let_def replace_transcript_def ensure_idle_def split: if_splits)
      show ?thesis unfolding shows_branch_def using built s2 s3 fin restored_model_shown restored_level_shown
        by (metis (no_types, lifting))
    qed simp
  qed simp
qed simp

lemma session_idle_same: "ensure_session_idle a w = (r, w') \<Longrightarrow> w' = w"
  by (auto simp: ensure_session_idle_def ensure_open_def and_then_def split: sum.splits if_splits)

text \<open>C40: Navigating an in-memory session to an entry, or before the first one, succeeds only if the entry
  exists; then the session is sound with its leaf there, its records gained the cursor, and the agent
  shows exactly that branch: its messages are the context reconstructed from the branch; its model is
  the registry's model with the provider and the identifier of the last model change on the branch,
  or stays as it was if there is none; its level is that of the last level change on the branch if
  the model has it, else \<^verbatim>\<open>off\<close>.\<close>

theorem navigate_rebuilds_agent:
  assumes "in_memory d" and "memory.manager_ok (manager_of (snd s))"
    and "navigate_tree d i False s = (Inr (), s')"
  shows "memory.manager_ok (manager_of (snd s')) \<and> known (t_entries (m_tree (manager_of (snd s)))) i \<and>
     manager_leaf_id (manager_of (snd s')) = i \<and>
     (\<exists>tm. history (manager_of (snd s')) = history (manager_of (snd s)) @ [CursorRecord i tm]) \<and>
     shows_branch d (su_model (fst s)) s'"
  using assms(3) unfolding navigate_tree_def
proof (cases rule: and_then_elim)
  case (both x s1)
  have s1: "s1 = s" using both(1) session_idle_same [of "''navigate session tree''" "snd s"]
    by (auto simp: on_world_def Let_def) (metis prod.collapse)
  from both(2) show ?thesis
  proof (cases rule: and_then_elim)
    case nav: (both y s2)
    let ?m = "manager_of (snd s)" and ?st = "sd_stamp d (sl_outer (ag_outer (snd s)))"
    from nav(1) s1 obtain m' where
      m': "navigate memory_load memory_append (snd (fst ?st)) ?m i True = (Inr (), m')"
      "fst s2 = fst s" "manager_of (snd s2) = m'"
      using assms(1)
      by (cases "navigate memory_load memory_append (snd (fst ?st)) ?m i True")
         (auto simp: on_world_def Let_def manager_op_def upd_session_def in_memory_def)
    have known: "known (t_entries (m_tree ?m)) i"
      using memory.navigate_ok [OF assms(2) TrueI, of i "snd (fst ?st)" True] m'(1) by (auto split: if_splits)
    then have "memory.manager_ok m' \<and> manager_leaf_id m' = i \<and> history m' = history ?m @ [CursorRecord i (snd (fst ?st))]"
      using memory.navigate_ok [OF assms(2) TrueI, of i "snd (fst ?st)" True] m'(1) by (auto simp: history_def)
    with known restore_branch_ok [OF nav(2)] m' show ?thesis by auto
  qed simp
qed simp

text \<open>A closed session, or one that is running or compacting, refuses to change its model, level, name,
  branch or session, and the refusal changes nothing.\<close>

theorem busy_session_refuses:
  assumes "sl_closed (ag_outer (snd s)) \<or> ag_is_streaming (snd s) \<or> sl_is_compacting (ag_outer (snd s))"
  shows "(\<exists>e. session_set_model d m s = (Inl e, s)) \<and> (\<exists>e. session_set_level d l s = (Inl e, s)) \<and>
     (\<exists>e. set_session_name d n s = (Inl e, s)) \<and> (\<exists>e. navigate_tree d i b s = (Inl e, s)) \<and>
     (\<exists>e. fork_session d i s = (Inl e, s)) \<and> (\<exists>e. switch_session d j s = (Inl e, s)) \<and>
     (\<exists>e. new_session d n s = (Inl e, s))"
proof -
  have refused: "\<exists>e. and_then (on_world (ensure_session_idle a)) g s = (Inl e, s)" for a and g :: "unit \<Rightarrow> ('a, 'b, unit) session_op"
    using assms
    by (cases s) (auto simp: and_then_def on_world_def Let_def ensure_session_idle_def ensure_open_def)
  show ?thesis
    unfolding session_set_model_def session_set_level_def set_session_name_def navigate_tree_def
      fork_session_def switch_session_def new_session_def
    by (intro conjI refused)
qed

section \<open>A concrete session\<close>

definition small_header :: session_header where
  "small_header = \<lparr>sh_id = ''s'', sh_cwd = ''/w'', sh_version = 1, sh_timestamp = 0, sh_name = None,
     sh_parent_session_id = None\<rparr>"

definition small_manager :: "memory_store manager" where
  "small_manager = \<lparr>m_store = [HeaderRecord small_header],
     m_loaded = \<lparr>l_records = [HeaderRecord small_header], l_warnings = [], l_valid_bytes = 0, l_ignored_tail = []\<rparr>,
     m_tree = \<lparr>t_header = small_header, t_entries = [], t_order = [], t_children = [], t_leaf_id = None\<rparr>\<rparr>"

lemma small_open: "manager_open memory_load [HeaderRecord small_header] = Inr small_manager"
  by code_simp

lemma small_ok: "memory.manager_ok small_manager"
  using memory.open_ok [OF TrueI small_open] by simp

definition small_deps :: "(memory_store, nat) session_deps" where
  "small_deps = \<lparr>sd_load = memory_load, sd_append = memory_append,
     sd_stamp = (\<lambda>n. ((replicate n (CHR ''e''), int n), Suc n)), sd_listener = (\<lambda>l ev. pure ()),
     sd_controller = None, sd_branch_summarizer = None, sd_models = None, sd_external_prepare = None,
     sd_create = (\<lambda>c n. fails (Exn OtherException [])), sd_open = None, sd_cleanup = pure ()\<rparr>"

definition small_config :: "(memory_store, nat) session_world agent_loop_config" where
  "small_config = \<lparr>cf_model = demo_model, cf_convert_to_llm = (\<lambda>ms w. (Inr ms, w)),
     cf_transform_context = None, cf_get_api_key = None, cf_get_steering_messages = None,
     cf_get_follow_up_messages = None, cf_should_stop_after_turn = None, cf_prepare_next_turn = None,
     cf_before_tool_call = None, cf_after_tool_call = None, cf_tool_execution = Parallel,
     cf_thinking_level = ''off'', cf_stream_options = default_stream_options\<rparr>"

definition small_env :: "(memory_store, nat) session_world environment" where
  "small_env = \<lparr>ev_stream_fn = (\<lambda>_ _ _ w. (Inr (demo_response True), w)),
     ev_sink = None, ev_cancelled = (\<lambda>_. None), ev_clock = (\<lambda>w. (7, w)), ev_schedule = (\<lambda>_. []),
     ev_re_search = (\<lambda>_ _. Inr True)\<rparr>"

definition small_setup :: "(memory_store, nat) session_live live_setup" where
  "small_setup = \<lparr>su_system_prompt = [], su_model = demo_model, su_thinking_level = ''off'',
     su_tools = [], su_config = small_config, su_env = small_env, su_listener = (\<lambda>l ev. pure ())\<rparr>"

definition small_world :: "memory_store manager \<Rightarrow> nat \<Rightarrow> (memory_store, nat) session_world" where
  "small_world m n = \<lparr>ag_messages = [], ag_is_streaming = False, ag_streaming_message = None,
     ag_pending_tool_calls = {}, ag_error_message = JNull,
     ag_steering = \<lparr>mq_mode = ''all'', mq_items = []\<rparr>, ag_follow_up = \<lparr>mq_mode = ''all'', mq_items = []\<rparr>,
     ag_listeners = [0], ag_listener_errors = [], ag_signal = None,
     ag_outer = \<lparr>sl_manager = m, sl_listeners = [5], sl_closed = False, sl_is_compacting = False,
       sl_persistence_error = None, sl_auto_compaction = True, sl_outer = n\<rparr>\<rparr>"

lemma small_safe: "in_memory small_deps" "session_safe small_deps small_setup"
    "well_formed_provider (su_env small_setup)" "session_first (small_world m n)"
  by (auto simp: in_memory_def small_deps_def session_safe_def small_setup_def small_env_def small_config_def
      hook_respects_def config_respects_def updates_respect_def leaves_session_def well_formed_provider_def
      demo_response_def pure_def session_first_def small_world_def)

definition prompt_entry :: tree_entry where
  "prompt_entry = \<lparr>e_id = ''e'', e_parent_id = None, e_timestamp = 1,
     e_body = MessageEntry (UserMessage \<lparr>um_content = UserText ''hi'', um_timestamp = 3\<rparr>)\<rparr>"

definition reply_entry :: tree_entry where
  "reply_entry = \<lparr>e_id = ''ee'', e_parent_id = Some ''e'', e_timestamp = 2, e_body = MessageEntry (AssistantMessage demo_reply)\<rparr>"

definition after_prompt :: "memory_store manager" where
  "after_prompt = snd (manager_append memory_load memory_append 1 small_manager prompt_entry)"

definition after_reply :: "memory_store manager" where
  "after_reply = snd (manager_append memory_load memory_append 2 after_prompt reply_entry)"

lemma small_appends:
  "manager_append memory_load memory_append 1 small_manager prompt_entry = (Inr prompt_entry, after_prompt)"
  "manager_append memory_load memory_append 2 after_prompt reply_entry = (Inr reply_entry, after_reply)"
proof -
  have "fst (manager_append memory_load memory_append 1 small_manager prompt_entry) = Inr prompt_entry" by code_simp
  then show "manager_append memory_load memory_append 1 small_manager prompt_entry = (Inr prompt_entry, after_prompt)"
    by (simp add: after_prompt_def prod_eq_iff)
  have "fst (manager_append memory_load memory_append 2 after_prompt reply_entry) = Inr reply_entry" by code_simp
  then show "manager_append memory_load memory_append 2 after_prompt reply_entry = (Inr reply_entry, after_reply)"
    by (simp add: after_reply_def prod_eq_iff)
qed

lemma small_leaves: "manager_leaf_id small_manager = None" "manager_leaf_id after_prompt = Some ''e''"
  by code_simp+

lemma small_entries:
  "new_entry None ''e'' 1 small_manager (MessageEntry (UserMessage \<lparr>um_content = UserText ''hi'', um_timestamp = 3\<rparr>)) = prompt_entry"
  "new_entry None ''ee'' 2 after_prompt (MessageEntry (AssistantMessage demo_reply)) = reply_entry"
  by (simp_all add: new_entry_def or_fresh_def small_leaves prompt_entry_def reply_entry_def)

lemma small_synced:
  "and_then (sync_agent_context small_deps) (\<lambda>_. forget_failure) (small_world small_manager 0) =
     (Inr (), small_world small_manager 1)"
proof -
  have "bindE (active_path (m_tree small_manager)) (\<lambda>p. reconstruct_context p DEFAULT_COMPACTION_PREFIX
     DEFAULT_BRANCH_SUMMARY_PREFIX 0) = Inr \<lparr>rc_messages = [], rc_model_provider = None, rc_model_id = None,
       rc_thinking_level = None, rc_compaction = None\<rparr>" by code_simp
  then show ?thesis
    by (simp add: sync_agent_context_def and_then_def rebuilt_context_def manager_op_def Let_def small_deps_def
        small_world_def upd_session_def replace_transcript_def ensure_idle_def forget_failure_def)
qed

lemmas small_eval = run_eval small_config_def small_env_def small_setup_def session_setup_def
  run_environment_def run_config_def run_context_def enter_run_def
  process_event_def drain_steering_def drain_follow_up_def with_external_def queue_drain_def
  on_agent_event_def and_then_def pure_def remember_failure_def persist_message_def manager_op_def
  append_message_def upd_session_def emit_session_def prepare_next_turn_of_def

lemma small_run:
  "case run_loop 6 (run_environment (session_setup small_deps small_setup))
     (run_config (session_setup small_deps small_setup)) [demo_prompt] False
     (start_state (enter_run (small_world small_manager 1))
        (run_context (session_setup small_deps small_setup) (enter_run (small_world small_manager 1)))
        [demo_prompt] [demo_prompt]) of
     Some (Inr _, s') \<Rightarrow> rs_new s' = [demo_prompt, asst demo_reply] \<and> failure_of (rs_world s') = None | _ \<Rightarrow> False"
proof -
  have deps: "sd_load small_deps = memory_load" "sd_append small_deps = memory_append"
    "sd_stamp small_deps n = ((replicate n (CHR ''e''), int n), Suc n)" "sd_listener small_deps l ev = pure ()"
    "sd_controller small_deps = None" "sd_external_prepare small_deps = None" for n l ev
    by (simp_all add: small_deps_def)
  note [simp] = small_appends small_entries [unfolded demo_reply_def demo_assistant_def]
    small_appends [unfolded demo_reply_def]
  show ?thesis
    by (simp add: small_eval deps small_world_def eval_nat_numeral Let_def)
qed

theorem session_prompt_records_witness:
  "\<exists>r w'. session_prompt 6 small_deps (session_setup small_deps small_setup) (TextPrompt ''hi'') [] None 3
      (small_world small_manager 0) = Some (r, w') \<and> memory.manager_ok (manager_of w') \<and>
     conversation (manager_of w') = conversation small_manager @
       map recorded [demo_prompt, asst demo_reply]"
proof -
  let ?w = "small_world small_manager 0" and ?su = "session_setup small_deps small_setup"
  have ps: "prompt_messages (TextPrompt ''hi'') [] 3 = [demo_prompt]"
    by (simp add: prompt_messages_def user_input_def demo_prompt_def)
  have w1: "synced small_deps ?w = small_world small_manager 1" using small_synced by (simp add: synced_def)
  obtain s where s: "run_succeeds 6 ?su [demo_prompt] (synced small_deps ?w) s"
      "rs_new s = [demo_prompt, asst demo_reply]" "failure_of (rs_world s) = None"
    using returned_unitI [OF small_run] unfolding run_succeeds_def w1 by blast
  have idle: "\<not> ag_is_streaming (synced small_deps ?w)" "\<not> ag_is_streaming ?w" "\<not> sl_closed (ag_outer ?w)"
    unfolding w1 by (simp_all add: small_world_def)
  have "well_formed_provider (su_env ?su)" using small_safe(3) by (simp add: session_setup_def)
  note start = clean_start_run(1) [OF this idle(1) s(1)]
  have "and_then (sync_agent_context small_deps) (\<lambda>_. forget_failure) ?w = (Inr (), synced small_deps ?w)"
    using small_synced w1 by simp
  then obtain r w' where run: "session_prompt 6 small_deps ?su (TextPrompt ''hi'') [] None 3 ?w = Some (r, w')"
    using idle start by (cases "settle_run small_deps (rs_new s) (leave_run (rs_world s))")
      (simp add: session_prompt_def session_run_agent_def prompt_def Let_def ps)
  have "memory.manager_ok (manager_of ?w)" by (simp add: small_world_def small_ok)
  have "fst (and_then (sync_agent_context small_deps) (\<lambda>_. forget_failure) ?w) = Inr ()"
    using small_synced by simp
  from session_prompt_records [OF small_safe(1-3) \<open>memory.manager_ok (manager_of ?w)\<close> small_safe(4) idle(2) run this,
      unfolded ps, OF _ _ idle(3)]
  obtain ar t ms where t: "agent_run 6 ?su [demo_prompt] (synced small_deps ?w) = Some (ar, t)"
      "memory.manager_ok (manager_of w')" "case failure_of (rs_world t) of
           Some e \<Rightarrow> r = Inl (Exn RuntimeError (''session persistence failed: '' @ exn_text e))
         | None \<Rightarrow> conversation (manager_of w') =
               conversation (manager_of ?w) @ map recorded (ended_messages (rs_trace t)) \<and>
             (\<forall>x. r = Inr x \<longrightarrow> fst x = ms \<and> hr_new_messages (snd x) = ms \<and>
               (\<exists>tr. active_messages (manager_of w') = Inr tr \<and> hr_transcript (snd x) = map LlmMsg tr))"
    by auto
  have same: "rs_world t = rs_world s" "rs_trace t = rs_trace s"
    using t(1) clean_agent_run [OF s(1)] by auto
  have "well_formed_provider (su_env ?su)" using small_safe(3) by (simp add: session_setup_def)
  note ended = clean_start_run(2) [OF this idle(1) s(1)]
  have "conversation (manager_of w') = conversation (manager_of ?w) @ map recorded [demo_prompt, asst demo_reply]"
    using t(3) unfolding same ended s(2,3) option.case by blast
  with run t(2) show ?thesis by (auto simp: small_world_def simp del: list.map)
qed

definition before_all :: "memory_store manager" where
  "before_all = snd (navigate memory_load memory_append 0 after_prompt None True)"

lemma small_navigate:
  "navigate memory_load memory_append 0 after_prompt None True = (Inr (), before_all)"
proof -
  have "fst (navigate memory_load memory_append 0 after_prompt None True) = Inr ()" by code_simp
  then show ?thesis by (simp add: before_all_def prod_eq_iff)
qed

theorem navigate_rebuilds_agent_witness:
  "\<exists>s'. navigate_tree small_deps None False (small_setup, small_world after_prompt 0) = (Inr (), s') \<and>
     manager_leaf_id (manager_of (snd s')) = None \<and> shows_branch small_deps demo_model s'"
proof -
  have ctx: "bindE (active_path (m_tree before_all)) (\<lambda>p. reconstruct_context p DEFAULT_COMPACTION_PREFIX
     DEFAULT_BRANCH_SUMMARY_PREFIX 1) = Inr \<lparr>rc_messages = [], rc_model_provider = None, rc_model_id = None,
       rc_thinking_level = None, rc_compaction = None\<rparr>" by code_simp
  have "fst (navigate_tree small_deps None False (small_setup, small_world after_prompt 0)) = Inr ()"
    by (simp add: navigate_tree_def and_then_def on_world_def ensure_session_idle_def ensure_open_def
        restore_branch_def rebuilt_context_def manager_op_def upd_session_def small_world_def small_deps_def
        small_navigate ctx replace_transcript_def ensure_idle_def with_agent_def Agent.set_thinking_level_def
        when_idle_def restored_model_def pure_def)
  then obtain s' where s': "navigate_tree small_deps None False (small_setup, small_world after_prompt 0) = (Inr (), s')"
    by (metis prod.collapse)
  have "memory.manager_ok after_prompt"
    using memory.append_keeps [OF small_ok TrueI small_appends(1)] by simp
  then have "memory.manager_ok (manager_of (snd (small_setup, small_world after_prompt 0)))"
    by (simp add: small_world_def)
  from navigate_rebuilds_agent [OF small_safe(1) this s'] s' show ?thesis by (auto simp: small_setup_def)
qed

theorem busy_session_refuses_witness:
  "\<exists>w e. close_session small_deps (small_world small_manager 0) = (Inr (), w) \<and>
     session_set_model small_deps demo_model (small_setup, w) = (Inl e, (small_setup, w))"
proof -
  obtain w where w: "close_session small_deps (small_world small_manager 0) = (Inr (), w)"
      "sl_closed (ag_outer w)"
    by (simp add: close_session_def small_world_def small_deps_def upd_session_def and_then_def
        outside_def pure_def Let_def)
  then show ?thesis using busy_session_refuses [of "(small_setup, w)"] by auto
qed

text \<open>A model change is not atomic: when the write of the change fails the call raises, but the agent
  already runs the new model.\<close>

theorem unrecorded_model_change:
  assumes "\<not> sl_closed (ag_outer (snd s)) \<and> \<not> ag_is_streaming (snd s) \<and> \<not> sl_is_compacting (ag_outer (snd s))"
    and "\<And>fresh tm. fst (append_model_change (sd_load d) (sd_append d) None fresh tm (manager_of (snd s))
       (md_provider m) (md_id m)) = Inl e"
  shows "fst (session_set_model d m s) = Inl e \<and> su_model (fst (snd (session_set_model d m s))) = m"
proof (cases s)
  case (Pair su w)
  let ?st = "sd_stamp d (sl_outer (ag_outer w))"
  obtain m' where "append_model_change (sd_load d) (sd_append d) None (fst (fst ?st)) (snd (fst ?st)) (manager_of w)
       (md_provider m) (md_id m) = (Inl e, m')"
    using assms(2) Pair by (metis prod.collapse snd_conv)
  with assms(1) Pair show ?thesis
    by (simp add: session_set_model_def and_then_def on_world_def ensure_session_idle_def ensure_open_def
        with_agent_def set_model_def when_idle_def ensure_idle_def record_entry_def manager_op_def Let_def)
qed

theorem unrecorded_model_change_witness:
  "\<exists>e. fst (session_set_model (small_deps\<lparr>sd_append := (\<lambda>s r. Inl (Exn OSError ''disk full''))\<rparr>) empty_model
       (small_setup, small_world small_manager 0)) = Inl e \<and>
     su_model (fst (snd (session_set_model (small_deps\<lparr>sd_append := (\<lambda>s r. Inl (Exn OSError ''disk full''))\<rparr>)
       empty_model (small_setup, small_world small_manager 0)))) \<noteq> su_model small_setup"
proof -
  let ?d = "small_deps\<lparr>sd_append := (\<lambda>s r. Inl (Exn OSError ''disk full''))\<rparr>"
  have idle: "\<not> sl_closed (ag_outer (snd (small_setup, small_world small_manager 0))) \<and>
     \<not> ag_is_streaming (snd (small_setup, small_world small_manager 0)) \<and>
     \<not> sl_is_compacting (ag_outer (snd (small_setup, small_world small_manager 0)))"
    by (simp add: small_world_def)
  have "fst (append_model_change (sd_load ?d) (sd_append ?d) None fresh tm
      (manager_of (snd (small_setup, small_world small_manager 0))) (md_provider empty_model) (md_id empty_model))
    = Inl (Exn OSError ''disk full'')" for fresh tm
    by (simp add: append_model_change_def manager_append_def)
  from unrecorded_model_change [OF idle this]
  show ?thesis by (auto simp: small_setup_def empty_model_def demo_model_def)
qed
end
