(* ===== verification/TuiWidth.thy ===== *)
theory TuiWidth
  imports Truncate PyText
begin

text \<open>
  The width of text in terminal cells (\<^verbatim>\<open>src/pi_agent/tui/width.py\<close>): grapheme
  clusters, tabs, clipping, padding and wrapping, and the removal of escape sequences.  The tables of
  \<^verbatim>\<open>unicodedata\<close> are an argument; the size of a tab is positive (callers leave it at 4).
\<close>

section \<open>Grapheme clusters\<close>

record unicode =
  un_combining :: "codepoint \<Rightarrow> bool"
  un_control :: "codepoint \<Rightarrow> bool"
  un_wide :: "codepoint \<Rightarrow> bool"

definition ZWJ :: codepoint where "ZWJ = 0x200D"

definition variation_selector :: "codepoint \<Rightarrow> bool" where
  "variation_selector c \<longleftrightarrow> 0xFE00 \<le> c \<and> c < 0xFE10 \<or> 0xE0100 \<le> c \<and> c < 0xE01F0"

definition emoji_modifier :: "codepoint \<Rightarrow> bool" where
  "emoji_modifier c \<longleftrightarrow> 0x1F3FB \<le> c \<and> c < 0x1F400"

definition regional_indicator :: "codepoint \<Rightarrow> bool" where
  "regional_indicator c \<longleftrightarrow> 0x1F1E6 \<le> c \<and> c < 0x1F200"

definition extends_cluster :: "unicode \<Rightarrow> text \<Rightarrow> nat \<Rightarrow> codepoint \<Rightarrow> bool" where
  "extends_cluster U cluster regional_count c \<longleftrightarrow> cluster \<noteq> [] \<and>
     (un_combining U c \<or> variation_selector c \<or> emoji_modifier c \<or> c = ZWJ \<or> last cluster = ZWJ \<or>
      (regional_indicator c \<and> regional_count = 1))"

definition count_regional :: "unicode \<Rightarrow> codepoint \<Rightarrow> nat \<Rightarrow> nat" where
  "count_regional U c n =
     (if regional_indicator c then Suc n
      else if \<not> variation_selector c \<and> \<not> un_combining U c \<and> \<not> emoji_modifier c \<and> c \<noteq> ZWJ then 0 else n)"

fun graphemes_from :: "unicode \<Rightarrow> text \<Rightarrow> nat \<Rightarrow> text \<Rightarrow> text list" where
  "graphemes_from U cluster n [] = (if cluster \<noteq> [] then [cluster] else [])"
| "graphemes_from U cluster n (c # cs) =
     (if cluster = [] \<or> extends_cluster U cluster n c
      then graphemes_from U (cluster @ [c]) (count_regional U c n) cs
      else cluster # graphemes_from U [c] (count_regional U c 0) cs)"

definition graphemes :: "unicode \<Rightarrow> text \<Rightarrow> text list" where
  "graphemes U s = graphemes_from U [] 0 s"

section \<open>Widths\<close>

definition is_emoji :: "codepoint \<Rightarrow> bool" where
  "is_emoji c \<longleftrightarrow> 0x1F000 \<le> c \<and> c \<le> 0x1FAFF \<or> 0x2600 \<le> c \<and> c \<le> 0x27BF \<or>
     c \<in> {0xA9, 0xAE, 0x203C, 0x2049, 0x3030, 0x303D, 0x3297, 0x3299}"

definition codepoint_width :: "unicode \<Rightarrow> codepoint \<Rightarrow> int" where
  "codepoint_width U c =
     (if c \<in> {10, 13, 9} then 0
      else if un_combining U c \<or> variation_selector c \<or> emoji_modifier c then 0
      else if un_control U c then 0
      else if un_wide U c then 2 else 1)"

definition grapheme_width :: "unicode \<Rightarrow> text \<Rightarrow> int" where
  "grapheme_width U cluster =
     (if cluster = [] then 0
      else if ZWJ \<in> set cluster \<or> list_ex regional_indicator cluster then 2
      else if list_ex is_emoji cluster then 2
      else sum_list (map (codepoint_width U) cluster))"

definition clusters_width :: "unicode \<Rightarrow> text list \<Rightarrow> int" where
  "clusters_width U cs = sum_list (map (grapheme_width U) cs)"

definition advance_column :: "unicode \<Rightarrow> int \<Rightarrow> int \<Rightarrow> text \<Rightarrow> int" where
  "advance_column U tab_size column cluster =
     (if cluster = [9] then column + (tab_size - column mod tab_size)
      else if cluster \<in> {[10], [13]} then 0
      else column + grapheme_width U cluster)"

definition text_width :: "unicode \<Rightarrow> int \<Rightarrow> int \<Rightarrow> text \<Rightarrow> int" where
  "text_width U tab_size start s =
     (let column = foldl (advance_column U tab_size) start (graphemes U s)
      in if 10 \<notin> set s \<and> 13 \<notin> set s then column - start else column)"

section \<open>Clipping\<close>

text \<open>The clusters that fit, and whether some did not.\<close>

fun fitting :: "unicode \<Rightarrow> int \<Rightarrow> int \<Rightarrow> text list \<Rightarrow> text list \<times> bool" where
  "fitting U target used [] = ([], False)"
| "fitting U target used (c # cs) =
     (if target < used + grapheme_width U c then ([], True)
      else (case fitting U target (used + grapheme_width U c) cs of (r, over) \<Rightarrow> (c # r, over)))"

fun slice_from :: "unicode \<Rightarrow> int \<Rightarrow> int \<Rightarrow> int \<Rightarrow> text list \<Rightarrow> text list" where
  "slice_from U start stop column [] = []"
| "slice_from U start stop column (c # cs) =
     (let following = column + grapheme_width U c in
      if following \<le> start then slice_from U start stop following cs
      else if stop \<le> column \<or> stop < following then []
      else c # slice_from U start stop following cs)"

definition slice_text :: "unicode \<Rightarrow> text \<Rightarrow> int \<Rightarrow> int \<Rightarrow> (exn, text) result" where
  "slice_text U s start width =
     (if start < 0 \<or> width < 0 then Inl (Exn ValueError ''start and width must be non-negative'')
      else Inr (concat (slice_from U start (start + width) 0 (graphemes U s))))"

definition truncate_cells_text :: "unicode \<Rightarrow> text \<Rightarrow> int \<Rightarrow> text \<Rightarrow> (exn, text) result" where
  "truncate_cells_text U s width ellipsis =
     (if width \<le> 0 then Inr []
      else
        (let ew = text_width U 4 0 ellipsis in
         if width < ew then slice_text U ellipsis 0 width
         else (case fitting U (width - ew) 0 (graphemes U s) of
             (r, over) \<Rightarrow> Inr (if over then concat r @ ellipsis else concat r))))"

definition pad_text :: "unicode \<Rightarrow> text \<Rightarrow> int \<Rightarrow> string \<Rightarrow> (exn, text) result" where
  "pad_text U s width align =
     bindE (truncate_cells_text U s width []) (\<lambda>clipped.
     let padding = max 0 (width - text_width U 4 0 clipped) in
     if align = ''right'' then Inr (replicate (nat padding) 32 @ clipped)
     else if align = ''center'' then
       (let left = padding div 2 in
        Inr (replicate (nat left) 32 @ clipped @ replicate (nat (padding - left)) 32))
     else if align \<noteq> ''left'' then Inl (Exn ValueError ''align must be left, center, or right'')
     else Inr (clipped @ replicate (nat padding) 32))"

section \<open>Escape sequences\<close>

text \<open>What is left after an escape sequence at the front: an operating system command, or a control
  sequence.  The character classes of the pattern are disjoint, so no choice has to be undone.\<close>

definition osc_rest :: "text \<Rightarrow> text option" where
  "osc_rest s =
     (case s of
        e # b # r \<Rightarrow>
          if e = 0x1B \<and> b = 0x5D then
            (case dropWhile (\<lambda>c. c \<noteq> 7 \<and> c \<noteq> 0x1B) r of
               c # r' \<Rightarrow> if c = 7 then Some r' else (case r' of d # r'' \<Rightarrow> if d = 0x5C then Some r'' else None | [] \<Rightarrow> None)
             | [] \<Rightarrow> None)
          else None
      | _ \<Rightarrow> None)"

definition csi_rest :: "text \<Rightarrow> text option" where
  "csi_rest s =
     (case s of
        e # b # r \<Rightarrow>
          if e = 0x1B \<and> b = 0x5B then
            (case dropWhile (\<lambda>c. 0x20 \<le> c \<and> c \<le> 0x2F) (dropWhile (\<lambda>c. 0x30 \<le> c \<and> c \<le> 0x3F) r) of
               c # r' \<Rightarrow> if 0x40 \<le> c \<and> c \<le> 0x7E then Some r' else None
             | [] \<Rightarrow> None)
          else None
      | _ \<Rightarrow> None)"

definition escape_rest :: "text \<Rightarrow> text option" where
  "escape_rest s = (case osc_rest s of Some r \<Rightarrow> Some r | None \<Rightarrow> csi_rest s)"

lemma dropWhile_tail: "dropWhile P xs = c # r \<Longrightarrow> length r < length xs"
  by (metis length_dropWhile_le length_Cons Suc_le_lessD)

lemma osc_rest_shorter:
  assumes "osc_rest s = Some r" shows "length r < length s"
proof (cases s)
  case (Cons e s')
  show ?thesis
  proof (cases s')
    case (Cons b t)
    with assms \<open>s = e # s'\<close> obtain c r' where d: "dropWhile (\<lambda>c. c \<noteq> 7 \<and> c \<noteq> 0x1B) t = c # r'"
        "r = r' \<or> (\<exists>x. r' = x # r)"
      by (auto simp: osc_rest_def split: list.splits if_splits)
    from dropWhile_tail [OF d(1)] d(2) have "length r < length t" by auto
    with Cons \<open>s = e # s'\<close> show ?thesis by simp
  qed (use assms Cons in \<open>simp add: osc_rest_def\<close>)
qed (use assms in \<open>simp add: osc_rest_def\<close>)

lemma csi_rest_shorter:
  assumes "csi_rest s = Some r" shows "length r < length s"
proof (cases s)
  case (Cons e s')
  show ?thesis
  proof (cases s')
    case (Cons b t)
    with assms \<open>s = e # s'\<close> obtain c where d:
      "dropWhile (\<lambda>c. 0x20 \<le> c \<and> c \<le> 0x2F) (dropWhile (\<lambda>c. 0x30 \<le> c \<and> c \<le> 0x3F) t) = c # r"
      by (auto simp: csi_rest_def split: list.splits if_splits)
    have "length r < length t"
      using dropWhile_tail [OF d] length_dropWhile_le [of "\<lambda>c. 0x30 \<le> c \<and> c \<le> 0x3F" t] by linarith
    with Cons \<open>s = e # s'\<close> show ?thesis by simp
  qed (use assms Cons in \<open>simp add: csi_rest_def\<close>)
qed (use assms in \<open>simp add: csi_rest_def\<close>)

lemma escape_rest_shorter: "escape_rest s = Some r \<Longrightarrow> length r < length s"
  by (auto simp: escape_rest_def osc_rest_shorter csi_rest_shorter split: option.splits)

function strip_ansi :: "text \<Rightarrow> text" where
  "strip_ansi [] = []"
| "strip_ansi (c # cs) =
     (case escape_rest (c # cs) of Some r \<Rightarrow> strip_ansi r | None \<Rightarrow> c # strip_ansi cs)"
  by pat_completeness auto
termination
  by (relation "measure length") (use escape_rest_shorter in force)+

definition cell_width :: "unicode \<Rightarrow> text \<Rightarrow> int" where
  "cell_width U s = text_width U 4 0 (strip_ansi s)"

definition clip_ansi :: "unicode \<Rightarrow> text \<Rightarrow> int \<Rightarrow> text \<Rightarrow> (exn, text) result" where
  "clip_ansi U s width ellipsis = truncate_cells_text U (strip_ansi s) width ellipsis"

definition pad_cells :: "unicode \<Rightarrow> text \<Rightarrow> int \<Rightarrow> (exn, text) result" where
  "pad_cells U s width =
     bindE (clip_ansi U s width []) (\<lambda>plain. Inr (plain @ replicate (nat (max 0 (width - cell_width U plain))) 32))"

section \<open>Wrapping\<close>

fun wrap_clusters :: "unicode \<Rightarrow> int \<Rightarrow> text list \<Rightarrow> int \<Rightarrow> text list \<Rightarrow> text list list" where
  "wrap_clusters U width current used [] = [current]"
| "wrap_clusters U width current used (c # cs) =
     (if current \<noteq> [] \<and> width < used + grapheme_width U c
      then current # wrap_clusters U width [c] (grapheme_width U c) cs
      else wrap_clusters U width (current @ [c]) (used + grapheme_width U c) cs)"

definition wrap_line :: "unicode \<Rightarrow> int \<Rightarrow> text \<Rightarrow> text list" where
  "wrap_line U width line = map concat (wrap_clusters U width [] 0 (graphemes U line))"

definition wrap_ansi :: "unicode \<Rightarrow> text \<Rightarrow> int \<Rightarrow> (exn, text list) result" where
  "wrap_ansi U s width =
     (if width \<le> 0 then Inl (Exn ValueError ''wrap width must be positive'')
      else Inr (concat (map (wrap_line U width)
        (case text_lines (strip_ansi s) of [] \<Rightarrow> [[]] | ls \<Rightarrow> ls))))"

section \<open>Properties\<close>

lemma concat_graphemes_from: "concat (graphemes_from U c n s) = c @ s"
  by (induction U c n s rule: graphemes_from.induct) auto

lemma concat_graphemes [simp]: "concat (graphemes U s) = s"
  by (simp add: graphemes_def concat_graphemes_from)

lemma graphemes_from_nonempty: "[] \<notin> set (graphemes_from U c n s)"
  by (induction U c n s rule: graphemes_from.induct) auto

lemma graphemes_nonempty: "[] \<notin> set (graphemes U s)"
  by (simp add: graphemes_def graphemes_from_nonempty)

lemma codepoint_width_range: "0 \<le> codepoint_width U c" "codepoint_width U c \<le> 2"
  by (simp_all add: codepoint_width_def)

lemma grapheme_width_nonneg [simp]: "0 \<le> grapheme_width U c"
  by (auto simp: grapheme_width_def codepoint_width_range intro!: sum_list_nonneg)

lemma clusters_width_simps [simp]:
  "clusters_width U [] = 0" "clusters_width U (c # cs) = grapheme_width U c + clusters_width U cs"
  "clusters_width U (cs @ ds) = clusters_width U cs + clusters_width U ds"
  by (simp_all add: clusters_width_def)

lemma clusters_width_nonneg [simp]: "0 \<le> clusters_width U cs"
  by (induction cs) simp_all

lemma concat_map_concat: "concat (map concat gs) = concat (concat gs)"
  by (induction gs) simp_all

lemma wrap_clusters_same:
  "\<not> (cur \<noteq> [] \<and> w < used + grapheme_width U c) \<Longrightarrow>
     wrap_clusters U w cur used (c # cs) = wrap_clusters U w (cur @ [c]) (used + grapheme_width U c) cs"
  by (simp only: wrap_clusters.simps if_False)

lemma concat_wrap_clusters: "concat (wrap_clusters U w cur used cs) = cur @ cs"
  by (induction U w cur used cs rule: wrap_clusters.induct) auto

text \<open>A group fits unless it is a single cluster that is wider than the line.\<close>

definition group_fits :: "unicode \<Rightarrow> int \<Rightarrow> text list \<Rightarrow> bool" where
  "group_fits U w g \<longleftrightarrow> clusters_width U g \<le> w \<or> length g = 1"

lemma wrap_clusters_fit:
  assumes "used = clusters_width U cur" and "cur = [] \<or> group_fits U w cur" and "0 \<le> w"
  shows "\<forall>g \<in> set (wrap_clusters U w cur used cs). group_fits U w g"
  using assms
proof (induction U w cur used cs rule: wrap_clusters.induct)
  case (1 U w cur used)
  then show ?case by (auto simp: group_fits_def)
next
  case (2 U w cur used c cs)
  show ?case
  proof (cases "cur \<noteq> [] \<and> w < used + grapheme_width U c")
    case True
    have "\<forall>g \<in> set (wrap_clusters U w [c] (grapheme_width U c) cs). group_fits U w g"
      by (rule 2(1) [OF True]) (simp_all add: group_fits_def 2(5))
    with True 2(4) show ?thesis by simp
  next
    case False
    have "\<forall>g \<in> set (wrap_clusters U w (cur @ [c]) (used + grapheme_width U c) cs). group_fits U w g"
      by (rule 2(2) [OF False]) (use False 2(3,5) in \<open>auto simp: group_fits_def\<close>)
    then show ?thesis by (simp only: wrap_clusters_same [OF False])
  qed
qed

text \<open>Greedy: the first cluster of a group did not fit the group before.\<close>

lemma wrap_clusters_greedy:
  assumes "used = clusters_width U cur" and "Suc i < length (wrap_clusters U w cur used cs)"
  shows "wrap_clusters U w cur used cs ! Suc i \<noteq> [] \<and>
     w < clusters_width U (wrap_clusters U w cur used cs ! i) +
       grapheme_width U (hd (wrap_clusters U w cur used cs ! Suc i))"
  using assms
proof (induction U w cur used cs arbitrary: i rule: wrap_clusters.induct)
  case (2 U w cur used c cs)
  have first: "\<exists>g gs. wrap_clusters U w (d # ds) u es = (d # g) # gs" for d ds u es
    by (induction es arbitrary: ds u) auto
  show ?case
  proof (cases "cur \<noteq> [] \<and> w < used + grapheme_width U c")
    case True
    show ?thesis
    proof (cases i)
      case 0
      obtain g gs where "wrap_clusters U w [c] (grapheme_width U c) cs = (c # g) # gs" using first by blast
      moreover have "wrap_clusters U w cur used (c # cs) = cur # wrap_clusters U w [c] (grapheme_width U c) cs"
        using True by simp
      ultimately show ?thesis using True 0 2(3) by simp
    next
      case (Suc j)
      have "wrap_clusters U w [c] (grapheme_width U c) cs ! Suc j \<noteq> [] \<and>
         w < clusters_width U (wrap_clusters U w [c] (grapheme_width U c) cs ! j) +
           grapheme_width U (hd (wrap_clusters U w [c] (grapheme_width U c) cs ! Suc j))"
        by (rule 2(1) [OF True]) (use True Suc 2(4) in simp_all)
      with True Suc show ?thesis by simp
    qed
  next
    case False
    have step: "wrap_clusters U w cur used (c # cs) = wrap_clusters U w (cur @ [c]) (used + grapheme_width U c) cs"
      by (rule wrap_clusters_same [OF False])
    show ?thesis unfolding step by (rule 2(2) [OF False]) (use 2(3,4) step in simp_all)
  qed
qed simp

text \<open>Wrapping a line loses nothing and breaks only between grapheme clusters: the wrapped lines spell
  the line, each fits the width unless it is a single cluster wider than it, and a line is broken only
  when the next cluster would not have fitted.\<close>

theorem wrap_line_correct:
  assumes "0 < width"
  shows "\<exists>groups. wrap_line U width line = map concat groups \<and> concat groups = graphemes U line \<and>
     concat (wrap_line U width line) = line \<and>
     (\<forall>g \<in> set groups. clusters_width U g \<le> width \<or> length g = 1) \<and>
     (\<forall>i. Suc i < length groups \<longrightarrow> groups ! Suc i \<noteq> [] \<and>
        width < clusters_width U (groups ! i) + grapheme_width U (hd (groups ! Suc i)))"
proof (intro exI conjI allI impI)
  let ?gs = "wrap_clusters U width [] 0 (graphemes U line)"
  show "wrap_line U width line = map concat ?gs" by (simp add: wrap_line_def)
  show "concat ?gs = graphemes U line" by (simp add: concat_wrap_clusters)
  then show "concat (wrap_line U width line) = line"
    by (simp add: wrap_line_def concat_map_concat)
  show "\<forall>g \<in> set ?gs. clusters_width U g \<le> width \<or> length g = 1"
    using wrap_clusters_fit [of 0 U "[]" width "graphemes U line"] assms by (simp add: group_fits_def)
  fix i assume "Suc i < length ?gs"
  from wrap_clusters_greedy [OF _ this]
  show "?gs ! Suc i \<noteq> []" "width < clusters_width U (?gs ! i) + grapheme_width U (hd (?gs ! Suc i))"
    by simp_all
qed

lemma fitting_take:
  "\<exists>k. fitting U target used cs = (take k cs, k < length cs) \<and> k \<le> length cs \<and>
     (used \<le> target \<longrightarrow> used + clusters_width U (take k cs) \<le> target) \<and>
     (k < length cs \<longrightarrow> target < used + clusters_width U (take (Suc k) cs))"
proof (induction U target used cs rule: fitting.induct)
  case (2 U target used c cs)
  show ?case
  proof (cases "target < used + grapheme_width U c")
    case True
    then show ?thesis by (intro exI [of _ 0]) simp
  next
    case False
    from 2 [OF False] obtain k where
      "fitting U target (used + grapheme_width U c) cs = (take k cs, k < length cs)" "k \<le> length cs"
      "used + grapheme_width U c + clusters_width U (take k cs) \<le> target"
      "k < length cs \<longrightarrow> target < used + grapheme_width U c + clusters_width U (take (Suc k) cs)"
      using False by auto
    with False show ?thesis by (intro exI [of _ "Suc k"]) (simp add: add.assoc)
  qed
qed simp

text \<open>Clipping to a positive width keeps the longest run of whole clusters from the front that leaves
  room for the ellipsis, and adds the ellipsis exactly when something was left out.\<close>

theorem truncate_cells_correct:
  assumes "0 < width" and "text_width U 4 0 ellipsis \<le> width"
  shows "\<exists>k. k \<le> length (graphemes U s) \<and>
     truncate_cells_text U s width ellipsis =
       Inr (concat (take k (graphemes U s)) @ (if k < length (graphemes U s) then ellipsis else [])) \<and>
     clusters_width U (take k (graphemes U s)) + text_width U 4 0 ellipsis \<le> width \<and>
     (k < length (graphemes U s) \<longrightarrow>
        width < clusters_width U (take (Suc k) (graphemes U s)) + text_width U 4 0 ellipsis)"
proof -
  let ?ew = "text_width U 4 0 ellipsis"
  obtain k where k: "fitting U (width - ?ew) 0 (graphemes U s) = (take k (graphemes U s), k < length (graphemes U s))"
    "k \<le> length (graphemes U s)" "clusters_width U (take k (graphemes U s)) \<le> width - ?ew"
    "k < length (graphemes U s) \<longrightarrow> width - ?ew < clusters_width U (take (Suc k) (graphemes U s))"
    using fitting_take [of U "width - ?ew" 0 "graphemes U s"] assms(2) by auto
  with assms show ?thesis
    by (intro exI [of _ k]) (auto simp: truncate_cells_text_def Let_def)
qed

text \<open>Plain ASCII text: every character is a cluster of width one.\<close>

definition ascii_unicode :: unicode where
  "ascii_unicode = \<lparr>un_combining = (\<lambda>c. 0x300 \<le> c \<and> c < 0x370), un_control = (\<lambda>c. c < 32 \<or> c = 127),
     un_wide = (\<lambda>c. 0x1100 \<le> c \<and> c < 0x1160 \<or> 0x2E80 \<le> c \<and> c < 0xA4D0)\<rparr>"

theorem wrap_line_correct_witness:
  "wrap_line ascii_unicode 3 [97, 0x4E2D, 0x6587, 98] = [[97, 0x4E2D], [0x6587, 98]] \<and>
     concat (wrap_line ascii_unicode 3 [97, 0x4E2D, 0x6587, 98]) = [97, 0x4E2D, 0x6587, 98]"
proof -
  from wrap_line_correct [of 3 ascii_unicode "[97, 0x4E2D, 0x6587, 98]"]
  have "concat (wrap_line ascii_unicode 3 [97, 0x4E2D, 0x6587, 98]) = [97, 0x4E2D, 0x6587, 98]" by auto
  moreover have "wrap_line ascii_unicode 3 [97, 0x4E2D, 0x6587, 98] = [[97, 0x4E2D], [0x6587, 98]]"
    by (simp add: wrap_line_def graphemes_def extends_cluster_def count_regional_def regional_indicator_def
        variation_selector_def emoji_modifier_def ZWJ_def ascii_unicode_def grapheme_width_def is_emoji_def
        codepoint_width_def)
  ultimately show ?thesis by blast
qed

theorem truncate_cells_correct_witness:
  "\<exists>k. truncate_cells_text ascii_unicode [97, 98, 99] 2 [] = Inr (concat (take k (graphemes ascii_unicode [97, 98, 99])) @
     (if k < length (graphemes ascii_unicode [97, 98, 99]) then [] else []))"
proof -
  have "text_width ascii_unicode 4 0 [] \<le> 2" by (simp add: text_width_def graphemes_def)
  from truncate_cells_correct [OF _ this, of "[97, 98, 99]"] show ?thesis by auto
qed

end
