(* ===== verification/TuiSurface.thy ===== *)
theory TuiSurface
  imports TuiWidth
begin

text \<open>
  The grid of terminal cells (\<^verbatim>\<open>src/pi_agent/tui/surface.py\<close>, the geometry of
  \<^verbatim>\<open>src/pi_agent/tui/types.py\<close>).  A wide glyph takes a cell of width 2 and a continuation of
  width 0 behind it.
\<close>

section \<open>Styles, geometry and cells\<close>

datatype color = Default | Indexed int | RGB int int int

record style =
  sy_foreground :: color
  sy_background :: color
  sy_bold :: bool
  sy_dim :: bool
  sy_italic :: bool
  sy_underline :: bool
  sy_reverse :: bool

definition normal_style :: style where
  "normal_style = \<lparr>sy_foreground = Default, sy_background = Default, sy_bold = False, sy_dim = False,
     sy_italic = False, sy_underline = False, sy_reverse = False\<rparr>"

definition merge_style :: "style \<Rightarrow> style \<Rightarrow> style" where
  "merge_style a b = \<lparr>sy_foreground = (if sy_foreground b \<noteq> Default then sy_foreground b else sy_foreground a),
     sy_background = (if sy_background b \<noteq> Default then sy_background b else sy_background a),
     sy_bold = (sy_bold a \<or> sy_bold b), sy_dim = (sy_dim a \<or> sy_dim b), sy_italic = (sy_italic a \<or> sy_italic b),
     sy_underline = (sy_underline a \<or> sy_underline b), sy_reverse = (sy_reverse a \<or> sy_reverse b)\<rparr>"

record rect =
  rc_x :: int
  rc_y :: int
  rc_width :: int
  rc_height :: int

definition rect_right :: "rect \<Rightarrow> int" where "rect_right r = rc_x r + rc_width r"
definition rect_bottom :: "rect \<Rightarrow> int" where "rect_bottom r = rc_y r + rc_height r"

definition rect_contains :: "rect \<Rightarrow> int \<Rightarrow> int \<Rightarrow> bool" where
  "rect_contains r x y \<longleftrightarrow> rc_x r \<le> x \<and> x < rect_right r \<and> rc_y r \<le> y \<and> y < rect_bottom r"

definition rect_intersect :: "rect \<Rightarrow> rect \<Rightarrow> rect" where
  "rect_intersect a b =
     (let left = max (rc_x a) (rc_x b); top = max (rc_y a) (rc_y b);
          right = min (rect_right a) (rect_right b); bottom = min (rect_bottom a) (rect_bottom b)
      in \<lparr>rc_x = left, rc_y = top, rc_width = max 0 (right - left), rc_height = max 0 (bottom - top)\<rparr>)"

record cell =
  ce_text :: "text"
  ce_style :: style
  ce_width :: int

definition blank :: "style \<Rightarrow> cell" where
  "blank st = \<lparr>ce_text = [32], ce_style = st, ce_width = 1\<rparr>"

record surface =
  sf_width :: nat
  sf_height :: nat
  sf_default :: style
  sf_rows :: "cell list list"

section \<open>Operations\<close>

definition new_surface :: "nat \<Rightarrow> nat \<Rightarrow> style \<Rightarrow> surface" where
  "new_surface w h st = \<lparr>sf_width = w, sf_height = h, sf_default = st,
     sf_rows = replicate h (replicate w (blank st))\<rparr>"

definition clear_surface :: "style option \<Rightarrow> surface \<Rightarrow> surface" where
  "clear_surface st s = s\<lparr>sf_rows := replicate (sf_height s) (replicate (sf_width s)
     (blank (case st of Some y \<Rightarrow> y | None \<Rightarrow> sf_default s)))\<rparr>"

definition on_surface :: "int \<Rightarrow> int \<Rightarrow> surface \<Rightarrow> bool" where
  "on_surface x y s \<longleftrightarrow> 0 \<le> x \<and> x < int (sf_width s) \<and> 0 \<le> y \<and> y < int (sf_height s)"

definition get_cell :: "int \<Rightarrow> int \<Rightarrow> surface \<Rightarrow> (exn, cell) result" where
  "get_cell x y s = (if on_surface x y s then Inr (sf_rows s ! nat y ! nat x) else Inl (Exn IndexError []))"

text \<open>A row without the other half of the wide glyph at \<open>x\<close>.\<close>

definition erase_wide_neighbor :: "style \<Rightarrow> nat \<Rightarrow> cell list \<Rightarrow> cell list" where
  "erase_wide_neighbor st x row =
     (if ce_width (row ! x) = 0 \<and> 0 < x then row[x - 1 := blank st]
      else if ce_width (row ! x) = 2 \<and> x + 1 < length row then row[x + 1 := blank st]
      else row)"

definition put_cell :: "style \<Rightarrow> nat \<Rightarrow> cell \<Rightarrow> cell list \<Rightarrow> cell list" where
  "put_cell st x c row0 =
     (let row = erase_wide_neighbor st x row0; width = max 0 (min 2 (ce_width c)) in
      if width = 2 \<and> length row \<le> x + 1 then row
      else
        (let row' = (if width = 2 then erase_wide_neighbor st (x + 1) row else row);
             row'' = row'[x := c\<lparr>ce_width := width\<rparr>]
         in if width = 2 then row''[x + 1 := \<lparr>ce_text = [], ce_style = ce_style c, ce_width = 0\<rparr>] else row''))"

definition set_cell :: "int \<Rightarrow> int \<Rightarrow> cell \<Rightarrow> surface \<Rightarrow> surface" where
  "set_cell x y c s =
     (if \<not> on_surface x y s then s
      else s\<lparr>sf_rows := (sf_rows s)[nat y := put_cell (sf_default s) (nat x) c (sf_rows s ! nat y)]\<rparr>)"

definition fill :: "rect \<Rightarrow> text \<Rightarrow> style option \<Rightarrow> surface \<Rightarrow> surface" where
  "fill r txt st s =
     (let selected = (case st of Some y \<Rightarrow> y | None \<Rightarrow> sf_default s);
          c = rect_intersect r \<lparr>rc_x = 0, rc_y = 0, rc_width = int (sf_width s), rc_height = int (sf_height s)\<rparr>
      in fold (\<lambda>y. fold (\<lambda>x. set_cell x y \<lparr>ce_text = txt, ce_style = selected, ce_width = 1\<rparr>)
           [rc_x c .. rect_right c - 1]) [rc_y c .. rect_bottom c - 1] s)"

fun draw_clusters ::
  "unicode \<Rightarrow> style \<Rightarrow> int \<Rightarrow> int \<Rightarrow> int \<Rightarrow> text list \<Rightarrow> surface \<Rightarrow> int \<times> surface" where
  "draw_clusters U st y limit column [] s = (column, s)"
| "draw_clusters U st y limit column (c # cs) s =
     (if c \<in> {[10], [13]} then (column, s)
      else if grapheme_width U c \<le> 0 then draw_clusters U st y limit column cs s
      else if limit < column + grapheme_width U c then (column, s)
      else draw_clusters U st y limit (column + grapheme_width U c) cs
        (if 0 \<le> column then set_cell column y \<lparr>ce_text = c, ce_style = st, ce_width = grapheme_width U c\<rparr> s else s))"

definition draw_text :: "unicode \<Rightarrow> int \<Rightarrow> int \<Rightarrow> text \<Rightarrow> style option \<Rightarrow> int option \<Rightarrow> surface \<Rightarrow> int \<times> surface" where
  "draw_text U x y txt st max_width s =
     (if y < 0 \<or> int (sf_height s) \<le> y then (0, s)
      else
        (let selected = (case st of Some v \<Rightarrow> v | None \<Rightarrow> sf_default s);
             limit = (case max_width of None \<Rightarrow> int (sf_width s) | Some m \<Rightarrow> min (int (sf_width s)) (x + m))
         in case draw_clusters U selected y limit x (graphemes U txt) s of
              (column, s') \<Rightarrow> (max 0 (column - x), s')))"

fun draw_lines_from ::
  "unicode \<Rightarrow> int \<Rightarrow> int \<Rightarrow> text list \<Rightarrow> style option \<Rightarrow> int option \<Rightarrow> surface \<Rightarrow> surface" where
  "draw_lines_from U x y [] st mw s = s"
| "draw_lines_from U x y (l # ls) st mw s =
     draw_lines_from U x (y + 1) ls st mw (snd (draw_text U x y l st mw s))"

text \<open>A negative maximal height cuts lines from the end, like any negative slice bound.\<close>

definition draw_lines ::
  "unicode \<Rightarrow> int \<Rightarrow> int \<Rightarrow> text list \<Rightarrow> style option \<Rightarrow> int option \<Rightarrow> int option \<Rightarrow> surface \<Rightarrow> surface" where
  "draw_lines U x y lines st mw mh s =
     (let limit = (case mh of None \<Rightarrow> int (length lines) | Some m \<Rightarrow> min (int (length lines)) m);
          shown = (if 0 \<le> limit then take (nat limit) lines else take (length lines - nat (- limit)) lines)
      in draw_lines_from U x y shown st mw s)"

definition surface_rect :: "surface \<Rightarrow> rect" where
  "surface_rect s = \<lparr>rc_x = 0, rc_y = 0, rc_width = int (sf_width s), rc_height = int (sf_height s)\<rparr>"

definition blit_cell :: "surface \<Rightarrow> int \<Rightarrow> int \<Rightarrow> int \<Rightarrow> int \<Rightarrow> surface \<Rightarrow> surface" where
  "blit_cell source sx sy tx ty s =
     (let c = sf_rows source ! nat sy ! nat sx in if ce_width c = 0 then s else set_cell tx ty c s)"

definition blit :: "surface \<Rightarrow> int \<Rightarrow> int \<Rightarrow> rect option \<Rightarrow> surface \<Rightarrow> surface" where
  "blit source x y r s =
     (let rect = (case r of Some v \<Rightarrow> v | None \<Rightarrow> surface_rect source);
          c = rect_intersect rect (surface_rect source)
      in fold (\<lambda>sy s. let ty = y + sy - rc_y c in
             if ty < 0 \<or> int (sf_height s) \<le> ty then s
             else fold (\<lambda>sx. blit_cell source sx sy (x + sx - rc_x c) ty) [rc_x c .. rect_right c - 1] s)
           [rc_y c .. rect_bottom c - 1] s)"

definition crop :: "rect \<Rightarrow> surface \<Rightarrow> surface" where
  "crop r s =
     fold (\<lambda>y. fold (\<lambda>x t.
         if on_surface (rc_x r + x) (rc_y r + y) s then blit_cell s (rc_x r + x) (rc_y r + y) x y t else t)
       [0 .. rc_width r - 1]) [0 .. rc_height r - 1]
       (new_surface (nat (rc_width r)) (nat (rc_height r)) (sf_default s))"

definition plain_lines :: "surface \<Rightarrow> text list" where
  "plain_lines s = map (\<lambda>row. concat (map ce_text (filter (\<lambda>c. ce_width c \<noteq> 0) row))) (sf_rows s)"

definition get_row :: "int \<Rightarrow> surface \<Rightarrow> (exn, cell list) result" where
  "get_row y s = (if 0 \<le> y \<and> y < int (sf_height s) then Inr (sf_rows s ! nat y) else Inl (Exn IndexError []))"

section \<open>Differences\<close>

record surface_diff =
  sd_row :: nat
  sd_start :: nat
  sd_end :: nat

definition differing :: "cell list \<Rightarrow> cell list \<Rightarrow> nat list" where
  "differing row previous = filter (\<lambda>x. row ! x \<noteq> previous ! x) [0..<length row]"

fun back_to_glyph :: "cell list \<Rightarrow> nat \<Rightarrow> nat" where
  "back_to_glyph row 0 = 0"
| "back_to_glyph row (Suc x) = (if ce_width (row ! Suc x) = 0 then back_to_glyph row x else Suc x)"

definition past_glyph :: "cell list \<Rightarrow> nat \<Rightarrow> nat" where
  "past_glyph row x = x + length (takeWhile (\<lambda>c. ce_width c = 0) (drop x row))"

definition row_diff :: "nat \<Rightarrow> cell list \<Rightarrow> cell list \<Rightarrow> surface_diff list" where
  "row_diff y row previous =
     (case differing row previous of
        [] \<Rightarrow> []
      | x # xs \<Rightarrow> [\<lparr>sd_row = y, sd_start = back_to_glyph row x,
                   sd_end = past_glyph row (Suc (last (x # xs)))\<rparr>])"

definition diff :: "surface \<Rightarrow> surface option \<Rightarrow> surface_diff list" where
  "diff s previous =
     (case previous of
        Some p \<Rightarrow>
          if sf_width p = sf_width s \<and> sf_height p = sf_height s
          then concat (map (\<lambda>y. row_diff y (sf_rows s ! y) (sf_rows p ! y)) [0..<sf_height s])
          else map (\<lambda>y. \<lparr>sd_row = y, sd_start = 0, sd_end = sf_width s\<rparr>) [0..<sf_height s]
      | None \<Rightarrow> map (\<lambda>y. \<lparr>sd_row = y, sd_start = 0, sd_end = sf_width s\<rparr>) [0..<sf_height s])"

end
