(* ===== verification/TuiSurfaceCorrect.thy ===== *)
theory TuiSurfaceCorrect
  imports TuiSurface
begin

text \<open>
  Wide glyphs stay whole: whatever is drawn, a cell of width 2 is followed by its continuation and a
  continuation follows a cell of width 2; and the differences between two frames cover every cell
  that changed.
\<close>

section \<open>Rows\<close>

definition widths_ok :: "int list \<Rightarrow> bool" where
  "widths_ok ws \<longleftrightarrow> set ws \<subseteq> {0, 1, 2} \<and> (ws \<noteq> [] \<longrightarrow> hd ws \<noteq> 0 \<and> last ws \<noteq> 2) \<and>
     (\<forall>i. Suc i < length ws \<longrightarrow> (ws ! i = 2) = (ws ! Suc i = 0))"

definition row_ok :: "cell list \<Rightarrow> bool" where
  "row_ok row \<longleftrightarrow> widths_ok (map ce_width row)"

definition erase_width :: "nat \<Rightarrow> int list \<Rightarrow> int list" where
  "erase_width x ws =
     (if ws ! x = 0 \<and> 0 < x then ws[x - 1 := 1]
      else if ws ! x = 2 \<and> x + 1 < length ws then ws[x + 1 := 1] else ws)"

lemma map_erase: "x < length row \<Longrightarrow> map ce_width (erase_wide_neighbor st x row) = erase_width x (map ce_width row)"
  by (simp add: erase_wide_neighbor_def erase_width_def map_update blank_def)

lemma length_erase [simp]: "length (erase_wide_neighbor st x row) = length row" "length (erase_width x ws) = length ws"
  by (simp_all add: erase_wide_neighbor_def erase_width_def)

text \<open>Free at \<open>x\<close>: nothing outside \<open>x\<close> belongs to a glyph at \<open>x\<close>.\<close>

definition width_at :: "int list \<Rightarrow> nat \<Rightarrow> int" where
  "width_at ws i = (if i < length ws then ws ! i else 1)"

lemma widths_ok_alt:
  "widths_ok ws \<longleftrightarrow> set ws \<subseteq> {0, 1, 2} \<and> width_at ws 0 \<noteq> 0 \<and> (\<forall>i. (width_at ws i = 2) = (width_at ws (Suc i) = 0))"
proof -
  have "(ws \<noteq> [] \<longrightarrow> last ws \<noteq> 2) \<and> (\<forall>i. Suc i < length ws \<longrightarrow> (ws ! i = 2) = (ws ! Suc i = 0)) \<longleftrightarrow>
     (\<forall>i. (width_at ws i = 2) = (width_at ws (Suc i) = 0))" (is "?l = ?r")
  proof
    assume l: ?l
    show ?r
    proof
      fix i
      consider "Suc i < length ws" | "Suc i = length ws" | "length ws < Suc i" by linarith
      then show "(width_at ws i = 2) = (width_at ws (Suc i) = 0)"
      proof cases
        case 2
        then have "ws \<noteq> []" "length ws - 1 = i" by auto
        then have "ws \<noteq> []" "last ws = ws ! i" by (simp_all add: last_conv_nth)
        with l 2 show ?thesis by (simp add: width_at_def)
      qed (use l in \<open>auto simp: width_at_def\<close>)
    qed
  next
    assume r: ?r
    have "last ws \<noteq> 2" if "ws \<noteq> []"
      using r [THEN spec, of "length ws - 1"] that by (simp add: width_at_def last_conv_nth)
    moreover have "(ws ! i = 2) = (ws ! Suc i = 0)" if "Suc i < length ws" for i
      using r [THEN spec, of i] that by (simp add: width_at_def)
    ultimately show ?l by blast
  qed
  moreover have "(ws \<noteq> [] \<longrightarrow> hd ws \<noteq> 0) = (width_at ws 0 \<noteq> 0)"
    by (auto simp: width_at_def hd_conv_nth)
  ultimately show ?thesis unfolding widths_ok_def by blast
qed

lemma width_at_update [simp]:
  "width_at (ws[x := k]) i = (if i = x \<and> x < length ws then k else width_at ws i)"
  by (simp add: width_at_def nth_list_update)

definition put_width :: "nat \<Rightarrow> int \<Rightarrow> int list \<Rightarrow> int list" where
  "put_width x k ws =
     (let ws1 = erase_width x ws in
      if k = 2 then (erase_width (x + 1) ws1)[x := 2, x + 1 := 0] else ws1[x := k])"

lemma erase_width_at:
  assumes "x < length ws"
  shows "width_at (erase_width x ws) i =
    (if ws ! x = 0 \<and> 0 < x \<and> i = x - 1 then 1 else if ws ! x = 2 \<and> i = x + 1 then 1 else width_at ws i)"
  using assms by (auto simp: erase_width_def width_at_def nth_list_update)

lemma put_width_ok:
  assumes "widths_ok ws" and "x < length ws" and "k = 1 \<or> k = 2 \<and> x + 1 < length ws"
  shows "widths_ok (put_width x k ws)"
proof -
  let ?w = "width_at ws"
  have set: "set ws \<subseteq> {0, 1, 2}" and start: "?w 0 \<noteq> 0" and link: "(?w i = 2) = (?w (Suc i) = 0)" for i
    using assms(1) by (auto simp: widths_ok_alt)
  have nth: "ws ! x = ?w x" using assms(2) by (simp add: width_at_def)
  have sets: "set (erase_width i vs) \<subseteq> {0, 1, 2}" if "set vs \<subseteq> {0, 1, 2}" for i vs
    using that by (auto simp: erase_width_def dest!: set_update_subset_insert [THEN subsetD])
  from assms(3) show ?thesis
  proof
    assume k: "k = 1"
    have at: "width_at (put_width x k ws) i = (if i = x then 1 else if ?w x = 0 \<and> 0 < x \<and> i = x - 1 then 1
       else if ?w x = 2 \<and> i = x + 1 then 1 else ?w i)" for i
      using assms(2) k by (simp add: put_width_def Let_def erase_width_at nth)
    have "set (put_width x k ws) \<subseteq> {0, 1, 2}"
      using k sets [OF set, of x] set_update_subset_insert [of "erase_width x ws" x 1] by (auto simp: put_width_def Let_def)
    moreover have "width_at (put_width x k ws) 0 \<noteq> 0" using start by (simp add: at)
    moreover have "(width_at (put_width x k ws) i = 2) = (width_at (put_width x k ws) (Suc i) = 0)" for i
      using link [of i] link [of "Suc i"] link [of "i - 1"] by (auto simp: at)
    ultimately show ?thesis unfolding widths_ok_alt by blast
  next
    assume k: "k = 2 \<and> x + 1 < length ws"
    let ?v = "width_at (erase_width x ws)"
    have v: "?v i = (if ?w x = 0 \<and> 0 < x \<and> i = x - 1 then 1 else if ?w x = 2 \<and> i = x + 1 then 1 else ?w i)" for i
      using assms(2) by (simp add: erase_width_at nth)
    have nth': "erase_width x ws ! Suc x = ?v (Suc x)" using k by (simp add: width_at_def)
    have outer: "width_at (erase_width (Suc x) (erase_width x ws)) i =
        (if ?v (Suc x) = 0 \<and> i = x then 1 else if ?v (Suc x) = 2 \<and> i = Suc (Suc x) then 1 else ?v i)" for i
      using erase_width_at [of "Suc x" "erase_width x ws" i] k nth' by simp
    have at: "width_at (put_width x k ws) i = (if i = Suc x then 0 else if i = x then 2
       else if ?v (Suc x) = 2 \<and> i = Suc (Suc x) then 1 else ?v i)" for i
      using k by (simp add: put_width_def Let_def outer)
    have "set (put_width x k ws) \<subseteq> {0, 1, 2}"
      using k sets [OF sets [OF set, of x], of "x + 1"]
        set_update_subset_insert [of "(erase_width (x + 1) (erase_width x ws))[x := 2]" "x + 1" 0]
        set_update_subset_insert [of "erase_width (x + 1) (erase_width x ws)" x 2]
      by (auto simp: put_width_def Let_def)
    moreover have "width_at (put_width x k ws) 0 \<noteq> 0" using start by (auto simp: at v)
    moreover have "(width_at (put_width x k ws) i = 2) = (width_at (put_width x k ws) (Suc i) = 0)" for i
    proof -
      consider "i = x" | "i = Suc x" | "i = Suc (Suc x)" | "Suc i = x" | "i \<noteq> x" "i \<noteq> Suc x" "i \<noteq> Suc (Suc x)" "Suc i \<noteq> x"
        by blast
      then show ?thesis
      proof cases
        case 2
        then show ?thesis using link [of x] link [of "Suc x"] by (auto simp: at v)
      next
        case 3
        then show ?thesis using link [of x] link [of "Suc x"] link [of "Suc (Suc x)"] by (auto simp: at v)
      next
        case 4
        then show ?thesis using link [of i] by (auto simp: at v)
      next
        case 5
        then show ?thesis using link [of i] link [of "Suc i"] by (auto simp: at v)
      qed (simp add: at)
    qed
    ultimately show ?thesis unfolding widths_ok_alt by blast
  qed
qed

lemma put_cell_widths:
  assumes "x < length row" and "ce_width c = 1 \<or> 2 \<le> ce_width c \<and> x + 1 < length row"
  shows "map ce_width (put_cell st x c row) = put_width x (if ce_width c = 1 then 1 else 2) (map ce_width row)"
  using assms by (auto simp: put_cell_def Let_def put_width_def map_erase map_update)

lemma put_cell_ok:
  assumes "row_ok row" and "x < length row" and "ce_width c = 1 \<or> 2 \<le> ce_width c \<and> x + 1 < length row"
  shows "row_ok (put_cell st x c row)"
  using put_width_ok [of "map ce_width row" x "if ce_width c = 1 then 1 else 2"] assms
  by (auto simp: row_ok_def put_cell_widths)

lemma length_put_cell [simp]: "length (put_cell st x c row) = length row"
  by (simp add: put_cell_def Let_def)

section \<open>Surfaces\<close>

definition surface_ok :: "surface \<Rightarrow> bool" where
  "surface_ok s \<longleftrightarrow> length (sf_rows s) = sf_height s \<and>
     (\<forall>row \<in> set (sf_rows s). length row = sf_width s \<and> row_ok row)"

lemma blank_row_ok: "row_ok (replicate n (blank st))"
  by (cases n) (auto simp: row_ok_def widths_ok_def blank_def map_replicate nth_Cons' simp flip: replicate_Suc)

lemma new_surface_ok: "surface_ok (new_surface w h st)"
  by (auto simp: surface_ok_def new_surface_def blank_row_ok)

lemma clear_surface_ok: "surface_ok (clear_surface st s)"
  by (auto simp: surface_ok_def clear_surface_def blank_row_ok)

lemma set_cell_size [simp]: "sf_width (set_cell x y c s) = sf_width s" "sf_height (set_cell x y c s) = sf_height s"
  by (simp_all add: set_cell_def)

text \<open>A glyph that is drawn must have room.\<close>

definition has_room :: "int \<Rightarrow> cell \<Rightarrow> surface \<Rightarrow> bool" where
  "has_room x c s \<longleftrightarrow> ce_width c = 1 \<or> 2 \<le> ce_width c \<and> x + 1 < int (sf_width s)"

lemma set_cell_ok:
  assumes "surface_ok s" and "has_room x c s"
  shows "surface_ok (set_cell x y c s)"
proof (cases "on_surface x y s")
  case True
  let ?row = "sf_rows s ! nat y"
  have y: "nat y < length (sf_rows s)" using True assms(1) by (auto simp: on_surface_def surface_ok_def)
  then have row: "length ?row = sf_width s" "row_ok ?row" using assms(1) by (auto simp: surface_ok_def)
  have x: "nat x < length ?row" using True row by (auto simp: on_surface_def)
  have "row_ok (put_cell (sf_default s) (nat x) c ?row)"
    by (rule put_cell_ok [OF row(2) x]) (use assms(2) True row in \<open>auto simp: has_room_def on_surface_def\<close>)
  with True assms(1) row(1) show ?thesis
    by (auto simp: surface_ok_def set_cell_def dest!: set_update_subset_insert [THEN subsetD])
qed (use assms in \<open>simp add: set_cell_def\<close>)

lemma fold_keeps: "P s \<Longrightarrow> (\<And>x s. P s \<Longrightarrow> P (f x s)) \<Longrightarrow> P (fold f xs s)"
  by (induction xs arbitrary: s) auto

lemma fill_ok: "surface_ok s \<Longrightarrow> surface_ok (fill r txt st s)"
  unfolding fill_def Let_def
  by (rule fold_keeps [where P = surface_ok], assumption, rule fold_keeps [where P = surface_ok], assumption)
     (simp add: set_cell_ok has_room_def)

lemma draw_clusters_ok:
  assumes "surface_ok s" and "limit \<le> int (sf_width s)"
  shows "surface_ok (snd (draw_clusters U st y limit column cs s)) \<and>
     sf_width (snd (draw_clusters U st y limit column cs s)) = sf_width s \<and>
     sf_height (snd (draw_clusters U st y limit column cs s)) = sf_height s"
  using assms
proof (induction U st y limit column cs s rule: draw_clusters.induct)
  case (2 U st y limit column c cs s)
  let ?s = "if 0 \<le> column then set_cell column y \<lparr>ce_text = c, ce_style = st, ce_width = grapheme_width U c\<rparr> s else s"
  show ?case
  proof (cases "c \<in> {[10], [13]} \<or> (\<not> grapheme_width U c \<le> 0 \<and> limit < column + grapheme_width U c)")
    case True
    with 2(3) show ?thesis by auto
  next
    case F: False
    show ?thesis
    proof (cases "grapheme_width U c \<le> 0")
      case True
      with F 2 show ?thesis by simp
    next
      case False
      have "surface_ok ?s" using 2(3,4) F False
        by (auto simp: has_room_def intro!: set_cell_ok)
      moreover have "limit \<le> int (sf_width ?s)" using 2(4) by simp
      ultimately have "surface_ok (snd (draw_clusters U st y limit (column + grapheme_width U c) cs ?s)) \<and>
         sf_width (snd (draw_clusters U st y limit (column + grapheme_width U c) cs ?s)) = sf_width ?s \<and>
         sf_height (snd (draw_clusters U st y limit (column + grapheme_width U c) cs ?s)) = sf_height ?s"
        using 2(2) F False by blast
      then show ?thesis using F False by simp
    qed
  qed
qed simp

lemma draw_text_ok:
  assumes "surface_ok s"
  shows "surface_ok (snd (draw_text U x y txt st mw s))"
proof -
  have "surface_ok (snd (draw_clusters U v y l x cs s))" if "l \<le> int (sf_width s)" for v l cs
    using draw_clusters_ok [OF assms that] by blast
  with assms show ?thesis
    by (auto simp: draw_text_def Let_def case_prod_beta split: option.split)
qed

lemma draw_lines_from_ok: "surface_ok s \<Longrightarrow> surface_ok (draw_lines_from U x y ls st mw s)"
  by (induction U x y ls st mw s rule: draw_lines_from.induct) (simp_all add: draw_text_ok)

text \<open>Whatever is cleared, filled or written on a surface, wide glyphs stay whole: a cell of width 2 is
  followed by its continuation, and a continuation follows a cell of width 2.\<close>

theorem drawing_keeps_glyphs_whole:
  assumes "surface_ok s"
  shows "surface_ok (clear_surface st s) \<and> surface_ok (fill r txt st s) \<and>
     surface_ok (snd (draw_text U x y txt st mw s)) \<and> surface_ok (draw_lines U x y ls st mw mh s) \<and>
     (has_room x c s \<longrightarrow> surface_ok (set_cell x y c s))"
  using assms by (simp add: clear_surface_ok fill_ok draw_text_ok draw_lines_def Let_def draw_lines_from_ok set_cell_ok)

text \<open>Without room the promise is broken: writing a wide glyph into the last column of a row that ends
  with a wide glyph draws nothing, but first cuts that glyph in half.\<close>

theorem wide_glyph_at_the_edge:
  assumes "surface_ok s" and "on_surface x y s" and "x + 1 = int (sf_width s)" and "2 \<le> ce_width c"
    and "ce_width (sf_rows s ! nat y ! nat x) = 0"
  shows "\<not> surface_ok (set_cell x y c s)"
proof
  let ?row = "sf_rows s ! nat y"
  assume ok: "surface_ok (set_cell x y c s)"
  have y: "nat y < length (sf_rows s)" using assms(1,2) by (auto simp: on_surface_def surface_ok_def)
  then have row: "length ?row = sf_width s" "row_ok ?row" using assms(1) by (auto simp: surface_ok_def)
  have x: "Suc (nat x) = length ?row" using assms(2,3) row by (auto simp: on_surface_def)
  have pos: "0 < nat x"
  proof (rule ccontr)
    assume "\<not> 0 < nat x"
    with assms(5) x row(2) show False by (auto simp: row_ok_def widths_ok_def hd_conv_nth)
  qed
  have "put_cell (sf_default s) (nat x) c ?row = ?row[nat x - 1 := blank (sf_default s)]"
    using assms(4,5) x pos by (simp add: put_cell_def Let_def erase_wide_neighbor_def)
  with assms(2) have "sf_rows (set_cell x y c s) ! nat y = ?row[nat x - 1 := blank (sf_default s)]"
    using y by (simp add: set_cell_def)
  moreover have "sf_rows (set_cell x y c s) ! nat y \<in> set (sf_rows (set_cell x y c s))"
    using y assms(2) by (simp add: set_cell_def set_update_memI)
  ultimately have "row_ok (?row[nat x - 1 := blank (sf_default s)])"
    using ok by (auto simp: surface_ok_def)
  then have "Suc i < length ?row \<Longrightarrow>
      (map ce_width (?row[nat x - 1 := blank (sf_default s)]) ! i = 2)
        = (map ce_width (?row[nat x - 1 := blank (sf_default s)]) ! Suc i = 0)" for i
    by (simp add: row_ok_def widths_ok_def del: nth_map)
  from this [of "nat x - 1"] assms(5) x pos show False by (simp add: blank_def)
qed

section \<open>Differences between frames\<close>

lemma differing_bounds:
  assumes "differing row previous = d # ds" and "x < length row" and "row ! x \<noteq> previous ! x"
  shows "d \<le> x \<and> x \<le> last (d # ds)"
proof -
  have sorted: "sorted (d # ds)" unfolding assms(1) [symmetric] differing_def by (rule sorted_wrt_filter) simp
  have "x \<in> set (differing row previous)" using assms(2,3) by (simp add: differing_def)
  then have x: "x \<in> set (d # ds)" unfolding assms(1) .
  have "z \<le> last xs" if "sorted xs" "z \<in> set xs" for z and xs :: "nat list"
    using that by (induction xs) (auto split: if_splits)
  with sorted x show ?thesis by auto
qed

lemma differing_member: "x \<in> set (differing row previous) \<longleftrightarrow> x < length row \<and> row ! x \<noteq> previous ! x"
  by (auto simp: differing_def)

lemma back_to_glyph_le: "back_to_glyph row x \<le> x"
  by (induction row x rule: back_to_glyph.induct) auto

lemma back_to_glyph_stops: "back_to_glyph row x = 0 \<or> ce_width (row ! back_to_glyph row x) \<noteq> 0"
  by (induction row x rule: back_to_glyph.induct) auto

lemma past_glyph_bounds:
  assumes "x \<le> length row"
  shows "x \<le> past_glyph row x \<and> past_glyph row x \<le> length row \<and>
     (past_glyph row x < length row \<longrightarrow> ce_width (row ! past_glyph row x) \<noteq> 0)"
proof -
  let ?n = "length (takeWhile (\<lambda>c. ce_width c = 0) (drop x row))"
  have le: "?n \<le> length (drop x row)" by (rule length_takeWhile_le)
  have "ce_width (drop x row ! ?n) \<noteq> 0" if "?n < length (drop x row)"
    using nth_length_takeWhile [OF that] by simp
  with le assms show ?thesis by (auto simp: past_glyph_def)
qed

lemma row_diff_covers:
  assumes "length row = length previous" and "x < length row" and "row ! x \<noteq> previous ! x"
  obtains d where "row_diff y row previous = [d]" "sd_row d = y" "sd_start d \<le> x" "x < sd_end d"
proof -
  have "x \<in> set (differing row previous)" using assms by (simp add: differing_member)
  then obtain f fs where l: "differing row previous = f # fs" by (cases "differing row previous") auto
  note bounds = differing_bounds [OF l assms(2,3)]
  have "last (f # fs) \<in> set (differing row previous)" unfolding l by (rule last_in_set) simp
  then have "Suc (last (f # fs)) \<le> length row" by (simp add: differing_member)
  from past_glyph_bounds [OF this] have "x < past_glyph row (Suc (last (f # fs)))" using bounds by linarith
  moreover have "back_to_glyph row f \<le> x" using back_to_glyph_le [of row f] bounds by linarith
  ultimately show thesis using that by (simp add: row_diff_def l)
qed

lemma row_diff_bounds:
  assumes "d \<in> set (row_diff y row previous)" and "row_ok row"
  shows "sd_row d = y \<and> sd_start d < sd_end d \<and> sd_end d \<le> length row \<and> ce_width (row ! sd_start d) \<noteq> 0 \<and>
     (sd_end d < length row \<longrightarrow> ce_width (row ! sd_end d) \<noteq> 0) \<and> row \<noteq> previous"
proof -
  obtain f fs where l: "differing row previous = f # fs"
      "d = \<lparr>sd_row = y, sd_start = back_to_glyph row f, sd_end = past_glyph row (Suc (last (f # fs)))\<rparr>"
    using assms(1) by (cases "differing row previous") (auto simp: row_diff_def)
  have m: "f \<in> set (differing row previous)" "last (f # fs) \<in> set (differing row previous)"
    unfolding l(1) by (rule list.set_intros(1), rule last_in_set) simp
  then have f: "f < length row" "row ! f \<noteq> previous ! f" and z: "Suc (last (f # fs)) \<le> length row"
    by (simp_all add: differing_member)
  have "f \<le> last (f # fs)" using differing_bounds [OF l(1) f] by blast
  moreover have "ce_width (row ! back_to_glyph row f) \<noteq> 0"
    using back_to_glyph_stops [of row f] assms(2) f(1)
    by (auto simp: row_ok_def widths_ok_def hd_conv_nth)
  ultimately show ?thesis
    using past_glyph_bounds [OF z] back_to_glyph_le [of row f] f(2) by (auto simp: l(2))
qed

text \<open>Repainting the reported spans is enough and never splits a glyph: every cell that differs from the
  previous frame of the same size lies in the span of its row, only rows that changed have a span, and
  each span starts and ends at the border of a glyph.\<close>

theorem diff_covers_changes:
  assumes "surface_ok s" and "surface_ok p" and "sf_width p = sf_width s" and "sf_height p = sf_height s"
  shows "(\<forall>y < sf_height s. \<forall>x < sf_width s. sf_rows s ! y ! x \<noteq> sf_rows p ! y ! x \<longrightarrow>
      (\<exists>d \<in> set (diff s (Some p)). sd_row d = y \<and> sd_start d \<le> x \<and> x < sd_end d)) \<and>
    (\<forall>d \<in> set (diff s (Some p)). sd_row d < sf_height s \<and>
       sf_rows s ! sd_row d \<noteq> sf_rows p ! sd_row d \<and>
       sd_start d < sd_end d \<and> sd_end d \<le> sf_width s \<and>
       ce_width (sf_rows s ! sd_row d ! sd_start d) \<noteq> 0 \<and>
       (sd_end d < sf_width s \<longrightarrow> ce_width (sf_rows s ! sd_row d ! sd_end d) \<noteq> 0))"
proof -
  have rows: "length (sf_rows q ! y) = sf_width s" "row_ok (sf_rows q ! y)" if "q \<in> {s, p}" "y < sf_height s" for q y
    using that assms by (auto simp: surface_ok_def)
  have diff: "diff s (Some p) = concat (map (\<lambda>y. row_diff y (sf_rows s ! y) (sf_rows p ! y)) [0..<sf_height s])"
    using assms(3,4) by (simp add: diff_def)
  have "\<exists>d \<in> set (diff s (Some p)). sd_row d = y \<and> sd_start d \<le> x \<and> x < sd_end d"
    if "y < sf_height s" "x < sf_width s" "sf_rows s ! y ! x \<noteq> sf_rows p ! y ! x" for x y
  proof -
    have "length (sf_rows s ! y) = length (sf_rows p ! y)" "x < length (sf_rows s ! y)"
      using rows [of s y] rows [of p y] that(1,2) by auto
    from this that(3) obtain d where d: "row_diff y (sf_rows s ! y) (sf_rows p ! y) = [d]" "sd_row d = y"
      "sd_start d \<le> x" "x < sd_end d" by (rule row_diff_covers)
    then have "d \<in> set (diff s (Some p))" unfolding diff using that(1) by force
    with d show ?thesis by blast
  qed
  moreover have "sd_row d < sf_height s \<and> sf_rows s ! sd_row d \<noteq> sf_rows p ! sd_row d \<and>
       sd_start d < sd_end d \<and> sd_end d \<le> sf_width s \<and>
       ce_width (sf_rows s ! sd_row d ! sd_start d) \<noteq> 0 \<and>
       (sd_end d < sf_width s \<longrightarrow> ce_width (sf_rows s ! sd_row d ! sd_end d) \<noteq> 0)"
    if "d \<in> set (diff s (Some p))" for d
  proof -
    from that obtain y where y: "y < sf_height s" "d \<in> set (row_diff y (sf_rows s ! y) (sf_rows p ! y))"
      unfolding diff by auto
    from row_diff_bounds [OF y(2)] rows [of s y] y(1) show ?thesis by auto
  qed
  ultimately show ?thesis by blast
qed

end
