(* ===== verification/TuiEditor.thy ===== *)
theory TuiEditor
  imports TuiWidth
begin

text \<open>
  The line editor of the prompt (\<^verbatim>\<open>src/pi_agent/tui/editor.py\<close>): text, cursor and history,
  the keys it handles, and where the cursor is shown.  Texts are lists of code points; the cursor is a
  position in the text.
\<close>

section \<open>State\<close>

record text_editor =
  ed_text :: "text"
  ed_cursor :: nat
  ed_history_limit :: int
  ed_history :: "text list"
  ed_history_index :: "nat option"
  ed_history_draft :: "text"
  ed_preferred_column :: "nat option"

definition clamp_cursor :: "int \<Rightarrow> text \<Rightarrow> nat" where
  "clamp_cursor i v = nat (min (max 0 i) (int (length v)))"

definition new_editor :: "text \<Rightarrow> int \<Rightarrow> int \<Rightarrow> text_editor" where
  "new_editor v i limit =
     \<lparr>ed_text = v, ed_cursor = clamp_cursor i v, ed_history_limit = limit, ed_history = [],
      ed_history_index = None, ed_history_draft = [], ed_preferred_column = None\<rparr>"

definition set_text :: "text \<Rightarrow> int option \<Rightarrow> text_editor \<Rightarrow> text_editor" where
  "set_text v i ed = ed\<lparr>ed_text := v,
     ed_cursor := (case i of None \<Rightarrow> length v | Some k \<Rightarrow> clamp_cursor k v), ed_preferred_column := None\<rparr>"

section \<open>Positions\<close>

fun ends_of :: "nat \<Rightarrow> text list \<Rightarrow> nat list" where
  "ends_of p [] = []"
| "ends_of p (c # cs) = (p + length c) # ends_of (p + length c) cs"

definition grapheme_boundaries :: "unicode \<Rightarrow> text \<Rightarrow> nat list" where
  "grapheme_boundaries U v = 0 # ends_of 0 (graphemes U v)"

definition previous_boundary :: "unicode \<Rightarrow> text \<Rightarrow> nat \<Rightarrow> nat" where
  "previous_boundary U v cursor =
     foldr max (filter (\<lambda>b. b < cursor) (grapheme_boundaries U v)) 0"

definition next_boundary :: "unicode \<Rightarrow> text \<Rightarrow> nat \<Rightarrow> nat" where
  "next_boundary U v cursor =
     (case filter (\<lambda>b. cursor < b) (grapheme_boundaries U v) of [] \<Rightarrow> cursor | b # _ \<Rightarrow> b)"

text \<open>\<^verbatim>\<open>rfind\<close> of a line feed before the cursor, plus one, and the end of the line.\<close>

fun back_while :: "(codepoint \<Rightarrow> bool) \<Rightarrow> text \<Rightarrow> nat \<Rightarrow> nat" where
  "back_while P t 0 = 0"
| "back_while P t (Suc i) = (if P (t ! i) then back_while P t i else Suc i)"

definition line_begin :: "text \<Rightarrow> nat \<Rightarrow> nat" where
  "line_begin t cursor = back_while (\<lambda>c. c \<noteq> 10) t cursor"

definition line_stop :: "text \<Rightarrow> nat \<Rightarrow> nat" where
  "line_stop t cursor =
     (if 10 \<in> set (drop cursor t) then cursor + length (takeWhile (\<lambda>c. c \<noteq> 10) (drop cursor t))
      else length t)"

text \<open>\<^verbatim>\<open>str.isspace\<close> of one character.\<close>

definition white_space :: "codepoint \<Rightarrow> bool" where
  "white_space c \<longleftrightarrow> 9 \<le> c \<and> c \<le> 13 \<or> 28 \<le> c \<and> c \<le> 32 \<or> 0x2000 \<le> c \<and> c \<le> 0x200A \<or>
     c \<in> {0x85, 0xA0, 0x1680, 0x2028, 0x2029, 0x202F, 0x205F, 0x3000}"

definition strip_text :: "text \<Rightarrow> text" where
  "strip_text s = rev (dropWhile white_space (rev (dropWhile white_space s)))"

definition word_left :: "text \<Rightarrow> nat \<Rightarrow> nat" where
  "word_left t cursor = back_while (\<lambda>c. \<not> white_space c) t (back_while white_space t cursor)"

definition line_starts :: "text \<Rightarrow> nat list" where
  "line_starts t = 0 # map Suc (filter (\<lambda>i. t ! i = 10) [0..<length t])"

definition line_for_cursor :: "nat list \<Rightarrow> nat \<Rightarrow> nat" where
  "line_for_cursor starts cursor =
     (case filter (\<lambda>i. starts ! i \<le> cursor) (rev [0..<length starts]) of [] \<Rightarrow> 0 | i # _ \<Rightarrow> i)"

section \<open>Editing\<close>

definition insert_text :: "text \<Rightarrow> text_editor \<Rightarrow> text_editor" where
  "insert_text v ed =
     (if v = [] then ed
      else ed\<lparr>ed_text := take (ed_cursor ed) (ed_text ed) @ v @ drop (ed_cursor ed) (ed_text ed),
              ed_cursor := ed_cursor ed + length v, ed_preferred_column := None, ed_history_index := None\<rparr>)"

definition backspace :: "unicode \<Rightarrow> text_editor \<Rightarrow> text_editor" where
  "backspace U ed =
     (let start = previous_boundary U (ed_text ed) (ed_cursor ed) in
      if start = ed_cursor ed then ed
      else ed\<lparr>ed_text := take start (ed_text ed) @ drop (ed_cursor ed) (ed_text ed),
              ed_cursor := start, ed_preferred_column := None, ed_history_index := None\<rparr>)"

definition delete_forward :: "unicode \<Rightarrow> text_editor \<Rightarrow> text_editor" where
  "delete_forward U ed =
     (let stop = next_boundary U (ed_text ed) (ed_cursor ed) in
      if stop = ed_cursor ed then ed
      else ed\<lparr>ed_text := take (ed_cursor ed) (ed_text ed) @ drop stop (ed_text ed),
              ed_preferred_column := None, ed_history_index := None\<rparr>)"

definition move_to :: "nat \<Rightarrow> text_editor \<Rightarrow> text_editor" where
  "move_to i ed = ed\<lparr>ed_cursor := i, ed_preferred_column := None\<rparr>"

definition move_left :: "unicode \<Rightarrow> text_editor \<Rightarrow> text_editor" where
  "move_left U ed = move_to (previous_boundary U (ed_text ed) (ed_cursor ed)) ed"

definition move_right :: "unicode \<Rightarrow> text_editor \<Rightarrow> text_editor" where
  "move_right U ed = move_to (next_boundary U (ed_text ed) (ed_cursor ed)) ed"

definition move_home :: "text_editor \<Rightarrow> text_editor" where
  "move_home ed = move_to (line_begin (ed_text ed) (ed_cursor ed)) ed"

definition move_end :: "text_editor \<Rightarrow> text_editor" where
  "move_end ed = move_to (line_stop (ed_text ed) (ed_cursor ed)) ed"

definition move_word_left :: "text_editor \<Rightarrow> text_editor" where
  "move_word_left ed = move_to (word_left (ed_text ed) (ed_cursor ed)) ed"

definition delete_word_left :: "text_editor \<Rightarrow> text_editor" where
  "delete_word_left ed =
     (let moved = move_word_left ed in
      moved\<lparr>ed_text := take (ed_cursor moved) (ed_text ed) @ drop (ed_cursor ed) (ed_text ed),
            ed_history_index := None\<rparr>)"

definition kill_to_start :: "text_editor \<Rightarrow> text_editor" where
  "kill_to_start ed =
     (let start = line_begin (ed_text ed) (ed_cursor ed) in
      ed\<lparr>ed_text := take start (ed_text ed) @ drop (ed_cursor ed) (ed_text ed), ed_cursor := start\<rparr>)"

definition kill_to_end :: "text_editor \<Rightarrow> text_editor" where
  "kill_to_end ed = ed\<lparr>ed_text := take (ed_cursor ed) (ed_text ed)
     @ drop (line_stop (ed_text ed) (ed_cursor ed)) (ed_text ed)\<rparr>"

definition move_vertical :: "int \<Rightarrow> text_editor \<Rightarrow> text_editor" where
  "move_vertical direction ed =
     (let starts = line_starts (ed_text ed);
          line = line_for_cursor starts (ed_cursor ed);
          column = ed_cursor ed - starts ! line;
          preferred = (case ed_preferred_column ed of None \<Rightarrow> column | Some p \<Rightarrow> p);
          target = nat (min (max 0 (int line + direction)) (int (length starts) - 1));
          target_end = line_stop (ed_text ed) (starts ! target)
      in ed\<lparr>ed_preferred_column := Some preferred, ed_cursor := min (starts ! target + preferred) target_end\<rparr>)"

section \<open>History\<close>

definition recall :: "nat \<Rightarrow> text_editor \<Rightarrow> text_editor" where
  "recall i ed = (set_text (ed_history ed ! i) None ed)\<lparr>ed_history_index := Some i\<rparr>"

definition previous_history :: "text_editor \<Rightarrow> text_editor" where
  "previous_history ed =
     (if ed_history ed = [] then ed
      else (case ed_history_index ed of
          None \<Rightarrow> recall (length (ed_history ed) - 1) (ed\<lparr>ed_history_draft := ed_text ed\<rparr>)
        | Some i \<Rightarrow> recall (i - 1) ed))"

definition next_history :: "text_editor \<Rightarrow> text_editor" where
  "next_history ed =
     (case ed_history_index ed of
        None \<Rightarrow> ed
      | Some i \<Rightarrow>
          if length (ed_history ed) \<le> Suc i
          then set_text (ed_history_draft ed) None (ed\<lparr>ed_history_index := None\<rparr>)
          else recall (Suc i) ed)"

definition remember_entry :: "text \<Rightarrow> text_editor \<Rightarrow> text_editor" where
  "remember_entry v ed =
     (let value = strip_text v; h = ed_history ed @ [value] in
      if value \<noteq> [] \<and> (ed_history ed = [] \<or> last (ed_history ed) \<noteq> value)
      then ed\<lparr>ed_history := (if ed_history_limit ed < int (length h)
             then drop (nat (int (length h) - ed_history_limit ed)) h else h)\<rparr>
      else ed)"

definition submit :: "text_editor \<Rightarrow> text \<times> text_editor" where
  "submit ed =
     (let value = strip_text (ed_text ed) in
      (value, (set_text [] None (remember_entry value ed))\<lparr>ed_history_index := None, ed_history_draft := []\<rparr>))"

section \<open>Events\<close>

record key_event =
  ke_key :: string
  ke_text :: "text"
  ke_alt :: bool
  ke_ctrl :: bool
  ke_shift :: bool

datatype terminal_event =
    KeyTerminalEvent key_event
  | PasteEvent "text"
  | ResizeEvent int int
  | MouseEvent int int int string bool bool bool
  | TickEvent pyfloat
  | EndOfInputEvent

fun join_crlf :: "text \<Rightarrow> text" where
  "join_crlf (c # d # s) = (if c = 13 \<and> d = 10 then 10 # join_crlf s else c # join_crlf (d # s))"
| "join_crlf s = s"

definition pasted_text :: "text \<Rightarrow> text" where
  "pasted_text s = map (\<lambda>c. if c = 13 then 10 else c) (join_crlf s)"

text \<open>\<^verbatim>\<open>text.lower()\<close>, as far as it is compared with a letter: besides the capital letters only
  the Kelvin sign becomes an ASCII letter.\<close>

definition lower_letter :: "text \<Rightarrow> codepoint option" where
  "lower_letter s = (case s of
       [c] \<Rightarrow> Some (if 65 \<le> c \<and> c \<le> 90 then c + 32 else if c = 0x212A then 107 else c)
     | _ \<Rightarrow> None)"

definition handle_control :: "unicode \<Rightarrow> text \<Rightarrow> text_editor \<Rightarrow> string \<times> text_editor" where
  "handle_control U s ed =
     (if lower_letter s = Some 97 then (''changed'', move_home ed)
      else if lower_letter s = Some 101 then (''changed'', move_end ed)
      else if lower_letter s = Some 98 then (''changed'', move_left U ed)
      else if lower_letter s = Some 102 then (''changed'', move_right U ed)
      else if lower_letter s = Some 119 then (''changed'', delete_word_left ed)
      else if lower_letter s = Some 117 then (''changed'', kill_to_start ed)
      else if lower_letter s = Some 107 then (''changed'', kill_to_end ed)
      else (''none'', ed))"

definition handle_key :: "unicode \<Rightarrow> key_event \<Rightarrow> text_editor \<Rightarrow> string \<times> text_editor" where
  "handle_key U k ed =
     (if ke_key k = ''character'' then
        (if ke_ctrl k then handle_control U (ke_text k) ed else (''changed'', insert_text (ke_text k) ed))
      else if ke_key k = ''backspace'' then (''changed'', backspace U ed)
      else if ke_key k = ''delete'' then (''changed'', delete_forward U ed)
      else if ke_key k = ''left'' then (''changed'', move_left U ed)
      else if ke_key k = ''right'' then (''changed'', move_right U ed)
      else if ke_key k = ''home'' then (''changed'', move_home ed)
      else if ke_key k = ''end'' then (''changed'', move_end ed)
      else if ke_key k = ''up'' then
        (''changed'', if 10 \<in> set (ed_text ed) then move_vertical (- 1) ed else previous_history ed)
      else if ke_key k = ''down'' then
        (''changed'', if 10 \<in> set (ed_text ed) then move_vertical 1 ed else next_history ed)
      else if ke_key k = ''enter'' then
        (if ke_shift k \<or> ke_alt k then (''changed'', insert_text [10] ed) else (''submit'', ed))
      else if ke_key k \<in> {''escape'', ''ctrl_c''} then (''cancel'', ed)
      else if ke_key k = ''ctrl_d'' then (if ed_text ed = [] then ''exit'' else ''none'', ed)
      else if ke_key k = ''ctrl_l'' then (''clear_screen'', ed)
      else (''none'', ed))"

definition handle :: "unicode \<Rightarrow> terminal_event \<Rightarrow> text_editor \<Rightarrow> string \<times> text_editor" where
  "handle U ev ed = (case ev of
       PasteEvent s \<Rightarrow> (''changed'', insert_text (pasted_text s) ed)
     | KeyTerminalEvent k \<Rightarrow> handle_key U k ed
     | _ \<Rightarrow> (''none'', ed))"

section \<open>Showing the text\<close>

record editor_render =
  er_lines :: "text list"
  er_cursor_x :: int
  er_cursor_y :: int

definition prompted :: "unicode \<Rightarrow> text \<Rightarrow> text list \<Rightarrow> text list" where
  "prompted U prompt ls = (case ls of [] \<Rightarrow> []
     | l # rest \<Rightarrow> (prompt @ l) # map (\<lambda>r. replicate (nat (cell_width U prompt)) 32 @ r) rest)"

text \<open>Wrapping raises only for a width that is not positive, which is refused before.\<close>

definition render_editor ::
  "unicode \<Rightarrow> int \<Rightarrow> int option \<Rightarrow> text \<Rightarrow> text_editor \<Rightarrow> (exn, editor_render) result" where
  "render_editor U width height prompt ed =
     (if width \<le> cell_width U prompt
      then Inl (Exn ValueError ''editor width is too small for the prompt'')
      else
        bindE (wrap_ansi U (ed_text ed) (width - cell_width U prompt)) (\<lambda>wrapped.
        bindE (wrap_ansi U (take (ed_cursor ed) (ed_text ed)) (width - cell_width U prompt)) (\<lambda>before.
        let cursor_y = int (length before) - 1;
            cursor_x = cell_width U prompt + cell_width U (last before);
            lines = prompted U prompt wrapped;
            shown = (\<lambda>visible y. Inr \<lparr>er_lines = visible, er_cursor_x = min (width - 1) cursor_x,
                       er_cursor_y = min (max 0 y) (max 0 (int (length visible) - 1))\<rparr>)
        in case height of
             None \<Rightarrow> shown lines cursor_y
           | Some h \<Rightarrow>
               if h \<le> 0 then Inr \<lparr>er_lines = [], er_cursor_x = 0, er_cursor_y = 0\<rparr>
               else let start = max 0 (cursor_y - h + 1) in
                 shown (take (nat h) (drop (nat start) lines)) (cursor_y - start))))"

end
