(* ===== verification/TuiEditorCorrect.thy ===== *)
theory TuiEditorCorrect
  imports TuiEditor
begin

text \<open>
  What the line editor keeps: the cursor stays in the text and the history index in the history,
  whatever keys arrive; deleting takes whole grapheme clusters; walking into the history and back
  restores the draft; and a line break at the end of the text is not shown.
\<close>

section \<open>The invariant\<close>

definition editor_ok :: "text_editor \<Rightarrow> bool" where
  "editor_ok ed \<longleftrightarrow> ed_cursor ed \<le> length (ed_text ed) \<and>
     (case ed_history_index ed of None \<Rightarrow> True | Some i \<Rightarrow> i < length (ed_history ed))"

lemma new_editor_ok: "editor_ok (new_editor v i limit)"
  by (simp add: editor_ok_def new_editor_def clamp_cursor_def)

lemma back_while_le: "back_while P t i \<le> i"
  by (induction P t i rule: back_while.induct) auto

lemma line_begin_le: "line_begin t i \<le> i"
  by (simp add: line_begin_def back_while_le)

lemma word_left_le: "word_left t i \<le> i"
  using back_while_le [of "\<lambda>c. \<not> white_space c" t "back_while white_space t i"] back_while_le [of white_space t i]
  by (simp add: word_left_def)

lemma line_stop_bounds: "i \<le> length t \<Longrightarrow> i \<le> line_stop t i \<and> line_stop t i \<le> length t"
  using length_takeWhile_le [of "\<lambda>c. c \<noteq> 10" "drop i t"] by (auto simp: line_stop_def)

lemma ends_of_bounds: "b \<in> set (ends_of p cs) \<Longrightarrow> p \<le> b \<and> b \<le> p + length (concat cs)"
  by (induction p cs rule: ends_of.induct) fastforce+

lemma boundaries_bounds: "b \<in> set (grapheme_boundaries U v) \<Longrightarrow> b \<le> length v"
  using ends_of_bounds [of b 0 "graphemes U v"] by (auto simp: grapheme_boundaries_def)

lemma foldr_max_le: "(\<forall>x \<in> set xs. x \<le> m) \<Longrightarrow> foldr max xs (0 :: nat) \<le> m"
  by (induction xs) auto

lemma previous_boundary_le: "previous_boundary U v i \<le> i"
  by (auto simp: previous_boundary_def intro: foldr_max_le)

lemma next_boundary_bounds: "i \<le> length v \<Longrightarrow> i \<le> next_boundary U v i \<and> next_boundary U v i \<le> length v"
proof (cases "filter (\<lambda>b. i < b) (grapheme_boundaries U v)")
  case (Cons b bs)
  then have "b \<in> set (filter (\<lambda>b. i < b) (grapheme_boundaries U v))" by (metis list.set_intros(1))
  then have "i < b" "b \<le> length v" using boundaries_bounds [of b U v] by auto
  with Cons show ?thesis by (simp add: next_boundary_def)
qed (simp add: next_boundary_def)

lemma line_starts_bounds: "x \<in> set (line_starts t) \<Longrightarrow> x \<le> length t"
  by (auto simp: line_starts_def)

lemma line_starts_nth: "i < length (line_starts t) \<Longrightarrow> line_starts t ! i \<le> length t"
  using line_starts_bounds nth_mem by blast

lemma set_text_ok: "editor_ok ed \<Longrightarrow> editor_ok (set_text v i ed)"
  by (auto simp: editor_ok_def set_text_def clamp_cursor_def split: option.split)

lemma insert_text_ok: "editor_ok ed \<Longrightarrow> editor_ok (insert_text v ed)"
  by (simp add: editor_ok_def insert_text_def)

lemma backspace_ok: "editor_ok ed \<Longrightarrow> editor_ok (backspace U ed)"
  using previous_boundary_le [of U "ed_text ed" "ed_cursor ed"]
  by (auto simp: editor_ok_def backspace_def Let_def split: option.splits)

lemma delete_forward_ok: "editor_ok ed \<Longrightarrow> editor_ok (delete_forward U ed)"
  by (auto simp: editor_ok_def delete_forward_def Let_def split: option.splits)

lemma moves_ok:
  assumes "editor_ok ed"
  shows "editor_ok (move_left U ed)" "editor_ok (move_right U ed)" "editor_ok (move_home ed)"
    "editor_ok (move_end ed)" "editor_ok (delete_word_left ed)" "editor_ok (kill_to_start ed)" "editor_ok (kill_to_end ed)"
proof -
  have c: "ed_cursor ed \<le> length (ed_text ed)" using assms by (simp add: editor_ok_def)
  show "editor_ok (move_left U ed)" "editor_ok (move_right U ed)" "editor_ok (move_home ed)" "editor_ok (move_end ed)"
    using assms c previous_boundary_le [of U "ed_text ed" "ed_cursor ed"] next_boundary_bounds [OF c, of U]
      line_begin_le [of "ed_text ed" "ed_cursor ed"] line_stop_bounds [OF c]
    by (simp_all add: editor_ok_def move_left_def move_right_def move_home_def move_end_def move_to_def
        split: option.splits)
  show "editor_ok (delete_word_left ed)" "editor_ok (kill_to_start ed)" "editor_ok (kill_to_end ed)"
    using assms c word_left_le [of "ed_text ed" "ed_cursor ed"] line_begin_le [of "ed_text ed" "ed_cursor ed"]
    by (simp_all add: editor_ok_def delete_word_left_def move_word_left_def move_to_def Let_def
        kill_to_start_def kill_to_end_def split: option.splits)
qed

lemma move_vertical_ok:
  assumes "editor_ok ed" shows "editor_ok (move_vertical direction ed)"
proof -
  define target where "target = nat (min (max 0 (int (line_for_cursor (line_starts (ed_text ed)) (ed_cursor ed)) + direction))
     (int (length (line_starts (ed_text ed))) - 1))"
  have "0 < length (line_starts (ed_text ed))" by (simp add: line_starts_def)
  then have "target < length (line_starts (ed_text ed))" unfolding target_def by linarith
  then have "line_starts (ed_text ed) ! target \<le> length (ed_text ed)" by (rule line_starts_nth)
  from line_stop_bounds [OF this] show ?thesis
    using assms by (auto simp: editor_ok_def move_vertical_def Let_def min.coboundedI2 split: option.splits simp flip: target_def)
qed

lemma recall_ok: "i < length (ed_history ed) \<Longrightarrow> editor_ok (recall i ed)"
  by (simp add: editor_ok_def recall_def set_text_def)

lemma history_ok:
  assumes "editor_ok ed" shows "editor_ok (previous_history ed)" "editor_ok (next_history ed)"
proof -
  show "editor_ok (previous_history ed)"
    using assms by (cases "ed_history_index ed")
      (auto simp: previous_history_def intro!: recall_ok, auto simp: editor_ok_def)
  show "editor_ok (next_history ed)"
    using assms by (cases "ed_history_index ed")
      (auto simp: next_history_def intro!: recall_ok, auto simp: editor_ok_def set_text_def)
qed

lemma submit_ok: "editor_ok (snd (submit ed))"
  by (simp add: submit_def Let_def editor_ok_def set_text_def)

text \<open>Whatever event arrives, and on submission, the cursor stays within the text and the history index
  within the history.\<close>

theorem editor_stays_sound:
  assumes "editor_ok ed"
  shows "editor_ok (snd (handle U ev ed)) \<and> editor_ok (snd (submit ed)) \<and> editor_ok (set_text v i ed)"
  using assms
  by (auto simp: handle_def handle_key_def handle_control_def submit_ok set_text_ok insert_text_ok backspace_ok
      delete_forward_ok moves_ok move_vertical_ok history_ok split: terminal_event.split)

section \<open>Whole grapheme clusters\<close>

lemma ends_of_append: "ends_of p (xs @ ys) = ends_of p xs @ ends_of (p + length (concat xs)) ys"
  by (induction p xs rule: ends_of.induct) (simp_all add: add.assoc)

lemma boundaries_split:
  assumes "graphemes U t = pre @ g # post"
  shows "\<exists>lo hi. grapheme_boundaries U t =
     lo @ [length (concat pre), length (concat pre) + length g] @ hi \<and>
     (\<forall>b \<in> set lo. b \<le> length (concat pre)) \<and> (\<forall>b \<in> set hi. length (concat pre) + length g \<le> b)"
proof (cases pre rule: rev_cases)
  case Nil
  have "\<forall>b \<in> set (ends_of (length g) post). length g \<le> b" using ends_of_bounds by blast
  with Nil assms show ?thesis
    by (intro exI [of _ "[]"] exI [of _ "ends_of (length g) post"]) (simp add: grapheme_boundaries_def)
next
  case (snoc ps q)
  have "\<forall>b \<in> set (ends_of 0 ps). b \<le> length (concat ps)" using ends_of_bounds [of _ 0 ps] by auto
  moreover have "\<forall>b \<in> set (ends_of (length (concat pre) + length g) post). length (concat pre) + length g \<le> b"
    using ends_of_bounds by blast
  ultimately show ?thesis using snoc assms
    by (intro exI [of _ "0 # ends_of 0 ps"] exI [of _ "ends_of (length (concat pre) + length g) post"])
       (auto simp: grapheme_boundaries_def ends_of_append add.assoc intro: trans_le_add1)
qed

lemma grapheme_length_pos: "graphemes U t = pre @ g # post \<Longrightarrow> 0 < length g"
  using graphemes_nonempty [of U t] by (metis in_set_conv_decomp length_greater_0_conv)

lemma foldr_max_eq: "m \<in> set xs \<Longrightarrow> (\<forall>x \<in> set xs. x \<le> m) \<Longrightarrow> foldr max xs (0 :: nat) = m"
proof (induction xs)
  case (Cons x xs)
  show ?case
  proof (cases "m \<in> set xs")
    case False
    then have "x = m" "foldr max xs 0 \<le> m" using Cons.prems foldr_max_le [of xs m] by auto
    then show ?thesis by simp
  qed (use Cons in \<open>auto simp: max_def\<close>)
qed simp

lemma boundary_steps:
  assumes "graphemes U t = pre @ g # post"
  shows "previous_boundary U t (length (concat pre) + length g) = length (concat pre)"
    and "next_boundary U t (length (concat pre)) = length (concat pre) + length g"
proof -
  let ?a = "length (concat pre)" and ?b = "length (concat pre) + length g"
  have g: "0 < length g" by (rule grapheme_length_pos [OF assms])
  obtain lo hi where b: "grapheme_boundaries U t = lo @ [?a, ?b] @ hi"
      "\<forall>x \<in> set lo. x \<le> ?a" "\<forall>x \<in> set hi. ?b \<le> x" using boundaries_split [OF assms] by blast
  have "filter (\<lambda>x. x < ?b) hi = []" using b(3) by (auto simp: filter_empty_conv)
  then have "set (filter (\<lambda>x. x < ?b) (grapheme_boundaries U t)) = insert ?a (set lo)"
    using b(2) g by (auto simp: b(1))
  then show "previous_boundary U t ?b = ?a"
    unfolding previous_boundary_def by (intro foldr_max_eq) (use b(2) in auto)
  have "filter (\<lambda>x. ?a < x) lo = []" using b(2) by (auto simp: filter_empty_conv)
  then show "next_boundary U t ?a = ?b" using g by (simp add: next_boundary_def b(1))
qed

text \<open>Between two clusters, backspace removes exactly the cluster before the cursor and delete exactly
  the cluster after it; the rest of the text is untouched.\<close>

theorem deletion_takes_clusters:
  assumes "graphemes U (ed_text ed) = pre @ g # post"
  shows "(ed_cursor ed = length (concat (pre @ [g])) \<longrightarrow>
      ed_text (backspace U ed) = concat (pre @ post) \<and> ed_cursor (backspace U ed) = length (concat pre)) \<and>
    (ed_cursor ed = length (concat pre) \<longrightarrow>
      ed_text (delete_forward U ed) = concat (pre @ post) \<and> ed_cursor (delete_forward U ed) = ed_cursor ed)"
proof -
  have t: "ed_text ed = concat pre @ g @ concat post"
    using concat_graphemes [of U "ed_text ed"] assms by simp
  have g: "0 < length g" by (rule grapheme_length_pos [OF assms])
  note steps = boundary_steps [OF assms]
  have t': "previous_boundary U (concat pre @ g @ concat post) (length (concat pre) + length g) = length (concat pre)"
    "next_boundary U (concat pre @ g @ concat post) (length (concat pre)) = length (concat pre) + length g"
    using steps by (simp_all add: t)
  show ?thesis using g by (simp add: backspace_def delete_forward_def Let_def t t')
qed

text \<open>Typing inserts before the cursor and nothing else; one step into the history and back restores the
  draft.\<close>

theorem history_returns_to_draft:
  assumes "ed_history ed \<noteq> []" and "ed_history_index ed = None"
  shows "ed_text (previous_history ed) = last (ed_history ed) \<and>
     ed_text (next_history (previous_history ed)) = ed_text ed \<and>
     ed_history_index (next_history (previous_history ed)) = None \<and>
     ed_history (next_history (previous_history ed)) = ed_history ed"
  using assms by (simp add: previous_history_def next_history_def recall_def set_text_def last_conv_nth)

section \<open>Where the cursor is shown\<close>

text \<open>The text before the cursor is wrapped on its own, and a line break at its end opens no line: after a
  new line has been typed the cursor is still shown behind the old one.\<close>

theorem trailing_newline_hides_cursor:
  "ed_text (insert_text [10] (new_editor [97] 1 200)) = [97, 10] \<and>
   ed_cursor (insert_text [10] (new_editor [97] 1 200)) = 2 \<and>
   render_editor ascii_unicode 10 None [62, 32] (insert_text [10] (new_editor [97] 1 200)) =
     Inr \<lparr>er_lines = [[62, 32, 97]], er_cursor_x = 3, er_cursor_y = 0\<rparr>"
proof -
  have plain: "strip_ansi [97, 10] = [97, 10]" "strip_ansi [97] = [97]" "strip_ansi [62, 32] = [62, 32]"
    by (simp_all add: escape_rest_def osc_rest_def csi_rest_def)
  have lines: "text_lines [97, 10] = [[97]]"
    by (simp add: text_lines_def line_break_def strip_break_def)
  have clusters: "graphemes ascii_unicode [97] = [[97]]" "graphemes ascii_unicode [62, 32] = [[62], [32]]"
    by (simp_all add: graphemes_def extends_cluster_def count_regional_def regional_indicator_def
        variation_selector_def emoji_modifier_def ZWJ_def ascii_unicode_def)
  have widths: "grapheme_width ascii_unicode [97] = 1" "grapheme_width ascii_unicode [62] = 1"
    "grapheme_width ascii_unicode [32] = 1"
    by (simp_all add: grapheme_width_def is_emoji_def codepoint_width_def ZWJ_def regional_indicator_def
        variation_selector_def emoji_modifier_def ascii_unicode_def)
  have cells: "cell_width ascii_unicode [62, 32] = 2" "cell_width ascii_unicode [97] = 1"
    by (simp_all add: cell_width_def plain text_width_def Let_def clusters advance_column_def widths del: strip_ansi.simps)
  show ?thesis
    by (simp add: insert_text_def new_editor_def clamp_cursor_def render_editor_def cells wrap_ansi_def plain lines
        wrap_line_def clusters widths prompted_def bindE_def Let_def del: strip_ansi.simps)
qed

end
