(* ===== verification/Spec2Isabelle.thy ===== *)
theory Spec2Isabelle
  imports Truncate BranchSummary AgentCorrect LoopTermination SecurityCorrect SessionFileCorrect ProviderCorrect SettingsCorrect FileToolsCorrect ReadToolCorrect MutationQueue AgentSessionCorrect TuiSurfaceCorrect TuiEditorCorrect
begin

text \<open>
  Verification library for pi-agent-python, a coding agent: a model calls tools, a loop runs them
  and asks again, and the conversation is kept in a session that can branch and be compacted.  The
  theories model the parts of \<^verbatim>\<open>src/pi_agent/\<close> that decide what happens; this root imports them all.
  File names below are relative to \<^verbatim>\<open>src/pi_agent/\<close> (in the repository: \<^verbatim>\<open>src/src/pi_agent/\<close>), and a
  definition has the name of the function or class it models, with a suffix or a prefix where that
  name is taken in HOL (\<open>session_tree_of\<close>, \<open>t_name\<close>).

  CONVENTIONS

  \<open>Prelude\<close>, \<open>PyJson\<close>, \<open>PyFormat\<close>, \<open>Prog\<close>.  A Python \<^verbatim>\<open>str\<close> is the \<open>string\<close> of its UTF-8 bytes; where
  the code counts or cuts characters, it is the list of its code points (\<open>text\<close>).  Python integers
  are \<open>int\<close>, with no bound, as in Python; floats are \<open>pyfloat\<close>: exact rationals with infinities and
  NaN, so rounding is not modelled.  JSON values are \<open>json\<close>; an object is an association list in
  insertion order.  An exception is a value \<open>Exn class message\<close>; a function that may raise returns a
  sum, and \<open>bindE\<close> passes the error on.  Asynchronous code is a \<open>prog\<close>: from a state to \<open>None\<close> (it
  does not return) or to a result or exception with the state reached; a program that raises keeps
  its changes.  \<open>wp\<close> and \<open>returns\<close> are the partial and the total half of its correctness.  What lies
  outside a component -- a provider, a tool, a hook, the clock, a file system, a TOML parser, a
  summarizer -- is an argument; where a theorem needs something of it, that is a named hypothesis,
  and the witness of the theorem gives a concrete one.

  THE AGENT

  \<open>Messages\<close> (\<^verbatim>\<open>ai/types.py\<close>): content, usage, the three messages and their JSON form.  \<open>Models\<close>
  (\<^verbatim>\<open>ai/types.py\<close>, \<^verbatim>\<open>ai/events.py\<close>): models, price tiers, requests, provider events.  \<open>EventStream\<close>
  (\<^verbatim>\<open>ai/event_stream.py\<close>): a producer, a queue, futures of readers that wait; \<open>channel_step\<close> is one
  step of any interleaving of a producer with a reader.  \<open>Schema\<close> (\<^verbatim>\<open>agent/schema.py\<close>): validation of
  tool arguments; \<^verbatim>\<open>re.search\<close> is an argument.  \<open>AgentTypes\<close> (\<^verbatim>\<open>agent/types.py\<close>, \<^verbatim>\<open>agent/events.py\<close>):
  tools, hooks, configuration, events, and \<open>run_state\<close>, the state of a run: the world, the emitted
  events, the context and the new messages.  \<open>ToolBatch\<close> and \<open>AgentLoop\<close>
  (\<^verbatim>\<open>agent/agent_loop.py\<close>): preparing, running and recording the tool calls of one message,
  concurrent tasks being interleaved by an arbitrary schedule; streaming an answer; turns; steering
  and follow-up messages; the failure path.  \<open>Queues\<close> (\<^verbatim>\<open>agent/queues.py\<close>) and \<open>Agent\<close>
  (\<^verbatim>\<open>agent/agent.py\<close>): the object that owns transcript, queues and listeners and starts runs.

  \<open>AgentTrace\<close> specifies the event life cycle as an automaton and gives the vocabulary of the
  proofs (\<open>adds\<close>, \<open>spec\<close>); \<open>ToolBatchCorrect\<close> and \<open>AgentLoopCorrect\<close> show that batches and runs
  follow it whatever tools, hooks and schedules do; \<open>QuietRuns\<close> extends this to sinks that may
  raise.  \<open>RunRelation\<close> and \<open>LoopRelation\<close> give the induction principle for whole runs, as the
  locale \<open>run_relation\<close>: a reflexive and transitive relation that hooks, tools and sink respect is
  respected by the run.  \<open>AgentCorrect\<close> interprets it with \<open>mirrors\<close> (the agent's transcript follows
  the announced messages) and \<open>LoopTermination\<close> with \<open>measure_rel\<close>.  The nested \<^verbatim>\<open>while\<close> loops of a
  run need not end, as the model may ask for tools for ever; they take a fuel argument, and
  \<open>LoopTermination\<close> shows that with a measure of the world that drops with each round of tools and
  each drained queue, a fuel of \<open>2 * mu w + 2\<close> is enough and more fuel changes nothing.

  SESSIONS

  \<open>SessionCodec\<close> (\<^verbatim>\<open>harness/session/types.py\<close>, \<^verbatim>\<open>codec.py\<close>): records and their JSON form.
  \<open>SessionChain\<close>: the parent chain of an entry, which all climbing loops are read off; the loops
  take a bound above the number of entries, and \<open>None\<close> is a climb that does not end.
  \<open>SessionStore\<close> (\<^verbatim>\<open>store.py\<close>): \<^verbatim>\<open>validate_records\<close> with its declarative counterpart \<open>valid_session\<close>,
  the store in memory, and the locale \<open>session_store\<close>, the contract of a store.  \<open>SessionTree\<close>
  (\<^verbatim>\<open>tree.py\<close>), \<open>SessionManager\<close> (\<^verbatim>\<open>manager.py\<close>) and \<open>SessionContext\<close> (\<^verbatim>\<open>context.py\<close>): paths, branches,
  navigation, and the context rebuilt from a path, compaction entries included.  \<open>SessionFile\<close> and
  \<open>SessionFileCorrect\<close>: the JSONL store, over the bytes of the file; it implements \<open>session_store\<close>
  and survives an append that was cut short at any byte.  \<open>Compaction\<close>, \<open>CompactionCorrect\<close> and
  \<open>BranchSummary\<close> (\<^verbatim>\<open>harness/compaction/\<close>): token estimates, cut points, preparation, the summary
  with its retries, the compaction of a session, the gate in front of the provider, and the summary
  of a branch that is left.

  TEXT, PROVIDER, SETTINGS

  \<open>JsonText\<close>, \<open>JsonRead\<close>, \<open>JsonRoundTrip\<close>, \<open>JsonLayout\<close>: \<^verbatim>\<open>json.dumps\<close> in the styles the code uses and
  \<^verbatim>\<open>json.loads\<close>, with the round trip; the reader takes the length of the text plus one as its fuel,
  which is enough as each value consumes a character.  \<open>JsonPartial\<close> and \<open>JsonPartialCorrect\<close>
  (\<^verbatim>\<open>ai/json_parse.py\<close>): the streaming parser, with twice the length plus one as fuel, and the order
  \<open>approx\<close> in which it approximates.  \<open>Retry\<close> (\<^verbatim>\<open>ai/errors.py\<close>, \<^verbatim>\<open>ai/retry.py\<close>), \<open>Provider\<close>,
  \<open>ProviderStream\<close> and \<open>ProviderCorrect\<close> (\<^verbatim>\<open>ai/openai_compatible.py\<close>): the request, the reading of
  response lines into events, completion, failures, and the attempts with their delays.  \<open>Settings\<close>
  and \<open>SettingsCorrect\<close> (\<^verbatim>\<open>coding_agent/settings.py\<close>): the table of settings, layers, coercions,
  resolution and saved documents.

  TOOLS, FILES AND SECURITY

  \<open>Truncate\<close> (\<^verbatim>\<open>harness/truncate.py\<close>): what a tool shows of a long output.  \<open>PyText\<close>: the text
  operations of Python that the tools use.  \<open>FileEnv\<close> (\<^verbatim>\<open>harness/types.py\<close>, \<^verbatim>\<open>path_utils.py\<close>,
  \<^verbatim>\<open>result.py\<close>, \<^verbatim>\<open>tools/common.py\<close>): the environment that tools see, its errors, and the paths they
  are given; \<open>LocalEnv\<close> (\<^verbatim>\<open>harness/environment.py\<close>): its local implementation over calls of the
  operating system, which are the fields of the record \<open>os_calls\<close>.  \<open>FileStore\<close>: the locales
  \<open>posix_files\<close> (documented behaviour of those calls), \<open>local_files\<close> and \<open>file_store\<close> (what the tools
  need), interpreted on a concrete disk.  \<open>FileTools\<close> and \<open>FileToolsCorrect\<close>
  (\<^verbatim>\<open>harness/tools/edit.py\<close>, \<^verbatim>\<open>write.py\<close>): only the addressed file changes, as a whole, and an edit
  replaces exactly the text it names.  \<open>ImageType\<close> (\<^verbatim>\<open>harness/image.py\<close>), \<open>ReadTool\<close> and
  \<open>ReadToolCorrect\<close> (\<^verbatim>\<open>harness/tools/read.py\<close>, \<^verbatim>\<open>bash.py\<close>): the renderings of files and of command
  output, and that the pages a reader is led through spell the file.  \<open>MutationQueue\<close>
  (\<^verbatim>\<open>harness/mutation_queue.py\<close>): the locks of files as a system of tasks under any interleaving.
  \<open>Patterns\<close>, \<open>Security\<close> and \<open>SecurityCorrect\<close> (\<^verbatim>\<open>security/\<close>): Python's \<^verbatim>\<open>re\<close>, \<^verbatim>\<open>shlex\<close> and \<^verbatim>\<open>fnmatch\<close> as
  far as the code uses them, classification of requests, policy, grants, the approval manager as a
  program and as a system of concurrent calls (\<open>approval_step\<close>), guarded tools and the audit trail.

  THE PRODUCT SESSION

  \<open>AgentSession\<close> (\<^verbatim>\<open>coding_agent/agent_session.py\<close>, \<^verbatim>\<open>harness/result.py\<close>): an agent whose outside holds
  a session manager; prompts, persistence of the agent's events, compaction between turns and on
  demand, models and levels, branches, sessions, queues, closing.  \<open>SessionRecords\<close> gives the effect
  of each manager call in the form this needs; \<open>AgentSessionCorrect\<close> interprets \<open>run_relation\<close> with
  \<open>follows\<close> (the session has recorded what the run announced) and shows that prompts are recorded or
  refused loudly, also when the run fails, that navigation leaves the agent with the model, the level
  and the messages of the branch, and that a busy or closed session refuses.

  TERMINAL TEXT

  \<open>TuiWidth\<close> (\<^verbatim>\<open>tui/width.py\<close>): grapheme clusters and their widths, clipping, padding and wrapping, and
  the removal of escape sequences; wrapping loses nothing and breaks only between clusters, clipping
  keeps the longest prefix that fits.  \<open>TuiSurface\<close> and \<open>TuiSurfaceCorrect\<close> (\<^verbatim>\<open>tui/surface.py\<close>,
  \<^verbatim>\<open>tui/types.py\<close>): the grid of cells; drawing keeps wide glyphs whole, and the reported differences
  between two frames cover every cell that changed.  \<open>TuiEditor\<close> and \<open>TuiEditorCorrect\<close>
  (\<^verbatim>\<open>tui/editor.py\<close>): the line editor; its cursor stays in the text, deletion takes whole clusters.

  WHAT THE LEMMAS SHOW

  Each component has its invariant and the lemmas that its operations keep it (\<open>manager_ok\<close>,
  \<open>channel_ok\<close>, \<open>system_ok\<close>, \<open>response_ok\<close>), the functional behaviour of its operations with their
  error branches, and, where it has a contract, the refinement (\<open>session_store\<close>, \<open>message_source\<close>,
  \<open>channel_step\<close> against a list, the provider's events against \<open>closed_response\<close>).  Specifications are
  written beside the model, not with it: the warnings of validation against \<open>missing_result\<close> and
  \<open>calls_in_order\<close>, the pages of a file against \<open>page_shown\<close>, the context of a compacted session
  against \<open>compacted_context\<close>, the agent on a branch against \<open>shows_model\<close> and \<open>shows_level\<close>.  Theorems whose
  conclusion is a surprise -- an error that escapes, a message that is lost, a wait without an end --
  are stated as the code behaves and are listed as findings of the manifest.

  NOT MODELLED

  The rest of the terminal user interface, telemetry, the command line, the RPC and print modes, packages and
  extensions, images and attachments: they present, measure or transport what the modelled parts
  decide, or call the operating system.  HTTP and subprocess transport, the clock and random
  identifiers are arguments; closing the response of a provider and waiting for a running agent in
  \<^verbatim>\<open>close\<close> are taken to succeed at once.  Rounding of floats, memory limits, recursion limits and
  cancellation at an arbitrary \<^verbatim>\<open>await\<close> are not modelled; cancellation is seen where the code asks for
  it.  A list of messages queued as if it were one message is replaced by an error.  The compaction
  theorems are about sessions in memory without hooks before and after a compaction.
\<close>

end
